(* ===== verification/Prelude.thy ===== *)
theory Prelude
  imports Main "HOL-Library.AList" "HOL-Library.List_Lexorder" "HOL-Library.Char_ord"
begin

text \<open>
  Shared vocabulary of the development: results of fallible operations, Python
  dictionaries as association lists in insertion order, strings, sorting by a key,
  and the lemma collections the component theories rewrite with.

  A Python \<open>str\<close> is a \<^typ>\<open>string\<close> whose characters are its code points; the model
  covers the code points below 256.  A \<open>dict\<close> is an association list with distinct
  keys: \<^const>\<open>AList.update\<close> overwrites in place or appends, which is what
  \<open>d[k] = v\<close> does to the iteration order.
\<close>

named_theorems result_simps "equations of the result combinators"
named_theorems dict_simps "equations of Python dictionaries"

subsection \<open>Results\<close>

type_synonym ('e, 'a) result = "'e + 'a"

definition bindE :: "'e + 'a \<Rightarrow> ('a \<Rightarrow> 'e + 'b) \<Rightarrow> 'e + 'b" where
  "bindE r f = (case r of Inl e \<Rightarrow> Inl e | Inr x \<Rightarrow> f x)"

lemma bindE_Inl [simp]: "bindE (Inl e) f = Inl e"
  by (simp add: bindE_def)

lemma bindE_Inr [simp]: "bindE (Inr x) f = f x"
  by (simp add: bindE_def)

lemma bindE_eq_Inr [result_simps]: "bindE r f = Inr y \<longleftrightarrow> (\<exists>x. r = Inr x \<and> f x = Inr y)"
  by (cases r) auto

lemma bindE_eq_Inl [result_simps]:
  "bindE r f = Inl e \<longleftrightarrow> r = Inl e \<or> (\<exists>x. r = Inr x \<and> f x = Inl e)"
  by (cases r) auto

lemma bindE_ex: "(\<exists>y. bindE r f = Inr y) \<longleftrightarrow> (\<exists>x. r = Inr x \<and> (\<exists>y. f x = Inr y))"
  by (cases r) auto

lemma bindE_cong [fundef_cong]:
  "r = s \<Longrightarrow> (\<And>x. s = Inr x \<Longrightarrow> f x = g x) \<Longrightarrow> bindE r f = bindE s g"
  by (cases s) auto

text \<open>A loop that stops at the first exception.\<close>

fun mapE :: "('a \<Rightarrow> 'e + 'b) \<Rightarrow> 'a list \<Rightarrow> 'e + 'b list" where
  "mapE f [] = Inr []"
| "mapE f (x # xs) = bindE (f x) (\<lambda>y. bindE (mapE f xs) (\<lambda>ys. Inr (y # ys)))"

lemma mapE_cong [fundef_cong]:
  "xs = ys \<Longrightarrow> (\<And>x. x \<in> set ys \<Longrightarrow> f x = g x) \<Longrightarrow> mapE f xs = mapE g ys"
  by (induction ys arbitrary: xs) auto

lemma mapE_Inr_all: "(\<And>x. x \<in> set xs \<Longrightarrow> f x = Inr (g x)) \<Longrightarrow> mapE f xs = Inr (map g xs)"
  by (induction xs) auto

lemma mapE_eq_Inr: "mapE f xs = Inr ys \<longleftrightarrow> list_all2 (\<lambda>x y. f x = Inr y) xs ys"
  by (induction xs arbitrary: ys) (auto simp: bindE_eq_Inr list_all2_Cons1)

lemma mapE_length: "mapE f xs = Inr ys \<Longrightarrow> length ys = length xs"
  by (auto simp: mapE_eq_Inr dest: list_all2_lengthD)

lemma mapE_map: "mapE f (map g xs) = mapE (\<lambda>x. f (g x)) xs"
  by (induction xs) auto

text \<open>A loop over a list that updates a state and may raise.\<close>

fun foldE :: "('a \<Rightarrow> 's \<Rightarrow> 'e + 's) \<Rightarrow> 'a list \<Rightarrow> 's \<Rightarrow> 'e + 's" where
  "foldE f [] s = Inr s"
| "foldE f (x # xs) s = bindE (f x s) (foldE f xs)"

lemma foldE_cong [fundef_cong]:
  "xs = ys \<Longrightarrow> s = t \<Longrightarrow> (\<And>x s. x \<in> set ys \<Longrightarrow> f x s = g x s) \<Longrightarrow> foldE f xs s = foldE g ys t"
  by (induction ys arbitrary: xs s t) (auto intro!: bindE_cong)

lemma foldE_append: "foldE f (xs @ ys) s = bindE (foldE f xs s) (foldE f ys)"
proof (induction xs arbitrary: s)
  case (Cons x xs)
  then show ?case by (cases "f x s") auto
qed simp

lemma foldE_each: "foldE f xs s = Inr t \<Longrightarrow> x \<in> set xs \<Longrightarrow> \<exists>u v. f x u = Inr v"
  by (induction xs arbitrary: s) (auto simp: bindE_eq_Inr)

text \<open>
  The invariant rule: \<open>I done s\<close> holds before the loop with nothing done, and each
  successful iteration carries it one element further.
\<close>

lemma foldE_invariant:
  assumes "foldE f xs s = Inr t" and "I [] s"
    and "\<And>x pre s s'. x \<in> set xs \<Longrightarrow> I pre s \<Longrightarrow> f x s = Inr s' \<Longrightarrow> I (pre @ [x]) s'"
  shows "I xs t"
proof -
  have "I (pre @ ys) t" if "foldE f ys s = Inr t" "I pre s" "set ys \<subseteq> set xs" for ys pre s
    using that
  proof (induction ys arbitrary: pre s)
    case (Cons y ys)
    then obtain s' where "f y s = Inr s'" "foldE f ys s' = Inr t"
      by (auto simp: bindE_eq_Inr)
    with Cons.IH [of s' "pre @ [y]"] Cons.prems assms(3) show ?case by auto
  qed simp
  from this [of xs s "[]"] assms show ?thesis by simp
qed

text \<open>
  Operations that may raise after having changed a state: the state comes back in both cases.
\<close>

definition bindS :: "('e + 'a) \<times> 'd \<Rightarrow> ('a \<Rightarrow> 'd \<Rightarrow> ('e + 'b) \<times> 'd) \<Rightarrow> ('e + 'b) \<times> 'd" where
  "bindS r f = (case r of (Inl e, d) \<Rightarrow> (Inl e, d) | (Inr x, d) \<Rightarrow> f x d)"

fun foldS :: "('a \<Rightarrow> 's \<Rightarrow> 'd \<Rightarrow> ('e + 's) \<times> 'd) \<Rightarrow> 'a list \<Rightarrow> 's \<Rightarrow> 'd \<Rightarrow> ('e + 's) \<times> 'd" where
  "foldS f [] s d = (Inr s, d)"
| "foldS f (x # xs) s d = bindS (f x s d) (foldS f xs)"

lemma bindS_simps [simp]: "bindS (Inl e, d) f = (Inl e, d)" "bindS (Inr x, d) f = f x d"
  by (simp_all add: bindS_def)

lemma bindS_eq_Inr [result_simps]:
  "bindS r f = (Inr y, d') \<longleftrightarrow> (\<exists>x d. r = (Inr x, d) \<and> f x d = (Inr y, d'))"
  by (auto simp: bindS_def split: sum.splits prod.splits)

lemma bindS_eq_Inl [result_simps]:
  "bindS r f = (Inl e, d') \<longleftrightarrow> r = (Inl e, d') \<or> (\<exists>x d. r = (Inr x, d) \<and> f x d = (Inl e, d'))"
  by (auto simp: bindS_def split: sum.splits prod.splits)

text \<open>What every step keeps, the loop keeps, whether it returns or raises.\<close>

lemma foldS_keeps:
  assumes "\<And>x s d. x \<in> set xs \<Longrightarrow> P d (snd (f x s d))" and "\<And>d. P d d"
    and "\<And>a b c. P a b \<Longrightarrow> P b c \<Longrightarrow> P a c"
  shows "P d (snd (foldS f xs s d))"
  using assms(1)
proof (induction xs arbitrary: s d)
  case (Cons x xs)
  obtain r d' where r: "f x s d = (r, d')" by fastforce
  then have "P d d'" using Cons.prems [where x = x and s = s and d = d] by simp
  moreover have "P d' (snd (foldS f xs s' d'))" for s'
    by (rule Cons.IH) (simp add: Cons.prems)
  ultimately show ?case by (cases r) (auto simp: r intro: assms(3))
qed (simp add: assms(2))

subsection \<open>Dictionaries\<close>

type_synonym ('k, 'v) dict = "('k \<times> 'v) list"

definition wf_dict :: "('k, 'v) dict \<Rightarrow> bool" where
  "wf_dict d \<longleftrightarrow> distinct (map fst d)"

definition dict_of :: "('k \<times> 'v) list \<Rightarrow> ('k, 'v) dict" where
  "dict_of xs = fold (\<lambda>(k, v). AList.update k v) xs []"

text \<open>\<open>d[k] for k in sorted(d)\<close>\<close>

definition sorted_keys :: "('k::linorder, 'v) dict \<Rightarrow> 'k list" where
  "sorted_keys d = sort (map fst d)"

definition sorted_values :: "('k::linorder, 'v) dict \<Rightarrow> 'v list" where
  "sorted_values d = map (\<lambda>k. the (map_of d k)) (sorted_keys d)"

lemma wf_dict_Nil [simp]: "wf_dict []"
  by (simp add: wf_dict_def)

lemma wf_dict_update [simp]: "wf_dict d \<Longrightarrow> wf_dict (AList.update k v d)"
  by (simp add: wf_dict_def distinct_update)

lemma wf_dict_delete [simp]: "wf_dict d \<Longrightarrow> wf_dict (AList.delete k d)"
  by (simp add: wf_dict_def distinct_delete)

lemma wf_dict_fold_update:
  "wf_dict d \<Longrightarrow> wf_dict (fold (\<lambda>(k, v). AList.update k v) xs d)"
  by (induction xs arbitrary: d) (auto split: prod.splits)

lemma wf_dict_of [simp]: "wf_dict (dict_of xs)"
  by (simp add: dict_of_def wf_dict_fold_update)

lemma map_of_fold_update:
  "map_of (fold (\<lambda>(k, v). AList.update k v) xs d) = map_of d ++ map_of (rev xs)"
  by (induction xs arbitrary: d)
    (auto simp: update_conv map_add_def fun_eq_iff split: option.splits prod.splits)

lemma map_of_dict_of: "map_of (dict_of xs) = map_of (rev xs)"
  by (simp add: dict_of_def map_of_fold_update)

lemma map_of_dict_of_distinct:
  assumes "distinct (map fst xs)"
  shows "map_of (dict_of xs) = map_of xs"
proof -
  have "map_of (rev xs) = map_of xs"
    using assms by (intro map_of_inject_set [THEN iffD2]) (auto simp: rev_map [symmetric])
  then show ?thesis by (simp add: map_of_dict_of)
qed

lemma update_fresh: "k \<notin> fst ` set d \<Longrightarrow> AList.update k v d = d @ [(k, v)]"
  by (induction d) auto

lemma fold_update_distinct:
  "distinct (map fst (d @ xs)) \<Longrightarrow> fold (\<lambda>(k, v). AList.update k v) xs d = d @ xs"
proof (induction xs arbitrary: d)
  case (Cons x xs)
  obtain k v where x: "x = (k, v)" by (cases x)
  with Cons.prems have "k \<notin> fst ` set d" by auto
  with Cons x show ?case by (simp add: update_fresh)
qed simp

lemma dict_of_distinct: "distinct (map fst xs) \<Longrightarrow> dict_of xs = xs"
  using fold_update_distinct [of "[]" xs] by (simp add: dict_of_def)

lemma set_sorted_keys [simp]: "set (sorted_keys d) = dom (map_of d)"
  by (simp add: sorted_keys_def dom_map_of_conv_image_fst)

lemma sorted_sorted_keys [simp]: "sorted (sorted_keys d)"
  by (simp add: sorted_keys_def)

lemma distinct_sorted_keys [simp]: "wf_dict d \<Longrightarrow> distinct (sorted_keys d)"
  by (simp add: sorted_keys_def wf_dict_def)

lemma sorted_keys_cong:
  assumes "wf_dict d" and "wf_dict e" and "dom (map_of d) = dom (map_of e)"
  shows "sorted_keys d = sorted_keys e"
  using assms by (intro sorted_distinct_set_unique) auto

lemma sorted_values_cong:
  assumes "wf_dict d" and "wf_dict e" and "map_of d = map_of e"
  shows "sorted_values d = sorted_values e"
  using assms sorted_keys_cong [of d e] by (simp add: sorted_values_def)

lemma mem_sorted_values: "wf_dict d \<Longrightarrow> v \<in> set (sorted_values d) \<longleftrightarrow> v \<in> ran (map_of d)"
  by (force simp: sorted_values_def ran_def image_iff)

lemma sort_key_fst_dict:
  assumes "wf_dict d"
  shows "sort_key fst d = map (\<lambda>k. (k, the (map_of d k))) (sorted_keys d)"
proof -
  have "map (\<lambda>p. (fst p, the (map_of d (fst p)))) (sort_key fst d) = sort_key fst d"
    using assms by (intro map_idI) (auto simp: wf_dict_def)
  moreover have "map fst (sort_key fst d) = sorted_keys d"
    using assms by (intro sorted_distinct_set_unique)
      (auto simp: wf_dict_def sorted_keys_def distinct_map dom_map_of_conv_image_fst)
  ultimately show ?thesis
    by (metis (no_types, lifting) comp_apply map_eq_conv map_map)
qed

lemma sort_key_map: "sort_key f (map g xs) = map g (sort_key (\<lambda>x. f (g x)) xs)"
proof (induction xs)
  case (Cons x xs)
  have "insort_key f (g x) (map g ys) = map g (insort_key (\<lambda>x. f (g x)) x ys)" for ys by (induction ys) auto
  with Cons show ?case by simp
qed simp

lemma sorted_keys_alt: "wf_dict d \<Longrightarrow> sorted_keys d = sorted_list_of_set (dom (map_of d))"
  by (intro sorted_distinct_set_unique)  (simp_all add: finite_dom_map_of)

lemma map_of_map_snd: "map_of (map (\<lambda>(k, v). (k, f v)) d) k = map_option f (map_of d k)"
  by (induction d) auto

text \<open>A dictionary built from the sorted values of another, keyed alike, is that dictionary.\<close>

lemma map_of_map_key:
  assumes "distinct ks" and "\<And>k. k \<in> set ks \<Longrightarrow> f (g k) = k"
  shows "map_of (map (\<lambda>v. (f v, v)) (map g ks)) = (\<lambda>k. if k \<in> set ks then Some (g k) else None)"
  using assms by (induction ks) (auto simp: fun_eq_iff)

subsection \<open>Python sequences and strings\<close>

text \<open>\<open>dict.fromkeys(xs)\<close>: the first occurrence of each value, in order.\<close>

fun dedup :: "'a list \<Rightarrow> 'a list" where
  "dedup [] = []"
| "dedup (x # xs) = x # filter (\<lambda>y. y \<noteq> x) (dedup xs)"

lemma set_dedup [simp]: "set (dedup xs) = set xs"
  by (induction xs) auto

lemma distinct_dedup [simp]: "distinct (dedup xs)"
  by (induction xs) auto

text \<open>Slices \<open>xs[a:b]\<close> and py_slice assignment \<open>xs[a:b] = ys\<close>, for \<open>0 \<le> a \<le> b\<close>.\<close>

definition py_slice :: "nat \<Rightarrow> nat \<Rightarrow> 'a list \<Rightarrow> 'a list" where
  "py_slice a b xs = take (b - a) (drop a xs)"

definition py_set_slice :: "nat \<Rightarrow> nat \<Rightarrow> 'a list \<Rightarrow> 'a list \<Rightarrow> 'a list" where
  "py_set_slice a b ys xs = take a xs @ ys @ drop b xs"

lemma length_py_slice [simp]: "length (py_slice a b xs) = min (b - a) (length xs - a)"
  by (simp add: py_slice_def min.commute)

lemma length_py_set_slice:
  "a \<le> b \<Longrightarrow> b \<le> length xs \<Longrightarrow> length ys = b - a \<Longrightarrow> length (py_set_slice a b ys xs) = length xs"
  by (simp add: py_set_slice_def)

lemma py_slice_set_same:
  "a \<le> b \<Longrightarrow> b \<le> length xs \<Longrightarrow> length ys = b - a \<Longrightarrow> py_slice a b (py_set_slice a b ys xs) = ys"
  by (simp add: py_slice_def py_set_slice_def)

lemma nth_py_slice: "i < b - a \<Longrightarrow> a + i < length xs \<Longrightarrow> py_slice a b xs ! i = xs ! (a + i)"
  by (simp add: py_slice_def)

lemma nth_py_set_slice:
  assumes "a \<le> b" and "b \<le> length xs" and "length ys = b - a" and "i < length xs"
  shows "py_set_slice a b ys xs ! i = (if a \<le> i \<and> i < b then ys ! (i - a) else xs ! i)"
  using assms by (auto simp: py_set_slice_def nth_append min_def)

lemma py_slice_set_other:
  assumes "a \<le> b" and "b \<le> length xs" and "length ys = b - a" and "d \<le> a \<or> b \<le> c"
  shows "py_slice c d (py_set_slice a b ys xs) = py_slice c d xs"
proof (rule nth_equalityI)
  show "length (py_slice c d (py_set_slice a b ys xs)) = length (py_slice c d xs)"
    using assms by (simp add: length_py_set_slice)
next
  fix i assume "i < length (py_slice c d (py_set_slice a b ys xs))"
  then have i: "i < d - c" "c + i < length xs"
    using assms by (auto simp: length_py_set_slice)
  then show "py_slice c d (py_set_slice a b ys xs) ! i = py_slice c d xs ! i"
    using assms by (auto simp: nth_py_slice nth_py_set_slice length_py_set_slice)
qed

text \<open>\<open>s.split(sep)\<close> for a one-character separator.\<close>

fun split_on :: "char \<Rightarrow> string \<Rightarrow> string list" where
  "split_on c [] = [[]]"
| "split_on c (x # xs) =
     (if x = c then [] # split_on c xs
      else (case split_on c xs of [] \<Rightarrow> [[x]] | w # ws \<Rightarrow> (x # w) # ws))"

fun join :: "string \<Rightarrow> string list \<Rightarrow> string" where
  "join sep [] = []"
| "join sep [x] = x"
| "join sep (x # y # xs) = x @ sep @ join sep (y # xs)"

definition startswith :: "string \<Rightarrow> string \<Rightarrow> bool" where
  "startswith s p \<longleftrightarrow> take (length p) s = p"

definition endswith :: "string \<Rightarrow> string \<Rightarrow> bool" where
  "endswith s p \<longleftrightarrow> length p \<le> length s \<and> drop (length s - length p) s = p"

text \<open>\<open>str(n)\<close> of an integer.\<close>

fun show_nat :: "nat \<Rightarrow> string" where
  "show_nat n = (if n < 10 then [char_of (48 + n)] else show_nat (n div 10) @ [char_of (48 + n mod 10)])"

declare show_nat.simps [simp del]

definition show_int :: "int \<Rightarrow> string" where
  "show_int i = (if i < 0 then ''-'' @ show_nat (nat (- i)) else show_nat (nat i))"

text \<open>Python's whitespace below code point 256.\<close>

definition is_space :: "char \<Rightarrow> bool" where
  "is_space c \<longleftrightarrow> of_char c \<in> {9..13::nat} \<or> of_char c \<in> {28..32::nat}
     \<or> of_char c = (133::nat) \<or> of_char c = (160::nat)"

definition strip :: "string \<Rightarrow> string" where
  "strip s = rev (dropWhile is_space (rev (dropWhile is_space s)))"

lemma strip_ends: "strip s \<noteq> [] \<Longrightarrow> \<not> is_space (hd (strip s)) \<and> \<not> is_space (last (strip s))"
proof -
  define t where "t = dropWhile is_space s"
  assume "strip s \<noteq> []"
  then have ne: "dropWhile is_space (rev t) \<noteq> []" by (simp add: strip_def t_def)
  then have "\<not> is_space (last (strip s))"
    using hd_dropWhile [OF ne] by (simp add: strip_def t_def last_rev)
  moreover have "hd (strip s) = hd t"
  proof -
    have "rev t = takeWhile is_space (rev t) @ dropWhile is_space (rev t)" by simp
    then have "t = strip s @ rev (takeWhile is_space (rev t))"
      by (metis rev_append rev_rev_ident strip_def t_def)
    then show ?thesis
      by (metis \<open>strip s \<noteq> []\<close> hd_append2)
  qed
  moreover have "t \<noteq> []" using ne by auto
  ultimately show ?thesis
    using hd_dropWhile [of is_space s] by (simp add: t_def)
qed

lemma dropWhile_hd: "xs \<noteq> [] \<Longrightarrow> \<not> P (hd xs) \<Longrightarrow> dropWhile P xs = xs"
  by (cases xs) auto

lemma strip_strip [simp]: "strip (strip s) = strip s"
proof (cases "strip s = []")
  case False
  with strip_ends [OF False] show ?thesis
    by (simp add: strip_def [of "strip s"] dropWhile_hd hd_rev)
next
  case True
  then show ?thesis by (simp only:) (simp add: strip_def)
qed

lemma split_on_ne [simp]: "split_on c s \<noteq> []"
  by (induction s) (auto split: list.splits)

lemma join_Cons: "xs \<noteq> [] \<Longrightarrow> join sep (x # xs) = x @ sep @ join sep xs"
  by (cases xs) auto

lemma join_split_on: "join [c] (split_on c s) = s"
proof (induction s)
  case (Cons x s)
  then show ?case
    by (cases "split_on c s") (auto simp: join_Cons, metis append_Cons join.simps(2) join_Cons)
qed simp

lemma split_on_no_sep: "w \<in> set (split_on c s) \<Longrightarrow> c \<notin> set w"
proof (induction s arbitrary: w)
  case (Cons x s)
  show ?case
    using Cons.prems by (auto split: if_splits list.splits dest: Cons.IH)
      (metis Cons.IH list.set_intros(1), metis Cons.IH list.set_intros(2))
qed simp

lemma split_on_append:
  "c \<notin> set w \<Longrightarrow> split_on c (w @ c # s) = w # split_on c s"
  by (induction w) auto

lemma split_on_single: "c \<notin> set w \<Longrightarrow> split_on c w = [w]"
  by (induction w) auto

lemma split_on_join:
  "ws \<noteq> [] \<Longrightarrow> (\<And>w. w \<in> set ws \<Longrightarrow> c \<notin> set w) \<Longrightarrow> split_on c (join [c] ws) = ws"
proof (induction ws)
  case (Cons w ws)
  then show ?case by (cases ws) (auto simp: split_on_append split_on_single)
qed simp

lemma startswith_iff: "startswith s p \<longleftrightarrow> (\<exists>t. s = p @ t)"
  by (metis append_eq_conv_conj append_take_drop_id startswith_def)

lemma startswith_append [simp]: "startswith (p @ t) p"
  by (auto simp: startswith_iff)

end
