(* ===== verification/SaveContainers.thy ===== *)
theory SaveContainers
  imports Prelude
begin

text \<open>
  \<open>src/romcloud/core/save_containers.py\<close>: logical save containers and the three-way
  planning rule every container format shares.  A physical container becomes a
  \<open>container_snapshot\<close>; its entries are grouped into merge domains (one per game), and
  \<open>plan_container_reconcile\<close> decides each domain against the last converged baseline.
  Only this module's pure part lives here; the format adapter is in theory \<open>Ps1Card\<close>.
\<close>

subsection \<open>Data\<close>

datatype opaque_reason =
    UNSUPPORTED_FORMAT
  | UNSUPPORTED_PS1_CARD_SIZE
  | MALFORMED_CHAIN
  | CHECKSUM_FAILURE
  | DUPLICATE_IDENTITY
  | AMBIGUOUS_NAMESPACE
  | PS1_BROKEN_SECTOR_MAPPING
  | INSUFFICIENT_VERIFIED_FREE_CAPACITY
  | UNSUPPORTED_PS2_FILE_CARD
  | AMBIGUOUS_PS2_FOLDER_GROUPING
  | SYMLINK_OR_PATH_SUBSTITUTION
  | ADAPTER_VERSION_MISMATCH
  | SOURCE_CHANGED_DURING_STAGING
  | VALIDATION_FAILURE
  | LOGICAL_BASELINE_REQUIRED

text \<open>
  The exceptions of the container code: \<open>OpaqueContainerError(reason, detail)\<close>, the
  \<open>ValueError\<close> of \<open>target_snapshot\<close>, and the built-in exceptions an adapter can let
  through (\<open>OSError\<close> for an unreadable file, \<open>IndexError\<close>, \<open>KeyError\<close>).
\<close>

datatype container_error = Opaque opaque_reason string | BadSide | FileError | IndexError | KeyError

datatype entry_identity = EntryIdentity (id_value: string)

text \<open>\<open>@dataclass(order=True)\<close>: identities are ordered by their one field.\<close>

instantiation entry_identity :: linorder
begin

definition less_eq_entry_identity :: "entry_identity \<Rightarrow> entry_identity \<Rightarrow> bool" where
  "less_eq_entry_identity a b \<longleftrightarrow> id_value a \<le> id_value b"

definition less_entry_identity :: "entry_identity \<Rightarrow> entry_identity \<Rightarrow> bool" where
  "less_entry_identity a b \<longleftrightarrow> id_value a < id_value b"

instance
  by standard
    (auto simp: less_eq_entry_identity_def less_entry_identity_def entry_identity.expand)

end

record container_entry =
  ce_identity :: entry_identity
  ce_domain :: string
  ce_hash :: string
  ce_size :: int
  ce_locator :: string

record container_snapshot =
  cs_container_id :: string
  cs_adapter_id :: string
  cs_schema_version :: int
  cs_format_variant :: string
  cs_entries :: "container_entry list"

record logical_entry =
  le_identity :: string
  le_hash :: string
  le_size :: int

record logical_domain =
  ld_id :: string
  ld_entries :: "logical_entry list"

record container_baseline =
  cb_container_id :: string
  cb_adapter_id :: string
  cb_schema_version :: int
  cb_format_variant :: string
  cb_domains :: "logical_domain list"
  cb_tombstones :: "string list"

datatype domain_action = CONVERGED | USE_LOCAL | USE_REMOTE | CONFLICT

record domain_decision =
  dd_id :: string
  dd_action :: domain_action
  dd_baseline :: "logical_domain option"
  dd_local :: "logical_domain option"
  dd_remote :: "logical_domain option"

record reconcile_plan =
  rp_container_id :: string
  rp_decisions :: "domain_decision list"
  rp_desired_local :: "logical_domain list"
  rp_desired_remote :: "logical_domain list"
  rp_next_baseline :: container_baseline

definition plan_conflicts :: "reconcile_plan \<Rightarrow> domain_decision list" where
  "plan_conflicts p = filter (\<lambda>d. dd_action d = CONFLICT) (rp_decisions p)"

definition local_changes :: "reconcile_plan \<Rightarrow> domain_decision list" where
  "local_changes p = filter (\<lambda>d. dd_action d = USE_REMOTE) (rp_decisions p)"

definition remote_changes :: "reconcile_plan \<Rightarrow> domain_decision list" where
  "remote_changes p = filter (\<lambda>d. dd_action d = USE_LOCAL) (rp_decisions p)"

subsection \<open>Snapshots and their domains\<close>

definition entry_map :: "container_snapshot \<Rightarrow> (entry_identity, container_entry) dict" where
  "entry_map s = dict_of (map (\<lambda>e. (ce_identity e, e)) (cs_entries s))"

text \<open>\<open>domains.setdefault(entry.merge_domain_id, []).append(entry)\<close>\<close>

definition add_to_domain ::
  "container_entry \<Rightarrow> (string, container_entry list) dict \<Rightarrow> (string, container_entry list) dict"
where
  "add_to_domain e d =
     AList.update (ce_domain e) (case_option [] id (map_of d (ce_domain e)) @ [e]) d"

definition domain_map :: "container_snapshot \<Rightarrow> (string, container_entry list) dict" where
  "domain_map s =
     map (\<lambda>(k, vs). (k, sort_key (\<lambda>e. id_value (ce_identity e)) vs))
       (fold add_to_domain (cs_entries s) [])"

definition logical_of :: "container_entry \<Rightarrow> logical_entry" where
  "logical_of e =
     \<lparr>le_identity = id_value (ce_identity e), le_hash = ce_hash e, le_size = ce_size e\<rparr>"

definition snapshot_to_domains :: "container_snapshot \<Rightarrow> logical_domain list" where
  "snapshot_to_domains s =
     map (\<lambda>(k, es). \<lparr>ld_id = k, ld_entries = map logical_of es\<rparr>)
       (sort_key fst (domain_map s))"

definition baseline_from_snapshot :: "container_snapshot \<Rightarrow> string list \<Rightarrow> container_baseline" where
  "baseline_from_snapshot s tombstones =
     \<lparr>cb_container_id = cs_container_id s, cb_adapter_id = cs_adapter_id s,
      cb_schema_version = cs_schema_version s, cb_format_variant = cs_format_variant s,
      cb_domains = snapshot_to_domains s,
      cb_tombstones = sorted_list_of_set (set tombstones)\<rparr>"

definition index_domains :: "logical_domain list \<Rightarrow> (string, logical_domain) dict" where
  "index_domains ds = dict_of (map (\<lambda>d. (ld_id d, d)) ds)"

subsection \<open>Compatibility\<close>

definition snapshot_identity :: "container_snapshot \<Rightarrow> string \<times> string \<times> int \<times> string" where
  "snapshot_identity s =
     (cs_container_id s, cs_adapter_id s, cs_schema_version s, cs_format_variant s)"

definition baseline_identity :: "container_baseline \<Rightarrow> string \<times> string \<times> int \<times> string" where
  "baseline_identity b =
     (cb_container_id b, cb_adapter_id b, cb_schema_version b, cb_format_variant b)"

definition assert_compatible ::
  "container_snapshot \<Rightarrow> container_snapshot \<Rightarrow> container_baseline option
     \<Rightarrow> (container_error, unit) result"
where
  "assert_compatible l r base =
     (if card {snapshot_identity l, snapshot_identity r} \<noteq> 1
      then Inl (Opaque ADAPTER_VERSION_MISMATCH [])
      else (case base of
              None \<Rightarrow> Inr ()
            | Some b \<Rightarrow>
                if snapshot_identity l \<noteq> baseline_identity b
                then Inl (Opaque ADAPTER_VERSION_MISMATCH []) else Inr ()))"

subsection \<open>The three-way plan\<close>

text \<open>The mutable locals of \<open>plan_container_reconcile\<close>.\<close>

record plan_state =
  ps_decisions :: "domain_decision list"
  ps_local :: "(string, logical_domain) dict"
  ps_remote :: "(string, logical_domain) dict"
  ps_next :: "(string, logical_domain) dict"
  ps_tombstones :: "string set"

text \<open>\<open>if selected is None: d.pop(key, None) else: d[key] = selected\<close>\<close>

definition put :: "string \<Rightarrow> logical_domain option \<Rightarrow> (string, logical_domain) dict
    \<Rightarrow> (string, logical_domain) dict" where
  "put k sel d = (case sel of None \<Rightarrow> AList.delete k d | Some v \<Rightarrow> AList.update k v d)"

text \<open>One iteration of the loop of the \<open>baseline is None\<close> branch.\<close>

definition bootstrap_step ::
  "(string, logical_domain) dict \<Rightarrow> (string, logical_domain) dict \<Rightarrow> string \<Rightarrow> plan_state
     \<Rightarrow> plan_state"
where
  "bootstrap_step lm rm k st =
     (let l = map_of lm k; r = map_of rm k;
          (action, selected, dl, dr) =
            (if l = r then (CONVERGED, l, ps_local st, ps_remote st)
             else if r = None then
               (USE_LOCAL, l, ps_local st, AList.update k (the l) (ps_remote st))
             else if l = None then
               (USE_REMOTE, r, AList.update k (the r) (ps_local st), ps_remote st)
             else (CONFLICT, None, ps_local st, ps_remote st))
      in st\<lparr>ps_decisions := ps_decisions st @
              [\<lparr>dd_id = k, dd_action = action, dd_baseline = None, dd_local = l, dd_remote = r\<rparr>],
            ps_local := dl, ps_remote := dr,
            ps_next := (case selected of None \<Rightarrow> ps_next st
                        | Some v \<Rightarrow> AList.update k v (ps_next st))\<rparr>)"

text \<open>One iteration of the loop against a baseline.\<close>

definition reconcile_step ::
  "(string, logical_domain) dict \<Rightarrow> (string, logical_domain) dict \<Rightarrow> (string, logical_domain) dict
     \<Rightarrow> string \<Rightarrow> plan_state \<Rightarrow> plan_state"
where
  "reconcile_step bm lm rm k st =
     (let base = map_of bm k; l = map_of lm k; r = map_of rm k;
          (action, selected, dl, dr) =
            (if l = r then (CONVERGED, l, ps_local st, ps_remote st)
             else if l = base then (USE_REMOTE, r, put k r (ps_local st), ps_remote st)
             else if r = base then (USE_LOCAL, l, ps_local st, put k l (ps_remote st))
             else (CONFLICT, None, ps_local st, ps_remote st));
          st1 = st\<lparr>ps_decisions := ps_decisions st @
                     [\<lparr>dd_id = k, dd_action = action, dd_baseline = base,
                       dd_local = l, dd_remote = r\<rparr>],
                   ps_local := dl, ps_remote := dr\<rparr>
      in if action = CONFLICT then st1
         else st1\<lparr>ps_next := put k selected (ps_next st),
                  ps_tombstones :=
                    (if selected = None then insert k (ps_tombstones st)
                     else ps_tombstones st - {k})\<rparr>)"

definition finish_plan ::
  "container_snapshot \<Rightarrow> string \<times> string \<times> int \<times> string \<Rightarrow> plan_state \<Rightarrow> reconcile_plan"
where
  "finish_plan l ident st =
     \<lparr>rp_container_id = cs_container_id l, rp_decisions = ps_decisions st,
      rp_desired_local = sorted_values (ps_local st),
      rp_desired_remote = sorted_values (ps_remote st),
      rp_next_baseline =
        \<lparr>cb_container_id = fst ident, cb_adapter_id = fst (snd ident),
         cb_schema_version = fst (snd (snd ident)), cb_format_variant = snd (snd (snd ident)),
         cb_domains = sorted_values (ps_next st),
         cb_tombstones = sorted_list_of_set (ps_tombstones st)\<rparr>\<rparr>"

definition plan_container_reconcile ::
  "container_snapshot \<Rightarrow> container_snapshot \<Rightarrow> container_baseline option
     \<Rightarrow> (container_error, reconcile_plan) result"
where
  "plan_container_reconcile l r baseline =
     bindE (assert_compatible l r baseline) (\<lambda>_.
       let lm = index_domains (snapshot_to_domains l);
           rm = index_domains (snapshot_to_domains r)
       in case baseline of
            None \<Rightarrow>
              Inr (finish_plan l (snapshot_identity l)
                (fold (bootstrap_step lm rm)
                  (sorted_list_of_set (set (map fst lm) \<union> set (map fst rm)))
                  \<lparr>ps_decisions = [], ps_local = lm, ps_remote = rm, ps_next = [],
                   ps_tombstones = {}\<rparr>))
          | Some b \<Rightarrow>
              let bm = index_domains (cb_domains b)
              in Inr (finish_plan l (baseline_identity b)
                (fold (reconcile_step bm lm rm)
                  (sorted_list_of_set
                    (set (map fst bm) \<union> set (cb_tombstones b) \<union> set (map fst lm)
                       \<union> set (map fst rm)))
                  \<lparr>ps_decisions = [], ps_local = lm, ps_remote = rm, ps_next = bm,
                   ps_tombstones = set (cb_tombstones b)\<rparr>)))"

subsection \<open>Rehydrating a planned side\<close>

definition entry_matches :: "logical_domain \<Rightarrow> logical_entry \<Rightarrow> container_entry \<Rightarrow> bool" where
  "entry_matches d le e \<longleftrightarrow>
     id_value (ce_identity e) = le_identity le \<and> ce_domain e = ld_id d
     \<and> ce_hash e = le_hash le \<and> ce_size e = le_size le"

definition rehydrate ::
  "container_entry list \<Rightarrow> logical_domain \<Rightarrow> logical_entry
     \<Rightarrow> (container_error, container_entry) result"
where
  "rehydrate observed d le =
     (case filter (entry_matches d le) observed of
        [] \<Rightarrow> Inl (Opaque VALIDATION_FAILURE [])
      | e # _ \<Rightarrow> Inr e)"

definition target_snapshot ::
  "reconcile_plan \<Rightarrow> container_snapshot \<Rightarrow> container_snapshot \<Rightarrow> string
     \<Rightarrow> (container_error, container_snapshot) result"
where
  "target_snapshot p l r side =
     (if side \<noteq> ''local'' \<and> side \<noteq> ''remote'' then Inl BadSide
      else
        let desired = (if side = ''local'' then rp_desired_local p else rp_desired_remote p);
            observed = cs_entries l @ cs_entries r
        in bindE (mapE (\<lambda>d. mapE (rehydrate observed d) (ld_entries d)) desired) (\<lambda>ess.
             Inr \<lparr>cs_container_id = cs_container_id l, cs_adapter_id = cs_adapter_id l,
                  cs_schema_version = cs_schema_version l,
                  cs_format_variant = cs_format_variant l,
                  cs_entries =
                    sort_key (\<lambda>e. id_value (ce_identity e)) (concat ess)\<rparr>))"

subsection \<open>Dictionaries of domains\<close>

text \<open>A dictionary whose values carry their key.\<close>

definition keyed :: "(string, logical_domain) dict \<Rightarrow> bool" where
  "keyed d \<longleftrightarrow> wf_dict d \<and> (\<forall>k v. map_of d k = Some v \<longrightarrow> ld_id v = k)"

text \<open>The domain a list of domains holds under an id, as \<open>_domain_map(...).get\<close> sees it.\<close>

definition view :: "logical_domain list \<Rightarrow> string \<Rightarrow> logical_domain option" where
  "view ds = map_of (index_domains ds)"

definition baseline_view :: "container_baseline option \<Rightarrow> string \<Rightarrow> logical_domain option" where
  "baseline_view b = (case b of None \<Rightarrow> (\<lambda>_. None) | Some c \<Rightarrow> view (cb_domains c))"

lemma keyed_index_domains: "keyed (index_domains ds)"
  by (auto simp: keyed_def index_domains_def map_of_dict_of dest!: map_of_SomeD)

lemma map_of_put: "map_of (put k sel d) = (map_of d)(k := sel)"
  by (auto simp: put_def update_conv delete_conv split: option.splits)

lemma keyed_put: "keyed d \<Longrightarrow> (\<And>v. sel = Some v \<Longrightarrow> ld_id v = k) \<Longrightarrow> keyed (put k sel d)"
  unfolding keyed_def map_of_put
  by (auto simp: put_def split: option.splits if_splits)

lemma index_distinct: "distinct (map ld_id ds) \<Longrightarrow> view ds = map_of (map (\<lambda>d. (ld_id d, d)) ds)"
  by (simp add: view_def index_domains_def map_of_dict_of_distinct comp_def)

lemma map_ld_id_sorted_values:
  assumes "keyed d"
  shows "map ld_id (sorted_values d) = sorted_keys d"
proof -
  have "map ld_id (sorted_values d) = map (\<lambda>k. k) (sorted_keys d)"
    unfolding sorted_values_def map_map
    using assms by (intro map_cong) (auto simp: keyed_def)
  then show ?thesis by simp
qed

lemma view_sorted_values: 
  assumes "keyed d" shows "view (sorted_values d) = map_of d"
proof -
  have "view (sorted_values d) =
      map_of (map (\<lambda>v. (ld_id v, v)) (map (\<lambda>k. the (map_of d k)) (sorted_keys d)))"
    using assms map_ld_id_sorted_values [OF assms]
    by (simp add: index_distinct sorted_values_def keyed_def)
  also have "\<dots> = (\<lambda>k. if k \<in> set (sorted_keys d) then Some (the (map_of d k)) else None)"
    using assms by (intro map_of_map_key) (auto simp: keyed_def)
  also have "\<dots> = map_of d" by (rule ext) (auto simp: domIff)
  finally show ?thesis .
qed

lemma fold_add_to_domain:
  "map_of (fold add_to_domain es d) k =
     (let f = filter (\<lambda>e. ce_domain e = k) es
      in if f = [] then map_of d k else Some (case_option [] id (map_of d k) @ f))"
  by (induction es arbitrary: d)
    (auto simp: add_to_domain_def update_conv Let_def split: option.splits)

lemma wf_fold_add_to_domain: "wf_dict d \<Longrightarrow> wf_dict (fold add_to_domain es d)"
  by (induction es arbitrary: d) (auto simp: add_to_domain_def)

definition domain_of :: "container_entry list \<Rightarrow> string \<Rightarrow> logical_domain" where
  "domain_of es k =
     \<lparr>ld_id = k, ld_entries =
        map logical_of (sort_key (\<lambda>e. id_value (ce_identity e)) (filter (\<lambda>e. ce_domain e = k) es))\<rparr>"

lemma snapshot_to_domains_alt:
  "snapshot_to_domains s =
     map (domain_of (cs_entries s)) (sorted_list_of_set (ce_domain ` set (cs_entries s)))"
proof -
  let ?d = "domain_map s"
  have wf: "wf_dict ?d"
    using wf_fold_add_to_domain [of "[]" "cs_entries s"]
    by (simp add: domain_map_def wf_dict_def comp_def case_prod_beta)
  have look: "map_of ?d k =
      (if k \<in> ce_domain ` set (cs_entries s)
       then Some (sort_key (\<lambda>e. id_value (ce_identity e)) (filter (\<lambda>e. ce_domain e = k) (cs_entries s)))
       else None)" for k
    by (auto simp: domain_map_def map_of_map_snd fold_add_to_domain Let_def filter_empty_conv)
  have "dom (map_of ?d) = ce_domain ` set (cs_entries s)"
    by (auto simp: look dom_def split: if_splits)
  with wf have "sorted_keys ?d = sorted_list_of_set (ce_domain ` set (cs_entries s))"
    by (simp add: sorted_keys_alt)
  with wf show ?thesis
    by (simp add: snapshot_to_domains_def sort_key_fst_dict look domain_of_def)
qed

lemma view_snapshot:
  "view (snapshot_to_domains s) =
     (\<lambda>k. if k \<in> ce_domain ` set (cs_entries s) then Some (domain_of (cs_entries s) k) else None)"
proof -
  let ?ks = "sorted_list_of_set (ce_domain ` set (cs_entries s))"
  have "map ld_id (snapshot_to_domains s) = ?ks"
    by (simp add: snapshot_to_domains_alt comp_def domain_of_def)
  then have "view (snapshot_to_domains s) =
      map_of (map (\<lambda>v. (ld_id v, v)) (map (domain_of (cs_entries s)) ?ks))"
    by (simp add: index_distinct) (simp add: snapshot_to_domains_alt)
  also have "\<dots> = (\<lambda>k. if k \<in> set ?ks then Some (domain_of (cs_entries s) k) else None)"
    by (intro map_of_map_key) (auto simp: domain_of_def)
  finally show ?thesis by simp
qed

subsection \<open>What the loop computes\<close>

definition merge_action ::
  "logical_domain option \<Rightarrow> logical_domain option \<Rightarrow> logical_domain option \<Rightarrow> domain_action"
where
  "merge_action base l r =
     (if l = r then CONVERGED else if l = base then USE_REMOTE
      else if r = base then USE_LOCAL else CONFLICT)"

definition merged ::
  "'a \<Rightarrow> 'a \<Rightarrow> 'a \<Rightarrow> 'a \<Rightarrow> 'a"
where
  "merged own base l r = (if l = r then l else if l = base then r else if r = base then l else own)"

definition domain_action_of ::
  "(string, logical_domain) dict \<Rightarrow> (string, logical_domain) dict \<Rightarrow> (string, logical_domain) dict
     \<Rightarrow> string \<Rightarrow> domain_action"
where
  "domain_action_of bm lm rm k = merge_action (map_of bm k) (map_of lm k) (map_of rm k)"

definition decision_of ::
  "(string, logical_domain) dict \<Rightarrow> (string, logical_domain) dict \<Rightarrow> (string, logical_domain) dict
     \<Rightarrow> string \<Rightarrow> domain_decision"
where
  "decision_of bm lm rm k =
     \<lparr>dd_id = k, dd_action = domain_action_of bm lm rm k, dd_baseline = map_of bm k,
      dd_local = map_of lm k, dd_remote = map_of rm k\<rparr>"

definition next_of ::
  "(string, logical_domain) dict \<Rightarrow> (string, logical_domain) dict \<Rightarrow> (string, logical_domain) dict
     \<Rightarrow> string \<Rightarrow> logical_domain option"
where
  "next_of bm lm rm k = (if domain_action_of bm lm rm k = USE_REMOTE then map_of rm k else map_of lm k)"

lemma reconcile_step_eq:
  "reconcile_step bm lm rm k st =
     st\<lparr>ps_decisions := ps_decisions st @ [decision_of bm lm rm k],
        ps_local := (if domain_action_of bm lm rm k = USE_REMOTE
                     then put k (map_of rm k) (ps_local st) else ps_local st),
        ps_remote := (if domain_action_of bm lm rm k = USE_LOCAL
                      then put k (map_of lm k) (ps_remote st) else ps_remote st),
        ps_next := (if domain_action_of bm lm rm k = CONFLICT then ps_next st
                    else put k (next_of bm lm rm k) (ps_next st)),
        ps_tombstones := (if domain_action_of bm lm rm k = CONFLICT then ps_tombstones st
                    else if next_of bm lm rm k = None then insert k (ps_tombstones st)
                    else ps_tombstones st - {k})\<rparr>"
  by (simp add: reconcile_step_def Let_def next_of_def domain_action_of_def merge_action_def
      decision_of_def)

lemma reconcile_fold_local:
  "map_of (ps_local (fold (reconcile_step bm lm rm) ks st)) =
     (\<lambda>k. if k \<in> set ks \<and> domain_action_of bm lm rm k = USE_REMOTE then map_of rm k
          else map_of (ps_local st) k)"
  by (induction ks arbitrary: st) (simp_all add: reconcile_step_eq map_of_put fun_eq_iff)

lemma reconcile_fold_remote:
  "map_of (ps_remote (fold (reconcile_step bm lm rm) ks st)) =
     (\<lambda>k. if k \<in> set ks \<and> domain_action_of bm lm rm k = USE_LOCAL then map_of lm k
          else map_of (ps_remote st) k)"
  by (induction ks arbitrary: st) (simp_all add: reconcile_step_eq map_of_put fun_eq_iff)

lemma reconcile_fold_next:
  "map_of (ps_next (fold (reconcile_step bm lm rm) ks st)) =
     (\<lambda>k. if k \<in> set ks \<and> domain_action_of bm lm rm k \<noteq> CONFLICT then next_of bm lm rm k
          else map_of (ps_next st) k)"
  by (induction ks arbitrary: st) (simp_all add: reconcile_step_eq map_of_put fun_eq_iff)

lemma reconcile_fold_tombstones:
  "k \<in> ps_tombstones (fold (reconcile_step bm lm rm) ks st) \<longleftrightarrow>
     (if k \<in> set ks \<and> domain_action_of bm lm rm k \<noteq> CONFLICT then next_of bm lm rm k = None
      else k \<in> ps_tombstones st)"
  by (induction ks arbitrary: st) (auto simp add: reconcile_step_eq)

lemma reconcile_fold_decisions:
  "ps_decisions (fold (reconcile_step bm lm rm) ks st) =
     ps_decisions st @ map (decision_of bm lm rm) ks"
  by (induction ks arbitrary: st) (simp_all add: reconcile_step_eq)

lemma reconcile_fold_keyed:
  assumes "keyed lm" and "keyed rm" and "keyed (ps_local st)" and "keyed (ps_remote st)"
    and "keyed (ps_next st)"
  shows "keyed (ps_local (fold (reconcile_step bm lm rm) ks st))
    \<and> keyed (ps_remote (fold (reconcile_step bm lm rm) ks st))
    \<and> keyed (ps_next (fold (reconcile_step bm lm rm) ks st))"
  using assms
proof (induction ks arbitrary: st)
  case (Cons k ks)
  have "ld_id v = k" if "map_of lm k = Some v \<or> map_of rm k = Some v" for v
    using that Cons.prems by (auto simp: keyed_def)
  with Cons.prems show ?case
    by (simp del: fun_upd_apply, intro Cons.IH)
      (simp_all add: reconcile_step_eq keyed_put next_of_def)
qed simp

lemma bootstrap_step_eq:
  assumes "map_of lm k \<noteq> None \<or> map_of rm k \<noteq> None" and "ps_tombstones st = {}"
  shows "bootstrap_step lm rm k st = reconcile_step [] lm rm k st"
    and "ps_tombstones (bootstrap_step lm rm k st) = {}"
  using assms
  by (auto simp: bootstrap_step_def reconcile_step_def Let_def put_def split: option.splits)

lemma bootstrap_fold:
  assumes "\<And>k. k \<in> set ks \<Longrightarrow> map_of lm k \<noteq> None \<or> map_of rm k \<noteq> None" and "ps_tombstones st = {}"
  shows "fold (bootstrap_step lm rm) ks st = fold (reconcile_step [] lm rm) ks st"
  using assms
proof (induction ks arbitrary: st)
  case (Cons k ks)
  then show ?case using bootstrap_step_eq [of lm k rm st] by simp
qed simp

subsection \<open>The plan as a function of the three views\<close>

definition compatible ::
  "container_snapshot \<Rightarrow> container_snapshot \<Rightarrow> container_baseline option \<Rightarrow> bool"
where
  "compatible l r b \<longleftrightarrow> snapshot_identity l = snapshot_identity r
     \<and> (\<forall>c. b = Some c \<longrightarrow> baseline_identity c = snapshot_identity l)"

definition baseline_index :: "container_baseline option \<Rightarrow> (string, logical_domain) dict" where
  "baseline_index b = (case b of None \<Rightarrow> [] | Some c \<Rightarrow> index_domains (cb_domains c))"

definition baseline_tombstones :: "container_baseline option \<Rightarrow> string list" where
  "baseline_tombstones b = (case b of None \<Rightarrow> [] | Some c \<Rightarrow> cb_tombstones c)"

definition all_domains ::
  "container_snapshot \<Rightarrow> container_snapshot \<Rightarrow> container_baseline option \<Rightarrow> string set"
where
  "all_domains l r b =
     dom (baseline_view b) \<union> set (baseline_tombstones b)
     \<union> dom (view (snapshot_to_domains l)) \<union> dom (view (snapshot_to_domains r))"

definition planned_state ::
  "container_snapshot \<Rightarrow> container_snapshot \<Rightarrow> container_baseline option \<Rightarrow> plan_state"
where
  "planned_state l r b =
     (let lm = index_domains (snapshot_to_domains l); rm = index_domains (snapshot_to_domains r)
      in fold (reconcile_step (baseline_index b) lm rm)
           (sorted_list_of_set (all_domains l r b))
           \<lparr>ps_decisions = [], ps_local = lm, ps_remote = rm, ps_next = baseline_index b,
            ps_tombstones = set (baseline_tombstones b)\<rparr>)"

lemma baseline_view_index: "map_of (baseline_index b) = baseline_view b"
  by (cases b) (auto simp: baseline_index_def baseline_view_def view_def)

lemma keyed_baseline_index: "keyed (baseline_index b)"
  by (cases b) (auto simp: baseline_index_def keyed_index_domains, simp add: keyed_def)

lemma finite_all_domains [simp]: "finite (all_domains l r b)"
  by (cases b) (auto simp: all_domains_def baseline_view_def view_def finite_dom_map_of)

lemma assert_compatible_iff:
  "assert_compatible l r b =
     (if compatible l r b then Inr () else Inl (Opaque ADAPTER_VERSION_MISMATCH []))"
  by (auto simp: assert_compatible_def compatible_def card_Suc_eq card_insert_if
      split: option.splits)

lemma plan_eq:
  "plan_container_reconcile l r b =
     (if compatible l r b
      then Inr (finish_plan l (snapshot_identity l) (planned_state l r b))
      else Inl (Opaque ADAPTER_VERSION_MISMATCH []))"
proof (cases "compatible l r b")
  case True
  let ?lm = "index_domains (snapshot_to_domains l)"
  let ?rm = "index_domains (snapshot_to_domains r)"
  show ?thesis
  proof (cases b)
    case None
    have "fold (bootstrap_step ?lm ?rm) (sorted_list_of_set (dom (map_of ?lm) \<union> dom (map_of ?rm))) st
        = fold (reconcile_step [] ?lm ?rm) (sorted_list_of_set (dom (map_of ?lm) \<union> dom (map_of ?rm))) st"
      if "ps_tombstones st = {}" for st
      using that by (intro bootstrap_fold) (auto simp: finite_dom_map_of)
    with True None show ?thesis
      by (simp add: Let_def plan_container_reconcile_def assert_compatible_iff planned_state_def
          all_domains_def baseline_index_def baseline_tombstones_def baseline_view_def view_def
          dom_map_of_conv_image_fst [symmetric])
  next
    case (Some c)
    with True have "baseline_identity c = snapshot_identity l" by (simp add: compatible_def)
    with True Some show ?thesis
      by (simp add: Let_def plan_container_reconcile_def assert_compatible_iff planned_state_def
          all_domains_def baseline_index_def baseline_tombstones_def baseline_view_def view_def
          dom_map_of_conv_image_fst [symmetric])
  qed
qed (simp add: plan_container_reconcile_def assert_compatible_iff)

text \<open>The decision on a domain, from the three sides' views.\<close>

definition action_on ::
  "container_snapshot \<Rightarrow> container_snapshot \<Rightarrow> container_baseline option \<Rightarrow> string \<Rightarrow> domain_action"
where
  "action_on l r b k =
     merge_action (baseline_view b k) (view (snapshot_to_domains l) k)
       (view (snapshot_to_domains r) k)"

lemma domain_action_of_views:
  "domain_action_of (baseline_index b) (index_domains (snapshot_to_domains l))
     (index_domains (snapshot_to_domains r)) k = action_on l r b k"
  by (simp add: domain_action_of_def action_on_def baseline_view_index view_def)

lemma next_of_views:
  "next_of (baseline_index b) (index_domains (snapshot_to_domains l))
     (index_domains (snapshot_to_domains r)) k =
   (if action_on l r b k = USE_REMOTE then view (snapshot_to_domains r) k
    else view (snapshot_to_domains l) k)"
  by (simp add: next_of_def domain_action_of_views view_def)

lemma outside_all_domains:
  "k \<notin> all_domains l r b \<Longrightarrow> baseline_view b k = None \<and> view (snapshot_to_domains l) k = None
     \<and> view (snapshot_to_domains r) k = None"
  by (auto simp: all_domains_def)

lemma planned_keyed:
  "keyed (ps_local (planned_state l r b))"
  "keyed (ps_remote (planned_state l r b))"
  "keyed (ps_next (planned_state l r b))"
  using reconcile_fold_keyed [of "index_domains (snapshot_to_domains l)"
      "index_domains (snapshot_to_domains r)"
      "\<lparr>ps_decisions = [], ps_local = index_domains (snapshot_to_domains l),
        ps_remote = index_domains (snapshot_to_domains r), ps_next = baseline_index b,
        ps_tombstones = set (baseline_tombstones b)\<rparr>" "baseline_index b"]
  by (simp_all add: planned_state_def Let_def keyed_index_domains keyed_baseline_index)

lemma planned_maps:
  "map_of (ps_local (planned_state l r b)) =
     (\<lambda>k. if action_on l r b k = USE_REMOTE then view (snapshot_to_domains r) k
          else view (snapshot_to_domains l) k)"
  "map_of (ps_remote (planned_state l r b)) =
     (\<lambda>k. if action_on l r b k = USE_LOCAL then view (snapshot_to_domains l) k
          else view (snapshot_to_domains r) k)"
  "map_of (ps_next (planned_state l r b)) =
     (\<lambda>k. case action_on l r b k of
            CONFLICT \<Rightarrow> baseline_view b k
          | USE_REMOTE \<Rightarrow> view (snapshot_to_domains r) k
          | _ \<Rightarrow> view (snapshot_to_domains l) k)"
  using outside_all_domains [of _ l r b]
  by (auto simp: planned_state_def Let_def reconcile_fold_local reconcile_fold_remote
      reconcile_fold_next domain_action_of_views view_def [symmetric] baseline_view_index
      next_of_def fun_eq_iff split: domain_action.splits)

lemma planned_views:
  "view (rp_desired_local (finish_plan l i (planned_state l r b))) =
     (\<lambda>k. if action_on l r b k = USE_REMOTE then view (snapshot_to_domains r) k
          else view (snapshot_to_domains l) k)"
  "view (rp_desired_remote (finish_plan l i (planned_state l r b))) =
     (\<lambda>k. if action_on l r b k = USE_LOCAL then view (snapshot_to_domains l) k
          else view (snapshot_to_domains r) k)"
  "view (cb_domains (rp_next_baseline (finish_plan l i (planned_state l r b)))) =
     (\<lambda>k. case action_on l r b k of
            CONFLICT \<Rightarrow> baseline_view b k
          | USE_REMOTE \<Rightarrow> view (snapshot_to_domains r) k
          | _ \<Rightarrow> view (snapshot_to_domains l) k)"
  by (simp_all add: finish_plan_def view_sorted_values planned_keyed planned_maps)

lemma planned_decisions:
  "rp_decisions (finish_plan l i (planned_state l r b)) =
     map (\<lambda>k. \<lparr>dd_id = k, dd_action = action_on l r b k, dd_baseline = baseline_view b k,
               dd_local = view (snapshot_to_domains l) k,
               dd_remote = view (snapshot_to_domains r) k\<rparr>)
       (sorted_list_of_set (all_domains l r b))"
  by (simp add: finish_plan_def planned_state_def Let_def reconcile_fold_decisions decision_of_def
      domain_action_of_views baseline_view_index view_def)

lemma planned_tombstones:
  "set (cb_tombstones (rp_next_baseline (finish_plan l i (planned_state l r b)))) =
     {k. if k \<in> all_domains l r b \<and> action_on l r b k \<noteq> CONFLICT
         then (if action_on l r b k = USE_REMOTE then view (snapshot_to_domains r) k
               else view (snapshot_to_domains l) k) = None
         else k \<in> set (baseline_tombstones b)}" (is "_ = {k. ?P k}")
proof -
  have mem: "k \<in> ps_tombstones (planned_state l r b) \<longleftrightarrow> ?P k" for k
    by (simp add: planned_state_def Let_def reconcile_fold_tombstones domain_action_of_views
        next_of_views)
  have "k \<in> all_domains l r b" if "?P k" for k
    using that by (cases "k \<in> all_domains l r b") (simp_all add: all_domains_def)
  with mem have "ps_tombstones (planned_state l r b) \<subseteq> all_domains l r b"
    by blast
  then have "finite (ps_tombstones (planned_state l r b))"
    by (rule finite_subset) simp
  then have "set (cb_tombstones (rp_next_baseline (finish_plan l i (planned_state l r b))))
      = ps_tombstones (planned_state l r b)"
    by (simp add: finish_plan_def)
  also have "\<dots> = {k. ?P k}" using mem by blast
  finally show ?thesis .
qed

lemma planned_merged:
  defines "L l \<equiv> view (snapshot_to_domains l)"
  assumes "plan_container_reconcile l r b = Inr p"
  shows "view (rp_desired_local p) k = merged (L l k) (baseline_view b k) (L l k) (L r k)"
    and "view (rp_desired_remote p) k = merged (L r k) (baseline_view b k) (L l k) (L r k)"
    and "view (cb_domains (rp_next_baseline p)) k =
           merged (baseline_view b k) (baseline_view b k) (L l k) (L r k)"
  using assms(2)
  by (auto simp: plan_eq planned_views merged_def action_on_def merge_action_def L_def
      split: if_splits)

lemma plan_p:
  "plan_container_reconcile l r b = Inr p \<longleftrightarrow>
     compatible l r b \<and> p = finish_plan l (snapshot_identity l) (planned_state l r b)"
  by (auto simp: plan_eq)

lemma plan_decisions:
  "plan_container_reconcile l r b = Inr p \<Longrightarrow>
   rp_decisions p =
     map (\<lambda>k. \<lparr>dd_id = k, dd_action = action_on l r b k, dd_baseline = baseline_view b k,
               dd_local = view (snapshot_to_domains l) k,
               dd_remote = view (snapshot_to_domains r) k\<rparr>)
       (sorted_list_of_set (all_domains l r b))"
  by (simp add: plan_p planned_decisions)

text \<open>Two lists of planned domains with the same view are the same list.\<close>

lemma sorted_values_by_view:
  assumes "keyed d" and "keyed e" and "view (sorted_values d) = view (sorted_values e)"
  shows "sorted_values d = sorted_values e"
  using assms by (intro sorted_values_cong) (auto simp: view_sorted_values keyed_def)

lemma snapshot_domains_values:
  "\<exists>d. keyed d \<and> snapshot_to_domains s = sorted_values d"
proof -
  let ?d = "index_domains (snapshot_to_domains s)"
  let ?ks = "sorted_list_of_set (ce_domain ` set (cs_entries s))"
  have v: "map_of ?d = (\<lambda>k. if k \<in> ce_domain ` set (cs_entries s)
      then Some (domain_of (cs_entries s) k) else None)"
    using view_snapshot [of s] by (simp add: view_def)
  then have "dom (map_of ?d) = ce_domain ` set (cs_entries s)"
    by (auto simp: dom_def split: if_splits)
  then have "sorted_keys ?d = ?ks"
    using keyed_index_domains [of "snapshot_to_domains s"] by (simp add: sorted_keys_alt keyed_def)
  then have "sorted_values ?d = snapshot_to_domains s"
    by (simp add: sorted_values_def v) (simp add: snapshot_to_domains_alt)
  then show ?thesis
    using keyed_index_domains by metis
qed

lemma planned_converged:
  assumes "plan_container_reconcile l r b = Inr p" and "plan_conflicts p = []"
  shows "rp_desired_local p = rp_desired_remote p"
    and "rp_desired_local p = cb_domains (rp_next_baseline p)"
proof -
  have no: "action_on l r b k \<noteq> CONFLICT" for k
  proof (cases "k \<in> all_domains l r b")
    case True
    then show ?thesis
      using assms by (auto simp: plan_conflicts_def plan_decisions filter_empty_conv)
  next
    case False
    then show ?thesis
      using outside_all_domains [of k l r b] by (simp add: action_on_def merge_action_def)
  qed
  have v: "merged own (baseline_view b k) (view (snapshot_to_domains l) k)
       (view (snapshot_to_domains r) k)
     = merged own' (baseline_view b k) (view (snapshot_to_domains l) k)
       (view (snapshot_to_domains r) k)" for k own own'
    using no [of k] by (auto simp: merged_def action_on_def merge_action_def split: if_splits)
  then have "view (rp_desired_local p) = view (rp_desired_remote p)"
    and "view (rp_desired_local p) = view (cb_domains (rp_next_baseline p))"
    using planned_merged [OF assms(1)] by (auto simp: fun_eq_iff)
  then show "rp_desired_local p = rp_desired_remote p"
    and "rp_desired_local p = cb_domains (rp_next_baseline p)"
    using assms(1) by (auto simp: plan_p finish_plan_def intro!: sorted_values_by_view planned_keyed)
qed

subsection \<open>Rehydration\<close>

lemma logical_entries_of_snapshot:
  assumes "view (snapshot_to_domains s) k = Some d" and "le \<in> set (ld_entries d)"
  shows "\<exists>e \<in> set (cs_entries s). entry_matches d le e \<and> logical_of e = le"
  using assms
  by (auto simp: view_snapshot domain_of_def entry_matches_def logical_of_def split: if_splits) blast

lemma rehydrate_Inr:
  assumes "\<exists>e \<in> set observed. entry_matches d le e"
  shows "\<exists>e. rehydrate observed d le = Inr e \<and> e \<in> set observed \<and> logical_of e = le
     \<and> ce_domain e = ld_id d"
proof -
  obtain e es where "filter (entry_matches d le) observed = e # es"
    using assms by (metis filter_empty_conv neq_Nil_conv)
  moreover from this have "e \<in> set observed \<and> entry_matches d le e"
    by (metis (mono_tags, lifting) filter_eq_ConsD in_set_conv_decomp)
  ultimately show ?thesis
    by (auto simp: rehydrate_def logical_of_def entry_matches_def)
qed

lemma mapE_rehydrate:
  assumes "\<And>le. le \<in> set les \<Longrightarrow> \<exists>e \<in> set observed. entry_matches d le e"
  shows "\<exists>es. mapE (rehydrate observed d) les = Inr es \<and> map logical_of es = les
     \<and> (\<forall>e \<in> set es. ce_domain e = ld_id d)"
  using assms
proof (induction les)
  case (Cons le les)
  obtain e where "rehydrate observed d le = Inr e" "logical_of e = le" "ce_domain e = ld_id d"
    using rehydrate_Inr [of observed d le] Cons.prems by auto
  moreover obtain es where "mapE (rehydrate observed d) les = Inr es" "map logical_of es = les"
      "\<forall>e \<in> set es. ce_domain e = ld_id d"
    using Cons by auto
  ultimately show ?case by auto
qed simp

lemma mapE_rehydrate_all:
  assumes "\<And>d le. d \<in> set ds \<Longrightarrow> le \<in> set (ld_entries d) \<Longrightarrow>
      \<exists>e \<in> set observed. entry_matches d le e"
  shows "\<exists>ess. mapE (\<lambda>d. mapE (rehydrate observed d) (ld_entries d)) ds = Inr ess
     \<and> list_all2 (\<lambda>d es. map logical_of es = ld_entries d
          \<and> (\<forall>e \<in> set es. ce_domain e = ld_id d)) ds ess"
  using assms
proof (induction ds)
  case (Cons d ds)
  obtain es where "mapE (rehydrate observed d) (ld_entries d) = Inr es"
      "map logical_of es = ld_entries d" "\<forall>e \<in> set es. ce_domain e = ld_id d"
    using mapE_rehydrate [of "ld_entries d" observed d] Cons.prems by auto
  moreover obtain ess where
      "mapE (\<lambda>d. mapE (rehydrate observed d) (ld_entries d)) ds = Inr ess"
      "list_all2 (\<lambda>d es. map logical_of es = ld_entries d
          \<and> (\<forall>e \<in> set es. ce_domain e = ld_id d)) ds ess"
    using Cons by auto
  ultimately show ?case by auto
qed simp

text \<open>Grouping the rehydrated entries gives the desired domains back.\<close>

lemma filter_concat_domains:
  assumes "list_all2 (\<lambda>d es. map logical_of es = ld_entries d
      \<and> (\<forall>e \<in> set es. ce_domain e = ld_id d)) ds ess"
    and "distinct (map ld_id ds)" and "d \<in> set ds"
  shows "map logical_of (filter (\<lambda>e. ce_domain e = ld_id d) (concat ess)) = ld_entries d"
  using assms
proof (induction ds ess rule: list_all2_induct)
  case (Cons x ds es ess)
  have other: "filter (\<lambda>e. ce_domain e = ld_id x) (concat ess) = []"
    if "x \<notin> set ds \<and> ld_id x \<notin> ld_id ` set ds"
    using Cons.hyps(2) that by (induction rule: list_all2_induct) (auto simp: filter_empty_conv)
  show ?case
  proof (cases "d = x")
    case True
    with Cons other show ?thesis by (auto simp: filter_id_conv)
  next
    case False
    with Cons.prems have "ld_id d \<noteq> ld_id x" by (auto simp: image_iff)
    then have "filter (\<lambda>e. ce_domain e = ld_id d) es = []"
      using Cons.hyps(1) by (auto simp: filter_empty_conv)
    with Cons False show ?thesis by simp
  qed
qed simp

lemma domains_of_concat:
  assumes "list_all2 (\<lambda>d es. map logical_of es = ld_entries d
      \<and> (\<forall>e \<in> set es. ce_domain e = ld_id d)) ds ess"
    and "\<And>d. d \<in> set ds \<Longrightarrow> ld_entries d \<noteq> []"
  shows "ce_domain ` set (concat ess) = ld_id ` set ds"
  using assms
proof (induction ds ess rule: list_all2_induct)
  case (Cons d ds es ess)
  then have "es \<noteq> []" by fastforce
  with Cons.hyps(1) have "ce_domain ` set es = {ld_id d}"
    by (cases es) auto
  with Cons show ?case by (simp add: image_Un)
qed simp


lemma desired_keyed:
  assumes "plan_container_reconcile l r b = Inr p"
    and "ds = rp_desired_local p \<or> ds = rp_desired_remote p"
  shows "\<exists>m. keyed m \<and> ds = sorted_values m"
  using assms planned_keyed(1,2) [of l r b] by (auto simp: plan_p finish_plan_def)

lemma desired_entries_observed:
  assumes "plan_container_reconcile l r b = Inr p"
    and "ds = rp_desired_local p \<or> ds = rp_desired_remote p"
    and "d \<in> set ds"
  shows "view (snapshot_to_domains l) (ld_id d) = Some d
       \<or> view (snapshot_to_domains r) (ld_id d) = Some d"
proof -
  obtain m where m: "keyed m" "ds = sorted_values m"
    using desired_keyed [OF assms(1,2)] by blast
  then have "map_of m (ld_id d) = Some d"
    using assms(3) by (auto simp: mem_sorted_values keyed_def ran_def)
  with m have "view ds (ld_id d) = Some d" by (simp add: view_sorted_values)
  with assms(1,2) show ?thesis
    by (auto simp: plan_p planned_views split: if_splits)
qed

lemma sort_key_eq_Nil: "sort_key f xs = [] \<longleftrightarrow> xs = []"
  by (metis length_0_conv length_sort)

lemma sorted_domain_of: "sorted (map le_identity (ld_entries (domain_of es k)))"
  using sorted_sort_key [of "\<lambda>e. id_value (ce_identity e)" "filter (\<lambda>e. ce_domain e = k) es"]
  by (simp add: domain_of_def logical_of_def comp_def)

lemma domain_of_sorted:
  assumes "view (snapshot_to_domains s) k = Some d"
  shows "sorted (map le_identity (ld_entries d)) \<and> ld_entries d \<noteq> [] \<and> ld_id d = k"
proof -
  from assms have d: "d = domain_of (cs_entries s) k" and k: "k \<in> ce_domain ` set (cs_entries s)"
    by (auto simp: view_snapshot split: if_splits)
  from k have "ld_entries d \<noteq> []"
    by (auto simp: d domain_of_def sort_key_eq_Nil filter_empty_conv)
  then show ?thesis by (simp add: d sorted_domain_of) (simp add: domain_of_def)
qed

lemma target_snapshot_ok:
  assumes plan: "plan_container_reconcile l r b = Inr p"
    and side: "side = ''local'' \<and> ds = rp_desired_local p
             \<or> side = ''remote'' \<and> ds = rp_desired_remote p"
  shows "\<exists>t. target_snapshot p l r side = Inr t \<and> snapshot_to_domains t = ds
     \<and> snapshot_identity t = snapshot_identity l"
proof -
  let ?obs = "cs_entries l @ cs_entries r"
  let ?key = "\<lambda>e. id_value (ce_identity e)"
  have ds: "ds = rp_desired_local p \<or> ds = rp_desired_remote p" using side by blast
  have obs: "view (snapshot_to_domains l) (ld_id d) = Some d
       \<or> view (snapshot_to_domains r) (ld_id d) = Some d" if "d \<in> set ds" for d
    using desired_entries_observed [OF plan ds that] .
  obtain m where m: "keyed m" "ds = sorted_values m"
    using desired_keyed [OF plan ds] by blast
  then have ids: "map ld_id ds = sorted_keys m" by (simp add: map_ld_id_sorted_values)
  have "\<exists>e \<in> set ?obs. entry_matches d le e" if "d \<in> set ds" "le \<in> set (ld_entries d)" for d le
    using obs [OF that(1)] logical_entries_of_snapshot that(2) by fastforce
  then obtain ess where ess: "mapE (\<lambda>d. mapE (rehydrate ?obs d) (ld_entries d)) ds = Inr ess"
      and all2: "list_all2 (\<lambda>d es. map logical_of es = ld_entries d
          \<and> (\<forall>e \<in> set es. ce_domain e = ld_id d)) ds ess"
    using mapE_rehydrate_all [of ds ?obs] by blast
  define t where "t = \<lparr>cs_container_id = cs_container_id l, cs_adapter_id = cs_adapter_id l,
      cs_schema_version = cs_schema_version l, cs_format_variant = cs_format_variant l,
      cs_entries = sort_key ?key (concat ess)\<rparr>"
  have target: "target_snapshot p l r side = Inr t"
    using side ess by (auto simp: target_snapshot_def t_def)
  have ne: "ld_entries d \<noteq> []" if "d \<in> set ds" for d
    using obs [OF that] domain_of_sorted by blast
  have doms: "ce_domain ` set (cs_entries t) = ld_id ` set ds"
    using domains_of_concat [OF all2 ne] by (simp add: t_def)
  have dist: "distinct (map ld_id ds)" using m ids by (simp add: keyed_def)
  have dom: "domain_of (cs_entries t) (ld_id d) = d" if "d \<in> set ds" for d
  proof -
    let ?es = "filter (\<lambda>e. ce_domain e = ld_id d) (concat ess)"
    have es: "map logical_of ?es = ld_entries d"
      using filter_concat_domains [OF all2 dist that] .
    have "sorted (map ?key ?es)"
      using obs [OF that] domain_of_sorted [of _ "ld_id d" d] es [symmetric]
      by (auto simp: comp_def logical_of_def)
    then have "sort_key ?key ?es = ?es" by (rule sort_key_id_if_sorted)
    then have "sort_key ?key (filter (\<lambda>e. ce_domain e = ld_id d) (cs_entries t)) = ?es"
      by (simp add: t_def filter_sort)
    with es show ?thesis by (simp add: domain_of_def)
  qed
  have "sorted (map ld_id ds)" using ids by simp
  with dist have "sorted_list_of_set (set (map ld_id ds)) = map ld_id ds"
    by (simp only: sorted_list_of_set.idem_if_sorted_distinct)
  then have "sorted_list_of_set (ld_id ` set ds) = map ld_id ds" by simp
  then have "snapshot_to_domains t = map (\<lambda>d. domain_of (cs_entries t) (ld_id d)) ds"
    by (simp add: snapshot_to_domains_alt doms)
  also have "\<dots> = ds" using dom by (intro map_idI) auto
  finally show ?thesis using target by (auto simp: t_def snapshot_identity_def)
qed

lemma merge_action_merged:
  "merge_action (merged b b l r) (merged l b l r) (merged r b l r) =
     (if merge_action b l r = CONFLICT then CONFLICT else CONVERGED)"
  by (auto simp: merged_def merge_action_def)

lemma conflict_in_all_domains: "action_on l r b k = CONFLICT \<Longrightarrow> k \<in> all_domains l r b"
  using outside_all_domains [of k l r b]
  by (cases "k \<in> all_domains l r b") (auto simp: action_on_def merge_action_def)

lemma conflict_ids:
  assumes "plan_container_reconcile l r b = Inr p"
  shows "dd_id ` set (plan_conflicts p) = {k. action_on l r b k = CONFLICT}"
  using assms
  by (force simp: plan_conflicts_def plan_decisions conflict_in_all_domains)

lemma replan_stable:
  assumes "plan_container_reconcile l r b = Inr p"
  shows "\<exists>l' r' q. target_snapshot p l r ''local'' = Inr l' \<and> target_snapshot p l r ''remote'' = Inr r'
    \<and> plan_container_reconcile l' r' (Some (rp_next_baseline p)) = Inr q
    \<and> local_changes q = [] \<and> remote_changes q = []
    \<and> rp_desired_local q = rp_desired_local p \<and> rp_desired_remote q = rp_desired_remote p
    \<and> dd_id ` set (plan_conflicts q) = dd_id ` set (plan_conflicts p)"
proof -
  obtain l' where l': "target_snapshot p l r ''local'' = Inr l'"
      "snapshot_to_domains l' = rp_desired_local p" "snapshot_identity l' = snapshot_identity l"
    using target_snapshot_ok [OF assms, of "''local''"] by blast
  obtain r' where r': "target_snapshot p l r ''remote'' = Inr r'"
      "snapshot_to_domains r' = rp_desired_remote p" "snapshot_identity r' = snapshot_identity l"
    using target_snapshot_ok [OF assms, of "''remote''"] by blast
  let ?b = "Some (rp_next_baseline p)"
  have "baseline_identity (rp_next_baseline p) = snapshot_identity l"
    using assms by (simp add: plan_p finish_plan_def baseline_identity_def snapshot_identity_def)
  with l' r' have "compatible l' r' ?b" by (simp add: compatible_def)
  then obtain q where q: "plan_container_reconcile l' r' ?b = Inr q" by (simp add: plan_p)
  have nb: "baseline_view ?b = view (cb_domains (rp_next_baseline p))"
    by (simp add: baseline_view_def)
  have act: "action_on l' r' ?b k =
      (if action_on l r b k = CONFLICT then CONFLICT else CONVERGED)" for k
    by (simp add: action_on_def l' r' nb planned_merged [OF assms] merge_action_merged)
  have dec: "dd_action d = action_on l' r' ?b (dd_id d)" if "d \<in> set (rp_decisions q)" for d
    using that q by (auto simp: plan_decisions)
  have ch: "local_changes q = [] \<and> remote_changes q = []"
    using dec by (auto simp: local_changes_def remote_changes_def act filter_empty_conv)
  have "view (rp_desired_local q) = view (rp_desired_local p)"
    "view (rp_desired_remote q) = view (rp_desired_remote p)"
    using q by (auto simp: plan_p planned_views act l' r' fun_eq_iff)
  moreover obtain m n where "keyed m" "keyed n" "rp_desired_local q = sorted_values m"
      "rp_desired_local p = sorted_values n"
    using desired_keyed [OF q] desired_keyed [OF assms] by metis
  moreover obtain m' n' where "keyed m'" "keyed n'" "rp_desired_remote q = sorted_values m'"
      "rp_desired_remote p = sorted_values n'"
    using desired_keyed [OF q] desired_keyed [OF assms] by metis
  ultimately have same: "rp_desired_local q = rp_desired_local p"
      "rp_desired_remote q = rp_desired_remote p"
    using sorted_values_by_view by metis+
  have "dd_id ` set (plan_conflicts q) = dd_id ` set (plan_conflicts p)"
    by (auto simp: conflict_ids [OF q] conflict_ids [OF assms] act split: if_splits)
  with l' r' q ch same show ?thesis by blast
qed

subsection \<open>Properties\<close>

text \<open>
  C15: planning succeeds exactly on compatible inputs, and for every domain the
  planned local side, the planned remote side and the next baseline are the three-way merge of
  the two observed versions against the baseline: agreement keeps the version, a one-sided
  change (or deletion) wins, and a two-sided change leaves each side and the baseline as they
  were.
\<close>

theorem containers_three_way:
  assumes "compatible l r b"
  shows "\<exists>p. plan_container_reconcile l r b = Inr p \<and>
    (\<forall>k. let base = baseline_view b k; lv = view (snapshot_to_domains l) k;
             rv = view (snapshot_to_domains r) k
         in view (rp_desired_local p) k = merged lv base lv rv
          \<and> view (rp_desired_remote p) k = merged rv base lv rv
          \<and> view (cb_domains (rp_next_baseline p)) k = merged base base lv rv)"
  using assms planned_merged [of l r b] by (simp add: plan_p Let_def)

definition sample_entry :: "string \<Rightarrow> string \<Rightarrow> string \<Rightarrow> container_entry" where
  "sample_entry i d h = \<lparr>ce_identity = EntryIdentity i, ce_domain = d, ce_hash = h,
     ce_size = 8192, ce_locator = ''1''\<rparr>"

definition sample_snapshot :: "container_entry list \<Rightarrow> container_snapshot" where
  "sample_snapshot es = \<lparr>cs_container_id = ''card'', cs_adapter_id = ''ps1'',
     cs_schema_version = 1, cs_format_variant = ''raw'', cs_entries = es\<rparr>"

lemma containers_three_way_witness:
  "\<exists>p. plan_container_reconcile (sample_snapshot [sample_entry ''01'' ''A'' ''h1''])
        (sample_snapshot [sample_entry ''02'' ''B'' ''h2'']) None = Inr p
     \<and> view (rp_desired_local p) ''B'' = Some (domain_of [sample_entry ''02'' ''B'' ''h2''] ''B'')"
  using containers_three_way [of "sample_snapshot [sample_entry ''01'' ''A'' ''h1'']"
      "sample_snapshot [sample_entry ''02'' ''B'' ''h2'']" None]
  by (force simp: compatible_def sample_snapshot_def snapshot_identity_def sample_entry_def
      Let_def merged_def baseline_view_def view_snapshot)

text \<open>
  C16: a domain is reported as a conflict exactly when both sides changed it
  differently since the baseline, and then the plan leaves both versions, the baseline's
  version and its tombstone untouched; with no conflict the two planned sides are equal and are
  the next baseline.
\<close>

theorem containers_conflict_keeps_both:
  assumes "plan_container_reconcile l r b = Inr p"
  defines "lv \<equiv> view (snapshot_to_domains l)" and "rv \<equiv> view (snapshot_to_domains r)"
  shows "(k \<in> dd_id ` set (plan_conflicts p)
           \<longleftrightarrow> lv k \<noteq> rv k \<and> lv k \<noteq> baseline_view b k \<and> rv k \<noteq> baseline_view b k)
    \<and> (k \<in> dd_id ` set (plan_conflicts p) \<longrightarrow>
         view (rp_desired_local p) k = lv k \<and> view (rp_desired_remote p) k = rv k
         \<and> view (cb_domains (rp_next_baseline p)) k = baseline_view b k
         \<and> (k \<in> set (cb_tombstones (rp_next_baseline p)) \<longleftrightarrow> k \<in> set (baseline_tombstones b)))
    \<and> (plan_conflicts p = [] \<longrightarrow>
         rp_desired_local p = rp_desired_remote p
         \<and> rp_desired_local p = cb_domains (rp_next_baseline p))"
proof -
  have iff: "k \<in> dd_id ` set (plan_conflicts p) \<longleftrightarrow> action_on l r b k = CONFLICT"
    using conflict_ids [OF assms(1)] by blast
  have tomb: "k \<in> set (cb_tombstones (rp_next_baseline p)) \<longleftrightarrow> k \<in> set (baseline_tombstones b)"
    if "action_on l r b k = CONFLICT"
    using assms(1) that by (simp add: plan_p planned_tombstones)
  show ?thesis
    using iff tomb assms(1) planned_converged [OF assms(1)]
    by (auto simp: plan_p planned_views lv_def rv_def action_on_def merge_action_def
        split: if_splits)
qed

lemma containers_conflict_keeps_both_witness:
  "\<exists>p. plan_container_reconcile (sample_snapshot [sample_entry ''01'' ''A'' ''h1''])
        (sample_snapshot [sample_entry ''01'' ''A'' ''h2'']) None = Inr p
     \<and> ''A'' \<in> dd_id ` set (plan_conflicts p)"
proof -
  let ?l = "sample_snapshot [sample_entry ''01'' ''A'' ''h1'']"
  let ?r = "sample_snapshot [sample_entry ''01'' ''A'' ''h2'']"
  have "compatible ?l ?r None"
    by (simp add: compatible_def sample_snapshot_def snapshot_identity_def)
  then obtain p where p: "plan_container_reconcile ?l ?r None = Inr p"
    by (simp add: plan_p)
  show ?thesis
    using p containers_conflict_keeps_both [OF p, of "''A''"]
    by (simp add: baseline_view_def view_snapshot sample_snapshot_def sample_entry_def
        domain_of_def logical_of_def)
qed

text \<open>
  C17: applying a plan and planning again from its next baseline does
  nothing more: both targets can be rebuilt from the observed entries, the second plan moves no
  domain in either direction, its desired sides are the first plan's, and the conflicts that
  remain are the first plan's.
\<close>

theorem containers_replan_stable:
  assumes "plan_container_reconcile l r b = Inr p"
  shows "\<exists>l' r' q. target_snapshot p l r ''local'' = Inr l' \<and> target_snapshot p l r ''remote'' = Inr r'
    \<and> plan_container_reconcile l' r' (Some (rp_next_baseline p)) = Inr q
    \<and> local_changes q = [] \<and> remote_changes q = []
    \<and> rp_desired_local q = rp_desired_local p \<and> rp_desired_remote q = rp_desired_remote p
    \<and> dd_id ` set (plan_conflicts q) = dd_id ` set (plan_conflicts p)"
  using assms by (rule replan_stable)

lemma containers_replan_stable_witness:
  "\<exists>p. plan_container_reconcile (sample_snapshot [sample_entry ''01'' ''A'' ''h1''])
        (sample_snapshot [sample_entry ''02'' ''B'' ''h2'']) None = Inr p
     \<and> (\<exists>l'. target_snapshot p (sample_snapshot [sample_entry ''01'' ''A'' ''h1''])
          (sample_snapshot [sample_entry ''02'' ''B'' ''h2'']) ''local'' = Inr l')"
proof -
  let ?l = "sample_snapshot [sample_entry ''01'' ''A'' ''h1'']"
  let ?r = "sample_snapshot [sample_entry ''02'' ''B'' ''h2'']"
  have "compatible ?l ?r None"
    by (simp add: compatible_def sample_snapshot_def snapshot_identity_def)
  then obtain p where p: "plan_container_reconcile ?l ?r None = Inr p" by (simp add: plan_p)
  with containers_replan_stable [OF p] show ?thesis by blast
qed

text \<open>
  The separate first-run branch agrees with the general one: planning
  without a baseline is planning against an empty baseline of the same identity.
\<close>

theorem containers_bootstrap:
  "plan_container_reconcile l r None =
     plan_container_reconcile l r
       (Some \<lparr>cb_container_id = cs_container_id l, cb_adapter_id = cs_adapter_id l,
              cb_schema_version = cs_schema_version l, cb_format_variant = cs_format_variant l,
              cb_domains = [], cb_tombstones = []\<rparr>)"
  by (simp add: plan_eq compatible_def baseline_identity_def snapshot_identity_def
      planned_state_def all_domains_def baseline_index_def baseline_tombstones_def
      baseline_view_def view_def index_domains_def dict_of_def)

text \<open>
  rebuilding a planned side from the observed entries never fails, and the
  rebuilt snapshot has exactly the planned domains.
\<close>

theorem containers_target:
  assumes "plan_container_reconcile l r b = Inr p" and "side \<in> {''local'', ''remote''}"
  shows "\<exists>t. target_snapshot p l r side = Inr t
     \<and> snapshot_to_domains t =
         (if side = ''local'' then rp_desired_local p else rp_desired_remote p)
     \<and> snapshot_identity t = snapshot_identity l"
  using target_snapshot_ok [OF assms(1), of side] assms(2) by auto

lemma containers_target_witness:
  "\<exists>p t. plan_container_reconcile (sample_snapshot [sample_entry ''01'' ''A'' ''h1''])
        (sample_snapshot []) None = Inr p
     \<and> target_snapshot p (sample_snapshot [sample_entry ''01'' ''A'' ''h1''])
        (sample_snapshot []) ''remote'' = Inr t"
proof -
  let ?l = "sample_snapshot [sample_entry ''01'' ''A'' ''h1'']"
  have "compatible ?l (sample_snapshot []) None"
    by (simp add: compatible_def sample_snapshot_def snapshot_identity_def)
  then obtain p where p: "plan_container_reconcile ?l (sample_snapshot []) None = Inr p"
    by (simp add: plan_p)
  with containers_target [OF p, of "''remote''"] show ?thesis by blast
qed

end
