(* ===== verification/ContainerAdapter.thy ===== *)
theory ContainerAdapter
  imports SaveContainers
begin

text \<open>
  The adapter side of \<open>src/romcloud/core/save_containers.py\<close>: the records an adapter exchanges
  with its callers and the interface \<open>SaveContainerAdapter\<close> as a locale.  An adapter promises
  that a successful rebuild leaves a candidate whose snapshot has the planned content, and that
  it writes nothing else.  The lemma proved from these laws is what reconciliation relies on:
  rebuilding both planned sides and planning again finds nothing left to do.
\<close>

subsection \<open>Records\<close>

record probe_result =
  pr_supported :: bool
  pr_variant :: string
  pr_reason :: "opaque_reason option"

text \<open>\<open>ExtractedEntry.payload\<close> is \<open>Any\<close>: each adapter puts its own type there.\<close>

record 'p extracted_entry =
  xe_identity :: entry_identity
  xe_hash :: string
  xe_payload :: 'p

record 'p entry_replacement =
  er_entry :: container_entry
  er_extracted :: "'p extracted_entry"

record 'p rebuild_plan =
  bp_expected :: container_snapshot
  bp_replacements :: "'p entry_replacement list"
  bp_removals :: "entry_identity list"

record candidate_receipt =
  cr_path :: string
  cr_hash :: string
  cr_expected :: container_snapshot

record validation_report =
  vr_valid :: bool
  vr_snapshot :: "container_snapshot option"
  vr_reason :: "opaque_reason option"
  vr_detail :: string

text \<open>What validation compares: everything of an entry but its locator.\<close>

definition entry_content :: "container_entry \<Rightarrow> entry_identity \<times> string \<times> string \<times> int" where
  "entry_content e = (ce_identity e, ce_domain e, ce_hash e, ce_size e)"

definition same_content :: "container_snapshot \<Rightarrow> container_snapshot \<Rightarrow> bool" where
  "same_content s t \<longleftrightarrow> map entry_content (cs_entries s) = map entry_content (cs_entries t)"

subsection \<open>Domains depend on the content only\<close>

lemma map_insort_key: "map g (insort_key (\<lambda>x. f (g x)) x xs) = insort_key f (g x) (map g xs)"
  by (induction xs) auto

lemma map_sort_key: "map g (sort_key (\<lambda>x. f (g x)) xs) = sort_key f (map g xs)"
  by (induction xs) (simp_all add: map_insort_key)

lemma domains_by_content:
  assumes "same_content s t"
  shows "snapshot_to_domains s = snapshot_to_domains t"
proof -
  let ?log = "\<lambda>(i, d, h, n). \<lparr>le_identity = id_value i, le_hash = h, le_size = n\<rparr>"
  let ?id = "\<lambda>c :: entry_identity \<times> string \<times> string \<times> int. id_value (fst c)"
  have dom: "domain_of es k = \<lparr>ld_id = k, ld_entries =
      map ?log (sort_key ?id (filter (\<lambda>c. fst (snd c) = k) (map entry_content es)))\<rparr>" for es k
  proof -
    have "map ?log (sort_key ?id (map entry_content (filter (\<lambda>e. ce_domain e = k) es)))
        = map logical_of (sort_key (\<lambda>e. id_value (ce_identity e)) (filter (\<lambda>e. ce_domain e = k) es))"
      by (subst map_sort_key [symmetric]) (simp add: entry_content_def logical_of_def comp_def)
    then show ?thesis by (simp add: domain_of_def filter_map comp_def entry_content_def)
  qed
  have keys: "ce_domain ` set es = (\<lambda>c. fst (snd c)) ` set (map entry_content es)" for es
    by (simp add: entry_content_def image_image)
  show ?thesis
    using assms unfolding snapshot_to_domains_alt dom keys same_content_def by simp
qed

lemma plan_by_content:
  assumes "plan_container_reconcile l r b = Inr p" and "same_content l l'" and "same_content r r'"
    and "snapshot_identity l = snapshot_identity l'" and "snapshot_identity r = snapshot_identity r'"
  shows "plan_container_reconcile l' r' b = Inr p"
  using assms(1) domains_by_content [OF assms(2)] domains_by_content [OF assms(3)] assms(4,5)
  by (auto simp: plan_container_reconcile_def assert_compatible_def finish_plan_def
      snapshot_identity_def Let_def bindE_eq_Inr split: option.splits if_splits)

subsection \<open>The interface\<close>

locale container_adapter =
  fixes take_snapshot :: "'fs \<Rightarrow> string \<Rightarrow> string \<Rightarrow> (container_error, container_snapshot) result"
    and rebuild :: "'fs \<Rightarrow> string \<Rightarrow> 'p rebuild_plan \<Rightarrow> string
      \<Rightarrow> 'fs \<times> (container_error, candidate_receipt) result"
    and kind :: "string \<times> int \<times> string"
  assumes snapshot_kind: "take_snapshot fs path cid = Inr s \<Longrightarrow>
      snapshot_identity s = (cid, fst kind, fst (snd kind), snd (snd kind))"
    and rebuild_content: "rebuild fs destination plan candidate = (fs', Inr receipt) \<Longrightarrow>
      \<exists>s. take_snapshot fs' candidate (cs_container_id (bp_expected plan)) = Inr s
        \<and> same_content s (bp_expected plan)"
    and rebuild_frame: "rebuild fs destination plan candidate = (fs', res) \<Longrightarrow> path \<noteq> candidate \<Longrightarrow>
      take_snapshot fs' path cid = take_snapshot fs path cid"
begin

text \<open>Rebuild both planned sides, in either place, then look again: nothing is left to move.\<close>

lemma rebuild_converges:
  assumes snaps: "take_snapshot fs local_path cid = Inr l" "take_snapshot fs remote_path cid = Inr r"
    and plan: "plan_container_reconcile l r b = Inr p"
    and targets: "target_snapshot p l r ''local'' = Inr tgt_l" "target_snapshot p l r ''remote'' = Inr tgt_r"
    and planned: "bp_expected bl = tgt_l" "bp_expected br = tgt_r"
    and left: "rebuild fs local_path bl cand_l = (fs1, Inr receipt_l)"
    and right: "rebuild fs1 remote_path br cand_r = (fs2, Inr receipt_r)"
    and distinct: "cand_l \<noteq> cand_r"
  shows "\<exists>l' r' q. take_snapshot fs2 cand_l cid = Inr l' \<and> take_snapshot fs2 cand_r cid = Inr r'
    \<and> plan_container_reconcile l' r' (Some (rp_next_baseline p)) = Inr q
    \<and> local_changes q = [] \<and> remote_changes q = []
    \<and> dd_id ` set (plan_conflicts q) = dd_id ` set (plan_conflicts p)"
proof -
  have ids: "snapshot_identity tgt_l = snapshot_identity l" "snapshot_identity tgt_r = snapshot_identity l"
    using targets by (auto simp: target_snapshot_def bindE_eq_Inr snapshot_identity_def)
  have cl: "snapshot_identity l = (cid, fst kind, fst (snd kind), snd (snd kind))"
    using snapshot_kind [OF snaps(1)] .
  then have cids: "cs_container_id tgt_l = cid" "cs_container_id tgt_r = cid"
    using ids by (simp_all add: snapshot_identity_def)
  obtain l' where l': "take_snapshot fs1 cand_l cid = Inr l'" "same_content l' tgt_l"
    using rebuild_content [OF left] planned cids by auto
  obtain r' where r': "take_snapshot fs2 cand_r cid = Inr r'" "same_content r' tgt_r"
    using rebuild_content [OF right] planned cids by auto
  have l2: "take_snapshot fs2 cand_l cid = Inr l'"
    using rebuild_frame [OF right distinct] l'(1) by simp
  obtain q where q: "plan_container_reconcile tgt_l tgt_r (Some (rp_next_baseline p)) = Inr q"
      "local_changes q = []" "remote_changes q = []"
      "dd_id ` set (plan_conflicts q) = dd_id ` set (plan_conflicts p)"
    using replan_stable [OF plan, unfolded targets sum.inject] by metis
  have "plan_container_reconcile l' r' (Some (rp_next_baseline p)) = Inr q"
    using q(1) l'(2) r'(2) snapshot_kind [OF l2] snapshot_kind [OF r'(1)] cl ids
    by - (rule plan_by_content [of tgt_l tgt_r], simp_all add: same_content_def)
  with l2 r'(1) q show ?thesis by blast
qed

end

end
