(* ===== verification/Ps1Card.thy ===== *)
theory Ps1Card
  imports ContainerAdapter Sha256
begin

text \<open>
  \<open>src/romcloud/infrastructure/ps1_memory_card.py\<close>: the strict adapter for raw 128 KiB
  PlayStation memory cards.  Block 0 holds the directory, one 128-byte frame per data block;
  a save is a chain of blocks linked through its frames.  The adapter parses a card into
  live entries, rewrites entries into verified free capacity, and accepts a candidate only
  after parsing it again.
\<close>

subsection \<open>Layout\<close>

definition CARD_SIZE :: nat where "CARD_SIZE = 128 * 1024"
definition BLOCK_SIZE :: nat where "BLOCK_SIZE = 8192"
definition FRAME_SIZE :: nat where "FRAME_SIZE = 128"
definition BLOCK_COUNT :: nat where "BLOCK_COUNT = 16"
definition DATA_BLOCKS :: "nat list" where "DATA_BLOCKS = [1..<BLOCK_COUNT]"
definition FILENAME_OFFSET :: nat where "FILENAME_OFFSET = 10"
definition FILENAME_SIZE :: nat where "FILENAME_SIZE = 20"

definition LIVE_HEADER :: byte where "LIVE_HEADER = 0x51"
definition LIVE_MIDDLE :: byte where "LIVE_MIDDLE = 0x52"
definition LIVE_END :: byte where "LIVE_END = 0x53"
definition FREE_STATE :: byte where "FREE_STATE = 0xA0"
definition DELETED_HEADER :: byte where "DELETED_HEADER = 0xA1"
definition DELETED_MIDDLE :: byte where "DELETED_MIDDLE = 0xA2"
definition DELETED_END :: byte where "DELETED_END = 0xA3"

lemmas ps1_states = LIVE_HEADER_def LIVE_MIDDLE_def LIVE_END_def FREE_STATE_def
  DELETED_HEADER_def DELETED_MIDDLE_def DELETED_END_def

lemmas ps1_sizes = CARD_SIZE_def BLOCK_SIZE_def FRAME_SIZE_def BLOCK_COUNT_def
  FILENAME_OFFSET_def FILENAME_SIZE_def

definition KNOWN_STATES :: "byte list" where
  "KNOWN_STATES = [LIVE_HEADER, LIVE_MIDDLE, LIVE_END, FREE_STATE, DELETED_HEADER,
     DELETED_MIDDLE, DELETED_END]"

record parsed_entry =
  pe_identity :: entry_identity
  pe_domain :: string
  pe_filename :: "byte list"
  pe_blocks :: "nat list"
  pe_frames :: "byte list list"
  pe_data :: "byte list list"
  pe_hash :: string

definition entry_size :: "parsed_entry \<Rightarrow> int" where
  "entry_size e = int (length (pe_blocks e) * BLOCK_SIZE)"

record parsed_card =
  pc_raw :: "byte list"
  pc_live :: "parsed_entry list"
  pc_deleted :: "nat set"
  pc_free :: "nat set"

record extracted_ps1 =
  xp_filename :: "byte list"
  xp_frames :: "byte list list"
  xp_data :: "byte list list"

subsection \<open>Frames\<close>

definition xor_checksum :: "byte list \<Rightarrow> byte" where
  "xor_checksum frame = fold (\<lambda>b value. value XOR b) frame 0"

definition set_checksum :: "byte list \<Rightarrow> byte list" where
  "set_checksum frame = frame[127 := xor_checksum (take 127 frame)]"

definition directory_frame :: "byte list \<Rightarrow> nat \<Rightarrow> byte list" where
  "directory_frame raw block =
     (let start = block * FRAME_SIZE in py_slice start (start + FRAME_SIZE) raw)"

definition card_state :: "byte list \<Rightarrow> (container_error, byte) result" where
  "card_state frame =
     (if py_slice 1 4 frame \<noteq> [0, 0, 0] \<or> frame ! 0 \<notin> set KNOWN_STATES
      then Inl (Opaque MALFORMED_CHAIN ''invalid directory state'') else Inr (frame ! 0))"

definition next_block :: "byte list \<Rightarrow> (container_error, nat option) result" where
  "next_block frame =
     (let encoded = from_le (py_slice 8 10 frame)
      in if encoded = 0xFFFF then Inr None
         else if encoded + 1 \<notin> set DATA_BLOCKS
              then Inl (Opaque MALFORMED_CHAIN ''invalid next pointer'')
              else Inr (Some (encoded + 1)))"

definition filename_of :: "byte list \<Rightarrow> (container_error, byte list) result" where
  "filename_of frame =
     (let field = py_slice FILENAME_OFFSET (FILENAME_OFFSET + FILENAME_SIZE) frame;
          name = takeWhile (\<lambda>b. b \<noteq> 0) field; padding = dropWhile (\<lambda>b. b \<noteq> 0) field
      in if name = [] then Inl (Opaque AMBIGUOUS_NAMESPACE ''empty filename'')
         else if list_ex (\<lambda>b. b \<noteq> 0) padding
              then Inl (Opaque AMBIGUOUS_NAMESPACE ''nonzero filename padding'')
              else Inr name)"

definition commercial_namespace :: "byte list \<Rightarrow> (container_error, byte list) result" where
  "commercial_namespace filename =
     (if length filename < 12 \<or> take 2 filename \<notin> {utf8 ''BA'', utf8 ''BE'', utf8 ''BI''}
      then Inl (Opaque AMBIGUOUS_NAMESPACE [])
      else let code = py_slice 2 12 filename
           in if length code \<noteq> 10 \<or> py_slice 4 5 code \<noteq> utf8 ''-''
                 \<or> \<not> list_all (\<lambda>v. 65 \<le> unat v \<and> unat v \<le> 90) (take 4 code)
                 \<or> \<not> list_all (\<lambda>v. 48 \<le> unat v \<and> unat v \<le> 57) (drop 5 code)
              then Inl (Opaque AMBIGUOUS_NAMESPACE [])
              else Inr (take 12 filename))"

text \<open>The state byte and the link of block \<open>index\<close> in a chain of \<open>n\<close>.\<close>

definition chain_state :: "byte \<Rightarrow> byte \<Rightarrow> byte \<Rightarrow> nat \<Rightarrow> nat \<Rightarrow> byte" where
  "chain_state header middle end_state n index =
     (if index = 0 then header else if index = n - 1 then end_state else middle)"

definition link_frame :: "byte \<Rightarrow> byte list \<Rightarrow> byte list \<Rightarrow> byte list" where
  "link_frame state link frame =
     set_checksum (py_set_slice 8 10 link (py_set_slice 0 4 [state, 0, 0, 0] frame))"

definition canonical_frame :: "nat \<Rightarrow> nat \<Rightarrow> byte list \<Rightarrow> byte list" where
  "canonical_frame n index source =
     link_frame (chain_state LIVE_HEADER LIVE_MIDDLE LIVE_END n index)
       (if index = n - 1 then [0xFF, 0xFF] else le_bytes 2 index) source"

definition canonical_hash :: "byte list \<Rightarrow> byte list list \<Rightarrow> byte list list \<Rightarrow> string" where
  "canonical_hash filename frames data_blocks =
     sha256_hex (le_bytes 2 (length filename) @ filename @ le_bytes 2 (length frames)
       @ concat (map2 (canonical_frame (length frames)) [0..<length frames] frames)
       @ concat data_blocks)"

subsection \<open>Chains\<close>

text \<open>
  The \<open>while\<close> loop of \<open>_parse_chain\<close>.  It visits each block of the directory at most
  once, so it ends.
\<close>

function parse_chain_loop ::
  "(nat, byte list) dict \<Rightarrow> byte \<Rightarrow> byte \<Rightarrow> byte \<Rightarrow> nat list \<Rightarrow> nat option
     \<Rightarrow> (container_error, nat list) result"
where
  "parse_chain_loop frames header middle end_state chain None = Inr chain"
| "parse_chain_loop frames header middle end_state chain (Some current) =
     (if current \<in> set chain then Inl (Opaque MALFORMED_CHAIN ''directory loop'')
      else case map_of frames current of
        None \<Rightarrow> Inl KeyError
      | Some frame \<Rightarrow>
          bindE (next_block frame) (\<lambda>next. bindE (card_state frame) (\<lambda>state.
            if (if chain = [] then state \<noteq> header
                else if next = None then state \<noteq> end_state else state \<noteq> middle)
            then Inl (Opaque MALFORMED_CHAIN [])
            else parse_chain_loop frames header middle end_state (chain @ [current]) next)))"
  by pat_completeness auto
termination
proof (relation "measure (\<lambda>(frames, header, middle, end_state, chain, current).
    card (fst ` set frames - set chain))", goal_cases)
  case (2 frames header middle end_state chain current frame nb state)
  then have "current \<in> fst ` set frames - set chain"
    by (auto dest!: map_of_SomeD simp: image_iff) force
  then have "card (fst ` set frames - set chain - {current}) < card (fst ` set frames - set chain)"
    by (intro card_Diff1_less) simp_all
  moreover have "fst ` set frames - set (chain @ [current]) = fst ` set frames - set chain - {current}"
    by auto
  ultimately show ?case by simp
qed simp

definition parse_chain ::
  "(nat, byte list) dict \<Rightarrow> nat \<Rightarrow> bool \<Rightarrow> (container_error, nat list) result"
where
  "parse_chain frames start deleted =
     (let header = (if deleted then DELETED_HEADER else LIVE_HEADER);
          middle = (if deleted then DELETED_MIDDLE else LIVE_MIDDLE);
          end_state = (if deleted then DELETED_END else LIVE_END)
      in case map_of frames start of
           None \<Rightarrow> Inl KeyError
         | Some frame \<Rightarrow> bindE (card_state frame) (\<lambda>state.
             if state \<noteq> header then Inl (Opaque MALFORMED_CHAIN [])
             else parse_chain_loop frames header middle end_state [] (Some start)))"

subsection \<open>Parsing a card\<close>

definition directory :: "byte list \<Rightarrow> (nat, byte list) dict" where
  "directory raw = map (\<lambda>block. (block, directory_frame raw block)) DATA_BLOCKS"

definition state_at :: "byte list \<Rightarrow> nat \<Rightarrow> (container_error, byte) result" where
  "state_at raw block = card_state (directory_frame raw block)"

definition check_frame :: "byte list \<Rightarrow> nat \<Rightarrow> unit \<Rightarrow> (container_error, unit) result" where
  "check_frame raw block u =
     (if xor_checksum (directory_frame raw block) \<noteq> 0
      then Inl (Opaque CHECKSUM_FAILURE (''directory-block-'' @ show_nat block))
      else bindE (state_at raw block) (\<lambda>_. Inr ()))"

definition check_sector :: "byte list \<Rightarrow> nat \<Rightarrow> unit \<Rightarrow> (container_error, unit) result" where
  "check_sector raw frame_index u =
     (let start = frame_index * FRAME_SIZE
      in if py_slice start (start + 4) raw \<noteq> [0xFF, 0xFF, 0xFF, 0xFF]
         then Inl (Opaque PS1_BROKEN_SECTOR_MAPPING []) else Inr ())"

definition data_block :: "byte list \<Rightarrow> nat \<Rightarrow> byte list" where
  "data_block raw block = py_slice (block * BLOCK_SIZE) ((block + 1) * BLOCK_SIZE) raw"

text \<open>The accumulators of the loop over live headers: consumed blocks, entries, identities.\<close>

type_synonym live_state = "nat set \<times> parsed_entry list \<times> entry_identity set"

definition live_step :: "byte list \<Rightarrow> nat \<Rightarrow> live_state \<Rightarrow> (container_error, live_state) result" where
  "live_step raw block st =
     (let (consumed, entries, identities) = st in
      bindE (state_at raw block) (\<lambda>state.
      if state \<noteq> LIVE_HEADER then Inr st
      else bindE (parse_chain (directory raw) block False) (\<lambda>chain.
        if consumed \<inter> set chain \<noteq> {} then Inl (Opaque MALFORMED_CHAIN ''cross-linked chain'')
        else let first = directory_frame raw block in
        if from_le (py_slice 4 8 first) \<noteq> length chain * BLOCK_SIZE
        then Inl (Opaque MALFORMED_CHAIN ''invalid file size'')
        else bindE (filename_of first) (\<lambda>filename.
          let identity = EntryIdentity (hex filename) in
          if identity \<in> identities then Inl (Opaque DUPLICATE_IDENTITY [])
          else bindE (commercial_namespace filename) (\<lambda>namespace.
            let frames = map (directory_frame raw) chain; blocks = map (data_block raw) chain
            in Inr (consumed \<union> set chain,
                    entries @ [\<lparr>pe_identity = identity,
                                pe_domain = ''ps1-game:'' @ hex namespace,
                                pe_filename = filename, pe_blocks = chain, pe_frames = frames,
                                pe_data = blocks,
                                pe_hash = canonical_hash filename frames blocks\<rparr>],
                    insert identity identities))))))"

definition deleted_step ::
  "byte list \<Rightarrow> nat set \<Rightarrow> nat \<Rightarrow> nat set \<Rightarrow> (container_error, nat set) result"
where
  "deleted_step raw consumed block deleted =
     bindE (state_at raw block) (\<lambda>state.
     if state \<noteq> DELETED_HEADER then Inr deleted
     else bindE (parse_chain (directory raw) block True) (\<lambda>chain.
       if consumed \<inter> set chain \<noteq> {} \<or> deleted \<inter> set chain \<noteq> {}
       then Inl (Opaque MALFORMED_CHAIN ''overlapping allocation'')
       else Inr (deleted \<union> set chain)))"

definition continuation_step ::
  "byte list \<Rightarrow> nat set \<Rightarrow> nat set \<Rightarrow> nat \<Rightarrow> unit \<Rightarrow> (container_error, unit) result"
where
  "continuation_step raw consumed deleted block u =
     bindE (state_at raw block) (\<lambda>state.
     if state \<in> {LIVE_MIDDLE, LIVE_END, DELETED_MIDDLE, DELETED_END}
        \<and> block \<notin> consumed \<and> block \<notin> deleted
     then Inl (Opaque MALFORMED_CHAIN ''orphan continuation'')
     else if state = FREE_STATE
     then bindE (next_block (directory_frame raw block)) (\<lambda>nb.
       if nb \<noteq> None then Inl (Opaque MALFORMED_CHAIN ''linked free block'') else Inr ())
     else Inr ())"

definition parse_card :: "byte list \<Rightarrow> (container_error, parsed_card) result" where
  "parse_card raw =
     (if length raw \<noteq> CARD_SIZE then Inl (Opaque UNSUPPORTED_PS1_CARD_SIZE [])
      else let header = take FRAME_SIZE raw in
      if take 2 header \<noteq> utf8 ''MC'' then Inl (Opaque UNSUPPORTED_FORMAT [])
      else if xor_checksum header \<noteq> 0 then Inl (Opaque CHECKSUM_FAILURE ''header'')
      else bindE (foldE (check_frame raw) DATA_BLOCKS ()) (\<lambda>_.
        bindE (foldE (check_sector raw) [16..<36] ()) (\<lambda>_.
        bindE (foldE (live_step raw) DATA_BLOCKS ({}, [], {})) (\<lambda>(consumed, entries, identities).
        bindE (foldE (deleted_step raw consumed) DATA_BLOCKS {}) (\<lambda>deleted.
        bindE (foldE (continuation_step raw consumed deleted) DATA_BLOCKS ()) (\<lambda>_.
          Inr \<lparr>pc_raw = raw,
               pc_live = sort_key (\<lambda>e. id_value (pe_identity e)) entries,
               pc_deleted = deleted,
               pc_free = {block \<in> set DATA_BLOCKS. state_at raw block = Inr FREE_STATE}\<rparr>))))))"

definition entry_of :: "parsed_entry \<Rightarrow> container_entry" where
  "entry_of e =
     \<lparr>ce_identity = pe_identity e, ce_domain = pe_domain e, ce_hash = pe_hash e,
      ce_size = entry_size e, ce_locator = show_nat (hd (pe_blocks e))\<rparr>"

definition snapshot_of :: "parsed_card \<Rightarrow> string \<Rightarrow> container_snapshot" where
  "snapshot_of c container_id =
     \<lparr>cs_container_id = container_id, cs_adapter_id = ''ps1-raw-memory-card'',
      cs_schema_version = 1, cs_format_variant = ''ps1-raw-128k'',
      cs_entries = map entry_of (pc_live c)\<rparr>"

subsection \<open>Writing chains\<close>

text \<open>
  \<open>_set_checksum\<close> raises \<open>IndexError\<close> on a frame shorter than 128 bytes, and so does
  reading a frame the payload does not have.
\<close>

definition put_frame :: "byte list \<Rightarrow> nat \<Rightarrow> byte list \<Rightarrow> byte list" where
  "put_frame raw block frame =
     py_set_slice (block * FRAME_SIZE) (block * FRAME_SIZE + FRAME_SIZE) frame raw"

definition put_block :: "byte list \<Rightarrow> nat \<Rightarrow> byte list \<Rightarrow> byte list" where
  "put_block raw block content =
     py_set_slice (block * BLOCK_SIZE) (block * BLOCK_SIZE + BLOCK_SIZE) content raw"

definition link_to :: "nat list \<Rightarrow> nat \<Rightarrow> byte list" where
  "link_to blocks index =
     (if index = length blocks - 1 then [0xFF, 0xFF] else le_bytes 2 (blocks ! (index + 1) - 1))"

definition write_step ::
  "nat list \<Rightarrow> extracted_ps1 \<Rightarrow> nat \<Rightarrow> byte list \<Rightarrow> (container_error, byte list) result"
where
  "write_step blocks payload index raw =
     (if length (xp_frames payload) \<le> index \<or> length (xp_frames payload ! index) \<le> 127
      then Inl IndexError
      else let block = blocks ! index;
               frame = link_frame (chain_state LIVE_HEADER LIVE_MIDDLE LIVE_END (length blocks) index)
                         (link_to blocks index) (xp_frames payload ! index)
           in Inr (put_block (put_frame raw block frame) block (xp_data payload ! index)))"

definition write_chain ::
  "byte list \<Rightarrow> nat list \<Rightarrow> extracted_ps1 \<Rightarrow> (container_error, byte list) result"
where
  "write_chain raw blocks payload =
     (if length blocks \<noteq> length (xp_data payload) then Inl (Opaque VALIDATION_FAILURE [])
      else foldE (write_step blocks payload) [0..<length blocks] raw)"

definition delete_step :: "nat list \<Rightarrow> nat \<Rightarrow> byte list \<Rightarrow> (container_error, byte list) result" where
  "delete_step blocks index raw =
     (let block = blocks ! index; frame = directory_frame raw block in
      if length frame \<le> 127 then Inl IndexError
      else Inr (put_frame raw block
        (link_frame
           (chain_state DELETED_HEADER DELETED_MIDDLE DELETED_END (length blocks) index)
           (link_to blocks index) frame)))"

definition mark_deleted :: "byte list \<Rightarrow> nat list \<Rightarrow> (container_error, byte list) result" where
  "mark_deleted raw blocks = foldE (delete_step blocks) [0..<length blocks] raw"

subsection \<open>The adapter\<close>

text \<open>Files by path; a path without an entry cannot be read (\<open>OSError\<close>).\<close>

type_synonym files = "string \<rightharpoonup> byte list"

definition read_bytes :: "files \<Rightarrow> string \<Rightarrow> (container_error, byte list) result" where
  "read_bytes fs path = (case fs path of None \<Rightarrow> Inl FileError | Some raw \<Rightarrow> Inr raw)"

text \<open>\<open>ExtractedEntry.payload\<close> is \<open>Any\<close>; this adapter accepts its own payloads only.\<close>

datatype payload = Ps1Payload extracted_ps1 | ForeignPayload

definition ps1_probe :: "files \<Rightarrow> string \<Rightarrow> (container_error, probe_result) result" where
  "ps1_probe fs source =
     (case bindE (read_bytes fs source) parse_card of
        Inr _ \<Rightarrow> Inr \<lparr>pr_supported = True, pr_variant = ''ps1-raw-128k'', pr_reason = None\<rparr>
      | Inl (Opaque reason detail) \<Rightarrow>
          Inr \<lparr>pr_supported = False, pr_variant = [], pr_reason = Some reason\<rparr>
      | Inl FileError \<Rightarrow>
          Inr \<lparr>pr_supported = False, pr_variant = [], pr_reason = Some UNSUPPORTED_FORMAT\<rparr>
      | Inl e \<Rightarrow> Inl e)"

definition ps1_snapshot ::
  "files \<Rightarrow> string \<Rightarrow> string \<Rightarrow> (container_error, container_snapshot) result"
where
  "ps1_snapshot fs source container_id =
     bindE (bindE (read_bytes fs source) parse_card) (\<lambda>c. Inr (snapshot_of c container_id))"

definition ps1_extract_entry ::
  "files \<Rightarrow> string \<Rightarrow> container_snapshot \<Rightarrow> entry_identity
     \<Rightarrow> (container_error, payload extracted_entry) result"
where
  "ps1_extract_entry fs source snapshot identity =
     bindE (bindE (read_bytes fs source) parse_card) (\<lambda>c.
       case filter (\<lambda>e. pe_identity e = identity) (pc_live c) of
         [] \<Rightarrow> Inl (Opaque SOURCE_CHANGED_DURING_STAGING [])
       | e # _ \<Rightarrow>
           if \<not> list_ex (\<lambda>v. ce_identity v = identity \<and> ce_hash v = pe_hash e) (cs_entries snapshot)
           then Inl (Opaque SOURCE_CHANGED_DURING_STAGING [])
           else Inr \<lparr>xe_identity = identity, xe_hash = pe_hash e,
                     xe_payload = Ps1Payload \<lparr>xp_filename = pe_filename e,
                       xp_frames = pe_frames e, xp_data = pe_data e\<rparr>\<rparr>)"

definition ps1_validate ::
  "files \<Rightarrow> string \<Rightarrow> container_snapshot \<Rightarrow> (container_error, validation_report) result"
where
  "ps1_validate fs candidate expected =
     (case ps1_snapshot fs candidate (cs_container_id expected) of
        Inl (Opaque reason detail) \<Rightarrow>
          Inr \<lparr>vr_valid = False, vr_snapshot = None, vr_reason = Some reason, vr_detail = detail\<rparr>
      | Inl e \<Rightarrow> Inl e
      | Inr actual \<Rightarrow>
          if map entry_content (cs_entries actual) \<noteq> map entry_content (cs_entries expected)
          then Inr \<lparr>vr_valid = False, vr_snapshot = Some actual,
                    vr_reason = Some VALIDATION_FAILURE,
                    vr_detail = ''candidate logical snapshot differs from plan''\<rparr>
          else Inr \<lparr>vr_valid = True, vr_snapshot = Some actual, vr_reason = None,
                    vr_detail = []\<rparr>)"

definition live_by_identity :: "parsed_card \<Rightarrow> (entry_identity, parsed_entry) dict" where
  "live_by_identity c = dict_of (map (\<lambda>e. (pe_identity e, e)) (pc_live c))"

definition remove_step ::
  "(entry_identity, parsed_entry) dict \<Rightarrow> entry_identity \<Rightarrow> byte list
     \<Rightarrow> (container_error, byte list) result"
where
  "remove_step existing identity raw =
     (case map_of existing identity of None \<Rightarrow> Inr raw | Some old \<Rightarrow> mark_deleted raw (pe_blocks old))"

text \<open>One replacement, over the card image and the verified free blocks still unused.\<close>

definition replace_step ::
  "(entry_identity, parsed_entry) dict \<Rightarrow> (entry_identity, payload entry_replacement) dict
     \<Rightarrow> entry_identity \<Rightarrow> byte list \<times> nat list \<Rightarrow> (container_error, byte list \<times> nat list) result"
where
  "replace_step existing replacements identity st =
     (let (raw, original_free) = st in
      case map_of replacements identity of
        None \<Rightarrow> Inl KeyError
      | Some replacement \<Rightarrow>
        case xe_payload (er_extracted replacement) of
          ForeignPayload \<Rightarrow> Inl (Opaque VALIDATION_FAILURE [])
        | Ps1Payload payload \<Rightarrow>
          if xe_hash (er_extracted replacement) \<noteq> ce_hash (er_entry replacement)
          then Inl (Opaque SOURCE_CHANGED_DURING_STAGING [])
          else
            let old = map_of existing identity;
                required = length (xp_data payload);
                reusable = (case old of None \<Rightarrow> [] | Some o' \<Rightarrow> take required (pe_blocks o'));
                needed = required - length reusable
            in if length original_free < needed
               then Inl (Opaque INSUFFICIENT_VERIFIED_FREE_CAPACITY [])
               else
                 let allocated = reusable @ take needed original_free
                 in bindE (case old of
                             None \<Rightarrow> Inr raw
                           | Some o' \<Rightarrow>
                               if required < length (pe_blocks o')
                               then mark_deleted raw (drop required (pe_blocks o')) else Inr raw)
                      (\<lambda>raw1. bindE (write_chain raw1 allocated payload)
                        (\<lambda>raw2. Inr (raw2, drop needed original_free))))"

definition rebuild_image ::
  "parsed_card \<Rightarrow> payload rebuild_plan \<Rightarrow> (container_error, byte list) result"
where
  "rebuild_image c plan =
     (let existing = live_by_identity c;
          expected = set (map ce_identity (cs_entries (bp_expected plan)));
          replacements = dict_of (map (\<lambda>r. (ce_identity (er_entry r), r)) (bp_replacements plan))
      in if set (map fst replacements) - expected \<noteq> {}
         then Inl (Opaque VALIDATION_FAILURE [])
         else
           let removals = set (bp_removals plan) \<union> (set (map fst existing) - expected)
           in bindE (foldE (remove_step existing) (sorted_list_of_set removals) (pc_raw c))
                (\<lambda>raw. bindE
                  (foldE (replace_step existing replacements) (sorted_keys replacements)
                     (raw, sorted_list_of_set (pc_free c)))
                  (\<lambda>(raw, _). Inr raw)))"

text \<open>
  What the operating system may do to the calls that end \<open>rebuild\<close>: \<open>mkdir\<close> or the opening
  of the candidate raises \<open>OSError\<close>, \<open>write_bytes\<close> raises it after some bytes of the truncated
  candidate are written, or the read-back of \<open>validate\<close> or the \<open>unlink\<close> of a refused candidate
  raises it.
\<close>

datatype rebuild_fault =
  No_Fault | Open_Fault | Write_Fault nat | Read_Back_Fault | Unlink_Fault

definition rebuild_on ::
  "rebuild_fault \<Rightarrow> files \<Rightarrow> string \<Rightarrow> payload rebuild_plan \<Rightarrow> string
     \<Rightarrow> files \<times> (container_error, candidate_receipt) result"
where
  "rebuild_on fault fs destination plan candidate =
     (case bindE (bindE (read_bytes fs destination) parse_card) (\<lambda>c. rebuild_image c plan) of
        Inl e \<Rightarrow> (fs, Inl e)
      | Inr raw \<Rightarrow>
          let fs1 = fs(candidate \<mapsto> raw)
          in case fault of
               Open_Fault \<Rightarrow> (fs, Inl FileError)
             | Write_Fault n \<Rightarrow> (fs(candidate \<mapsto> take n raw), Inl FileError)
             | _ \<Rightarrow>
               (case (if fault = Read_Back_Fault then Inl FileError
                      else ps1_validate fs1 candidate (bp_expected plan)) of
                  Inl e \<Rightarrow> (fs1, Inl e)
                | Inr report \<Rightarrow>
                    if \<not> vr_valid report
                    then if fault = Unlink_Fault then (fs1, Inl FileError)
                         else (fs1(candidate := None),
                           Inl (Opaque (case vr_reason report of None \<Rightarrow> VALIDATION_FAILURE
                                        | Some reason \<Rightarrow> reason) (vr_detail report)))
                    else (fs1, Inr \<lparr>cr_path = candidate, cr_hash = sha256_hex raw,
                                    cr_expected = bp_expected plan\<rparr>)))"

text \<open>The run in which every one of these calls succeeds.\<close>

definition ps1_rebuild ::
  "files \<Rightarrow> string \<Rightarrow> payload rebuild_plan \<Rightarrow> string
     \<Rightarrow> files \<times> (container_error, candidate_receipt) result"
where
  "ps1_rebuild = rebuild_on No_Fault"

definition replace_snapshot_entries ::
  "container_snapshot \<Rightarrow> container_entry list \<Rightarrow> container_snapshot"
where
  "replace_snapshot_entries s entries =
     s\<lparr>cs_entries := sort_key (\<lambda>e. id_value (ce_identity e)) entries\<rparr>"

text \<open>
  \<open>os.replace(temporary, candidate)\<close> after a successful rebuild; the \<open>finally\<close> clause removes
  the temporary file (a fresh name in the code, an argument here) on every path.
\<close>

definition ps1_commit_rebuild ::
  "files \<Rightarrow> string \<Rightarrow> payload rebuild_plan \<Rightarrow> string \<Rightarrow> files \<times> (container_error, unit) result"
where
  "ps1_commit_rebuild fs candidate plan temporary =
     (case ps1_rebuild fs candidate plan temporary of
        (fs1, Inl e) \<Rightarrow> (fs1(temporary := None), Inl e)
      | (fs1, Inr _) \<Rightarrow> (fs1(candidate := fs1 temporary, temporary := None), Inr ()))"

definition ps1_replace_entry ::
  "files \<Rightarrow> string \<Rightarrow> payload entry_replacement \<Rightarrow> string \<Rightarrow> files \<times> (container_error, unit) result"
where
  "ps1_replace_entry fs candidate replacement temporary =
     (case ps1_snapshot fs candidate ''staged-card'' of
        Inl e \<Rightarrow> (fs, Inl e)
      | Inr current \<Rightarrow>
          let entries = AList.update (ce_identity (er_entry replacement)) (er_entry replacement)
                          (entry_map current);
              expected = current\<lparr>cs_entries := sorted_values entries\<rparr>
          in ps1_commit_rebuild fs candidate
               \<lparr>bp_expected = expected, bp_replacements = [replacement], bp_removals = []\<rparr>
               temporary)"

definition ps1_remove_entry ::
  "files \<Rightarrow> string \<Rightarrow> entry_identity \<Rightarrow> string \<Rightarrow> files \<times> (container_error, unit) result"
where
  "ps1_remove_entry fs candidate identity temporary =
     (case ps1_snapshot fs candidate ''staged-card'' of
        Inl e \<Rightarrow> (fs, Inl e)
      | Inr current \<Rightarrow>
          ps1_commit_rebuild fs candidate
            \<lparr>bp_expected = replace_snapshot_entries current
                (filter (\<lambda>e. ce_identity e \<noteq> identity) (cs_entries current)),
             bp_replacements = [], bp_removals = [identity]\<rparr> temporary)"

end
