(* ===== verification/Ps1Layout.thy ===== *)
theory Ps1Layout
  imports Ps1Card
begin

text \<open>
  What parsing a PlayStation card reads: checksummed frames, reading frames and blocks back after
  a write, directory chains as a relation, and the layout of a card (live chains, deleted chains,
  free blocks), which exists exactly when the card parses.
\<close>

subsection \<open>Checksummed frames\<close>

lemma fold_xor: "fold (\<lambda>b (v::byte). v XOR b) xs v = v XOR fold (\<lambda>b v. v XOR b) xs 0"
proof (induction xs arbitrary: v)
  case (Cons x xs)
  show ?case using Cons [of "v XOR x"] Cons [of "0 XOR x"] by (simp add: ac_simps)
qed simp

lemma xor_checksum_append: "xor_checksum (xs @ ys) = xor_checksum xs XOR xor_checksum ys"
  using fold_xor [of ys "fold (\<lambda>b v. v XOR b) xs 0"] by (simp add: xor_checksum_def)

lemma set_checksum_alt:
  assumes "length f = 128"
  shows "set_checksum f = take 127 f @ [xor_checksum (take 127 f)]"
proof -
  have "drop (Suc 127) f = []" using assms by simp
  then show ?thesis using assms by (simp add: set_checksum_def upd_conv_take_nth_drop)
qed

lemma length_set_checksum [simp]: "length (set_checksum f) = length f"
  by (simp add: set_checksum_def)

lemma xor_set_checksum: "length f = 128 \<Longrightarrow> xor_checksum (set_checksum f) = 0"
  by (simp add: set_checksum_alt xor_checksum_append) (simp add: xor_checksum_def)

lemma length_link_frame [simp]: "length f = 128 \<Longrightarrow> length l = 2 \<Longrightarrow> length (link_frame s l f) = 128"
  by (simp add: link_frame_def length_py_set_slice)

lemma xor_link_frame: "length f = 128 \<Longrightarrow> length l = 2 \<Longrightarrow> xor_checksum (link_frame s l f) = 0"
  by (simp add: link_frame_def xor_set_checksum length_py_set_slice)

lemma nth_link_frame:
  assumes "length f = 128" and "length l = 2" and "i < 127"
  shows "link_frame s l f ! i =
    (if i < 4 then [s, 0, 0, 0] ! i else if i = 8 \<or> i = 9 then l ! (i - 8) else f ! i)"
proof -
  have "i = 8 \<or> i = 9 \<longleftrightarrow> 8 \<le> i \<and> i < 10" by auto
  then show ?thesis
    using assms by (simp add: link_frame_def set_checksum_def nth_py_set_slice length_py_set_slice)
qed

lemma take_link_frame:
  assumes "length f = 128" and "length g = 128" and "length l = 2"
    and "\<And>i. 4 \<le> i \<Longrightarrow> i < 127 \<Longrightarrow> i \<noteq> 8 \<Longrightarrow> i \<noteq> 9 \<Longrightarrow> f ! i = g ! i"
  shows "link_frame s l f = link_frame s l g"
proof -
  let ?w = "\<lambda>f. py_set_slice 8 10 l (py_set_slice 0 4 [s, 0, 0, 0] f)"
  have "take 127 (?w f) = take 127 (?w g)"
    using assms by (intro nth_equalityI) (auto simp: length_py_set_slice nth_py_set_slice)
  with assms show ?thesis by (simp add: link_frame_def set_checksum_alt length_py_set_slice)
qed

lemma relink_frame:
  "length f = 128 \<Longrightarrow> length l = 2 \<Longrightarrow> length l' = 2 \<Longrightarrow>
     link_frame s l (link_frame s' l' f) = link_frame s l f"
  by (rule take_link_frame) (auto simp: nth_link_frame)

lemma canonical_link_frame:
  "length f = 128 \<Longrightarrow> length l = 2 \<Longrightarrow> canonical_frame n i (link_frame s l f) = canonical_frame n i f"
  by (simp add: canonical_frame_def relink_frame)

lemma py_slice_eqI:
  "b \<le> length xs \<Longrightarrow> b \<le> length ys \<Longrightarrow> (\<And>i. a \<le> i \<Longrightarrow> i < b \<Longrightarrow> xs ! i = ys ! i)
     \<Longrightarrow> py_slice a b xs = py_slice a b ys"
  by (intro nth_equalityI) (auto simp: nth_py_slice)

lemma slice_link_frame:
  "length f = 128 \<Longrightarrow> length l = 2 \<Longrightarrow> 4 \<le> a \<Longrightarrow> b \<le> 8 \<or> 10 \<le> a \<and> b \<le> 127
     \<Longrightarrow> py_slice a b (link_frame s l f) = py_slice a b f"
  by (rule py_slice_eqI) (auto simp: nth_link_frame)

lemma filename_link_frame:
  "length f = 128 \<Longrightarrow> length l = 2 \<Longrightarrow> filename_of (link_frame s l f) = filename_of f"
  by (simp add: filename_of_def slice_link_frame ps1_sizes)

lemma state_link_frame:
  assumes "length f = 128" and "length l = 2" and "s \<in> set KNOWN_STATES"
  shows "card_state (link_frame s l f) = Inr s"
proof -
  have "py_slice 1 4 (link_frame s l f) = py_slice 1 4 [s, 0, 0, 0]"
    using assms by (intro py_slice_eqI) (auto simp: nth_link_frame)
  then have "py_slice 1 4 (link_frame s l f) = [0, 0, 0]" by (simp add: py_slice_def)
  with assms show ?thesis by (simp add: card_state_def nth_link_frame)
qed

lemma link_bytes_link_frame:
  assumes "length f = 128" and "length l = 2"
  shows "py_slice 8 10 (link_frame s l f) = l"
proof -
  have "i < 2 \<Longrightarrow> i = 0 \<or> i = 1" for i :: nat by auto
  then show ?thesis
    using assms by (intro nth_equalityI) (auto simp: nth_py_slice nth_link_frame)
qed

subsection \<open>Reading back a write\<close>

lemma data_block_range: "b \<in> set DATA_BLOCKS \<longleftrightarrow> 1 \<le> b \<and> b \<le> 15"
  by (auto simp: DATA_BLOCKS_def BLOCK_COUNT_def)

lemma next_link_frame:
  assumes "length f = 128" and "set blocks \<subseteq> set DATA_BLOCKS" and "i < length blocks"
  shows "next_block (link_frame s (link_to blocks i) f) =
    Inr (if i = length blocks - 1 then None else Some (blocks ! (i + 1)))"
proof (cases "i = length blocks - 1")
  case True
  then show ?thesis
    using assms(1) by (simp add: next_block_def link_to_def link_bytes_link_frame)
next
  case False
  then have "blocks ! (i + 1) \<in> set DATA_BLOCKS"
    using assms by (intro subsetD [OF assms(2)] nth_mem) auto
  then have b: "1 \<le> blocks ! (i + 1) \<and> blocks ! (i + 1) \<le> 15" by (simp add: data_block_range)
  then have "from_le (le_bytes 2 (blocks ! (i + 1) - 1)) = blocks ! (i + 1) - 1"
    by (intro from_le_bytes) auto
  with b False show ?thesis
    using assms(1)
    by (auto simp: next_block_def Let_def link_to_def link_bytes_link_frame data_block_range
        simp del: le_bytes.simps)
qed

lemma length_link_to [simp]: "length (link_to blocks i) = 2"
  by (simp add: link_to_def)

lemma length_put_frame [simp]:
  "length raw = CARD_SIZE \<Longrightarrow> b \<le> 15 \<Longrightarrow> length f = 128 \<Longrightarrow> length (put_frame raw b f) = CARD_SIZE"
  by (simp add: put_frame_def length_py_set_slice ps1_sizes)

lemma length_put_block [simp]:
  "length raw = CARD_SIZE \<Longrightarrow> b \<le> 15 \<Longrightarrow> length f = BLOCK_SIZE \<Longrightarrow> length (put_block raw b f) = CARD_SIZE"
  by (simp add: put_block_def length_py_set_slice ps1_sizes)

lemma frame_put_frame:
  assumes "length raw = CARD_SIZE" and "b \<le> 15" and "length f = 128"
  shows "directory_frame (put_frame raw b f) c = (if c = b then f else directory_frame raw c)"
  using assms
  by (cases c b rule: linorder_cases)
    (auto simp: directory_frame_def put_frame_def Let_def ps1_sizes py_slice_set_same
      intro!: py_slice_set_other)

lemma data_put_frame:
  assumes "length raw = CARD_SIZE" and "b \<le> 15" and "length f = 128" and "1 \<le> c"
  shows "data_block (put_frame raw b f) c = data_block raw c"
  using assms
  by (auto simp: data_block_def put_frame_def ps1_sizes intro!: py_slice_set_other)

lemma frame_put_block:
  assumes "length raw = CARD_SIZE" and "1 \<le> b" and "b \<le> 15" and "length x = BLOCK_SIZE" and "c \<le> 15"
  shows "directory_frame (put_block raw b x) c = directory_frame raw c"
  using assms
  by (auto simp: directory_frame_def put_block_def Let_def ps1_sizes intro!: py_slice_set_other)

lemma data_put_block:
  assumes "length raw = CARD_SIZE" and "b \<le> 15" and "length x = BLOCK_SIZE"
  shows "data_block (put_block raw b x) c = (if c = b then x else data_block raw c)"
proof (cases c b rule: linorder_cases)
  case equal
  then show ?thesis using assms
    by (simp add: data_block_def put_block_def ps1_sizes add.commute py_slice_set_same)
qed (use assms in \<open>auto simp: data_block_def put_block_def ps1_sizes intro!: py_slice_set_other\<close>)

text \<open>The part of block zero the directory does not use: header and replacement-sector table.\<close>

lemma slice_put_frame:
  assumes "length raw = CARD_SIZE" and "1 \<le> b" and "b \<le> 15" and "length f = 128"
    and "d \<le> 128 \<or> 2048 \<le> c"
  shows "py_slice c d (put_frame raw b f) = py_slice c d raw"
  using assms by (auto simp: put_frame_def ps1_sizes intro!: py_slice_set_other)

lemma slice_put_block:
  assumes "length raw = CARD_SIZE" and "1 \<le> b" and "b \<le> 15" and "length x = BLOCK_SIZE"
    and "d \<le> 8192"
  shows "py_slice c d (put_block raw b x) = py_slice c d raw"
  using assms by (auto simp: put_block_def ps1_sizes intro!: py_slice_set_other)

subsection \<open>Chains as a relation\<close>

text \<open>
  \<open>linked frames h m e first bs\<close>: every block of \<open>bs\<close> has a directory frame that points to the
  next one, the last to none, with the states a chain of that kind carries.
\<close>

fun linked :: "(nat, byte list) dict \<Rightarrow> byte \<Rightarrow> byte \<Rightarrow> byte \<Rightarrow> bool \<Rightarrow> nat list \<Rightarrow> bool" where
  "linked frames h m e first [] \<longleftrightarrow> False"
| "linked frames h m e first (b # bs) \<longleftrightarrow>
     (\<exists>f. map_of frames b = Some f
        \<and> next_block f = Inr (case bs of [] \<Rightarrow> None | c # _ \<Rightarrow> Some c)
        \<and> card_state f = Inr (if first then h else if bs = [] then e else m))
     \<and> (bs = [] \<or> linked frames h m e False bs)"

lemma linked_not_Nil: "linked frames h m e first bs \<Longrightarrow> bs \<noteq> []"
  by auto

lemma parse_chain_loop_sound:
  "parse_chain_loop frames h m e pre nb = Inr out \<Longrightarrow>
     (case nb of None \<Rightarrow> out = pre
      | Some cur \<Rightarrow> \<exists>bs. out = pre @ cur # bs \<and> distinct (cur # bs) \<and> set (cur # bs) \<inter> set pre = {}
          \<and> linked frames h m e (pre = []) (cur # bs))"
proof (induction frames h m e pre nb rule: parse_chain_loop.induct)
  case (2 frames h m e chain current)
  from "2.prems" obtain f nb s where f: "current \<notin> set chain" "map_of frames current = Some f"
      "next_block f = Inr nb" "card_state f = Inr s"
    and ok: "\<not> (if chain = [] then s \<noteq> h else if nb = None then s \<noteq> e else s \<noteq> m)"
    and rec: "parse_chain_loop frames h m e (chain @ [current]) nb = Inr out"
    by (auto simp: bindE_eq_Inr split: if_splits option.splits)
  have IH: "case nb of None \<Rightarrow> out = chain @ [current]
      | Some cur \<Rightarrow> \<exists>bs. out = (chain @ [current]) @ cur # bs \<and> distinct (cur # bs)
          \<and> set (cur # bs) \<inter> set (chain @ [current]) = {}
          \<and> linked frames h m e (chain @ [current] = []) (cur # bs)"
    by (rule "2.IH" [OF f ok rec])
  show ?case
  proof (cases nb)
    case None
    with IH f ok show ?thesis by (auto split: if_splits)
  next
    case (Some cur)
    with IH obtain bs where bs: "out = chain @ current # cur # bs" "distinct (cur # bs)"
        "set (cur # bs) \<inter> set (chain @ [current]) = {}" "linked frames h m e False (cur # bs)"
      by auto
    then have "linked frames h m e (chain = []) (current # cur # bs)"
      using f ok Some by (subst linked.simps) (auto split: if_splits)
    with bs f show ?thesis by (auto simp del: linked.simps)
  qed
qed simp

lemma parse_chain_loop_complete:
  "linked frames h m e (pre = []) bs \<Longrightarrow> distinct bs \<Longrightarrow> set bs \<inter> set pre = {} \<Longrightarrow>
     parse_chain_loop frames h m e pre (Some (hd bs)) = Inr (pre @ bs)"
proof (induction bs arbitrary: pre)
  case (Cons b bs)
  from Cons.prems(1) obtain f where f: "map_of frames b = Some f"
      "next_block f = Inr (case bs of [] \<Rightarrow> None | c # _ \<Rightarrow> Some c)"
      "card_state f = Inr (if pre = [] then h else if bs = [] then e else m)"
      "bs = [] \<or> linked frames h m e False bs"
    by auto
  show ?case
  proof (cases bs)
    case Nil
    with f Cons.prems show ?thesis by auto
  next
    case (Cons c cs)
    have "parse_chain_loop frames h m e (pre @ [b]) (Some (hd bs)) = Inr ((pre @ [b]) @ bs)"
      using Cons.prems f(4) Cons by (intro Cons.IH) auto
    with f Cons.prems Cons show ?thesis by auto
  qed
qed simp

definition chain_at :: "byte list \<Rightarrow> bool \<Rightarrow> nat list \<Rightarrow> bool" where
  "chain_at raw deleted bs \<longleftrightarrow>
     linked (directory raw) (if deleted then DELETED_HEADER else LIVE_HEADER)
       (if deleted then DELETED_MIDDLE else LIVE_MIDDLE)
       (if deleted then DELETED_END else LIVE_END) True bs \<and> distinct bs"

lemma map_of_directory:
  "map_of (directory raw) b = (if b \<in> set DATA_BLOCKS then Some (directory_frame raw b) else None)"
  by (simp add: directory_def map_of_map_restrict [unfolded restrict_map_def comp_def])

lemma parse_chain_iff:
  "parse_chain (directory raw) start deleted = Inr bs \<longleftrightarrow> chain_at raw deleted bs \<and> hd bs = start"
proof
  assume "parse_chain (directory raw) start deleted = Inr bs"
  then show "chain_at raw deleted bs \<and> hd bs = start"
    by (auto simp: parse_chain_def chain_at_def Let_def bindE_eq_Inr split: option.splits if_splits
        dest!: parse_chain_loop_sound)
next
  assume ch: "chain_at raw deleted bs \<and> hd bs = start"
  then obtain cs where bs: "bs = start # cs" by (cases bs) (auto simp: chain_at_def)
  have "parse_chain_loop (directory raw) (if deleted then DELETED_HEADER else LIVE_HEADER)
      (if deleted then DELETED_MIDDLE else LIVE_MIDDLE)
      (if deleted then DELETED_END else LIVE_END) [] (Some (hd bs)) = Inr ([] @ bs)"
    using ch by (intro parse_chain_loop_complete) (simp_all add: chain_at_def)
  then show "parse_chain (directory raw) start deleted = Inr bs"
    using ch by (auto simp: bs parse_chain_def chain_at_def Let_def
        simp del: parse_chain_loop.simps)
qed

lemma linked_nth:
  "linked frames h m e first bs \<longleftrightarrow> bs \<noteq> [] \<and>
     (\<forall>i < length bs. \<exists>f. map_of frames (bs ! i) = Some f
        \<and> next_block f = Inr (if Suc i = length bs then None else Some (bs ! Suc i))
        \<and> card_state f = Inr (if i = 0 \<and> first then h else if Suc i = length bs then e else m))"
proof (induction bs arbitrary: first)
  case (Cons b bs)
  have first_of: "(case bs of [] \<Rightarrow> None | c # _ \<Rightarrow> Some c) = (if bs = [] then None else Some (bs ! 0))"
    by (cases bs) simp_all
  show ?case
    unfolding linked.simps Cons.IH first_of length_Cons All_less_Suc2
    by (cases "bs = []") simp_all
qed simp

text \<open>The states of a chain, without the detour over the directory.\<close>

definition kind_state :: "bool \<Rightarrow> nat \<Rightarrow> nat \<Rightarrow> byte" where
  "kind_state deleted n i = (if deleted then chain_state DELETED_HEADER DELETED_MIDDLE DELETED_END n i
     else chain_state LIVE_HEADER LIVE_MIDDLE LIVE_END n i)"

lemma chain_at_nth:
  "chain_at raw deleted bs \<longleftrightarrow> bs \<noteq> [] \<and> distinct bs \<and> set bs \<subseteq> set DATA_BLOCKS \<and>
     (\<forall>i < length bs.
        next_block (directory_frame raw (bs ! i)) =
          Inr (if Suc i = length bs then None else Some (bs ! Suc i))
        \<and> state_at raw (bs ! i) = Inr (kind_state deleted (length bs) i))"
    (is "_ \<longleftrightarrow> _ \<and> _ \<and> _ \<and> (\<forall>i < _. ?Q i)")
proof -
  have sub: "set bs \<subseteq> set DATA_BLOCKS \<longleftrightarrow> (\<forall>i < length bs. bs ! i \<in> set DATA_BLOCKS)"
    by (auto simp: in_set_conv_nth subset_iff)
  have state: "kind_state deleted (length bs) i =
      (if i = 0 \<and> True then if deleted then DELETED_HEADER else LIVE_HEADER
       else if Suc i = length bs then if deleted then DELETED_END else LIVE_END
       else if deleted then DELETED_MIDDLE else LIVE_MIDDLE)" if "i < length bs" for i
    using that by (auto simp: chain_state_def kind_state_def)
  have "(\<exists>f. map_of (directory raw) (bs ! i) = Some f
        \<and> next_block f = Inr (if Suc i = length bs then None else Some (bs ! Suc i))
        \<and> card_state f = Inr (if i = 0 \<and> True then if deleted then DELETED_HEADER else LIVE_HEADER
            else if Suc i = length bs then if deleted then DELETED_END else LIVE_END
            else if deleted then DELETED_MIDDLE else LIVE_MIDDLE))
      \<longleftrightarrow> bs ! i \<in> set DATA_BLOCKS \<and> ?Q i" if "i < length bs" for i
    unfolding state [OF that] state_at_def map_of_directory by simp
  then show ?thesis
    unfolding chain_at_def linked_nth sub by blast
qed

subsection \<open>The layout of a card\<close>

lemma foldE_progress:
  assumes "I [] s"
    and "\<And>x pre post s. xs = pre @ x # post \<Longrightarrow> I pre s \<Longrightarrow> \<exists>s'. f x s = Inr s' \<and> I (pre @ [x]) s'"
  shows "\<exists>t. foldE f xs s = Inr t \<and> I xs t"
proof -
  have "\<exists>t. foldE f ys s = Inr t \<and> I xs t" if "xs = pre @ ys" "I pre s" for pre ys s
    using that
  proof (induction ys arbitrary: pre s)
    case (Cons y ys)
    then obtain s' where s': "f y s = Inr s'" "I (pre @ [y]) s'" using assms(2) by blast
    with Cons.IH [of "pre @ [y]" s'] Cons.prems show ?case by simp
  qed simp
  from this [of "[]" xs s] assms(1) show ?thesis by simp
qed

definition card_ok :: "byte list \<Rightarrow> bool" where
  "card_ok raw \<longleftrightarrow> length raw = CARD_SIZE \<and> take 2 raw = utf8 ''MC''
     \<and> xor_checksum (take FRAME_SIZE raw) = 0
     \<and> (\<forall>b \<in> set DATA_BLOCKS. xor_checksum (directory_frame raw b) = 0
          \<and> (\<exists>s \<in> set KNOWN_STATES. state_at raw b = Inr s))
     \<and> (\<forall>i \<in> {16..<36}. py_slice (i * FRAME_SIZE) (i * FRAME_SIZE + 4) raw = [0xFF, 0xFF, 0xFF, 0xFF])"

text \<open>The entry a live chain is parsed into; every field is read from the card.\<close>

definition entry_at :: "byte list \<Rightarrow> nat list \<Rightarrow> parsed_entry" where
  "entry_at raw ch =
     (let filename = projr (filename_of (directory_frame raw (hd ch)));
          frames = map (directory_frame raw) ch; blocks = map (data_block raw) ch
      in \<lparr>pe_identity = EntryIdentity (hex filename),
          pe_domain = ''ps1-game:'' @ hex (projr (commercial_namespace filename)),
          pe_filename = filename, pe_blocks = ch, pe_frames = frames, pe_data = blocks,
          pe_hash = canonical_hash filename frames blocks\<rparr>)"

definition live_chain :: "byte list \<Rightarrow> nat list \<Rightarrow> bool" where
  "live_chain raw ch \<longleftrightarrow> chain_at raw False ch
     \<and> from_le (py_slice 4 8 (directory_frame raw (hd ch))) = length ch * BLOCK_SIZE
     \<and> (\<exists>filename namespace. filename_of (directory_frame raw (hd ch)) = Inr filename
          \<and> commercial_namespace filename = Inr namespace)"

definition blocks_of :: "nat list set \<Rightarrow> nat set" where
  "blocks_of C = (\<Union>ch \<in> C. set ch)"

definition apart :: "nat list set \<Rightarrow> bool" where
  "apart C \<longleftrightarrow> (\<forall>a \<in> C. \<forall>b \<in> C. a \<noteq> b \<longrightarrow> set a \<inter> set b = {})"

text \<open>
  \<open>layout raw live dead\<close>: the directory of \<open>raw\<close> consists of the live chains \<open>live\<close>, the deleted
  chains \<open>dead\<close>, all apart, and free blocks.
\<close>

definition layout :: "byte list \<Rightarrow> nat list set \<Rightarrow> nat list set \<Rightarrow> bool" where
  "layout raw live dead \<longleftrightarrow> card_ok raw
     \<and> (\<forall>ch \<in> live. live_chain raw ch) \<and> (\<forall>ch \<in> dead. chain_at raw True ch)
     \<and> apart (live \<union> dead) \<and> inj_on (\<lambda>ch. pe_identity (entry_at raw ch)) live
     \<and> (\<forall>b \<in> set DATA_BLOCKS - blocks_of (live \<union> dead).
          state_at raw b = Inr FREE_STATE \<and> next_block (directory_frame raw b) = Inr None)"

definition parsed_as :: "parsed_card \<Rightarrow> byte list \<Rightarrow> nat list set \<Rightarrow> nat list set \<Rightarrow> bool" where
  "parsed_as c raw live dead \<longleftrightarrow> pc_raw c = raw \<and> set (pc_live c) = entry_at raw ` live
     \<and> distinct (map pe_identity (pc_live c)) \<and> sorted (map (\<lambda>e. id_value (pe_identity e)) (pc_live c))
     \<and> pc_deleted c = blocks_of dead
     \<and> pc_free c = set DATA_BLOCKS - blocks_of (live \<union> dead)"

lemma kind_state_cases:
  "i < n \<Longrightarrow> kind_state d n i = LIVE_HEADER \<longleftrightarrow> \<not> d \<and> i = 0"
  "i < n \<Longrightarrow> kind_state d n i = DELETED_HEADER \<longleftrightarrow> d \<and> i = 0"
  "kind_state d n i \<noteq> FREE_STATE"
  by (auto simp: kind_state_def chain_state_def ps1_states)

lemma chain_at_state:
  assumes "chain_at raw d ch" and "b \<in> set ch"
  shows "state_at raw b = Inr LIVE_HEADER \<longleftrightarrow> \<not> d \<and> b = hd ch"
    and "state_at raw b = Inr DELETED_HEADER \<longleftrightarrow> d \<and> b = hd ch"
    and "state_at raw b \<noteq> Inr FREE_STATE"
proof -
  obtain i where i: "i < length ch" "b = ch ! i" using assms(2) by (auto simp: in_set_conv_nth)
  then have s: "state_at raw b = Inr (kind_state d (length ch) i)"
    using assms(1) by (simp add: chain_at_nth)
  have "b = hd ch \<longleftrightarrow> i = 0"
    using assms(1) i by (auto simp: chain_at_nth hd_conv_nth nth_eq_iff_index_eq)
  with s i show "state_at raw b = Inr LIVE_HEADER \<longleftrightarrow> \<not> d \<and> b = hd ch"
    and "state_at raw b = Inr DELETED_HEADER \<longleftrightarrow> d \<and> b = hd ch"
    and "state_at raw b \<noteq> Inr FREE_STATE"
    by (simp_all add: kind_state_cases)
qed

lemma chain_at_head: "chain_at raw d ch \<Longrightarrow> hd ch \<in> set ch"
  by (simp add: chain_at_nth)

lemma chain_at_unique: "chain_at raw d a \<Longrightarrow> chain_at raw d b \<Longrightarrow> hd a = hd b \<Longrightarrow> a = b"
  by (metis parse_chain_iff sum.inject(2))

lemma pe_blocks_entry_at [simp]: "pe_blocks (entry_at raw ch) = ch"
  by (simp add: entry_at_def Let_def)

lemma live_step_chain:
  assumes "state_at raw b = Inr LIVE_HEADER" and "chain_at raw False ch" and "hd ch = b"
  shows "live_step raw b (consumed, es, ids) =
    (if consumed \<inter> set ch \<noteq> {} then Inl (Opaque MALFORMED_CHAIN ''cross-linked chain'')
     else if from_le (py_slice 4 8 (directory_frame raw b)) \<noteq> length ch * BLOCK_SIZE
     then Inl (Opaque MALFORMED_CHAIN ''invalid file size'')
     else bindE (filename_of (directory_frame raw b)) (\<lambda>filename.
       if EntryIdentity (hex filename) \<in> ids then Inl (Opaque DUPLICATE_IDENTITY [])
       else bindE (commercial_namespace filename) (\<lambda>_.
         Inr (consumed \<union> set ch, es @ [entry_at raw ch], insert (EntryIdentity (hex filename)) ids))))"
proof -
  have "parse_chain (directory raw) b False = Inr ch" using assms by (simp add: parse_chain_iff)
  then show ?thesis
    using assms by (auto simp: live_step_def Let_def entry_at_def bindE_def split: sum.splits)
qed

lemma live_step_Inr:
  assumes "live_step raw b (consumed, es, ids) = Inr st" and "state_at raw b = Inr LIVE_HEADER"
  obtains ch where "live_chain raw ch" and "hd ch = b" and "consumed \<inter> set ch = {}"
    and "pe_identity (entry_at raw ch) \<notin> ids"
    and "st = (consumed \<union> set ch, es @ [entry_at raw ch], insert (pe_identity (entry_at raw ch)) ids)"
proof -
  obtain ch where ch: "chain_at raw False ch" "hd ch = b"
    using assms by (auto simp: live_step_def Let_def bindE_eq_Inr parse_chain_iff)
  from assms show thesis
    unfolding live_step_chain [OF assms(2) ch]
    by (intro that [of ch]) (use ch in \<open>auto simp: bindE_eq_Inr live_chain_def entry_at_def Let_def split: if_splits\<close>)
qed

lemma live_step_skip: "state_at raw b = Inr s \<Longrightarrow> s \<noteq> LIVE_HEADER \<Longrightarrow> live_step raw b st = Inr st"
  by (cases st) (simp add: live_step_def)

lemma live_step_ok:
  assumes "live_chain raw ch" and "hd ch = b" and "consumed \<inter> set ch = {}"
    and "pe_identity (entry_at raw ch) \<notin> ids"
  shows "live_step raw b (consumed, es, ids) =
    Inr (consumed \<union> set ch, es @ [entry_at raw ch], insert (pe_identity (entry_at raw ch)) ids)"
proof -
  have ch: "chain_at raw False ch" using assms(1) by (simp add: live_chain_def)
  then have "state_at raw b = Inr LIVE_HEADER"
    using chain_at_state(1) [OF ch] chain_at_head [OF ch] assms(2) by simp
  from live_step_chain [OF this ch assms(2)] assms show ?thesis
    by (auto simp: live_chain_def entry_at_def Let_def)
qed

lemma deleted_step_chain:
  assumes "chain_at raw True ch"
  shows "deleted_step raw consumed (hd ch) deleted =
    (if consumed \<inter> set ch \<noteq> {} \<or> deleted \<inter> set ch \<noteq> {}
     then Inl (Opaque MALFORMED_CHAIN ''overlapping allocation'') else Inr (deleted \<union> set ch))"
proof -
  have "parse_chain (directory raw) (hd ch) True = Inr ch" using assms by (simp add: parse_chain_iff)
  moreover have "state_at raw (hd ch) = Inr DELETED_HEADER"
    using chain_at_state(2) [OF assms chain_at_head [OF assms]] by simp
  ultimately show ?thesis by (simp add: deleted_step_def)
qed

lemma deleted_step_Inr:
  assumes "deleted_step raw consumed b deleted = Inr st" and "state_at raw b = Inr DELETED_HEADER"
  obtains ch where "chain_at raw True ch" and "hd ch = b" and "consumed \<inter> set ch = {}"
    and "deleted \<inter> set ch = {}" and "st = deleted \<union> set ch"
  using assms by (auto simp: deleted_step_def bindE_eq_Inr parse_chain_iff split: if_splits)

lemma deleted_step_skip:
  "state_at raw b = Inr s \<Longrightarrow> s \<noteq> DELETED_HEADER \<Longrightarrow> deleted_step raw consumed b st = Inr st"
  by (simp add: deleted_step_def)

lemma apartD: "apart C \<Longrightarrow> a \<in> C \<Longrightarrow> b \<in> C \<Longrightarrow> a \<noteq> b \<Longrightarrow> set a \<inter> set b = {}"
  by (simp add: apart_def)

lemma apart_insert:
  "apart (insert ch C) \<longleftrightarrow> apart C \<and> (\<forall>a \<in> C. a \<noteq> ch \<longrightarrow> set a \<inter> set ch = {})" (is "?l \<longleftrightarrow> ?r")
proof
  show "?l \<Longrightarrow> ?r" by (simp add: apart_def)
  assume r: ?r
  show ?l
    unfolding apart_def
  proof (intro ballI impI)
    fix a b assume ab: "a \<in> insert ch C" "b \<in> insert ch C" "a \<noteq> b"
    consider "a = ch" "b \<in> C" | "b = ch" "a \<in> C" | "a \<in> C" "b \<in> C" using ab by blast
    then show "set a \<inter> set b = {}"
    proof cases
      case 1
      with r ab show ?thesis by (metis Int_commute)
    qed (use r ab apartD in auto)
  qed
qed

lemma apart_mono: "apart C \<Longrightarrow> D \<subseteq> C \<Longrightarrow> apart D"
  by (auto simp: apart_def)

lemma blocks_of_insert [simp]: "blocks_of (insert ch C) = set ch \<union> blocks_of C"
  by (simp add: blocks_of_def)

lemma blocks_of_Un: "blocks_of (C \<union> D) = blocks_of C \<union> blocks_of D"
  by (simp add: blocks_of_def)

lemma blocks_of_empty [simp]: "blocks_of {} = {}"
  by (simp add: blocks_of_def)

lemma apart_blocks: "apart C \<Longrightarrow> ch \<in> C \<Longrightarrow> blocks_of (C - {ch}) = blocks_of C - set ch"
  by (fastforce simp: apart_def blocks_of_def)

lemma apart_others:
  assumes "apart C" and "ch \<in> C" and "D \<subseteq> C" and "ch \<notin> D"
  shows "blocks_of D \<inter> set ch = {}"
proof -
  have "set a \<inter> set ch = {}" if "a \<in> D" for a
    using assms that by (intro apartD [OF assms(1)]) auto
  then show ?thesis by (auto simp: blocks_of_def)
qed

lemma live_chain_blocks: "live_chain raw ch \<Longrightarrow> set ch \<noteq> {} \<and> hd ch \<in> set ch \<and> set ch \<subseteq> set DATA_BLOCKS"
  by (auto simp: live_chain_def chain_at_nth)

lemma live_head: "live_chain raw ch \<Longrightarrow> state_at raw (hd ch) = Inr LIVE_HEADER"
  using chain_at_state(1) [of raw False ch "hd ch"] chain_at_head by (auto simp: live_chain_def)

lemma dead_head: "chain_at raw True ch \<Longrightarrow> state_at raw (hd ch) = Inr DELETED_HEADER"
  using chain_at_state(2) [of raw True ch "hd ch"] chain_at_head by auto

text \<open>The states of the two chain loops, over the blocks seen so far.\<close>

abbreviation ident :: "byte list \<Rightarrow> nat list \<Rightarrow> entry_identity" where
  "ident raw ch \<equiv> pe_identity (entry_at raw ch)"

definition live_seen :: "byte list \<Rightarrow> nat list set \<Rightarrow> live_state \<Rightarrow> bool" where
  "live_seen raw C st \<longleftrightarrow> (\<exists>chs. set chs = C \<and> distinct (map (ident raw) chs)
     \<and> st = (blocks_of C, map (entry_at raw) chs, ident raw ` C))"

lemma live_seen_insert:
  assumes "live_seen raw C (consumed, es, ids)" and "ident raw ch \<notin> ids"
  shows "live_seen raw (insert ch C)
    (consumed \<union> set ch, es @ [entry_at raw ch], insert (ident raw ch) ids)"
proof -
  obtain chs where chs: "set chs = C" "distinct (map (ident raw) chs)"
      "consumed = blocks_of C" "es = map (entry_at raw) chs" "ids = ident raw ` C"
    using assms by (auto simp: live_seen_def)
  with assms(2) show ?thesis
    unfolding live_seen_def by (intro exI [of _ "chs @ [ch]"]) auto
qed

lemma live_loop_sound:
  assumes "foldE (live_step raw) DATA_BLOCKS ({}, [], {}) = Inr st"
    and "\<And>b. b \<in> set DATA_BLOCKS \<Longrightarrow> \<exists>s. state_at raw b = Inr s"
  shows "\<exists>C. (\<forall>ch \<in> C. live_chain raw ch) \<and> apart C \<and> inj_on (ident raw) C \<and> live_seen raw C st
    \<and> (\<forall>b \<in> set DATA_BLOCKS. state_at raw b = Inr LIVE_HEADER \<longrightarrow> b \<in> blocks_of C)"
proof -
  let ?I = "\<lambda>pre st. \<exists>C. (\<forall>ch \<in> C. live_chain raw ch) \<and> apart C \<and> inj_on (ident raw) C
    \<and> live_seen raw C st \<and> (\<forall>b \<in> set pre. state_at raw b = Inr LIVE_HEADER \<longrightarrow> b \<in> blocks_of C)"
  show ?thesis
  proof (rule foldE_invariant [of "live_step raw" DATA_BLOCKS _ st ?I])
    show "?I [] ({}, [], {})"
      by (rule exI [of _ "{}"]) (auto simp: apart_def live_seen_def)
  next
    fix b pre s s'
    assume b: "b \<in> set DATA_BLOCKS" and "?I pre s" and step: "live_step raw b s = Inr s'"
    then obtain C where C: "\<forall>ch \<in> C. live_chain raw ch" "apart C" "inj_on (ident raw) C"
        "live_seen raw C s" "\<forall>b \<in> set pre. state_at raw b = Inr LIVE_HEADER \<longrightarrow> b \<in> blocks_of C"
      by blast
    obtain consumed es ids where s: "s = (consumed, es, ids)" by (cases s)
    with C(4) have parts: "consumed = blocks_of C" "ids = ident raw ` C"
      by (auto simp: live_seen_def)
    show "?I (pre @ [b]) s'"
    proof (cases "state_at raw b = Inr LIVE_HEADER")
      case True
      from step s True obtain ch where ch: "live_chain raw ch" "hd ch = b" "consumed \<inter> set ch = {}"
          "ident raw ch \<notin> ids"
          "s' = (consumed \<union> set ch, es @ [entry_at raw ch], insert (ident raw ch) ids)"
        by (auto elim: live_step_Inr)
      have "live_seen raw (insert ch C) s'" using C(4) ch s by (simp add: live_seen_insert)
      moreover have "apart (insert ch C)"
        using C(2) ch(3) parts by (auto simp: apart_insert blocks_of_def)
      moreover have "inj_on (ident raw) (insert ch C)" using C(3) ch(4) parts by auto
      moreover have "b \<in> set ch" using live_chain_blocks [OF ch(1)] ch(2) by blast
      ultimately show ?thesis using C ch(1) by (intro exI [of _ "insert ch C"]) auto
    next
      case False
      obtain t where "state_at raw b = Inr t" using assms(2) b by blast
      with False step have "s' = s" by (auto simp: live_step_skip)
      with C False show ?thesis by (intro exI [of _ C]) auto
    qed
  qed (use assms in auto)
qed

lemma live_loop_complete:
  assumes "\<forall>ch \<in> live. live_chain raw ch" and "apart live" and "inj_on (ident raw) live"
    and "\<And>b. b \<in> set DATA_BLOCKS \<Longrightarrow> \<exists>s. state_at raw b = Inr s"
    and heads: "\<And>b. b \<in> set DATA_BLOCKS \<Longrightarrow> state_at raw b = Inr LIVE_HEADER \<Longrightarrow> \<exists>ch \<in> live. hd ch = b"
  shows "\<exists>st. foldE (live_step raw) DATA_BLOCKS ({}, [], {}) = Inr st \<and> live_seen raw live st"
proof -
  let ?C = "\<lambda>pre. {ch \<in> live. hd ch \<in> set pre}"
  have "\<exists>st. foldE (live_step raw) DATA_BLOCKS ({}, [], {}) = Inr st
      \<and> live_seen raw (?C DATA_BLOCKS) st"
  proof (rule foldE_progress)
    show "live_seen raw (?C []) ({}, [], {})" by (auto simp: live_seen_def)
  next
    fix b pre post s
    assume split: "DATA_BLOCKS = pre @ b # post" and I: "live_seen raw (?C pre) s"
    have b: "b \<in> set DATA_BLOCKS" by (simp add: split)
    have "distinct DATA_BLOCKS" by (simp add: DATA_BLOCKS_def)
    then have fresh: "b \<notin> set pre" by (simp add: split)
    obtain consumed es ids where s: "s = (consumed, es, ids)" by (cases s)
    with I have parts: "consumed = blocks_of (?C pre)" "ids = ident raw ` ?C pre"
      by (auto simp: live_seen_def)
    show "\<exists>s'. live_step raw b s = Inr s' \<and> live_seen raw (?C (pre @ [b])) s'"
    proof (cases "state_at raw b = Inr LIVE_HEADER")
      case True
      then obtain ch where ch: "ch \<in> live" "hd ch = b" using heads b by blast
      have C: "?C (pre @ [b]) = insert ch (?C pre)"
      proof (intro equalityI subsetI)
        fix x assume x: "x \<in> ?C (pre @ [b])"
        show "x \<in> insert ch (?C pre)"
        proof (cases "hd x = b")
          case True
          with x ch assms(1) have "x = ch"
            by (intro chain_at_unique [of raw False]) (auto simp: live_chain_def)
          then show ?thesis by simp
        qed (use x in auto)
      qed (use ch in auto)
      have notin: "ch \<notin> ?C pre" using ch fresh by auto
      have "consumed \<inter> set ch = {}"
        unfolding parts by (rule apart_others [OF assms(2) ch(1)]) (use notin in auto)
      moreover have id: "ident raw ch \<notin> ids"
        using assms(3) ch(1) notin unfolding parts by (auto dest: inj_onD)
      ultimately have "live_step raw b s =
          Inr (consumed \<union> set ch, es @ [entry_at raw ch], insert (ident raw ch) ids)"
        unfolding s using assms(1) ch by (intro live_step_ok) auto
      with live_seen_insert [OF I [unfolded s] id] show ?thesis
        unfolding C by blast
    next
      case False
      obtain t where t: "state_at raw b = Inr t" using assms(4) b by blast
      have "?C (pre @ [b]) = ?C pre"
        using False assms(1) live_head by auto
      with t False I show ?thesis by (simp add: live_step_skip)
    qed
  qed
  moreover have "?C DATA_BLOCKS = live"
    using assms(1) live_chain_blocks by fastforce
  ultimately show ?thesis by simp
qed

lemma deleted_loop_sound:
  assumes "foldE (deleted_step raw consumed) DATA_BLOCKS {} = Inr deleted"
    and "\<And>b. b \<in> set DATA_BLOCKS \<Longrightarrow> \<exists>s. state_at raw b = Inr s"
  shows "\<exists>C. (\<forall>ch \<in> C. chain_at raw True ch) \<and> apart C \<and> deleted = blocks_of C
    \<and> consumed \<inter> blocks_of C = {}
    \<and> (\<forall>b \<in> set DATA_BLOCKS. state_at raw b = Inr DELETED_HEADER \<longrightarrow> b \<in> blocks_of C)"
proof -
  let ?I = "\<lambda>pre deleted. \<exists>C. (\<forall>ch \<in> C. chain_at raw True ch) \<and> apart C \<and> deleted = blocks_of C
    \<and> consumed \<inter> blocks_of C = {}
    \<and> (\<forall>b \<in> set pre. state_at raw b = Inr DELETED_HEADER \<longrightarrow> b \<in> blocks_of C)"
  show ?thesis
  proof (rule foldE_invariant [of "deleted_step raw consumed" DATA_BLOCKS _ deleted ?I])
    show "?I [] {}" by (rule exI [of _ "{}"]) (auto simp: apart_def)
  next
    fix b pre s s'
    assume b: "b \<in> set DATA_BLOCKS" and "?I pre s" and step: "deleted_step raw consumed b s = Inr s'"
    then obtain C where C: "\<forall>ch \<in> C. chain_at raw True ch" "apart C" "s = blocks_of C"
        "consumed \<inter> blocks_of C = {}"
        "\<forall>b \<in> set pre. state_at raw b = Inr DELETED_HEADER \<longrightarrow> b \<in> blocks_of C"
      by blast
    show "?I (pre @ [b]) s'"
    proof (cases "state_at raw b = Inr DELETED_HEADER")
      case True
      from step True obtain ch where ch: "chain_at raw True ch" "hd ch = b" "consumed \<inter> set ch = {}"
          "s \<inter> set ch = {}" "s' = s \<union> set ch"
        by (rule deleted_step_Inr)
      have "apart (insert ch C)"
        using C(2,3) ch(4) by (auto simp: apart_insert blocks_of_def)
      moreover have "b \<in> set ch" using chain_at_head [OF ch(1)] ch(2) by simp
      ultimately show ?thesis using C ch by (intro exI [of _ "insert ch C"]) auto
    next
      case False
      obtain t where "state_at raw b = Inr t" using assms(2) b by blast
      with False step have "s' = s" by (auto simp: deleted_step_skip)
      with C False show ?thesis by (intro exI [of _ C]) auto
    qed
  qed (use assms in auto)
qed

lemma deleted_loop_complete:
  assumes "\<forall>ch \<in> dead. chain_at raw True ch" and "apart dead" and "consumed \<inter> blocks_of dead = {}"
    and "\<And>b. b \<in> set DATA_BLOCKS \<Longrightarrow> \<exists>s. state_at raw b = Inr s"
    and heads: "\<And>b. b \<in> set DATA_BLOCKS \<Longrightarrow> state_at raw b = Inr DELETED_HEADER \<Longrightarrow> \<exists>ch \<in> dead. hd ch = b"
  shows "foldE (deleted_step raw consumed) DATA_BLOCKS {} = Inr (blocks_of dead)"
proof -
  let ?C = "\<lambda>pre. {ch \<in> dead. hd ch \<in> set pre}"
  have "\<exists>st. foldE (deleted_step raw consumed) DATA_BLOCKS {} = Inr st
      \<and> st = blocks_of (?C DATA_BLOCKS)"
  proof (rule foldE_progress)
    fix b pre post s
    assume split: "DATA_BLOCKS = pre @ b # post" and I: "s = blocks_of (?C pre)"
    have b: "b \<in> set DATA_BLOCKS" by (simp add: split)
    have "distinct DATA_BLOCKS" by (simp add: DATA_BLOCKS_def)
    then have fresh: "b \<notin> set pre" by (simp add: split)
    show "\<exists>s'. deleted_step raw consumed b s = Inr s' \<and> s' = blocks_of (?C (pre @ [b]))"
    proof (cases "state_at raw b = Inr DELETED_HEADER")
      case True
      then obtain ch where ch: "ch \<in> dead" "hd ch = b" using heads b by blast
      have C: "?C (pre @ [b]) = insert ch (?C pre)"
        using ch assms(1) chain_at_unique [of raw True] by auto
      have "s \<inter> set ch = {}"
        unfolding I by (rule apart_others [OF assms(2) ch(1)]) (use ch fresh in auto)
      moreover have "consumed \<inter> set ch = {}" using assms(3) ch(1) by (auto simp: blocks_of_def)
      ultimately show ?thesis
        using deleted_step_chain [of raw ch consumed s] assms(1) ch unfolding C I by auto
    next
      case False
      obtain t where t: "state_at raw b = Inr t" using assms(4) b by blast
      have "?C (pre @ [b]) = ?C pre"
        using False assms(1) dead_head by auto
      with t False I show ?thesis by (simp add: deleted_step_skip)
    qed
  qed simp
  moreover have "?C DATA_BLOCKS = dead"
    using assms(1) chain_at_head by (fastforce simp: chain_at_nth)
  ultimately show ?thesis by simp
qed

subsection \<open>Parsing is reading the layout\<close>

lemma foldE_unit: "foldE f xs () = Inr () \<longleftrightarrow> (\<forall>x \<in> set xs. f x () = Inr ())"
  by (induction xs) (auto simp: bindE_eq_Inr)

lemma card_state_known: "card_state f = Inr s \<Longrightarrow> s \<in> set KNOWN_STATES"
  by (auto simp: card_state_def split: if_splits)

lemma checks_card_ok:
  "length raw = CARD_SIZE \<and> take 2 (take FRAME_SIZE raw) = utf8 ''MC''
     \<and> xor_checksum (take FRAME_SIZE raw) = 0 \<and> foldE (check_frame raw) DATA_BLOCKS () = Inr ()
     \<and> foldE (check_sector raw) [16..<36] () = Inr () \<longleftrightarrow> card_ok raw"
proof -
  have "check_frame raw b () = Inr () \<longleftrightarrow> xor_checksum (directory_frame raw b) = 0
      \<and> (\<exists>s \<in> set KNOWN_STATES. state_at raw b = Inr s)" for b
    using card_state_known by (auto simp: check_frame_def state_at_def bindE_eq_Inr)
  moreover have "check_sector raw i () = Inr () \<longleftrightarrow>
      py_slice (i * FRAME_SIZE) (i * FRAME_SIZE + 4) raw = [0xFF, 0xFF, 0xFF, 0xFF]" for i
    by (simp add: check_sector_def Let_def)
  moreover have "take 2 (take FRAME_SIZE raw) = take 2 raw" by (simp add: FRAME_SIZE_def)
  moreover have "set [16..<36] = {16..<36 :: nat}" by (rule set_upt)
  ultimately show ?thesis by (simp only: card_ok_def foldE_unit simp_thms conj_assoc)
qed

definition finish_card :: "byte list \<Rightarrow> (container_error, parsed_card) result" where
  "finish_card raw =
     bindE (foldE (live_step raw) DATA_BLOCKS ({}, [], {})) (\<lambda>(consumed, entries, identities).
     bindE (foldE (deleted_step raw consumed) DATA_BLOCKS {}) (\<lambda>deleted.
     bindE (foldE (continuation_step raw consumed deleted) DATA_BLOCKS ()) (\<lambda>_.
       Inr \<lparr>pc_raw = raw, pc_live = sort_key (\<lambda>e. id_value (pe_identity e)) entries,
            pc_deleted = deleted,
            pc_free = {block \<in> set DATA_BLOCKS. state_at raw block = Inr FREE_STATE}\<rparr>)))"

lemma parse_card_alt: "parse_card raw = Inr c \<longleftrightarrow> card_ok raw \<and> finish_card raw = Inr c"
  unfolding checks_card_ok [symmetric]
  by (auto simp: parse_card_def finish_card_def Let_def bindE_eq_Inr split: if_splits)

lemma card_ok_state: "card_ok raw \<Longrightarrow> b \<in> set DATA_BLOCKS \<Longrightarrow> \<exists>s. state_at raw b = Inr s"
  by (auto simp: card_ok_def)

lemma known_cases:
  assumes "s \<in> set KNOWN_STATES"
  obtains "s = LIVE_HEADER" | "s = DELETED_HEADER" | "s = FREE_STATE"
    | "s \<in> {LIVE_MIDDLE, LIVE_END, DELETED_MIDDLE, DELETED_END}"
  using assms by (auto simp: KNOWN_STATES_def)

lemma continuation_step_iff:
  assumes "state_at raw b = Inr s" and "s \<in> set KNOWN_STATES"
    and "s = LIVE_HEADER \<or> s = DELETED_HEADER \<Longrightarrow> b \<in> consumed \<union> deleted"
    and "b \<in> consumed \<union> deleted \<Longrightarrow> s \<noteq> FREE_STATE"
  shows "continuation_step raw consumed deleted b () = Inr () \<longleftrightarrow>
    b \<in> consumed \<union> deleted \<or> s = FREE_STATE \<and> next_block (directory_frame raw b) = Inr None"
  using assms(2)
proof (cases rule: known_cases)
  case 1
  then show ?thesis
    using assms by (simp add: continuation_step_def ps1_states)
next
  case 2
  then show ?thesis
    using assms by (simp add: continuation_step_def ps1_states)
next
  case 3
  have "FREE_STATE \<notin> {LIVE_MIDDLE, LIVE_END, DELETED_MIDDLE, DELETED_END}"
    by (simp add: ps1_states)
  with 3 assms show ?thesis by (auto simp: continuation_step_def bindE_eq_Inr)
next
  case 4
  then have "s \<noteq> FREE_STATE" by (auto simp: ps1_states)
  with 4 assms show ?thesis by (auto simp: continuation_step_def)
qed

lemma live_seen_parsed:
  assumes "live_seen raw C (consumed, es, ids)"
  shows "consumed = blocks_of C" and "set (sort_key f es) = entry_at raw ` C"
    and "distinct (map pe_identity (sort_key f es))"
proof -
  obtain chs where chs: "set chs = C" "distinct (map (ident raw) chs)" "es = map (entry_at raw) chs"
      and c: "consumed = blocks_of C"
    using assms by (auto simp: live_seen_def)
  show "consumed = blocks_of C" by (rule c)
  show "set (sort_key f es) = entry_at raw ` C" using chs by simp
  have "distinct (map pe_identity es)" using chs by (simp add: comp_def)
  then show "distinct (map pe_identity (sort_key f es))" by (auto simp: distinct_map)
qed

lemma parse_card_layout:
  assumes "parse_card raw = Inr c"
  shows "\<exists>live dead. layout raw live dead \<and> parsed_as c raw live dead"
proof -
  have ok: "card_ok raw" and fin: "finish_card raw = Inr c"
    using assms by (simp_all add: parse_card_alt)
  note state = card_ok_state [OF ok]
  obtain consumed es ids deleted where
      loops: "foldE (live_step raw) DATA_BLOCKS ({}, [], {}) = Inr (consumed, es, ids)"
        "foldE (deleted_step raw consumed) DATA_BLOCKS {} = Inr deleted"
        "foldE (continuation_step raw consumed deleted) DATA_BLOCKS () = Inr ()"
      and c: "c = \<lparr>pc_raw = raw, pc_live = sort_key (\<lambda>e. id_value (pe_identity e)) es,
            pc_deleted = deleted,
            pc_free = {block \<in> set DATA_BLOCKS. state_at raw block = Inr FREE_STATE}\<rparr>"
    using fin by (auto simp: finish_card_def bindE_eq_Inr)
  obtain live where live: "\<forall>ch \<in> live. live_chain raw ch" "apart live" "inj_on (ident raw) live"
      "live_seen raw live (consumed, es, ids)"
      "\<forall>b \<in> set DATA_BLOCKS. state_at raw b = Inr LIVE_HEADER \<longrightarrow> b \<in> blocks_of live"
    using live_loop_sound [OF loops(1) state] by blast
  obtain dead where dead: "\<forall>ch \<in> dead. chain_at raw True ch" "apart dead" "deleted = blocks_of dead"
      "consumed \<inter> blocks_of dead = {}"
      "\<forall>b \<in> set DATA_BLOCKS. state_at raw b = Inr DELETED_HEADER \<longrightarrow> b \<in> blocks_of dead"
    using deleted_loop_sound [OF loops(2) state] by blast
  note cons = live_seen_parsed(1) [OF live(4)]
  have used: "state_at raw b \<noteq> Inr FREE_STATE" if "b \<in> blocks_of (live \<union> dead)" for b
    using that live(1) dead(1) chain_at_state(3) by (force simp: blocks_of_def live_chain_def)
  have rest: "state_at raw b = Inr FREE_STATE \<and> next_block (directory_frame raw b) = Inr None"
    if b: "b \<in> set DATA_BLOCKS" "b \<notin> blocks_of (live \<union> dead)" for b
  proof -
    obtain s where s: "state_at raw b = Inr s" "s \<in> set KNOWN_STATES"
      using ok b(1) by (auto simp: card_ok_def)
    have "continuation_step raw consumed deleted b () = Inr ()"
      using loops(3) b(1) by (simp add: foldE_unit)
    then show ?thesis
      using continuation_step_iff [OF s, of consumed deleted] used [of b] live(5) dead(3,5) cons b s
      by (auto simp: blocks_of_Un)
  qed
  have "apart (live \<union> dead)"
    unfolding apart_def
  proof (intro ballI impI)
    fix a b assume ab: "a \<in> live \<union> dead" "b \<in> live \<union> dead" "a \<noteq> b"
    have cross: "set x \<inter> set y = {}" if "x \<in> live" "y \<in> dead" for x y
      using that dead(4) cons by (auto simp: blocks_of_def)
    from ab show "set a \<inter> set b = {}"
      using apartD [OF live(2)] apartD [OF dead(2)] cross by (metis Int_commute UnE)
  qed
  then have "layout raw live dead"
    using ok live dead rest by (simp add: layout_def)
  moreover have "pc_free c = set DATA_BLOCKS - blocks_of (live \<union> dead)"
    using rest used by (auto simp: c)
  ultimately have "layout raw live dead \<and> parsed_as c raw live dead"
    using live_seen_parsed [OF live(4)] dead(3) by (simp add: parsed_as_def c)
  then show ?thesis by blast
qed

lemma layout_heads:
  assumes "layout raw live dead" and "b \<in> set DATA_BLOCKS"
  shows "state_at raw b = Inr LIVE_HEADER \<Longrightarrow> \<exists>ch \<in> live. hd ch = b"
    and "state_at raw b = Inr DELETED_HEADER \<Longrightarrow> \<exists>ch \<in> dead. hd ch = b"
proof -
  have "state_at raw b = Inr FREE_STATE \<or> b \<in> blocks_of (live \<union> dead)"
    using assms by (auto simp: layout_def)
  moreover have "LIVE_HEADER \<noteq> FREE_STATE" "DELETED_HEADER \<noteq> FREE_STATE"
    by (simp_all add: ps1_states)
  ultimately have used: "b \<in> blocks_of (live \<union> dead)"
    if "state_at raw b = Inr LIVE_HEADER \<or> state_at raw b = Inr DELETED_HEADER"
    using that by auto
  have live: "chain_at raw False ch" if "ch \<in> live" for ch
    using assms(1) that by (simp add: layout_def live_chain_def)
  have dead: "chain_at raw True ch" if "ch \<in> dead" for ch
    using assms(1) that by (simp add: layout_def)
  have cases: "(\<exists>ch \<in> live. b \<in> set ch) \<or> (\<exists>ch \<in> dead. b \<in> set ch)"
    if "b \<in> blocks_of (live \<union> dead)"
    using that by (auto simp: blocks_of_def)
  show "\<exists>ch \<in> live. hd ch = b" if "state_at raw b = Inr LIVE_HEADER"
    using cases [OF used] that chain_at_state(1) [OF live] chain_at_state(1) [OF dead] by blast
  show "\<exists>ch \<in> dead. hd ch = b" if "state_at raw b = Inr DELETED_HEADER"
    using cases [OF used] that chain_at_state(2) [OF live] chain_at_state(2) [OF dead] by blast
qed

lemma layout_parse:
  assumes "layout raw live dead"
  shows "\<exists>c. parse_card raw = Inr c \<and> parsed_as c raw live dead"
proof -
  have lay: "card_ok raw" "\<forall>ch \<in> live. live_chain raw ch" "\<forall>ch \<in> dead. chain_at raw True ch"
      "apart (live \<union> dead)" "inj_on (ident raw) live"
      "\<forall>b \<in> set DATA_BLOCKS - blocks_of (live \<union> dead).
          state_at raw b = Inr FREE_STATE \<and> next_block (directory_frame raw b) = Inr None"
    using assms by (simp_all add: layout_def)
  note state = card_ok_state [OF lay(1)]
  have ap: "apart live" "apart dead" using lay(4) by (auto intro: apart_mono)
  obtain consumed es ids where l: "foldE (live_step raw) DATA_BLOCKS ({}, [], {}) = Inr (consumed, es, ids)"
      "live_seen raw live (consumed, es, ids)"
    using live_loop_complete [OF lay(2) ap(1) lay(5) state layout_heads(1) [OF assms]]
    by (metis prod.exhaust)
  note cons = live_seen_parsed(1) [OF l(2)]
  have "set a \<inter> set b = {}" if "a \<in> live" "b \<in> dead" for a b
  proof (rule apartD [OF lay(4)])
    show "a \<noteq> b"
    proof
      assume "a = b"
      with that lay(2,3) have "live_chain raw b" "chain_at raw True b" by auto
      then have "Inr LIVE_HEADER = (Inr DELETED_HEADER :: (container_error, byte) result)"
        using live_head dead_head by metis
      then show False by (simp add: ps1_states)
    qed
  qed (use that in auto)
  then have disj: "consumed \<inter> blocks_of dead = {}"
    unfolding cons blocks_of_def by blast
  have d: "foldE (deleted_step raw consumed) DATA_BLOCKS {} = Inr (blocks_of dead)"
    by (rule deleted_loop_complete [OF lay(3) ap(2) disj state layout_heads(2) [OF assms]])
  have used: "state_at raw b \<noteq> Inr FREE_STATE" if "b \<in> blocks_of (live \<union> dead)" for b
    using that lay(2,3) chain_at_state(3) by (force simp: blocks_of_def live_chain_def)
  have heads: "b \<in> blocks_of (live \<union> dead)"
    if h: "state_at raw b = Inr LIVE_HEADER \<or> state_at raw b = Inr DELETED_HEADER" "b \<in> set DATA_BLOCKS" for b
  proof -
    obtain ch where "ch \<in> live \<union> dead" "hd ch = b"
      using h(1) layout_heads [OF assms h(2)] by blast
    moreover from this have "hd ch \<in> set ch" using lay(2,3) chain_at_head live_chain_blocks by blast
    ultimately show ?thesis by (auto simp: blocks_of_def)
  qed
  have "continuation_step raw consumed (blocks_of dead) b () = Inr ()" if b: "b \<in> set DATA_BLOCKS" for b
  proof -
    obtain s where s: "state_at raw b = Inr s" "s \<in> set KNOWN_STATES"
      using lay(1) b by (auto simp: card_ok_def)
    show ?thesis
      using continuation_step_iff [OF s, of consumed "blocks_of dead"] used [of b] heads [OF _ b] lay(6) b s
      by (auto simp: cons blocks_of_Un)
  qed
  then have "foldE (continuation_step raw consumed (blocks_of dead)) DATA_BLOCKS () = Inr ()"
    by (simp add: foldE_unit)
  then obtain c where c: "parse_card raw = Inr c"
      "c = \<lparr>pc_raw = raw, pc_live = sort_key (\<lambda>e. id_value (pe_identity e)) es,
            pc_deleted = blocks_of dead,
            pc_free = {block \<in> set DATA_BLOCKS. state_at raw block = Inr FREE_STATE}\<rparr>"
    using lay(1) l d by (simp add: parse_card_alt finish_card_def)
  have "pc_free c = set DATA_BLOCKS - blocks_of (live \<union> dead)"
    using lay(6) used by (auto simp: c(2))
  then show ?thesis
    using c live_seen_parsed [OF l(2)] by (auto simp: parsed_as_def)
qed

end
