(* ===== verification/Ps1Rebuild.thy ===== *)
theory Ps1Rebuild
  imports Ps1Layout
begin

text \<open>
  Rewriting a PlayStation card: what writing or deleting a chain does to every frame and block,
  how a layout changes when chains are replaced, the two loops of \<open>rebuild\<close>, and the properties
  of the adapter.
\<close>

subsection \<open>What writing and deleting a chain does to the card\<close>

text \<open>
  \<open>updated raw r bs k W D\<close>: \<open>r\<close> is \<open>raw\<close> with the frames and data of the first \<open>k\<close> blocks of \<open>bs\<close>
  replaced by \<open>W\<close> and \<open>D\<close>, and nothing else changed.
\<close>

definition updated ::
  "byte list \<Rightarrow> byte list \<Rightarrow> nat list \<Rightarrow> nat \<Rightarrow> (nat \<Rightarrow> byte list) \<Rightarrow> (nat \<Rightarrow> byte list) \<Rightarrow> bool"
where
  "updated raw r bs k W D \<longleftrightarrow> length r = CARD_SIZE
     \<and> (\<forall>j < k. directory_frame r (bs ! j) = W j \<and> data_block r (bs ! j) = D j)
     \<and> (\<forall>c. c \<le> 15 \<longrightarrow> c \<notin> set (take k bs) \<longrightarrow> directory_frame r c = directory_frame raw c)
     \<and> (\<forall>c. 1 \<le> c \<longrightarrow> c \<notin> set (take k bs) \<longrightarrow> data_block r c = data_block raw c)
     \<and> (\<forall>c d. d \<le> 128 \<or> 2048 \<le> c \<and> d \<le> 8192 \<longrightarrow> py_slice c d r = py_slice c d raw)"

definition data_blocks_list :: "nat list \<Rightarrow> bool" where
  "data_blocks_list bs \<longleftrightarrow> distinct bs \<and> set bs \<subseteq> set DATA_BLOCKS"

lemma data_blocks_nth: "data_blocks_list bs \<Longrightarrow> j < length bs \<Longrightarrow> 1 \<le> bs ! j \<and> bs ! j \<le> 15"
  using subsetD [of "set bs" "set DATA_BLOCKS" "bs ! j"]
  by (simp add: data_blocks_list_def data_block_range)

lemma updated_0: "length raw = CARD_SIZE \<Longrightarrow> updated raw raw bs 0 W D"
  by (simp add: updated_def)

lemma updated_frame:
  assumes "updated raw r bs j W D" and "data_blocks_list bs" and "j < length bs"
    and "length (W j) = 128" and "D j = data_block raw (bs ! j)"
  shows "updated raw (put_frame r (bs ! j) (W j)) bs (Suc j) W D"
proof -
  have b: "1 \<le> bs ! j \<and> bs ! j \<le> 15" by (rule data_blocks_nth [OF assms(2,3)])
  have ne: "bs ! i \<noteq> bs ! j" if "i < j" for i
    using assms(2,3) that by (simp add: data_blocks_list_def nth_eq_iff_index_eq)
  have t: "set (take (Suc j) bs) = insert (bs ! j) (set (take j bs))"
    using assms(3) by (simp add: take_Suc_conv_app_nth)
  have notin: "bs ! j \<notin> set (take j bs)"
    using ne assms(3) by (force simp: in_set_conv_nth)
  have 1: "1 \<le> bs ! i" if "i < j" for i using data_blocks_nth [OF assms(2), of i] assms(3) that by simp
  show ?thesis
    using assms(1,4,5) b ne t notin 1
    by (auto simp: updated_def less_Suc_eq frame_put_frame data_put_frame slice_put_frame)
qed

lemma updated_block:
  assumes "updated raw r bs j W D" and "data_blocks_list bs" and "j < length bs"
    and "length (W j) = 128" and "length (D j) = BLOCK_SIZE"
  shows "updated raw (put_block (put_frame r (bs ! j) (W j)) (bs ! j) (D j)) bs (Suc j) W D"
proof -
  have b: "1 \<le> bs ! j \<and> bs ! j \<le> 15" by (rule data_blocks_nth [OF assms(2,3)])
  have ne: "bs ! i \<noteq> bs ! j" if "i < j" for i
    using assms(2,3) that by (simp add: data_blocks_list_def nth_eq_iff_index_eq)
  have t: "set (take (Suc j) bs) = insert (bs ! j) (set (take j bs))"
    using assms(3) by (simp add: take_Suc_conv_app_nth)
  have i15: "1 \<le> bs ! i \<and> bs ! i \<le> 15" if "i < j" for i
    using data_blocks_nth [OF assms(2), of i] assms(3) that by simp
  let ?r = "put_frame r (bs ! j) (W j)"
  have len: "length r = CARD_SIZE" "length ?r = CARD_SIZE"
    using assms(1,4) b by (auto simp: updated_def)
  show ?thesis
    using assms(1,4,5) b ne t len i15
    by (auto simp: updated_def less_Suc_eq frame_put_frame data_put_frame slice_put_frame
        frame_put_block data_put_block slice_put_block)
qed

lemma updated_state:
  "updated raw r bs (length bs) W D \<Longrightarrow> c \<le> 15 \<Longrightarrow> c \<notin> set bs \<Longrightarrow> state_at r c = state_at raw c"
  by (simp add: updated_def state_at_def)

text \<open>The frame a chain of the given kind has at an index, over the frame it is made from.\<close>

definition chain_frame :: "bool \<Rightarrow> nat list \<Rightarrow> nat \<Rightarrow> byte list \<Rightarrow> byte list" where
  "chain_frame deleted bs j f = link_frame (kind_state deleted (length bs) j) (link_to bs j) f"

definition payload_ok :: "extracted_ps1 \<Rightarrow> bool" where
  "payload_ok p \<longleftrightarrow> length (xp_frames p) = length (xp_data p) \<and> xp_data p \<noteq> []
     \<and> (\<forall>f \<in> set (xp_frames p). length f = 128) \<and> (\<forall>d \<in> set (xp_data p). length d = BLOCK_SIZE)"

lemma write_chain_effect:
  assumes "length raw = CARD_SIZE" and "payload_ok p" and "data_blocks_list bs"
    and "length bs = length (xp_data p)"
  shows "\<exists>r. write_chain raw bs p = Inr r \<and>
    updated raw r bs (length bs) (\<lambda>j. chain_frame False bs j (xp_frames p ! j)) (\<lambda>j. xp_data p ! j)"
proof -
  let ?W = "\<lambda>j. chain_frame False bs j (xp_frames p ! j)"
  have frame: "length (xp_frames p ! j) = 128" "length (xp_data p ! j) = BLOCK_SIZE" if "j < length bs" for j
    using assms(2,4) that by (auto simp: payload_ok_def)
  have step: "write_step bs p j r = Inr (put_block (put_frame r (bs ! j) (?W j)) (bs ! j) (xp_data p ! j))"
    if "j < length bs" for j r
    using assms(2,4) frame(1) [OF that] that
    by (simp add: write_step_def Let_def chain_frame_def payload_ok_def kind_state_def)
  have "\<exists>r. foldE (write_step bs p) [0..<k] raw = Inr r \<and> updated raw r bs k ?W (\<lambda>j. xp_data p ! j)"
    if "k \<le> length bs" for k
    using that
  proof (induction k)
    case (Suc k)
    then obtain r where r: "foldE (write_step bs p) [0..<k] raw = Inr r"
        "updated raw r bs k ?W (\<lambda>j. xp_data p ! j)"
      by auto
    have "updated raw (put_block (put_frame r (bs ! k) (?W k)) (bs ! k) (xp_data p ! k)) bs (Suc k)
        ?W (\<lambda>j. xp_data p ! j)"
      using Suc.prems frame [of k] by (intro updated_block [OF r(2) assms(3)]) (auto simp: chain_frame_def)
    with r(1) Suc.prems show ?case by (simp add: foldE_append step)
  qed (simp add: updated_0 assms(1))
  from this [of "length bs"] assms(4) show ?thesis by (simp add: write_chain_def)
qed

lemma length_directory_frame:
  "length raw = CARD_SIZE \<Longrightarrow> b \<le> 15 \<Longrightarrow> length (directory_frame raw b) = 128"
  by (simp add: directory_frame_def Let_def ps1_sizes)

lemma mark_deleted_effect:
  assumes "length raw = CARD_SIZE" and "data_blocks_list bs"
  shows "\<exists>r. mark_deleted raw bs = Inr r \<and>
    updated raw r bs (length bs) (\<lambda>j. chain_frame True bs j (directory_frame raw (bs ! j)))
      (\<lambda>j. data_block raw (bs ! j))"
proof -
  let ?W = "\<lambda>j. chain_frame True bs j (directory_frame raw (bs ! j))"
  let ?D = "\<lambda>j. data_block raw (bs ! j)"
  have "\<exists>r. foldE (delete_step bs) [0..<k] raw = Inr r \<and> updated raw r bs k ?W ?D"
    if "k \<le> length bs" for k
    using that
  proof (induction k)
    case (Suc k)
    then obtain r where r: "foldE (delete_step bs) [0..<k] raw = Inr r" "updated raw r bs k ?W ?D"
      by auto
    have b: "bs ! k \<le> 15" "bs ! k \<notin> set (take k bs)"
      using data_blocks_nth [OF assms(2), of k] Suc.prems assms(2)
      by (auto simp: data_blocks_list_def in_set_conv_nth nth_eq_iff_index_eq)
    then have f: "directory_frame r (bs ! k) = directory_frame raw (bs ! k)"
      using r(2) by (simp add: updated_def)
    have len: "length (directory_frame raw (bs ! k)) = 128"
      using assms(1) b by (simp add: length_directory_frame)
    have step: "delete_step bs k r = Inr (put_frame r (bs ! k) (?W k))"
      using len by (simp add: delete_step_def Let_def f chain_frame_def kind_state_def)
    have "updated raw (put_frame r (bs ! k) (?W k)) bs (Suc k) ?W ?D"
      using Suc.prems len by (intro updated_frame [OF r(2) assms(2)]) (auto simp: chain_frame_def)
    with r(1) step show ?case by (simp add: foldE_append)
  qed (simp add: updated_0 assms(1))
  from this [of "length bs"] show ?thesis by (simp add: mark_deleted_def)
qed

subsection \<open>A written chain\<close>

lemma kind_state_known: "kind_state d n i \<in> set KNOWN_STATES"
  by (simp add: kind_state_def chain_state_def KNOWN_STATES_def)

lemma written_chain:
  assumes "bs \<noteq> []" and "data_blocks_list bs"
    and "\<And>j. j < length bs \<Longrightarrow> directory_frame r (bs ! j) = chain_frame d bs j (F j)"
    and "\<And>j. j < length bs \<Longrightarrow> length (F j) = 128"
  shows "chain_at r d bs"
    and "b \<in> set bs \<Longrightarrow> xor_checksum (directory_frame r b) = 0 \<and> (\<exists>s \<in> set KNOWN_STATES. state_at r b = Inr s)"
proof -
  have st: "state_at r (bs ! j) = Inr (kind_state d (length bs) j)" if "j < length bs" for j
    using assms that
    by (simp add: state_at_def chain_frame_def state_link_frame kind_state_known)
  have nx: "next_block (directory_frame r (bs ! j)) =
      Inr (if Suc j = length bs then None else Some (bs ! Suc j))" if "j < length bs" for j
    using next_link_frame [of "F j" bs j] assms that
    by (auto simp: chain_frame_def data_blocks_list_def)
  show "chain_at r d bs"
    using assms(1,2) st nx by (simp add: chain_at_nth data_blocks_list_def)
  show "b \<in> set bs \<Longrightarrow> xor_checksum (directory_frame r b) = 0 \<and> (\<exists>s \<in> set KNOWN_STATES. state_at r b = Inr s)"
    using st assms(3,4) kind_state_known by (auto simp: in_set_conv_nth chain_frame_def xor_link_frame)
qed

lemma canonical_hash_relink:
  assumes "length fs = length bs" and "\<And>j. j < length bs \<Longrightarrow> length (fs ! j) = 128"
  shows "canonical_hash fn (map (\<lambda>j. chain_frame d bs j (fs ! j)) [0..<length bs]) ds = canonical_hash fn fs ds"
proof -
  have "map2 (canonical_frame (length bs)) [0..<length bs]
          (map (\<lambda>j. chain_frame d bs j (fs ! j)) [0..<length bs])
        = map2 (canonical_frame (length bs)) [0..<length bs] fs"
    using assms by (intro nth_equalityI) (simp_all add: chain_frame_def canonical_link_frame)
  then show ?thesis using assms(1) by (simp add: canonical_hash_def)
qed

subsection \<open>Rewriting part of a layout\<close>

lemma chain_at_cong:
  assumes "chain_at raw d ch" and "\<And>b. b \<in> set ch \<Longrightarrow> directory_frame r b = directory_frame raw b"
  shows "chain_at r d ch"
  using assms by (auto simp: chain_at_nth state_at_def)

lemma live_chain_cong:
  assumes "live_chain raw ch" and "\<And>b. b \<in> set ch \<Longrightarrow> directory_frame r b = directory_frame raw b"
  shows "live_chain r ch"
proof -
  have "hd ch \<in> set ch" using live_chain_blocks [OF assms(1)] by simp
  with assms chain_at_cong [of raw False ch r] show ?thesis by (simp add: live_chain_def)
qed

lemma entry_at_cong:
  assumes "live_chain raw ch" and "\<And>b. b \<in> set ch \<Longrightarrow> directory_frame r b = directory_frame raw b"
    and "\<And>b. b \<in> set ch \<Longrightarrow> data_block r b = data_block raw b"
  shows "entry_at r ch = entry_at raw ch"
proof -
  have "hd ch \<in> set ch" using live_chain_blocks [OF assms(1)] by simp
  with assms(2,3) have "directory_frame r (hd ch) = directory_frame raw (hd ch)"
      "map (directory_frame r) ch = map (directory_frame raw) ch"
      "map (data_block r) ch = map (data_block raw) ch"
    by auto
  then show ?thesis unfolding entry_at_def Let_def by metis
qed

text \<open>\<open>same_outside raw r X\<close>: only frames and data of the blocks \<open>X\<close> differ.\<close>

definition same_outside :: "byte list \<Rightarrow> byte list \<Rightarrow> nat set \<Rightarrow> bool" where
  "same_outside raw r X \<longleftrightarrow> length r = CARD_SIZE
     \<and> (\<forall>c. c \<le> 15 \<longrightarrow> c \<notin> X \<longrightarrow> directory_frame r c = directory_frame raw c)
     \<and> (\<forall>c. 1 \<le> c \<longrightarrow> c \<notin> X \<longrightarrow> data_block r c = data_block raw c)
     \<and> (\<forall>c d. d \<le> 128 \<or> 2048 \<le> c \<and> d \<le> 8192 \<longrightarrow> py_slice c d r = py_slice c d raw)"

lemma updated_same_outside: "updated raw r bs (length bs) W D \<Longrightarrow> same_outside raw r (set bs)"
  by (simp add: updated_def same_outside_def)

lemma same_outside_trans:
  "same_outside raw r X \<Longrightarrow> same_outside r r' Y \<Longrightarrow> same_outside raw r' (X \<union> Y)"
  by (simp add: same_outside_def)

lemma same_outside_refl: "length raw = CARD_SIZE \<Longrightarrow> same_outside raw raw X"
  by (simp add: same_outside_def)

lemma same_outside_block:
  "same_outside raw r X \<Longrightarrow> b \<in> set DATA_BLOCKS \<Longrightarrow> b \<notin> X \<Longrightarrow>
     directory_frame r b = directory_frame raw b \<and> data_block r b = data_block raw b"
  by (simp add: same_outside_def data_block_range)

lemma same_outside_card_ok:
  assumes "card_ok raw" and "same_outside raw r X"
    and "\<And>b. b \<in> X \<Longrightarrow> xor_checksum (directory_frame r b) = 0 \<and> (\<exists>s \<in> set KNOWN_STATES. state_at r b = Inr s)"
  shows "card_ok r"
proof -
  have s: "py_slice c d r = py_slice c d raw" if "d \<le> 128 \<or> 2048 \<le> c \<and> d \<le> 8192" for c d
    using assms(2) that by (auto simp: same_outside_def)
  have t: "take 2 r = take 2 raw" "take FRAME_SIZE r = take FRAME_SIZE raw"
    using s [of 2 0] s [of 128 0] by (simp_all add: py_slice_def FRAME_SIZE_def)
  have sec: "py_slice (i * FRAME_SIZE) (i * FRAME_SIZE + 4) r = py_slice (i * FRAME_SIZE) (i * FRAME_SIZE + 4) raw"
    if "i \<in> {16..<36}" for i
    using that by (intro s) (auto simp: FRAME_SIZE_def)
  have fr: "xor_checksum (directory_frame r b) = 0 \<and> (\<exists>s \<in> set KNOWN_STATES. state_at r b = Inr s)"
    if "b \<in> set DATA_BLOCKS" for b
    using assms that same_outside_block [OF assms(2) that]
    by (cases "b \<in> X") (auto simp: card_ok_def state_at_def)
  show ?thesis
    using assms(1,2) t sec fr by (simp add: card_ok_def same_outside_def)
qed

lemma layout_rewrite:
  assumes lay: "layout raw live dead" and old: "old \<subseteq> live \<union> dead"
    and same: "same_outside raw r (blocks_of (newL \<union> newD))"
    and sub: "blocks_of old \<subseteq> blocks_of (newL \<union> newD)"
    and keep: "blocks_of (live \<union> dead - old) \<inter> blocks_of (newL \<union> newD) = {}"
    and newL: "\<And>ch. ch \<in> newL \<Longrightarrow> live_chain r ch" and newD: "\<And>ch. ch \<in> newD \<Longrightarrow> chain_at r True ch"
    and ap: "apart (newL \<union> newD)"
    and ok: "\<And>b. b \<in> blocks_of (newL \<union> newD) \<Longrightarrow>
      xor_checksum (directory_frame r b) = 0 \<and> (\<exists>s \<in> set KNOWN_STATES. state_at r b = Inr s)"
    and ids: "inj_on (ident r) newL" "ident r ` newL \<inter> ident raw ` (live - old) = {}"
  shows "layout r (live - old \<union> newL) (dead - old \<union> newD)
    \<and> (\<forall>ch \<in> live - old. entry_at r ch = entry_at raw ch)"
proof -
  let ?X = "blocks_of (newL \<union> newD)"
  have live: "live_chain raw ch" if "ch \<in> live" for ch using lay that by (simp add: layout_def)
  have dead: "chain_at raw True ch" if "ch \<in> dead" for ch using lay that by (simp add: layout_def)
  have data: "set ch \<subseteq> set DATA_BLOCKS" if "ch \<in> live \<union> dead" for ch
  proof -
    have "chain_at raw False ch \<or> chain_at raw True ch"
      using that live dead by (auto simp: live_chain_def)
    then show ?thesis by (auto simp: chain_at_nth)
  qed
  have out: "b \<in> set DATA_BLOCKS \<and> b \<notin> ?X" if "ch \<in> live \<union> dead - old" "b \<in> set ch" for ch b
    using that data [of ch] keep by (auto simp: blocks_of_def)
  have fr: "directory_frame r b = directory_frame raw b" "data_block r b = data_block raw b"
    if "ch \<in> live \<union> dead - old" "b \<in> set ch" for ch b
    using same_outside_block [OF same] out [OF that] by blast+
  have entry: "entry_at r ch = entry_at raw ch" if "ch \<in> live - old" for ch
    using that fr [of ch] live by (intro entry_at_cong) auto
  have L: "live_chain r ch" if "ch \<in> live - old \<union> newL" for ch
    using that fr live newL live_chain_cong [of raw ch r] by blast
  have D: "chain_at r True ch" if "ch \<in> dead - old \<union> newD" for ch
    using that fr dead newD chain_at_cong [of raw True ch r] by blast
  have "apart ((live \<union> dead - old) \<union> (newL \<union> newD))"
    unfolding apart_def
  proof (intro ballI impI)
    fix a b assume ab: "a \<in> (live \<union> dead - old) \<union> (newL \<union> newD)" "b \<in> (live \<union> dead - old) \<union> (newL \<union> newD)" "a \<noteq> b"
    have cross: "set x \<inter> set y = {}" if "x \<in> live \<union> dead - old" "y \<in> newL \<union> newD" for x y
      using keep that by (auto simp: blocks_of_def)
    have "apart (live \<union> dead - old)" using lay by (auto simp: layout_def intro: apart_mono)
    from ab apartD [OF this] apartD [OF ap] cross show "set a \<inter> set b = {}"
      by (metis (no_types, lifting) Int_commute UnE)
  qed
  then have A: "apart (live - old \<union> newL \<union> (dead - old \<union> newD))"
    by (rule apart_mono) auto
  have free: "state_at r b = Inr FREE_STATE \<and> next_block (directory_frame r b) = Inr None"
    if b: "b \<in> set DATA_BLOCKS" "b \<notin> blocks_of (live - old \<union> newL \<union> (dead - old \<union> newD))" for b
  proof -
    have "b \<notin> ?X" "b \<notin> blocks_of (live \<union> dead)"
      using b(2) sub old by (fastforce simp: blocks_of_def)+
    moreover from this have "directory_frame r b = directory_frame raw b"
      using same_outside_block [OF same b(1)] by blast
    ultimately show ?thesis using lay b(1) by (simp add: layout_def state_at_def)
  qed
  have "inj_on (ident r) (live - old)"
    using lay entry by (auto simp: layout_def inj_on_def)
  moreover have "ident r ` (live - old) = ident raw ` (live - old)"
    using entry by (intro image_cong) auto
  ultimately have "inj_on (ident r) (live - old \<union> newL)"
    using ids by (auto simp: inj_on_Un)
  moreover have "card_ok r"
    using same_outside_card_ok [OF _ same ok] lay by (simp add: layout_def)
  ultimately show ?thesis using L D A free entry by (simp add: layout_def)
qed

subsection \<open>Removing and replacing one entry\<close>

lemma layout_chain:
  assumes "layout raw live dead" and "ch \<in> live \<union> dead"
  shows "data_blocks_list ch" and "ch \<noteq> []" and "length raw = CARD_SIZE"
proof -
  have "chain_at raw False ch \<or> chain_at raw True ch"
    using assms by (auto simp: layout_def live_chain_def)
  then show "data_blocks_list ch" and "ch \<noteq> []" by (auto simp: chain_at_nth data_blocks_list_def)
  show "length raw = CARD_SIZE" using assms by (simp add: layout_def card_ok_def)
qed

lemma layout_mark_deleted:
  assumes lay: "layout raw live dead" and ch: "ch \<in> live"
  shows "\<exists>r. mark_deleted raw ch = Inr r \<and> layout r (live - {ch}) (insert ch dead)
    \<and> (\<forall>x \<in> live - {ch}. entry_at r x = entry_at raw x)"
proof -
  have b: "data_blocks_list ch" "ch \<noteq> []" "length raw = CARD_SIZE"
    using layout_chain [OF lay] ch by auto
  obtain r where r: "mark_deleted raw ch = Inr r" and upd: "updated raw r ch (length ch)
      (\<lambda>j. chain_frame True ch j (directory_frame raw (ch ! j))) (\<lambda>j. data_block raw (ch ! j))"
    using mark_deleted_effect [OF b(3,1)] by blast
  have len: "length (directory_frame raw (ch ! j)) = 128" if "j < length ch" for j
    using data_blocks_nth [OF b(1) that] b(3) by (simp add: length_directory_frame)
  have fr: "directory_frame r (ch ! j) = chain_frame True ch j (directory_frame raw (ch ! j))"
    if "j < length ch" for j
    using upd that by (simp add: updated_def)
  note new = written_chain [OF b(2,1) fr len]
  have ap: "apart (live \<union> dead)" using lay by (simp add: layout_def)
  have "ch \<notin> dead"
  proof
    assume "ch \<in> dead"
    then have "live_chain raw ch" "chain_at raw True ch" using lay ch by (auto simp: layout_def)
    then have "Inr LIVE_HEADER = (Inr DELETED_HEADER :: (container_error, byte) result)"
      using live_head dead_head by metis
    then show False by (simp add: ps1_states)
  qed
  moreover have "blocks_of (live \<union> dead - {ch}) \<inter> blocks_of ({} \<union> {ch}) = {}"
    using apart_others [OF ap, of ch "live \<union> dead - {ch}"] ch by simp
  moreover have "same_outside raw r (blocks_of ({} \<union> {ch}))"
    using updated_same_outside [OF upd] by simp
  ultimately have "layout r (live - {ch} \<union> {}) (dead - {ch} \<union> {ch})
      \<and> (\<forall>x \<in> live - {ch}. entry_at r x = entry_at raw x)"
    using ch new by (intro layout_rewrite [OF lay, of "{ch}"]) (auto simp: apart_def blocks_of_def)
  then show ?thesis using r by auto
qed

text \<open>What the entry of a payload is once it is on a card; \<open>None\<close> if it can not be there.\<close>

definition payload_content :: "extracted_ps1 \<Rightarrow> (entry_identity \<times> string \<times> string \<times> int) option" where
  "payload_content p =
     (if payload_ok p \<and> from_le (py_slice 4 8 (hd (xp_frames p))) = length (xp_data p) * BLOCK_SIZE
      then (case filename_of (hd (xp_frames p)) of
              Inl _ \<Rightarrow> None
            | Inr fn \<Rightarrow> (case commercial_namespace fn of
                Inl _ \<Rightarrow> None
              | Inr ns \<Rightarrow> Some (EntryIdentity (hex fn), ''ps1-game:'' @ hex ns,
                  canonical_hash fn (xp_frames p) (xp_data p), int (length (xp_data p) * BLOCK_SIZE))))
      else None)"

text \<open>What a parsed entry holds: its logical content and its bytes, not where it is stored.\<close>

type_synonym content = "(entry_identity \<times> string \<times> string \<times> int) \<times> byte list list"

definition parsed_content :: "parsed_entry \<Rightarrow> content" where
  "parsed_content e = (entry_content (entry_of e), pe_data e)"

lemma payload_content_Some:
  assumes "payload_content p = Some x"
  obtains fn ns where "payload_ok p"
    and "from_le (py_slice 4 8 (hd (xp_frames p))) = length (xp_data p) * BLOCK_SIZE"
    and "filename_of (hd (xp_frames p)) = Inr fn" and "commercial_namespace fn = Inr ns"
    and "x = (EntryIdentity (hex fn), ''ps1-game:'' @ hex ns,
      canonical_hash fn (xp_frames p) (xp_data p), int (length (xp_data p) * BLOCK_SIZE))"
  using assms by (auto simp: payload_content_def split: if_splits sum.splits)

lemma written_entry:
  assumes p: "payload_content p = Some x" and bs: "data_blocks_list bs" "length bs = length (xp_data p)"
    and fr: "\<And>j. j < length bs \<Longrightarrow> directory_frame r (bs ! j) = chain_frame False bs j (xp_frames p ! j)"
    and da: "\<And>j. j < length bs \<Longrightarrow> data_block r (bs ! j) = xp_data p ! j"
  shows "live_chain r bs" and "parsed_content (entry_at r bs) = (x, xp_data p)"
    and "b \<in> set bs \<Longrightarrow> xor_checksum (directory_frame r b) = 0 \<and> (\<exists>s \<in> set KNOWN_STATES. state_at r b = Inr s)"
proof -
  obtain fn ns where ok: "payload_ok p"
      and size: "from_le (py_slice 4 8 (hd (xp_frames p))) = length (xp_data p) * BLOCK_SIZE"
      and fn: "filename_of (hd (xp_frames p)) = Inr fn" and ns: "commercial_namespace fn = Inr ns"
      and x: "x = (EntryIdentity (hex fn), ''ps1-game:'' @ hex ns,
        canonical_hash fn (xp_frames p) (xp_data p), int (length (xp_data p) * BLOCK_SIZE))"
    using p by (rule payload_content_Some)
  have ne: "bs \<noteq> []" and lens: "length (xp_frames p) = length bs"
    using ok bs by (auto simp: payload_ok_def)
  have len: "length (xp_frames p ! j) = 128" if "j < length bs" for j
    using ok that bs by (simp add: payload_ok_def)
  note chain = written_chain [OF ne bs(1) fr len]
  have "directory_frame r (hd bs) = chain_frame False bs 0 (hd (xp_frames p))"
    and l0: "length (hd (xp_frames p)) = 128"
    using fr [of 0] len [of 0] ne lens
    by (simp_all add: hd_conv_nth hd_conv_nth [of "xp_frames p"] flip: length_greater_0_conv)
  then have hd: "filename_of (directory_frame r (hd bs)) = Inr fn"
      "from_le (py_slice 4 8 (directory_frame r (hd bs))) = length bs * BLOCK_SIZE"
    using fn size bs(2) by (simp_all add: chain_frame_def filename_link_frame slice_link_frame)
  show "live_chain r bs" using chain(1) hd ns by (simp add: live_chain_def)
  have frames: "map (directory_frame r) bs = map (\<lambda>j. chain_frame False bs j (xp_frames p ! j)) [0..<length bs]"
    using fr by (intro nth_equalityI) auto
  have data: "map (data_block r) bs = xp_data p"
    using da bs(2) by (intro nth_equalityI) auto
  have "canonical_hash fn (map (directory_frame r) bs) (map (data_block r) bs)
      = canonical_hash fn (xp_frames p) (xp_data p)"
    unfolding frames data using lens len by (intro canonical_hash_relink) auto
  then show "parsed_content (entry_at r bs) = (x, xp_data p)"
    using hd ns bs(2) data
    by (simp add: parsed_content_def entry_content_def entry_of_def entry_size_def entry_at_def Let_def x)
  show "b \<in> set bs \<Longrightarrow> xor_checksum (directory_frame r b) = 0 \<and> (\<exists>s \<in> set KNOWN_STATES. state_at r b = Inr s)"
    by (rule chain(2))
qed

text \<open>
  Writing a payload over \<open>ch0\<close> (a live or deleted chain, or nothing) and free blocks: the tail of
  \<open>ch0\<close> that is no longer needed becomes a deleted chain.
\<close>

lemma layout_replace:
  assumes lay: "layout raw live dead" and ch0: "ch0 \<in> live \<union> dead \<or> ch0 = []"
    and p: "payload_content p = Some x"
    and alloc: "alloc = take (length (xp_data p)) ch0 @ fresh" "length alloc = length (xp_data p)"
    and fresh: "distinct fresh" "set fresh \<subseteq> set DATA_BLOCKS - blocks_of (live \<union> dead)"
    and tail: "tail = drop (length (xp_data p)) ch0"
    and new_id: "fst x \<notin> ident raw ` (live - {ch0})"
  shows "\<exists>raw1 r. mark_deleted raw tail = Inr raw1 \<and> write_chain raw1 alloc p = Inr r
    \<and> layout r (insert alloc (live - {ch0})) (dead - {ch0} \<union> (if tail = [] then {} else {tail}))
    \<and> (\<forall>ch \<in> live - {ch0}. entry_at r ch = entry_at raw ch) \<and> parsed_content (entry_at r alloc) = (x, xp_data p)"
proof -
  have raw: "length raw = CARD_SIZE" using lay by (simp add: layout_def card_ok_def)
  have c0: "data_blocks_list ch0"
    using ch0 layout_chain(1) [OF lay] by (auto simp: data_blocks_list_def)
  have c0_fresh: "set ch0 \<inter> set fresh = {}" using ch0 fresh(2) by (auto simp: blocks_of_def)
  have split: "set (take n ch0) \<union> set (drop n ch0) = set ch0" "set (take n ch0) \<inter> set (drop n ch0) = {}" for n
    using c0 by (auto simp: data_blocks_list_def set_append [symmetric] simp del: set_append
        dest: set_take_disj_set_drop_if_distinct [of ch0 n n])
  have bt: "data_blocks_list tail"
    using c0 split by (auto simp: tail data_blocks_list_def dest: in_set_dropD)
  have ba: "data_blocks_list alloc"
    using c0 fresh c0_fresh by (auto simp: alloc data_blocks_list_def dest: in_set_takeD)
  have at: "set alloc \<inter> set tail = {}"
    using split(2) [of "length (xp_data p)"] c0_fresh by (auto simp: alloc tail dest: in_set_dropD)
  obtain raw1 where r1: "mark_deleted raw tail = Inr raw1" and u1: "updated raw raw1 tail (length tail)
      (\<lambda>j. chain_frame True tail j (directory_frame raw (tail ! j))) (\<lambda>j. data_block raw (tail ! j))"
    using mark_deleted_effect [OF raw bt] by blast
  have pok: "payload_ok p" using p by (rule payload_content_Some)
  have "length raw1 = CARD_SIZE" using u1 by (simp add: updated_def)
  then obtain r where r: "write_chain raw1 alloc p = Inr r" and u2: "updated raw1 r alloc (length alloc)
      (\<lambda>j. chain_frame False alloc j (xp_frames p ! j)) (\<lambda>j. xp_data p ! j)"
    using write_chain_effect [OF _ pok ba alloc(2)] by blast
  have new: "live_chain r alloc" "parsed_content (entry_at r alloc) = (x, xp_data p)"
      "b \<in> set alloc \<Longrightarrow> xor_checksum (directory_frame r b) = 0 \<and> (\<exists>s \<in> set KNOWN_STATES. state_at r b = Inr s)" for b
    using written_entry [OF p ba alloc(2)] u2 by (auto simp: updated_def)
  have tf: "directory_frame r (tail ! j) = chain_frame True tail j (directory_frame raw (tail ! j))"
    if "j < length tail" for j
  proof -
    have "tail ! j \<notin> set alloc" using at that nth_mem by blast
    then have "directory_frame r (tail ! j) = directory_frame raw1 (tail ! j)"
      using u2 data_blocks_nth [OF bt that] by (simp add: updated_def)
    then show ?thesis using u1 that by (simp add: updated_def)
  qed
  have tl: "length (directory_frame raw (tail ! j)) = 128" if "j < length tail" for j
    using data_blocks_nth [OF bt that] raw by (simp add: length_directory_frame)
  have dead_tail: "chain_at r True tail" if "tail \<noteq> []"
    using written_chain(1) [OF that bt tf tl] .
  have dead_ok: "xor_checksum (directory_frame r b) = 0 \<and> (\<exists>s \<in> set KNOWN_STATES. state_at r b = Inr s)"
    if "b \<in> set tail" for b
    using written_chain(2) [OF _ bt tf tl] that by (cases "tail = []") auto
  let ?T = "if tail = [] then {} else {tail}"
  let ?old = "{ch0} \<inter> (live \<union> dead)"
  have bT: "blocks_of ({alloc} \<union> ?T) = set alloc \<union> set tail" by simp
  have "same_outside raw r (set tail \<union> set alloc)"
    by (rule same_outside_trans [OF updated_same_outside [OF u1] updated_same_outside [OF u2]])
  then have same: "same_outside raw r (blocks_of ({alloc} \<union> ?T))" by (simp only: bT Un_commute)
  have cover: "set ch0 \<subseteq> set alloc \<union> set tail"
    using split(1) [of "length (xp_data p)"] by (auto simp: alloc tail)
  have inside: "set alloc \<union> set tail \<subseteq> set ch0 \<union> set fresh"
    using split(1) [of "length (xp_data p)"] by (auto simp: alloc tail)
  have rest: "blocks_of (live \<union> dead - ?old) \<inter> set ch0 = {}"
    using ch0 lay apart_others [of "live \<union> dead" ch0 "live \<union> dead - ?old"] by (auto simp: layout_def)
  have "blocks_of (live \<union> dead - ?old) \<inter> set fresh = {}"
    using fresh(2) by (auto simp: blocks_of_def)
  with rest inside have keep: "blocks_of (live \<union> dead - ?old) \<inter> blocks_of ({alloc} \<union> ?T) = {}"
    unfolding bT by blast
  have ap: "apart ({alloc} \<union> ?T)"
    using at by (auto simp: apart_def)
  have id: "ident r alloc = fst x"
    using new(2) by (auto simp: parsed_content_def entry_content_def entry_of_def)
  have live_old: "live - ?old = live - {ch0}" "dead - ?old = dead - {ch0}" by auto
  have "layout r (live - ?old \<union> {alloc}) (dead - ?old \<union> ?T)
      \<and> (\<forall>ch \<in> live - ?old. entry_at r ch = entry_at raw ch)"
  proof (rule layout_rewrite [OF lay _ same _ keep _ _ ap])
    show "?old \<subseteq> live \<union> dead" by blast
    show "blocks_of ?old \<subseteq> blocks_of ({alloc} \<union> ?T)" unfolding bT using cover by (auto simp: blocks_of_def)
    show "live_chain r ch" if "ch \<in> {alloc}" for ch using that new(1) by simp
    show "chain_at r True ch" if "ch \<in> ?T" for ch using that dead_tail by (auto split: if_splits)
    show "xor_checksum (directory_frame r b) = 0 \<and> (\<exists>s \<in> set KNOWN_STATES. state_at r b = Inr s)"
      if "b \<in> blocks_of ({alloc} \<union> ?T)" for b
      using that new(3) dead_ok unfolding bT by blast
    show "ident r ` {alloc} \<inter> ident raw ` (live - ?old) = {}"
      unfolding live_old using new_id id by simp
  qed simp
  with r1 r new(2) show ?thesis unfolding live_old by auto
qed

subsection \<open>The rebuild loops\<close>

lemma fst_parsed_content [simp]: "fst (fst (parsed_content e)) = pe_identity e"
  by (simp add: parsed_content_def entry_content_def entry_of_def)

lemma existing_entry:
  assumes "parsed_as c raw live dead"
  shows "map_of (live_by_identity c) i = Some e \<longleftrightarrow> e \<in> set (pc_live c) \<and> pe_identity e = i"
proof -
  let ?xs = "map (\<lambda>e. (pe_identity e, e)) (pc_live c)"
  have d: "distinct (map fst ?xs)" using assms by (simp add: parsed_as_def comp_def)
  have "map_of (live_by_identity c) i = Some e \<longleftrightarrow> (i, e) \<in> set ?xs"
    using d by (simp add: live_by_identity_def map_of_dict_of_distinct)
  then show ?thesis by auto
qed

lemma keys_dict_of [simp]: "fst ` set (dict_of xs) = fst ` set xs"
  by (metis dom_map_of_conv_image_fst map_of_dict_of set_rev)

definition card_identities :: "parsed_card \<Rightarrow> entry_identity set" where
  "card_identities c = pe_identity ` set (pc_live c)"

lemma remove_loop:
  assumes p: "parsed_as c raw0 live dead" and lay: "layout raw0 live dead" and rem: "finite rem"
  shows "\<exists>raw. foldE (remove_step (live_by_identity c)) (sorted_list_of_set rem) raw0 = Inr raw
    \<and> layout raw {ch \<in> live. ident raw0 ch \<notin> rem} (dead \<union> {ch \<in> live. ident raw0 ch \<in> rem})
    \<and> (\<forall>ch \<in> live. ident raw0 ch \<notin> rem \<longrightarrow> entry_at raw ch = entry_at raw0 ch)"
proof -
  let ?L = "\<lambda>pre. {ch \<in> live. ident raw0 ch \<notin> set pre}"
  let ?D = "\<lambda>pre. dead \<union> {ch \<in> live. ident raw0 ch \<in> set pre}"
  let ?I = "\<lambda>pre raw. layout raw (?L pre) (?D pre)
    \<and> (\<forall>ch \<in> live. ident raw0 ch \<notin> set pre \<longrightarrow> entry_at raw ch = entry_at raw0 ch)"
  have "\<exists>raw. foldE (remove_step (live_by_identity c)) (sorted_list_of_set rem) raw0 = Inr raw
      \<and> ?I (sorted_list_of_set rem) raw"
  proof (rule foldE_progress [where I = ?I])
    fix i pre post raw
    assume split: "sorted_list_of_set rem = pre @ i # post" and I: "?I pre raw"
    have "distinct (pre @ i # post)" by (simp add: split [symmetric])
    then have i: "i \<notin> set pre" by simp
    show "\<exists>r. remove_step (live_by_identity c) i raw = Inr r \<and> ?I (pre @ [i]) r"
    proof (cases "map_of (live_by_identity c) i")
      case None
      then have "ident raw0 ch \<noteq> i" if "ch \<in> live" for ch
        using existing_entry [OF p, of i "entry_at raw0 ch"] p that by (auto simp: parsed_as_def)
      then have "?L (pre @ [i]) = ?L pre" "?D (pre @ [i]) = ?D pre" by auto
      with None I show ?thesis by (simp add: remove_step_def)
    next
      case (Some e)
      then obtain ch where ch: "ch \<in> live" "e = entry_at raw0 ch" "ident raw0 ch = i"
        using existing_entry [OF p] p by (auto simp: parsed_as_def)
      have only: "x = ch" if "x \<in> live" "ident raw0 x = i" for x
        using lay that ch by (auto simp: layout_def inj_on_def)
      have sets: "?L (pre @ [i]) = ?L pre - {ch}" "?D (pre @ [i]) = insert ch (?D pre)"
      proof -
        have "x \<in> ?L (pre @ [i]) \<longleftrightarrow> x \<in> ?L pre - {ch}" for x
          using only [of x] ch by (cases "x = ch") auto
        then show "?L (pre @ [i]) = ?L pre - {ch}" by blast
        have "x \<in> ?D (pre @ [i]) \<longleftrightarrow> x \<in> insert ch (?D pre)" for x
          using only [of x] ch by (cases "x = ch") auto
        then show "?D (pre @ [i]) = insert ch (?D pre)" by blast
      qed
      have "ch \<in> ?L pre" using ch i by simp
      from layout_mark_deleted [OF conjunct1 [OF I] this]
      obtain r where r: "mark_deleted raw ch = Inr r"
          "layout r (?L (pre @ [i])) (?D (pre @ [i]))"
          "\<forall>x \<in> ?L (pre @ [i]). entry_at r x = entry_at raw x"
        unfolding sets [symmetric] by blast
      have "entry_at r x = entry_at raw0 x" if "x \<in> live" "ident raw0 x \<notin> set (pre @ [i])" for x
        using that r(3) I by auto
      with r Some ch show ?thesis by (simp add: remove_step_def)
    qed
  qed (simp add: lay)
  with rem show ?thesis by simp
qed

text \<open>A replacement whose payload is what its entry says.\<close>

definition honest :: "payload entry_replacement \<Rightarrow> bool" where
  "honest rep \<longleftrightarrow> (\<exists>p. xe_payload (er_extracted rep) = Ps1Payload p
     \<and> payload_content p = Some (entry_content (er_entry rep))
     \<and> xe_hash (er_extracted rep) = ce_hash (er_entry rep))"

definition rep_blocks :: "payload entry_replacement \<Rightarrow> nat" where
  "rep_blocks rep = (case xe_payload (er_extracted rep) of Ps1Payload p \<Rightarrow> length (xp_data p) | _ \<Rightarrow> 0)"

text \<open>The free blocks a replacement takes: what it needs beyond the chain it replaces.\<close>

definition rep_needs :: "parsed_card \<Rightarrow> payload entry_replacement \<Rightarrow> nat" where
  "rep_needs c rep = rep_blocks rep
     - (case map_of (live_by_identity c) (ce_identity (er_entry rep)) of
          None \<Rightarrow> 0 | Some e \<Rightarrow> length (pe_blocks e))"

definition rep_content :: "payload entry_replacement \<Rightarrow> content" where
  "rep_content rep = (entry_content (er_entry rep),
     case xe_payload (er_extracted rep) of Ps1Payload p \<Rightarrow> xp_data p | _ \<Rightarrow> [])"

lemma fst_rep_content [simp]: "fst (fst (rep_content rep)) = ce_identity (er_entry rep)"
  by (simp add: rep_content_def entry_content_def)

text \<open>The contents of the card once the entries of \<open>done\<close> are replaced.\<close>

definition target_contents ::
  "parsed_card \<Rightarrow> entry_identity set \<Rightarrow> (entry_identity, payload entry_replacement) dict \<Rightarrow> entry_identity set
     \<Rightarrow> content set"
where
  "target_contents c rem reps done =
     parsed_content ` {e \<in> set (pc_live c). pe_identity e \<notin> rem \<union> done}
     \<union> (\<lambda>i. rep_content (the (map_of reps i))) ` done"

lemma target_contents_insert:
  assumes "\<And>j. j \<in> done \<Longrightarrow> ce_identity (er_entry (the (map_of reps j))) = j" and "i \<notin> done"
  shows "target_contents c rem reps (insert i done) =
    insert (rep_content (the (map_of reps i))) {y \<in> target_contents c rem reps done. fst (fst y) \<noteq> i}"
proof -
  let ?rc = "\<lambda>i. rep_content (the (map_of reps i))"
  have rc: "fst (fst (?rc j)) \<noteq> i" if "j \<in> done" for j
    using assms that by auto
  have "{y \<in> ?rc ` done. fst (fst y) \<noteq> i} = ?rc ` done" using rc by blast
  moreover have "{y \<in> parsed_content ` E. fst (fst y) \<noteq> i} = parsed_content ` {e \<in> E. pe_identity e \<noteq> i}"
    for E by auto
  moreover have "{y \<in> A \<union> B. fst (fst y) \<noteq> i} = {y \<in> A. fst (fst y) \<noteq> i} \<union> {y \<in> B. fst (fst y) \<noteq> i}"
    for A B :: "content set" by blast
  moreover have "{e \<in> set (pc_live c). pe_identity e \<notin> rem \<union> insert i done} =
      {e \<in> {e \<in> set (pc_live c). pe_identity e \<notin> rem \<union> done}. pe_identity e \<noteq> i}" by blast
  ultimately show ?thesis by (simp only: target_contents_def image_insert Un_insert_right)
qed

definition rebuild_inv ::
  "parsed_card \<Rightarrow> byte list \<Rightarrow> nat list set \<Rightarrow> entry_identity set \<Rightarrow> (entry_identity, payload entry_replacement) dict
     \<Rightarrow> entry_identity set \<Rightarrow> byte list \<times> nat list \<Rightarrow> bool"
where
  "rebuild_inv c raw0 live rem reps done st \<longleftrightarrow> (\<exists>L D. layout (fst st) L D
     \<and> distinct (snd st) \<and> set (snd st) \<subseteq> set DATA_BLOCKS - blocks_of (L \<union> D)
     \<and> (\<forall>ch \<in> live. ident raw0 ch \<notin> done \<longrightarrow>
          (if ident raw0 ch \<in> rem then ch \<in> D else ch \<in> L \<and> entry_at (fst st) ch = entry_at raw0 ch))
     \<and> (parsed_content \<circ> entry_at (fst st)) ` L = target_contents c rem reps done)"

lemma parsed_content_inj:
  assumes "inj_on (ident raw) L" and "ch \<in> L"
  shows "(parsed_content \<circ> entry_at raw) ` (L - {ch}) =
    {y \<in> (parsed_content \<circ> entry_at raw) ` L. fst (fst y) \<noteq> ident raw ch}"
  using assms by (auto simp: inj_on_def)

lemma replace_loop_step:
  assumes p: "parsed_as c raw0 live dead" and inj: "inj_on (ident raw0) live"
    and inv: "rebuild_inv c raw0 live rem reps done (raw, free)"
    and rep: "map_of reps i = Some rep" "honest rep" "ce_identity (er_entry rep) = i" and i: "i \<notin> done"
    and ids: "\<And>j. j \<in> done \<Longrightarrow> ce_identity (er_entry (the (map_of reps j))) = j"
    and cap: "rep_needs c rep \<le> length free"
  shows "\<exists>r. replace_step (live_by_identity c) reps i (raw, free) = Inr (r, drop (rep_needs c rep) free)
    \<and> rebuild_inv c raw0 live rem reps (insert i done) (r, drop (rep_needs c rep) free)"
proof -
  obtain L D where lay: "layout raw L D" and free: "distinct free"
      "set free \<subseteq> set DATA_BLOCKS - blocks_of (L \<union> D)"
    and old: "\<And>ch. ch \<in> live \<Longrightarrow> ident raw0 ch \<notin> done \<Longrightarrow>
          (if ident raw0 ch \<in> rem then ch \<in> D else ch \<in> L \<and> entry_at raw ch = entry_at raw0 ch)"
    and cont: "(parsed_content \<circ> entry_at raw) ` L = target_contents c rem reps done"
    using inv unfolding rebuild_inv_def fst_conv snd_conv by blast
  obtain q where q: "xe_payload (er_extracted rep) = Ps1Payload q"
      "payload_content q = Some (entry_content (er_entry rep))"
      "xe_hash (er_extracted rep) = ce_hash (er_entry rep)"
    using rep(2) by (auto simp: honest_def)
  let ?n = "length (xp_data q)" and ?x = "entry_content (er_entry rep)"
  define ch0 where "ch0 = (case map_of (live_by_identity c) i of None \<Rightarrow> [] | Some e \<Rightarrow> pe_blocks e)"
  have ch0: "ch0 = [] \<and> map_of (live_by_identity c) i = None \<and> i \<notin> ident raw0 ` live
    \<or> ch0 \<in> live \<and> map_of (live_by_identity c) i = Some (entry_at raw0 ch0) \<and> ident raw0 ch0 = i"
  proof (cases "map_of (live_by_identity c) i")
    case None
    then have "i \<notin> ident raw0 ` live"
      using existing_entry [OF p, of i] p by (auto simp: parsed_as_def image_iff)
    with None show ?thesis by (simp add: ch0_def)
  next
    case (Some e)
    then show ?thesis using existing_entry [OF p, of i e] p by (auto simp: parsed_as_def ch0_def)
  qed
  have needs: "rep_needs c rep = ?n - length ch0"
    by (simp add: rep_needs_def rep_blocks_def q rep(3) ch0_def split: option.split)
  let ?k = "?n - length ch0"
  define alloc where "alloc = take ?n ch0 @ take ?k free"
  define tail where "tail = drop ?n ch0"
  have len: "length alloc = ?n" using cap needs by (simp add: alloc_def)
  have fresh: "distinct (take ?k free)" "set (take ?k free) \<subseteq> set DATA_BLOCKS - blocks_of (L \<union> D)"
    using free by (auto dest: in_set_takeD)
  have ch0_in: "ch0 \<in> L \<union> D \<or> ch0 = []"
    using ch0 old [of ch0] i by (auto split: if_splits)
  have injL: "inj_on (ident raw) L" and nnil: "[] \<notin> L"
    using lay layout_chain(2) [OF lay] by (auto simp: layout_def)
  have minus: "(parsed_content \<circ> entry_at raw) ` (L - {ch0}) = {y \<in> target_contents c rem reps done. fst (fst y) \<noteq> i}"
  proof (cases "ch0 \<in> L")
    case True
    with nnil ch0 have c0: "ch0 \<in> live" "ident raw0 ch0 = i" by auto
    have "ident raw ch0 = i"
    proof (cases "i \<in> rem")
      case True
      then have "ch0 \<in> D" using old [OF c0(1)] c0(2) i by simp
      then have "chain_at raw True ch0" using lay by (simp add: layout_def)
      moreover have "live_chain raw ch0" using lay \<open>ch0 \<in> L\<close> by (simp add: layout_def)
      ultimately have "Inr LIVE_HEADER = (Inr DELETED_HEADER :: (container_error, byte) result)"
        using live_head dead_head by metis
      then show ?thesis by (simp add: ps1_states)
    next
      case False
      then show ?thesis using old [OF c0(1)] c0(2) i by auto
    qed
    with parsed_content_inj [OF injL True] cont show ?thesis by simp
  next
    case False
    have "fst (fst y) \<noteq> i" if "y \<in> target_contents c rem reps done" for y
    proof
      assume y: "fst (fst y) = i"
      from that consider ch where "ch \<in> live" "y = parsed_content (entry_at raw0 ch)" "ident raw0 ch \<notin> rem \<union> done"
        | j where "j \<in> done" "y = rep_content (the (map_of reps j))"
        using p by (auto simp: target_contents_def parsed_as_def)
      then show False
      proof cases
        case 1
        with y have "ident raw0 ch = i" by simp
        then have "ch = ch0" using ch0 1 inj by (auto simp: inj_on_def)
        with 1 old [of ch] False show False by auto
      next
        case 2
        with ids [of j] y i show False by simp
      qed
    qed
    then have "{y \<in> target_contents c rem reps done. fst (fst y) \<noteq> i} = target_contents c rem reps done" by blast
    with False cont show ?thesis by simp
  qed
  have fx: "fst ?x = i" using rep(3) by (simp add: entry_content_def)
  have "fst ?x \<notin> ident raw ` (L - {ch0})"
  proof
    assume "fst ?x \<in> ident raw ` (L - {ch0})"
    then obtain ch where "ch \<in> L - {ch0}" "ident raw ch = i" using fx by (metis imageE)
    then have "parsed_content (entry_at raw ch) \<in> {y \<in> target_contents c rem reps done. fst (fst y) \<noteq> i}"
      unfolding minus [symmetric] by auto
    then show False using \<open>ident raw ch = i\<close> by simp
  qed
  from layout_replace [OF lay ch0_in q(2) alloc_def len fresh tail_def this]
  obtain raw1 r where r: "mark_deleted raw tail = Inr raw1" "write_chain raw1 alloc q = Inr r"
      and lay': "layout r (insert alloc (L - {ch0})) (D - {ch0} \<union> (if tail = [] then {} else {tail}))"
      and keep: "\<forall>ch \<in> L - {ch0}. entry_at r ch = entry_at raw ch"
      and new: "parsed_content (entry_at r alloc) = (?x, xp_data q)"
    by blast
  let ?L = "insert alloc (L - {ch0})" and ?D = "D - {ch0} \<union> (if tail = [] then {} else {tail})"
  have mt: "mark_deleted raw [] = Inr raw" by (simp add: mark_deleted_def)
  have step: "replace_step (live_by_identity c) reps i (raw, free) = Inr (r, drop ?k free)"
  proof (cases "map_of (live_by_identity c) i")
    case None
    then have "ch0 = []" by (simp add: ch0_def)
    with None r mt cap needs show ?thesis
      by (simp add: replace_step_def rep q tail_def alloc_def)
  next
    case (Some e)
    then have e: "pe_blocks e = ch0" by (simp add: ch0_def)
    have k: "?n - min (length ch0) ?n = ?k" by simp
    have "(if ?n < length ch0 then mark_deleted raw (drop ?n ch0) else Inr raw) = Inr raw1"
      using r(1) mt by (auto simp: tail_def)
    then show ?thesis
      using Some e r(2) cap needs
      by (cases "?n < length ch0") (simp_all add: replace_step_def rep q alloc_def Let_def k)
  qed
  have "set alloc \<union> set tail \<subseteq> set ch0 \<union> set (take ?k free)"
    by (auto simp: alloc_def tail_def dest: in_set_takeD in_set_dropD)
  moreover have "set (take ?k free) \<inter> set (drop ?k free) = {}"
    using free(1) by (intro set_take_disj_set_drop_if_distinct) auto
  moreover have "set ch0 \<inter> set free = {}" using ch0_in free(2) by (auto simp: blocks_of_def)
  moreover have "blocks_of (?L \<union> ?D) \<subseteq> blocks_of (L \<union> D) \<union> (set alloc \<union> set tail)"
    by (auto simp: blocks_of_def split: if_splits)
  ultimately have free': "set (drop ?k free) \<subseteq> set DATA_BLOCKS - blocks_of (?L \<union> ?D)"
    using free(2) set_drop_subset [of ?k free] by blast
  have old': "if ident raw0 ch \<in> rem then ch \<in> ?D else ch \<in> ?L \<and> entry_at r ch = entry_at raw0 ch"
    if "ch \<in> live" "ident raw0 ch \<notin> insert i done" for ch
  proof -
    have "ch \<in> L \<union> D" using old [OF that(1)] that(2) by (auto split: if_splits)
    then have "ch \<noteq> []" by (rule layout_chain(2) [OF lay])
    then have "ch \<noteq> ch0" using that ch0 by auto
    with old [OF that(1)] that(2) keep show ?thesis by (auto split: if_splits)
  qed
  have "(parsed_content \<circ> entry_at r) ` (L - {ch0}) = (parsed_content \<circ> entry_at raw) ` (L - {ch0})"
    using keep by (intro image_cong) auto
  then have "(parsed_content \<circ> entry_at r) ` ?L = target_contents c rem reps (insert i done)"
    using new minus target_contents_insert [OF ids i, of c rem] rep(1) q(1)
    by (simp add: rep_content_def)
  with lay' free(1) free' old' have "rebuild_inv c raw0 live rem reps (insert i done) (r, drop ?k free)"
    unfolding rebuild_inv_def fst_conv snd_conv
    by - (rule exI [of _ ?L], rule exI [of _ ?D], intro conjI ballI impI, simp_all only: distinct_drop)
  with step show ?thesis unfolding needs by blast
qed

lemma honest_replace_step:
  assumes "map_of reps i = Some rep" and "honest rep" and "ce_identity (er_entry rep) = i"
    and "length free < rep_needs c rep"
  shows "replace_step (live_by_identity c) reps i (raw, free) = Inl (Opaque INSUFFICIENT_VERIFIED_FREE_CAPACITY [])"
  using assms
  by (auto simp: replace_step_def honest_def rep_needs_def rep_blocks_def Let_def min_def
      split: option.splits if_splits)

definition total_needs :: "parsed_card \<Rightarrow> (entry_identity, payload entry_replacement) dict \<Rightarrow> entry_identity list \<Rightarrow> nat" where
  "total_needs c reps ks = (\<Sum>k\<leftarrow>ks. rep_needs c (the (map_of reps k)))"

lemma replace_loop:
  assumes p: "parsed_as c raw0 live dead" and inj: "inj_on (ident raw0) live"
    and hon: "\<And>k. k \<in> done \<union> set ks \<Longrightarrow>
      \<exists>rep. map_of reps k = Some rep \<and> honest rep \<and> ce_identity (er_entry rep) = k"
    and inv: "rebuild_inv c raw0 live rem reps done (raw, free)"
    and ks: "distinct ks" "set ks \<inter> done = {}"
  shows "if total_needs c reps ks \<le> length free
    then \<exists>st. foldE (replace_step (live_by_identity c) reps) ks (raw, free) = Inr st
      \<and> rebuild_inv c raw0 live rem reps (done \<union> set ks) st
    else foldE (replace_step (live_by_identity c) reps) ks (raw, free) =
      Inl (Opaque INSUFFICIENT_VERIFIED_FREE_CAPACITY [])"
  using hon inv ks
proof (induction ks arbitrary: "done" raw free)
  case (Cons k ks)
  obtain rep where rep: "map_of reps k = Some rep" "honest rep" "ce_identity (er_entry rep) = k"
    using Cons.prems(1) by auto
  have total: "total_needs c reps (k # ks) = rep_needs c rep + total_needs c reps ks"
    by (simp add: total_needs_def rep(1))
  show ?case
  proof (cases "rep_needs c rep \<le> length free")
    case True
    have ids: "ce_identity (er_entry (the (map_of reps j))) = j" if "j \<in> done" for j
      using Cons.prems(1) [of j] that by auto
    obtain r where r: "replace_step (live_by_identity c) reps k (raw, free) = Inr (r, drop (rep_needs c rep) free)"
        "rebuild_inv c raw0 live rem reps (insert k done) (r, drop (rep_needs c rep) free)"
      using replace_loop_step [OF p inj Cons.prems(2) rep _ ids True] Cons.prems(4) by auto
    have "if total_needs c reps ks \<le> length (drop (rep_needs c rep) free)
      then \<exists>st. foldE (replace_step (live_by_identity c) reps) ks (r, drop (rep_needs c rep) free) = Inr st
        \<and> rebuild_inv c raw0 live rem reps (insert k done \<union> set ks) st
      else foldE (replace_step (live_by_identity c) reps) ks (r, drop (rep_needs c rep) free) =
        Inl (Opaque INSUFFICIENT_VERIFIED_FREE_CAPACITY [])"
      using Cons.prems by (intro Cons.IH r(2)) auto
    moreover have "total_needs c reps ks \<le> length (drop (rep_needs c rep) free)
        \<longleftrightarrow> total_needs c reps (k # ks) \<le> length free"
      using True by (auto simp: total)
    ultimately show ?thesis using r(1) by (auto split: if_splits)
  next
    case False
    with honest_replace_step [OF rep, of free c raw] total show ?thesis by simp
  qed
qed (simp add: total_needs_def)

lemma target_contents_start:
  "target_contents c rem reps {} = parsed_content ` {e \<in> set (pc_live c). pe_identity e \<notin> rem}"
  by (simp add: target_contents_def)

lemma free_list:
  assumes "parsed_as c raw live dead"
  shows "distinct (sorted_list_of_set (pc_free c))"
    and "set (sorted_list_of_set (pc_free c)) = set DATA_BLOCKS - blocks_of (live \<union> dead)"
    and "length (sorted_list_of_set (pc_free c)) = card (pc_free c)"
proof -
  have "finite (pc_free c)" using assms by (simp add: parsed_as_def)
  then show "distinct (sorted_list_of_set (pc_free c))"
    and "set (sorted_list_of_set (pc_free c)) = set DATA_BLOCKS - blocks_of (live \<union> dead)"
    and "length (sorted_list_of_set (pc_free c)) = card (pc_free c)"
    using assms by (simp_all add: parsed_as_def)
qed

text \<open>The replacements of a plan, the last one for an identity winning, and what it removes.\<close>

definition plan_replacements :: "payload rebuild_plan \<Rightarrow> (entry_identity, payload entry_replacement) dict" where
  "plan_replacements plan = dict_of (map (\<lambda>r. (ce_identity (er_entry r), r)) (bp_replacements plan))"

definition expected_identities :: "payload rebuild_plan \<Rightarrow> entry_identity set" where
  "expected_identities plan = ce_identity ` set (cs_entries (bp_expected plan))"

definition plan_removals :: "parsed_card \<Rightarrow> payload rebuild_plan \<Rightarrow> entry_identity set" where
  "plan_removals c plan = set (bp_removals plan) \<union> (card_identities c - expected_identities plan)"

definition plan_needs :: "parsed_card \<Rightarrow> payload rebuild_plan \<Rightarrow> nat" where
  "plan_needs c plan = total_needs c (plan_replacements plan) (sorted_keys (plan_replacements plan))"

lemma plan_replacements_Some:
  assumes "map_of (plan_replacements plan) i = Some rep"
  shows "rep \<in> set (bp_replacements plan) \<and> ce_identity (er_entry rep) = i"
  using assms by (auto simp: plan_replacements_def map_of_dict_of dest!: map_of_SomeD)

lemma dom_plan_replacements:
  "dom (map_of (plan_replacements plan)) = (\<lambda>r. ce_identity (er_entry r)) ` set (bp_replacements plan)"
  by (simp add: plan_replacements_def dom_map_of_conv_image_fst image_image)

lemma set_keys_live: "set (map fst (live_by_identity c)) = card_identities c"
  by (simp add: live_by_identity_def card_identities_def image_image)

lemma rebuild_image_alt:
  "rebuild_image c plan =
     (if \<not> dom (map_of (plan_replacements plan)) \<subseteq> expected_identities plan
      then Inl (Opaque VALIDATION_FAILURE [])
      else bindE (foldE (remove_step (live_by_identity c)) (sorted_list_of_set (plan_removals c plan)) (pc_raw c))
        (\<lambda>raw. bindE (foldE (replace_step (live_by_identity c) (plan_replacements plan))
            (sorted_keys (plan_replacements plan)) (raw, sorted_list_of_set (pc_free c)))
          (\<lambda>(raw, _). Inr raw)))"
proof -
  have "set (map fst (plan_replacements plan)) - expected_identities plan \<noteq> {}
      \<longleftrightarrow> \<not> dom (map_of (plan_replacements plan)) \<subseteq> expected_identities plan"
    by (auto simp: dom_map_of_conv_image_fst)
  moreover have "set (map ce_identity (cs_entries (bp_expected plan))) = expected_identities plan"
    by (simp add: expected_identities_def)
  ultimately show ?thesis
    unfolding rebuild_image_def Let_def plan_replacements_def [symmetric] set_keys_live plan_removals_def
    by metis
qed

lemma rebuild_image_honest:
  assumes parse: "parse_card raw0 = Inr c"
    and hon: "\<And>rep. rep \<in> set (bp_replacements plan) \<Longrightarrow> honest rep"
    and exp: "\<And>rep. rep \<in> set (bp_replacements plan) \<Longrightarrow> ce_identity (er_entry rep) \<in> expected_identities plan"
  shows "if plan_needs c plan \<le> card (pc_free c)
    then \<exists>r c'. rebuild_image c plan = Inr r \<and> parse_card r = Inr c' \<and> pc_raw c' = r
      \<and> parsed_content ` set (pc_live c') = target_contents c (plan_removals c plan) (plan_replacements plan)
          (dom (map_of (plan_replacements plan)))
      \<and> distinct (map pe_identity (pc_live c')) \<and> sorted (map (\<lambda>e. id_value (pe_identity e)) (pc_live c'))
    else rebuild_image c plan = Inl (Opaque INSUFFICIENT_VERIFIED_FREE_CAPACITY [])"
proof -
  let ?reps = "plan_replacements plan" and ?rem = "plan_removals c plan"
  let ?rl = "foldE (replace_step (live_by_identity c) ?reps) (sorted_keys ?reps)"
  let ?free = "sorted_list_of_set (pc_free c)"
  obtain live dead where lay: "layout raw0 live dead" and p: "parsed_as c raw0 live dead"
    using parse_card_layout [OF parse] by blast
  have inj: "inj_on (ident raw0) live" using lay by (simp add: layout_def)
  have fin: "finite ?rem" by (simp add: plan_removals_def card_identities_def)
  have c0: "pc_raw c = raw0" using p by (simp add: parsed_as_def)
  obtain raw where raw: "foldE (remove_step (live_by_identity c)) (sorted_list_of_set ?rem) raw0 = Inr raw"
      "layout raw {ch \<in> live. ident raw0 ch \<notin> ?rem} (dead \<union> {ch \<in> live. ident raw0 ch \<in> ?rem})"
      "\<forall>ch \<in> live. ident raw0 ch \<notin> ?rem \<longrightarrow> entry_at raw ch = entry_at raw0 ch"
    using remove_loop [OF p lay fin] by blast
  let ?L = "{ch \<in> live. ident raw0 ch \<notin> ?rem}" and ?D = "dead \<union> {ch \<in> live. ident raw0 ch \<in> ?rem}"
  have "?L \<union> ?D = live \<union> dead" by blast
  then have free: "distinct ?free" "set ?free \<subseteq> set DATA_BLOCKS - blocks_of (?L \<union> ?D)"
    using free_list [OF p] by simp_all
  have "(parsed_content \<circ> entry_at raw) ` ?L = parsed_content ` entry_at raw0 ` ?L"
    using raw(3) unfolding image_image comp_def by (intro image_cong) auto
  also have "entry_at raw0 ` ?L = {e \<in> set (pc_live c). pe_identity e \<notin> ?rem}"
    using p by (auto simp: parsed_as_def)
  finally have "rebuild_inv c raw0 live ?rem ?reps {} (raw, ?free)"
    using raw(2,3) free unfolding rebuild_inv_def fst_conv snd_conv target_contents_start
    by - (rule exI [of _ ?L], rule exI [of _ ?D], auto)
  moreover have "\<exists>rep. map_of ?reps k = Some rep \<and> honest rep \<and> ce_identity (er_entry rep) = k"
    if "k \<in> {} \<union> set (sorted_keys ?reps)" for k
    using that hon plan_replacements_Some [of plan k] by auto
  ultimately have loop: "if total_needs c ?reps (sorted_keys ?reps) \<le> length ?free
    then \<exists>st. ?rl (raw, ?free) = Inr st
      \<and> rebuild_inv c raw0 live ?rem ?reps ({} \<union> set (sorted_keys ?reps)) st
    else ?rl (raw, ?free) = Inl (Opaque INSUFFICIENT_VERIFIED_FREE_CAPACITY [])"
    by (intro replace_loop [OF p inj]) (simp_all add: plan_replacements_def)
  have sub: "dom (map_of ?reps) \<subseteq> expected_identities plan"
    using exp by (auto simp: dom_plan_replacements)
  show ?thesis
  proof (cases "plan_needs c plan \<le> card (pc_free c)")
    case True
    then obtain st where st: "?rl (raw, ?free) = Inr st"
        "rebuild_inv c raw0 live ?rem ?reps (dom (map_of ?reps)) st"
      using loop free_list(3) [OF p] by (auto simp: plan_needs_def)
    then obtain L D where fin_lay: "layout (fst st) L D"
        and cont: "(parsed_content \<circ> entry_at (fst st)) ` L
          = target_contents c ?rem ?reps (dom (map_of ?reps))"
      unfolding rebuild_inv_def by blast
    obtain c' where c': "parse_card (fst st) = Inr c'" "parsed_as c' (fst st) L D"
      using layout_parse [OF fin_lay] by blast
    have "parsed_content ` set (pc_live c') = target_contents c ?rem ?reps (dom (map_of ?reps))"
      using c'(2) cont by (simp add: parsed_as_def image_image)
    moreover have "rebuild_image c plan = Inr (fst st)"
      using sub raw(1) st(1) by (simp add: rebuild_image_alt c0 split: prod.split)
    ultimately show ?thesis using c' True by (auto simp: parsed_as_def)
  next
    case False
    then have "?rl (raw, ?free) = Inl (Opaque INSUFFICIENT_VERIFIED_FREE_CAPACITY [])"
      using loop free_list(3) [OF p] by (auto simp: plan_needs_def)
    then show ?thesis using False sub raw(1) by (simp add: rebuild_image_alt c0)
  qed
qed

end
