(* ===== verification/Ps1Properties.thy ===== *)
theory Ps1Properties
  imports Ps1Rebuild
begin

text \<open>
  The properties of the PlayStation card adapter, and its interpretation as a container adapter.
\<close>

subsection \<open>Errors\<close>

definition opaque :: "(container_error, 'a) result \<Rightarrow> bool" where
  "opaque r \<longleftrightarrow> (case r of Inl (Opaque _ _) \<Rightarrow> True | Inl _ \<Rightarrow> False | Inr _ \<Rightarrow> True)"

lemma opaque_simps [simp]:
  "opaque (Inr x)" "opaque (Inl (Opaque a b))" "\<not> opaque (Inl KeyError)" "\<not> opaque (Inl IndexError)"
  "\<not> opaque (Inl FileError)" "\<not> opaque (Inl BadSide)"
  by (simp_all add: opaque_def)

lemma opaque_Inl: "opaque (Inl e :: (container_error, 'a) result) \<longleftrightarrow> (\<exists>r d. e = Opaque r d)"
  by (cases e) simp_all

lemma opaque_bindE: "opaque r \<Longrightarrow> (\<And>x. r = Inr x \<Longrightarrow> opaque (f x)) \<Longrightarrow> opaque (bindE r f)"
  by (cases r) (simp_all add: opaque_Inl)

lemma opaque_foldE: "(\<And>x s. x \<in> set xs \<Longrightarrow> opaque (f x s)) \<Longrightarrow> opaque (foldE f xs s)"
  by (induction xs arbitrary: s) (auto intro: opaque_bindE)

lemma opaque_frames:
  "opaque (card_state f)" "opaque (next_block f)" "opaque (filename_of f)" "opaque (commercial_namespace g)"
  by (simp_all add: card_state_def next_block_def filename_of_def commercial_namespace_def Let_def)

lemma opaque_loop:
  "(case nb of None \<Rightarrow> True | Some b \<Rightarrow> b \<in> set DATA_BLOCKS)
     \<Longrightarrow> opaque (parse_chain_loop (directory raw) h m e pre nb)"
proof (induction "directory raw" h m e pre nb rule: parse_chain_loop.induct)
  case (2 h m e chain current)
  then have f: "map_of (directory raw) current = Some (directory_frame raw current)"
    by (simp add: map_of_directory)
  have step: "opaque (bindE (next_block (directory_frame raw current)) (\<lambda>nb.
      bindE (card_state (directory_frame raw current)) (\<lambda>s.
        if (if chain = [] then s \<noteq> h else if nb = None then s \<noteq> e else s \<noteq> m)
        then Inl (Opaque MALFORMED_CHAIN [])
        else parse_chain_loop (directory raw) h m e (chain @ [current]) nb)))"
    if "current \<notin> set chain"
  proof (intro opaque_bindE opaque_frames)
    fix nb s
    assume nb: "next_block (directory_frame raw current) = Inr nb"
      and s: "card_state (directory_frame raw current) = Inr s"
    have "case nb of None \<Rightarrow> True | Some b \<Rightarrow> b \<in> set DATA_BLOCKS"
      using nb by (auto simp: next_block_def Let_def split: if_splits)
    then show "opaque (if (if chain = [] then s \<noteq> h else if nb = None then s \<noteq> e else s \<noteq> m)
        then Inl (Opaque MALFORMED_CHAIN [])
        else parse_chain_loop (directory raw) h m e (chain @ [current]) nb)"
      using "2.hyps" [OF that f nb s] by simp
  qed
  then show ?case using f by simp
qed simp

lemma opaque_parse_chain: "start \<in> set DATA_BLOCKS \<Longrightarrow> opaque (parse_chain (directory raw) start d)"
  by (auto simp: parse_chain_def Let_def map_of_directory simp del: parse_chain_loop.simps
      intro!: opaque_bindE opaque_frames opaque_loop)

lemma opaque_steps:
  "opaque (check_frame raw b u)" "opaque (check_sector raw i u)"
  "b \<in> set DATA_BLOCKS \<Longrightarrow> opaque (live_step raw b st)"
  "b \<in> set DATA_BLOCKS \<Longrightarrow> opaque (deleted_step raw consumed b deleted)"
  "opaque (continuation_step raw consumed deleted b u)"
  by (auto simp: check_frame_def check_sector_def live_step_def deleted_step_def continuation_step_def
      state_at_def Let_def intro!: opaque_bindE opaque_frames opaque_parse_chain split: prod.split)

lemma opaque_if: "(b \<Longrightarrow> opaque x) \<Longrightarrow> (\<not> b \<Longrightarrow> opaque y) \<Longrightarrow> opaque (if b then x else y)"
  by simp

lemma opaque_prod: "(\<And>a b. opaque (f a b)) \<Longrightarrow> opaque (case p of (a, b) \<Rightarrow> f a b)"
  by (cases p) simp

lemma opaque_parse_card: "opaque (parse_card raw)"
  unfolding parse_card_def Let_def
  by (intro opaque_if opaque_bindE opaque_prod opaque_foldE opaque_steps opaque_simps)

subsection \<open>Rebuilding through the file system\<close>

lemma entry_content_of: "map entry_content (cs_entries (snapshot_of c cid)) = map (fst \<circ> parsed_content) (pc_live c)"
  by (simp add: snapshot_of_def parsed_content_def)

lemma validate_written:
  "ps1_validate (fs(path \<mapsto> raw)) path expected =
    (case parse_card raw of
       Inl (Opaque reason detail) \<Rightarrow>
         Inr \<lparr>vr_valid = False, vr_snapshot = None, vr_reason = Some reason, vr_detail = detail\<rparr>
     | Inl e \<Rightarrow> Inl e
     | Inr c \<Rightarrow>
         (if map (fst \<circ> parsed_content) (pc_live c) \<noteq> map entry_content (cs_entries expected)
          then Inr \<lparr>vr_valid = False, vr_snapshot = Some (snapshot_of c (cs_container_id expected)),
                    vr_reason = Some VALIDATION_FAILURE,
                    vr_detail = ''candidate logical snapshot differs from plan''\<rparr>
          else Inr \<lparr>vr_valid = True, vr_snapshot = Some (snapshot_of c (cs_container_id expected)),
                    vr_reason = None, vr_detail = []\<rparr>))"
  by (cases "parse_card raw") (simp_all add: ps1_validate_def ps1_snapshot_def read_bytes_def entry_content_of)

definition card_content :: "byte list \<Rightarrow> container_snapshot \<Rightarrow> bool" where
  "card_content raw expected \<longleftrightarrow> (\<exists>c. parse_card raw = Inr c
     \<and> map (fst \<circ> parsed_content) (pc_live c) = map entry_content (cs_entries expected))"

lemma rebuild_on_cases:
  assumes "rebuild_on fault fs destination plan candidate = (fs', res)"
  obtains (refused) e where "res = Inl e" and "fs' = fs \<or> fs' = fs(candidate := None)"
  | (faulty) raw n where "fault \<noteq> No_Fault" and "res = Inl FileError"
      and "bindE (bindE (read_bytes fs destination) parse_card) (\<lambda>c. rebuild_image c plan) = Inr raw"
      and "fs' = fs(candidate \<mapsto> take n raw)"
  | (built) raw where "res = Inr \<lparr>cr_path = candidate, cr_hash = sha256_hex raw, cr_expected = bp_expected plan\<rparr>"
      and "fs' = fs(candidate \<mapsto> raw)" and "card_content raw (bp_expected plan)"
proof (cases "bindE (bindE (read_bytes fs destination) parse_card) (\<lambda>c. rebuild_image c plan)")
  case (Inl e)
  with assms show ?thesis by (intro refused) (auto simp: rebuild_on_def)
next
  case (Inr raw)
  note image = Inr
  have whole: "fs' = fs(candidate \<mapsto> take (length raw) raw)" if "fs' = fs(candidate \<mapsto> raw)"
    using that by simp
  consider (no_open) "fault = Open_Fault" | (partial) n where "fault = Write_Fault n"
    | (no_read) "fault = Read_Back_Fault" | (run) "fault = No_Fault \<or> fault = Unlink_Fault"
    by (cases fault) auto
  then show ?thesis
  proof cases
    case no_open
    with assms image show ?thesis by (intro refused) (auto simp: rebuild_on_def)
  next
    case (partial n)
    with assms image show ?thesis by (intro faulty [of raw n]) (auto simp: rebuild_on_def)
  next
    case no_read
    with assms image show ?thesis by (intro faulty [OF _ _ _ whole]) (auto simp: rebuild_on_def)
  next
    case run
    show ?thesis
    proof (cases "parse_card raw")
      case (Inl e)
      then obtain r d where e: "e = Opaque r d" using opaque_parse_card [of raw] by (auto simp: opaque_Inl)
      from run show ?thesis
      proof
        assume "fault = No_Fault"
        with assms image Inl e show ?thesis
          by (intro refused) (auto simp: rebuild_on_def validate_written Let_def)
      next
        assume "fault = Unlink_Fault"
        with assms image Inl e show ?thesis
          by (intro faulty [OF _ _ _ whole]) (auto simp: rebuild_on_def validate_written Let_def)
      qed
    next
      case (Inr c)
      show ?thesis
      proof (cases "map (fst \<circ> parsed_content) (pc_live c) = map entry_content (cs_entries (bp_expected plan))")
        case True
        from run assms image Inr True show ?thesis
          by (intro built [of raw]) (auto simp: rebuild_on_def validate_written Let_def card_content_def)
      next
        case False
        from run show ?thesis
        proof
          assume "fault = No_Fault"
          with assms image Inr False show ?thesis
            by (intro refused) (auto simp: rebuild_on_def validate_written Let_def)
        next
          assume "fault = Unlink_Fault"
          with assms image Inr False show ?thesis
            by (intro faulty [OF _ _ _ whole]) (auto simp: rebuild_on_def validate_written Let_def)
        qed
      qed
    qed
  qed
qed

lemma rebuild_outcome:
  assumes "ps1_rebuild fs destination plan candidate = (fs', res)"
  obtains (failed) e where "res = Inl e" and "fs' = fs \<or> fs' = fs(candidate := None)"
  | (built) raw where "res = Inr \<lparr>cr_path = candidate, cr_hash = sha256_hex raw, cr_expected = bp_expected plan\<rparr>"
      and "fs' = fs(candidate \<mapsto> raw)" and "card_content raw (bp_expected plan)"
  using assms unfolding ps1_rebuild_def by (cases rule: rebuild_on_cases) auto

subsection \<open>Plans that agree with the card\<close>

lemma distinct_id_value: "distinct zs \<Longrightarrow> distinct (map id_value zs)"
  by (simp add: distinct_map inj_on_def entry_identity.expand)

lemma content_list_unique:
  assumes "distinct (map fst xs)" and "sorted (map (\<lambda>c. id_value (fst c)) xs)"
    and "distinct (map fst ys)" and "sorted (map (\<lambda>c. id_value (fst c)) ys)"
    and "set xs = set (ys :: (entry_identity \<times> 'b) list)"
  shows "xs = ys"
proof (rule map_sorted_distinct_set_unique)
  show "inj_on (\<lambda>c. id_value (fst c)) (set xs \<union> set ys)"
    using assms(1,5) by (auto simp: distinct_map inj_on_def entry_identity.expand)
  show "distinct (map (\<lambda>c. id_value (fst c)) xs)" "distinct (map (\<lambda>c. id_value (fst c)) ys)"
    using distinct_id_value [OF assms(1)] distinct_id_value [OF assms(3)] by (simp_all add: comp_def)
qed (use assms in auto)

definition ordered_entries :: "container_entry list \<Rightarrow> bool" where
  "ordered_entries es \<longleftrightarrow> distinct (map ce_identity es) \<and> sorted (map (\<lambda>e. id_value (ce_identity e)) es)"

definition plan_target :: "parsed_card \<Rightarrow> payload rebuild_plan \<Rightarrow> content set" where
  "plan_target c plan = target_contents c (plan_removals c plan) (plan_replacements plan)
     (dom (map_of (plan_replacements plan)))"

lemma rebuild_commits:
  assumes input: "fs destination = Some raw0" and parse: "parse_card raw0 = Inr c"
    and hon: "\<And>rep. rep \<in> set (bp_replacements plan) \<Longrightarrow> honest rep"
    and exp: "\<And>rep. rep \<in> set (bp_replacements plan) \<Longrightarrow> ce_identity (er_entry rep) \<in> expected_identities plan"
    and ord: "ordered_entries (cs_entries (bp_expected plan))"
    and agree: "fst ` plan_target c plan = entry_content ` set (cs_entries (bp_expected plan))"
  shows "if plan_needs c plan \<le> card (pc_free c)
    then \<exists>r c'. ps1_rebuild fs destination plan candidate =
        (fs(candidate \<mapsto> r), Inr \<lparr>cr_path = candidate, cr_hash = sha256_hex r, cr_expected = bp_expected plan\<rparr>)
      \<and> parse_card r = Inr c' \<and> parsed_content ` set (pc_live c') = plan_target c plan
    else ps1_rebuild fs destination plan candidate = (fs, Inl (Opaque INSUFFICIENT_VERIFIED_FREE_CAPACITY []))"
proof (cases "plan_needs c plan \<le> card (pc_free c)")
  case True
  obtain r c' where r: "rebuild_image c plan = Inr r" "parse_card r = Inr c'"
      and cont: "parsed_content ` set (pc_live c') = plan_target c plan"
      and sorted: "distinct (map pe_identity (pc_live c'))" "sorted (map (\<lambda>e. id_value (pe_identity e)) (pc_live c'))"
    using rebuild_image_honest [OF parse hon exp] True unfolding plan_target_def by auto
  let ?es = "cs_entries (bp_expected plan)"
  have "map (fst \<circ> parsed_content) (pc_live c') = map entry_content ?es"
  proof (rule content_list_unique)
    show "set (map (fst \<circ> parsed_content) (pc_live c')) = set (map entry_content ?es)"
    proof -
      have "set (map (fst \<circ> parsed_content) (pc_live c')) = fst ` parsed_content ` set (pc_live c')"
        by (simp only: set_map image_comp)
      then show ?thesis by (simp only: cont agree set_map)
    qed
    show "distinct (map fst (map (fst \<circ> parsed_content) (pc_live c')))"
      using sorted(1) by (simp add: comp_def)
    show "sorted (map (\<lambda>c. id_value (fst c)) (map (fst \<circ> parsed_content) (pc_live c')))"
      using sorted(2) by (simp add: comp_def)
  qed (use ord in \<open>simp_all add: ordered_entries_def comp_def entry_content_def\<close>)
  then have "ps1_rebuild fs destination plan candidate =
      (fs(candidate \<mapsto> r), Inr \<lparr>cr_path = candidate, cr_hash = sha256_hex r, cr_expected = bp_expected plan\<rparr>)"
    using input parse r by (simp add: ps1_rebuild_def rebuild_on_def read_bytes_def validate_written Let_def)
  with True r(2) cont show ?thesis by auto
next
  case False
  then have "rebuild_image c plan = Inl (Opaque INSUFFICIENT_VERIFIED_FREE_CAPACITY [])"
    using rebuild_image_honest [OF parse hon exp] by auto
  with False input parse show ?thesis by (simp add: ps1_rebuild_def rebuild_on_def read_bytes_def)
qed

lemma snapshot_of_simps [simp]:
  "cs_entries (snapshot_of c cid) = map entry_of (pc_live c)" "cs_container_id (snapshot_of c cid) = cid"
  by (simp_all add: snapshot_of_def)

lemma ce_identity_entry_of [simp]: "ce_identity (entry_of e) = pe_identity e"
  by (simp add: entry_of_def)

lemma parsed_live:
  assumes "parse_card raw = Inr c"
  shows "distinct (map pe_identity (pc_live c))" and "sorted (map (\<lambda>e. id_value (pe_identity e)) (pc_live c))"
  using parse_card_layout [OF assms] by (auto simp: parsed_as_def)

lemma replace_plan:
  fixes cid :: string
  assumes parse: "parse_card raw0 = Inr c" and hon: "honest rep"
  defines "i \<equiv> ce_identity (er_entry rep)"
  defines "plan \<equiv> \<lparr>bp_expected = (snapshot_of c cid)\<lparr>cs_entries :=
      sorted_values (AList.update i (er_entry rep) (entry_map (snapshot_of c cid)))\<rparr>,
    bp_replacements = [rep], bp_removals = []\<rparr>"
  shows "expected_identities plan = insert i (card_identities c)"
    and "ordered_entries (cs_entries (bp_expected plan))"
    and "plan_target c plan =
      insert (rep_content rep) {y \<in> parsed_content ` set (pc_live c). fst (fst y) \<noteq> i}"
    and "fst ` plan_target c plan = entry_content ` set (cs_entries (bp_expected plan))"
    and "plan_needs c plan = rep_needs c rep"
proof -
  let ?d = "AList.update i (er_entry rep) (entry_map (snapshot_of c cid))"
  have wf: "wf_dict ?d" by (simp add: entry_map_def)
  have old: "map_of (entry_map (snapshot_of c cid)) = map_of (map (\<lambda>e. (pe_identity e, entry_of e)) (pc_live c))"
    using parsed_live(1) [OF parse]
    by (simp add: entry_map_def comp_def map_of_dict_of_distinct)
  have lookup: "map_of ?d k = Some v \<longleftrightarrow> (if k = i then v = er_entry rep
      else \<exists>e \<in> set (pc_live c). pe_identity e = k \<and> v = entry_of e)" for k v
    using parsed_live(1) [OF parse]
    by (auto simp: update_conv old comp_def map_of_eq_Some_iff)
  have ids: "ce_identity v = k" if "map_of ?d k = Some v" for k v
    using that lookup [of k v] by (auto simp: i_def [symmetric] split: if_splits)
  have dom: "dom (map_of ?d) = insert i (card_identities c)"
    by (auto simp: dom_def lookup card_identities_def)
  have map_ids: "map ce_identity (sorted_values ?d) = sorted_keys ?d"
    using ids by (auto simp: sorted_values_def comp_def intro!: map_idI)
  then have "ce_identity ` set (sorted_values ?d) = insert i (card_identities c)"
    by (metis dom set_map set_sorted_keys)
  then show exp: "expected_identities plan = insert i (card_identities c)"
    by (simp add: expected_identities_def plan_def)
  have "sorted (map id_value (sorted_keys ?d))"
    using sorted_sorted_keys [of ?d] by (simp add: sorted_map less_eq_entry_identity_def [symmetric])
  then show "ordered_entries (cs_entries (bp_expected plan))"
    using map_ids wf by (simp add: ordered_entries_def plan_def) (metis (no_types, lifting) comp_apply map_map map_cong)
  have reps: "plan_replacements plan = [(i, rep)]"
    by (simp add: plan_replacements_def plan_def dict_of_def i_def)
  have rem: "plan_removals c plan = {}"
    by (simp add: plan_removals_def exp) (auto simp: plan_def)
  have "{e \<in> set (pc_live c). pe_identity e \<notin> {} \<union> {i}} = {e \<in> set (pc_live c). pe_identity e \<noteq> i}" by simp
  then show target: "plan_target c plan =
      insert (rep_content rep) {y \<in> parsed_content ` set (pc_live c). fst (fst y) \<noteq> i}"
    by (auto simp: plan_target_def reps rem target_contents_def)
  have vals: "set (sorted_values ?d) = insert (er_entry rep) (entry_of ` {e \<in> set (pc_live c). pe_identity e \<noteq> i})"
  proof -
    have "(\<exists>k. map_of ?d k = Some v) \<longleftrightarrow>
        v = er_entry rep \<or> (\<exists>e \<in> set (pc_live c). pe_identity e \<noteq> i \<and> v = entry_of e)" for v
      unfolding lookup by metis
    then show ?thesis using wf by (auto simp: mem_sorted_values ran_def)
  qed
  have "{y \<in> parsed_content ` set (pc_live c). fst (fst y) \<noteq> i} =
      parsed_content ` {e \<in> set (pc_live c). pe_identity e \<noteq> i}"
    by auto
  then have "fst ` {y \<in> parsed_content ` set (pc_live c). fst (fst y) \<noteq> i} =
      entry_content ` entry_of ` {e \<in> set (pc_live c). pe_identity e \<noteq> i}"
    by (simp add: image_image) (simp add: parsed_content_def)
  moreover have "cs_entries (bp_expected plan) = sorted_values ?d" by (simp add: plan_def)
  moreover have "fst (rep_content rep) = entry_content (er_entry rep)" by (simp add: rep_content_def)
  ultimately show "fst ` plan_target c plan = entry_content ` set (cs_entries (bp_expected plan))"
    by (simp only: target vals image_insert)
  show "plan_needs c plan = rep_needs c rep"
    by (simp add: plan_needs_def reps total_needs_def sorted_keys_def)
qed

subsection \<open>A blank card and one save\<close>

definition blank_sector :: "nat \<Rightarrow> byte list" where
  "blank_sector i =
     (if i = 0 then set_checksum (utf8 ''MC'' @ replicate 126 0)
      else if i \<le> 15 then link_frame FREE_STATE [0xFF, 0xFF] (replicate 128 0)
      else if i < 36 then [0xFF, 0xFF, 0xFF, 0xFF] @ replicate 124 0 else replicate 128 0)"

definition blank_card :: "byte list" where
  "blank_card = concat (map blank_sector [0..<64]) @ replicate (15 * BLOCK_SIZE) 0"

lemma utf8_MC: "utf8 ''MC'' = [0x4D, 0x43]"
  by (simp add: utf8_def utf8_char_def)

lemma length_blank_sector [simp]: "length (blank_sector i) = 128"
  by (simp add: blank_sector_def utf8_MC)

lemma length_concat_sectors: "length (concat (map blank_sector xs)) = 128 * length xs"
  by (induction xs) simp_all

lemma drop_sectors:
  assumes "i < 64"
  shows "drop (i * 128) blank_card =
    blank_sector i @ concat (map blank_sector [Suc i..<64]) @ replicate (15 * BLOCK_SIZE) 0"
proof -
  have "[0..<64] = [0..<i] @ i # [Suc i..<64]"
    using assms upt_add_eq_append [of 0 i "64 - i"] by (simp add: upt_conv_Cons)
  then have "blank_card = concat (map blank_sector [0..<i]) @ blank_sector i
      @ concat (map blank_sector [Suc i..<64]) @ replicate (15 * BLOCK_SIZE) 0"
    by (simp add: blank_card_def)
  moreover have "length (concat (map blank_sector [0..<i])) = i * 128"
    by (simp add: length_concat_sectors)
  ultimately show ?thesis by (metis append_eq_conv_conj)
qed

lemma blank_frame: "i < 64 \<Longrightarrow> directory_frame blank_card i = blank_sector i"
  by (simp add: directory_frame_def Let_def FRAME_SIZE_def py_slice_def drop_sectors)

lemma length_blank_card: "length blank_card = CARD_SIZE"
  by (simp add: blank_card_def length_concat_sectors ps1_sizes)

lemma blank_layout: "layout blank_card {} {}"
proof -
  have z: "length (replicate 128 0) = (128::nat)" by simp
  have t: "take n blank_card = take n (blank_sector 0)" if "n \<le> 128" for n
    using arg_cong [OF drop_sectors [of 0], of "take n"] that by simp
  have h: "take 128 blank_card = blank_sector 0" "take 2 blank_card = take 2 (blank_sector 0)"
    using t [of 128] t [of 2] by simp_all
  have f: "directory_frame blank_card b = link_frame FREE_STATE [0xFF, 0xFF] (replicate 128 0)"
    if "b \<in> set DATA_BLOCKS" for b
    using that by (auto simp: data_block_range blank_frame blank_sector_def)
  have s: "state_at blank_card b = Inr FREE_STATE" "next_block (directory_frame blank_card b) = Inr None"
      "xor_checksum (directory_frame blank_card b) = 0" if "b \<in> set DATA_BLOCKS" for b
    using f [OF that]
    by (simp_all add: state_at_def state_link_frame xor_link_frame KNOWN_STATES_def next_block_def
        link_bytes_link_frame)
  have sec: "py_slice (i * FRAME_SIZE) (i * FRAME_SIZE + 4) blank_card = [0xFF, 0xFF, 0xFF, 0xFF]"
    if "i \<in> {16..<36}" for i
    using that by (simp add: py_slice_def FRAME_SIZE_def drop_sectors blank_sector_def)
  have "card_ok blank_card"
    using h s sec
    by (simp add: card_ok_def length_blank_card FRAME_SIZE_def blank_sector_def utf8_MC KNOWN_STATES_def
        xor_set_checksum) (simp add: set_checksum_def)
  then show ?thesis using s by (simp add: layout_def apart_def blocks_of_def)
qed

lemma blank_parse:
  obtains c where "parse_card blank_card = Inr c" and "pc_live c = []" and "card (pc_free c) = 15"
  using layout_parse [OF blank_layout]
  by (auto simp: parsed_as_def blocks_of_def DATA_BLOCKS_def BLOCK_COUNT_def)

definition sample_frame :: "byte list" where
  "sample_frame = [0x51, 0, 0, 0] @ le_bytes 4 8192 @ [0xFF, 0xFF] @ utf8 ''BASLUS-00001'' @ replicate 106 0"

definition sample_payload :: extracted_ps1 where
  "sample_payload = \<lparr>xp_filename = utf8 ''BASLUS-00001'', xp_frames = [sample_frame],
     xp_data = [replicate BLOCK_SIZE 0]\<rparr>"

lemma sample_name: "utf8 ''BASLUS-00001'' = [0x42, 0x41, 0x53, 0x4C, 0x55, 0x53, 0x2D, 0x30, 0x30, 0x30, 0x30, 0x31]"
  by (simp add: utf8_def utf8_char_def)

lemma sample_filename: "filename_of sample_frame = Inr (utf8 ''BASLUS-00001'')"
  by (simp add: filename_of_def sample_frame_def sample_name py_slice_def ps1_sizes Let_def list_ex_iff)

lemma sample_namespace: "commercial_namespace (utf8 ''BASLUS-00001'') = Inr (utf8 ''BASLUS-00001'')"
  by (simp add: commercial_namespace_def sample_name py_slice_def utf8_def utf8_char_def Let_def)

definition sample_card_entry :: container_entry where
  "sample_card_entry = \<lparr>ce_identity = EntryIdentity (hex (utf8 ''BASLUS-00001'')),
     ce_domain = ''ps1-game:'' @ hex (utf8 ''BASLUS-00001''),
     ce_hash = canonical_hash (utf8 ''BASLUS-00001'') [sample_frame] [replicate BLOCK_SIZE 0],
     ce_size = 8192, ce_locator = ''1''\<rparr>"

definition sample_replacement :: "payload entry_replacement" where
  "sample_replacement = \<lparr>er_entry = sample_card_entry,
     er_extracted = \<lparr>xe_identity = ce_identity sample_card_entry, xe_hash = ce_hash sample_card_entry,
       xe_payload = Ps1Payload sample_payload\<rparr>\<rparr>"

lemma sample_honest: "honest sample_replacement"
proof -
  have "length sample_frame = 128" by (simp add: sample_frame_def sample_name)
  moreover have "from_le (py_slice 4 8 sample_frame) = 8192"
  proof -
    have "py_slice 4 8 sample_frame = le_bytes 4 8192" by (simp add: sample_frame_def py_slice_def)
    then show ?thesis by (simp add: from_le_bytes del: le_bytes.simps)
  qed
  ultimately have "payload_content sample_payload = Some (entry_content sample_card_entry)"
    by (simp add: payload_content_def sample_payload_def payload_ok_def sample_filename sample_namespace
        entry_content_def sample_card_entry_def BLOCK_SIZE_def)
  then show ?thesis by (simp add: honest_def sample_replacement_def)
qed

lemma remove_plan:
  fixes cid :: string and i :: entry_identity
  assumes parse: "parse_card raw0 = Inr c"
  defines "plan \<equiv> \<lparr>bp_expected = replace_snapshot_entries (snapshot_of c cid)
      (filter (\<lambda>e. ce_identity e \<noteq> i) (cs_entries (snapshot_of c cid))),
    bp_replacements = [], bp_removals = [i]\<rparr>"
  shows "ordered_entries (cs_entries (bp_expected plan))"
    and "plan_target c plan = {y \<in> parsed_content ` set (pc_live c). fst (fst y) \<noteq> i}"
    and "fst ` plan_target c plan = entry_content ` set (cs_entries (bp_expected plan))"
    and "plan_needs c plan = 0"
proof -
  let ?es = "filter (\<lambda>e. ce_identity e \<noteq> i) (map entry_of (pc_live c))"
  have es: "cs_entries (bp_expected plan) = sort_key (\<lambda>e. id_value (ce_identity e)) ?es"
    by (simp add: plan_def replace_snapshot_entries_def)
  have "distinct (map ce_identity (map entry_of (pc_live c)))"
    using parsed_live(1) [OF parse] by (simp add: comp_def)
  then have "distinct (map ce_identity ?es)" by (rule distinct_map_filter)
  then show "ordered_entries (cs_entries (bp_expected plan))"
    by (simp add: es ordered_entries_def distinct_map)
  have vals: "set (cs_entries (bp_expected plan)) = entry_of ` {e \<in> set (pc_live c). pe_identity e \<noteq> i}"
    by (auto simp: es)
  have exp: "expected_identities plan = card_identities c - {i}"
    by (auto simp: expected_identities_def vals card_identities_def image_image)
  have reps: "plan_replacements plan = []" by (simp add: plan_replacements_def plan_def dict_of_def)
  have rem: "plan_removals c plan = {i}"
    by (auto simp: plan_removals_def exp) (simp_all add: plan_def)
  show target: "plan_target c plan = {y \<in> parsed_content ` set (pc_live c). fst (fst y) \<noteq> i}"
    by (auto simp: plan_target_def reps rem target_contents_def)
  have "{y \<in> parsed_content ` set (pc_live c). fst (fst y) \<noteq> i} =
      parsed_content ` {e \<in> set (pc_live c). pe_identity e \<noteq> i}"
    by auto
  then have "fst ` plan_target c plan = entry_content ` entry_of ` {e \<in> set (pc_live c). pe_identity e \<noteq> i}"
    unfolding target by (simp add: image_image) (simp add: parsed_content_def)
  then show "fst ` plan_target c plan = entry_content ` set (cs_entries (bp_expected plan))"
    by (simp add: vals)
  show "plan_needs c plan = 0" by (simp add: plan_needs_def reps total_needs_def sorted_keys_def)
qed

lemma parsed_entry_payload:
  assumes "parse_card raw = Inr c" and "e \<in> set (pc_live c)"
  shows "payload_content \<lparr>xp_filename = pe_filename e, xp_frames = pe_frames e, xp_data = pe_data e\<rparr>
    = Some (entry_content (entry_of e))"
    and "pe_identity e = EntryIdentity (hex (pe_filename e))"
proof -
  obtain live dead where lay: "layout raw live dead" and p: "parsed_as c raw live dead"
    using parse_card_layout [OF assms(1)] by blast
  obtain ch where ch: "ch \<in> live" "e = entry_at raw ch" using p assms(2) by (auto simp: parsed_as_def)
  then have lc: "live_chain raw ch" using lay by (simp add: layout_def)
  then obtain fn ns where fn: "filename_of (directory_frame raw (hd ch)) = Inr fn"
      "commercial_namespace fn = Inr ns"
      "from_le (py_slice 4 8 (directory_frame raw (hd ch))) = length ch * BLOCK_SIZE"
    by (auto simp: live_chain_def)
  have b: "data_blocks_list ch" "ch \<noteq> []" "length raw = CARD_SIZE" using layout_chain [OF lay] ch(1) by auto
  have r: "1 \<le> x \<and> x \<le> 15" if "x \<in> set ch" for x
    using that b(1) by (auto simp: data_blocks_list_def data_block_range subset_iff)
  have "length (directory_frame raw x) = 128 \<and> length (data_block raw x) = BLOCK_SIZE" if "x \<in> set ch" for x
    using r [OF that] b(3) by (simp add: length_directory_frame) (auto simp: data_block_def ps1_sizes min_def)
  then have "payload_ok \<lparr>xp_filename = pe_filename e, xp_frames = pe_frames e, xp_data = pe_data e\<rparr>"
    using b(2) by (simp add: payload_ok_def ch(2) entry_at_def Let_def)
  then show "payload_content \<lparr>xp_filename = pe_filename e, xp_frames = pe_frames e, xp_data = pe_data e\<rparr>
      = Some (entry_content (entry_of e))"
    using fn b(2)
    by (simp add: payload_content_def ch(2) entry_at_def Let_def hd_map entry_content_def entry_of_def
        entry_size_def)
  show "pe_identity e = EntryIdentity (hex (pe_filename e))"
    by (simp add: ch(2) entry_at_def Let_def)
qed

lemma live_by_id:
  assumes "distinct (map pe_identity es)" and "e \<in> set es"
  shows "filter (\<lambda>x. pe_identity x = pe_identity e) es = [e]"
  using assms
proof (induction es)
  case (Cons a es)
  show ?case
  proof (cases "a = e")
    case True
    then have "filter (\<lambda>x. pe_identity x = pe_identity e) es = []"
      using Cons.prems by (auto simp: filter_empty_conv) (metis image_eqI)
    with True show ?thesis by simp
  next
    case False
    then have "pe_identity a \<noteq> pe_identity e" using Cons.prems by force
    with False Cons show ?thesis by simp
  qed
qed simp

lemma extract_parsed:
  assumes "fs src = Some raw" and "parse_card raw = Inr c" and "e \<in> set (pc_live c)"
    and "v \<in> set (cs_entries s)" and "ce_identity v = pe_identity e" and "ce_hash v = pe_hash e"
  shows "ps1_extract_entry fs src s (pe_identity e) = Inr \<lparr>xe_identity = pe_identity e, xe_hash = pe_hash e,
    xe_payload = Ps1Payload \<lparr>xp_filename = pe_filename e, xp_frames = pe_frames e, xp_data = pe_data e\<rparr>\<rparr>"
proof -
  have "list_ex (\<lambda>v. ce_identity v = pe_identity e \<and> ce_hash v = pe_hash e) (cs_entries s)"
    using assms(4-6) by (auto simp: list_ex_iff)
  then show ?thesis
    using assms live_by_id [OF parsed_live(1) [OF assms(2)] assms(3)]
    by (simp add: ps1_extract_entry_def read_bytes_def)
qed

lemma replace_entry_outcome:
  assumes input: "fs candidate = Some raw" and parse: "parse_card raw = Inr c" and hon: "honest rep"
    and tmp: "temporary \<noteq> candidate"
  shows "if rep_needs c rep \<le> card (pc_free c)
    then \<exists>raw' c'. ps1_replace_entry fs candidate rep temporary = (fs(candidate \<mapsto> raw', temporary := None), Inr ())
      \<and> parse_card raw' = Inr c'
      \<and> parsed_content ` set (pc_live c') =
          insert (rep_content rep)
            {y \<in> parsed_content ` set (pc_live c). fst (fst y) \<noteq> ce_identity (er_entry rep)}
    else ps1_replace_entry fs candidate rep temporary =
      (fs(temporary := None), Inl (Opaque INSUFFICIENT_VERIFIED_FREE_CAPACITY []))"
proof -
  let ?s = "snapshot_of c ''staged-card''" and ?i = "ce_identity (er_entry rep)"
  let ?plan = "\<lparr>bp_expected = ?s\<lparr>cs_entries := sorted_values (AList.update ?i (er_entry rep) (entry_map ?s))\<rparr>,
    bp_replacements = [rep], bp_removals = []\<rparr>"
  note P = replace_plan [OF parse hon, of "''staged-card''"]
  have op: "ps1_replace_entry fs candidate rep temporary = ps1_commit_rebuild fs candidate ?plan temporary"
    using input parse by (simp add: ps1_replace_entry_def ps1_snapshot_def read_bytes_def Let_def)
  note R = rebuild_commits [of fs candidate raw c ?plan temporary, OF input parse _ _ P(2) P(4)]
  have exp: "?i \<in> expected_identities ?plan" unfolding P(1) by blast
  show ?thesis
  proof (cases "rep_needs c rep \<le> card (pc_free c)")
    case True
    then obtain r c' where "ps1_rebuild fs candidate ?plan temporary = (fs(temporary \<mapsto> r),
          Inr \<lparr>cr_path = temporary, cr_hash = sha256_hex r, cr_expected = bp_expected ?plan\<rparr>)"
        "parse_card r = Inr c'" "parsed_content ` set (pc_live c') = plan_target c ?plan"
      using R exp hon unfolding P(5) by auto
    with True tmp show ?thesis
      unfolding op P(3) by (auto simp: ps1_commit_rebuild_def)
  next
    case False
    then have "ps1_rebuild fs candidate ?plan temporary = (fs, Inl (Opaque INSUFFICIENT_VERIFIED_FREE_CAPACITY []))"
      using R exp hon unfolding P(5) by auto
    with False show ?thesis unfolding op by (simp add: ps1_commit_rebuild_def)
  qed
qed

lemma fst_parsed: "fst \<circ> parsed_content = entry_content \<circ> entry_of"
  by (simp add: fun_eq_iff parsed_content_def)

subsection \<open>The adapter as an instance of the interface\<close>

lemma snapshot_after:
  assumes "fs' path = fs path"
  shows "ps1_snapshot fs' path cid = ps1_snapshot fs path cid"
  using assms by (simp add: ps1_snapshot_def read_bytes_def)

interpretation ps1: container_adapter ps1_snapshot ps1_rebuild "(''ps1-raw-memory-card'', 1, ''ps1-raw-128k'')"
proof
  fix fs :: files and path cid s
  assume "ps1_snapshot fs path cid = Inr s"
  then show "snapshot_identity s = (cid, fst (''ps1-raw-memory-card'', 1, ''ps1-raw-128k''),
      fst (snd (''ps1-raw-memory-card'', 1, ''ps1-raw-128k'')), snd (snd (''ps1-raw-memory-card'', 1, ''ps1-raw-128k'')))"
    by (auto simp: ps1_snapshot_def bindE_eq_Inr snapshot_identity_def snapshot_of_def)
next
  fix fs fs' :: files and destination candidate and plan :: "payload rebuild_plan" and receipt
  assume "ps1_rebuild fs destination plan candidate = (fs', Inr receipt)"
  then show "\<exists>s. ps1_snapshot fs' candidate (cs_container_id (bp_expected plan)) = Inr s
      \<and> same_content s (bp_expected plan)"
  proof (cases rule: rebuild_outcome)
    case (built raw)
    then show ?thesis
      by (auto simp: card_content_def ps1_snapshot_def read_bytes_def same_content_def fst_parsed)
  qed simp
next
  fix fs fs' :: files and destination candidate path cid and plan :: "payload rebuild_plan" and res
  assume "ps1_rebuild fs destination plan candidate = (fs', res)" and "path \<noteq> candidate"
  then show "ps1_snapshot fs' path cid = ps1_snapshot fs path cid"
    by (intro snapshot_after) (auto elim!: rebuild_outcome)
qed

subsection \<open>Properties\<close>

text \<open>
  C20: a card that parses is a partition of its fifteen data blocks into the chains
  of its live entries, the blocks of deleted chains and free blocks, and its live entries are
  listed in strictly increasing order of identity.
\<close>

theorem ps1_allocation:
  assumes "parse_card raw = Inr c"
  defines "used \<equiv> concat (map pe_blocks (pc_live c))"
  shows "distinct used
    \<and> set used \<union> pc_deleted c \<union> pc_free c = set DATA_BLOCKS
    \<and> set used \<inter> pc_deleted c = {} \<and> set used \<inter> pc_free c = {} \<and> pc_deleted c \<inter> pc_free c = {}
    \<and> sorted_wrt (<) (map pe_identity (pc_live c))"
proof -
  obtain live dead where lay: "layout raw live dead" and p: "parsed_as c raw live dead"
    using parse_card_layout [OF assms(1)] by blast
  have live: "pe_blocks ` set (pc_live c) = live" using p by (auto simp: parsed_as_def image_image)
  then have u: "set used = blocks_of live" by (auto simp: used_def blocks_of_def)
  have ap: "apart (live \<union> dead)" using lay by (simp add: layout_def)
  have inj: "inj_on pe_blocks (set (pc_live c))"
    using p by (auto simp: parsed_as_def inj_on_def)
  have "distinct (pc_live c)" using parsed_live(1) [OF assms(1)] by (simp add: distinct_map)
  then have "distinct (map pe_blocks (pc_live c))" using inj by (simp add: distinct_map)
  moreover have "distinct ch" if "ch \<in> set (map pe_blocks (pc_live c))" for ch
    using that live layout_chain(1) [OF lay, of ch] by (auto simp: data_blocks_list_def)
  moreover have "set a \<inter> set b = {}"
    if "a \<in> set (map pe_blocks (pc_live c))" "b \<in> set (map pe_blocks (pc_live c))" "a \<noteq> b" for a b
    using that live by (intro apartD [OF ap]) auto
  ultimately have d: "distinct used" unfolding used_def by (intro distinct_concat) auto
  have "blocks_of (live \<union> dead) \<subseteq> set DATA_BLOCKS"
    using layout_chain(1) [OF lay] by (fastforce simp: blocks_of_def data_blocks_list_def)
  then have sub: "blocks_of live \<subseteq> set DATA_BLOCKS" "blocks_of dead \<subseteq> set DATA_BLOCKS"
    by (simp_all add: blocks_of_Un)
  have "set a \<inter> set b = {}" if "a \<in> live" "b \<in> dead" for a b
  proof (rule apartD [OF ap])
    show "a \<noteq> b"
    proof
      assume "a = b"
      with that lay have "live_chain raw b" "chain_at raw True b" by (auto simp: layout_def)
      then have "Inr LIVE_HEADER = (Inr DELETED_HEADER :: (container_error, byte) result)"
        using live_head dead_head by metis
      then show False by (simp add: ps1_states)
    qed
  qed (use that in auto)
  then have cross: "blocks_of live \<inter> blocks_of dead = {}" by (auto simp: blocks_of_def)
  have "sorted (map pe_identity (pc_live c))"
    using parsed_live(2) [OF assms(1)] by (simp add: sorted_map less_eq_entry_identity_def)
  then have "sorted_wrt (<) (map pe_identity (pc_live c))"
    using parsed_live(1) [OF assms(1)] by (simp add: strict_sorted_iff)
  with d u sub cross p show ?thesis by (auto simp: parsed_as_def blocks_of_Un)
qed

lemma ps1_allocation_witness:
  "\<exists>c. parse_card blank_card = Inr c \<and> pc_deleted c \<union> pc_free c = set DATA_BLOCKS"
proof -
  obtain c where c: "parse_card blank_card = Inr c" "pc_live c = []" by (rule blank_parse)
  with ps1_allocation [OF c(1)] show ?thesis by simp
qed

text \<open>
  Whatever the bytes, parsing either succeeds or refuses the card with a reason
  code; no other exception can escape, so \<open>probe\<close> always answers.
\<close>

theorem ps1_refusal:
  "case parse_card raw of Inl e \<Rightarrow> (\<exists>reason detail. e = Opaque reason detail) | Inr c \<Rightarrow> pc_raw c = raw"
  using opaque_parse_card [of raw] parse_card_layout [of raw]
  by (auto simp: opaque_Inl parsed_as_def split: sum.split)

text \<open>
  C19: whatever the plan, and whichever of the final system calls raises \<open>OSError\<close>
  (creating the directory or the candidate, writing it, reading it back, or unlinking it when
  it is refused), \<open>rebuild\<close> touches no file but its candidate.  A receipt means that the
  candidate holds the receipt's bytes, which parse to exactly the planned content.  A refusal
  leaves the candidate as it was or gone; only an \<open>OSError\<close> can leave something behind, and
  then it is a prefix of the planned image, possibly all of it, and no receipt is given.
\<close>

theorem ps1_rebuild_safe:
  "case rebuild_on fault fs destination plan candidate of
     (fs', Inl e) \<Rightarrow> fs' = fs \<or> fs' = fs(candidate := None)
       \<or> fault \<noteq> No_Fault \<and> e = FileError
          \<and> (\<exists>card c raw n. fs destination = Some card \<and> parse_card card = Inr c
               \<and> rebuild_image c plan = Inr raw \<and> fs' = fs(candidate \<mapsto> take n raw))
   | (fs', Inr receipt) \<Rightarrow> (\<exists>raw c. fs' = fs(candidate \<mapsto> raw) \<and> parse_card raw = Inr c
       \<and> map entry_content (map entry_of (pc_live c)) = map entry_content (cs_entries (bp_expected plan))
       \<and> receipt = \<lparr>cr_path = candidate, cr_hash = sha256_hex raw, cr_expected = bp_expected plan\<rparr>)"
proof -
  obtain fs' res where r: "rebuild_on fault fs destination plan candidate = (fs', res)"
    by (cases "rebuild_on fault fs destination plan candidate")
  then show ?thesis
  proof (cases rule: rebuild_on_cases)
    case (faulty raw n)
    from faulty(3) obtain card c where "fs destination = Some card" "parse_card card = Inr c"
      "rebuild_image c plan = Inr raw"
      by (auto simp: bindE_eq_Inr read_bytes_def split: option.splits)
    with faulty show ?thesis unfolding r by auto
  qed (auto simp: r card_content_def fst_parsed)
qed

text \<open>
  C18: putting an entry whose payload matches it into a valid card.  If
  the blocks it needs beyond those of the entry it replaces are free, the card afterwards holds
  that entry, with its bytes, and every other entry as before; otherwise the card is untouched
  and the error says so.  The temporary file is gone either way.
\<close>

theorem ps1_replace_entry_correct:
  assumes "fs candidate = Some raw" and "parse_card raw = Inr c" and "honest rep"
    and "temporary \<noteq> candidate"
  shows "if rep_needs c rep \<le> card (pc_free c)
    then \<exists>raw' c'. ps1_replace_entry fs candidate rep temporary = (fs(candidate \<mapsto> raw', temporary := None), Inr ())
      \<and> parse_card raw' = Inr c'
      \<and> parsed_content ` set (pc_live c') =
          insert (rep_content rep)
            {y \<in> parsed_content ` set (pc_live c). fst (fst y) \<noteq> ce_identity (er_entry rep)}
    else ps1_replace_entry fs candidate rep temporary =
      (fs(temporary := None), Inl (Opaque INSUFFICIENT_VERIFIED_FREE_CAPACITY []))"
  using assms by (rule replace_entry_outcome)

lemma sample_needs: "pc_live c = [] \<Longrightarrow> rep_needs c sample_replacement = 1"
  by (simp add: rep_needs_def live_by_identity_def dict_of_def rep_blocks_def sample_replacement_def
      sample_payload_def)

lemma ps1_replace_entry_correct_witness:
  "\<exists>raw' c'. ps1_replace_entry [''card'' \<mapsto> blank_card] ''card'' sample_replacement ''tmp'' =
      ([''card'' \<mapsto> raw'], Inr ())
    \<and> parse_card raw' = Inr c' \<and> parsed_content ` set (pc_live c') = {rep_content sample_replacement}"
proof -
  obtain c where c: "parse_card blank_card = Inr c" "pc_live c = []" "card (pc_free c) = 15"
    by (rule blank_parse)
  from ps1_replace_entry_correct [of "[''card'' \<mapsto> blank_card]" "''card''", OF _ c(1) sample_honest, of "''tmp''"]
  obtain raw' c' where "ps1_replace_entry [''card'' \<mapsto> blank_card] ''card'' sample_replacement ''tmp'' =
      ([''card'' \<mapsto> blank_card](''card'' \<mapsto> raw', ''tmp'' := None), Inr ())"
      "parse_card raw' = Inr c'" "parsed_content ` set (pc_live c') = {rep_content sample_replacement}"
    using sample_needs [OF c(2)] c(2,3) by auto
  moreover have "[''card'' \<mapsto> blank_card](''card'' \<mapsto> raw', ''tmp'' := None) = [''card'' \<mapsto> raw']" by auto
  ultimately show ?thesis by metis
qed

text \<open>
  removing an identity from a valid card always succeeds; afterwards
  the card parses and holds exactly the other entries, byte for byte.
\<close>

theorem ps1_remove_entry_correct:
  assumes "fs candidate = Some raw" and "parse_card raw = Inr c" and "temporary \<noteq> candidate"
  shows "\<exists>raw' c'. ps1_remove_entry fs candidate i temporary = (fs(candidate \<mapsto> raw', temporary := None), Inr ())
    \<and> parse_card raw' = Inr c'
    \<and> parsed_content ` set (pc_live c') = {y \<in> parsed_content ` set (pc_live c). fst (fst y) \<noteq> i}"
proof -
  let ?s = "snapshot_of c ''staged-card''"
  let ?plan = "\<lparr>bp_expected = replace_snapshot_entries ?s (filter (\<lambda>e. ce_identity e \<noteq> i) (cs_entries ?s)),
    bp_replacements = [], bp_removals = [i]\<rparr> :: payload rebuild_plan"
  note P = remove_plan [OF assms(2), of "''staged-card''" i]
  have op: "ps1_remove_entry fs candidate i temporary = ps1_commit_rebuild fs candidate ?plan temporary"
    using assms by (simp add: ps1_remove_entry_def ps1_snapshot_def read_bytes_def)
  obtain r c' where "ps1_rebuild fs candidate ?plan temporary = (fs(temporary \<mapsto> r),
        Inr \<lparr>cr_path = temporary, cr_hash = sha256_hex r, cr_expected = bp_expected ?plan\<rparr>)"
      "parse_card r = Inr c'" "parsed_content ` set (pc_live c') = plan_target c ?plan"
    using rebuild_commits [of fs candidate raw c ?plan temporary, OF assms(1,2) _ _ P(1) P(3)]
    unfolding P(4) by auto
  with assms(3) show ?thesis unfolding op P(2) by (auto simp: ps1_commit_rebuild_def)
qed

lemma ps1_remove_entry_correct_witness:
  "\<exists>raw' c'. ps1_remove_entry [''card'' \<mapsto> blank_card] ''card'' (EntryIdentity ''00'') ''tmp'' =
      ([''card'' \<mapsto> raw'], Inr ()) \<and> parse_card raw' = Inr c' \<and> pc_live c' = []"
proof -
  obtain c where c: "parse_card blank_card = Inr c" "pc_live c = []" by (rule blank_parse)
  obtain raw' c' where "ps1_remove_entry [''card'' \<mapsto> blank_card] ''card'' (EntryIdentity ''00'') ''tmp'' =
      ([''card'' \<mapsto> blank_card](''card'' \<mapsto> raw', ''tmp'' := None), Inr ())"
      "parse_card raw' = Inr c'" "pc_live c' = []"
    using ps1_remove_entry_correct [of "[''card'' \<mapsto> blank_card]" "''card''" blank_card c "''tmp''" "EntryIdentity ''00''"] c
    by auto
  moreover have "[''card'' \<mapsto> blank_card](''card'' \<mapsto> raw', ''tmp'' := None) = [''card'' \<mapsto> raw']" by auto
  ultimately show ?thesis by metis
qed

lemma ce_hash_entry_of [simp]: "ce_hash (entry_of e) = pe_hash e"
  by (simp add: entry_of_def)

text \<open>
  C21: moving a save between cards loses nothing.  Extracting an entry of one valid
  card and putting it on another with enough free blocks succeeds, leaves every other file as it
  was, and extracting it again from the second card yields the same hash, file name and data
  blocks.
\<close>

theorem ps1_copy_entry:
  assumes src: "fs src = Some raw0" "parse_card raw0 = Inr c0" "e \<in> set (pc_live c0)"
    and dst: "fs dst = Some raw" "parse_card raw = Inr c" "length (pe_blocks e) \<le> card (pc_free c)"
    and tmp: "temporary \<noteq> dst"
  defines "v \<equiv> entry_of e"
  shows "\<exists>x fs' s' x' p p'.
      ps1_extract_entry fs src (snapshot_of c0 cid) (ce_identity v) = Inr x
    \<and> ps1_replace_entry fs dst \<lparr>er_entry = v, er_extracted = x\<rparr> temporary = (fs', Inr ())
    \<and> fs' = fs(dst := fs' dst, temporary := None)
    \<and> ps1_snapshot fs' dst cid = Inr s' \<and> ps1_extract_entry fs' dst s' (ce_identity v) = Inr x'
    \<and> xe_payload x = Ps1Payload p \<and> xe_payload x' = Ps1Payload p'
    \<and> xe_hash x' = xe_hash x \<and> xp_filename p' = xp_filename p \<and> xp_data p' = xp_data p"
proof -
  let ?p = "\<lparr>xp_filename = pe_filename e, xp_frames = pe_frames e, xp_data = pe_data e\<rparr>"
  let ?x = "\<lparr>xe_identity = pe_identity e, xe_hash = pe_hash e, xe_payload = Ps1Payload ?p\<rparr>"
  let ?rep = "\<lparr>er_entry = v, er_extracted = ?x\<rparr>"
  have v: "ce_identity v = pe_identity e" "ce_hash v = pe_hash e" by (simp_all add: v_def entry_of_def)
  have x: "ps1_extract_entry fs src (snapshot_of c0 cid) (ce_identity v) = Inr ?x"
    using extract_parsed [of fs src raw0 c0 e v "snapshot_of c0 cid"] src v by (simp add: v_def)
  have hon: "honest ?rep"
    using parsed_entry_payload(1) [OF src(2,3)] v by (simp add: honest_def v_def)
  have "length (pe_data e) = length (pe_blocks e)"
  proof -
    obtain live dead where "parsed_as c0 raw0 live dead" using parse_card_layout [OF src(2)] by blast
    then obtain ch where "e = entry_at raw0 ch" using src(3) by (auto simp: parsed_as_def)
    then show ?thesis by (simp add: entry_at_def Let_def)
  qed
  then have "rep_blocks ?rep \<le> card (pc_free c)" using dst(3) by (simp add: rep_blocks_def)
  then have cap: "rep_needs c ?rep \<le> card (pc_free c)" by (simp add: rep_needs_def)
  from replace_entry_outcome [of fs dst raw c ?rep temporary, OF dst(1,2) hon tmp, unfolded if_P [OF cap]]
  obtain raw' c' where r: "ps1_replace_entry fs dst ?rep temporary = (fs(dst \<mapsto> raw', temporary := None), Inr ())"
      "parse_card raw' = Inr c'"
      "parsed_content ` set (pc_live c') = insert (rep_content ?rep)
        {y \<in> parsed_content ` set (pc_live c). fst (fst y) \<noteq> ce_identity (er_entry ?rep)}"
    by (elim exE conjE)
  then have "rep_content ?rep \<in> parsed_content ` set (pc_live c')" by simp
  then obtain e' where e': "e' \<in> set (pc_live c')" "rep_content ?rep = parsed_content e'"
    by blast
  then have same: "pe_identity e' = pe_identity e" "pe_hash e' = pe_hash e" "pe_data e' = pe_data e"
    using v by (simp_all add: rep_content_def parsed_content_def entry_content_def entry_of_def)
  have "pe_filename e' = pe_filename e"
    using same(1) parsed_entry_payload(2) [OF src(2,3)] parsed_entry_payload(2) [OF r(2) e'(1)]
    by (simp add: hex_inj)
  note name = this
  let ?fs = "fs(dst \<mapsto> raw', temporary := None)"
  let ?p' = "\<lparr>xp_filename = pe_filename e', xp_frames = pe_frames e', xp_data = pe_data e'\<rparr>"
  let ?x' = "\<lparr>xe_identity = pe_identity e', xe_hash = pe_hash e', xe_payload = Ps1Payload ?p'\<rparr>"
  have input: "?fs dst = Some raw'" using tmp by simp
  have x': "ps1_extract_entry ?fs dst (snapshot_of c' cid) (ce_identity v) = Inr ?x'"
    using extract_parsed [of ?fs dst raw' c' e' "entry_of e'" "snapshot_of c' cid", OF input r(2) e'(1)]
      e'(1) unfolding v(1) same(1) [symmetric] by simp
  have s': "ps1_snapshot ?fs dst cid = Inr (snapshot_of c' cid)"
    by (simp only: ps1_snapshot_def read_bytes_def input option.case bindE_Inr r(2))
  have "?fs = fs(dst := ?fs dst, temporary := None)" unfolding input ..
  with x r(1) s' x' have "ps1_extract_entry fs src (snapshot_of c0 cid) (ce_identity v) = Inr ?x
    \<and> ps1_replace_entry fs dst ?rep temporary = (?fs, Inr ()) \<and> ?fs = fs(dst := ?fs dst, temporary := None)
    \<and> ps1_snapshot ?fs dst cid = Inr (snapshot_of c' cid)
    \<and> ps1_extract_entry ?fs dst (snapshot_of c' cid) (ce_identity v) = Inr ?x'
    \<and> xe_payload ?x = Ps1Payload ?p \<and> xe_payload ?x' = Ps1Payload ?p'
    \<and> xe_hash ?x' = xe_hash ?x \<and> xp_filename ?p' = xp_filename ?p \<and> xp_data ?p' = xp_data ?p"
    by (intro conjI) (simp_all only: extracted_entry.simps extracted_ps1.simps same name)
  then show ?thesis by (intro exI)
qed

lemma sample_card:
  obtains raw c e where "parse_card raw = Inr c" and "e \<in> set (pc_live c)"
    and "parsed_content e = rep_content sample_replacement" and "length (pe_blocks e) = 1"
proof -
  obtain c where c: "parse_card blank_card = Inr c" "pc_live c = []" "card (pc_free c) = 15"
    by (rule blank_parse)
  obtain raw c' where "parse_card raw = Inr c'"
      and live: "parsed_content ` set (pc_live c') = {rep_content sample_replacement}"
    using replace_entry_outcome [of "[''card'' \<mapsto> blank_card]" "''card''" blank_card c sample_replacement "''tmp''"]
      c sample_honest sample_needs [OF c(2)] by auto
  moreover from live obtain e where e: "e \<in> set (pc_live c')" "parsed_content e = rep_content sample_replacement"
    by blast
  then have "entry_size e = 8192"
    by (simp add: parsed_content_def rep_content_def entry_content_def entry_of_def sample_replacement_def
        sample_card_entry_def)
  then have "length (pe_blocks e) = 1" by (simp add: entry_size_def BLOCK_SIZE_def)
  ultimately show thesis using e that by blast
qed

lemma ps1_copy_entry_witness:
  "\<exists>fs fs' rep s' x'. fs ''b'' = Some blank_card
     \<and> ps1_replace_entry fs ''b'' rep ''tmp'' = (fs', Inr ())
     \<and> ps1_snapshot fs' ''b'' ''id'' = Inr s'
     \<and> ps1_extract_entry fs' ''b'' s' (ce_identity sample_card_entry) = Inr x'
     \<and> xe_hash x' = ce_hash sample_card_entry"
proof -
  obtain raw0 c0 e where e: "parse_card raw0 = Inr c0" "e \<in> set (pc_live c0)"
      "parsed_content e = rep_content sample_replacement" "length (pe_blocks e) = 1"
    by (rule sample_card)
  obtain c where c: "parse_card blank_card = Inr c" "card (pc_free c) = 15" by (rule blank_parse)
  let ?fs = "[''a'' \<mapsto> raw0, ''b'' \<mapsto> blank_card]"
  have id: "ce_identity (entry_of e) = ce_identity sample_card_entry" "pe_hash e = ce_hash sample_card_entry"
    using e(3) by (simp_all add: parsed_content_def rep_content_def entry_content_def entry_of_def
        sample_replacement_def)
  obtain x fs' s' x' where x: "ps1_extract_entry ?fs ''a'' (snapshot_of c0 ''id'') (ce_identity (entry_of e)) = Inr x"
      "ps1_replace_entry ?fs ''b'' \<lparr>er_entry = entry_of e, er_extracted = x\<rparr> ''tmp'' = (fs', Inr ())"
      "ps1_snapshot fs' ''b'' ''id'' = Inr s'"
      "ps1_extract_entry fs' ''b'' s' (ce_identity (entry_of e)) = Inr x'" "xe_hash x' = xe_hash x"
  proof -
    have "?fs ''a'' = Some raw0" "?fs ''b'' = Some blank_card" "length (pe_blocks e) \<le> card (pc_free c)"
        "''tmp'' \<noteq> ''b''"
      using e c by simp_all
    from ps1_copy_entry [OF this(1) e(1,2) this(2) c(1) this(3,4), of "''id''"] show thesis
      by (elim exE conjE) (rule that)
  qed
  have "xe_hash x = pe_hash e"
    using extract_parsed [of ?fs "''a''" raw0 c0 e "entry_of e" "snapshot_of c0 ''id''"] e(1,2) x(1)
    by auto
  with x id have "?fs ''b'' = Some blank_card
     \<and> ps1_replace_entry ?fs ''b'' \<lparr>er_entry = entry_of e, er_extracted = x\<rparr> ''tmp'' = (fs', Inr ())
     \<and> ps1_snapshot fs' ''b'' ''id'' = Inr s'
     \<and> ps1_extract_entry fs' ''b'' s' (ce_identity sample_card_entry) = Inr x'
     \<and> xe_hash x' = ce_hash sample_card_entry"
    by simp
  then show ?thesis by blast
qed

text \<open>
  C22: reconciling two cards through the adapter converges.  Once both
  planned sides have been rebuilt into candidates, planning the candidates against the plan's
  own baseline moves nothing in either direction and repeats only the unresolved conflicts.
\<close>

theorem ps1_reconcile_converges:
  assumes "ps1_snapshot fs local_path cid = Inr l" and "ps1_snapshot fs remote_path cid = Inr r"
    and "plan_container_reconcile l r b = Inr p"
    and "target_snapshot p l r ''local'' = Inr tgt_l" and "target_snapshot p l r ''remote'' = Inr tgt_r"
    and "bp_expected bl = tgt_l" and "bp_expected br = tgt_r"
    and "ps1_rebuild fs local_path bl cand_l = (fs1, Inr receipt_l)"
    and "ps1_rebuild fs1 remote_path br cand_r = (fs2, Inr receipt_r)"
    and "cand_l \<noteq> cand_r"
  shows "\<exists>l' r' q. ps1_snapshot fs2 cand_l cid = Inr l' \<and> ps1_snapshot fs2 cand_r cid = Inr r'
    \<and> plan_container_reconcile l' r' (Some (rp_next_baseline p)) = Inr q
    \<and> local_changes q = [] \<and> remote_changes q = []
    \<and> dd_id ` set (plan_conflicts q) = dd_id ` set (plan_conflicts p)"
  using assms by (rule ps1.rebuild_converges)

lemma rebuild_blank:
  assumes "fs d = Some blank_card" and "cs_entries t = []"
  shows "\<exists>raw rc. ps1_rebuild fs d \<lparr>bp_expected = t, bp_replacements = [], bp_removals = []\<rparr> cand
    = (fs(cand \<mapsto> raw), Inr rc)"
proof -
  let ?plan = "\<lparr>bp_expected = t, bp_replacements = [], bp_removals = []\<rparr> :: payload rebuild_plan"
  obtain c where c: "parse_card blank_card = Inr c" "pc_live c = []" by (rule blank_parse)
  have reps: "plan_replacements ?plan = []" by (simp add: plan_replacements_def dict_of_def)
  have "plan_needs c ?plan = 0" by (simp add: plan_needs_def reps total_needs_def sorted_keys_def)
  moreover have "fst ` plan_target c ?plan = entry_content ` set (cs_entries (bp_expected ?plan))"
    by (simp add: plan_target_def reps target_contents_def c assms(2))
  ultimately show ?thesis
    using rebuild_commits [of fs d blank_card c ?plan cand] assms c(1)
    by (auto simp: ordered_entries_def)
qed

lemma ps1_reconcile_converges_witness:
  "\<exists>l r q b. (\<exists>fs. ps1_snapshot fs ''l2'' ''id'' = Inr l \<and> ps1_snapshot fs ''r2'' ''id'' = Inr r)
    \<and> plan_container_reconcile l r (Some b) = Inr q \<and> local_changes q = [] \<and> remote_changes q = []"
proof -
  obtain c where c: "parse_card blank_card = Inr c" "pc_live c = []" by (rule blank_parse)
  let ?fs = "[''l'' \<mapsto> blank_card, ''r'' \<mapsto> blank_card]" and ?s = "snapshot_of c ''id''"
  have snaps: "ps1_snapshot ?fs ''l'' ''id'' = Inr ?s" "ps1_snapshot ?fs ''r'' ''id'' = Inr ?s"
    using c by (simp_all add: ps1_snapshot_def read_bytes_def)
  have es: "cs_entries ?s = []" by (simp add: c)
  obtain p where p: "plan_container_reconcile ?s ?s None = Inr p"
    by (simp add: plan_p compatible_def)
  obtain tl where tl: "target_snapshot p ?s ?s ''local'' = Inr tl"
    using target_snapshot_ok [OF p, of "''local''"] by blast
  obtain tr where tr: "target_snapshot p ?s ?s ''remote'' = Inr tr"
    using target_snapshot_ok [OF p, of "''remote''"] by blast
  have "snapshot_to_domains ?s = []" unfolding snapshot_to_domains_alt es by simp
  then have "rp_desired_local p = []" "rp_desired_remote p = []"
    using p by (auto simp: plan_container_reconcile_def bindE_eq_Inr finish_plan_def Let_def
        index_domains_def dict_of_def sorted_values_def sorted_keys_def)
  with tl tr have "cs_entries tl = []" "cs_entries tr = []"
    by (auto simp: target_snapshot_def)
  note empty = this
  obtain raw1 rc1 where 1: "ps1_rebuild ?fs ''l'' \<lparr>bp_expected = tl, bp_replacements = [], bp_removals = []\<rparr> ''l2''
      = (?fs(''l2'' \<mapsto> raw1), Inr rc1)"
    using rebuild_blank [of ?fs "''l''" tl "''l2''"] empty by auto
  obtain raw2 rc2 where 2: "ps1_rebuild (?fs(''l2'' \<mapsto> raw1)) ''r''
      \<lparr>bp_expected = tr, bp_replacements = [], bp_removals = []\<rparr> ''r2''
      = (?fs(''l2'' \<mapsto> raw1, ''r2'' \<mapsto> raw2), Inr rc2)"
    using rebuild_blank [of "?fs(''l2'' \<mapsto> raw1)" "''r''" tr "''r2''"] empty by auto
  let ?fs2 = "?fs(''l2'' \<mapsto> raw1, ''r2'' \<mapsto> raw2)"
  have "bp_expected (\<lparr>bp_expected = t, bp_replacements = [], bp_removals = []\<rparr> :: payload rebuild_plan) = t" for t
    by simp
  moreover have "''l2'' \<noteq> ''r2''" by simp
  ultimately have "\<exists>l' r' q. ps1_snapshot ?fs2 ''l2'' ''id'' = Inr l' \<and> ps1_snapshot ?fs2 ''r2'' ''id'' = Inr r'
    \<and> plan_container_reconcile l' r' (Some (rp_next_baseline p)) = Inr q
    \<and> local_changes q = [] \<and> remote_changes q = []
    \<and> dd_id ` set (plan_conflicts q) = dd_id ` set (plan_conflicts p)"
    by (intro ps1_reconcile_converges [OF snaps p tl tr _ _ 1 2])
  then obtain l' r' q where q: "ps1_snapshot ?fs2 ''l2'' ''id'' = Inr l'" "ps1_snapshot ?fs2 ''r2'' ''id'' = Inr r'"
      "plan_container_reconcile l' r' (Some (rp_next_baseline p)) = Inr q"
      "local_changes q = []" "remote_changes q = []"
    by (elim exE conjE)
  then have "\<exists>fs. ps1_snapshot fs ''l2'' ''id'' = Inr l' \<and> ps1_snapshot fs ''r2'' ''id'' = Inr r'"
    by (intro exI [of _ ?fs2] conjI)
  with q(3-5) show ?thesis by metis
qed

end
