(* ===== verification/PyJson.thy ===== *)
theory PyJson
  imports Sha256
begin

text \<open>
  What the SaveSync code uses of Python's \<open>json\<close>: the values \<open>json.loads\<close> yields, \<open>dict.get\<close>,
  truth values, \<open>str\<close>, and the text of \<open>json.dumps(value, indent=2, sort_keys=True) + "\n"\<close>.

  A float carries its \<open>repr\<close> and, when it is integral, the integer it equals.  A stored document
  carries its text and what \<open>json.loads\<close> makes of it (\<open>None\<close> when it raises); for a text written
  by \<open>json.dumps\<close> that is the value with the keys of every object sorted.
\<close>

subsection \<open>Values\<close>

datatype json =
    JNull
  | JBool bool
  | JInt int
  | JFloat string "int option"
  | JStr string
  | JArr "json list"
  | JObj "(string \<times> json) list"

text \<open>\<open>payload.get(key)\<close>, \<open>payload.get(key, default)\<close>\<close>

definition jget :: "(string \<times> json) list \<Rightarrow> string \<Rightarrow> json" where
  "jget d k = (case map_of d k of None \<Rightarrow> JNull | Some v \<Rightarrow> v)"

text \<open>\<open>value == n\<close> for an integer \<open>n\<close>: \<open>True\<close> equals 1, and so does \<open>1.0\<close>.\<close>

fun eq_int :: "json \<Rightarrow> int \<Rightarrow> bool" where
  "eq_int (JBool b) n \<longleftrightarrow> n = (if b then 1 else 0)"
| "eq_int (JInt i) n \<longleftrightarrow> n = i"
| "eq_int (JFloat r (Some i)) n \<longleftrightarrow> n = i"
| "eq_int _ n \<longleftrightarrow> False"

text \<open>\<open>bool(value)\<close>; a float with no integral value is not zero.\<close>

fun truthy :: "json \<Rightarrow> bool" where
  "truthy JNull \<longleftrightarrow> False"
| "truthy (JBool b) \<longleftrightarrow> b"
| "truthy (JInt i) \<longleftrightarrow> i \<noteq> 0"
| "truthy (JFloat r i) \<longleftrightarrow> i \<noteq> Some 0"
| "truthy (JStr s) \<longleftrightarrow> s \<noteq> []"
| "truthy (JArr xs) \<longleftrightarrow> xs \<noteq> []"
| "truthy (JObj d) \<longleftrightarrow> d \<noteq> []"

subsection \<open>Text\<close>

definition hex2 :: "nat \<Rightarrow> string" where
  "hex2 n = [hex_digit (n div 16), hex_digit (n mod 16)]"

text \<open>\<open>repr\<close> of a string: single quotes unless it contains one and no double quote.\<close>

definition printable :: "char \<Rightarrow> bool" where
  "printable c = (let n = (of_char c :: nat) in 32 \<le> n \<and> n < 127 \<or> 160 < n \<and> n \<noteq> 173)"

definition repr_char :: "char \<Rightarrow> char \<Rightarrow> string" where
  "repr_char quote c =
     (if c = quote \<or> c = CHR 0x5C then [CHR 0x5C, c]
      else if c = CHR 0x0A then [CHR 0x5C, CHR ''n''] else if c = CHR 0x0D then [CHR 0x5C, CHR ''r'']
      else if c = CHR 0x09 then [CHR 0x5C, CHR ''t'']
      else if printable c then [c] else [CHR 0x5C, CHR ''x''] @ hex2 (of_char c))"

definition repr_str :: "string \<Rightarrow> string" where
  "repr_str s =
     (let quote = (if CHR 0x27 \<in> set s \<and> CHR 0x22 \<notin> set s then CHR 0x22 else CHR 0x27)
      in [quote] @ concat (map (repr_char quote) s) @ [quote])"

fun py_repr :: "json \<Rightarrow> string" where
  "py_repr JNull = ''None''"
| "py_repr (JBool b) = (if b then ''True'' else ''False'')"
| "py_repr (JInt i) = show_int i"
| "py_repr (JFloat r i) = r"
| "py_repr (JStr s) = repr_str s"
| "py_repr (JArr xs) = ''['' @ join '', '' (map py_repr xs) @ '']''"
| "py_repr (JObj d) = ''{'' @ join '', '' (map (\<lambda>(k, v). repr_str k @ '': '' @ py_repr v) d) @ ''}''"

fun py_str :: "json \<Rightarrow> string" where
  "py_str (JStr s) = s"
| "py_str v = py_repr v"

text \<open>The string literal of \<open>json.dumps\<close> with \<open>ensure_ascii\<close>.\<close>

definition json_char :: "char \<Rightarrow> string" where
  "json_char c =
     (if c = CHR 0x22 \<or> c = CHR 0x5C then [CHR 0x5C, c]
      else if c = CHR 0x0A then [CHR 0x5C, CHR ''n''] else if c = CHR 0x0D then [CHR 0x5C, CHR ''r'']
      else if c = CHR 0x09 then [CHR 0x5C, CHR ''t''] else if c = CHR 0x08 then [CHR 0x5C, CHR ''b'']
      else if c = CHR 0x0C then [CHR 0x5C, CHR ''f'']
      else if 32 \<le> (of_char c :: nat) \<and> (of_char c :: nat) < 127 then [c]
      else [CHR 0x5C, CHR ''u'', CHR ''0'', CHR ''0''] @ hex2 (of_char c))"

definition json_str :: "string \<Rightarrow> string" where
  "json_str s = [CHR 0x22] @ concat (map json_char s) @ [CHR 0x22]"

definition spaces :: "nat \<Rightarrow> string" where
  "spaces n = replicate n (CHR '' '')"

definition bracketed :: "nat \<Rightarrow> string \<Rightarrow> string \<Rightarrow> string list \<Rightarrow> string" where
  "bracketed n left right items =
     (if items = [] then left @ right
      else left @ [CHR 0x0A] @ join ('','' @ [CHR 0x0A]) (map ((@) (spaces (n + 2))) items)
             @ [CHR 0x0A] @ spaces n @ right)"

fun json_value :: "nat \<Rightarrow> json \<Rightarrow> string" where
  "json_value n JNull = ''null''"
| "json_value n (JBool b) = (if b then ''true'' else ''false'')"
| "json_value n (JInt i) = show_int i"
| "json_value n (JFloat r i) = r"
| "json_value n (JStr s) = json_str s"
| "json_value n (JArr xs) = bracketed n ''['' '']'' (map (json_value (n + 2)) xs)"
| "json_value n (JObj d) = bracketed n ''{'' ''}''
     (map (\<lambda>(k, t). json_str k @ '': '' @ t)
       (sort_key fst (map (\<lambda>(k, v). (k, json_value (n + 2) v)) d)))"

definition canonical_json :: "json \<Rightarrow> string" where
  "canonical_json j = json_value 0 j @ [CHR 0x0A]"

fun sort_json :: "json \<Rightarrow> json" where
  "sort_json (JArr xs) = JArr (map sort_json xs)"
| "sort_json (JObj d) = JObj (sort_key fst (map (\<lambda>(k, v). (k, sort_json v)) d))"
| "sort_json j = j"

text \<open>A value that may be \<open>None\<close>, in a dictionary about to be dumped.\<close>

definition opt_json :: "string option \<Rightarrow> json" where
  "opt_json v = (case v of None \<Rightarrow> JNull | Some s \<Rightarrow> JStr s)"

subsection \<open>Stored documents\<close>

text \<open>
  What \<open>read_text(encoding="utf-8")\<close> does with the bytes of a stored document (the text, a
  \<open>UnicodeDecodeError\<close>, or an \<open>OSError\<close>) and what \<open>json.loads\<close> makes of the text.
\<close>

datatype text_read = Text string | Undecodable | Unreadable

record doc =
  doc_text :: text_read
  doc_json :: "json option"

type_synonym store = "string \<rightharpoonup> doc"

definition written :: "json \<Rightarrow> doc" where
  "written j = \<lparr>doc_text = Text (canonical_json j), doc_json = Some (sort_json j)\<rparr>"

lemma doc_json_written [simp]: "doc_json (written j) = Some (sort_json j)"
  by (simp add: written_def)

lemma doc_text_written [simp]: "doc_text (written j) = Text (canonical_json j)"
  by (simp add: written_def)

text \<open>
  A disk maps paths to documents; a write to a path that is not writable raises \<open>OSError\<close> and,
  being a rename of a temporary \<open>file\<close>, changes nothing.
\<close>

datatype sync_error =
    SaveSyncError string
  | OSError
  | TypeError
  | ValueError string
  | KeyError string

record disk =
  disk_docs :: store
  disk_writable :: "string \<Rightarrow> bool"

definition write_doc :: "string \<Rightarrow> doc \<Rightarrow> disk \<Rightarrow> sync_error option \<times> disk" where
  "write_doc path doc d =
     (if disk_writable d path then (None, d\<lparr>disk_docs := (disk_docs d)(path \<mapsto> doc)\<rparr>) else (Some OSError, d))"

definition atomic_write :: "string \<Rightarrow> json \<Rightarrow> disk \<Rightarrow> sync_error option \<times> disk" where
  "atomic_write path j d =
     (if disk_writable d path then (None, d\<lparr>disk_docs := (disk_docs d)(path \<mapsto> written j)\<rparr>)
      else (Some OSError, d))"

definition move_aside :: "string \<Rightarrow> string \<Rightarrow> disk \<Rightarrow> disk" where
  "move_aside path backup d =
     (if disk_writable d path \<and> disk_writable d backup
      then d\<lparr>disk_docs := (disk_docs d)(backup := disk_docs d path, path := None)\<rparr> else d)"

abbreviation fail :: "string \<Rightarrow> sync_error + 'a" where
  "fail m \<equiv> Inl (SaveSyncError m)"

lemma json_case_Inr [result_simps]:
  "(case v of JObj d \<Rightarrow> f d | _ \<Rightarrow> Inl e) = Inr y \<longleftrightarrow> (\<exists>d. v = JObj d \<and> f d = Inr y)"
  "(case v of JArr a \<Rightarrow> g a | _ \<Rightarrow> Inl e) = Inr y \<longleftrightarrow> (\<exists>a. v = JArr a \<and> g a = Inr y)"
  "(case v of JStr t \<Rightarrow> h t | _ \<Rightarrow> Inl e) = Inr y \<longleftrightarrow> (\<exists>t. v = JStr t \<and> h t = Inr y)"
  "(case v of JInt i \<Rightarrow> k i | _ \<Rightarrow> Inl e) = Inr y \<longleftrightarrow> (\<exists>i. v = JInt i \<and> k i = Inr y)"
  by (simp_all split: json.split)

lemma if_Inl_Inr [result_simps]:
  "(if b then Inl e else r) = Inr y \<longleftrightarrow> \<not> b \<and> r = Inr y"
  "(if b then r else Inl e) = Inr y \<longleftrightarrow> b \<and> r = Inr y"
  by auto

subsection \<open>Sorting keys\<close>

lemma sort_opt_json [simp]: "sort_json (opt_json v) = opt_json v"
  by (simp add: opt_json_def split: option.split)

lemma insort_key_fst_map:
  "insort_key fst (k, f v) (map (\<lambda>(k, v). (k, f v)) d) = map (\<lambda>(k, v). (k, f v)) (insort_key fst (k, v) d)"
  by (induction d) auto

lemma sort_key_fst_map:
  "sort_key fst (map (\<lambda>(k, v). (k, f v)) d) = map (\<lambda>(k, v). (k, f v)) (sort_key fst d)"
  by (induction d) (auto simp: insort_key_fst_map split: prod.splits)

lemma sort_key_idem: "sort_key f (sort_key f xs) = sort_key f xs"
  by (rule sort_key_id_if_sorted) simp

lemma map_sort_json_obj:
  "map (\<lambda>(k, v). (k, g v)) (sort_key fst (map (\<lambda>(k, v). (k, h v)) d)) =
     sort_key fst (map (\<lambda>(k, v). (k, g (h v))) d)"
  by (simp add: sort_key_fst_map comp_def case_prod_beta)

lemma json_value_sort [simp]: "json_value n (sort_json j) = json_value n j"
proof (induction j arbitrary: n rule: sort_json.induct)
  case (1 xs)
  then show ?case by (auto intro!: arg_cong [where f = "bracketed n ''['' '']''"])
next
  case (2 d)
  have "map (\<lambda>(k, v). (k, json_value (n + 2) (sort_json v))) d = map (\<lambda>(k, v). (k, json_value (n + 2) v)) d"
    using 2 by auto
  then show ?case
    by (simp only: sort_json.simps json_value.simps map_sort_json_obj sort_key_idem)
qed simp_all

lemma canonical_sort [simp]: "canonical_json (sort_json j) = canonical_json j"
  by (simp add: canonical_json_def)

lemma sort_json_idem [simp]: "sort_json (sort_json j) = sort_json j"
proof (induction j rule: sort_json.induct)
  case (2 d)
  have "map (\<lambda>(k, v). (k, sort_json (sort_json v))) d = map (\<lambda>(k, v). (k, sort_json v)) d"
    using 2 by auto
  then show ?case by (simp only: sort_json.simps map_sort_json_obj sort_key_idem)
qed auto

lemma map_of_sort_key_fst:
  assumes "distinct (map fst d)"
  shows "map_of (sort_key fst d) = map_of d"
  using assms by (intro map_of_inject_set [THEN iffD2]) (auto simp: distinct_map)

lemma jget_sorted:
  assumes "distinct (map fst d)"
  shows "jget (sort_key fst (map (\<lambda>(k, v). (k, sort_json v)) d)) k = sort_json (jget d k)"
proof -
  have "map_of (sort_key fst (map (\<lambda>(k, v). (k, sort_json v)) d)) k = map_option sort_json (map_of d k)"
    using assms by (subst map_of_sort_key_fst) (auto simp: map_of_map_snd comp_def case_prod_beta)
  then show ?thesis by (simp add: jget_def split: option.split)
qed

lemma jget_sort_key: "distinct (map fst d) \<Longrightarrow> jget (sort_key fst d) k = jget d k"
  by (simp add: jget_def map_of_sort_key_fst)

lemma jget_Cons: "jget ((k, v) # d) k' = (if k' = k then v else jget d k')"
  by (simp add: jget_def)

lemma jget_Nil: "jget [] k = JNull"
  by (simp add: jget_def)

lemmas jget_simps [simp] = jget_Cons jget_Nil

end
