(* ===== verification/Journal.thy ===== *)
theory Journal
  imports PyJson
begin

text \<open>
  The remote mutation journal (\<open>infrastructure/savesync_journal.py\<close>): a JSON document holding a
  generation counter and the last mutations, read with full validation, replaced when it is
  corrupt, and appended to after each remote commit.

  The lock around an append is that of the
  commit protocol.
\<close>

subsection \<open>Documents\<close>

record journal_entry =
  je_generation :: int
  je_timestamp :: string
  je_device_id :: string
  je_revision :: string
  je_system :: string
  je_layout_id :: string
  je_group_id :: "string option"
  je_object_id :: "string option"
  je_operation :: string

record journal =
  jr_generation :: int
  jr_history :: "journal_entry list"

definition SCHEMA_VERSION :: int where "SCHEMA_VERSION = 1"
definition MAX_HISTORY :: int where "MAX_HISTORY = 512"

definition empty_journal :: journal where
  "empty_journal = \<lparr>jr_generation = 0, jr_history = []\<rparr>"

definition entry_json :: "journal_entry \<Rightarrow> json" where
  "entry_json e = JObj
     [(''generation'', JInt (je_generation e)), (''timestamp'', JStr (je_timestamp e)),
      (''device_id'', JStr (je_device_id e)), (''revision'', JStr (je_revision e)),
      (''system'', JStr (je_system e)), (''layout_id'', JStr (je_layout_id e)),
      (''group_id'', opt_json (je_group_id e)), (''object_id'', opt_json (je_object_id e)),
      (''operation'', JStr (je_operation e))]"

definition journal_json :: "journal \<Rightarrow> json" where
  "journal_json j = JObj
     [(''schema_version'', JInt SCHEMA_VERSION), (''generation'', JInt (jr_generation j)),
      (''history'', JArr (map entry_json (jr_history j)))]"

subsection \<open>Validation\<close>

definition required_text :: "json \<Rightarrow> string \<Rightarrow> sync_error + string" where
  "required_text v label =
     (case v of JStr s \<Rightarrow> (if strip s = [] then Inl (SaveSyncError (label @ '' must be non-empty text'')) else Inr s)
      | _ \<Rightarrow> Inl (SaveSyncError (label @ '' must be non-empty text'')))"

definition optional_text :: "json \<Rightarrow> sync_error + string option" where
  "optional_text v =
     (case v of JNull \<Rightarrow> Inr None
      | JStr s \<Rightarrow> Inr (if strip s = [] then None else Some (strip s))
      | _ \<Rightarrow> Inl (SaveSyncError ''SaveSync journal optional text field is invalid''))"

text \<open>Membership in a set hashes the value: a list or a dictionary raises \<open>TypeError\<close>.\<close>

definition operations :: "string list" where
  "operations = [''create'', ''update'', ''delete'']"

definition required_operation :: "json \<Rightarrow> sync_error + string" where
  "required_operation v =
     (case v of JArr xs \<Rightarrow> Inl TypeError | JObj d \<Rightarrow> Inl TypeError
      | JStr s \<Rightarrow> (if s \<in> set operations then Inr s
                  else Inl (SaveSyncError ''SaveSync journal operation must be create/update/delete''))
      | _ \<Rightarrow> Inl (SaveSyncError ''SaveSync journal operation must be create/update/delete''))"

definition validate_entry :: "nat \<times> json \<Rightarrow> int \<times> journal_entry list \<Rightarrow> sync_error + int \<times> journal_entry list" where
  "validate_entry = (\<lambda>(index, item) (last_generation, normalized).
     (case item of
        JObj d \<Rightarrow>
          (case jget d ''generation'' of
             JInt g \<Rightarrow>
               if g \<le> 0
               then Inl (SaveSyncError (''SaveSync journal entry '' @ show_int (int index) @ '' generation is invalid''))
               else if g \<le> last_generation
               then Inl (SaveSyncError ''SaveSync journal history must be strictly increasing'')
               else bindE (required_text (jget d ''timestamp'') ''entry.timestamp'') (\<lambda>t.
                    bindE (required_text (jget d ''device_id'') ''entry.device_id'') (\<lambda>v.
                    bindE (required_text (jget d ''revision'') ''entry.revision'') (\<lambda>r.
                    bindE (required_text (jget d ''system'') ''entry.system'') (\<lambda>s.
                    bindE (required_text (jget d ''layout_id'') ''entry.layout_id'') (\<lambda>l.
                    bindE (optional_text (jget d ''group_id'')) (\<lambda>p.
                    bindE (optional_text (jget d ''object_id'')) (\<lambda>q.
                    bindE (required_operation (jget d ''operation'')) (\<lambda>op.
                    Inr (g, normalized @
                      [\<lparr>je_generation = g, je_timestamp = t, je_device_id = v, je_revision = r,
                        je_system = s, je_layout_id = l, je_group_id = p, je_object_id = q,
                        je_operation = op\<rparr>])))))))))
           | _ \<Rightarrow> Inl (SaveSyncError (''SaveSync journal entry '' @ show_int (int index) @ '' generation is invalid'')))
      | _ \<Rightarrow> Inl (SaveSyncError (''SaveSync journal entry '' @ show_int (int index) @ '' is invalid''))))"

definition validate_document :: "json \<Rightarrow> string \<Rightarrow> sync_error + journal" where
  "validate_document payload path =
     (case payload of
        JObj d \<Rightarrow>
          if \<not> eq_int (jget d ''schema_version'') SCHEMA_VERSION
          then Inl (SaveSyncError (''SaveSync journal schema version '' @ py_repr (jget d ''schema_version'') @ '' is not supported''))
          else (case jget d ''generation'' of
            JInt generation \<Rightarrow>
              if generation < 0
              then Inl (SaveSyncError ''SaveSync journal generation must be a non-negative integer'')
              else (case jget d ''history'' of
                JArr history \<Rightarrow>
                  bindE (foldE validate_entry (enumerate 0 history) (0, [])) (\<lambda>(_, normalized).
                  if normalized \<noteq> [] \<and> generation < je_generation (last normalized)
                  then Inl (SaveSyncError ''SaveSync journal generation is behind retained history'')
                  else Inr \<lparr>jr_generation = generation, jr_history = normalized\<rparr>)
              | _ \<Rightarrow> Inl (SaveSyncError ''SaveSync journal history must be a list''))
          | _ \<Rightarrow> Inl (SaveSyncError ''SaveSync journal generation must be a non-negative integer''))
      | _ \<Rightarrow> Inl (SaveSyncError (''SaveSync journal is invalid: '' @ path)))"

subsection \<open>Operations\<close>

definition load_journal :: "string \<Rightarrow> disk \<Rightarrow> sync_error + journal" where
  "load_journal path d =
     (case disk_docs d path of
        None \<Rightarrow> Inr empty_journal
      | Some doc \<Rightarrow> (case doc_json doc of
          None \<Rightarrow> Inl (SaveSyncError (''SaveSync journal is corrupt: '' @ path))
        | Some payload \<Rightarrow> validate_document payload path))"

definition save_journal :: "string \<Rightarrow> json \<Rightarrow> disk \<Rightarrow> sync_error option \<times> disk" where
  "save_journal path document d =
     (case validate_document document path of
        Inl e \<Rightarrow> (Some e, d)
      | Inr j \<Rightarrow> atomic_write path (journal_json j) d)"

definition load_or_reset :: "string \<Rightarrow> disk \<Rightarrow> (sync_error + journal) \<times> disk" where
  "load_or_reset path d =
     (case load_journal path d of
        Inr j \<Rightarrow> (Inr j, d)
      | Inl (SaveSyncError m) \<Rightarrow>
          (let d1 = (if disk_docs d path \<noteq> None then move_aside path (path @ ''.corrupt'') d else d)
           in (case save_journal path (journal_json empty_journal) d1 of
                 (Some e, d2) \<Rightarrow> (Inl e, d2)
               | (None, d2) \<Rightarrow> (Inr empty_journal, d2)))
      | Inl e \<Rightarrow> (Inl e, d))"

type_synonym mutation = "(string \<times> json) list"

definition mutation_entry :: "int \<Rightarrow> string \<Rightarrow> string \<Rightarrow> string \<Rightarrow> mutation \<Rightarrow> sync_error + journal_entry" where
  "mutation_entry generation device_id revision timestamp m =
     bindE (required_text (jget m ''system'') ''mutation.system'') (\<lambda>s.
     bindE (required_text (jget m ''layout_id'') ''mutation.layout_id'') (\<lambda>l.
     bindE (optional_text (jget m ''group_id'')) (\<lambda>p.
     bindE (optional_text (jget m ''object_id'')) (\<lambda>q.
     bindE (required_operation (jget m ''operation'')) (\<lambda>op.
     Inr \<lparr>je_generation = generation, je_timestamp = timestamp, je_device_id = device_id,
          je_revision = revision, je_system = s, je_layout_id = l, je_group_id = p,
          je_object_id = q, je_operation = op\<rparr>)))))"

definition append_step :: "string \<Rightarrow> string \<Rightarrow> string \<Rightarrow> mutation \<Rightarrow> journal \<Rightarrow> sync_error + journal" where
  "append_step device_id revision timestamp m j =
     (let generation = jr_generation j + 1
      in bindE (mutation_entry generation device_id revision timestamp m) (\<lambda>e.
         Inr \<lparr>jr_generation = generation, jr_history = jr_history j @ [e]\<rparr>))"

definition keep_last :: "int \<Rightarrow> 'a list \<Rightarrow> 'a list" where
  "keep_last n xs = (if int (length xs) > n then drop (length xs - nat n) xs else xs)"

definition append_mutations ::
  "string \<Rightarrow> string \<Rightarrow> string \<Rightarrow> string \<Rightarrow> mutation list \<Rightarrow> int \<Rightarrow> disk \<Rightarrow> (sync_error + int) \<times> disk" where
  "append_mutations path device_id revision timestamp mutations max_history d =
     (if mutations = []
      then (case load_or_reset path d of
              (Inl e, d1) \<Rightarrow> (Inl e, d1)
            | (Inr j, d1) \<Rightarrow> (Inr (jr_generation j), d1))
      else if max_history < 1
      then (Inl (SaveSyncError ''SaveSync journal max_history must be positive''), d)
      else (case load_or_reset path d of
          (Inl e, d1) \<Rightarrow> (Inl e, d1)
        | (Inr j, d1) \<Rightarrow>
            (case foldE (append_step device_id revision timestamp) mutations j of
               Inl e \<Rightarrow> (Inl e, d1)
             | Inr j' \<Rightarrow>
                 (case save_journal path
                    (journal_json (j'\<lparr>jr_history := keep_last max_history (jr_history j')\<rparr>)) d1 of
                    (Some e, d2) \<Rightarrow> (Inl e, d2)
                  | (None, d2) \<Rightarrow> (Inr (jr_generation j'), d2)))))"


subsection \<open>Well-formed journals\<close>

definition wf_text :: "string \<Rightarrow> bool" where
  "wf_text s \<longleftrightarrow> strip s \<noteq> []"

definition wf_opt :: "string option \<Rightarrow> bool" where
  "wf_opt v \<longleftrightarrow> (case v of None \<Rightarrow> True | Some s \<Rightarrow> s \<noteq> [] \<and> strip s = s)"

definition wf_entry :: "journal_entry \<Rightarrow> bool" where
  "wf_entry e \<longleftrightarrow> wf_text (je_timestamp e) \<and> wf_text (je_device_id e) \<and> wf_text (je_revision e)
     \<and> wf_text (je_system e) \<and> wf_text (je_layout_id e) \<and> wf_opt (je_group_id e)
     \<and> wf_opt (je_object_id e) \<and> je_operation e \<in> set operations"

text \<open>Generations are positive, strictly increasing and at most the counter.\<close>

definition wf_journal :: "journal \<Rightarrow> bool" where
  "wf_journal j \<longleftrightarrow> 0 \<le> jr_generation j \<and> (\<forall>e \<in> set (jr_history j). wf_entry e)
     \<and> sorted_wrt (<) (0 # map je_generation (jr_history j))
     \<and> (\<forall>e \<in> set (jr_history j). je_generation e \<le> jr_generation j)"

lemma required_text_iff [simp]: "required_text v l = Inr s \<longleftrightarrow> v = JStr s \<and> wf_text s"
  by (auto simp: required_text_def wf_text_def split: json.splits)

lemma optional_text_wf: "optional_text v = Inr s \<Longrightarrow> wf_opt s"
  by (auto simp: optional_text_def wf_opt_def strip_strip split: json.splits if_splits)

lemma optional_text_opt_json [simp]: "wf_opt s \<Longrightarrow> optional_text (opt_json s) = Inr s"
  by (auto simp: optional_text_def opt_json_def wf_opt_def split: option.splits)

lemma required_operation_iff [simp]: "required_operation v = Inr s \<longleftrightarrow> v = JStr s \<and> s \<in> set operations"
  by (auto simp: required_operation_def split: json.splits)

lemma required_text_JStr [simp]: "wf_text s \<Longrightarrow> required_text (JStr s) l = Inr s"
  by simp

lemma required_operation_JStr [simp]: "s \<in> set operations \<Longrightarrow> required_operation (JStr s) = Inr s"
  by simp

lemma validate_entry_item:
  assumes "wf_entry e" and "l < je_generation e" and "0 \<le> l"
  shows "validate_entry (i, sort_json (entry_json e)) (l, n) = Inr (je_generation e, n @ [e])"
  using assms
  by (simp add: validate_entry_def entry_json_def jget_sort_key wf_entry_def del: sort_key_simps)


lemma validate_entry_item':
  assumes "wf_entry e" and "l < je_generation e" and "0 \<le> l"
  shows "validate_entry (i, entry_json e) (l, n) = Inr (je_generation e, n @ [e])"
  using assms by (simp add: validate_entry_def entry_json_def wf_entry_def)

lemma validate_entries:
  assumes "\<And>i l n e. wf_entry e \<Longrightarrow> l < je_generation e \<Longrightarrow> 0 \<le> l
             \<Longrightarrow> validate_entry (i, f e) (l, n) = Inr (je_generation e, n @ [e])"
    and "0 \<le> l" and "\<forall>e \<in> set es. wf_entry e" and "sorted_wrt (<) (l # map je_generation es)"
  shows "\<exists>g. foldE validate_entry (enumerate k (map f es)) (l, n) = Inr (g, n @ es)"
  using assms(2-)
proof (induction es arbitrary: k l n)
  case (Cons e es)
  then have "validate_entry (k, f e) (l, n) = Inr (je_generation e, n @ [e])"
    by (intro assms(1)) auto
  moreover obtain g where
    "foldE validate_entry (enumerate (Suc k) (map f es)) (je_generation e, n @ [e]) = Inr (g, (n @ [e]) @ es)"
    using Cons.IH [of "je_generation e" "Suc k" "n @ [e]"] Cons.prems by auto
  ultimately show ?case by auto
qed simp

lemma last_generation_le: "wf_journal j \<Longrightarrow> jr_history j \<noteq> [] \<Longrightarrow> je_generation (last (jr_history j)) \<le> jr_generation j"
  by (simp add: wf_journal_def)

lemma validate_journal_json:
  assumes "wf_journal j"
  shows "validate_document (journal_json j) path = Inr j"
    and "validate_document (sort_json (journal_json j)) path = Inr j"
proof -
  have j: "0 \<le> jr_generation j" "\<forall>e \<in> set (jr_history j). wf_entry e"
      "sorted_wrt (<) (0 # map je_generation (jr_history j))"
    using assms by (simp_all add: wf_journal_def)
  obtain g where g: "foldE validate_entry (enumerate 0 (map entry_json (jr_history j))) (0, []) = Inr (g, jr_history j)"
    using validate_entries [of entry_json 0 "jr_history j" 0 "[]"] j validate_entry_item' by auto
  show "validate_document (journal_json j) path = Inr j"
    using j g last_generation_le [OF assms]
    by (auto simp: validate_document_def journal_json_def)
  obtain h where h: "foldE validate_entry (enumerate 0 (map (\<lambda>e. sort_json (entry_json e)) (jr_history j))) (0, [])
      = Inr (h, jr_history j)"
    using validate_entries [of "\<lambda>e. sort_json (entry_json e)" 0 "jr_history j" 0 "[]"] j validate_entry_item
    by auto
  then show "validate_document (sort_json (journal_json j)) path = Inr j"
    using j last_generation_le [OF assms]
    by (auto simp: validate_document_def journal_json_def jget_sort_key comp_def simp del: sort_key_simps)
qed

lemma validate_entry_wf:
  assumes "validate_entry (i, v) (l, n) = Inr (l', n')" and "0 \<le> l"
  shows "\<exists>e. n' = n @ [e] \<and> l' = je_generation e \<and> l < l' \<and> wf_entry e"
  using assms
  by (auto simp: validate_entry_def bindE_eq_Inr wf_entry_def dest: optional_text_wf
      split: json.splits if_splits)

lemma validate_entries_wf:
  assumes "foldE validate_entry xs (0, []) = Inr (g, es)"
  shows "(\<forall>e \<in> set es. wf_entry e) \<and> sorted_wrt (<) (0 # map je_generation es)"
proof -
  define I where "I = (\<lambda>(l, es). (\<forall>e \<in> set es. wf_entry e) \<and> sorted_wrt (<) (0 # map je_generation es)
    \<and> 0 \<le> l \<and> (\<forall>e \<in> set es. je_generation e \<le> l))"
  have "I (g, es)"
    using assms
  proof (rule foldE_invariant [where I = "\<lambda>_. I"])
    fix x pre s s'
    assume I: "I s" and step: "validate_entry x s = Inr s'"
    obtain i v l n l' n' where x: "x = (i, v)" "s = (l, n)" "s' = (l', n')"
      by (cases x, cases s, cases s') simp
    with I step have "validate_entry (i, v) (l, n) = Inr (l', n')" "0 \<le> l" by (auto simp: I_def)
    from validate_entry_wf [OF this] I show "I s'"
      by (fastforce simp: I_def x sorted_wrt_append)
  qed (simp add: I_def)
  then show ?thesis by (simp add: I_def)
qed

lemma validate_document_wf:
  assumes "validate_document v path = Inr j"
  shows "wf_journal j"
proof -
  from assms obtain g h xs where h: "foldE validate_entry xs (0, []) = Inr (g, jr_history j)"
    and j: "0 \<le> jr_generation j" "jr_history j \<noteq> [] \<Longrightarrow> je_generation (last (jr_history j)) \<le> jr_generation j"
    by (auto simp: validate_document_def bindE_eq_Inr split: json.splits if_splits)
  note wf = validate_entries_wf [OF h]
  have "je_generation e \<le> jr_generation j" if "e \<in> set (jr_history j)" for e
  proof -
    have "sorted (map je_generation (jr_history j))"
      using wf by (auto dest: strict_sorted_imp_sorted)
    then have "je_generation e \<le> je_generation (last (jr_history j))"
      using that by (cases "jr_history j" rule: rev_cases) (auto simp: sorted_wrt_append)
    with j(2) that show ?thesis by (cases "jr_history j") auto
  qed
  with wf j(1) show ?thesis by (simp add: wf_journal_def)
qed


subsection \<open>Appending\<close>

definition is_text :: "json \<Rightarrow> bool" where
  "is_text v \<longleftrightarrow> (case v of JStr s \<Rightarrow> wf_text s | _ \<Rightarrow> False)"

definition is_optional_text :: "json \<Rightarrow> bool" where
  "is_optional_text v \<longleftrightarrow> (case v of JNull \<Rightarrow> True | JStr s \<Rightarrow> True | _ \<Rightarrow> False)"

definition is_operation :: "json \<Rightarrow> bool" where
  "is_operation v \<longleftrightarrow> (case v of JStr s \<Rightarrow> s \<in> set operations | _ \<Rightarrow> False)"

definition valid_mutation :: "mutation \<Rightarrow> bool" where
  "valid_mutation m \<longleftrightarrow> is_text (jget m ''system'') \<and> is_text (jget m ''layout_id'')
     \<and> is_optional_text (jget m ''group_id'') \<and> is_optional_text (jget m ''object_id'')
     \<and> is_operation (jget m ''operation'')"

lemma ex_required_text: "(\<exists>s. required_text v l = Inr s) \<longleftrightarrow> is_text v"
  by (simp add: is_text_def split: json.split)

lemma ex_optional_text: "(\<exists>s. optional_text v = Inr s) \<longleftrightarrow> is_optional_text v"
  by (simp add: optional_text_def is_optional_text_def split: json.split)

lemma ex_required_operation: "(\<exists>s. required_operation v = Inr s) \<longleftrightarrow> is_operation v"
  by (simp add: is_operation_def split: json.split)

lemma ex_mutation_entry: "(\<exists>e. mutation_entry g v r t m = Inr e) \<longleftrightarrow> valid_mutation m"
  by (simp add: valid_mutation_def mutation_entry_def bindE_ex ex_required_text ex_optional_text
      ex_required_operation del: required_text_iff required_operation_iff)

lemma mutation_entry_wf:
  assumes "mutation_entry g v r t m = Inr e" and "wf_text v" and "wf_text r" and "wf_text t"
  shows "wf_entry e" and "je_generation e = g"
  using assms by (auto simp: mutation_entry_def bindE_eq_Inr wf_entry_def dest: optional_text_wf)

lemma mutation_entry_texts:
  assumes "mutation_entry g v r t m = Inr e"
  shows "je_device_id e = v" and "je_revision e = r" and "je_timestamp e = t"
  using assms by (auto simp: mutation_entry_def bindE_eq_Inr)

text \<open>The entries a batch of mutations stands for, numbered from \<open>g + 1\<close>.\<close>

fun batch :: "int \<Rightarrow> string \<Rightarrow> string \<Rightarrow> string \<Rightarrow> mutation list \<Rightarrow> sync_error + journal_entry list" where
  "batch g v r t [] = Inr []"
| "batch g v r t (m # ms) =
     bindE (mutation_entry (g + 1) v r t m) (\<lambda>e. bindE (batch (g + 1) v r t ms) (\<lambda>es. Inr (e # es)))"

lemma append_steps:
  "foldE (append_step v r t) ms j =
     bindE (batch (jr_generation j) v r t ms)
       (\<lambda>es. Inr \<lparr>jr_generation = jr_generation j + int (length ms), jr_history = jr_history j @ es\<rparr>)"
proof (induction ms arbitrary: j)
  case (Cons m ms)
  show ?case
  proof (cases "mutation_entry (jr_generation j + 1) v r t m")
    case (Inr e)
    then have "append_step v r t m j = Inr \<lparr>jr_generation = jr_generation j + 1, jr_history = jr_history j @ [e]\<rparr>"
      by (simp add: append_step_def Let_def)
    with Inr show ?thesis
      by (cases "batch (jr_generation j + 1) v r t ms") (simp_all add: Cons.IH)
  qed (simp add: append_step_def Let_def)
qed simp

lemma batch_valid: "(\<exists>es. batch g v r t ms = Inr es) \<longleftrightarrow> (\<forall>m \<in> set ms. valid_mutation m)"
  by (induction ms arbitrary: g) (simp_all add: bindE_ex ex_mutation_entry)

lemma batch_length: "batch g v r t ms = Inr es \<Longrightarrow> length es = length ms"
  by (induction ms arbitrary: g es) (auto simp: bindE_eq_Inr)

lemma batch_wf:
  assumes "batch g v r t ms = Inr es" and "wf_text v" and "wf_text r" and "wf_text t"
  shows "(\<forall>e \<in> set es. wf_entry e) \<and> sorted_wrt (<) (g # map je_generation es)
     \<and> (\<forall>e \<in> set es. je_generation e \<le> g + int (length ms))"
  using assms
proof (induction ms arbitrary: g es)
  case (Cons m ms)
  then obtain e es' where e: "es = e # es'" "mutation_entry (g + 1) v r t m = Inr e"
      "batch (g + 1) v r t ms = Inr es'"
    by (auto simp: bindE_eq_Inr)
  note mutation_entry_wf [OF e(2) Cons.prems(2-4)]
  with Cons.IH [OF e(3) Cons.prems(2-4)] e(1) show ?case by force
qed simp

lemma batch_texts:
  assumes "batch g v r t ms = Inr es" and "e \<in> set es"
  shows "je_device_id e = v" and "je_revision e = r" and "je_timestamp e = t"
  using assms by (induction ms arbitrary: g es) (auto simp: bindE_eq_Inr dest: mutation_entry_texts)

lemma set_keep_last: "set (keep_last n xs) \<subseteq> set xs"
  by (auto simp: keep_last_def dest: in_set_dropD)

lemma keep_last_append: "1 \<le> n \<Longrightarrow> xs \<noteq> [] \<Longrightarrow> last xs \<in> set (keep_last n xs)"
  by (cases xs rule: rev_cases) (auto simp: keep_last_def)

lemma length_keep_last: "1 \<le> n \<Longrightarrow> int (length (keep_last n xs)) = min n (int (length xs))"
  by (auto simp: keep_last_def)

lemma wf_journal_keep_last: "wf_journal j \<Longrightarrow> wf_journal (j\<lparr>jr_history := keep_last n (jr_history j)\<rparr>)"
  using set_keep_last [of n "jr_history j"]
  by (auto simp: wf_journal_def keep_last_def sorted_wrt_drop simp flip: drop_map dest: in_set_dropD)

lemma wf_journal_extend:
  assumes "wf_journal j" and "batch (jr_generation j) v r t ms = Inr es"
    and "wf_text v" and "wf_text r" and "wf_text t"
  shows "wf_journal \<lparr>jr_generation = jr_generation j + int (length ms), jr_history = jr_history j @ es\<rparr>"
  using assms(1) batch_wf [OF assms(2-)] by (fastforce simp: wf_journal_def sorted_wrt_append)

lemma validate_entry_texts:
  assumes "validate_entry (i, entry_json e) (l, n) = Inr s"
  shows "wf_text (je_device_id e)" and "wf_text (je_revision e)" and "wf_text (je_timestamp e)"
proof -
  have "(\<exists>x. required_text (JStr (je_timestamp e)) ''entry.timestamp'' = Inr x)
    \<and> (\<exists>x. required_text (JStr (je_device_id e)) ''entry.device_id'' = Inr x)
    \<and> (\<exists>x. required_text (JStr (je_revision e)) ''entry.revision'' = Inr x)"
    using assms unfolding validate_entry_def entry_json_def
    by (simp add: bindE_eq_Inr del: required_text_iff split: if_split_asm) blast
  then show "wf_text (je_device_id e)" and "wf_text (je_revision e)" and "wf_text (je_timestamp e)"
    by simp_all
qed

lemma validate_texts:
  assumes "validate_document (journal_json j) path = Inr k" and "e \<in> set (jr_history j)"
  shows "wf_text (je_device_id e) \<and> wf_text (je_revision e) \<and> wf_text (je_timestamp e)"
proof -
  from assms(1) obtain t where t: "foldE validate_entry (enumerate 0 (map entry_json (jr_history j))) (0, []) = Inr t"
    by (auto simp: validate_document_def journal_json_def bindE_eq_Inr split: if_splits)
  obtain i where i: "(i, entry_json e) \<in> set (enumerate 0 (map entry_json (jr_history j)))"
  proof -
    from assms(2) obtain i where "i < length (jr_history j)" "jr_history j ! i = e"
      by (auto simp: in_set_conv_nth)
    then have "(i, entry_json e) \<in> set (enumerate 0 (map entry_json (jr_history j)))"
      by (auto simp: in_set_enumerate_eq)
    then show thesis by (rule that)
  qed
  from foldE_each [OF t i] obtain s s' where "validate_entry (i, entry_json e) s = Inr s'"
    by blast
  then show ?thesis
    by (cases s) (auto dest: validate_entry_texts)
qed

lemma load_journal_wf: "load_journal path d = Inr j \<Longrightarrow> wf_journal j"
  by (auto simp: load_journal_def empty_journal_def wf_journal_def dest: validate_document_wf
      split: option.splits)

lemma wf_empty_journal [simp]: "wf_journal empty_journal"
  by (simp add: empty_journal_def wf_journal_def)

lemma save_journal_wf:
  "wf_journal j \<Longrightarrow> save_journal path (journal_json j) d = atomic_write path (journal_json j) d"
  by (simp add: save_journal_def validate_journal_json)

lemma load_written:
  "wf_journal j \<Longrightarrow> disk_docs d path = Some (written (journal_json j)) \<Longrightarrow> load_journal path d = Inr j"
  by (simp add: load_journal_def validate_journal_json)


subsection \<open>Properties\<close>

definition sample_entry :: "int \<Rightarrow> journal_entry" where
  "sample_entry g = \<lparr>je_generation = g, je_timestamp = ''t'', je_device_id = ''d'', je_revision = ''r'',
     je_system = ''s'', je_layout_id = ''l'', je_group_id = None, je_object_id = Some ''o'',
     je_operation = ''create''\<rparr>"

definition sample_journal :: journal where
  "sample_journal = \<lparr>jr_generation = 3, jr_history = [sample_entry 2, sample_entry 3]\<rparr>"

definition sample_mutation :: mutation where
  "sample_mutation = [(''system'', JStr ''psx''), (''layout_id'', JStr ''shared''), (''operation'', JStr ''delete'')]"

definition sample_disk :: disk where
  "sample_disk = \<lparr>disk_docs = [''j'' \<mapsto> written (journal_json sample_journal)], disk_writable = (\<lambda>_. True)\<rparr>"

lemma sample_valid:
  "valid_mutation sample_mutation" "wf_text ''dev''" "wf_text ''rev''" "wf_text ''now''"
  by (simp_all add: valid_mutation_def sample_mutation_def is_text_def wf_text_def is_optional_text_def
      is_operation_def operations_def strip_def is_space_def)

lemma wf_sample_journal: "wf_journal sample_journal"
  by (simp add: wf_journal_def sample_journal_def sample_entry_def wf_entry_def wf_text_def wf_opt_def
      operations_def strip_def is_space_def)

lemma load_sample: "load_journal ''j'' sample_disk = Inr sample_journal"
  by (rule load_written) (simp_all add: wf_sample_journal sample_disk_def)

lemma append_loaded:
  assumes "load_journal path d = Inr j" and "mutations \<noteq> []"
  shows "(case append_mutations path device revision timestamp mutations n d of
      (Inr g, d') \<Rightarrow> g = jr_generation j + int (length mutations)
        \<and> (\<exists>es. batch (jr_generation j) device revision timestamp mutations = Inr es
             \<and> wf_journal \<lparr>jr_generation = g, jr_history = keep_last n (jr_history j @ es)\<rparr>
             \<and> load_journal path d' = Inr \<lparr>jr_generation = g, jr_history = keep_last n (jr_history j @ es)\<rparr>)
        \<and> disk_docs d' |` (- {path}) = disk_docs d |` (- {path})
    | (Inl e, d') \<Rightarrow> d' = d \<and> \<not> (1 \<le> n \<and> (\<forall>m \<in> set mutations. valid_mutation m) \<and> wf_text device
        \<and> wf_text revision \<and> wf_text timestamp \<and> disk_writable d path))"
proof (cases "n < 1")
  case True
  with assms(2) show ?thesis by (simp add: append_mutations_def)
next
  case n: False
  have reset: "load_or_reset path d = (Inr j, d)"
    using assms(1) by (simp add: load_or_reset_def)
  show ?thesis
  proof (cases "batch (jr_generation j) device revision timestamp mutations")
    case (Inl e)
    with batch_valid have "\<not> (\<forall>m \<in> set mutations. valid_mutation m)"
      by (metis Inl_Inr_False)
    with Inl n assms(2) reset show ?thesis by (simp add: append_mutations_def append_steps)
  next
    case (Inr es)
    let ?g = "jr_generation j + int (length mutations)"
    let ?h = "\<lparr>jr_generation = ?g, jr_history = keep_last n (jr_history j @ es)\<rparr>"
    have run: "append_mutations path device revision timestamp mutations n d =
        (case save_journal path (journal_json ?h) d of (Some e, d2) \<Rightarrow> (Inl e, d2) | (None, d2) \<Rightarrow> (Inr ?g, d2))"
      using Inr n assms(2) reset by (simp add: append_mutations_def append_steps split: option.split prod.split)
    show ?thesis
    proof (cases "wf_text device \<and> wf_text revision \<and> wf_text timestamp")
      case True
      with Inr wf_journal_extend [OF load_journal_wf [OF assms(1)] Inr]
      have "wf_journal ?h" using wf_journal_keep_last by fastforce
      with Inr show ?thesis
        by (auto simp: run save_journal_wf atomic_write_def load_journal_def validate_journal_json restrict_map_def fun_eq_iff)
    next
      case False
      have "es \<noteq> []" using batch_length [OF Inr] assms(2) by auto
      then have "last es \<in> set es" "last (jr_history j @ es) = last es" by simp_all
      moreover have "last (jr_history j @ es) \<in> set (jr_history ?h)"
        using n \<open>es \<noteq> []\<close> keep_last_append [of n "jr_history j @ es"] by simp
      ultimately have "\<And>k. validate_document (journal_json ?h) path \<noteq> Inr k"
        using False validate_texts [of ?h path _ "last es"] batch_texts [OF Inr] by metis
      then obtain e where "validate_document (journal_json ?h) path = Inl e"
        by (cases "validate_document (journal_json ?h) path") auto
      with False show ?thesis by (auto simp: run save_journal_def)
    qed
  qed
qed

text \<open>
  C27: Appending a batch to a readable journal either returns the old generation plus
  the size of the batch, having written only the journal, which then reads as the old history and
  the numbered entries of the batch cut to the last \<open>max_history\<close> (and is well formed); or raises
  and changes nothing, which happens exactly when \<open>max_history\<close> is below 1, a mutation or one of
  the device, revision and timestamp texts is invalid, or the write fails.
\<close>

theorem journal_append:
  assumes "load_journal path d = Inr j" and "mutations \<noteq> []"
  shows "(case append_mutations path device revision timestamp mutations n d of
      (Inr g, d') \<Rightarrow> g = jr_generation j + int (length mutations)
        \<and> (\<exists>es. batch (jr_generation j) device revision timestamp mutations = Inr es
             \<and> wf_journal \<lparr>jr_generation = g, jr_history = keep_last n (jr_history j @ es)\<rparr>
             \<and> load_journal path d' = Inr \<lparr>jr_generation = g, jr_history = keep_last n (jr_history j @ es)\<rparr>)
        \<and> disk_docs d' |` (- {path}) = disk_docs d |` (- {path})
    | (Inl e, d') \<Rightarrow> d' = d \<and> \<not> (1 \<le> n \<and> (\<forall>m \<in> set mutations. valid_mutation m) \<and> wf_text device
        \<and> wf_text revision \<and> wf_text timestamp \<and> disk_writable d path))"
  using assms by (rule append_loaded)

theorem journal_append_witness:
  "\<exists>g d' es. append_mutations ''j'' ''dev'' ''rev'' ''now'' [sample_mutation] 2 sample_disk = (Inr g, d') \<and> g = 4
     \<and> load_journal ''j'' d' = Inr \<lparr>jr_generation = 4, jr_history = [sample_entry 3] @ es\<rparr> \<and> length es = 1"
proof -
  obtain r d' where r: "append_mutations ''j'' ''dev'' ''rev'' ''now'' [sample_mutation] 2 sample_disk = (r, d')"
    by fastforce
  note t = journal_append [OF load_sample, where mutations = "[sample_mutation]" and device = "''dev''"
      and revision = "''rev''" and timestamp = "''now''" and n = 2, unfolded r]
  from t sample_valid obtain g where g: "r = Inr g"
    by (cases r) (auto simp: sample_disk_def)
  with t obtain es where "g = 4" "batch 3 ''dev'' ''rev'' ''now'' [sample_mutation] = Inr es"
    "load_journal ''j'' d' = Inr \<lparr>jr_generation = 4, jr_history = keep_last 2 ([sample_entry 2, sample_entry 3] @ es)\<rparr>"
    by (auto simp: sample_journal_def)
  moreover from this have "length es = 1" using batch_length by fastforce
  ultimately show ?thesis
    using r g by (auto simp: keep_last_def)
qed

text \<open>
  C28: Whatever the stored bytes, a journal that \<open>load_or_reset\<close> returns is well
  formed, is what a later load of the path reads, and only the path and its \<open>.corrupt\<close> copy have
  changed; a document refused as corrupt is replaced by the empty journal and, when the copy can be
  written, kept under \<open>.corrupt\<close> byte for byte.
\<close>

theorem journal_reset_valid:
  assumes "load_or_reset path d = (Inr j, d')"
  shows "wf_journal j \<and> load_journal path d' = Inr j
    \<and> disk_docs d' |` (- {path, path @ ''.corrupt''}) = disk_docs d |` (- {path, path @ ''.corrupt''})
    \<and> (if isl (load_journal path d)
       then j = empty_journal \<and> (\<exists>m. load_journal path d = Inl (SaveSyncError m))
         \<and> (disk_writable d (path @ ''.corrupt'')
            \<longrightarrow> disk_docs d' (path @ ''.corrupt'') = disk_docs d path)
       else d' = d)"
proof (cases "load_journal path d")
  case (Inr k)
  with assms load_journal_wf [OF Inr] show ?thesis by (auto simp: load_or_reset_def)
next
  case (Inl e)
  with assms obtain m where e: "e = SaveSyncError m"
    by (cases e) (simp_all add: load_or_reset_def)
  define d1 where "d1 = (if disk_docs d path \<noteq> None then move_aside path (path @ ''.corrupt'') d else d)"
  have some: "disk_docs d path \<noteq> None"
    using Inl by (cases "disk_docs d path") (simp_all add: load_journal_def)
  have "(case save_journal path (journal_json empty_journal) d1 of
                 (Some e, d2) \<Rightarrow> (Inl e, d2)
               | (None, d2) \<Rightarrow> (Inr empty_journal, d2)) = (Inr j, d')"
    using assms Inl e by (simp add: load_or_reset_def d1_def Let_def)
  then have j: "j = empty_journal" and w: "disk_writable d1 path"
    and d': "d' = d1\<lparr>disk_docs := (disk_docs d1)(path \<mapsto> written (journal_json empty_journal))\<rparr>"
    by (auto simp: save_journal_wf atomic_write_def split: if_splits)
  from w have wd: "disk_writable d path" by (simp add: d1_def move_aside_def split: if_splits)
  have "load_journal path d' = Inr j"
    using load_written [of j d' path] by (simp add: j d')
  moreover have "disk_docs d' (path @ ''.corrupt'') = disk_docs d path" if "disk_writable d (path @ ''.corrupt'')"
    using that some wd by (auto simp: d' d1_def move_aside_def)
  moreover have "disk_docs d' |` (- {path, path @ ''.corrupt''}) = disk_docs d |` (- {path, path @ ''.corrupt''})"
    by (auto simp: d' d1_def move_aside_def restrict_map_def fun_eq_iff)
  ultimately show ?thesis
    using Inl e by (simp add: j)
qed

definition corrupt_disk :: disk where
  "corrupt_disk = \<lparr>disk_docs = [''j'' \<mapsto> \<lparr>doc_text = Text ''{'', doc_json = None\<rparr>], disk_writable = (\<lambda>_. True)\<rparr>"

theorem journal_reset_valid_witness:
  "\<exists>d'. load_or_reset ''j'' corrupt_disk = (Inr empty_journal, d')
     \<and> disk_docs d' ''j.corrupt'' = Some \<lparr>doc_text = Text ''{'', doc_json = None\<rparr> \<and> load_journal ''j'' d' = Inr empty_journal"
proof -
  obtain d' where d': "load_or_reset ''j'' corrupt_disk = (Inr empty_journal, d')"
    by (simp add: load_or_reset_def load_journal_def corrupt_disk_def Let_def save_journal_wf atomic_write_def
        move_aside_def)
  from journal_reset_valid [OF d'] have
    "load_journal ''j'' d' = Inr empty_journal \<and> disk_docs d' ''j.corrupt'' = disk_docs corrupt_disk ''j''"
    by (auto simp: load_journal_def corrupt_disk_def)
  with d' show ?thesis by (simp add: corrupt_disk_def)
qed

lemma load_after_reset: "load_or_reset path d = (Inr j, d1) \<Longrightarrow> load_journal path d1 = Inr j"
  by (auto simp: load_or_reset_def save_journal_wf atomic_write_def load_journal_def
        validate_journal_json Let_def split: sum.splits sync_error.splits option.splits if_splits prod.splits)

lemma append_after_reset:
  assumes "mutations \<noteq> []" and "1 \<le> n" and "load_or_reset path d = (Inr j, d1)"
  shows "append_mutations path v r t mutations n d = append_mutations path v r t mutations n d1"
proof -
  have "load_or_reset path d1 = (Inr j, d1)"
    using load_after_reset [OF assms(3)] by (simp add: load_or_reset_def)
  with assms show ?thesis by (simp add: append_mutations_def)
qed

text \<open>
  Whatever was stored before, an append that returns leaves a journal whose
  generation is the returned one and that holds at most \<open>max_history\<close> entries.
\<close>

theorem journal_bounded:
  assumes "append_mutations path device revision timestamp (m # ms) n d = (Inr g, d')"
  shows "\<exists>j. load_journal path d' = Inr j \<and> int (length (jr_history j)) \<le> n \<and> jr_generation j = g \<and> 1 \<le> n"
proof -
  have n: "1 \<le> n" using assms by (auto simp: append_mutations_def split: if_splits)
  moreover obtain j d1 where j: "load_or_reset path d = (Inr j, d1)"
    using assms by (auto simp: append_mutations_def split: if_splits sum.splits prod.splits)
  ultimately obtain es where
    "load_journal path d' = Inr \<lparr>jr_generation = g, jr_history = keep_last n (jr_history j @ es)\<rparr>"
    using append_loaded [OF load_after_reset [OF j], where mutations = "m # ms" and device = device
        and revision = revision and timestamp = timestamp and n = n]
      append_after_reset [OF _ n j, where mutations = "m # ms" and v = device and r = revision
        and t = timestamp] assms
    by (auto split: if_splits)
  with n show ?thesis
    using length_keep_last [of n "jr_history j @ es"] by simp
qed

theorem journal_bounded_witness:
  "\<exists>g d'. append_mutations ''j'' ''dev'' ''rev'' ''now'' [sample_mutation] 1 corrupt_disk = (Inr g, d')
     \<and> (\<exists>j. load_journal ''j'' d' = Inr j \<and> int (length (jr_history j)) \<le> 1 \<and> jr_generation j = g)"
proof -
  obtain r d' where r: "append_mutations ''j'' ''dev'' ''rev'' ''now'' [sample_mutation] 1 corrupt_disk = (r, d')"
    by fastforce
  obtain d1 where d1: "load_or_reset ''j'' corrupt_disk = (Inr empty_journal, d1)" "disk_writable d1 ''j''"
    by (auto simp: load_or_reset_def load_journal_def corrupt_disk_def Let_def save_journal_wf
        atomic_write_def move_aside_def)
  then have "\<not> isl r"
    using append_loaded [OF load_after_reset [OF d1(1)], where mutations = "[sample_mutation]" and device = "''dev''"
        and revision = "''rev''" and timestamp = "''now''" and n = 1]
      append_after_reset [OF _ _ d1(1), where mutations = "[sample_mutation]" and v = "''dev''"
        and r = "''rev''" and t = "''now''" and n = 1] r sample_valid
    by (cases r) auto
  with r journal_bounded [of "''j''" "''dev''" "''rev''" "''now''" sample_mutation "[]" 1 corrupt_disk _ d']
  show ?thesis by (cases r) auto
qed

text \<open>
  A stored entry whose operation is a list escapes the validation as a \<open>TypeError\<close>: the document is
  corrupt, yet \<open>load_or_reset\<close> does not replace it, and every append raises.
\<close>

definition unhashable_journal :: json where
  "unhashable_journal = JObj [(''generation'', JInt 1), (''history'', JArr [JObj
     [(''device_id'', JStr ''d''), (''generation'', JInt 1), (''group_id'', JNull),
      (''layout_id'', JStr ''l''), (''object_id'', JNull), (''operation'', JArr []),
      (''revision'', JStr ''r''), (''system'', JStr ''s''), (''timestamp'', JStr ''t'')]]),
     (''schema_version'', JInt 1)]"

lemma journal_unhashable_operation:
  assumes "disk_docs d path = Some \<lparr>doc_text = t, doc_json = Some unhashable_journal\<rparr>"
  shows "load_or_reset path d = (Inl TypeError, d)"
  using assms
  by (simp add: load_or_reset_def load_journal_def validate_document_def unhashable_journal_def
      validate_entry_def SCHEMA_VERSION_def wf_text_def strip_def is_space_def optional_text_def
      required_operation_def)

end
