(* ===== verification/SaveIndex.thy ===== *)
theory SaveIndex
  imports PyJson
begin

text \<open>
  The documents of the remote SaveSync index (\<open>infrastructure/savesync_index.py\<close>): one immutable
  shard per layout and generation with the verified manifest of each save group, and the \<open>HEAD\<close>
  that names the current shard of every layout; their JSON form, their validation, and the round
  trip between the two.
\<close>

subsection \<open>Records\<close>

definition PROTOCOL_VERSION :: int where "PROTOCOL_VERSION = 1"
definition INDEX_SCHEMA :: int where "INDEX_SCHEMA = 1"

record index_artifact =
  ar_path :: string
  ar_size :: int
  ar_sha256 :: string

record index_group =
  ig_id :: string
  ig_layout :: string
  ig_system :: string
  ig_generation :: int
  ig_artifacts :: "index_artifact list"
  ig_tombstoned :: bool
  ig_origin :: string
  ig_transaction :: "string option"
  ig_container :: "string option"

text \<open>The schema version is kept as the value that was read: \<open>True\<close> and \<open>1.0\<close> pass for 1.\<close>

record index_shard =
  sh_schema :: json
  sh_dataset :: string
  sh_layout :: string
  sh_generation :: int
  sh_groups :: "index_group list"

record layout_head =
  lh_generation :: int
  lh_object :: string
  lh_digest :: string

record index_head =
  hd_schema :: json
  hd_dataset :: string
  hd_index_generation :: int
  hd_journal_generation :: int
  hd_layouts :: "(string, layout_head) dict"

subsection \<open>Manifest hash\<close>

definition artifact_bytes :: "index_artifact \<Rightarrow> byte list" where
  "artifact_bytes a = utf8 (ar_path a) @ [0] @ utf8 (show_int (ar_size a)) @ [0] @ utf8 (ar_sha256 a) @ [10]"

definition compute_manifest_hash :: "index_artifact list \<Rightarrow> string" where
  "compute_manifest_hash as = sha256_hex (concat (map artifact_bytes (sort_key ar_path as)))"

definition manifest_hash :: "index_group \<Rightarrow> string" where
  "manifest_hash g = compute_manifest_hash (ig_artifacts g)"

definition EMPTY_MANIFEST_HASH :: string where
  "EMPTY_MANIFEST_HASH = sha256_hex []"

subsection \<open>Serialisation\<close>

definition artifact_to_dict :: "index_artifact \<Rightarrow> json" where
  "artifact_to_dict a =
     JObj [(''path'', JStr (ar_path a)), (''size_bytes'', JInt (ar_size a)), (''sha256'', JStr (ar_sha256 a))]"

definition group_to_dict :: "index_group \<Rightarrow> json" where
  "group_to_dict g = JObj
     [(''layout_id'', JStr (ig_layout g)), (''system'', JStr (ig_system g)),
      (''group_generation'', JInt (ig_generation g)), (''manifest_hash'', JStr (manifest_hash g)),
      (''artifacts'', JArr (map artifact_to_dict (ig_artifacts g))),
      (''tombstoned'', JBool (ig_tombstoned g)), (''origin_device'', JStr (ig_origin g)),
      (''completed_transaction_id'', opt_json (ig_transaction g)),
      (''container_head'', opt_json (ig_container g))]"

definition shard_to_dict :: "index_shard \<Rightarrow> json" where
  "shard_to_dict s = JObj
     [(''schema_version'', sh_schema s), (''dataset_id'', JStr (sh_dataset s)),
      (''layout_id'', JStr (sh_layout s)), (''generation'', JInt (sh_generation s)),
      (''groups'', JObj (dict_of (map (\<lambda>g. (ig_id g, group_to_dict g)) (sh_groups s))))]"

definition layout_head_to_dict :: "layout_head \<Rightarrow> json" where
  "layout_head_to_dict l =
     JObj [(''generation'', JInt (lh_generation l)), (''object'', JStr (lh_object l)), (''digest'', JStr (lh_digest l))]"

definition head_to_dict :: "index_head \<Rightarrow> json" where
  "head_to_dict h = JObj
     [(''schema_version'', hd_schema h), (''dataset_id'', JStr (hd_dataset h)),
      (''index_generation'', JInt (hd_index_generation h)),
      (''journal_generation'', JInt (hd_journal_generation h)),
      (''layouts'', JObj (map (\<lambda>(k, l). (k, layout_head_to_dict l)) (hd_layouts h)))]"

subsection \<open>Validation\<close>

definition nonempty_text :: "json \<Rightarrow> string \<Rightarrow> sync_error + string" where
  "nonempty_text v label =
     (case v of JStr s \<Rightarrow> (if strip s = [] then fail (''SaveSync index '' @ label @ '' must be non-empty text'') else Inr s)
      | _ \<Rightarrow> fail (''SaveSync index '' @ label @ '' must be non-empty text''))"

definition nonneg_int :: "json \<Rightarrow> string \<Rightarrow> sync_error + int" where
  "nonneg_int v label =
     (case v of JInt i \<Rightarrow> (if i < 0 then fail (''SaveSync index '' @ label @ '' must be a non-negative integer'') else Inr i)
      | _ \<Rightarrow> fail (''SaveSync index '' @ label @ '' must be a non-negative integer''))"

definition positive_int :: "json \<Rightarrow> string \<Rightarrow> sync_error + int" where
  "positive_int v message =
     (case v of JInt i \<Rightarrow> (if i < 1 then fail message else Inr i) | _ \<Rightarrow> fail message)"

definition is_sha256_hex :: "string \<Rightarrow> bool" where
  "is_sha256_hex s \<longleftrightarrow> length s = 64 \<and> list_all is_hex_char s"

definition check_sha256_hex :: "json \<Rightarrow> string \<Rightarrow> sync_error + string" where
  "check_sha256_hex v label =
     (case v of JStr s \<Rightarrow> (if is_sha256_hex s then Inr s else fail (''SaveSync index '' @ label @ '' must be a sha256 hex digest''))
      | _ \<Rightarrow> fail (''SaveSync index '' @ label @ '' must be a sha256 hex digest''))"

definition is_layout_char :: "char \<Rightarrow> bool" where
  "is_layout_char c \<longleftrightarrow> (let n = (of_char c :: nat) in
     48 \<le> n \<and> n \<le> 57 \<or> 65 \<le> n \<and> n \<le> 90 \<or> 97 \<le> n \<and> n \<le> 122 \<or> n = 95 \<or> n = 45)"

definition is_safe_layout :: "string \<Rightarrow> bool" where
  "is_safe_layout s \<longleftrightarrow> s \<noteq> [] \<and> list_all is_layout_char s"

definition safe_layout_id :: "string \<Rightarrow> sync_error + string" where
  "safe_layout_id s =
     (if is_safe_layout s then Inr s else fail (''Unsafe SaveSync index layout ID: '' @ repr_str s))"

definition is_canonical_path :: "string \<Rightarrow> bool" where
  "is_canonical_path p \<longleftrightarrow> p \<noteq> [] \<and> CHR 0x5C \<notin> set p \<and> \<not> startswith p ''/'' \<and> \<not> endswith p ''/''
     \<and> (\<forall>part \<in> set (split_on CHR ''/'' p). part \<notin> {'''', ''.'', ''..''})"

definition inside_system :: "string \<Rightarrow> string \<Rightarrow> bool" where
  "inside_system system p \<longleftrightarrow> p = system \<or> startswith p (system @ ''/'')"

definition canonical_artifact_path :: "json \<Rightarrow> string \<Rightarrow> sync_error + string" where
  "canonical_artifact_path v system =
     (case v of
        JStr p \<Rightarrow>
          if p = [] then fail ''SaveSync index artifact path must be non-empty text''
          else if \<not> is_canonical_path p then fail (''Unsafe SaveSync index artifact path: '' @ repr_str p)
          else if \<not> inside_system system p
          then fail (''SaveSync index artifact path '' @ repr_str p @ '' is outside its group's system '' @ repr_str system)
          else Inr p
      | _ \<Rightarrow> fail ''SaveSync index artifact path must be non-empty text'')"

definition artifact_from_dict :: "string \<Rightarrow> json \<Rightarrow> sync_error + index_artifact" where
  "artifact_from_dict system v =
     (case v of
        JObj d \<Rightarrow>
          bindE (canonical_artifact_path (jget d ''path'') system) (\<lambda>p.
          bindE (nonneg_int (jget d ''size_bytes'') ''artifact.size_bytes'') (\<lambda>n.
          bindE (check_sha256_hex (jget d ''sha256'') ''artifact.sha256'') (\<lambda>h.
          Inr \<lparr>ar_path = p, ar_size = n, ar_sha256 = h\<rparr>)))
      | _ \<Rightarrow> fail ''SaveSync index artifact entry must be an object'')"

definition artifact_step ::
  "string \<Rightarrow> string \<Rightarrow> json \<Rightarrow> index_artifact list \<Rightarrow> sync_error + index_artifact list" where
  "artifact_step group_id system v artifacts =
     bindE (artifact_from_dict system v) (\<lambda>a.
     if ar_path a \<in> ar_path ` set artifacts
     then fail (''SaveSync index group '' @ repr_str group_id @ '' has a duplicate artifact path: '' @ repr_str (ar_path a))
     else Inr (artifacts @ [a]))"

definition optional_nonempty :: "json \<Rightarrow> string \<Rightarrow> sync_error + string option" where
  "optional_nonempty v label =
     (if v = JNull then Inr None else bindE (nonempty_text v label) (\<lambda>s. Inr (Some s)))"

definition text_or_empty :: "json \<Rightarrow> string" where
  "text_or_empty v = (if truthy v then py_str v else [])"

definition group_from_dict :: "string \<Rightarrow> json \<Rightarrow> string \<Rightarrow> sync_error + index_group" where
  "group_from_dict group_id v layout_id =
     (case v of
        JObj d \<Rightarrow>
          if group_id = [] \<or> \<not> startswith group_id (layout_id @ ''/'')
          then fail (''SaveSync index group ID '' @ repr_str group_id @ '' does not belong to layout '' @ repr_str layout_id)
          else
          bindE (nonempty_text (jget d ''layout_id'') ''group.layout_id'') (\<lambda>declared.
          if declared \<noteq> layout_id
          then fail (''SaveSync index group '' @ repr_str group_id @ '' layout_id '' @ repr_str declared
                 @ '' does not match its shard's layout '' @ repr_str layout_id)
          else
          bindE (nonempty_text (jget d ''system'') ''group.system'') (\<lambda>system.
          (case jget d ''artifacts'' of
             JArr raw \<Rightarrow>
               bindE (foldE (artifact_step group_id system) raw []) (\<lambda>artifacts.
               bindE (nonneg_int (jget d ''group_generation'') ''group.group_generation'') (\<lambda>generation.
               bindE (optional_nonempty (jget d ''completed_transaction_id'') ''group.completed_transaction_id'') (\<lambda>txn.
               bindE (optional_nonempty (jget d ''container_head'') ''group.container_head'') (\<lambda>container.
               let g = \<lparr>ig_id = group_id, ig_layout = layout_id, ig_system = system, ig_generation = generation,
                        ig_artifacts = artifacts, ig_tombstoned = truthy (jget d ''tombstoned''),
                        ig_origin = text_or_empty (jget d ''origin_device''),
                        ig_transaction = txn, ig_container = container\<rparr>
               in bindE (check_sha256_hex (jget d ''manifest_hash'') ''group.manifest_hash'') (\<lambda>declared_hash.
                  if declared_hash \<noteq> manifest_hash g
                  then fail (''SaveSync index group '' @ repr_str group_id @ '' manifest_hash does not match its artifacts'')
                  else if ig_tombstoned g \<and> ig_artifacts g \<noteq> []
                  then fail (''SaveSync index group '' @ repr_str group_id @ '' cannot be tombstoned with artifacts present'')
                  else Inr g)))))
           | _ \<Rightarrow> fail (''SaveSync index group '' @ repr_str group_id @ '' artifacts must be a list''))))
      | _ \<Rightarrow> fail (''SaveSync index group '' @ repr_str group_id @ '' must be an object''))"

definition validate_shard_document :: "json \<Rightarrow> string \<Rightarrow> sync_error + index_shard" where
  "validate_shard_document payload path =
     (case payload of
        JObj d \<Rightarrow>
          if \<not> eq_int (jget d ''schema_version'') INDEX_SCHEMA
          then fail (''SaveSync index shard schema version '' @ py_repr (jget d ''schema_version'') @ '' is not supported: '' @ path)
          else
          bindE (nonempty_text (jget d ''dataset_id'') ''shard.dataset_id'') (\<lambda>dataset.
          bindE (nonempty_text (jget d ''layout_id'') ''shard.layout_id'') (\<lambda>raw_layout.
          bindE (safe_layout_id raw_layout) (\<lambda>layout.
          bindE (positive_int (jget d ''generation'')
                   (''SaveSync index shard generation must be a positive integer: '' @ path)) (\<lambda>generation.
          (case jget d ''groups'' of
             JObj groups \<Rightarrow>
               bindE (mapE (\<lambda>(k, v). group_from_dict k v layout) groups) (\<lambda>gs.
               Inr \<lparr>sh_schema = jget d ''schema_version'', sh_dataset = dataset, sh_layout = layout,
                    sh_generation = generation, sh_groups = gs\<rparr>)
           | _ \<Rightarrow> fail (''SaveSync index shard groups must be an object: '' @ path))))))
      | _ \<Rightarrow> fail (''SaveSync index shard is invalid: '' @ path))"

definition layout_head_from_dict :: "string \<Rightarrow> json \<Rightarrow> sync_error + layout_head" where
  "layout_head_from_dict layout_id v =
     (case v of
        JObj d \<Rightarrow>
          bindE (positive_int (jget d ''generation'')
                   (''SaveSync index HEAD layout '' @ repr_str layout_id @ '' generation must be a positive integer'')) (\<lambda>generation.
          bindE (nonempty_text (jget d ''object'') ''HEAD layout.object'') (\<lambda>object_name.
          bindE (safe_layout_id layout_id) (\<lambda>safe.
          if \<not> startswith object_name (safe @ ''.'') \<or> CHR ''/'' \<in> set object_name \<or> CHR 0x5C \<in> set object_name
          then fail (''SaveSync index HEAD layout '' @ repr_str layout_id @ '' object name is unsafe: '' @ repr_str object_name)
          else bindE (check_sha256_hex (jget d ''digest'') ''HEAD layout.digest'') (\<lambda>digest.
          Inr \<lparr>lh_generation = generation, lh_object = object_name, lh_digest = digest\<rparr>))))
      | _ \<Rightarrow> fail (''SaveSync index HEAD layout entry '' @ repr_str layout_id @ '' must be an object''))"

definition layout_item :: "string \<times> json \<Rightarrow> sync_error + string \<times> layout_head" where
  "layout_item = (\<lambda>(k, v). bindE (safe_layout_id k) (\<lambda>s. bindE (layout_head_from_dict k v) (\<lambda>l. Inr (s, l))))"

definition validate_head_document :: "json \<Rightarrow> string \<Rightarrow> sync_error + index_head" where
  "validate_head_document payload path =
     (case payload of
        JObj d \<Rightarrow>
          if \<not> eq_int (jget d ''schema_version'') INDEX_SCHEMA
          then fail (''SaveSync index HEAD schema version '' @ py_repr (jget d ''schema_version'') @ '' is not supported: '' @ path)
          else
          bindE (nonempty_text (jget d ''dataset_id'') ''HEAD.dataset_id'') (\<lambda>dataset.
          bindE (nonneg_int (jget d ''index_generation'') ''HEAD.index_generation'') (\<lambda>index_generation.
          bindE (nonneg_int (jget d ''journal_generation'') ''HEAD.journal_generation'') (\<lambda>journal_generation.
          (case jget d ''layouts'' of
             JObj layouts \<Rightarrow>
               bindE (mapE layout_item layouts) (\<lambda>ls.
               Inr \<lparr>hd_schema = jget d ''schema_version'', hd_dataset = dataset,
                    hd_index_generation = index_generation, hd_journal_generation = journal_generation,
                    hd_layouts = ls\<rparr>)
           | _ \<Rightarrow> fail (''SaveSync index HEAD layouts must be an object: '' @ path)))))
      | _ \<Rightarrow> fail (''SaveSync index HEAD is invalid: '' @ path))"


subsection \<open>Well-formed documents\<close>

definition wf_artifact :: "string \<Rightarrow> index_artifact \<Rightarrow> bool" where
  "wf_artifact system a \<longleftrightarrow> is_canonical_path (ar_path a) \<and> inside_system system (ar_path a)
     \<and> 0 \<le> ar_size a \<and> is_sha256_hex (ar_sha256 a)"

definition nonblank_opt :: "string option \<Rightarrow> bool" where
  "nonblank_opt v \<longleftrightarrow> (case v of None \<Rightarrow> True | Some s \<Rightarrow> strip s \<noteq> [])"

definition wf_group :: "string \<Rightarrow> index_group \<Rightarrow> bool" where
  "wf_group layout g \<longleftrightarrow> ig_layout g = layout \<and> startswith (ig_id g) (layout @ ''/'') \<and> strip (ig_system g) \<noteq> []
     \<and> distinct (map ar_path (ig_artifacts g)) \<and> (\<forall>a \<in> set (ig_artifacts g). wf_artifact (ig_system g) a)
     \<and> 0 \<le> ig_generation g \<and> nonblank_opt (ig_transaction g) \<and> nonblank_opt (ig_container g)
     \<and> (ig_tombstoned g \<longrightarrow> ig_artifacts g = [])"

definition wf_shard :: "index_shard \<Rightarrow> bool" where
  "wf_shard s \<longleftrightarrow> eq_int (sh_schema s) INDEX_SCHEMA \<and> strip (sh_dataset s) \<noteq> [] \<and> is_safe_layout (sh_layout s)
     \<and> 1 \<le> sh_generation s \<and> (\<forall>g \<in> set (sh_groups s). wf_group (sh_layout s) g)
     \<and> distinct (map ig_id (sh_groups s))"

definition wf_layout_head :: "string \<Rightarrow> layout_head \<Rightarrow> bool" where
  "wf_layout_head layout l \<longleftrightarrow> is_safe_layout layout \<and> 1 \<le> lh_generation l
     \<and> startswith (lh_object l) (layout @ ''.'') \<and> CHR ''/'' \<notin> set (lh_object l) \<and> CHR 0x5C \<notin> set (lh_object l)
     \<and> is_sha256_hex (lh_digest l)"

definition wf_head :: "index_head \<Rightarrow> bool" where
  "wf_head h \<longleftrightarrow> eq_int (hd_schema h) INDEX_SCHEMA \<and> strip (hd_dataset h) \<noteq> [] \<and> 0 \<le> hd_index_generation h
     \<and> 0 \<le> hd_journal_generation h \<and> wf_dict (hd_layouts h)
     \<and> (\<forall>(k, l) \<in> set (hd_layouts h). wf_layout_head k l)"

subsection \<open>Validation accepts what serialisation writes\<close>

lemma nonempty_text_iff: "nonempty_text v l = Inr s \<longleftrightarrow> v = JStr s \<and> strip s \<noteq> []"
  by (auto simp: nonempty_text_def split: json.splits)

lemma nonneg_int_iff: "nonneg_int v l = Inr i \<longleftrightarrow> v = JInt i \<and> 0 \<le> i"
  by (auto simp: nonneg_int_def split: json.splits)

lemma positive_int_iff: "positive_int v l = Inr i \<longleftrightarrow> v = JInt i \<and> 1 \<le> i"
  by (auto simp: positive_int_def split: json.splits)

lemma check_sha256_hex_iff: "check_sha256_hex v l = Inr s \<longleftrightarrow> v = JStr s \<and> is_sha256_hex s"
  by (auto simp: check_sha256_hex_def split: json.splits)

lemma safe_layout_id_iff: "safe_layout_id s = Inr t \<longleftrightarrow> t = s \<and> is_safe_layout s"
  by (auto simp: safe_layout_id_def)

lemma canonical_artifact_path_iff:
  "canonical_artifact_path v system = Inr p \<longleftrightarrow> v = JStr p \<and> is_canonical_path p \<and> inside_system system p"
  by (auto simp: canonical_artifact_path_def is_canonical_path_def split: json.splits)

lemma optional_nonempty_iff: "optional_nonempty v l = Inr s \<longleftrightarrow> v = opt_json s \<and> nonblank_opt s"
  by (auto simp: optional_nonempty_def opt_json_def nonblank_opt_def bindE_eq_Inr nonempty_text_iff split: option.splits)

lemmas check_iffs = nonempty_text_iff nonneg_int_iff positive_int_iff check_sha256_hex_iff safe_layout_id_iff
  canonical_artifact_path_iff optional_nonempty_iff

lemma checks_ok [simp]:
  "strip s \<noteq> [] \<Longrightarrow> nonempty_text (JStr s) l = Inr s"
  "0 \<le> i \<Longrightarrow> nonneg_int (JInt i) l = Inr i"
  "1 \<le> i \<Longrightarrow> positive_int (JInt i) l = Inr i"
  "is_sha256_hex s \<Longrightarrow> check_sha256_hex (JStr s) l = Inr s"
  "is_safe_layout s \<Longrightarrow> safe_layout_id s = Inr s"
  "is_canonical_path p \<Longrightarrow> inside_system system p \<Longrightarrow> canonical_artifact_path (JStr p) system = Inr p"
  "nonblank_opt v \<Longrightarrow> optional_nonempty (opt_json v) l = Inr v"
  by (simp_all add: check_iffs)

lemma is_sha256_hex_sha [simp]: "is_sha256_hex (sha256_hex m)"
  by (simp add: is_sha256_hex_def)

lemma is_sha256_manifest [simp]: "is_sha256_hex (compute_manifest_hash as)" "is_sha256_hex (manifest_hash g)"
  by (simp_all add: manifest_hash_def compute_manifest_hash_def)

lemma artifact_roundtrip:
  "artifact_from_dict system (sort_json (artifact_to_dict a)) = Inr a" if "wf_artifact system a"
  using that by (simp add: artifact_from_dict_def artifact_to_dict_def wf_artifact_def jget_sort_key del: sort_key_simps)

lemma artifacts_roundtrip:
  assumes "\<forall>a \<in> set as. wf_artifact system a" and "distinct (map ar_path (bs @ as))"
  shows "foldE (artifact_step group_id system) (map (\<lambda>a. sort_json (artifact_to_dict a)) as) bs = Inr (bs @ as)"
  using assms
proof (induction as arbitrary: bs)
  case (Cons a as)
  then have "artifact_step group_id system (sort_json (artifact_to_dict a)) bs = Inr (bs @ [a])"
    by (auto simp: artifact_step_def artifact_roundtrip)
  with Cons show ?case by simp
qed simp

lemma is_layout_char_not_space: "is_layout_char c \<Longrightarrow> \<not> is_space c"
  by (auto simp: is_layout_char_def is_space_def Let_def)

lemma strip_hd_ne: "s \<noteq> [] \<Longrightarrow> \<not> is_space (hd s) \<Longrightarrow> strip s \<noteq> []"
  by (auto simp: strip_def dropWhile_hd dropWhile_eq_Nil_conv)

lemma safe_layout_nonblank [simp]: "is_safe_layout s \<Longrightarrow> strip s \<noteq> []"
  by (intro strip_hd_ne) (auto simp: is_safe_layout_def neq_Nil_conv is_layout_char_not_space)

lemma safe_layout_ne: "is_safe_layout s \<Longrightarrow> s \<noteq> []"
  by (simp add: is_safe_layout_def)

lemma startswith_layout_nonblank: "is_safe_layout k \<Longrightarrow> startswith s (k @ t) \<Longrightarrow> strip s \<noteq> []"
  by (intro strip_hd_ne) (auto simp: startswith_iff is_safe_layout_def neq_Nil_conv is_layout_char_not_space)

lemma startswith_Nil [simp]: "startswith [] p \<longleftrightarrow> p = []"
  by (auto simp: startswith_def)

lemma group_roundtrip:
  assumes "wf_group layout g" and "is_safe_layout layout"
  shows "group_from_dict (ig_id g) (sort_json (group_to_dict g)) layout = Inr g"
proof -
  have "ig_id g \<noteq> []" using assms by (auto simp: wf_group_def)
  with assms show ?thesis
    by (simp add: group_from_dict_def group_to_dict_def jget_sort_key wf_group_def artifacts_roundtrip comp_def
        text_or_empty_def manifest_hash_def Let_def del: sort_key_simps)
qed


lemma sort_json_eq_int: "eq_int v n \<Longrightarrow> sort_json v = v"
  by (cases v) auto

lemma dict_of_groups:
  "distinct (map ig_id gs) \<Longrightarrow> dict_of (map (\<lambda>g. (ig_id g, f g)) gs) = map (\<lambda>g. (ig_id g, f g)) gs"
  by (rule dict_of_distinct) (simp add: comp_def)

text \<open>A shard as \<open>json.loads\<close> yields it: the groups come in the order of their identifiers.\<close>

definition in_order :: "index_shard \<Rightarrow> index_shard" where
  "in_order s = s\<lparr>sh_groups := sort_key ig_id (sh_groups s)\<rparr>"

lemma wf_shard_in_order: "wf_shard s \<Longrightarrow> wf_shard (in_order s)"
  by (simp add: wf_shard_def in_order_def distinct_map)

lemma in_order_sorted: "sorted (map ig_id (sh_groups s)) \<Longrightarrow> in_order s = s"
  by (simp add: in_order_def sort_key_id_if_sorted)

lemma shard_roundtrip:
  assumes "wf_shard s"
  shows "validate_shard_document (sort_json (shard_to_dict s)) path = Inr (in_order s)"
proof -
  have items: "sort_key fst (map (\<lambda>(k, v). (k, sort_json v)) (dict_of (map (\<lambda>g. (ig_id g, group_to_dict g)) (sh_groups s))))
      = map (\<lambda>g. (ig_id g, sort_json (group_to_dict g))) (sort_key ig_id (sh_groups s))"
    using assms by (simp add: dict_of_groups wf_shard_def sort_key_map comp_def)
  have groups: "mapE (\<lambda>(k, v). group_from_dict k v (sh_layout s))
      (map (\<lambda>g. (ig_id g, sort_json (group_to_dict g))) (sort_key ig_id (sh_groups s))) = Inr (sort_key ig_id (sh_groups s))"
    unfolding mapE_map using assms
    by (subst mapE_Inr_all [where g = "\<lambda>x. x"]) (simp_all add: group_roundtrip wf_shard_def)
  have schema: "sort_json (sh_schema s) = sh_schema s"
    using assms by (auto simp: wf_shard_def intro: sort_json_eq_int)
  show ?thesis
    using assms items groups schema
    by (simp add: validate_shard_document_def shard_to_dict_def jget_sort_key wf_shard_def in_order_def
        del: sort_key_simps)
qed

definition head_in_order :: "index_head \<Rightarrow> index_head" where
  "head_in_order h = h\<lparr>hd_layouts := sort_key fst (hd_layouts h)\<rparr>"

lemma layout_head_roundtrip:
  "wf_layout_head k l \<Longrightarrow> layout_item (k, sort_json (layout_head_to_dict l)) = Inr (k, l)"
  using startswith_layout_nonblank [of k "lh_object l" "''.''"]
  by (simp add: layout_item_def layout_head_from_dict_def layout_head_to_dict_def wf_layout_head_def
      jget_sort_key del: sort_key_simps)

lemma head_roundtrip:
  assumes "wf_head h"
  shows "validate_head_document (sort_json (head_to_dict h)) path = Inr (head_in_order h)"
proof -
  have items: "sort_key fst (map (\<lambda>(k, v). (k, sort_json v)) (map (\<lambda>(k, l). (k, layout_head_to_dict l)) (hd_layouts h)))
      = map (\<lambda>(k, l). (k, sort_json (layout_head_to_dict l))) (sort_key fst (hd_layouts h))"
    by (simp add: sort_key_map comp_def case_prod_beta)
  have layouts: "mapE layout_item (map (\<lambda>(k, l). (k, sort_json (layout_head_to_dict l))) (sort_key fst (hd_layouts h)))
      = Inr (sort_key fst (hd_layouts h))"
    unfolding mapE_map using assms
    by (subst mapE_Inr_all [where g = "\<lambda>x. x"]) (auto simp: wf_head_def layout_head_roundtrip)
  have schema: "sort_json (hd_schema h) = hd_schema h"
    using assms by (auto simp: wf_head_def intro: sort_json_eq_int)
  show ?thesis
    using assms items layouts schema
    by (simp add: validate_head_document_def head_to_dict_def jget_sort_key wf_head_def head_in_order_def
        del: sort_key_simps map_map)
qed

subsection \<open>Whatever is accepted is well formed\<close>

text \<open>\<open>json.loads\<close> yields dictionaries: no key occurs twice.\<close>

fun wf_json :: "json \<Rightarrow> bool" where
  "wf_json (JArr xs) \<longleftrightarrow> (\<forall>x \<in> set xs. wf_json x)"
| "wf_json (JObj d) \<longleftrightarrow> distinct (map fst d) \<and> (\<forall>(k, v) \<in> set d. wf_json v)"
| "wf_json _ \<longleftrightarrow> True"

lemma artifact_from_dict_wf: "artifact_from_dict system v = Inr a \<Longrightarrow> wf_artifact system a"
  by (auto simp: artifact_from_dict_def wf_artifact_def bindE_eq_Inr check_iffs split: json.splits)

lemma artifacts_wf:
  assumes "foldE (artifact_step group_id system) raw [] = Inr as"
  shows "distinct (map ar_path as) \<and> (\<forall>a \<in> set as. wf_artifact system a)"
  using assms
  by (rule foldE_invariant [where I = "\<lambda>_ as. distinct (map ar_path as) \<and> (\<forall>a \<in> set as. wf_artifact system a)"])
    (auto simp: artifact_step_def bindE_eq_Inr split: if_splits dest: artifact_from_dict_wf)

lemma group_from_dict_wf:
  "group_from_dict i v layout = Inr g \<Longrightarrow> wf_group layout g \<and> ig_id g = i"
  by (auto simp: group_from_dict_def wf_group_def result_simps check_iffs Let_def
      dest: artifacts_wf)

lemma map_fst_mapE:
  assumes "mapE f xs = Inr ys" and "\<And>x y. f x = Inr y \<Longrightarrow> g y = fst x"
  shows "map g ys = map fst xs"
  using assms(1) by (induction xs arbitrary: ys) (auto simp: bindE_eq_Inr assms(2))

lemma mapE_all: "mapE f xs = Inr ys \<Longrightarrow> (\<And>x y. f x = Inr y \<Longrightarrow> P y) \<Longrightarrow> \<forall>y \<in> set ys. P y"
  by (induction xs arbitrary: ys) (auto simp: bindE_eq_Inr)

lemma jget_wf: "wf_json (JObj d) \<Longrightarrow> wf_json (jget d k)"
  by (auto simp: jget_def split: option.split dest!: map_of_SomeD)

lemma validate_shard_wf:
  assumes "validate_shard_document v path = Inr s" and "wf_json v"
  shows "wf_shard s"
proof -
  from assms(1) obtain d groups where v: "v = JObj d" "jget d ''groups'' = JObj groups"
    and gs: "mapE (\<lambda>(k, v). group_from_dict k v (sh_layout s)) groups = Inr (sh_groups s)"
    and rest: "eq_int (sh_schema s) INDEX_SCHEMA" "strip (sh_dataset s) \<noteq> []" "is_safe_layout (sh_layout s)" "1 \<le> sh_generation s"
    by (auto simp: validate_shard_document_def result_simps check_iffs)
  have "map ig_id (sh_groups s) = map fst groups"
    using gs by (rule map_fst_mapE) (auto dest: group_from_dict_wf split: prod.splits)
  moreover have "distinct (map fst groups)"
    using jget_wf [of d "''groups''"] assms(2) v by simp
  moreover have "\<forall>g \<in> set (sh_groups s). wf_group (sh_layout s) g"
    using gs by (rule mapE_all) (auto dest: group_from_dict_wf)
  ultimately show ?thesis using rest by (simp add: wf_shard_def)
qed

lemma layout_item_wf: "layout_item (k, v) = Inr (k', l) \<Longrightarrow> k' = k \<and> wf_layout_head k l"
  by (auto simp: layout_item_def layout_head_from_dict_def wf_layout_head_def result_simps check_iffs)

lemma validate_head_wf:
  assumes "validate_head_document v path = Inr h" and "wf_json v"
  shows "wf_head h"
proof -
  from assms(1) obtain d layouts where v: "v = JObj d" "jget d ''layouts'' = JObj layouts"
    and ls: "mapE layout_item layouts = Inr (hd_layouts h)"
    and rest: "eq_int (hd_schema h) INDEX_SCHEMA" "strip (hd_dataset h) \<noteq> []" "0 \<le> hd_index_generation h" "0 \<le> hd_journal_generation h"
    by (auto simp: validate_head_document_def result_simps check_iffs)
  have "map fst (hd_layouts h) = map fst layouts"
    using ls by (rule map_fst_mapE) (auto dest: layout_item_wf)
  moreover have "distinct (map fst layouts)"
    using jget_wf [of d "''layouts''"] assms(2) v by simp
  moreover have "\<forall>p \<in> set (hd_layouts h). case p of (k, l) \<Rightarrow> wf_layout_head k l"
    using ls by (rule mapE_all) (auto dest: layout_item_wf)
  ultimately show ?thesis using rest by (simp add: wf_head_def wf_dict_def)
qed

end
