(* ===== verification/IndexStore.thy ===== *)
theory IndexStore
  imports SaveIndex
begin

text \<open>
  Reading and publishing the SaveSync index (\<open>infrastructure/savesync_index.py\<close>): shards written at
  most once, the \<open>HEAD\<close> replaced atomically after the shards it names, the ownership marker,
  per-group compare-and-swap, and the three publication paths.

  An operation returns its result or exception with the disk it leaves.  The identifier
  \<open>uuid4\<close> yields is an argument.
\<close>

subsection \<open>Paths\<close>

definition head_path :: "string \<Rightarrow> string" where
  "head_path root = root @ ''/HEAD.json''"

definition previous_head_path :: "string \<Rightarrow> string" where
  "previous_head_path root = root @ ''/HEAD.previous.json''"

definition ownership_path :: "string \<Rightarrow> string" where
  "ownership_path root = root @ ''/OWNED.json''"

definition shard_name :: "string \<Rightarrow> int \<Rightarrow> string" where
  "shard_name layout generation = layout @ ''.'' @ show_int generation @ ''.json''"

definition object_path :: "string \<Rightarrow> string \<Rightarrow> string" where
  "object_path root name = root @ ''/layouts/'' @ name"

definition shard_path :: "string \<Rightarrow> string \<Rightarrow> int \<Rightarrow> sync_error + string" where
  "shard_path root layout generation =
     (if generation < 1 then fail ''SaveSync index shard generation must be a positive integer''
      else bindE (safe_layout_id layout) (\<lambda>l. Inr (object_path root (shard_name l generation))))"

subsection \<open>Shards\<close>

definition json_digest :: "json \<Rightarrow> string" where
  "json_digest j = sha256_hex (utf8 (canonical_json j))"

definition pointer_to :: "index_shard \<Rightarrow> layout_head" where
  "pointer_to s = \<lparr>lh_generation = sh_generation s, lh_object = shard_name (sh_layout s) (sh_generation s),
     lh_digest = json_digest (shard_to_dict s)\<rparr>"

definition write_shard :: "string \<Rightarrow> index_shard \<Rightarrow> disk \<Rightarrow> (sync_error + layout_head) \<times> disk" where
  "write_shard root s d =
     (case shard_path root (sh_layout s) (sh_generation s) of
        Inl e \<Rightarrow> (Inl e, d)
      | Inr path \<Rightarrow>
          (case disk_docs d path of
             Some doc \<Rightarrow>
               (case doc_text doc of
                  Unreadable \<Rightarrow> (Inl OSError, d)
                | Undecodable \<Rightarrow> (Inl (ValueError ''UnicodeDecodeError''), d)
                | Text existing \<Rightarrow>
                    if existing \<noteq> canonical_json (shard_to_dict s)
                    then (fail (''SaveSync index shard '' @ path @ '' already exists with different content''), d)
                    else (Inr (pointer_to s), d))
           | None \<Rightarrow>
               (case atomic_write path (shard_to_dict s) d of
                  (Some e, d') \<Rightarrow> (Inl e, d')
                | (None, d') \<Rightarrow> (Inr (pointer_to s), d'))))"

definition load_shard :: "string \<Rightarrow> disk \<Rightarrow> string \<Rightarrow> layout_head \<Rightarrow> sync_error + index_shard" where
  "load_shard root d layout_id l =
     (let path = object_path root (lh_object l)
      in (case disk_docs d path of
            None \<Rightarrow> fail (''Cannot read SaveSync index shard: '' @ path)
          | Some doc \<Rightarrow>
              (case doc_text doc of
                 Unreadable \<Rightarrow> fail (''Cannot read SaveSync index shard: '' @ path)
               | Undecodable \<Rightarrow> Inl (ValueError ''UnicodeDecodeError'')
               | Text raw \<Rightarrow>
                   (case doc_json doc of
                      None \<Rightarrow> fail (''SaveSync index shard is corrupt: '' @ path)
                    | Some payload \<Rightarrow>
                        if json_digest payload \<noteq> lh_digest l
                        then fail (''SaveSync index shard digest mismatch: '' @ path)
                        else bindE (validate_shard_document payload path) (\<lambda>s.
                          if sh_layout s \<noteq> layout_id \<or> sh_generation s \<noteq> lh_generation l
                          then fail (''SaveSync index shard identity mismatch: '' @ path)
                          else Inr s)))))"

subsection \<open>HEAD\<close>

definition keep_previous_head :: "string \<Rightarrow> disk \<Rightarrow> (sync_error + unit) \<times> disk" where
  "keep_previous_head root d =
     (case disk_docs d (head_path root) of
        None \<Rightarrow> (Inr (), d)
      | Some doc \<Rightarrow>
          (case doc_text doc of
             Undecodable \<Rightarrow> (Inl (ValueError ''UnicodeDecodeError''), d)
           | Unreadable \<Rightarrow> (Inr (), d)
           | Text t \<Rightarrow> (Inr (), snd (write_doc (previous_head_path root) doc d))))"

definition write_head :: "string \<Rightarrow> index_head \<Rightarrow> bool \<Rightarrow> disk \<Rightarrow> (sync_error + unit) \<times> disk" where
  "write_head root h keep_previous d =
     bindS (if keep_previous then keep_previous_head root d else (Inr (), d)) (\<lambda>_ d1.
       (case atomic_write (head_path root) (head_to_dict h) d1 of
          (Some e, d2) \<Rightarrow> (Inl e, d2)
        | (None, d2) \<Rightarrow> (Inr (), d2)))"

definition load_head :: "string \<Rightarrow> disk \<Rightarrow> sync_error + index_head option" where
  "load_head root d =
     (case disk_docs d (head_path root) of
        None \<Rightarrow> Inr None
      | Some doc \<Rightarrow>
          (case doc_json doc of
             None \<Rightarrow> fail (''SaveSync index HEAD is corrupt: '' @ head_path root)
           | Some payload \<Rightarrow> bindE (validate_head_document payload (head_path root)) (\<lambda>h. Inr (Some h))))"

definition load_head_safe :: "string \<Rightarrow> disk \<Rightarrow> sync_error + index_head option" where
  "load_head_safe root d =
     (case load_head root d of Inl (SaveSyncError m) \<Rightarrow> Inr None | Inl e \<Rightarrow> Inl e | Inr h \<Rightarrow> Inr h)"

definition load_head_strict :: "string \<Rightarrow> disk \<Rightarrow> sync_error + index_head" where
  "load_head_strict root d =
     bindE (load_head root d) (\<lambda>h.
     (case h of None \<Rightarrow> fail (''SaveSync index HEAD is missing: '' @ head_path root) | Some h \<Rightarrow> Inr h))"

definition load_previous_head_safe :: "string \<Rightarrow> disk \<Rightarrow> sync_error + index_head option" where
  "load_previous_head_safe root d =
     (case disk_docs d (previous_head_path root) of
        None \<Rightarrow> Inr None
      | Some doc \<Rightarrow>
          (case doc_json doc of
             None \<Rightarrow> Inr None
           | Some payload \<Rightarrow>
               (case validate_head_document payload (previous_head_path root) of
                  Inl (SaveSyncError m) \<Rightarrow> Inr None | Inl OSError \<Rightarrow> Inr None
                | Inl (ValueError m) \<Rightarrow> Inr None
                | Inl e \<Rightarrow> Inl e | Inr h \<Rightarrow> Inr (Some h))))"

subsection \<open>Ownership\<close>

datatype ownership = UNOWNED | OWNED | DAMAGED

record ownership_marker =
  om_schema :: json
  om_protocol :: int
  om_dataset :: string
  om_established_at :: string
  om_established_by :: string

record dataset_state =
  ds_ownership :: ownership
  ds_marker :: "ownership_marker option"
  ds_head :: "index_head option"
  ds_detail :: string

definition ownership_to_dict :: "ownership_marker \<Rightarrow> json" where
  "ownership_to_dict m = JObj
     [(''schema_version'', om_schema m), (''protocol_version'', JInt (om_protocol m)),
      (''dataset_id'', JStr (om_dataset m)), (''established_at'', JStr (om_established_at m)),
      (''established_by_device'', JStr (om_established_by m))]"

definition marker_text :: "(string \<times> json) list \<Rightarrow> string \<Rightarrow> sync_error + string" where
  "marker_text d k =
     (case jget d k of JStr s \<Rightarrow> (if strip s = [] then fail (''SaveSync ownership marker '' @ k @ '' must be non-empty text'') else Inr s)
      | _ \<Rightarrow> fail (''SaveSync ownership marker '' @ k @ '' must be non-empty text''))"

definition validate_ownership_document :: "json \<Rightarrow> string \<Rightarrow> sync_error + ownership_marker" where
  "validate_ownership_document payload path =
     (case payload of
        JObj d \<Rightarrow>
          if \<not> eq_int (jget d ''schema_version'') INDEX_SCHEMA
          then fail (''SaveSync ownership marker schema version '' @ py_repr (jget d ''schema_version'') @ '' is not supported: '' @ path)
          else
          bindE (positive_int (jget d ''protocol_version'')
                   (''SaveSync ownership marker protocol_version is invalid: '' @ path)) (\<lambda>protocol.
          if protocol > PROTOCOL_VERSION
          then fail (''SaveSync remote dataset uses protocol version '' @ show_int protocol @ '', newer than this build's ''
                 @ show_int PROTOCOL_VERSION @ '': '' @ path)
          else
          bindE (marker_text d ''dataset_id'') (\<lambda>dataset.
          bindE (marker_text d ''established_at'') (\<lambda>at_time.
          bindE (marker_text d ''established_by_device'') (\<lambda>device.
          Inr \<lparr>om_schema = jget d ''schema_version'', om_protocol = protocol, om_dataset = dataset,
               om_established_at = at_time, om_established_by = device\<rparr>))))
      | _ \<Rightarrow> fail (''SaveSync ownership marker is invalid: '' @ path))"

definition load_ownership :: "string \<Rightarrow> disk \<Rightarrow> sync_error + ownership_marker option" where
  "load_ownership root d =
     (case disk_docs d (ownership_path root) of
        None \<Rightarrow> Inr None
      | Some doc \<Rightarrow>
          (case doc_json doc of
             None \<Rightarrow> fail (''SaveSync ownership marker is corrupt: '' @ ownership_path root)
           | Some payload \<Rightarrow> bindE (validate_ownership_document payload (ownership_path root)) (\<lambda>m. Inr (Some m))))"

definition write_ownership :: "string \<Rightarrow> ownership_marker \<Rightarrow> disk \<Rightarrow> (sync_error + unit) \<times> disk" where
  "write_ownership root m d =
     (case atomic_write (ownership_path root) (ownership_to_dict m) d of
        (Some e, d') \<Rightarrow> (Inl e, d')
      | (None, d') \<Rightarrow> (Inr (), d'))"

definition resolve_dataset_state :: "string \<Rightarrow> disk \<Rightarrow> sync_error + dataset_state" where
  "resolve_dataset_state root d =
     (case load_ownership root d of
        Inl (SaveSyncError m) \<Rightarrow> Inr \<lparr>ds_ownership = DAMAGED, ds_marker = None, ds_head = None, ds_detail = m\<rparr>
      | Inl e \<Rightarrow> Inl e
      | Inr None \<Rightarrow> Inr \<lparr>ds_ownership = UNOWNED, ds_marker = None, ds_head = None, ds_detail = ''no ownership marker''\<rparr>
      | Inr (Some marker) \<Rightarrow>
          (case load_head_strict root d of
             Inl (SaveSyncError m) \<Rightarrow> Inr \<lparr>ds_ownership = DAMAGED, ds_marker = Some marker, ds_head = None, ds_detail = m\<rparr>
           | Inl e \<Rightarrow> Inl e
           | Inr h \<Rightarrow>
               if hd_dataset h \<noteq> om_dataset marker
               then Inr \<lparr>ds_ownership = DAMAGED, ds_marker = Some marker, ds_head = Some h,
                    ds_detail = ''ownership marker names dataset '' @ repr_str (om_dataset marker)
                      @ '' but HEAD names '' @ repr_str (hd_dataset h)\<rparr>
               else Inr \<lparr>ds_ownership = OWNED, ds_marker = Some marker, ds_head = Some h, ds_detail = []\<rparr>))"

subsection \<open>Reading several shards\<close>

definition changed_step ::
  "string \<Rightarrow> disk \<Rightarrow> (string, int) dict \<Rightarrow> string \<times> layout_head \<Rightarrow> (string, index_shard) dict
     \<Rightarrow> sync_error + (string, index_shard) dict" where
  "changed_step root d known = (\<lambda>(layout_id, l) changed.
     if (case map_of known layout_id of None \<Rightarrow> 0 | Some g \<Rightarrow> g) < lh_generation l
     then bindE (load_shard root d layout_id l) (\<lambda>s. Inr (AList.update layout_id s changed))
     else Inr changed)"

definition load_changed_layout_shards ::
  "string \<Rightarrow> disk \<Rightarrow> index_head \<Rightarrow> (string, int) dict \<Rightarrow> sync_error + (string, index_shard) dict" where
  "load_changed_layout_shards root d h known = foldE (changed_step root d known) (hd_layouts h) []"

definition journal_diverged :: "index_head \<Rightarrow> int \<Rightarrow> bool" where
  "journal_diverged h generation \<longleftrightarrow> generation \<noteq> hd_journal_generation h"

definition receipts_of :: "index_shard \<Rightarrow> string list" where
  "receipts_of s = filter (\<lambda>t. t \<noteq> []) (List.map_filter ig_transaction (sh_groups s))"

definition receipt_step ::
  "string \<Rightarrow> disk \<Rightarrow> string \<times> layout_head \<Rightarrow> string set \<Rightarrow> sync_error + string set" where
  "receipt_step root d = (\<lambda>(layout_id, l) receipts.
     (case load_shard root d layout_id l of
        Inl (SaveSyncError m) \<Rightarrow> Inr receipts
      | Inl e \<Rightarrow> Inl e
      | Inr s \<Rightarrow> Inr (receipts \<union> set (receipts_of s))))"

definition committed_transaction_ids :: "string \<Rightarrow> disk \<Rightarrow> index_head option \<Rightarrow> sync_error + string set" where
  "committed_transaction_ids root d h =
     (case h of None \<Rightarrow> Inr {} | Some h \<Rightarrow> foldE (receipt_step root d) (hd_layouts h) {})"

end
