(* ===== verification/IndexPublish.thy ===== *)
theory IndexPublish
  imports IndexStore
begin

text \<open>
  Publication of the SaveSync index (\<open>infrastructure/savesync_index.py\<close>): Full Sync's complete
  publication, the incremental commit of some groups onto the current \<open>HEAD\<close>, the update of the
  recorded journal generation, and the compare-and-swap of group expectations.
\<close>

subsection \<open>Building the next index\<close>

definition first_text :: "string option \<Rightarrow> string option \<Rightarrow> string \<Rightarrow> string" where
  "first_text a b c =
     (case a of Some (x # xs) \<Rightarrow> x # xs
      | _ \<Rightarrow> (case b of Some (x # xs) \<Rightarrow> x # xs | _ \<Rightarrow> c))"

type_synonym shard_loader = "string \<Rightarrow> layout_head \<Rightarrow> sync_error + index_shard option"

definition is_unchanged :: "shard_loader \<Rightarrow> string \<Rightarrow> layout_head option \<Rightarrow> index_group list \<Rightarrow> sync_error + bool" where
  "is_unchanged load_previous layout_id previous sorted_groups =
     (case previous of
        None \<Rightarrow> Inr False
      | Some l \<Rightarrow>
          (case load_previous layout_id l of
             Inl (SaveSyncError m) \<Rightarrow> Inr False
           | Inl e \<Rightarrow> Inl e
           | Inr None \<Rightarrow> Inr False
           | Inr (Some s) \<Rightarrow> Inr (sh_groups s = sorted_groups)))"

definition build_step ::
  "shard_loader \<Rightarrow> string \<Rightarrow> (string, layout_head) dict \<Rightarrow> string \<times> index_group list
     \<Rightarrow> (string, index_shard) dict \<Rightarrow> sync_error + (string, index_shard) dict" where
  "build_step load_previous dataset previous_layouts = (\<lambda>(layout_id, groups) shards.
     let sorted_groups = sort_key ig_id groups;
         previous = map_of previous_layouts layout_id
     in bindE (is_unchanged load_previous layout_id previous sorted_groups) (\<lambda>unchanged.
        if unchanged then Inr shards
        else Inr (AList.update layout_id
          \<lparr>sh_schema = JInt INDEX_SCHEMA, sh_dataset = dataset, sh_layout = layout_id,
           sh_generation = (case previous of None \<Rightarrow> 1 | Some l \<Rightarrow> lh_generation l + 1),
           sh_groups = sorted_groups\<rparr> shards)))"

definition build_index ::
  "index_head option \<Rightarrow> string option \<Rightarrow> string \<Rightarrow> int \<Rightarrow> (string, index_group list) dict \<Rightarrow> shard_loader
     \<Rightarrow> sync_error + index_head \<times> (string, index_shard) dict" where
  "build_index previous_head dataset_id new_id journal_generation layout_groups load_previous =
     (let dataset = first_text (map_option hd_dataset previous_head) dataset_id new_id;
          previous_layouts = (case previous_head of None \<Rightarrow> [] | Some h \<Rightarrow> hd_layouts h)
      in bindE (foldE (build_step load_previous dataset previous_layouts) layout_groups []) (\<lambda>shards.
         Inr (\<lparr>hd_schema = JInt INDEX_SCHEMA, hd_dataset = dataset,
               hd_index_generation = (case previous_head of None \<Rightarrow> 0 | Some h \<Rightarrow> hd_index_generation h)
                 + (if shards \<noteq> [] then 1 else 0),
               hd_journal_generation = journal_generation, hd_layouts = previous_layouts\<rparr>, shards)))"

definition store_step ::
  "string \<Rightarrow> string \<times> index_shard \<Rightarrow> (string, layout_head) dict \<Rightarrow> disk
     \<Rightarrow> (sync_error + (string, layout_head) dict) \<times> disk" where
  "store_step root = (\<lambda>(layout_id, s) layouts d.
     bindS (write_shard root s d) (\<lambda>l d1. (Inr (AList.update layout_id l layouts), d1)))"

definition previous_loader :: "string \<Rightarrow> disk \<Rightarrow> shard_loader" where
  "previous_loader root d = (\<lambda>layout_id l. bindE (load_shard root d layout_id l) (\<lambda>s. Inr (Some s)))"

text \<open>The shards first, then the \<open>HEAD\<close> that names them.\<close>

definition publish_built ::
  "string \<Rightarrow> index_head \<Rightarrow> (string, index_shard) dict \<Rightarrow> disk \<Rightarrow> (sync_error + index_head) \<times> disk" where
  "publish_built root h shards d =
     bindS (foldS (store_step root) shards (hd_layouts h) d) (\<lambda>layouts d1.
     let published = h\<lparr>hd_layouts := layouts\<rparr>
     in bindS (write_head root published True d1) (\<lambda>_ d2. (Inr published, d2)))"

definition publish_full_sync_index ::
  "string \<Rightarrow> string option \<Rightarrow> string \<Rightarrow> int \<Rightarrow> (string, index_group list) dict \<Rightarrow> disk
     \<Rightarrow> (sync_error + index_head option) \<times> disk" where
  "publish_full_sync_index root hint new_id journal_generation layout_groups d =
     bindS (load_head_safe root d, d) (\<lambda>previous d.
     bindS (build_index previous hint new_id journal_generation layout_groups (previous_loader root d), d) (\<lambda>(h, shards) d.
     let stale = (case previous of None \<Rightarrow> False | Some p \<Rightarrow> hd_journal_generation p \<noteq> journal_generation)
     in if shards = [] \<and> \<not> stale \<and> previous \<noteq> None then (Inr None, d)
        else bindS (publish_built root h shards d) (\<lambda>h d1. (Inr (Some h), d1))))"

definition verify_step :: "string \<Rightarrow> disk \<Rightarrow> string \<times> layout_head \<Rightarrow> unit \<Rightarrow> sync_error + unit" where
  "verify_step root d = (\<lambda>(layout_id, l) _. bindE (load_shard root d layout_id l) (\<lambda>_. Inr ()))"

definition publish_authoritative_index ::
  "string \<Rightarrow> string option \<Rightarrow> string \<Rightarrow> int \<Rightarrow> (string, index_group list) dict \<Rightarrow> string \<Rightarrow> string \<Rightarrow> disk
     \<Rightarrow> (sync_error + index_head) \<times> disk" where
  "publish_authoritative_index root hint new_id journal_generation layout_groups device established_at d =
     bindS (load_head_safe root d, d) (\<lambda>previous d.
     bindS (build_index previous hint new_id journal_generation layout_groups (previous_loader root d), d) (\<lambda>(h, shards) d.
     bindS (publish_built root h shards d) (\<lambda>_ d.
     bindS (load_head_strict root d, d) (\<lambda>verified d.
     bindS (foldE (verify_step root d) (hd_layouts verified) (), d) (\<lambda>_ d.
     bindS (write_ownership root
              \<lparr>om_schema = JInt INDEX_SCHEMA, om_protocol = PROTOCOL_VERSION, om_dataset = hd_dataset verified,
               om_established_at = established_at, om_established_by = device\<rparr> d) (\<lambda>_ d.
     (Inr verified, d)))))))"

subsection \<open>Committing groups onto the current HEAD\<close>

definition add_to_layout ::
  "index_group \<Rightarrow> (string, index_group list) dict \<Rightarrow> (string, index_group list) dict" where
  "add_to_layout g by_layout =
     AList.update (ig_layout g) ((case map_of by_layout (ig_layout g) of None \<Rightarrow> [] | Some gs \<Rightarrow> gs) @ [g]) by_layout"

definition by_layout :: "index_group list \<Rightarrow> (string, index_group list) dict" where
  "by_layout gs = fold add_to_layout gs []"

definition overlay_group ::
  "string \<Rightarrow> string \<Rightarrow> index_group \<Rightarrow> (string, index_group) dict \<Rightarrow> (string, index_group) dict" where
  "overlay_group operation_id device g existing =
     AList.update (ig_id g)
       (g\<lparr>ig_generation := (case map_of existing (ig_id g) of Some p \<Rightarrow> ig_generation p + 1 | None \<Rightarrow> 1),
          ig_origin := device, ig_transaction := Some operation_id\<rparr>) existing"

definition groups_by_id :: "index_shard \<Rightarrow> (string, index_group) dict" where
  "groups_by_id s = dict_of (map (\<lambda>g. (ig_id g, g)) (sh_groups s))"

definition existing_groups ::
  "string \<Rightarrow> disk \<Rightarrow> string \<Rightarrow> layout_head option \<Rightarrow> sync_error + (string, index_group) dict" where
  "existing_groups root d layout_id previous =
     (case previous of
        None \<Rightarrow> Inr []
      | Some l \<Rightarrow>
          (case load_shard root d layout_id l of
             Inl (SaveSyncError m) \<Rightarrow> Inr []
           | Inl e \<Rightarrow> Inl e
           | Inr s \<Rightarrow> Inr (groups_by_id s)))"

definition next_shard ::
  "string \<Rightarrow> string \<Rightarrow> string \<Rightarrow> string \<Rightarrow> layout_head option \<Rightarrow> (string, index_group) dict \<Rightarrow> index_group list
     \<Rightarrow> index_shard" where
  "next_shard dataset operation_id device layout_id previous existing groups =
     \<lparr>sh_schema = JInt INDEX_SCHEMA, sh_dataset = dataset, sh_layout = layout_id,
      sh_generation = (case previous of Some l \<Rightarrow> lh_generation l + 1 | None \<Rightarrow> 1),
      sh_groups = sort_key ig_id (map snd (fold (overlay_group operation_id device) groups existing))\<rparr>"

definition update_step ::
  "string \<Rightarrow> string \<Rightarrow> string \<Rightarrow> string \<Rightarrow> string \<times> index_group list \<Rightarrow> (string, layout_head) dict \<Rightarrow> disk
     \<Rightarrow> (sync_error + (string, layout_head) dict) \<times> disk" where
  "update_step root dataset operation_id device = (\<lambda>(layout_id, groups) layouts d.
     bindS (existing_groups root d layout_id (map_of layouts layout_id), d) (\<lambda>existing d.
     bindS (write_shard root
              (next_shard dataset operation_id device layout_id (map_of layouts layout_id) existing groups) d) (\<lambda>l d1.
     (Inr (AList.update layout_id l layouts), d1))))"

definition publish_group_updates ::
  "string \<Rightarrow> string option \<Rightarrow> string \<Rightarrow> int \<Rightarrow> index_group list \<Rightarrow> string \<Rightarrow> string \<Rightarrow> disk
     \<Rightarrow> (sync_error + index_head) \<times> disk" where
  "publish_group_updates root hint new_id journal_generation updated operation_id device d =
     bindS (load_head_safe root d, d) (\<lambda>previous d.
     let dataset = first_text (map_option hd_dataset previous) hint new_id
     in bindS (foldS (update_step root dataset operation_id device) (by_layout updated)
                 (case previous of None \<Rightarrow> [] | Some h \<Rightarrow> hd_layouts h) d) (\<lambda>layouts d.
        let h = \<lparr>hd_schema = JInt INDEX_SCHEMA, hd_dataset = dataset,
              hd_index_generation = (case previous of Some p \<Rightarrow> hd_index_generation p + 1 | None \<Rightarrow> 1),
              hd_journal_generation = journal_generation, hd_layouts = layouts\<rparr>
        in bindS (write_head root h True d) (\<lambda>_ d. (Inr h, d))))"

definition update_journal_generation ::
  "string \<Rightarrow> int \<Rightarrow> disk \<Rightarrow> (sync_error + index_head option) \<times> disk" where
  "update_journal_generation root journal_generation d =
     bindS (load_head_safe root d, d) (\<lambda>h d.
     (case h of
        None \<Rightarrow> (Inr None, d)
      | Some h \<Rightarrow>
          if hd_journal_generation h = journal_generation then (Inr (Some h), d)
          else let updated = h\<lparr>hd_journal_generation := journal_generation\<rparr>
               in bindS (write_head root updated False d) (\<lambda>_ d. (Inr (Some updated), d))))"

subsection \<open>Compare and swap\<close>

record group_expectation =
  ge_group :: string
  ge_layout :: string
  ge_generation :: int
  ge_manifest :: string

record cas_conflict =
  cc_group :: string
  cc_layout :: string
  cc_expected_generation :: int
  cc_actual_generation :: int
  cc_expected_manifest :: string
  cc_actual_manifest :: string

definition expectation_of :: "string \<Rightarrow> string \<Rightarrow> index_group option \<Rightarrow> group_expectation" where
  "expectation_of group_id layout_id indexed =
     \<lparr>ge_group = group_id, ge_layout = layout_id,
      ge_generation = (case indexed of Some g \<Rightarrow> ig_generation g | None \<Rightarrow> 0),
      ge_manifest = (case indexed of Some g \<Rightarrow> manifest_hash g | None \<Rightarrow> EMPTY_MANIFEST_HASH)\<rparr>"

type_synonym shard_cache = "(string, (string, index_group) dict) dict"

definition expectation_step ::
  "string \<Rightarrow> disk \<Rightarrow> index_head \<Rightarrow> (string, string) dict \<Rightarrow> string
     \<Rightarrow> (string, group_expectation) dict \<times> shard_cache \<Rightarrow> sync_error + (string, group_expectation) dict \<times> shard_cache" where
  "expectation_step root d h layout_for_group group_id = (\<lambda>(expectations, shards).
     let layout_id = (case map_of layout_for_group group_id of None \<Rightarrow> [] | Some l \<Rightarrow> l)
     in (case (if layout_id = [] then None else map_of (hd_layouts h) layout_id) of
           None \<Rightarrow> Inr (AList.update group_id (expectation_of group_id layout_id None) expectations, shards)
         | Some l \<Rightarrow>
             bindE (case map_of shards layout_id of
                      Some gs \<Rightarrow> Inr shards
                    | None \<Rightarrow> bindE (load_shard root d layout_id l) (\<lambda>s.
                        Inr (AList.update layout_id (groups_by_id s) shards))) (\<lambda>shards.
             Inr (AList.update group_id
                    (expectation_of group_id layout_id (map_of (the (map_of shards layout_id)) group_id)) expectations,
                  shards))))"

definition read_group_expectations ::
  "string \<Rightarrow> disk \<Rightarrow> index_head \<Rightarrow> string list \<Rightarrow> (string, string) dict \<Rightarrow> sync_error + (string, group_expectation) dict" where
  "read_group_expectations root d h group_ids layout_for_group =
     bindE (foldE (expectation_step root d h layout_for_group) (sort (remdups group_ids)) ([], [])) (\<lambda>(expectations, _).
     Inr expectations)"

definition conflict_of :: "string \<Rightarrow> group_expectation \<Rightarrow> group_expectation \<Rightarrow> cas_conflict list" where
  "conflict_of group_id expected actual =
     (if ge_generation actual \<noteq> ge_generation expected \<or> ge_manifest actual \<noteq> ge_manifest expected
      then [\<lparr>cc_group = group_id, cc_layout = ge_layout expected,
             cc_expected_generation = ge_generation expected, cc_actual_generation = ge_generation actual,
             cc_expected_manifest = ge_manifest expected, cc_actual_manifest = ge_manifest actual\<rparr>]
      else [])"

definition validate_group_cas ::
  "string \<Rightarrow> disk \<Rightarrow> index_head \<Rightarrow> (string, group_expectation) dict \<Rightarrow> sync_error + cas_conflict list" where
  "validate_group_cas root d h expectations =
     bindE (read_group_expectations root d h (map fst expectations)
              (map (\<lambda>(g, e). (g, ge_layout e)) expectations)) (\<lambda>current.
     Inr (concat (map (\<lambda>(g, e). conflict_of g e (the (map_of current g))) expectations)))"

record payload_mismatch =
  pm_group :: string
  pm_indexed :: string
  pm_observed :: string

definition verify_index_matches_payload ::
  "(string, group_expectation) dict \<Rightarrow> (string, string) dict \<Rightarrow> payload_mismatch list" where
  "verify_index_matches_payload expectations observed =
     concat (map (\<lambda>(g, e).
       let actual = (case map_of observed g of Some h \<Rightarrow> h | None \<Rightarrow> EMPTY_MANIFEST_HASH)
       in if actual \<noteq> ge_manifest e
          then [\<lparr>pm_group = g, pm_indexed = ge_manifest e, pm_observed = actual\<rparr>] else []) expectations)"

end
