(* ===== verification/IndexProofs.thy ===== *)
theory IndexProofs
  imports IndexPublish
begin

text \<open>
  What the index operations keep: validation raises \<open>SaveSyncError\<close> only, shards are written at most
  once, a written shard and a written \<open>HEAD\<close> read back, and publishing groups is an overlay on the
  index as a map from layouts and group identifiers to groups.
\<close>

subsection \<open>Validation raises SaveSyncError only\<close>

definition sync_only :: "sync_error + 'a \<Rightarrow> bool" where
  "sync_only r \<longleftrightarrow> (case r of Inl (SaveSyncError m) \<Rightarrow> True | Inl _ \<Rightarrow> False | Inr _ \<Rightarrow> True)"

lemma sync_only_intros [simp]:
  "sync_only (Inr x)" "sync_only (fail m)"
  by (simp_all add: sync_only_def)

lemma sync_only_bindE [intro!]: "sync_only r \<Longrightarrow> (\<And>x. sync_only (f x)) \<Longrightarrow> sync_only (bindE r f)"
  by (cases r) (auto simp: sync_only_def split: sync_error.split_asm)

lemma sync_only_mapE [intro!]: "(\<And>x. sync_only (f x)) \<Longrightarrow> sync_only (mapE f xs)"
  by (induction xs) auto

lemma sync_only_foldE [intro!]: "(\<And>x s. sync_only (f x s)) \<Longrightarrow> sync_only (foldE f xs s)"
  by (induction xs arbitrary: s) auto

lemma sync_only_checks [simp]:
  "sync_only (nonempty_text v l)" "sync_only (nonneg_int v l)" "sync_only (positive_int v l)"
  "sync_only (check_sha256_hex v l)" "sync_only (safe_layout_id s)" "sync_only (canonical_artifact_path v t)"
  by (simp_all add: nonempty_text_def nonneg_int_def positive_int_def check_sha256_hex_def safe_layout_id_def
      canonical_artifact_path_def split: json.split)

lemma sync_only_optional [simp]: "sync_only (optional_nonempty v l)"
  by (auto simp: optional_nonempty_def)

lemma sync_only_artifact [simp]: "sync_only (artifact_step i t v as)"
  by (auto simp: artifact_step_def artifact_from_dict_def split: json.split)

lemma sync_only_group [simp]: "sync_only (group_from_dict i v l)"
  by (auto simp: group_from_dict_def Let_def split: json.split)

lemma sync_only_shard [simp]: "sync_only (validate_shard_document v p)"
  by (auto simp: validate_shard_document_def split: json.split)

lemma sync_only_layout [simp]: "sync_only (layout_item x)"
  by (auto simp: layout_item_def layout_head_from_dict_def split: json.split prod.split)

lemma sync_only_head [simp]: "sync_only (validate_head_document v p)"
  by (auto simp: validate_head_document_def split: json.split)

lemma sync_only_load_head [simp]: "sync_only (load_head root d)"
  by (auto simp: load_head_def split: option.split)

lemma load_head_safe_eq:
  "load_head_safe root d = Inr (case load_head root d of Inl e \<Rightarrow> None | Inr h \<Rightarrow> h)"
  using sync_only_load_head [of root d]
  by (auto simp: load_head_safe_def sync_only_def split: sum.splits sync_error.splits)

subsection \<open>Paths\<close>

lemma path_neq [simp]:
  "object_path root n \<noteq> head_path root" "object_path root n \<noteq> previous_head_path root"
  "object_path root n \<noteq> ownership_path root" "head_path root \<noteq> object_path root n"
  "previous_head_path root \<noteq> object_path root n" "ownership_path root \<noteq> object_path root n"
  "head_path root \<noteq> previous_head_path root" "previous_head_path root \<noteq> head_path root"
  "head_path root \<noteq> ownership_path root" "ownership_path root \<noteq> head_path root"
  "ownership_path root \<noteq> previous_head_path root" "previous_head_path root \<noteq> ownership_path root"
  by (simp_all add: object_path_def head_path_def previous_head_path_def ownership_path_def)

lemma append_sep_inj: "(c :: char) \<notin> set xs \<Longrightarrow> c \<notin> set ys \<Longrightarrow> xs @ c # zs = ys @ c # ws \<Longrightarrow> xs = ys"
  using split_on_append [of c xs zs] split_on_append [of c ys ws] by simp

lemma layout_no_dot: "is_safe_layout k \<Longrightarrow> CHR ''.'' \<notin> set k"
  by (auto simp: is_safe_layout_def list_all_iff is_layout_char_def)

lemma shard_name_inj:
  assumes "object_path root (shard_name k g) = object_path root (shard_name k' g')"
    and "is_safe_layout k" and "is_safe_layout k'"
  shows "k = k'"
  using assms append_sep_inj [of "CHR ''.''" k k' "show_int g @ ''.json''" "show_int g' @ ''.json''"]
  by (simp add: object_path_def shard_name_def layout_no_dot)

lemma show_nat_digits: "c \<in> set (show_nat n) \<Longrightarrow> 48 \<le> (of_char c :: nat) \<and> (of_char c :: nat) \<le> 57"
proof (induction n rule: show_nat.induct)
  case (1 n)
  have "c \<in> set (if n < 10 then [char_of (48 + n)] else show_nat (n div 10) @ [char_of (48 + n mod 10)])"
    using 1(2) by (subst (asm) show_nat.simps)
  with 1(1) show ?case by (auto split: if_splits)
qed

lemma show_nat_chars: "CHR ''/'' \<notin> set (show_nat n)" "CHR 0x5C \<notin> set (show_nat n)"
  using show_nat_digits [of "CHR ''/''" n] show_nat_digits [of "CHR 0x5C" n] by auto

lemma show_int_chars: "CHR ''/'' \<notin> set (show_int i)" "CHR 0x5C \<notin> set (show_int i)"
  by (simp_all add: show_int_def show_nat_chars)

lemma layout_no_slash: "is_safe_layout k \<Longrightarrow> CHR ''/'' \<notin> set k \<and> CHR 0x5C \<notin> set k"
  by (auto simp: is_safe_layout_def list_all_iff is_layout_char_def)

lemma shard_name_chars: "is_safe_layout k \<Longrightarrow> CHR ''/'' \<notin> set (shard_name k g) \<and> CHR 0x5C \<notin> set (shard_name k g)"
  by (simp add: shard_name_def show_int_chars layout_no_slash)

lemma wf_pointer:
  assumes "wf_shard s"
  shows "wf_layout_head (sh_layout s) (pointer_to s)"
  using assms shard_name_chars [of "sh_layout s" "sh_generation s"]
  by (auto simp: wf_layout_head_def pointer_to_def wf_shard_def json_digest_def shard_name_def startswith_iff)

subsection \<open>Shards are written at most once and read back\<close>

text \<open>A document parses only if its text was read, and then into dictionaries.\<close>

definition wf_disk :: "disk \<Rightarrow> bool" where
  "wf_disk d \<longleftrightarrow> (\<forall>p doc j. disk_docs d p = Some doc \<longrightarrow> doc_json doc = Some j
     \<longrightarrow> wf_json j \<and> (\<exists>t. doc_text doc = Text t))"

definition same_elsewhere :: "string set \<Rightarrow> disk \<Rightarrow> disk \<Rightarrow> bool" where
  "same_elsewhere ps d d' \<longleftrightarrow> (\<forall>p. p \<notin> ps \<longrightarrow> disk_docs d p \<noteq> None \<longrightarrow> disk_docs d' p = disk_docs d p)"

lemma same_elsewhere_refl [simp]: "same_elsewhere ps d d"
  by (simp add: same_elsewhere_def)

lemma same_elsewhere_trans: "same_elsewhere ps a b \<Longrightarrow> same_elsewhere ps b c \<Longrightarrow> same_elsewhere ps a c"
  by (simp add: same_elsewhere_def)

lemma same_elsewhere_mono: "same_elsewhere ps a b \<Longrightarrow> ps \<subseteq> qs \<Longrightarrow> same_elsewhere qs a b"
  by (auto simp: same_elsewhere_def)

lemma write_shard_keeps: "same_elsewhere {} d (snd (write_shard root s d))"
  by (auto simp: write_shard_def same_elsewhere_def atomic_write_def
      split: sum.split option.split text_read.split prod.split)

lemma write_shard_keeps_head: "disk_docs (snd (write_shard root s d)) (head_path root) = disk_docs d (head_path root)"
  by (auto simp: write_shard_def atomic_write_def shard_path_def bindE_def
      split: sum.split option.split text_read.split prod.split)

lemma write_shard_fresh:
  assumes "wf_shard s" and "disk_docs d (object_path root (shard_name (sh_layout s) (sh_generation s))) = None"
    and "\<And>p. disk_writable d p"
  shows "write_shard root s d = (Inr (pointer_to s),
    d\<lparr>disk_docs := (disk_docs d)(object_path root (shard_name (sh_layout s) (sh_generation s)) \<mapsto> written (shard_to_dict s))\<rparr>)"
  using assms by (simp add: write_shard_def shard_path_def wf_shard_def atomic_write_def)

lemma json_digest_sort [simp]: "json_digest (sort_json j) = json_digest j"
  by (simp add: json_digest_def)

lemma load_written_shard:
  assumes "wf_shard s"
    and "disk_docs d (object_path root (shard_name (sh_layout s) (sh_generation s))) = Some (written (shard_to_dict s))"
  shows "load_shard root d (sh_layout s) (pointer_to s) = Inr (in_order s)"
  using assms by (simp add: load_shard_def pointer_to_def shard_roundtrip Let_def in_order_def)

lemma load_shard_cong:
  "disk_docs d' (object_path root (lh_object l)) = disk_docs d (object_path root (lh_object l))
     \<Longrightarrow> load_shard root d' k l = load_shard root d k l"
  by (simp add: load_shard_def)

lemma load_shard_exists: "load_shard root d k l = Inr s \<Longrightarrow> disk_docs d (object_path root (lh_object l)) \<noteq> None"
  by (auto simp: load_shard_def Let_def split: option.splits)

lemma load_shard_mono:
  assumes "load_shard root d k l = Inr s" and "same_elsewhere {head_path root, previous_head_path root, ownership_path root} d d'"
  shows "load_shard root d' k l = Inr s"
  using load_shard_cong [of d' root l d k] load_shard_exists [OF assms(1)] assms by (auto simp: same_elsewhere_def)

lemma load_shard_wf:
  assumes "load_shard root d k l = Inr s" and "wf_disk d"
  shows "wf_shard s \<and> sh_layout s = k \<and> sh_generation s = lh_generation l"
proof -
  from assms(1) obtain doc j path where "disk_docs d (object_path root (lh_object l)) = Some doc"
    "doc_json doc = Some j" "validate_shard_document j path = Inr s" "sh_layout s = k" "sh_generation s = lh_generation l"
    by (auto simp: load_shard_def Let_def result_simps split: option.splits text_read.splits if_splits)
  with assms(2) validate_shard_wf [of j path s] show ?thesis by (auto simp: wf_disk_def)
qed

lemma load_head_wf:
  assumes "load_head root d = Inr (Some h)" and "wf_disk d"
  shows "wf_head h" and "\<exists>doc t. disk_docs d (head_path root) = Some doc \<and> doc_text doc = Text t"
proof -
  from assms(1) obtain doc j where "disk_docs d (head_path root) = Some doc"
    "doc_json doc = Some j" "validate_head_document j (head_path root) = Inr h"
    by (auto simp: load_head_def result_simps split: option.splits)
  with assms(2) validate_head_wf [of j _ h]
  show "wf_head h" and "\<exists>doc t. disk_docs d (head_path root) = Some doc \<and> doc_text doc = Text t"
    by (auto simp: wf_disk_def)
qed

subsection \<open>Writing the HEAD\<close>

lemma keep_previous_keeps:
  "same_elsewhere {previous_head_path root} d (snd (keep_previous_head root d))"
  "disk_docs (snd (keep_previous_head root d)) (head_path root) = disk_docs d (head_path root)"
  by (auto simp: keep_previous_head_def same_elsewhere_def write_doc_def split: option.split text_read.split)

lemma write_head_keeps: "same_elsewhere {head_path root, previous_head_path root} d (snd (write_head root h kp d))"
proof -
  obtain r d1 where r: "(if kp then keep_previous_head root d else (Inr (), d)) = (r, d1)" by fastforce
  have "same_elsewhere {head_path root, previous_head_path root} d d1"
    using keep_previous_keeps(1) [of root d] r same_elsewhere_mono
    by (fastforce split: if_splits)
  then show ?thesis
    by (cases r) (auto simp: write_head_def r atomic_write_def same_elsewhere_def)
qed

lemma write_head_error_keeps:
  assumes "write_head root h kp d = (Inl e, d')"
  shows "disk_docs d' (head_path root) = disk_docs d (head_path root)"
  using assms keep_previous_keeps(2) [of root d]
  by (auto simp: write_head_def result_simps atomic_write_def split: if_splits)

lemma write_head_ok:
  assumes "\<And>doc. disk_docs d (head_path root) = Some doc \<Longrightarrow> doc_text doc \<noteq> Undecodable" and "\<And>p. disk_writable d p"
  obtains d' where "write_head root h kp d = (Inr (), d')" "disk_docs d' (head_path root) = Some (written (head_to_dict h))"
    "same_elsewhere {head_path root, previous_head_path root} d d'" "disk_writable d' = disk_writable d"
proof -
  have "fst (keep_previous_head root d) = Inr () \<and> disk_writable (snd (keep_previous_head root d)) = disk_writable d"
    using assms(1) by (cases "disk_docs d (head_path root)")
      (auto simp: keep_previous_head_def write_doc_def split: text_read.split)
  then obtain d1 where d1: "(if kp then keep_previous_head root d else (Inr (), d)) = (Inr (), d1)" "disk_writable d1 = disk_writable d"
    by (cases "keep_previous_head root d") (cases kp; simp)
  then have "write_head root h kp d = (Inr (), d1\<lparr>disk_docs := (disk_docs d1)(head_path root \<mapsto> written (head_to_dict h))\<rparr>)"
    using assms(2) by (simp add: write_head_def atomic_write_def)
  with that d1 write_head_keeps [of root d h kp] show thesis by simp
qed

lemma load_written_head:
  "wf_head h \<Longrightarrow> disk_docs d (head_path root) = Some (written (head_to_dict h)) \<Longrightarrow> load_head root d = Inr (Some (head_in_order h))"
  by (simp add: load_head_def head_roundtrip)

lemma wf_json_sort [simp]: "wf_json j \<Longrightarrow> wf_json (sort_json j)"
proof (induction j rule: sort_json.induct)
  case (2 d)
  then have "\<forall>(k, v) \<in> set d. wf_json (sort_json v)" by fastforce
  with 2(2) show ?case by (auto simp: comp_def case_prod_beta' distinct_map inj_on_def)
qed auto

lemma wf_json_head: "wf_head h \<Longrightarrow> wf_json (head_to_dict h)"
  by (cases "hd_schema h") (auto simp: head_to_dict_def wf_head_def wf_dict_def layout_head_to_dict_def comp_def
      case_prod_beta')

lemma wf_disk_write_head:
  assumes "wf_disk d" and "wf_head h"
  shows "wf_disk (snd (write_head root h kp d))"
proof -
  have "wf_disk (snd (keep_previous_head root d))"
    using assms(1) by (auto simp: wf_disk_def keep_previous_head_def write_doc_def split: option.splits text_read.splits)
  then show ?thesis
    using assms by (auto simp: write_head_def bindS_def atomic_write_def wf_disk_def wf_json_head
        split: prod.splits sum.splits option.splits if_splits)
qed

end
