(* ===== verification/IndexCommit.thy ===== *)
theory IndexCommit
  imports IndexProofs "HOL-Library.Multiset"
begin

text \<open>
  Committing groups as an overlay: the index seen as a map from layouts and group identifiers to
  groups, on which publishing a batch of groups replaces exactly those groups.
\<close>

subsection \<open>The abstract index\<close>

type_synonym index_view = "string \<Rightarrow> string \<rightharpoonup> index_group"

definition layout_view :: "string \<Rightarrow> disk \<Rightarrow> string \<Rightarrow> layout_head option \<Rightarrow> string \<rightharpoonup> index_group" where
  "layout_view root d k pointer =
     (case pointer of
        None \<Rightarrow> Map.empty
      | Some l \<Rightarrow> (case load_shard root d k l of Inl e \<Rightarrow> Map.empty | Inr s \<Rightarrow> map_of (groups_by_id s)))"

definition index_view :: "string \<Rightarrow> disk \<Rightarrow> index_head \<Rightarrow> index_view" where
  "index_view root d h k = layout_view root d k (map_of (hd_layouts h) k)"

definition stamp :: "string \<Rightarrow> string \<Rightarrow> index_group option \<Rightarrow> index_group \<Rightarrow> index_group" where
  "stamp operation_id device previous g =
     g\<lparr>ig_generation := (case previous of Some p \<Rightarrow> ig_generation p + 1 | None \<Rightarrow> 1),
       ig_origin := device, ig_transaction := Some operation_id\<rparr>"

definition overlay :: "string \<Rightarrow> string \<Rightarrow> index_group \<Rightarrow> (string \<rightharpoonup> index_group) \<Rightarrow> (string \<rightharpoonup> index_group)" where
  "overlay operation_id device g v = v(ig_id g \<mapsto> stamp operation_id device (v (ig_id g)) g)"

definition commit :: "string \<Rightarrow> string \<Rightarrow> index_group \<Rightarrow> index_view \<Rightarrow> index_view" where
  "commit operation_id device g v = v(ig_layout g := overlay operation_id device g (v (ig_layout g)))"

lemma fold_commit:
  "fold (commit op dev) gs v k = fold (overlay op dev) (filter (\<lambda>g. ig_layout g = k) gs) (v k)"
  by (induction gs arbitrary: v) (auto simp: commit_def)

lemma overlay_group_map: "map_of (overlay_group op dev g D) = overlay op dev g (map_of D)"
  by (simp add: overlay_group_def overlay_def stamp_def update_conv')

lemma overlay_groups_map: "map_of (fold (overlay_group op dev) gs D) = fold (overlay op dev) gs (map_of D)"
  by (induction gs arbitrary: D) (simp_all add: overlay_group_map)

subsection \<open>Groups of a shard\<close>

definition keyed :: "string \<Rightarrow> (string, index_group) dict \<Rightarrow> bool" where
  "keyed layout D \<longleftrightarrow> wf_dict D \<and> (\<forall>(i, g) \<in> set D. ig_id g = i \<and> wf_group layout g)"

lemma keyed_Nil [simp]: "keyed layout []"
  by (simp add: keyed_def)

lemma map_of_keyed: "keyed layout D \<Longrightarrow> map_of D i = Some g \<Longrightarrow> ig_id g = i \<and> wf_group layout g"
  by (auto simp: keyed_def dest: map_of_SomeD)

lemma set_update: "set (AList.update k v D) \<subseteq> insert (k, v) (set D)"
  by (induction D) auto

lemma keyed_overlay:
  assumes "keyed layout D" and "wf_group layout g" and "strip op \<noteq> []"
  shows "keyed layout (overlay_group op dev g D)"
proof -
  define g' where "g' = stamp op dev (map_of D (ig_id g)) g"
  have "0 \<le> ig_generation g'"
    using assms(1) map_of_keyed by (fastforce simp: g'_def stamp_def wf_group_def split: option.split)
  then have "wf_group layout g'" "ig_id g' = ig_id g"
    using assms(2,3) by (auto simp: g'_def stamp_def wf_group_def nonblank_opt_def)
  moreover have "overlay_group op dev g D = AList.update (ig_id g) g' D"
    by (simp add: overlay_group_def g'_def stamp_def)
  ultimately show ?thesis
    using assms(1) set_update [of "ig_id g" g' D] by (fastforce simp: keyed_def)
qed

lemma keyed_overlays:
  "keyed layout D \<Longrightarrow> \<forall>g \<in> set gs. wf_group layout g \<Longrightarrow> strip op \<noteq> []
     \<Longrightarrow> keyed layout (fold (overlay_group op dev) gs D)"
  by (induction gs arbitrary: D) (simp_all add: keyed_overlay)

lemma keyed_ids: "keyed layout D \<Longrightarrow> map (\<lambda>(i, g). ig_id g) D = map fst D"
  by (auto simp: keyed_def)

lemma groups_by_id_eq: "distinct (map ig_id (sh_groups s)) \<Longrightarrow> groups_by_id s = map (\<lambda>g. (ig_id g, g)) (sh_groups s)"
  by (simp add: groups_by_id_def dict_of_groups)

lemma keyed_groups_by_id: "wf_shard s \<Longrightarrow> keyed (sh_layout s) (groups_by_id s)"
  by (auto simp: groups_by_id_eq wf_shard_def keyed_def wf_dict_def comp_def)

lemma map_of_keyed_perm:
  assumes "keyed layout D" and "mset gs = mset (map snd D)"
  shows "distinct (map ig_id gs) \<and> map_of (map (\<lambda>g. (ig_id g, g)) gs) = map_of D"
proof -
  have ids: "map ig_id (map snd D) = map fst D"
    using keyed_ids [OF assms(1)] by (simp add: comp_def case_prod_beta')
  have set: "set gs = snd ` set D" using assms(2) by (metis list.set_map mset_eq_setD)
  have "mset (map ig_id gs) = mset (map fst D)"
    using assms(2) ids by (metis mset_map)
  then have dist: "distinct (map ig_id gs)"
    using assms(1) by (metis keyed_def mset_eq_imp_distinct_iff wf_dict_def)
  moreover have "map_of (map (\<lambda>g. (ig_id g, g)) gs) = map_of D"
  proof (rule map_of_inject_set [THEN iffD2])
    show "distinct (map fst (map (\<lambda>g. (ig_id g, g)) gs))" using dist by (simp add: comp_def)
    show "distinct (map fst D)" using assms(1) by (simp add: keyed_def wf_dict_def)
    show "set (map (\<lambda>g. (ig_id g, g)) gs) = set D"
      using assms(1) by (force simp: set keyed_def image_iff)
  qed
  ultimately show ?thesis ..
qed

subsection \<open>The shard an update writes\<close>

lemma by_layout_snoc: "by_layout (gs @ [g]) = add_to_layout g (by_layout gs)"
  by (simp add: by_layout_def)

lemma map_of_by_layout:
  "map_of (by_layout gs) k = (if filter (\<lambda>g. ig_layout g = k) gs = [] then None else Some (filter (\<lambda>g. ig_layout g = k) gs))"
  by (induction gs rule: rev_induct) (auto simp: by_layout_snoc add_to_layout_def update_conv' by_layout_def)

lemma wf_by_layout: "wf_dict (by_layout gs)"
  by (induction gs rule: rev_induct) (simp_all add: by_layout_snoc add_to_layout_def, simp add: by_layout_def)

lemma wf_next_shard:
  assumes "keyed k E" and "\<forall>g \<in> set gs. wf_group k g" and "strip op \<noteq> []" and "strip ds \<noteq> []"
    and "is_safe_layout k" and "case pointer of None \<Rightarrow> True | Some l \<Rightarrow> 1 \<le> lh_generation l"
  shows "wf_shard (next_shard ds op dev k pointer E gs)"
    and "in_order (next_shard ds op dev k pointer E gs) = next_shard ds op dev k pointer E gs"
    and "map_of (groups_by_id (next_shard ds op dev k pointer E gs)) = fold (overlay op dev) gs (map_of E)"
proof -
  define D where "D = fold (overlay_group op dev) gs E"
  have D: "keyed k D" unfolding D_def using assms(1-3) by (rule keyed_overlays)
  define S where "S = next_shard ds op dev k pointer E gs"
  have S: "sh_groups S = sort_key ig_id (map snd D)" "sh_layout S = k" "sh_dataset S = ds" "sh_schema S = JInt INDEX_SCHEMA"
      "sh_generation S = (case pointer of Some l \<Rightarrow> lh_generation l + 1 | None \<Rightarrow> 1)"
    by (simp_all add: S_def D_def next_shard_def)
  note perm = map_of_keyed_perm [OF D, of "sh_groups S"]
  have "\<forall>g \<in> set (sh_groups S). wf_group k g" using D by (auto simp: S keyed_def)
  with perm S assms(4-) show "wf_shard (next_shard ds op dev k pointer E gs)"
    unfolding S_def [symmetric] by (auto simp: wf_shard_def split: option.splits)
  show "in_order (next_shard ds op dev k pointer E gs) = next_shard ds op dev k pointer E gs"
    unfolding S_def [symmetric] by (rule in_order_sorted) (simp add: S)
  show "map_of (groups_by_id (next_shard ds op dev k pointer E gs)) = fold (overlay op dev) gs (map_of E)"
    unfolding S_def [symmetric] overlay_groups_map [symmetric] D_def [symmetric]
    using perm by (simp add: groups_by_id_eq S)
qed


subsection \<open>The loop over layouts\<close>

text \<open>What the loop finds for each layout: no pointer, or a shard that loads.\<close>

definition loads_all :: "string \<Rightarrow> disk \<Rightarrow> (string, layout_head) dict \<Rightarrow> bool" where
  "loads_all root d layouts \<longleftrightarrow>
     (\<forall>k. case map_of layouts k of None \<Rightarrow> True | Some l \<Rightarrow> \<not> isl (load_shard root d k l))"

lemma loads_allD:
  assumes "loads_all root d layouts" and "map_of layouts k = Some l"
  obtains s where "load_shard root d k l = Inr s"
proof -
  have "\<not> isl (load_shard root d k l)"
    using spec [OF assms(1) [unfolded loads_all_def], of k] assms(2) by simp
  with that show thesis by (cases "load_shard root d k l") auto
qed

definition found :: "string \<Rightarrow> disk \<Rightarrow> string \<Rightarrow> layout_head option \<Rightarrow> (string, index_group) dict" where
  "found root d k pointer =
     (case pointer of None \<Rightarrow> [] | Some l \<Rightarrow> (case load_shard root d k l of Inl e \<Rightarrow> [] | Inr s \<Rightarrow> groups_by_id s))"

definition next_generation :: "layout_head option \<Rightarrow> int" where
  "next_generation pointer = (case pointer of Some l \<Rightarrow> lh_generation l + 1 | None \<Rightarrow> 1)"

definition next_path :: "string \<Rightarrow> string \<Rightarrow> layout_head option \<Rightarrow> string" where
  "next_path root k pointer = object_path root (shard_name k (next_generation pointer))"

lemma existing_found:
  "loads_all root d layouts \<Longrightarrow>
     existing_groups root d k (map_of layouts k) = Inr (found root d k (map_of layouts k))"
  by (auto simp: loads_all_def existing_groups_def found_def split: option.splits sum.splits
      elim!: allE [of _ k])

lemma map_of_found: "map_of (found root d k p) = layout_view root d k p"
  by (simp add: found_def layout_view_def split: option.split sum.split)

lemma keyed_found:
  assumes "wf_disk d"
  shows "keyed k (found root d k p)"
  using assms load_shard_wf keyed_groups_by_id
  by (fastforce simp: found_def split: option.split sum.split)

definition usable :: "string \<Rightarrow> disk \<Rightarrow> (string, layout_head) dict \<Rightarrow> (string \<times> index_group list) list \<Rightarrow> bool" where
  "usable root d layouts L \<longleftrightarrow> distinct (map fst L) \<and> wf_disk d \<and> (\<forall>p. disk_writable d p) \<and> loads_all root d layouts
     \<and> (\<forall>(k, l) \<in> set layouts. 1 \<le> lh_generation l) \<and> wf_dict layouts
     \<and> (\<forall>(k, gs) \<in> set L. is_safe_layout k \<and> (\<forall>g \<in> set gs. wf_group k g)
          \<and> disk_docs d (next_path root k (map_of layouts k)) = None)"

lemma wf_json_opt [simp]: "wf_json (opt_json v)"
  by (simp add: opt_json_def split: option.split)

lemma wf_json_group: "wf_json (group_to_dict g)"
  by (simp add: group_to_dict_def artifact_to_dict_def)

lemma wf_json_shard:
  assumes "wf_shard s"
  shows "wf_json (shard_to_dict s)"
proof -
  have "wf_json (sh_schema s)" using assms by (cases "sh_schema s") (auto simp: wf_shard_def)
  moreover have "distinct (map ig_id (sh_groups s))" using assms by (simp add: wf_shard_def)
  ultimately show ?thesis
    by (auto simp: shard_to_dict_def dict_of_groups comp_def wf_json_group)
qed

lemma wf_disk_shard: "wf_disk d \<Longrightarrow> wf_shard s \<Longrightarrow> wf_disk (d\<lparr>disk_docs := (disk_docs d)(p \<mapsto> written (shard_to_dict s))\<rparr>)"
  by (auto simp: wf_disk_def wf_json_shard)

lemma next_shard_fields [simp]:
  "sh_layout (next_shard ds op dev k p E gs) = k" "sh_generation (next_shard ds op dev k p E gs) = next_generation p"
  by (simp_all add: next_shard_def next_generation_def)

lemma one_update:
  fixes dev :: string
  assumes "usable root d layouts ((k, gs) # L)" and "strip op \<noteq> []" and "strip ds \<noteq> []"
  defines "S \<equiv> next_shard ds op dev k (map_of layouts k) (found root d k (map_of layouts k)) gs"
  defines "d1 \<equiv> d\<lparr>disk_docs := (disk_docs d)(next_path root k (map_of layouts k) \<mapsto> written (shard_to_dict S))\<rparr>"
  shows "update_step root ds op dev (k, gs) layouts d = (Inr (AList.update k (pointer_to S) layouts), d1)"
    and "usable root d1 (AList.update k (pointer_to S) layouts) L"
    and "layout_view root d1 k (Some (pointer_to S)) = fold (overlay op dev) gs (layout_view root d k (map_of layouts k))"
    and "same_elsewhere {} d d1"
    and "disk_docs d1 (head_path root) = disk_docs d (head_path root)"
    and "wf_layout_head k (pointer_to S)"
proof -
  from assms(1) have u: "wf_disk d" "\<And>p. disk_writable d p" "loads_all root d layouts" "is_safe_layout k"
      "\<forall>g \<in> set gs. wf_group k g" "disk_docs d (next_path root k (map_of layouts k)) = None"
      "\<forall>(k, l) \<in> set layouts. 1 \<le> lh_generation l" "wf_dict layouts" "k \<notin> fst ` set L"
    by (auto simp: usable_def)
  have gen: "case map_of layouts k of None \<Rightarrow> True | Some l \<Rightarrow> 1 \<le> lh_generation l"
    using u(7) by (auto split: option.split dest: map_of_SomeD)
  note S = wf_next_shard [OF keyed_found [OF u(1), where root = root and p = "map_of layouts k"] u(5) assms(2,3) u(4) gen, where dev = dev, folded S_def]
  have "write_shard root S d = (Inr (pointer_to S), d1)"
    using write_shard_fresh [of S d root] S(1) u(2,6) by (simp add: S_def d1_def next_path_def)
  then show "update_step root ds op dev (k, gs) layouts d = (Inr (AList.update k (pointer_to S) layouts), d1)"
    using existing_found [OF u(3)] by (simp add: update_step_def S_def)
  show same: "same_elsewhere {} d d1"
    using u(6) by (auto simp: same_elsewhere_def d1_def)
  show "disk_docs d1 (head_path root) = disk_docs d (head_path root)"
    by (simp add: d1_def next_path_def)
  show wfp: "wf_layout_head k (pointer_to S)"
    using wf_pointer [OF S(1)] by (simp add: S_def)
  have load: "load_shard root d1 k (pointer_to S) = Inr S"
    using load_written_shard [OF S(1), of d1 root] S(2) by (simp add: d1_def S_def next_path_def)
  then show "layout_view root d1 k (Some (pointer_to S)) = fold (overlay op dev) gs (layout_view root d k (map_of layouts k))"
    using S(3) by (simp add: layout_view_def [of _ d1] map_of_found)
  have "loads_all root d1 (AList.update k (pointer_to S) layouts)"
  proof -
    have "\<not> isl (load_shard root d1 k' l)" if l: "map_of layouts k' = Some l" for k' l
    proof -
      obtain s where "load_shard root d k' l = Inr s"
        using u(3) l by (rule loads_allD)
      then have "load_shard root d1 k' l = Inr s"
        by (rule load_shard_mono) (rule same_elsewhere_mono [OF same], simp)
      then show ?thesis by simp
    qed
    with load show ?thesis by (auto simp: loads_all_def update_conv' split: option.split)
  qed
  moreover have "is_safe_layout k' \<and> (\<forall>g \<in> set gs'. wf_group k' g)
      \<and> disk_docs d1 (next_path root k' (map_of (AList.update k (pointer_to S) layouts) k')) = None"
    if "(k', gs') \<in> set L" for k' gs'
  proof -
    have "k' \<noteq> k" using that u(9) by force
    moreover have "is_safe_layout k'" "disk_docs d (next_path root k' (map_of layouts k')) = None" "\<forall>g \<in> set gs'. wf_group k' g"
      using assms(1) that by (auto simp: usable_def)
    ultimately show ?thesis
      using shard_name_inj [of root k' _ k] u(4) by (auto simp: d1_def next_path_def update_conv')
  qed
  moreover have "\<forall>(k, l) \<in> set (AList.update k (pointer_to S) layouts). 1 \<le> lh_generation l"
    using set_update [of k "pointer_to S" layouts] wfp u(7) by (fastforce simp: wf_layout_head_def)
  moreover have "wf_disk d1" "\<forall>p. disk_writable d1 p" "distinct (map fst L)"
    using wf_disk_shard [OF u(1) S(1), folded d1_def] u(2) assms(1) by (simp_all add: d1_def usable_def)
  ultimately show "usable root d1 (AList.update k (pointer_to S) layouts) L"
    using u(8) by (auto simp: usable_def)
qed

lemma loads_view:
  assumes "loads_all root d layouts" and "same_elsewhere {head_path root, previous_head_path root} d d'"
  shows "layout_view root d' k (map_of layouts k) = layout_view root d k (map_of layouts k)"
proof (cases "map_of layouts k")
  case (Some l)
  then obtain s where "load_shard root d k l = Inr s"
    using assms(1) by (blast elim: loads_allD)
  with load_shard_mono [OF this same_elsewhere_mono [OF assms(2)]] Some show ?thesis
    by (simp add: layout_view_def)
qed (simp add: layout_view_def)

lemma update_loop:
  assumes "usable root d layouts L" and "strip op \<noteq> []" and "strip ds \<noteq> []"
    and "\<forall>(k, l) \<in> set layouts. wf_layout_head k l"
  shows "\<exists>layouts' d'. foldS (update_step root ds op dev) L layouts d = (Inr layouts', d')
     \<and> usable root d' layouts' [] \<and> same_elsewhere {} d d' \<and> disk_docs d' (head_path root) = disk_docs d (head_path root)
     \<and> (\<forall>(k, l) \<in> set layouts'. wf_layout_head k l)
     \<and> (\<forall>k. map_of L k = None \<longrightarrow> map_of layouts' k = map_of layouts k)
     \<and> (\<forall>k. layout_view root d' k (map_of layouts' k) =
          (case map_of L k of None \<Rightarrow> layout_view root d k (map_of layouts k)
           | Some gs \<Rightarrow> fold (overlay op dev) gs (layout_view root d k (map_of layouts k))))"
  using assms
proof (induction L arbitrary: layouts d)
  case (Cons x L)
  obtain k gs where x: "x = (k, gs)" by (cases x)
  define S where "S = next_shard ds op dev k (map_of layouts k) (found root d k (map_of layouts k)) gs"
  define d1 where "d1 = d\<lparr>disk_docs := (disk_docs d)(next_path root k (map_of layouts k) \<mapsto> written (shard_to_dict S))\<rparr>"
  let ?ls = "AList.update k (pointer_to S) layouts"
  note one = one_update [OF Cons.prems(1) [unfolded x] Cons.prems(2,3), where dev = dev, folded S_def, folded d1_def]
  have "\<forall>(k, l) \<in> set ?ls. wf_layout_head k l"
    using Cons.prems(4) one(6) set_update [of k "pointer_to S" layouts] by fastforce
  from Cons.IH [OF one(2) Cons.prems(2,3) this] obtain layouts' d' where IH:
    "foldS (update_step root ds op dev) L ?ls d1 = (Inr layouts', d')" "usable root d' layouts' []"
    "same_elsewhere {} d1 d'" "disk_docs d' (head_path root) = disk_docs d1 (head_path root)"
    "\<forall>(k, l) \<in> set layouts'. wf_layout_head k l"
    "\<And>j. map_of L j = None \<Longrightarrow> map_of layouts' j = map_of ?ls j"
    "\<And>j. layout_view root d' j (map_of layouts' j) =
       (case map_of L j of None \<Rightarrow> layout_view root d1 j (map_of ?ls j)
        | Some gs \<Rightarrow> fold (overlay op dev) gs (layout_view root d1 j (map_of ?ls j)))"
    by blast
  have k: "map_of L k = None"
    using Cons.prems(1) by (auto simp: usable_def x map_of_eq_None_iff)
  have other: "layout_view root d1 j (map_of ?ls j) = layout_view root d j (map_of layouts j)" if "j \<noteq> k" for j
    using loads_view [of root d layouts d1 j] Cons.prems(1) one(4) that
    by (auto simp: usable_def update_conv' same_elsewhere_def)
  show ?case
  proof (intro exI conjI)
    show "foldS (update_step root ds op dev) (x # L) layouts d = (Inr layouts', d')"
      using one(1) IH(1) by (simp add: x)
    show "\<forall>j. layout_view root d' j (map_of layouts' j) =
        (case map_of (x # L) j of None \<Rightarrow> layout_view root d j (map_of layouts j)
         | Some gs \<Rightarrow> fold (overlay op dev) gs (layout_view root d j (map_of layouts j)))"
      using IH(7) one(3) other k by (auto simp: x update_conv' split: option.split)
    show "\<forall>j. map_of (x # L) j = None \<longrightarrow> map_of layouts' j = map_of layouts j"
      using IH(6) by (auto simp: x update_conv')
  qed (use IH one same_elsewhere_trans in \<open>auto simp: x\<close>)
qed (auto simp: usable_def)


subsection \<open>Publishing groups\<close>

definition readable :: "string \<Rightarrow> disk \<Rightarrow> index_head \<Rightarrow> bool" where
  "readable root d h \<longleftrightarrow> load_head root d = Inr (Some h) \<and> loads_all root d (hd_layouts h) \<and> wf_disk d"

definition publishable :: "string \<Rightarrow> disk \<Rightarrow> index_head \<Rightarrow> index_group list \<Rightarrow> string \<Rightarrow> int \<Rightarrow> bool" where
  "publishable root d h gs op generation \<longleftrightarrow> readable root d h \<and> (\<forall>p. disk_writable d p)
     \<and> (\<forall>g \<in> set gs. is_safe_layout (ig_layout g) \<and> wf_group (ig_layout g) g
          \<and> disk_docs d (next_path root (ig_layout g) (map_of (hd_layouts h) (ig_layout g))) = None)
     \<and> strip op \<noteq> [] \<and> 0 \<le> generation"

lemma readable_wf: "readable root d h \<Longrightarrow> wf_head h"
  using load_head_wf(1) by (auto simp: readable_def)

lemma usable_by_layout:
  assumes "publishable root d h gs op generation"
  shows "usable root d (hd_layouts h) (by_layout gs)"
proof -
  have mem: "is_safe_layout k \<and> (\<forall>g \<in> set fs. wf_group k g) \<and> disk_docs d (next_path root k (map_of (hd_layouts h) k)) = None"
    if "(k, fs) \<in> set (by_layout gs)" for k fs
  proof -
    have "map_of (by_layout gs) k = Some fs"
      using that wf_by_layout [of gs] by (simp add: wf_dict_def)
    then have fs: "fs = filter (\<lambda>g. ig_layout g = k) gs" "fs \<noteq> []"
      by (auto simp: map_of_by_layout split: if_splits)
    then obtain g where "g \<in> set gs" "ig_layout g = k" by (auto simp: filter_empty_conv)
    with assms fs(1) show ?thesis by (auto simp: publishable_def)
  qed
  have "wf_head h" using assms readable_wf by (auto simp: publishable_def)
  with assms wf_by_layout [of gs] mem show ?thesis
    by (fastforce simp: usable_def publishable_def readable_def wf_dict_def wf_head_def wf_layout_head_def)
qed

lemma map_of_head_in_order [simp]: "wf_dict (hd_layouts h) \<Longrightarrow> map_of (hd_layouts (head_in_order h)) = map_of (hd_layouts h)"
  by (simp add: head_in_order_def map_of_sort_key_fst wf_dict_def)

lemma loads_all_cong: "map_of ls = map_of ms \<Longrightarrow> loads_all root d ls = loads_all root d ms"
  by (simp add: loads_all_def)

lemma loads_all_mono:
  assumes "loads_all root d ls" and "same_elsewhere {head_path root, previous_head_path root} d d'"
  shows "loads_all root d' ls"
proof -
  have "\<not> isl (load_shard root d' k l)" if l: "map_of ls k = Some l" for k l
  proof -
    obtain s where "load_shard root d k l = Inr s" using assms(1) l by (rule loads_allD)
    then have "load_shard root d' k l = Inr s"
      by (rule load_shard_mono) (rule same_elsewhere_mono [OF assms(2)], simp)
    then show ?thesis by simp
  qed
  then show ?thesis by (auto simp: loads_all_def split: option.split)
qed

lemma first_text_head: "x \<noteq> [] \<Longrightarrow> first_text (Some x) b c = x"
  by (cases x) (simp_all add: first_text_def)

lemma publish_groups:
  assumes "publishable root d h gs op generation"
  shows "\<exists>h' d'. publish_group_updates root hint uid generation gs op dev d = (Inr h', d')
     \<and> readable root d' (head_in_order h')
     \<and> hd_dataset h' = hd_dataset h \<and> hd_index_generation h' = hd_index_generation h + 1
     \<and> hd_journal_generation h' = generation
     \<and> (\<forall>k. k \<notin> ig_layout ` set gs \<longrightarrow> map_of (hd_layouts (head_in_order h')) k = map_of (hd_layouts h) k)
     \<and> index_view root d' (head_in_order h') = fold (commit op dev) gs (index_view root d h)
     \<and> same_elsewhere {head_path root, previous_head_path root} d d'"
proof -
  from assms have r: "load_head root d = Inr (Some h)" "loads_all root d (hd_layouts h)" "wf_disk d"
    and w: "\<And>p. disk_writable d p" and op: "strip op \<noteq> []" and g: "0 \<le> generation"
    by (auto simp: publishable_def readable_def)
  have wf: "wf_head h" using r by (intro load_head_wf(1))
  then have ds: "strip (hd_dataset h) \<noteq> []" by (simp add: wf_head_def)
  then have ne: "hd_dataset h \<noteq> []" by (auto simp: strip_def)
  obtain ls d1 where loop: "foldS (update_step root (hd_dataset h) op dev) (by_layout gs) (hd_layouts h) d = (Inr ls, d1)"
    and u: "usable root d1 ls []" and same1: "same_elsewhere {} d d1"
    and head1: "disk_docs d1 (head_path root) = disk_docs d (head_path root)"
    and wfl: "\<forall>(k, l) \<in> set ls. wf_layout_head k l"
    and untouched: "\<And>k. map_of (by_layout gs) k = None \<Longrightarrow> map_of ls k = map_of (hd_layouts h) k"
    and view: "\<And>k. layout_view root d1 k (map_of ls k) =
          (case map_of (by_layout gs) k of None \<Rightarrow> layout_view root d k (map_of (hd_layouts h) k)
           | Some gs \<Rightarrow> fold (overlay op dev) gs (layout_view root d k (map_of (hd_layouts h) k)))"
    using update_loop [OF usable_by_layout [OF assms] op ds, where dev = dev] wf
    by (auto simp: wf_head_def)
  define h' where "h' = \<lparr>hd_schema = JInt INDEX_SCHEMA, hd_dataset = hd_dataset h,
      hd_index_generation = hd_index_generation h + 1, hd_journal_generation = generation, hd_layouts = ls\<rparr>"
  have wfh': "wf_head h'"
    using wf u wfl g by (simp add: wf_head_def h'_def usable_def)
  have dec: "doc_text doc \<noteq> Undecodable" if "disk_docs d1 (head_path root) = Some doc" for doc
    using load_head_wf(2) [OF r(1,3)] that head1 by auto
  obtain d2 where d2: "write_head root h' True d1 = (Inr (), d2)"
    "disk_docs d2 (head_path root) = Some (written (head_to_dict h'))"
    "same_elsewhere {head_path root, previous_head_path root} d1 d2"
    by (rule write_head_ok [of d1 root h' True]) (use dec u in \<open>auto simp: usable_def\<close>)
  have run: "publish_group_updates root hint uid generation gs op dev d = (Inr h', d2)"
    using r(1) loop d2(1) ne
    by (simp add: publish_group_updates_def load_head_safe_eq first_text_head Let_def h'_def [symmetric])
  have lo: "hd_layouts h' = ls" by (simp add: h'_def)
  have m: "map_of (hd_layouts (head_in_order h')) = map_of ls"
    using u by (subst map_of_head_in_order) (auto simp: lo usable_def)
  have v: "index_view root d2 (head_in_order h') k = fold (commit op dev) gs (index_view root d h) k" for k
  proof -
    have "index_view root d2 (head_in_order h') k = layout_view root d1 k (map_of ls k)"
      using loads_view [of root d1 ls d2 k] u d2(3) by (simp add: index_view_def m usable_def)
    also have "\<dots> = fold (overlay op dev) (filter (\<lambda>g. ig_layout g = k) gs) (index_view root d h k)"
      by (simp add: view map_of_by_layout index_view_def)
    finally show ?thesis by (simp add: fold_commit)
  qed
  have "map_of ls k = map_of (hd_layouts h) k" if "k \<notin> ig_layout ` set gs" for k
    using that by (intro untouched) (auto simp: map_of_by_layout filter_empty_conv)
  moreover have "loads_all root d2 (hd_layouts (head_in_order h'))"
    using loads_all_mono [OF _ d2(3)] u m loads_all_cong by (metis usable_def)
  moreover have "same_elsewhere {head_path root, previous_head_path root} d d2"
    using same_elsewhere_trans [OF same_elsewhere_mono [OF same1] d2(3)] by simp
  moreover have "wf_disk d2"
    using wf_disk_write_head [OF _ wfh', of d1 root True] u d2(1) by (simp add: usable_def)
  ultimately show ?thesis
    using run load_written_head [OF wfh' d2(2)] m v by (auto simp: h'_def readable_def)
qed

subsection \<open>A failed publication\<close>

lemma update_step_keeps:
  "same_elsewhere {} d (snd (update_step root ds op dev x ls d))"
  "disk_docs (snd (update_step root ds op dev x ls d)) (head_path root) = disk_docs d (head_path root)"
  using write_shard_keeps write_shard_keeps_head
  by (auto simp: update_step_def bindS_def split: prod.split sum.split; metis snd_conv)+

lemma store_step_keeps:
  "same_elsewhere {} d (snd (store_step root x ls d))"
  "disk_docs (snd (store_step root x ls d)) (head_path root) = disk_docs d (head_path root)"
  using write_shard_keeps write_shard_keeps_head
  by (auto simp: store_step_def bindS_def split: prod.split sum.split; metis snd_conv)+

lemma loop_keeps:
  assumes "\<And>x s d. same_elsewhere {} d (snd (f x s d)) \<and> disk_docs (snd (f x s d)) q = disk_docs d q"
    and "foldS f xs s d = (r, d')"
  shows "same_elsewhere {} d d' \<and> disk_docs d' q = disk_docs d q"
proof -
  have "same_elsewhere {} d (snd (foldS f xs s d)) \<and> disk_docs (snd (foldS f xs s d)) q = disk_docs d q"
    by (rule foldS_keeps [where P = "\<lambda>d d'. same_elsewhere {} d d' \<and> disk_docs d' q = disk_docs d q"])
      (use assms(1) same_elsewhere_trans in auto)
  with assms(2) show ?thesis by simp
qed

lemma write_head_error_all:
  assumes "write_head root h kp d = (Inl e, d')"
  shows "disk_docs d' (head_path root) = disk_docs d (head_path root) \<and> same_elsewhere {previous_head_path root} d d'"
proof -
  have "disk_docs d' (head_path root) = disk_docs d (head_path root)" using assms by (rule write_head_error_keeps)
  moreover have "disk_docs d' p = disk_docs d p"
    if "p \<noteq> head_path root" "p \<noteq> previous_head_path root" "disk_docs d p \<noteq> None" for p
    using write_head_keeps [of root d h kp] assms that by (simp add: same_elsewhere_def)
  ultimately show ?thesis
    unfolding same_elsewhere_def by (metis singletonI)
qed

definition failed_safely :: "string \<Rightarrow> disk \<Rightarrow> disk \<Rightarrow> bool" where
  "failed_safely root d d' \<longleftrightarrow> disk_docs d' (head_path root) = disk_docs d (head_path root)
     \<and> same_elsewhere {previous_head_path root} d d'"

lemma failed_safely_loop:
  assumes "same_elsewhere {} d d1 \<and> disk_docs d1 (head_path root) = disk_docs d (head_path root)"
  shows "failed_safely root d d1"
  using assms same_elsewhere_mono [of "{}" d d1 "{previous_head_path root}"] by (simp add: failed_safely_def)

lemma failed_safely_head:
  assumes "failed_safely root d d1" and "write_head root h kp d1 = (Inl e, d')"
  shows "failed_safely root d d'"
  using write_head_error_all [OF assms(2)] assms(1) same_elsewhere_trans [of "{previous_head_path root}" d d1 d']
  by (simp add: failed_safely_def)

lemma publish_built_fails:
  assumes "publish_built root h shards d = (Inl e, d')"
  shows "failed_safely root d d'"
proof -
  obtain r d1 where r: "foldS (store_step root) shards (hd_layouts h) d = (r, d1)" by fastforce
  have "failed_safely root d d1"
    by (rule failed_safely_loop, rule loop_keeps [OF _ r]) (simp add: store_step_keeps)
  with assms r show ?thesis
    by (cases r) (auto simp: publish_built_def bindS_eq_Inl Let_def intro: failed_safely_head)
qed

lemma publish_groups_fails:
  assumes "publish_group_updates root hint uid generation gs op dev d = (Inl e, d')"
  shows "failed_safely root d d'"
proof -
  define previous where "previous = (case load_head root d of Inl e \<Rightarrow> None | Inr h \<Rightarrow> h)"
  define ds where "ds = first_text (map_option hd_dataset previous) hint uid"
  obtain r d1 where r: "foldS (update_step root ds op dev) (by_layout gs)
      (case previous of None \<Rightarrow> [] | Some h \<Rightarrow> hd_layouts h) d = (r, d1)" by fastforce
  have "failed_safely root d d1"
    by (rule failed_safely_loop, rule loop_keeps [OF _ r]) (simp add: update_step_keeps)
  with assms r show ?thesis
    by (cases r) (auto simp: publish_group_updates_def load_head_safe_eq previous_def [symmetric]
        ds_def [symmetric] bindS_eq_Inl Let_def intro: failed_safely_head)
qed

end
