(* ===== verification/IndexProperties.thy ===== *)
theory IndexProperties
  imports IndexCommit
begin

text \<open>
  The properties of the SaveSync index: round trips, write-once shards, committing groups,
  compare-and-swap, failed publications and ownership; and what happens on damaged inputs.
\<close>

subsection \<open>Reading expectations\<close>

definition layout_for :: "(string, string) dict \<Rightarrow> string \<Rightarrow> string" where
  "layout_for lfg i = (case map_of lfg i of None \<Rightarrow> [] | Some l \<Rightarrow> l)"

definition expected :: "string \<Rightarrow> disk \<Rightarrow> index_head \<Rightarrow> (string, string) dict \<Rightarrow> string \<Rightarrow> group_expectation" where
  "expected root d h lfg i = expectation_of i (layout_for lfg i) (index_view root d h (layout_for lfg i) i)"

definition cache_ok :: "string \<Rightarrow> disk \<Rightarrow> index_head \<Rightarrow> shard_cache \<Rightarrow> bool" where
  "cache_ok root d h C \<longleftrightarrow> (\<forall>k D. map_of C k = Some D \<longrightarrow>
     (\<exists>l s. map_of (hd_layouts h) k = Some l \<and> load_shard root d k l = Inr s \<and> D = groups_by_id s))"

lemma no_empty_layout: "wf_head h \<Longrightarrow> map_of (hd_layouts h) [] = None"
  by (fastforce simp: wf_head_def wf_layout_head_def is_safe_layout_def map_of_eq_None_iff)

lemma expectation_step_ok:
  assumes "readable root d h" and "cache_ok root d h C"
  shows "\<exists>C'. expectation_step root d h lfg i (E, C) = Inr (AList.update i (expected root d h lfg i) E, C')
    \<and> cache_ok root d h C'"
proof (cases "map_of (hd_layouts h) (layout_for lfg i)")
  case None
  then have "index_view root d h (layout_for lfg i) i = None"
    by (simp add: index_view_def layout_view_def)
  with None assms(2) show ?thesis
    by (auto simp: expectation_step_def Let_def layout_for_def [symmetric] expected_def)
next
  case (Some l)
  with no_empty_layout [OF readable_wf [OF assms(1)]] have ne: "layout_for lfg i \<noteq> []" by auto
  obtain s where s: "load_shard root d (layout_for lfg i) l = Inr s"
    using assms(1) Some by (auto simp: readable_def elim: loads_allD)
  have view: "index_view root d h (layout_for lfg i) = map_of (groups_by_id s)"
    by (simp add: index_view_def layout_view_def Some s)
  show ?thesis
  proof (cases "map_of C (layout_for lfg i)")
    case None
    have "cache_ok root d h (AList.update (layout_for lfg i) (groups_by_id s) C)"
      using assms(2) Some s by (auto simp: cache_ok_def update_conv')
    with None ne Some s view show ?thesis
      by (auto simp: expectation_step_def Let_def layout_for_def [symmetric] expected_def update_conv')
  next
    case (Some D)
    with assms(2) \<open>map_of (hd_layouts h) (layout_for lfg i) = Some l\<close> s have "D = groups_by_id s"
      by (fastforce simp: cache_ok_def)
    with Some ne \<open>map_of (hd_layouts h) (layout_for lfg i) = Some l\<close> assms(2) view show ?thesis
      by (auto simp: expectation_step_def Let_def layout_for_def [symmetric] expected_def)
  qed
qed

lemma expectation_loop:
  assumes "readable root d h" and "cache_ok root d h C" and "distinct ids" and "set ids \<inter> fst ` set E = {}"
  shows "\<exists>C'. foldE (expectation_step root d h lfg) ids (E, C) = Inr (E @ map (\<lambda>i. (i, expected root d h lfg i)) ids, C')"
  using assms(2-)
proof (induction ids arbitrary: E C)
  case (Cons i ids)
  obtain C1 where C1: "expectation_step root d h lfg i (E, C) = Inr (AList.update i (expected root d h lfg i) E, C1)"
    "cache_ok root d h C1" using expectation_step_ok [OF assms(1) Cons.prems(1)] by blast
  moreover have "AList.update i (expected root d h lfg i) E = E @ [(i, expected root d h lfg i)]"
    using Cons.prems(3) by (intro update_fresh) auto
  ultimately show ?case
    using Cons.IH [OF C1(2), of "E @ [(i, expected root d h lfg i)]"] Cons.prems by auto
qed simp

lemma read_expectations:
  assumes "readable root d h"
  shows "read_group_expectations root d h ids lfg = Inr (map (\<lambda>i. (i, expected root d h lfg i)) (sort (remdups ids)))"
  using expectation_loop [OF assms, where C = "[]" and E = "[]" and ids = "sort (remdups ids)" and lfg = lfg]
  by (auto simp: read_group_expectations_def cache_ok_def)

lemma layout_for_map:
  "i \<in> set ids \<Longrightarrow> layout_for (map (\<lambda>i. (i, f i)) ids) i = f i"
  by (simp add: layout_for_def map_of_map_restrict)

lemma expected_fields [simp]: "ge_layout (expected root d h lfg i) = layout_for lfg i"
  by (simp add: expected_def expectation_of_def)

lemma validate_cas:
  assumes "readable root d' h'" and "distinct ids"
  shows "validate_group_cas root d' h' (map (\<lambda>i. (i, expected root d h lfg i)) ids)
    = Inr (concat (map (\<lambda>i. conflict_of i (expected root d h lfg i) (expected root d' h' lfg i)) ids))"
proof -
  let ?E = "map (\<lambda>i. (i, expected root d h lfg i)) ids"
  let ?l = "map (\<lambda>(g, e). (g, ge_layout e)) ?E"
  have eq: "?l = map (\<lambda>i. (i, layout_for lfg i)) ids" by simp
  then have same: "expected root d' h' ?l i = expected root d' h' lfg i" if "i \<in> set ids" for i
    by (simp only: expected_def eq layout_for_map [OF that])
  have "map fst ?E = ids" by (simp add: comp_def)
  then have "validate_group_cas root d' h' ?E = Inr (concat (map (\<lambda>(g, e). conflict_of g e
      (the (map_of (map (\<lambda>i. (i, expected root d' h' ?l i)) (sort ids)) g))) ?E))"
    using assms(2) by (simp add: validate_group_cas_def read_expectations [OF assms(1)] distinct_remdups_id)
  also have "\<dots> = Inr (concat (map (\<lambda>i. conflict_of i (expected root d h lfg i) (expected root d' h' lfg i)) ids))"
    using same by (auto simp: map_of_map_restrict comp_def intro!: arg_cong [where f = concat])
  finally show ?thesis .
qed

definition generation_of :: "index_group option \<Rightarrow> int" where
  "generation_of g = (case g of None \<Rightarrow> 0 | Some g \<Rightarrow> ig_generation g)"

lemma generation_overlay:
  "generation_of (fold (overlay op dev) gs m i) = generation_of (m i) + int (length (filter (\<lambda>g. ig_id g = i) gs))"
  by (induction gs arbitrary: m) (auto simp: overlay_def stamp_def generation_of_def split: option.splits)

lemma overlay_untouched: "i \<notin> ig_id ` set gs \<Longrightarrow> fold (overlay op dev) gs m i = m i"
  by (induction gs arbitrary: m) (auto simp: overlay_def)

lemma conflict_empty: "conflict_of i e e = []"
  by (simp add: conflict_of_def)

lemma conflict_group: "ge_generation a \<noteq> ge_generation e \<Longrightarrow> map cc_group (conflict_of i e a) = [i]"
  by (simp add: conflict_of_def)

lemma map_concat_filter:
  "(\<And>i. i \<in> set ids \<Longrightarrow> map f (g i) = (if P i then [i] else [])) \<Longrightarrow> map f (concat (map g ids)) = filter P ids"
  by (induction ids) auto

lemma cas_after_commit:
  assumes r: "readable root d h" and r': "readable root d' h'"
    and view: "index_view root d' h' = fold (commit op dev) gs (index_view root d h)"
    and "distinct ids"
  shows "\<exists>cs. validate_group_cas root d' h' (map (\<lambda>i. (i, expected root d h lfg i)) ids) = Inr cs
    \<and> map cc_group cs = filter (\<lambda>i. \<exists>g \<in> set gs. ig_id g = i \<and> ig_layout g = layout_for lfg i) ids"
proof -
  have "map cc_group (conflict_of i (expected root d h lfg i) (expected root d' h' lfg i))
      = (if \<exists>g \<in> set gs. ig_id g = i \<and> ig_layout g = layout_for lfg i then [i] else [])" for i
  proof -
    let ?k = "layout_for lfg i"
    let ?fs = "filter (\<lambda>g. ig_layout g = ?k) gs"
    have v: "index_view root d' h' ?k = fold (overlay op dev) ?fs (index_view root d h ?k)"
      by (simp add: view fold_commit)
    show ?thesis
    proof (cases "\<exists>g \<in> set gs. ig_id g = i \<and> ig_layout g = ?k")
      case True
      then have "filter (\<lambda>g. ig_id g = i) ?fs \<noteq> []" by (auto simp: filter_empty_conv)
      then have "generation_of (index_view root d' h' ?k i) \<noteq> generation_of (index_view root d h ?k i)"
        unfolding v generation_overlay by simp
      then show ?thesis using True
        by (subst conflict_group) (simp_all add: expected_def expectation_of_def generation_of_def)
    next
      case False
      then have "index_view root d' h' ?k i = index_view root d h ?k i"
        unfolding v by (intro overlay_untouched) auto
      with False show ?thesis by (simp add: expected_def conflict_empty)
    qed
  qed
  then have "map cc_group (concat (map (\<lambda>i. conflict_of i (expected root d h lfg i) (expected root d' h' lfg i)) ids))
      = filter (\<lambda>i. \<exists>g \<in> set gs. ig_id g = i \<and> ig_layout g = layout_for lfg i) ids"
    by (intro map_concat_filter) simp
  with validate_cas [OF r' assms(4)] show ?thesis by auto
qed

subsection \<open>Ownership\<close>

lemma sync_only_marker_text [simp]: "sync_only (marker_text d k)"
  by (simp add: marker_text_def split: json.split)

lemma sync_only_ownership [simp]: "sync_only (load_ownership root d)"
  by (auto simp: load_ownership_def validate_ownership_document_def split: option.split json.split)

lemma sync_only_strict [simp]: "sync_only (load_head_strict root d)"
  by (auto simp: load_head_strict_def split: option.split)

lemma load_head_strict_iff: "load_head_strict root d = Inr h \<longleftrightarrow> load_head root d = Inr (Some h)"
  by (auto simp: load_head_strict_def bindE_eq_Inr split: option.splits)

lemma marker_roundtrip:
  assumes "eq_int (om_schema m) INDEX_SCHEMA" and "1 \<le> om_protocol m" and "om_protocol m \<le> PROTOCOL_VERSION"
    and "strip (om_dataset m) \<noteq> []" and "strip (om_established_at m) \<noteq> []" and "strip (om_established_by m) \<noteq> []"
  shows "validate_ownership_document (sort_json (ownership_to_dict m)) p = Inr m"
  using assms sort_json_eq_int [OF assms(1)]
  by (simp add: validate_ownership_document_def ownership_to_dict_def marker_text_def jget_sort_key del: sort_key_simps)

lemma head_dataset_nonblank: "load_head root d = Inr (Some h) \<Longrightarrow> strip (hd_dataset h) \<noteq> []"
  by (auto simp: load_head_def validate_head_document_def result_simps check_iffs split: option.splits)


lemma write_shard_at: "(\<And>n. q \<noteq> object_path root n) \<Longrightarrow> disk_docs (snd (write_shard root s d)) q = disk_docs d q"
  by (auto simp: write_shard_def atomic_write_def shard_path_def bindE_def
      split: sum.split option.split text_read.split prod.split)

lemma write_head_at:
  "q \<noteq> head_path root \<Longrightarrow> q \<noteq> previous_head_path root \<Longrightarrow> disk_docs (snd (write_head root h kp d)) q = disk_docs d q"
  by (auto simp: write_head_def bindS_def keep_previous_head_def atomic_write_def write_doc_def
      split: option.split text_read.split prod.split sum.split)

lemma publish_built_at:
  assumes "publish_built root h shards d = (r, d')"
  shows "disk_docs d' (ownership_path root) = disk_docs d (ownership_path root)"
proof -
  obtain r1 d1 where l: "foldS (store_step root) shards (hd_layouts h) d = (r1, d1)" by fastforce
  have "disk_docs d1 (ownership_path root) = disk_docs d (ownership_path root)"
  proof -
    have "same_elsewhere {} d d1 \<and> disk_docs d1 (ownership_path root) = disk_docs d (ownership_path root)"
    proof (rule loop_keeps [OF _ l])
      fix x s d
      show "same_elsewhere {} d (snd (store_step root x s d))
          \<and> disk_docs (snd (store_step root x s d)) (ownership_path root) = disk_docs d (ownership_path root)"
        using store_step_keeps(1) [of d root x s] write_shard_at [of "ownership_path root" root "snd x" d]
        by (cases x) (auto simp: store_step_def bindS_def split: prod.split sum.split)
    qed
    then show ?thesis by simp
  qed
  moreover have "disk_docs d2 (ownership_path root) = disk_docs d1 (ownership_path root)"
    if "write_head root g True d1 = (r2, d2)" for g r2 d2
    using write_head_at [of "ownership_path root" root g True d1] that by simp
  ultimately show ?thesis
    using assms l by (cases r1) (auto simp: publish_built_def Let_def bindS_def split: prod.splits sum.splits)
qed

lemma verify_loads:
  "foldE (verify_step root d) ls u = Inr v \<Longrightarrow> (k, l) \<in> set ls \<Longrightarrow> \<exists>s. load_shard root d k l = Inr s"
  by (induction ls) (auto simp: verify_step_def bindE_eq_Inr)

lemma authoritative_owned:
  assumes "publish_authoritative_index root hint uid generation groups device now d = (Inr v, d')"
    and "strip device \<noteq> []" and "strip now \<noteq> []"
  shows "load_head root d' = Inr (Some v) \<and> (\<forall>(k, l) \<in> set (hd_layouts v). \<not> isl (load_shard root d' k l))
    \<and> (\<exists>m. resolve_dataset_state root d' = Inr \<lparr>ds_ownership = OWNED, ds_marker = Some m, ds_head = Some v, ds_detail = []\<rparr>
         \<and> om_dataset m = hd_dataset v \<and> om_established_by m = device)"
proof -
  define m where "m = \<lparr>om_schema = JInt INDEX_SCHEMA, om_protocol = PROTOCOL_VERSION, om_dataset = hd_dataset v,
               om_established_at = now, om_established_by = device\<rparr>"
  from assms(1) obtain d1 u where head: "load_head root d1 = Inr (Some v)"
    and verified: "foldE (verify_step root d1) (hd_layouts v) () = Inr u"
    and own: "write_ownership root m d1 = (Inr (), d')"
    by (auto simp: publish_authoritative_index_def result_simps load_head_strict_iff m_def)
  have d': "d' = d1\<lparr>disk_docs := (disk_docs d1)(ownership_path root \<mapsto> written (ownership_to_dict m))\<rparr>"
    using own by (auto simp: write_ownership_def atomic_write_def split: if_splits)
  have same: "same_elsewhere {head_path root, previous_head_path root, ownership_path root} d1 d'"
    by (auto simp: same_elsewhere_def d')
  have h: "load_head root d' = Inr (Some v)" using head by (simp add: load_head_def d')
  have "load_ownership root d' = Inr (Some m)"
    using marker_roundtrip [of m] head_dataset_nonblank [OF head] assms(2,3)
    by (simp add: load_ownership_def d' m_def INDEX_SCHEMA_def PROTOCOL_VERSION_def)
  then have "resolve_dataset_state root d' = Inr \<lparr>ds_ownership = OWNED, ds_marker = Some m, ds_head = Some v, ds_detail = []\<rparr>"
    using h by (simp add: resolve_dataset_state_def load_head_strict_def m_def)
  moreover have "\<not> isl (load_shard root d' k l)" if kl: "(k, l) \<in> set (hd_layouts v)" for k l
  proof -
    obtain s where "load_shard root d1 k l = Inr s" using verify_loads [OF verified kl] by blast
    then have "load_shard root d' k l = Inr s" using same by (rule load_shard_mono)
    then show ?thesis by simp
  qed
  ultimately show ?thesis using h by (auto simp: m_def)
qed

lemma authoritative_fails:
  assumes "publish_authoritative_index root hint uid generation groups device now d = (Inl e, d')"
  shows "disk_docs d' (ownership_path root) = disk_docs d (ownership_path root)"
  using assms publish_built_at
  by (auto simp: publish_authoritative_index_def result_simps write_ownership_def atomic_write_def split: if_splits)


subsection \<open>A sample index\<close>

definition sample_group :: "string \<Rightarrow> index_group" where
  "sample_group i = \<lparr>ig_id = ''shared/'' @ i, ig_layout = ''shared'', ig_system = ''snes'', ig_generation = 4,
     ig_artifacts = [\<lparr>ar_path = ''snes/'' @ i, ar_size = 8, ar_sha256 = sha256_hex []\<rparr>],
     ig_tombstoned = False, ig_origin = ''d'', ig_transaction = None, ig_container = None\<rparr>"

lemma sample_group_fields:
  "ig_id (sample_group i) = ''shared/'' @ i" "ig_layout (sample_group i) = ''shared''"
  "ig_generation (sample_group i) = 4"
  by (simp_all add: sample_group_def)

definition sample_shard :: index_shard where
  "sample_shard = \<lparr>sh_schema = JInt 1, sh_dataset = ''ds'', sh_layout = ''shared'', sh_generation = 2,
     sh_groups = [sample_group ''a'', sample_group ''b'']\<rparr>"

definition sample_head :: index_head where
  "sample_head = \<lparr>hd_schema = JInt 1, hd_dataset = ''ds'', hd_index_generation = 5, hd_journal_generation = 9,
     hd_layouts = [(''shared'', pointer_to sample_shard)]\<rparr>"

definition sample_index :: disk where
  "sample_index = \<lparr>disk_docs = [head_path ''r'' \<mapsto> written (head_to_dict sample_head),
       object_path ''r'' (shard_name ''shared'' 2) \<mapsto> written (shard_to_dict sample_shard)],
     disk_writable = (\<lambda>_. True)\<rparr>"

lemma wf_sample_group:
  "wf_group ''shared'' (sample_group ''a'')" "wf_group ''shared'' (sample_group ''b'')"
  by (simp_all add: wf_group_def sample_group_def startswith_def strip_def is_space_def wf_artifact_def
      is_canonical_path_def inside_system_def endswith_def nonblank_opt_def)

lemma wf_sample_shard: "wf_shard sample_shard"
  by (simp add: wf_shard_def sample_shard_def wf_sample_group INDEX_SCHEMA_def strip_def is_space_def
      is_safe_layout_def is_layout_char_def) (simp add: sample_group_def)

lemma wf_sample_head: "wf_head sample_head"
  using wf_pointer [OF wf_sample_shard]
  by (simp add: wf_head_def sample_head_def INDEX_SCHEMA_def strip_def is_space_def wf_dict_def sample_shard_def)

lemma wf_sample_index: "wf_disk sample_index"
  using wf_sample_head wf_sample_shard
  by (auto simp: wf_disk_def sample_index_def wf_json_head wf_json_shard split: if_splits)

lemma sample_readable: "readable ''r'' sample_index sample_head"
proof -
  have "load_head ''r'' sample_index = Inr (Some (head_in_order sample_head))"
    by (rule load_written_head [OF wf_sample_head]) (simp add: sample_index_def)
  moreover have "load_shard ''r'' sample_index ''shared'' (pointer_to sample_shard) = Inr (in_order sample_shard)"
    using load_written_shard [OF wf_sample_shard, of sample_index "''r''"]
    by (simp add: sample_shard_def sample_index_def)
  ultimately show ?thesis
    using wf_sample_index
    by (auto simp: readable_def loads_all_def head_in_order_def sample_head_def split: option.splits)
qed

lemma show_digits: "show_int 2 = ''2''" "show_int 3 = ''3''"
  by code_simp+

lemma sample_publishable: "publishable ''r'' sample_index sample_head [sample_group ''a''] ''op'' 10"
proof -
  have "is_safe_layout ''shared''" using wf_sample_shard by (simp add: wf_shard_def sample_shard_def)
  moreover have "disk_docs sample_index (next_path ''r'' ''shared'' (Some (pointer_to sample_shard))) = None"
    by (simp add: sample_index_def next_path_def next_generation_def pointer_to_def sample_shard_def
        object_path_def shard_name_def show_digits head_path_def)
  ultimately show ?thesis
    using sample_readable wf_sample_group
    by (simp add: publishable_def sample_group_def sample_head_def sample_index_def strip_def is_space_def)
qed


subsection \<open>Claims\<close>

text \<open>
  C23: On a readable index and a writable disk, publishing a batch of well-formed groups
  succeeds when the next shard name of each of their layouts is free (a shard left by a publication that stopped before its
  HEAD takes that name: \<open>index_orphan_shard_blocks\<close>) and the operation is named; the index it leaves reads back, its generation is one higher, the layouts of no
  group in the batch keep their pointer, and as a map from layouts and identifiers to groups it is
  the old index with each group of the batch put in place, stamped with the operation and with the
  generation that follows the committed one.
\<close>

theorem index_commit:
  assumes "publishable root d h gs op generation"
  shows "\<exists>h' d'. publish_group_updates root hint uid generation gs op dev d = (Inr h', d')
     \<and> readable root d' (head_in_order h')
     \<and> hd_dataset h' = hd_dataset h \<and> hd_index_generation h' = hd_index_generation h + 1
     \<and> hd_journal_generation h' = generation
     \<and> (\<forall>k. k \<notin> ig_layout ` set gs \<longrightarrow> map_of (hd_layouts (head_in_order h')) k = map_of (hd_layouts h) k)
     \<and> index_view root d' (head_in_order h') = fold (commit op dev) gs (index_view root d h)
     \<and> same_elsewhere {head_path root, previous_head_path root} d d'"
  using assms by (rule publish_groups)

theorem index_commit_witness:
  "\<exists>h' d'. publish_group_updates ''r'' None ''u'' 10 [sample_group ''a''] ''op'' ''dev'' sample_index = (Inr h', d')
     \<and> hd_index_generation h' = 6
     \<and> map_option ig_generation (index_view ''r'' d' (head_in_order h') ''shared'' ''shared/a'') = Some 5
     \<and> index_view ''r'' d' (head_in_order h') ''shared'' ''shared/b'' = Some (sample_group ''b'')"
proof -
  have "load_shard ''r'' sample_index ''shared'' (pointer_to sample_shard) = Inr (in_order sample_shard)"
    using load_written_shard [OF wf_sample_shard, of sample_index "''r''"]
    by (simp add: sample_shard_def sample_index_def)
  moreover have "sorted (map ig_id (sh_groups sample_shard))"
    by (simp add: sample_shard_def sample_group_def)
  ultimately have "index_view ''r'' sample_index sample_head ''shared'' = map_of (groups_by_id sample_shard)"
    by (simp add: index_view_def layout_view_def sample_head_def in_order_sorted)
  then have v: "index_view ''r'' sample_index sample_head ''shared''
      = [''shared/b'' \<mapsto> sample_group ''b'', ''shared/a'' \<mapsto> sample_group ''a'']"
    using wf_sample_shard by (simp add: groups_by_id_eq wf_shard_def) (simp add: sample_shard_def sample_group_def)
  from index_commit [OF sample_publishable, where hint = None and uid = "''u''" and dev = "''dev''"]
  obtain h' d' where r: "publish_group_updates ''r'' None ''u'' 10 [sample_group ''a''] ''op'' ''dev'' sample_index = (Inr h', d')"
    "hd_index_generation h' = 6"
    "index_view ''r'' d' (head_in_order h') = fold (commit ''op'' ''dev'') [sample_group ''a''] (index_view ''r'' sample_index sample_head)"
    by (auto simp: sample_head_def)
  then have "index_view ''r'' d' (head_in_order h') ''shared''
      = overlay ''op'' ''dev'' (sample_group ''a'') [''shared/b'' \<mapsto> sample_group ''b'', ''shared/a'' \<mapsto> sample_group ''a'']"
    by (simp add: commit_def sample_group_fields v)
  with r show ?thesis
    by (simp add: overlay_def stamp_def sample_group_fields)
qed

text \<open>
  C24: Expectations read before a peer's commit and validated against the index after it
  conflict on exactly the targeted groups that the peer committed, in their layout; on an unchanged
  index there is no conflict.
\<close>

theorem index_cas:
  assumes "publishable root d h gs op generation"
    and "publish_group_updates root hint uid generation gs op dev d = (Inr h', d')"
  shows "\<exists>E cs. read_group_expectations root d h ids lfg = Inr E
    \<and> validate_group_cas root d h E = Inr []
    \<and> validate_group_cas root d' (head_in_order h') E = Inr cs
    \<and> map cc_group cs = filter (\<lambda>i. \<exists>g \<in> set gs. ig_id g = i \<and> ig_layout g = layout_for lfg i) (sort (remdups ids))"
proof -
  have r: "readable root d h" using assms(1) by (simp add: publishable_def)
  have p: "readable root d' (head_in_order h')
      \<and> index_view root d' (head_in_order h') = fold (commit op dev) gs (index_view root d h)"
    using publish_groups [OF assms(1), of hint uid dev] assms(2) by auto
  have "validate_group_cas root d h (map (\<lambda>i. (i, expected root d h lfg i)) (sort (remdups ids))) = Inr []"
    using cas_after_commit [OF r r, of op dev "[]" "sort (remdups ids)" lfg] by auto
  with read_expectations [OF r] cas_after_commit [OF r, of d' "head_in_order h'" op dev gs "sort (remdups ids)" lfg] p
  show ?thesis by auto
qed

theorem index_cas_witness:
  "\<exists>h' d' E cs. publish_group_updates ''r'' None ''u'' 10 [sample_group ''a''] ''op'' ''dev'' sample_index = (Inr h', d')
    \<and> read_group_expectations ''r'' sample_index sample_head [''shared/b'', ''shared/a'']
        [(''shared/a'', ''shared''), (''shared/b'', ''shared'')] = Inr E
    \<and> validate_group_cas ''r'' d' (head_in_order h') E = Inr cs \<and> map cc_group cs = [''shared/a'']"
proof -
  obtain h' d' where r: "publish_group_updates ''r'' None ''u'' 10 [sample_group ''a''] ''op'' ''dev'' sample_index = (Inr h', d')"
    using publish_groups [OF sample_publishable] by blast
  have "sort (remdups [''shared/b'', ''shared/a'']) = [''shared/a'', ''shared/b'']" by simp
  moreover have "ig_id (sample_group ''a'') = ''shared/a''" "ig_layout (sample_group ''a'') = ''shared''"
    by (simp_all add: sample_group_def)
  ultimately show ?thesis
    using index_cas [OF sample_publishable r, of "[''shared/b'', ''shared/a'']" "[(''shared/a'', ''shared''), (''shared/b'', ''shared'')]"] r
    by (auto simp: layout_for_def)
qed

text \<open>
  C26: A publication of groups, or of a Full Sync, that raises, leaves the
  \<open>HEAD\<close> as it was and every stored document but the previous \<open>HEAD\<close>, so that what the index says
  has not changed.
\<close>

lemma failed_safely_refl: "failed_safely root d d"
  by (simp add: failed_safely_def)

lemma full_sync_fails:
  assumes "publish_full_sync_index root hint uid generation groups d = (Inl e, d')"
  shows "failed_safely root d d'"
proof -
  from assms show ?thesis
    by (auto simp: publish_full_sync_index_def bindS_eq_Inl bindS_eq_Inr Let_def load_head_safe_eq failed_safely_refl
        dest: publish_built_fails split: if_splits)
qed

theorem index_failed_publication:
  "(case publish_group_updates root hint uid generation gs op dev d of (Inl e, d') \<Rightarrow> failed_safely root d d' | _ \<Rightarrow> True)
   \<and> (case publish_full_sync_index root hint uid generation groups d of (Inl e, d') \<Rightarrow> failed_safely root d d' | _ \<Rightarrow> True)"
  using publish_groups_fails full_sync_fails by (fastforce split: prod.split sum.split)

text \<open>
  A well-formed shard written under a free name loads through the pointer that
  writing returned, with its groups in the order of their identifiers; writing it again changes
  nothing; and a different shard of the same layout and generation is refused and changes nothing.
\<close>

theorem index_roundtrip:
  assumes "wf_shard s" and "disk_docs d (object_path root (shard_name (sh_layout s) (sh_generation s))) = None"
    and "\<And>p. disk_writable d p"
  shows "\<exists>d'. write_shard root s d = (Inr (pointer_to s), d')
    \<and> load_shard root d' (sh_layout s) (pointer_to s) = Inr (in_order s)
    \<and> write_shard root s d' = (Inr (pointer_to s), d')
    \<and> (\<forall>t. sh_layout t = sh_layout s \<and> sh_generation t = sh_generation s
         \<and> canonical_json (shard_to_dict t) \<noteq> canonical_json (shard_to_dict s)
        \<longrightarrow> isl (fst (write_shard root t d')) \<and> snd (write_shard root t d') = d')"
proof -
  let ?p = "object_path root (shard_name (sh_layout s) (sh_generation s))"
  let ?d = "d\<lparr>disk_docs := (disk_docs d)(?p \<mapsto> written (shard_to_dict s))\<rparr>"
  have p: "shard_path root (sh_layout s) (sh_generation s) = Inr ?p"
    using assms(1) by (simp add: shard_path_def wf_shard_def)
  have "write_shard root s ?d = (Inr (pointer_to s), ?d)" by (simp add: write_shard_def p)
  moreover have "isl (fst (write_shard root t ?d)) \<and> snd (write_shard root t ?d) = ?d"
    if "sh_layout t = sh_layout s" "sh_generation t = sh_generation s"
      "canonical_json (shard_to_dict t) \<noteq> canonical_json (shard_to_dict s)" for t
    using that by (simp add: write_shard_def p)
  ultimately show ?thesis
    using write_shard_fresh [OF assms] load_written_shard [OF assms(1), of ?d root] by auto
qed

theorem index_roundtrip_witness:
  "\<exists>d'. write_shard ''q'' sample_shard sample_index = (Inr (pointer_to sample_shard), d')
    \<and> load_shard ''q'' d' ''shared'' (pointer_to sample_shard) = Inr (in_order sample_shard)"
proof -
  have "disk_docs sample_index (object_path ''q'' (shard_name (sh_layout sample_shard) (sh_generation sample_shard))) = None"
    by (simp add: sample_index_def object_path_def head_path_def)
  with index_roundtrip [OF wf_sample_shard this] show ?thesis
    by (auto simp: sample_index_def sample_shard_def)
qed

text \<open>
  C25: When the authoritative publication returns, the \<open>HEAD\<close> and every shard it names
  load and the dataset resolves to \<open>OWNED\<close> under the verified \<open>HEAD\<close>; when it raises, the ownership
  marker is what it was before.
\<close>

theorem index_ownership:
  assumes "strip device \<noteq> []" and "strip now \<noteq> []"
  shows "case publish_authoritative_index root hint uid generation groups device now d of
      (Inr v, d') \<Rightarrow> load_head root d' = Inr (Some v) \<and> (\<forall>(k, l) \<in> set (hd_layouts v). \<not> isl (load_shard root d' k l))
        \<and> (\<exists>m. resolve_dataset_state root d' = Inr \<lparr>ds_ownership = OWNED, ds_marker = Some m, ds_head = Some v, ds_detail = []\<rparr>
             \<and> om_dataset m = hd_dataset v \<and> om_established_by m = device)
    | (Inl e, d') \<Rightarrow> disk_docs d' (ownership_path root) = disk_docs d (ownership_path root)"
  using authoritative_owned authoritative_fails assms by (fastforce split: prod.split sum.split)

theorem index_ownership_witness:
  "strip ''dev'' \<noteq> [] \<and> strip ''now'' \<noteq> [] \<and>
   (case publish_authoritative_index ''r'' None ''u'' 9 [] ''dev'' ''now'' sample_index of
      (Inr v, d') \<Rightarrow> load_head ''r'' d' = Inr (Some v)
    | (Inl e, d') \<Rightarrow> disk_docs d' (ownership_path ''r'') = None)"
proof -
  have t: "strip ''dev'' \<noteq> []" "strip ''now'' \<noteq> []" by (simp_all add: strip_def is_space_def)
  moreover have "disk_docs sample_index (ownership_path ''r'') = None"
    by (simp add: sample_index_def head_path_def ownership_path_def object_path_def)
  ultimately show ?thesis
    using index_ownership [OF t, where root = "''r''" and hint = None and uid = "''u''" and generation = 9
        and groups = "[]" and d = sample_index]
    by (auto split: prod.splits sum.splits)
qed

text \<open>
  Classifying a dataset never raises, whatever is stored: it is \<open>UNOWNED\<close> exactly
  without a marker document, and \<open>OWNED\<close> exactly when the marker and the \<open>HEAD\<close> both validate and name
  the same dataset.
\<close>

theorem index_state_total:
  "\<exists>st. resolve_dataset_state root d = Inr st
    \<and> (ds_ownership st = UNOWNED \<longleftrightarrow> disk_docs d (ownership_path root) = None)
    \<and> (ds_ownership st = OWNED \<longleftrightarrow> (\<exists>m h. load_ownership root d = Inr (Some m) \<and> load_head root d = Inr (Some h)
         \<and> hd_dataset h = om_dataset m))"
proof -
  have none: "load_ownership root d = Inr None \<longleftrightarrow> disk_docs d (ownership_path root) = None"
    by (auto simp: load_ownership_def bindE_eq_Inr split: option.splits)
  show ?thesis
    using sync_only_ownership [of root d] sync_only_strict [of root d] none
    by (cases "load_ownership root d"; cases "load_head_strict root d")
      (auto simp: resolve_dataset_state_def sync_only_def load_head_strict_iff [symmetric]
        split: sync_error.splits option.splits)
qed


subsection \<open>Damaged inputs\<close>

text \<open>
  A layout whose shard does not load is committed to as if it had been empty: the shard that
  replaces it holds the updated group alone, with generation 1, and the groups nobody touched are gone.
\<close>

lemma write_shard_pointer: "write_shard root s d = (Inr l, d') \<Longrightarrow> l = pointer_to s"
  by (auto simp: write_shard_def split: sum.splits option.splits text_read.splits prod.splits if_splits)

lemma index_damaged_shard_drops_groups:
  assumes "load_head root d = Inr (Some h)" and "map_of (hd_layouts h) (ig_layout g) = Some l"
    and "load_shard root d (ig_layout g) l = Inl (SaveSyncError m)"
    and "publish_group_updates root hint uid generation [g] op dev d = (Inr h', d')"
  shows "\<exists>s. map_of (hd_layouts h') (ig_layout g) = Some (pointer_to s) \<and> sh_groups s = [stamp op dev None g]"
proof -
  define s where "s = next_shard (hd_dataset h) op dev (ig_layout g) (Some l) [] [g]"
  have ne: "hd_dataset h \<noteq> []" using head_dataset_nonblank [OF assms(1)] by (auto simp: strip_def)
  have b: "by_layout [g] = [(ig_layout g, [g])]" by (simp add: by_layout_def add_to_layout_def)
  have g: "sh_groups s = [stamp op dev None g]"
    by (simp add: s_def next_shard_def overlay_group_def stamp_def)
  from assms(4) obtain p d1 where p: "write_shard root s d = (Inr p, d1)"
    and h': "hd_layouts h' = AList.update (ig_layout g) p (hd_layouts h)"
    using assms(1-3) ne
    by (auto simp: publish_group_updates_def load_head_safe_eq bindS_eq_Inr Let_def first_text_head b
        update_step_def existing_groups_def s_def)
  from write_shard_pointer [OF p] g h' show ?thesis by (auto simp: update_conv')
qed

text \<open>
  A \<open>HEAD\<close> whose bytes are not UTF-8 reads as absent, yet copying it aside raises \<open>ValueError\<close>: no
  publication can replace it.
\<close>

lemma index_undecodable_head:
  assumes "disk_docs d (head_path root) = Some \<lparr>doc_text = Undecodable, doc_json = None\<rparr>"
  shows "isl (fst (publish_group_updates root hint uid generation gs op dev d))"
    and "isl (fst (publish_authoritative_index root hint uid generation groups device now d))"
proof -
  have head: "write_head root h True d1 = (Inl (ValueError ''UnicodeDecodeError''), d1)"
    if "disk_docs d1 (head_path root) = disk_docs d (head_path root)" for h d1
    using that assms by (simp add: write_head_def keep_previous_head_def)
  have "isl (fst (publish_built root h shards d))" for h shards
  proof -
    obtain r1 d1 where l: "foldS (store_step root) shards (hd_layouts h) d = (r1, d1)" by fastforce
    have "same_elsewhere {} d d1 \<and> disk_docs d1 (head_path root) = disk_docs d (head_path root)"
      by (rule loop_keeps [OF _ l]) (simp add: store_step_keeps)
    with l head show ?thesis by (cases r1) (simp_all add: publish_built_def Let_def)
  qed
  then have nb: "publish_built root h shards d \<noteq> (Inr x, d1)" for h shards x d1
    by (metis fst_conv sum.disc(2))
  show "isl (fst (publish_authoritative_index root hint uid generation groups device now d))"
  proof (cases "publish_authoritative_index root hint uid generation groups device now d")
    case (Pair r d')
    then show ?thesis
      using nb by (cases r) (auto simp: publish_authoritative_index_def bindS_eq_Inr load_head_safe_eq)
  qed
  define ds where "ds = first_text None hint uid"
  have none: "load_head_safe root d = Inr None"
    using assms by (simp add: load_head_safe_def load_head_def)
  obtain r1 d1 where l: "foldS (update_step root ds op dev) (by_layout gs) [] d = (r1, d1)" by fastforce
  have "same_elsewhere {} d d1 \<and> disk_docs d1 (head_path root) = disk_docs d (head_path root)"
    by (rule loop_keeps [OF _ l]) (simp add: update_step_keeps)
  with l head none show "isl (fst (publish_group_updates root hint uid generation gs op dev d))"
    by (cases r1) (simp_all add: publish_group_updates_def Let_def ds_def [symmetric])
qed

text \<open>
  A shard left under the next generation by a publication that did not reach the \<open>HEAD\<close> blocks every
  later one whose content differs.
\<close>

lemma index_orphan_shard_blocks:
  assumes "shard_path root (sh_layout s) (sh_generation s) = Inr p" and "disk_docs d p = Some doc"
    and "doc_text doc = Text t" and "t \<noteq> canonical_json (shard_to_dict s)"
  shows "\<exists>m. write_shard root s d = (Inl (SaveSyncError m), d)"
  using assms by (simp add: write_shard_def)

text \<open>A previous shard that is not UTF-8 makes Full Sync raise instead of counting as changed.\<close>

lemma index_undecodable_shard:
  assumes "disk_docs d (object_path root (lh_object l)) = Some \<lparr>doc_text = Undecodable, doc_json = None\<rparr>"
  shows "is_unchanged (previous_loader root d) k (Some l) gs = Inl (ValueError ''UnicodeDecodeError'')"
  using assms by (simp add: is_unchanged_def previous_loader_def load_shard_def)

end
