(* ===== verification/CommitIntent.thy ===== *)
theory CommitIntent
  imports IndexProofs
begin

text \<open>
  The shared commit intent (\<open>infrastructure/savesync_commit.py\<close>): one document describing a commit in
  flight, its persistence, and the classification of the payload an interrupted commit left.
\<close>

subsection \<open>Intents\<close>

datatype intent_phase = PREPARED | PROMOTING | PAYLOAD_VERIFIED | INDEX_PUBLISHED | JOURNALED

fun phase_value :: "intent_phase \<Rightarrow> string" where
  "phase_value PREPARED = ''prepared''"
| "phase_value PROMOTING = ''promoting''"
| "phase_value PAYLOAD_VERIFIED = ''payload-verified''"
| "phase_value INDEX_PUBLISHED = ''index-published''"
| "phase_value JOURNALED = ''journaled''"

definition phases :: "string list" where
  "phases = map phase_value [PREPARED, PROMOTING, PAYLOAD_VERIFIED, INDEX_PUBLISHED, JOURNALED]"

datatype payload_state = BEFORE | DESIRED | UNKNOWN

datatype publication_scope = SCOPE_GROUP | SCOPE_FULL_SYNC

fun scope_value :: "publication_scope \<Rightarrow> string" where
  "scope_value SCOPE_GROUP = ''group''"
| "scope_value SCOPE_FULL_SYNC = ''full-sync''"

definition scopes :: "string list" where
  "scopes = map scope_value [SCOPE_GROUP, SCOPE_FULL_SYNC]"

record intent_group =
  ng_id :: string
  ng_layout :: string
  ng_system :: string
  ng_expected :: int
  ng_before :: "index_artifact list"
  ng_desired :: "index_artifact list"

definition before_manifest_hash :: "intent_group \<Rightarrow> string" where
  "before_manifest_hash g = compute_manifest_hash (ng_before g)"

definition desired_manifest_hash :: "intent_group \<Rightarrow> string" where
  "desired_manifest_hash g = compute_manifest_hash (ng_desired g)"

record commit_intent =
  ci_schema :: json
  ci_operation :: string
  ci_origin :: string
  ci_dataset :: string
  ci_index_generation :: int
  ci_journal_generation :: int
  ci_phase :: string
  ci_started_at :: string
  ci_groups :: "intent_group list"
  ci_scope :: string

definition with_phase :: "commit_intent \<Rightarrow> intent_phase \<Rightarrow> commit_intent" where
  "with_phase i p = i\<lparr>ci_phase := phase_value p\<rparr>"

definition publishable_by_recovery :: "commit_intent \<Rightarrow> bool" where
  "publishable_by_recovery i \<longleftrightarrow> ci_scope i = scope_value SCOPE_GROUP"

definition intent_group_ids :: "commit_intent \<Rightarrow> string set" where
  "intent_group_ids i = set (map ng_id (ci_groups i))"

definition affected_layout_ids :: "commit_intent \<Rightarrow> string set" where
  "affected_layout_ids i = set (map ng_layout (ci_groups i))"

definition desired_paths :: "commit_intent \<Rightarrow> string set" where
  "desired_paths i = set (concat (map (\<lambda>g. map ar_path (ng_desired g)) (ci_groups i)))"

definition before_paths :: "commit_intent \<Rightarrow> string set" where
  "before_paths i = set (concat (map (\<lambda>g. map ar_path (ng_before g)) (ci_groups i)))"

subsection \<open>JSON form\<close>

definition intent_group_to_dict :: "intent_group \<Rightarrow> json" where
  "intent_group_to_dict g = JObj
     [(''group_id'', JStr (ng_id g)), (''layout_id'', JStr (ng_layout g)), (''system'', JStr (ng_system g)),
      (''expected_group_generation'', JInt (ng_expected g)),
      (''before_manifest_hash'', JStr (before_manifest_hash g)),
      (''desired_manifest_hash'', JStr (desired_manifest_hash g)),
      (''before'', JArr (map artifact_to_dict (ng_before g))),
      (''desired'', JArr (map artifact_to_dict (ng_desired g)))]"

definition intent_to_dict :: "commit_intent \<Rightarrow> json" where
  "intent_to_dict i = JObj
     [(''schema_version'', ci_schema i), (''operation_id'', JStr (ci_operation i)),
      (''origin_device'', JStr (ci_origin i)), (''dataset_id'', JStr (ci_dataset i)),
      (''base_index_generation'', JInt (ci_index_generation i)),
      (''base_journal_generation'', JInt (ci_journal_generation i)),
      (''phase'', JStr (ci_phase i)), (''started_at'', JStr (ci_started_at i)),
      (''publication_scope'', JStr (ci_scope i)),
      (''groups'', JArr (map intent_group_to_dict (sort_key ng_id (ci_groups i))))]"

definition text_field :: "json \<Rightarrow> string \<Rightarrow> sync_error + string" where
  "text_field v message = (case v of JStr s \<Rightarrow> (if s = [] then fail message else Inr s) | _ \<Rightarrow> fail message)"

definition generation_field :: "json \<Rightarrow> string \<Rightarrow> sync_error + int" where
  "generation_field v message = (case v of JInt n \<Rightarrow> (if n < 0 then fail message else Inr n) | _ \<Rightarrow> fail message)"

definition sha_field :: "json \<Rightarrow> string \<Rightarrow> sync_error + string" where
  "sha_field v message = (case v of JStr s \<Rightarrow> (if length s = 64 then Inr s else fail message) | _ \<Rightarrow> fail message)"

definition intent_artifact_step ::
  "string \<Rightarrow> json \<Rightarrow> index_artifact list \<Rightarrow> sync_error + index_artifact list" where
  "intent_artifact_step label entry artifacts =
     (case entry of
        JObj d \<Rightarrow>
          bindE (text_field (jget d ''path'') (''SaveSync intent '' @ label @ '' path must be non-empty text'')) (\<lambda>path.
          if path \<in> ar_path ` set artifacts
          then fail (''SaveSync intent '' @ label @ '' has a duplicate path: '' @ repr_str path)
          else
          bindE (generation_field (jget d ''size_bytes'')
                   (''SaveSync intent '' @ label @ '' size_bytes must be a non-negative integer'')) (\<lambda>size.
          bindE (sha_field (jget d ''sha256'')
                   (''SaveSync intent '' @ label @ '' sha256 must be a sha256 hex digest'')) (\<lambda>sha.
          Inr (artifacts @ [\<lparr>ar_path = path, ar_size = size, ar_sha256 = sha\<rparr>]))))
      | _ \<Rightarrow> fail (''SaveSync intent '' @ label @ '' entry must be an object''))"

definition artifacts_from_list :: "json \<Rightarrow> string \<Rightarrow> sync_error + index_artifact list" where
  "artifacts_from_list v label =
     (case v of
        JArr entries \<Rightarrow> foldE (intent_artifact_step label) entries []
      | _ \<Rightarrow> fail (''SaveSync intent '' @ label @ '' must be a list''))"

text \<open>Hashing a manifest encodes its digests as ASCII.\<close>

definition checked_hash :: "index_artifact list \<Rightarrow> sync_error + string" where
  "checked_hash as =
     (if \<forall>a \<in> set as. \<forall>c \<in> set (ar_sha256 a). of_char c < (128 :: nat) then Inr (compute_manifest_hash as)
      else Inl (ValueError ''UnicodeEncodeError''))"

definition check_declared :: "string \<Rightarrow> string \<Rightarrow> json \<Rightarrow> string \<Rightarrow> sync_error + unit" where
  "check_declared group_id label declared actual =
     (if declared \<noteq> JStr actual
      then fail (''SaveSync intent group '' @ repr_str group_id @ '' '' @ label @ '' does not match its manifest'')
      else Inr ())"

definition intent_group_step ::
  "string \<Rightarrow> json \<Rightarrow> intent_group list \<Rightarrow> sync_error + intent_group list" where
  "intent_group_step path entry groups =
     (case entry of
        JObj d \<Rightarrow>
          bindE (text_field (jget d ''group_id'') ''SaveSync intent group_id must be non-empty text'') (\<lambda>group_id.
          if group_id \<in> ng_id ` set groups
          then fail (''SaveSync intent has a duplicate group: '' @ repr_str group_id)
          else
          bindE (text_field (jget d ''layout_id'') ''SaveSync intent layout_id must be non-empty text'') (\<lambda>layout.
          bindE (text_field (jget d ''system'') ''SaveSync intent system must be non-empty text'') (\<lambda>system.
          bindE (generation_field (jget d ''expected_group_generation'')
                   ''SaveSync intent expected_group_generation must be a non-negative integer'') (\<lambda>expected.
          bindE (artifacts_from_list (jget d ''before'') ''group.before'') (\<lambda>before.
          bindE (artifacts_from_list (jget d ''desired'') ''group.desired'') (\<lambda>desired.
          bindE (checked_hash before) (\<lambda>before_hash.
          bindE (checked_hash desired) (\<lambda>desired_hash.
          bindE (check_declared group_id ''before_manifest_hash'' (jget d ''before_manifest_hash'') before_hash) (\<lambda>_.
          bindE (check_declared group_id ''desired_manifest_hash'' (jget d ''desired_manifest_hash'') desired_hash) (\<lambda>_.
          Inr (groups @ [\<lparr>ng_id = group_id, ng_layout = layout, ng_system = system, ng_expected = expected,
                          ng_before = before, ng_desired = desired\<rparr>])))))))))))
      | _ \<Rightarrow> fail (''SaveSync intent group must be an object: '' @ path))"

text \<open>Membership in a set of strings: a list or a dictionary is unhashable.\<close>

definition member_text :: "json \<Rightarrow> string list \<Rightarrow> string \<Rightarrow> sync_error + string" where
  "member_text v allowed message =
     (case v of JArr xs \<Rightarrow> Inl TypeError | JObj d \<Rightarrow> Inl TypeError
      | JStr s \<Rightarrow> (if s \<in> set allowed then Inr s else fail message)
      | _ \<Rightarrow> fail message)"

definition intent_text :: "(string \<times> json) list \<Rightarrow> string \<Rightarrow> sync_error + string" where
  "intent_text d k =
     (case jget d k of JStr s \<Rightarrow> (if strip s = [] then fail (''SaveSync intent '' @ k @ '' must be non-empty text'') else Inr s)
      | _ \<Rightarrow> fail (''SaveSync intent '' @ k @ '' must be non-empty text''))"

definition intent_generation :: "(string \<times> json) list \<Rightarrow> string \<Rightarrow> sync_error + int" where
  "intent_generation d k =
     generation_field (jget d k) (''SaveSync intent '' @ k @ '' must be a non-negative integer'')"

definition intent_from_dict :: "json \<Rightarrow> string \<Rightarrow> sync_error + commit_intent" where
  "intent_from_dict payload path =
     (case payload of
        JObj d \<Rightarrow>
          if \<not> eq_int (jget d ''schema_version'') INDEX_SCHEMA
          then fail (''SaveSync intent schema version '' @ py_repr (jget d ''schema_version'') @ '' is not supported: '' @ path)
          else
          bindE (member_text (jget d ''phase'') phases
                   (''SaveSync intent phase '' @ py_repr (jget d ''phase'') @ '' is not recognized: '' @ path)) (\<lambda>phase.
          let raw_scope = (case map_of d ''publication_scope'' of None \<Rightarrow> JStr (scope_value SCOPE_GROUP) | Some v \<Rightarrow> v)
          in
          bindE (member_text raw_scope scopes
                   (''SaveSync intent publication_scope '' @ py_repr raw_scope @ '' is not recognized: '' @ path)) (\<lambda>scope.
          (case jget d ''groups'' of
             JArr raw_groups \<Rightarrow>
               bindE (foldE (intent_group_step path) raw_groups []) (\<lambda>groups.
               bindE (intent_text d ''operation_id'') (\<lambda>operation.
               bindE (intent_text d ''origin_device'') (\<lambda>origin.
               bindE (intent_text d ''dataset_id'') (\<lambda>dataset.
               bindE (intent_generation d ''base_index_generation'') (\<lambda>index_generation.
               bindE (intent_generation d ''base_journal_generation'') (\<lambda>journal_generation.
               bindE (intent_text d ''started_at'') (\<lambda>started_at.
               Inr \<lparr>ci_schema = jget d ''schema_version'', ci_operation = operation, ci_origin = origin,
                    ci_dataset = dataset, ci_index_generation = index_generation,
                    ci_journal_generation = journal_generation, ci_phase = phase, ci_started_at = started_at,
                    ci_groups = groups, ci_scope = scope\<rparr>)))))))
           | _ \<Rightarrow> fail (''SaveSync intent groups must be a list: '' @ path))))
      | _ \<Rightarrow> fail (''SaveSync intent is invalid: '' @ path))"

subsection \<open>Persistence\<close>

definition intent_path :: "string \<Rightarrow> string" where
  "intent_path root = root @ ''/INTENT.json''"

definition write_intent :: "string \<Rightarrow> commit_intent \<Rightarrow> disk \<Rightarrow> sync_error option \<times> disk" where
  "write_intent root i d = atomic_write (intent_path root) (intent_to_dict i) d"

definition load_intent :: "string \<Rightarrow> disk \<Rightarrow> sync_error + commit_intent option" where
  "load_intent root d =
     (case disk_docs d (intent_path root) of
        None \<Rightarrow> Inr None
      | Some doc \<Rightarrow>
          (case doc_json doc of
             None \<Rightarrow> fail (''SaveSync intent is corrupt: '' @ intent_path root)
           | Some payload \<Rightarrow> bindE (intent_from_dict payload (intent_path root)) (\<lambda>i. Inr (Some i))))"

text \<open>A path that is not writable can be neither removed nor renamed.\<close>

definition clear_intent :: "string \<Rightarrow> disk \<Rightarrow> disk" where
  "clear_intent root d =
     (if disk_writable d (intent_path root) then d\<lparr>disk_docs := (disk_docs d)(intent_path root := None)\<rparr>
      else move_aside (intent_path root) (intent_path root @ ''.stale'') d)"

definition preserve_unresolved_intent :: "string \<Rightarrow> commit_intent \<Rightarrow> disk \<Rightarrow> (sync_error + string) \<times> disk" where
  "preserve_unresolved_intent root i d =
     (let source = intent_path root; target = source @ ''.'' @ ci_operation i @ ''.unresolved''
      in if CHR ''/'' \<in> set (ci_operation i) then (Inl (ValueError ''Invalid name''), d)
         else if disk_docs d source = None then (Inr target, d)
         else if disk_writable d source \<and> disk_writable d target then (Inr target, move_aside source target d)
         else (Inr source, d))"

subsection \<open>Recovery classification\<close>

type_synonym observation = "string \<rightharpoonup> index_artifact"

definition observed_artifacts :: "intent_group \<Rightarrow> observation \<Rightarrow> index_artifact list" where
  "observed_artifacts g observed =
     sort_key ar_path (List.map_filter (\<lambda>a. observed (ar_path a)) (ng_before g @ ng_desired g))"

definition unique_paths :: "index_artifact list \<Rightarrow> index_artifact list" where
  "unique_paths actual =
     map (\<lambda>i. actual ! i)
       (filter (\<lambda>i. i = 0 \<or> ar_path (actual ! i) \<noteq> ar_path (actual ! (i - 1))) [0..<length actual])"

definition actual_hash :: "intent_group \<Rightarrow> observation \<Rightarrow> string" where
  "actual_hash g observed = compute_manifest_hash (unique_paths (observed_artifacts g observed))"

definition classify_step :: "observation \<Rightarrow> intent_group \<Rightarrow> bool \<times> bool \<Rightarrow> bool \<times> bool" where
  "classify_step observed g = (\<lambda>(all_before, all_desired).
     (all_before \<and> actual_hash g observed = before_manifest_hash g,
      all_desired \<and> actual_hash g observed = desired_manifest_hash g))"

definition classify_payload :: "commit_intent \<Rightarrow> observation \<Rightarrow> payload_state" where
  "classify_payload i observed =
     (let (all_before, all_desired) = fold (classify_step observed) (ci_groups i) (True, True)
      in if all_desired then DESIRED else if all_before then BEFORE else UNKNOWN)"


subsection \<open>Round trip\<close>

definition wf_intent_artifact :: "index_artifact \<Rightarrow> bool" where
  "wf_intent_artifact a \<longleftrightarrow> ar_path a \<noteq> [] \<and> 0 \<le> ar_size a \<and> length (ar_sha256 a) = 64
     \<and> (\<forall>c \<in> set (ar_sha256 a). of_char c < (128 :: nat))"

definition wf_manifest :: "index_artifact list \<Rightarrow> bool" where
  "wf_manifest as \<longleftrightarrow> distinct (map ar_path as) \<and> (\<forall>a \<in> set as. wf_intent_artifact a)"

definition wf_intent_group :: "intent_group \<Rightarrow> bool" where
  "wf_intent_group g \<longleftrightarrow> ng_id g \<noteq> [] \<and> ng_layout g \<noteq> [] \<and> ng_system g \<noteq> [] \<and> 0 \<le> ng_expected g
     \<and> wf_manifest (ng_before g) \<and> wf_manifest (ng_desired g)"

definition wf_intent :: "commit_intent \<Rightarrow> bool" where
  "wf_intent i \<longleftrightarrow> eq_int (ci_schema i) INDEX_SCHEMA \<and> strip (ci_operation i) \<noteq> [] \<and> strip (ci_origin i) \<noteq> []
     \<and> strip (ci_dataset i) \<noteq> [] \<and> strip (ci_started_at i) \<noteq> [] \<and> 0 \<le> ci_index_generation i
     \<and> 0 \<le> ci_journal_generation i \<and> ci_phase i \<in> set phases \<and> ci_scope i \<in> set scopes
     \<and> distinct (map ng_id (ci_groups i)) \<and> (\<forall>g \<in> set (ci_groups i). wf_intent_group g)"

definition intent_in_order :: "commit_intent \<Rightarrow> commit_intent" where
  "intent_in_order i = i\<lparr>ci_groups := sort_key ng_id (ci_groups i)\<rparr>"

lemma fields_ok [simp]:
  "s \<noteq> [] \<Longrightarrow> text_field (JStr s) m = Inr s" "0 \<le> n \<Longrightarrow> generation_field (JInt n) m = Inr n"
  "length s = 64 \<Longrightarrow> sha_field (JStr s) m = Inr s" "s \<in> set ts \<Longrightarrow> member_text (JStr s) ts m = Inr s"
  by (simp_all add: text_field_def generation_field_def sha_field_def member_text_def)

lemma intent_artifacts_roundtrip:
  assumes "\<forall>a \<in> set as. wf_intent_artifact a" and "distinct (map ar_path (bs @ as))"
  shows "foldE (intent_artifact_step label) (map (\<lambda>a. sort_json (artifact_to_dict a)) as) bs = Inr (bs @ as)"
  using assms
proof (induction as arbitrary: bs)
  case (Cons a as)
  then have "intent_artifact_step label (sort_json (artifact_to_dict a)) bs = Inr (bs @ [a])"
    by (auto simp: intent_artifact_step_def artifact_to_dict_def wf_intent_artifact_def jget_sort_key
        simp del: sort_key_simps)
  with Cons show ?case by simp
qed simp

lemma manifest_roundtrip:
  "wf_manifest as \<Longrightarrow> artifacts_from_list (JArr (map (\<lambda>a. sort_json (artifact_to_dict a)) as)) label = Inr as"
  by (simp add: artifacts_from_list_def wf_manifest_def intent_artifacts_roundtrip)

lemma wf_manifest_hash: "wf_manifest as \<Longrightarrow> checked_hash as = Inr (compute_manifest_hash as)"
  by (simp add: checked_hash_def wf_manifest_def wf_intent_artifact_def)

lemma intent_groups_roundtrip:
  assumes "\<forall>g \<in> set gs. wf_intent_group g" and "distinct (map ng_id (hs @ gs))"
  shows "foldE (intent_group_step path) (map (\<lambda>g. sort_json (intent_group_to_dict g)) gs) hs = Inr (hs @ gs)"
  using assms
proof (induction gs arbitrary: hs)
  case (Cons g gs)
  have "intent_group_step path (sort_json (intent_group_to_dict g)) hs = Inr (hs @ [g])"
    using Cons.prems
    by (simp add: intent_group_step_def intent_group_to_dict_def wf_intent_group_def jget_sort_key comp_def
        manifest_roundtrip wf_manifest_hash check_declared_def before_manifest_hash_def desired_manifest_hash_def
        del: sort_key_simps)
  with Cons show ?case by simp
qed simp

lemma map_of_sort_json:
  "distinct (map fst d) \<Longrightarrow> map_of (sort_key fst (map (\<lambda>(k, v). (k, sort_json v)) d)) k = map_option sort_json (map_of d k)"
  by (subst map_of_sort_key_fst) (auto simp: map_of_map_snd comp_def case_prod_beta)

lemma intent_roundtrip_json:
  assumes "wf_intent i"
  shows "intent_from_dict (sort_json (intent_to_dict i)) path = Inr (intent_in_order i)"
proof -
  have schema: "sort_json (ci_schema i) = ci_schema i"
    using assms by (auto simp: wf_intent_def intro: sort_json_eq_int)
  have groups: "foldE (intent_group_step path) (map (\<lambda>g. sort_json (intent_group_to_dict g)) (sort_key ng_id (ci_groups i))) []
      = Inr (sort_key ng_id (ci_groups i))"
    using assms intent_groups_roundtrip [of "sort_key ng_id (ci_groups i)" "[]" path]
    by (simp add: wf_intent_def distinct_map)
  show ?thesis
    using assms schema groups
    by (simp add: intent_from_dict_def intent_to_dict_def wf_intent_def jget_sort_key map_of_sort_key_fst comp_def
        intent_text_def intent_generation_def intent_in_order_def Let_def del: sort_key_simps)
qed

subsection \<open>Classification\<close>

lemma unique_paths_snoc:
  "unique_paths (xs @ [x]) = unique_paths xs @ (if xs = [] \<or> ar_path (last xs) \<noteq> ar_path x then [x] else [])"
proof -
  have "filter (\<lambda>i. i = 0 \<or> ar_path ((xs @ [x]) ! i) \<noteq> ar_path ((xs @ [x]) ! (i - 1))) [0..<length xs]
      = filter (\<lambda>i. i = 0 \<or> ar_path (xs ! i) \<noteq> ar_path (xs ! (i - 1))) [0..<length xs]"
    by (rule filter_cong) (auto simp: nth_append)
  moreover have "map (\<lambda>i. (xs @ [x]) ! i) (filter P [0..<length xs]) = map (\<lambda>i. xs ! i) (filter P [0..<length xs])" for P
    by (auto simp: nth_append)
  moreover have "xs \<noteq> [] \<Longrightarrow> (xs @ [x]) ! (length xs - 1) = last xs"
    by (simp add: nth_append last_conv_nth)
  ultimately show ?thesis
    by (auto simp: unique_paths_def)
qed

lemma unique_paths_props:
  assumes "sorted (map ar_path xs)"
  shows "sorted (map ar_path (unique_paths xs)) \<and> distinct (map ar_path (unique_paths xs))
    \<and> set (unique_paths xs) \<subseteq> set xs \<and> ar_path ` set (unique_paths xs) = ar_path ` set xs"
  using assms
proof (induction xs rule: rev_induct)
  case Nil
  then show ?case by (simp add: unique_paths_def)
next
  case (snoc x xs)
  then have IH: "sorted (map ar_path (unique_paths xs)) \<and> distinct (map ar_path (unique_paths xs))
    \<and> set (unique_paths xs) \<subseteq> set xs \<and> ar_path ` set (unique_paths xs) = ar_path ` set xs"
    and le: "\<forall>y \<in> set xs. ar_path y \<le> ar_path x" and s: "sorted (map ar_path xs)"
    by (auto simp: sorted_append)
  show ?case
  proof (cases "xs = [] \<or> ar_path (last xs) \<noteq> ar_path x")
    case True
    have "ar_path y \<noteq> ar_path x" if y: "y \<in> set xs" for y
    proof
      assume eq: "ar_path y = ar_path x"
      have "ar_path y \<le> ar_path (last xs)"
        using s y by (cases xs rule: rev_cases) (auto simp: sorted_append)
      moreover have "ar_path (last xs) \<le> ar_path x" using le y by (intro bspec [OF le]) (cases xs; simp)
      ultimately show False using True eq y by (auto simp: antisym)
    qed
    with True IH le show ?thesis
      by (auto simp: unique_paths_snoc sorted_append) (metis (no_types, lifting) image_eqI image_iff)+
  next
    case False
    then have "ar_path x \<in> ar_path ` set xs" by (metis image_eqI last_in_set)
    with False IH show ?thesis by (auto simp: unique_paths_snoc)
  qed
qed

definition holds_manifest :: "intent_group \<Rightarrow> observation \<Rightarrow> index_artifact list \<Rightarrow> bool" where
  "holds_manifest g observed as \<longleftrightarrow>
     (\<forall>p \<in> ar_path ` set (ng_before g @ ng_desired g). observed p = map_of (map (\<lambda>a. (ar_path a, a)) as) p)"

lemma set_map_filter_Some: "set (List.map_filter f xs) = {y. \<exists>x \<in> set xs. f x = Some y}"
  by (induction xs) (auto split: option.splits)

lemma actual_hash_manifest:
  assumes "holds_manifest g observed as" and "as = ng_before g \<or> as = ng_desired g" and "distinct (map ar_path as)"
  shows "actual_hash g observed = compute_manifest_hash as"
proof -
  let ?all = "ng_before g @ ng_desired g"
  let ?m = "map_of (map (\<lambda>a. (ar_path a, a)) as)"
  have m: "?m p = Some a \<longleftrightarrow> a \<in> set as \<and> ar_path a = p" for p a
    using assms(3) by (auto simp: comp_def)
  have obs: "observed (ar_path b) = ?m (ar_path b)" if "b \<in> set ?all" for b
    using assms(1) that by (auto simp: holds_manifest_def)
  define xs where "xs = observed_artifacts g observed"
  have set: "set xs = set as"
  proof
    show "set xs \<subseteq> set as"
      using obs m by (auto simp: xs_def observed_artifacts_def set_map_filter_Some)
    show "set as \<subseteq> set xs"
    proof
      fix a assume a: "a \<in> set as"
      then have "a \<in> set ?all" using assms(2) by auto
      moreover from this have "observed (ar_path a) = Some a" using obs [of a] m a by simp
      ultimately show "a \<in> set xs"
        by (force simp: xs_def observed_artifacts_def set_map_filter_Some)
    qed
  qed
  have sorted: "sorted (map ar_path xs)" by (simp add: xs_def observed_artifacts_def)
  note u = unique_paths_props [OF sorted]
  have inj: "inj_on ar_path (set as)" using assms(3) by (simp add: distinct_map)
  have "set (unique_paths xs) = set as"
  proof
    show "set as \<subseteq> set (unique_paths xs)"
    proof
      fix a assume a: "a \<in> set as"
      then obtain b where "b \<in> set (unique_paths xs)" "ar_path b = ar_path a" using u set by (metis imageE imageI)
      with inj a u set show "a \<in> set (unique_paths xs)" by (metis inj_onD subsetD)
    qed
  qed (use u set in auto)
  then have "unique_paths xs = sort_key ar_path as"
    using u assms(3) inj
    by (intro map_sorted_distinct_set_unique [where f = ar_path]) (simp_all add: distinct_map)
  then show ?thesis by (simp add: actual_hash_def xs_def compute_manifest_hash_def sort_key_idem)
qed

lemma classify_fold:
  "fold (classify_step observed) gs (b, c)
    = (b \<and> (\<forall>g \<in> set gs. actual_hash g observed = before_manifest_hash g),
       c \<and> (\<forall>g \<in> set gs. actual_hash g observed = desired_manifest_hash g))"
  by (induction gs arbitrary: b c) (auto simp: classify_step_def)


subsection \<open>Claims\<close>

definition sample_intent_group :: "string \<Rightarrow> intent_group" where
  "sample_intent_group i = \<lparr>ng_id = ''shared/'' @ i, ng_layout = ''shared'', ng_system = ''snes'', ng_expected = 4,
     ng_before = [], ng_desired = [\<lparr>ar_path = ''snes/'' @ i, ar_size = 8, ar_sha256 = sha256_hex []\<rparr>]\<rparr>"

definition sample_intent :: commit_intent where
  "sample_intent = \<lparr>ci_schema = JInt 1, ci_operation = ''op'', ci_origin = ''dev'', ci_dataset = ''ds'',
     ci_index_generation = 5, ci_journal_generation = 9, ci_phase = ''prepared'', ci_started_at = ''now'',
     ci_groups = [sample_intent_group ''b'', sample_intent_group ''a''], ci_scope = ''group''\<rparr>"

lemma hex_ascii: "is_hex_char c \<Longrightarrow> of_char c < (128 :: nat)"
  by (auto simp: is_hex_char_def)

lemma sha_ascii: "\<forall>c \<in> set (sha256_hex m). of_char c < (128 :: nat)"
  using sha256_hex_chars [of m] hex_ascii by (auto simp: list_all_iff)

lemma wf_sample_intent: "wf_intent sample_intent"
  using sha_ascii
  by (simp add: wf_intent_def sample_intent_def sample_intent_group_def INDEX_SCHEMA_def strip_def is_space_def
      phases_def scopes_def wf_intent_group_def wf_manifest_def wf_intent_artifact_def)

text \<open>
  A well-formed intent that is written and loaded again is the same intent with its
  groups in the order of their identifiers, at every phase; clearing it leaves none.
\<close>

theorem intent_roundtrip:
  assumes "wf_intent i" and "\<And>p. disk_writable d p"
  shows "\<exists>d'. write_intent root (with_phase i phase) d = (None, d')
    \<and> load_intent root d' = Inr (Some (with_phase (intent_in_order i) phase))
    \<and> load_intent root (clear_intent root d') = Inr None"
proof -
  have "wf_intent (with_phase i phase)"
    using assms(1) by (cases phase) (simp_all add: wf_intent_def with_phase_def phases_def)
  from intent_roundtrip_json [OF this] show ?thesis
    using assms(2)
    by (simp add: write_intent_def atomic_write_def load_intent_def clear_intent_def intent_in_order_def with_phase_def)
qed

theorem intent_roundtrip_witness:
  "\<exists>d'. write_intent ''r'' (with_phase sample_intent PROMOTING) \<lparr>disk_docs = Map.empty, disk_writable = (\<lambda>_. True)\<rparr> = (None, d')
    \<and> (\<exists>i. load_intent ''r'' d' = Inr (Some i) \<and> ci_phase i = ''promoting'' \<and> map ng_id (ci_groups i) = [''shared/a'', ''shared/b''])"
proof -
  have "sort_key ng_id [sample_intent_group ''b'', sample_intent_group ''a''] = [sample_intent_group ''a'', sample_intent_group ''b'']"
    by (simp add: sample_intent_group_def)
  then have "map ng_id (ci_groups (intent_in_order sample_intent)) = [''shared/a'', ''shared/b'']"
    by (simp add: intent_in_order_def sample_intent_def) (simp add: sample_intent_group_def)
  with intent_roundtrip [OF wf_sample_intent, of "\<lparr>disk_docs = Map.empty, disk_writable = (\<lambda>_. True)\<rparr>" "''r''" PROMOTING]
  show ?thesis by (auto simp: with_phase_def)
qed

text \<open>
  C31: A payload that holds the desired manifest of every group is classified
  \<open>DESIRED\<close>; one that holds the before manifest of every group, where the hashes of some group's two
  manifests differ, is \<open>BEFORE\<close>; and one that mixes the two is \<open>UNKNOWN\<close>.
\<close>

lemma actual_desired:
  assumes "wf_intent i" and "g \<in> set (ci_groups i)" and "holds_manifest g observed (ng_desired g)"
  shows "actual_hash g observed = desired_manifest_hash g"
  using actual_hash_manifest [OF assms(3)] assms(1,2)
  by (simp add: wf_intent_def wf_intent_group_def wf_manifest_def desired_manifest_hash_def)

lemma actual_before:
  assumes "wf_intent i" and "g \<in> set (ci_groups i)" and "holds_manifest g observed (ng_before g)"
  shows "actual_hash g observed = before_manifest_hash g"
  using actual_hash_manifest [OF assms(3)] assms(1,2)
  by (simp add: wf_intent_def wf_intent_group_def wf_manifest_def before_manifest_hash_def)

lemma classify_iff:
  "classify_payload i observed =
     (if \<forall>g \<in> set (ci_groups i). actual_hash g observed = desired_manifest_hash g then DESIRED
      else if \<forall>g \<in> set (ci_groups i). actual_hash g observed = before_manifest_hash g then BEFORE else UNKNOWN)"
  by (simp add: classify_payload_def classify_fold)

definition mixed :: "commit_intent \<Rightarrow> observation \<Rightarrow> bool" where
  "mixed i observed \<longleftrightarrow>
     (\<exists>g \<in> set (ci_groups i). holds_manifest g observed (ng_before g) \<and> before_manifest_hash g \<noteq> desired_manifest_hash g)
   \<and> (\<exists>g \<in> set (ci_groups i). holds_manifest g observed (ng_desired g) \<and> before_manifest_hash g \<noteq> desired_manifest_hash g)"

theorem intent_classification:
  assumes "wf_intent i"
  shows "((\<forall>g \<in> set (ci_groups i). holds_manifest g observed (ng_desired g)) \<longrightarrow> classify_payload i observed = DESIRED)
    \<and> ((\<forall>g \<in> set (ci_groups i). holds_manifest g observed (ng_before g))
        \<and> (\<exists>g \<in> set (ci_groups i). before_manifest_hash g \<noteq> desired_manifest_hash g)
       \<longrightarrow> classify_payload i observed = BEFORE)
    \<and> (mixed i observed \<longrightarrow> classify_payload i observed = UNKNOWN)"
proof (intro conjI impI)
  assume "\<forall>g \<in> set (ci_groups i). holds_manifest g observed (ng_desired g)"
  with actual_desired [OF assms] show "classify_payload i observed = DESIRED" by (simp add: classify_iff)
next
  assume *: "(\<forall>g \<in> set (ci_groups i). holds_manifest g observed (ng_before g))
        \<and> (\<exists>g \<in> set (ci_groups i). before_manifest_hash g \<noteq> desired_manifest_hash g)"
  then have "\<forall>g \<in> set (ci_groups i). actual_hash g observed = before_manifest_hash g"
    using actual_before [OF assms] by blast
  moreover from this * have "\<not> (\<forall>g \<in> set (ci_groups i). actual_hash g observed = desired_manifest_hash g)" by auto
  ultimately show "classify_payload i observed = BEFORE" by (simp add: classify_iff)
next
  assume "mixed i observed"
  then obtain g h where "g \<in> set (ci_groups i)" "actual_hash g observed = before_manifest_hash g"
      "before_manifest_hash g \<noteq> desired_manifest_hash g"
    and "h \<in> set (ci_groups i)" "actual_hash h observed = desired_manifest_hash h"
      "before_manifest_hash h \<noteq> desired_manifest_hash h"
    unfolding mixed_def using actual_before [OF assms] actual_desired [OF assms] by blast
  then have "\<not> (\<forall>g \<in> set (ci_groups i). actual_hash g observed = desired_manifest_hash g)"
    "\<not> (\<forall>g \<in> set (ci_groups i). actual_hash g observed = before_manifest_hash g)" by force+
  then show "classify_payload i observed = UNKNOWN" unfolding classify_iff by (simp only: if_False)
qed

theorem intent_classification_witness:
  "classify_payload sample_intent
     [''snes/a'' \<mapsto> \<lparr>ar_path = ''snes/a'', ar_size = 8, ar_sha256 = sha256_hex []\<rparr>,
      ''snes/b'' \<mapsto> \<lparr>ar_path = ''snes/b'', ar_size = 8, ar_sha256 = sha256_hex []\<rparr>] = DESIRED"
  using intent_classification [OF wf_sample_intent, of "[''snes/a'' \<mapsto> \<lparr>ar_path = ''snes/a'', ar_size = 8, ar_sha256 = sha256_hex []\<rparr>,
      ''snes/b'' \<mapsto> \<lparr>ar_path = ''snes/b'', ar_size = 8, ar_sha256 = sha256_hex []\<rparr>]"]
  by (simp add: holds_manifest_def sample_intent_def sample_intent_group_def)

text \<open>A stored intent whose phase is a list raises \<open>TypeError\<close>, which the readers do not expect.\<close>

lemma intent_unhashable_phase:
  assumes "disk_docs d (intent_path root) = Some \<lparr>doc_text = t, doc_json = Some (JObj [(''phase'', JArr []), (''schema_version'', JInt 1)])\<rparr>"
  shows "load_intent root d = Inl TypeError"
  using assms by (simp add: load_intent_def intent_from_dict_def INDEX_SCHEMA_def member_text_def)

end
