(* ===== verification/CommitLock.thy ===== *)
theory CommitLock
  imports Prelude
begin

text \<open>
  The re-entrant commit lock (\<open>infrastructure/savesync_commit.py\<close>): per process a thread lock with a
  nesting depth over one exclusive file lock shared by all processes and devices.  A step relation
  over the threads of all processes, its invariant, mutual exclusion and progress.
\<close>

subsection \<open>State\<close>

text \<open>
  The lock object of a process: the owner and count of its \<open>RLock\<close>, the depth, and whether it keeps
  an open handle.  \<open>entering\<close> says that the owner has taken the \<open>RLock\<close> but not yet the lock itself.
\<close>

record reentrant_lock =
  rl_owner :: "nat option"
  rl_count :: nat
  rl_depth :: nat
  rl_handle :: bool
  rl_entering :: bool

text \<open>
  All processes, the holder of the file lock, and, as a history of the run, how often each thread has
  entered the body of \<open>hold\<close> without having left it.
\<close>

record lock_world =
  lw_locks :: "nat \<Rightarrow> reentrant_lock"
  lw_flock :: "nat option"
  lw_body :: "nat \<Rightarrow> nat \<Rightarrow> nat"

definition free_lock :: reentrant_lock where
  "free_lock = \<lparr>rl_owner = None, rl_count = 0, rl_depth = 0, rl_handle = False, rl_entering = False\<rparr>"

definition initial_world :: lock_world where
  "initial_world = \<lparr>lw_locks = (\<lambda>_. free_lock), lw_flock = None, lw_body = (\<lambda>_ _. 0)\<rparr>"

definition set_lock :: "nat \<Rightarrow> nat \<Rightarrow> reentrant_lock \<Rightarrow> nat \<Rightarrow> nat option \<Rightarrow> lock_world \<Rightarrow> lock_world" where
  "set_lock p t l n f w = \<lparr>lw_locks = (lw_locks w)(p := l), lw_flock = f,
     lw_body = (lw_body w)(p := (lw_body w p)(t := n))\<rparr>"

subsection \<open>Operations\<close>

text \<open>\<open>RLock.acquire\<close>: succeeds for the owner, or when nobody owns it; otherwise the thread waits.\<close>

definition acquire_rlock :: "nat \<Rightarrow> reentrant_lock \<Rightarrow> reentrant_lock option" where
  "acquire_rlock t l =
     (if rl_entering l then None
      else if rl_owner l = None \<or> rl_owner l = Some t
      then Some (l\<lparr>rl_owner := Some t, rl_count := rl_count l + 1, rl_entering := True\<rparr>) else None)"

definition release_rlock :: "reentrant_lock \<Rightarrow> reentrant_lock" where
  "release_rlock l =
     l\<lparr>rl_owner := (if rl_count l = 1 then None else rl_owner l), rl_count := rl_count l - 1, rl_entering := False\<rparr>"

text \<open>\<open>if self._depth == 0\<close>: open and lock the handle; then \<open>self._depth += 1\<close>.\<close>

definition enter :: "reentrant_lock \<Rightarrow> reentrant_lock" where
  "enter l = l\<lparr>rl_handle := (if rl_depth l = 0 then True else rl_handle l), rl_depth := rl_depth l + 1, rl_entering := False\<rparr>"

text \<open>\<open>self._depth -= 1\<close>; at zero the handle is unlocked and closed; then the \<open>RLock\<close> is released.\<close>

definition leave :: "reentrant_lock \<Rightarrow> reentrant_lock" where
  "leave l = release_rlock (l\<lparr>rl_depth := rl_depth l - 1, rl_handle := (if rl_depth l = 1 then False else rl_handle l)\<rparr>)"

text \<open>
  A thread acquires the thread lock, enters the body with or without taking the file lock, gives up when
  the file lock cannot be taken, and leaves a body it is in unless it is entering again.
\<close>

inductive lock_step :: "lock_world \<Rightarrow> nat \<times> nat \<Rightarrow> lock_world \<Rightarrow> bool" where
  acquire: "acquire_rlock t (lw_locks w p) = Some l \<Longrightarrow> lock_step w (p, t) (set_lock p t l (lw_body w p t) (lw_flock w) w)"
| enter_first: "rl_entering (lw_locks w p) \<Longrightarrow> rl_owner (lw_locks w p) = Some t \<Longrightarrow> rl_depth (lw_locks w p) = 0 \<Longrightarrow>
    lw_flock w = None \<Longrightarrow> lock_step w (p, t) (set_lock p t (enter (lw_locks w p)) (lw_body w p t + 1) (Some p) w)"
| enter_failed: "rl_entering (lw_locks w p) \<Longrightarrow> rl_owner (lw_locks w p) = Some t \<Longrightarrow> rl_depth (lw_locks w p) = 0 \<Longrightarrow>
    lock_step w (p, t) (set_lock p t (release_rlock (lw_locks w p)) (lw_body w p t) (lw_flock w) w)"
| enter_again: "rl_entering (lw_locks w p) \<Longrightarrow> rl_owner (lw_locks w p) = Some t \<Longrightarrow> 0 < rl_depth (lw_locks w p) \<Longrightarrow>
    lock_step w (p, t) (set_lock p t (enter (lw_locks w p)) (lw_body w p t + 1) (lw_flock w) w)"
| leave_inner: "0 < lw_body w p t \<Longrightarrow> \<not> (rl_entering (lw_locks w p) \<and> rl_owner (lw_locks w p) = Some t) \<Longrightarrow>
    rl_depth (lw_locks w p) \<noteq> 1 \<Longrightarrow> lock_step w (p, t) (set_lock p t (leave (lw_locks w p)) (lw_body w p t - 1) (lw_flock w) w)"
| leave_last: "0 < lw_body w p t \<Longrightarrow> \<not> (rl_entering (lw_locks w p) \<and> rl_owner (lw_locks w p) = Some t) \<Longrightarrow>
    rl_depth (lw_locks w p) = 1 \<Longrightarrow> lock_step w (p, t) (set_lock p t (leave (lw_locks w p)) (lw_body w p t - 1) None w)"

inductive lock_reachable :: "lock_world \<Rightarrow> bool" where
  start: "lock_reachable initial_world"
| step: "lock_reachable w \<Longrightarrow> lock_step w pt w' \<Longrightarrow> lock_reachable w'"

inductive lock_path :: "lock_world \<Rightarrow> lock_world \<Rightarrow> bool" where
  here: "lock_path w w"
| more: "lock_step w pt w' \<Longrightarrow> lock_path w' w'' \<Longrightarrow> lock_path w w''"

inductive_cases lock_stepE: "lock_step w (p, t) w'"

subsection \<open>Invariant\<close>

definition lock_ok :: "reentrant_lock \<Rightarrow> bool" where
  "lock_ok l \<longleftrightarrow> rl_count l = rl_depth l + (if rl_entering l then 1 else 0)
     \<and> (rl_owner l = None \<longleftrightarrow> rl_count l = 0) \<and> (rl_handle l \<longleftrightarrow> 0 < rl_depth l)"

definition world_ok :: "lock_world \<Rightarrow> bool" where
  "world_ok w \<longleftrightarrow> (\<forall>p. lock_ok (lw_locks w p)) \<and> (\<forall>p. lw_flock w = Some p \<longleftrightarrow> 0 < rl_depth (lw_locks w p))
     \<and> (\<forall>p t. lw_body w p t = (if rl_owner (lw_locks w p) = Some t then rl_depth (lw_locks w p) else 0))"

lemma lock_ops_ok:
  "lock_ok l \<Longrightarrow> acquire_rlock t l = Some l' \<Longrightarrow> lock_ok l' \<and> rl_depth l' = rl_depth l
     \<and> rl_owner l' = Some t \<and> (rl_owner l = None \<and> rl_depth l = 0 \<or> rl_owner l = Some t)"
  "lock_ok l \<Longrightarrow> rl_entering l \<Longrightarrow> lock_ok (enter l) \<and> rl_depth (enter l) = rl_depth l + 1 \<and> rl_owner (enter l) = rl_owner l"
  "lock_ok l \<Longrightarrow> rl_entering l \<Longrightarrow> rl_depth l = 0 \<Longrightarrow> lock_ok (release_rlock l) \<and> rl_depth (release_rlock l) = 0"
  "lock_ok l \<Longrightarrow> \<not> rl_entering l \<Longrightarrow> 0 < rl_depth l \<Longrightarrow> lock_ok (leave l) \<and> rl_depth (leave l) = rl_depth l - 1
     \<and> (rl_depth l \<noteq> 1 \<longrightarrow> rl_owner (leave l) = rl_owner l)"
  by (auto simp: lock_ok_def acquire_rlock_def enter_def release_rlock_def leave_def split: if_splits)

text \<open>Replacing the lock of one process keeps the invariant when the file lock and the history follow it.\<close>

lemma world_ok_set:
  assumes "world_ok w" and "lock_ok l" and "\<forall>q. f = Some q \<longleftrightarrow> 0 < rl_depth (if q = p then l else lw_locks w q)"
    and "n = (if rl_owner l = Some t then rl_depth l else 0)"
    and "\<forall>u. u \<noteq> t \<longrightarrow> rl_owner l = Some u \<and> 0 < rl_depth l \<or> rl_owner (lw_locks w p) = Some u \<and> 0 < rl_depth (lw_locks w p) \<longrightarrow> False"
  shows "world_ok (set_lock p t l n f w)"
proof -
  have "lw_body w p u = (if rl_owner l = Some u then rl_depth l else 0)" if "u \<noteq> t" for u
    using assms(1,5) that unfolding world_ok_def by (metis not_gr_zero)
  then show ?thesis using assms by (auto simp: world_ok_def set_lock_def)
qed

lemma flock_other:
  assumes "world_ok w" and "0 < rl_depth (lw_locks w p)" and "q \<noteq> p"
  shows "rl_depth (lw_locks w q) = 0"
proof -
  have "lw_flock w = Some p" using assms(1,2) by (simp add: world_ok_def)
  then have "\<not> 0 < rl_depth (lw_locks w q)" using assms(1,3) unfolding world_ok_def by (metis option.inject)
  then show ?thesis by simp
qed

text \<open>A thread in the body owns the thread lock, which is not being entered by another.\<close>

lemma in_body:
  assumes "world_ok w" and "0 < lw_body w p t" and "\<not> (rl_entering (lw_locks w p) \<and> rl_owner (lw_locks w p) = Some t)"
  shows "rl_owner (lw_locks w p) = Some t \<and> lw_body w p t = rl_depth (lw_locks w p) \<and> \<not> rl_entering (lw_locks w p)"
proof -
  have "lw_body w p t = (if rl_owner (lw_locks w p) = Some t then rl_depth (lw_locks w p) else 0)"
    using assms(1) by (simp add: world_ok_def)
  then show ?thesis using assms(2,3) by (simp split: if_splits)
qed

lemma lock_step_ok:
  assumes "lock_step w pt w'" and ok: "world_ok w"
  shows "world_ok w'"
  using assms(1)
proof cases
  case (acquire t p l)
  have l: "lock_ok (lw_locks w p)" and b: "lw_body w p t = (if rl_owner (lw_locks w p) = Some t then rl_depth (lw_locks w p) else 0)"
    and f: "\<forall>q. lw_flock w = Some q \<longleftrightarrow> 0 < rl_depth (lw_locks w q)" using ok by (simp_all add: world_ok_def)
  show ?thesis unfolding acquire(2)
    using lock_ops_ok(1) [OF l acquire(3)] b f by (intro world_ok_set [OF ok]) auto
next
  case (enter_first p t)
  have l: "lock_ok (lw_locks w p)" and b: "lw_body w p t = (if rl_owner (lw_locks w p) = Some t then rl_depth (lw_locks w p) else 0)"
    and f: "\<forall>q. lw_flock w = Some q \<longleftrightarrow> 0 < rl_depth (lw_locks w q)" using ok by (simp_all add: world_ok_def)
  show ?thesis unfolding enter_first(2)
    using lock_ops_ok(2) [OF l enter_first(3)] b f enter_first by (intro world_ok_set [OF ok]) auto
next
  case (enter_failed p t)
  have l: "lock_ok (lw_locks w p)" and b: "lw_body w p t = (if rl_owner (lw_locks w p) = Some t then rl_depth (lw_locks w p) else 0)"
    and f: "\<forall>q. lw_flock w = Some q \<longleftrightarrow> 0 < rl_depth (lw_locks w q)" using ok by (simp_all add: world_ok_def)
  show ?thesis unfolding enter_failed(2)
    using lock_ops_ok(3) [OF l enter_failed(3,5)] b f enter_failed by (intro world_ok_set [OF ok]) auto
next
  case (enter_again p t)
  have l: "lock_ok (lw_locks w p)" and b: "lw_body w p t = (if rl_owner (lw_locks w p) = Some t then rl_depth (lw_locks w p) else 0)"
    and f: "\<forall>q. lw_flock w = Some q \<longleftrightarrow> 0 < rl_depth (lw_locks w q)" using ok by (simp_all add: world_ok_def)
  show ?thesis unfolding enter_again(2)
    using lock_ops_ok(2) [OF l enter_again(3)] b f enter_again by (intro world_ok_set [OF ok]) auto
next
  case (leave_inner p t)
  have l: "lock_ok (lw_locks w p)" and f: "\<forall>q. lw_flock w = Some q \<longleftrightarrow> 0 < rl_depth (lw_locks w q)" using ok by (simp_all add: world_ok_def)
  note i = in_body [OF ok leave_inner(3,4)]
  show ?thesis unfolding leave_inner(2)
    using lock_ops_ok(4) [OF l] i f leave_inner by (intro world_ok_set [OF ok]) auto
next
  case (leave_last p t)
  have l: "lock_ok (lw_locks w p)" using ok by (simp add: world_ok_def)
  note i = in_body [OF ok leave_last(3,4)]
  have "rl_depth (lw_locks w q) = 0" if "q \<noteq> p" for q using flock_other [OF ok _ that] leave_last(5) by simp
  then show ?thesis unfolding leave_last(2)
    using lock_ops_ok(4) [OF l] i leave_last by (intro world_ok_set [OF ok]) auto
qed

lemma lock_reachable_ok: "lock_reachable w \<Longrightarrow> world_ok w"
proof (induction rule: lock_reachable.induct)
  case start
  then show ?case by (simp add: world_ok_def initial_world_def free_lock_def lock_ok_def)
next
  case (step w pt w')
  then show ?case by (blast intro: lock_step_ok)
qed

text \<open>A thread is inside when it has entered the body and not left it as often.\<close>

definition inside :: "lock_world \<Rightarrow> nat \<Rightarrow> nat \<Rightarrow> bool" where
  "inside w p t \<longleftrightarrow> 0 < lw_body w p t"

lemma inside_iff: "world_ok w \<Longrightarrow> inside w p t \<longleftrightarrow> rl_owner (lw_locks w p) = Some t \<and> 0 < rl_depth (lw_locks w p)"
  by (simp add: inside_def world_ok_def)

text \<open>
  C29: In every reachable state at most one thread of one process is inside the lock, it
  keeps the file handle, and the file lock is held by exactly its process.
\<close>

theorem lock_exclusive:
  assumes "lock_reachable w" and "inside w p t" and "inside w q u"
  shows "p = q \<and> t = u \<and> lw_flock w = Some p \<and> rl_handle (lw_locks w p)"
proof -
  have ok: "world_ok w" by (rule lock_reachable_ok [OF assms(1)])
  have p: "rl_owner (lw_locks w p) = Some t" "0 < rl_depth (lw_locks w p)"
    and q: "rl_owner (lw_locks w q) = Some u" "0 < rl_depth (lw_locks w q)" using assms(2,3) by (simp_all add: inside_iff [OF ok])
  have "p = q" using flock_other [OF ok p(2), of q] q(2) by auto
  then show ?thesis using p q ok by (auto simp: world_ok_def lock_ok_def)
qed

theorem lock_exclusive_witness:
  "\<exists>w. lock_reachable w \<and> inside w 1 7 \<and> lw_flock w = Some 1"
proof -
  let ?a = "free_lock\<lparr>rl_owner := Some 7, rl_count := 1, rl_entering := True\<rparr>"
  define w1 where "w1 = set_lock 1 7 ?a 0 None initial_world"
  define w2 where "w2 = set_lock 1 7 (enter ?a) 1 (Some 1) w1"
  have "lock_step initial_world (1, 7) (set_lock 1 7 ?a (lw_body initial_world 1 7) (lw_flock initial_world) initial_world)"
    by (rule acquire) (simp add: acquire_rlock_def initial_world_def free_lock_def)
  then have r1: "lock_reachable w1"
    using lock_reachable.step [OF lock_reachable.start] by (simp add: w1_def initial_world_def)
  have "lock_step w1 (1, 7) (set_lock 1 7 (enter (lw_locks w1 1)) (lw_body w1 1 7 + 1) (Some 1) w1)"
    by (rule enter_first) (simp_all add: w1_def set_lock_def initial_world_def free_lock_def)
  then have "lock_reachable w2"
    using lock_reachable.step [OF r1] by (simp add: w2_def) (simp add: w1_def set_lock_def)
  moreover have "inside w2 1 7" by (simp add: inside_def w2_def set_lock_def)
  ultimately show ?thesis using lock_exclusive by blast
qed

subsection \<open>Progress\<close>

text \<open>
  What is left to do before a process is free again: leaving every level it is in, and first
  completing the entry it is waiting for.
\<close>

definition pending :: "reentrant_lock \<Rightarrow> nat" where
  "pending l = 2 * rl_depth l + (if rl_entering l then 3 else 0)"

lemma pending_ops:
  "rl_entering l \<Longrightarrow> pending (enter l) < pending l"
  "\<not> rl_entering l \<Longrightarrow> 0 < rl_depth l \<Longrightarrow> pending (leave l) < pending l"
  by (auto simp: pending_def enter_def leave_def release_rlock_def)

lemma lock_idle: "lock_ok l \<Longrightarrow> pending l = 0 \<Longrightarrow> l = free_lock"
  by (cases l) (auto simp: lock_ok_def pending_def free_lock_def split: if_splits)

lemma step_towards_free:
  assumes ok: "world_ok w" and "pending (lw_locks w p) \<noteq> 0"
  shows "\<exists>q t l n f. lock_step w (q, t) (set_lock q t l n f w) \<and> pending l < pending (lw_locks w q)"
proof -
  define q where "q = (case lw_flock w of None \<Rightarrow> p | Some q \<Rightarrow> q)"
  let ?l = "lw_locks w q"
  have l: "lock_ok ?l" using ok by (simp add: world_ok_def)
  have busy: "0 < rl_depth ?l \<or> lw_flock w = None \<and> rl_depth ?l = 0 \<and> rl_entering ?l"
    using assms by (auto simp: q_def world_ok_def pending_def split: option.splits if_splits)
  then obtain t where t: "rl_owner ?l = Some t"
    using l by (cases "rl_owner ?l") (auto simp: lock_ok_def)
  show ?thesis
  proof (cases "rl_entering ?l")
    case True
    show ?thesis
    proof (cases "rl_depth ?l = 0")
      case depth: True
      with busy have "lw_flock w = None" by simp
      from enter_first [OF True t depth this] pending_ops(1) [OF True] show ?thesis by blast
    next
      case False
      with enter_again [OF True t] pending_ops(1) [OF True] show ?thesis by blast
    qed
  next
    case False
    with busy have depth: "0 < rl_depth ?l" by simp
    then have body: "0 < lw_body w q t" using ok t by (simp add: world_ok_def)
    have "\<exists>n f. lock_step w (q, t) (set_lock q t (leave ?l) n f w)"
      using leave_last [OF body] leave_inner [OF body] False by blast
    with pending_ops(2) [OF False depth] show ?thesis by blast
  qed
qed

definition idle_outside :: "nat set \<Rightarrow> lock_world \<Rightarrow> bool" where
  "idle_outside A w \<longleftrightarrow> (\<forall>p. p \<notin> A \<longrightarrow> lw_locks w p = free_lock)"

lemma world_idle:
  assumes "world_ok w" and "\<forall>p. pending (lw_locks w p) = 0"
  shows "w = initial_world"
proof -
  have l: "lw_locks w p = free_lock" for p using assms lock_idle by (simp add: world_ok_def)
  then have "lw_flock w = None" using assms(1) by (cases "lw_flock w") (auto simp: world_ok_def free_lock_def)
  moreover have "lw_body w p t = 0" for p t using assms(1) l by (simp add: world_ok_def free_lock_def)
  ultimately show ?thesis using l by (cases w) (auto simp: initial_world_def)
qed

lemma drains:
  assumes "finite A" and "world_ok w" and "idle_outside A w"
  shows "lock_path w initial_world"
  using assms(2,3)
proof (induction "\<Sum>p\<in>A. pending (lw_locks w p)" arbitrary: w rule: less_induct)
  case less
  show ?case
  proof (cases "\<exists>p. pending (lw_locks w p) \<noteq> 0")
    case True
    then obtain q t l n f where q: "lock_step w (q, t) (set_lock q t l n f w)" "pending l < pending (lw_locks w q)"
      using step_towards_free [OF less.prems(1)] by blast
    let ?w = "set_lock q t l n f w"
    have A: "q \<in> A" using q(2) less.prems(2) by (auto simp: idle_outside_def free_lock_def pending_def)
    have "(\<Sum>p\<in>A. pending (lw_locks ?w p)) < (\<Sum>p\<in>A. pending (lw_locks w p))"
      using assms(1) A q(2) by (intro sum_strict_mono_ex1) (auto simp: set_lock_def)
    moreover have "idle_outside A ?w" using less.prems(2) A by (auto simp: idle_outside_def set_lock_def)
    ultimately have "lock_path ?w initial_world"
      using less.hyps lock_step_ok [OF q(1) less.prems(1)] by blast
    with q(1) show ?thesis by (rule lock_path.more)
  next
    case False
    then show ?thesis using world_idle [OF less.prems(1)] by (simp add: lock_path.here)
  qed
qed

lemma lock_step_local: "lock_step w pt w' \<Longrightarrow> q \<noteq> fst pt \<Longrightarrow> lw_locks w' q = lw_locks w q"
  by (induction rule: lock_step.induct) (simp_all add: set_lock_def)

lemma reachable_finite: "lock_reachable w \<Longrightarrow> \<exists>A. finite A \<and> idle_outside A w"
proof (induction rule: lock_reachable.induct)
  case start
  then show ?case by (auto simp: idle_outside_def initial_world_def)
next
  case (step w pt w')
  then obtain A where A: "finite A" "idle_outside A w" by blast
  have "idle_outside (insert (fst pt) A) w'"
    using A(2) lock_step_local [OF step(2)] by (simp add: idle_outside_def)
  with A(1) show ?case by (intro exI [of _ "insert (fst pt) A"]) simp
qed

text \<open>
  C30: From every reachable state the threads can go on until every lock is free again, and
  a thread that is inside can always enter once more without waiting for the file lock.
\<close>

theorem lock_progress:
  assumes "lock_reachable w"
  shows "lock_path w initial_world
    \<and> (\<forall>p t. inside w p t \<and> \<not> rl_entering (lw_locks w p) \<longrightarrow>
        (\<exists>w1 w2. lock_step w (p, t) w1 \<and> lock_step w1 (p, t) w2 \<and> inside w2 p t
           \<and> rl_depth (lw_locks w2 p) = rl_depth (lw_locks w p) + 1 \<and> lw_flock w2 = lw_flock w))"
proof
  show "lock_path w initial_world"
    using reachable_finite [OF assms] drains [OF _ lock_reachable_ok [OF assms]] by blast
  show "\<forall>p t. inside w p t \<and> \<not> rl_entering (lw_locks w p) \<longrightarrow>
        (\<exists>w1 w2. lock_step w (p, t) w1 \<and> lock_step w1 (p, t) w2 \<and> inside w2 p t
           \<and> rl_depth (lw_locks w2 p) = rl_depth (lw_locks w p) + 1 \<and> lw_flock w2 = lw_flock w)"
  proof (intro allI impI)
    fix p t assume in_lock: "inside w p t \<and> \<not> rl_entering (lw_locks w p)"
    let ?l = "lw_locks w p"
    let ?a = "?l\<lparr>rl_owner := Some t, rl_count := rl_count ?l + 1, rl_entering := True\<rparr>"
    let ?w1 = "set_lock p t ?a (lw_body w p t) (lw_flock w) w"
    have own: "rl_owner ?l = Some t" "0 < rl_depth ?l"
      using in_lock inside_iff [OF lock_reachable_ok [OF assms]] by auto
    have s1: "lock_step w (p, t) ?w1"
      using in_lock own by (intro acquire) (simp add: acquire_rlock_def)
    have s2: "lock_step ?w1 (p, t) (set_lock p t (enter (lw_locks ?w1 p)) (lw_body ?w1 p t + 1) (lw_flock ?w1) ?w1)"
      using own by (intro enter_again) (simp_all add: set_lock_def)
    show "\<exists>w1 w2. lock_step w (p, t) w1 \<and> lock_step w1 (p, t) w2 \<and> inside w2 p t
           \<and> rl_depth (lw_locks w2 p) = rl_depth (lw_locks w p) + 1 \<and> lw_flock w2 = lw_flock w"
      by (intro exI conjI, rule s1, rule s2) (simp_all add: set_lock_def enter_def inside_def)
  qed
qed

theorem lock_progress_witness:
  "lock_path (set_lock 1 7 (free_lock\<lparr>rl_owner := Some 7, rl_count := 1, rl_entering := True\<rparr>) 0 None initial_world) initial_world"
proof -
  have "lock_step initial_world (1, 7) (set_lock 1 7 (free_lock\<lparr>rl_owner := Some 7, rl_count := 1, rl_entering := True\<rparr>)
      (lw_body initial_world 1 7) (lw_flock initial_world) initial_world)"
    by (rule acquire) (simp add: acquire_rlock_def initial_world_def free_lock_def)
  from lock_progress [OF lock_reachable.step [OF lock_reachable.start this]] show ?thesis
    by (simp add: initial_world_def)
qed

end
