(* ===== verification/PosixPaths.thy ===== *)
theory PosixPaths
  imports PyJson
begin

text \<open>
  What the path-handling code uses of \<open>str\<close>, \<open>posixpath\<close> and \<open>PurePosixPath\<close>, and the logical keys of
  the remote-data contract (\<open>core/remote_data.py\<close>).
\<close>

subsection \<open>Strings\<close>

text \<open>\<open>s.replace("\\", "/")\<close>\<close>

definition forward_slashes :: "string \<Rightarrow> string" where
  "forward_slashes s = map (\<lambda>c. if c = CHR 0x5C then CHR ''/'' else c) s"

text \<open>\<open>s.split()\<close>: the maximal runs of characters that are not whitespace.\<close>

fun words_from :: "string \<Rightarrow> string \<Rightarrow> string list" where
  "words_from w [] = (if w = [] then [] else [w])"
| "words_from w (c # s) =
     (if is_space c then (if w = [] then words_from [] s else w # words_from [] s) else words_from (w @ [c]) s)"

definition words :: "string \<Rightarrow> string list" where
  "words s = words_from [] s"

text \<open>\<open>s.splitlines()\<close> below code point 256; a carriage return and a line feed end one line.\<close>

definition is_line_end :: "char \<Rightarrow> bool" where
  "is_line_end c \<longleftrightarrow> of_char c \<in> {10..13::nat} \<or> of_char c \<in> {28..30::nat} \<or> of_char c = (133::nat)"

fun lines_from :: "string \<Rightarrow> string \<Rightarrow> string list" where
  "lines_from l [] = (if l = [] then [] else [l])"
| "lines_from l [c] = (if is_line_end c then [l] else [l @ [c]])"
| "lines_from l (c # c' # s) =
     (if c = CHR 0x0D \<and> c' = CHR 0x0A then l # lines_from [] s
      else if is_line_end c then l # lines_from [] (c' # s)
      else lines_from (l @ [c]) (c' # s))"

definition splitlines :: "string \<Rightarrow> string list" where
  "splitlines s = lines_from [] s"

text \<open>Case mapping of one character: the letters of ASCII, and of Latin-1 for \<open>lower\<close>.\<close>

definition upper_char :: "char \<Rightarrow> char" where
  "upper_char c = (let n = (of_char c :: nat) in if 97 \<le> n \<and> n \<le> 122 then char_of (n - 32) else c)"

definition lower_char :: "char \<Rightarrow> char" where
  "lower_char c = (let n = (of_char c :: nat) in
     if 65 \<le> n \<and> n \<le> 90 \<or> 192 \<le> n \<and> n \<le> 222 \<and> n \<noteq> 215 then char_of (n + 32) else c)"

definition ascii_digit :: "char \<Rightarrow> bool" where
  "ascii_digit c \<longleftrightarrow> (let n = (of_char c :: nat) in 48 \<le> n \<and> n \<le> 57)"

text \<open>\<open>int(s)\<close> of a text: a sign, digits, single underscores between digits; \<open>None\<close> is \<open>ValueError\<close>.\<close>

fun digits_value :: "int \<Rightarrow> string \<Rightarrow> int option" where
  "digits_value v [] = Some v"
| "digits_value v [c] = (if ascii_digit c then Some (10 * v + (of_char c - 48)) else None)"
| "digits_value v (c # c' # s) =
     (if ascii_digit c then
        (if c' = CHR ''_'' then (if s = [] then None else digits_value (10 * v + (of_char c - 48)) s)
         else digits_value (10 * v + (of_char c - 48)) (c' # s))
      else None)"

definition py_int :: "string \<Rightarrow> int option" where
  "py_int s =
     (case strip s of
        [] \<Rightarrow> None
      | c # t \<Rightarrow>
          if c = CHR ''-'' then (if t = [] then None else map_option uminus (digits_value 0 t))
          else if c = CHR ''+'' then (if t = [] then None else digits_value 0 t)
          else digits_value 0 (c # t))"

subsection \<open>posixpath\<close>

definition normal_step :: "bool \<Rightarrow> string \<Rightarrow> string list \<Rightarrow> string list" where
  "normal_step rooted c comps =
     (if c = '''' \<or> c = ''.'' then comps
      else if c \<noteq> ''..'' \<or> (\<not> rooted \<and> comps = []) \<or> (comps \<noteq> [] \<and> last comps = ''..'')
      then comps @ [c]
      else if comps \<noteq> [] then butlast comps else comps)"

definition leading_slashes :: "string \<Rightarrow> nat" where
  "leading_slashes p =
     (if startswith p ''//'' \<and> \<not> startswith p ''///'' then 2 else if startswith p ''/'' then 1 else 0)"

definition normal_comps :: "string \<Rightarrow> string list" where
  "normal_comps p = fold (normal_step (leading_slashes p \<noteq> 0)) (split_on CHR ''/'' p) []"

definition normpath :: "string \<Rightarrow> string" where
  "normpath p =
     (if p = [] then ''.''
      else let path = replicate (leading_slashes p) CHR ''/'' @ join ''/'' (normal_comps p)
           in if path = [] then ''.'' else path)"

definition path_join :: "string \<Rightarrow> string \<Rightarrow> string" where
  "path_join a b =
     (if startswith b ''/'' then b else if a = [] \<or> endswith a ''/'' then a @ b else a @ ''/'' @ b)"

subsection \<open>PurePosixPath\<close>

definition is_absolute :: "string \<Rightarrow> bool" where
  "is_absolute p \<longleftrightarrow> startswith p ''/''"

definition root_of :: "string \<Rightarrow> string" where
  "root_of p = replicate (leading_slashes p) CHR ''/''"

definition tail_parts :: "string \<Rightarrow> string list" where
  "tail_parts p = filter (\<lambda>c. c \<noteq> '''' \<and> c \<noteq> ''.'') (split_on CHR ''/'' p)"

definition path_parts :: "string \<Rightarrow> string list" where
  "path_parts p = (if is_absolute p then root_of p # tail_parts p else tail_parts p)"

definition as_posix :: "string \<Rightarrow> string" where
  "as_posix p = (let s = root_of p @ join ''/'' (tail_parts p) in if s = [] then ''.'' else s)"

definition path_name :: "string \<Rightarrow> string" where
  "path_name p = (if tail_parts p = [] then [] else last (tail_parts p))"

text \<open>The position of the last dot, and the suffix it starts unless it is the first or the last character.\<close>

definition suffix_of :: "string \<Rightarrow> string" where
  "suffix_of name =
     (let tail = takeWhile (\<lambda>c. c \<noteq> CHR ''.'') (rev name); i = length name - length tail
      in if CHR ''.'' \<in> set name \<and> 1 < i \<and> tail \<noteq> [] then drop (i - 1) name else [])"

definition stem_of :: "string \<Rightarrow> string" where
  "stem_of name = take (length name - length (suffix_of name)) name"

subsection \<open>Logical keys\<close>

definition validate_logical_key :: "string \<Rightarrow> bool \<Rightarrow> sync_error + string" where
  "validate_logical_key key allow_empty =
     (let raw = forward_slashes key
      in if raw = [] \<and> \<not> allow_empty \<or> is_absolute raw
            \<or> (\<exists>part \<in> set (path_parts raw). part \<in> {'''', ''.'', ''..''})
            \<or> as_posix raw \<noteq> raw \<and> raw \<noteq> []
         then Inl (ValueError (''Unsafe remote-data logical key: '' @ repr_str key))
         else Inr (if raw = [] then [] else as_posix raw))"

subsection \<open>Canonical paths\<close>

definition clean :: "string list \<Rightarrow> bool" where
  "clean ps \<longleftrightarrow> (\<forall>p \<in> set ps. p \<notin> {'''', ''.'', ''..''} \<and> CHR ''/'' \<notin> set p)"

lemma clean_append [simp]: "clean (ps @ qs) \<longleftrightarrow> clean ps \<and> clean qs"
  by (auto simp: clean_def)

lemma clean_Nil [simp]: "clean []"
  by (simp add: clean_def)

lemma clean_butlast: "clean ps \<Longrightarrow> clean (butlast ps)"
  by (auto simp: clean_def dest: in_set_butlastD)

lemma split_clean: "clean ps \<Longrightarrow> ps \<noteq> [] \<Longrightarrow> split_on CHR ''/'' (join ''/'' ps) = ps"
  by (rule split_on_join) (auto simp: clean_def)

lemma normal_fold_clean: "clean ps \<Longrightarrow> fold (normal_step rooted) ps acc = acc @ ps"
  by (induction ps arbitrary: acc) (auto simp: clean_def normal_step_def)

lemma startswith_slash: "startswith s ''/'' \<longleftrightarrow> s \<noteq> [] \<and> hd s = CHR ''/''"
  by (cases s) (auto simp: startswith_def)

lemma join_hd: "ps \<noteq> [] \<Longrightarrow> hd ps \<noteq> [] \<Longrightarrow> join sep ps \<noteq> [] \<and> hd (join sep ps) = hd (hd ps)"
  by (cases ps; cases "tl ps") auto

lemma clean_join_relative:
  assumes "clean ps" and "ps \<noteq> []"
  shows "join ''/'' ps \<noteq> [] \<and> \<not> startswith (join ''/'' ps) ''/''"
proof -
  have h: "hd ps \<noteq> []" "CHR ''/'' \<notin> set (hd ps)"
    using assms by (cases ps; simp add: clean_def)+
  then have "hd (hd ps) \<noteq> CHR ''/''" by (metis hd_in_set)
  with join_hd [OF assms(2) h(1)] show ?thesis by (simp add: startswith_slash)
qed

lemma no_leading_slashes: "\<not> startswith p ''/'' \<Longrightarrow> leading_slashes p = 0"
  by (cases p) (auto simp: leading_slashes_def startswith_def)

lemma normpath_clean: "clean ps \<Longrightarrow> ps \<noteq> [] \<Longrightarrow> normpath (join ''/'' ps) = join ''/'' ps"
  using clean_join_relative [of ps]
  by (simp add: normpath_def normal_comps_def no_leading_slashes split_clean normal_fold_clean)

lemma tail_parts_clean: "clean ps \<Longrightarrow> ps \<noteq> [] \<Longrightarrow> tail_parts (join ''/'' ps) = ps"
  by (auto simp: tail_parts_def split_clean clean_def)

lemma forward_slashes_id: "CHR 0x5C \<notin> set s \<Longrightarrow> forward_slashes s = s"
  by (auto simp: forward_slashes_def intro!: map_idI)

lemma forward_slashes_idem [simp]: "forward_slashes (forward_slashes s) = forward_slashes s"
  by (simp add: forward_slashes_def)

lemma clean_split: "clean (split_on CHR ''/'' s) \<longleftrightarrow> (\<forall>p \<in> set (split_on CHR ''/'' s). p \<notin> {'''', ''.'', ''..''})"
  using split_on_no_sep [of _ "CHR ''/''" s] by (auto simp: clean_def)

lemma clean_as_posix:
  assumes "clean (split_on CHR ''/'' raw)"
  shows "\<not> is_absolute raw" and "path_parts raw = split_on CHR ''/'' raw" and "as_posix raw = raw" and "raw \<noteq> []"
proof -
  have raw: "join ''/'' (split_on CHR ''/'' raw) = raw" by (rule join_split_on)
  from clean_join_relative [OF assms split_on_ne] raw have rel: "\<not> startswith raw ''/''" "raw \<noteq> []" by simp_all
  from tail_parts_clean [OF assms split_on_ne] raw have t: "tail_parts raw = split_on CHR ''/'' raw" by simp
  show "\<not> is_absolute raw" and "path_parts raw = split_on CHR ''/'' raw" and "raw \<noteq> []"
    using rel t by (simp_all add: path_parts_def is_absolute_def)
  show "as_posix raw = raw"
    using raw rel by (simp add: as_posix_def root_of_def no_leading_slashes [OF rel(1)] t Let_def)
qed

lemma as_posix_clean:
  assumes "\<not> is_absolute raw" and "\<forall>part \<in> set (path_parts raw). part \<notin> {'''', ''.'', ''..''}" and "as_posix raw = raw"
    and "raw \<noteq> ''.''"
  shows "clean (split_on CHR ''/'' raw)"
proof -
  have rel: "leading_slashes raw = 0" using assms(1) by (simp add: is_absolute_def no_leading_slashes)
  have parts: "path_parts raw = tail_parts raw" using assms(1) by (simp add: path_parts_def)
  have tail: "clean (tail_parts raw)"
    using assms(2) parts split_on_no_sep [of _ "CHR ''/''" raw] by (auto simp: clean_def tail_parts_def)
  have ne: "tail_parts raw \<noteq> []"
    using assms(3,4) rel by (auto simp: as_posix_def root_of_def Let_def)
  from clean_join_relative [OF tail ne] assms(3) rel have "raw = join ''/'' (tail_parts raw)"
    by (simp add: as_posix_def root_of_def Let_def)
  with split_clean [OF tail ne] have "split_on CHR ''/'' raw = tail_parts raw" by simp
  with tail show ?thesis by simp
qed

text \<open>The key \<open>.\<close> has no parts, and is its own POSIX form: it passes as a key of the root itself.\<close>

lemma logical_key_dot: "validate_logical_key ''.'' b = Inr ''.''"
  by (simp add: validate_logical_key_def Let_def forward_slashes_def as_posix_def is_absolute_def path_parts_def
      tail_parts_def startswith_def root_of_def leading_slashes_def)

lemma logical_key_relative:
  assumes "forward_slashes key \<noteq> []" and "forward_slashes key \<noteq> ''.''"
  shows "validate_logical_key key allow_empty = Inr k \<longleftrightarrow> clean (split_on CHR ''/'' (forward_slashes key)) \<and> k = forward_slashes key"
proof (cases "clean (split_on CHR ''/'' (forward_slashes key))")
  case True
  with clean_as_posix [OF True] assms show ?thesis
    by (auto simp: validate_logical_key_def Let_def clean_split)
next
  case False
  with as_posix_clean [of "forward_slashes key"] assms
  have "is_absolute (forward_slashes key) \<or> (\<exists>part \<in> set (path_parts (forward_slashes key)). part \<in> {'''', ''.'', ''..''})
      \<or> as_posix (forward_slashes key) \<noteq> forward_slashes key" by blast
  with False assms(1) show ?thesis by (auto simp: validate_logical_key_def Let_def)
qed

lemma logical_key_special:
  "forward_slashes key = [] \<Longrightarrow> validate_logical_key key allow_empty = Inr k \<longleftrightarrow> allow_empty \<and> k = []"
  "forward_slashes key = ''.'' \<Longrightarrow> validate_logical_key key allow_empty = Inr k \<longleftrightarrow> k = ''.''"
  by (auto simp: validate_logical_key_def is_absolute_def path_parts_def tail_parts_def startswith_def
        as_posix_def root_of_def leading_slashes_def)

text \<open>
  A key is accepted exactly when, with forward slashes, it is empty and that is allowed,
  or it is \<open>.\<close>, or none of its components is empty, \<open>.\<close> or \<open>..\<close>; what is returned is the key with
  forward slashes, so that no accepted key but \<open>.\<close> and the empty one names anything outside or at the root.
\<close>

theorem logical_key:
  "validate_logical_key key allow_empty = Inr k \<longleftrightarrow>
     k = forward_slashes key \<and> (k = [] \<and> allow_empty \<or> k = ''.''
       \<or> k \<noteq> [] \<and> (\<forall>part \<in> set (split_on CHR ''/'' k). part \<notin> {'''', ''.'', ''..''}))"
proof -
  consider "forward_slashes key = []" | "forward_slashes key = ''.''"
    | "forward_slashes key \<noteq> []" "forward_slashes key \<noteq> ''.''" by blast
  then show ?thesis
  proof cases
    case 1
    with logical_key_special(1) show ?thesis by auto
  next
    case 2
    with logical_key_special(2) show ?thesis by auto
  next
    case 3
    with logical_key_relative [OF 3] show ?thesis by (auto simp: clean_split)
  qed
qed

theorem logical_key_witness:
  "validate_logical_key ''saves/psx/card.mcd'' False = Inr ''saves/psx/card.mcd''"
proof -
  have "split_on CHR ''/'' ''saves/psx/card.mcd'' = [''saves'', ''psx'', ''card.mcd'']"
    and "forward_slashes ''saves/psx/card.mcd'' = ''saves/psx/card.mcd''" by code_simp+
  then show ?thesis
    using logical_key [of "''saves/psx/card.mcd''" False "''saves/psx/card.mcd''"] by simp
qed

end
