(* ===== verification/CueParser.thy ===== *)
theory CueParser
  imports PosixPaths
begin

text \<open>
  Cue sheets and the other descriptors of dependency-aware caching (\<open>core/cue_parser.py\<close>,
  \<open>core/dependency_resolvers.py\<close>): the \<open>FILE\<close> references of a cue sheet, their resolution inside the
  owning system, and the references of playlists, markers, CloneCD and GDI descriptors.

  The regular expressions are written out as the matching they do: each of their parts but the
  quoted name is a maximal run of one kind of character followed by another kind, so backtracking
  finds no other match.  Code points are below 256, hence never a byte order mark.
\<close>

subsection \<open>FILE lines\<close>

record cue_warning =
  cw_line_number :: nat
  cw_line :: string
  cw_reason :: string

record cue_parse_result =
  cp_references :: "string list"
  cp_warnings :: "cue_warning list"

record cue_rejection =
  cr_reference :: string
  cr_reason :: string

record cue_dependency =
  cd_reference :: string
  cd_path :: string

record cue_dependency_result =
  cs_dependencies :: "cue_dependency list"
  cs_rejected :: "cue_rejection list"
  cs_warnings :: "cue_warning list"

definition skip_spaces :: "string \<Rightarrow> string" where
  "skip_spaces s = dropWhile is_space s"

text \<open>The text after \<open>"quoted"\<close>: the name up to the next quote, and what follows it.\<close>

definition quoted_name :: "string \<Rightarrow> (string \<times> string) option" where
  "quoted_name s =
     (case s of
        [] \<Rightarrow> None
      | c # t \<Rightarrow>
          if c \<noteq> CHR 0x22 then None
          else (case dropWhile (\<lambda>c. c \<noteq> CHR 0x22) t of
                  [] \<Rightarrow> None
                | q # rest \<Rightarrow> Some (takeWhile (\<lambda>c. c \<noteq> CHR 0x22) t, rest)))"

definition begins_with_space :: "string \<Rightarrow> bool" where
  "begins_with_space s \<longleftrightarrow> (case s of [] \<Rightarrow> False | c # t \<Rightarrow> is_space c)"

text \<open>The groups \<open>quoted\<close> (\<open>Inl\<close>) and \<open>bare\<close> (\<open>Inr\<close>) of \<open>_FILE_LINE_RE\<close>.\<close>

definition match_file_line :: "string \<Rightarrow> (string + string) option" where
  "match_file_line line =
     (let s = skip_spaces line; rest = drop 4 s
      in if map upper_char (take 4 s) = ''FILE'' \<and> begins_with_space rest
         then (case quoted_name (skip_spaces rest) of
                 Some (name, after) \<Rightarrow>
                   if begins_with_space after \<and> length (words after) = 1 then Some (Inl name)
                   else (case words rest of [bare, kind] \<Rightarrow> Some (Inr bare) | _ \<Rightarrow> None)
               | None \<Rightarrow> (case words rest of [bare, kind] \<Rightarrow> Some (Inr bare) | _ \<Rightarrow> None))
         else None)"

definition reference_step :: "nat \<times> string \<Rightarrow> cue_parse_result \<Rightarrow> cue_parse_result" where
  "reference_step = (\<lambda>(line_number, raw_line) r.
     let stripped = strip raw_line
     in if stripped = [] \<or> map upper_char (take 4 stripped) \<noteq> ''FILE'' then r
        else (case match_file_line raw_line of
                None \<Rightarrow> r\<lparr>cp_warnings := cp_warnings r
                  @ [\<lparr>cw_line_number = line_number, cw_line = raw_line, cw_reason = ''malformed FILE line''\<rparr>]\<rparr>
              | Some m \<Rightarrow>
                  (let filename = (case m of Inl q \<Rightarrow> q | Inr b \<Rightarrow> b)
                   in if filename = []
                      then r\<lparr>cp_warnings := cp_warnings r
                        @ [\<lparr>cw_line_number = line_number, cw_line = raw_line, cw_reason = ''empty filename''\<rparr>]\<rparr>
                      else r\<lparr>cp_references := cp_references r @ [filename]\<rparr>)))"

definition parse_cue_references :: "string \<Rightarrow> cue_parse_result" where
  "parse_cue_references text =
     fold reference_step (enumerate 1 (splitlines text)) \<lparr>cp_references = [], cp_warnings = []\<rparr>"

subsection \<open>Resolution inside the system\<close>

definition candidate_parts :: "string \<Rightarrow> string \<Rightarrow> string list" where
  "candidate_parts cue_dir raw_ref =
     filter (\<lambda>p. p \<noteq> '''' \<and> p \<noteq> ''.'')
       (split_on CHR ''/'' (normpath (path_join cue_dir (forward_slashes raw_ref))))"

definition resolve_step :: "string \<Rightarrow> string \<Rightarrow> string \<Rightarrow> cue_dependency_result \<Rightarrow> cue_dependency_result" where
  "resolve_step system cue_dir raw_ref r =
     (let parts = candidate_parts cue_dir raw_ref
      in if parts = [] \<or> hd parts \<noteq> system \<or> ''..'' \<in> set parts
         then r\<lparr>cs_rejected := cs_rejected r
                @ [\<lparr>cr_reference = raw_ref, cr_reason = ''path traversal outside system source root''\<rparr>]\<rparr>
         else r\<lparr>cs_dependencies := cs_dependencies r
                @ [\<lparr>cd_reference = raw_ref, cd_path = join ''/'' parts\<rparr>]\<rparr>)"

definition resolve_cue_dependencies :: "string \<Rightarrow> string \<Rightarrow> cue_dependency_result" where
  "resolve_cue_dependencies cue_relative_path cue_text =
     (let parsed = parse_cue_references cue_text;
          cue_parts = split_on CHR ''/'' (normpath (forward_slashes cue_relative_path))
      in if cue_parts = [] \<or> hd cue_parts = []
         then \<lparr>cs_dependencies = [],
               cs_rejected = map (\<lambda>ref. \<lparr>cr_reference = ref, cr_reason = ''cue path has no system component''\<rparr>)
                 (cp_references parsed),
               cs_warnings = cp_warnings parsed\<rparr>
         else
           let system = hd cue_parts; parent = join ''/'' (butlast cue_parts);
               cue_dir = (if parent = [] then system else parent)
           in fold (resolve_step system cue_dir) (cp_references parsed)
                \<lparr>cs_dependencies = [], cs_rejected = [], cs_warnings = cp_warnings parsed\<rparr>)"

subsection \<open>Descriptors\<close>

record dependency_reference =
  dr_path :: string
  dr_required :: bool

text \<open>\<open>DependencyResolutionError\<close>, or the \<open>ValueError\<close> of \<open>with_suffix\<close> on a path with no name.\<close>

datatype resolution_error = DependencyResolutionError string | EmptyName

definition required_ref :: "string \<Rightarrow> dependency_reference" where
  "required_ref p = \<lparr>dr_path = p, dr_required = True\<rparr>"

definition resolve_m3u :: "string \<Rightarrow> string \<Rightarrow> resolution_error + dependency_reference list" where
  "resolve_m3u path text =
     (let references = map required_ref
            (filter (\<lambda>l. l \<noteq> [] \<and> \<not> startswith l ''#'') (map strip (splitlines text)))
      in if references = [] then Inl (DependencyResolutionError ''M3U playlist contains no disc references'')
         else Inr references)"

definition resolve_cue :: "string \<Rightarrow> string \<Rightarrow> resolution_error + dependency_reference list" where
  "resolve_cue path text =
     (let parsed = parse_cue_references text
      in if cp_warnings parsed \<noteq> []
         then Inl (DependencyResolutionError (''Malformed CUE dependency at line ''
                @ show_nat (cw_line_number (hd (cp_warnings parsed))) @ '': '' @ cw_reason (hd (cp_warnings parsed))))
         else if cp_references parsed = []
         then Inl (DependencyResolutionError (''CUE descriptor has no FILE entries: '' @ path))
         else Inr (map required_ref (cp_references parsed)))"

definition resolve_xbox360 :: "string \<Rightarrow> string \<Rightarrow> resolution_error + dependency_reference list" where
  "resolve_xbox360 path text =
     (let lines = splitlines text
      in if lines = [] \<or> strip (hd lines) = []
         then Inl (DependencyResolutionError (''Xbox 360 marker is empty: '' @ path))
         else Inr [required_ref (strip (hd lines))])"

definition resolve_ccd :: "string \<Rightarrow> string \<Rightarrow> resolution_error + dependency_reference list" where
  "resolve_ccd path text =
     (if path_name path = [] then Inl EmptyName
      else Inr [\<lparr>dr_path = stem_of (path_name path) @ ''.img'', dr_required = True\<rparr>,
                \<lparr>dr_path = stem_of (path_name path) @ ''.sub'', dr_required = False\<rparr>])"

definition all_digits :: "string \<Rightarrow> bool" where
  "all_digits s \<longleftrightarrow> s \<noteq> [] \<and> list_all ascii_digit s"

text \<open>Four numbers, a name, a number: the four numbers, and the line after the fourth.\<close>

fun skip_words :: "nat \<Rightarrow> string \<Rightarrow> string" where
  "skip_words 0 s = s"
| "skip_words (Suc n) s = skip_words n (dropWhile (\<lambda>c. \<not> is_space c) (skip_spaces s))"

definition match_gdi_track :: "string \<Rightarrow> string option" where
  "match_gdi_track line =
     (let ws = words line; rest = skip_words 4 line; bare =
            (case drop 4 ws of [name, offset] \<Rightarrow> if all_digits offset then Some name else None | _ \<Rightarrow> None)
      in if 4 \<le> length ws \<and> list_all all_digits (take 4 ws)
         then (case quoted_name (skip_spaces rest) of
                 Some (name, after) \<Rightarrow>
                   if name \<noteq> [] \<and> begins_with_space after \<and> length (words after) = 1 \<and> all_digits (hd (words after))
                   then Some name else bare
               | None \<Rightarrow> bare)
         else None)"

definition gdi_step ::
  "string \<Rightarrow> nat \<times> string \<Rightarrow> dependency_reference list \<Rightarrow> resolution_error + dependency_reference list" where
  "gdi_step path = (\<lambda>(line_number, line) references.
     (case match_gdi_track line of
        None \<Rightarrow> Inl (DependencyResolutionError (''Malformed GDI track at line '' @ show_nat line_number @ '': '' @ path))
      | Some name \<Rightarrow> Inr (references @ [required_ref name])))"

definition resolve_gdi :: "string \<Rightarrow> string \<Rightarrow> resolution_error + dependency_reference list" where
  "resolve_gdi path text =
     (let lines = filter (\<lambda>l. strip l \<noteq> []) (splitlines text)
      in if lines = [] then Inl (DependencyResolutionError (''GDI descriptor is empty: '' @ path))
         else (case py_int (strip (hd lines)) of
            None \<Rightarrow> Inl (DependencyResolutionError (''GDI descriptor has an invalid track count: '' @ path))
          | Some expected_tracks \<Rightarrow>
              bindE (foldE (gdi_step path) (enumerate 2 (tl lines)) []) (\<lambda>references.
              if int (length references) \<noteq> expected_tracks
              then Inl (DependencyResolutionError (''GDI track count mismatch in '' @ path @ '': expected ''
                     @ show_int expected_tracks @ '', found '' @ show_nat (length references)))
              else Inr references)))"

type_synonym resolver = "string \<Rightarrow> string \<Rightarrow> resolution_error + dependency_reference list"

definition default_resolvers :: "(string \<times> resolver) list" where
  "default_resolvers = [(''.m3u'', resolve_m3u), (''.cue'', resolve_cue), (''.xbox360'', resolve_xbox360),
     (''.ccd'', resolve_ccd), (''.gdi'', resolve_gdi)]"

definition descriptor_extensions :: "string list" where
  "descriptor_extensions = map fst default_resolvers"

subsection \<open>Confinement\<close>

lemma candidate_no_slash: "p \<in> set (candidate_parts cue_dir ref) \<Longrightarrow> CHR ''/'' \<notin> set p \<and> p \<noteq> '''' \<and> p \<noteq> ''.''"
  by (auto simp: candidate_parts_def dest: split_on_no_sep)

definition accepts :: "string \<Rightarrow> string \<Rightarrow> string \<Rightarrow> bool" where
  "accepts system cue_dir ref \<longleftrightarrow> candidate_parts cue_dir ref \<noteq> [] \<and> hd (candidate_parts cue_dir ref) = system
     \<and> ''..'' \<notin> set (candidate_parts cue_dir ref)"

lemma resolve_fold:
  "fold (resolve_step system cue_dir) refs r =
     r\<lparr>cs_dependencies := cs_dependencies r
         @ map (\<lambda>ref. \<lparr>cd_reference = ref, cd_path = join ''/'' (candidate_parts cue_dir ref)\<rparr>) (filter (accepts system cue_dir) refs),
       cs_rejected := cs_rejected r
         @ map (\<lambda>ref. \<lparr>cr_reference = ref, cr_reason = ''path traversal outside system source root''\<rparr>)
             (filter (\<lambda>ref. \<not> accepts system cue_dir ref) refs)\<rparr>"
  by (induction refs arbitrary: r) (auto simp: resolve_step_def accepts_def Let_def)

lemma accepts_parts:
  assumes "accepts system cue_dir ref"
  shows "split_on CHR ''/'' (join ''/'' (candidate_parts cue_dir ref)) = candidate_parts cue_dir ref"
    and "clean (candidate_parts cue_dir ref)" and "hd (candidate_parts cue_dir ref) = system"
proof -
  show c: "clean (candidate_parts cue_dir ref)"
    using assms candidate_no_slash [of _ cue_dir ref] by (auto simp: accepts_def clean_def)
  show "split_on CHR ''/'' (join ''/'' (candidate_parts cue_dir ref)) = candidate_parts cue_dir ref"
    using c assms by (intro split_clean) (auto simp: accepts_def)
  show "hd (candidate_parts cue_dir ref) = system" using assms by (simp add: accepts_def)
qed

text \<open>The system a cue sheet belongs to: the first component of its normal path.\<close>

definition cue_system :: "string \<Rightarrow> string" where
  "cue_system cue_path = hd (split_on CHR ''/'' (normpath (forward_slashes cue_path)))"

text \<open>
  C32: Every dependency a cue sheet resolves to is a path inside its own system: its first
  component is that of the sheet and none is empty, \<open>.\<close> or \<open>..\<close>, whatever the sheet says; and each reference
  is either resolved or rejected, in the order of the sheet.
\<close>

theorem cue_confined:
  "(\<forall>dep \<in> set (cs_dependencies (resolve_cue_dependencies cue_path text)).
      hd (split_on CHR ''/'' (cd_path dep)) = cue_system cue_path \<and> clean (split_on CHR ''/'' (cd_path dep)))
   \<and> (\<exists>P. map cd_reference (cs_dependencies (resolve_cue_dependencies cue_path text))
            = filter P (cp_references (parse_cue_references text))
        \<and> map cr_reference (cs_rejected (resolve_cue_dependencies cue_path text))
            = filter (\<lambda>ref. \<not> P ref) (cp_references (parse_cue_references text)))"
proof -
  let ?parts = "split_on CHR ''/'' (normpath (forward_slashes cue_path))"
  let ?refs = "cp_references (parse_cue_references text)"
  show ?thesis
  proof (cases "?parts = [] \<or> hd ?parts = []")
    case True
    then show ?thesis
      by (auto simp: resolve_cue_dependencies_def Let_def comp_def intro!: exI [of _ "\<lambda>_. False"])
  next
    case False
    define dir where "dir = (if join ''/'' (butlast ?parts) = [] then hd ?parts else join ''/'' (butlast ?parts))"
    have eq: "resolve_cue_dependencies cue_path text = fold (resolve_step (hd ?parts) dir) ?refs
        \<lparr>cs_dependencies = [], cs_rejected = [], cs_warnings = cp_warnings (parse_cue_references text)\<rparr>"
      using False by (simp add: resolve_cue_dependencies_def Let_def dir_def)
    have deps: "cs_dependencies (resolve_cue_dependencies cue_path text)
        = map (\<lambda>ref. \<lparr>cd_reference = ref, cd_path = join ''/'' (candidate_parts dir ref)\<rparr>) (filter (accepts (hd ?parts) dir) ?refs)"
      and rej: "map cr_reference (cs_rejected (resolve_cue_dependencies cue_path text)) = filter (\<lambda>ref. \<not> accepts (hd ?parts) dir ref) ?refs"
      by (simp_all add: eq resolve_fold comp_def)
    have "map cd_reference (cs_dependencies (resolve_cue_dependencies cue_path text)) = filter (accepts (hd ?parts) dir) ?refs"
      by (simp add: deps comp_def)
    moreover have "\<forall>dep \<in> set (cs_dependencies (resolve_cue_dependencies cue_path text)).
        hd (split_on CHR ''/'' (cd_path dep)) = cue_system cue_path \<and> clean (split_on CHR ''/'' (cd_path dep))"
      using accepts_parts by (auto simp: deps cue_system_def)
    ultimately show ?thesis using rej by blast
  qed
qed

theorem cue_confined_witness:
  "hd (split_on CHR ''/'' ''psx/cd/a.bin'') = cue_system ''psx/x.cue''"
proof -
  have "cs_dependencies (resolve_cue_dependencies ''psx/x.cue'' ''FILE cd/a.bin BINARY'')
      = [\<lparr>cd_reference = ''cd/a.bin'', cd_path = ''psx/cd/a.bin''\<rparr>]"
    by code_simp
  with cue_confined [of "''psx/x.cue''" "''FILE cd/a.bin BINARY''"] show ?thesis by simp
qed

lemma path_join_clean:
  assumes "clean (ps @ [name])" and "ps \<noteq> []" and "CHR 0x5C \<notin> set name"
  shows "candidate_parts (join ''/'' ps) name = ps @ [name]"
proof -
  have ps: "clean ps" and name: "clean [name]" using assms(1) by simp_all
  have "name \<noteq> []" "CHR ''/'' \<notin> set name" using name by (auto simp: clean_def)
  then have a: "\<not> startswith name ''/''" by (metis hd_in_set startswith_slash)
  have last: "join ''/'' ps \<noteq> []" using clean_join_relative [OF ps assms(2)] by simp
  have e: "\<not> endswith (join ''/'' ps) ''/''"
  proof
    assume "endswith (join ''/'' ps) ''/''"
    then have "last (join ''/'' ps) = CHR ''/''"
      by (cases "join ''/'' ps" rule: rev_cases) (auto simp: endswith_def)
    moreover have "last (join ''/'' ps) \<noteq> CHR ''/''"
      using ps assms(2)
    proof (induction ps)
      case (Cons p qs)
      show ?case
      proof (cases qs)
        case Nil
        have "p \<noteq> []" "CHR ''/'' \<notin> set p" using Cons.prems(1) by (auto simp: clean_def)
        then show ?thesis using Nil last_in_set by fastforce
      next
        case (Cons q rs)
        have qs: "clean qs" using Cons.prems(1) by (simp add: clean_def)
        have "join ''/'' qs \<noteq> []" using clean_join_relative [OF qs] Cons by simp
        then have "last (join ''/'' (p # qs)) = last (join ''/'' qs)" by (simp add: Cons)
        with Cons.IH [OF qs] Cons show ?thesis by simp
      qed
    qed simp
    ultimately show False by simp
  qed
  have j: "join ''/'' ps @ ''/'' @ name = join ''/'' (ps @ [name])"
    using assms(2)
  proof (induction ps)
    case (Cons p qs)
    then show ?case by (cases qs) auto
  qed simp
  have "path_join (join ''/'' ps) (forward_slashes name) = join ''/'' (ps @ [name])"
    using a e last assms(3) by (simp add: path_join_def forward_slashes_id j [simplified])
  then show ?thesis
    using normpath_clean [OF assms(1)] split_clean [OF assms(1)] assms(1)
    by (auto simp: candidate_parts_def clean_def)
qed

lemma join_no_char: "c \<notin> set sep \<Longrightarrow> \<forall>p \<in> set qs. c \<notin> set p \<Longrightarrow> c \<notin> set (join sep qs)"
  by (induction sep qs rule: join.induct) auto

text \<open>
  A sheet at a canonical path whose references are plain file names resolves each to the
  file of that name in the directory of the sheet and rejects none.
\<close>

theorem cue_companion:
  assumes "clean (ps @ [sheet])" and "ps \<noteq> []" and "\<forall>p \<in> set (ps @ [sheet]). CHR 0x5C \<notin> set p"
    and "\<forall>ref \<in> set (cp_references (parse_cue_references text)). clean [ref] \<and> CHR 0x5C \<notin> set ref"
  shows "cs_dependencies (resolve_cue_dependencies (join ''/'' (ps @ [sheet])) text)
      = map (\<lambda>ref. \<lparr>cd_reference = ref, cd_path = join ''/'' (ps @ [ref])\<rparr>) (cp_references (parse_cue_references text))
    \<and> cs_rejected (resolve_cue_dependencies (join ''/'' (ps @ [sheet])) text) = []"
proof -
  let ?refs = "cp_references (parse_cue_references text)"
  have parts: "split_on CHR ''/'' (normpath (forward_slashes (join ''/'' (ps @ [sheet])))) = ps @ [sheet]"
    using assms(3) normpath_clean [OF assms(1)] split_clean [OF assms(1)] by (simp add: forward_slashes_id join_no_char)
  have hd: "hd (ps @ [sheet]) \<noteq> []" using assms(1,2) by (cases ps) (auto simp: clean_def)
  have dir: "join ''/'' ps \<noteq> []" using clean_join_relative [of ps] assms(1,2) by simp
  have cand: "candidate_parts (join ''/'' ps) ref = ps @ [ref]" if "ref \<in> set ?refs" for ref
    using that assms by (intro path_join_clean) auto
  have "accepts (hd ps) (join ''/'' ps) ref" if "ref \<in> set ?refs" for ref
    using cand [OF that] assms that by (auto simp: accepts_def clean_def)
  then have "filter (accepts (hd ps) (join ''/'' ps)) ?refs = ?refs"
    "filter (\<lambda>ref. \<not> accepts (hd ps) (join ''/'' ps) ref) ?refs = []" by (simp_all add: filter_id_conv)
  with parts hd dir cand assms(2) show ?thesis
    by (simp add: resolve_cue_dependencies_def Let_def resolve_fold)
qed

theorem cue_companion_witness:
  "cs_dependencies (resolve_cue_dependencies ''psx/x.cue'' (''FILE a.bin BINARY'' @ [CHR 0x0A] @ ''TRACK 01''))
    = [\<lparr>cd_reference = ''a.bin'', cd_path = ''psx/a.bin''\<rparr>]"
proof -
  have refs: "cp_references (parse_cue_references (''FILE a.bin BINARY'' @ [CHR 0x0A] @ ''TRACK 01'')) = [''a.bin'']"
    by code_simp
  have "clean ([''psx''] @ [''x.cue''])" by (simp add: clean_def)
  from cue_companion [OF this, of "''FILE a.bin BINARY'' @ [CHR 0x0A] @ ''TRACK 01''"] show ?thesis
    unfolding refs by (simp add: clean_def)
qed

subsection \<open>References are never empty\<close>

lemma words_from_ne: "w' \<in> set (words_from w s) \<Longrightarrow> w' \<noteq> []"
  by (induction w s rule: words_from.induct) (auto split: if_splits)

lemma words_ne: "w \<in> set (words s) \<Longrightarrow> w \<noteq> []"
  by (simp add: words_def words_from_ne)

lemma reference_fold_ne:
  "\<forall>ref \<in> set (cp_references r). ref \<noteq> [] \<Longrightarrow> ref \<in> set (cp_references (fold reference_step xs r)) \<Longrightarrow> ref \<noteq> []"
proof (induction xs arbitrary: r)
  case (Cons x xs)
  have "\<forall>ref \<in> set (cp_references (reference_step x r)). ref \<noteq> []"
    using Cons.prems(1) by (auto simp: reference_step_def Let_def split: prod.split option.split)
  from Cons.IH [OF this] Cons.prems(2) show ?case by simp
qed simp

lemma gdi_track_ne: "match_gdi_track line = Some name \<Longrightarrow> name \<noteq> []"
proof -
  assume m: "match_gdi_track line = Some name"
  have "name \<noteq> []" if "drop 4 (words line) = [name, b]" for b
    using that words_ne [of name line] by (metis in_set_dropD list.set_intros(1))
  with m show ?thesis
    by (auto simp: match_gdi_track_def Let_def split: if_splits option.splits list.splits)
qed

lemma gdi_step_ok: "gdi_step path x rs = Inr rs' \<Longrightarrow> \<exists>name. rs' = rs @ [required_ref name] \<and> name \<noteq> []"
  by (cases x) (auto simp: gdi_step_def dest: gdi_track_ne split: option.splits)

lemma gdi_refs:
  "foldE (gdi_step path) xs rs = Inr refs \<Longrightarrow> \<forall>r \<in> set rs. dr_path r \<noteq> [] \<Longrightarrow>
     length refs = length rs + length xs \<and> (\<forall>r \<in> set refs. dr_path r \<noteq> [])"
proof (induction xs arbitrary: rs)
  case (Cons x xs)
  then obtain rs' where rs': "gdi_step path x rs = Inr rs'" "foldE (gdi_step path) xs rs' = Inr refs"
    by (auto simp: bindE_eq_Inr)
  obtain name where "rs' = rs @ [required_ref name]" "name \<noteq> []" using gdi_step_ok [OF rs'(1)] by blast
  with Cons.IH [OF rs'(2)] Cons.prems(2) show ?case by (auto simp: required_ref_def)
qed simp

text \<open>
  Whatever the descriptor says, a resolver that returns names only non-empty
  references; and it names at least one unless it is a GDI sheet that declares no track.
\<close>

theorem descriptor_references:
  assumes "map_of default_resolvers ext = Some resolve" and "resolve path text = Inr refs"
  shows "(\<forall>r \<in> set refs. dr_path r \<noteq> []) \<and> (refs \<noteq> [] \<or> ext = ''.gdi'' \<and> py_int (strip (hd (filter (\<lambda>l. strip l \<noteq> []) (splitlines text)))) = Some 0)"
proof -
  from assms(1) consider "ext = ''.m3u'' \<and> resolve = resolve_m3u" | "ext = ''.cue'' \<and> resolve = resolve_cue"
    | "ext = ''.xbox360'' \<and> resolve = resolve_xbox360" | "ext = ''.ccd'' \<and> resolve = resolve_ccd"
    | "ext = ''.gdi'' \<and> resolve = resolve_gdi"
    by (auto simp: default_resolvers_def split: if_splits)
  then show ?thesis
  proof cases
    case 1
    with assms(2) show ?thesis by (auto simp: resolve_m3u_def Let_def required_ref_def split: if_splits)
  next
    case 2
    with assms(2) reference_fold_ne [of "\<lparr>cp_references = [], cp_warnings = []\<rparr>"] show ?thesis
      by (fastforce simp: resolve_cue_def parse_cue_references_def Let_def required_ref_def split: if_splits)
  next
    case 3
    with assms(2) show ?thesis by (auto simp: resolve_xbox360_def Let_def required_ref_def split: if_splits)
  next
    case 4
    with assms(2) show ?thesis by (auto simp: resolve_ccd_def split: if_splits)
  next
    case 5
    let ?lines = "filter (\<lambda>l. strip l \<noteq> []) (splitlines text)"
    from 5 assms(2) have "foldE (gdi_step path) (enumerate 2 (tl ?lines)) [] = Inr refs"
      "py_int (strip (hd ?lines)) = Some (int (length refs))"
      by (auto simp: resolve_gdi_def Let_def bindE_eq_Inr split: if_splits option.splits)
    with gdi_refs [OF this(1)] 5 show ?thesis by auto
  qed
qed

theorem descriptor_references_witness:
  "\<exists>refs. resolve_gdi ''d.gdi'' (''1'' @ [CHR 0x0A] @ ''1 0 4 2352 t.bin 0'') = Inr refs \<and> (\<forall>r \<in> set refs. dr_path r \<noteq> []) \<and> refs \<noteq> []"
proof -
  have r: "resolve_gdi ''d.gdi'' (''1'' @ [CHR 0x0A] @ ''1 0 4 2352 t.bin 0'') = Inr [required_ref ''t.bin'']"
    by code_simp
  from descriptor_references [of "''.gdi''" resolve_gdi, OF _ r] r show ?thesis
    by (simp add: default_resolvers_def)
qed

text \<open>An unterminated quote is taken as part of a bare name, not reported.\<close>

lemma cue_unterminated_quote:
  "match_file_line (''FILE '' @ [CHR 0x22] @ ''Game.bin BINARY'') = Some (Inr ([CHR 0x22] @ ''Game.bin''))"
  by code_simp

end
