(* ===== verification/CatalogDatabase.thy ===== *)
theory CatalogDatabase
  imports PosixPaths
begin

text \<open>
  The catalog database (\<open>infrastructure/database.py\<close>, \<open>core/models/game.py\<close>,
  \<open>core/models/download.py\<close>): the rows of its tables as records, a table as the list of its rows, and
  the constraints of the schema that the repositories rely on.

  Timestamps are integers: their ISO texts, all in UTC, are ordered like the instants.
\<close>

subsection \<open>Games\<close>

record game_asset =
  ga_filename :: string
  ga_relative_path :: string
  ga_size :: "int option"
  ga_is_primary :: bool

record game =
  gm_id :: string
  gm_system :: string
  gm_title :: string
  gm_provider :: string
  gm_root :: string
  gm_assets :: "game_asset list"
  gm_added :: int
  gm_last_played :: "int option"
  gm_is_eligible :: bool

definition primary_asset :: "game \<Rightarrow> game_asset option" where
  "primary_asset g =
     (case filter ga_is_primary (gm_assets g) of
        a # _ \<Rightarrow> Some a
      | [] \<Rightarrow> (case gm_assets g of a # _ \<Rightarrow> Some a | [] \<Rightarrow> None))"

definition total_size_bytes :: "game \<Rightarrow> int option" where
  "total_size_bytes g =
     (let sizes = map ga_size (gm_assets g)
      in if None \<in> set sizes then None else Some (sum_list (map the sizes)))"

definition derive_title :: "string \<Rightarrow> string" where
  "derive_title filename = stem_of (path_name filename)"

subsection \<open>Downloads\<close>

datatype download_origin = MANUAL | PINNED | SELECTED

datatype download_state = QUEUED | RUNNING | PAUSED | INTERRUPTED | VERIFYING | FAILED | CANCELLED | COMPLETE

definition ACTIVE_DOWNLOAD_STATES :: "download_state list" where
  "ACTIVE_DOWNLOAD_STATES = [QUEUED, RUNNING, PAUSED, INTERRUPTED, VERIFYING]"

definition TERMINAL_STATES :: "download_state list" where
  "TERMINAL_STATES = [COMPLETE, CANCELLED, FAILED]"

record download_item =
  di_id :: string
  di_batch :: "string option"
  di_game :: "string option"
  di_title :: string
  di_system :: string
  di_origin :: download_origin
  di_state :: download_state
  di_seq :: int
  di_worker :: "string option"
  di_total :: int
  di_present :: int
  di_error_code :: "string option"
  di_error_message :: "string option"
  di_created :: int
  di_updated :: int
  di_started :: "int option"
  di_finished :: "int option"

subsection \<open>Cache members, staging and reservations\<close>

record cache_member =
  cm_game :: string
  cm_path :: string
  cm_expected :: "int option"
  cm_size :: int
  cm_is_primary :: bool

record staging_asset =
  sa_path :: string
  sa_system :: string
  sa_kind :: string
  sa_provider :: string
  sa_root :: string
  sa_expected :: "int option"
  sa_manifest :: "string option"
  sa_version :: int
  sa_created :: int
  sa_updated :: int

datatype staging_state = PENDING | TRANSFERRING | PARTIAL | STAGED

record staging_file =
  sf_asset :: string
  sf_member :: string
  sf_expected :: "int option"
  sf_object :: "string option"
  sf_revision :: "string option"
  sf_checksum :: "string option"
  sf_modified :: "int option"
  sf_state :: staging_state
  sf_bytes :: int
  sf_checkpoint :: "string option"
  sf_content :: "string option"
  sf_completed :: "int option"

record reservation =
  rv_id :: string
  rv_item :: "string option"
  rv_game :: "string option"
  rv_owner_kind :: string
  rv_owner_instance :: string
  rv_bytes :: int
  rv_created :: int
  rv_updated :: int

record database =
  db_games :: "game list"
  db_items :: "download_item list"
  db_members :: "cache_member list"
  db_assets :: "staging_asset list"
  db_files :: "staging_file list"
  db_reservations :: "reservation list"

datatype db_error = IntegrityError

subsection \<open>Constraints\<close>

definition is_active :: "download_item \<Rightarrow> bool" where
  "is_active i \<longleftrightarrow> di_state i \<in> set ACTIVE_DOWNLOAD_STATES"

definition is_terminal :: "download_item \<Rightarrow> bool" where
  "is_terminal i \<longleftrightarrow> di_state i \<in> set TERMINAL_STATES"

text \<open>The partial unique index: a game has at most one active download.\<close>

definition active_games :: "download_item list \<Rightarrow> string option list" where
  "active_games items = map di_game (filter (\<lambda>i. is_active i \<and> di_game i \<noteq> None) items)"

definition unique_active :: "download_item list \<Rightarrow> bool" where
  "unique_active items \<longleftrightarrow> distinct (active_games items)"

definition insert_item :: "download_item \<Rightarrow> database \<Rightarrow> db_error + database" where
  "insert_item i d =
     (if di_id i \<in> di_id ` set (db_items d)
         \<or> (case di_game i of None \<Rightarrow> False | Some g \<Rightarrow> g \<notin> gm_id ` set (db_games d))
         \<or> \<not> unique_active (db_items d @ [i])
      then Inl IntegrityError
      else Inr (d\<lparr>db_items := db_items d @ [i]\<rparr>))"

text \<open>Deleting a download sets its reservations free of it (\<open>ON DELETE SET NULL\<close>).\<close>

definition delete_items :: "(download_item \<Rightarrow> bool) \<Rightarrow> database \<Rightarrow> database" where
  "delete_items P d =
     (let gone = map di_id (filter P (db_items d))
      in d\<lparr>db_items := filter (\<lambda>i. \<not> P i) (db_items d),
          db_reservations := map (\<lambda>r. if rv_item r \<noteq> None \<and> the (rv_item r) \<in> set gone then r\<lparr>rv_item := None\<rparr> else r)
            (db_reservations d)\<rparr>)"

text \<open>Deleting a game keeps its downloads and reservations without their game, and drops its cache members.\<close>

definition delete_game :: "string \<Rightarrow> database \<Rightarrow> database" where
  "delete_game g d = d\<lparr>
     db_games := filter (\<lambda>x. gm_id x \<noteq> g) (db_games d),
     db_items := map (\<lambda>i. if di_game i = Some g then i\<lparr>di_game := None\<rparr> else i) (db_items d),
     db_members := filter (\<lambda>m. cm_game m \<noteq> g) (db_members d),
     db_reservations := map (\<lambda>r. if rv_game r = Some g then r\<lparr>rv_game := None\<rparr> else r) (db_reservations d)\<rparr>"

subsection \<open>What the constraints keep\<close>

definition items_ok :: "download_item list \<Rightarrow> bool" where
  "items_ok items \<longleftrightarrow> distinct (map di_id items) \<and> distinct (map di_seq items) \<and> unique_active items
     \<and> (\<forall>i \<in> set items. 0 \<le> di_total i \<and> 0 \<le> di_present i)"

definition database_ok :: "database \<Rightarrow> bool" where
  "database_ok d \<longleftrightarrow> items_ok (db_items d)
     \<and> (\<forall>i \<in> set (db_items d). \<forall>g. di_game i = Some g \<longrightarrow> g \<in> gm_id ` set (db_games d))"

lemma active_or_terminal: "is_terminal i \<longleftrightarrow> \<not> is_active i"
  by (cases "di_state i") (auto simp: is_active_def is_terminal_def ACTIVE_DOWNLOAD_STATES_def TERMINAL_STATES_def)

lemma unique_active_Nil [simp]: "unique_active []"
  by (simp add: unique_active_def active_games_def)

lemma unique_active_Cons:
  "unique_active (i # items) \<longleftrightarrow> unique_active items
     \<and> (is_active i \<and> di_game i \<noteq> None \<longrightarrow> (\<forall>j \<in> set items. is_active j \<longrightarrow> di_game j \<noteq> di_game i))"
  by (auto simp: unique_active_def active_games_def image_iff)

lemma unique_active_append:
  "unique_active (items @ [i]) \<longleftrightarrow> unique_active items
     \<and> (is_active i \<and> di_game i \<noteq> None \<longrightarrow> (\<forall>j \<in> set items. is_active j \<longrightarrow> di_game j \<noteq> di_game i))"
  by (induction items) (auto simp: unique_active_Cons)

lemma unique_active_map:
  assumes "unique_active items"
    and "\<And>i. i \<in> set items \<Longrightarrow> di_game (f i) = di_game i"
    and "\<And>i. i \<in> set items \<Longrightarrow> is_active (f i) \<Longrightarrow> is_active i"
  shows "unique_active (map f items)"
  using assms by (induction items) (simp_all add: unique_active_Cons)

lemma unique_active_filter: "unique_active items \<Longrightarrow> unique_active (filter P items)"
  by (induction items) (simp_all add: unique_active_Cons)

lemma unique_activeD:
  assumes "unique_active items" and "i \<in> set items" "j \<in> set items" and "di_id i \<noteq> di_id j"
    and "is_active i" "is_active j" and "di_game i = Some g"
  shows "di_game j \<noteq> Some g"
  using assms by (induction items) (auto simp: unique_active_Cons)

lemma unique_active_one:
  "unique_active items \<Longrightarrow> j \<in> set items \<Longrightarrow> di_game j = Some g \<Longrightarrow> is_active j
     \<Longrightarrow> length (filter (\<lambda>i. di_game i = Some g \<and> is_active i) items) = 1"
proof (induction items)
  case (Cons i items)
  show ?case
  proof (cases "di_game i = Some g \<and> is_active i")
    case True
    then have "filter (\<lambda>i. di_game i = Some g \<and> is_active i) items = []"
      using Cons.prems(1) by (auto simp: unique_active_Cons filter_empty_conv)
    with True show ?thesis by simp
  next
    case False
    then have "j \<in> set items" using Cons.prems by auto
    then show ?thesis using Cons False by (auto simp: unique_active_Cons)
  qed
qed simp

lemma items_ok_map:
  assumes "items_ok items"
    and "\<And>i. i \<in> set items \<Longrightarrow> di_id (f i) = di_id i \<and> di_seq (f i) = di_seq i"
    and "unique_active (map f items)" and "\<And>i. i \<in> set items \<Longrightarrow> 0 \<le> di_total (f i) \<and> 0 \<le> di_present (f i)"
  shows "items_ok (map f items)"
proof -
  have a: "map di_id (map f items) = map di_id items" and b: "map di_seq (map f items) = map di_seq items"
    using assms(2) by simp_all
  show ?thesis unfolding items_ok_def a b using assms by (auto simp: items_ok_def)
qed

lemma items_ok_filter: "items_ok items \<Longrightarrow> items_ok (filter P items)"
  by (auto simp: items_ok_def unique_active_filter distinct_map_filter)

lemma items_by_id:
  "items_ok items \<Longrightarrow> i \<in> set items \<Longrightarrow> j \<in> set items \<Longrightarrow> di_id i = di_id j \<Longrightarrow> i = j"
  by (auto simp: items_ok_def distinct_map inj_on_def)

end
