(* ===== verification/DownloadQueue.thy ===== *)
theory DownloadQueue
  imports CatalogDatabase
begin

text \<open>
  The durable download queue (\<open>infrastructure/repositories/download.py\<close>, \<open>DownloadRepository\<close>):
  one definition per method, each an atomic transaction of the database.  The clock and the fresh
  identifier of a row are arguments; rows with equal timestamps keep the order of the table.
\<close>

subsection \<open>Operations\<close>

definition queued_item ::
  "string \<Rightarrow> int \<Rightarrow> string \<Rightarrow> string \<Rightarrow> string \<Rightarrow> download_origin \<Rightarrow> string option \<Rightarrow> int \<Rightarrow> download_item" where
  "queued_item item_id now game_id game_title system origin batch_id sequence =
     \<lparr>di_id = item_id, di_batch = batch_id, di_game = Some game_id, di_title = game_title, di_system = system,
      di_origin = origin, di_state = QUEUED, di_seq = sequence, di_worker = None, di_total = 0, di_present = 0,
      di_error_code = None, di_error_message = None, di_created = now, di_updated = now,
      di_started = None, di_finished = None\<rparr>"

definition next_sequence :: "download_item list \<Rightarrow> int" where
  "next_sequence items = (if items = [] then 0 else Max (set (map di_seq items))) + 1"

definition enqueue ::
  "string \<Rightarrow> int \<Rightarrow> string \<Rightarrow> string \<Rightarrow> string \<Rightarrow> download_origin \<Rightarrow> string option \<Rightarrow> database
     \<Rightarrow> db_error + ((download_item \<times> bool) \<times> database)" where
  "enqueue item_id now game_id game_title system origin batch_id d =
     (case find (\<lambda>i. di_game i = Some game_id \<and> is_active i) (db_items d) of
        Some existing \<Rightarrow> Inr ((existing, False), d)
      | None \<Rightarrow>
          (let item = queued_item item_id now game_id game_title system origin batch_id (next_sequence (db_items d))
           in bindE (insert_item item d) (\<lambda>d'. Inr ((item, True), d'))))"

definition get_item :: "string \<Rightarrow> database \<Rightarrow> download_item option" where
  "get_item item_id d = find (\<lambda>i. di_id i = item_id) (db_items d)"

definition newest_first :: "download_item list \<Rightarrow> download_item list" where
  "newest_first items = sort_key (\<lambda>i. - di_updated i) items"

definition list_items :: "nat \<Rightarrow> database \<Rightarrow> download_item list" where
  "list_items terminal_limit d =
     sort_key di_seq (filter (\<lambda>i. \<not> is_terminal i) (db_items d)
                      @ take terminal_limit (newest_first (filter is_terminal (db_items d))))"

definition list_all_items :: "database \<Rightarrow> download_item list" where
  "list_all_items d = sort_key di_seq (db_items d)"

definition next_queued :: "database \<Rightarrow> download_item option" where
  "next_queued d =
     (case sort_key di_seq (filter (\<lambda>i. di_state i = QUEUED) (db_items d)) of [] \<Rightarrow> None | i # _ \<Rightarrow> Some i)"

definition moved_item ::
  "int \<Rightarrow> download_state \<Rightarrow> string option \<Rightarrow> string option \<Rightarrow> string option \<Rightarrow> download_item \<Rightarrow> download_item" where
  "moved_item now to_state worker code message i = i\<lparr>
     di_state := to_state, di_worker := worker, di_updated := now,
     di_started := (case di_started i of Some s \<Rightarrow> Some s
                    | None \<Rightarrow> (if to_state \<in> {RUNNING, VERIFYING} then Some now else None)),
     di_finished := (if to_state \<in> {COMPLETE, CANCELLED, FAILED} then Some now else None),
     di_error_code := code, di_error_message := message\<rparr>"

definition transition ::
  "int \<Rightarrow> string \<Rightarrow> download_state list \<Rightarrow> download_state \<Rightarrow> string option \<Rightarrow> string option \<Rightarrow> string option
     \<Rightarrow> database \<Rightarrow> bool \<times> database" where
  "transition now item_id from_states to_state worker code message d =
     (if from_states = [] then (False, d)
      else let matches = (\<lambda>i. di_id i = item_id \<and> di_state i \<in> set from_states);
               items = map (\<lambda>i. if matches i then moved_item now to_state worker code message i else i) (db_items d)
           in if \<not> unique_active items then (False, d)
              else (length (filter matches (db_items d)) = 1, d\<lparr>db_items := items\<rparr>))"

definition update_progress :: "int \<Rightarrow> string \<Rightarrow> int \<Rightarrow> int \<Rightarrow> database \<Rightarrow> database" where
  "update_progress now item_id present bytes_total d = d\<lparr>db_items := map (\<lambda>i.
     if di_id i = item_id then i\<lparr>di_present := max 0 present, di_total := max 0 bytes_total, di_updated := now\<rparr> else i) (db_items d)\<rparr>"

definition recover_interrupted :: "int \<Rightarrow> database \<Rightarrow> nat \<times> database" where
  "recover_interrupted now d =
     (length (filter (\<lambda>i. di_state i \<in> {RUNNING, VERIFYING}) (db_items d)),
      d\<lparr>db_items := map (\<lambda>i. if di_state i \<in> {RUNNING, VERIFYING}
                               then i\<lparr>di_state := INTERRUPTED, di_worker := None, di_updated := now\<rparr> else i) (db_items d)\<rparr>)"

definition queued_cancel_all :: "int \<Rightarrow> database \<Rightarrow> nat \<times> database" where
  "queued_cancel_all now d =
     (length (filter (\<lambda>i. di_state i = QUEUED) (db_items d)),
      d\<lparr>db_items := map (\<lambda>i. if di_state i = QUEUED
                               then i\<lparr>di_state := CANCELLED, di_updated := now, di_finished := Some now\<rparr> else i) (db_items d)\<rparr>)"

definition retried_item :: "int \<Rightarrow> download_item \<Rightarrow> download_item" where
  "retried_item now i = i\<lparr>di_state := QUEUED, di_updated := now, di_finished := None,
     di_error_code := None, di_error_message := None\<rparr>"

definition retry_step ::
  "int \<Rightarrow> string \<times> string option \<Rightarrow> (nat \<times> string list) \<times> download_item list
     \<Rightarrow> db_error + ((nat \<times> string list) \<times> download_item list)" where
  "retry_step now row s = (case row of (row_id, game) \<Rightarrow> case s of ((retried, claimed), items) \<Rightarrow>
     (case game of
        None \<Rightarrow> Inr s
      | Some g \<Rightarrow>
          if g \<in> set claimed then Inr s
          else if \<exists>i \<in> set items. di_game i = Some g \<and> is_active i then Inr s
          else let matches = (\<lambda>i. di_id i = row_id \<and> di_state i = FAILED);
                   items' = map (\<lambda>i. if matches i then retried_item now i else i) items
               in if \<not> unique_active items' then Inl IntegrityError
                  else Inr ((retried + length (filter matches items), g # claimed), items')))"

definition retry_all_failed :: "int \<Rightarrow> database \<Rightarrow> db_error + (nat \<times> database)" where
  "retry_all_failed now d =
     (let rows = map (\<lambda>i. (di_id i, di_game i)) (newest_first (filter (\<lambda>i. di_state i = FAILED) (db_items d)))
      in bindE (foldE (retry_step now) rows ((0, []), db_items d)) (\<lambda>((retried, _), items).
         Inr (retried, d\<lparr>db_items := items\<rparr>)))"

definition delete_queued :: "string \<Rightarrow> database \<Rightarrow> bool \<times> database" where
  "delete_queued item_id d =
     (let matches = (\<lambda>i. di_id i = item_id \<and> di_state i = QUEUED)
      in (length (filter matches (db_items d)) = 1, delete_items matches d))"

text \<open>A finished download is kept while cache members of its game still have a staging manifest.\<close>

definition has_staging :: "database \<Rightarrow> download_item \<Rightarrow> bool" where
  "has_staging d i \<longleftrightarrow> (\<exists>m \<in> set (db_members d). di_game i = Some (cm_game m) \<and> cm_path m \<in> sa_path ` set (db_assets d))"

definition prunable :: "database \<Rightarrow> download_item list" where
  "prunable d = newest_first (filter (\<lambda>i. is_terminal i \<and> \<not> has_staging d i) (db_items d))"

definition prune_terminal :: "nat \<Rightarrow> database \<Rightarrow> nat \<times> database" where
  "prune_terminal keep d =
     (let ids = map di_id (drop keep (prunable d)); gone = (\<lambda>i. di_id i \<in> set ids)
      in (length (filter gone (db_items d)), delete_items gone d))"

subsection \<open>Invariant\<close>

lemma items_of_delete [simp]: "db_items (delete_items P d) = filter (\<lambda>i. \<not> P i) (db_items d)"
  by (simp add: delete_items_def Let_def)

lemma games_of_delete [simp]: "db_games (delete_items P d) = db_games d"
  by (simp add: delete_items_def Let_def)

lemma database_ok_items:
  assumes "database_ok d" and "items_ok items"
    and "\<And>j. j \<in> set items \<Longrightarrow> \<exists>i \<in> set (db_items d). di_game j = di_game i"
  shows "database_ok (d\<lparr>db_items := items\<rparr>)"
proof -
  have "g \<in> gm_id ` set (db_games d)" if j: "j \<in> set items" and g: "di_game j = Some g" for j g
  proof -
    obtain i where "i \<in> set (db_items d)" "di_game j = di_game i" using assms(3) [OF j] by blast
    then show ?thesis using assms(1) g unfolding database_ok_def by metis
  qed
  then show ?thesis using assms(2) by (simp add: database_ok_def)
qed

lemma delete_items_ok: "database_ok d \<Longrightarrow> database_ok (delete_items P d)"
  by (auto simp: database_ok_def items_ok_filter)

lemma insert_item_ok:
  "database_ok d \<Longrightarrow> insert_item i d = Inr d' \<Longrightarrow> di_seq i \<notin> di_seq ` set (db_items d) \<Longrightarrow> 0 \<le> di_total i \<Longrightarrow> 0 \<le> di_present i
     \<Longrightarrow> database_ok d'"
  by (auto simp: insert_item_def database_ok_def items_ok_def split: if_splits option.splits)

lemma next_sequence_greater: "i \<in> set items \<Longrightarrow> di_seq i < next_sequence items"
proof -
  assume i: "i \<in> set items"
  then have "di_seq i \<le> Max (set (map di_seq items))" by (intro Max_ge) auto
  with i show ?thesis by (auto simp: next_sequence_def)
qed

lemma enqueue_ok:
  assumes ok: "database_ok d" and eq: "enqueue item_id now game_id title system origin batch_id d = Inr (r, d')"
  shows "database_ok d'"
proof (cases "find (\<lambda>i. di_game i = Some game_id \<and> is_active i) (db_items d)")
  case None
  have "next_sequence (db_items d) \<notin> di_seq ` set (db_items d)"
    using next_sequence_greater by (metis imageE less_irrefl)
  with None eq show ?thesis
    by (auto simp: enqueue_def Let_def bindE_eq_Inr queued_item_def intro!: insert_item_ok [OF ok])
qed (use ok eq in \<open>simp add: enqueue_def\<close>)

lemma moved_item_simps [simp]:
  "di_id (moved_item now to_state worker code message i) = di_id i"
  "di_seq (moved_item now to_state worker code message i) = di_seq i"
  "di_game (moved_item now to_state worker code message i) = di_game i"
  "di_state (moved_item now to_state worker code message i) = to_state"
  "di_total (moved_item now to_state worker code message i) = di_total i"
  "di_present (moved_item now to_state worker code message i) = di_present i"
  by (simp_all add: moved_item_def)

lemma update_items_ok:
  assumes ok: "database_ok d" and "unique_active (map f (db_items d))"
    and "\<And>i. di_id (f i) = di_id i \<and> di_seq (f i) = di_seq i \<and> di_game (f i) = di_game i"
    and "\<And>i. 0 \<le> di_total i \<and> 0 \<le> di_present i \<Longrightarrow> 0 \<le> di_total (f i) \<and> 0 \<le> di_present (f i)"
  shows "database_ok (d\<lparr>db_items := map f (db_items d)\<rparr>)"
proof (rule database_ok_items [OF ok])
  show "items_ok (map f (db_items d))"
    using assms by (intro items_ok_map) (auto simp: database_ok_def items_ok_def)
  show "\<exists>i \<in> set (db_items d). di_game j = di_game i" if "j \<in> set (map f (db_items d))" for j
    using that assms(3) by auto
qed

lemma database_unique: "database_ok d \<Longrightarrow> unique_active (db_items d)"
  by (simp add: database_ok_def items_ok_def)

lemma transition_ok:
  assumes "database_ok d"
  shows "database_ok (snd (transition now item_id from_states to_state worker code message d))"
proof -
  let ?f = "\<lambda>i. if di_id i = item_id \<and> di_state i \<in> set from_states then moved_item now to_state worker code message i else i"
  show ?thesis
  proof (cases "from_states = [] \<or> \<not> unique_active (map ?f (db_items d))")
    case True
    then show ?thesis using assms by (auto simp: transition_def Let_def)
  next
    case False
    then have "database_ok (d\<lparr>db_items := map ?f (db_items d)\<rparr>)"
      by (intro update_items_ok [OF assms]) auto
    then show ?thesis using False by (simp add: transition_def Let_def)
  qed
qed

lemma update_progress_ok: "database_ok d \<Longrightarrow> database_ok (update_progress now item_id present bytes_total d)"
  unfolding update_progress_def
  by (rule update_items_ok) (auto simp: is_active_def split: if_splits intro!: unique_active_map database_unique)

lemma recover_interrupted_ok: "database_ok d \<Longrightarrow> database_ok (snd (recover_interrupted now d))"
  unfolding recover_interrupted_def snd_conv
  by (rule update_items_ok) (auto simp: is_active_def ACTIVE_DOWNLOAD_STATES_def intro!: unique_active_map database_unique)

lemma queued_cancel_all_ok: "database_ok d \<Longrightarrow> database_ok (snd (queued_cancel_all now d))"
  unfolding queued_cancel_all_def snd_conv
  by (rule update_items_ok) (auto simp: is_active_def ACTIVE_DOWNLOAD_STATES_def intro!: unique_active_map database_unique)

subsection \<open>Retrying every failed download\<close>

lemma retried_item_simps [simp]:
  "di_id (retried_item now i) = di_id i" "di_seq (retried_item now i) = di_seq i"
  "di_game (retried_item now i) = di_game i" "di_state (retried_item now i) = QUEUED"
  "di_total (retried_item now i) = di_total i" "di_present (retried_item now i) = di_present i"
  "is_active (retried_item now i)"
  by (simp_all add: retried_item_def is_active_def ACTIVE_DOWNLOAD_STATES_def)

definition retry_row :: "int \<Rightarrow> string \<Rightarrow> download_item \<Rightarrow> download_item" where
  "retry_row now r i = (if di_id i = r \<and> di_state i = FAILED then retried_item now i else i)"

lemma retry_row_same [simp]:
  "di_id (retry_row now r i) = di_id i" "di_seq (retry_row now r i) = di_seq i" "di_game (retry_row now r i) = di_game i"
  "di_total (retry_row now r i) = di_total i" "di_present (retry_row now r i) = di_present i"
  by (simp_all add: retry_row_def)

lemma active_retry_row: "is_active (retry_row now r i) \<longleftrightarrow> is_active i \<or> di_id i = r \<and> di_state i = FAILED"
  by (auto simp: retry_row_def)

lemma unique_active_retry:
  assumes "unique_active items" and "distinct (map di_id items)"
    and "\<forall>i \<in> set items. di_game i = Some g \<longrightarrow> \<not> is_active i"
    and "\<forall>i \<in> set items. di_id i = r \<longrightarrow> di_game i = Some g"
  shows "unique_active (map (retry_row now r) items)"
  using assms
proof (induction items)
  case (Cons i items)
  then have "unique_active (map (retry_row now r) items)" by (simp add: unique_active_Cons)
  moreover have "di_id j \<noteq> di_id i" if "j \<in> set items" for j using Cons.prems(2) that by (auto simp: image_iff)
  ultimately show ?case
    using Cons.prems by (simp add: unique_active_Cons active_retry_row) (metis (no_types))
qed simp

text \<open>The rows still to be retried are failed rows of the table, and claimed games have an active download.\<close>

definition retry_ok :: "database \<Rightarrow> (string \<times> string option) list \<Rightarrow> string list \<Rightarrow> download_item list \<Rightarrow> bool" where
  "retry_ok d rows claimed items \<longleftrightarrow> items_ok items \<and> distinct (map fst rows)
     \<and> list_all2 (\<lambda>i j. di_id j = di_id i \<and> di_game j = di_game i \<and> (j = i \<or> di_state i = FAILED \<and> di_state j = QUEUED)) (db_items d) items
     \<and> (\<forall>(r, g) \<in> set rows. \<exists>i \<in> set items. di_id i = r \<and> di_game i = g \<and> di_state i = FAILED)
     \<and> (\<forall>g \<in> set claimed. \<exists>i \<in> set items. di_game i = Some g \<and> is_active i)"

lemma retry_step_ok:
  assumes ok: "retry_ok d ((r, g) # rows) claimed items"
  shows "\<exists>n claimed' items'. retry_step now (r, g) ((k, claimed), items) = Inr ((n, claimed'), items')
    \<and> retry_ok d rows claimed' items' \<and> (\<forall>h. (\<exists>i \<in> set items. di_game i = Some h \<and> is_active i) \<longrightarrow> (\<exists>i \<in> set items'. di_game i = Some h \<and> is_active i))
    \<and> (\<forall>h. g = Some h \<longrightarrow> (\<exists>i \<in> set items'. di_game i = Some h \<and> is_active i))"
proof (cases "\<exists>h. g = Some h \<and> h \<notin> set claimed \<and> \<not> (\<exists>i \<in> set items. di_game i = Some h \<and> is_active i)")
  case False
  then have "retry_step now (r, g) ((k, claimed), items) = Inr ((k, claimed), items)"
    by (cases g) (auto simp: retry_step_def)
  moreover have "retry_ok d rows claimed items" using ok by (simp add: retry_ok_def)
  moreover have "\<exists>i \<in> set items. di_game i = Some h \<and> is_active i" if "g = Some h" for h
    using False ok that by (auto simp: retry_ok_def)
  ultimately show ?thesis by blast
next
  case True
  then obtain h where h: "g = Some h" "h \<notin> set claimed" and no: "\<forall>i \<in> set items. di_game i = Some h \<longrightarrow> \<not> is_active i"
    by blast
  have items: "items_ok items" using ok by (simp add: retry_ok_def)
  obtain i where i: "i \<in> set items" "di_id i = r" "di_game i = Some h" "di_state i = FAILED"
    using ok h by (auto simp: retry_ok_def)
  have only: "\<forall>j \<in> set items. di_id j = r \<longrightarrow> di_game j = Some h"
    using items_by_id [OF items] i by metis
  let ?items = "map (retry_row now r) items"
  have u: "unique_active ?items"
    using items no only by (intro unique_active_retry [where g = h]) (auto simp: items_ok_def)
  have step: "retry_step now (r, g) ((k, claimed), items)
      = Inr ((k + length (filter (\<lambda>i. di_id i = r \<and> di_state i = FAILED) items), h # claimed), ?items)"
    using u h no by (auto simp: retry_step_def Let_def retry_row_def [abs_def])
  have act: "\<exists>i \<in> set ?items. di_game i = Some g' \<and> is_active i"
    if "\<exists>i \<in> set items. di_game i = Some g' \<and> is_active i" for g'
    using that by (auto simp: active_retry_row)
  have new: "\<exists>i \<in> set ?items. di_game i = Some h \<and> is_active i"
    using i by (auto simp: active_retry_row)
  have "retry_ok d rows (h # claimed) ?items"
    unfolding retry_ok_def
  proof (intro conjI)
    show "items_ok ?items" using items u by (intro items_ok_map) (auto simp: items_ok_def)
    show "distinct (map fst rows)" using ok by (simp add: retry_ok_def)
    show "list_all2 (\<lambda>i j. di_id j = di_id i \<and> di_game j = di_game i \<and> (j = i \<or> di_state i = FAILED \<and> di_state j = QUEUED)) (db_items d) ?items"
      using ok unfolding retry_ok_def list_all2_map2
      by (elim conjE, elim list_all2_mono) (auto simp: retry_row_def)
    show "\<forall>(r', g') \<in> set rows. \<exists>i \<in> set ?items. di_id i = r' \<and> di_game i = g' \<and> di_state i = FAILED"
    proof clarify
      fix r' g' assume "(r', g') \<in> set rows"
      moreover from this obtain j where "j \<in> set items" "di_id j = r'" "di_game j = g'" "di_state j = FAILED"
        using ok by (fastforce simp: retry_ok_def)
      moreover have "r' \<noteq> r" using ok calculation(1) by (force simp: retry_ok_def)
      ultimately show "\<exists>i \<in> set ?items. di_id i = r' \<and> di_game i = g' \<and> di_state i = FAILED"
        by (auto simp: retry_row_def intro!: bexI [of _ j])
    qed
    show "\<forall>g \<in> set (h # claimed). \<exists>i \<in> set ?items. di_game i = Some g \<and> is_active i"
      using ok act new by (auto simp: retry_ok_def simp del: set_map)
  qed
  with step act new h show ?thesis by simp
qed

lemma retry_fold_ok:
  "retry_ok d rows claimed items \<Longrightarrow>
     \<exists>n claimed' items'. foldE (retry_step now) rows ((k, claimed), items) = Inr ((n, claimed'), items')
    \<and> retry_ok d [] claimed' items' \<and> (\<forall>h. (\<exists>i \<in> set items. di_game i = Some h \<and> is_active i) \<longrightarrow> (\<exists>i \<in> set items'. di_game i = Some h \<and> is_active i))
    \<and> (\<forall>h. Some h \<in> snd ` set rows \<longrightarrow> (\<exists>i \<in> set items'. di_game i = Some h \<and> is_active i))"
proof (induction rows arbitrary: k claimed items)
  case (Cons row rows)
  obtain r g where row: "row = (r, g)" by (cases row)
  obtain n c i where step: "retry_step now (r, g) ((k, claimed), items) = Inr ((n, c), i)" "retry_ok d rows c i"
    and a: "\<forall>h. (\<exists>i \<in> set items. di_game i = Some h \<and> is_active i) \<longrightarrow> (\<exists>j \<in> set i. di_game j = Some h \<and> is_active j)"
    and b: "\<forall>h. g = Some h \<longrightarrow> (\<exists>j \<in> set i. di_game j = Some h \<and> is_active j)"
    using retry_step_ok [OF Cons.prems [unfolded row], where k = k and now = now] by blast
  obtain n' c' i' where rest: "foldE (retry_step now) rows ((n, c), i) = Inr ((n', c'), i')" "retry_ok d [] c' i'"
    and c: "\<forall>h. (\<exists>j \<in> set i. di_game j = Some h \<and> is_active j) \<longrightarrow> (\<exists>j \<in> set i'. di_game j = Some h \<and> is_active j)"
    and e: "\<forall>h. Some h \<in> snd ` set rows \<longrightarrow> (\<exists>j \<in> set i'. di_game j = Some h \<and> is_active j)"
    using Cons.IH [OF step(2), where k = n] by blast
  show ?case
    using step(1) rest a b c e by (intro exI [of _ n'] exI [of _ c'] exI [of _ i']) (auto simp: row)
qed simp

lemma newest_first_set [simp]: "set (newest_first items) = set items"
  by (simp add: newest_first_def)

lemma retry_all_result:
  assumes ok: "database_ok d"
  shows "\<exists>n d'. retry_all_failed now d = Inr (n, d') \<and> database_ok d'
    \<and> list_all2 (\<lambda>i j. di_id j = di_id i \<and> di_game j = di_game i \<and> (j = i \<or> di_state i = FAILED \<and> di_state j = QUEUED)) (db_items d) (db_items d')
    \<and> (\<forall>i \<in> set (db_items d). \<forall>g. di_state i = FAILED \<and> di_game i = Some g \<longrightarrow>
         length (filter (\<lambda>j. di_game j = Some g \<and> is_active j) (db_items d')) = 1)"
proof -
  have items: "items_ok (db_items d)" using ok by (simp add: database_ok_def)
  define failed where "failed = newest_first (filter (\<lambda>i. di_state i = FAILED) (db_items d))"
  define rows where "rows = map (\<lambda>i. (di_id i, di_game i)) failed"
  have "distinct (map di_id failed)"
    using items by (simp add: failed_def newest_first_def items_ok_def distinct_map inj_on_subset [where A = "set (db_items d)"])
  then have start: "retry_ok d rows [] (db_items d)"
    using items by (auto simp: retry_ok_def rows_def failed_def comp_def list.rel_refl)
  obtain n c items' where fold: "foldE (retry_step now) rows ((0, []), db_items d) = Inr ((n, c), items')" and fin: "retry_ok d [] c items'"
    and act: "\<forall>h. Some h \<in> snd ` set rows \<longrightarrow> (\<exists>i \<in> set items'. di_game i = Some h \<and> is_active i)"
    using retry_fold_ok [OF start, where k = 0 and now = now] by blast
  have eq: "retry_all_failed now d = Inr (n, d\<lparr>db_items := items'\<rparr>)"
    using fold by (simp add: retry_all_failed_def Let_def rows_def failed_def)
  have l2: "list_all2 (\<lambda>i j. di_id j = di_id i \<and> di_game j = di_game i \<and> (j = i \<or> di_state i = FAILED \<and> di_state j = QUEUED)) (db_items d) items'"
    and ok': "items_ok items'" using fin by (simp_all add: retry_ok_def)
  have "\<exists>i \<in> set (db_items d). di_game j = di_game i" if "j \<in> set items'" for j
    using l2 that by (auto simp: list_all2_conv_all_nth in_set_conv_nth) (metis nth_mem)
  then have "database_ok (d\<lparr>db_items := items'\<rparr>)" by (rule database_ok_items [OF ok ok'])
  moreover have "length (filter (\<lambda>j. di_game j = Some g \<and> is_active j) items') = 1"
    if "i \<in> set (db_items d)" "di_state i = FAILED" "di_game i = Some g" for i g
  proof -
    have "Some g \<in> snd ` set rows" using that by (force simp: rows_def failed_def image_iff)
    then obtain j where j: "j \<in> set items'" "di_game j = Some g" "is_active j" using act by blast
    have u: "unique_active items'" using ok' by (simp add: items_ok_def)
    show ?thesis by (rule unique_active_one [OF u j])
  qed
  ultimately show ?thesis using eq l2 by simp
qed

text \<open>
  Retrying every failed download never meets the uniqueness constraint: it succeeds, only turns
  failed rows into queued ones, and afterwards every game that had a failed download has exactly one
  active download.
\<close>

theorem queue_retry_all:
  assumes ok: "database_ok d"
  shows "\<exists>n d'. retry_all_failed now d = Inr (n, d') \<and> database_ok d'
    \<and> list_all2 (\<lambda>i j. di_id j = di_id i \<and> di_game j = di_game i \<and> (j = i \<or> di_state i = FAILED \<and> di_state j = QUEUED)) (db_items d) (db_items d')
    \<and> (\<forall>i \<in> set (db_items d). \<forall>g. di_state i = FAILED \<and> di_game i = Some g \<longrightarrow>
         length (filter (\<lambda>j. di_game j = Some g \<and> is_active j) (db_items d')) = 1)"
  by (rule retry_all_result [OF ok])

theorem queue_retry_all_witness:
  "\<exists>n d'. retry_all_failed 9 \<lparr>db_games = [], db_items =
       [(queued_item ''a'' 1 ''g'' ''t'' ''s'' MANUAL None 1)\<lparr>di_game := None, di_state := FAILED\<rparr>],
       db_members = [], db_assets = [], db_files = [], db_reservations = []\<rparr> = Inr (n, d') \<and> database_ok d'"
proof -
  have "database_ok \<lparr>db_games = [], db_items =
       [(queued_item ''a'' 1 ''g'' ''t'' ''s'' MANUAL None 1)\<lparr>di_game := None, di_state := FAILED\<rparr>],
       db_members = [], db_assets = [], db_files = [], db_reservations = []\<rparr>"
    by (simp add: database_ok_def items_ok_def queued_item_def unique_active_Cons)
  from queue_retry_all [OF this, of 9] show ?thesis by blast
qed

subsection \<open>Order of service\<close>

lemma find_None_filter: "find P xs = None \<longleftrightarrow> filter P xs = []"
  by (induction xs) auto

lemma insort_key_append_last: "f a \<le> f x \<Longrightarrow> insort_key f a (ys @ [x]) = insort_key f a ys @ [x]"
  by (induction ys) auto

lemma sort_key_append_last: "\<forall>y \<in> set xs. f y \<le> f x \<Longrightarrow> sort_key f (xs @ [x]) = sort_key f xs @ [x]"
  by (induction xs) (simp_all add: insort_key_append_last)

lemma sort_key_hd:
  assumes "distinct (map f xs)"
  shows "(\<exists>ys. sort_key f xs = x # ys) \<longleftrightarrow> x \<in> set xs \<and> (\<forall>y \<in> set xs. y \<noteq> x \<longrightarrow> f x < f y)"
proof -
  have "x \<in> set xs \<and> (\<forall>y \<in> set xs. y \<noteq> x \<longrightarrow> f x < f y)" if "sort_key f xs = x # ys" for ys x
  proof -
    have set: "set xs = set (x # ys)" by (metis that set_sort)
    have "sorted (map f (x # ys))" by (metis that sorted_sort_key)
    moreover have "inj_on f (set xs)" using assms by (simp add: distinct_map)
    ultimately show ?thesis
      unfolding set by (auto simp: inj_on_def order_less_le)
  qed
  note head = this
  show ?thesis
  proof
    assume least: "x \<in> set xs \<and> (\<forall>y \<in> set xs. y \<noteq> x \<longrightarrow> f x < f y)"
    then obtain z zs where z: "sort_key f xs = z # zs"
      by (metis list.exhaust list.set(1) empty_iff set_sort)
    with head [OF this] least have "z = x" by (metis less_asym)
    with z show "\<exists>ys. sort_key f xs = x # ys" by blast
  qed (use head in blast)
qed

lemma next_queued_iff:
  assumes "database_ok d"
  shows "next_queued d = Some i \<longleftrightarrow> i \<in> set (db_items d) \<and> di_state i = QUEUED
    \<and> (\<forall>j \<in> set (db_items d). di_state j = QUEUED \<and> j \<noteq> i \<longrightarrow> di_seq i < di_seq j)"
proof -
  have "distinct (map di_seq (filter (\<lambda>i. di_state i = QUEUED) (db_items d)))"
    using assms by (simp add: database_ok_def items_ok_def distinct_map_filter)
  note head = sort_key_hd [OF this, of i]
  have "next_queued d = Some i \<longleftrightarrow> (\<exists>ys. sort_key di_seq (filter (\<lambda>i. di_state i = QUEUED) (db_items d)) = i # ys)"
    by (simp add: next_queued_def split: list.split)
  then show ?thesis unfolding head by auto
qed

text \<open>
  C36: A request for a game that has an active download returns that one and changes nothing; any other
  request goes behind every row of the queue, and is served next only when no row is queued before it.  The worker is
  served the queued row with the smallest sequence number, and none exactly when no row is queued.
\<close>

theorem queue_fifo:
  assumes ok: "database_ok d" and fresh: "item_id \<notin> di_id ` set (db_items d)" and game: "game_id \<in> gm_id ` set (db_games d)"
  shows "((\<exists>i \<in> set (db_items d). di_game i = Some game_id \<and> is_active i
            \<and> enqueue item_id now game_id title system origin batch_id d = Inr ((i, False), d))
    \<or> (\<exists>item. enqueue item_id now game_id title system origin batch_id d = Inr ((item, True), d\<lparr>db_items := db_items d @ [item]\<rparr>)
         \<and> di_state item = QUEUED \<and> di_game item = Some game_id
         \<and> list_all_items (d\<lparr>db_items := db_items d @ [item]\<rparr>) = list_all_items d @ [item]
         \<and> next_queued (d\<lparr>db_items := db_items d @ [item]\<rparr>) = (case next_queued d of None \<Rightarrow> Some item | Some i \<Rightarrow> Some i)))
    \<and> (next_queued d = None \<longleftrightarrow> (\<forall>j \<in> set (db_items d). di_state j \<noteq> QUEUED))
    \<and> (\<forall>i. next_queued d = Some i \<longleftrightarrow> i \<in> set (db_items d) \<and> di_state i = QUEUED
         \<and> (\<forall>j \<in> set (db_items d). di_state j = QUEUED \<and> j \<noteq> i \<longrightarrow> di_seq i < di_seq j))"
  (is "?request \<and> ?none \<and> ?served")
proof (intro conjI)
  show ?served using next_queued_iff [OF ok] by blast
  have "sort_key di_seq (filter (\<lambda>i. di_state i = QUEUED) (db_items d)) = [] \<longleftrightarrow> (\<forall>j \<in> set (db_items d). di_state j \<noteq> QUEUED)"
    by (metis (mono_tags, lifting) empty_filter_conv set_empty set_sort)
  then show ?none by (cases "sort_key di_seq (filter (\<lambda>i. di_state i = QUEUED) (db_items d))") (simp_all add: next_queued_def)
  show ?request
  proof (cases "find (\<lambda>i. di_game i = Some game_id \<and> is_active i) (db_items d)")
    case (Some i)
    then have "i \<in> set (db_items d) \<and> di_game i = Some game_id \<and> is_active i" by (auto simp: find_Some_iff)
    with Some show ?thesis by (intro disjI1) (auto simp: enqueue_def)
  next
    case None
    define item where "item = queued_item item_id now game_id title system origin batch_id (next_sequence (db_items d))"
    have no: "\<forall>j \<in> set (db_items d). di_game j = Some game_id \<longrightarrow> \<not> is_active j"
      using None by (auto simp: find_None_iff)
    have "unique_active (db_items d @ [item])"
      using no database_unique [OF ok] by (auto simp: unique_active_append item_def queued_item_def)
    then have "insert_item item d = Inr (d\<lparr>db_items := db_items d @ [item]\<rparr>)"
      using fresh game by (simp add: insert_item_def item_def queued_item_def)
    then have "enqueue item_id now game_id title system origin batch_id d = Inr ((item, True), d\<lparr>db_items := db_items d @ [item]\<rparr>)"
      using None by (simp add: enqueue_def Let_def item_def)
    moreover have last: "\<forall>y \<in> set (db_items d). di_seq y \<le> di_seq item"
      using next_sequence_greater [of _ "db_items d"] by (auto simp: item_def queued_item_def intro: less_imp_le)
    then have "list_all_items (d\<lparr>db_items := db_items d @ [item]\<rparr>) = list_all_items d @ [item]"
      by (simp add: list_all_items_def sort_key_append_last)
    moreover have "sort_key di_seq (filter (\<lambda>i. di_state i = QUEUED) (db_items d) @ [item])
        = sort_key di_seq (filter (\<lambda>i. di_state i = QUEUED) (db_items d)) @ [item]"
      using last by (intro sort_key_append_last) auto
    then have "next_queued (d\<lparr>db_items := db_items d @ [item]\<rparr>) = (case next_queued d of None \<Rightarrow> Some item | Some i \<Rightarrow> Some i)"
      by (simp add: next_queued_def item_def queued_item_def split: list.split)
    moreover have "di_state item = QUEUED" "di_game item = Some game_id" by (simp_all add: item_def queued_item_def)
    ultimately show ?thesis by (intro disjI2 exI [of _ item]) simp
  qed
qed

text \<open>A database with one game and nothing queued.\<close>

definition sample_database :: database where
  "sample_database = \<lparr>db_games = [\<lparr>gm_id = ''g'', gm_system = ''psx'', gm_title = ''G'', gm_provider = ''smb'', gm_root = ''/roms'',
     gm_assets = [], gm_added = 0, gm_last_played = None, gm_is_eligible = True\<rparr>], db_items = [], db_members = [],
     db_assets = [], db_files = [], db_reservations = []\<rparr>"

lemma sample_database_ok [simp]: "database_ok sample_database"
  by (simp add: sample_database_def database_ok_def items_ok_def)

theorem queue_fifo_witness:
  "\<exists>item. enqueue ''x'' 5 ''g'' ''G'' ''psx'' MANUAL None sample_database
     = Inr ((item, True), sample_database\<lparr>db_items := [item]\<rparr>)
     \<and> next_queued (sample_database\<lparr>db_items := [item]\<rparr>) = Some item"
proof -
  have "db_items sample_database = []" "''g'' \<in> gm_id ` set (db_games sample_database)" "next_queued sample_database = None"
    by (simp_all add: sample_database_def next_queued_def)
  then show ?thesis
    using queue_fifo [OF sample_database_ok, of "''x''" "''g''" 5 "''G''" "''psx''" MANUAL None] by auto
qed

subsection \<open>History\<close>

lemma filter_drop_take:
  "distinct (map f xs) \<Longrightarrow> filter (\<lambda>x. f x \<notin> f ` set (drop k xs)) xs = take k xs"
proof -
  assume d: "distinct (map f xs)"
  have split: "xs = take k xs @ drop k xs" by simp
  have "filter (\<lambda>x. f x \<notin> f ` set (drop k xs)) xs
      = filter (\<lambda>x. f x \<notin> f ` set (drop k xs)) (take k xs) @ filter (\<lambda>x. f x \<notin> f ` set (drop k xs)) (drop k xs)"
    by (metis filter_append split)
  moreover have "f x \<notin> f ` set (drop k xs)" if "x \<in> set (take k xs)" for x
  proof -
    have "distinct (map f (take k xs) @ map f (drop k xs))" using d by (metis map_append split)
    then show ?thesis using that by (auto simp: disjoint_iff)
  qed
  ultimately show ?thesis by (simp add: filter_id_conv)
qed

lemma filter_newest_first: "filter P (newest_first items) = newest_first (filter P items)"
  by (simp add: newest_first_def filter_sort)

lemma prunable_after:
  assumes "database_ok d"
  shows "prunable (snd (prune_terminal keep d)) = take keep (prunable d)"
proof -
  let ?gone = "di_id ` set (drop keep (prunable d))"
  have dist: "distinct (map di_id (prunable d))"
    using assms by (simp add: prunable_def newest_first_def database_ok_def items_ok_def distinct_map inj_on_subset [where A = "set (db_items d)"])
  have s: "has_staging (snd (prune_terminal keep d)) = has_staging d"
    by (simp add: prune_terminal_def delete_items_def Let_def has_staging_def [abs_def])
  have "db_items (snd (prune_terminal keep d)) = filter (\<lambda>i. di_id i \<notin> ?gone) (db_items d)"
    by (simp add: prune_terminal_def Let_def)
  then have "prunable (snd (prune_terminal keep d)) = filter (\<lambda>i. di_id i \<notin> ?gone) (prunable d)"
    unfolding prunable_def s by (simp add: filter_newest_first conj_commute)
  then show ?thesis using filter_drop_take [OF dist] by simp
qed

lemma prune_removes:
  assumes "database_ok d"
  shows "set (db_items d) - set (db_items (snd (prune_terminal keep d))) = set (drop keep (prunable d))"
    and "db_items (snd (prune_terminal keep d)) = filter (\<lambda>i. i \<notin> set (drop keep (prunable d))) (db_items d)"
    and "fst (prune_terminal keep d) = card (set (drop keep (prunable d)))"
proof -
  let ?dropped = "set (drop keep (prunable d))"
  have sub: "?dropped \<subseteq> set (db_items d)" using set_drop_subset [of keep "prunable d"] by (auto simp: prunable_def)
  have gone: "di_id i \<in> di_id ` ?dropped \<longleftrightarrow> i \<in> ?dropped" if "i \<in> set (db_items d)" for i
    using sub items_by_id that assms unfolding database_ok_def by blast
  have "db_items (snd (prune_terminal keep d)) = filter (\<lambda>i. di_id i \<notin> di_id ` ?dropped) (db_items d)"
    by (simp add: prune_terminal_def Let_def)
  also have "\<dots> = filter (\<lambda>i. i \<notin> ?dropped) (db_items d)" using gone by (intro filter_cong) auto
  finally show items: "db_items (snd (prune_terminal keep d)) = filter (\<lambda>i. i \<notin> ?dropped) (db_items d)" .
  show "set (db_items d) - set (db_items (snd (prune_terminal keep d))) = ?dropped" using sub by (auto simp: items)
  have "distinct (db_items d)" using assms by (auto simp: database_ok_def items_ok_def distinct_map)
  then have "length (filter (\<lambda>i. i \<in> ?dropped) (db_items d)) = card ?dropped"
    using sub by (simp add: distinct_length_filter Int_absorb2)
  moreover have "filter (\<lambda>i. di_id i \<in> di_id ` ?dropped) (db_items d) = filter (\<lambda>i. i \<in> ?dropped) (db_items d)"
    using gone by (intro filter_cong) auto
  ultimately show "fst (prune_terminal keep d) = card ?dropped" by (simp add: prune_terminal_def Let_def)
qed

text \<open>
  C37: Pruning the history keeps exactly as many removable rows (finished downloads without a staging
  manifest) as asked for, or all of them when there are no more, and they are the most recent ones: no removed row is newer than
  a removable row that stays.  Every other row stays, in its place, and the call returns how many rows it removed.
\<close>

theorem queue_prune:
  fixes d d' :: database and keep :: nat
  assumes ok: "database_ok d"
  defines "d' \<equiv> snd (prune_terminal keep d)"
    and "removable \<equiv> {i \<in> set (db_items d). is_terminal i \<and> \<not> has_staging d i}"
  defines "removed \<equiv> set (db_items d) - set (db_items d')"
  shows "removed \<subseteq> removable
    \<and> card (removable - removed) = min keep (card removable)
    \<and> (\<forall>i \<in> removed. \<forall>j \<in> removable - removed. di_updated i \<le> di_updated j)
    \<and> db_items d' = filter (\<lambda>i. i \<notin> removed) (db_items d)
    \<and> fst (prune_terminal keep d) = card removed"
proof (intro conjI)
  have all: "removable = set (prunable d)" by (auto simp: removable_def prunable_def)
  have gone: "removed = set (drop keep (prunable d))" unfolding removed_def d'_def by (rule prune_removes(1) [OF ok])
  have dist: "distinct (prunable d)"
    using ok by (auto simp: prunable_def newest_first_def database_ok_def items_ok_def distinct_map)
  have split: "prunable d = take keep (prunable d) @ drop keep (prunable d)" by simp
  have disj: "set (take keep (prunable d)) \<inter> set (drop keep (prunable d)) = {}"
    using dist by (metis split distinct_append)
  have kept: "removable - removed = set (take keep (prunable d))"
    using disj unfolding all gone by (metis Diff_disjoint Un_Diff_cancel2 Diff_Un Int_commute Un_Diff Diff_cancel Diff_triv sup_bot_right set_append split)
  show "removed \<subseteq> removable" unfolding all gone by (rule set_drop_subset)
  show "card (removable - removed) = min keep (card removable)"
    unfolding kept unfolding all using dist by (simp add: distinct_card min.commute)
  show "db_items d' = filter (\<lambda>i. i \<notin> removed) (db_items d)"
    unfolding gone d'_def by (rule prune_removes(2) [OF ok])
  show "fst (prune_terminal keep d) = card removed" unfolding gone by (rule prune_removes(3) [OF ok])
  have "sorted (map (\<lambda>i. - di_updated i) (prunable d))" by (simp add: prunable_def newest_first_def)
  then have "sorted (map (\<lambda>i. - di_updated i) (take keep (prunable d) @ drop keep (prunable d)))" by simp
  then show "\<forall>i \<in> removed. \<forall>j \<in> removable - removed. di_updated i \<le> di_updated j"
    unfolding kept unfolding gone map_append sorted_append by auto
qed

text \<open>Two failed downloads, of which the more recent one is kept.\<close>

definition failed_database :: database where
  "failed_database = sample_database\<lparr>db_items :=
     [(queued_item ''a'' 1 ''g'' ''t'' ''s'' MANUAL None 1)\<lparr>di_state := FAILED, di_updated := 5\<rparr>,
      (queued_item ''b'' 2 ''g'' ''t'' ''s'' MANUAL None 2)\<lparr>di_state := FAILED, di_updated := 9\<rparr>]\<rparr>"

lemma failed_database_ok [simp]: "database_ok failed_database"
  by (simp add: failed_database_def database_ok_def items_ok_def queued_item_def unique_active_Cons sample_database_def is_active_def
      ACTIVE_DOWNLOAD_STATES_def)

theorem queue_prune_witness:
  "map di_id (db_items (snd (prune_terminal 1 failed_database))) = [''b'']
    \<and> fst (prune_terminal 1 failed_database)
      = card (set (db_items failed_database) - set (db_items (snd (prune_terminal 1 failed_database))))"
proof
  show "map di_id (db_items (snd (prune_terminal 1 failed_database))) = [''b'']" by code_simp
  show "fst (prune_terminal 1 failed_database)
      = card (set (db_items failed_database) - set (db_items (snd (prune_terminal 1 failed_database))))"
    using queue_prune [OF failed_database_ok, of 1] by blast
qed

end
