(* ===== verification/DownloadManager.thy ===== *)
theory DownloadManager
  imports DownloadQueue
begin

text \<open>
  The download manager (\<open>services/download_manager.py\<close>, with the policy of
  \<open>core/capabilities.py\<close>): the control operations of the interface and the background
  worker as a program counter over the critical sections and database transactions of its loop, so that
  every interleaving of the two is a sequence of steps.

  Resolving and locking the dependency closure and the transfer itself belong to the cache
  service: what they return or raise is an argument of a worker step.
\<close>

subsection \<open>Capabilities\<close>

datatype operating_mode = CONNECTED | CACHE | OFFLINE

datatype capability =
    OFFLINE_MODE | CACHED_LAUNCH | CACHE_STATUS | CACHE_MANAGE | GAME_DOWNLOAD | CATALOG_REFRESH | LIBRARY_SYNC
  | SAVE_SYNC | UPDATE_NETWORK | REMOTE_VALIDATION | LOCAL_SETTINGS | LOCAL_DIAGNOSTICS | CONNECTION_RECOVERY

definition OFFLINE_BLOCKED :: "capability list" where
  "OFFLINE_BLOCKED = [GAME_DOWNLOAD, CATALOG_REFRESH, LIBRARY_SYNC, SAVE_SYNC, UPDATE_NETWORK, REMOTE_VALIDATION]"

record capability_decision =
  cd_allowed :: bool
  cd_reason :: "string option"

record capability_policy =
  cp_game_access_mode :: string
  cp_operating_mode :: operating_mode
  cp_blocked :: "capability list"
  cp_blocked_reason :: "string option"

definition policy_offline :: "capability_policy \<Rightarrow> bool" where
  "policy_offline p \<longleftrightarrow> cp_operating_mode p = OFFLINE"

text \<open>A missing or empty configured reason is replaced by a general one.\<close>

definition decision :: "capability_policy \<Rightarrow> capability \<Rightarrow> capability_decision" where
  "decision p c =
     (if c \<in> set (cp_blocked p)
      then \<lparr>cd_allowed = False, cd_reason = Some (case cp_blocked_reason p of
              None \<Rightarrow> ''Unavailable with the configured storage provider.''
            | Some r \<Rightarrow> if r = [] then ''Unavailable with the configured storage provider.'' else r)\<rparr>
      else if policy_offline p \<and> c \<in> set OFFLINE_BLOCKED
      then \<lparr>cd_allowed = False,
            cd_reason = Some ''Unavailable while Offline is active. Switch to Cached Storage or Direct first.''\<rparr>
      else \<lparr>cd_allowed = True, cd_reason = None\<rparr>)"

definition allows :: "capability_policy \<Rightarrow> capability \<Rightarrow> bool" where
  "allows p c = cd_allowed (decision p c)"

text \<open>The error message of \<open>require\<close>, if it raises.\<close>

definition require :: "capability_policy \<Rightarrow> capability \<Rightarrow> string \<Rightarrow> string + unit" where
  "require p c operation =
     (let d = decision p c
      in if \<not> cd_allowed d then Inl (operation @ '': '' @ (case cd_reason d of None \<Rightarrow> ''None'' | Some r \<Rightarrow> r)) else Inr ())"

subsection \<open>State\<close>

text \<open>
  The fields of the service that its threads share.  \<open>mg_token\<close> is the active cancellation token with
  its flag, \<open>mg_requested\<close> the stop each active download was asked for.
\<close>

record manager =
  mg_db :: database
  mg_offline :: bool
  mg_claiming :: bool
  mg_active :: "string option"
  mg_token :: "bool option"
  mg_requested :: "(string, download_state) dict"
  mg_stopping :: bool
  mg_wake :: bool
  mg_instance :: string

definition HISTORY_LIMIT :: nat where "HISTORY_LIMIT = 200"

definition start_manager :: "string \<Rightarrow> int \<Rightarrow> database \<Rightarrow> manager" where
  "start_manager instance_id now d =
     \<lparr>mg_db = snd (prune_terminal HISTORY_LIMIT (snd (recover_interrupted now d))),
      mg_offline = False, mg_claiming = False, mg_active = None, mg_token = None, mg_requested = [],
      mg_stopping = False, mg_wake = False, mg_instance = instance_id\<rparr>"

definition downloads_blocked :: "capability_policy option \<Rightarrow> manager \<Rightarrow> bool \<times> manager" where
  "downloads_blocked policy m =
     (if mg_offline m then (True, m)
      else case policy of
        None \<Rightarrow> (False, m)
      | Some p \<Rightarrow> if policy_offline p then (True, m\<lparr>mg_offline := True\<rparr>) else (\<not> allows p GAME_DOWNLOAD, m))"

definition move :: "int \<Rightarrow> string \<Rightarrow> download_state list \<Rightarrow> download_state \<Rightarrow> manager \<Rightarrow> bool \<times> manager" where
  "move now item_id from_states to_state m =
     (case transition now item_id from_states to_state None None None (mg_db m) of (done, d) \<Rightarrow> (done, m\<lparr>mg_db := d\<rparr>))"

subsection \<open>Control operations\<close>

datatype control_error = ValueError string | RuntimeError string | DatabaseError db_error

definition request_active_stop :: "string \<Rightarrow> download_state \<Rightarrow> manager \<Rightarrow> control_error + manager" where
  "request_active_stop item_id action m =
     (if mg_active m \<noteq> Some item_id \<or> mg_token m = None
      then Inl (ValueError ''Download is no longer active.'')
      else Inr (m\<lparr>mg_requested := AList.update item_id action (mg_requested m), mg_token := Some True\<rparr>))"

definition require_item :: "string \<Rightarrow> manager \<Rightarrow> control_error + download_item" where
  "require_item item_id m =
     (case get_item item_id (mg_db m) of None \<Rightarrow> Inl (ValueError ''Download item not found.'') | Some i \<Rightarrow> Inr i)"

definition pause :: "string \<Rightarrow> manager \<Rightarrow> control_error + manager" where
  "pause item_id m =
     bindE (require_item item_id m) (\<lambda>item.
       if di_state item \<notin> {RUNNING, VERIFYING}
       then Inl (ValueError ''Only a running or verifying download can be paused.'')
       else request_active_stop item_id PAUSED m)"

definition cancel :: "int \<Rightarrow> string \<Rightarrow> manager \<Rightarrow> control_error + manager" where
  "cancel now item_id m =
     bindE (require_item item_id m) (\<lambda>item.
       if di_state item = QUEUED
       then (case move now item_id [QUEUED] CANCELLED m of
               (False, _) \<Rightarrow> Inl (ValueError ''Download state changed; refresh and try again.'')
             | (True, m') \<Rightarrow> Inr m')
       else if di_state item \<notin> {RUNNING, VERIFYING}
       then Inl (ValueError ''Only a queued or active download can be cancelled.'')
       else request_active_stop item_id CANCELLED m)"

definition resume :: "int \<Rightarrow> string \<Rightarrow> manager \<Rightarrow> control_error + manager" where
  "resume now item_id m =
     (case move now item_id [PAUSED, INTERRUPTED, CANCELLED] QUEUED m of
        (False, _) \<Rightarrow> Inl (ValueError ''Only paused, interrupted, or cancelled downloads can resume.'')
      | (True, m') \<Rightarrow> Inr (m'\<lparr>mg_wake := True\<rparr>))"

definition retry :: "int \<Rightarrow> string \<Rightarrow> manager \<Rightarrow> control_error + manager" where
  "retry now item_id m =
     (case move now item_id [FAILED] QUEUED m of
        (False, _) \<Rightarrow> Inl (ValueError ''Only a failed download can be retried.'')
      | (True, m') \<Rightarrow> Inr (m'\<lparr>mg_wake := True\<rparr>))"

definition remove_queued :: "string \<Rightarrow> manager \<Rightarrow> control_error + manager" where
  "remove_queued item_id m =
     (case delete_queued item_id (mg_db m) of
        (False, _) \<Rightarrow> Inl (ValueError ''Only a queued download can be removed.'')
      | (True, d) \<Rightarrow> Inr (m\<lparr>mg_db := d\<rparr>))"

definition cancel_active :: "download_state \<Rightarrow> manager \<Rightarrow> nat \<times> manager" where
  "cancel_active action m =
     (case (mg_active m, mg_token m) of
        (Some item_id, Some _) \<Rightarrow> (if item_id = [] then (0, m) else
          (1, m\<lparr>mg_requested := AList.update item_id action (mg_requested m), mg_token := Some True\<rparr>))
      | _ \<Rightarrow> (0, m))"

definition cancel_all :: "int \<Rightarrow> manager \<Rightarrow> nat \<times> manager" where
  "cancel_all now m =
     (case queued_cancel_all now (mg_db m) of (count, d) \<Rightarrow>
        (case cancel_active CANCELLED (m\<lparr>mg_db := d\<rparr>) of (n, m') \<Rightarrow> (count + n, m')))"

definition retry_failed :: "int \<Rightarrow> manager \<Rightarrow> db_error + (nat \<times> manager)" where
  "retry_failed now m =
     bindE (retry_all_failed now (mg_db m)) (\<lambda>(count, d).
       Inr (count, m\<lparr>mg_db := d, mg_wake := (if count = 0 then mg_wake m else True)\<rparr>))"

definition shutdown :: "manager \<Rightarrow> manager" where
  "shutdown m = (snd (cancel_active INTERRUPTED (m\<lparr>mg_stopping := True\<rparr>)))\<lparr>mg_wake := True\<rparr>"

text \<open>The first section of \<open>apply_operating_mode\<close>, and the condition its wait ends on.\<close>

definition set_mode :: "bool \<Rightarrow> manager \<Rightarrow> manager" where
  "set_mode offline m =
     (let m1 = m\<lparr>mg_offline := offline\<rparr>
      in (if offline then snd (cancel_active PAUSED m1) else m1)\<lparr>mg_wake := True\<rparr>)"

definition settled :: "manager \<Rightarrow> bool" where
  "settled m \<longleftrightarrow> \<not> mg_claiming m \<and> mg_active m = None"

definition mode_wait :: "bool \<Rightarrow> manager \<Rightarrow> control_error + unit" where
  "mode_wait offline m =
     (if offline \<and> \<not> settled m
      then Inl (RuntimeError ''Download Manager did not reach a safe Offline boundary.'') else Inr ())"

text \<open>
  Enqueueing a selection is a transaction per game: games before one that is refused stay enqueued.
  \<open>uuid\<close> gives the fresh identifier of the row of each game.
\<close>

definition enqueue_step ::
  "(string \<Rightarrow> string) \<Rightarrow> int \<Rightarrow> download_origin \<Rightarrow> string option \<Rightarrow> string \<Rightarrow> download_item list \<times> nat \<Rightarrow> manager
     \<Rightarrow> (control_error + download_item list \<times> nat) \<times> manager" where
  "enqueue_step uuid now origin batch_id game_id s m =
     (case find (\<lambda>g. gm_id g = game_id) (db_games (mg_db m)) of
        None \<Rightarrow> (Inl (ValueError (''Game not found in eligible catalog: '' @ game_id)), m)
      | Some g \<Rightarrow>
          if \<not> gm_is_eligible g then (Inl (ValueError (''Game not found in eligible catalog: '' @ game_id)), m)
          else (case enqueue (uuid game_id) now (gm_id g) (gm_title g) (gm_system g) origin batch_id (mg_db m) of
            Inl e \<Rightarrow> (Inl (DatabaseError e), m)
          | Inr ((item, was_created), d) \<Rightarrow>
              (Inr (fst s @ [item], snd s + (if was_created then 1 else 0)), m\<lparr>mg_db := d\<rparr>)))"

definition enqueue_games ::
  "(string \<Rightarrow> string) \<Rightarrow> int \<Rightarrow> download_origin \<Rightarrow> string option \<Rightarrow> string list \<Rightarrow> manager
     \<Rightarrow> (control_error + download_item list \<times> nat) \<times> manager" where
  "enqueue_games uuid now origin batch_id game_ids m =
     bindS (foldS (enqueue_step uuid now origin batch_id) (dedup (filter (\<lambda>g. g \<noteq> []) game_ids)) ([], 0) m) (\<lambda>(items, created) m'.
       if items = [] then (Inl (ValueError ''Select at least one game to download.''), m')
       else (Inr (items, created), m'\<lparr>mg_wake := True\<rparr>))"

subsection \<open>The worker\<close>

text \<open>What the worker is doing between two of its critical sections or transactions.\<close>

datatype worker_pc =
    Stopped
  | Loop
  | Picked download_item
  | Resolving download_item
  | Refused download_item string string
  | Locked download_item
  | Transferring download_item bool int
  | Interrupted download_item int
  | Requested download_item
  | Outcome download_item download_state "string option" "string option"
  | Raised download_item int string string
  | Suspended download_item int download_state
  | Applying download_item download_state download_state "string option" "string option"
  | Cleanup
  | Pruning

datatype lock_result = Lock_Held | Lock_Busy | Lock_Raised string string

text \<open>
  What the transfer does next: report progress (with whether the clock or the bytes since the last
  report call for persisting it), raise
  \<open>TransferCancelledError\<close> or another exception, or return.
\<close>

datatype transfer_event = Progress int int bool | Transfer_Cancelled | Transfer_Raised string string | Transfer_Done

text \<open>What a worker step sees of its surroundings.\<close>

record worker_env =
  we_now :: int
  we_policy :: "capability_policy option"
  we_lock :: lock_result
  we_retained :: int
  we_transfer :: transfer_event

definition worker_pick :: "worker_env \<Rightarrow> manager \<Rightarrow> worker_pc \<times> manager" where
  "worker_pick env m =
     (case next_queued (mg_db m) of
        None \<Rightarrow> (Loop, m\<lparr>mg_wake := False\<rparr>)
      | Some item \<Rightarrow>
          if di_game item = None
          then (Loop, m\<lparr>mg_db := snd (transition (we_now env) (di_id item) [QUEUED] FAILED None
                    (Some ''game_missing'') (Some ''The catalog game no longer exists.'') (mg_db m))\<rparr>)
          else (Picked item, m))"

definition worker_claim :: "worker_env \<Rightarrow> download_item \<Rightarrow> manager \<Rightarrow> worker_pc \<times> manager" where
  "worker_claim env item m =
     (case downloads_blocked (we_policy env) m of
        (True, m1) \<Rightarrow> (Loop, m1\<lparr>mg_wake := False\<rparr>)
      | (False, m1) \<Rightarrow> (Resolving item, m1\<lparr>mg_claiming := True\<rparr>))"

definition worker_lock :: "worker_env \<Rightarrow> download_item \<Rightarrow> manager \<Rightarrow> worker_pc \<times> manager" where
  "worker_lock env item m =
     (let m1 = m\<lparr>mg_claiming := False\<rparr>
      in case we_lock env of
           Lock_Raised code message \<Rightarrow>
             (case downloads_blocked (we_policy env) m1 of
                (True, m2) \<Rightarrow> (Loop, m2)
              | (False, m2) \<Rightarrow> (Refused item code message, m2))
         | Lock_Busy \<Rightarrow> (Loop, m1\<lparr>mg_wake := False\<rparr>)
         | Lock_Held \<Rightarrow> (Locked item, m1))"

definition worker_refuse :: "worker_env \<Rightarrow> download_item \<Rightarrow> string \<Rightarrow> string \<Rightarrow> manager \<Rightarrow> worker_pc \<times> manager" where
  "worker_refuse env item code message m =
     (Loop, m\<lparr>mg_db := snd (transition (we_now env) (di_id item) [QUEUED] FAILED None (Some code) (Some message) (mg_db m))\<rparr>)"

definition worker_start :: "worker_env \<Rightarrow> download_item \<Rightarrow> manager \<Rightarrow> worker_pc \<times> manager" where
  "worker_start env item m =
     (let initial = (if we_retained env \<noteq> 0 then VERIFYING else RUNNING)
      in case downloads_blocked (we_policy env) m of
           (True, m1) \<Rightarrow> (Loop, m1\<lparr>mg_claiming := False\<rparr>)
         | (False, m1) \<Rightarrow>
             (case transition (we_now env) (di_id item) [QUEUED] initial (Some (mg_instance m1)) None None (mg_db m1) of
                (True, d) \<Rightarrow> (Transferring item (initial = VERIFYING) (di_total item),
                  m1\<lparr>mg_db := d, mg_active := Some (di_id item), mg_token := Some False, mg_claiming := False\<rparr>)
              | (False, d) \<Rightarrow> (Loop, m1\<lparr>mg_db := d, mg_claiming := False\<rparr>)))"

definition worker_progress ::
  "worker_env \<Rightarrow> download_item \<Rightarrow> bool \<Rightarrow> int \<Rightarrow> int \<Rightarrow> bool \<Rightarrow> manager \<Rightarrow> worker_pc \<times> manager" where
  "worker_progress env item pending done latest persist m =
     (let d1 = (if pending
                then snd (transition (we_now env) (di_id item) [VERIFYING] RUNNING (Some (mg_instance m)) None None (mg_db m))
                else mg_db m);
          d2 = (if persist \<or> 0 < latest \<and> latest \<le> done then update_progress (we_now env) (di_id item) done latest d1 else d1)
      in (Transferring item False latest, m\<lparr>mg_db := d2\<rparr>))"

definition worker_transfer :: "worker_env \<Rightarrow> download_item \<Rightarrow> bool \<Rightarrow> int \<Rightarrow> manager \<Rightarrow> worker_pc \<times> manager" where
  "worker_transfer env item pending latest m =
     (case we_transfer env of
        Progress done new_total persist \<Rightarrow> worker_progress env item pending done new_total persist m
      | Transfer_Cancelled \<Rightarrow> (Interrupted item latest, m)
      | Transfer_Raised code message \<Rightarrow> (Raised item latest code message, m)
      | Transfer_Done \<Rightarrow> (Outcome item COMPLETE None None, m))"

text \<open>The progress kept after an interruption: \<open>latest_total or (current.bytes_total if current else 0)\<close>.\<close>

definition keep_progress :: "worker_env \<Rightarrow> download_item \<Rightarrow> int \<Rightarrow> manager \<Rightarrow> manager" where
  "keep_progress env item latest m =
     m\<lparr>mg_db := update_progress (we_now env) (di_id item) (we_retained env)
        (if latest \<noteq> 0 then latest
         else case get_item (di_id item) (mg_db m) of None \<Rightarrow> 0 | Some current \<Rightarrow> di_total current) (mg_db m)\<rparr>"

definition worker_requested :: "download_item \<Rightarrow> manager \<Rightarrow> worker_pc \<times> manager" where
  "worker_requested item m =
     (Outcome item (case map_of (mg_requested m) (di_id item) of None \<Rightarrow> INTERRUPTED | Some action \<Rightarrow> action) None None,
      m\<lparr>mg_requested := AList.delete (di_id item) (mg_requested m)\<rparr>)"

definition worker_outcome ::
  "download_item \<Rightarrow> download_state \<Rightarrow> string option \<Rightarrow> string option \<Rightarrow> manager \<Rightarrow> worker_pc \<times> manager" where
  "worker_outcome item target code message m =
     (case get_item (di_id item) (mg_db m) of
        None \<Rightarrow> (Cleanup, m)
      | Some current \<Rightarrow> (Applying item (di_state current) target code message, m))"

definition worker_raised ::
  "worker_env \<Rightarrow> download_item \<Rightarrow> int \<Rightarrow> string \<Rightarrow> string \<Rightarrow> manager \<Rightarrow> worker_pc \<times> manager" where
  "worker_raised env item latest code message m =
     (case get_item (di_id item) (mg_db m) of
        None \<Rightarrow> (Cleanup, m)
      | Some current \<Rightarrow>
          (case downloads_blocked (we_policy env) m of
             (True, m1) \<Rightarrow> (Suspended item (if latest \<noteq> 0 then latest else di_total current) (di_state current), m1)
           | (False, m1) \<Rightarrow> (Applying item (di_state current) FAILED (Some code) (Some message), m1)))"

definition worker_suspend :: "worker_env \<Rightarrow> download_item \<Rightarrow> int \<Rightarrow> download_state \<Rightarrow> manager \<Rightarrow> worker_pc \<times> manager" where
  "worker_suspend env item bytes_total current m =
     (Applying item current PAUSED None None,
      m\<lparr>mg_db := update_progress (we_now env) (di_id item) (we_retained env) bytes_total (mg_db m)\<rparr>)"

definition worker_apply ::
  "worker_env \<Rightarrow> download_item \<Rightarrow> download_state \<Rightarrow> download_state \<Rightarrow> string option \<Rightarrow> string option \<Rightarrow> manager
     \<Rightarrow> worker_pc \<times> manager" where
  "worker_apply env item current target code message m =
     (Cleanup, m\<lparr>mg_db := snd (transition (we_now env) (di_id item) [current] target None code message (mg_db m))\<rparr>)"

fun worker_step :: "worker_env \<Rightarrow> worker_pc \<Rightarrow> manager \<Rightarrow> worker_pc \<times> manager" where
  "worker_step env Stopped m = (Stopped, m)"
| "worker_step env Loop m = (if mg_stopping m then (Stopped, m) else worker_pick env m)"
| "worker_step env (Picked item) m = worker_claim env item m"
| "worker_step env (Resolving item) m = worker_lock env item m"
| "worker_step env (Refused item code message) m = worker_refuse env item code message m"
| "worker_step env (Locked item) m = worker_start env item m"
| "worker_step env (Transferring item pending latest) m = worker_transfer env item pending latest m"
| "worker_step env (Interrupted item latest) m = (Requested item, keep_progress env item latest m)"
| "worker_step env (Requested item) m = worker_requested item m"
| "worker_step env (Outcome item target code message) m = worker_outcome item target code message m"
| "worker_step env (Raised item latest code message) m = worker_raised env item latest code message m"
| "worker_step env (Suspended item bytes_total current) m = worker_suspend env item bytes_total current m"
| "worker_step env (Applying item current target code message) m = worker_apply env item current target code message m"
| "worker_step env Cleanup m = (Pruning, m\<lparr>mg_active := None, mg_token := None\<rparr>)"
| "worker_step env Pruning m = (Loop, m\<lparr>mg_db := snd (prune_terminal HISTORY_LIMIT (mg_db m))\<rparr>)"

text \<open>\<open>start\<close> does nothing while the thread is alive.\<close>

definition start_worker :: "worker_pc \<Rightarrow> manager \<Rightarrow> worker_pc \<times> manager" where
  "start_worker pc m = (if pc = Stopped then (Loop, m\<lparr>mg_stopping := False\<rparr>) else (pc, m))"

subsection \<open>Interleavings\<close>

text \<open>The transfer raises \<open>TransferCancelledError\<close> only through its token.\<close>

definition transfer_contract :: "worker_env \<Rightarrow> manager \<Rightarrow> bool" where
  "transfer_contract env m \<longleftrightarrow> (we_transfer env = Transfer_Cancelled \<longrightarrow> mg_token m = Some True)"

definition control_moves :: "(download_state list \<times> download_state) list" where
  "control_moves = [([QUEUED], CANCELLED), ([PAUSED, INTERRUPTED, CANCELLED], QUEUED), ([FAILED], QUEUED)]"

inductive manager_step :: "worker_pc \<times> manager \<Rightarrow> worker_pc \<times> manager \<Rightarrow> bool" where
  worker: "transfer_contract env m \<Longrightarrow> manager_step (pc, m) (worker_step env pc m)"
| started: "manager_step (pc, m) (start_worker pc m)"
| enqueued: "manager_step (pc, m) (pc, snd (enqueue_step uuid now origin batch_id game_id s m))"
| moved: "(from_states, to_state) \<in> set control_moves \<Longrightarrow> manager_step (pc, m) (pc, snd (move now item_id from_states to_state m))"
| requested: "request_active_stop item_id action m = Inr m' \<Longrightarrow> action \<in> {PAUSED, CANCELLED} \<Longrightarrow> manager_step (pc, m) (pc, m')"
| removed: "manager_step (pc, m) (pc, m\<lparr>mg_db := snd (delete_queued item_id (mg_db m))\<rparr>)"
| cancelled_queued: "manager_step (pc, m) (pc, m\<lparr>mg_db := snd (queued_cancel_all now (mg_db m))\<rparr>)"
| cancelled_active: "manager_step (pc, m) (pc, snd (cancel_active CANCELLED m))"
| retried: "retry_failed now m = Inr (n, m') \<Longrightarrow> manager_step (pc, m) (pc, m')"
| shut: "manager_step (pc, m) (pc, shutdown m)"
| mode: "manager_step (pc, m) (pc, set_mode offline m)"
| awake: "manager_step (pc, m) (pc, m\<lparr>mg_wake := True\<rparr>)"
| forgot: "manager_step (pc, m) (pc, m\<lparr>mg_db := delete_game game_id (mg_db m)\<rparr>)"
| discarded: "manager_step (pc, m) (pc, m\<lparr>mg_db := update_progress now item_id present bytes_total (mg_db m)\<rparr>)"

inductive manager_reachable :: "worker_pc \<times> manager \<Rightarrow> bool" where
  start: "database_ok d \<Longrightarrow> manager_reachable (Stopped, start_manager instance_id now d)"
| step: "manager_reachable s \<Longrightarrow> manager_step s s' \<Longrightarrow> manager_reachable s'"

subsection \<open>What is in flight\<close>

definition running_of :: "download_item list \<Rightarrow> (string \<times> download_state) set" where
  "running_of items = set (map (\<lambda>i. (di_id i, di_state i)) (filter (\<lambda>i. di_state i \<in> {RUNNING, VERIFYING}) items))"

definition running :: "database \<Rightarrow> (string \<times> download_state) set" where
  "running d = running_of (db_items d)"

fun in_flight :: "worker_pc \<Rightarrow> (string \<times> download_state option) option" where
  "in_flight (Transferring item _ _) = Some (di_id item, None)"
| "in_flight (Interrupted item _) = Some (di_id item, None)"
| "in_flight (Requested item) = Some (di_id item, None)"
| "in_flight (Outcome item _ _ _) = Some (di_id item, None)"
| "in_flight (Raised item _ _ _) = Some (di_id item, None)"
| "in_flight (Suspended item _ current) = Some (di_id item, Some current)"
| "in_flight (Applying item current _ _ _) = Some (di_id item, Some current)"
| "in_flight _ = None"

definition flight_ok :: "worker_pc \<Rightarrow> (string \<times> download_state) set \<Rightarrow> bool" where
  "flight_ok pc R \<longleftrightarrow> (case in_flight pc of None \<Rightarrow> R = {}
     | Some (item_id, None) \<Rightarrow> (\<exists>s. R = {(item_id, s)})
     | Some (item_id, Some s) \<Rightarrow> R = {(item_id, s)})"

definition active_ok :: "worker_pc \<Rightarrow> string option \<Rightarrow> bool" where
  "active_ok pc active \<longleftrightarrow> (case in_flight pc of Some (item_id, _) \<Rightarrow> active = Some item_id
     | None \<Rightarrow> active \<noteq> None \<longrightarrow> pc = Cleanup)"

fun goal_of :: "worker_pc \<Rightarrow> download_state option" where
  "goal_of (Outcome _ target _ _) = Some target"
| "goal_of (Applying _ _ target _ _) = Some target"
| "goal_of _ = None"

fun stop_pending :: "worker_pc \<Rightarrow> bool" where
  "stop_pending (Interrupted _ _) = True"
| "stop_pending (Requested _) = True"
| "stop_pending _ = False"

fun stoppable :: "worker_pc \<Rightarrow> bool" where
  "stoppable (Transferring _ _ _) = True"
| "stoppable pc = stop_pending pc"

definition stop_states :: "download_state set" where
  "stop_states = {PAUSED, CANCELLED, INTERRUPTED}"

fun resolving :: "worker_pc \<Rightarrow> bool" where
  "resolving (Resolving _) = True"
| "resolving _ = False"

definition manager_ok :: "worker_pc \<times> manager \<Rightarrow> bool" where
  "manager_ok = (\<lambda>(pc, m). database_ok (mg_db m) \<and> flight_ok pc (running (mg_db m))
     \<and> (mg_claiming m \<longleftrightarrow> resolving pc)
     \<and> active_ok pc (mg_active m)
     \<and> (mg_token m = None \<longleftrightarrow> mg_active m = None)
     \<and> (\<forall>t. goal_of pc = Some t \<longrightarrow> t \<notin> {QUEUED, RUNNING, VERIFYING})
     \<and> snd ` set (mg_requested m) \<subseteq> stop_states
     \<and> (stop_pending pc \<longrightarrow> mg_token m = Some True)
     \<and> (\<forall>item_id. mg_token m = Some True \<and> mg_active m = Some item_id \<and> stoppable pc
          \<longrightarrow> item_id \<in> fst ` set (mg_requested m)))"

subsection \<open>Database operations and what is running\<close>

lemma running_of_simps [simp]:
  "running_of [] = {}"
  "running_of (i # items) = (if di_state i \<in> {RUNNING, VERIFYING} then {(di_id i, di_state i)} else {}) \<union> running_of items"
  "running_of (xs @ ys) = running_of xs \<union> running_of ys"
  by (auto simp: running_of_def)

lemma running_of_map:
  assumes "\<And>i. i \<in> set items \<Longrightarrow> di_id (f i) = di_id i"
    and "\<And>i. i \<in> set items \<Longrightarrow> di_state (f i) = di_state i \<or> di_state i \<notin> {RUNNING, VERIFYING} \<and> di_state (f i) \<notin> {RUNNING, VERIFYING}"
  shows "running_of (map f items) = running_of items"
  using assms
proof (induction items)
  case (Cons i items)
  have IH: "running_of (map f items) = running_of items" using Cons by simp
  have i: "di_id (f i) = di_id i" using Cons.prems(1) by simp
  from Cons.prems(2) [of i] consider "di_state (f i) = di_state i"
    | "di_state i \<notin> {RUNNING, VERIFYING}" "di_state (f i) \<notin> {RUNNING, VERIFYING}" by auto
  then show ?case by cases (simp_all only: list.map running_of_simps IH i if_False)
qed simp

lemma running_map:
  assumes "\<And>i. i \<in> set (db_items d) \<Longrightarrow> di_id (f i) = di_id i"
    and "\<And>i. i \<in> set (db_items d) \<Longrightarrow> di_state (f i) = di_state i \<or> di_state i \<notin> {RUNNING, VERIFYING} \<and> di_state (f i) \<notin> {RUNNING, VERIFYING}"
  shows "running (d\<lparr>db_items := map f (db_items d)\<rparr>) = running d"
  unfolding running_def using running_of_map [OF assms] by simp

lemma running_update_progress [simp]: "running (update_progress now item_id present bytes_total d) = running d"
  unfolding update_progress_def by (rule running_map) auto

lemma running_filter:
  assumes "\<And>i. i \<in> set (db_items d) \<Longrightarrow> P i \<Longrightarrow> di_state i \<notin> {RUNNING, VERIFYING}"
  shows "running (delete_items P d) = running d"
  using assms by (auto simp: running_def running_of_def)

lemma running_delete_queued [simp]: "running (snd (delete_queued item_id d)) = running d"
  unfolding delete_queued_def Let_def snd_conv by (rule running_filter) auto

lemma running_prune:
  assumes "database_ok d"
  shows "running (snd (prune_terminal keep d)) = running d"
  unfolding prune_terminal_def Let_def snd_conv
proof (rule running_filter)
  fix i assume i: "i \<in> set (db_items d)" "di_id i \<in> set (map di_id (drop keep (prunable d)))"
  then obtain x where x: "x \<in> set (drop keep (prunable d))" "di_id x = di_id i" by auto
  have "x \<in> set (prunable d)" using x(1) by (rule in_set_dropD)
  then have "x \<in> set (db_items d)" "is_terminal x" by (simp_all add: prunable_def)
  moreover have "x = i" using items_by_id i(1) x(2) calculation assms by (metis database_ok_def)
  ultimately show "di_state i \<notin> {RUNNING, VERIFYING}" by (auto simp: is_terminal_def TERMINAL_STATES_def)
qed

lemma running_delete_game [simp]: "running (delete_game g d) = running d"
  unfolding running_def delete_game_def by (simp, rule running_of_map) auto

lemma running_queued_cancel_all [simp]: "running (snd (queued_cancel_all now d)) = running d"
  unfolding queued_cancel_all_def snd_conv by (rule running_map) auto

lemma running_recover [simp]: "running (snd (recover_interrupted now d)) = {}"
  by (auto simp: running_def running_of_def recover_interrupted_def)

lemma running_enqueue: "enqueue item_id now g title system origin batch_id d = Inr (r, d') \<Longrightarrow> running d' = running d"
  by (auto simp: enqueue_def Let_def bindE_eq_Inr insert_item_def queued_item_def running_def split: option.splits if_splits)

lemma running_retry:
  assumes "retry_all_failed now d = Inr (n, d')" and "database_ok d"
  shows "running d' = running d"
proof -
  define P :: "download_item \<Rightarrow> download_item \<Rightarrow> bool" where "P = (\<lambda>i j. di_id j = di_id i \<and> di_game j = di_game i \<and> (j = i \<or> di_state i = FAILED \<and> di_state j = QUEUED))"
  have l: "list_all2 P (db_items d) (db_items d')"
    using retry_all_result [OF assms(2), of now] assms(1) unfolding P_def by simp
  have "list_all2 P xs ys \<Longrightarrow> running_of ys = running_of xs" for xs ys
  proof (induction xs ys rule: list_all2_induct)
    case (Cons i xs j ys)
    from Cons.hyps(1) consider "j = i" | "di_state i = FAILED" "di_state j = QUEUED" by (auto simp: P_def)
    then show ?case by cases (simp_all add: Cons.IH)
  qed simp
  then show ?thesis using l by (simp add: running_def)
qed

lemma running_transition:
  assumes "\<forall>s \<in> set from_states. s \<notin> {RUNNING, VERIFYING}" and "to_state \<notin> {RUNNING, VERIFYING}"
  shows "running (snd (transition now item_id from_states to_state worker code message d)) = running d"
proof -
  have "running (d\<lparr>db_items := map (\<lambda>i. if di_id i = item_id \<and> di_state i \<in> set from_states
        then moved_item now to_state worker code message i else i) (db_items d)\<rparr>) = running d"
    using assms by (intro running_map) auto
  then show ?thesis by (simp add: transition_def Let_def)
qed

lemma transition_from_active:
  assumes "database_ok d" and "from_states \<noteq> []" and "set from_states \<subseteq> set ACTIVE_DOWNLOAD_STATES"
  shows "transition now item_id from_states to_state worker code message d =
    (length (filter (\<lambda>i. di_id i = item_id \<and> di_state i \<in> set from_states) (db_items d)) = 1,
     d\<lparr>db_items := map (\<lambda>i. if di_id i = item_id \<and> di_state i \<in> set from_states
        then moved_item now to_state worker code message i else i) (db_items d)\<rparr>)"
proof -
  have "unique_active (map (\<lambda>i. if di_id i = item_id \<and> di_state i \<in> set from_states
        then moved_item now to_state worker code message i else i) (db_items d))"
    using assms(3) by (intro unique_active_map database_unique [OF assms(1)]) (auto simp: is_active_def split: if_splits)
  then show ?thesis using assms(2) by (simp add: transition_def Let_def)
qed

lemma running_iff: "(item_id, s) \<in> running d \<longleftrightarrow> (\<exists>i \<in> set (db_items d). di_id i = item_id \<and> di_state i = s \<and> s \<in> {RUNNING, VERIFYING})"
  by (auto simp: running_def running_of_def)

lemma running_moved:
  "(a, b) \<in> running (d\<lparr>db_items := map (\<lambda>i. if P i then moved_item now to_state worker code message i else i) (db_items d)\<rparr>)
     \<longleftrightarrow> b \<in> {RUNNING, VERIFYING} \<and> (\<exists>i \<in> set (db_items d). di_id i = a \<and> (if P i then to_state else di_state i) = b)"
proof -
  define F where "F = (\<lambda>i. if P i then moved_item now to_state worker code message i else i)"
  have F: "di_id (F i) = di_id i" "di_state (F i) = (if P i then to_state else di_state i)" for i
    by (simp_all add: F_def)
  show ?thesis unfolding F_def [symmetric] running_iff by (auto simp: F simp del: if_image_distrib)
qed

lemma running_start:
  assumes "database_ok d" and none: "running d = {}" and "to_state \<in> {RUNNING, VERIFYING}"
    and eq: "transition now item_id [QUEUED] to_state worker code message d = (True, d')"
  shows "running d' = {(item_id, to_state)}"
proof -
  let ?P = "\<lambda>i. di_id i = item_id \<and> di_state i \<in> set [QUEUED]"
  have t: "length (filter ?P (db_items d)) = 1"
    "d' = d\<lparr>db_items := map (\<lambda>i. if ?P i then moved_item now to_state worker code message i else i) (db_items d)\<rparr>"
    using transition_from_active [OF assms(1), of "[QUEUED]" now item_id to_state worker code message] eq
    by (simp_all add: ACTIVE_DOWNLOAD_STATES_def)
  from t(1) obtain i where i: "i \<in> set (db_items d)" "?P i"
    by (metis (mono_tags, lifting) One_nat_def length_0_conv filter_False zero_neq_one)
  have no: "di_state j \<notin> {RUNNING, VERIFYING}" if "j \<in> set (db_items d)" for j
    using none running_iff [of "di_id j" "di_state j" d] that by auto
  show ?thesis
  proof (rule set_eqI)
    fix p :: "string \<times> download_state"
    obtain a b where p: "p = (a, b)" by (cases p)
    show "p \<in> running d' \<longleftrightarrow> p \<in> {(item_id, to_state)}"
      using i no assms(3) unfolding p t(2) running_moved by (auto split: if_splits)
  qed
qed

lemma running_unmatched:
  assumes db: "database_ok d" and none: "running d = {}" and no: "\<not> fst (transition now item_id [QUEUED] to_state worker code message d)"
  shows "running (snd (transition now item_id [QUEUED] to_state worker code message d)) = {}"
proof -
  let ?P = "\<lambda>i. di_id i = item_id \<and> di_state i \<in> set [QUEUED]"
  have ok: "items_ok (db_items d)" using db by (simp add: database_ok_def)
  have t: "transition now item_id [QUEUED] to_state worker code message d = (length (filter ?P (db_items d)) = 1,
     d\<lparr>db_items := map (\<lambda>i. if ?P i then moved_item now to_state worker code message i else i) (db_items d)\<rparr>)"
    by (rule transition_from_active [OF db]) (simp_all add: ACTIVE_DOWNLOAD_STATES_def)
  have "\<not> ?P i" if i: "i \<in> set (db_items d)" for i
  proof
    assume P: "?P i"
    have "filter ?P (db_items d) = filter (\<lambda>j. j = i) (db_items d)"
      using P i items_by_id [OF ok] by (intro filter_cong) auto
    moreover have "distinct (db_items d)" using ok by (simp add: items_ok_def distinct_map)
    ultimately have "length (filter ?P (db_items d)) = 1"
      using i by (simp add: distinct_length_filter Int_absorb2 conj_commute)
    with no t show False by simp
  qed
  then have "map (\<lambda>i. if ?P i then moved_item now to_state worker code message i else i) (db_items d) = db_items d"
    by (intro map_idI) auto
  then have "snd (transition now item_id [QUEUED] to_state worker code message d) = d" using t by simp
  then show ?thesis using none by simp
qed

lemma running_leave:
  assumes "database_ok d" and one: "running d = {(item_id, cur)}" and "target \<notin> {RUNNING, VERIFYING}"
  shows "fst (transition now item_id [cur] target worker code message d)"
    and "running (snd (transition now item_id [cur] target worker code message d)) = {}"
    and "\<forall>i \<in> set (db_items (snd (transition now item_id [cur] target worker code message d))). di_id i = item_id \<longrightarrow> di_state i = target"
    and "\<exists>i \<in> set (db_items (snd (transition now item_id [cur] target worker code message d))). di_id i = item_id \<and> di_state i = target"
proof -
  have cur: "cur \<in> {RUNNING, VERIFYING}" using one running_iff [of item_id cur d] by auto
  then have t: "transition now item_id [cur] target worker code message d =
      (length (filter (\<lambda>i. di_id i = item_id \<and> di_state i \<in> set [cur]) (db_items d)) = 1,
       d\<lparr>db_items := map (\<lambda>i. if di_id i = item_id \<and> di_state i \<in> set [cur]
          then moved_item now target worker code message i else i) (db_items d)\<rparr>)"
    by (intro transition_from_active [OF assms(1)]) (auto simp: ACTIVE_DOWNLOAD_STATES_def)
  obtain r where r: "r \<in> set (db_items d)" "di_id r = item_id" "di_state r = cur"
    using one running_iff [of item_id cur d] by auto
  have ok: "items_ok (db_items d)" using assms(1) by (simp add: database_ok_def)
  then have "distinct (db_items d)" by (auto simp: items_ok_def distinct_map)
  moreover have "filter (\<lambda>i. di_id i = item_id \<and> di_state i \<in> set [cur]) (db_items d) = filter (\<lambda>i. i = r) (db_items d)"
    using r items_by_id [OF ok] by (intro filter_cong) auto
  ultimately show "fst (transition now item_id [cur] target worker code message d)"
    using r(1) by (simp add: t distinct_length_filter Int_absorb2 conj_commute)
  have run: "di_state i = cur \<and> di_id i = item_id" if "i \<in> set (db_items d)" "di_state i \<in> {RUNNING, VERIFYING}" for i
    using one running_iff [of "di_id i" "di_state i" d] that by auto
  have "(a, b) \<notin> running (snd (transition now item_id [cur] target worker code message d))" for a b
  proof
    assume "(a, b) \<in> running (snd (transition now item_id [cur] target worker code message d))"
    then obtain i where i: "i \<in> set (db_items d)" "b \<in> {RUNNING, VERIFYING}"
      "(if di_id i = item_id \<and> di_state i \<in> set [cur] then target else di_state i) = b"
      unfolding t snd_conv running_moved by blast
    then have "di_state i \<in> {RUNNING, VERIFYING}" using assms(3) by (metis)
    from run [OF i(1) this] i(2,3) assms(3) show False by simp
  qed
  then show "running (snd (transition now item_id [cur] target worker code message d)) = {}"
    by (metis equals0I prod.exhaust)
  show "\<exists>i \<in> set (db_items (snd (transition now item_id [cur] target worker code message d))). di_id i = item_id \<and> di_state i = target"
  proof -
    define F where "F = (\<lambda>i. if di_id i = item_id \<and> di_state i \<in> set [cur] then moved_item now target worker code message i else i)"
    have "db_items (snd (transition now item_id [cur] target worker code message d)) = map F (db_items d)"
      unfolding t F_def by simp
    moreover have "di_id (F r) = item_id \<and> di_state (F r) = target" using r by (simp add: F_def)
    ultimately show ?thesis using r(1) by auto
  qed
  show "\<forall>i \<in> set (db_items (snd (transition now item_id [cur] target worker code message d))). di_id i = item_id \<longrightarrow> di_state i = target"
    using r items_by_id [OF ok] by (auto simp: t split: if_splits)
qed

lemma running_verified:
  assumes "database_ok d" and one: "running d = {(item_id, s)}"
  shows "\<exists>s'. running (snd (transition now item_id [VERIFYING] RUNNING worker code message d)) = {(item_id, s')}"
proof -
  have t: "snd (transition now item_id [VERIFYING] RUNNING worker code message d) = d\<lparr>db_items :=
      map (\<lambda>i. if di_id i = item_id \<and> di_state i \<in> set [VERIFYING] then moved_item now RUNNING worker code message i else i) (db_items d)\<rparr>"
    by (subst transition_from_active [OF assms(1)]) (simp_all add: ACTIVE_DOWNLOAD_STATES_def)
  obtain r where r: "r \<in> set (db_items d)" "di_id r = item_id" "di_state r = s" and s: "s = RUNNING \<or> s = VERIFYING"
    using one running_iff [of item_id s d] by auto
  have run: "di_state i = s \<and> di_id i = item_id" if "i \<in> set (db_items d)" "di_state i = RUNNING \<or> di_state i = VERIFYING" for i
    using one running_iff [of "di_id i" "di_state i" d] that by auto
  have "(a, b) \<in> running (snd (transition now item_id [VERIFYING] RUNNING worker code message d)) \<longleftrightarrow> a = item_id \<and> b = RUNNING" for a b
  proof
    assume "(a, b) \<in> running (snd (transition now item_id [VERIFYING] RUNNING worker code message d))"
    then obtain i where i: "i \<in> set (db_items d)" "di_id i = a" "b = RUNNING \<or> b = VERIFYING"
      "(if di_id i = item_id \<and> di_state i = VERIFYING then RUNNING else di_state i) = b"
      unfolding t running_moved by auto
    have "di_state i = RUNNING \<or> di_state i = VERIFYING" using i(3,4) by (auto split: if_splits)
    with run [OF i(1)] i show "a = item_id \<and> b = RUNNING" by (auto split: if_splits)
  next
    assume "a = item_id \<and> b = RUNNING"
    then show "(a, b) \<in> running (snd (transition now item_id [VERIFYING] RUNNING worker code message d))"
      unfolding t running_moved using r s by (intro conjI bexI [of _ r]) auto
  qed
  then have "running (snd (transition now item_id [VERIFYING] RUNNING worker code message d)) = {(item_id, RUNNING)}"
    by (intro set_eqI) (metis prod.exhaust singleton_iff)
  then show ?thesis by blast
qed

subsection \<open>Invariant\<close>

lemma prune_terminal_ok: "database_ok d \<Longrightarrow> database_ok (snd (prune_terminal keep d))"
  by (simp add: prune_terminal_def Let_def delete_items_ok)

lemma delete_queued_ok: "database_ok d \<Longrightarrow> database_ok (snd (delete_queued item_id d))"
  by (simp add: delete_queued_def Let_def delete_items_ok)

lemma delete_game_ok:
  assumes "database_ok d"
  shows "database_ok (delete_game g d)"
proof -
  let ?f = "\<lambda>i. if di_game i = Some g then i\<lparr>di_game := None\<rparr> else i"
  have ok: "items_ok (db_items d)" using assms by (simp add: database_ok_def)
  have u: "unique_active items \<Longrightarrow> unique_active (map ?f items)" for items
    by (induction items) (auto simp: unique_active_Cons is_active_def)
  have "items_ok (map ?f (db_items d))"
    using ok u by (intro items_ok_map) (auto simp: items_ok_def)
  then show ?thesis using assms by (auto simp: database_ok_def delete_game_def image_iff)
qed

lemma manager_start_ok: "database_ok d \<Longrightarrow> manager_ok (Stopped, start_manager instance_id now d)"
  by (simp add: manager_ok_def start_manager_def prune_terminal_ok recover_interrupted_ok flight_ok_def active_ok_def running_prune)

text \<open>Steps that leave the program counter and the active download alone keep the invariant when the database does.\<close>

lemma manager_ok_database:
  assumes "manager_ok (pc, m)" and "database_ok d" and "running d = running (mg_db m)"
  shows "manager_ok (pc, m\<lparr>mg_db := d\<rparr>)"
  using assms by (simp add: manager_ok_def)

lemma manager_ok_offline: "manager_ok (pc, m\<lparr>mg_offline := b\<rparr>) = manager_ok (pc, m)"
  and manager_ok_wake: "manager_ok (pc, m\<lparr>mg_wake := b\<rparr>) = manager_ok (pc, m)"
  and manager_ok_stopping: "manager_ok (pc, m\<lparr>mg_stopping := b\<rparr>) = manager_ok (pc, m)"
  by (simp_all add: manager_ok_def)

lemma update_values: "snd ` set (AList.update k v xs) \<subseteq> insert v (snd ` set xs)"
  by (induction xs) auto

lemma manager_ok_request:
  assumes "manager_ok (pc, m)" and "mg_active m = Some item_id" and "action \<in> stop_states"
  shows "manager_ok (pc, m\<lparr>mg_requested := AList.update item_id action (mg_requested m), mg_token := Some True\<rparr>)"
proof -
  note update_values [of item_id action "mg_requested m"]
  moreover have "item_id \<in> fst ` set (AList.update item_id action (mg_requested m))"
    by (simp add: dom_update)
  ultimately show ?thesis using assms by (auto simp: manager_ok_def)
qed

lemma downloads_blocked_state:
  "downloads_blocked policy m = (b, m1) \<Longrightarrow> m1 = m\<lparr>mg_offline := mg_offline m1\<rparr> \<and> (b \<or> m1 = m \<and> \<not> mg_offline m)"
  by (auto simp: downloads_blocked_def split: if_splits option.splits)

lemma manager_ok_blocked: "manager_ok (pc, m) \<Longrightarrow> downloads_blocked policy m = (b, m1) \<Longrightarrow> manager_ok (pc, m1)"
  using downloads_blocked_state [of policy m b m1] manager_ok_offline [where pc = pc and m = m and b = "mg_offline m1"] by metis

lemma manager_ok_idle:
  "manager_ok (pc, m) \<Longrightarrow> in_flight pc = None \<Longrightarrow> \<not> resolving pc \<Longrightarrow> pc \<noteq> Cleanup \<Longrightarrow>
     in_flight pc' = None \<Longrightarrow> \<not> resolving pc' \<Longrightarrow> \<not> stop_pending pc' \<Longrightarrow> \<not> stoppable pc' \<Longrightarrow> goal_of pc' = None \<Longrightarrow> manager_ok (pc', m)"
  by (auto simp: manager_ok_def flight_ok_def active_ok_def)

lemma manager_ok_pick: "manager_ok (Loop, m) \<Longrightarrow> manager_ok (worker_pick env m)"
proof -
  assume ok: "manager_ok (Loop, m)"
  have "manager_ok (Loop, m\<lparr>mg_db := snd (transition (we_now env) item_id [QUEUED] FAILED None c e (mg_db m))\<rparr>)" for item_id c e
    using ok by (intro manager_ok_database transition_ok running_transition) (auto simp: manager_ok_def)
  moreover have "manager_ok (Picked item, m)" for item by (rule manager_ok_idle [OF ok]) simp_all
  ultimately show ?thesis
    using ok by (auto simp: worker_pick_def manager_ok_wake split: option.split)
qed

lemma manager_ok_claim: "manager_ok (Picked item, m) \<Longrightarrow> manager_ok (worker_claim env item m)"
proof -
  assume ok: "manager_ok (Picked item, m)"
  obtain b m1 where b: "downloads_blocked (we_policy env) m = (b, m1)" by fastforce
  have ok1: "manager_ok (Picked item, m1)" by (rule manager_ok_blocked [OF ok b])
  then have "manager_ok (Loop, m1)" by (rule manager_ok_idle) simp_all
  moreover have "manager_ok (Resolving item, m1\<lparr>mg_claiming := True\<rparr>)"
    using ok1 by (simp add: manager_ok_def flight_ok_def active_ok_def)
  ultimately show ?thesis by (cases b) (simp_all add: worker_claim_def b manager_ok_wake)
qed

lemma manager_ok_lock: "manager_ok (Resolving item, m) \<Longrightarrow> manager_ok (worker_lock env item m)"
proof -
  assume ok: "manager_ok (Resolving item, m)"
  then have ok1: "manager_ok (Loop, m\<lparr>mg_claiming := False\<rparr>)"
    by (simp add: manager_ok_def flight_ok_def active_ok_def)
  obtain b m2 where b: "downloads_blocked (we_policy env) (m\<lparr>mg_claiming := False\<rparr>) = (b, m2)" by fastforce
  have ok2: "manager_ok (Loop, m2)" by (rule manager_ok_blocked [OF ok1 b])
  have "manager_ok (Refused item c e, m2)" for c e by (rule manager_ok_idle [OF ok2]) simp_all
  moreover have "manager_ok (Locked item, m\<lparr>mg_claiming := False\<rparr>)" by (rule manager_ok_idle [OF ok1]) simp_all
  ultimately show ?thesis
    using ok1 ok2 by (cases b) (simp_all add: worker_lock_def Let_def b manager_ok_wake split: lock_result.split)
qed

lemma manager_ok_refuse: "manager_ok (Refused item c e, m) \<Longrightarrow> manager_ok (worker_refuse env item c e m)"
proof -
  assume ok: "manager_ok (Refused item c e, m)"
  have "manager_ok (Loop, m)" by (rule manager_ok_idle [OF ok]) simp_all
  then show ?thesis
    unfolding worker_refuse_def
    by (intro manager_ok_database transition_ok running_transition) (auto simp: manager_ok_def)
qed

lemma manager_ok_start: "manager_ok (Locked item, m) \<Longrightarrow> manager_ok (worker_start env item m)"
proof -
  assume ok: "manager_ok (Locked item, m)"
  define initial where "initial = (if we_retained env \<noteq> 0 then VERIFYING else RUNNING)"
  obtain b m1 where b: "downloads_blocked (we_policy env) m = (b, m1)" by fastforce
  have ok1: "manager_ok (Locked item, m1)" by (rule manager_ok_blocked [OF ok b])
  then have ok2: "manager_ok (Loop, m1)" by (rule manager_ok_idle) simp_all
  then have claim: "mg_claiming m1 = False" by (simp add: manager_ok_def)
  obtain r d where t: "transition (we_now env) (di_id item) [QUEUED] initial (Some (mg_instance m1)) None None (mg_db m1) = (r, d)"
    by fastforce
  have db: "database_ok (mg_db m1)" and none: "running (mg_db m1) = {}" using ok1 by (simp_all add: manager_ok_def flight_ok_def)
  have d: "database_ok d" using transition_ok [OF db] t by (metis snd_conv)
  show ?thesis
  proof (cases b)
    case True
    then show ?thesis using ok2 claim by (simp add: worker_start_def Let_def b manager_ok_def)
  next
    case False
    show ?thesis
    proof (cases r)
      case True
      have "running d = {(di_id item, initial)}"
        using t True by (intro running_start [OF db none]) (auto simp: initial_def)
      then have "manager_ok (Transferring item (initial = VERIFYING) (di_total item),
          m1\<lparr>mg_db := d, mg_active := Some (di_id item), mg_token := Some False, mg_claiming := False\<rparr>)"
        using ok1 d by (simp add: manager_ok_def flight_ok_def active_ok_def)
      then show ?thesis using False True t by (simp add: worker_start_def Let_def b initial_def [symmetric])
    next
      case False': False
      have "running d = {}"
        using running_unmatched [OF db none, where to_state = initial] t False' by (metis fst_conv snd_conv)
      then have "manager_ok (Loop, m1\<lparr>mg_db := d\<rparr>)"
        using ok2 d none by (intro manager_ok_database) simp_all
      then have "manager_ok (Loop, m1\<lparr>mg_db := d, mg_claiming := False\<rparr>)" using claim by (simp add: manager_ok_def)
      then show ?thesis using False False' t by (simp add: worker_start_def Let_def b initial_def [symmetric])
    qed
  qed
qed

lemma manager_ok_progress:
  assumes ok: "manager_ok (Transferring item pending latest, m)"
  shows "manager_ok (worker_progress env item pending done total' persist m)"
proof -
  obtain s where db: "database_ok (mg_db m)" and one: "running (mg_db m) = {(di_id item, s)}"
    using ok by (auto simp: manager_ok_def flight_ok_def)
  define d1 where "d1 = (if pending then snd (transition (we_now env) (di_id item) [VERIFYING] RUNNING (Some (mg_instance m)) None None (mg_db m)) else mg_db m)"
  have d1: "database_ok d1" "\<exists>s'. running d1 = {(di_id item, s')}"
    using transition_ok [OF db] running_verified [OF db one] db one by (auto simp: d1_def)
  define d2 where "d2 = (if persist \<or> 0 < total' \<and> total' \<le> done then update_progress (we_now env) (di_id item) done total' d1 else d1)"
  have d2: "database_ok d2" "\<exists>s'. running d2 = {(di_id item, s')}"
    using d1 update_progress_ok by (simp_all add: d2_def)
  then have "manager_ok (Transferring item False total', m\<lparr>mg_db := d2\<rparr>)"
    using ok by (simp add: manager_ok_def flight_ok_def active_ok_def)
  then show ?thesis unfolding worker_progress_def Let_def d2_def d1_def .
qed

text \<open>After the transfer the program counter moves over the same item.\<close>

lemma manager_ok_next:
  assumes "manager_ok (pc, m)" and "in_flight pc = Some (item_id, x)" and "in_flight pc' = Some (item_id, None)"
    and "\<forall>t. goal_of pc' = Some t \<longrightarrow> t \<notin> {QUEUED, RUNNING, VERIFYING}"
    and "stop_pending pc' \<longrightarrow> mg_token m = Some True" and "stoppable pc' \<longrightarrow> stoppable pc" and "\<not> resolving pc" "\<not> resolving pc'"
  shows "manager_ok (pc', m)"
  using assms by (cases x) (auto simp: manager_ok_def flight_ok_def active_ok_def)

lemma manager_ok_transfer:
  assumes ok: "manager_ok (Transferring item pending latest, m)" and "transfer_contract env m"
  shows "manager_ok (worker_transfer env item pending latest m)"
proof (cases "we_transfer env")
  case (Progress bytes total' persist)
  then show ?thesis by (simp add: worker_transfer_def manager_ok_progress [OF ok])
next
  case Transfer_Cancelled
  then have "manager_ok (Interrupted item latest, m)"
    using assms(2) by (intro manager_ok_next [OF ok]) (auto simp: transfer_contract_def)
  then show ?thesis using Transfer_Cancelled by (simp add: worker_transfer_def)
next
  case (Transfer_Raised c e)
  have "manager_ok (Raised item latest c e, m)" by (rule manager_ok_next [OF ok]) simp_all
  then show ?thesis using Transfer_Raised by (simp add: worker_transfer_def)
next
  case Transfer_Done
  have "manager_ok (Outcome item COMPLETE None None, m)" by (rule manager_ok_next [OF ok]) simp_all
  then show ?thesis using Transfer_Done by (simp add: worker_transfer_def)
qed

lemma manager_ok_interrupted: "manager_ok (Interrupted item latest, m) \<Longrightarrow> manager_ok (Requested item, keep_progress env item latest m)"
proof -
  assume ok: "manager_ok (Interrupted item latest, m)"
  have "manager_ok (Requested item, m)"
    using ok by (intro manager_ok_next [OF ok]) (simp_all, simp add: manager_ok_def)
  then show ?thesis
    unfolding keep_progress_def by (intro manager_ok_database update_progress_ok) (auto simp: manager_ok_def)
qed

lemma delete_values: "snd ` set (AList.delete k xs) \<subseteq> snd ` set xs"
  by (auto simp: AList.delete_eq)

lemma requested_action:
  assumes "manager_ok (Requested item, m)"
  shows "\<exists>a \<in> stop_states. map_of (mg_requested m) (di_id item) = Some a"
proof -
  have mem: "di_id item \<in> fst ` set (mg_requested m)"
    using assms by (auto simp: manager_ok_def active_ok_def)
  then obtain a where a: "map_of (mg_requested m) (di_id item) = Some a"
    by (metis map_of_eq_None_iff not_None_eq)
  then have "a \<in> snd ` set (mg_requested m)" by (force dest: map_of_SomeD)
  then have "a \<in> stop_states" using assms by (auto simp: manager_ok_def)
  with a show ?thesis by blast
qed

lemma manager_ok_requested: "manager_ok (Requested item, m) \<Longrightarrow> manager_ok (worker_requested item m)"
proof -
  assume ok: "manager_ok (Requested item, m)"
  obtain a where a: "a \<in> stop_states" "map_of (mg_requested m) (di_id item) = Some a" using requested_action [OF ok] by blast
  have "manager_ok (Outcome item a None None, m)"
    using a(1) by (intro manager_ok_next [OF ok]) (auto simp: stop_states_def)
  then show ?thesis
    using a delete_values [of "di_id item" "mg_requested m"] by (auto simp: worker_requested_def manager_ok_def)
qed

lemma in_flight_row:
  assumes "manager_ok (pc, m)" and "in_flight pc = Some (item_id, x)"
  shows "\<exists>i. get_item item_id (mg_db m) = Some i \<and> di_id i = item_id \<and> di_state i \<in> {RUNNING, VERIFYING}
    \<and> running (mg_db m) = {(item_id, di_state i)} \<and> (\<forall>s. x = Some s \<longrightarrow> s = di_state i)"
proof -
  obtain s where s: "running (mg_db m) = {(item_id, s)}" "\<forall>s'. x = Some s' \<longrightarrow> s' = s"
    using assms by (cases x) (auto simp: manager_ok_def flight_ok_def)
  then obtain r where r: "r \<in> set (db_items (mg_db m))" "di_id r = item_id" "di_state r = s" "s \<in> {RUNNING, VERIFYING}"
    using running_iff [of item_id s "mg_db m"] by auto
  then obtain i where i: "get_item item_id (mg_db m) = Some i"
    unfolding get_item_def by (cases "find (\<lambda>i. di_id i = item_id) (db_items (mg_db m))") (auto simp: find_None_iff)
  then have "i \<in> set (db_items (mg_db m))" "di_id i = item_id" by (auto simp: get_item_def find_Some_iff)
  then have "i = r" using items_by_id r assms(1) by (auto simp: manager_ok_def database_ok_def)
  then show ?thesis using i r s by auto
qed

lemma manager_ok_outcome: "manager_ok (Outcome item target c e, m) \<Longrightarrow> manager_ok (worker_outcome item target c e m)"
proof -
  assume ok: "manager_ok (Outcome item target c e, m)"
  obtain i where i: "get_item (di_id item) (mg_db m) = Some i" "running (mg_db m) = {(di_id item, di_state i)}"
    using in_flight_row [OF ok] by auto
  then have "manager_ok (Applying item (di_state i) target c e, m)"
    using ok by (simp add: manager_ok_def flight_ok_def active_ok_def)
  then show ?thesis using i by (simp add: worker_outcome_def)
qed

lemma manager_ok_raised: "manager_ok (Raised item latest c e, m) \<Longrightarrow> manager_ok (worker_raised env item latest c e m)"
proof -
  assume ok: "manager_ok (Raised item latest c e, m)"
  obtain i where i: "get_item (di_id item) (mg_db m) = Some i" "running (mg_db m) = {(di_id item, di_state i)}"
    using in_flight_row [OF ok] by auto
  obtain b m1 where b: "downloads_blocked (we_policy env) m = (b, m1)" by fastforce
  have ok1: "manager_ok (Raised item latest c e, m1)" by (rule manager_ok_blocked [OF ok b])
  have "mg_db m1 = mg_db m" using downloads_blocked_state [OF b] by (metis manager.select_convs(1) manager.surjective manager.update_convs(2))
  then have "manager_ok (Suspended item n (di_state i), m1)" "manager_ok (Applying item (di_state i) FAILED (Some c) (Some e), m1)" for n
    using ok1 i by (simp_all add: manager_ok_def flight_ok_def active_ok_def)
  then show ?thesis using i b by (cases b) (simp_all add: worker_raised_def)
qed

lemma manager_ok_suspend: "manager_ok (Suspended item n current, m) \<Longrightarrow> manager_ok (worker_suspend env item n current m)"
proof -
  assume ok: "manager_ok (Suspended item n current, m)"
  have "manager_ok (Applying item current PAUSED None None, m)"
    using ok by (simp add: manager_ok_def flight_ok_def active_ok_def)
  then show ?thesis
    unfolding worker_suspend_def by (intro manager_ok_database update_progress_ok) (auto simp: manager_ok_def)
qed

lemma manager_ok_apply: "manager_ok (Applying item current target c e, m) \<Longrightarrow> manager_ok (worker_apply env item current target c e m)"
proof -
  assume ok: "manager_ok (Applying item current target c e, m)"
  then have db: "database_ok (mg_db m)" and one: "running (mg_db m) = {(di_id item, current)}" and t: "target \<notin> {RUNNING, VERIFYING}"
    by (simp_all add: manager_ok_def flight_ok_def)
  show ?thesis
    using ok running_leave(2) [OF db one t] transition_ok [OF db]
    by (simp add: worker_apply_def manager_ok_def flight_ok_def active_ok_def)
qed

lemma worker_step_ok:
  assumes "manager_ok (pc, m)" and "transfer_contract env m"
  shows "manager_ok (worker_step env pc m)"
proof (cases pc)
  case Loop
  then show ?thesis
    using assms manager_ok_pick manager_ok_idle [of Loop m Stopped] by simp
next
  case Cleanup
  then show ?thesis using assms by (simp add: manager_ok_def flight_ok_def active_ok_def)
next
  case Pruning
  then have ok: "manager_ok (Loop, m)" using assms(1) manager_ok_idle [of Pruning m Loop] by simp
  then show ?thesis
    unfolding Pruning worker_step.simps by (intro manager_ok_database prune_terminal_ok running_prune) (auto simp: manager_ok_def)
qed (use assms in \<open>simp_all add: manager_ok_claim manager_ok_lock manager_ok_refuse manager_ok_start manager_ok_transfer
      manager_ok_interrupted manager_ok_requested manager_ok_outcome manager_ok_raised manager_ok_suspend manager_ok_apply\<close>)

lemma manager_ok_cancel_active:
  assumes "manager_ok (pc, m)" and "action \<in> stop_states"
  shows "manager_ok (pc, snd (cancel_active action m))"
proof (cases "mg_active m")
  case (Some item_id)
  then show ?thesis
    using assms manager_ok_request [OF assms(1) Some assms(2)] by (auto simp: cancel_active_def split: option.split)
qed (use assms in \<open>simp add: cancel_active_def\<close>)

lemma manager_step_ok: "manager_step s s' \<Longrightarrow> manager_ok s \<Longrightarrow> manager_ok s'"
proof (induction rule: manager_step.induct)
  case (worker env m pc)
  then show ?case by (simp add: worker_step_ok)
next
  case (started pc m)
  then show ?case
    using manager_ok_idle [of Stopped m Loop] by (auto simp: start_worker_def manager_ok_stopping)
next
  case (enqueued pc m uuid now origin batch_id game_id s)
  then show ?case
    by (auto simp: enqueue_step_def manager_ok_def split: option.split sum.split
        dest: running_enqueue enqueue_ok)
next
  case (moved from_states to_state pc m now item_id)
  have "\<forall>s \<in> set from_states. s \<notin> {RUNNING, VERIFYING}" "to_state \<notin> {RUNNING, VERIFYING}"
    using moved(1) by (auto simp: control_moves_def)
  moreover have "snd (move now item_id from_states to_state m)
      = m\<lparr>mg_db := snd (transition now item_id from_states to_state None None None (mg_db m))\<rparr>"
    by (simp add: move_def split: prod.split)
  moreover have "database_ok (mg_db m)" using moved(2) by (simp add: manager_ok_def)
  ultimately show ?case
    using moved(2) by (simp add: manager_ok_database transition_ok running_transition del: insert_iff)
next
  case (requested item_id action m m' pc)
  then show ?case
    by (auto simp: request_active_stop_def stop_states_def split: if_splits intro!: manager_ok_request)
next
  case (removed pc m item_id)
  then show ?case by (intro manager_ok_database delete_queued_ok) (auto simp: manager_ok_def)
next
  case (cancelled_queued pc m now)
  then show ?case by (intro manager_ok_database queued_cancel_all_ok) (auto simp: manager_ok_def)
next
  case (cancelled_active pc m)
  then show ?case by (intro manager_ok_cancel_active) (auto simp: stop_states_def)
next
  case (retried now m n m' pc)
  then have db: "database_ok (mg_db m)" by (simp add: manager_ok_def)
  from retried(1) obtain d where d: "retry_all_failed now (mg_db m) = Inr (n, d)"
    and m': "m' = m\<lparr>mg_db := d, mg_wake := (if n = 0 then mg_wake m else True)\<rparr>"
    by (auto simp: retry_failed_def bindE_eq_Inr)
  have "database_ok d" using retry_all_result [OF db, of now] d by auto
  then have "manager_ok (pc, m\<lparr>mg_db := d\<rparr>)"
    using retried(2) running_retry [OF d db] by (intro manager_ok_database) auto
  then show ?case unfolding m' manager_ok_wake .
next
  case (shut pc m)
  then show ?case
    by (auto simp: shutdown_def manager_ok_wake manager_ok_stopping stop_states_def intro!: manager_ok_cancel_active)
next
  case (mode pc m offline)
  then show ?case
    by (auto simp: set_mode_def Let_def manager_ok_wake manager_ok_offline stop_states_def intro!: manager_ok_cancel_active)
next
  case (awake pc m)
  then show ?case by (simp add: manager_ok_wake)
next
  case (forgot pc m game_id)
  then show ?case by (intro manager_ok_database delete_game_ok) (auto simp: manager_ok_def)
next
  case (discarded pc m now item_id present bytes_total)
  then show ?case by (intro manager_ok_database update_progress_ok) (auto simp: manager_ok_def)
qed

lemma manager_reachable_ok: "manager_reachable s \<Longrightarrow> manager_ok s"
  by (induction rule: manager_reachable.induct) (auto intro: manager_start_ok manager_step_ok)

lemma offline_step_settled:
  assumes "manager_step s s'" and "manager_ok s" and "mg_offline (snd s)" and "settled (snd s)"
  shows "settled (snd s')"
  using assms
proof (induction rule: manager_step.induct)
  case (worker env m pc)
  have off: "downloads_blocked p m = (True, m)" for p using worker(3) by (simp add: downloads_blocked_def)
  have act: "mg_active m = None" "mg_claiming m = False" using worker(4) by (simp_all add: settled_def)
  show ?case
    using worker(2) act
    by (cases pc)
      (auto simp: settled_def worker_pick_def worker_claim_def worker_refuse_def worker_start_def off Let_def
        manager_ok_def active_ok_def split: option.split)
next
  case (enqueued pc m uuid now origin batch_id game_id s)
  then show ?case by (auto simp: enqueue_step_def settled_def split: option.split sum.split)
next
  case (requested item_id action m m' pc)
  then show ?case by (auto simp: request_active_stop_def settled_def split: if_splits)
next
  case (retried now m n m' pc)
  then show ?case by (auto simp: retry_failed_def bindE_eq_Inr settled_def)
qed (auto simp: settled_def start_worker_def move_def cancel_active_def shutdown_def set_mode_def Let_def split: prod.split)

text \<open>Runs along which Offline stays selected.\<close>

inductive offline_run :: "worker_pc \<times> manager \<Rightarrow> worker_pc \<times> manager \<Rightarrow> bool" where
  here: "offline_run s s"
| more: "offline_run s s' \<Longrightarrow> manager_step s' s'' \<Longrightarrow> mg_offline (snd s'') \<Longrightarrow> offline_run s s''"

lemma offline_run_settled:
  "offline_run s s' \<Longrightarrow> manager_ok s \<Longrightarrow> mg_offline (snd s) \<Longrightarrow> settled (snd s) \<Longrightarrow>
     manager_ok s' \<and> mg_offline (snd s') \<and> settled (snd s')"
  by (induction rule: offline_run.induct) (auto intro: manager_step_ok offline_step_settled)

text \<open>The phases in which the worker reaches the source of the ROMs.\<close>

fun touches_source :: "worker_pc \<Rightarrow> bool" where
  "touches_source (Resolving _) = True"
| "touches_source (Transferring _ _ _) = True"
| "touches_source _ = False"

text \<open>
  C34: Once a switch to Offline has returned without an error, the worker neither resolves a game nor
  transfers until Offline is left, however the worker and the other operations interleave.
\<close>

theorem download_offline_boundary:
  assumes "manager_reachable (pc, m)" and "mg_offline m" and "mode_wait True m = Inr ()" and "offline_run (pc, m) (pc', m')"
  shows "settled m' \<and> \<not> touches_source pc'"
proof -
  have "settled m" using assms(3) by (auto simp: mode_wait_def split: if_splits)
  then have "manager_ok (pc', m')" "settled m'"
    using offline_run_settled [OF assms(4) manager_reachable_ok [OF assms(1)]] assms(2) by simp_all
  then show ?thesis by (cases pc') (auto simp: manager_ok_def settled_def active_ok_def)
qed

theorem download_offline_boundary_witness:
  "settled (set_mode True (start_manager ''w'' 0 sample_database)) \<and> \<not> touches_source Stopped"
proof -
  let ?m = "start_manager ''w'' 0 sample_database"
  have "manager_reachable (Stopped, set_mode True ?m)"
    by (rule manager_reachable.step [OF manager_reachable.start [OF sample_database_ok] manager_step.mode])
  moreover have "mg_offline (set_mode True ?m)" "mode_wait True (set_mode True ?m) = Inr ()"
    by (simp_all add: set_mode_def Let_def start_manager_def cancel_active_def mode_wait_def settled_def)
  ultimately show ?thesis by (rule download_offline_boundary) (rule offline_run.here)
qed

text \<open>
  C33: In every reachable state each game has at most one active download, at most one download
  is running or verifying, and that one is the active download of the worker.
\<close>

theorem download_single_flight:
  assumes "manager_reachable (pc, m)" and i: "i \<in> set (db_items (mg_db m))" and j: "j \<in> set (db_items (mg_db m))"
  shows "(is_active i \<and> is_active j \<and> di_game i \<noteq> None \<and> di_game i = di_game j \<longrightarrow> i = j)
    \<and> (di_state i \<in> {RUNNING, VERIFYING} \<longrightarrow> mg_active m = Some (di_id i) \<and> (di_state j \<in> {RUNNING, VERIFYING} \<longrightarrow> i = j))"
proof -
  have ok: "manager_ok (pc, m)" by (rule manager_reachable_ok [OF assms(1)])
  then have items: "items_ok (db_items (mg_db m))" and u: "unique_active (db_items (mg_db m))"
    by (auto simp: manager_ok_def database_ok_def items_ok_def)
  have run: "\<exists>x. in_flight pc = Some (di_id k, x)" if "k \<in> set (db_items (mg_db m))" "di_state k \<in> {RUNNING, VERIFYING}" for k
  proof -
    have "(di_id k, di_state k) \<in> running (mg_db m)" using that running_iff by blast
    then show ?thesis using ok by (auto simp: manager_ok_def flight_ok_def split: option.splits prod.splits)
  qed
  have "i = j" if "is_active i" "is_active j" "di_game i = Some g" "di_game j = Some g" for g
    using unique_activeD [OF u i j _ that(1,2,3)] that(4) items_by_id [OF items i j] by blast
  moreover have "mg_active m = Some (di_id i)" if "di_state i \<in> {RUNNING, VERIFYING}"
    using run [OF i that] ok by (auto simp: manager_ok_def active_ok_def)
  moreover have "i = j" if "di_state i \<in> {RUNNING, VERIFYING}" "di_state j \<in> {RUNNING, VERIFYING}"
    using run [OF i that(1)] run [OF j that(2)] items_by_id [OF items i j] by auto
  ultimately show ?thesis by (metis option.exhaust)
qed

definition worker_run :: "worker_env list \<Rightarrow> worker_pc \<times> manager \<Rightarrow> worker_pc \<times> manager" where
  "worker_run envs s = fold (\<lambda>env (pc, m). worker_step env pc m) envs s"

lemma worker_run_reachable:
  "manager_reachable s \<Longrightarrow> \<forall>env \<in> set envs. we_transfer env \<noteq> Transfer_Cancelled \<Longrightarrow> manager_reachable (worker_run envs s)"
proof (induction envs arbitrary: s)
  case (Cons env envs)
  obtain pc m where s: "s = (pc, m)" by (cases s)
  have "manager_step (pc, m) (worker_step env pc m)"
    using Cons.prems(2) by (intro manager_step.worker) (simp add: transfer_contract_def)
  then have "manager_reachable (worker_step env pc m)"
    using Cons.prems(1) by (auto simp: s intro: manager_reachable.step)
  then show ?case using Cons.IH [of "worker_step env pc m"] Cons.prems(2) by (simp add: s worker_run_def)
qed (simp add: worker_run_def)

text \<open>A run of the worker that starts the only queued download.\<close>

definition queued_database :: database where
  "queued_database = sample_database\<lparr>db_items := [queued_item ''a'' 1 ''g'' ''G'' ''psx'' MANUAL None 1]\<rparr>"

definition sample_env :: worker_env where
  "sample_env = \<lparr>we_now = 5, we_policy = None, we_lock = Lock_Held, we_retained = 0, we_transfer = Transfer_Done\<rparr>"

definition sample_transfer :: "worker_pc \<times> manager" where
  "sample_transfer = worker_run (replicate 4 sample_env) (Loop, start_manager ''w'' 2 queued_database)"

lemma queued_database_ok [simp]: "database_ok queued_database"
  by (simp add: database_ok_def items_ok_def queued_item_def unique_active_Cons sample_database_def queued_database_def)

lemma sample_transfer_reachable: "manager_reachable sample_transfer"
proof -
  have "manager_reachable (start_worker Stopped (start_manager ''w'' 2 queued_database))"
    by (rule manager_reachable.step [OF manager_reachable.start [OF queued_database_ok] manager_step.started])
  moreover have "start_worker Stopped (start_manager ''w'' 2 queued_database) = (Loop, start_manager ''w'' 2 queued_database)"
    by (simp add: start_worker_def start_manager_def)
  ultimately show ?thesis
    unfolding sample_transfer_def by (intro worker_run_reachable) (simp_all add: sample_env_def)
qed

lemma sample_transfer_value:
  "sample_transfer = (Transferring (queued_item ''a'' 1 ''g'' ''G'' ''psx'' MANUAL None 1) False 0,
     (start_manager ''w'' 2 queued_database)\<lparr>mg_db := sample_database\<lparr>db_items :=
        [(queued_item ''a'' 1 ''g'' ''G'' ''psx'' MANUAL None 1)\<lparr>di_state := RUNNING, di_worker := Some ''w'', di_updated := 5, di_started := Some 5\<rparr>]\<rparr>,
       mg_active := Some ''a'', mg_token := Some False\<rparr>)"
  by code_simp

theorem download_single_flight_witness:
  "mg_active (snd sample_transfer) = Some ''a'' \<and> di_state (hd (db_items (mg_db (snd sample_transfer)))) = RUNNING"
proof -
  have r: "manager_reachable (fst sample_transfer, snd sample_transfer)" using sample_transfer_reachable by simp
  show ?thesis
    using download_single_flight [OF r, of "hd (db_items (mg_db (snd sample_transfer)))" "hd (db_items (mg_db (snd sample_transfer)))"]
    by (simp add: sample_transfer_value queued_item_def)
qed











subsection \<open>Resuming\<close>

lemma unique_active_move:
  assumes "items_ok items" and "r \<in> set items" and "di_id r = item_id" and "di_state r \<in> set from_states"
    and "to_state \<in> set ACTIVE_DOWNLOAD_STATES"
  shows "unique_active (map (\<lambda>i. if di_id i = item_id \<and> di_state i \<in> set from_states then moved_item now to_state worker c e i else i) items)
    \<longleftrightarrow> (di_game r = None \<or> (\<forall>j \<in> set items. di_id j \<noteq> item_id \<and> is_active j \<longrightarrow> di_game j \<noteq> di_game r))"
proof -
  define F where "F = (\<lambda>i. if di_id i = item_id \<and> di_state i \<in> set from_states then moved_item now to_state worker c e i else i)"
  have F: "di_game (F i) = di_game i" "di_id (F i) = di_id i" for i by (simp_all add: F_def)
  have act: "is_active (F r)" using assms(3-5) by (simp add: F_def is_active_def)
  have other: "F j = j" if "j \<in> set items" "di_id j \<noteq> item_id" for j using that by (simp add: F_def)
  have u: "unique_active items" using assms(1) by (simp add: items_ok_def)
  obtain xs ys where items: "items = xs @ r # ys" using assms(2) by (auto simp: in_set_conv_decomp)
  have ne: "di_id j \<noteq> item_id" if "j \<in> set xs \<union> set ys" for j
    using assms(1,3) that by (auto simp: items items_ok_def image_iff)
  have same: "map F xs = xs" "map F ys = ys" using other ne by (auto simp: items intro!: map_idI)
  have split: "unique_active (as @ x # bs) \<longleftrightarrow> unique_active (as @ bs)
      \<and> (is_active x \<and> di_game x \<noteq> None \<longrightarrow> (\<forall>j \<in> set as \<union> set bs. is_active j \<longrightarrow> di_game j \<noteq> di_game x))" for as x bs
    by (induction as) (auto simp: unique_active_Cons)
  have "unique_active (xs @ ys)" using u split [of xs r ys] by (simp add: items)
  then have "unique_active (map F items) \<longleftrightarrow> (di_game r \<noteq> None \<longrightarrow> (\<forall>j \<in> set xs \<union> set ys. is_active j \<longrightarrow> di_game j \<noteq> di_game r))"
    using act split [of xs "F r" ys] by (simp add: items same F)
  also have "\<dots> \<longleftrightarrow> (di_game r = None \<or> (\<forall>j \<in> set items. di_id j \<noteq> item_id \<and> is_active j \<longrightarrow> di_game j \<noteq> di_game r))"
    using ne assms(3) by (auto simp: items)
  finally show ?thesis unfolding F_def .
qed

text \<open>
  A download can be resumed exactly when it is paused, interrupted or cancelled and its game has no
  other active download; it is then queued under its old place, every other row is as before, and a
  refused request changes nothing.
\<close>

theorem download_resume:
  assumes ok: "manager_reachable (pc, m)"
  shows "(\<exists>r \<in> set (db_items (mg_db m)). di_id r = item_id \<and> di_state r \<in> {PAUSED, INTERRUPTED, CANCELLED}
        \<and> (di_game r = None \<or> (\<forall>j \<in> set (db_items (mg_db m)). di_id j \<noteq> item_id \<and> is_active j \<longrightarrow> di_game j \<noteq> di_game r))
        \<and> (\<exists>m'. resume now item_id m = Inr m' \<and> mg_wake m' \<and>
             db_items (mg_db m') = map (\<lambda>i. if di_id i = item_id then moved_item now QUEUED None None None i else i) (db_items (mg_db m))))
    \<or> (resume now item_id m = Inl (ValueError ''Only paused, interrupted, or cancelled downloads can resume.'')
        \<and> snd (move now item_id [PAUSED, INTERRUPTED, CANCELLED] QUEUED m) = m)"
proof -
  let ?from = "[PAUSED, INTERRUPTED, CANCELLED]" and ?items = "db_items (mg_db m)"
  let ?P = "\<lambda>i. di_id i = item_id \<and> di_state i \<in> set ?from"
  let ?new = "map (\<lambda>i. if ?P i then moved_item now QUEUED None None None i else i) ?items"
  have items: "items_ok ?items" using manager_reachable_ok [OF ok] by (auto simp: manager_ok_def database_ok_def)
  have tr: "transition now item_id ?from QUEUED None None None (mg_db m)
      = (if \<not> unique_active ?new then (False, mg_db m) else (length (filter ?P ?items) = 1, (mg_db m)\<lparr>db_items := ?new\<rparr>))"
    by (simp add: transition_def Let_def)
  show ?thesis
  proof (cases "\<exists>r \<in> set ?items. ?P r")
    case False
    then have "filter ?P ?items = []" "?new = ?items" by (auto simp: filter_empty_conv intro!: map_idI)
    then have "transition now item_id ?from QUEUED None None None (mg_db m) = (False, mg_db m)"
      unfolding tr by simp
    then show ?thesis by (simp add: resume_def move_def)
  next
    case True
    then obtain r where r: "r \<in> set ?items" "?P r" by blast
    have uni: "unique_active ?new \<longleftrightarrow> (di_game r = None \<or> (\<forall>j \<in> set ?items. di_id j \<noteq> item_id \<and> is_active j \<longrightarrow> di_game j \<noteq> di_game r))"
      using r by (intro unique_active_move [OF items]) (simp_all add: ACTIVE_DOWNLOAD_STATES_def)
    have "filter ?P ?items = filter (\<lambda>i. i = r) ?items"
      using r items_by_id [OF items] by (intro filter_cong) auto
    moreover have "distinct ?items" using items by (simp add: items_ok_def distinct_map)
    ultimately have one: "length (filter ?P ?items) = 1" using r(1) by (simp add: distinct_length_filter Int_absorb2 conj_commute)
    have new: "?new = map (\<lambda>i. if di_id i = item_id then moved_item now QUEUED None None None i else i) ?items"
      using r items_by_id [OF items] by (intro map_cong) auto
    show ?thesis
    proof (cases "unique_active ?new")
      case False
      then show ?thesis by (simp add: resume_def move_def tr)
    next
      case unique: True
      have "resume now item_id m = Inr (m\<lparr>mg_db := (mg_db m)\<lparr>db_items := ?new\<rparr>, mg_wake := True\<rparr>)"
        using unique one by (simp add: resume_def move_def tr)
      then have "\<exists>m'. resume now item_id m = Inr m' \<and> mg_wake m' \<and>
             db_items (mg_db m') = map (\<lambda>i. if di_id i = item_id then moved_item now QUEUED None None None i else i) ?items"
        using new by simp
      then show ?thesis using r unique uni by (intro disjI1 bexI [OF _ r(1)]) simp
    qed
  qed
qed

definition running_database :: database where
  "running_database = sample_database\<lparr>db_items := [(queued_item ''a'' 1 ''g'' ''G'' ''psx'' MANUAL None 1)\<lparr>di_state := RUNNING\<rparr>]\<rparr>"

lemma running_database_ok [simp]: "database_ok running_database"
  by (simp add: database_ok_def items_ok_def queued_item_def unique_active_Cons sample_database_def running_database_def)

theorem download_resume_witness:
  "\<exists>m'. resume 9 ''a'' (start_manager ''w'' 7 running_database) = Inr m' \<and> mg_wake m'"
proof -
  have no: "isl (resume 9 ''a'' (start_manager ''w'' 7 running_database)) = False"
    by code_simp
  have r: "manager_reachable (Stopped, start_manager ''w'' 7 running_database)"
    by (rule manager_reachable.start [OF running_database_ok])
  show ?thesis
    using download_resume [OF r, where item_id = "''a''" and now = 9] no by auto
qed

end
