(* ===== verification/CachePaths.thy ===== *)
theory CachePaths
  imports PosixPaths
begin

text \<open>
  The layout of the cache on disk (\<open>core/cache_paths.py\<close>): where an asset is cached, and which
  relative paths are refused.  A path is the list of its parts.
\<close>

datatype cache_error = CacheError string

definition validate_system :: "string \<Rightarrow> cache_error + unit" where
  "validate_system system =
     (if system = [] \<or> system \<in> {''.'', ''..''} \<or> CHR ''/'' \<in> set system \<or> CHR 0x5C \<in> set system
      then Inl (CacheError (''Invalid system name: '' @ repr_str system)) else Inr ())"

definition system_relative_path :: "string \<Rightarrow> string \<Rightarrow> cache_error + string list" where
  "system_relative_path system relative_path =
     bindE (validate_system system) (\<lambda>_.
       let raw = forward_slashes relative_path
       in if is_absolute raw \<or> path_parts raw = []
          then Inl (CacheError (''Invalid asset relative path: '' @ repr_str relative_path))
          else if hd (path_parts raw) \<noteq> system
          then Inl (CacheError (''Asset relative path '' @ repr_str relative_path @ '' does not belong to system '' @ repr_str system))
          else if tl (path_parts raw) = []
          then Inl (CacheError (''Asset relative path has no filename: '' @ repr_str relative_path))
          else if \<exists>part \<in> set (tl (path_parts raw)). part \<in> {''..'', ''.'', ''''}
          then Inl (CacheError (''Path traversal detected in asset relative path: '' @ repr_str relative_path))
          else Inr (tl (path_parts raw)))"

definition resolve_cache_path :: "string \<Rightarrow> string \<Rightarrow> string \<Rightarrow> cache_error + string list" where
  "resolve_cache_path cache_root system relative_path =
     bindE (system_relative_path system relative_path) (\<lambda>remainder.
       Inr (path_parts cache_root @ [system] @ remainder))"

lemma tail_parts_no_slash: "p \<in> set (tail_parts s) \<Longrightarrow> CHR ''/'' \<notin> set p"
  by (auto simp: tail_parts_def dest: split_on_no_sep)

lemma system_relative_iff:
  "system_relative_path system rel = Inr parts \<longleftrightarrow>
     clean [system] \<and> CHR 0x5C \<notin> set system \<and> \<not> startswith (forward_slashes rel) ''/'' \<and> parts \<noteq> []
     \<and> tail_parts (forward_slashes rel) = system # parts \<and> ''..'' \<notin> set parts"
proof -
  let ?t = "tail_parts (forward_slashes rel)"
  have t: "part \<noteq> '''' \<and> part \<noteq> ''.''" if "part \<in> set ?t" for part using that by (auto simp: tail_parts_def)
  have v: "validate_system system = Inr () \<longleftrightarrow> clean [system] \<and> CHR 0x5C \<notin> set system"
    by (auto simp: validate_system_def clean_def)
  show ?thesis
  proof (cases "startswith (forward_slashes rel) ''/''")
    case True
    then show ?thesis by (auto simp: system_relative_path_def bindE_eq_Inr is_absolute_def Let_def)
  next
    case False
    then have p: "path_parts (forward_slashes rel) = ?t" by (simp add: path_parts_def is_absolute_def)
    show ?thesis
      using False v t by (cases ?t) (auto simp: system_relative_path_def bindE_eq_Inr is_absolute_def Let_def p)
  qed
qed

text \<open>
  C40: The cache path of an asset lies under the directory of its system below the cache root, with at
  least a file name and no component that climbs; two assets with the same cache path belong to the same
  system and have the same components, so distinct assets never share a file.
\<close>

theorem cache_path_confined:
  assumes "resolve_cache_path root system rel = Inr parts"
  shows "(\<exists>rest. rest \<noteq> [] \<and> clean (system # rest) \<and> parts = path_parts root @ system # rest
        \<and> tail_parts (forward_slashes rel) = system # rest)
    \<and> (resolve_cache_path root system' rel' = Inr parts \<longrightarrow>
         system' = system \<and> tail_parts (forward_slashes rel') = tail_parts (forward_slashes rel))"
proof -
  obtain rest where r: "system_relative_path system rel = Inr rest" "parts = path_parts root @ system # rest"
    using assms by (auto simp: resolve_cache_path_def bindE_eq_Inr)
  have i: "rest \<noteq> []" "clean [system]" "tail_parts (forward_slashes rel) = system # rest" "''..'' \<notin> set rest"
    using r(1) by (simp_all add: system_relative_iff)
  have "clean rest"
    unfolding clean_def
  proof
    fix p assume p: "p \<in> set rest"
    then have "p \<in> set (tail_parts (forward_slashes rel))" by (simp add: i(3))
    then show "p \<notin> {'''', ''.'', ''..''} \<and> CHR ''/'' \<notin> set p"
      using p i(4) tail_parts_no_slash by (auto simp: tail_parts_def)
  qed
  then have "clean (system # rest)" using i(2) by (simp add: clean_def)
  moreover have "system' = system \<and> tail_parts (forward_slashes rel') = system # rest"
    if "resolve_cache_path root system' rel' = Inr parts"
    using that r(2) by (auto simp: resolve_cache_path_def bindE_eq_Inr system_relative_iff)
  ultimately show ?thesis using r(2) i by auto
qed

theorem cache_path_confined_witness:
  "\<exists>rest. rest \<noteq> [] \<and> clean (''ps2'' # rest) \<and> [''/'', ''cache'', ''ps2'', ''disc'', ''x.iso''] = path_parts ''/cache'' @ ''ps2'' # rest"
proof -
  have "resolve_cache_path ''/cache'' ''ps2'' ''ps2/disc/./x.iso'' = Inr [''/'', ''cache'', ''ps2'', ''disc'', ''x.iso'']"
    by code_simp
  from cache_path_confined [OF this] show ?thesis by blast
qed

end
