(* ===== verification/AssetLocks.thy ===== *)
theory AssetLocks
  imports Prelude
begin

text \<open>
  The asset locks of the cache (\<open>infrastructure/cache_coordination.py\<close>, \<open>AssetLockManager\<close> and
  \<open>FileLockLease\<close>): each acquisition takes the file locks of a set of paths one at a time in the order of their
  identities and later releases them in reverse.  A step relation over any number of concurrent acquisitions,
  mutual exclusion, and termination of every run without deadlock.
\<close>

subsection \<open>Ordered acquisition\<close>

text \<open>
  The contract of a lock table whose users wait only for locks above all those they hold.
\<close>

locale ordered_locks =
  fixes holder :: "'s \<Rightarrow> 'l::linorder \<Rightarrow> nat option"
    and waits_for :: "'s \<Rightarrow> nat \<Rightarrow> 'l option"
    and live :: "'s \<Rightarrow> nat set"
    and valid :: "'s \<Rightarrow> bool"
  assumes finite_live: "valid s \<Longrightarrow> finite (live s)"
    and holder_live: "valid s \<Longrightarrow> holder s l = Some p \<Longrightarrow> p \<in> live s"
    and upwards: "valid s \<Longrightarrow> holder s l = Some p \<Longrightarrow> waits_for s p = Some l' \<Longrightarrow> l < l'"
begin

definition runnable :: "'s \<Rightarrow> nat \<Rightarrow> bool" where
  "runnable s p \<longleftrightarrow> p \<in> live s \<and> (\<forall>l. waits_for s p = Some l \<longrightarrow> holder s l = None)"

text \<open>Some live user can always go on: the one that waits for the greatest lock waits for nobody stuck.\<close>

lemma not_stuck:
  assumes "valid s" and "live s \<noteq> {}"
  shows "\<exists>p. runnable s p"
proof (rule ccontr)
  assume none: "\<nexists>p. runnable s p"
  define wanted where "wanted = {l. \<exists>p \<in> live s. waits_for s p = Some l}"
  have blocked: "\<exists>l q. waits_for s p = Some l \<and> holder s l = Some q" if "p \<in> live s" for p
    using none that by (auto simp: runnable_def)
  have "wanted \<subseteq> (\<lambda>p. the (waits_for s p)) ` live s" by (force simp: wanted_def)
  then have fin: "finite wanted" using finite_live [OF assms(1)] by (rule finite_subset [OF _ finite_imageI])
  have "wanted \<noteq> {}" using assms(2) blocked by (force simp: wanted_def)
  then have top: "Max wanted \<in> wanted" using fin by (rule Max_in [rotated])
  then obtain p where p: "p \<in> live s" "waits_for s p = Some (Max wanted)" by (auto simp: wanted_def)
  then obtain q where q: "holder s (Max wanted) = Some q" using blocked [OF p(1)] by auto
  have ql: "q \<in> live s" by (rule holder_live [OF assms(1) q])
  obtain l where l: "waits_for s q = Some l" using blocked [OF ql] by auto
  have "Max wanted < l" by (rule upwards [OF assms(1) q l])
  moreover have "l \<le> Max wanted" using fin l ql by (intro Max_ge) (auto simp: wanted_def)
  ultimately show False by simp
qed

end

subsection \<open>Acquisitions\<close>

text \<open>The identities of the paths, without duplicates and in order.\<close>

definition lock_order :: "(string \<Rightarrow> string) \<Rightarrow> string list \<Rightarrow> string list" where
  "lock_order identity paths = sort (remdups (map identity paths))"

text \<open>
  Where an acquisition is: still to lock some identities with the handles opened so far, holding its lease, or releasing
  handles, the last one first, after a release or after \<open>LockUnavailable\<close>.
\<close>

datatype acquisition =
    Acquiring "string list" "string list"
  | Leased "string list"
  | Releasing "string list" bool
  | Finished bool

record asset_world =
  aw_owner :: "string \<Rightarrow> nat option"
  aw_blocking :: "nat \<Rightarrow> bool"
  aw_procs :: "nat \<Rightarrow> acquisition"

text \<open>One step of acquisition \<open>p\<close>; \<open>None\<close> when it has to wait or has finished.\<close>

definition lock_next :: "nat \<Rightarrow> string \<Rightarrow> string list \<Rightarrow> string list \<Rightarrow> asset_world \<Rightarrow> asset_world option" where
  "lock_next p identity rest handles w =
     (if aw_owner w identity = None
      then Some (w\<lparr>aw_owner := (aw_owner w)(identity := Some p), aw_procs := (aw_procs w)(p := Acquiring rest (handles @ [identity]))\<rparr>)
      else if aw_blocking w p then None
      else Some (w\<lparr>aw_procs := (aw_procs w)(p := Releasing handles False)\<rparr>))"

definition release_next :: "nat \<Rightarrow> string list \<Rightarrow> bool \<Rightarrow> asset_world \<Rightarrow> asset_world" where
  "release_next p handles result w =
     (if handles = [] then w\<lparr>aw_procs := (aw_procs w)(p := Finished result)\<rparr>
      else w\<lparr>aw_owner := (aw_owner w)(last handles := None), aw_procs := (aw_procs w)(p := Releasing (butlast handles) result)\<rparr>)"

definition asset_step :: "nat \<Rightarrow> asset_world \<Rightarrow> asset_world option" where
  "asset_step p w =
     (case aw_procs w p of
        Acquiring [] handles \<Rightarrow> Some (w\<lparr>aw_procs := (aw_procs w)(p := Leased handles)\<rparr>)
      | Acquiring (identity # rest) handles \<Rightarrow> lock_next p identity rest handles w
      | Leased handles \<Rightarrow> Some (w\<lparr>aw_procs := (aw_procs w)(p := Releasing handles True)\<rparr>)
      | Releasing handles result \<Rightarrow> Some (release_next p handles result w)
      | Finished result \<Rightarrow> None)"

definition initial_assets :: "(string \<Rightarrow> string) \<Rightarrow> (string list \<times> bool) list \<Rightarrow> asset_world" where
  "initial_assets identity requests = \<lparr>aw_owner = (\<lambda>_. None),
     aw_blocking = (\<lambda>p. p < length requests \<and> snd (requests ! p)),
     aw_procs = (\<lambda>p. if p < length requests then Acquiring (lock_order identity (fst (requests ! p))) [] else Finished True)\<rparr>"

text \<open>The worlds reached by a number of steps.\<close>

inductive assets_run :: "(string \<Rightarrow> string) \<Rightarrow> (string list \<times> bool) list \<Rightarrow> nat \<Rightarrow> asset_world \<Rightarrow> bool"
  for identity :: "string \<Rightarrow> string" and requests :: "(string list \<times> bool) list" where
  start: "assets_run identity requests 0 (initial_assets identity requests)"
| step: "assets_run identity requests k w \<Longrightarrow> asset_step p w = Some w' \<Longrightarrow> assets_run identity requests (Suc k) w'"

subsection \<open>Invariant\<close>

fun held :: "acquisition \<Rightarrow> string list" where
  "held (Acquiring rest handles) = handles"
| "held (Leased handles) = handles"
| "held (Releasing handles result) = handles"
| "held (Finished result) = []"

text \<open>An acquisition holds a prefix of its order, all of it when leased, and a blocking one never fails.\<close>

fun progress_ok :: "string list \<Rightarrow> bool \<Rightarrow> acquisition \<Rightarrow> bool" where
  "progress_ok order blocking (Acquiring rest handles) \<longleftrightarrow> handles @ rest = order"
| "progress_ok order blocking (Leased handles) \<longleftrightarrow> handles = order"
| "progress_ok order blocking (Releasing handles result) \<longleftrightarrow> (\<exists>rest. handles @ rest = order) \<and> (blocking \<longrightarrow> result)"
| "progress_ok order blocking (Finished result) \<longleftrightarrow> (blocking \<longrightarrow> result)"

definition assets_ok :: "(nat \<Rightarrow> string list) \<Rightarrow> nat \<Rightarrow> asset_world \<Rightarrow> bool" where
  "assets_ok order n w \<longleftrightarrow> (\<forall>p. progress_ok (order p) (aw_blocking w p) (aw_procs w p))
     \<and> (\<forall>l p. aw_owner w l = Some p \<longleftrightarrow> l \<in> set (held (aw_procs w p)))
     \<and> (\<forall>p. sorted_wrt (<) (order p)) \<and> (\<forall>p \<ge> n. aw_procs w p = Finished True)"

definition request_order :: "(string \<Rightarrow> string) \<Rightarrow> (string list \<times> bool) list \<Rightarrow> nat \<Rightarrow> string list" where
  "request_order identity requests p = (if p < length requests then lock_order identity (fst (requests ! p)) else [])"

lemma sorted_lock_order: "sorted_wrt (<) (lock_order identity paths)"
  by (simp add: lock_order_def strict_sorted_iff)

lemma initial_assets_ok: "assets_ok (request_order identity requests) (length requests) (initial_assets identity requests)"
  by (auto simp: assets_ok_def initial_assets_def request_order_def sorted_lock_order)

text \<open>The steps an acquisition has left, at most.\<close>

fun cost :: "acquisition \<Rightarrow> nat" where
  "cost (Acquiring rest handles) = 2 * length rest + length handles + 3"
| "cost (Leased handles) = length handles + 2"
| "cost (Releasing handles result) = length handles + 1"
| "cost (Finished result) = 0"

text \<open>Replacing one acquisition and the locks it owns.\<close>

lemma assets_ok_update:
  assumes ok: "assets_ok order n w" and "p < n" and a: "progress_ok (order p) (aw_blocking w p) a"
    and own: "\<And>l q. own l = Some q \<longleftrightarrow> (if q = p then l \<in> set (held a) else aw_owner w l = Some q)"
  shows "assets_ok order n (w\<lparr>aw_owner := own, aw_procs := (aw_procs w)(p := a)\<rparr>)"
  using assms by (auto simp: assets_ok_def)

lemma asset_step_cases:
  assumes ok: "assets_ok order n w" and s: "asset_step p w = Some w'"
  shows "p < n \<and> (\<exists>own a. w' = w\<lparr>aw_owner := own, aw_procs := (aw_procs w)(p := a)\<rparr>
    \<and> assets_ok order n w' \<and> cost a < cost (aw_procs w p))"
proof -
  have own: "\<And>l q. aw_owner w l = Some q \<longleftrightarrow> l \<in> set (held (aw_procs w q))"
    and prog: "progress_ok (order p) (aw_blocking w p) (aw_procs w p)" and srt: "sorted_wrt (<) (order p)"
    using ok by (auto simp: assets_ok_def)
  have pn: "p < n"
  proof (rule ccontr)
    assume "\<not> p < n"
    then have "aw_procs w p = Finished True" using ok by (simp add: assets_ok_def)
    then show False using s by (simp add: asset_step_def)
  qed
  have upd: "assets_ok order n (w\<lparr>aw_owner := own', aw_procs := (aw_procs w)(p := a)\<rparr>)"
    if "progress_ok (order p) (aw_blocking w p) a"
      "\<And>l q. own' l = Some q \<longleftrightarrow> (if q = p then l \<in> set (held a) else aw_owner w l = Some q)" for own' a
    by (rule assets_ok_update [OF ok pn that])
  have same: "w\<lparr>aw_procs := x\<rparr> = w\<lparr>aw_owner := aw_owner w, aw_procs := x\<rparr>" for x by simp
  show ?thesis
  proof (cases "aw_procs w p")
    case (Acquiring rest handles)
    show ?thesis
    proof (cases rest)
      case Nil
      have "assets_ok order n (w\<lparr>aw_owner := aw_owner w, aw_procs := (aw_procs w)(p := Leased handles)\<rparr>)"
        using prog own by (intro upd) (auto simp: Acquiring Nil)
      then show ?thesis using s pn by (auto simp: asset_step_def Acquiring Nil simp del: fun_upd_apply intro!: exI [of _ "aw_owner w"] exI [of _ "Leased handles"])
    next
      case (Cons identity rest')
      show ?thesis
      proof (cases "aw_owner w identity")
        case None
        define own' where "own' = (aw_owner w)(identity := Some p)"
        define a where "a = Acquiring rest' (handles @ [identity])"
        have "assets_ok order n (w\<lparr>aw_owner := own', aw_procs := (aw_procs w)(p := a)\<rparr>)"
          using prog own [of _ p] None by (intro upd) (auto simp: Acquiring Cons own'_def a_def)
        then show ?thesis
          using s pn None by (auto simp: asset_step_def lock_next_def Acquiring Cons own'_def a_def simp del: fun_upd_apply intro!: exI [of _ own'] exI [of _ a])
      next
        case (Some q)
        define a where "a = Releasing handles False"
        have b: "\<not> aw_blocking w p" using s by (auto simp: asset_step_def lock_next_def Acquiring Cons Some split: if_splits)
        then have "assets_ok order n (w\<lparr>aw_owner := aw_owner w, aw_procs := (aw_procs w)(p := a)\<rparr>)"
          using prog own by (intro upd) (auto simp: Acquiring Cons a_def)
        then show ?thesis
          using s pn b by (auto simp: asset_step_def lock_next_def Acquiring Cons Some a_def simp del: fun_upd_apply intro!: exI [of _ "aw_owner w"] exI [of _ a])
      qed
    qed
  next
    case (Leased handles)
    define a where "a = Releasing handles True"
    have "assets_ok order n (w\<lparr>aw_owner := aw_owner w, aw_procs := (aw_procs w)(p := a)\<rparr>)"
      using prog own by (intro upd) (auto simp: Leased a_def)
    then show ?thesis
      using s pn by (auto simp: asset_step_def Leased a_def simp del: fun_upd_apply intro!: exI [of _ "aw_owner w"] exI [of _ a])
  next
    case (Releasing handles result)
    show ?thesis
    proof (cases handles rule: rev_cases)
      case Nil
      have "assets_ok order n (w\<lparr>aw_owner := aw_owner w, aw_procs := (aw_procs w)(p := Finished result)\<rparr>)"
        using prog own by (intro upd) (auto simp: Releasing Nil)
      then show ?thesis
        using s pn by (auto simp: asset_step_def release_next_def Releasing Nil simp del: fun_upd_apply intro!: exI [of _ "aw_owner w"] exI [of _ "Finished result"])
    next
      case (snoc hs identity)
      define own' where "own' = (aw_owner w)(identity := None)"
      define a where "a = Releasing hs result"
      have "aw_owner w identity = Some p" using own [of identity p] by (simp add: Releasing snoc)
      then have mine: "aw_owner w identity = Some q \<longleftrightarrow> q = p" for q by auto
      obtain rest where "hs @ identity # rest = order p" using prog by (auto simp: Releasing snoc)
      then have o: "order p = hs @ identity # rest" by simp
      have "identity \<notin> set hs" using srt unfolding o sorted_wrt_append by auto
      then have "assets_ok order n (w\<lparr>aw_owner := own', aw_procs := (aw_procs w)(p := a)\<rparr>)"
        using prog own [of _ p] mine by (intro upd) (auto simp: Releasing snoc own'_def a_def)
      then show ?thesis
        using s pn by (auto simp: asset_step_def release_next_def Releasing snoc own'_def a_def simp del: fun_upd_apply intro!: exI [of _ own'] exI [of _ a])
    qed
  qed (use s in \<open>simp add: asset_step_def\<close>)
qed

subsection \<open>Termination\<close>

definition total_cost :: "nat \<Rightarrow> asset_world \<Rightarrow> nat" where
  "total_cost n w = (\<Sum>p<n. cost (aw_procs w p))"

lemma total_cost_step:
  assumes "assets_ok order n w" and "asset_step p w = Some w'"
  shows "total_cost n w' < total_cost n w"
proof -
  obtain own a where w': "w' = w\<lparr>aw_owner := own, aw_procs := (aw_procs w)(p := a)\<rparr>" and c: "cost a < cost (aw_procs w p)" and p: "p < n"
    using asset_step_cases [OF assms] by blast
  have "(\<Sum>q<n. cost (aw_procs w' q)) < (\<Sum>q<n. cost (aw_procs w q))"
    by (rule sum_strict_mono_ex1) (use c p in \<open>auto simp: w'\<close>)
  then show ?thesis by (simp add: total_cost_def)
qed

lemma assets_run_ok:
  "assets_run identity requests k w \<Longrightarrow> assets_ok (request_order identity requests) (length requests) w
     \<and> aw_blocking w = aw_blocking (initial_assets identity requests)
     \<and> k + total_cost (length requests) w \<le> total_cost (length requests) (initial_assets identity requests)"
proof (induction rule: assets_run.induct)
  case start
  show ?case by (simp add: initial_assets_ok)
next
  case (step k w p w')
  have ok: "assets_ok (request_order identity requests) (length requests) w" using step.IH by blast
  show ?case
    using asset_step_cases [OF ok step.hyps(2)] total_cost_step [OF ok step.hyps(2)] step.IH by auto
qed

fun waiting_for :: "acquisition \<Rightarrow> string option" where
  "waiting_for (Acquiring (identity # rest) handles) = Some identity"
| "waiting_for _ = None"

definition unfinished :: "asset_world \<Rightarrow> nat set" where
  "unfinished w = {p. \<forall>r. aw_procs w p \<noteq> Finished r}"

interpretation asset_locks: ordered_locks aw_owner "\<lambda>w p. waiting_for (aw_procs w p)" unfinished "\<lambda>w. \<exists>order n. assets_ok order n w"
proof
  fix w assume "\<exists>order n. assets_ok order n w"
  then obtain order n where ok: "assets_ok order n w" by blast
  have "unfinished w \<subseteq> {..<n}"
    using ok unfolding unfinished_def assets_ok_def by (auto simp: not_less [symmetric])
  then show "finite (unfinished w)" by (rule finite_subset) simp
  fix l p assume own: "aw_owner w l = Some p"
  then have h: "l \<in> set (held (aw_procs w p))" using ok by (simp add: assets_ok_def)
  then show "p \<in> unfinished w" by (auto simp: unfinished_def)
  fix l' assume "waiting_for (aw_procs w p) = Some l'"
  then obtain rest handles where a: "aw_procs w p = Acquiring (l' # rest) handles"
    by (cases "aw_procs w p" rule: waiting_for.cases) auto
  have o: "order p = handles @ l' # rest" and srt: "sorted_wrt (<) (order p)"
    using ok a unfolding assets_ok_def by (metis progress_ok.simps(1), blast)
  show "l < l'" using srt h unfolding o sorted_wrt_append by (simp add: a)
qed

lemma runnable_step: "asset_locks.runnable w p \<Longrightarrow> asset_step p w \<noteq> None"
  by (cases "aw_procs w p" rule: waiting_for.cases)
    (auto simp: asset_locks.runnable_def unfinished_def asset_step_def lock_next_def split: list.split)

text \<open>
  C39: Any set of acquisitions that each release what they acquired comes to an end after a bounded number of
  steps, in whatever order they run: no deadlock is possible, when nothing can move every acquisition has
  finished, the blocking ones with their locks granted, and every lock is free; on the way a lease holds
  all the locks of its paths and no lock has two holders.
\<close>

theorem asset_locks_terminate:
  assumes run: "assets_run identity requests k w"
  shows "k \<le> (\<Sum>p<length requests. 2 * length (lock_order identity (fst (requests ! p))) + 3)
    \<and> ((\<forall>p. asset_step p w = None) \<longrightarrow>
         (\<forall>p<length requests. \<exists>r. aw_procs w p = Finished r \<and> (snd (requests ! p) \<longrightarrow> r)) \<and> (\<forall>l. aw_owner w l = None))
    \<and> (\<forall>p<length requests. \<forall>handles. aw_procs w p = Leased handles \<longrightarrow>
         set handles = identity ` set (fst (requests ! p)) \<and> (\<forall>l \<in> set handles. aw_owner w l = Some p))"
proof -
  have ok: "assets_ok (request_order identity requests) (length requests) w"
    and bl: "aw_blocking w = aw_blocking (initial_assets identity requests)"
    and k: "k + total_cost (length requests) w \<le> total_cost (length requests) (initial_assets identity requests)"
    using assets_run_ok [OF run] by auto
  have "total_cost (length requests) (initial_assets identity requests)
      = (\<Sum>p<length requests. 2 * length (lock_order identity (fst (requests ! p))) + 3)"
    by (simp add: total_cost_def initial_assets_def)
  then have bound: "k \<le> (\<Sum>p<length requests. 2 * length (lock_order identity (fst (requests ! p))) + 3)" using k by simp
  have fin: "\<exists>r. aw_procs w p = Finished r \<and> (snd (requests ! p) \<longrightarrow> r)"
    if none: "\<forall>p. asset_step p w = None" and p: "p < length requests" for p
  proof -
    have "unfinished w = {}" using asset_locks.not_stuck [of w] ok none runnable_step by blast
    then obtain r where r: "aw_procs w p = Finished r" by (auto simp: unfinished_def)
    moreover have "progress_ok (request_order identity requests p) (aw_blocking w p) (aw_procs w p)" using ok by (simp add: assets_ok_def)
    ultimately show ?thesis using p by (simp add: bl initial_assets_def)
  qed
  have free: "aw_owner w l = None" if none: "\<forall>p. asset_step p w = None" for l
  proof (cases "aw_owner w l")
    case (Some q)
    have "unfinished w = {}" using asset_locks.not_stuck [of w] ok none runnable_step by blast
    moreover have "q \<in> unfinished w" using asset_locks.holder_live [of w l q] ok Some by blast
    ultimately show ?thesis by simp
  qed
  have lease: "set handles = identity ` set (fst (requests ! p)) \<and> (\<forall>l \<in> set handles. aw_owner w l = Some p)"
    if "p < length requests" "aw_procs w p = Leased handles" for p handles
  proof -
    have "progress_ok (request_order identity requests p) (aw_blocking w p) (aw_procs w p)" using ok by (simp add: assets_ok_def)
    then show ?thesis using ok that by (auto simp: request_order_def lock_order_def assets_ok_def)
  qed
  show ?thesis using bound fin free lease by blast
qed

theorem asset_locks_terminate_witness:
  "\<exists>w. assets_run id [([''b'', ''a''], True)] 3 w \<and> aw_procs w 0 = Leased [''a'', ''b''] \<and> aw_owner w ''a'' = Some 0"
proof -
  let ?w = "initial_assets id [([''b'', ''a''], True)]"
  define w1 where "w1 = ?w\<lparr>aw_owner := (aw_owner ?w)(''a'' := Some 0), aw_procs := (aw_procs ?w)(0 := Acquiring [''b''] [''a''])\<rparr>"
  define w2 where "w2 = w1\<lparr>aw_owner := (aw_owner w1)(''b'' := Some 0), aw_procs := (aw_procs w1)(0 := Acquiring [] [''a'', ''b''])\<rparr>"
  define w3 where "w3 = w2\<lparr>aw_procs := (aw_procs w2)(0 := Leased [''a'', ''b''])\<rparr>"
  have o: "lock_order id [''b'', ''a''] = [''a'', ''b'']" by code_simp
  have s1: "asset_step 0 ?w = Some w1" and s2: "asset_step 0 w1 = Some w2" and s3: "asset_step 0 w2 = Some w3"
    by (simp_all add: asset_step_def lock_next_def initial_assets_def o w1_def w2_def w3_def)
  have run: "assets_run id [([''b'', ''a''], True)] 3 w3"
    using assets_run.step [OF assets_run.step [OF assets_run.step [OF assets_run.start s1] s2] s3] by (simp add: numeral_3_eq_3)
  have l: "aw_procs w3 0 = Leased [''a'', ''b'']" by (simp add: w3_def)
  from asset_locks_terminate [OF run] l have "aw_owner w3 ''a'' = Some 0" by simp
  with run l show ?thesis by blast
qed

end
