(* ===== verification/CacheStorage.thy ===== *)
theory CacheStorage
  imports CatalogDatabase CachePaths
begin

text \<open>
  Storage admission (\<open>infrastructure/cache_coordination.py\<close>, \<open>CacheStorageCoordinator\<close> and
  \<open>ReservationLease\<close>): the bytes on disk, the durable reservations of future growth, admission under the quota,
  and what an admission may rely on while transfers under earlier reservations write, remove and promote files.

  The disk is what the coordinator measures of it: the files below \<open>.partial\<close>, the
  physical size of a cache path, and the free bytes.  A reservation is alive while its lock file is locked.
\<close>

subsection \<open>State\<close>

record storage =
  st_db :: database
  st_live :: "string list"
  st_partial :: "(string \<times> int) list"
  st_size :: "string list \<Rightarrow> int"
  st_free :: int

record coordinator =
  co_root :: string
  co_max_size :: int
  co_min_free :: int




subsection \<open>Measurements\<close>

text \<open>The member sizes with each shared path counted once, at its greatest size.\<close>

definition final_bytes :: "database \<Rightarrow> int" where
  "final_bytes d = sum_list (map (\<lambda>p. Max (set (map cm_size (filter (\<lambda>m. cm_path m = p) (db_members d)))))
     (remdups (map cm_path (db_members d))))"

definition recovery_assets :: "database \<Rightarrow> (string \<times> string) list" where
  "recovery_assets d = map (\<lambda>a. (sa_system a, sa_path a)) (db_assets d)"

definition promotion_step :: "string \<Rightarrow> storage \<Rightarrow> string \<times> string \<Rightarrow> int \<Rightarrow> cache_error + int" where
  "promotion_step root st asset n =
     bindE (resolve_cache_path root (fst asset) (snd asset)) (\<lambda>path. Inr (n + st_size st path))"

definition unfinalized_promotion_bytes :: "string \<Rightarrow> storage \<Rightarrow> cache_error + int" where
  "unfinalized_promotion_bytes root st = foldE (promotion_step root st) (recovery_assets (st_db st)) 0"

definition backup_path :: "string list \<Rightarrow> string list" where
  "backup_path path = butlast path @ [last path @ ''.romcloud-replaced'']"

definition backup_step :: "string \<Rightarrow> storage \<Rightarrow> string \<times> string \<Rightarrow> int \<Rightarrow> cache_error + int" where
  "backup_step root st asset n =
     bindE (resolve_cache_path root (fst asset) (snd asset)) (\<lambda>path. Inr (n + st_size st (backup_path path)))"

definition replacement_backup_bytes :: "string \<Rightarrow> storage \<Rightarrow> cache_error + int" where
  "replacement_backup_bytes root st = foldE (backup_step root st) (recovery_assets (st_db st)) 0"

definition staging_bytes :: "string \<Rightarrow> storage \<Rightarrow> cache_error + int" where
  "staging_bytes root st =
     bindE (unfinalized_promotion_bytes root st) (\<lambda>promoted.
     bindE (replacement_backup_bytes root st) (\<lambda>backups.
       Inr (sum_list (map snd (st_partial st)) + promoted + backups)))"

definition active_reserved :: "database \<Rightarrow> int" where
  "active_reserved d = sum_list (map rv_bytes (db_reservations d))"

definition fits :: "coordinator \<Rightarrow> storage \<Rightarrow> int \<Rightarrow> cache_error + bool" where
  "fits co st requested =
     bindE (staging_bytes (co_root co) st) (\<lambda>staging.
       Inr (final_bytes (st_db st) + staging + active_reserved (st_db st) + requested \<le> co_max_size co
            \<and> co_min_free co \<le> st_free st - active_reserved (st_db st) - requested))"

definition fits_current :: "coordinator \<Rightarrow> storage \<Rightarrow> int \<Rightarrow> cache_error + bool" where
  "fits_current co st requested = fits co st (max 0 requested)"

subsection \<open>Admission\<close>





subsection \<open>Leases\<close>





subsection \<open>Reservations over time\<close>






text \<open>What is on the disk and \<open>n\<close> bytes more respect the cache limit and the minimum free.\<close>

definition within :: "coordinator \<Rightarrow> storage \<Rightarrow> int \<Rightarrow> bool" where
  "within co st n \<longleftrightarrow> (\<exists>s. staging_bytes (co_root co) st = Inr s \<and> final_bytes (st_db st) + s + n \<le> co_max_size co
     \<and> co_min_free co \<le> st_free st - n)"

subsection \<open>What reservations cover\<close>





lemma staging_reservations [simp]:
  "staging_bytes root (st\<lparr>st_db := (st_db st)\<lparr>db_reservations := rows\<rparr>\<rparr>) = staging_bytes root st"
  "staging_bytes root (st\<lparr>st_live := live\<rparr>) = staging_bytes root st"
  by (simp_all add: staging_bytes_def unfinalized_promotion_bytes_def replacement_backup_bytes_def
      promotion_step_def [abs_def] backup_step_def [abs_def] recovery_assets_def)

lemma final_reservations [simp]: "final_bytes (d\<lparr>db_reservations := rows\<rparr>) = final_bytes d"
  by (simp add: final_bytes_def)

lemma within_rows [simp]:
  "within co (st\<lparr>st_db := (st_db st)\<lparr>db_reservations := rows\<rparr>\<rparr>) n = within co st n"
  "within co (st\<lparr>st_live := live\<rparr>) n = within co st n"
  by (simp_all add: within_def)






















end
