(* ===== verification/StagingStore.thy ===== *)
theory StagingStore
  imports CatalogDatabase
begin

text \<open>
  Durable staging manifests (\<open>infrastructure/repositories/download.py\<close>, \<open>StagingRepository\<close>):
  the plan of an asset with the checkpoints of its members, and the progress of the games that own it.
\<close>

subsection \<open>Constraints\<close>

definition file_key :: "staging_file \<Rightarrow> string \<times> string" where
  "file_key f = (sf_asset f, sf_member f)"

definition check_file :: "staging_file \<Rightarrow> bool" where
  "check_file f \<longleftrightarrow> (case sf_expected f of None \<Rightarrow> True | Some n \<Rightarrow> 0 \<le> n) \<and> 0 \<le> sf_bytes f
     \<and> (sf_bytes f = 0 \<or> sf_checkpoint f \<noteq> None)"

text \<open>The partial unique index: at most one member of an asset is transferring.\<close>

definition one_transfer :: "staging_file list \<Rightarrow> bool" where
  "one_transfer fs \<longleftrightarrow> distinct (map sf_asset (filter (\<lambda>f. sf_state f = TRANSFERRING) fs))"

definition store_files :: "staging_file list \<Rightarrow> database \<Rightarrow> db_error + database" where
  "store_files fs d = (if (\<forall>f \<in> set fs. check_file f) \<and> one_transfer fs then Inr (d\<lparr>db_files := fs\<rparr>) else Inl IntegrityError)"

subsection \<open>Plans\<close>

record plan_file =
  pf_member :: string
  pf_expected :: "int option"
  pf_object :: "string option"
  pf_revision :: "string option"
  pf_checksum :: "string option"
  pf_modified :: "int option"

record asset_plan =
  ap_path :: string
  ap_system :: string
  ap_kind :: string
  ap_provider :: string
  ap_root :: string
  ap_expected :: "int option"
  ap_manifest :: string
  ap_files :: "plan_file list"

definition planned_asset :: "int \<Rightarrow> asset_plan \<Rightarrow> staging_asset" where
  "planned_asset now p = \<lparr>sa_path = ap_path p, sa_system = ap_system p, sa_kind = ap_kind p, sa_provider = ap_provider p,
     sa_root = ap_root p, sa_expected = ap_expected p, sa_manifest = Some (ap_manifest p), sa_version = 1,
     sa_created = now, sa_updated = now\<rparr>"

definition updated_asset :: "int \<Rightarrow> asset_plan \<Rightarrow> staging_asset \<Rightarrow> staging_asset" where
  "updated_asset now p a = a\<lparr>sa_system := ap_system p, sa_kind := ap_kind p, sa_provider := ap_provider p,
     sa_root := ap_root p, sa_expected := ap_expected p, sa_manifest := Some (ap_manifest p), sa_updated := now\<rparr>"

definition upsert_asset :: "int \<Rightarrow> asset_plan \<Rightarrow> database \<Rightarrow> db_error + database" where
  "upsert_asset now p d =
     (if ap_kind p \<notin> {''file'', ''directory''} \<or> (case ap_expected p of None \<Rightarrow> False | Some n \<Rightarrow> n < 0)
      then Inl IntegrityError
      else Inr (d\<lparr>db_assets :=
        (if ap_path p \<in> sa_path ` set (db_assets d)
         then map (\<lambda>a. if sa_path a = ap_path p then updated_asset now p a else a) (db_assets d)
         else db_assets d @ [planned_asset now p])\<rparr>))"

definition demote_transfers :: "string \<Rightarrow> database \<Rightarrow> database" where
  "demote_transfers path d = d\<lparr>db_files := map (\<lambda>f. if sf_asset f = path \<and> sf_state f = TRANSFERRING then f\<lparr>sf_state := PARTIAL\<rparr> else f)
     (db_files d)\<rparr>"

text \<open>With nothing wanted the statement excludes the empty name.\<close>

definition drop_unwanted :: "string \<Rightarrow> string list \<Rightarrow> database \<Rightarrow> database" where
  "drop_unwanted path wanted d =
     (let keep = if wanted = [] then [''''] else wanted
      in d\<lparr>db_files := filter (\<lambda>f. \<not> (sf_asset f = path \<and> sf_member f \<notin> set keep)) (db_files d)\<rparr>)"

definition planned_file :: "string \<Rightarrow> staging_file option \<Rightarrow> plan_file \<Rightarrow> staging_file" where
  "planned_file path old p = \<lparr>sf_asset = path, sf_member = pf_member p, sf_expected = pf_expected p, sf_object = pf_object p,
     sf_revision = pf_revision p, sf_checksum = pf_checksum p, sf_modified = pf_modified p,
     sf_state = (case old of None \<Rightarrow> PENDING | Some f \<Rightarrow> if sf_state f = TRANSFERRING then PARTIAL else sf_state f),
     sf_bytes = (case old of None \<Rightarrow> 0 | Some f \<Rightarrow> sf_bytes f),
     sf_checkpoint = (case old of None \<Rightarrow> None | Some f \<Rightarrow> sf_checkpoint f),
     sf_content = (case old of None \<Rightarrow> None | Some f \<Rightarrow> sf_content f), sf_completed = None\<rparr>"

definition updated_file :: "plan_file \<Rightarrow> staging_file \<Rightarrow> staging_file" where
  "updated_file p f = f\<lparr>sf_expected := pf_expected p, sf_object := pf_object p, sf_revision := pf_revision p,
     sf_checksum := pf_checksum p, sf_modified := pf_modified p\<rparr>"

definition upsert_file :: "string \<Rightarrow> (string \<Rightarrow> staging_file option) \<Rightarrow> plan_file \<Rightarrow> database \<Rightarrow> db_error + database" where
  "upsert_file path old p d =
     store_files
       (if (path, pf_member p) \<in> file_key ` set (db_files d)
        then map (\<lambda>f. if file_key f = (path, pf_member p) then updated_file p f else f) (db_files d)
        else db_files d @ [planned_file path (old (pf_member p)) p]) d"

definition existing_file :: "string \<Rightarrow> database \<Rightarrow> string \<Rightarrow> staging_file option" where
  "existing_file path d member = find (\<lambda>f. file_key f = (path, member)) (db_files d)"

definition replace_plan :: "int \<Rightarrow> asset_plan \<Rightarrow> database \<Rightarrow> db_error + database" where
  "replace_plan now p d =
     bindE (upsert_asset now p d) (\<lambda>d1.
       let old = existing_file (ap_path p) d1;
           d2 = drop_unwanted (ap_path p) (map pf_member (ap_files p)) (demote_transfers (ap_path p) d1)
       in foldE (upsert_file (ap_path p) old) (ap_files p) d2)"

subsection \<open>Reading and checkpoints\<close>

definition get_file :: "string \<Rightarrow> string \<Rightarrow> database \<Rightarrow> staging_file option" where
  "get_file asset member d = find (\<lambda>f. file_key f = (asset, member)) (db_files d)"

definition get_asset :: "string \<Rightarrow> database \<Rightarrow> staging_asset option" where
  "get_asset path d = find (\<lambda>a. sa_path a = path) (db_assets d)"

definition list_files :: "string \<Rightarrow> database \<Rightarrow> staging_file list" where
  "list_files path d = sort_key sf_member (filter (\<lambda>f. sf_asset f = path) (db_files d))"

definition list_assets :: "database \<Rightarrow> staging_asset list" where
  "list_assets d = sort_key sa_path (db_assets d)"

definition owner_game_ids :: "string \<Rightarrow> database \<Rightarrow> string list" where
  "owner_game_ids path d = map cm_game (filter (\<lambda>m. cm_path m = path) (db_members d))"

definition touch_asset :: "int \<Rightarrow> string \<Rightarrow> database \<Rightarrow> database" where
  "touch_asset now path d = d\<lparr>db_assets := map (\<lambda>a. if sa_path a = path then a\<lparr>sa_updated := now\<rparr> else a) (db_assets d)\<rparr>"

definition checkpoint :: "int \<Rightarrow> string \<Rightarrow> string \<Rightarrow> int \<Rightarrow> string \<Rightarrow> staging_state \<Rightarrow> database \<Rightarrow> db_error + database" where
  "checkpoint now asset member bytes digest state d =
     bindE (store_files (map (\<lambda>f. if file_key f = (asset, member)
         then f\<lparr>sf_state := state, sf_bytes := bytes, sf_checkpoint := Some digest\<rparr> else f) (db_files d)) d)
       (\<lambda>d1. Inr (touch_asset now asset d1))"

definition complete :: "int \<Rightarrow> string \<Rightarrow> string \<Rightarrow> int \<Rightarrow> string \<Rightarrow> database \<Rightarrow> db_error + database" where
  "complete now asset member bytes digest d =
     bindE (store_files (map (\<lambda>f. if file_key f = (asset, member)
         then f\<lparr>sf_state := STAGED, sf_bytes := bytes, sf_checkpoint := Some digest, sf_content := Some digest,
                sf_completed := Some now\<rparr> else f) (db_files d)) d)
       (\<lambda>d1. Inr (touch_asset now asset d1))"

definition delete_asset :: "string \<Rightarrow> database \<Rightarrow> database" where
  "delete_asset path d = d\<lparr>db_assets := filter (\<lambda>a. sa_path a \<noteq> path) (db_assets d),
     db_files := filter (\<lambda>f. sf_asset f \<noteq> path) (db_files d)\<rparr>"

definition bytes_present :: "database \<Rightarrow> int" where
  "bytes_present d = sum_list (map sf_bytes (db_files d))"

subsection \<open>Progress of games\<close>

record staging_stats =
  ss_total :: int
  ss_retained :: int
  ss_interrupted :: int
  ss_remaining :: int
  ss_bytes :: int

definition empty_staging_stats :: staging_stats where
  "empty_staging_stats = \<lparr>ss_total = 0, ss_retained = 0, ss_interrupted = 0, ss_remaining = 0, ss_bytes = 0\<rparr>"

text \<open>The row of one cache member: its staging files, or its size when it has none.\<close>

definition member_stats :: "database \<Rightarrow> cache_member \<Rightarrow> staging_stats" where
  "member_stats d m =
     (let fs = filter (\<lambda>f. sf_asset f = cm_path m) (db_files d)
      in \<lparr>ss_total = int (length fs),
          ss_retained = int (length (filter (\<lambda>f. sf_state f = STAGED \<or> 0 < sf_bytes f) fs)),
          ss_interrupted = int (length (filter (\<lambda>f. sf_state f \<in> {PARTIAL, TRANSFERRING}) fs)),
          ss_remaining = int (length (filter (\<lambda>f. sf_state f \<noteq> STAGED) fs)),
          ss_bytes = (if fs \<noteq> [] then sum_list (map sf_bytes fs) else cm_size m)\<rparr>)"

definition add_stats :: "staging_stats \<Rightarrow> staging_stats \<Rightarrow> staging_stats" where
  "add_stats a b = \<lparr>ss_total = ss_total a + ss_total b, ss_retained = ss_retained a + ss_retained b,
     ss_interrupted = ss_interrupted a + ss_interrupted b, ss_remaining = ss_remaining a + ss_remaining b,
     ss_bytes = ss_bytes a + ss_bytes b\<rparr>"

definition group_stats :: "database \<Rightarrow> string \<Rightarrow> staging_stats" where
  "group_stats d game = foldr add_stats (map (member_stats d) (filter (\<lambda>m. cm_game m = game) (db_members d))) empty_staging_stats"

text \<open>One grouped statement: a row for each game of the batch that has cache members.\<close>

definition batch_rows :: "database \<Rightarrow> string list \<Rightarrow> (string \<times> staging_stats) list" where
  "batch_rows d batch = map (\<lambda>g. (g, group_stats d g)) (remdups (filter (\<lambda>g. g \<in> set batch) (map cm_game (db_members d))))"

definition BATCH_SIZE :: nat where "BATCH_SIZE = 400"

function stats_batches :: "database \<Rightarrow> string list \<Rightarrow> (string, staging_stats) dict \<Rightarrow> (string, staging_stats) dict" where
  "stats_batches d ids results =
     (if ids = [] then results
      else stats_batches d (drop BATCH_SIZE ids)
        (fold (\<lambda>(g, s). AList.update g s) (batch_rows d (take BATCH_SIZE ids)) results))"
  by pat_completeness auto
termination by (relation "measure (\<lambda>(d, ids, results). length ids)") (auto simp: BATCH_SIZE_def)

definition stats_for_games :: "string list \<Rightarrow> database \<Rightarrow> (string, staging_stats) dict" where
  "stats_for_games game_ids d =
     (let ids = dedup game_ids
      in if ids = [] then [] else stats_batches d ids (map (\<lambda>g. (g, empty_staging_stats)) ids))"

definition stats_for_game :: "string \<Rightarrow> database \<Rightarrow> staging_stats option" where
  "stats_for_game game_id d = map_of (stats_for_games [game_id] d) game_id"

subsection \<open>Batched statistics\<close>

declare stats_batches.simps [simp del]

lemma map_of_map_keys': "map_of (map (\<lambda>g. (g, f g)) gs) g = (if g \<in> set gs then Some (f g) else None)"
  by (induction gs) auto

lemma map_of_update_rows: "map_of (fold (\<lambda>(g, s). AList.update g s) rows results) g
    = (case map_of (rev rows) g of Some s \<Rightarrow> Some s | None \<Rightarrow> map_of results g)"
  by (induction rows arbitrary: results) (auto simp: update_conv' map_add_def split: option.splits)

lemma update_same_keys: "g \<in> fst ` set results \<Longrightarrow> map fst (AList.update g s results) = map fst results"
  by (induction results) auto

lemma stats_batches_Nil [simp]: "stats_batches d [] results = results"
  by (simp add: stats_batches.simps)

lemma keys_update_rows: "\<forall>(g, s) \<in> set rows. g \<in> fst ` set results \<Longrightarrow>
    map fst (fold (\<lambda>(g, s). AList.update g s) rows results) = map fst results"
proof (induction rows arbitrary: results)
  case (Cons row rows)
  obtain g s where row: "row = (g, s)" by (cases row)
  have k: "map fst (AList.update g s results) = map fst results"
    using Cons.prems by (intro update_same_keys) (auto simp: row)
  then have "fst ` set (AList.update g s results) = fst ` set results" by (metis set_map)
  then have "map fst (fold (\<lambda>(g, s). AList.update g s) rows (AList.update g s results)) = map fst (AList.update g s results)"
    using Cons.prems by (intro Cons.IH) auto
  then show ?case using k by (simp add: row)
qed simp

lemma batch_rows_value: "map_of (rev (batch_rows d batch)) g =
    (if g \<in> set batch \<and> g \<in> cm_game ` set (db_members d) then Some (group_stats d g) else None)"
proof -
  let ?gs = "remdups (filter (\<lambda>g. g \<in> set batch) (map cm_game (db_members d)))"
  have "rev (batch_rows d batch) = map (\<lambda>g. (g, group_stats d g)) (rev ?gs)" by (simp add: batch_rows_def rev_map)
  then show ?thesis by (auto simp: map_of_map_keys' map_of_eq_None_iff image_iff)
qed

lemma group_stats_empty: "g \<notin> cm_game ` set (db_members d) \<Longrightarrow> group_stats d g = empty_staging_stats"
proof -
  assume "g \<notin> cm_game ` set (db_members d)"
  then have "filter (\<lambda>m. cm_game m = g) (db_members d) = []" by (auto simp: filter_empty_conv)
  then show ?thesis by (simp add: group_stats_def)
qed

lemma stats_batches_value:
  assumes "set ids \<subseteq> fst ` set results"
  shows "map fst (stats_batches d ids results) = map fst results
    \<and> (\<forall>g. map_of (stats_batches d ids results) g =
         (if g \<in> set ids \<and> g \<in> cm_game ` set (db_members d) then Some (group_stats d g) else map_of results g))"
  using assms
proof (induction d ids results rule: stats_batches.induct)
  case (1 d ids results)
  show ?case
  proof (cases "ids = []")
    case True
    then show ?thesis by simp
  next
    case False
    define new where "new = fold (\<lambda>(g, s). AList.update g s) (batch_rows d (take BATCH_SIZE ids)) results"
    have k: "map fst new = map fst results"
      unfolding new_def using 1(2) by (intro keys_update_rows) (auto simp: batch_rows_def dest: in_set_takeD)
    then have ks: "fst ` set new = fst ` set results" by (metis set_map)
    have sub: "set (drop BATCH_SIZE ids) \<subseteq> fst ` set new" using 1(2) unfolding ks by (auto dest: in_set_dropD)
    note IH = 1(1) [OF False sub [unfolded new_def]]
    have step: "stats_batches d ids results = stats_batches d (drop BATCH_SIZE ids) new"
      using False by (simp add: stats_batches.simps [of d ids] new_def)
    have ids: "g \<in> set ids \<longleftrightarrow> g \<in> set (take BATCH_SIZE ids) \<or> g \<in> set (drop BATCH_SIZE ids)" for g
      by (metis Un_iff append_take_drop_id set_append)
    have "map_of new g = (if g \<in> set (take BATCH_SIZE ids) \<and> g \<in> cm_game ` set (db_members d) then Some (group_stats d g) else map_of results g)" for g
      unfolding new_def map_of_update_rows batch_rows_value by simp
    then show ?thesis using IH k unfolding step new_def [symmetric] by (simp add: ids)
  qed
qed

lemma dict_eqI:
  assumes "map fst xs = map fst ys" and "distinct (map fst ys)" and "\<forall>k. map_of xs k = map_of ys k"
  shows "xs = ys"
proof (rule nth_equalityI)
  show len: "length xs = length ys" using assms(1) by (metis length_map)
  fix i assume i: "i < length xs"
  have f: "fst (xs ! i) = fst (ys ! i)" using assms(1) i len by (metis nth_map)
  have d: "distinct (map fst xs)" using assms(1,2) by simp
  have "map_of xs (fst (xs ! i)) = Some (snd (xs ! i))" using i d by (intro map_of_is_SomeI) auto
  moreover have "map_of ys (fst (ys ! i)) = Some (snd (ys ! i))" using i len assms(2) by (intro map_of_is_SomeI) auto
  ultimately have "snd (xs ! i) = snd (ys ! i)" using assms(3) f by simp
  with f show "xs ! i = ys ! i" by (rule prod_eqI)
qed

text \<open>
  The batched statistics of any list of games are, in the order of first appearance, the
  statistics each game has on its own, whatever the number of batches.
\<close>

theorem staging_stats_batched:
  "stats_for_games game_ids d = map (\<lambda>g. (g, group_stats d g)) (dedup game_ids)
   \<and> stats_for_game game_id d = Some (group_stats d game_id)"
proof -
  have all: "stats_for_games ids d = map (\<lambda>g. (g, group_stats d g)) (dedup ids)" for ids
  proof (cases "dedup ids = []")
    case False
    let ?r = "map (\<lambda>g. (g, empty_staging_stats)) (dedup ids)"
    have sub: "set (dedup ids) \<subseteq> fst ` set ?r" by force
    have e: "stats_for_games ids d = stats_batches d (dedup ids) ?r" using False by (simp add: stats_for_games_def Let_def)
    show ?thesis
    proof (rule dict_eqI)
      show "map fst (stats_for_games ids d) = map fst (map (\<lambda>g. (g, group_stats d g)) (dedup ids))"
        using stats_batches_value [OF sub, of d] by (simp add: e comp_def)
      show "\<forall>g. map_of (stats_for_games ids d) g = map_of (map (\<lambda>g. (g, group_stats d g)) (dedup ids)) g"
        using stats_batches_value [OF sub, of d] group_stats_empty [of _ d]
        by (auto simp: e map_of_map_keys')
    qed (simp add: comp_def)
  qed (simp add: stats_for_games_def)
  show ?thesis using all [of game_ids] all [of "[game_id]"] by (simp add: stats_for_game_def)
qed

end
