(* ===== verification/SaveDisk.thy ===== *)
theory SaveDisk
  imports PosixPaths "HOL-Library.Sublist"
begin

text \<open>
  The disk under a selected SaveSync transaction: what \<open>infrastructure/save_transaction.py\<close> and
  \<open>infrastructure/save_tree.py\<close> use of \<open>pathlib\<close>, \<open>os\<close> and \<open>shutil\<close>, one atomic action at a time.

  A path is the list of its components from the root directory.  A tree maps paths to regular files,
  symbolic links (whose targets are never followed: the code refuses them everywhere it writes) and
  directories.  Every action that reads or changes the disk first takes an event from the schedule: it is
  performed, or raises \<open>OSError\<close>, or the process dies there; an empty schedule performs everything.
  The variables of the process that an exception handler reads are part of the state.  What an action has
  done is durable; directory flushes, whose errors the code swallows, have no effect here.
\<close>

subsection \<open>Trees\<close>

type_synonym path = "string list"

datatype node = File "byte list" | Link | Directory

type_synonym tree = "(path \<times> node) list"

definition lookup :: "tree \<Rightarrow> path \<Rightarrow> node option" where
  "lookup t p = (if p = [] then Some Directory else map_of t p)"

text \<open>\<open>path.is_symlink()\<close>, \<open>path.is_dir()\<close>, \<open>path.exists() or path.is_symlink()\<close>\<close>

definition is_link :: "tree \<Rightarrow> path \<Rightarrow> bool" where
  "is_link t p \<longleftrightarrow> lookup t p = Some Link"

definition is_dir :: "tree \<Rightarrow> path \<Rightarrow> bool" where
  "is_dir t p \<longleftrightarrow> lookup t p = Some Directory"

definition present :: "tree \<Rightarrow> path \<Rightarrow> bool" where
  "present t p \<longleftrightarrow> lookup t p \<noteq> None"

text \<open>The bytes of a regular file: \<open>None\<close> when \<open>path.is_symlink() or not path.is_file()\<close>.\<close>

definition content :: "tree \<Rightarrow> path \<Rightarrow> byte list option" where
  "content t p = (case lookup t p of Some (File b) \<Rightarrow> Some b | _ \<Rightarrow> None)"

definition wf_tree :: "tree \<Rightarrow> bool" where
  "wf_tree t \<longleftrightarrow> distinct (map fst t) \<and> (\<forall>p \<in> fst ` set t. p \<noteq> [] \<and> is_dir t (butlast p))"

text \<open>\<open>path.mkdir()\<close>, and with \<open>exist_ok\<close>\<close>

definition make_dir :: "path \<Rightarrow> tree \<Rightarrow> tree option" where
  "make_dir p t = (if lookup t p = None \<and> is_dir t (butlast p) then Some (AList.update p Directory t) else None)"

definition make_dir_ok :: "path \<Rightarrow> tree \<Rightarrow> tree option" where
  "make_dir_ok p t = (if is_dir t p then Some t else make_dir p t)"

text \<open>\<open>path.unlink(missing_ok=True)\<close>\<close>

definition unlink :: "path \<Rightarrow> tree \<Rightarrow> tree option" where
  "unlink p t = (if is_dir t p then None else Some (AList.delete p t))"

text \<open>\<open>path.open("wb")\<close> of a path that is no link, and a write at the end of the file\<close>

definition create_file :: "path \<Rightarrow> tree \<Rightarrow> tree option" where
  "create_file p t = (if is_dir t (butlast p) \<and> p \<noteq> [] \<and> (lookup t p = None \<or> content t p \<noteq> None)
     then Some (AList.update p (File []) t) else None)"

definition append_file :: "path \<Rightarrow> byte list \<Rightarrow> tree \<Rightarrow> tree option" where
  "append_file p bytes t = (case content t p of Some b \<Rightarrow> Some (AList.update p (File (b @ bytes)) t) | None \<Rightarrow> None)"

text \<open>\<open>os.replace(source, target)\<close> of a file, and of a directory to a name that is free\<close>

definition replace_file :: "path \<Rightarrow> path \<Rightarrow> tree \<Rightarrow> tree option" where
  "replace_file source target t =
     (case lookup t source of
        Some (File b) \<Rightarrow> (if is_dir t target \<or> \<not> is_dir t (butlast target) then None
                          else Some (AList.update target (File b) (if source = target then t else AList.delete source t)))
      | _ \<Rightarrow> None)"

definition moved :: "path \<Rightarrow> path \<Rightarrow> path \<Rightarrow> path" where
  "moved source target p = (if prefix source p then target @ drop (length source) p else p)"

definition replace_dir :: "path \<Rightarrow> path \<Rightarrow> tree \<Rightarrow> tree option" where
  "replace_dir source target t =
     (if source \<noteq> [] \<and> is_dir t source \<and> lookup t target = None \<and> is_dir t (butlast target) \<and> \<not> prefix source target
      then Some (map (\<lambda>(p, n). (moved source target p, n)) t) else None)"

text \<open>The entries below a directory, and the order in which \<open>shutil.rmtree\<close> removes them: children first.\<close>

definition below :: "path \<Rightarrow> tree \<Rightarrow> tree" where
  "below p t = filter (\<lambda>(q, n). strict_prefix p q) t"

definition removal_order :: "path \<Rightarrow> tree \<Rightarrow> path list" where
  "removal_order p t = rev (sort_key length (filter (prefix p) (map fst t)))"

definition remove_entry :: "path \<Rightarrow> tree \<Rightarrow> tree option" where
  "remove_entry p t = Some (AList.delete p t)"

subsection \<open>Processes\<close>

datatype event = Perform | Fault | Crash

text \<open>\<open>SaveSyncError\<close>, \<open>SaveSyncVerificationError\<close>, \<open>OSError\<close>; their messages are left out.\<close>

datatype tx_error = SyncError | VerificationError | OsFailure

datatype 'a outcome = Ok 'a | Raised tx_error | Crashed

datatype journal_file = NoJournal | OddJournal | JournalFile doc

record state =
  st_tree :: tree
  st_journal :: journal_file
  st_created :: "path list"
  st_journal_created :: bool
  st_touched :: bool
  st_finished :: bool

type_synonym 'a io = "event list \<times> state \<Rightarrow> 'a outcome \<times> (event list \<times> state)"

definition ret :: "'a \<Rightarrow> 'a io" where
  "ret x w = (Ok x, w)"

definition raise :: "tx_error \<Rightarrow> 'a io" where
  "raise e w = (Raised e, w)"

definition bindIO :: "'a io \<Rightarrow> ('a \<Rightarrow> 'b io) \<Rightarrow> 'b io" where
  "bindIO m f w = (case m w of (Ok x, w') \<Rightarrow> f x w' | (Raised e, w') \<Rightarrow> (Raised e, w') | (Crashed, w') \<Rightarrow> (Crashed, w'))"

abbreviation seqIO :: "unit io \<Rightarrow> 'b io \<Rightarrow> 'b io" where
  "seqIO m n \<equiv> bindIO m (\<lambda>_. n)"

text \<open>\<open>try: m except: h\<close> and \<open>try: m finally: f\<close>; a dead process runs neither.\<close>

definition catchIO :: "'a io \<Rightarrow> (tx_error \<Rightarrow> 'a io) \<Rightarrow> 'a io" where
  "catchIO m h w = (case m w of (Raised e, w') \<Rightarrow> h e w' | r \<Rightarrow> r)"

definition finallyIO :: "'a io \<Rightarrow> unit io \<Rightarrow> 'a io" where
  "finallyIO m f w =
     (case m w of
        (Crashed, w') \<Rightarrow> (Crashed, w')
      | (r, w') \<Rightarrow> (case f w' of (Ok _, w'') \<Rightarrow> (r, w'') | (Raised e, w'') \<Rightarrow> (Raised e, w'') | (Crashed, w'') \<Rightarrow> (Crashed, w'')))"

fun eachIO :: "('a \<Rightarrow> unit io) \<Rightarrow> 'a list \<Rightarrow> unit io" where
  "eachIO f [] = ret ()"
| "eachIO f (x # xs) = seqIO (f x) (eachIO f xs)"

fun collectIO :: "('a \<Rightarrow> 'b io) \<Rightarrow> 'a list \<Rightarrow> 'b list io" where
  "collectIO f [] = ret []"
| "collectIO f (x # xs) = bindIO (f x) (\<lambda>y. bindIO (collectIO f xs) (\<lambda>ys. ret (y # ys)))"

text \<open>One action on the disk.\<close>

definition act :: "(state \<Rightarrow> state option) \<Rightarrow> unit io" where
  "act f = (\<lambda>(es, s).
     (case es of
        Crash # _ \<Rightarrow> (Crashed, (es, s))
      | Fault # es' \<Rightarrow> (Raised OsFailure, (es', s))
      | _ \<Rightarrow> (case f s of None \<Rightarrow> (Raised OsFailure, (tl es, s)) | Some s' \<Rightarrow> (Ok (), (tl es, s')))))"

definition tree_of :: "tree io" where
  "tree_of w = (Ok (st_tree (snd w)), w)"

definition state_of :: "state io" where
  "state_of w = (Ok (snd w), w)"

text \<open>A variable of the process is set.\<close>

definition set_memory :: "(state \<Rightarrow> state) \<Rightarrow> unit io" where
  "set_memory f w = (Ok (), (fst w, f (snd w)))"

definition on_tree :: "(tree \<Rightarrow> tree option) \<Rightarrow> unit io" where
  "on_tree f = act (\<lambda>s. map_option (\<lambda>t. s\<lparr>st_tree := t\<rparr>) (f (st_tree s)))"

definition read_disk :: "unit io" where
  "read_disk = act Some"

definition check :: "bool \<Rightarrow> tx_error \<Rightarrow> unit io" where
  "check b e = (if b then ret () else raise e)"

definition lift :: "tx_error + 'a \<Rightarrow> 'a io" where
  "lift r = (case r of Inl e \<Rightarrow> raise e | Inr x \<Rightarrow> ret x)"

text \<open>\<open>path.mkdir(parents=True)\<close>: the missing ancestors first.\<close>

definition make_missing :: "path \<Rightarrow> unit io" where
  "make_missing p = bindIO tree_of (\<lambda>t. if present t p then ret () else on_tree (make_dir p))"

definition make_dirs :: "path \<Rightarrow> unit io" where
  "make_dirs p = seqIO (eachIO make_missing (butlast (prefixes p))) (on_tree (make_dir p))"

definition make_dirs_ok :: "path \<Rightarrow> unit io" where
  "make_dirs_ok p = seqIO (eachIO make_missing (butlast (prefixes p))) (on_tree (make_dir_ok p))"

text \<open>\<open>shutil.rmtree\<close>\<close>

definition remove_tree :: "path \<Rightarrow> unit io" where
  "remove_tree p = bindIO tree_of (\<lambda>t. eachIO (\<lambda>q. on_tree (remove_entry q)) (removal_order p t))"

end
