(* ===== verification/SaveModels.thy ===== *)
theory SaveModels
  imports SaveContainers
begin

text \<open>
  The SaveSync domain model (\<open>core/models/savesync.py\<close>): artifacts, previews, reconciliation plans and
  reports, and the durable state of groups, conflicts and operations.
\<close>

subsection \<open>Artifacts and previews\<close>

record save_artifact =
  art_path :: string
  art_size :: int
  art_hash :: string

type_synonym manifest = "(string \<times> save_artifact) list"

datatype change_kind = ADDED | CHANGED | REMOVED | UNCHANGED_FILE

record diff_entry =
  de_path :: string
  de_change :: change_kind
  de_local :: "save_artifact option"
  de_remote :: "save_artifact option"
  de_conflict :: bool

datatype direction = Upload | Download

record save_diff =
  df_direction :: direction
  df_entries :: "diff_entry list"
  df_excluded_files :: int
  df_excluded_bytes :: int
  df_optional :: "(string \<times> int \<times> int) list"

definition by_kind :: "change_kind \<Rightarrow> save_diff \<Rightarrow> diff_entry list" where
  "by_kind kind d = filter (\<lambda>e. de_change e = kind) (df_entries d)"

definition diff_conflicts :: "save_diff \<Rightarrow> diff_entry list" where
  "diff_conflicts d = filter de_conflict (df_entries d)"

definition size_or_zero :: "save_artifact option \<Rightarrow> int" where
  "size_or_zero a = (case a of None \<Rightarrow> 0 | Some x \<Rightarrow> art_size x)"

definition transfer_bytes :: "save_diff \<Rightarrow> int" where
  "transfer_bytes d = sum_list (map (\<lambda>e.
     if de_change e \<in> {ADDED, CHANGED} then size_or_zero (if df_direction d = Upload then de_local e else de_remote e) else 0)
     (df_entries d))"

subsection \<open>Reconciliation\<close>

datatype reconcile_action = UPLOAD | DOWNLOAD | BOTH_CHANGED | UNCHANGED

record reconcile_entry =
  re_path :: string
  re_action :: reconcile_action
  re_local :: "save_artifact option"
  re_remote :: "save_artifact option"
  re_baseline :: "save_artifact option"

record save_plan =
  sp_entries :: "reconcile_entry list"
  sp_excluded_files :: int
  sp_excluded_bytes :: int
  sp_optional :: "(string \<times> int \<times> int) list"
  sp_scope :: string

definition by_action :: "reconcile_action \<Rightarrow> save_plan \<Rightarrow> reconcile_entry list" where
  "by_action a p = filter (\<lambda>e. re_action e = a) (sp_entries p)"

definition upload_bytes :: "save_plan \<Rightarrow> int" where
  "upload_bytes p = sum_list (map (size_or_zero \<circ> re_local) (by_action UPLOAD p))"

definition download_bytes :: "save_plan \<Rightarrow> int" where
  "download_bytes p = sum_list (map (size_or_zero \<circ> re_remote) (by_action DOWNLOAD p))"

record reconcile_report =
  rr_revision :: string
  rr_timestamp :: string
  rr_uploaded :: int
  rr_downloaded :: int
  rr_conflicts :: int
  rr_unchanged :: int
  rr_upload_bytes :: int
  rr_download_bytes :: int
  rr_conflict_paths :: "string list"
  rr_scope :: string
  rr_bootstrap :: bool

record sync_record =
  sr_revision :: string
  sr_timestamp :: string
  sr_device :: string
  sr_manifest :: "save_artifact list"

definition artifact_count :: "sync_record \<Rightarrow> int" where
  "artifact_count r = int (length (sr_manifest r))"

definition total_bytes :: "sync_record \<Rightarrow> int" where
  "total_bytes r = sum_list (map art_size (sr_manifest r))"

subsection \<open>Groups and conflicts\<close>

datatype condition = CLEAN | LOCAL_DIRTY | REMOTE_DIRTY | CONFLICTED

datatype availability = NOT_CHECKED | AVAILABLE | UNAVAILABLE

datatype sync_status =
  STATUS_CLEAN | STATUS_LOCAL_DIRTY | STATUS_REMOTE_DIRTY | STATUS_CONFLICT | STATUS_SYNCING
  | STATUS_REMOTE_UNAVAILABLE | STATUS_ERROR

datatype resolution = KEEP_LOCAL | KEEP_REMOTE | MANUAL

record group_snapshot =
  gs_group :: string
  gs_layout :: string
  gs_artifacts :: "save_artifact list"
  gs_observed :: "string option"

record group_state =
  gr_group :: string
  gr_layout :: string
  gr_condition :: condition
  gr_baseline :: "group_snapshot option"
  gr_local :: "group_snapshot option"
  gr_remote :: "group_snapshot option"
  gr_hints :: "string list"
  gr_verified :: "string option"

record conflict_record =
  cr_id :: string
  cr_group :: string
  cr_layout :: string
  cr_detected :: string
  cr_last_seen :: string
  cr_baseline :: "group_snapshot option"
  cr_local :: group_snapshot
  cr_remote :: group_snapshot
  cr_acknowledged :: "string option"
  cr_resolved :: "string option"
  cr_resolution :: "resolution option"
  cr_revision :: "string option"

definition acknowledged :: "conflict_record \<Rightarrow> bool" where
  "acknowledged c \<longleftrightarrow> cr_acknowledged c \<noteq> None"

definition resolved :: "conflict_record \<Rightarrow> bool" where
  "resolved c \<longleftrightarrow> cr_resolved c \<noteq> None"

subsection \<open>The durable state\<close>

record remote_observation =
  ro_availability :: availability
  ro_checked :: "string option"
  ro_detail :: string

record active_operation =
  ao_id :: string
  ao_direction :: string
  ao_phase :: string
  ao_started :: string
  ao_groups :: "string list"

record last_error =
  er_code :: string
  er_message :: string
  er_occurred :: string
  er_operation :: "string option"

record sync_state =
  sy_device :: string
  sy_upload :: "sync_record option"
  sy_download :: "sync_record option"
  sy_shared :: "save_artifact list"
  sy_reconcile :: "reconcile_report option"
  sy_groups :: "group_state list"
  sy_conflicts :: "conflict_record list"
  sy_containers :: "container_baseline list"
  sy_remote :: remote_observation
  sy_active :: "active_operation option"
  sy_error :: "last_error option"
  sy_completed :: "string option"
  sy_cursor :: "int option"
  sy_ready :: bool

definition active_conflicts :: "sync_state \<Rightarrow> conflict_record list" where
  "active_conflicts s = filter (\<lambda>c. \<not> resolved c) (sy_conflicts s)"

definition in_condition :: "condition \<Rightarrow> sync_state \<Rightarrow> bool" where
  "in_condition k s \<longleftrightarrow> (\<exists>g \<in> set (sy_groups s). gr_condition g = k)"

definition effective_status :: "sync_state \<Rightarrow> sync_status" where
  "effective_status s =
     (if sy_error s \<noteq> None then STATUS_ERROR
      else if sy_active s \<noteq> None then STATUS_SYNCING
      else if active_conflicts s \<noteq> [] \<or> in_condition CONFLICTED s then STATUS_CONFLICT
      else if in_condition LOCAL_DIRTY s then STATUS_LOCAL_DIRTY
      else if in_condition REMOTE_DIRTY s then STATUS_REMOTE_DIRTY
      else if ro_availability (sy_remote s) = UNAVAILABLE then STATUS_REMOTE_UNAVAILABLE
      else STATUS_CLEAN)"

end
