(* ===== verification/SaveTransaction.thy ===== *)
theory SaveTransaction
  imports SaveDisk SaveModels
begin

text \<open>
  Selected SaveSync transactions (\<open>infrastructure/save_transaction.py\<close>): staging and backing up the
  changed artifacts of each destination view, the recovery journal, promotion, rollback, finalization and
  recovery after an interruption, over the disk of \<open>SaveDisk\<close>.

  The journal is written by one atomic replacement; its creation is an exclusive creation followed by
  the write of its text.  The scans \<open>verify_current\<close> and \<open>verify_desired\<close> of the callers are parameters.
\<close>

subsection \<open>Views\<close>

record selected_view =
  sv_root :: path
  sv_current :: manifest
  sv_desired :: manifest
  sv_source :: "string \<Rightarrow> save_artifact \<Rightarrow> path"
  sv_group :: "(string \<Rightarrow> string option) option"

record prepared_view =
  pv_root :: path
  pv_stage :: path
  pv_previous :: path
  pv_candidate :: path
  pv_current :: manifest
  pv_desired :: manifest
  pv_verify_current :: manifest
  pv_verify_desired :: manifest
  pv_groups :: "(string \<times> string) list"

record restore_action =
  ra_relative :: string
  ra_original :: "save_artifact option"

record transaction_metrics =
  tm_changed_files :: int
  tm_staged_files :: int
  tm_staged_bytes :: int
  tm_backed_up_files :: int
  tm_backed_up_bytes :: int
  tm_views :: int

definition duplicated_files :: "transaction_metrics \<Rightarrow> int" where
  "duplicated_files m = tm_staged_files m + tm_backed_up_files m"

definition duplicated_bytes :: "transaction_metrics \<Rightarrow> int" where
  "duplicated_bytes m = tm_staged_bytes m + tm_backed_up_bytes m"

record transaction =
  tx_id :: string
  tx_views :: "prepared_view list"
  tx_metrics :: transaction_metrics

subsection \<open>Manifests\<close>

definition same_artifact :: "save_artifact option \<Rightarrow> save_artifact option \<Rightarrow> bool" where
  "same_artifact left right =
     (case (left, right) of
        (Some a, Some b) \<Rightarrow> art_size a = art_size b \<and> art_hash a = art_hash b
      | (None, None) \<Rightarrow> True
      | _ \<Rightarrow> False)"

definition all_paths :: "manifest \<Rightarrow> manifest \<Rightarrow> string list" where
  "all_paths current desired = sort (remdups (map fst current @ map fst desired))"

definition changed_paths :: "manifest \<Rightarrow> manifest \<Rightarrow> string list" where
  "changed_paths current desired =
     filter (\<lambda>p. \<not> same_artifact (map_of current p) (map_of desired p)) (all_paths current desired)"

definition crop :: "string list \<Rightarrow> manifest \<Rightarrow> manifest" where
  "crop changed m = map (\<lambda>p. (p, the (map_of m p))) (filter (\<lambda>p. map_of m p \<noteq> None) changed)"

definition transaction_metrics_of :: "prepared_view list \<Rightarrow> transaction_metrics" where
  "transaction_metrics_of views =
     \<lparr>tm_changed_files = sum_list (map (\<lambda>v. int (length (all_paths (pv_current v) (pv_desired v)))) views),
      tm_staged_files = sum_list (map (\<lambda>v. int (length (pv_desired v))) views),
      tm_staged_bytes = sum_list (map (\<lambda>v. sum_list (map (art_size \<circ> snd) (pv_desired v))) views),
      tm_backed_up_files = sum_list (map (\<lambda>v. int (length (pv_current v))) views),
      tm_backed_up_bytes = sum_list (map (\<lambda>v. sum_list (map (art_size \<circ> snd) (pv_current v))) views),
      tm_views = int (length views)\<rparr>"

text \<open>A drive letter and a colon.\<close>

definition is_drive :: "string \<Rightarrow> bool" where
  "is_drive s = (case s of [c, d] \<Rightarrow> d = CHR '':'' \<and>
     (let n = (of_char c :: nat) in 65 \<le> n \<and> n \<le> 90 \<or> 97 \<le> n \<and> n \<le> 122) | _ \<Rightarrow> False)"

definition canonical_relative_parts :: "string \<Rightarrow> tx_error + path" where
  "canonical_relative_parts relative =
     (if relative = [] \<or> CHR 0x5C \<in> set relative \<or> CHR 0x00 \<in> set relative \<or> startswith relative ''/''
      then Inl SyncError
      else let parts = path_parts relative
           in if is_absolute relative \<or> parts = [] \<or> as_posix relative \<noteq> relative
                 \<or> (\<exists>part \<in> set parts. part \<in> {'''', ''.'', ''..''}) \<or> is_drive (hd parts)
              then Inl SyncError else Inr parts)"

definition is_sha256 :: "string \<Rightarrow> bool" where
  "is_sha256 s \<longleftrightarrow> length s = 64 \<and> list_all (\<lambda>c. let n = (of_char c :: nat)
     in 48 \<le> n \<and> n \<le> 57 \<or> 65 \<le> n \<and> n \<le> 70 \<or> 97 \<le> n \<and> n \<le> 102) s"

definition is_operation_id :: "string \<Rightarrow> bool" where
  "is_operation_id s \<longleftrightarrow> length s = 32 \<and> list_all (\<lambda>c. let n = (of_char c :: nat)
     in 48 \<le> n \<and> n \<le> 57 \<or> 65 \<le> n \<and> n \<le> 70 \<or> 97 \<le> n \<and> n \<le> 102) s"

definition validate_entry_of :: "string \<times> save_artifact \<Rightarrow> tx_error + unit" where
  "validate_entry_of = (\<lambda>(relative, a).
     bindE (canonical_relative_parts relative) (\<lambda>_.
     if art_path a \<noteq> relative \<or> art_size a < 0 \<or> \<not> is_sha256 (art_hash a) then Inl SyncError else Inr ()))"

definition validate_manifest :: "manifest \<Rightarrow> tx_error + unit" where
  "validate_manifest m = bindE (mapE validate_entry_of m) (\<lambda>_. Inr ())"

subsection \<open>Roots and targets\<close>

definition validated_root :: "tree \<Rightarrow> path \<Rightarrow> tx_error + path" where
  "validated_root t root =
     (if root = [] \<or> (\<exists>cursor \<in> set (prefixes root). is_link t cursor \<or> (present t cursor \<and> \<not> is_dir t cursor))
      then Inl SyncError else Inr root)"

definition distinct_root :: "path \<Rightarrow> path list \<Rightarrow> tx_error + unit" where
  "distinct_root root prior =
     (if \<exists>other \<in> set prior. prefix other root \<or> prefix root other then Inl SyncError else Inr ())"

text \<open>One parent of the target.\<close>

definition parent_step :: "bool \<Rightarrow> path \<Rightarrow> unit io" where
  "parent_step create_parents cursor = bindIO tree_of (\<lambda>t.
     if is_link t cursor \<or> (present t cursor \<and> \<not> is_dir t cursor) then raise SyncError
     else if create_parents then on_tree (make_dir_ok cursor) else ret ())"

definition safe_target :: "path \<Rightarrow> string \<Rightarrow> bool \<Rightarrow> path io" where
  "safe_target root relative create_parents =
     bindIO (lift (canonical_relative_parts relative)) (\<lambda>parts.
     bindIO tree_of (\<lambda>t.
     bindIO (lift (validated_root t root)) (\<lambda>root.
     seqIO (if create_parents then make_dirs_ok root else ret ())
     (seqIO (eachIO (parent_step create_parents) (map ((@) root) (tl (prefixes (butlast parts)))))
     (ret (root @ parts))))))"

subsection \<open>Verification\<close>

definition matches :: "byte list \<Rightarrow> save_artifact \<Rightarrow> bool" where
  "matches b a \<longleftrightarrow> int (length b) = art_size a \<and> sha256_hex b = art_hash a"

definition verify_one :: "path \<Rightarrow> save_artifact \<Rightarrow> unit io" where
  "verify_one p a = seqIO read_disk (bindIO tree_of (\<lambda>t.
     case content t p of None \<Rightarrow> raise VerificationError
     | Some b \<Rightarrow> check (matches b a) VerificationError))"

definition verify_manifest :: "path \<Rightarrow> manifest \<Rightarrow> unit io" where
  "verify_manifest root m = eachIO (\<lambda>(relative, a). bindIO (safe_target root relative False) (\<lambda>p. verify_one p a)) m"

text \<open>An \<open>OSError\<close> while the file is read makes it a mismatch.\<close>

definition path_matches :: "path \<Rightarrow> save_artifact option \<Rightarrow> bool io" where
  "path_matches p expected = bindIO tree_of (\<lambda>t.
     case expected of
       None \<Rightarrow> ret (\<not> present t p)
     | Some a \<Rightarrow> (case content t p of None \<Rightarrow> ret False
                 | Some b \<Rightarrow> catchIO (seqIO read_disk (ret (matches b a))) (\<lambda>_. ret False)))"

text \<open>The files under an owned directory are exactly those of a manifest.\<close>

definition verify_owned_exact :: "path \<Rightarrow> manifest \<Rightarrow> unit io" where
  "verify_owned_exact root m = bindIO tree_of (\<lambda>t.
     bindIO (lift (validated_root t root)) (\<lambda>root.
     if \<not> is_dir t root then raise VerificationError
     else if \<exists>(p, n) \<in> set (below root t). n = Link then raise VerificationError
     else if join ''/'' ` drop (length root) ` fst ` set (filter (\<lambda>(p, n). n \<noteq> Directory) (below root t)) \<noteq> fst ` set m
     then raise VerificationError
     else verify_manifest root m))"

subsection \<open>Copies and owned trees\<close>

definition CHUNK :: nat where "CHUNK = 1048576"

function chunks :: "byte list \<Rightarrow> byte list list" where
  "chunks b = (if b = [] then [] else take CHUNK b # chunks (drop CHUNK b))"
  by pat_completeness auto
termination by (relation "measure length") (auto simp: CHUNK_def)

declare chunks.simps [simp del]

definition materialize :: "path \<Rightarrow> path \<Rightarrow> unit io" where
  "materialize dest fresh_source =
     seqIO (make_dirs_ok (butlast dest))
     (seqIO (on_tree (unlink dest))
     (seqIO read_disk
     (bindIO tree_of (\<lambda>t.
       case content t fresh_source of
         None \<Rightarrow> raise OsFailure
       | Some b \<Rightarrow> seqIO (on_tree (create_file dest))
           (seqIO (eachIO (\<lambda>chunk. on_tree (append_file dest chunk)) (chunks b)) read_disk)))))"

definition fsync_file :: "path \<Rightarrow> unit io" where
  "fsync_file p = bindIO tree_of (\<lambda>t. if content t p = None then raise VerificationError else read_disk)"

definition fsync_tree :: "path \<Rightarrow> unit io" where
  "fsync_tree root = bindIO tree_of (\<lambda>t.
     bindIO (lift (validated_root t root)) (\<lambda>root.
     if \<exists>(p, n) \<in> set (below root t). n = Link then raise SyncError
     else eachIO fsync_file (map fst (filter (\<lambda>(p, n). n \<noteq> Directory) (below root t)))))"

definition remove_owned_tree :: "path \<Rightarrow> unit io" where
  "remove_owned_tree p = bindIO tree_of (\<lambda>t.
     if is_link t p then raise SyncError
     else if \<not> present t p then ret ()
     else if \<not> is_dir t p then raise SyncError
     else remove_tree p)"

definition materialize_manifest :: "path \<Rightarrow> manifest \<Rightarrow> (string \<Rightarrow> save_artifact \<Rightarrow> path) \<Rightarrow> unit io" where
  "materialize_manifest root m source_for = eachIO (\<lambda>(relative, a).
     bindIO (safe_target root relative True) (\<lambda>destination.
     seqIO (verify_one (source_for relative a) a) (materialize destination (source_for relative a)))) (sort_key fst m)"

subsection \<open>The journal\<close>

text \<open>\<open>str(path)\<close> of an absolute path, and the text that is the absolute path it names.\<close>

definition path_text :: "path \<Rightarrow> string" where
  "path_text p = ''/'' @ join ''/'' p"

definition journal_absolute_path :: "json \<Rightarrow> tx_error + path" where
  "journal_absolute_path raw =
     (case raw of
        JStr s \<Rightarrow> (if s \<noteq> [] \<and> is_absolute s \<and> path_text (tail_parts s) = s \<and> ''..'' \<notin> set (tail_parts s)
                   then Inr (tail_parts s) else Inl SyncError)
      | _ \<Rightarrow> Inl SyncError)"

definition path_base :: "path \<Rightarrow> string" where
  "path_base p = (if p = [] then [] else last p)"

definition stage_path :: "path \<Rightarrow> string \<Rightarrow> path" where
  "stage_path root op = butlast root @ [''.'' @ path_base root @ ''.savesync-stage-'' @ op]"

definition candidate_path :: "path \<Rightarrow> string \<Rightarrow> path" where
  "candidate_path root op = butlast root @ [''.'' @ path_base root @ ''.savesync-previous-'' @ op]"

definition previous_path :: "path \<Rightarrow> path" where
  "previous_path root = butlast root @ [path_base root @ ''.savesync-previous'']"

datatype phase = Preparing | Prepared | Applying | Promoted

fun phase_text :: "phase \<Rightarrow> string" where
  "phase_text Preparing = ''preparing''"
| "phase_text Prepared = ''prepared''"
| "phase_text Applying = ''applying''"
| "phase_text Promoted = ''promoted''"

definition phase_of :: "json \<Rightarrow> tx_error + phase" where
  "phase_of j =
     (case j of
        JStr s \<Rightarrow> (if s = ''preparing'' then Inr Preparing else if s = ''prepared'' then Inr Prepared
                   else if s = ''applying'' then Inr Applying else if s = ''promoted'' then Inr Promoted else Inl SyncError)
      | _ \<Rightarrow> Inl SyncError)"

definition artifact_dict :: "save_artifact \<Rightarrow> json" where
  "artifact_dict a = JObj [(''relative_path'', JStr (art_path a)), (''size_bytes'', JInt (art_size a)),
     (''content_hash'', JStr (art_hash a))]"

definition manifest_dict :: "manifest \<Rightarrow> json" where
  "manifest_dict m = JArr (map artifact_dict (sorted_values m))"

definition view_dict :: "prepared_view \<Rightarrow> json" where
  "view_dict v = JObj [(''root'', JStr (path_text (pv_root v))), (''stage'', JStr (path_text (pv_stage v))),
     (''previous'', JStr (path_text (pv_previous v))), (''previous_candidate'', JStr (path_text (pv_candidate v))),
     (''current'', manifest_dict (pv_current v)), (''desired'', manifest_dict (pv_desired v)),
     (''logical_groups'', JObj (map (\<lambda>(k, g). (k, JStr g)) (pv_groups v)))]"

definition journal_payload :: "transaction \<Rightarrow> phase \<Rightarrow> json" where
  "journal_payload tx p = JObj [(''version'', JInt 2), (''operation_id'', JStr (tx_id tx)), (''phase'', JStr (phase_text p)),
     (''views'', JArr (map view_dict (tx_views tx)))]"

text \<open>The file an exclusive creation leaves before its text is written.\<close>

definition empty_doc :: doc where
  "empty_doc = \<lparr>doc_text = Text [], doc_json = None\<rparr>"

definition durable_unlink :: "unit io" where
  "durable_unlink = bindIO state_of (\<lambda>s.
     case st_journal s of
       NoJournal \<Rightarrow> ret ()
     | OddJournal \<Rightarrow> raise SyncError
     | JournalFile _ \<Rightarrow> act (\<lambda>s. Some (s\<lparr>st_journal := NoJournal\<rparr>)))"

definition create_journal :: "transaction \<Rightarrow> phase \<Rightarrow> unit io" where
  "create_journal tx p =
     bindIO state_of (\<lambda>s. if st_journal s \<noteq> NoJournal then raise SyncError
     else seqIO (act (\<lambda>s. Some (s\<lparr>st_journal := JournalFile empty_doc\<rparr>)))
       (catchIO (act (\<lambda>s. Some (s\<lparr>st_journal := JournalFile (written (journal_payload tx p))\<rparr>)))
         (\<lambda>e. seqIO (catchIO (act (\<lambda>s. Some (s\<lparr>st_journal := NoJournal\<rparr>))) (\<lambda>_. ret ())) (raise e))))"

definition owned_journal :: "string \<Rightarrow> journal_file \<Rightarrow> bool" where
  "owned_journal op j =
     (case j of
        JournalFile d \<Rightarrow> (case doc_json d of Some (JObj members) \<Rightarrow> jget members ''operation_id'' = JStr op | _ \<Rightarrow> False)
      | _ \<Rightarrow> False)"

definition write_journal :: "transaction \<Rightarrow> phase \<Rightarrow> unit io" where
  "write_journal tx p = seqIO (catchIO read_disk (\<lambda>_. raise SyncError)) (bindIO state_of (\<lambda>s.
     if \<not> owned_journal (tx_id tx) (st_journal s) then raise SyncError
     else act (\<lambda>s. Some (s\<lparr>st_journal := JournalFile (written (journal_payload tx p))\<rparr>))))"

definition artifact_of :: "json \<Rightarrow> manifest \<Rightarrow> tx_error + manifest" where
  "artifact_of raw result =
     (case raw of
        JObj d \<Rightarrow>
          (if fst ` set d \<noteq> {''relative_path'', ''size_bytes'', ''content_hash''} then Inl SyncError
           else (case (jget d ''relative_path'', jget d ''size_bytes'', jget d ''content_hash'') of
               (JStr relative, JInt n, JStr digest) \<Rightarrow>
                 if relative \<in> fst ` set result then Inl SyncError
                 else Inr (AList.update relative \<lparr>art_path = relative, art_size = n, art_hash = digest\<rparr> result)
             | _ \<Rightarrow> Inl SyncError))
      | _ \<Rightarrow> Inl SyncError)"

definition manifest_from :: "json \<Rightarrow> tx_error + manifest" where
  "manifest_from payload =
     (case payload of
        JArr items \<Rightarrow> bindE (foldE artifact_of items []) (\<lambda>m. bindE (validate_manifest m) (\<lambda>_. Inr m))
      | _ \<Rightarrow> Inl SyncError)"

definition groups_from :: "string list \<Rightarrow> json \<Rightarrow> tx_error + (string \<times> string) list" where
  "groups_from relatives raw =
     (case raw of
        JObj d \<Rightarrow> mapE (\<lambda>(relative, g). case g of
            JStr label \<Rightarrow> if relative \<in> set relatives \<and> label \<noteq> [] then Inr (relative, label) else Inl SyncError
          | _ \<Rightarrow> Inl SyncError) d
      | _ \<Rightarrow> Inl SyncError)"

definition view_fields :: "int \<Rightarrow> string list" where
  "view_fields version = [''root'', ''stage'', ''previous'', ''previous_candidate'', ''current'', ''desired'']
     @ (if version = 2 then [''logical_groups''] else [])"

definition view_from :: "tree \<Rightarrow> path list \<Rightarrow> int \<Rightarrow> string \<Rightarrow> json \<Rightarrow> prepared_view list \<Rightarrow> tx_error + prepared_view list" where
  "view_from t allowed version op raw views =
     (case raw of
        JObj d \<Rightarrow>
          (if fst ` set d \<noteq> set (view_fields version) then Inl SyncError
           else bindE (journal_absolute_path (jget d ''root'')) (\<lambda>root.
             bindE (validated_root t root) (\<lambda>root.
             bindE (distinct_root root (map pv_root views)) (\<lambda>_.
             if root \<notin> set allowed then Inl SyncError
             else bindE (journal_absolute_path (jget d ''stage'')) (\<lambda>stage.
               bindE (journal_absolute_path (jget d ''previous'')) (\<lambda>previous.
               bindE (journal_absolute_path (jget d ''previous_candidate'')) (\<lambda>candidate.
               if stage \<noteq> stage_path root op \<or> previous \<noteq> previous_path root \<or> candidate \<noteq> candidate_path root op
               then Inl SyncError
               else bindE (manifest_from (jget d ''current'')) (\<lambda>current.
                 bindE (manifest_from (jget d ''desired'')) (\<lambda>desired.
                 bindE (groups_from (map fst current @ map fst desired)
                     (if ''logical_groups'' \<in> fst ` set d then jget d ''logical_groups'' else JObj [])) (\<lambda>groups.
                 Inr (views @ [\<lparr>pv_root = root, pv_stage = stage, pv_previous = previous, pv_candidate = candidate,
                   pv_current = current, pv_desired = desired, pv_verify_current = current,
                   pv_verify_desired = desired, pv_groups = groups\<rparr>])))))))))))
      | _ \<Rightarrow> Inl SyncError)"

definition transaction_from :: "tree \<Rightarrow> path list \<Rightarrow> json \<Rightarrow> tx_error + transaction \<times> phase" where
  "transaction_from t allowed_roots payload =
     bindE (mapE (validated_root t) allowed_roots) (\<lambda>allowed.
     case payload of
       JObj d \<Rightarrow>
         (if fst ` set d \<noteq> {''version'', ''operation_id'', ''phase'', ''views''} then Inl SyncError
          else (case jget d ''version'' of
              JInt version \<Rightarrow>
                (if version \<notin> {1, 2} then Inl SyncError
                 else (case jget d ''operation_id'' of
                     JStr op \<Rightarrow>
                       (if \<not> is_operation_id op then Inl SyncError
                        else bindE (phase_of (jget d ''phase'')) (\<lambda>p.
                          case jget d ''views'' of
                            JArr raws \<Rightarrow>
                              (if raws = [] then Inl SyncError
                               else bindE (foldE (view_from t allowed version op) raws []) (\<lambda>views.
                                 Inr (\<lparr>tx_id = op, tx_views = views, tx_metrics = transaction_metrics_of views\<rparr>, p)))
                          | _ \<Rightarrow> Inl SyncError))
                   | _ \<Rightarrow> Inl SyncError))
            | _ \<Rightarrow> Inl SyncError))
     | _ \<Rightarrow> Inl SyncError)"

text \<open>What goes wrong while the journal is read is one error; a new process starts from what it holds.\<close>

definition read_journal :: "path list \<Rightarrow> (transaction \<times> phase) io" where
  "read_journal allowed_roots = catchIO
     (seqIO read_disk (bindIO state_of (\<lambda>s.
       case st_journal s of
         JournalFile d \<Rightarrow>
           (case doc_json d of
              None \<Rightarrow> raise SyncError
            | Some payload \<Rightarrow>
                bindIO (lift (transaction_from (st_tree s) allowed_roots payload)) (\<lambda>(tx, p).
                seqIO (set_memory (\<lambda>s. s\<lparr>st_touched := p \<in> {Applying, Promoted}, st_finished := False\<rparr>))
                  (ret (tx, p))))
       | _ \<Rightarrow> raise SyncError)))
     (\<lambda>_. raise SyncError)"

subsection \<open>Rollback\<close>

definition remove_stages :: "bool \<Rightarrow> transaction \<Rightarrow> unit io" where
  "remove_stages remove_journal tx = eachIO (\<lambda>v. seqIO (remove_owned_tree (pv_stage v))
     (if remove_journal then remove_owned_tree (pv_candidate v) else ret ())) (tx_views tx)"

definition cleanup :: "bool \<Rightarrow> transaction \<Rightarrow> unit io" where
  "cleanup remove_journal tx = seqIO (remove_stages remove_journal tx) (if remove_journal then durable_unlink else ret ())"

definition view_changes :: "prepared_view \<Rightarrow> string list" where
  "view_changes v = changed_paths (pv_current v) (pv_desired v)"

definition plan_path :: "prepared_view \<Rightarrow> string \<Rightarrow> restore_action list io" where
  "plan_path v relative =
     (let original = map_of (pv_current v) relative
      in bindIO (safe_target (pv_root v) relative False) (\<lambda>target.
         bindIO (path_matches target original) (\<lambda>matches_original.
         bindIO (path_matches target (map_of (pv_desired v) relative)) (\<lambda>matches_desired.
         if matches_original then ret []
         else if \<not> matches_desired then raise SyncError
         else seqIO (case original of
                       None \<Rightarrow> ret ()
                     | Some a \<Rightarrow> bindIO (safe_target (pv_candidate v) relative False) (\<lambda>source. verify_one source a))
                (ret [\<lparr>ra_relative = relative, ra_original = original\<rparr>])))))"

definition plan_restore :: "prepared_view \<Rightarrow> restore_action list io" where
  "plan_restore v = bindIO (collectIO (plan_path v) (view_changes v)) (\<lambda>plans. ret (concat plans))"

definition restore_tmp_path :: "string \<Rightarrow> path \<Rightarrow> path" where
  "restore_tmp_path op target = butlast target @ [''.'' @ path_base target @ ''.savesync-restore-'' @ op]"

definition restore_path :: "prepared_view \<Rightarrow> string \<Rightarrow> restore_action \<Rightarrow> unit io" where
  "restore_path v op action =
     bindIO (safe_target (pv_root v) (ra_relative action) True) (\<lambda>target.
     case ra_original action of
       None \<Rightarrow> on_tree (unlink target)
     | Some original \<Rightarrow>
         bindIO (safe_target (pv_candidate v) (ra_relative action) False) (\<lambda>source.
         let restore_tmp = restore_tmp_path op target
         in finallyIO
              (seqIO (materialize restore_tmp source)
              (seqIO (verify_one restore_tmp original)
              (seqIO (fsync_file restore_tmp)
                     (on_tree (replace_file restore_tmp target)))))
              (on_tree (unlink restore_tmp))))"

definition fsync_changed :: "prepared_view \<Rightarrow> unit io" where
  "fsync_changed v = eachIO (\<lambda>relative.
     bindIO (safe_target (pv_root v) relative False) (\<lambda>target.
     bindIO tree_of (\<lambda>t. if content t target \<noteq> None then fsync_file target else ret ()))) (view_changes v)"

definition restored_path :: "prepared_view \<Rightarrow> string \<Rightarrow> unit io" where
  "restored_path v relative = bindIO (safe_target (pv_root v) relative False) (\<lambda>target.
     bindIO (path_matches target (map_of (pv_current v) relative)) (\<lambda>b. check b VerificationError))"

definition restore_view :: "string \<Rightarrow> prepared_view \<times> restore_action list \<Rightarrow> unit io" where
  "restore_view op = (\<lambda>(v, actions).
     seqIO (eachIO (restore_path v op) actions)
     (seqIO (verify_manifest (pv_root v) (pv_current v))
     (seqIO (eachIO (restored_path v) (view_changes v)) (fsync_changed v))))"

text \<open>Every view is attempted; whether one failed decides the outcome.\<close>

definition restore_step :: "string \<Rightarrow> prepared_view \<times> restore_action list \<Rightarrow> bool io" where
  "restore_step op plan = catchIO (seqIO (restore_view op plan) (ret True)) (\<lambda>_. ret False)"

definition set_finished :: "unit io" where
  "set_finished = set_memory (\<lambda>s. s\<lparr>st_finished := True\<rparr>)"

definition rollback :: "transaction \<Rightarrow> unit io" where
  "rollback tx = bindIO state_of (\<lambda>s.
     if st_finished s then ret ()
     else if \<not> st_touched s then seqIO (cleanup True tx) set_finished
     else bindIO (catchIO (collectIO (\<lambda>v. bindIO (plan_restore v) (\<lambda>plan. ret (v, plan))) (rev (tx_views tx)))
              (\<lambda>_. raise SyncError)) (\<lambda>plans.
          bindIO (collectIO (restore_step (tx_id tx)) plans) (\<lambda>restored.
          if \<forall>b \<in> set restored. b then seqIO (cleanup True tx) set_finished else raise SyncError)))"

subsection \<open>Finalization and recovery\<close>

definition validate_finalize_snapshot :: "prepared_view \<Rightarrow> unit io" where
  "validate_finalize_snapshot v = bindIO tree_of (\<lambda>t.
     if present t (pv_candidate v) then verify_owned_exact (pv_candidate v) (pv_current v)
     else verify_owned_exact (pv_previous v) (pv_current v))"

definition install_previous :: "prepared_view \<Rightarrow> unit io" where
  "install_previous v = bindIO tree_of (\<lambda>t.
     if \<not> present t (pv_candidate v) then verify_owned_exact (pv_previous v) (pv_current v)
     else seqIO (verify_owned_exact (pv_candidate v) (pv_current v))
       (seqIO (if present t (pv_previous v) then remove_owned_tree (pv_previous v) else ret ())
       (seqIO (on_tree (replace_dir (pv_candidate v) (pv_previous v)))
              (verify_owned_exact (pv_previous v) (pv_current v)))))"

definition finalize :: "transaction \<Rightarrow> unit io" where
  "finalize tx = bindIO state_of (\<lambda>s.
     if st_finished s then ret ()
     else seqIO (eachIO validate_finalize_snapshot (tx_views tx))
       (seqIO (eachIO install_previous (tx_views tx))
       (seqIO (cleanup True tx) set_finished)))"

definition recover_transaction :: "path list \<Rightarrow> string option \<Rightarrow> bool io" where
  "recover_transaction allowed_roots completed_operation_id = bindIO state_of (\<lambda>s.
     if st_journal s = NoJournal then ret False
     else bindIO (read_journal allowed_roots) (\<lambda>(tx, p).
       if p = Promoted \<and> completed_operation_id = Some (tx_id tx)
       then seqIO (finalize tx) (ret True)
       else seqIO (rollback tx) (ret True)))"

subsection \<open>Preparation\<close>

definition prepared_groups :: "selected_view \<Rightarrow> string list \<Rightarrow> (string \<times> string) list" where
  "prepared_groups raw relatives =
     (case sv_group raw of
        None \<Rightarrow> []
      | Some group_for \<Rightarrow> map (\<lambda>r. (r, the (group_for r))) (filter (\<lambda>r. group_for r \<noteq> None) relatives))"

definition prepared_view_of :: "string \<Rightarrow> selected_view \<Rightarrow> prepared_view" where
  "prepared_view_of op raw =
     (let changed = changed_paths (sv_current raw) (sv_desired raw);
          current = crop changed (sv_current raw); desired = crop changed (sv_desired raw)
      in \<lparr>pv_root = sv_root raw, pv_stage = stage_path (sv_root raw) op, pv_previous = previous_path (sv_root raw),
          pv_candidate = candidate_path (sv_root raw) op, pv_current = current, pv_desired = desired,
          pv_verify_current = sv_current raw, pv_verify_desired = sv_desired raw,
          pv_groups = prepared_groups raw (all_paths current desired)\<rparr>)"

definition select_step :: "tree \<Rightarrow> string \<Rightarrow> selected_view \<Rightarrow> path list \<times> (selected_view \<times> prepared_view) list
    \<Rightarrow> tx_error + path list \<times> (selected_view \<times> prepared_view) list" where
  "select_step t op raw = (\<lambda>(seen, prepared).
     bindE (validated_root t (sv_root raw)) (\<lambda>root.
     bindE (distinct_root root seen) (\<lambda>_.
     bindE (validate_manifest (sv_current raw)) (\<lambda>_.
     bindE (validate_manifest (sv_desired raw)) (\<lambda>_.
     if changed_paths (sv_current raw) (sv_desired raw) = [] then Inr (seen @ [root], prepared)
     else let v = prepared_view_of op raw
          in if present t (pv_stage v) \<or> present t (pv_candidate v) then Inl SyncError
             else Inr (seen @ [root], prepared @ [(raw, v)]))))))"

definition make_owned :: "path \<Rightarrow> unit io" where
  "make_owned p = seqIO (make_dirs p) (set_memory (\<lambda>s. s\<lparr>st_created := st_created s @ [p]\<rparr>))"

definition stage_view :: "selected_view \<times> prepared_view \<Rightarrow> unit io" where
  "stage_view = (\<lambda>(raw, v).
     seqIO (make_owned (pv_stage v))
     (seqIO (make_owned (pv_candidate v))
     (seqIO (materialize_manifest (pv_stage v) (pv_desired v) (sv_source raw))
     (seqIO (verify_manifest (pv_stage v) (pv_desired v))
     (seqIO (materialize_manifest (pv_candidate v) (pv_current v) (\<lambda>relative _. pv_root v @ tail_parts relative))
     (seqIO (verify_manifest (pv_candidate v) (pv_current v))
     (seqIO (fsync_tree (pv_stage v)) (fsync_tree (pv_candidate v)))))))))"

definition prepare_body :: "string \<Rightarrow> selected_view list \<Rightarrow> transaction io" where
  "prepare_body op raw_views = bindIO tree_of (\<lambda>t.
     bindIO (lift (foldE (select_step t op) raw_views ([], []))) (\<lambda>(_, prepared).
     if prepared = [] then raise SyncError
     else let views = map snd prepared; tx = \<lparr>tx_id = op, tx_views = views, tx_metrics = transaction_metrics_of views\<rparr>
       in seqIO (create_journal tx Preparing)
         (seqIO (set_memory (\<lambda>s. s\<lparr>st_journal_created := True\<rparr>))
         (seqIO (eachIO stage_view prepared)
         (seqIO (write_journal tx Prepared) (ret tx))))))"

text \<open>The handler of a failed preparation; only an \<open>OSError\<close> of a removal is collected.\<close>

definition remove_created :: "path \<Rightarrow> bool io" where
  "remove_created p = catchIO (seqIO (remove_owned_tree p) (ret True))
     (\<lambda>e. if e = OsFailure then ret False else raise e)"

definition abort_preparation :: "tx_error \<Rightarrow> transaction io" where
  "abort_preparation e = bindIO state_of (\<lambda>s.
     bindIO (collectIO remove_created (rev (st_created s))) (\<lambda>removed.
     seqIO (if st_journal_created s \<and> (\<forall>b \<in> set removed. b) then durable_unlink else ret ())
       (if \<forall>b \<in> set removed. b then raise e else raise SyncError)))"

definition prepare_transaction :: "string \<Rightarrow> selected_view list \<Rightarrow> transaction io" where
  "prepare_transaction op raw_views =
     (if \<not> is_operation_id op then raise SyncError
      else if raw_views = [] then raise SyncError
      else bindIO state_of (\<lambda>s.
        if st_journal s \<noteq> NoJournal then raise SyncError
        else seqIO (set_memory (\<lambda>s. s\<lparr>st_created := [], st_journal_created := False, st_touched := False, st_finished := False\<rparr>))
          (catchIO (prepare_body op raw_views) abort_preparation)))"

subsection \<open>Promotion\<close>

definition set_touched :: "unit io" where
  "set_touched = set_memory (\<lambda>s. s\<lparr>st_touched := True\<rparr>)"

definition apply_path :: "prepared_view \<Rightarrow> string \<Rightarrow> unit io" where
  "apply_path v relative =
     bindIO (safe_target (pv_root v) relative True) (\<lambda>target.
     seqIO (case map_of (pv_current v) relative of
              Some before \<Rightarrow> verify_one target before
            | None \<Rightarrow> bindIO tree_of (\<lambda>t. check (\<not> present t target) VerificationError))
     (case map_of (pv_desired v) relative of
        None \<Rightarrow> seqIO set_touched (on_tree (unlink target))
      | Some desired \<Rightarrow>
          bindIO (safe_target (pv_stage v) relative False) (\<lambda>staged.
          seqIO (verify_one staged desired) (seqIO set_touched (on_tree (replace_file staged target))))))"

definition apply_view :: "prepared_view \<Rightarrow> unit io" where
  "apply_view v = eachIO (apply_path v) (view_changes v)"

definition run_scan :: "(path \<Rightarrow> manifest \<Rightarrow> tree \<Rightarrow> bool) \<Rightarrow> path \<Rightarrow> manifest \<Rightarrow> unit io" where
  "run_scan verify root m = seqIO read_disk (bindIO tree_of (\<lambda>t. check (verify root m t) VerificationError))"

definition apply_body :: "(path \<Rightarrow> manifest \<Rightarrow> tree \<Rightarrow> bool) \<Rightarrow> (path \<Rightarrow> manifest \<Rightarrow> tree \<Rightarrow> bool) \<Rightarrow> transaction \<Rightarrow> unit io" where
  "apply_body verify_current verify_desired tx =
     seqIO (eachIO (\<lambda>v. run_scan verify_current (pv_root v) (pv_verify_current v)) (tx_views tx))
     (seqIO (eachIO apply_view (tx_views tx))
     (seqIO (eachIO (\<lambda>v. run_scan verify_desired (pv_root v) (pv_verify_desired v)) (tx_views tx))
     (seqIO (eachIO fsync_changed (tx_views tx))
            (write_journal tx Promoted))))"

definition apply_transaction ::
  "(path \<Rightarrow> manifest \<Rightarrow> tree \<Rightarrow> bool) \<Rightarrow> (path \<Rightarrow> manifest \<Rightarrow> tree \<Rightarrow> bool) \<Rightarrow> transaction \<Rightarrow> unit io" where
  "apply_transaction verify_current verify_desired tx =
     seqIO (write_journal tx Applying)
       (catchIO (apply_body verify_current verify_desired tx) (\<lambda>e. seqIO (rollback tx) (raise e)))"

end
