(* ===== verification/TransactionLogic.thy ===== *)
theory TransactionLogic
  imports SaveTransaction
begin

text \<open>
  A program logic for the operations of \<open>SaveDisk\<close>, in which the proofs about selected transactions
  are carried out.  \<open>spec q P m Q I\<close>: from a state where \<open>P\<close> holds, \<open>m\<close> returns a value
  \<open>x\<close> with \<open>Q x\<close>, or it raises or dies where \<open>I\<close> holds; when \<open>q\<close> is set the schedule has neither
  faults nor a crash, and then \<open>m\<close> must return.
\<close>

subsection \<open>Specifications\<close>

definition quiet :: "event list \<Rightarrow> bool" where
  "quiet es \<longleftrightarrow> set es \<subseteq> {Perform}"

fun ends :: "bool \<Rightarrow> ('a \<Rightarrow> state \<Rightarrow> bool) \<Rightarrow> (state \<Rightarrow> bool) \<Rightarrow> 'a outcome \<times> (event list \<times> state) \<Rightarrow> bool" where
  "ends q Q I (Ok x, (es, s)) \<longleftrightarrow> Q x s \<and> (q \<longrightarrow> quiet es)"
| "ends q Q I (Raised e, (es, s)) \<longleftrightarrow> I s \<and> \<not> q"
| "ends q Q I (Crashed, (es, s)) \<longleftrightarrow> I s \<and> \<not> q"

definition spec :: "bool \<Rightarrow> (state \<Rightarrow> bool) \<Rightarrow> 'a io \<Rightarrow> ('a \<Rightarrow> state \<Rightarrow> bool) \<Rightarrow> (state \<Rightarrow> bool) \<Rightarrow> bool" where
  "spec q P m Q I \<longleftrightarrow> (\<forall>es s. (q \<longrightarrow> quiet es) \<longrightarrow> P s \<longrightarrow> ends q Q I (m (es, s)))"

lemma specI: "(\<And>es s. q \<longrightarrow> quiet es \<Longrightarrow> P s \<Longrightarrow> ends q Q I (m (es, s))) \<Longrightarrow> spec q P m Q I"
  by (simp add: spec_def)

lemma specD: "spec q P m Q I \<Longrightarrow> q \<longrightarrow> quiet es \<Longrightarrow> P s \<Longrightarrow> ends q Q I (m (es, s))"
  by (simp add: spec_def)

lemma ends_mono:
  assumes "ends q Q I r" and "\<And>x s. Q x s \<Longrightarrow> Q' x s" and "\<And>s. I s \<Longrightarrow> I' s"
  shows "ends q Q' I' r"
proof -
  obtain x es s where r: "r = (x, (es, s))" by (metis prod.exhaust)
  with assms show ?thesis by (cases x) auto
qed

text \<open>What an operation leaves, whatever the schedule does.\<close>

lemma spec_outcome:
  assumes "spec False P m Q I" and "P s" and "m (es, s) = (r, (es', s'))"
  shows "(case r of Ok x \<Rightarrow> Q x s' | _ \<Rightarrow> I s')"
  using specD [OF assms(1) _ assms(2), of es] assms(3) by (cases r) auto

lemma spec_returns:
  assumes "spec True P m Q I" and "P s" and "quiet es"
  shows "\<exists>x es' s'. m (es, s) = (Ok x, (es', s')) \<and> Q x s' \<and> quiet es'"
proof -
  obtain r es' s' where m: "m (es, s) = (r, (es', s'))" by (metis prod.exhaust)
  then show ?thesis using specD [OF assms(1) _ assms(2), of es] assms(3) by (cases r) auto
qed

lemma spec_conseq:
  assumes "spec q P m Q I" and "\<And>s. P' s \<Longrightarrow> P s" and "\<And>x s. Q x s \<Longrightarrow> Q' x s" and "\<And>s. I s \<Longrightarrow> I' s"
  shows "spec q P' m Q' I'"
  by (rule specI, rule ends_mono [OF specD [OF assms(1)]]) (use assms in auto)

lemma spec_pre: "spec q P m Q I \<Longrightarrow> (\<And>s. P' s \<Longrightarrow> P s) \<Longrightarrow> spec q P' m Q I"
  by (erule spec_conseq)

lemma spec_post: "spec q P m Q I \<Longrightarrow> (\<And>x s. Q x s \<Longrightarrow> Q' x s) \<Longrightarrow> spec q P m Q' I"
  by (erule spec_conseq)

lemma spec_assume: "(\<And>s. P s \<Longrightarrow> spec q (\<lambda>s'. s' = s) m Q I) \<Longrightarrow> spec q P m Q I"
  by (simp add: spec_def)

lemma spec_fact: "(\<And>s. P s \<Longrightarrow> A) \<Longrightarrow> (A \<Longrightarrow> spec q P m Q I) \<Longrightarrow> spec q P m Q I"
  unfolding spec_def by blast

subsection \<open>Rules\<close>

lemma spec_bind:
  assumes m: "spec q P m Q I" and f: "\<And>x. spec q (Q x) (f x) R I"
  shows "spec q P (bindIO m f) R I"
proof (rule specI)
  fix es s assume q: "q \<longrightarrow> quiet es" and p: "P s"
  obtain r es' s' where r: "m (es, s) = (r, (es', s'))" by (metis prod.exhaust)
  with specD [OF m q p] f show "ends q R I (bindIO m f (es, s))"
    by (cases r) (auto simp: bindIO_def intro: specD)
qed

lemma spec_ret: "(\<And>s. P s \<Longrightarrow> Q x s) \<Longrightarrow> spec q P (ret x) Q I"
  by (simp add: spec_def ret_def)

lemma spec_raise: "(\<And>s. P s \<Longrightarrow> I s \<and> \<not> q) \<Longrightarrow> spec q P (raise e) Q I"
  by (auto simp: spec_def raise_def)

lemma spec_reject:
  assumes "\<And>s. P s \<Longrightarrow> I s" and "\<And>s. P s \<Longrightarrow> q \<Longrightarrow> False"
  shows "spec q P (raise e) Q I"
  by (rule spec_raise) (use assms in blast)

lemma spec_act:
  assumes "\<And>s. P s \<Longrightarrow> I s \<and> (case f s of None \<Rightarrow> \<not> q | Some s' \<Rightarrow> Q () s')"
  shows "spec q P (act f) Q I"
proof (rule specI)
  fix es s assume "q \<longrightarrow> quiet es" and "P s"
  with assms [of s] show "ends q Q I (act f (es, s))"
    by (cases es; cases "hd es"; cases "f s") (auto simp: act_def quiet_def)
qed

lemma spec_read: "(\<And>s. P s \<Longrightarrow> I s \<and> Q () s) \<Longrightarrow> spec q P read_disk Q I"
  unfolding read_disk_def by (rule spec_act) simp

lemma spec_on_tree:
  assumes "\<And>s. P s \<Longrightarrow> I s \<and> (case f (st_tree s) of None \<Rightarrow> \<not> q | Some t \<Rightarrow> Q () (s\<lparr>st_tree := t\<rparr>))"
  shows "spec q P (on_tree f) Q I"
  unfolding on_tree_def
proof (rule spec_act)
  fix s assume "P s"
  from assms [OF this] show "I s \<and> (case map_option (\<lambda>t. s\<lparr>st_tree := t\<rparr>) (f (st_tree s)) of None \<Rightarrow> \<not> q | Some s' \<Rightarrow> Q () s')"
    by (cases "f (st_tree s)") auto
qed

lemma spec_tree:
  assumes "\<And>t. spec q (\<lambda>s. P s \<and> st_tree s = t) (f t) Q I"
  shows "spec q P (bindIO tree_of f) Q I"
  using assms by (simp add: spec_def bindIO_def tree_of_def)

lemma spec_state:
  assumes "\<And>t. P t \<Longrightarrow> spec q (\<lambda>s. s = t) (f t) Q I"
  shows "spec q P (bindIO state_of f) Q I"
  using assms by (simp add: spec_def bindIO_def state_of_def)

lemma spec_memory: "(\<And>s. P s \<Longrightarrow> Q () (f s)) \<Longrightarrow> spec q P (set_memory f) Q I"
  by (simp add: spec_def set_memory_def)

lemma spec_check: "(\<And>s. P s \<Longrightarrow> (b \<longrightarrow> Q () s) \<and> (\<not> b \<longrightarrow> I s \<and> \<not> q)) \<Longrightarrow> spec q P (check b e) Q I"
  by (auto simp: check_def spec_def ret_def raise_def)

lemma spec_lift:
  assumes "\<And>x s. P s \<Longrightarrow> r = Inr x \<Longrightarrow> Q x s" and "\<And>e s. P s \<Longrightarrow> r = Inl e \<Longrightarrow> I s \<and> \<not> q"
  shows "spec q P (lift r) Q I"
proof (cases r)
  case (Inl e)
  with assms(2) show ?thesis by (simp add: lift_def) (rule spec_raise, simp)
next
  case (Inr x)
  with assms(1) show ?thesis by (simp add: lift_def) (rule spec_ret, simp)
qed

lemma spec_if:
  assumes "b \<Longrightarrow> spec q P m Q I" and "\<not> b \<Longrightarrow> spec q P n Q I"
  shows "spec q P (if b then m else n) Q I"
  using assms by simp

lemma spec_each:
  assumes "\<And>pre x post. xs = pre @ x # post \<Longrightarrow> spec q (J pre) (f x) (\<lambda>_. J (pre @ [x])) I"
  shows "spec q (J []) (eachIO f xs) (\<lambda>_. J xs) I"
proof -
  have "spec q (J pre) (eachIO f ys) (\<lambda>_. J xs) I" if "xs = pre @ ys" for pre ys
    using that
  proof (induction ys arbitrary: pre)
    case Nil
    then show ?case by (simp add: spec_ret)
  next
    case (Cons y ys)
    have "spec q (J (pre @ [y])) (eachIO f ys) (\<lambda>_. J xs) I" using Cons by simp
    with assms [OF Cons.prems] show ?case by (simp add: spec_bind)
  qed
  from this [of "[]" xs] show ?thesis by simp
qed

lemma spec_each_keep:
  assumes "\<And>x. x \<in> set xs \<Longrightarrow> spec q P (f x) (\<lambda>_. P) I"
  shows "spec q P (eachIO f xs) (\<lambda>_. P) I"
  using spec_each [of xs q "\<lambda>_. P" f I] assms by simp

lemma spec_collect:
  assumes "\<And>pre x post ys. xs = pre @ x # post \<Longrightarrow> spec q (J pre ys) (f x) (\<lambda>y. J (pre @ [x]) (ys @ [y])) I"
  shows "spec q (J [] []) (collectIO f xs) (\<lambda>ys. J xs ys) I"
proof -
  have "spec q (J pre zs) (collectIO f ys) (\<lambda>rs. J xs (zs @ rs)) I" if "xs = pre @ ys" for pre ys zs
    using that
  proof (induction ys arbitrary: pre zs)
    case Nil
    then show ?case by (simp add: spec_ret)
  next
    case (Cons y ys)
    have "spec q (J (pre @ [y]) (zs @ [r])) (collectIO f ys) (\<lambda>rs. J xs ((zs @ [r]) @ rs)) I" for r
      using Cons.IH [of "pre @ [y]" "zs @ [r]"] Cons.prems by simp
    then have "spec q (J (pre @ [y]) (zs @ [r])) (bindIO (collectIO f ys) (\<lambda>rs. ret (r # rs))) (\<lambda>rs. J xs (zs @ rs)) I" for r
      by (rule spec_bind) (rule spec_ret, simp)
    with assms [OF Cons.prems] show ?case unfolding collectIO.simps by (rule spec_bind)
  qed
  from this [of "[]" xs "[]"] show ?thesis by simp
qed

lemma spec_catch:
  assumes m: "spec q P m Q K" and h: "\<And>e. \<not> q \<Longrightarrow> spec q K (h e) Q I" and k: "\<And>s. K s \<Longrightarrow> I s"
  shows "spec q P (catchIO m h) Q I"
proof (rule specI)
  fix es s assume q: "q \<longrightarrow> quiet es" and p: "P s"
  obtain r es' s' where r: "m (es, s) = (r, (es', s'))" by (metis prod.exhaust)
  with specD [OF m q p] specD [OF h] k show "ends q Q I (catchIO m h (es, s))"
    by (cases r) (auto simp: catchIO_def)
qed

lemma spec_finally:
  assumes m: "spec q P m Q K" and f: "\<And>x. spec q (Q x) f (\<lambda>_. R x) I"
    and g: "spec False K f (\<lambda>_. I) I" and k: "\<And>s. K s \<Longrightarrow> I s"
  shows "spec q P (finallyIO m f) R I"
proof (rule specI)
  fix es s assume q: "q \<longrightarrow> quiet es" and p: "P s"
  obtain r es' s' where r: "m (es, s) = (r, (es', s'))" by (metis prod.exhaust)
  obtain r2 es2 s2 where r2: "f (es', s') = (r2, (es2, s2))" by (metis prod.exhaust)
  show "ends q R I (finallyIO m f (es, s))"
  proof (cases r)
    case (Ok x)
    with specD [OF m q p] r have a: "Q x s'" "q \<longrightarrow> quiet es'" by auto
    show ?thesis using specD [OF f a(2,1)] r2 by (cases r2) (auto simp: finallyIO_def r Ok)
  next
    case (Raised e)
    with specD [OF m q p] r have a: "K s'" "\<not> q" by auto
    show ?thesis using specD [OF g, of es' s'] a r2 by (cases r2) (auto simp: finallyIO_def r Raised)
  next
    case Crashed
    then show ?thesis using specD [OF m q p] r k by (auto simp: finallyIO_def)
  qed
qed

subsection \<open>Actions on well-formed trees\<close>

lemma lookup_Nil [simp]: "lookup t [] = Some Directory"
  by (simp add: lookup_def)

lemma is_dir_Nil [simp]: "is_dir t []"
  by (simp add: is_dir_def)

lemma lookup_update: "p \<noteq> [] \<Longrightarrow> lookup (AList.update p n t) = (lookup t)(p \<mapsto> n)"
  by (auto simp: lookup_def fun_eq_iff update_conv')

lemma lookup_delete: "p \<noteq> [] \<Longrightarrow> lookup (AList.delete p t) = (lookup t)(p := None)"
  by (auto simp: lookup_def fun_eq_iff delete_conv')

lemma wf_tree_iff:
  "wf_tree t \<longleftrightarrow> distinct (map fst t) \<and> [] \<notin> fst ` set t \<and> (\<forall>p n. p \<noteq> [] \<longrightarrow> lookup t p = Some n \<longrightarrow> is_dir t (butlast p))"
proof -
  have "(\<exists>n. lookup t p = Some n) \<longleftrightarrow> p \<in> fst ` set t" if "p \<noteq> []" for p
    using that by (metis domIff dom_map_of_conv_image_fst lookup_def not_None_eq)
  then show ?thesis unfolding wf_tree_def by (metis (no_types, lifting))
qed

lemma wf_distinct: "wf_tree t \<Longrightarrow> distinct (map fst t)"
  by (simp add: wf_tree_def)

lemma wf_parent: "wf_tree t \<Longrightarrow> lookup t p = Some n \<Longrightarrow> p \<noteq> [] \<Longrightarrow> is_dir t (butlast p)"
  by (auto simp: wf_tree_iff)

lemma wf_ancestor: "wf_tree t \<Longrightarrow> lookup t p = Some n \<Longrightarrow> strict_prefix c p \<Longrightarrow> is_dir t c"
proof (induction p arbitrary: n rule: rev_induct)
  case (snoc x p)
  have "is_dir t p" using wf_parent [OF snoc.prems(1,2)] by simp
  with snoc show ?case by (auto simp: strict_prefix_def is_dir_def)
qed simp

lemma wf_leaf: "wf_tree t \<Longrightarrow> \<not> is_dir t p \<Longrightarrow> strict_prefix p c \<Longrightarrow> lookup t c = None"
  using wf_ancestor by (metis not_None_eq)

text \<open>A change at one path.\<close>

lemma wf_point:
  assumes "wf_tree t" and "distinct (map fst t')" and "[] \<notin> fst ` set t'" and "lookup t' = (lookup t)(p := x)" and "p \<noteq> []"
    and "x \<noteq> None \<Longrightarrow> is_dir t (butlast p)" and "x \<noteq> Some Directory \<Longrightarrow> \<forall>c. c \<noteq> [] \<and> butlast c = p \<longrightarrow> lookup t c = None"
  shows "wf_tree t'"
proof -
  have "is_dir t' (butlast c)" if c: "c \<noteq> []" and n: "lookup t' c = Some n" for c n
  proof (cases "c = p")
    case True
    have "butlast p \<noteq> p" using assms(5) by (metis append_butlast_last_id not_Cons_self2 self_append_conv)
    then show ?thesis using assms(4,6) n True by (auto simp: is_dir_def)
  next
    case False
    then have "lookup t c = Some n" using n assms(4) by simp
    then have "is_dir t (butlast c)" "x = Some Directory \<or> butlast c \<noteq> p" using assms(1,7) c by (auto dest: wf_parent)
    then show ?thesis using assms(4) by (auto simp: is_dir_def)
  qed
  with assms(2,3) show ?thesis by (auto simp: wf_tree_iff)
qed

lemma leaf_children: "wf_tree t \<Longrightarrow> \<not> is_dir t p \<Longrightarrow> c \<noteq> [] \<Longrightarrow> butlast c = p \<Longrightarrow> lookup t c = None"
  by (metis wf_parent not_None_eq)

lemma wf_update:
  assumes "wf_tree t" and "p \<noteq> []" and "is_dir t (butlast p)" and "n = Directory \<or> \<not> is_dir t p"
  shows "wf_tree (AList.update p n t)"
proof (rule wf_point [OF assms(1) _ _ lookup_update])
  show "distinct (map fst (AList.update p n t))" using assms(1) by (simp add: wf_distinct distinct_update)
  show "[] \<notin> fst ` set (AList.update p n t)" using assms(1,2) by (auto simp: wf_tree_iff dom_update)
qed (use assms leaf_children in auto)

lemma wf_delete:
  assumes "wf_tree t" and "p \<noteq> []" and "\<forall>c. c \<noteq> [] \<and> butlast c = p \<longrightarrow> lookup t c = None"
  shows "wf_tree (AList.delete p t)"
proof (rule wf_point [OF assms(1) _ _ lookup_delete])
  show "distinct (map fst (AList.delete p t))" using assms(1) by (simp add: wf_distinct distinct_delete)
  show "[] \<notin> fst ` set (AList.delete p t)" using assms(1) by (auto simp: wf_tree_iff AList.delete_eq)
qed (use assms in auto)

lemma make_dirD:
  assumes "make_dir p t = Some t'"
  shows "lookup t' = (lookup t)(p \<mapsto> Directory)" and "p \<noteq> []" and "lookup t p = None" and "is_dir t (butlast p)"
    and "wf_tree t \<Longrightarrow> wf_tree t'"
proof -
  show p: "p \<noteq> []" "lookup t p = None" and d: "is_dir t (butlast p)"
    using assms by (auto simp: make_dir_def lookup_def split: if_splits)
  have t': "t' = AList.update p Directory t" using assms by (auto simp: make_dir_def split: if_splits)
  show "lookup t' = (lookup t)(p \<mapsto> Directory)" using p t' by (simp add: lookup_update)
  show "wf_tree t \<Longrightarrow> wf_tree t'" using p d t' by (simp add: wf_update)
qed

lemma unlinkD:
  assumes "unlink p t = Some t'"
  shows "lookup t' = (lookup t)(p := None)" and "p \<noteq> []" and "\<not> is_dir t p" and "wf_tree t \<Longrightarrow> wf_tree t'"
proof -
  show d: "\<not> is_dir t p" and p: "p \<noteq> []"
    using assms by (auto simp: unlink_def split: if_splits)
  have t': "t' = AList.delete p t" using assms by (auto simp: unlink_def split: if_splits)
  show "lookup t' = (lookup t)(p := None)" using p t' by (simp add: lookup_delete)
  show "wf_tree t \<Longrightarrow> wf_tree t'" using p d t' leaf_children by (simp add: wf_delete)
qed

lemma create_fileD:
  assumes "create_file p t = Some t'"
  shows "lookup t' = (lookup t)(p \<mapsto> File [])" and "p \<noteq> []" and "is_dir t (butlast p)" and "wf_tree t \<Longrightarrow> wf_tree t'"
proof -
  show p: "p \<noteq> []" and d: "is_dir t (butlast p)" using assms by (auto simp: create_file_def split: if_splits)
  have t': "t' = AList.update p (File []) t" using assms by (auto simp: create_file_def split: if_splits)
  have "\<not> is_dir t p" using assms by (auto simp: create_file_def content_def is_dir_def split: if_splits)
  then show "wf_tree t \<Longrightarrow> wf_tree t'" using p d t' by (simp add: wf_update)
  show "lookup t' = (lookup t)(p \<mapsto> File [])" using p t' by (simp add: lookup_update)
qed

lemma content_iff: "content t p = Some b \<longleftrightarrow> lookup t p = Some (File b)"
  by (auto simp: content_def split: option.splits node.splits)

lemma content_cong: "lookup t p = lookup t' p \<Longrightarrow> content t p = content t' p"
  by (simp add: content_def)

lemma append_fileD:
  assumes "append_file p bytes t = Some t'"
  shows "\<exists>b. lookup t p = Some (File b) \<and> lookup t' = (lookup t)(p \<mapsto> File (b @ bytes))" and "p \<noteq> []" and "wf_tree t \<Longrightarrow> wf_tree t'"
proof -
  from assms obtain b where b: "lookup t p = Some (File b)" and t': "t' = AList.update p (File (b @ bytes)) t"
    by (auto simp: append_file_def content_iff split: option.splits)
  show p: "p \<noteq> []" using b by auto
  show "\<exists>b. lookup t p = Some (File b) \<and> lookup t' = (lookup t)(p \<mapsto> File (b @ bytes))" using b p t' by (simp add: lookup_update)
  show "wf_tree t \<Longrightarrow> wf_tree t'" unfolding t' using wf_parent [of t p] b p by (intro wf_update) (auto simp: is_dir_def)
qed

lemma replace_fileD:
  assumes "replace_file source target t = Some t'"
  shows "\<exists>b. lookup t source = Some (File b) \<and> lookup t' = (lookup t)(source := None, target \<mapsto> File b)"
    and "target \<noteq> []" and "\<not> is_dir t target" and "wf_tree t \<Longrightarrow> wf_tree t'"
proof -
  from assms obtain b where b: "lookup t source = Some (File b)" and d: "\<not> is_dir t target" "is_dir t (butlast target)"
    and t': "t' = AList.update target (File b) (if source = target then t else AList.delete source t)"
    by (auto simp: replace_file_def split: option.splits node.splits if_splits)
  show ne: "target \<noteq> []" and "\<not> is_dir t target" using d by auto
  have s: "source \<noteq> []" using b by auto
  show "\<exists>b. lookup t source = Some (File b) \<and> lookup t' = (lookup t)(source := None, target \<mapsto> File b)"
    using b s ne t' by (auto simp: lookup_update lookup_delete fun_eq_iff)
  assume wf: "wf_tree t"
  show "wf_tree t'"
  proof (cases "source = target")
    case True
    then show ?thesis using wf ne d t' by (simp add: wf_update)
  next
    case False
    have "wf_tree (AList.delete source t)" using wf s b leaf_children [OF wf, of source] by (intro wf_delete) (auto simp: is_dir_def)
    then show ?thesis
      using False ne d s b t' by (auto simp: lookup_delete is_dir_def intro!: wf_update)
  qed
qed

subsection \<open>Directories and targets\<close>

lemma bindIO_assoc: "bindIO (bindIO m f) g = bindIO m (\<lambda>x. bindIO (f x) g)"
  by (auto simp: bindIO_def fun_eq_iff split: prod.split outcome.split)

lemma bindIO_ret [simp]: "bindIO (ret x) f = f x"
  by (simp add: bindIO_def ret_def fun_eq_iff)

lemma eachIO_append: "eachIO f (xs @ ys) = seqIO (eachIO f xs) (eachIO f ys)"
  by (induction xs) (simp_all add: bindIO_assoc)

definition open_way :: "tree \<Rightarrow> path \<Rightarrow> bool" where
  "open_way t c \<longleftrightarrow> lookup t c \<in> {None, Some Directory}"

text \<open>A state predicate that new directories at some paths do not disturb.\<close>

definition grows :: "(path \<Rightarrow> bool) \<Rightarrow> (state \<Rightarrow> bool) \<Rightarrow> bool" where
  "grows A P \<longleftrightarrow> (\<forall>s c t. P s \<longrightarrow> A c \<longrightarrow> make_dir c (st_tree s) = Some t \<longrightarrow> P (s\<lparr>st_tree := t\<rparr>))"

lemma growsD: "grows A P \<Longrightarrow> P s \<Longrightarrow> A c \<Longrightarrow> make_dir c (st_tree s) = Some t \<Longrightarrow> P (s\<lparr>st_tree := t\<rparr>)"
  by (simp add: grows_def)

lemma spec_make_missing:
  assumes "grows A P" and "\<And>s. P s \<Longrightarrow> I s" and "A c"
    and "\<And>s. q \<Longrightarrow> P s \<Longrightarrow> open_way (st_tree s) c \<and> is_dir (st_tree s) (butlast c)"
  shows "spec q P (make_missing c) (\<lambda>_ s. P s \<and> (q \<longrightarrow> is_dir (st_tree s) c)) I"
  unfolding make_missing_def
proof (rule spec_tree, rule spec_if)
  fix t
  show "spec q (\<lambda>s. P s \<and> st_tree s = t) (ret ()) (\<lambda>_ s. P s \<and> (q \<longrightarrow> is_dir (st_tree s) c)) I" if "present t c"
    using that by (intro spec_ret) (use assms(4) in \<open>fastforce simp: present_def open_way_def is_dir_def\<close>)
  show "spec q (\<lambda>s. P s \<and> st_tree s = t) (on_tree (make_dir c)) (\<lambda>_ s. P s \<and> (q \<longrightarrow> is_dir (st_tree s) c)) I" if np: "\<not> present t c"
  proof (rule spec_on_tree)
    fix s assume s: "P s \<and> st_tree s = t"
    show "I s \<and> (case make_dir c (st_tree s) of None \<Rightarrow> \<not> q
      | Some t \<Rightarrow> P (s\<lparr>st_tree := t\<rparr>) \<and> (q \<longrightarrow> is_dir (st_tree (s\<lparr>st_tree := t\<rparr>)) c))"
    proof (cases "make_dir c (st_tree s)")
      case None
      then show ?thesis using s np assms(2,4) by (auto simp: make_dir_def present_def)
    next
      case (Some t')
      then show ?thesis using s growsD [OF assms(1) _ assms(3) Some] make_dirD(1) [OF Some] assms(2) by (auto simp: is_dir_def)
    qed
  qed
qed

lemma grows_subset: "grows A P \<Longrightarrow> (\<And>c. B c \<Longrightarrow> A c) \<Longrightarrow> grows B P"
  by (auto simp: grows_def)

lemma grows_and: "grows A P \<Longrightarrow> grows A Q \<Longrightarrow> grows A (\<lambda>s. P s \<and> Q s)"
  by (auto simp: grows_def)

lemma grows_imp: "(q \<Longrightarrow> grows A P) \<Longrightarrow> grows A (\<lambda>s. q \<longrightarrow> P s)"
  by (auto simp: grows_def)

lemma grows_is_dir: "grows A (\<lambda>s. is_dir (st_tree s) p)"
  by (auto simp: grows_def is_dir_def dest!: make_dirD(1))

lemma spec_make_prefixes:
  assumes "grows A P" and "\<And>s. P s \<Longrightarrow> I s" and "\<And>c. prefix c p \<Longrightarrow> A c"
    and "\<And>s c. q \<Longrightarrow> P s \<Longrightarrow> prefix c p \<Longrightarrow> open_way (st_tree s) c"
  shows "spec q P (eachIO make_missing (prefixes p)) (\<lambda>_ s. P s \<and> (q \<longrightarrow> is_dir (st_tree s) p)) I"
  using assms(3,4)
proof (induction p rule: rev_induct)
  case Nil
  have "spec q P (make_missing []) (\<lambda>_ s. P s \<and> (q \<longrightarrow> is_dir (st_tree s) [])) I"
    using Nil by (intro spec_make_missing [OF assms(1,2)]) (auto simp: is_dir_def)
  then show ?case by (auto intro: spec_bind spec_ret)
next
  case (snoc x p)
  let ?P = "\<lambda>s. P s \<and> (q \<longrightarrow> is_dir (st_tree s) p)"
  have a: "spec q P (eachIO make_missing (prefixes p)) (\<lambda>_. ?P) I" using snoc by simp
  have g: "grows (\<lambda>c. c = p @ [x]) ?P"
    by (intro grows_and grows_imp grows_is_dir grows_subset [OF assms(1)]) (use snoc.prems(1) in auto)
  have "spec q ?P (make_missing (p @ [x])) (\<lambda>_ s. ?P s \<and> (q \<longrightarrow> is_dir (st_tree s) (p @ [x]))) I"
    using snoc.prems(2) assms(2) by (intro spec_make_missing [OF g]) auto
  then have b: "spec q ?P (seqIO (make_missing (p @ [x])) (ret ())) (\<lambda>_ s. P s \<and> (q \<longrightarrow> is_dir (st_tree s) (p @ [x]))) I"
    by (rule spec_bind) (auto intro: spec_ret)
  show ?case by (simp only: prefixes_snoc eachIO_append eachIO.simps) (rule spec_bind [OF a b])
qed

lemma spec_make_dir_ok:
  assumes "grows A P" and "\<And>s. P s \<Longrightarrow> I s" and "A p"
    and "\<And>s. q \<Longrightarrow> P s \<Longrightarrow> open_way (st_tree s) p \<and> is_dir (st_tree s) (butlast p)"
  shows "spec q P (on_tree (make_dir_ok p)) (\<lambda>_ s. P s \<and> is_dir (st_tree s) p) I"
proof (rule spec_on_tree)
  fix s assume s: "P s"
  show "I s \<and> (case make_dir_ok p (st_tree s) of None \<Rightarrow> \<not> q
      | Some t \<Rightarrow> P (s\<lparr>st_tree := t\<rparr>) \<and> is_dir (st_tree (s\<lparr>st_tree := t\<rparr>)) p)"
  proof (cases "is_dir (st_tree s) p")
    case True
    then show ?thesis using s assms(2) by (simp add: make_dir_ok_def)
  next
    case False
    show ?thesis
    proof (cases "make_dir p (st_tree s)")
      case None
      then show ?thesis using False s assms(2) assms(4) [OF _ s] by (auto simp: make_dir_ok_def make_dir_def open_way_def is_dir_def split: if_splits)
    next
      case (Some t)
      then show ?thesis using False s assms(2) growsD [OF assms(1) _ assms(3) Some] make_dirD(1) [OF Some]
        by (auto simp: make_dir_ok_def is_dir_def)
    qed
  qed
qed

lemma spec_make_dirs_ok:
  assumes "grows (\<lambda>c. prefix c p) P" and "\<And>s. P s \<Longrightarrow> I s"
    and "\<And>s c. q \<Longrightarrow> P s \<Longrightarrow> prefix c p \<Longrightarrow> open_way (st_tree s) c"
  shows "spec q P (make_dirs_ok p) (\<lambda>_ s. P s \<and> is_dir (st_tree s) p) I"
proof (cases p rule: rev_cases)
  case Nil
  have "spec q P (on_tree (make_dir_ok p)) (\<lambda>_ s. P s \<and> is_dir (st_tree s) p) I"
    using assms Nil by (intro spec_make_dir_ok [OF assms(1,2)]) auto
  then show ?thesis by (simp add: make_dirs_ok_def Nil)
next
  case (snoc xs x)
  have a: "spec q P (eachIO make_missing (prefixes xs)) (\<lambda>_ s. P s \<and> (q \<longrightarrow> is_dir (st_tree s) xs)) I"
    using assms(3) snoc by (intro spec_make_prefixes [OF assms(1,2)]) auto
  have g: "grows (\<lambda>c. c = p) (\<lambda>s. P s \<and> (q \<longrightarrow> is_dir (st_tree s) xs))"
    by (intro grows_and grows_imp grows_is_dir grows_subset [OF assms(1)]) auto
  have "spec q (\<lambda>s. P s \<and> (q \<longrightarrow> is_dir (st_tree s) xs)) (on_tree (make_dir_ok p)) (\<lambda>_ s. (P s \<and> (q \<longrightarrow> is_dir (st_tree s) xs)) \<and> is_dir (st_tree s) p) I"
    using assms(2,3) snoc by (intro spec_make_dir_ok [OF g]) auto
  then have b: "spec q (\<lambda>s. P s \<and> (q \<longrightarrow> is_dir (st_tree s) xs)) (on_tree (make_dir_ok p)) (\<lambda>_ s. P s \<and> is_dir (st_tree s) p) I"
    by (rule spec_post) auto
  show ?thesis unfolding make_dirs_ok_def using spec_bind [OF a b] snoc by simp
qed

lemma canonical_relative:
  assumes "canonical_relative_parts r = Inr parts"
  shows "parts = tail_parts r" and "clean parts" and "parts \<noteq> []" and "r = join ''/'' parts"
proof -
  from assms have n: "\<not> startswith r ''/''" "\<not> is_absolute r" "path_parts r \<noteq> []" "as_posix r = r"
      "\<forall>part \<in> set (path_parts r). part \<notin> {'''', ''.'', ''..''}" "parts = path_parts r"
    by (auto simp: canonical_relative_parts_def Let_def split: if_splits)
  show p: "parts = tail_parts r" using n by (simp add: path_parts_def)
  have "r \<noteq> ''.''" using n(3) by (auto simp: path_parts_def is_absolute_def startswith_def tail_parts_def)
  from as_posix_clean [OF n(2,5,4) this] have c: "clean (split_on CHR ''/'' r)" .
  from clean_as_posix(2) [OF c] n(6) have s: "parts = split_on CHR ''/'' r" by simp
  with c show "clean parts" by simp
  from n show "parts \<noteq> []" by simp
  from s show "r = join ''/'' parts" by (simp add: join_split_on)
qed

lemma canonical_inj:
  "canonical_relative_parts r = Inr p \<Longrightarrow> canonical_relative_parts r' = Inr p \<Longrightarrow> r = r'"
  using canonical_relative(4) by metis

definition is_canonical :: "string \<Rightarrow> bool" where
  "is_canonical r \<longleftrightarrow> canonical_relative_parts r = Inr (tail_parts r)"

lemma is_canonicalD:
  assumes "is_canonical r"
  shows "canonical_relative_parts r = Inr (tail_parts r)" and "tail_parts r \<noteq> []" and "clean (tail_parts r)"
    and "r = join ''/'' (tail_parts r)"
  using assms canonical_relative [of r "tail_parts r"] by (auto simp: is_canonical_def)

text \<open>No link and no file on the way to a target.\<close>

definition reachable_target :: "tree \<Rightarrow> path \<Rightarrow> string \<Rightarrow> bool" where
  "reachable_target t root r \<longleftrightarrow> is_canonical r \<and> root \<noteq> [] \<and> (\<forall>c. strict_prefix c (root @ tail_parts r) \<longrightarrow> open_way t c)"

lemma blocked_way: "is_link t c \<or> present t c \<and> \<not> is_dir t c \<longleftrightarrow> \<not> open_way t c"
  by (auto simp: is_link_def is_dir_def present_def open_way_def)

lemma validated_root_iff:
  "validated_root t root = Inr x \<longleftrightarrow> x = root \<and> root \<noteq> [] \<and> (\<forall>c. prefix c root \<longrightarrow> open_way t c)"
  by (auto simp: validated_root_def blocked_way)

lemma spec_root:
  assumes "\<And>s. P s \<Longrightarrow> I s" and "\<And>s. P s \<Longrightarrow> q \<Longrightarrow> root \<noteq> [] \<and> (\<forall>c. prefix c root \<longrightarrow> open_way t c)"
  shows "spec q P (lift (validated_root t root)) (\<lambda>x s. P s \<and> x = root) I"
proof (rule spec_lift)
  fix e s assume s: "P s" and e: "validated_root t root = Inl e"
  have "\<not> q"
  proof
    assume q
    with assms(2) [OF s] validated_root_iff [of t root root] e show False by simp
  qed
  with assms(1) [OF s] show "I s \<and> \<not> q" by simp
qed (simp add: validated_root_iff)

lemma way_up: "prefix c (a @ b) \<Longrightarrow> prefix c (a @ b @ d)"
  by (metis append.assoc prefix_prefix)

lemma tl_prefixes_snoc: "tl (prefixes (xs @ [x])) = tl (prefixes xs) @ [xs @ [x]]"
  by (cases xs) auto

lemma spec_parent_steps_read:
  assumes "\<And>s. P s \<Longrightarrow> I s" and "\<And>s c. q \<Longrightarrow> P s \<Longrightarrow> prefix c (root @ xs) \<Longrightarrow> open_way (st_tree s) c"
  shows "spec q P (eachIO (parent_step False) (map ((@) root) (tl (prefixes xs)))) (\<lambda>_. P) I"
proof (rule spec_each_keep)
  fix c assume "c \<in> set (map ((@) root) (tl (prefixes xs)))"
  then have c: "prefix c (root @ xs)" by (auto dest: list.set_sel(2) [rotated])
  show "spec q P (parent_step False c) (\<lambda>_. P) I"
    unfolding parent_step_def blocked_way
  proof (rule spec_tree, rule spec_if)
    fix t assume "\<not> open_way t c"
    then show "spec q (\<lambda>s. P s \<and> st_tree s = t) (raise SyncError) (\<lambda>_. P) I"
      using assms(1) assms(2) [OF _ _ c] by (intro spec_raise) blast
  qed (auto intro: spec_ret)
qed

lemma spec_parent_steps_make:
  assumes "grows (\<lambda>c. prefix c (root @ xs)) P" and "\<And>s. P s \<Longrightarrow> I s" and "\<And>s. P s \<Longrightarrow> is_dir (st_tree s) root"
    and "\<And>s c. q \<Longrightarrow> P s \<Longrightarrow> prefix c (root @ xs) \<Longrightarrow> open_way (st_tree s) c"
  shows "spec q P (eachIO (parent_step True) (map ((@) root) (tl (prefixes xs)))) (\<lambda>_ s. P s \<and> is_dir (st_tree s) (root @ xs)) I"
  using assms(1,4)
proof (induction xs rule: rev_induct)
  case Nil
  then show ?case using assms(3) by (auto intro: spec_ret)
next
  case (snoc x xs)
  let ?P = "\<lambda>s. P s \<and> is_dir (st_tree s) (root @ xs)"
  have a: "spec q P (eachIO (parent_step True) (map ((@) root) (tl (prefixes xs)))) (\<lambda>_. ?P) I"
  proof (rule snoc.IH)
    show "grows (\<lambda>c. prefix c (root @ xs)) P" by (rule grows_subset [OF snoc.prems(1)]) (rule way_up)
    show "open_way (st_tree s) c" if "q" "P s" "prefix c (root @ xs)" for s c
      using snoc.prems(2) [OF that(1,2) way_up [OF that(3)]] .
  qed
  have g: "grows (\<lambda>c. c = root @ xs @ [x]) ?P"
    by (intro grows_and grows_is_dir grows_subset [OF snoc.prems(1)]) auto
  have "spec q ?P (on_tree (make_dir_ok (root @ xs @ [x]))) (\<lambda>_ s. ?P s \<and> is_dir (st_tree s) (root @ xs @ [x])) I"
    using snoc.prems(2) assms(2) by (intro spec_make_dir_ok [OF g]) (auto simp: butlast_append)
  then have m: "spec q ?P (on_tree (make_dir_ok (root @ xs @ [x]))) (\<lambda>_ s. P s \<and> is_dir (st_tree s) (root @ xs @ [x])) I"
    by (rule spec_post) auto
  have "spec q ?P (parent_step True (root @ xs @ [x])) (\<lambda>_ s. P s \<and> is_dir (st_tree s) (root @ xs @ [x])) I"
    unfolding parent_step_def blocked_way
  proof (rule spec_tree, rule spec_if)
    fix t assume "\<not> open_way t (root @ xs @ [x])"
    then show "spec q (\<lambda>s. ?P s \<and> st_tree s = t) (raise SyncError) (\<lambda>_ s. P s \<and> is_dir (st_tree s) (root @ xs @ [x])) I"
      using snoc.prems(2) [of _ "root @ xs @ [x]"] assms(2) by (intro spec_raise) blast
  next
    fix t
    show "spec q (\<lambda>s. ?P s \<and> st_tree s = t) (if True then on_tree (make_dir_ok (root @ xs @ [x])) else ret ()) (\<lambda>_ s. P s \<and> is_dir (st_tree s) (root @ xs @ [x])) I"
      using m by (auto intro: spec_pre)
  qed
  then have b: "spec q ?P (eachIO (parent_step True) [root @ xs @ [x]]) (\<lambda>_ s. P s \<and> is_dir (st_tree s) (root @ xs @ [x])) I"
    by (auto intro: spec_bind spec_ret)
  show ?case by (simp only: tl_prefixes_snoc map_append eachIO_append list.map) (rule spec_bind [OF a b])
qed

lemma prefix_target: "parts \<noteq> [] \<Longrightarrow> prefix c (root @ butlast parts) \<Longrightarrow> strict_prefix c (root @ parts)"
  by (metis append.assoc append_butlast_last_id prefix_order.le_less_trans prefix_order.less_le strict_prefixI' append_Cons)

lemma reachable_way: "reachable_target t root r \<Longrightarrow> prefix c (root @ butlast (tail_parts r)) \<Longrightarrow> open_way t c"
  unfolding reachable_target_def using prefix_target [OF is_canonicalD(2)] by blast

lemma reachable_root: "reachable_target t root r \<Longrightarrow> root \<noteq> [] \<and> (\<forall>c. prefix c root \<longrightarrow> open_way t c)"
  using reachable_way by (auto simp: reachable_target_def)

lemma spec_safe_target_read:
  assumes "\<And>s. P s \<Longrightarrow> I s" and "\<And>s. q \<Longrightarrow> P s \<Longrightarrow> reachable_target (st_tree s) root r"
  shows "spec q P (safe_target root r False) (\<lambda>x s. P s \<and> x = root @ tail_parts r \<and> is_canonical r) I"
proof -
  have l: "spec q P (lift (canonical_relative_parts r)) (\<lambda>parts s. P s \<and> parts = tail_parts r \<and> is_canonical r) I"
    using assms canonical_relative(1) by (intro spec_lift) (auto simp: is_canonical_def reachable_target_def)
  show ?thesis unfolding safe_target_def
  proof (rule spec_bind [OF l], rule spec_tree)
    fix parts t
    let ?P = "\<lambda>s. (P s \<and> parts = tail_parts r \<and> is_canonical r) \<and> st_tree s = t"
    have v: "spec q ?P (lift (validated_root t root)) (\<lambda>x s. ?P s \<and> x = root) I"
      using assms(1) reachable_root [OF assms(2)] by (intro spec_root) auto
    have e: "spec q (\<lambda>s. ?P s \<and> x = root) (eachIO (parent_step False) (map ((@) x) (tl (prefixes (butlast parts))))) (\<lambda>_ s. ?P s \<and> x = root) I" for x
    proof (rule spec_fact [where A = "x = root \<and> parts = tail_parts r \<and> is_canonical r"])
      assume a: "x = root \<and> parts = tail_parts r \<and> is_canonical r"
      show "spec q (\<lambda>s. ?P s \<and> x = root) (eachIO (parent_step False) (map ((@) x) (tl (prefixes (butlast parts))))) (\<lambda>_ s. ?P s \<and> x = root) I"
      proof (rule spec_parent_steps_read)
        fix s c assume "q" "?P s \<and> x = root" "prefix c (x @ butlast parts)"
        then show "open_way (st_tree s) c"
          using reachable_way [OF assms(2), of s] a by auto
      qed (use assms(1) in auto)
    qed auto
    show "spec q ?P (bindIO (lift (validated_root t root)) (\<lambda>root. seqIO (if False then make_dirs_ok root else ret ())
          (seqIO (eachIO (parent_step False) (map ((@) root) (tl (prefixes (butlast parts))))) (ret (root @ parts)))))
        (\<lambda>x s. P s \<and> x = root @ tail_parts r \<and> is_canonical r) I"
      by (rule spec_bind [OF v], simp only: if_False bindIO_ret, rule spec_bind [OF e]) (auto intro: spec_ret)
  qed
qed

lemma spec_safe_target_make:
  assumes "grows (\<lambda>c. strict_prefix c (root @ tail_parts r)) P"
    and "\<And>s. P s \<Longrightarrow> I s" and "\<And>s. q \<Longrightarrow> P s \<Longrightarrow> reachable_target (st_tree s) root r"
  shows "spec q P (safe_target root r True) (\<lambda>x s. P s \<and> x = root @ tail_parts r \<and> is_canonical r \<and> is_dir (st_tree s) (butlast x)) I"
proof -
  have l: "spec q P (lift (canonical_relative_parts r)) (\<lambda>parts s. P s \<and> parts = tail_parts r \<and> is_canonical r) I"
    using assms canonical_relative(1) by (intro spec_lift) (auto simp: is_canonical_def reachable_target_def)
  show ?thesis unfolding safe_target_def
  proof (rule spec_bind [OF l], rule spec_fact [where A = "is_canonical r"], blast, rule spec_fact)
    fix parts
    show "P s \<and> parts = tail_parts r \<and> is_canonical r \<Longrightarrow> parts = tail_parts r" for s by simp
    assume c: "is_canonical r" and parts: "parts = tail_parts r"
    have ne: "tail_parts r \<noteq> []" by (rule is_canonicalD(2) [OF c])
    have way: "open_way (st_tree s) x" if "q" "P s" "prefix x (root @ butlast (tail_parts r))" for s x
      using reachable_way [OF assms(3) [OF that(1,2)] that(3)] .
    have g: "grows (\<lambda>x. prefix x (root @ butlast (tail_parts r))) P"
      using prefix_target [OF ne] by (intro grows_subset [OF assms(1)]) auto
    have d: "spec q P (make_dirs_ok root) (\<lambda>_ s. P s \<and> is_dir (st_tree s) root) I"
      using way by (intro spec_make_dirs_ok grows_subset [OF g]) (auto simp: assms(2) prefix_def)
    have e: "spec q (\<lambda>s. P s \<and> is_dir (st_tree s) root) (eachIO (parent_step True) (map ((@) root) (tl (prefixes (butlast (tail_parts r))))))
        (\<lambda>_ s. (P s \<and> is_dir (st_tree s) root) \<and> is_dir (st_tree s) (root @ butlast (tail_parts r))) I"
      using way assms(2) by (intro spec_parent_steps_make grows_and grows_is_dir g) auto
    have rest: "spec q P (seqIO (make_dirs_ok root) (seqIO (eachIO (parent_step True) (map ((@) root) (tl (prefixes (butlast (tail_parts r))))))
        (ret (root @ tail_parts r)))) (\<lambda>x s. P s \<and> x = root @ tail_parts r \<and> is_canonical r \<and> is_dir (st_tree s) (butlast x)) I"
      by (rule spec_bind [OF d], rule spec_bind [OF e]) (auto intro!: spec_ret simp: c butlast_append ne)
    show "spec q (\<lambda>s. P s \<and> parts = tail_parts r \<and> is_canonical r) (bindIO tree_of (\<lambda>t. bindIO (lift (validated_root t root))
        (\<lambda>root. seqIO (if True then make_dirs_ok root else ret ())
          (seqIO (eachIO (parent_step True) (map ((@) root) (tl (prefixes (butlast parts))))) (ret (root @ parts))))))
        (\<lambda>x s. P s \<and> x = root @ tail_parts r \<and> is_canonical r \<and> is_dir (st_tree s) (butlast x)) I"
    proof (rule spec_tree)
      fix t
      let ?P = "\<lambda>s. (P s \<and> parts = tail_parts r \<and> is_canonical r) \<and> st_tree s = t"
      have v: "spec q ?P (lift (validated_root t root)) (\<lambda>x s. ?P s \<and> x = root) I"
        using assms(2) reachable_root [OF assms(3)] by (intro spec_root) auto
      show "spec q ?P (bindIO (lift (validated_root t root))
        (\<lambda>root. seqIO (if True then make_dirs_ok root else ret ())
          (seqIO (eachIO (parent_step True) (map ((@) root) (tl (prefixes (butlast parts))))) (ret (root @ parts)))))
        (\<lambda>x s. P s \<and> x = root @ tail_parts r \<and> is_canonical r \<and> is_dir (st_tree s) (butlast x)) I"
      proof (rule spec_bind [OF v], rule spec_fact)
        fix x
        show "?P s \<and> x = root \<Longrightarrow> x = root" for s by simp
        assume "x = root"
        then show "spec q (\<lambda>s. ?P s \<and> x = root) (seqIO (if True then make_dirs_ok x else ret ())
            (seqIO (eachIO (parent_step True) (map ((@) x) (tl (prefixes (butlast parts))))) (ret (x @ parts))))
          (\<lambda>x s. P s \<and> x = root @ tail_parts r \<and> is_canonical r \<and> is_dir (st_tree s) (butlast x)) I"
          using rest parts by (auto intro: spec_pre)
      qed
    qed
  qed
qed

subsection \<open>Verification and copies\<close>

text \<open>What the path holds is an artifact, or nothing when there is none.\<close>

definition holds_version :: "tree \<Rightarrow> path \<Rightarrow> save_artifact option \<Rightarrow> bool" where
  "holds_version t p version =
     (case version of None \<Rightarrow> \<not> present t p
      | Some a \<Rightarrow> (case content t p of None \<Rightarrow> False | Some b \<Rightarrow> matches b a))"

lemma holds_Some: "holds_version t p (Some a) \<longleftrightarrow> (\<exists>b. content t p = Some b \<and> matches b a)"
  by (simp add: holds_version_def split: option.split)

lemma holds_version_cong: "lookup t p = lookup t' p \<Longrightarrow> holds_version t p a = holds_version t' p a"
  by (auto simp: holds_version_def content_def present_def split: option.split)

lemma spec_verify_one:
  assumes "\<And>s. P s \<Longrightarrow> I s" and "\<And>s. q \<Longrightarrow> P s \<Longrightarrow> holds_version (st_tree s) p (Some a)"
  shows "spec q P (verify_one p a) (\<lambda>_ s. P s \<and> holds_version (st_tree s) p (Some a)) I"
proof -
  have r: "spec q P read_disk (\<lambda>_. P) I" using assms(1) by (intro spec_read) simp
  show ?thesis unfolding verify_one_def
  proof (rule spec_bind [OF r], rule spec_tree)
    fix t
    show "spec q (\<lambda>s. P s \<and> st_tree s = t) (case content t p of None \<Rightarrow> raise VerificationError
        | Some b \<Rightarrow> check (matches b a) VerificationError) (\<lambda>_ s. P s \<and> holds_version (st_tree s) p (Some a)) I"
    proof (cases "content t p")
      case None
      have "spec q (\<lambda>s. P s \<and> st_tree s = t) (raise VerificationError) (\<lambda>_ s. P s \<and> holds_version (st_tree s) p (Some a)) I"
      proof (rule spec_reject)
        show False if "P s \<and> st_tree s = t" q for s using assms(2) [of s] that None by (auto simp: holds_Some)
      qed (use assms(1) in blast)
      then show ?thesis by (simp add: None)
    next
      case (Some b)
      have "spec q (\<lambda>s. P s \<and> st_tree s = t) (check (matches b a) VerificationError) (\<lambda>_ s. P s \<and> holds_version (st_tree s) p (Some a)) I"
      proof (rule spec_check)
        fix s assume s: "P s \<and> st_tree s = t"
        show "(matches b a \<longrightarrow> P s \<and> holds_version (st_tree s) p (Some a)) \<and> (\<not> matches b a \<longrightarrow> I s \<and> \<not> q)"
          using s Some assms(1) assms(2) [of s] by (auto simp: holds_Some)
      qed
      then show ?thesis by (simp add: Some)
    qed
  qed
qed

lemma spec_path_matches:
  assumes "\<And>s. P s \<Longrightarrow> I s"
  shows "spec q P (path_matches p a) (\<lambda>b s. P s \<and> (b \<longrightarrow> holds_version (st_tree s) p a) \<and> (q \<longrightarrow> b = holds_version (st_tree s) p a)) I"
  unfolding path_matches_def
proof (rule spec_tree)
  fix t
  let ?Q = "\<lambda>b s. P s \<and> (b \<longrightarrow> holds_version (st_tree s) p a) \<and> (q \<longrightarrow> b = holds_version (st_tree s) p a)"
  let ?P = "\<lambda>s. P s \<and> st_tree s = t"
  show "spec q ?P (case a of None \<Rightarrow> ret (\<not> present t p)
     | Some a \<Rightarrow> (case content t p of None \<Rightarrow> ret False
                 | Some b \<Rightarrow> catchIO (seqIO read_disk (ret (matches b a))) (\<lambda>_. ret False))) ?Q I"
  proof (cases a)
    case None
    then show ?thesis by (auto intro!: spec_ret simp: holds_version_def)
  next
    case (Some v)
    show ?thesis
    proof (cases "content t p")
      case None
      then show ?thesis by (auto intro!: spec_ret simp: holds_version_def Some)
    next
      case (Some b)
      have r: "spec q ?P read_disk (\<lambda>_. ?P) ?P" by (rule spec_read) simp
      have "spec q ?P (seqIO read_disk (ret (matches b v))) ?Q ?P"
        by (rule spec_bind [OF r], rule spec_ret) (use Some \<open>a = Some v\<close> in \<open>auto simp: holds_version_def\<close>)
      then have "spec q ?P (catchIO (seqIO read_disk (ret (matches b v))) (\<lambda>_. ret False)) ?Q I"
        by (rule spec_catch) (auto intro: spec_ret assms)
      then show ?thesis by (simp add: Some \<open>a = Some v\<close>)
    qed
  qed
qed

lemma spec_fsync_file:
  assumes "\<And>s. P s \<Longrightarrow> I s" and "\<And>s. q \<Longrightarrow> P s \<Longrightarrow> content (st_tree s) p \<noteq> None"
  shows "spec q P (fsync_file p) (\<lambda>_. P) I"
  unfolding fsync_file_def
proof (rule spec_tree, rule spec_if)
  fix t
  show "spec q (\<lambda>s. P s \<and> st_tree s = t) (raise VerificationError) (\<lambda>_. P) I" if "content t p = None"
  proof (rule spec_reject)
    show False if "P s \<and> st_tree s = t" q for s using assms(2) [of s] that \<open>content t p = None\<close> by auto
  qed (use assms(1) in blast)
  show "spec q (\<lambda>s. P s \<and> st_tree s = t) read_disk (\<lambda>_. P) I"
    using assms(1) by (intro spec_read) auto
qed

text \<open>A state predicate that writing or removing the file at a path does not disturb.\<close>

definition writable :: "path \<Rightarrow> (state \<Rightarrow> bool) \<Rightarrow> bool" where
  "writable p P \<longleftrightarrow> (\<forall>s n t. P s \<longrightarrow> \<not> is_dir (st_tree s) p \<longrightarrow> (n = None \<or> (\<exists>b. n = Some (File b)) \<and> is_dir (st_tree s) (butlast p))
     \<longrightarrow> lookup t = (lookup (st_tree s))(p := n) \<longrightarrow> (wf_tree (st_tree s) \<longrightarrow> wf_tree t) \<longrightarrow> P (s\<lparr>st_tree := t\<rparr>))"

lemma writableD:
  "writable p P \<Longrightarrow> P s \<Longrightarrow> \<not> is_dir (st_tree s) p \<Longrightarrow> n = None \<or> (\<exists>b. n = Some (File b)) \<and> is_dir (st_tree s) (butlast p)
    \<Longrightarrow> lookup t = (lookup (st_tree s))(p := n) \<Longrightarrow> (wf_tree (st_tree s) \<Longrightarrow> wf_tree t) \<Longrightarrow> P (s\<lparr>st_tree := t\<rparr>)"
  unfolding writable_def by blast

lemma writable_and: "writable p P \<Longrightarrow> writable p Q \<Longrightarrow> writable p (\<lambda>s. P s \<and> Q s)"
  unfolding writable_def by blast

lemma butlast_neq: "p \<noteq> [] \<Longrightarrow> butlast p \<noteq> p"
  by (metis append_butlast_last_id not_Cons_self2 self_append_conv)

lemma writable_parent: "p \<noteq> [] \<Longrightarrow> writable p (\<lambda>s. is_dir (st_tree s) (butlast p))"
  using butlast_neq by (auto simp: writable_def is_dir_def)

lemma spec_unlink:
  assumes "writable p P" and "\<And>s. P s \<Longrightarrow> I s" and "\<And>s. q \<Longrightarrow> P s \<Longrightarrow> \<not> is_dir (st_tree s) p"
  shows "spec q P (on_tree (unlink p)) (\<lambda>_ s. P s \<and> lookup (st_tree s) p = None) I"
proof (rule spec_on_tree)
  fix s assume s: "P s"
  show "I s \<and> (case unlink p (st_tree s) of None \<Rightarrow> \<not> q
      | Some t \<Rightarrow> P (s\<lparr>st_tree := t\<rparr>) \<and> lookup (st_tree (s\<lparr>st_tree := t\<rparr>)) p = None)"
  proof (cases "unlink p (st_tree s)")
    case None
    then show ?thesis using s assms(2) assms(3) [OF _ s] by (auto simp: unlink_def split: if_splits)
  next
    case (Some t)
    have "P (s\<lparr>st_tree := t\<rparr>)"
      by (rule writableD [OF assms(1) s unlinkD(3) [OF Some] _ unlinkD(1) [OF Some]]) (use unlinkD(4) [OF Some] in auto)
    then show ?thesis using Some unlinkD(1) [OF Some] s assms(2) by simp
  qed
qed

lemma concat_chunks: "concat (chunks b) = b"
proof (induction b rule: chunks.induct)
  case (1 b)
  then show ?case by (cases "b = []") (simp_all add: chunks.simps [of b] chunks.simps [of "[]"])
qed

lemma spec_append_chunks:
  assumes "writable p P" and "\<And>s. P s \<Longrightarrow> I s" and "\<And>s. P s \<Longrightarrow> is_dir (st_tree s) (butlast p)"
  shows "spec q (\<lambda>s. P s \<and> content (st_tree s) p = Some []) (eachIO (\<lambda>chunk. on_tree (append_file p chunk)) cs)
     (\<lambda>_ s. P s \<and> content (st_tree s) p = Some (concat cs)) I"
proof -
  let ?J = "\<lambda>pre s. P s \<and> content (st_tree s) p = Some (concat pre)"
  have "spec q (?J []) (eachIO (\<lambda>chunk. on_tree (append_file p chunk)) cs) (\<lambda>_. ?J cs) I"
  proof (rule spec_each, rule spec_on_tree)
    fix pre c post s assume s: "?J pre s"
    then obtain t where t: "append_file p c (st_tree s) = Some t" by (auto simp: append_file_def)
    from append_fileD(1) [OF t] s have l: "lookup t = (lookup (st_tree s))(p \<mapsto> File (concat pre @ c))" by (auto simp: content_iff)
    have "P (s\<lparr>st_tree := t\<rparr>)"
      by (rule writableD [OF assms(1) _ _ _ l]) (use s append_fileD(3) [OF t] assms(3) in \<open>auto simp: content_iff is_dir_def\<close>)
    then show "I s \<and> (case append_file p c (st_tree s) of None \<Rightarrow> \<not> q | Some t \<Rightarrow> ?J (pre @ [c]) (s\<lparr>st_tree := t\<rparr>))"
      using s assms(2) l by (simp add: t content_iff)
  qed
  then show ?thesis by simp
qed

text \<open>
  A copy: where the content of the source is known it is what the destination holds; with a quiet
  schedule it must be known.
\<close>

lemma spec_materialize:
  assumes "dest \<noteq> []" and "grows (\<lambda>c. strict_prefix c dest) P" and w: "writable dest P" and i: "\<And>s. P s \<Longrightarrow> I s"
    and known: "\<And>s. known \<Longrightarrow> P s \<Longrightarrow> content (st_tree s) source = bytes"
    and q: "\<And>s. q \<Longrightarrow> P s \<Longrightarrow> known \<and> bytes \<noteq> None \<and> \<not> is_dir (st_tree s) dest \<and> (\<forall>c. strict_prefix c dest \<longrightarrow> open_way (st_tree s) c)"
  shows "spec q P (materialize dest source) (\<lambda>_ s. P s \<and> content (st_tree s) dest \<noteq> None \<and> (known \<longrightarrow> content (st_tree s) dest = bytes)) I"
proof -
  have sp: "strict_prefix c dest" if "prefix c (butlast dest)" for c
    using that assms(1) by (metis append_butlast_last_id prefix_snoc prefix_order.less_le prefix_order.antisym butlast_neq prefixI)
  let ?P = "\<lambda>s. P s \<and> is_dir (st_tree s) (butlast dest)"
  have a: "spec q P (make_dirs_ok (butlast dest)) (\<lambda>_. ?P) I"
    using q by (intro spec_make_dirs_ok grows_subset [OF assms(2)]) (auto simp: sp i)
  have wp: "writable dest ?P" by (intro writable_and w writable_parent assms(1))
  have b: "spec q ?P (on_tree (unlink dest)) (\<lambda>_ s. ?P s \<and> lookup (st_tree s) dest = None) I"
    using q i by (intro spec_unlink [OF wp]) auto
  let ?Q = "\<lambda>s. ?P s \<and> lookup (st_tree s) dest = None"
  have c: "spec q ?Q read_disk (\<lambda>_. ?Q) I" using i by (intro spec_read) auto
  show ?thesis unfolding materialize_def
  proof (rule spec_bind [OF a], rule spec_bind [OF b], rule spec_bind [OF c], rule spec_tree)
    fix t
    let ?R = "\<lambda>_ s. P s \<and> content (st_tree s) dest \<noteq> None \<and> (known \<longrightarrow> content (st_tree s) dest = bytes)"
    show "spec q (\<lambda>s. ?Q s \<and> st_tree s = t) (case content t source of None \<Rightarrow> raise OsFailure
       | Some b \<Rightarrow> seqIO (on_tree (create_file dest)) (seqIO (eachIO (\<lambda>chunk. on_tree (append_file dest chunk)) (chunks b)) read_disk)) ?R I"
    proof (cases "content t source")
      case None
      have "spec q (\<lambda>s. ?Q s \<and> st_tree s = t) (raise OsFailure) ?R I"
      proof (rule spec_reject)
        show False if "?Q s \<and> st_tree s = t" q for s using q [of s] known [of s] that None by auto
      qed (use i in blast)
      then show ?thesis by (simp add: None)
    next
      case (Some b)
      let ?S = "\<lambda>s. ?P s \<and> (known \<longrightarrow> bytes = Some b)"
      have ws: "writable dest ?S" by (intro writable_and wp) (simp add: writable_def)
      have d: "spec q (\<lambda>s. ?Q s \<and> st_tree s = t) (on_tree (create_file dest)) (\<lambda>_ s. ?S s \<and> content (st_tree s) dest = Some []) I"
      proof (rule spec_on_tree)
        fix s assume s: "?Q s \<and> st_tree s = t"
        then obtain u where u: "create_file dest (st_tree s) = Some u" using assms(1) by (auto simp: create_file_def)
        have "?P (s\<lparr>st_tree := u\<rparr>)"
          by (rule writableD [OF wp _ _ _ create_fileD(1) [OF u]]) (use s create_fileD(3,4) [OF u] in \<open>auto simp: is_dir_def\<close>)
        moreover have "known \<longrightarrow> bytes = Some b" using s known Some by auto
        ultimately show "I s \<and> (case create_file dest (st_tree s) of None \<Rightarrow> \<not> q
            | Some t \<Rightarrow> ?S (s\<lparr>st_tree := t\<rparr>) \<and> content (st_tree (s\<lparr>st_tree := t\<rparr>)) dest = Some [])"
          unfolding u using s i by (simp add: create_fileD(1) [OF u] content_iff)
      qed
      have e: "spec q (\<lambda>s. ?S s \<and> content (st_tree s) dest = Some []) (eachIO (\<lambda>chunk. on_tree (append_file dest chunk)) (chunks b))
          (\<lambda>_ s. ?S s \<and> content (st_tree s) dest = Some (concat (chunks b))) I"
        using i by (intro spec_append_chunks [OF ws]) auto
      have "spec q (\<lambda>s. ?Q s \<and> st_tree s = t) (seqIO (on_tree (create_file dest)) (seqIO (eachIO (\<lambda>chunk. on_tree (append_file dest chunk)) (chunks b)) read_disk)) ?R I"
        by (rule spec_bind [OF d], rule spec_bind [OF e], rule spec_read) (use i in \<open>auto simp: concat_chunks\<close>)
      then show ?thesis by (simp add: Some)
    qed
  qed
qed

subsection \<open>Removal\<close>

text \<open>A state predicate that removing entries at and below a path does not disturb.\<close>

definition clearable :: "path \<Rightarrow> (state \<Rightarrow> bool) \<Rightarrow> bool" where
  "clearable p P \<longleftrightarrow> (\<forall>s r t. P s \<longrightarrow> prefix p r \<longrightarrow> lookup t = (lookup (st_tree s))(r := None)
     \<longrightarrow> (wf_tree (st_tree s) \<longrightarrow> wf_tree t) \<longrightarrow> P (s\<lparr>st_tree := t\<rparr>))"

lemma clearableD:
  "clearable p P \<Longrightarrow> P s \<Longrightarrow> prefix p r \<Longrightarrow> lookup t = (lookup (st_tree s))(r := None) \<Longrightarrow> (wf_tree (st_tree s) \<Longrightarrow> wf_tree t)
    \<Longrightarrow> P (s\<lparr>st_tree := t\<rparr>)"
  unfolding clearable_def by blast

lemma removal_order_set: "p \<noteq> [] \<Longrightarrow> set (removal_order p t) = {r. prefix p r \<and> lookup t r \<noteq> None}"
proof -
  assume p: "p \<noteq> []"
  have "lookup t r \<noteq> None \<longleftrightarrow> r \<in> fst ` set t" if "prefix p r" for r
  proof -
    from that p have "r \<noteq> []" by auto
    then show ?thesis by (auto simp: lookup_def map_of_eq_None_iff simp del: not_None_eq)
  qed
  then show ?thesis by (auto simp: removal_order_def simp del: not_None_eq)
qed

lemma removal_children_first:
  assumes "removal_order p t = pre @ r # post" and "p \<noteq> []" and "lookup t c \<noteq> None" and "c \<noteq> []" and "butlast c = r"
  shows "c \<in> set pre"
proof -
  have "r \<in> set (removal_order p t)" by (simp add: assms(1))
  then have "prefix p r" using assms(2) removal_order_set by auto
  then have "prefix p c" using assms(4,5) by (metis append_butlast_last_id prefix_prefix)
  then have "c \<in> set (removal_order p t)" using assms(2,3) removal_order_set by auto
  moreover have "c \<noteq> r" using assms(4,5) butlast_neq [of c] by auto
  moreover have "c \<notin> set post"
  proof
    assume c: "c \<in> set post"
    have "sorted (map length (rev (removal_order p t)))" by (simp add: removal_order_def)
    then have "sorted (map length (rev post @ r # rev pre))" by (simp add: assms(1))
    then have "length c \<le> length r" using c by (auto simp: sorted_append)
    moreover have "length r < length c" using assms(4,5) by (cases c) auto
    ultimately show False by simp
  qed
  ultimately show ?thesis by (auto simp: assms(1))
qed

lemma spec_remove_tree:
  assumes "p \<noteq> []" and "clearable p P" and i: "\<And>s. P s \<Longrightarrow> I s" and wf: "\<And>s. P s \<Longrightarrow> wf_tree (st_tree s)"
  shows "spec q P (remove_tree p) (\<lambda>_ s. P s \<and> lookup (st_tree s) p = None) I"
  unfolding remove_tree_def
proof (rule spec_tree)
  fix t
  let ?J = "\<lambda>pre s. P s \<and> (\<forall>r. lookup (st_tree s) r = (if r \<in> set pre then None else lookup t r))"
  have "spec q (?J []) (eachIO (\<lambda>q. on_tree (remove_entry q)) (removal_order p t)) (\<lambda>_. ?J (removal_order p t)) I"
  proof (rule spec_each, rule spec_on_tree)
    fix pre r post s assume o: "removal_order p t = pre @ r # post" and s: "?J pre s"
    have "r \<in> set (removal_order p t)" by (simp add: o)
    then have r: "prefix p r" "r \<noteq> []" using removal_order_set [OF assms(1), of t] assms(1) by auto
    let ?t = "AList.delete r (st_tree s)"
    have l: "lookup ?t = (lookup (st_tree s))(r := None)" using r by (simp add: lookup_delete)
    have w: "wf_tree ?t"
    proof (rule wf_delete)
      show "\<forall>c. c \<noteq> [] \<and> butlast c = r \<longrightarrow> lookup (st_tree s) c = None"
      proof (intro allI impI, elim conjE)
        fix c assume "c \<noteq> []" "butlast c = r"
        then show "lookup (st_tree s) c = None"
          using s removal_children_first [OF o assms(1), of c] by (cases "lookup t c") auto
      qed
    qed (use s r wf in auto)
    have "P (s\<lparr>st_tree := ?t\<rparr>)" using s by (intro clearableD [OF assms(2) _ r(1) l]) (auto simp: w)
    then show "I s \<and> (case remove_entry r (st_tree s) of None \<Rightarrow> \<not> q | Some t \<Rightarrow> ?J (pre @ [r]) (s\<lparr>st_tree := t\<rparr>))"
      using s i l by (auto simp: remove_entry_def)
  qed
  then show "spec q (\<lambda>s. P s \<and> st_tree s = t) (eachIO (\<lambda>q. on_tree (remove_entry q)) (removal_order p t)) (\<lambda>_ s. P s \<and> lookup (st_tree s) p = None) I"
    by (rule spec_conseq) (auto simp: removal_order_set [OF assms(1)])
qed

lemma spec_remove_owned_tree:
  assumes "p \<noteq> []" and "clearable p P" and i: "\<And>s. P s \<Longrightarrow> I s" and wf: "\<And>s. P s \<Longrightarrow> wf_tree (st_tree s)"
    and q: "\<And>s. q \<Longrightarrow> P s \<Longrightarrow> open_way (st_tree s) p"
  shows "spec q P (remove_owned_tree p) (\<lambda>_ s. P s \<and> lookup (st_tree s) p = None) I"
  unfolding remove_owned_tree_def
proof (rule spec_tree, intro spec_if)
  fix t
  let ?P = "\<lambda>s. P s \<and> st_tree s = t" and ?Q = "\<lambda>_ s. P s \<and> lookup (st_tree s) p = None"
  show "spec q ?P (raise SyncError) ?Q I" if "is_link t p"
  proof (rule spec_reject)
    show False if "?P s" q for s using q [of s] that \<open>is_link t p\<close> by (auto simp: is_link_def open_way_def)
  qed (use i in blast)
  show "spec q ?P (ret ()) ?Q I" if "\<not> present t p" using that by (intro spec_ret) (auto simp: present_def)
  show "spec q ?P (raise SyncError) ?Q I" if d: "\<not> \<not> present t p" "\<not> is_dir t p"
  proof (rule spec_reject)
    show False if "?P s" q for s using q [of s] that d by (auto simp: present_def is_dir_def open_way_def)
  qed (use i in blast)
  show "spec q ?P (remove_tree p) ?Q I"
    by (rule spec_pre [OF spec_remove_tree [OF assms(1,2) i wf]]) auto
qed

end
