(* ===== verification/TransactionJournal.thy ===== *)
theory TransactionJournal
  imports TransactionLogic
begin

text \<open>
  The recovery journal of a selected transaction: what a preparation writes reads back as the same
  views, whose verification scope falls back to the journaled changes.
\<close>

subsection \<open>Paths\<close>

lemma tail_parts_rooted: "clean p \<Longrightarrow> p \<noteq> [] \<Longrightarrow> tail_parts (path_text p) = p"
  by (auto simp: tail_parts_def path_text_def split_clean clean_def)

lemma journal_absolute_path_text: "clean p \<Longrightarrow> p \<noteq> [] \<Longrightarrow> journal_absolute_path (JStr (path_text p)) = Inr p"
  using tail_parts_rooted [of p]
  by (auto simp: journal_absolute_path_def path_text_def is_absolute_def clean_def startswith_def)

lemma operation_id_no_slash: "is_operation_id op \<Longrightarrow> CHR ''/'' \<notin> set op"
  by (auto simp: is_operation_id_def list_all_iff)

lemma clean_last: "clean root \<Longrightarrow> root \<noteq> [] \<Longrightarrow> CHR ''/'' \<notin> set (path_base root)"
  by (auto simp: path_base_def clean_def)

lemma clean_owned:
  assumes "clean root" and "root \<noteq> []" and "is_operation_id op"
  shows "clean (stage_path root op)" and "clean (candidate_path root op)" and "clean (previous_path root)"
proof -
  note s = clean_butlast [OF assms(1)] clean_last [OF assms(1,2)] operation_id_no_slash [OF assms(3)]
  have l: "''.savesync-stage-'' @ op \<noteq> []" by simp
  show "clean (stage_path root op)" and "clean (candidate_path root op)" and "clean (previous_path root)"
    using s by (auto simp: stage_path_def candidate_path_def previous_path_def clean_def append_eq_Cons_conv)
qed

subsection \<open>Manifests\<close>

definition tidy_manifest :: "manifest \<Rightarrow> bool" where
  "tidy_manifest m \<longleftrightarrow> sorted (map fst m) \<and> distinct (map fst m) \<and> validate_manifest m = Inr ()"

lemma bindE_unit: "bindE r (\<lambda>_. Inr ()) = Inr () \<longleftrightarrow> (\<exists>x. r = Inr x)"
  by (cases r) auto

lemma validate_manifest_iff: "validate_manifest m = Inr () \<longleftrightarrow> (\<forall>e \<in> set m. validate_entry_of e = Inr ())"
proof -
  have "(\<exists>ys. mapE validate_entry_of m = Inr ys) \<longleftrightarrow> (\<forall>e \<in> set m. validate_entry_of e = Inr ())"
    by (induction m) (auto simp: bindE_eq_Inr)
  then show ?thesis by (simp add: validate_manifest_def bindE_unit)
qed

lemma validate_entry_iff:
  "validate_entry_of (r, a) = Inr () \<longleftrightarrow> is_canonical r \<and> art_path a = r \<and> 0 \<le> art_size a \<and> is_sha256 (art_hash a)"
proof -
  have "(\<exists>p. canonical_relative_parts r = Inr p) \<longleftrightarrow> is_canonical r"
    using canonical_relative(1) by (auto simp: is_canonical_def)
  then show ?thesis by (auto simp: validate_entry_of_def bindE_eq_Inr if_Inl_Inr)
qed

lemma tidy_entry: "tidy_manifest m \<Longrightarrow> (r, a) \<in> set m \<Longrightarrow> is_canonical r \<and> art_path a = r \<and> 0 \<le> art_size a \<and> is_sha256 (art_hash a)"
  by (metis tidy_manifest_def validate_manifest_iff validate_entry_iff)

lemma sorted_values_tidy: "sorted (map fst m) \<Longrightarrow> distinct (map fst m) \<Longrightarrow> sorted_values m = map snd m"
  by (auto simp: sorted_values_def sorted_keys_def sorted_sort_id intro: map_cong)

lemma artifact_of_dict:
  assumes "art_path a \<notin> fst ` set result"
  shows "artifact_of (sort_json (artifact_dict a)) result = Inr (result @ [(art_path a, a)])"
proof -
  let ?d = "[(''relative_path'', JStr (art_path a)), (''size_bytes'', JInt (art_size a)), (''content_hash'', JStr (art_hash a))]"
  let ?s = "sort_key fst (map (\<lambda>(k, v). (k, sort_json v)) ?d)"
  have g: "jget ?s k = sort_json (jget ?d k)" for k by (rule jget_sorted) simp
  have k: "fst ` set ?s = {''relative_path'', ''size_bytes'', ''content_hash''}" by auto
  have "artifact_of (JObj ?s) result = Inr (result @ [(art_path a, a)])"
    using assms unfolding artifact_of_def json.case k g by (simp add: update_fresh)
  then show ?thesis by (simp add: artifact_dict_def)
qed

lemma fold_artifacts:
  assumes "\<And>a result. art_path a \<notin> fst ` set result \<Longrightarrow> artifact_of (f a) result = Inr (result @ [(art_path a, a)])"
  shows "distinct (map fst (result @ m)) \<Longrightarrow> \<forall>(r, a) \<in> set m. art_path a = r \<Longrightarrow>
    foldE artifact_of (map f (map snd m)) result = Inr (result @ m)"
proof (induction m arbitrary: result)
  case (Cons e m)
  obtain r a where e: "e = (r, a)" by (cases e)
  with Cons.prems(2) have r: "art_path a = r" by simp
  have fresh: "art_path a \<notin> fst ` set result" using Cons.prems(1) e r by auto
  have "foldE artifact_of (map f (map snd m)) (result @ [(r, a)]) = Inr ((result @ [(r, a)]) @ m)"
    using Cons.prems e by (intro Cons.IH) auto
  with assms [OF fresh] show ?case by (simp add: e r)
qed simp

lemma manifest_from_dict:
  assumes "tidy_manifest m"
  shows "manifest_from (sort_json (manifest_dict m)) = Inr m"
proof -
  have "foldE artifact_of (map (\<lambda>a. sort_json (artifact_dict a)) (map snd m)) [] = Inr ([] @ m)"
    using assms tidy_entry [OF assms] by (intro fold_artifacts artifact_of_dict) (auto simp: tidy_manifest_def)
  moreover have "sorted_values m = map snd m" using assms by (auto simp: tidy_manifest_def intro: sorted_values_tidy)
  ultimately show ?thesis using assms by (simp add: manifest_from_def manifest_dict_def comp_def tidy_manifest_def)
qed

subsection \<open>Views\<close>

definition journaled :: "prepared_view \<Rightarrow> prepared_view" where
  "journaled v = v\<lparr>pv_verify_current := pv_current v, pv_verify_desired := pv_desired v\<rparr>"

definition tidy_view :: "string \<Rightarrow> prepared_view \<Rightarrow> bool" where
  "tidy_view op v \<longleftrightarrow> pv_root v \<noteq> [] \<and> clean (pv_root v) \<and> pv_stage v = stage_path (pv_root v) op
     \<and> pv_candidate v = candidate_path (pv_root v) op \<and> pv_previous v = previous_path (pv_root v)
     \<and> tidy_manifest (pv_current v) \<and> tidy_manifest (pv_desired v)
     \<and> sorted (map fst (pv_groups v)) \<and> distinct (map fst (pv_groups v))
     \<and> (\<forall>(r, g) \<in> set (pv_groups v). r \<in> fst ` set (pv_current v) \<union> fst ` set (pv_desired v) \<and> g \<noteq> [])"

lemma groups_from_dict:
  assumes "sorted (map fst gs)" and "\<forall>(r, g) \<in> set gs. r \<in> set rs \<and> g \<noteq> []"
  shows "groups_from rs (sort_json (JObj (map (\<lambda>(k, g). (k, JStr g)) gs))) = Inr gs"
proof -
  have s: "sort_json (JObj (map (\<lambda>(k, g). (k, JStr g)) gs)) = JObj (map (\<lambda>(k, g). (k, JStr g)) gs)"
    using assms(1) by (simp add: comp_def case_prod_beta sort_key_id_if_sorted)
  have "mapE (\<lambda>(r, g). case g of JStr l \<Rightarrow> if r \<in> set rs \<and> l \<noteq> [] then Inr (r, l) else Inl SyncError | _ \<Rightarrow> Inl SyncError)
      (map (\<lambda>(k, g). (k, JStr g)) gs) = Inr gs"
    using assms(2) by (induction gs) auto
  then show ?thesis unfolding s by (simp add: groups_from_def)
qed

definition apart :: "path list \<Rightarrow> bool" where
  "apart roots \<longleftrightarrow> sorted_wrt (\<lambda>a b. \<not> prefix a b \<and> \<not> prefix b a) roots"

lemma view_from_dict:
  assumes v: "tidy_view op v" and op: "is_operation_id op" and root: "validated_root t (pv_root v) = Inr (pv_root v)"
    and a: "pv_root v \<in> set allowed" and d: "\<forall>w \<in> set views. \<not> prefix (pv_root w) (pv_root v) \<and> \<not> prefix (pv_root v) (pv_root w)"
  shows "view_from t allowed 2 op (sort_json (view_dict v)) views = Inr (views @ [journaled v])"
proof -
  from v have c: "pv_root v \<noteq> []" "clean (pv_root v)" "pv_stage v = stage_path (pv_root v) op"
      "pv_candidate v = candidate_path (pv_root v) op" "pv_previous v = previous_path (pv_root v)"
      "tidy_manifest (pv_current v)" "tidy_manifest (pv_desired v)" "sorted (map fst (pv_groups v))"
      "\<forall>(r, g) \<in> set (pv_groups v). r \<in> set (map fst (pv_current v) @ map fst (pv_desired v)) \<and> g \<noteq> []"
    by (auto simp: tidy_view_def)
  note o = clean_owned [OF c(2,1) op]
  have ne: "stage_path (pv_root v) op \<noteq> []" "candidate_path (pv_root v) op \<noteq> []" "previous_path (pv_root v) \<noteq> []"
    by (simp_all add: stage_path_def candidate_path_def previous_path_def)
  let ?d = "[(''root'', JStr (path_text (pv_root v))), (''stage'', JStr (path_text (pv_stage v))),
     (''previous'', JStr (path_text (pv_previous v))), (''previous_candidate'', JStr (path_text (pv_candidate v))),
     (''current'', manifest_dict (pv_current v)), (''desired'', manifest_dict (pv_desired v)),
     (''logical_groups'', JObj (map (\<lambda>(k, g). (k, JStr g)) (pv_groups v)))]"
  let ?s = "sort_key fst (map (\<lambda>(k, v). (k, sort_json v)) ?d)"
  have g: "jget ?s k = sort_json (jget ?d k)" for k by (rule jget_sorted) simp
  have k: "fst ` set ?s = set (view_fields 2)" by (auto simp: view_fields_def)
  have lg: "''logical_groups'' \<in> set (view_fields 2)" by (simp add: view_fields_def)
  have roots: "journal_absolute_path (JStr (path_text (pv_root v))) = Inr (pv_root v)"
    "journal_absolute_path (JStr (path_text (pv_stage v))) = Inr (pv_stage v)"
    "journal_absolute_path (JStr (path_text (pv_candidate v))) = Inr (pv_candidate v)"
    "journal_absolute_path (JStr (path_text (pv_previous v))) = Inr (pv_previous v)"
    using c o ne by (simp_all add: journal_absolute_path_text)
  have dr: "distinct_root (pv_root v) (map pv_root views) = Inr ()" using d by (auto simp: distinct_root_def)
  have e: "jget ?s ''root'' = JStr (path_text (pv_root v))" "jget ?s ''stage'' = JStr (path_text (pv_stage v))"
      "jget ?s ''previous'' = JStr (path_text (pv_previous v))" "jget ?s ''previous_candidate'' = JStr (path_text (pv_candidate v))"
      "jget ?s ''current'' = sort_json (manifest_dict (pv_current v))" "jget ?s ''desired'' = sort_json (manifest_dict (pv_desired v))"
      "jget ?s ''logical_groups'' = sort_json (JObj (map (\<lambda>(k, g). (k, JStr g)) (pv_groups v)))"
    unfolding g by simp_all
  define s where "s = ?s"
  have "view_from t allowed 2 op (JObj s) views = Inr (views @ [journaled v])"
    unfolding view_from_def json.case k [folded s_def] e [folded s_def] roots bindE_Inr root dr
    using a lg c manifest_from_dict [OF c(6)] manifest_from_dict [OF c(7)] groups_from_dict [OF c(8,9)]
    by (simp add: journaled_def del: sort_json.simps)
  then have "view_from t allowed 2 op (JObj ?s) views = Inr (views @ [journaled v])" by (simp only: s_def)
  then show ?thesis by (simp add: view_dict_def)
qed

subsection \<open>Transactions\<close>

definition tidy_transaction :: "transaction \<Rightarrow> bool" where
  "tidy_transaction tx \<longleftrightarrow> is_operation_id (tx_id tx) \<and> tx_views tx \<noteq> [] \<and> (\<forall>v \<in> set (tx_views tx). tidy_view (tx_id tx) v)
     \<and> apart (map pv_root (tx_views tx)) \<and> tx_metrics tx = transaction_metrics_of (tx_views tx)"

definition resumed :: "transaction \<Rightarrow> transaction" where
  "resumed tx = tx\<lparr>tx_views := map journaled (tx_views tx)\<rparr>"

lemma fold_views:
  assumes "\<And>v views. v \<in> set vs \<Longrightarrow> (\<forall>w \<in> set views. \<not> prefix (pv_root w) (pv_root v) \<and> \<not> prefix (pv_root v) (pv_root w)) \<Longrightarrow>
      f (g v) views = Inr (views @ [journaled v])"
    and "apart (map pv_root (before @ vs))"
  shows "foldE f (map g vs) (map journaled before) = Inr (map journaled (before @ vs))"
  using assms
proof (induction vs arbitrary: before)
  case (Cons v vs)
  have "f (g v) (map journaled before) = Inr (map journaled before @ [journaled v])"
    using Cons.prems by (intro Cons.prems(1)) (auto simp: apart_def sorted_wrt_append journaled_def)
  then show ?case using Cons.IH [of "before @ [v]"] Cons.prems by simp
qed simp

lemma phase_of_text [simp]: "phase_of (JStr (phase_text p)) = Inr p"
  by (cases p) (simp_all add: phase_of_def)

lemma mapE_validated: "(\<And>r. r \<in> set rs \<Longrightarrow> validated_root t r = Inr r) \<Longrightarrow> mapE (validated_root t) rs = Inr rs"
  using mapE_Inr_all [of rs "validated_root t" id] by simp

lemma metrics_journaled [simp]: "transaction_metrics_of (map journaled vs) = transaction_metrics_of vs"
  by (simp add: transaction_metrics_of_def journaled_def comp_def)

lemma transaction_from_payload:
  assumes tx: "tidy_transaction tx" and a: "\<And>r. r \<in> set allowed \<Longrightarrow> validated_root t r = Inr r"
    and sub: "pv_root ` set (tx_views tx) \<subseteq> set allowed"
  shows "transaction_from t allowed (sort_json (journal_payload tx p)) = Inr (resumed tx, p)"
proof -
  let ?d = "[(''version'', JInt 2), (''operation_id'', JStr (tx_id tx)), (''phase'', JStr (phase_text p)),
     (''views'', JArr (map view_dict (tx_views tx)))]"
  let ?s = "sort_key fst (map (\<lambda>(k, v). (k, sort_json v)) ?d)"
  have g: "jget ?s k = sort_json (jget ?d k)" for k by (rule jget_sorted) simp
  have k: "fst ` set ?s = {''version'', ''operation_id'', ''phase'', ''views''}" by auto
  have e: "jget ?s ''version'' = JInt 2" "jget ?s ''operation_id'' = JStr (tx_id tx)" "jget ?s ''phase'' = JStr (phase_text p)"
      "jget ?s ''views'' = JArr (map (\<lambda>v. sort_json (view_dict v)) (tx_views tx))"
    unfolding g by simp_all
  have m: "mapE (validated_root t) allowed = Inr allowed" using a by (rule mapE_validated)
  define s where "s = ?s"
  define f where "f = (\<lambda>v. sort_json (view_dict v))"
  have "foldE (view_from t allowed 2 (tx_id tx)) (map f (tx_views tx)) (map journaled []) = Inr (map journaled ([] @ tx_views tx))"
  proof (rule fold_views)
    fix v and views :: "prepared_view list"
    assume "v \<in> set (tx_views tx)" "\<forall>w \<in> set views. \<not> prefix (pv_root w) (pv_root v) \<and> \<not> prefix (pv_root v) (pv_root w)"
    then show "view_from t allowed 2 (tx_id tx) (f v) views = Inr (views @ [journaled v])"
      unfolding f_def using tx sub a by (intro view_from_dict) (auto simp: tidy_transaction_def)
  qed (use tx in \<open>simp add: tidy_transaction_def\<close>)
  then have v: "foldE (view_from t allowed 2 (tx_id tx)) (map f (tx_views tx)) [] = Inr (map journaled (tx_views tx))" by simp
  have "transaction_from t allowed (JObj s) = Inr (resumed tx, p)"
    unfolding transaction_from_def json.case k [folded s_def] e [folded s_def]
    using tx v m by (cases tx) (simp add: tidy_transaction_def resumed_def f_def [symmetric])
  then show ?thesis by (simp add: journal_payload_def s_def)
qed

text \<open>One step of a run.\<close>

lemma run_steps:
  "bindIO state_of f (es, s) = f s (es, s)" "bindIO tree_of g (es, s) = g (st_tree s) (es, s)"
  "bindIO (set_memory h) k (es, s) = k () (es, h s)" "bindIO read_disk k ([], s) = k () ([], s)"
  "lift (Inr x) = ret x" "ret x w = (Ok x, w)"
  by (simp_all add: bindIO_def state_of_def tree_of_def set_memory_def read_disk_def act_def lift_def ret_def)

end
