(* ===== verification/TransactionState.thy ===== *)
theory TransactionState
  imports TransactionJournal
begin

text \<open>
  The disk while a selected transaction is under way, relative to the tree \<open>t0\<close> it started from: which
  paths it may change, what they may hold, and what its backups hold.
\<close>

subsection \<open>The paths of a transaction\<close>

definition live :: "prepared_view \<Rightarrow> string \<Rightarrow> path" where
  "live v r = pv_root v @ tail_parts r"

definition backup :: "prepared_view \<Rightarrow> string \<Rightarrow> path" where
  "backup v r = pv_candidate v @ tail_parts r"

definition staged :: "prepared_view \<Rightarrow> string \<Rightarrow> path" where
  "staged v r = pv_stage v @ tail_parts r"

definition change :: "transaction \<Rightarrow> prepared_view \<Rightarrow> string \<Rightarrow> bool" where
  "change tx v r \<longleftrightarrow> v \<in> set (tx_views tx) \<and> r \<in> set (view_changes v)"

definition is_target :: "transaction \<Rightarrow> path \<Rightarrow> bool" where
  "is_target tx p \<longleftrightarrow> (\<exists>v r. change tx v r \<and> p = live v r)"

definition is_tmp :: "transaction \<Rightarrow> path \<Rightarrow> bool" where
  "is_tmp tx p \<longleftrightarrow> (\<exists>v r. change tx v r \<and> p = restore_tmp_path (tx_id tx) (live v r))"

definition is_owned :: "transaction \<Rightarrow> path \<Rightarrow> bool" where
  "is_owned tx p \<longleftrightarrow> (\<exists>v \<in> set (tx_views tx). prefix (pv_stage v) p \<or> prefix (pv_candidate v) p)"

text \<open>The owned directories hold files only where a version is staged or backed up.\<close>

definition is_slot :: "transaction \<Rightarrow> path \<Rightarrow> bool" where
  "is_slot tx p \<longleftrightarrow> (\<exists>v r. change tx v r \<and> (map_of (pv_desired v) r \<noteq> None \<and> p = staged v r
     \<or> map_of (pv_current v) r \<noteq> None \<and> p = backup v r))"

definition above_target :: "transaction \<Rightarrow> path \<Rightarrow> bool" where
  "above_target tx p \<longleftrightarrow> (\<exists>v r. change tx v r \<and> strict_prefix p (live v r))"

definition areas :: "prepared_view list \<Rightarrow> path list" where
  "areas views = concat (map (\<lambda>v. [pv_root v, pv_stage v, pv_candidate v, pv_previous v]) views)"

text \<open>
  The conditions under which a transaction is prepared on \<open>t0\<close>: canonical manifests of changed paths that
  describe \<open>t0\<close> truthfully, roots and owned directories apart from each other, no changed path below another, no
  link or file on the way to a target, and names that are still free.
\<close>

definition sound_transaction :: "tree \<Rightarrow> transaction \<Rightarrow> bool" where
  "sound_transaction t0 tx \<longleftrightarrow> tidy_transaction tx \<and> wf_tree t0 \<and> apart (areas (tx_views tx))
     \<and> (\<forall>v \<in> set (tx_views tx). view_changes v \<noteq> [] \<and> fst ` set (pv_current v) \<union> fst ` set (pv_desired v) \<subseteq> set (view_changes v)
          \<and> lookup t0 (pv_stage v) = None \<and> lookup t0 (pv_candidate v) = None
          \<and> (\<forall>r \<in> set (view_changes v). \<forall>r' \<in> set (view_changes v). prefix (tail_parts r) (tail_parts r') \<longrightarrow> r = r')
          \<and> (\<forall>r \<in> set (view_changes v). holds_version t0 (live v r) (map_of (pv_current v) r)))
     \<and> (\<forall>p. is_tmp tx p \<longrightarrow> lookup t0 p = None \<and> (\<forall>v r. change tx v r \<longrightarrow> \<not> prefix p (live v r)))
     \<and> (\<forall>p. above_target tx p \<longrightarrow> open_way t0 p)"

lemma sound_parts:
  assumes "sound_transaction t0 tx"
  shows "tidy_transaction tx" and "wf_tree t0" and "apart (areas (tx_views tx))"
    and "v \<in> set (tx_views tx) \<Longrightarrow> view_changes v \<noteq> []"
    and "v \<in> set (tx_views tx) \<Longrightarrow> fst ` set (pv_current v) \<union> fst ` set (pv_desired v) \<subseteq> set (view_changes v)"
    and "v \<in> set (tx_views tx) \<Longrightarrow> lookup t0 (pv_stage v) = None"
    and "v \<in> set (tx_views tx) \<Longrightarrow> lookup t0 (pv_candidate v) = None"
    and "change tx v r \<Longrightarrow> change tx v r' \<Longrightarrow> prefix (tail_parts r) (tail_parts r') \<Longrightarrow> r = r'"
    and "change tx v r \<Longrightarrow> holds_version t0 (live v r) (map_of (pv_current v) r)"
    and "is_tmp tx p \<Longrightarrow> lookup t0 p = None"
    and "is_tmp tx p \<Longrightarrow> change tx v r \<Longrightarrow> \<not> prefix p (live v r)"
    and "above_target tx p \<Longrightarrow> open_way t0 p"
  using assms unfolding sound_transaction_def change_def by blast+

lemma sound_view: "sound_transaction t0 tx \<Longrightarrow> v \<in> set (tx_views tx) \<Longrightarrow> tidy_view (tx_id tx) v"
  using sound_parts(1) by (auto simp: tidy_transaction_def)

lemma changed_key: "r \<in> set (view_changes v) \<Longrightarrow> r \<in> fst ` set (pv_current v) \<union> fst ` set (pv_desired v)"
  by (auto simp: view_changes_def changed_paths_def all_paths_def)

lemma change_canonical:
  assumes "sound_transaction t0 tx" and "change tx v r"
  shows "is_canonical r"
proof -
  have v: "tidy_view (tx_id tx) v" using assms by (auto simp: change_def intro: sound_view)
  from assms(2) changed_key obtain a where "(r, a) \<in> set (pv_current v) \<or> (r, a) \<in> set (pv_desired v)" by (force simp: change_def)
  with v tidy_entry show ?thesis by (auto simp: tidy_view_def)
qed

lemma tail_ne: "sound_transaction t0 tx \<Longrightarrow> change tx v r \<Longrightarrow> tail_parts r \<noteq> []"
  using change_canonical is_canonicalD(2) by blast

subsection \<open>Areas are apart\<close>

lemma apart_append: "apart (xs @ ys) \<longleftrightarrow> apart xs \<and> apart ys \<and> (\<forall>x \<in> set xs. \<forall>y \<in> set ys. \<not> prefix x y \<and> \<not> prefix y x)"
  by (simp add: apart_def sorted_wrt_append)

definition view_areas :: "prepared_view \<Rightarrow> path list" where
  "view_areas v = [pv_root v, pv_stage v, pv_candidate v, pv_previous v]"

lemma areas_Cons: "apart (areas (v # vs)) \<longleftrightarrow> apart (view_areas v) \<and> apart (areas vs)
    \<and> (\<forall>a \<in> set (view_areas v). \<forall>w \<in> set vs. \<forall>b \<in> set (view_areas w). \<not> prefix a b \<and> \<not> prefix b a)"
proof -
  have "areas (v # vs) = view_areas v @ areas vs" by (simp add: areas_def view_areas_def)
  moreover have "set (areas vs) = (\<Union>w \<in> set vs. set (view_areas w))" by (simp add: areas_def view_areas_def)
  ultimately show ?thesis by (simp only: apart_append) blast
qed

lemma areas_two:
  assumes "apart (areas vs)" and "v \<in> set vs" and "w \<in> set vs"
    and "a \<in> set (view_areas v)" and "b \<in> set (view_areas w)" and "prefix a p" and "prefix b p"
  shows "v = w"
proof (rule ccontr)
  assume ne: "v \<noteq> w"
  have "apart (areas vs) \<Longrightarrow> v \<in> set vs \<Longrightarrow> w \<in> set vs \<Longrightarrow> \<not> prefix a b \<and> \<not> prefix b a" for vs
  proof (induction vs)
    case (Cons u vs)
    then show ?case using ne assms(4,5) unfolding areas_Cons by auto
  qed simp
  with assms(1-3,6,7) show False by (metis prefix_same_cases)
qed

lemma areas_one: "apart (areas vs) \<Longrightarrow> v \<in> set vs \<Longrightarrow> apart (view_areas v)"
  by (induction vs) (auto simp: areas_Cons)

lemma apart_no_common:
  assumes "apart xs" and "i < length xs" and "j < length xs" and "i \<noteq> j" and "prefix (xs ! i) p"
  shows "\<not> prefix (xs ! j) p"
proof -
  have "\<not> prefix (xs ! i) (xs ! j) \<and> \<not> prefix (xs ! j) (xs ! i)"
    using assms(1-4) unfolding apart_def by (cases i j rule: linorder_cases) (auto dest: sorted_wrt_nth_less)
  with assms(5) show ?thesis using prefix_same_cases by blast
qed

lemma area_kinds:
  assumes "sound_transaction t0 tx" and "v \<in> set (tx_views tx)" and "w \<in> set (tx_views tx)"
  shows "prefix (pv_root v) p \<Longrightarrow> \<not> prefix (pv_stage w) p" and "prefix (pv_root v) p \<Longrightarrow> \<not> prefix (pv_candidate w) p"
    and "prefix (pv_stage v) p \<Longrightarrow> \<not> prefix (pv_candidate w) p"
    and "prefix (pv_previous v) p \<Longrightarrow> \<not> prefix (pv_stage w) p" and "prefix (pv_previous v) p \<Longrightarrow> \<not> prefix (pv_candidate w) p"
    and "prefix (pv_root v) p \<Longrightarrow> \<not> prefix (pv_previous w) p"
proof -
  note a = sound_parts(3) [OF assms(1)]
  note two = areas_two [OF a assms(2,3)]
  note one = apart_no_common [OF areas_one [OF a assms(2)], where p = p, unfolded view_areas_def]
  note two = two [unfolded view_areas_def]
  show "prefix (pv_root v) p \<Longrightarrow> \<not> prefix (pv_stage w) p" using two [of "pv_root v" "pv_stage w" p] one [of 0 1] by auto
  show "prefix (pv_root v) p \<Longrightarrow> \<not> prefix (pv_candidate w) p" using two [of "pv_root v" "pv_candidate w" p] one [of 0 2] by auto
  show "prefix (pv_stage v) p \<Longrightarrow> \<not> prefix (pv_candidate w) p" using two [of "pv_stage v" "pv_candidate w" p] one [of 1 2] by auto
  show "prefix (pv_previous v) p \<Longrightarrow> \<not> prefix (pv_stage w) p" using two [of "pv_previous v" "pv_stage w" p] one [of 3 1] by auto
  show "prefix (pv_previous v) p \<Longrightarrow> \<not> prefix (pv_candidate w) p" using two [of "pv_previous v" "pv_candidate w" p] one [of 3 2] by auto
  show "prefix (pv_root v) p \<Longrightarrow> \<not> prefix (pv_previous w) p" using two [of "pv_root v" "pv_previous w" p] one [of 0 3] by auto
qed

subsection \<open>Kinds of paths\<close>

lemma prefix_live [simp]: "prefix (pv_root v) (live v r)"
  by (simp add: live_def)

lemma prefix_backup [simp]: "prefix (pv_candidate v) (backup v r)"
  by (simp add: backup_def)

lemma live_inj:
  assumes "sound_transaction t0 tx" and "change tx v r" and "change tx w r'" and "prefix (live v r) (live w r')"
  shows "v = w \<and> r = r'"
proof -
  have p: "prefix (pv_root v) (live w r')" using assms(4) prefix_live prefix_order.trans by blast
  have "v = w"
    using areas_two [OF sound_parts(3) [OF assms(1)], of v w "pv_root v" "pv_root w" "live w r'"] assms(2,3) p
    by (auto simp: view_areas_def change_def)
  moreover from this assms(4) have "prefix (tail_parts r) (tail_parts r')" by (simp add: live_def)
  ultimately show ?thesis using sound_parts(8) [OF assms(1)] assms(2,3) by blast
qed

lemma backup_inj:
  assumes "sound_transaction t0 tx" and "change tx v r" and "change tx w r'" and "prefix (backup v r) (backup w r')"
  shows "v = w \<and> r = r'"
proof -
  have p: "prefix (pv_candidate v) (backup w r')" using assms(4) prefix_backup prefix_order.trans by blast
  have "v = w"
    using areas_two [OF sound_parts(3) [OF assms(1)], of v w "pv_candidate v" "pv_candidate w" "backup w r'"] assms(2,3) p
    by (auto simp: view_areas_def change_def)
  moreover from this assms(4) have "prefix (tail_parts r) (tail_parts r')" by (simp add: backup_def)
  ultimately show ?thesis using sound_parts(8) [OF assms(1)] assms(2,3) by blast
qed

lemma backup_owned: "change tx v r \<Longrightarrow> is_owned tx (backup v r)"
  unfolding change_def is_owned_def using prefix_backup by blast

lemma staged_owned: "change tx v r \<Longrightarrow> is_owned tx (staged v r)"
  unfolding change_def is_owned_def staged_def by (meson prefixI)

lemma staged_inj:
  assumes "sound_transaction t0 tx" and "change tx v r" and "change tx w r'" and "prefix (staged v r) (staged w r')"
  shows "v = w \<and> r = r'"
proof -
  have p: "prefix (pv_stage v) (staged w r')" using assms(4) by (metis prefixI prefix_order.trans staged_def)
  have "v = w"
    using areas_two [OF sound_parts(3) [OF assms(1)], of v w "pv_stage v" "pv_stage w" "staged w r'"] assms(2,3) p
    by (auto simp: view_areas_def change_def staged_def)
  moreover from this assms(4) have "prefix (tail_parts r) (tail_parts r')" by (simp add: staged_def)
  ultimately show ?thesis using sound_parts(8) [OF assms(1)] assms(2,3) by blast
qed

lemma staged_not_backup: "sound_transaction t0 tx \<Longrightarrow> change tx v r \<Longrightarrow> change tx w k \<Longrightarrow> staged v r \<noteq> backup w k"
  using area_kinds(3) [of t0 tx v w "staged v r"] by (auto simp: staged_def backup_def change_def)

lemma slot_owned: "is_slot tx p \<Longrightarrow> is_owned tx p"
  unfolding is_slot_def using staged_owned backup_owned by blast

text \<open>No slot lies above another, nor is one an owned directory itself.\<close>

lemma slot_leaf:
  assumes "sound_transaction t0 tx" and "is_slot tx p" and "is_slot tx p'" and "prefix p p'"
  shows "p = p'"
proof -
  from assms(2) obtain v r where c: "change tx v r" and p: "p = staged v r \<or> p = backup v r" by (auto simp: is_slot_def)
  from assms(3) obtain w k where d: "change tx w k" and q: "p' = staged w k \<or> p' = backup w k" by (auto simp: is_slot_def)
  have v: "v \<in> set (tx_views tx)" "w \<in> set (tx_views tx)" using c d by (auto simp: change_def)
  have "prefix (pv_stage v) (staged v r)" "prefix (pv_stage w) (staged w k)" by (auto simp: staged_def)
  then show ?thesis
    using p q assms(4) staged_inj [OF assms(1) c d] backup_inj [OF assms(1) c d]
      area_kinds(3) [OF assms(1) v, of p'] area_kinds(3) [OF assms(1) v(2,1), of p'] prefix_backup prefix_order.trans by metis
qed

lemma owned_not_slot:
  assumes "sound_transaction t0 tx" and "v \<in> set (tx_views tx)"
  shows "\<not> is_slot tx (pv_stage v)" and "\<not> is_slot tx (pv_candidate v)"
proof -
  have "False" if p: "p = pv_stage v \<or> p = pv_candidate v" and o: "is_slot tx p" for p
  proof -
    from o obtain w k where d: "change tx w k" and q: "p = staged w k \<or> p = backup w k" by (auto simp: is_slot_def)
    have w: "w \<in> set (tx_views tx)" and ne: "tail_parts k \<noteq> []" using d tail_ne [OF assms(1)] by (auto simp: change_def)
    have a: "prefix (pv_stage w) p \<or> prefix (pv_candidate w) p" using q by (auto simp: staged_def backup_def)
    have "v = w"
      using areas_two [OF sound_parts(3) [OF assms(1)] assms(2) w, of _ _ p] p a by (auto simp: view_areas_def)
    with p q ne area_kinds(3) [OF assms(1,2,2), of p] show False by (auto simp: staged_def backup_def)
  qed
  then show "\<not> is_slot tx (pv_stage v)" and "\<not> is_slot tx (pv_candidate v)" by blast+
qed

lemma tmp_below_root:
  assumes "sound_transaction t0 tx" and "is_tmp tx p"
  shows "\<exists>v \<in> set (tx_views tx). prefix (pv_root v) p"
proof -
  from assms(2) obtain v r where c: "change tx v r" and p: "p = restore_tmp_path (tx_id tx) (live v r)" by (auto simp: is_tmp_def)
  have "butlast (live v r) = pv_root v @ butlast (tail_parts r)"
    using tail_ne [OF assms(1) c] by (simp add: live_def butlast_append)
  then have "prefix (pv_root v) p" by (simp add: p restore_tmp_path_def)
  with c show ?thesis by (auto simp: change_def)
qed

lemma not_owned_below_root:
  assumes "sound_transaction t0 tx" and "v \<in> set (tx_views tx)" and "prefix (pv_root v) p"
  shows "\<not> is_owned tx p"
  using area_kinds(1,2) [OF assms(1,2)] assms(3) by (auto simp: is_owned_def)

lemma target_kind:
  assumes "sound_transaction t0 tx" and "is_target tx p"
  shows "\<not> is_tmp tx p" and "\<not> is_owned tx p" and "\<not> above_target tx p"
proof -
  from assms(2) obtain v r where c: "change tx v r" and p: "p = live v r" by (auto simp: is_target_def)
  show "\<not> is_owned tx p" using not_owned_below_root [OF assms(1)] c p by (auto simp: change_def)
  show "\<not> is_tmp tx p" using sound_parts(11) [OF assms(1)] c p by blast
  show "\<not> above_target tx p" using live_inj [OF assms(1) c] p by (force simp: above_target_def strict_prefix_def)
qed

lemma tmp_kind:
  assumes "sound_transaction t0 tx" and "is_tmp tx p"
  shows "\<not> is_owned tx p" and "\<not> above_target tx p"
proof -
  show "\<not> is_owned tx p" using tmp_below_root [OF assms] not_owned_below_root [OF assms(1)] by blast
  show "\<not> above_target tx p" using sound_parts(11) [OF assms] by (force simp: above_target_def strict_prefix_def)
qed

lemma above_not_owned:
  assumes "sound_transaction t0 tx" and "above_target tx p"
  shows "\<not> is_owned tx p"
proof
  assume o: "is_owned tx p"
  from assms(2) obtain v r where c: "change tx v r" and p: "strict_prefix p (live v r)" by (auto simp: above_target_def)
  from o obtain w where w: "w \<in> set (tx_views tx)" and q: "prefix (pv_stage w) p \<or> prefix (pv_candidate w) p" by (auto simp: is_owned_def)
  then have "prefix (pv_stage w) (live v r) \<or> prefix (pv_candidate w) (live v r)"
    using p by (meson prefix_order.less_imp_le prefix_order.trans)
  with area_kinds(1,2) [OF assms(1) _ w, of v "live v r"] c show False by (auto simp: change_def)
qed

lemma above_owned:
  assumes "sound_transaction t0 tx" and "v \<in> set (tx_views tx)"
    and "strict_prefix p (pv_stage v) \<or> strict_prefix p (pv_candidate v)"
  shows "above_target tx p"
proof -
  obtain r where r: "r \<in> set (view_changes v)" using sound_parts(4) [OF assms(1,2)] by (meson last_in_set)
  with assms(2) have c: "change tx v r" by (simp add: change_def)
  have v: "tidy_view (tx_id tx) v" by (rule sound_view [OF assms(1,2)])
  have "prefix p (butlast (pv_root v))"
    using assms(3) v by (auto simp: tidy_view_def stage_path_def candidate_path_def strict_prefix_def)
  then have "prefix p (pv_root v)" by (meson prefix_order.trans prefixeq_butlast)
  then have "strict_prefix p (live v r)" using tail_ne [OF assms(1) c] by (auto simp: live_def strict_prefix_def prefix_def)
  with c show ?thesis by (auto simp: above_target_def)
qed

subsection \<open>Trees in between\<close>

text \<open>The tree has changed only where the transaction may change it.\<close>

definition confined :: "tree \<Rightarrow> transaction \<Rightarrow> tree \<Rightarrow> bool" where
  "confined t0 tx t \<longleftrightarrow> wf_tree t
     \<and> (\<forall>p. \<not> is_target tx p \<longrightarrow> \<not> is_tmp tx p \<longrightarrow> \<not> is_owned tx p \<longrightarrow>
          lookup t p = lookup t0 p \<or> (lookup t0 p = None \<and> lookup t p = Some Directory \<and> above_target tx p))
     \<and> (\<forall>p. is_tmp tx p \<longrightarrow> lookup t p = None \<or> content t p \<noteq> None)
     \<and> (\<forall>p. is_owned tx p \<longrightarrow> (if is_slot tx p then lookup t p = None \<or> content t p \<noteq> None else open_way t p))"

text \<open>Every changed path holds what it held, or the desired version.\<close>

definition between :: "tree \<Rightarrow> transaction \<Rightarrow> tree \<Rightarrow> bool" where
  "between t0 tx t \<longleftrightarrow> confined t0 tx t
     \<and> (\<forall>v r. change tx v r \<longrightarrow> lookup t (live v r) = lookup t0 (live v r) \<or> holds_version t (live v r) (map_of (pv_desired v) r))"

definition restored :: "tree \<Rightarrow> (prepared_view \<Rightarrow> string \<Rightarrow> bool) \<Rightarrow> tree \<Rightarrow> bool" where
  "restored t0 X t \<longleftrightarrow> (\<forall>v r. X v r \<longrightarrow> lookup t (live v r) = lookup t0 (live v r))"

definition backed_up :: "tree \<Rightarrow> (prepared_view \<Rightarrow> string \<Rightarrow> bool) \<Rightarrow> tree \<Rightarrow> bool" where
  "backed_up t0 S t \<longleftrightarrow> (\<forall>v r. S v r \<longrightarrow> map_of (pv_current v) r \<noteq> None \<longrightarrow>
     content t (backup v r) = content t0 (live v r) \<and> content t (backup v r) \<noteq> None)"

definition allowed_update :: "tree \<Rightarrow> transaction \<Rightarrow> tree \<Rightarrow> path \<Rightarrow> node option \<Rightarrow> bool" where
  "allowed_update t0 tx t p n \<longleftrightarrow>
     (is_owned tx p \<and> (n = None \<or> (if is_slot tx p then \<exists>b. n = Some (File b) else n = Some Directory)))
     \<or> (is_tmp tx p \<and> (n = None \<or> (\<exists>b. n = Some (File b))))
     \<or> (above_target tx p \<and> lookup t p = None \<and> n = Some Directory)
     \<or> (\<exists>v r. change tx v r \<and> p = live v r \<and> (n = lookup t0 p
          \<or> (case map_of (pv_desired v) r of None \<Rightarrow> n = None | Some a \<Rightarrow> \<exists>b. n = Some (File b) \<and> matches b a)))"

lemma confined_update:
  assumes s: "sound_transaction t0 tx" and c: "confined t0 tx t" and w: "wf_tree t'" and l: "lookup t' = (lookup t)(p := n)"
    and u: "allowed_update t0 tx t p n"
  shows "confined t0 tx t'"
proof -
  from c have cc: "\<And>x. \<not> is_target tx x \<Longrightarrow> \<not> is_tmp tx x \<Longrightarrow> \<not> is_owned tx x \<Longrightarrow>
          lookup t x = lookup t0 x \<or> (lookup t0 x = None \<and> lookup t x = Some Directory \<and> above_target tx x)"
    "\<And>x. is_tmp tx x \<Longrightarrow> lookup t x = None \<or> content t x \<noteq> None"
    "\<And>x. is_owned tx x \<Longrightarrow> if is_slot tx x then lookup t x = None \<or> content t x \<noteq> None else open_way t x"
    by (auto simp: confined_def)
  have tgt: "is_target tx p" if "change tx v r" "p = live v r" for v r using that by (auto simp: is_target_def)
  note k = target_kind [OF s] tmp_kind [OF s] above_not_owned [OF s]
  have 1: "lookup t' x = lookup t0 x \<or> (lookup t0 x = None \<and> lookup t' x = Some Directory \<and> above_target tx x)"
    if x: "\<not> is_target tx x" "\<not> is_tmp tx x" "\<not> is_owned tx x" for x
  proof (cases "x = p")
    case True
    with x u tgt have "above_target tx p" "lookup t p = None" "n = Some Directory" by (auto simp: allowed_update_def)
    with cc(1) [OF x] l True show ?thesis by auto
  next
    case False
    with cc(1) [OF x] l show ?thesis by simp
  qed
  have 2: "lookup t' x = None \<or> content t' x \<noteq> None" if x: "is_tmp tx x" for x
  proof (cases "x = p")
    case True
    with x u k tgt have "n = None \<or> (\<exists>b. n = Some (File b))" by (auto simp: allowed_update_def)
    with l True show ?thesis by (auto simp: content_iff)
  next
    case False
    with cc(2) [OF x] l show ?thesis by (simp add: content_def)
  qed
  have 3: "if is_slot tx x then lookup t' x = None \<or> content t' x \<noteq> None else open_way t' x" if x: "is_owned tx x" for x
  proof (cases "x = p")
    case True
    with x u k tgt have "n = None \<or> (if is_slot tx x then \<exists>b. n = Some (File b) else n = Some Directory)" by (auto simp: allowed_update_def)
    with l True show ?thesis by (auto simp: open_way_def content_iff)
  next
    case False
    with l have "lookup t' x = lookup t x" by simp
    with cc(3) [OF x] content_cong [of t' x t] show ?thesis by (auto simp: open_way_def split: if_splits)
  qed
  show ?thesis unfolding confined_def using w 1 2 3 by blast
qed

lemma between_update:
  assumes s: "sound_transaction t0 tx" and b: "between t0 tx t" and w: "wf_tree t'" and l: "lookup t' = (lookup t)(p := n)"
    and u: "allowed_update t0 tx t p n"
  shows "between t0 tx t'"
proof -
  have "lookup t' (live v r) = lookup t0 (live v r) \<or> holds_version t' (live v r) (map_of (pv_desired v) r)" if c: "change tx v r" for v r
  proof (cases "live v r = p")
    case True
    have t: "is_target tx p" using c True by (auto simp: is_target_def)
    from u target_kind [OF s t] obtain v' r' where c': "change tx v' r'" "p = live v' r'" and n: "n = lookup t0 p
          \<or> (case map_of (pv_desired v') r' of None \<Rightarrow> n = None | Some a \<Rightarrow> \<exists>b. n = Some (File b) \<and> matches b a)"
      by (auto simp: allowed_update_def)
    from live_inj [OF s c c'(1)] True c'(2) have "v' = v" "r' = r" by auto
    with n l True show ?thesis
      by (auto simp: holds_version_def present_def content_def split: option.splits)
  next
    case False
    then have "lookup t' (live v r) = lookup t (live v r)" using l by simp
    with b c holds_version_cong [of t' "live v r" t] show ?thesis unfolding between_def by metis
  qed
  with confined_update [OF s _ w l u] b show ?thesis unfolding between_def by blast
qed

lemma restored_update:
  assumes "restored t0 X t" and "lookup t' = (lookup t)(p := n)" and "\<And>v r. X v r \<Longrightarrow> p = live v r \<Longrightarrow> n = lookup t0 p"
  shows "restored t0 X t'"
  using assms by (auto simp: restored_def)

lemma backed_up_update:
  assumes "backed_up t0 S t" and "lookup t' = (lookup t)(p := n)"
    and "\<And>v r. S v r \<Longrightarrow> map_of (pv_current v) r \<noteq> None \<Longrightarrow> p = backup v r \<Longrightarrow> n = lookup t p"
  shows "backed_up t0 S t'"
proof -
  have "content t' (backup v r) = content t (backup v r)" if "S v r" "map_of (pv_current v) r \<noteq> None" for v r
    using assms(2) assms(3) [OF that] by (intro content_cong) auto
  with assms(1) show ?thesis unfolding backed_up_def by metis
qed

subsection \<open>States of a transaction\<close>

text \<open>
  What is known of a state: the paths in \<open>X\<close> hold what they held, those in \<open>S\<close> have their backup, and \<open>F\<close>
  holds of everything but the tree.
\<close>

definition holding :: "tree \<Rightarrow> transaction \<Rightarrow> (prepared_view \<Rightarrow> string \<Rightarrow> bool) \<Rightarrow> (prepared_view \<Rightarrow> string \<Rightarrow> bool)
    \<Rightarrow> (state \<Rightarrow> bool) \<Rightarrow> state \<Rightarrow> bool" where
  "holding t0 tx X S F s \<longleftrightarrow> between t0 tx (st_tree s) \<and> restored t0 X (st_tree s) \<and> backed_up t0 S (st_tree s) \<and> F (s\<lparr>st_tree := []\<rparr>)"

lemma holding_wf: "holding t0 tx X S F s \<Longrightarrow> wf_tree (st_tree s)"
  by (simp add: holding_def between_def confined_def)

lemma holding_mono:
  assumes "holding t0 tx X S F s" and "\<And>v r. X' v r \<Longrightarrow> X v r" and "\<And>v r. S' v r \<Longrightarrow> S v r"
    and "F (s\<lparr>st_tree := []\<rparr>) \<Longrightarrow> F' (s\<lparr>st_tree := []\<rparr>)"
  shows "holding t0 tx X' S' F' s"
  using assms unfolding holding_def restored_def backed_up_def by blast

lemma holding_update:
  assumes "sound_transaction t0 tx" and "holding t0 tx X S F s" and "wf_tree t'" and "lookup t' = (lookup (st_tree s))(p := n)"
    and "allowed_update t0 tx (st_tree s) p n"
    and "\<And>v r. X v r \<Longrightarrow> p = live v r \<Longrightarrow> n = lookup t0 p"
    and "\<And>v r. S v r \<Longrightarrow> map_of (pv_current v) r \<noteq> None \<Longrightarrow> p = backup v r \<Longrightarrow> n = lookup (st_tree s) p"
  shows "holding t0 tx X S F (s\<lparr>st_tree := t'\<rparr>)"
proof -
  have h: "between t0 tx (st_tree s)" "restored t0 X (st_tree s)" "backed_up t0 S (st_tree s)" "F (s\<lparr>st_tree := []\<rparr>)"
    using assms(2) by (auto simp: holding_def)
  have 1: "between t0 tx t'" by (rule between_update [OF assms(1) h(1) assms(3,4,5)])
  have 2: "restored t0 X t'" by (rule restored_update [OF h(2) assms(4,6)])
  have 3: "backed_up t0 S t'" by (rule backed_up_update [OF h(3) assms(4,7)])
  show ?thesis using 1 2 3 h(4) by (simp add: holding_def)
qed

lemma holding_above:
  assumes "sound_transaction t0 tx" and "holding t0 tx X S F s" and "above_target tx c"
  shows "open_way (st_tree s) c"
proof -
  have k: "\<not> is_target tx c" "\<not> is_tmp tx c" "\<not> is_owned tx c"
    using target_kind(3) [OF assms(1)] tmp_kind(2) [OF assms(1)] above_not_owned [OF assms(1,3)] assms(3) by blast+
  have "lookup (st_tree s) c = lookup t0 c \<or> lookup (st_tree s) c = Some Directory"
    using assms(2) k unfolding holding_def between_def confined_def by blast
  with sound_parts(12) [OF assms(1,3)] show ?thesis by (auto simp: open_way_def)
qed

lemma above_live: "change tx v r \<Longrightarrow> strict_prefix c (live v r) \<Longrightarrow> above_target tx c"
  by (auto simp: above_target_def)

lemma holding_reachable:
  assumes "sound_transaction t0 tx" and "holding t0 tx X S F s" and "change tx v r"
  shows "reachable_target (st_tree s) (pv_root v) r"
proof -
  have "pv_root v \<noteq> []" using sound_view [OF assms(1)] assms(3) by (auto simp: change_def tidy_view_def)
  then show ?thesis
    using change_canonical [OF assms(1,3)] holding_above [OF assms(1,2)] above_live [OF assms(3)]
    by (auto simp: reachable_target_def live_def)
qed

lemma holding_backup_reachable:
  assumes "sound_transaction t0 tx" and "holding t0 tx X S F s" and "change tx v r" and "S v r" and "map_of (pv_current v) r \<noteq> None"
  shows "reachable_target (st_tree s) (pv_candidate v) r"
proof -
  have "content (st_tree s) (backup v r) \<noteq> None" using assms(2,4,5) unfolding holding_def backed_up_def by blast
  then obtain b where b: "lookup (st_tree s) (backup v r) = Some (File b)" by (auto simp: content_iff)
  have "pv_candidate v \<noteq> []" using sound_view [OF assms(1)] assms(3) by (auto simp: change_def tidy_view_def candidate_path_def)
  then show ?thesis
    using change_canonical [OF assms(1,3)] wf_ancestor [OF holding_wf [OF assms(2)] b]
    by (auto simp: reachable_target_def backup_def open_way_def is_dir_def)
qed

text \<open>What a changed path holds is never a directory, and the versions exclude each other.\<close>

lemma holding_live:
  assumes "sound_transaction t0 tx" and "holding t0 tx X S F s" and "change tx v r"
  shows "lookup (st_tree s) (live v r) = lookup t0 (live v r) \<or> holds_version (st_tree s) (live v r) (map_of (pv_desired v) r)"
    and "lookup (st_tree s) (live v r) = None \<or> content (st_tree s) (live v r) \<noteq> None"
proof -
  show a: "lookup (st_tree s) (live v r) = lookup t0 (live v r) \<or> holds_version (st_tree s) (live v r) (map_of (pv_desired v) r)"
    using assms(2,3) unfolding holding_def between_def by blast
  have leaf: "lookup t (live v r) = None \<or> content t (live v r) \<noteq> None" if "holds_version t (live v r) x" for t x
    using that by (auto simp: holds_version_def present_def split: option.splits)
  from a show "lookup (st_tree s) (live v r) = None \<or> content (st_tree s) (live v r) \<noteq> None"
    using leaf leaf [OF sound_parts(9) [OF assms(1,3)]] by (auto simp: content_def)
qed

lemma versions_exclude:
  assumes "r \<in> set (view_changes v)" and "holds_version t p (map_of (pv_current v) r)"
  shows "\<not> holds_version t p (map_of (pv_desired v) r)"
proof -
  have "\<not> same_artifact (map_of (pv_current v) r) (map_of (pv_desired v) r)"
    using assms(1) by (simp add: view_changes_def changed_paths_def)
  with assms(2) show ?thesis
    by (auto simp: same_artifact_def holds_version_def matches_def present_def content_def split: option.splits node.splits)
qed

lemma holding_original:
  assumes "sound_transaction t0 tx" and "holding t0 tx X S F s" and "change tx v r"
  shows "holds_version (st_tree s) (live v r) (map_of (pv_current v) r) \<longleftrightarrow> lookup (st_tree s) (live v r) = lookup t0 (live v r)"
  using holding_live(1) [OF assms] versions_exclude [of r v] assms(3) sound_parts(9) [OF assms(1,3)] holds_version_cong
  unfolding change_def by metis

subsection \<open>What disturbs nothing\<close>

lemma owned_not_live: "sound_transaction t0 tx \<Longrightarrow> change tx v r \<Longrightarrow> \<not> is_owned tx (live v r)"
  using not_owned_below_root prefix_live by (auto simp: change_def)

lemma live_target: "change tx v r \<Longrightarrow> is_target tx (live v r)"
  by (auto simp: is_target_def)

lemma grows_holding:
  assumes s: "sound_transaction t0 tx" and x: "\<And>v r. X v r \<Longrightarrow> change tx v r"
  shows "grows (\<lambda>c. above_target tx c \<or> is_owned tx c \<and> \<not> is_slot tx c) (holding t0 tx X S F)"
  unfolding grows_def
proof (intro allI impI)
  fix st c t assume h: "holding t0 tx X S F st" and c: "above_target tx c \<or> is_owned tx c \<and> \<not> is_slot tx c" and m: "make_dir c (st_tree st) = Some t"
  note d = make_dirD [OF m]
  show "holding t0 tx X S F (st\<lparr>st_tree := t\<rparr>)"
  proof (rule holding_update [OF s h d(5) [OF holding_wf [OF h]] d(1)])
    show "allowed_update t0 tx (st_tree st) c (Some Directory)" using c d(3) by (auto simp: allowed_update_def)
    show "Some Directory = lookup t0 c" if "X v r" "c = live v r" for v r
      using c that x owned_not_live [OF s] target_kind(3) [OF s] live_target by blast
    show "Some Directory = lookup (st_tree st) c" if "S v r" "map_of (pv_current v) r \<noteq> None" "c = backup v r" for v r
    proof -
      have "content (st_tree st) (backup v r) \<noteq> None" using h that(1,2) unfolding holding_def backed_up_def by blast
      with d(3) that(3) show ?thesis by (simp add: content_def)
    qed
  qed
qed

lemma writable_tmp:
  assumes s: "sound_transaction t0 tx" and p: "is_tmp tx p" and x: "\<And>v r. X v r \<Longrightarrow> change tx v r" "\<And>v r. S v r \<Longrightarrow> change tx v r"
  shows "writable p (holding t0 tx X S F)"
  unfolding writable_def
proof (intro allI impI)
  fix st n t assume h: "holding t0 tx X S F st" and n: "n = None \<or> (\<exists>b. n = Some (File b)) \<and> is_dir (st_tree st) (butlast p)"
    and l: "lookup t = (lookup (st_tree st))(p := n)" and w: "wf_tree (st_tree st) \<longrightarrow> wf_tree t"
  show "holding t0 tx X S F (st\<lparr>st_tree := t\<rparr>)"
  proof (rule holding_update [OF s h _ l])
    show "wf_tree t" using w holding_wf [OF h] by simp
    show "allowed_update t0 tx (st_tree st) p n" using p n by (auto simp: allowed_update_def)
    show "n = lookup t0 p" if "X v r" "p = live v r" for v r
      using that x(1) p target_kind(1) [OF s] live_target by blast
    show "n = lookup (st_tree st) p" if "S v r" "map_of (pv_current v) r \<noteq> None" "p = backup v r" for v r
      using that x(2) backup_owned tmp_kind(1) [OF s p] by blast
  qed
qed

lemma writable_owned:
  assumes s: "sound_transaction t0 tx" and p: "is_owned tx p" "is_slot tx p"
    and x: "\<And>v r. X v r \<Longrightarrow> change tx v r" and b: "\<And>v r. S v r \<Longrightarrow> p \<noteq> backup v r"
  shows "writable p (holding t0 tx X S F)"
  unfolding writable_def
proof (intro allI impI)
  fix st n t assume h: "holding t0 tx X S F st" and n: "n = None \<or> (\<exists>b. n = Some (File b)) \<and> is_dir (st_tree st) (butlast p)"
    and l: "lookup t = (lookup (st_tree st))(p := n)" and w: "wf_tree (st_tree st) \<longrightarrow> wf_tree t"
  show "holding t0 tx X S F (st\<lparr>st_tree := t\<rparr>)"
  proof (rule holding_update [OF s h _ l])
    show "wf_tree t" using w holding_wf [OF h] by simp
    show "allowed_update t0 tx (st_tree st) p n" using p n by (auto simp: allowed_update_def)
    show "n = lookup t0 p" if "X v r" "p = live v r" for v r using that x p(1) owned_not_live [OF s] by blast
    show "n = lookup (st_tree st) p" if "S v r" "map_of (pv_current v) r \<noteq> None" "p = backup v r" for v r using that b by blast
  qed
qed

lemma clearable_owned:
  assumes s: "sound_transaction t0 tx" and p: "\<And>r. prefix p r \<Longrightarrow> is_owned tx r"
    and x: "\<And>v r. X v r \<Longrightarrow> change tx v r" and b: "\<And>v r. S v r \<Longrightarrow> \<not> prefix p (backup v r)"
  shows "clearable p (holding t0 tx X S F)"
  unfolding clearable_def
proof (intro allI impI)
  fix st c t assume h: "holding t0 tx X S F st" and c: "prefix p c"
    and l: "lookup t = (lookup (st_tree st))(c := None)" and w: "wf_tree (st_tree st) \<longrightarrow> wf_tree t"
  show "holding t0 tx X S F (st\<lparr>st_tree := t\<rparr>)"
  proof (rule holding_update [OF s h _ l])
    show "wf_tree t" using w holding_wf [OF h] by simp
    show "allowed_update t0 tx (st_tree st) c None" using p [OF c] by (auto simp: allowed_update_def)
    show "None = lookup t0 c" if "X v r" "c = live v r" for v r using that x p [OF c] owned_not_live [OF s] by blast
    show "None = lookup (st_tree st) c" if "S v r" "map_of (pv_current v) r \<noteq> None" "c = backup v r" for v r using that b c by blast
  qed
qed

end
