(* ===== verification/TransactionRollback.thy ===== *)
theory TransactionRollback
  imports TransactionState
begin

text \<open>
  The rollback of a selected transaction: the plan of a view is read before the first byte is restored,
  restoring a path makes it hold what it held, and the owned directories and the journal go once every view is
  restored.  An interruption at any point leaves a state that can be rolled back again.
\<close>

subsection \<open>Plans\<close>

definition planned_action :: "prepared_view \<Rightarrow> string \<Rightarrow> restore_action" where
  "planned_action v r = \<lparr>ra_relative = r, ra_original = map_of (pv_current v) r\<rparr>"

lemma tidy_map_of: "tidy_manifest m \<Longrightarrow> map_of m r = Some a \<Longrightarrow> is_canonical r \<and> art_path a = r"
  using tidy_entry map_of_SomeD by fast

text \<open>Reading keeps whatever is known of the state.\<close>

lemma spec_plan_path:
  assumes s: "sound_transaction t0 tx" and c: "change tx v r"
    and h: "\<And>st. P st \<Longrightarrow> holding t0 tx X S F st"
    and o: "\<And>st. P st \<Longrightarrow> lookup (st_tree st) (live v r) = lookup t0 (live v r) \<or> S v r" and i: "\<And>st. P st \<Longrightarrow> I st"
  shows "spec q P (plan_path v r) (\<lambda>acts st. P st \<and>
     (acts = [] \<and> lookup (st_tree st) (live v r) = lookup t0 (live v r) \<or> acts = [planned_action v r] \<and> S v r)) I"
proof -
  note reach = holding_reachable [OF s h c] and breach = holding_backup_reachable [OF s h c]
  have a: "spec q P (safe_target (pv_root v) r False) (\<lambda>x st. P st \<and> x = live v r) I"
    by (rule spec_post [OF spec_safe_target_read]) (use i reach in \<open>auto simp: live_def\<close>)
  let ?M = "\<lambda>b st. (b \<longrightarrow> holds_version (st_tree st) (live v r) (map_of (pv_current v) r))
      \<and> (q \<longrightarrow> b = holds_version (st_tree st) (live v r) (map_of (pv_current v) r))"
  let ?N = "\<lambda>b st. (b \<longrightarrow> holds_version (st_tree st) (live v r) (map_of (pv_desired v) r))
      \<and> (q \<longrightarrow> b = holds_version (st_tree st) (live v r) (map_of (pv_desired v) r))"
  have b: "spec q (\<lambda>st. P st \<and> x = live v r) (path_matches x (map_of (pv_current v) r)) (\<lambda>b st. P st \<and> ?M b st \<and> x = live v r) I" for x
    by (rule spec_post [OF spec_path_matches]) (use i in auto)
  have d: "spec q (\<lambda>st. P st \<and> ?M b st \<and> x = live v r) (path_matches x (map_of (pv_desired v) r))
      (\<lambda>c st. P st \<and> ?M b st \<and> ?N c st) I" for x b
    by (rule spec_post [OF spec_path_matches]) (use i in auto)
  let ?Q = "\<lambda>acts st. P st \<and> (acts = [] \<and> lookup (st_tree st) (live v r) = lookup t0 (live v r) \<or> acts = [planned_action v r] \<and> S v r)"
  have e: "spec q P (case map_of (pv_current v) r of None \<Rightarrow> ret ()
      | Some a \<Rightarrow> bindIO (safe_target (pv_candidate v) r False) (\<lambda>source. verify_one source a)) (\<lambda>_. P) I" if sv: "S v r"
  proof (cases "map_of (pv_current v) r")
    case None
    then show ?thesis by (simp add: spec_ret)
  next
    case (Some a)
    have r: "reachable_target (st_tree st) (pv_candidate v) r" if "P st" for st using breach [OF that sv] Some by simp
    have 1: "spec q P (safe_target (pv_candidate v) r False) (\<lambda>x st. P st \<and> x = backup v r) I"
      by (rule spec_post [OF spec_safe_target_read]) (use i r in \<open>auto simp: backup_def\<close>)
    have "holds_version (st_tree st) (backup v r) (Some a)" if "P st" for st
    proof -
      have "content (st_tree st) (backup v r) = content t0 (live v r)"
        using h [OF that] sv Some unfolding holding_def backed_up_def by blast
      then show ?thesis using sound_parts(9) [OF s c] by (simp add: Some holds_Some)
    qed
    then have "spec q (\<lambda>st. P st \<and> x = backup v r) (verify_one x a) (\<lambda>_. P) I" for x
      by (intro spec_post [OF spec_verify_one]) (use i in auto)
    with 1 show ?thesis by (simp add: Some spec_bind)
  qed
  have f: "spec q (\<lambda>st. P st \<and> ?M b st \<and> ?N c st)
      (if b then ret [] else if \<not> c then raise SyncError
       else seqIO (case map_of (pv_current v) r of None \<Rightarrow> ret ()
          | Some a \<Rightarrow> bindIO (safe_target (pv_candidate v) r False) (\<lambda>source. verify_one source a))
        (ret [planned_action v r])) ?Q I" for b c
  proof (intro spec_if)
    show "spec q (\<lambda>st. P st \<and> ?M b st \<and> ?N c st) (ret []) ?Q I" if b
      by (rule spec_ret) (use that holding_original [OF s h \<open>change tx v r\<close>] in auto)
    show "spec q (\<lambda>st. P st \<and> ?M b st \<and> ?N c st) (raise SyncError) ?Q I" if "\<not> b" "\<not> c"
    proof (rule spec_reject)
      show False if st: "P st \<and> ?M b st \<and> ?N c st" and q for st
        using holding_live(1) [OF s h \<open>change tx v r\<close>, of st] holding_original [OF s h \<open>change tx v r\<close>, of st] st \<open>q\<close> \<open>\<not> b\<close> \<open>\<not> c\<close> by auto
    qed (use i in auto)
    show "spec q (\<lambda>st. P st \<and> ?M b st \<and> ?N c st) (seqIO (case map_of (pv_current v) r of None \<Rightarrow> ret ()
          | Some a \<Rightarrow> bindIO (safe_target (pv_candidate v) r False) (\<lambda>source. verify_one source a))
        (ret [planned_action v r])) ?Q I" if "\<not> b" "\<not> \<not> c"
    proof (rule spec_fact [where A = "S v r"])
      show "S v r" if st: "P st \<and> ?M b st \<and> ?N c st" for st
        using holding_original [OF s h \<open>change tx v r\<close>, of st] versions_exclude [of r v "st_tree st" "live v r"] o [of st] st \<open>\<not> \<not> c\<close> \<open>change tx v r\<close>
        by (auto simp: change_def)
      assume sv: "S v r"
      show "spec q (\<lambda>st. P st \<and> ?M b st \<and> ?N c st) (seqIO (case map_of (pv_current v) r of None \<Rightarrow> ret ()
          | Some a \<Rightarrow> bindIO (safe_target (pv_candidate v) r False) (\<lambda>source. verify_one source a))
        (ret [planned_action v r])) ?Q I"
        by (rule spec_pre [OF spec_bind [OF e [OF sv]]]) (auto intro: spec_ret sv)
    qed
  qed
  show ?thesis unfolding plan_path_def Let_def planned_action_def [symmetric]
    by (rule spec_bind [OF a], rule spec_bind [OF b], rule spec_bind [OF d], rule f)
qed

text \<open>A plan of a view: what it does not restore holds what it held.\<close>

definition good_plan :: "tree \<Rightarrow> (prepared_view \<Rightarrow> string \<Rightarrow> bool) \<Rightarrow> prepared_view \<Rightarrow> restore_action list \<Rightarrow> tree \<Rightarrow> bool" where
  "good_plan t0 S v acts t \<longleftrightarrow> (\<exists>rs. acts = map (planned_action v) rs \<and> set rs \<subseteq> set (view_changes v) \<and> (\<forall>r \<in> set rs. S v r)
     \<and> (\<forall>r \<in> set (view_changes v) - set rs. lookup t (live v r) = lookup t0 (live v r)))"

lemma spec_plan_restore:
  assumes s: "sound_transaction t0 tx" and v: "v \<in> set (tx_views tx)"
    and h: "\<And>st. P st \<Longrightarrow> holding t0 tx X S F st"
    and o: "\<And>st r. P st \<Longrightarrow> r \<in> set (view_changes v) \<Longrightarrow> lookup (st_tree st) (live v r) = lookup t0 (live v r) \<or> S v r" and i: "\<And>st. P st \<Longrightarrow> I st"
  shows "spec q P (plan_restore v) (\<lambda>acts st. P st \<and> good_plan t0 S v acts (st_tree st)) I"
proof -
  let ?J = "\<lambda>pre ys st. P st \<and> (\<exists>rs. concat ys = map (planned_action v) rs \<and> set rs \<subseteq> set pre \<and> (\<forall>r \<in> set rs. S v r)
     \<and> (\<forall>r \<in> set pre - set rs. lookup (st_tree st) (live v r) = lookup t0 (live v r)))"
  have "spec q (?J [] []) (collectIO (plan_path v) (view_changes v)) (\<lambda>ys. ?J (view_changes v) ys) I"
  proof (rule spec_collect)
    fix pre r post ys assume e: "view_changes v = pre @ r # post"
    then have c: "change tx v r" using v by (simp add: change_def)
    have "spec q (?J pre ys) (plan_path v r) (\<lambda>acts st. ?J pre ys st \<and>
       (acts = [] \<and> lookup (st_tree st) (live v r) = lookup t0 (live v r) \<or> acts = [planned_action v r] \<and> S v r)) I"
      using h i o [of _ r] e by (intro spec_plan_path [OF s c]) auto
    then show "spec q (?J pre ys) (plan_path v r) (\<lambda>y. ?J (pre @ [r]) (ys @ [y])) I"
    proof (rule spec_post)
      fix acts st assume a: "?J pre ys st \<and> (acts = [] \<and> lookup (st_tree st) (live v r) = lookup t0 (live v r) \<or> acts = [planned_action v r] \<and> S v r)"
      then obtain rs where rs: "concat ys = map (planned_action v) rs" "set rs \<subseteq> set pre" "\<forall>r \<in> set rs. S v r"
        "\<forall>r \<in> set pre - set rs. lookup (st_tree st) (live v r) = lookup t0 (live v r)" by blast
      show "?J (pre @ [r]) (ys @ [acts]) st"
      proof (cases "acts = []")
        case True
        with a rs show ?thesis by (auto intro!: exI [of _ rs] simp: planned_action_def)
      next
        case False
        with a rs show ?thesis by (auto intro!: exI [of _ "rs @ [r]"])
      qed
    qed
  qed
  then have a: "spec q P (collectIO (plan_path v) (view_changes v)) (\<lambda>ys. ?J (view_changes v) ys) I"
    by (rule spec_pre) simp
  show ?thesis unfolding plan_restore_def
    by (rule spec_bind [OF a]) (auto intro!: spec_ret simp: good_plan_def)
qed

subsection \<open>Restoring one path\<close>

definition added :: "(prepared_view \<Rightarrow> string \<Rightarrow> bool) \<Rightarrow> prepared_view \<Rightarrow> string \<Rightarrow> prepared_view \<Rightarrow> string \<Rightarrow> bool" where
  "added X v r w k \<longleftrightarrow> X w k \<or> w = v \<and> k = r"

lemma holding_restore:
  assumes s: "sound_transaction t0 tx" and h: "holding t0 tx X S F st" and c: "change tx v r"
    and x: "\<And>w k. S w k \<Longrightarrow> change tx w k"
    and w: "wf_tree t" and l: "lookup t = (lookup (st_tree st))(live v r := lookup t0 (live v r))"
  shows "holding t0 tx (added X v r) S F (st\<lparr>st_tree := t\<rparr>)"
proof -
  have "holding t0 tx X S F (st\<lparr>st_tree := t\<rparr>)"
  proof (rule holding_update [OF s h w l])
    show "allowed_update t0 tx (st_tree st) (live v r) (lookup t0 (live v r))" using c by (auto simp: allowed_update_def)
    show "lookup t0 (live v r) = lookup (st_tree st) (live v r)" if "S w k" "live v r = backup w k" for w k
      using that x backup_owned owned_not_live [OF s c] by metis
  qed simp
  with l show ?thesis by (auto simp: holding_def restored_def added_def)
qed

lemma tmp_of_change: "change tx v r \<Longrightarrow> is_tmp tx (restore_tmp_path (tx_id tx) (live v r))"
  by (auto simp: is_tmp_def)

lemma butlast_tmp [simp]: "butlast (restore_tmp_path op p) = butlast p"
  by (simp add: restore_tmp_path_def)

lemma above_tmp:
  assumes "sound_transaction t0 tx" and "change tx v r" and "strict_prefix c (restore_tmp_path (tx_id tx) (live v r))"
  shows "strict_prefix c (live v r)"
proof -
  have "prefix c (butlast (live v r))" using assms(3) by (auto simp: restore_tmp_path_def strict_prefix_def)
  moreover have "live v r \<noteq> []" using tail_ne [OF assms(1,2)] by (simp add: live_def)
  ultimately show ?thesis by (metis append_butlast_last_id prefix_order.less_le prefix_snoc butlast_neq prefix_order.antisym prefixI)
qed

lemma spec_restore_path:
  assumes s: "sound_transaction t0 tx" and c: "change tx v r" and x: "\<And>w k. X w k \<Longrightarrow> change tx w k"
    and xs: "\<And>w k. S w k \<Longrightarrow> change tx w k" and sv: "S v r"
  shows "spec q (holding t0 tx X S F) (restore_path v (tx_id tx) (planned_action v r))
     (\<lambda>_. holding t0 tx (added X v r) S F) (holding t0 tx X S F)"
proof -
  let ?H = "holding t0 tx X S F" and ?Q = "\<lambda>_ :: unit. holding t0 tx (added X v r) S F"
  let ?tmp = "restore_tmp_path (tx_id tx) (live v r)"
  let ?P = "\<lambda>st. ?H st \<and> is_dir (st_tree st) (butlast (live v r))"
  have g: "grows (\<lambda>p. strict_prefix p (live v r)) ?H"
    by (rule grows_subset [OF grows_holding [OF s x]]) (auto intro: above_live [OF c])
  have a: "spec q ?H (safe_target (pv_root v) r True) (\<lambda>p st. ?P st \<and> p = live v r) ?H"
    by (rule spec_post [OF spec_safe_target_make]) (use g holding_reachable [OF s _ c] in \<open>auto simp: live_def\<close>)
  have ne: "live v r \<noteq> []" using tail_ne [OF s c] by (simp add: live_def)
  note orig = sound_parts(9) [OF s c]
  have body: "spec q ?P (case map_of (pv_current v) r of None \<Rightarrow> on_tree (unlink (live v r))
     | Some original \<Rightarrow> bindIO (safe_target (pv_candidate v) r False) (\<lambda>source.
         finallyIO (seqIO (materialize ?tmp source) (seqIO (verify_one ?tmp original) (seqIO (fsync_file ?tmp)
            (on_tree (replace_file ?tmp (live v r)))))) (on_tree (unlink ?tmp)))) ?Q ?H"
  proof (cases "map_of (pv_current v) r")
    case None
    have n: "lookup t0 (live v r) = None" using orig by (simp add: None holds_version_def present_def)
    have "spec q ?P (on_tree (unlink (live v r))) ?Q ?H"
    proof (rule spec_on_tree)
      fix st assume st: "?P st"
      show "?H st \<and> (case unlink (live v r) (st_tree st) of None \<Rightarrow> \<not> q | Some t \<Rightarrow> ?Q () (st\<lparr>st_tree := t\<rparr>))"
      proof (cases "unlink (live v r) (st_tree st)")
        case None
        with st holding_live(2) [OF s _ c, of _ _ _ st] show ?thesis by (auto simp: unlink_def is_dir_def content_def split: if_splits)
      next
        case (Some t)
        with st n show ?thesis
          using holding_restore [OF s conjunct1 [OF st] c xs unlinkD(4) [OF Some]] unlinkD(1) [OF Some] holding_wf by auto
      qed
    qed
    then show ?thesis by (simp add: None)
  next
    case (Some a)
    then obtain b where b: "content t0 (live v r) = Some b" "matches b a" using orig by (auto simp: holds_Some)
    have bk: "content (st_tree st) (backup v r) = Some b" if "?H st" for st
      using that sv b Some unfolding holding_def backed_up_def by auto
    have 1: "spec q ?P (safe_target (pv_candidate v) r False) (\<lambda>p st. ?P st \<and> p = backup v r) ?H"
      by (rule spec_post [OF spec_safe_target_read]) (use holding_backup_reachable [OF s _ c _] sv Some in \<open>auto simp: backup_def\<close>)
    have tmp: "is_tmp tx ?tmp" by (rule tmp_of_change [OF c])
    have wt: "writable ?tmp ?H" by (rule writable_tmp [OF s tmp x xs])
    have tne: "?tmp \<noteq> []" by (simp add: restore_tmp_path_def)
    have wp: "writable ?tmp ?P" using writable_parent [OF tne] by (intro writable_and wt) simp
    have notdir: "\<not> is_dir (st_tree st) ?tmp" if "?H st" for st
      using that tmp by (auto simp: holding_def between_def confined_def is_dir_def content_def)
    let ?R = "\<lambda>st. ?P st \<and> content (st_tree st) ?tmp = Some b"
    have 2: "spec q ?P (materialize ?tmp (backup v r)) (\<lambda>_. ?R) ?H"
    proof (rule spec_post [OF spec_materialize [where known = True and bytes = "Some b"]])
      show "grows (\<lambda>p. strict_prefix p ?tmp) ?P"
        by (intro grows_and grows_is_dir grows_subset [OF g]) (rule above_tmp [OF s c])
      show "True \<and> Some b \<noteq> None \<and> \<not> is_dir (st_tree st) ?tmp \<and> (\<forall>p. strict_prefix p ?tmp \<longrightarrow> open_way (st_tree st) p)"
        if "?P st" for st
        using that notdir above_tmp [OF s c] above_live [OF c] holding_above [OF s] by blast
    qed (use tne wp bk in auto)
    have 3: "spec q ?R (verify_one ?tmp a) (\<lambda>_. ?R) ?H"
      by (rule spec_post [OF spec_verify_one]) (use b in \<open>auto simp: holds_Some\<close>)
    have 4: "spec q ?R (fsync_file ?tmp) (\<lambda>_. ?R) ?H" by (rule spec_fsync_file) auto
    have 5: "spec q ?R (on_tree (replace_file ?tmp (live v r))) ?Q ?H"
    proof (rule spec_on_tree)
      fix st assume st: "?R st"
      let ?t = "st_tree st"
      have nd: "\<not> is_dir ?t (live v r)" using st holding_live(2) [OF s _ c, of _ _ _ st] by (auto simp: is_dir_def content_def)
      then obtain t where t: "replace_file ?tmp (live v r) ?t = Some t" using st by (auto simp: replace_file_def content_iff)
      obtain t1 where t1: "unlink ?tmp ?t = Some t1" using notdir st by (auto simp: unlink_def)
      have h1: "?H (st\<lparr>st_tree := t1\<rparr>)"
        by (rule writableD [OF wt _ _ _ unlinkD(1) [OF t1]]) (use st notdir unlinkD(4) [OF t1] in auto)
      have "lookup t = (lookup ?t)(?tmp := None, live v r \<mapsto> File b)" using replace_fileD(1) [OF t] st by (auto simp: content_iff)
      then have l: "lookup t = (lookup (st_tree (st\<lparr>st_tree := t1\<rparr>)))(live v r := lookup t0 (live v r))"
        using unlinkD(1) [OF t1] b(1) by (simp add: content_iff)
      have "wf_tree t" using replace_fileD(4) [OF t] st holding_wf by blast
      from holding_restore [OF s h1 c xs this l] show "?H st \<and> (case replace_file ?tmp (live v r) ?t of None \<Rightarrow> \<not> q | Some t \<Rightarrow> ?Q () (st\<lparr>st_tree := t\<rparr>))"
        using st by (simp add: t)
    qed
    have w2: "writable ?tmp (holding t0 tx (added X v r) S F)"
      using x c xs by (intro writable_tmp [OF s tmp]) (auto simp: added_def)
    have nd2: "\<not> is_dir (st_tree st) ?tmp" if "holding t0 tx (added X v r) S F st" for st
      using that tmp by (auto simp: holding_def between_def confined_def is_dir_def content_def)
    have m: "holding t0 tx (added X v r) S F st \<Longrightarrow> ?H st" for st
      by (erule holding_mono) (auto simp: added_def)
    have 6: "spec q ?P (finallyIO (seqIO (materialize ?tmp (backup v r)) (seqIO (verify_one ?tmp a) (seqIO (fsync_file ?tmp)
            (on_tree (replace_file ?tmp (live v r)))))) (on_tree (unlink ?tmp))) ?Q ?H"
    proof (rule spec_finally)
      show "spec q ?P (seqIO (materialize ?tmp (backup v r)) (seqIO (verify_one ?tmp a) (seqIO (fsync_file ?tmp)
            (on_tree (replace_file ?tmp (live v r)))))) ?Q ?H"
        by (rule spec_bind [OF 2], rule spec_bind [OF 3], rule spec_bind [OF 4], rule 5)
      show "spec q (?Q u) (on_tree (unlink ?tmp)) (\<lambda>_. ?Q u) ?H" for u
        by (rule spec_post [OF spec_unlink [OF w2]]) (use m nd2 in auto)
      show "spec False ?H (on_tree (unlink ?tmp)) (\<lambda>_. ?H) ?H"
        by (rule spec_post [OF spec_unlink [OF wt]]) auto
    qed
    have "spec q (\<lambda>st. ?P st \<and> p = backup v r) (finallyIO (seqIO (materialize ?tmp p) (seqIO (verify_one ?tmp a) (seqIO (fsync_file ?tmp)
            (on_tree (replace_file ?tmp (live v r)))))) (on_tree (unlink ?tmp))) ?Q ?H" for p
      by (rule spec_fact [where A = "p = backup v r"]) (use 6 in \<open>auto intro: spec_pre\<close>)
    with 1 show ?thesis by (simp add: Some spec_bind)
  qed
  have "spec q (\<lambda>st. ?P st \<and> p = live v r) (case map_of (pv_current v) r of None \<Rightarrow> on_tree (unlink p)
     | Some original \<Rightarrow> bindIO (safe_target (pv_candidate v) r False) (\<lambda>source.
         finallyIO (seqIO (materialize (restore_tmp_path (tx_id tx) p) source) (seqIO (verify_one (restore_tmp_path (tx_id tx) p) original)
           (seqIO (fsync_file (restore_tmp_path (tx_id tx) p)) (on_tree (replace_file (restore_tmp_path (tx_id tx) p) p)))))
           (on_tree (unlink (restore_tmp_path (tx_id tx) p))))) ?Q ?H" for p
    by (rule spec_fact [where A = "p = live v r"]) (use body in \<open>auto intro: spec_pre\<close>)
  then show ?thesis unfolding restore_path_def planned_action_def Let_def restore_action.select_convs by (rule spec_bind [OF a])
qed

subsection \<open>Restoring a view\<close>

lemma eachIO_map: "eachIO f (map g xs) = eachIO (\<lambda>x. f (g x)) xs"
  by (induction xs) simp_all

definition along :: "(prepared_view \<Rightarrow> string \<Rightarrow> bool) \<Rightarrow> prepared_view \<Rightarrow> string list \<Rightarrow> prepared_view \<Rightarrow> string \<Rightarrow> bool" where
  "along X v rs w k \<longleftrightarrow> X w k \<or> w = v \<and> k \<in> set rs"

lemma along_Nil [simp]: "along X v [] = X"
  by (simp add: along_def fun_eq_iff)

lemma along_snoc: "along X v (rs @ [r]) = added (along X v rs) v r"
  by (auto simp: along_def added_def fun_eq_iff)

lemma current_entry:
  assumes "sound_transaction t0 tx" and "v \<in> set (tx_views tx)" and "(r, a) \<in> set (pv_current v)"
  shows "change tx v r" and "map_of (pv_current v) r = Some a"
proof -
  show "change tx v r" using sound_parts(5) [OF assms(1,2)] assms(2,3) by (force simp: change_def)
  have "distinct (map fst (pv_current v))" using sound_view [OF assms(1,2)] by (simp add: tidy_view_def tidy_manifest_def)
  with assms(3) show "map_of (pv_current v) r = Some a" by simp
qed

lemma spec_live_read:
  assumes "sound_transaction t0 tx" and "change tx v r" and "\<And>st. P st \<Longrightarrow> holding t0 tx X S F st" and "\<And>st. P st \<Longrightarrow> I st"
    and "\<And>p. p = live v r \<Longrightarrow> spec q P (f p) Q I"
  shows "spec q P (bindIO (safe_target (pv_root v) r False) f) Q I"
proof -
  have a: "spec q P (safe_target (pv_root v) r False) (\<lambda>p st. P st \<and> p = live v r) I"
    by (rule spec_post [OF spec_safe_target_read]) (use assms(4) holding_reachable [OF assms(1,3,2)] in \<open>auto simp: live_def\<close>)
  show ?thesis
  proof (rule spec_bind [OF a])
    fix p
    show "spec q (\<lambda>st. P st \<and> p = live v r) (f p) Q I"
      by (rule spec_fact [where A = "p = live v r"]) (use assms(5) in \<open>auto intro: spec_pre\<close>)
  qed
qed

lemma spec_verify_live:
  assumes s: "sound_transaction t0 tx" and v: "v \<in> set (tx_views tx)"
    and h: "\<And>st. P st \<Longrightarrow> holding t0 tx (along X v (view_changes v)) S F st" and i: "\<And>st. P st \<Longrightarrow> I st"
  shows "spec q P (verify_manifest (pv_root v) (pv_current v)) (\<lambda>_. P) I"
  unfolding verify_manifest_def
proof (rule spec_each_keep)
  fix e assume e: "e \<in> set (pv_current v)"
  obtain r a where ra: "e = (r, a)" by (cases e)
  note c = current_entry [OF s v e [unfolded ra]]
  have "holds_version (st_tree st) (live v r) (Some a)" if "P st" for st
    using holding_original [OF s h [OF that] c(1)] h [OF that] c by (auto simp: holding_def restored_def along_def change_def)
  then have "spec q P (verify_one p a) (\<lambda>_. P) I" if "p = live v r" for p
    using that i by (intro spec_post [OF spec_verify_one]) auto
  then show "spec q P (case e of (relative, a) \<Rightarrow> bindIO (safe_target (pv_root v) relative False) (\<lambda>p. verify_one p a)) (\<lambda>_. P) I"
    unfolding ra prod.case by (intro spec_live_read [OF s c(1) h i]) auto
qed

lemma spec_fsync_changed:
  assumes s: "sound_transaction t0 tx" and v: "v \<in> set (tx_views tx)"
    and h: "\<And>st. P st \<Longrightarrow> holding t0 tx X S F st" and i: "\<And>st. P st \<Longrightarrow> I st"
  shows "spec q P (fsync_changed v) (\<lambda>_. P) I"
  unfolding fsync_changed_def
proof (rule spec_each_keep)
  fix r assume "r \<in> set (view_changes v)"
  with v have c: "change tx v r" by (simp add: change_def)
  show "spec q P (bindIO (safe_target (pv_root v) r False) (\<lambda>target.
     bindIO tree_of (\<lambda>t. if content t target \<noteq> None then fsync_file target else ret ()))) (\<lambda>_. P) I"
  proof (rule spec_live_read [OF s c h i], assumption, assumption)
    fix p
    show "spec q P (bindIO tree_of (\<lambda>t. if content t p \<noteq> None then fsync_file p else ret ())) (\<lambda>_. P) I"
    proof (rule spec_tree, rule spec_if)
      fix t assume "content t p \<noteq> None"
      then show "spec q (\<lambda>st. P st \<and> st_tree st = t) (fsync_file p) (\<lambda>_. P) I"
        by (intro spec_post [OF spec_fsync_file]) (use i in auto)
    qed (auto intro: spec_ret)
  qed
qed

lemma spec_restored_path:
  assumes s: "sound_transaction t0 tx" and c: "change tx v r"
    and h: "\<And>st. P st \<Longrightarrow> holding t0 tx (along X v (view_changes v)) S F st" and i: "\<And>st. P st \<Longrightarrow> I st"
  shows "spec q P (restored_path v r) (\<lambda>_. P) I"
  unfolding restored_path_def
proof (rule spec_live_read [OF s c h i], assumption, assumption)
  fix p assume p: "p = live v r"
  have o: "holds_version (st_tree st) p (map_of (pv_current v) r)" if "P st" for st
    using holding_original [OF s h [OF that] c] h [OF that] c p by (auto simp: holding_def restored_def along_def change_def)
  show "spec q P (bindIO (path_matches p (map_of (pv_current v) r)) (\<lambda>b. check b VerificationError)) (\<lambda>_. P) I"
  proof (rule spec_bind [OF spec_path_matches])
    fix b
    let ?h = "\<lambda>st. holds_version (st_tree st) p (map_of (pv_current v) r)"
    show "spec q (\<lambda>st. P st \<and> (b \<longrightarrow> ?h st) \<and> (q \<longrightarrow> b = ?h st)) (check b VerificationError) (\<lambda>_. P) I"
      using i o by (intro spec_check) blast
  qed (use i in auto)
qed

lemma spec_restore_view:
  assumes s: "sound_transaction t0 tx" and v: "v \<in> set (tx_views tx)" and x: "\<And>w k. X w k \<Longrightarrow> change tx w k"
    and xs: "\<And>w k. S w k \<Longrightarrow> change tx w k" and srs: "\<And>r. r \<in> set rs \<Longrightarrow> S v r"
    and rs: "set rs \<subseteq> set (view_changes v)" "\<And>r. r \<in> set (view_changes v) \<Longrightarrow> r \<notin> set rs \<Longrightarrow> X v r"
  shows "spec q (holding t0 tx X S F) (restore_view (tx_id tx) (v, map (planned_action v) rs))
     (\<lambda>_. holding t0 tx (along X v (view_changes v)) S F) (holding t0 tx X S F)"
proof -
  let ?H = "\<lambda>X. holding t0 tx X S F" and ?V = "along X v (view_changes v)"
  have m: "?H X st" if "?H (along X v ks) st" for ks st using that by (rule holding_mono) (auto simp: along_def)
  have "spec q (?H (along X v [])) (eachIO (\<lambda>r. restore_path v (tx_id tx) (planned_action v r)) rs) (\<lambda>_. ?H (along X v rs)) (?H X)"
  proof (rule spec_each)
    fix pre r post assume e: "rs = pre @ r # post"
    have c: "change tx v r" using rs(1) v by (auto simp: e change_def)
    have k: "\<And>w k. along X v pre w k \<Longrightarrow> change tx w k" using x v rs(1) by (auto simp: along_def change_def e)
    have "spec q (?H (along X v pre)) (restore_path v (tx_id tx) (planned_action v r)) (\<lambda>_. ?H (added (along X v pre) v r)) (?H (along X v pre))"
      by (rule spec_restore_path [OF s c k xs]) (simp_all add: srs e)
    then show "spec q (?H (along X v pre)) (restore_path v (tx_id tx) (planned_action v r)) (\<lambda>_. ?H (along X v (pre @ [r]))) (?H X)"
      by (rule spec_conseq) (auto simp: along_snoc intro: m)
  qed
  then have a: "spec q (?H X) (eachIO (restore_path v (tx_id tx)) (map (planned_action v) rs)) (\<lambda>_. ?H ?V) (?H X)"
    unfolding eachIO_map along_Nil
    by (rule spec_post) (erule holding_mono, use rs(2) in \<open>unfold along_def, blast+\<close>)
  have b: "spec q (?H ?V) (verify_manifest (pv_root v) (pv_current v)) (\<lambda>_. ?H ?V) (?H X)"
    by (rule spec_verify_live [OF s v]) (use m in auto)
  have c: "spec q (?H ?V) (eachIO (restored_path v) (view_changes v)) (\<lambda>_. ?H ?V) (?H X)"
  proof (rule spec_each_keep)
    fix r assume "r \<in> set (view_changes v)"
    with v have "change tx v r" by (simp add: change_def)
    then show "spec q (?H ?V) (restored_path v r) (\<lambda>_. ?H ?V) (?H X)" by (rule spec_restored_path [OF s]) (use m in auto)
  qed
  have d: "spec q (?H ?V) (fsync_changed v) (\<lambda>_. ?H ?V) (?H X)" by (rule spec_fsync_changed [OF s v]) (use m in auto)
  show ?thesis unfolding restore_view_def prod.case
    by (rule spec_bind [OF a], rule spec_bind [OF b], rule spec_bind [OF c], rule d)
qed

subsection \<open>Cleaning up\<close>

definition none_of :: "prepared_view \<Rightarrow> string \<Rightarrow> bool" where
  "none_of v r \<longleftrightarrow> False"

definition journal_is :: "journal_file \<Rightarrow> state \<Rightarrow> bool" where
  "journal_is j s \<longleftrightarrow> st_journal s = j"

text \<open>The end of a rollback: every changed path holds what it held, and nothing of the transaction is left.\<close>

definition rolled_back :: "tree \<Rightarrow> transaction \<Rightarrow> state \<Rightarrow> bool" where
  "rolled_back t0 tx s \<longleftrightarrow> confined t0 tx (st_tree s) \<and> restored t0 (change tx) (st_tree s)
     \<and> (\<forall>v \<in> set (tx_views tx). lookup (st_tree s) (pv_stage v) = None \<and> lookup (st_tree s) (pv_candidate v) = None)
     \<and> st_journal s = NoJournal"

text \<open>A rollback that stopped: all backups are there, or everything is restored.\<close>

definition stalled :: "tree \<Rightarrow> transaction \<Rightarrow> journal_file \<Rightarrow> state \<Rightarrow> bool" where
  "stalled t0 tx j s \<longleftrightarrow> holding t0 tx none_of (change tx) (journal_is j) s
     \<or> holding t0 tx (change tx) none_of (journal_is j) s \<or> rolled_back t0 tx s"

lemma clearable_and: "clearable p P \<Longrightarrow> clearable p Q \<Longrightarrow> clearable p (\<lambda>s. P s \<and> Q s)"
  unfolding clearable_def by blast

lemma clearable_missing: "clearable p (\<lambda>s. lookup (st_tree s) x = None)"
  by (auto simp: clearable_def)

lemma spec_remove_stages:
  assumes s: "sound_transaction t0 tx"
  shows "spec q (holding t0 tx (change tx) none_of F) (remove_stages True tx)
     (\<lambda>_ st. holding t0 tx (change tx) none_of F st \<and> (\<forall>v \<in> set (tx_views tx). lookup (st_tree st) (pv_stage v) = None \<and> lookup (st_tree st) (pv_candidate v) = None))
     (holding t0 tx (change tx) none_of F)"
  unfolding remove_stages_def
proof (rule spec_conseq [OF spec_each [where J = "\<lambda>pre st. holding t0 tx (change tx) none_of F st
    \<and> (\<forall>v \<in> set pre. lookup (st_tree st) (pv_stage v) = None \<and> lookup (st_tree st) (pv_candidate v) = None)"]])
  fix pre v post assume e: "tx_views tx = pre @ v # post"
  then have v: "v \<in> set (tx_views tx)" by simp
  let ?J = "\<lambda>st. holding t0 tx (change tx) none_of F st
    \<and> (\<forall>w \<in> set pre. lookup (st_tree st) (pv_stage w) = None \<and> lookup (st_tree st) (pv_candidate w) = None)"
  have t: "tidy_view (tx_id tx) v" by (rule sound_view [OF s v])
  have ne: "pv_stage v \<noteq> []" "pv_candidate v \<noteq> []" using t by (auto simp: tidy_view_def stage_path_def candidate_path_def)
  have cl: "clearable p ?J" if "\<And>r. prefix p r \<Longrightarrow> is_owned tx r" for p
  proof (intro clearable_and clearable_owned [OF s that])
    show "clearable p (\<lambda>st. \<forall>w \<in> set pre. lookup (st_tree st) (pv_stage w) = None \<and> lookup (st_tree st) (pv_candidate w) = None)"
      by (auto simp: clearable_def)
  qed (auto simp: none_of_def)
  have own: "is_owned tx r" if "prefix (pv_stage v) r \<or> prefix (pv_candidate v) r" for r using v that by (auto simp: is_owned_def)
  have way: "open_way (st_tree st) (pv_stage v) \<and> open_way (st_tree st) (pv_candidate v)" if "holding t0 tx (change tx) none_of F st" for st
    using that v own owned_not_slot [OF s v] by (auto simp: holding_def between_def confined_def)
  have a: "spec q ?J (remove_owned_tree (pv_stage v)) (\<lambda>_ st. ?J st \<and> lookup (st_tree st) (pv_stage v) = None) (holding t0 tx (change tx) none_of F)"
    by (rule spec_remove_owned_tree [OF ne(1) cl]) (use own way holding_wf in auto)
  have b: "spec q (\<lambda>st. ?J st \<and> lookup (st_tree st) (pv_stage v) = None) (remove_owned_tree (pv_candidate v))
      (\<lambda>_ st. (?J st \<and> lookup (st_tree st) (pv_stage v) = None) \<and> lookup (st_tree st) (pv_candidate v) = None) (holding t0 tx (change tx) none_of F)"
    by (rule spec_remove_owned_tree [OF ne(2) clearable_and [OF cl clearable_missing]]) (use own way holding_wf in auto)
  show "spec q ?J (seqIO (remove_owned_tree (pv_stage v)) (if True then remove_owned_tree (pv_candidate v) else ret ()))
    (\<lambda>_ st. holding t0 tx (change tx) none_of F st
      \<and> (\<forall>w \<in> set (pre @ [v]). lookup (st_tree st) (pv_stage w) = None \<and> lookup (st_tree st) (pv_candidate w) = None))
    (holding t0 tx (change tx) none_of F)"
    by (rule spec_bind [OF a], simp only: if_True, rule spec_post [OF b]) auto
qed auto

lemma spec_durable_unlink:
  assumes "\<And>s. P s \<Longrightarrow> st_journal s \<noteq> OddJournal" and "\<And>s. P s \<Longrightarrow> I s" and "\<And>s. P s \<Longrightarrow> Q () (s\<lparr>st_journal := NoJournal\<rparr>)"
  shows "spec q P durable_unlink Q I"
  unfolding durable_unlink_def
proof (rule spec_state)
  fix s assume s: "P s"
  show "spec q (\<lambda>s'. s' = s) (case st_journal s of NoJournal \<Rightarrow> ret () | OddJournal \<Rightarrow> raise SyncError
      | JournalFile x \<Rightarrow> act (\<lambda>s. Some (s\<lparr>st_journal := NoJournal\<rparr>))) Q I"
  proof (cases "st_journal s")
    case NoJournal
    then have "s\<lparr>st_journal := NoJournal\<rparr> = s" by (cases s) simp
    with NoJournal assms(3) [OF s] show ?thesis by (auto intro: spec_ret)
  next
    case OddJournal
    with assms(1) [OF s] show ?thesis by simp
  next
    case (JournalFile d)
    with assms(2,3) [OF s] show ?thesis by (auto intro!: spec_act)
  qed
qed

lemma spec_cleanup:
  assumes s: "sound_transaction t0 tx" and j: "j \<noteq> OddJournal"
  shows "spec q (holding t0 tx (change tx) none_of (journal_is j)) (cleanup True tx) (\<lambda>_. rolled_back t0 tx)
    (\<lambda>st. holding t0 tx (change tx) none_of (journal_is j) st \<or> rolled_back t0 tx st)"
proof -
  let ?H = "holding t0 tx (change tx) none_of (journal_is j)"
  let ?gone = "\<lambda>st. \<forall>v \<in> set (tx_views tx). lookup (st_tree st) (pv_stage v) = None \<and> lookup (st_tree st) (pv_candidate v) = None"
  have a: "spec q ?H (remove_stages True tx) (\<lambda>_ st. ?H st \<and> ?gone st) (\<lambda>st. ?H st \<or> rolled_back t0 tx st)"
    by (rule spec_conseq [OF spec_remove_stages [OF s]]) auto
  have b: "spec q (\<lambda>st. ?H st \<and> ?gone st) durable_unlink (\<lambda>_. rolled_back t0 tx) (\<lambda>st. ?H st \<or> rolled_back t0 tx st)"
    by (rule spec_durable_unlink) (use j in \<open>auto simp: rolled_back_def holding_def journal_is_def between_def\<close>)
  show ?thesis unfolding cleanup_def by (simp only: if_True) (rule spec_bind [OF a b])
qed

lemma spec_finish:
  assumes "sound_transaction t0 tx" and "j \<noteq> OddJournal"
  shows "spec q (holding t0 tx (change tx) none_of (journal_is j)) (seqIO (cleanup True tx) set_finished) (\<lambda>_. rolled_back t0 tx)
    (\<lambda>st. holding t0 tx (change tx) none_of (journal_is j) st \<or> rolled_back t0 tx st)"
  unfolding set_finished_def by (rule spec_bind [OF spec_cleanup [OF assms]]) (auto intro!: spec_memory simp: rolled_back_def)

text \<open>Before the first live change, only the owned directories and the journal go.\<close>

lemma spec_rollback_untouched:
  assumes "sound_transaction t0 tx" and "j \<noteq> OddJournal"
  shows "spec q (\<lambda>st. \<not> st_finished st \<and> \<not> st_touched st \<and> holding t0 tx (change tx) none_of (journal_is j) st) (rollback tx)
    (\<lambda>_. rolled_back t0 tx) (\<lambda>st. holding t0 tx (change tx) none_of (journal_is j) st \<or> rolled_back t0 tx st)"
  unfolding rollback_def by (rule spec_state) (auto intro: spec_pre [OF spec_finish [OF assms]])

subsection \<open>The rollback\<close>

definition with_views :: "(prepared_view \<Rightarrow> string \<Rightarrow> bool) \<Rightarrow> prepared_view set \<Rightarrow> prepared_view \<Rightarrow> string \<Rightarrow> bool" where
  "with_views X V w k \<longleftrightarrow> X w k \<or> w \<in> V \<and> k \<in> set (view_changes w)"

lemma with_views_empty [simp]: "with_views X {} = X"
  by (simp add: with_views_def fun_eq_iff)

lemma with_views_insert: "with_views X (insert v V) = along (with_views X V) v (view_changes v)"
  by (auto simp: with_views_def along_def fun_eq_iff)

lemma spec_plans:
  assumes s: "sound_transaction t0 tx" and h: "\<And>st. P st \<Longrightarrow> holding t0 tx X S F st"
    and o: "\<And>st v r. P st \<Longrightarrow> change tx v r \<Longrightarrow> lookup (st_tree st) (live v r) = lookup t0 (live v r) \<or> S v r" and i: "\<And>st. P st \<Longrightarrow> I st"
  shows "spec q P (collectIO (\<lambda>v. bindIO (plan_restore v) (\<lambda>plan. ret (v, plan))) (rev (tx_views tx)))
    (\<lambda>plans st. P st \<and> fst ` set plans = set (tx_views tx) \<and> (\<forall>(v, acts) \<in> set plans. good_plan t0 S v acts (st_tree st))) I"
proof -
  let ?J = "\<lambda>pre plans st. P st \<and> map fst plans = pre \<and> (\<forall>(v, acts) \<in> set plans. good_plan t0 S v acts (st_tree st))"
  have "spec q (?J [] []) (collectIO (\<lambda>v. bindIO (plan_restore v) (\<lambda>plan. ret (v, plan))) (rev (tx_views tx))) (\<lambda>plans. ?J (rev (tx_views tx)) plans) I"
  proof (rule spec_collect)
    fix pre v post plans assume e: "rev (tx_views tx) = pre @ v # post"
    then have "v \<in> set (rev (tx_views tx))" by simp
    then have v: "v \<in> set (tx_views tx)" by simp
    have a: "spec q (?J pre plans) (plan_restore v) (\<lambda>acts st. ?J pre plans st \<and> good_plan t0 S v acts (st_tree st)) I"
      by (rule spec_plan_restore [OF s v]) (use h i o [of _ v] v in \<open>auto simp: change_def\<close>)
    show "spec q (?J pre plans) (bindIO (plan_restore v) (\<lambda>plan. ret (v, plan))) (\<lambda>y. ?J (pre @ [v]) (plans @ [y])) I"
      by (rule spec_bind [OF a]) (auto intro: spec_ret)
  qed
  then show ?thesis
  proof (rule spec_conseq)
    fix plans st assume a: "?J (rev (tx_views tx)) plans st"
    then have "fst ` set plans = set (tx_views tx)" by (metis set_map set_rev)
    with a show "P st \<and> fst ` set plans = set (tx_views tx) \<and> (\<forall>(v, acts) \<in> set plans. good_plan t0 S v acts (st_tree st))" by auto
  qed auto
qed

lemma spec_restore_step:
  assumes s: "sound_transaction t0 tx" and v: "v \<in> set (tx_views tx)" and x: "\<And>w k. X w k \<Longrightarrow> change tx w k"
    and xs: "\<And>w k. S w k \<Longrightarrow> change tx w k" and srs: "\<And>r. r \<in> set rs \<Longrightarrow> S v r"
    and rs: "set rs \<subseteq> set (view_changes v)" "\<And>r. r \<in> set (view_changes v) \<Longrightarrow> r \<notin> set rs \<Longrightarrow> X v r"
  shows "spec q (holding t0 tx X S F) (restore_step (tx_id tx) (v, map (planned_action v) rs))
     (\<lambda>b st. holding t0 tx X S F st \<and> (b \<longrightarrow> holding t0 tx (along X v (view_changes v)) S F st) \<and> (q \<longrightarrow> b))
     (holding t0 tx X S F)"
  unfolding restore_step_def
proof (rule spec_catch)
  let ?H = "\<lambda>X. holding t0 tx X S F"
  have m: "?H X st" if "?H (along X v ks) st" for ks st using that by (rule holding_mono) (auto simp: along_def)
  show "spec q (?H X) (seqIO (restore_view (tx_id tx) (v, map (planned_action v) rs)) (ret True))
     (\<lambda>b st. ?H X st \<and> (b \<longrightarrow> ?H (along X v (view_changes v)) st) \<and> (q \<longrightarrow> b)) (?H X)"
    by (rule spec_bind [OF spec_restore_view [where X = X, OF s v]]) (use x xs srs rs in \<open>auto intro!: spec_ret dest: m\<close>)
  show "spec q (?H X) (ret False) (\<lambda>b st. ?H X st \<and> (b \<longrightarrow> ?H (along X v (view_changes v)) st) \<and> (q \<longrightarrow> b)) (?H X)" if "\<not> q"
    using that by (auto intro: spec_ret)
qed

lemma spec_with: "spec q P m Q I \<Longrightarrow> spec q (\<lambda>s. A \<and> P s) m (\<lambda>x s. A \<and> Q x s) I"
  by (cases A) (auto simp: spec_def)

lemma spec_restore_all:
  assumes s: "sound_transaction t0 tx" and x: "\<And>w k. X w k \<Longrightarrow> change tx w k"
    and xs: "\<And>w k. S w k \<Longrightarrow> change tx w k" and plans: "fst ` set plans \<subseteq> set (tx_views tx)"
    and good: "\<And>v acts. (v, acts) \<in> set plans \<Longrightarrow> \<exists>rs. acts = map (planned_action v) rs \<and> set rs \<subseteq> set (view_changes v) \<and> (\<forall>r \<in> set rs. S v r)
         \<and> (\<forall>r. r \<in> set (view_changes v) \<longrightarrow> r \<notin> set rs \<longrightarrow> X v r)"
  shows "spec q (holding t0 tx X S F) (collectIO (restore_step (tx_id tx)) plans)
     (\<lambda>bs st. holding t0 tx X S F st \<and> ((\<forall>b \<in> set bs. b) \<longrightarrow> holding t0 tx (with_views X (fst ` set plans)) S F st)
        \<and> (q \<longrightarrow> (\<forall>b \<in> set bs. b))) (holding t0 tx X S F)"
proof -
  let ?H = "\<lambda>X. holding t0 tx X S F"
  let ?J = "\<lambda>(pre :: (prepared_view \<times> restore_action list) list) (bs :: bool list) st. ?H X st \<and> ((\<forall>b \<in> set bs. b) \<longrightarrow> ?H (with_views X (fst ` set pre)) st) \<and> (q \<longrightarrow> (\<forall>b \<in> set bs. b))"
  have "spec q (?J [] []) (collectIO (restore_step (tx_id tx)) plans) (\<lambda>bs. ?J plans bs) (?H X)"
  proof (rule spec_collect [where J = ?J])
    fix pre plan post and bs :: "bool list" assume e: "plans = pre @ plan # post"
    obtain v acts where p: "plan = (v, acts)" by (cases plan)
    from good [of v acts] obtain rs where rs: "acts = map (planned_action v) rs" "set rs \<subseteq> set (view_changes v)"
      "\<And>r. r \<in> set (view_changes v) \<Longrightarrow> r \<notin> set rs \<Longrightarrow> X v r" and srs: "\<And>r. r \<in> set rs \<Longrightarrow> S v r" by (auto simp: e p)
    have v: "v \<in> set (tx_views tx)" using plans by (auto simp: e p)
    let ?Y = "if \<forall>b \<in> set bs. b then with_views X (fst ` set pre) else X"
    have y: "?Y w k \<Longrightarrow> change tx w k" for w k using x plans by (auto simp: with_views_def change_def e split: if_splits)
    have yr: "?Y v r" if "r \<in> set (view_changes v)" "r \<notin> set rs" for r using rs(3) [OF that] by (simp add: with_views_def)
    have m: "?H ?Y st \<Longrightarrow> ?H X st" for st by (erule holding_mono) (auto simp: with_views_def)
    have "spec q (?H ?Y) (restore_step (tx_id tx) plan)
       (\<lambda>b st. ?H ?Y st \<and> (b \<longrightarrow> ?H (along ?Y v (view_changes v)) st) \<and> (q \<longrightarrow> b)) (?H ?Y)"
      unfolding p rs(1) by (rule spec_restore_step [where X = ?Y, OF s v]) (use y rs(2) yr xs srs in auto)
    note a = spec_with [OF this, where A = "q \<longrightarrow> (\<forall>b \<in> set bs. b)"]
    show "spec q (?J pre bs) (restore_step (tx_id tx) plan) (\<lambda>b. ?J (pre @ [plan]) (bs @ [b])) (?H X)"
      by (rule spec_conseq [OF a]) (use m in \<open>auto simp: p with_views_insert split: if_splits\<close>)
  qed
  then show ?thesis by (rule spec_pre) simp
qed

lemma spec_rollback:
  assumes s: "sound_transaction t0 tx" and j: "j \<noteq> OddJournal"
  shows "spec q (\<lambda>st. \<not> st_finished st \<and> (if st_touched st then holding t0 tx none_of (change tx) (journal_is j) st
        \<or> holding t0 tx (change tx) none_of (journal_is j) st
      else holding t0 tx (change tx) none_of (journal_is j) st)) (rollback tx) (\<lambda>_. rolled_back t0 tx) (stalled t0 tx j)"
proof -
  have fin: "spec q (holding t0 tx (change tx) none_of (journal_is j)) (seqIO (cleanup True tx) set_finished) (\<lambda>_. rolled_back t0 tx) (stalled t0 tx j)"
    by (rule spec_conseq [OF spec_finish [OF s j]]) (auto simp: stalled_def)
  show ?thesis unfolding rollback_def
  proof (rule spec_state, intro spec_if)
    fix st assume st: "\<not> st_finished st \<and> (if st_touched st then holding t0 tx none_of (change tx) (journal_is j) st
        \<or> holding t0 tx (change tx) none_of (journal_is j) st
      else holding t0 tx (change tx) none_of (journal_is j) st)"
    show "spec q (\<lambda>s. s = st) (ret ()) (\<lambda>_. rolled_back t0 tx) (stalled t0 tx j)" if "st_finished st" using st that by simp
    show "spec q (\<lambda>s. s = st) (seqIO (cleanup True tx) set_finished) (\<lambda>_. rolled_back t0 tx) (stalled t0 tx j)" if "\<not> st_touched st"
      by (rule spec_pre [OF fin]) (use st that in auto)
    assume "\<not> \<not> st_touched st"
    then have h0: "holding t0 tx none_of (change tx) (journal_is j) st \<or> holding t0 tx (change tx) none_of (journal_is j) st" using st by auto
    define X where "X w k \<longleftrightarrow> change tx w k \<and> lookup (st_tree st) (live w k) = lookup t0 (live w k)" for w k
    define S where "S = (if holding t0 tx none_of (change tx) (journal_is j) st then change tx else none_of)"
    have xs: "S w k \<Longrightarrow> change tx w k" for w k by (auto simp: S_def none_of_def split: if_splits)
    have xc: "X w k \<Longrightarrow> change tx w k" for w k by (simp add: X_def)
    have cover: "X v r \<or> S v r" if "change tx v r" for v r
      using that h0 by (auto simp: X_def S_def holding_def restored_def)
    let ?H = "\<lambda>X. holding t0 tx X S (journal_is j)"
    have "backed_up t0 S (st_tree st)" unfolding S_def by (simp add: holding_def) (simp add: backed_up_def none_of_def)
    then have hx: "?H X st" using h0 by (auto simp: holding_def restored_def X_def)
    have stall: "stalled t0 tx j s" if "?H X s" for s
    proof (cases "S = change tx")
      case True
      then show ?thesis unfolding stalled_def using holding_mono [OF that, of none_of "change tx"] by (auto simp: none_of_def)
    next
      case False
      then have "S = none_of" by (auto simp: S_def split: if_splits)
      then have "X v r" if "change tx v r" for v r using cover [OF that] by (auto simp: none_of_def)
      then show ?thesis unfolding stalled_def using holding_mono [OF that, of "change tx" none_of] by (auto simp: none_of_def)
    qed
    let ?P = "\<lambda>s. s = st"
    let ?good = "\<lambda>plans. fst ` set plans = set (tx_views tx) \<and> (\<forall>(v, acts) \<in> set plans. good_plan t0 S v acts (st_tree st))"
    have a: "spec q ?P (catchIO (collectIO (\<lambda>v. bindIO (plan_restore v) (\<lambda>plan. ret (v, plan))) (rev (tx_views tx))) (\<lambda>_. raise SyncError))
       (\<lambda>plans s. ?H X s \<and> ?good plans) (stalled t0 tx j)"
    proof (rule spec_catch)
      show "spec q ?P (collectIO (\<lambda>v. bindIO (plan_restore v) (\<lambda>plan. ret (v, plan))) (rev (tx_views tx)))
         (\<lambda>plans s. ?H X s \<and> ?good plans) (stalled t0 tx j)"
        by (rule spec_post [OF spec_plans [OF s]]) (use hx stall cover in \<open>auto simp: X_def\<close>)
    qed (auto intro: spec_raise)
    have b: "spec q (\<lambda>s. ?H X s \<and> ?good plans) (collectIO (restore_step (tx_id tx)) plans)
       (\<lambda>bs s. stalled t0 tx j s \<and> ((\<forall>b \<in> set bs. b) \<longrightarrow> holding t0 tx (change tx) none_of (journal_is j) s) \<and> (q \<longrightarrow> (\<forall>b \<in> set bs. b))) (stalled t0 tx j)" for plans
    proof (rule spec_fact [where A = "?good plans"])
      assume g: "?good plans"
      have good: "\<exists>rs. acts = map (planned_action v) rs \<and> set rs \<subseteq> set (view_changes v) \<and> (\<forall>r \<in> set rs. S v r)
         \<and> (\<forall>r. r \<in> set (view_changes v) \<longrightarrow> r \<notin> set rs \<longrightarrow> X v r)" if p: "(v, acts) \<in> set plans" for v acts
      proof -
        from g p have "good_plan t0 S v acts (st_tree st)" and "v \<in> set (tx_views tx)" by force+
        then show ?thesis unfolding good_plan_def X_def change_def by blast
      qed
      have r: "spec q (?H X) (collectIO (restore_step (tx_id tx)) plans)
        (\<lambda>bs s. ?H X s \<and> ((\<forall>b \<in> set bs. b) \<longrightarrow> ?H (with_views X (fst ` set plans)) s) \<and> (q \<longrightarrow> (\<forall>b \<in> set bs. b))) (?H X)"
        using g by (intro spec_restore_all [OF s xc xs _ good]) auto
      have all: "holding t0 tx (change tx) none_of (journal_is j) s" if "?H (with_views X (fst ` set plans)) s" for s
        using that g by (auto elim!: holding_mono simp: with_views_def change_def none_of_def)
      show "spec q (\<lambda>s. ?H X s \<and> ?good plans) (collectIO (restore_step (tx_id tx)) plans)
       (\<lambda>bs s. stalled t0 tx j s \<and> ((\<forall>b \<in> set bs. b) \<longrightarrow> holding t0 tx (change tx) none_of (journal_is j) s) \<and> (q \<longrightarrow> (\<forall>b \<in> set bs. b))) (stalled t0 tx j)"
        by (rule spec_conseq [OF r]) (use stall all in auto)
    qed auto
    show "spec q ?P (bindIO (catchIO (collectIO (\<lambda>v. bindIO (plan_restore v) (\<lambda>plan. ret (v, plan))) (rev (tx_views tx))) (\<lambda>_. raise SyncError)) (\<lambda>plans.
          bindIO (collectIO (restore_step (tx_id tx)) plans) (\<lambda>restored.
          if \<forall>b \<in> set restored. b then seqIO (cleanup True tx) set_finished else raise SyncError)))
       (\<lambda>_. rolled_back t0 tx) (stalled t0 tx j)"
    proof (rule spec_bind [OF a], rule spec_bind [OF b], rule spec_if)
      fix bs :: "bool list"
      let ?R = "\<lambda>s. stalled t0 tx j s \<and> ((\<forall>b \<in> set bs. b) \<longrightarrow> holding t0 tx (change tx) none_of (journal_is j) s) \<and> (q \<longrightarrow> (\<forall>b \<in> set bs. b))"
      show "spec q ?R (seqIO (cleanup True tx) set_finished) (\<lambda>_. rolled_back t0 tx) (stalled t0 tx j)" if "\<forall>b \<in> set bs. b"
        by (rule spec_pre [OF fin]) (use that in auto)
      show "spec q ?R (raise SyncError) (\<lambda>_. rolled_back t0 tx) (stalled t0 tx j)" if "\<not> (\<forall>b \<in> set bs. b)"
        by (rule spec_raise) (use that in auto)
    qed
  qed
qed

end
