(* ===== verification/TransactionRecovery.thy ===== *)
theory TransactionRecovery
  imports TransactionRollback
begin

text \<open>
  Recovery of an interrupted selected transaction: what a new process reads from the journal is the
  transaction that was interrupted, so that its rollback restores every changed path, however often it is
  interrupted itself.
\<close>

subsection \<open>The transaction a new process sees\<close>

lemma journaled_simps [simp]:
  "pv_root (journaled v) = pv_root v" "pv_stage (journaled v) = pv_stage v" "pv_candidate (journaled v) = pv_candidate v"
  "pv_previous (journaled v) = pv_previous v" "pv_current (journaled v) = pv_current v" "pv_desired (journaled v) = pv_desired v"
  "pv_groups (journaled v) = pv_groups v" "view_changes (journaled v) = view_changes v"
  "live (journaled v) r = live v r" "backup (journaled v) r = backup v r" "staged (journaled v) r = staged v r" "view_areas (journaled v) = view_areas v"
  by (simp_all add: journaled_def view_changes_def live_def backup_def staged_def view_areas_def)

lemma resumed_simps [simp]:
  "tx_id (resumed tx) = tx_id tx" "tx_views (resumed tx) = map journaled (tx_views tx)" "tx_metrics (resumed tx) = tx_metrics tx"
  by (simp_all add: resumed_def)

lemma change_resumed: "change (resumed tx) v r \<longleftrightarrow> (\<exists>w. v = journaled w \<and> change tx w r)"
  by (auto simp: change_def)

lemma all_change_resumed: "(\<forall>v r. change (resumed tx) v r \<longrightarrow> P v r) \<longleftrightarrow> (\<forall>v r. change tx v r \<longrightarrow> P (journaled v) r)"
  by (auto simp: change_resumed)

lemma ex_change_resumed: "(\<exists>v r. change (resumed tx) v r \<and> P v r) \<longleftrightarrow> (\<exists>v r. change tx v r \<and> P (journaled v) r)"
  by (auto simp: change_resumed)

lemma kinds_resumed [simp]:
  "is_target (resumed tx) p = is_target tx p" "is_tmp (resumed tx) p = is_tmp tx p" "is_owned (resumed tx) p = is_owned tx p"
  "above_target (resumed tx) p = above_target tx p" "is_slot (resumed tx) p = is_slot tx p"
  by (simp_all add: is_target_def is_tmp_def is_owned_def above_target_def is_slot_def ex_change_resumed)

lemma view_dict_journaled [simp]: "view_dict (journaled v) = view_dict v"
  by (simp add: view_dict_def)

lemma payload_resumed [simp]: "journal_payload (resumed tx) p = journal_payload tx p"
  by (simp add: journal_payload_def comp_def)

lemma tidy_view_journaled [simp]: "tidy_view op (journaled v) = tidy_view op v"
  by (simp add: tidy_view_def)

lemma tidy_resumed [simp]: "tidy_transaction (resumed tx) = tidy_transaction tx"
  by (simp add: tidy_transaction_def comp_def)

lemma areas_resumed [simp]: "areas (map journaled vs) = areas vs"
  by (simp add: areas_def comp_def)

lemma sound_resumed: "sound_transaction t0 tx \<Longrightarrow> sound_transaction t0 (resumed tx)"
  by (simp add: sound_transaction_def all_change_resumed)

lemma confined_resumed [simp]: "confined t0 (resumed tx) t = confined t0 tx t"
  by (simp add: confined_def)

lemma between_resumed [simp]: "between t0 (resumed tx) t = between t0 tx t"
  by (simp add: between_def all_change_resumed)

lemma restored_resumed [simp]: "restored t0 (change (resumed tx)) t = restored t0 (change tx) t"
  by (simp add: restored_def all_change_resumed)

lemma backed_up_resumed [simp]: "backed_up t0 (change (resumed tx)) t = backed_up t0 (change tx) t"
  by (simp add: backed_up_def all_change_resumed)

lemma holding_resumed [simp]:
  "holding t0 (resumed tx) none_of (change (resumed tx)) F s = holding t0 tx none_of (change tx) F s"
  "holding t0 (resumed tx) (change (resumed tx)) none_of F s = holding t0 tx (change tx) none_of F s"
  by (simp_all add: holding_def)

lemma rolled_back_resumed [simp]: "rolled_back t0 (resumed tx) s = rolled_back t0 tx s"
  by (simp add: rolled_back_def)

lemma stalled_resumed [simp]: "stalled t0 (resumed tx) j s = stalled t0 tx j s"
  by (simp add: stalled_def)

subsection \<open>Reading the journal\<close>

text \<open>The configured roots: no change of the transaction lies on the way to one.\<close>

definition sound_roots :: "tree \<Rightarrow> transaction \<Rightarrow> path list \<Rightarrow> bool" where
  "sound_roots t0 tx allowed \<longleftrightarrow> pv_root ` set (tx_views tx) \<subseteq> set allowed
     \<and> (\<forall>r \<in> set allowed. r \<noteq> [] \<and> (\<forall>c. prefix c r \<longrightarrow> open_way t0 c \<and> \<not> is_target tx c \<and> \<not> is_tmp tx c \<and> \<not> is_owned tx c
          \<and> (\<forall>v \<in> set (tx_views tx). \<not> prefix (pv_previous v) c)))"

lemma allowed_validated:
  assumes "sound_roots t0 tx allowed" and "confined t0 tx t" and "r \<in> set allowed"
  shows "validated_root t r = Inr r"
proof -
  have "open_way t c" if "prefix c r" for c
  proof -
    have k: "open_way t0 c" "\<not> is_target tx c" "\<not> is_tmp tx c" "\<not> is_owned tx c"
      using assms(1,3) that by (auto simp: sound_roots_def)
    with assms(2) show ?thesis unfolding confined_def by (metis open_way_def insert_iff)
  qed
  moreover have "r \<noteq> []" using assms(1,3) by (auto simp: sound_roots_def)
  ultimately show ?thesis by (simp add: validated_root_iff)
qed

definition journal_of :: "transaction \<Rightarrow> phase \<Rightarrow> journal_file" where
  "journal_of tx p = JournalFile (written (journal_payload tx p))"

lemma spec_read_journal:
  assumes tx: "tidy_transaction tx" and a: "\<And>s r. P s \<Longrightarrow> r \<in> set allowed \<Longrightarrow> validated_root (st_tree s) r = Inr r"
    and sub: "pv_root ` set (tx_views tx) \<subseteq> set allowed" and j: "\<And>s. P s \<Longrightarrow> st_journal s = journal_of tx p"
    and i: "\<And>s. P s \<Longrightarrow> I s"
    and m: "\<And>s. P s \<Longrightarrow> Q (s\<lparr>st_touched := p \<in> {Applying, Promoted}, st_finished := False\<rparr>)"
  shows "spec q P (read_journal allowed) (\<lambda>r s. r = (resumed tx, p) \<and> Q s) I"
  unfolding read_journal_def
proof (rule spec_catch)
  have r: "spec q P read_disk (\<lambda>_. P) I" using i by (intro spec_read) simp
  show "spec q P (seqIO read_disk (bindIO state_of (\<lambda>s.
       case st_journal s of
         JournalFile d \<Rightarrow>
           (case doc_json d of
              None \<Rightarrow> raise SyncError
            | Some payload \<Rightarrow>
                bindIO (lift (transaction_from (st_tree s) allowed payload)) (\<lambda>(tx, p).
                seqIO (set_memory (\<lambda>s. s\<lparr>st_touched := p \<in> {Applying, Promoted}, st_finished := False\<rparr>))
                  (ret (tx, p))))
       | _ \<Rightarrow> raise SyncError))) (\<lambda>r s. r = (resumed tx, p) \<and> Q s) I"
  proof (rule spec_bind [OF r], rule spec_state)
    fix s assume s: "P s"
    have t: "transaction_from (st_tree s) allowed (sort_json (journal_payload tx p)) = Inr (resumed tx, p)"
      by (rule transaction_from_payload [OF tx a [OF s] sub])
    have "spec q (\<lambda>s'. s' = s) (seqIO (set_memory (\<lambda>s. s\<lparr>st_touched := p \<in> {Applying, Promoted}, st_finished := False\<rparr>))
                  (ret (resumed tx, p))) (\<lambda>r s. r = (resumed tx, p) \<and> Q s) I"
      by (rule spec_bind [OF spec_memory [where Q = "\<lambda>_. Q"]]) (use m [OF s] in \<open>auto intro: spec_ret\<close>)
    then show "spec q (\<lambda>s'. s' = s) (case st_journal s of
         JournalFile d \<Rightarrow>
           (case doc_json d of
              None \<Rightarrow> raise SyncError
            | Some payload \<Rightarrow>
                bindIO (lift (transaction_from (st_tree s) allowed payload)) (\<lambda>(tx, p).
                seqIO (set_memory (\<lambda>s. s\<lparr>st_touched := p \<in> {Applying, Promoted}, st_finished := False\<rparr>))
                  (ret (tx, p))))
       | _ \<Rightarrow> raise SyncError) (\<lambda>r s. r = (resumed tx, p) \<and> Q s) I"
      by (simp add: j [OF s] journal_of_def t run_steps(5) del: sort_json.simps)
  qed
qed (auto intro: spec_raise)

subsection \<open>Recovery\<close>

text \<open>
  A journal was written for the transaction and it was interrupted: up to \<open>prepared\<close> nothing live has
  changed; later every change has its backup, or everything is restored.
\<close>

definition interrupted :: "tree \<Rightarrow> transaction \<Rightarrow> phase \<Rightarrow> state \<Rightarrow> bool" where
  "interrupted t0 tx p s \<longleftrightarrow> holding t0 tx (change tx) none_of (journal_is (journal_of tx p)) s
     \<or> p \<in> {Applying, Promoted} \<and> holding t0 tx none_of (change tx) (journal_is (journal_of tx p)) s"

lemma stalled_interrupted:
  assumes "stalled t0 tx (journal_of tx p) s" and "p \<in> {Applying, Promoted}"
  shows "interrupted t0 tx p s \<or> rolled_back t0 tx s"
  using assms by (auto simp: stalled_def interrupted_def)

lemma interrupted_facts:
  assumes "interrupted t0 tx p s"
  shows "confined t0 tx (st_tree s)" and "st_journal s = journal_of tx p"
  using assms by (auto simp: interrupted_def holding_def between_def journal_is_def)

lemma spec_recover:
  assumes s: "sound_transaction t0 tx" and r: "sound_roots t0 tx allowed"
    and n: "p \<noteq> Promoted \<or> receipt \<noteq> Some (tx_id tx)"
  shows "spec q (interrupted t0 tx p) (recover_transaction allowed receipt) (\<lambda>b s. b \<and> rolled_back t0 tx s)
     (\<lambda>s. interrupted t0 tx p s \<or> rolled_back t0 tx s)"
proof -
  let ?I = "\<lambda>s. interrupted t0 tx p s \<or> rolled_back t0 tx s"
  let ?j = "journal_of tx p"
  let ?R = "\<lambda>st. \<not> st_finished st \<and> (if st_touched st then holding t0 tx none_of (change tx) (journal_is ?j) st
        \<or> holding t0 tx (change tx) none_of (journal_is ?j) st else holding t0 tx (change tx) none_of (journal_is ?j) st)"
  have read: "spec q (interrupted t0 tx p) (read_journal allowed) (\<lambda>x s. x = (resumed tx, p) \<and> ?R s \<and> (st_touched s \<longrightarrow> p \<in> {Applying, Promoted})) ?I"
  proof (rule spec_read_journal)
    show "tidy_transaction tx" by (rule sound_parts(1) [OF s])
    show "pv_root ` set (tx_views tx) \<subseteq> set allowed" using r by (simp add: sound_roots_def)
    show "validated_root (st_tree st) x = Inr x" if "interrupted t0 tx p st" "x \<in> set allowed" for st x
      by (rule allowed_validated [OF r interrupted_facts(1) [OF that(1)] that(2)])
    show "st_journal st = ?j" if "interrupted t0 tx p st" for st by (rule interrupted_facts(2) [OF that])
    show "?R (st\<lparr>st_touched := p \<in> {Applying, Promoted}, st_finished := False\<rparr>)
        \<and> (st_touched (st\<lparr>st_touched := p \<in> {Applying, Promoted}, st_finished := False\<rparr>) \<longrightarrow> p \<in> {Applying, Promoted})"
      if "interrupted t0 tx p st" for st
      using that by (auto simp: interrupted_def holding_def journal_is_def)
  qed auto
  have oj: "?j \<noteq> OddJournal" by (simp add: journal_of_def)
  have roll: "spec q ?R (rollback (resumed tx)) (\<lambda>_. rolled_back t0 tx) (stalled t0 tx ?j)"
    by (rule spec_rollback [OF sound_resumed [OF s] oj, unfolded holding_resumed rolled_back_resumed stalled_resumed])
  have roll': "spec q (\<lambda>s. ?R s \<and> (st_touched s \<longrightarrow> p \<in> {Applying, Promoted})) (rollback (resumed tx)) (\<lambda>_. rolled_back t0 tx) ?I"
  proof (cases "p \<in> {Applying, Promoted}")
    case True
    show ?thesis by (rule spec_conseq [OF roll]) (use stalled_interrupted [OF _ True] in auto)
  next
    case False
    have u: "spec q (\<lambda>st. \<not> st_finished st \<and> \<not> st_touched st \<and> holding t0 tx (change tx) none_of (journal_is ?j) st) (rollback (resumed tx))
        (\<lambda>_. rolled_back t0 tx) (\<lambda>st. holding t0 tx (change tx) none_of (journal_is ?j) st \<or> rolled_back t0 tx st)"
      by (rule spec_rollback_untouched [OF sound_resumed [OF s] oj, unfolded holding_resumed rolled_back_resumed])
    show ?thesis by (rule spec_conseq [OF u]) (use False in \<open>auto simp: interrupted_def\<close>)
  qed
  show ?thesis unfolding recover_transaction_def
  proof (rule spec_state)
    fix st assume st: "interrupted t0 tx p st"
    then have "st_journal st \<noteq> NoJournal" using interrupted_facts(2) [OF st] by (simp add: journal_of_def)
    moreover have "spec q (\<lambda>s. s = st) (bindIO (read_journal allowed) (\<lambda>(tx, p).
       if p = Promoted \<and> receipt = Some (tx_id tx) then seqIO (finalize tx) (ret True) else seqIO (rollback tx) (ret True)))
       (\<lambda>b s. b \<and> rolled_back t0 tx s) ?I"
    proof (rule spec_pre [OF spec_bind [OF read]])
      fix x
      show "spec q (\<lambda>s. x = (resumed tx, p) \<and> ?R s \<and> (st_touched s \<longrightarrow> p \<in> {Applying, Promoted})) (case x of (tx, p) \<Rightarrow>
          if p = Promoted \<and> receipt = Some (tx_id tx) then seqIO (finalize tx) (ret True) else seqIO (rollback tx) (ret True))
         (\<lambda>b s. b \<and> rolled_back t0 tx s) ?I"
      proof (rule spec_fact [where A = "x = (resumed tx, p)"])
        assume x: "x = (resumed tx, p)"
        have "spec q (\<lambda>s. ?R s \<and> (st_touched s \<longrightarrow> p \<in> {Applying, Promoted})) (seqIO (rollback (resumed tx)) (ret True)) (\<lambda>b s. b \<and> rolled_back t0 tx s) ?I"
          by (rule spec_bind [OF roll']) (auto intro: spec_ret)
        then show "spec q (\<lambda>s. x = (resumed tx, p) \<and> ?R s \<and> (st_touched s \<longrightarrow> p \<in> {Applying, Promoted})) (case x of (tx, p) \<Rightarrow>
          if p = Promoted \<and> receipt = Some (tx_id tx) then seqIO (finalize tx) (ret True) else seqIO (rollback tx) (ret True))
         (\<lambda>b s. b \<and> rolled_back t0 tx s) ?I"
          using n by (auto simp: x intro: spec_pre)
      qed auto
    qed (use st in auto)
    ultimately show "spec q (\<lambda>s. s = st) (if st_journal st = NoJournal then ret False else bindIO (read_journal allowed) (\<lambda>(tx, p).
       if p = Promoted \<and> receipt = Some (tx_id tx) then seqIO (finalize tx) (ret True) else seqIO (rollback tx) (ret True)))
       (\<lambda>b s. b \<and> rolled_back t0 tx s) ?I" by simp
  qed
qed

end
