(* ===== verification/TransactionApply.thy ===== *)
theory TransactionApply
  imports TransactionRecovery
begin

text \<open>
  The promotion of a prepared transaction: path by path the desired version replaces the live one, the
  other paths still holding what they held, so that a failure is rolled back and an interruption leaves an
  interrupted transaction.
\<close>

subsection \<open>The journal\<close>

lemma owned_journal_of: "owned_journal (tx_id tx) (journal_of tx p)"
proof -
  let ?d = "[(''version'', JInt 2), (''operation_id'', JStr (tx_id tx)), (''phase'', JStr (phase_text p)),
     (''views'', JArr (map view_dict (tx_views tx)))]"
  have g: "jget (sort_key fst (map (\<lambda>(k, v). (k, sort_json v)) ?d)) k = sort_json (jget ?d k)" for k by (rule jget_sorted) simp
  have "jget (sort_key fst (map (\<lambda>(k, v). (k, sort_json v)) ?d)) ''operation_id'' = JStr (tx_id tx)" unfolding g by simp
  then show ?thesis by (simp add: owned_journal_def journal_of_def journal_payload_def)
qed

lemma spec_write_journal:
  assumes "\<And>s. P s \<Longrightarrow> st_journal s = journal_of tx p'" and "\<And>s. P s \<Longrightarrow> I s"
    and "\<And>s. P s \<Longrightarrow> Q () (s\<lparr>st_journal := journal_of tx p\<rparr>)"
  shows "spec q P (write_journal tx p) Q I"
  unfolding write_journal_def
proof (rule spec_bind)
  show "spec q P (catchIO read_disk (\<lambda>_. raise SyncError)) (\<lambda>_. P) I"
    by (rule spec_catch [where K = P]) (auto intro: spec_read spec_raise assms(2))
  show "spec q P (bindIO state_of (\<lambda>s. if \<not> owned_journal (tx_id tx) (st_journal s) then raise SyncError
     else act (\<lambda>s. Some (s\<lparr>st_journal := JournalFile (written (journal_payload tx p))\<rparr>)))) Q I" for x :: unit
  proof (rule spec_state)
    fix s assume s: "P s"
    then show "spec q (\<lambda>s'. s' = s) (if \<not> owned_journal (tx_id tx) (st_journal s) then raise SyncError
       else act (\<lambda>s. Some (s\<lparr>st_journal := JournalFile (written (journal_payload tx p))\<rparr>))) Q I"
      using assms by (auto simp: owned_journal_of journal_of_def [symmetric] intro!: spec_act)
  qed
qed

subsection \<open>Promoted paths\<close>

definition promoted_on :: "(prepared_view \<times> string) set \<Rightarrow> tree \<Rightarrow> bool" where
  "promoted_on D t \<longleftrightarrow> (\<forall>(v, r) \<in> D. holds_version t (live v r) (map_of (pv_desired v) r))"

definition staged_on :: "transaction \<Rightarrow> (prepared_view \<times> string) set \<Rightarrow> tree \<Rightarrow> bool" where
  "staged_on tx D t \<longleftrightarrow> (\<forall>v r a. change tx v r \<longrightarrow> (v, r) \<notin> D \<longrightarrow> map_of (pv_desired v) r = Some a
     \<longrightarrow> holds_version t (staged v r) (Some a))"

definition pending :: "transaction \<Rightarrow> (prepared_view \<times> string) set \<Rightarrow> prepared_view \<Rightarrow> string \<Rightarrow> bool" where
  "pending tx D v r \<longleftrightarrow> change tx v r \<and> (v, r) \<notin> D"

definition flags :: "journal_file \<Rightarrow> bool \<Rightarrow> state \<Rightarrow> bool" where
  "flags j b s \<longleftrightarrow> st_journal s = j \<and> st_touched s = b \<and> \<not> st_finished s"

lemma flags_tree [simp]: "flags j b (s\<lparr>st_tree := t\<rparr>) = flags j b s"
  by (simp add: flags_def)

text \<open>The backup directories are there, also those of views that back nothing up.\<close>

definition candidates :: "transaction \<Rightarrow> tree \<Rightarrow> bool" where
  "candidates tx t \<longleftrightarrow> (\<forall>v \<in> set (tx_views tx). is_dir t (pv_candidate v))"

lemma candidates_update:
  assumes "candidates tx t" and "lookup t' = (lookup t)(p := n)" and "\<And>v. v \<in> set (tx_views tx) \<Longrightarrow> is_dir t (pv_candidate v) \<Longrightarrow> p \<noteq> pv_candidate v"
  shows "candidates tx t'"
  using assms by (auto simp: candidates_def is_dir_def)

text \<open>While it is applied: the paths in \<open>D\<close> are promoted, the others hold what they held.\<close>

definition applying :: "tree \<Rightarrow> transaction \<Rightarrow> bool \<Rightarrow> (prepared_view \<times> string) set \<Rightarrow> bool \<Rightarrow> journal_file \<Rightarrow> state \<Rightarrow> bool" where
  "applying t0 tx q D b j s \<longleftrightarrow> holding t0 tx (pending tx D) (change tx) (flags j b) s
     \<and> promoted_on D (st_tree s) \<and> (q \<longrightarrow> staged_on tx D (st_tree s)) \<and> candidates tx (st_tree s) \<and> (b \<or> D = {})"

definition in_progress :: "tree \<Rightarrow> transaction \<Rightarrow> journal_file \<Rightarrow> state \<Rightarrow> bool" where
  "in_progress t0 tx j s \<longleftrightarrow> \<not> st_finished s \<and> (if st_touched s then holding t0 tx none_of (change tx) (journal_is j) s
     else holding t0 tx (change tx) none_of (journal_is j) s)"

lemma applying_holding: "applying t0 tx q D b j s \<Longrightarrow> holding t0 tx (pending tx D) (change tx) (flags j b) s"
  by (simp add: applying_def)

lemma applying_in_progress:
  assumes "applying t0 tx q D b j s"
  shows "in_progress t0 tx j s"
proof -
  have h: "holding t0 tx (pending tx D) (change tx) (flags j b) s" and f: "b \<or> D = {}" using assms by (auto simp: applying_def)
  have t: "st_touched s = b" "\<not> st_finished s" using h by (auto simp: holding_def flags_def)
  have "holding t0 tx none_of (change tx) (journal_is j) s"
    by (rule holding_mono [OF h]) (auto simp: none_of_def flags_def journal_is_def)
  moreover have "holding t0 tx (change tx) none_of (journal_is j) s" if "\<not> b"
    by (rule holding_mono [OF h]) (use f that in \<open>auto simp: none_of_def flags_def journal_is_def pending_def\<close>)
  ultimately show ?thesis using t by (simp add: in_progress_def)
qed

text \<open>A new directory on the way to a target.\<close>

lemma grows_applying:
  assumes s: "sound_transaction t0 tx" and d: "D \<subseteq> {(v, r). change tx v r}"
  shows "grows (above_target tx) (applying t0 tx q D b j)"
  unfolding grows_def
proof (intro allI impI)
  fix st c t assume a: "applying t0 tx q D b j st" and c: "above_target tx c" and m: "make_dir c (st_tree st) = Some t"
  note l = make_dirD(1) [OF m]
  have h: "holding t0 tx (pending tx D) (change tx) (flags j b) (st\<lparr>st_tree := t\<rparr>)"
    by (rule growsD [OF grows_holding [OF s] applying_holding [OF a] _ m]) (use c in \<open>auto simp: pending_def\<close>)
  have p: "promoted_on D t"
    unfolding promoted_on_def
  proof (intro ballI, clarify)
    fix v r assume x: "(v, r) \<in> D"
    then have "change tx v r" using d by auto
    then have "live v r \<noteq> c" using target_kind(3) [OF s live_target] c by blast
    moreover have "holds_version (st_tree st) (live v r) (map_of (pv_desired v) r)" using a x by (auto simp: applying_def promoted_on_def)
    ultimately show "holds_version t (live v r) (map_of (pv_desired v) r)" using l holds_version_cong [of t "live v r" "st_tree st"] by simp
  qed
  have g: "staged_on tx D t" if "staged_on tx D (st_tree st)"
    unfolding staged_on_def
  proof (intro allI impI)
    fix v r x assume e: "change tx v r" "(v, r) \<notin> D" "map_of (pv_desired v) r = Some x"
    have "staged v r \<noteq> c" using above_not_owned [OF s c] staged_owned [OF e(1)] by blast
    then show "holds_version t (staged v r) (Some x)"
      using that e l holds_version_cong [of t "staged v r" "st_tree st"] by (simp add: staged_on_def)
  qed
  have k: "candidates tx t" if "candidates tx (st_tree st)"
    by (rule candidates_update [OF that l]) (use make_dirD(3) [OF m] in \<open>auto simp: is_dir_def\<close>)
  show "applying t0 tx q D b j (st\<lparr>st_tree := t\<rparr>)" using a h p g k by (auto simp: applying_def)
qed

text \<open>The live path is changed to its desired version.\<close>

lemma applying_promote:
  assumes s: "sound_transaction t0 tx" and h0: "holding t0 tx (pending tx (insert (v, r) D)) (change tx) (flags j b) st"
    and pd: "promoted_on D (st_tree st)" and sg: "q \<Longrightarrow> staged_on tx (insert (v, r) D) (st_tree st)"
    and cd: "candidates tx (st_tree st)" and d: "D \<subseteq> {(v, r). change tx v r}" and c: "change tx v r" and w: "wf_tree t" and l: "lookup t = (lookup (st_tree st))(live v r := n)"
    and n: "case map_of (pv_desired v) r of None \<Rightarrow> n = None | Some a \<Rightarrow> \<exists>b. n = Some (File b) \<and> matches b a" and b: "b"
  shows "applying t0 tx q (insert (v, r) D) b j (st\<lparr>st_tree := t\<rparr>)"
proof -
  have h: "holding t0 tx (pending tx (insert (v, r) D)) (change tx) (flags j b) (st\<lparr>st_tree := t\<rparr>)"
  proof (rule holding_update [OF s h0 w l])
    show "allowed_update t0 tx (st_tree st) (live v r) n" using c n by (auto simp: allowed_update_def)
    show "n = lookup t0 (live v r)" if "pending tx (insert (v, r) D) w k" "live v r = live w k" for w k
      using that live_inj [OF s c, of w k] by (auto simp: pending_def)
    show "n = lookup (st_tree st) (live v r)" if "change tx w k" "live v r = backup w k" for w k
      using that backup_owned owned_not_live [OF s c] by metis
  qed
  have own: "holds_version t (live v r) (map_of (pv_desired v) r)"
    using n l by (auto simp: holds_version_def present_def content_def split: option.splits)
  have p: "promoted_on (insert (v, r) D) t"
    unfolding promoted_on_def
  proof (intro ballI, clarify)
    fix w k assume x: "(w, k) \<in> insert (v, r) D"
    show "holds_version t (live w k) (map_of (pv_desired w) k)"
    proof (cases "(w, k) = (v, r)")
      case True
      then show ?thesis using own by simp
    next
      case False
      with x have x': "(w, k) \<in> D" by auto
      then have "live w k \<noteq> live v r" using live_inj [OF s _ c, of w k] d False by auto
      moreover have "holds_version (st_tree st) (live w k) (map_of (pv_desired w) k)" using pd x' by (auto simp: promoted_on_def)
      ultimately show ?thesis using l holds_version_cong [of t "live w k" "st_tree st"] by simp
    qed
  qed
  have g: "staged_on tx (insert (v, r) D) t" if q
    unfolding staged_on_def
  proof (intro allI impI)
    fix w k x assume e: "change tx w k" "(w, k) \<notin> insert (v, r) D" "map_of (pv_desired w) k = Some x"
    have "staged w k \<noteq> live v r" using owned_not_live [OF s c] staged_owned [OF e(1)] by metis
    then show "holds_version t (staged w k) (Some x)"
      using sg [OF that] e l holds_version_cong [of t "staged w k" "st_tree st"] by (simp add: staged_on_def)
  qed
  have "candidates tx t"
  proof (rule candidates_update [OF cd l])
    show "live v r \<noteq> pv_candidate w" if "w \<in> set (tx_views tx)" for w
      using owned_not_live [OF s c] that unfolding is_owned_def by (metis prefix_order.refl)
  qed
  then show ?thesis using h p g b by (auto simp: applying_def)
qed

lemma staged_on_mono: "staged_on tx D t \<Longrightarrow> D \<subseteq> E \<Longrightarrow> staged_on tx E t"
  unfolding staged_on_def by blast

lemma applying_touched: "applying t0 tx q D b j s \<Longrightarrow> applying t0 tx q D True j (s\<lparr>st_touched := True\<rparr>)"
  by (auto simp: applying_def holding_def flags_def)

text \<open>The staged file is moved to the live path.\<close>

lemma applying_replace:
  assumes s: "sound_transaction t0 tx" and a: "applying t0 tx q D True j st" and d: "D \<subseteq> {(v, r). change tx v r}"
    and c: "change tx v r" and des: "map_of (pv_desired v) r = Some a" and st: "holds_version (st_tree st) (staged v r) (Some a)"
    and m: "replace_file (staged v r) (live v r) (st_tree st) = Some t"
  shows "applying t0 tx q (insert (v, r) D) True j (st\<lparr>st_tree := t\<rparr>)"
proof -
  let ?t = "st_tree st" and ?X = "pending tx (insert (v, r) D)"
  have wf: "wf_tree ?t" by (rule holding_wf [OF applying_holding [OF a]])
  obtain b where b: "content ?t (staged v r) = Some b" "matches b a" using st by (auto simp: holds_Some)
  then have nd: "\<not> is_dir ?t (staged v r)" by (auto simp: content_iff is_dir_def)
  then obtain t1 where t1: "unlink (staged v r) ?t = Some t1" by (auto simp: unlink_def)
  note l1 = unlinkD(1) [OF t1]
  have h0: "holding t0 tx ?X (change tx) (flags j True) st"
    by (rule holding_mono [OF applying_holding [OF a]]) (auto simp: pending_def)
  have w: "writable (staged v r) (holding t0 tx ?X (change tx) (flags j True))"
  proof (rule writable_owned [OF s staged_owned [OF c]])
    show "is_slot tx (staged v r)" using c des by (auto simp: is_slot_def)
    show "staged v r \<noteq> backup w k" if "change tx w k" for w k by (rule staged_not_backup [OF s c that])
  qed (simp add: pending_def)
  have h1: "holding t0 tx ?X (change tx) (flags j True) (st\<lparr>st_tree := t1\<rparr>)"
    by (rule writableD [OF w h0 nd _ l1]) (use unlinkD(4) [OF t1] in auto)
  have p1: "promoted_on D (st_tree (st\<lparr>st_tree := t1\<rparr>))"
    unfolding promoted_on_def
  proof (intro ballI, clarify)
    fix w k assume x: "(w, k) \<in> D"
    then have "change tx w k" using d by auto
    then have "live w k \<noteq> staged v r" using owned_not_live [OF s] staged_owned [OF c] by metis
    moreover have "holds_version ?t (live w k) (map_of (pv_desired w) k)" using a x by (auto simp: applying_def promoted_on_def)
    ultimately show "holds_version (st_tree (st\<lparr>st_tree := t1\<rparr>)) (live w k) (map_of (pv_desired w) k)"
      using l1 holds_version_cong [of t1 "live w k" ?t] by simp
  qed
  have g1: "staged_on tx (insert (v, r) D) (st_tree (st\<lparr>st_tree := t1\<rparr>))" if q
    unfolding staged_on_def
  proof (intro allI impI)
    fix w k x assume e: "change tx w k" "(w, k) \<notin> insert (v, r) D" "map_of (pv_desired w) k = Some x"
    have "staged w k \<noteq> staged v r" using staged_inj [OF s e(1) c] e(2) by auto
    then show "holds_version (st_tree (st\<lparr>st_tree := t1\<rparr>)) (staged w k) (Some x)"
      using a that e l1 holds_version_cong [of t1 "staged w k" ?t] by (simp add: applying_def staged_on_def)
  qed
  have c1: "candidates tx (st_tree (st\<lparr>st_tree := t1\<rparr>))"
  proof (simp, rule candidates_update [OF _ l1])
    show "candidates tx ?t" using a by (simp add: applying_def)
    show "staged v r \<noteq> pv_candidate w" if "w \<in> set (tx_views tx)" for w
    proof -
      have "is_slot tx (staged v r)" using c des by (auto simp: is_slot_def)
      with owned_not_slot(2) [OF s that] show ?thesis by metis
    qed
  qed
  have "lookup t = (lookup ?t)(staged v r := None, live v r \<mapsto> File b)" using replace_fileD(1) [OF m] b by (auto simp: content_iff)
  then have l: "lookup t = (lookup (st_tree (st\<lparr>st_tree := t1\<rparr>)))(live v r := Some (File b))" using l1 by simp
  have "applying t0 tx q (insert (v, r) D) True j (st\<lparr>st_tree := t1, st_tree := t\<rparr>)"
    by (rule applying_promote [OF s h1 p1 g1 c1 d c replace_fileD(4) [OF m wf] l]) (use des b(2) in auto)
  then show ?thesis by simp
qed

lemma applying_remove:
  assumes s: "sound_transaction t0 tx" and a: "applying t0 tx q D True j st" and d: "D \<subseteq> {(v, r). change tx v r}"
    and c: "change tx v r" and des: "map_of (pv_desired v) r = None" and m: "unlink (live v r) (st_tree st) = Some t"
  shows "applying t0 tx q (insert (v, r) D) True j (st\<lparr>st_tree := t\<rparr>)"
proof (rule applying_promote [OF s _ _ _ _ d c _ unlinkD(1) [OF m]])
  show "holding t0 tx (pending tx (insert (v, r) D)) (change tx) (flags j True) st"
    by (rule holding_mono [OF applying_holding [OF a]]) (auto simp: pending_def)
  show "promoted_on D (st_tree st)" "candidates tx (st_tree st)" using a by (simp_all add: applying_def)
  show "staged_on tx (insert (v, r) D) (st_tree st)" if q
    using a that by (auto simp: applying_def intro: staged_on_mono)
  show "wf_tree t" by (rule unlinkD(4) [OF m holding_wf [OF applying_holding [OF a]]])
qed (use des in auto)

subsection \<open>One path\<close>

lemma applying_original:
  assumes "sound_transaction t0 tx" and "applying t0 tx q D b j s" and "change tx v r" and "(v, r) \<notin> D"
  shows "holds_version (st_tree s) (live v r) (map_of (pv_current v) r)"
  using sound_parts(9) [OF assms(1,3)] applying_holding [OF assms(2)] assms(3,4) holds_version_cong
  unfolding holding_def restored_def pending_def by metis

lemma staged_reachable:
  assumes "sound_transaction t0 tx" and "applying t0 tx q D b j s" and "change tx v r"
    and "holds_version (st_tree s) (staged v r) (Some a)"
  shows "reachable_target (st_tree s) (pv_stage v) r"
proof -
  obtain x where x: "lookup (st_tree s) (staged v r) = Some (File x)" using assms(4) by (auto simp: holds_Some content_iff)
  have "pv_stage v \<noteq> []" using sound_view [OF assms(1)] assms(3) by (auto simp: change_def tidy_view_def stage_path_def)
  then show ?thesis
    using change_canonical [OF assms(1,3)] wf_ancestor [OF holding_wf [OF applying_holding [OF assms(2)]] x]
    by (auto simp: reachable_target_def staged_def open_way_def is_dir_def)
qed

lemma spec_apply_path:
  assumes s: "sound_transaction t0 tx" and d: "D \<subseteq> {(v, r). change tx v r}" and c: "change tx v r" and n: "(v, r) \<notin> D"
  shows "spec q (applying t0 tx q D b j) (apply_path v r) (\<lambda>_. applying t0 tx q (insert (v, r) D) True j) (in_progress t0 tx j)"
proof -
  let ?A = "applying t0 tx q D" and ?Q = "\<lambda>_ :: unit. applying t0 tx q (insert (v, r) D) True j" and ?I = "in_progress t0 tx j"
  let ?P = "\<lambda>st. ?A b j st \<and> is_dir (st_tree st) (butlast (live v r))"
  have i: "?I st" if "?P st" for st using that applying_in_progress by blast
  have g: "grows (\<lambda>p. strict_prefix p (live v r)) (?A b j)"
    by (rule grows_subset [OF grows_applying [OF s d]]) (rule above_live [OF c])
  have 1: "spec q (?A b j) (safe_target (pv_root v) r True) (\<lambda>p st. ?P st \<and> p = live v r) ?I"
    by (rule spec_post [OF spec_safe_target_make])
      (use g applying_in_progress holding_reachable [OF s applying_holding c] in \<open>auto simp: live_def\<close>)
  have 2: "spec q ?P (case map_of (pv_current v) r of Some before \<Rightarrow> verify_one (live v r) before
     | None \<Rightarrow> bindIO tree_of (\<lambda>t. check (\<not> present t (live v r)) VerificationError)) (\<lambda>_. ?P) ?I"
  proof (cases "map_of (pv_current v) r")
    case None
    have "spec q ?P (bindIO tree_of (\<lambda>t. check (\<not> present t (live v r)) VerificationError)) (\<lambda>_. ?P) ?I"
    proof (rule spec_tree, rule spec_check)
      fix t st assume a: "?P st \<and> st_tree st = t"
      have "\<not> present t (live v r)" using applying_original [OF s _ c n, of q b j st] a None by (auto simp: holds_version_def)
      then show "(\<not> present t (live v r) \<longrightarrow> ?P st) \<and> (\<not> \<not> present t (live v r) \<longrightarrow> ?I st \<and> \<not> q)" using a by blast
    qed
    then show ?thesis by (simp add: None)
  next
    case (Some a)
    have "spec q ?P (verify_one (live v r) a) (\<lambda>_ st. ?P st \<and> holds_version (st_tree st) (live v r) (Some a)) ?I"
    proof (rule spec_verify_one [OF i])
      show "holds_version (st_tree st) (live v r) (Some a)" if "?P st" for st
        using applying_original [OF s _ c n, of q b j st] that Some by simp
    qed
    then show ?thesis by (simp add: Some) (erule spec_post, simp)
  qed
  have nd: "\<not> is_dir (st_tree st) (live v r)" if "?A b' j st" for st b'
    using holding_live(2) [OF s applying_holding [OF that] c] by (auto simp: is_dir_def content_def)
  let ?T = "\<lambda>st. ?A True j st \<and> is_dir (st_tree st) (butlast (live v r))"
  have it: "?I st" if "?T st" for st using that applying_in_progress by blast
  have t: "spec q (\<lambda>st. ?P st \<and> R (st_tree st)) set_touched (\<lambda>_ st. ?T st \<and> R (st_tree st)) ?I" for R
    unfolding set_touched_def by (rule spec_memory) (use applying_touched in auto)
  have 3: "spec q ?P (case map_of (pv_desired v) r of None \<Rightarrow> seqIO set_touched (on_tree (unlink (live v r)))
      | Some desired \<Rightarrow> bindIO (safe_target (pv_stage v) r False) (\<lambda>staged.
          seqIO (verify_one staged desired) (seqIO set_touched (on_tree (replace_file staged (live v r)))))) ?Q ?I"
  proof (cases "map_of (pv_desired v) r")
    case None
    have u: "spec q ?T (on_tree (unlink (live v r))) ?Q ?I"
    proof (rule spec_on_tree)
      fix st assume st: "?T st"
      then obtain t where t: "unlink (live v r) (st_tree st) = Some t" using nd by (auto simp: unlink_def)
      from applying_remove [OF s conjunct1 [OF st] d c None t] it [OF st]
      show "?I st \<and> (case unlink (live v r) (st_tree st) of None \<Rightarrow> \<not> q | Some t \<Rightarrow> ?Q () (st\<lparr>st_tree := t\<rparr>))" by (simp add: t)
    qed
    have "spec q ?P (seqIO set_touched (on_tree (unlink (live v r)))) ?Q ?I"
      by (rule spec_bind [OF t [where R = "\<lambda>_. True", simplified] u])
    then show ?thesis by (simp add: None)
  next
    case (Some a)
    let ?h = "\<lambda>t. holds_version t (staged v r) (Some a)"
    have h: "?h (st_tree st)" if q "?P st" for st
      using that c n Some by (auto simp: applying_def staged_on_def)
    have w: "spec q ?P (safe_target (pv_stage v) r False) (\<lambda>p st. ?P st \<and> p = staged v r) ?I"
    proof (rule spec_post [OF spec_safe_target_read])
      show "reachable_target (st_tree st) (pv_stage v) r" if q "?P st" for st
        using staged_reachable [OF s _ c h [OF that]] that(2) by blast
    qed (use i in \<open>auto simp: staged_def\<close>)
    have x: "spec q ?P (verify_one (staged v r) a) (\<lambda>_ st. ?P st \<and> ?h (st_tree st)) ?I"
      by (rule spec_verify_one) (use i h in auto)
    have y: "spec q (\<lambda>st. ?T st \<and> ?h (st_tree st)) (on_tree (replace_file (staged v r) (live v r))) ?Q ?I"
    proof (rule spec_on_tree)
      fix st assume st: "?T st \<and> ?h (st_tree st)"
      then obtain t where t: "replace_file (staged v r) (live v r) (st_tree st) = Some t"
        using nd by (auto simp: replace_file_def holds_Some content_iff)
      have "?Q () (st\<lparr>st_tree := t\<rparr>)" using applying_replace [OF s _ d c Some _ t] st by blast
      then show "?I st \<and> (case replace_file (staged v r) (live v r) (st_tree st) of None \<Rightarrow> \<not> q | Some t \<Rightarrow> ?Q () (st\<lparr>st_tree := t\<rparr>))"
        using it st by (simp add: t)
    qed
    have z: "spec q ?P (seqIO (verify_one (staged v r) a) (seqIO set_touched (on_tree (replace_file (staged v r) (live v r))))) ?Q ?I"
      by (rule spec_bind [OF x], rule spec_bind [OF t y])
    have "spec q (\<lambda>st. ?P st \<and> p = staged v r) (seqIO (verify_one p a) (seqIO set_touched (on_tree (replace_file p (live v r))))) ?Q ?I" for p
      by (rule spec_fact [where A = "p = staged v r"]) (use z in \<open>auto intro: spec_pre\<close>)
    with w show ?thesis by (simp add: Some spec_bind)
  qed
  have "spec q (\<lambda>st. ?P st \<and> p = live v r) (seqIO (case map_of (pv_current v) r of Some before \<Rightarrow> verify_one p before
     | None \<Rightarrow> bindIO tree_of (\<lambda>t. check (\<not> present t p) VerificationError))
     (case map_of (pv_desired v) r of None \<Rightarrow> seqIO set_touched (on_tree (unlink p))
      | Some desired \<Rightarrow> bindIO (safe_target (pv_stage v) r False) (\<lambda>staged.
          seqIO (verify_one staged desired) (seqIO set_touched (on_tree (replace_file staged p)))))) ?Q ?I" for p
    by (rule spec_fact [where A = "p = live v r"]) (use spec_bind [OF 2 3] in \<open>auto intro: spec_pre\<close>)
  then show ?thesis unfolding apply_path_def by (rule spec_bind [OF 1])
qed

subsection \<open>All paths\<close>

lemma spec_ex: "(\<And>b. spec q (P b) m Q I) \<Longrightarrow> spec q (\<lambda>s. \<exists>b. P b s) m Q I"
  unfolding spec_def by blast

lemma distinct_changes: "distinct (view_changes v)"
  by (simp add: view_changes_def changed_paths_def all_paths_def)

lemma distinct_views:
  assumes "sound_transaction t0 tx"
  shows "distinct (tx_views tx)"
proof -
  have "distinct vs" if "apart (areas vs)" for vs
    using that
  proof (induction vs)
    case (Cons v vs)
    then show ?case unfolding areas_Cons by (auto simp: view_areas_def)
  qed simp
  with sound_parts(3) [OF assms] show ?thesis by blast
qed

definition changes_of :: "prepared_view list \<Rightarrow> (prepared_view \<times> string) set" where
  "changes_of vs = {(w, k). w \<in> set vs \<and> k \<in> set (view_changes w)}"

definition applied :: "tree \<Rightarrow> transaction \<Rightarrow> bool \<Rightarrow> (prepared_view \<times> string) set \<Rightarrow> journal_file \<Rightarrow> state \<Rightarrow> bool" where
  "applied t0 tx q D j s \<longleftrightarrow> (\<exists>b. applying t0 tx q D b j s)"

lemma spec_apply_view:
  assumes s: "sound_transaction t0 tx" and d: "D \<subseteq> {(v, r). change tx v r}" and v: "v \<in> set (tx_views tx)" and n: "\<And>r. (v, r) \<notin> D"
  shows "spec q (applied t0 tx q D j) (apply_view v) (\<lambda>_. applied t0 tx q (D \<union> Pair v ` set (view_changes v)) j) (in_progress t0 tx j)"
proof -
  let ?J = "\<lambda>pre. applied t0 tx q (D \<union> Pair v ` set pre) j"
  have "spec q (?J []) (eachIO (apply_path v) (view_changes v)) (\<lambda>_. ?J (view_changes v)) (in_progress t0 tx j)"
  proof (rule spec_each [where J = ?J])
    fix pre r post assume e: "view_changes v = pre @ r # post"
    have c: "change tx v r" using v by (simp add: change_def e)
    have d': "D \<union> Pair v ` set pre \<subseteq> {(v, r). change tx v r}" using d v by (auto simp: change_def e)
    have "r \<notin> set pre" using distinct_changes [of v] by (simp add: e)
    then have n': "(v, r) \<notin> D \<union> Pair v ` set pre" using n by auto
    have i: "insert (v, r) (D \<union> Pair v ` set pre) = D \<union> Pair v ` set (pre @ [r])" by auto
    show "spec q (?J pre) (apply_path v r) (\<lambda>_. ?J (pre @ [r])) (in_progress t0 tx j)"
      unfolding applied_def
    proof (rule spec_ex)
      fix b
      show "spec q (applying t0 tx q (D \<union> Pair v ` set pre) b j) (apply_path v r)
         (\<lambda>_ s. \<exists>b. applying t0 tx q (D \<union> Pair v ` set (pre @ [r])) b j s) (in_progress t0 tx j)"
        by (rule spec_post [OF spec_apply_path [OF s d' c n']], rule exI, simp only: i)
    qed
  qed
  then show ?thesis by (simp add: apply_view_def)
qed

lemma spec_apply_views:
  assumes s: "sound_transaction t0 tx"
  shows "spec q (applied t0 tx q {} j) (eachIO apply_view (tx_views tx)) (\<lambda>_. applied t0 tx q (changes_of (tx_views tx)) j) (in_progress t0 tx j)"
proof -
  let ?J = "\<lambda>pre. applied t0 tx q (changes_of pre) j"
  have "spec q (?J []) (eachIO apply_view (tx_views tx)) (\<lambda>_. ?J (tx_views tx)) (in_progress t0 tx j)"
  proof (rule spec_each [where J = ?J])
    fix pre v post assume e: "tx_views tx = pre @ v # post"
    have "v \<notin> set pre" using distinct_views [OF s] by (simp add: e)
    then have n: "(v, r) \<notin> changes_of pre" for r by (simp add: changes_of_def)
    have d: "changes_of pre \<subseteq> {(v, r). change tx v r}" by (auto simp: changes_of_def change_def e)
    have i: "changes_of pre \<union> Pair v ` set (view_changes v) = changes_of (pre @ [v])" by (auto simp: changes_of_def)
    show "spec q (?J pre) (apply_view v) (\<lambda>_. ?J (pre @ [v])) (in_progress t0 tx j)"
      using spec_apply_view [OF s d _ n, of q j] by (simp add: e i)
  qed
  moreover have "changes_of [] = {}" by (simp add: changes_of_def)
  ultimately show ?thesis by simp
qed

lemma spec_scan:
  assumes "\<And>s. P s \<Longrightarrow> I s" and "\<And>s. q \<Longrightarrow> P s \<Longrightarrow> verify root m (st_tree s)"
  shows "spec q P (run_scan verify root m) (\<lambda>_. P) I"
  unfolding run_scan_def
proof (rule spec_bind [where Q = "\<lambda>_. P"])
  show "spec q P read_disk (\<lambda>_. P) I" using assms(1) by (intro spec_read) simp
  show "spec q P (bindIO tree_of (\<lambda>t. check (verify root m t) VerificationError)) (\<lambda>_. P) I" for u :: unit
    by (rule spec_tree, rule spec_check) (use assms in blast)
qed

subsection \<open>The promotion\<close>

definition prepared :: "tree \<Rightarrow> transaction \<Rightarrow> state \<Rightarrow> bool" where
  "prepared t0 tx s \<longleftrightarrow> holding t0 tx (change tx) (change tx) (flags (journal_of tx Prepared) False) s \<and> staged_on tx {} (st_tree s)
     \<and> candidates tx (st_tree s)"

definition promoted :: "tree \<Rightarrow> transaction \<Rightarrow> state \<Rightarrow> bool" where
  "promoted t0 tx s \<longleftrightarrow> holding t0 tx none_of (change tx) (flags (journal_of tx Promoted) True) s
     \<and> promoted_on (changes_of (tx_views tx)) (st_tree s) \<and> candidates tx (st_tree s)"

text \<open>The scans of the caller accept the original and the promoted files.\<close>

definition fair_scans :: "tree \<Rightarrow> transaction \<Rightarrow> (path \<Rightarrow> manifest \<Rightarrow> tree \<Rightarrow> bool) \<Rightarrow> (path \<Rightarrow> manifest \<Rightarrow> tree \<Rightarrow> bool) \<Rightarrow> bool" where
  "fair_scans t0 tx vc vd \<longleftrightarrow> (\<forall>t. confined t0 tx t \<longrightarrow> (\<forall>v \<in> set (tx_views tx).
     (restored t0 (change tx) t \<longrightarrow> vc (pv_root v) (pv_verify_current v) t)
     \<and> (promoted_on (changes_of (tx_views tx)) t \<longrightarrow> vd (pv_root v) (pv_verify_desired v) t)))"

lemma changes_of_views: "(v, r) \<in> changes_of (tx_views tx) \<longleftrightarrow> change tx v r"
  by (simp add: changes_of_def change_def)

lemma applied_in_progress: "applied t0 tx q D j s \<Longrightarrow> in_progress t0 tx j s"
  unfolding applied_def using applying_in_progress by blast

lemma applied_tree:
  assumes "applied t0 tx q D j s"
  shows "confined t0 tx (st_tree s)" and "promoted_on D (st_tree s)" and "D = {} \<Longrightarrow> restored t0 (change tx) (st_tree s)"
    and "st_journal s = j" and "\<exists>X. holding t0 tx X (change tx) (journal_is j) s"
proof -
  from assms obtain b where a: "applying t0 tx q D b j s" by (auto simp: applied_def)
  note h = applying_holding [OF a]
  show "confined t0 tx (st_tree s)" using h by (simp add: holding_def between_def)
  show "promoted_on D (st_tree s)" using a by (simp add: applying_def)
  show "D = {} \<Longrightarrow> restored t0 (change tx) (st_tree s)" using h by (simp add: holding_def restored_def pending_def)
  show "st_journal s = j" using h by (simp add: holding_def flags_def)
  show "\<exists>X. holding t0 tx X (change tx) (journal_is j) s"
    using holding_mono [OF h, of "pending tx D" "change tx" "journal_is j"] by (auto simp: flags_def journal_is_def)
qed

lemma applied_promoted:
  assumes s: "sound_transaction t0 tx" and a: "applied t0 tx q (changes_of (tx_views tx)) j st"
  shows "promoted t0 tx (st\<lparr>st_journal := journal_of tx Promoted\<rparr>)"
proof -
  from a obtain b where b: "applying t0 tx q (changes_of (tx_views tx)) b j st" by (auto simp: applied_def)
  have "tx_views tx \<noteq> []" using sound_parts(1) [OF s] by (simp add: tidy_transaction_def)
  then obtain v where v: "v \<in> set (tx_views tx)" by (meson last_in_set)
  obtain r where "r \<in> set (view_changes v)" using sound_parts(4) [OF s v] by (meson last_in_set)
  with v have "changes_of (tx_views tx) \<noteq> {}" by (auto simp: changes_of_def)
  with b show ?thesis
    by (auto simp: promoted_def applying_def holding_def restored_def none_of_def flags_def)
qed

lemma spec_apply_body:
  assumes s: "sound_transaction t0 tx" and f: "q \<Longrightarrow> fair_scans t0 tx vc vd"
  shows "spec q (applied t0 tx q {} (journal_of tx Applying)) (apply_body vc vd tx) (\<lambda>_. promoted t0 tx) (in_progress t0 tx (journal_of tx Applying))"
proof -
  let ?j = "journal_of tx Applying" and ?all = "changes_of (tx_views tx)"
  let ?A = "\<lambda>D. applied t0 tx q D ?j" and ?I = "in_progress t0 tx ?j"
  note i = applied_in_progress
  have 1: "spec q (?A {}) (eachIO (\<lambda>v. run_scan vc (pv_root v) (pv_verify_current v)) (tx_views tx)) (\<lambda>_. ?A {}) ?I"
  proof (rule spec_each_keep, rule spec_scan [OF i], assumption)
    show "vc (pv_root v) (pv_verify_current v) (st_tree st)" if "v \<in> set (tx_views tx)" q "?A {} st" for v st
      using f [OF that(2)] applied_tree(1,3) [OF that(3)] that(1) by (auto simp: fair_scans_def)
  qed
  have 2: "spec q (?A {}) (eachIO apply_view (tx_views tx)) (\<lambda>_. ?A ?all) ?I" by (rule spec_apply_views [OF s])
  have 3: "spec q (?A ?all) (eachIO (\<lambda>v. run_scan vd (pv_root v) (pv_verify_desired v)) (tx_views tx)) (\<lambda>_. ?A ?all) ?I"
  proof (rule spec_each_keep, rule spec_scan [OF i], assumption)
    show "vd (pv_root v) (pv_verify_desired v) (st_tree st)" if "v \<in> set (tx_views tx)" q "?A ?all st" for v st
      using f [OF that(2)] applied_tree(1,2) [OF that(3)] that(1) by (auto simp: fair_scans_def)
  qed
  have 4: "spec q (?A ?all) (eachIO fsync_changed (tx_views tx)) (\<lambda>_. ?A ?all) ?I"
    unfolding applied_def
  proof (rule spec_each_keep, rule spec_assume)
    fix v st assume v: "v \<in> set (tx_views tx)" and st: "\<exists>b. applying t0 tx q ?all b ?j st"
    then obtain X where "holding t0 tx X (change tx) (journal_is ?j) st" using applied_tree(5) unfolding applied_def by blast
    then show "spec q (\<lambda>s'. s' = st) (fsync_changed v) (\<lambda>_ s. \<exists>b. applying t0 tx q ?all b ?j s) ?I"
      by (intro spec_post [OF spec_fsync_changed [OF s v]]) (use st i in \<open>auto simp: applied_def\<close>)
  qed
  have 5: "spec q (?A ?all) (write_journal tx Promoted) (\<lambda>_. promoted t0 tx) ?I"
    by (rule spec_write_journal [where p' = Applying]) (use applied_tree(4) i applied_promoted [OF s] in blast)+
  show ?thesis unfolding apply_body_def
    by (rule spec_bind [OF 1], rule spec_bind [OF 2], rule spec_bind [OF 3], rule spec_bind [OF 4], rule 5)
qed

lemma in_progress_interrupted: "in_progress t0 tx (journal_of tx Applying) s \<Longrightarrow> interrupted t0 tx Applying s"
  by (auto simp: in_progress_def interrupted_def split: if_splits)

text \<open>A prepared transaction is promoted, or rolled back, or can be recovered.\<close>

lemma spec_apply_transaction:
  assumes s: "sound_transaction t0 tx" and f: "q \<Longrightarrow> fair_scans t0 tx vc vd"
  shows "spec q (prepared t0 tx) (apply_transaction vc vd tx) (\<lambda>_. promoted t0 tx)
     (\<lambda>s. interrupted t0 tx Prepared s \<or> interrupted t0 tx Applying s \<or> rolled_back t0 tx s)"
proof -
  let ?j = "journal_of tx Applying"
  let ?I = "\<lambda>s. interrupted t0 tx Prepared s \<or> interrupted t0 tx Applying s \<or> rolled_back t0 tx s"
  have 1: "spec q (prepared t0 tx) (write_journal tx Applying) (\<lambda>_. applied t0 tx q {} ?j) ?I"
  proof (rule spec_write_journal)
    show "st_journal st = journal_of tx Prepared" if "prepared t0 tx st" for st using that by (simp add: prepared_def holding_def flags_def)
    show "?I st" if "prepared t0 tx st" for st
      using that holding_mono [of t0 tx "change tx" "change tx" "flags (journal_of tx Prepared) False" st "change tx" none_of "journal_is (journal_of tx Prepared)"]
      by (auto simp: prepared_def interrupted_def none_of_def flags_def journal_is_def)
    show "applied t0 tx q {} ?j (st\<lparr>st_journal := ?j\<rparr>)" if "prepared t0 tx st" for st
      using that by (auto simp: prepared_def applied_def applying_def holding_def restored_def pending_def flags_def promoted_on_def)
  qed
  have 2: "spec q (in_progress t0 tx ?j) (seqIO (rollback tx) (raise e)) (\<lambda>_. promoted t0 tx) ?I" if "\<not> q" for e
  proof (rule spec_bind)
    show "spec q (in_progress t0 tx ?j) (rollback tx) (\<lambda>_. rolled_back t0 tx) ?I"
      by (rule spec_conseq [OF spec_rollback [OF s, of ?j]])
        (use stalled_interrupted [of t0 tx Applying] in \<open>auto simp: in_progress_def journal_of_def split: if_splits\<close>)
    show "spec q (rolled_back t0 tx) (raise e) (\<lambda>_. promoted t0 tx) ?I" for u :: unit
      using that by (intro spec_raise) simp
  qed
  show ?thesis unfolding apply_transaction_def
    by (rule spec_bind [OF 1], rule spec_catch [OF spec_apply_body [OF s f] 2]) (auto intro: in_progress_interrupted)
qed

end
