(* ===== verification/TransactionPrepare.thy ===== *)
theory TransactionPrepare
  imports TransactionApply
begin

text \<open>
  The preparation of a selected transaction: the journal first, then the staged and the backed-up
  versions of every changed path in owned directories.  Nothing live changes, a failure removes what was
  created, and an interruption leaves a transaction that can be recovered, but for one point: a process that
  dies between the exclusive creation of the journal and the write of its text.
\<close>

subsection \<open>Filling an owned directory\<close>

lemma holding_source:
  assumes s: "sound_transaction t0 tx" and h: "holding t0 tx (change tx) S F st" and c: "content t0 p = Some b"
  shows "content (st_tree st) p = Some b"
proof -
  have l: "lookup t0 p = Some (File b)" using c by (simp add: content_iff)
  have own: "\<not> is_owned tx p"
  proof
    assume "is_owned tx p"
    then obtain v x where v: "v \<in> set (tx_views tx)" and x: "x = pv_stage v \<or> x = pv_candidate v" "prefix x p" by (auto simp: is_owned_def)
    have n: "lookup t0 x = None" using sound_parts(6,7) [OF s v] x(1) by auto
    then have "lookup t0 p = None" using wf_leaf [OF sound_parts(2) [OF s], of x p] x(2) by (cases "x = p") (auto simp: is_dir_def strict_prefix_def)
    with l show False by simp
  qed
  have tmp: "\<not> is_tmp tx p" using sound_parts(10) [OF s] l by auto
  have "lookup (st_tree st) p = lookup t0 p"
  proof (cases "is_target tx p")
    case True
    with h show ?thesis by (auto simp: holding_def restored_def is_target_def)
  next
    case False
    with h l own tmp show ?thesis unfolding holding_def between_def confined_def by (metis option.distinct(1))
  qed
  with l show ?thesis by (simp add: content_iff)
qed

lemma holding_version_source:
  assumes "sound_transaction t0 tx" and "holding t0 tx (change tx) S F st" and "holds_version t0 p (Some a)"
  shows "holds_version (st_tree st) p (Some a)"
  using assms(3) holding_source [OF assms(1,2)] by (auto simp: holds_Some)

text \<open>The slots of a manifest hold what the sources held.\<close>

definition filled :: "tree \<Rightarrow> path \<Rightarrow> (string \<Rightarrow> save_artifact \<Rightarrow> path) \<Rightarrow> manifest \<Rightarrow> tree \<Rightarrow> bool" where
  "filled t0 root src m t \<longleftrightarrow> (\<forall>(r, a) \<in> set m. content t0 (src r a) \<noteq> None \<longrightarrow> content t (root @ tail_parts r) = content t0 (src r a))"

definition slots :: "transaction \<Rightarrow> path \<Rightarrow> manifest \<Rightarrow> bool" where
  "slots tx root m \<longleftrightarrow> distinct (map fst m) \<and> is_owned tx root \<and> root \<noteq> [] \<and> (\<forall>c. strict_prefix c root \<longrightarrow> above_target tx c)
     \<and> (\<forall>(r, a) \<in> set m. (\<exists>v. change tx v r) \<and> is_slot tx (root @ tail_parts r))"

lemma slot_way:
  assumes s: "sound_transaction t0 tx" and m: "slots tx root m" and r: "(r, a) \<in> set m" and c: "strict_prefix c (root @ tail_parts r)"
  shows "above_target tx c \<or> is_owned tx c \<and> \<not> is_slot tx c"
proof (cases "strict_prefix c root")
  case True
  with m show ?thesis by (auto simp: slots_def)
next
  case False
  have "prefix root (root @ tail_parts r)" by simp
  with c False have "prefix root c" by (metis prefix_order.less_le prefix_same_cases)
  then have "is_owned tx c" using m unfolding slots_def is_owned_def by (meson prefix_order.trans)
  moreover have "\<not> is_slot tx c"
  proof
    assume "is_slot tx c"
    moreover have "is_slot tx (root @ tail_parts r)" using m r by (auto simp: slots_def)
    ultimately have "c = root @ tail_parts r" using slot_leaf [OF s _ _ prefix_order.less_imp_le [OF c]] by blast
    with c show False by simp
  qed
  ultimately show ?thesis by blast
qed

lemma slot_open:
  assumes "sound_transaction t0 tx" and "holding t0 tx X S F st" and "slots tx root m" and "(r, a) \<in> set m" and "strict_prefix c (root @ tail_parts r)"
  shows "open_way (st_tree st) c"
  using slot_way [OF assms(1,3,4,5)] holding_above [OF assms(1,2)] assms(2)
  unfolding holding_def between_def confined_def by metis

lemma slot_free:
  assumes "holding t0 tx X S F st" and "slots tx root m" and "(r, a) \<in> set m"
  shows "\<not> is_dir (st_tree st) (root @ tail_parts r)"
proof -
  have o: "is_slot tx (root @ tail_parts r)" using assms(2,3) by (auto simp: slots_def)
  have "lookup (st_tree st) (root @ tail_parts r) = None \<or> content (st_tree st) (root @ tail_parts r) \<noteq> None"
    using assms(1) slot_owned [OF o] o unfolding holding_def between_def confined_def by meson
  then show ?thesis by (auto simp: is_dir_def content_def)
qed

lemma slots_canonical: "sound_transaction t0 tx \<Longrightarrow> slots tx root m \<Longrightarrow> (r, a) \<in> set m \<Longrightarrow> is_canonical r"
  using change_canonical unfolding slots_def by blast

lemma slot_reachable:
  assumes "sound_transaction t0 tx" and "holding t0 tx X S F st" and "slots tx root m" and "(r, a) \<in> set m"
  shows "reachable_target (st_tree st) root r"
  using slot_open [OF assms] slots_canonical [OF assms(1,3,4)] assms(3) by (auto simp: reachable_target_def slots_def)

lemma slots_apart:
  assumes "sound_transaction t0 tx" and "slots tx root m" and "(r, a) \<in> set m" and "(r', a') \<in> set m" and "r \<noteq> r'"
  shows "root @ tail_parts r \<noteq> root @ tail_parts r'"
  using canonical_inj is_canonicalD(1) slots_canonical [OF assms(1,2,3)] slots_canonical [OF assms(1,2,4)] assms(5) by (metis same_append_eq)

lemma spec_fill_one:
  assumes s: "sound_transaction t0 tx" and m: "slots tx root m" and r: "(r, a) \<in> set m"
    and h: "\<And>st. P st \<Longrightarrow> holding t0 tx (change tx) S F st" and i: "\<And>st. P st \<Longrightarrow> I st"
    and g: "grows (\<lambda>c. strict_prefix c (root @ tail_parts r)) P" and w: "writable (root @ tail_parts r) P"
    and q: "q \<Longrightarrow> holds_version t0 (src r a) (Some a)"
  shows "spec q P (bindIO (safe_target root r True) (\<lambda>destination. seqIO (verify_one (src r a) a) (materialize destination (src r a))))
     (\<lambda>_ st. P st \<and> (content t0 (src r a) \<noteq> None \<longrightarrow> content (st_tree st) (root @ tail_parts r) = content t0 (src r a))) I"
proof -
  let ?d = "root @ tail_parts r"
  let ?Q = "\<lambda>_ :: unit. \<lambda>st. P st \<and> (content t0 (src r a) \<noteq> None \<longrightarrow> content (st_tree st) ?d = content t0 (src r a))"
  have 1: "spec q P (safe_target root r True) (\<lambda>p st. P st \<and> p = ?d) I"
    by (rule spec_post [OF spec_safe_target_make [OF g i]]) (use slot_reachable [OF s h m r] in auto)
  have 2: "spec q P (verify_one (src r a) a) (\<lambda>_. P) I"
    by (rule spec_post [OF spec_verify_one]) (use i holding_version_source [OF s h q] in auto)
  have ne: "?d \<noteq> []" using m by (simp add: slots_def)
  have 3: "spec q P (materialize ?d (src r a)) ?Q I"
  proof (rule spec_post [OF spec_materialize [where known = "content t0 (src r a) \<noteq> None" and bytes = "content t0 (src r a)", OF ne g w i]])
    show "content (st_tree st) (src r a) = content t0 (src r a)" if "content t0 (src r a) \<noteq> None" "P st" for st
      using holding_source [OF s h [OF that(2)]] that(1) by auto
    show "content t0 (src r a) \<noteq> None \<and> content t0 (src r a) \<noteq> None \<and> \<not> is_dir (st_tree st) ?d
        \<and> (\<forall>c. strict_prefix c ?d \<longrightarrow> open_way (st_tree st) c)" if q "P st" for st
      using q [OF that(1)] slot_free [OF h [OF that(2)] m r] slot_open [OF s h [OF that(2)] m r] by (auto simp: holds_Some)
  qed auto
  have 4: "spec q P (seqIO (verify_one (src r a) a) (materialize ?d (src r a))) ?Q I" by (rule spec_bind [OF 2 3])
  have "spec q (\<lambda>st. P st \<and> p = ?d) (seqIO (verify_one (src r a) a) (materialize p (src r a))) ?Q I" for p
    by (rule spec_fact [where A = "p = ?d"]) (use 4 in \<open>auto intro: spec_pre\<close>)
  then show ?thesis by (rule spec_bind [OF 1])
qed

lemma filled_update:
  assumes "filled t0 root src m t" and "lookup t' = (lookup t)(p := n)" and "\<And>r a. (r, a) \<in> set m \<Longrightarrow> content t (root @ tail_parts r) \<noteq> None \<Longrightarrow> p \<noteq> root @ tail_parts r"
  shows "filled t0 root src m t'"
  unfolding filled_def
proof (intro ballI, clarify)
  fix r a b assume r: "(r, a) \<in> set m" and b: "content t0 (src r a) = Some b"
  then have c: "content t (root @ tail_parts r) = Some b" using assms(1) by (fastforce simp: filled_def)
  then have "p \<noteq> root @ tail_parts r" using assms(3) [OF r] by simp
  with c show "content t' (root @ tail_parts r) = content t0 (src r a)" using assms(2) b by (simp add: content_def)
qed

lemma spec_materialize_manifest:
  assumes s: "sound_transaction t0 tx" and m: "slots tx root m"
    and h: "\<And>st. P st \<Longrightarrow> holding t0 tx (change tx) S F st" and i: "\<And>st. P st \<Longrightarrow> I st"
    and g: "\<And>r a. (r, a) \<in> set m \<Longrightarrow> grows (\<lambda>c. strict_prefix c (root @ tail_parts r)) P"
    and w: "\<And>r a. (r, a) \<in> set m \<Longrightarrow> writable (root @ tail_parts r) P"
    and q: "\<And>r a. q \<Longrightarrow> (r, a) \<in> set m \<Longrightarrow> holds_version t0 (src r a) (Some a)"
  shows "spec q P (materialize_manifest root m src) (\<lambda>_ st. P st \<and> filled t0 root src m (st_tree st)) I"
proof -
  let ?m = "sort_key fst m"
  let ?J = "\<lambda>pre st. P st \<and> filled t0 root src pre (st_tree st)"
  let ?f = "\<lambda>(relative, a). bindIO (safe_target root relative True) (\<lambda>destination.
     seqIO (verify_one (src relative a) a) (materialize destination (src relative a)))"
  have "spec q (?J []) (eachIO ?f ?m) (\<lambda>_. ?J ?m) I"
  proof (rule spec_each [where J = ?J])
    fix pre x post assume e: "?m = pre @ x # post"
    obtain r a where x: "x = (r, a)" by (cases x)
    have sm: "set m = set (pre @ x # post)" by (metis e set_sort)
    then have r: "(r, a) \<in> set m" and pre: "set pre \<subseteq> set m" by (auto simp: x)
    have "distinct (map fst m)" using m by (simp add: slots_def)
    then have "distinct (map fst ?m)" by (metis distinct_map distinct_sort set_sort)
    then have ra: "r \<noteq> r'" if "(r', a') \<in> set pre" for r' a' using that by (force simp: e x)
    have dis: "root @ tail_parts r \<noteq> root @ tail_parts r'" if "(r', a') \<in> set pre" for r' a'
      using slots_apart [OF s m r _ ra [OF that]] pre that by blast
    have gf: "grows (\<lambda>c. strict_prefix c (root @ tail_parts r)) (?J pre)"
    proof (rule grows_and [OF g [OF r]], unfold grows_def, intro allI impI)
      fix st c t assume f: "filled t0 root src pre (st_tree st)" and m: "make_dir c (st_tree st) = Some t"
      have "filled t0 root src pre t"
        by (rule filled_update [OF f make_dirD(1) [OF m]]) (use make_dirD(3) [OF m] in \<open>auto simp: content_def\<close>)
      then show "filled t0 root src pre (st_tree (st\<lparr>st_tree := t\<rparr>))" by simp
    qed
    have wf: "writable (root @ tail_parts r) (?J pre)"
    proof (rule writable_and [OF w [OF r]], unfold writable_def, intro allI impI)
      fix st n t assume "filled t0 root src pre (st_tree st)" and "lookup t = (lookup (st_tree st))(root @ tail_parts r := n)"
      then show "filled t0 root src pre (st_tree (st\<lparr>st_tree := t\<rparr>))" using filled_update dis by fastforce
    qed
    show "spec q (?J pre) (?f x) (\<lambda>_. ?J (pre @ [x])) I" unfolding x prod.case
      by (rule spec_post [OF spec_fill_one [where S = S and F = F, OF s m r _ _ gf wf]]) (use h i q [OF _ r] in \<open>auto simp: filled_def\<close>)
  qed
  moreover have "filled t0 root src ?m t = filled t0 root src m t" and "filled t0 root src [] t" for t by (simp_all add: filled_def)
  ultimately show ?thesis unfolding materialize_manifest_def by simp
qed

text \<open>The verification of what was filled in, and its flush.\<close>

lemma spec_verify_slots:
  assumes s: "sound_transaction t0 tx" and m: "slots tx root m"
    and h: "\<And>st. P st \<Longrightarrow> holding t0 tx (change tx) S F st" and i: "\<And>st. P st \<Longrightarrow> I st"
    and q: "\<And>st r a. q \<Longrightarrow> P st \<Longrightarrow> (r, a) \<in> set m \<Longrightarrow> holds_version (st_tree st) (root @ tail_parts r) (Some a)"
  shows "spec q P (verify_manifest root m) (\<lambda>_ st. P st \<and> (\<forall>(r, a) \<in> set m. holds_version (st_tree st) (root @ tail_parts r) (Some a))) I"
proof -
  let ?J = "\<lambda>pre st. P st \<and> (\<forall>(r, a) \<in> set pre. holds_version (st_tree st) (root @ tail_parts r) (Some a))"
  let ?f = "\<lambda>(relative, a). bindIO (safe_target root relative False) (\<lambda>p. verify_one p a)"
  have "spec q (?J []) (eachIO ?f m) (\<lambda>_. ?J m) I"
  proof (rule spec_each [where J = ?J])
    fix pre x post assume e: "m = pre @ x # post"
    obtain r a where x: "x = (r, a)" by (cases x)
    have r: "(r, a) \<in> set m" by (simp add: e x)
    have 1: "spec q (?J pre) (safe_target root r False) (\<lambda>p st. ?J pre st \<and> p = root @ tail_parts r) I"
      by (rule spec_post [OF spec_safe_target_read]) (use i slot_reachable [OF s h m r] in auto)
    have 2: "spec q (?J pre) (verify_one (root @ tail_parts r) a) (\<lambda>_. ?J (pre @ [x])) I"
      by (rule spec_post [OF spec_verify_one]) (use i q [OF _ _ r] in \<open>auto simp: x\<close>)
    have "spec q (\<lambda>st. ?J pre st \<and> p = root @ tail_parts r) (verify_one p a) (\<lambda>_. ?J (pre @ [x])) I" for p
      by (rule spec_fact [where A = "p = root @ tail_parts r"]) (use 2 in \<open>auto intro: spec_pre\<close>)
    then show "spec q (?J pre) (?f x) (\<lambda>_. ?J (pre @ [x])) I" unfolding x prod.case by (rule spec_bind [OF 1])
  qed
  then show ?thesis by (simp add: verify_manifest_def)
qed

lemma spec_fsync_owned:
  assumes s: "sound_transaction t0 tx" and m: "slots tx root m" and n: "\<not> is_slot tx root"
    and h: "\<And>st. P st \<Longrightarrow> holding t0 tx X S F st" and i: "\<And>st. P st \<Longrightarrow> I st"
  shows "spec q P (fsync_tree root) (\<lambda>_. P) I"
  unfolding fsync_tree_def
proof (rule spec_tree)
  fix t
  let ?P = "\<lambda>st. P st \<and> st_tree st = t"
  have own: "is_owned tx c" if "prefix root c" for c
    using that m unfolding slots_def is_owned_def by (meson prefix_order.trans)
  have entry: "n = Directory \<or> (\<exists>b. n = File b \<and> content t p = Some b)" if "?P st" "(p, n) \<in> set (below root t)" for st p n
  proof -
    have p: "strict_prefix root p" "(p, n) \<in> set t" using that(2) by (auto simp: below_def)
    have h': "confined t0 tx t" using h [of st] that(1) by (auto simp: holding_def between_def)
    then have "wf_tree t" by (simp add: confined_def)
    then have "lookup t p = Some n" using p by (auto simp: lookup_def wf_tree_def)
    moreover have "is_owned tx p" using own p(1) by (simp add: strict_prefix_def)
    then have "lookup t p = None \<or> content t p \<noteq> None \<or> open_way t p" using h' unfolding confined_def by metis
    ultimately show ?thesis by (cases n) (auto simp: open_way_def content_def)
  qed
  have way: "root \<noteq> [] \<and> (\<forall>c. prefix c root \<longrightarrow> open_way t c)" if "?P st" for st
  proof (intro conjI allI impI)
    show "root \<noteq> []" using m by (simp add: slots_def)
    fix c assume c: "prefix c root"
    show "open_way t c"
    proof (cases "c = root")
      case True
      then show ?thesis using h [of st] that own [of root] n by (auto simp: holding_def between_def confined_def)
    next
      case False
      with c m have "above_target tx c" by (auto simp: slots_def strict_prefix_def)
      then show ?thesis using holding_above [OF s h [OF conjunct1 [OF that]]] that by simp
    qed
  qed
  have v: "spec q ?P (lift (validated_root t root)) (\<lambda>x st. ?P st \<and> x = root) I"
    by (rule spec_root) (use i way in blast)+
  have rest: "spec q ?P (if \<exists>(p, n) \<in> set (below x t). n = Link then raise SyncError
     else eachIO fsync_file (map fst (filter (\<lambda>(p, n). n \<noteq> Directory) (below x t)))) (\<lambda>_. P) I" if x: "x = root" for x
  proof (rule spec_if)
    assume l: "\<exists>(p, n) \<in> set (below x t). n = Link"
    show "spec q ?P (raise SyncError) (\<lambda>_. P) I"
    proof (rule spec_reject)
      show False if "?P st" q for st using entry [OF that(1), of _ Link] l x by auto
    qed (use i in blast)
  next
    have "spec q ?P (eachIO fsync_file (map fst (filter (\<lambda>(p, n). n \<noteq> Directory) (below x t)))) (\<lambda>_. ?P) I"
    proof (rule spec_each_keep, rule spec_fsync_file)
      fix p st assume p: "p \<in> set (map fst (filter (\<lambda>(p, n). n \<noteq> Directory) (below x t)))" and st: "?P st"
      then obtain n where n: "(p, n) \<in> set (below root t)" "n \<noteq> Directory" using x by auto
      show "content (st_tree st) p \<noteq> None" using entry [OF st n(1)] n(2) st by auto
    qed (use i in auto)
    then show "spec q ?P (eachIO fsync_file (map fst (filter (\<lambda>(p, n). n \<noteq> Directory) (below x t)))) (\<lambda>_. P) I"
      by (rule spec_post) simp
  qed
  show "spec q ?P (bindIO (lift (validated_root t root)) (\<lambda>root.
     if \<exists>(p, n) \<in> set (below root t). n = Link then raise SyncError
     else eachIO fsync_file (map fst (filter (\<lambda>(p, n). n \<noteq> Directory) (below root t))))) (\<lambda>_. P) I"
  proof (rule spec_bind [OF v])
    fix x
    show "spec q (\<lambda>st. ?P st \<and> x = root) (if \<exists>(p, n) \<in> set (below x t). n = Link then raise SyncError
     else eachIO fsync_file (map fst (filter (\<lambda>(p, n). n \<noteq> Directory) (below x t)))) (\<lambda>_. P) I"
      by (rule spec_fact [where A = "x = root"], erule conjunct2, rule spec_pre, erule rest, erule conjunct1)
  qed
qed

subsection \<open>The slots of a view\<close>

lemma slots_view:
  assumes s: "sound_transaction t0 tx" and v: "v \<in> set (tx_views tx)"
  shows "slots tx (pv_stage v) (pv_desired v)" and "slots tx (pv_candidate v) (pv_current v)"
proof -
  have t: "tidy_view (tx_id tx) v" by (rule sound_view [OF s v])
  have ne: "pv_stage v \<noteq> []" "pv_candidate v \<noteq> []" using t by (auto simp: tidy_view_def stage_path_def candidate_path_def)
  have own: "is_owned tx (pv_stage v)" "is_owned tx (pv_candidate v)" using v by (auto simp: is_owned_def)
  have d: "distinct (map fst (pv_desired v))" "distinct (map fst (pv_current v))" using t by (auto simp: tidy_view_def tidy_manifest_def)
  have ch: "change tx v r" if "(r, a) \<in> set (pv_desired v) \<or> (r, a) \<in> set (pv_current v)" for r a
    using sound_parts(5) [OF s v] v that by (force simp: change_def)
  have a: "above_target tx c" if "strict_prefix c (pv_stage v) \<or> strict_prefix c (pv_candidate v)" for c
    by (rule above_owned [OF s v that])
  have 1: "(\<exists>v. change tx v r) \<and> is_slot tx (pv_stage v @ tail_parts r)" if r: "(r, a) \<in> set (pv_desired v)" for r a
  proof -
    have "map_of (pv_desired v) r \<noteq> None" using r d by simp
    with ch r show ?thesis unfolding is_slot_def staged_def by blast
  qed
  have 2: "(\<exists>v. change tx v r) \<and> is_slot tx (pv_candidate v @ tail_parts r)" if r: "(r, a) \<in> set (pv_current v)" for r a
  proof -
    have "map_of (pv_current v) r \<noteq> None" using r d by simp
    with ch r show ?thesis unfolding is_slot_def backup_def by blast
  qed
  show "slots tx (pv_stage v) (pv_desired v)" unfolding slots_def using ne own d a 1 by blast
  show "slots tx (pv_candidate v) (pv_current v)" unfolding slots_def using ne own d a 2 by blast
qed

subsection \<open>States of a preparation\<close>

text \<open>Every owned directory that exists is on the list of what was created.\<close>

definition recorded :: "transaction \<Rightarrow> state \<Rightarrow> bool" where
  "recorded tx s \<longleftrightarrow> set (st_created s) \<subseteq> (\<Union>v \<in> set (tx_views tx). {pv_stage v, pv_candidate v})
     \<and> (\<forall>v \<in> set (tx_views tx). \<forall>p \<in> {pv_stage v, pv_candidate v}. lookup (st_tree s) p \<noteq> None \<longrightarrow> p \<in> set (st_created s))"

definition staged_view :: "transaction \<Rightarrow> prepared_view \<Rightarrow> tree \<Rightarrow> bool" where
  "staged_view tx v t \<longleftrightarrow> (\<forall>r a. change tx v r \<longrightarrow> map_of (pv_desired v) r = Some a \<longrightarrow> holds_version t (staged v r) (Some a))"

definition begun :: "transaction \<Rightarrow> state \<Rightarrow> bool" where
  "begun tx s \<longleftrightarrow> flags (journal_of tx Preparing) False s \<and> st_journal_created s"

text \<open>The views in \<open>V\<close> are staged and backed up, those in \<open>W\<close> have no owned directory yet.\<close>

definition within :: "prepared_view set \<Rightarrow> transaction \<Rightarrow> prepared_view \<Rightarrow> string \<Rightarrow> bool" where
  "within V tx w k \<longleftrightarrow> w \<in> V \<and> change tx w k"

definition preparing :: "tree \<Rightarrow> transaction \<Rightarrow> prepared_view set \<Rightarrow> prepared_view set \<Rightarrow> state \<Rightarrow> bool" where
  "preparing t0 tx V W s \<longleftrightarrow> holding t0 tx (change tx) (within V tx) (begun tx) s \<and> recorded tx s
     \<and> (\<forall>v \<in> V. staged_view tx v (st_tree s) \<and> is_dir (st_tree s) (pv_candidate v))
     \<and> (\<forall>v \<in> W. lookup (st_tree s) (pv_stage v) = None \<and> lookup (st_tree s) (pv_candidate v) = None)"

definition near :: "transaction \<Rightarrow> prepared_view \<Rightarrow> path \<Rightarrow> bool" where
  "near tx v c \<longleftrightarrow> prefix (pv_stage v) c \<or> prefix (pv_candidate v) c \<or> above_target tx c"

lemma near_apart:
  assumes "sound_transaction t0 tx" and "v \<in> set (tx_views tx)" and "w \<in> set (tx_views tx)" and "w \<noteq> v" and "near tx v c"
  shows "\<not> prefix (pv_stage w) c" and "\<not> prefix (pv_candidate w) c"
proof -
  have "False" if o: "prefix a c" "a = pv_stage w \<or> a = pv_candidate w" for a
  proof (cases "above_target tx c")
    case True
    with above_not_owned [OF assms(1)] o assms(3) show False by (auto simp: is_owned_def)
  next
    case False
    with assms(5) have "prefix (pv_stage v) c \<or> prefix (pv_candidate v) c" by (simp add: near_def)
    with areas_two [OF sound_parts(3) [OF assms(1)] assms(2,3), of _ a c] o assms(4) show False by (auto simp: view_areas_def)
  qed
  then show "\<not> prefix (pv_stage w) c" and "\<not> prefix (pv_candidate w) c" by blast+
qed

lemma preparing_update:
  assumes s: "sound_transaction t0 tx" and v: "v \<in> set (tx_views tx)" and p: "preparing t0 tx V W st"
    and vw: "V \<union> W \<subseteq> set (tx_views tx) - {v}" and w: "wf_tree t" and l: "lookup t = (lookup (st_tree st))(c := n)"
    and u: "allowed_update t0 tx (st_tree st) c n" and c: "near tx v c" "\<not> is_target tx c"
    and r: "c = pv_stage v \<or> c = pv_candidate v \<Longrightarrow> c \<in> set (st_created st)"
  shows "preparing t0 tx V W (st\<lparr>st_tree := t\<rparr>)"
proof -
  have h: "holding t0 tx (change tx) (within V tx) (begun tx) st" and rec: "recorded tx st"
    and g: "\<forall>v \<in> V. staged_view tx v (st_tree st) \<and> is_dir (st_tree st) (pv_candidate v)"
    and e: "\<forall>v \<in> W. lookup (st_tree st) (pv_stage v) = None \<and> lookup (st_tree st) (pv_candidate v) = None"
    using p by (auto simp: preparing_def)
  have far: "\<not> prefix (pv_stage w) c \<and> \<not> prefix (pv_candidate w) c" if "w \<in> set (tx_views tx)" "w \<noteq> v" for w
    using near_apart [OF s v that c(1)] by blast
  have "holding t0 tx (change tx) (within V tx) (begun tx) (st\<lparr>st_tree := t\<rparr>)"
  proof (rule holding_update [OF s h w l u])
    show "n = lookup t0 c" if "change tx x k" "c = live x k" for x k using that c(2) live_target by blast
    show "n = lookup (st_tree st) c" if "within V tx x k" "c = backup x k" for x k
    proof -
      have "x \<in> set (tx_views tx)" "x \<noteq> v" using that(1) vw by (auto simp: within_def)
      from far [OF this] that(2) show ?thesis by auto
    qed
  qed
  moreover have "recorded tx (st\<lparr>st_tree := t\<rparr>)"
    unfolding recorded_def
  proof (intro conjI ballI impI)
    show "set (st_created (st\<lparr>st_tree := t\<rparr>)) \<subseteq> (\<Union>v \<in> set (tx_views tx). {pv_stage v, pv_candidate v})" using rec by (simp add: recorded_def)
    fix x a assume x: "x \<in> set (tx_views tx)" and a: "a \<in> {pv_stage x, pv_candidate x}" and f: "lookup (st_tree (st\<lparr>st_tree := t\<rparr>)) a \<noteq> None"
    show "a \<in> set (st_created (st\<lparr>st_tree := t\<rparr>))"
    proof (cases "a = c")
      case True
      with a far [OF x] have "x = v" by auto
      with True a r show ?thesis by auto
    next
      case False
      then have "lookup (st_tree st) a \<noteq> None" using f l by simp
      then have "a \<in> set (st_created st)" using rec x a unfolding recorded_def by blast
      then show ?thesis by simp
    qed
  qed
  moreover have "staged_view tx x t" if x: "x \<in> V" for x
    unfolding staged_view_def
  proof (intro allI impI)
    fix k a assume k: "change tx x k" "map_of (pv_desired x) k = Some a"
    have "x \<in> set (tx_views tx)" "x \<noteq> v" using x vw by auto
    from far [OF this] have "staged x k \<noteq> c" by (auto simp: staged_def)
    moreover have "holds_version (st_tree st) (staged x k) (Some a)" using g x k by (simp add: staged_view_def)
    ultimately show "holds_version t (staged x k) (Some a)" using l holds_version_cong [of t "staged x k" "st_tree st"] by simp
  qed
  moreover have "is_dir t (pv_candidate x)" if x: "x \<in> V" for x
  proof -
    have "x \<in> set (tx_views tx)" "x \<noteq> v" using x vw by auto
    from far [OF this] have "c \<noteq> pv_candidate x" by auto
    then show ?thesis using g x l by (simp add: is_dir_def)
  qed
  moreover have "lookup t (pv_stage x) = None \<and> lookup t (pv_candidate x) = None" if x: "x \<in> W" for x
  proof -
    have "x \<in> set (tx_views tx)" "x \<noteq> v" using x vw by auto
    from far [OF this] have "c \<noteq> pv_stage x" "c \<noteq> pv_candidate x" by auto
    then show ?thesis using e x l by simp
  qed
  ultimately show ?thesis by (simp add: preparing_def)
qed

lemma near_not_target:
  assumes s: "sound_transaction t0 tx" and v: "v \<in> set (tx_views tx)" and c: "near tx v c"
  shows "\<not> is_target tx c"
  using target_kind(2,3) [OF s, of c] v c by (auto simp: near_def is_owned_def)

lemma preparing_holding: "preparing t0 tx V W s \<Longrightarrow> holding t0 tx (change tx) (within V tx) (begun tx) s"
  by (simp add: preparing_def)

text \<open>Directories below the owned ones of a view, and the files in its slots.\<close>

definition filling :: "tree \<Rightarrow> transaction \<Rightarrow> prepared_view set \<Rightarrow> prepared_view set \<Rightarrow> prepared_view \<Rightarrow> state \<Rightarrow> bool" where
  "filling t0 tx V W v s \<longleftrightarrow> preparing t0 tx V W s \<and> is_dir (st_tree s) (pv_stage v) \<and> is_dir (st_tree s) (pv_candidate v)"

lemma filling_grows:
  assumes s: "sound_transaction t0 tx" and v: "v \<in> set (tx_views tx)" and vw: "V \<union> W \<subseteq> set (tx_views tx) - {v}"
  shows "grows (\<lambda>c. near tx v c \<and> \<not> is_slot tx c) (filling t0 tx V W v)"
proof -
  have "preparing t0 tx V W (st\<lparr>st_tree := t\<rparr>)"
    if f: "filling t0 tx V W v st" and c: "near tx v c" "\<not> is_slot tx c" and m: "make_dir c (st_tree st) = Some t" for st c t
  proof (rule preparing_update [OF s v _ vw make_dirD(5) [OF m] make_dirD(1) [OF m]])
    show "preparing t0 tx V W st" using f by (simp add: filling_def)
    show "wf_tree (st_tree st)" using f by (auto simp: filling_def intro: holding_wf preparing_holding)
    show "allowed_update t0 tx (st_tree st) c (Some Directory)"
      using c v make_dirD(3) [OF m] by (auto simp: allowed_update_def near_def is_owned_def)
    show "c \<in> set (st_created st)" if "c = pv_stage v \<or> c = pv_candidate v" using f that make_dirD(3) [OF m] by (auto simp: filling_def is_dir_def)
    show "\<not> is_target tx c" by (rule near_not_target [OF s v c(1)])
  qed (rule c)
  moreover have "grows (\<lambda>c. near tx v c \<and> \<not> is_slot tx c) (\<lambda>s. is_dir (st_tree s) p)" for p by (rule grows_is_dir)
  ultimately show ?thesis unfolding grows_def filling_def by blast
qed

lemma filling_writable:
  assumes s: "sound_transaction t0 tx" and v: "v \<in> set (tx_views tx)" and vw: "V \<union> W \<subseteq> set (tx_views tx) - {v}"
    and c: "near tx v c" "is_slot tx c"
  shows "writable c (filling t0 tx V W v)"
  unfolding writable_def
proof (intro allI impI)
  fix st n t assume f: "filling t0 tx V W v st" and n: "n = None \<or> (\<exists>b. n = Some (File b)) \<and> is_dir (st_tree st) (butlast c)"
    and l: "lookup t = (lookup (st_tree st))(c := n)" and w: "wf_tree (st_tree st) \<longrightarrow> wf_tree t"
  have p: "preparing t0 tx V W st" using f by (simp add: filling_def)
  have ne: "c \<noteq> pv_stage v" "c \<noteq> pv_candidate v" using owned_not_slot [OF s v] c(2) by auto
  have "preparing t0 tx V W (st\<lparr>st_tree := t\<rparr>)"
  proof (rule preparing_update [OF s v p vw _ l])
    show "wf_tree t" using w holding_wf [OF preparing_holding [OF p]] by simp
    show "allowed_update t0 tx (st_tree st) c n" using n c(2) slot_owned by (auto simp: allowed_update_def)
    show "\<not> is_target tx c" by (rule near_not_target [OF s v c(1)])
  qed (use c ne in auto)
  with f l ne show "filling t0 tx V W v (st\<lparr>st_tree := t\<rparr>)" by (auto simp: filling_def is_dir_def)
qed

subsection \<open>Creating the owned directories\<close>

lemma preparing_none: "preparing t0 tx V W s \<Longrightarrow> preparing t0 tx {} {} s"
  by (auto simp: preparing_def within_def elim!: holding_mono)

lemma preparing_above:
  assumes s: "sound_transaction t0 tx" and v: "v \<in> set (tx_views tx)" and vw: "V \<union> W \<subseteq> set (tx_views tx) - {v}"
  shows "grows (above_target tx) (preparing t0 tx V W)"
  unfolding grows_def
proof (intro allI impI)
  fix st c t assume p: "preparing t0 tx V W st" and c: "above_target tx c" and m: "make_dir c (st_tree st) = Some t"
  have n: "near tx v c" using c by (simp add: near_def)
  have o: "\<not> is_owned tx c" by (rule above_not_owned [OF s c])
  show "preparing t0 tx V W (st\<lparr>st_tree := t\<rparr>)"
  proof (rule preparing_update [OF s v p vw _ make_dirD(1) [OF m] _ n near_not_target [OF s v n]])
    show "wf_tree t" by (rule make_dirD(5) [OF m holding_wf [OF preparing_holding [OF p]]])
    show "allowed_update t0 tx (st_tree st) c (Some Directory)" using c make_dirD(3) [OF m] by (auto simp: allowed_update_def)
    show "c \<in> set (st_created st)" if "c = pv_stage v \<or> c = pv_candidate v" using that o v by (auto simp: is_owned_def)
  qed
qed

lemma preparing_created:
  assumes "preparing t0 tx V W st" and "v \<in> set (tx_views tx)" and "p = pv_stage v \<or> p = pv_candidate v"
  shows "preparing t0 tx V W (st\<lparr>st_created := st_created st @ [p]\<rparr>)"
proof -
  have "recorded tx (st\<lparr>st_created := st_created st @ [p]\<rparr>)"
    using assms unfolding preparing_def recorded_def by (auto simp del: not_None_eq)
  with assms(1) show ?thesis by (simp add: preparing_def holding_def begun_def flags_def)
qed

lemma preparing_make:
  assumes s: "sound_transaction t0 tx" and v: "v \<in> set (tx_views tx)" and vw: "V \<union> W \<subseteq> set (tx_views tx) - {v}"
    and p: "p = pv_stage v \<or> p = pv_candidate v" and st: "preparing t0 tx V W st" and m: "make_dir p (st_tree st) = Some t"
  shows "preparing t0 tx V W (st\<lparr>st_tree := t, st_created := st_created st @ [p]\<rparr>)"
proof -
  let ?st = "st\<lparr>st_created := st_created st @ [p]\<rparr>"
  have n: "near tx v p" using p by (auto simp: near_def)
  have "preparing t0 tx V W (?st\<lparr>st_tree := t\<rparr>)"
  proof (rule preparing_update [OF s v preparing_created [OF st v p] vw _ _ _ n near_not_target [OF s v n]])
    show "wf_tree t" by (rule make_dirD(5) [OF m holding_wf [OF preparing_holding [OF st]]])
    show "lookup t = (lookup (st_tree ?st))(p := Some Directory)" using make_dirD(1) [OF m] by simp
    show "allowed_update t0 tx (st_tree ?st) p (Some Directory)"
      using p v owned_not_slot [OF s v] by (auto simp: allowed_update_def is_owned_def)
    show "p \<in> set (st_created ?st)" by simp
  qed
  moreover have "?st\<lparr>st_tree := t\<rparr> = st\<lparr>st_tree := t, st_created := st_created st @ [p]\<rparr>" by (cases st) simp
  ultimately show ?thesis by simp
qed

lemma spec_make_owned:
  assumes s: "sound_transaction t0 tx" and v: "v \<in> set (tx_views tx)" and vw: "V \<union> W \<subseteq> set (tx_views tx) - {v}"
    and p: "p = pv_stage v \<or> p = pv_candidate v"
    and z: "\<And>t c t'. Z t \<Longrightarrow> make_dir c t = Some t' \<Longrightarrow> above_target tx c \<or> c = p \<Longrightarrow> Z t'"
  shows "spec q (\<lambda>st. preparing t0 tx V W st \<and> Z (st_tree st) \<and> lookup (st_tree st) p = None) (make_owned p)
     (\<lambda>_ st. preparing t0 tx V W st \<and> Z (st_tree st) \<and> is_dir (st_tree st) p) (preparing t0 tx {} {})"
proof -
  let ?P = "\<lambda>st. preparing t0 tx V W st \<and> Z (st_tree st) \<and> lookup (st_tree st) p = None"
  have "p \<noteq> []" using sound_view [OF s v] p by (auto simp: tidy_view_def stage_path_def candidate_path_def)
  then obtain xs x where px: "p = xs @ [x]" using rev_exhaust by blast
  have up: "above_target tx c" if "prefix c xs" for c
  proof -
    have "strict_prefix xs p" by (simp add: px strict_prefix_def)
    then have "strict_prefix c p" by (rule prefix_order.le_less_trans [OF that])
    with above_owned [OF s v, of c] p show ?thesis by auto
  qed
  have np: "c \<noteq> p" if "above_target tx c" for c using above_not_owned [OF s that] p v by (auto simp: is_owned_def)
  have gz: "grows (above_target tx) (\<lambda>st. Z (st_tree st) \<and> lookup (st_tree st) p = None)"
    unfolding grows_def
  proof (intro allI impI)
    fix st :: state and c t
    assume a: "Z (st_tree st) \<and> lookup (st_tree st) p = None" and c: "above_target tx c" and m: "make_dir c (st_tree st) = Some t"
    have "Z t" using z [OF _ m] a c by blast
    moreover have "lookup t p = None" using make_dirD(1) [OF m] np [OF c] a by auto
    ultimately show "Z (st_tree (st\<lparr>st_tree := t\<rparr>)) \<and> lookup (st_tree (st\<lparr>st_tree := t\<rparr>)) p = None" by simp
  qed
  have g: "grows (above_target tx) ?P" by (rule grows_and [OF preparing_above [OF s v vw] gz])
  have a: "spec q ?P (eachIO make_missing (prefixes xs)) (\<lambda>_ st. ?P st \<and> (q \<longrightarrow> is_dir (st_tree st) xs)) (preparing t0 tx {} {})"
  proof (rule spec_make_prefixes [OF g _ up])
    show "open_way (st_tree st) c" if "?P st" "prefix c xs" for st c
      using holding_above [OF s preparing_holding up [OF that(2)]] that(1) by blast
  qed (use preparing_none in blast)
  have b: "spec q (\<lambda>st. ?P st \<and> (q \<longrightarrow> is_dir (st_tree st) xs)) (on_tree (make_dir p))
     (\<lambda>_ st. preparing t0 tx V W (st\<lparr>st_created := st_created st @ [p]\<rparr>) \<and> Z (st_tree st) \<and> is_dir (st_tree st) p) (preparing t0 tx {} {})"
  proof (rule spec_on_tree)
    fix st assume st: "?P st \<and> (q \<longrightarrow> is_dir (st_tree st) xs)"
    show "preparing t0 tx {} {} st \<and> (case make_dir p (st_tree st) of None \<Rightarrow> \<not> q
       | Some t \<Rightarrow> preparing t0 tx V W (st\<lparr>st_tree := t, st_created := st_created (st\<lparr>st_tree := t\<rparr>) @ [p]\<rparr>)
           \<and> Z (st_tree (st\<lparr>st_tree := t\<rparr>)) \<and> is_dir (st_tree (st\<lparr>st_tree := t\<rparr>)) p)"
    proof (cases "make_dir p (st_tree st)")
      case None
      then show ?thesis using st px preparing_none by (auto simp: make_dir_def split: if_splits)
    next
      case (Some t)
      then show ?thesis using st preparing_none preparing_make [OF s v vw p _ Some] z [OF _ Some] make_dirD(1) [OF Some] by (auto simp: is_dir_def)
    qed
  qed
  have c: "spec q (\<lambda>st. preparing t0 tx V W (st\<lparr>st_created := st_created st @ [p]\<rparr>) \<and> Z (st_tree st) \<and> is_dir (st_tree st) p)
     (set_memory (\<lambda>s. s\<lparr>st_created := st_created s @ [p]\<rparr>)) (\<lambda>_ st. preparing t0 tx V W st \<and> Z (st_tree st) \<and> is_dir (st_tree st) p) (preparing t0 tx {} {})"
    by (rule spec_memory) simp
  have m: "make_dirs p = seqIO (eachIO make_missing (prefixes xs)) (on_tree (make_dir p))" by (simp add: make_dirs_def px)
  show ?thesis unfolding make_owned_def m by (rule spec_bind [OF spec_bind [OF a b] c])
qed

subsection \<open>Staging a view\<close>

lemma slot_near:
  assumes s: "sound_transaction t0 tx" and m: "slots tx root m" and r: "(r, a) \<in> set m" and root: "root = pv_stage v \<or> root = pv_candidate v"
  shows "near tx v (root @ tail_parts r)" and "is_slot tx (root @ tail_parts r)"
    and "strict_prefix c (root @ tail_parts r) \<Longrightarrow> near tx v c \<and> \<not> is_slot tx c"
proof -
  show "near tx v (root @ tail_parts r)" using root by (auto simp: near_def)
  show "is_slot tx (root @ tail_parts r)" using m r by (auto simp: slots_def)
  assume c: "strict_prefix c (root @ tail_parts r)"
  have "prefix root c \<or> strict_prefix c root" using c by (metis prefixI prefix_order.less_le prefix_same_cases)
  then have "near tx v c" using m root by (auto simp: near_def slots_def)
  moreover have "\<not> is_slot tx c" using slot_way [OF s m r c] above_not_owned [OF s] slot_owned by blast
  ultimately show "near tx v c \<and> \<not> is_slot tx c" by blast
qed

lemma staged_view_slots: "\<forall>(r, a) \<in> set (pv_desired v). holds_version t (pv_stage v @ tail_parts r) (Some a) \<Longrightarrow> staged_view tx v t"
  by (auto simp: staged_view_def staged_def dest!: map_of_SomeD)

lemma staged_view_update:
  assumes "staged_view tx v t" and "lookup t' = (lookup t)(c := n)"
    and "\<And>r. change tx v r \<Longrightarrow> map_of (pv_desired v) r \<noteq> None \<Longrightarrow> content t (staged v r) \<noteq> None \<Longrightarrow> c \<noteq> staged v r"
  shows "staged_view tx v t'"
  unfolding staged_view_def
proof (intro allI impI)
  fix r a assume r: "change tx v r" "map_of (pv_desired v) r = Some a"
  then have h: "holds_version t (staged v r) (Some a)" using assms(1) by (simp add: staged_view_def)
  then have "content t (staged v r) \<noteq> None" by (auto simp: holds_Some)
  then have "c \<noteq> staged v r" using assms(3) r by blast
  then show "holds_version t' (staged v r) (Some a)" using h assms(2) holds_version_cong [of t' "staged v r" t] by simp
qed

text \<open>The backups of a view are complete.\<close>

lemma filling_backed_up:
  assumes s: "sound_transaction t0 tx" and f: "filling t0 tx V W v st" and v: "v \<in> set (tx_views tx)"
    and g: "staged_view tx v (st_tree st)" and b: "filled t0 (pv_candidate v) (\<lambda>r _. pv_root v @ tail_parts r) (pv_current v) (st_tree st)"
  shows "preparing t0 tx (insert v V) W st"
proof -
  have p: "preparing t0 tx V W st" using f by (simp add: filling_def)
  have "content (st_tree st) (backup v r) = content t0 (live v r) \<and> content (st_tree st) (backup v r) \<noteq> None"
    if r: "change tx v r" "map_of (pv_current v) r \<noteq> None" for r
  proof -
    from r(2) obtain a where a: "map_of (pv_current v) r = Some a" by blast
    then have "content t0 (live v r) \<noteq> None" using sound_parts(9) [OF s r(1)] by (auto simp: holds_Some)
    with b map_of_SomeD [OF a] show ?thesis by (fastforce simp: filled_def backup_def live_def)
  qed
  then have "backed_up t0 (within (insert v V) tx) (st_tree st)"
    using p unfolding preparing_def holding_def backed_up_def within_def by blast
  with p g f show ?thesis by (simp add: preparing_def holding_def filling_def)
qed

lemma spec_stage_view:
  assumes s: "sound_transaction t0 tx" and v: "v \<in> set (tx_views tx)" and vw: "V \<union> W \<subseteq> set (tx_views tx) - {v}"
    and src: "\<And>r a. q \<Longrightarrow> (r, a) \<in> set (pv_desired v) \<Longrightarrow> holds_version t0 (sv_source raw r a) (Some a)"
  shows "spec q (preparing t0 tx V (insert v W)) (stage_view (raw, v)) (\<lambda>_. preparing t0 tx (insert v V) W) (preparing t0 tx {} {})"
proof -
  let ?I = "preparing t0 tx {} {}" and ?F = "filling t0 tx V W v"
  let ?src = "\<lambda>(r :: string) (_ :: save_artifact). pv_root v @ tail_parts r"
  note sl = slots_view [OF s v]
  note ns = owned_not_slot [OF s v]
  have i: "?I st" if "?F st" for st using that preparing_none by (auto simp: filling_def)
  have h: "holding t0 tx (change tx) (within V tx) (begun tx) st" if "?F st" for st using that preparing_holding by (auto simp: filling_def)
  have ne: "pv_stage v \<noteq> pv_candidate v" using area_kinds(3) [OF s v v, of "pv_stage v"] by auto
  have own: "is_owned tx (pv_stage v)" "is_owned tx (pv_candidate v)" using v by (auto simp: is_owned_def)
  have 1: "spec q (preparing t0 tx V (insert v W)) (make_owned (pv_stage v))
     (\<lambda>_ st. preparing t0 tx V W st \<and> lookup (st_tree st) (pv_candidate v) = None \<and> is_dir (st_tree st) (pv_stage v)) ?I"
  proof (rule spec_pre [OF spec_make_owned [OF s v vw, where Z = "\<lambda>t. lookup t (pv_candidate v) = None"]])
    show "lookup t' (pv_candidate v) = None" if "lookup t (pv_candidate v) = None" "make_dir c t = Some t'" "above_target tx c \<or> c = pv_stage v" for t c t'
      using that make_dirD(1) [OF that(2)] above_not_owned [OF s] own ne by auto
  qed (auto simp: preparing_def)
  have 2: "spec q (\<lambda>st. preparing t0 tx V W st \<and> lookup (st_tree st) (pv_candidate v) = None \<and> is_dir (st_tree st) (pv_stage v))
     (make_owned (pv_candidate v)) (\<lambda>_. ?F) ?I"
  proof (rule spec_conseq [OF spec_make_owned [OF s v vw, where Z = "\<lambda>t. is_dir t (pv_stage v)" and p = "pv_candidate v"]])
    show "is_dir t' (pv_stage v)" if "is_dir t (pv_stage v)" "make_dir c t = Some t'" for t c t'
      using that make_dirD(1) [OF that(2)] by (auto simp: is_dir_def)
  qed (auto simp: filling_def)
  have 3: "spec q ?F (materialize_manifest (pv_stage v) (pv_desired v) (sv_source raw))
     (\<lambda>_ st. ?F st \<and> filled t0 (pv_stage v) (sv_source raw) (pv_desired v) (st_tree st)) ?I"
  proof (rule spec_materialize_manifest [OF s sl(1) h i _ _ src])
    fix r a assume r: "(r, a) \<in> set (pv_desired v)"
    show "grows (\<lambda>c. strict_prefix c (pv_stage v @ tail_parts r)) ?F"
      by (rule grows_subset [OF filling_grows [OF s v vw]]) (use slot_near(3) [OF s sl(1) r] in blast)
    show "writable (pv_stage v @ tail_parts r) ?F"
      by (rule filling_writable [OF s v vw]) (use slot_near(1,2) [OF s sl(1) r] in blast)+
  qed
  have 4: "spec q (\<lambda>st. ?F st \<and> filled t0 (pv_stage v) (sv_source raw) (pv_desired v) (st_tree st)) (verify_manifest (pv_stage v) (pv_desired v))
     (\<lambda>_ st. ?F st \<and> staged_view tx v (st_tree st)) ?I"
  proof (rule spec_post [OF spec_verify_slots [OF s sl(1)]])
    show "holds_version (st_tree st) (pv_stage v @ tail_parts r) (Some a)"
      if "q" "?F st \<and> filled t0 (pv_stage v) (sv_source raw) (pv_desired v) (st_tree st)" "(r, a) \<in> set (pv_desired v)" for st r a
      using src [OF that(1,3)] that(2,3) by (fastforce simp: filled_def holds_Some)
  qed (use h i staged_view_slots in blast)+
  let ?G = "\<lambda>st. ?F st \<and> staged_view tx v (st_tree st)"
  have 5: "spec q ?G (materialize_manifest (pv_candidate v) (pv_current v) ?src)
     (\<lambda>_ st. ?G st \<and> filled t0 (pv_candidate v) ?src (pv_current v) (st_tree st)) ?I"
  proof (rule spec_materialize_manifest [OF s sl(2)])
    fix r a assume r: "(r, a) \<in> set (pv_current v)"
    note n = slot_near [OF s sl(2) r]
    have sg: "grows A (\<lambda>st. staged_view tx v (st_tree st))" for A
      unfolding grows_def
    proof (intro allI impI)
      fix st :: state and c t assume g: "staged_view tx v (st_tree st)" and m: "make_dir c (st_tree st) = Some t"
      have "staged_view tx v t" by (rule staged_view_update [OF g make_dirD(1) [OF m]]) (use make_dirD(3) [OF m] in \<open>auto simp: content_def\<close>)
      then show "staged_view tx v (st_tree (st\<lparr>st_tree := t\<rparr>))" by simp
    qed
    show "grows (\<lambda>c. strict_prefix c (pv_candidate v @ tail_parts r)) ?G"
      by (intro grows_and sg grows_subset [OF filling_grows [OF s v vw]]) (use n(3) in blast)
    have sw: "writable (pv_candidate v @ tail_parts r) (\<lambda>st. staged_view tx v (st_tree st))"
      unfolding writable_def
    proof (intro allI impI)
      fix st :: state and n t assume g: "staged_view tx v (st_tree st)" and l: "lookup t = (lookup (st_tree st))(pv_candidate v @ tail_parts r := n)"
      have "pv_candidate v @ tail_parts r \<noteq> staged v k" for k
        using area_kinds(3) [OF s v v, of "staged v k"] by (auto simp: staged_def) (metis prefixI)
      then have "staged_view tx v t" using staged_view_update [OF g l] by blast
      then show "staged_view tx v (st_tree (st\<lparr>st_tree := t\<rparr>))" by simp
    qed
    show "writable (pv_candidate v @ tail_parts r) ?G"
      by (rule writable_and [OF filling_writable [OF s v vw] sw]) (use n(1,2) in blast)+
    show "holds_version t0 (pv_root v @ tail_parts r) (Some a)"
    proof -
      note ce = current_entry [OF s v r]
      from sound_parts(9) [OF s ce(1)] ce(2) show ?thesis by (simp add: live_def)
    qed
  qed (use h i in blast)+
  let ?K = "\<lambda>st. ?F st \<and> preparing t0 tx (insert v V) W st"
  have 6: "spec q (\<lambda>st. ?G st \<and> filled t0 (pv_candidate v) ?src (pv_current v) (st_tree st)) (verify_manifest (pv_candidate v) (pv_current v)) (\<lambda>_. ?K) ?I"
  proof (rule spec_post [OF spec_verify_slots [OF s sl(2)]])
    show "holds_version (st_tree st) (pv_candidate v @ tail_parts r) (Some a)"
      if "?G st \<and> filled t0 (pv_candidate v) ?src (pv_current v) (st_tree st)" "(r, a) \<in> set (pv_current v)" for st r a
    proof -
      note ce = current_entry [OF s v that(2)]
      from sound_parts(9) [OF s ce(1)] ce(2) that show ?thesis by (fastforce simp: filled_def holds_Some live_def)
    qed
  qed (use h i filling_backed_up [OF s _ v] in blast)+
  have 7: "spec q ?K (fsync_tree (pv_stage v)) (\<lambda>_. ?K) ?I" by (rule spec_fsync_owned [OF s sl(1) ns(1)]) (use h i in blast)+
  have 8: "spec q ?K (fsync_tree (pv_candidate v)) (\<lambda>_. preparing t0 tx (insert v V) W) ?I"
    by (rule spec_post [OF spec_fsync_owned [OF s sl(2) ns(2)]]) (use h i in blast)+
  show ?thesis unfolding stage_view_def prod.case
    by (rule spec_bind [OF 1], rule spec_bind [OF 2], rule spec_bind [OF 3], rule spec_bind [OF 4], rule spec_bind [OF 5],
        rule spec_bind [OF 6], rule spec_bind [OF 7 8])
qed

subsection \<open>The preparation\<close>

definition selected :: "string \<Rightarrow> selected_view list \<Rightarrow> (selected_view \<times> prepared_view) list" where
  "selected op raws = map (\<lambda>raw. (raw, prepared_view_of op raw)) (filter (\<lambda>raw. changed_paths (sv_current raw) (sv_desired raw) \<noteq> []) raws)"

definition planned :: "string \<Rightarrow> selected_view list \<Rightarrow> transaction" where
  "planned op raws = (let views = map snd (selected op raws)
     in \<lparr>tx_id = op, tx_views = views, tx_metrics = transaction_metrics_of views\<rparr>)"

text \<open>The sources of the staged files hold what the manifests say.\<close>

definition sources :: "tree \<Rightarrow> string \<Rightarrow> selected_view list \<Rightarrow> bool" where
  "sources t0 op raws \<longleftrightarrow> (\<forall>(raw, v) \<in> set (selected op raws). \<forall>(r, a) \<in> set (pv_desired v). holds_version t0 (sv_source raw r a) (Some a))"

lemma planned_simps [simp]: "tx_id (planned op raws) = op" "tx_views (planned op raws) = map snd (selected op raws)"
  by (simp_all add: planned_def Let_def)

lemma fold_select:
  "foldE (select_step t op) raws (seen, acc) = Inr (seen', views) \<Longrightarrow> views = acc @ selected op raws"
proof (induction raws arbitrary: seen acc)
  case (Cons raw raws)
  then obtain x where x: "select_step t op raw (seen, acc) = Inr x" and r: "foldE (select_step t op) raws x = Inr (seen', views)"
    by (auto simp: bindE_eq_Inr)
  obtain a b where ab: "x = (a, b)" by (cases x)
  have "b = acc @ selected op [raw]"
    using x by (auto simp: ab select_step_def bindE_eq_Inr selected_def Let_def split: if_splits)
  with Cons.IH [OF r [unfolded ab]] show ?case by (simp add: selected_def)
qed (simp add: selected_def)

definition fresh_start :: "tree \<Rightarrow> journal_file \<Rightarrow> state \<Rightarrow> bool" where
  "fresh_start t0 j s \<longleftrightarrow> st_tree s = t0 \<and> st_journal s = j \<and> st_created s = [] \<and> \<not> st_journal_created s \<and> \<not> st_touched s \<and> \<not> st_finished s"

text \<open>Where a preparation may stop before its journal is readable: nothing was changed on the disk.\<close>

definition torn :: journal_file where
  "torn = JournalFile empty_doc"

definition preparation_failed :: "tree \<Rightarrow> transaction \<Rightarrow> state \<Rightarrow> bool" where
  "preparation_failed t0 tx s \<longleftrightarrow> preparing t0 tx {} {} s \<or> fresh_start t0 NoJournal s \<or> fresh_start t0 torn s"

lemma spec_create_journal:
  "spec q (fresh_start t0 NoJournal) (create_journal tx p) (\<lambda>_. fresh_start t0 (journal_of tx p))
     (\<lambda>s. fresh_start t0 NoJournal s \<or> fresh_start t0 torn s)"
proof -
  let ?I = "\<lambda>s. fresh_start t0 NoJournal s \<or> fresh_start t0 torn s"
  have 1: "spec q (fresh_start t0 NoJournal) (act (\<lambda>s. Some (s\<lparr>st_journal := JournalFile empty_doc\<rparr>))) (\<lambda>_. fresh_start t0 torn) ?I"
    by (rule spec_act) (simp add: fresh_start_def torn_def)
  have 2: "spec q (fresh_start t0 torn) (act (\<lambda>s. Some (s\<lparr>st_journal := JournalFile (written (journal_payload tx p))\<rparr>)))
     (\<lambda>_. fresh_start t0 (journal_of tx p)) (fresh_start t0 torn)"
    by (rule spec_act) (simp add: fresh_start_def journal_of_def)
  have 3: "spec q (fresh_start t0 torn) (seqIO (catchIO (act (\<lambda>s. Some (s\<lparr>st_journal := NoJournal\<rparr>))) (\<lambda>_. ret ())) (raise e))
     (\<lambda>_. fresh_start t0 (journal_of tx p)) ?I" if nq: "\<not> q" for e
  proof (rule spec_bind)
    show "spec q (fresh_start t0 torn) (catchIO (act (\<lambda>s. Some (s\<lparr>st_journal := NoJournal\<rparr>))) (\<lambda>_. ret ())) (\<lambda>_. ?I) ?I"
      by (rule spec_catch [where K = "fresh_start t0 torn"]) (auto intro!: spec_act spec_ret simp: fresh_start_def)
    show "spec q ?I (raise e) (\<lambda>_. fresh_start t0 (journal_of tx p)) ?I" for u :: unit using nq by (intro spec_raise) auto
  qed
  have "spec q (fresh_start t0 NoJournal) (seqIO (act (\<lambda>s. Some (s\<lparr>st_journal := JournalFile empty_doc\<rparr>)))
       (catchIO (act (\<lambda>s. Some (s\<lparr>st_journal := JournalFile (written (journal_payload tx p))\<rparr>)))
         (\<lambda>e. seqIO (catchIO (act (\<lambda>s. Some (s\<lparr>st_journal := NoJournal\<rparr>))) (\<lambda>_. ret ())) (raise e))))
     (\<lambda>_. fresh_start t0 (journal_of tx p)) ?I"
    by (rule spec_bind [OF 1], rule spec_catch [OF 2 3]) auto
  then show ?thesis unfolding create_journal_def
    by (intro spec_state) (auto simp: fresh_start_def elim: spec_pre)
qed

lemma fresh_preparing:
  assumes s: "sound_transaction t0 tx" and f: "fresh_start t0 (journal_of tx Preparing) st"
  shows "preparing t0 tx {} (set (tx_views tx)) (st\<lparr>st_journal_created := True\<rparr>)"
proof -
  have gone: "lookup t0 p = None" if "is_owned tx p" for p
  proof -
    from that obtain v x where v: "v \<in> set (tx_views tx)" and x: "x = pv_stage v \<or> x = pv_candidate v" "prefix x p" by (auto simp: is_owned_def)
    have n: "lookup t0 x = None" using sound_parts(6,7) [OF s v] x(1) by auto
    then show ?thesis using wf_leaf [OF sound_parts(2) [OF s], of x p] x(2) by (cases "x = p") (auto simp: is_dir_def strict_prefix_def)
  qed
  have "confined t0 tx t0" using sound_parts(2,10) [OF s] gone by (auto simp: confined_def open_way_def)
  then show ?thesis
    using f sound_parts(6,7) [OF s] by (auto simp: preparing_def holding_def between_def restored_def backed_up_def within_def begun_def flags_def fresh_start_def recorded_def)
qed

lemma spec_stage_views:
  assumes s: "sound_transaction t0 (planned op raws)" and src: "q \<Longrightarrow> sources t0 op raws"
  defines "tx \<equiv> planned op raws"
  shows "spec q (preparing t0 tx {} (set (tx_views tx))) (eachIO stage_view (selected op raws)) (\<lambda>_. preparing t0 tx (set (tx_views tx)) {}) (preparing t0 tx {} {})"
proof -
  have tv: "tx_views tx = map snd (selected op raws)" by (simp add: tx_def)
  have d: "distinct (map snd (selected op raws))" using distinct_views [OF s] by simp
  let ?J = "\<lambda>pre :: (selected_view \<times> prepared_view) list. preparing t0 tx (set (map snd pre)) (set (map snd (selected op raws)) - set (map snd pre))"
  have "spec q (?J []) (eachIO stage_view (selected op raws)) (\<lambda>_. ?J (selected op raws)) (preparing t0 tx {} {})"
  proof (rule spec_each [where J = ?J])
    fix pre x post assume e: "selected op raws = pre @ x # post"
    obtain raw v where x: "x = (raw, v)" by (cases x)
    let ?V = "set (map snd pre)" and ?W = "set (map snd post)"
    have n: "v \<notin> ?V" "v \<notin> ?W" "?V \<inter> ?W = {}" using d by (auto simp: e x)
    have 1: "set (map snd (selected op raws)) - set (map snd pre) = insert v ?W" using n by (auto simp: e x)
    have 2: "set (map snd (selected op raws)) - set (map snd (pre @ [x])) = ?W" using n by (auto simp: e x)
    have v: "v \<in> set (tx_views tx)" and vw: "?V \<union> ?W \<subseteq> set (tx_views tx) - {v}" using n by (auto simp: tv e x)
    have "spec q (preparing t0 tx ?V (insert v ?W)) (stage_view (raw, v)) (\<lambda>_. preparing t0 tx (insert v ?V) ?W) (preparing t0 tx {} {})"
      by (rule spec_stage_view [OF s [folded tx_def] v vw]) (use src in \<open>force simp: sources_def e x\<close>)
    then show "spec q (?J pre) (stage_view x) (\<lambda>_. ?J (pre @ [x])) (preparing t0 tx {} {})" unfolding 1 2 by (simp add: x)
  qed
  then show ?thesis by (simp add: tv)
qed

lemma preparing_prepared:
  assumes "preparing t0 tx (set (tx_views tx)) {} st"
  shows "prepared t0 tx (st\<lparr>st_journal := journal_of tx Prepared\<rparr>)"
proof -
  have "within (set (tx_views tx)) tx = change tx" by (auto simp: within_def change_def fun_eq_iff)
  with assms show ?thesis
    by (auto simp: preparing_def prepared_def holding_def begun_def flags_def staged_on_def staged_view_def candidates_def change_def)
qed

lemma spec_prepare_body:
  assumes s: "sound_transaction t0 (planned op raws)" and src: "q \<Longrightarrow> sources t0 op raws"
    and sel: "q \<Longrightarrow> \<exists>x. foldE (select_step t0 op) raws ([], []) = Inr x"
  shows "spec q (fresh_start t0 NoJournal) (prepare_body op raws) (\<lambda>tx st. tx = planned op raws \<and> prepared t0 tx st) (preparation_failed t0 (planned op raws))"
proof -
  let ?tx = "planned op raws" and ?I = "preparation_failed t0 (planned op raws)"
  let ?Q = "\<lambda>tx st. tx = ?tx \<and> prepared t0 tx st"
  have 1: "spec q (fresh_start t0 NoJournal) (create_journal ?tx Preparing) (\<lambda>_. fresh_start t0 (journal_of ?tx Preparing)) ?I"
    by (rule spec_conseq [OF spec_create_journal]) (auto simp: preparation_failed_def)
  have 2: "spec q (fresh_start t0 (journal_of ?tx Preparing)) (set_memory (\<lambda>s. s\<lparr>st_journal_created := True\<rparr>)) (\<lambda>_. preparing t0 ?tx {} (set (tx_views ?tx))) ?I"
    by (rule spec_memory) (rule fresh_preparing [OF s])
  have 3: "spec q (preparing t0 ?tx {} (set (tx_views ?tx))) (eachIO stage_view (selected op raws)) (\<lambda>_. preparing t0 ?tx (set (tx_views ?tx)) {}) ?I"
    by (rule spec_conseq [OF spec_stage_views [OF s src]]) (auto simp: preparation_failed_def)
  have 4: "spec q (preparing t0 ?tx (set (tx_views ?tx)) {}) (write_journal ?tx Prepared) (\<lambda>_. prepared t0 ?tx) ?I"
  proof (rule spec_write_journal)
    show "st_journal st = journal_of ?tx Preparing" if "preparing t0 ?tx (set (tx_views ?tx)) {} st" for st
      using preparing_holding [OF that] by (simp add: holding_def begun_def flags_def)
    show "?I st" if "preparing t0 ?tx (set (tx_views ?tx)) {} st" for st
      using preparing_none [OF that] by (simp add: preparation_failed_def)
  qed (rule preparing_prepared)
  have 5: "spec q (prepared t0 ?tx) (ret ?tx) ?Q ?I" by (rule spec_ret) simp
  have body: "spec q (fresh_start t0 NoJournal) (seqIO (create_journal ?tx Preparing) (seqIO (set_memory (\<lambda>s. s\<lparr>st_journal_created := True\<rparr>))
         (seqIO (eachIO stage_view (selected op raws)) (seqIO (write_journal ?tx Prepared) (ret ?tx))))) ?Q ?I"
    by (rule spec_bind [OF 1], rule spec_bind [OF 2], rule spec_bind [OF 3], rule spec_bind [OF 4 5])
  have ne: "selected op raws \<noteq> []" using sound_parts(1) [OF s] by (auto simp: tidy_transaction_def)
  have i: "?I st" if "fresh_start t0 NoJournal st" for st using that by (simp add: preparation_failed_def)
  show ?thesis unfolding prepare_body_def
  proof (rule spec_tree, rule spec_bind)
    fix t
    let ?P = "\<lambda>st. fresh_start t0 NoJournal st \<and> st_tree st = t"
    show "spec q ?P (lift (foldE (select_step t op) raws ([], []))) (\<lambda>x st. fresh_start t0 NoJournal st \<and> snd x = selected op raws) ?I"
    proof (rule spec_lift)
      show "fresh_start t0 NoJournal st \<and> snd x = selected op raws" if "?P st" "foldE (select_step t op) raws ([], []) = Inr x" for x st
        using that fold_select [of t op raws "[]" "[]" "fst x" "snd x"] by simp
      show "?I st \<and> \<not> q" if "?P st" "foldE (select_step t op) raws ([], []) = Inl e" for e st
        using that sel i by (auto simp: fresh_start_def)
    qed
    show "spec q (\<lambda>st. fresh_start t0 NoJournal st \<and> snd x = selected op raws) (case x of (_, views) \<Rightarrow>
        if views = [] then raise SyncError
        else let views' = map snd views; tx = \<lparr>tx_id = op, tx_views = views', tx_metrics = transaction_metrics_of views'\<rparr>
          in seqIO (create_journal tx Preparing) (seqIO (set_memory (\<lambda>s. s\<lparr>st_journal_created := True\<rparr>))
            (seqIO (eachIO stage_view views) (seqIO (write_journal tx Prepared) (ret tx))))) ?Q ?I" for x
    proof (rule spec_fact [where A = "snd x = selected op raws"])
      assume x: "snd x = selected op raws"
      show "spec q (\<lambda>st. fresh_start t0 NoJournal st \<and> snd x = selected op raws) (case x of (_, views) \<Rightarrow>
        if views = [] then raise SyncError
        else let views' = map snd views; tx = \<lparr>tx_id = op, tx_views = views', tx_metrics = transaction_metrics_of views'\<rparr>
          in seqIO (create_journal tx Preparing) (seqIO (set_memory (\<lambda>s. s\<lparr>st_journal_created := True\<rparr>))
            (seqIO (eachIO stage_view views) (seqIO (write_journal tx Prepared) (ret tx))))) ?Q ?I"
      proof -
        obtain sn where sn: "x = (sn, selected op raws)" using x by (cases x) auto
        from ne spec_pre [OF body, of "\<lambda>st. fresh_start t0 NoJournal st \<and> snd x = selected op raws"]
        show ?thesis by (simp add: sn planned_def Let_def)
      qed
    qed blast
  qed
qed

subsection \<open>Failure and interruption\<close>

text \<open>Where a preparation stops: nothing begun, a torn journal, a transaction to recover, or all of it undone.\<close>

definition preparation_stopped :: "tree \<Rightarrow> transaction \<Rightarrow> state \<Rightarrow> bool" where
  "preparation_stopped t0 tx s \<longleftrightarrow> st_tree s = t0 \<and> (st_journal s = NoJournal \<or> st_journal s = torn)
     \<or> interrupted t0 tx Preparing s \<or> rolled_back t0 tx s"

lemma preparing_interrupted: "preparing t0 tx V W s \<Longrightarrow> interrupted t0 tx Preparing s"
  unfolding interrupted_def by (rule disjI1, rule holding_mono [OF preparing_holding]) (auto simp: none_of_def begun_def flags_def journal_is_def)

lemma failed_stopped: "preparation_failed t0 tx s \<Longrightarrow> preparation_stopped t0 tx s"
  using preparing_interrupted by (auto simp: preparation_failed_def preparation_stopped_def fresh_start_def)

lemma preparing_clearable:
  assumes s: "sound_transaction t0 tx" and p: "\<And>r. prefix p r \<Longrightarrow> is_owned tx r"
  shows "clearable p (preparing t0 tx {} {})"
proof -
  have "clearable p (holding t0 tx (change tx) (within {} tx) (begun tx))"
    by (rule clearable_owned [OF s p]) (auto simp: within_def)
  moreover have "clearable p (recorded tx)"
    unfolding clearable_def
  proof (intro allI impI)
    fix st r t assume rec: "recorded tx st" and l: "lookup t = (lookup (st_tree st))(r := None)"
    have "lookup (st_tree st) x \<noteq> None" if "lookup t x \<noteq> None" for x using that l by (auto split: if_splits)
    then show "recorded tx (st\<lparr>st_tree := t\<rparr>)" using rec unfolding recorded_def by simp
  qed
  ultimately show ?thesis using clearable_and unfolding preparing_def by fastforce
qed

lemma spec_remove_created:
  assumes s: "sound_transaction t0 tx" and p: "p \<noteq> []" "\<And>r. prefix p r \<Longrightarrow> is_owned tx r"
  shows "spec False (\<lambda>st. preparing t0 tx {} {} st \<and> st_created st = cs \<and> (\<forall>x \<in> A. lookup (st_tree st) x = None)) (remove_created p)
    (\<lambda>b st. preparing t0 tx {} {} st \<and> st_created st = cs \<and> (\<forall>x \<in> A. lookup (st_tree st) x = None) \<and> (b \<longrightarrow> lookup (st_tree st) p = None))
    (preparing t0 tx {} {})"
proof -
  let ?P = "\<lambda>st. preparing t0 tx {} {} st \<and> st_created st = cs \<and> (\<forall>x \<in> A. lookup (st_tree st) x = None)"
  have cl: "clearable p ?P"
    by (intro clearable_and preparing_clearable [OF s p(2)]) (auto simp: clearable_def)
  have r: "spec False ?P (remove_owned_tree p) (\<lambda>_ st. ?P st \<and> lookup (st_tree st) p = None) ?P"
    by (rule spec_remove_owned_tree [OF p(1) cl]) (auto intro: holding_wf preparing_holding)
  show ?thesis unfolding remove_created_def
  proof (rule spec_catch)
    show "spec False ?P (seqIO (remove_owned_tree p) (ret True)) (\<lambda>b st. preparing t0 tx {} {} st \<and> st_created st = cs
        \<and> (\<forall>x \<in> A. lookup (st_tree st) x = None) \<and> (b \<longrightarrow> lookup (st_tree st) p = None)) ?P"
      by (rule spec_bind [OF r]) (auto intro: spec_ret)
    show "spec False ?P (if e = OsFailure then ret False else raise e) (\<lambda>b st. preparing t0 tx {} {} st \<and> st_created st = cs
        \<and> (\<forall>x \<in> A. lookup (st_tree st) x = None) \<and> (b \<longrightarrow> lookup (st_tree st) p = None)) (preparing t0 tx {} {})" for e
      by (auto intro: spec_ret spec_raise)
  qed blast
qed

lemma spec_abort_preparing:
  assumes s: "sound_transaction t0 tx"
  shows "spec False (preparing t0 tx {} {}) (abort_preparation e) (\<lambda>_ _. False) (preparation_stopped t0 tx)"
  unfolding abort_preparation_def
proof (rule spec_state)
  fix st assume st: "preparing t0 tx {} {} st"
  let ?cs = "st_created st" and ?I = "preparation_stopped t0 tx" and ?K = "preparing t0 tx {} {}"
  have own: "p \<noteq> [] \<and> (\<forall>r. prefix p r \<longrightarrow> is_owned tx r)" if p: "p \<in> set ?cs" for p
  proof -
    from st p obtain v where v: "v \<in> set (tx_views tx)" "p = pv_stage v \<or> p = pv_candidate v" by (auto simp: preparing_def recorded_def)
    have "p \<noteq> []" using slots_view [OF s v(1)] v(2) by (auto simp: slots_def)
    with v show ?thesis by (auto simp: is_owned_def)
  qed
  have ki: "?I x" if "?K x" for x using that failed_stopped by (simp add: preparation_failed_def)
  let ?J = "\<lambda>(pre :: path list) (bs :: bool list) x. ?K x \<and> st_created x = ?cs \<and> (\<forall>p \<in> (if \<forall>b \<in> set bs. b then set pre else {}). lookup (st_tree x) p = None)"
  have c: "spec False (?J [] []) (collectIO remove_created (rev ?cs)) (\<lambda>bs. ?J (rev ?cs) bs) ?I"
  proof (rule spec_collect [where J = ?J])
    fix pre p post and bs :: "bool list" assume e: "rev ?cs = pre @ p # post"
    then have "p \<in> set (rev ?cs)" by simp
    then have p: "p \<noteq> []" "\<And>r. prefix p r \<Longrightarrow> is_owned tx r" using own by auto
    show "spec False (?J pre bs) (remove_created p) (\<lambda>b. ?J (pre @ [p]) (bs @ [b])) ?I"
      by (rule spec_conseq [OF spec_remove_created [OF s p, where cs = ?cs and A = "if \<forall>b \<in> set bs. b then set pre else {}"]])
        (auto intro: ki split: if_splits)
  qed
  have rest: "spec False (?J (rev ?cs) bs) (seqIO (if st_journal_created st \<and> (\<forall>b \<in> set bs. b) then durable_unlink else ret ())
       (if \<forall>b \<in> set bs. b then raise e else raise SyncError)) (\<lambda>_ _. False) ?I" for bs
  proof (rule spec_bind [where Q = "\<lambda>_. ?I"])
    show "spec False ?I (if \<forall>b \<in> set bs. b then raise e else raise SyncError) (\<lambda>_ _. False) ?I" for u :: unit
      by (auto intro: spec_raise)
    have jc: "st_journal_created st" using preparing_holding [OF st] by (simp add: holding_def begun_def)
    show "spec False (?J (rev ?cs) bs) (if st_journal_created st \<and> (\<forall>b \<in> set bs. b) then durable_unlink else ret ()) (\<lambda>_. ?I) ?I"
    proof (rule spec_if)
      assume b: "st_journal_created st \<and> (\<forall>b \<in> set bs. b)"
      show "spec False (?J (rev ?cs) bs) durable_unlink (\<lambda>_. ?I) ?I"
      proof (rule spec_durable_unlink)
        fix x assume x: "?J (rev ?cs) bs x"
        then have k: "?K x" and gone: "\<And>p. p \<in> set ?cs \<Longrightarrow> lookup (st_tree x) p = None" and cr: "st_created x = ?cs" using b by auto
        note h = preparing_holding [OF k]
        show "st_journal x \<noteq> OddJournal" using h by (simp add: holding_def begun_def flags_def journal_of_def)
        show "?I x" by (rule ki [OF k])
        have own_gone: "lookup (st_tree x) p = None" if "v \<in> set (tx_views tx)" "p = pv_stage v \<or> p = pv_candidate v" for v p
        proof (rule ccontr)
          assume "lookup (st_tree x) p \<noteq> None"
          then have "p \<in> set (st_created x)" using k that unfolding preparing_def recorded_def by blast
          with gone cr \<open>lookup (st_tree x) p \<noteq> None\<close> show False by simp
        qed
        have "rolled_back t0 tx (x\<lparr>st_journal := NoJournal\<rparr>)"
          using h own_gone by (simp add: rolled_back_def holding_def between_def)
        then show "?I (x\<lparr>st_journal := NoJournal\<rparr>)" by (simp add: preparation_stopped_def)
      qed
    next
      show "spec False (?J (rev ?cs) bs) (ret ()) (\<lambda>_. ?I) ?I" by (rule spec_ret) (use ki in blast)
    qed
  qed
  show "spec False (\<lambda>x. x = st) (bindIO (collectIO remove_created (rev ?cs)) (\<lambda>removed.
     seqIO (if st_journal_created st \<and> (\<forall>b \<in> set removed. b) then durable_unlink else ret ())
       (if \<forall>b \<in> set removed. b then raise e else raise SyncError))) (\<lambda>_ _. False) ?I"
    by (rule spec_pre [OF spec_bind [OF c rest]]) (use st in auto)
qed

lemma spec_abort:
  assumes s: "sound_transaction t0 tx"
  shows "spec False (preparation_failed t0 tx) (abort_preparation e) Q (preparation_stopped t0 tx)"
proof -
  have "spec False (fresh_start t0 j) (abort_preparation e) Q (preparation_stopped t0 tx)" if "j = NoJournal \<or> j = torn" for j
    unfolding abort_preparation_def
    by (rule spec_state) (use that in \<open>auto simp: fresh_start_def preparation_stopped_def intro!: spec_raise\<close>)
  moreover have "spec False (preparing t0 tx {} {}) (abort_preparation e) Q (preparation_stopped t0 tx)"
    by (rule spec_post [OF spec_abort_preparing [OF s]]) simp
  ultimately show ?thesis unfolding preparation_failed_def spec_def by blast
qed

text \<open>The preparation of a selected transaction, from a tree without a journal.\<close>

lemma spec_prepare_transaction:
  assumes s: "sound_transaction t0 (planned op raws)" and src: "q \<Longrightarrow> sources t0 op raws"
    and sel: "q \<Longrightarrow> \<exists>x. foldE (select_step t0 op) raws ([], []) = Inr x"
  shows "spec q (\<lambda>st. st_tree st = t0 \<and> st_journal st = NoJournal) (prepare_transaction op raws)
     (\<lambda>tx st. tx = planned op raws \<and> prepared t0 tx st) (preparation_stopped t0 (planned op raws))"
proof -
  let ?tx = "planned op raws" and ?I = "preparation_stopped t0 (planned op raws)"
  have op: "is_operation_id op" and ne: "raws \<noteq> []" using sound_parts(1) [OF s] by (auto simp: tidy_transaction_def selected_def)
  let ?start = "\<lambda>s :: state. s\<lparr>st_created := [], st_journal_created := False, st_touched := False, st_finished := False\<rparr>"
  let ?Q = "\<lambda>tx st. tx = ?tx \<and> prepared t0 tx st"
  have 1: "spec q (\<lambda>st. st_tree st = t0 \<and> st_journal st = NoJournal) (set_memory ?start) (\<lambda>_. fresh_start t0 NoJournal) ?I"
    by (rule spec_memory) (simp add: fresh_start_def)
  have 2: "spec q (fresh_start t0 NoJournal) (catchIO (prepare_body op raws) abort_preparation) ?Q ?I"
    by (rule spec_catch [OF spec_prepare_body [OF s src sel]]) (use spec_abort [OF s] failed_stopped in auto)
  have 3: "spec q (\<lambda>st. st_tree st = t0 \<and> st_journal st = NoJournal) (seqIO (set_memory ?start) (catchIO (prepare_body op raws) abort_preparation)) ?Q ?I"
    by (rule spec_bind [OF 1 2])
  show ?thesis unfolding prepare_transaction_def using op ne
    by (simp, intro spec_state, elim conjE, simp) (rule spec_pre [OF 3], simp)
qed

end
