(* ===== verification/TransactionFinalize.thy ===== *)
theory TransactionFinalize
  imports TransactionPrepare
begin

text \<open>
  The finalization of a promoted transaction: each backup becomes the previous version of its view, then
  the owned directories and the journal go.  It can be interrupted and repeated, and recovery finalizes
  when the receipt of the operation is there.
\<close>

subsection \<open>Moving a directory\<close>

lemma butlast_up: "prefix p (butlast c) \<Longrightarrow> prefix p c"
  by (meson prefix_order.trans prefixeq_butlast)

lemma replace_dirD:
  assumes m: "replace_dir source target t = Some t'" and w: "wf_tree t"
  shows "lookup t' p = (if prefix target p then lookup t (source @ drop (length target) p) else if prefix source p then None else lookup t p)"
    and "wf_tree t'"
proof -
  have src: "source \<noteq> []" "is_dir t source" and tgt: "lookup t target = None" "is_dir t (butlast target)" "\<not> prefix source target"
    and t': "t' = map (\<lambda>(p, n). (moved source target p, n)) t" using m by (auto simp: replace_dir_def split: if_splits)
  have ne: "target \<noteq> []" using tgt(1) by auto
  have nts: "\<not> prefix target source"
  proof
    assume "prefix target source"
    then have "strict_prefix target source" using tgt(3) by (auto simp: strict_prefix_def)
    then have "is_dir t target" using wf_ancestor [OF w, of source Directory target] src(2) by (simp add: is_dir_def)
    with tgt(1) show False by (simp add: is_dir_def)
  qed
  have free: "lookup t p = None" if "prefix target p" for p
    using that tgt(1) wf_leaf [OF w, of target p] by (cases "p = target") (auto simp: is_dir_def strict_prefix_def)
  have key: "k \<noteq> [] \<and> lookup t k = Some n \<and> \<not> prefix target k" if "(k, n) \<in> set t" for k n
  proof -
    have k: "k \<noteq> []" using w that by (force simp: wf_tree_def)
    moreover from this have l: "lookup t k = Some n" using w that by (simp add: lookup_def wf_tree_def)
    ultimately show ?thesis using free by force
  qed
  have same: "k = k'" if "(k, n) \<in> set t" "(k', n') \<in> set t" "moved source target k = moved source target k'" for k k' n n'
  proof -
    have "moved source target x = x \<or> prefix source x \<and> moved source target x = target @ drop (length source) x" for x by (simp add: moved_def)
    with key [OF that(1)] key [OF that(2)] that(3) show ?thesis
      by (auto simp: moved_def prefix_def split: if_splits)
  qed
  have d': "distinct (map fst t')"
  proof -
    have "inj_on (moved source target) (set (map fst t))" using same by (force simp: inj_on_def)
    then have "distinct (map (moved source target) (map fst t))"
      unfolding distinct_map [of "moved source target" "map fst t"] using wf_distinct [OF w] by blast
    moreover have "map fst t' = map (moved source target) (map fst t)" by (auto simp: t' case_prod_beta)
    ultimately show ?thesis by simp
  qed
  have look: "lookup t' p = (if prefix target p then lookup t (source @ drop (length target) p) else if prefix source p then None else lookup t p)" for p
  proof (cases "p = []")
    case True
    then show ?thesis using ne src(1) by simp
  next
    case False
    have iff: "lookup t' p = Some n \<longleftrightarrow> (\<exists>k. (k, n) \<in> set t \<and> p = moved source target k)" for n
      using d' False by (auto simp: lookup_def t')
    have mem: "(k, n) \<in> set t \<longleftrightarrow> k \<noteq> [] \<and> lookup t k = Some n" for k n
      using key w by (auto simp: lookup_def wf_tree_def)
    show ?thesis
    proof (cases "prefix target p")
      case True
      then obtain r where r: "p = target @ r" by (auto simp: prefix_def)
      have "lookup t' p = Some n \<longleftrightarrow> lookup t (source @ r) = Some n" for n
      proof
        assume "lookup t' p = Some n"
        then obtain k where k: "(k, n) \<in> set t" "p = moved source target k" using iff by blast
        then have "prefix source k" using key [OF k(1)] True by (auto simp: moved_def split: if_splits)
        then obtain x where "k = source @ x" by (auto simp: prefix_def)
        with k r key [OF k(1)] show "lookup t (source @ r) = Some n" by (simp add: moved_def)
      next
        assume "lookup t (source @ r) = Some n"
        then have "(source @ r, n) \<in> set t" using mem src(1) by simp
        moreover have "p = moved source target (source @ r)" by (simp add: moved_def r)
        ultimately show "lookup t' p = Some n" using iff by blast
      qed
      then show ?thesis using True r by (cases "lookup t' p"; cases "lookup t (source @ r)") auto
    next
      case np: False
      have char: "lookup t' p = Some n \<longleftrightarrow> \<not> prefix source p \<and> lookup t p = Some n" for n
      proof
        assume "lookup t' p = Some n"
        then obtain k where k: "(k, n) \<in> set t" "p = moved source target k" using iff by blast
        then have "\<not> prefix source k" using np by (auto simp: moved_def split: if_splits)
        then show "\<not> prefix source p \<and> lookup t p = Some n" using k key [OF k(1)] by (simp add: moved_def)
      next
        assume a: "\<not> prefix source p \<and> lookup t p = Some n"
        then have "(p, n) \<in> set t" using mem False by simp
        moreover have "p = moved source target p" using a by (simp add: moved_def)
        ultimately show "lookup t' p = Some n" using iff by blast
      qed
      have "lookup t' p = (if prefix source p then None else lookup t p)"
      proof (cases "prefix source p")
        case True
        then show ?thesis using char [of "the (lookup t' p)"] by (cases "lookup t' p") simp_all
      next
        case False
        then show ?thesis using char [of "the (lookup t' p)"] char [of "the (lookup t p)"] by (cases "lookup t' p"; cases "lookup t p") simp_all
      qed
      then show ?thesis using np by simp
    qed
  qed
  then show "lookup t' p = (if prefix target p then lookup t (source @ drop (length target) p) else if prefix source p then None else lookup t p)" .
  show "wf_tree t'"
    unfolding wf_tree_iff
  proof (intro conjI allI impI)
    show "distinct (map fst t')" by (rule d')
    have "moved source target k \<noteq> []" if "(k, n) \<in> set t" for k n using key [OF that] ne by (simp add: moved_def)
    then show "[] \<notin> fst ` set t'" by (force simp: t')
    fix p n assume p: "p \<noteq> []" and l: "lookup t' p = Some n"
    show "is_dir t' (butlast p)"
    proof (cases "prefix target p")
      case True
      then obtain r where r: "p = target @ r" by (auto simp: prefix_def)
      show ?thesis
      proof (cases "r = []")
        case True
        have "\<not> prefix target (butlast target)" using ne by (metis butlast_neq prefix_order.antisym prefixeq_butlast)
        moreover have "\<not> prefix source (butlast target)" using tgt(3) butlast_up by blast
        ultimately show ?thesis using tgt(2) by (simp add: True r is_dir_def look)
      next
        case False
        have "lookup t (source @ r) = Some n" using l by (simp add: look r)
        from wf_parent [OF w this] show ?thesis using False src(1) by (simp add: r butlast_append is_dir_def look)
      qed
    next
      case False
      then have s: "\<not> prefix source p" "lookup t p = Some n" using l by (auto simp: look split: if_splits)
      have "\<not> prefix target (butlast p)" "\<not> prefix source (butlast p)" using False s(1) butlast_up by blast+
      then show ?thesis using wf_parent [OF w s(2) p] by (simp add: is_dir_def look)
    qed
  qed
qed

subsection \<open>Exact owned directories\<close>

definition exact :: "tree \<Rightarrow> path \<Rightarrow> manifest \<Rightarrow> bool" where
  "exact t root m \<longleftrightarrow> is_dir t root \<and> (\<forall>p. strict_prefix root p \<longrightarrow> open_way t p \<or> (\<exists>(r, a) \<in> set m. p = root @ tail_parts r))
     \<and> (\<forall>(r, a) \<in> set m. is_canonical r \<and> holds_version t (root @ tail_parts r) (Some a))"

lemma exact_moved:
  assumes "exact t1 r1 m" and "\<And>p. lookup t (r @ p) = lookup t1 (r1 @ p)"
  shows "exact t r m"
proof -
  have "is_dir t r" using assms(1) assms(2) [of "[]"] by (simp add: exact_def is_dir_def)
  moreover have "open_way t p \<or> (\<exists>(k, a) \<in> set m. p = r @ tail_parts k)" if p: "strict_prefix r p" for p
  proof -
    from p obtain x where x: "p = r @ x" "x \<noteq> []" by (auto simp: strict_prefix_def prefix_def)
    have "strict_prefix r1 (r1 @ x)" using x(2) by (simp add: strict_prefix_def)
    then have "open_way t1 (r1 @ x) \<or> (\<exists>(k, a) \<in> set m. r1 @ x = r1 @ tail_parts k)"
      using assms(1) unfolding exact_def by blast
    then show ?thesis using assms(2) [of x] x(1) by (auto simp: open_way_def)
  qed
  moreover have "holds_version t (r @ tail_parts k) v \<longleftrightarrow> holds_version t1 (r1 @ tail_parts k) v" for k v
    using assms(2) [of "tail_parts k"] by (cases v) (auto simp: holds_version_def content_def present_def)
  ultimately show ?thesis using assms(1) by (simp add: exact_def)
qed

lemma exact_names:
  assumes e: "exact t root m" and w: "wf_tree t"
  shows "join ''/'' ` drop (length root) ` fst ` set (filter (\<lambda>(p, n). n \<noteq> Directory) (below root t)) = fst ` set m"
    and "\<not> (\<exists>(p, n) \<in> set (below root t). n = Link)"
proof -
  have entry: "\<exists>(r, a) \<in> set m. p = root @ tail_parts r \<and> content t p \<noteq> None" if "(p, n) \<in> set (below root t)" "n \<noteq> Directory" for p n
  proof -
    have p: "strict_prefix root p" "(p, n) \<in> set t" using that(1) by (auto simp: below_def)
    then have "lookup t p = Some n" using w by (auto simp: lookup_def wf_tree_def)
    then have "\<not> open_way t p" using that(2) by (simp add: open_way_def)
    then obtain r a where r: "(r, a) \<in> set m" "p = root @ tail_parts r" using e p(1) unfolding exact_def by blast
    then have "holds_version t p (Some a)" using e by (auto simp: exact_def)
    with r show ?thesis by (auto simp: holds_Some)
  qed
  show "\<not> (\<exists>(p, n) \<in> set (below root t). n = Link)"
  proof
    assume "\<exists>(p, n) \<in> set (below root t). n = Link"
    then obtain p where p: "(p, Link) \<in> set (below root t)" by blast
    then have "content t p \<noteq> None" using entry by fastforce
    moreover have "lookup t p = Some Link" using p w by (auto simp: below_def lookup_def wf_tree_def)
    ultimately show False by (simp add: content_def)
  qed
  show "join ''/'' ` drop (length root) ` fst ` set (filter (\<lambda>(p, n). n \<noteq> Directory) (below root t)) = fst ` set m"
  proof (intro set_eqI iffI)
    fix x assume "x \<in> join ''/'' ` drop (length root) ` fst ` set (filter (\<lambda>(p, n). n \<noteq> Directory) (below root t))"
    then obtain p n where p: "(p, n) \<in> set (below root t)" "n \<noteq> Directory" "x = join ''/'' (drop (length root) p)" by auto
    then obtain r a where r: "(r, a) \<in> set m" "p = root @ tail_parts r" using entry by blast
    then have "is_canonical r" using e by (auto simp: exact_def)
    with p(3) r show "x \<in> fst ` set m" using is_canonicalD(4) [of r] by force
  next
    fix x assume "x \<in> fst ` set m"
    then obtain a where r: "(x, a) \<in> set m" by auto
    then have c: "is_canonical x" and h: "holds_version t (root @ tail_parts x) (Some a)" using e by (auto simp: exact_def)
    then obtain b where b: "lookup t (root @ tail_parts x) = Some (File b)" by (auto simp: holds_Some content_iff)
    then have "(root @ tail_parts x, File b) \<in> set t" using is_canonicalD(2) [OF c] by (auto simp: lookup_def dest: map_of_SomeD split: if_splits)
    then have "(root @ tail_parts x, File b) \<in> set (below root t)" using is_canonicalD(2) [OF c] by (auto simp: below_def strict_prefix_def)
    moreover have "x = join ''/'' (drop (length root) (root @ tail_parts x))" using is_canonicalD(4) [OF c] by simp
    ultimately show "x \<in> join ''/'' ` drop (length root) ` fst ` set (filter (\<lambda>(p, n). n \<noteq> Directory) (below root t))" by force
  qed
qed

lemma spec_verify_exact:
  assumes i: "\<And>st. P st \<Longrightarrow> I st"
    and q: "\<And>st. q \<Longrightarrow> P st \<Longrightarrow> exact (st_tree st) root m \<and> wf_tree (st_tree st) \<and> root \<noteq> [] \<and> (\<forall>c. prefix c root \<longrightarrow> open_way (st_tree st) c)"
  shows "spec q P (verify_owned_exact root m) (\<lambda>_. P) I"
  unfolding verify_owned_exact_def
proof (rule spec_tree, rule spec_bind)
  fix t
  let ?P = "\<lambda>st. P st \<and> st_tree st = t"
  show "spec q ?P (lift (validated_root t root)) (\<lambda>x st. ?P st \<and> x = root) I"
    by (rule spec_root) (use i q in blast)+
  fix x
  let ?m = "if \<not> is_dir t x then raise VerificationError
     else if \<exists>(p, n) \<in> set (below x t). n = Link then raise VerificationError
     else if join ''/'' ` drop (length x) ` fst ` set (filter (\<lambda>(p, n). n \<noteq> Directory) (below x t)) \<noteq> fst ` set m
     then raise VerificationError
     else verify_manifest x m"
  have no: "spec q ?P (raise VerificationError) (\<lambda>_. P) I" if "\<And>st. q \<Longrightarrow> ?P st \<Longrightarrow> False"
    by (rule spec_reject) (use i that in blast)+
  show "spec q (\<lambda>st. ?P st \<and> x = root) ?m (\<lambda>_. P) I"
  proof (rule spec_fact [where A = "x = root"], blast)
    assume x: "x = root"
    have "spec q ?P ?m (\<lambda>_. P) I"
    proof (intro spec_if)
      show "spec q ?P (raise VerificationError) (\<lambda>_. P) I" if "\<not> is_dir t x"
        by (rule no) (use q that x in \<open>auto simp: exact_def\<close>)
      have ok: "\<not> (\<exists>(p, n) \<in> set (below x t). n = Link)
          \<and> join ''/'' ` drop (length x) ` fst ` set (filter (\<lambda>(p, n). n \<noteq> Directory) (below x t)) = fst ` set m" if "q" "?P st" for st
      proof -
        have "exact t root m" "wf_tree t" using q [OF that(1)] that(2) by auto
        from exact_names [OF this] show ?thesis unfolding x by (intro conjI)
      qed
      show "spec q ?P (raise VerificationError) (\<lambda>_. P) I" if "\<exists>(p, n) \<in> set (below x t). n = Link"
        by (rule no) (drule (1) ok, use that in simp)
      show "spec q ?P (raise VerificationError) (\<lambda>_. P) I"
        if "join ''/'' ` drop (length x) ` fst ` set (filter (\<lambda>(p, n). n \<noteq> Directory) (below x t)) \<noteq> fst ` set m"
        by (rule no) (drule (1) ok, use that in simp)
      have "spec q ?P (verify_manifest root m) (\<lambda>_. ?P) I" unfolding verify_manifest_def
      proof (rule spec_each_keep)
        fix e assume e: "e \<in> set m"
        obtain r a where ra: "e = (r, a)" by (cases e)
        have h: "is_canonical r \<and> holds_version t (root @ tail_parts r) (Some a) \<and> wf_tree t \<and> root \<noteq> []" if q "?P st" for st
        proof -
          have "exact t root m" "wf_tree t" "root \<noteq> []" using q [OF that(1)] that(2) by auto
          then show ?thesis using e unfolding ra exact_def by blast
        qed
        have way: "reachable_target (st_tree st) root r" if "q" "?P st" for st
        proof -
          note h = h [OF that]
          then obtain b where "lookup t (root @ tail_parts r) = Some (File b)" by (auto simp: holds_Some content_iff)
          with wf_ancestor [of t "root @ tail_parts r"] h that show ?thesis by (auto simp: reachable_target_def open_way_def is_dir_def)
        qed
        have 1: "spec q ?P (safe_target root r False) (\<lambda>p st. ?P st \<and> p = root @ tail_parts r) I"
          by (rule spec_post [OF spec_safe_target_read]) (use i way in auto)
        have 2: "spec q ?P (verify_one (root @ tail_parts r) a) (\<lambda>_. ?P) I"
          by (rule spec_post [OF spec_verify_one]) (use i h in auto)
        have "spec q (\<lambda>st. ?P st \<and> p = root @ tail_parts r) (verify_one p a) (\<lambda>_. ?P) I" for p
          by (rule spec_fact [where A = "p = root @ tail_parts r"]) (use 2 in \<open>auto intro: spec_pre\<close>)
        then show "spec q ?P (case e of (relative, a) \<Rightarrow> bindIO (safe_target root relative False) (\<lambda>p. verify_one p a)) (\<lambda>_. ?P) I"
          unfolding ra prod.case by (rule spec_bind [OF 1])
      qed
      then show "spec q ?P (verify_manifest x m) (\<lambda>_. P) I" unfolding x by (rule spec_post) simp
    qed
    then show "spec q (\<lambda>st. ?P st \<and> x = root) ?m (\<lambda>_. P) I" by (rule spec_pre) blast
  qed
qed

subsection \<open>States of a finalization\<close>

text \<open>
  Relative to the tree \<open>t1\<close> of the promoted transaction: the owned directories and the previous
  versions may differ from it.  The backup of a view is untouched, or it has become the previous version.
\<close>

definition outside :: "transaction \<Rightarrow> path \<Rightarrow> bool" where
  "outside tx p \<longleftrightarrow> \<not> is_owned tx p \<and> (\<forall>v \<in> set (tx_views tx). \<not> prefix (pv_previous v) p)"

definition kept :: "tree \<Rightarrow> prepared_view \<Rightarrow> tree \<Rightarrow> bool" where
  "kept t1 v t \<longleftrightarrow> (\<forall>p. lookup t (pv_candidate v @ p) = lookup t1 (pv_candidate v @ p))"

definition installed :: "tree \<Rightarrow> prepared_view \<Rightarrow> tree \<Rightarrow> bool" where
  "installed t1 v t \<longleftrightarrow> lookup t (pv_candidate v) = None \<and> (\<forall>p. lookup t (pv_previous v @ p) = lookup t1 (pv_candidate v @ p))"

definition reshaped :: "tree \<Rightarrow> transaction \<Rightarrow> prepared_view set \<Rightarrow> tree \<Rightarrow> bool" where
  "reshaped t1 tx V t \<longleftrightarrow> wf_tree t \<and> (\<forall>p. outside tx p \<longrightarrow> lookup t p = lookup t1 p)
     \<and> (\<forall>v \<in> set (tx_views tx). open_way t (pv_stage v) \<and> open_way t (pv_previous v) \<and> (installed t1 v t \<or> v \<notin> V \<and> kept t1 v t))"

definition finalizing :: "tree \<Rightarrow> transaction \<Rightarrow> prepared_view set \<Rightarrow> state \<Rightarrow> bool" where
  "finalizing t1 tx V s \<longleftrightarrow> reshaped t1 tx V (st_tree s) \<and> st_journal s = journal_of tx Promoted"

definition finalized :: "tree \<Rightarrow> transaction \<Rightarrow> state \<Rightarrow> bool" where
  "finalized t1 tx s \<longleftrightarrow> wf_tree (st_tree s) \<and> (\<forall>p. outside tx p \<longrightarrow> lookup (st_tree s) p = lookup t1 p)
     \<and> (\<forall>v \<in> set (tx_views tx). installed t1 v (st_tree s) \<and> lookup (st_tree s) (pv_stage v) = None) \<and> st_journal s = NoJournal"

text \<open>The tree of a promoted transaction: complete backups, nothing in the way.\<close>

definition finalizable :: "tree \<Rightarrow> transaction \<Rightarrow> bool" where
  "finalizable t1 tx \<longleftrightarrow> (\<forall>v \<in> set (tx_views tx). exact t1 (pv_candidate v) (pv_current v))
     \<and> (\<forall>p. above_target tx p \<longrightarrow> open_way t1 p)"

lemma reshaped_none: "reshaped t1 tx V t \<Longrightarrow> reshaped t1 tx {} t"
  by (auto simp: reshaped_def)

lemma above_outside:
  assumes s: "sound_transaction t0 tx" and v: "v \<in> set (tx_views tx)" and c: "strict_prefix c (pv_candidate v) \<or> strict_prefix c (pv_previous v)"
  shows "outside tx c" and "above_target tx c"
proof -
  have t: "tidy_view (tx_id tx) v" by (rule sound_view [OF s v])
  have "prefix c (butlast (pv_root v))"
    using c t by (auto simp: tidy_view_def candidate_path_def previous_path_def strict_prefix_def)
  then have "prefix c (butlast (pv_stage v))" and ne: "pv_stage v \<noteq> []" using t by (auto simp: tidy_view_def stage_path_def)
  then have "strict_prefix c (pv_stage v)" by (metis butlast_neq prefix_order.antisym prefix_order.le_less prefix_order.trans prefixeq_butlast)
  then show a: "above_target tx c" using above_owned [OF s v] by blast
  have "\<not> prefix (pv_previous w) c" if w: "w \<in> set (tx_views tx)" for w
  proof
    assume p: "prefix (pv_previous w) c"
    from a obtain u r where u: "change tx u r" "strict_prefix c (live u r)" by (auto simp: above_target_def)
    have "prefix (pv_previous w) (live u r)" using p u(2) by (meson prefix_order.less_imp_le prefix_order.trans)
    with area_kinds(6) [OF s _ w, of u "live u r"] u(1) show False by (auto simp: change_def)
  qed
  with above_not_owned [OF s a] show "outside tx c" by (auto simp: outside_def)
qed

lemma reshaped_way:
  assumes s: "sound_transaction t0 tx" and f: "finalizable t1 tx" and r: "reshaped t1 tx V t" and v: "v \<in> set (tx_views tx)"
  shows "kept t1 v t \<Longrightarrow> exact t (pv_candidate v) (pv_current v) \<and> wf_tree t \<and> pv_candidate v \<noteq> [] \<and> (\<forall>c. prefix c (pv_candidate v) \<longrightarrow> open_way t c)"
    and "installed t1 v t \<Longrightarrow> exact t (pv_previous v) (pv_current v) \<and> wf_tree t \<and> pv_previous v \<noteq> [] \<and> (\<forall>c. prefix c (pv_previous v) \<longrightarrow> open_way t c)"
proof -
  have e: "exact t1 (pv_candidate v) (pv_current v)" using f v by (simp add: finalizable_def)
  have w: "wf_tree t" using r by (simp add: reshaped_def)
  have ne: "pv_candidate v \<noteq> []" "pv_previous v \<noteq> []" using sound_view [OF s v] by (auto simp: tidy_view_def candidate_path_def previous_path_def)
  have up: "open_way t c" if "strict_prefix c (pv_candidate v) \<or> strict_prefix c (pv_previous v)" for c
    using above_outside [OF s v that] f r by (simp add: reshaped_def finalizable_def open_way_def)
  have way: "open_way t c" if "exact t root m" "prefix c root" "root = pv_candidate v \<or> root = pv_previous v" for c root m
    using that up [of c] by (cases "c = root") (auto simp: exact_def is_dir_def open_way_def strict_prefix_def)
  show "kept t1 v t \<Longrightarrow> exact t (pv_candidate v) (pv_current v) \<and> wf_tree t \<and> pv_candidate v \<noteq> [] \<and> (\<forall>c. prefix c (pv_candidate v) \<longrightarrow> open_way t c)"
  proof -
    assume "kept t1 v t"
    then have "exact t (pv_candidate v) (pv_current v)" by (intro exact_moved [OF e]) (simp add: kept_def)
    then show ?thesis using w ne way by blast
  qed
  show "installed t1 v t \<Longrightarrow> exact t (pv_previous v) (pv_current v) \<and> wf_tree t \<and> pv_previous v \<noteq> [] \<and> (\<forall>c. prefix c (pv_previous v) \<longrightarrow> open_way t c)"
  proof -
    assume "installed t1 v t"
    then have "exact t (pv_previous v) (pv_current v)" by (intro exact_moved [OF e]) (simp add: installed_def)
    then show ?thesis using w ne way by blast
  qed
qed

lemma kept_present: "finalizable t1 tx \<Longrightarrow> v \<in> set (tx_views tx) \<Longrightarrow> kept t1 v t \<Longrightarrow> present t (pv_candidate v)"
proof -
  assume "finalizable t1 tx" and "v \<in> set (tx_views tx)" and k: "kept t1 v t"
  then have "is_dir t1 (pv_candidate v)" by (simp add: finalizable_def exact_def)
  moreover have "lookup t (pv_candidate v) = lookup t1 (pv_candidate v)" using k unfolding kept_def by (metis append_Nil2)
  ultimately show ?thesis by (simp add: present_def is_dir_def)
qed

lemma spec_validate_snapshot:
  assumes s: "sound_transaction t0 tx" and f: "finalizable t1 tx" and v: "v \<in> set (tx_views tx)"
  shows "spec q (finalizing t1 tx V) (validate_finalize_snapshot v) (\<lambda>_. finalizing t1 tx V) (finalizing t1 tx V)"
  unfolding validate_finalize_snapshot_def
proof (rule spec_tree, rule spec_if)
  fix t
  let ?P = "\<lambda>st. finalizing t1 tx V st \<and> st_tree st = t"
  note way = reshaped_way [OF s f _ v]
  have or: "installed t1 v t \<or> kept t1 v t" and r: "reshaped t1 tx V t" if "?P st" for st using that v by (auto simp: finalizing_def reshaped_def)
  show "spec q ?P (verify_owned_exact (pv_candidate v) (pv_current v)) (\<lambda>_. finalizing t1 tx V) (finalizing t1 tx V)" if p: "present t (pv_candidate v)"
  proof (rule spec_post [OF spec_verify_exact [where P = ?P]])
    fix st assume st: "?P st"
    have "kept t1 v t" using or [OF st] p by (auto simp: installed_def present_def)
    from way(1) [OF r [OF st] this] st show "exact (st_tree st) (pv_candidate v) (pv_current v) \<and> wf_tree (st_tree st) \<and> pv_candidate v \<noteq> []
      \<and> (\<forall>c. prefix c (pv_candidate v) \<longrightarrow> open_way (st_tree st) c)" by simp
  qed auto
  show "spec q ?P (verify_owned_exact (pv_previous v) (pv_current v)) (\<lambda>_. finalizing t1 tx V) (finalizing t1 tx V)" if p: "\<not> present t (pv_candidate v)"
  proof (rule spec_post [OF spec_verify_exact [where P = ?P]])
    fix st assume st: "?P st"
    have "installed t1 v t" using or [OF st] p kept_present [OF f v] by blast
    from way(2) [OF r [OF st] this] st show "exact (st_tree st) (pv_previous v) (pv_current v) \<and> wf_tree (st_tree st) \<and> pv_previous v \<noteq> []
      \<and> (\<forall>c. prefix c (pv_previous v) \<longrightarrow> open_way (st_tree st) c)" by simp
  qed auto
qed

subsection \<open>Installing the previous version\<close>

lemma previous_apart:
  assumes s: "sound_transaction t0 tx" and v: "v \<in> set (tx_views tx)" and w: "w \<in> set (tx_views tx)"
  shows "prefix (pv_previous v) p \<Longrightarrow> \<not> is_owned tx p" and "prefix (pv_previous v) p \<Longrightarrow> prefix (pv_previous w) p \<Longrightarrow> v = w"
    and "prefix (pv_candidate v) p \<Longrightarrow> prefix (pv_candidate w) p \<Longrightarrow> v = w"
proof -
  show "prefix (pv_previous v) p \<Longrightarrow> \<not> is_owned tx p" using area_kinds(4,5) [OF s v, of _ p] by (auto simp: is_owned_def)
  show "prefix (pv_previous v) p \<Longrightarrow> prefix (pv_previous w) p \<Longrightarrow> v = w"
    using areas_two [OF sound_parts(3) [OF s] v w, of "pv_previous v" "pv_previous w" p] by (simp add: view_areas_def)
  show "prefix (pv_candidate v) p \<Longrightarrow> prefix (pv_candidate w) p \<Longrightarrow> v = w"
    using areas_two [OF sound_parts(3) [OF s] v w, of "pv_candidate v" "pv_candidate w" p] by (simp add: view_areas_def)
qed

lemma owned_areas: "u \<in> set (tx_views tx) \<Longrightarrow> is_owned tx (pv_candidate u @ x)" "u \<in> set (tx_views tx) \<Longrightarrow> is_owned tx (pv_stage u)"
  unfolding is_owned_def by (meson prefixI) (meson prefix_order.refl)

text \<open>Entries of the previous version of a view go while its backup is untouched.\<close>

lemma reshaped_clear_previous:
  assumes s: "sound_transaction t0 tx" and v: "v \<in> set (tx_views tx)" and r: "reshaped t1 tx V t" and k: "kept t1 v t" and n: "v \<notin> V"
    and p: "prefix (pv_previous v) p" and l: "lookup t' = (lookup t)(p := None)" and w: "wf_tree t'"
  shows "reshaped t1 tx V t' \<and> kept t1 v t'"
proof -
  have own: "\<not> is_owned tx p" by (rule previous_apart(1) [OF s v v p])
  have np: "pv_candidate u @ x \<noteq> p" "pv_stage u \<noteq> p" if "u \<in> set (tx_views tx)" for u x
    using own owned_areas [OF that] by metis+
  have k': "kept t1 u t'" if "u \<in> set (tx_views tx)" "kept t1 u t" for u using that(2) np [OF that(1)] l by (auto simp: kept_def)
  have "installed t1 u t'" if u: "u \<in> set (tx_views tx)" "installed t1 u t" "u \<noteq> v" for u
  proof -
    have "pv_previous u @ x \<noteq> p" for x using previous_apart(2) [OF s v u(1) p] u(3) by (metis prefixI)
    moreover have "lookup t' (pv_candidate u) = lookup t (pv_candidate u)" using np(1) [OF u(1), of "[]"] l by simp
    ultimately show ?thesis using u(2) l by (simp add: installed_def)
  qed
  moreover have "outside tx x \<Longrightarrow> x \<noteq> p" for x using v p by (auto simp: outside_def)
  moreover have "open_way t' x" if "open_way t x" for x using that l by (auto simp: open_way_def)
  ultimately show ?thesis using r w l k' k n v unfolding reshaped_def by (metis fun_upd_other)
qed

lemma reshaped_install:
  assumes s: "sound_transaction t0 tx" and f: "finalizable t1 tx" and v: "v \<in> set (tx_views tx)" and r: "reshaped t1 tx V t" and k: "kept t1 v t"
    and m: "replace_dir (pv_candidate v) (pv_previous v) t = Some t'"
  shows "reshaped t1 tx (insert v V) t'"
proof -
  have w: "wf_tree t" using r by (simp add: reshaped_def)
  note look = replace_dirD(1) [OF m w]
  have ncp: "\<not> prefix (pv_previous v) (pv_candidate v @ x)" for x
    using area_kinds(5) [OF s v v, of "pv_candidate v @ x"] by auto
  have far: "lookup t' p = lookup t p" if "\<not> prefix (pv_candidate v) p" "\<not> prefix (pv_previous v) p" for p using that by (simp add: look)
  have inst: "installed t1 v t'" using ncp [of "[]"] k by (auto simp: installed_def look kept_def)
  have own: "is_owned tx (pv_candidate u @ x)" "is_owned tx (pv_stage u)" if "u \<in> set (tx_views tx)" for u x by (rule owned_areas [OF that])+
  have u: "lookup t' (pv_candidate u @ x) = lookup t (pv_candidate u @ x)" "lookup t' (pv_previous u @ x) = lookup t (pv_previous u @ x)"
    "lookup t' (pv_stage u) = lookup t (pv_stage u)" if u: "u \<in> set (tx_views tx)" "u \<noteq> v" for u x
  proof -
    have 1: "\<not> prefix (pv_candidate v) (pv_candidate u @ x)" using previous_apart(3) [OF s v u(1), of "pv_candidate u @ x"] u(2) by auto
    have 2: "\<not> prefix (pv_previous v) (pv_candidate u @ x)" using previous_apart(1) [OF s v v] own(1) [OF u(1)] by blast
    have 3: "\<not> prefix (pv_candidate v) (pv_previous u @ x)" using previous_apart(1) [OF s u(1) v, of "pv_previous u @ x"] v by (auto simp: is_owned_def)
    have 4: "\<not> prefix (pv_previous v) (pv_previous u @ x)" using previous_apart(2) [OF s v u(1), of "pv_previous u @ x"] u(2) by auto
    have 5: "\<not> prefix (pv_candidate v) (pv_stage u)" using area_kinds(3) [OF s u(1) v, of "pv_stage u"] by auto
    have 6: "\<not> prefix (pv_previous v) (pv_stage u)" using previous_apart(1) [OF s v v] own(2) [OF u(1)] by blast
    show "lookup t' (pv_candidate u @ x) = lookup t (pv_candidate u @ x)" by (rule far [OF 1 2])
    show "lookup t' (pv_previous u @ x) = lookup t (pv_previous u @ x)" by (rule far [OF 3 4])
    show "lookup t' (pv_stage u) = lookup t (pv_stage u)" by (rule far [OF 5 6])
  qed
  have stage: "lookup t' (pv_stage v) = lookup t (pv_stage v)"
    using far [of "pv_stage v"] area_kinds(3) [OF s v v, of "pv_stage v"] previous_apart(1) [OF s v v, of "pv_stage v"] own(2) [OF v] by auto
  have prev: "open_way t' (pv_previous v)"
  proof -
    have "lookup t' (pv_previous v) = lookup t1 (pv_candidate v)" using inst unfolding installed_def by (metis append_Nil2)
    with f v show ?thesis by (simp add: finalizable_def exact_def is_dir_def open_way_def)
  qed
  have "lookup t' p = lookup t1 p" if "outside tx p" for p
    using that far [of p] v r by (auto simp: outside_def is_owned_def reshaped_def)
  moreover have "open_way t' (pv_stage x) \<and> open_way t' (pv_previous x) \<and> (installed t1 x t' \<or> x \<notin> insert v V \<and> kept t1 x t')"
    if x: "x \<in> set (tx_views tx)" for x
  proof (cases "x = v")
    case True
    with r v show ?thesis using inst prev stage by (simp add: reshaped_def open_way_def)
  next
    case False
    note ux = u [OF x False]
    have o: "open_way t (pv_stage x)" "open_way t (pv_previous x)" "installed t1 x t \<or> x \<notin> V \<and> kept t1 x t" using r x by (auto simp: reshaped_def)
    have "installed t1 x t' = installed t1 x t" "kept t1 x t' = kept t1 x t" using ux(1) [of "[]"] by (simp_all add: installed_def kept_def ux)
    with o False ux(2) [of "[]"] ux(3) show ?thesis by (simp add: open_way_def)
  qed
  ultimately show ?thesis using replace_dirD(2) [OF m w] by (simp add: reshaped_def)
qed

lemma spec_install_previous:
  assumes s: "sound_transaction t0 tx" and f: "finalizable t1 tx" and v: "v \<in> set (tx_views tx)" and n: "v \<notin> V"
  shows "spec q (finalizing t1 tx V) (install_previous v) (\<lambda>_. finalizing t1 tx (insert v V)) (finalizing t1 tx {})"
  unfolding install_previous_def
proof (rule spec_tree, rule spec_if)
  fix t
  let ?P = "\<lambda>st. finalizing t1 tx V st \<and> st_tree st = t" and ?I = "finalizing t1 tx {}"
  note way = reshaped_way [OF s f _ v]
  have i: "?I st" if "finalizing t1 tx W st" for st W using that reshaped_none by (auto simp: finalizing_def)
  have or: "installed t1 v t \<or> kept t1 v t" and r: "reshaped t1 tx V t" if "?P st" for st using that v by (auto simp: finalizing_def reshaped_def)
  have inst: "finalizing t1 tx (insert v V) st" if "finalizing t1 tx V st" "installed t1 v (st_tree st)" for st
    using that by (auto simp: finalizing_def reshaped_def)
  have ver: "spec q (finalizing t1 tx (insert v V)) (verify_owned_exact (pv_previous v) (pv_current v)) (\<lambda>_. finalizing t1 tx (insert v V)) ?I"
  proof (rule spec_verify_exact)
    fix st assume "finalizing t1 tx (insert v V) st"
    then have "reshaped t1 tx (insert v V) (st_tree st)" "installed t1 v (st_tree st)" using v by (auto simp: finalizing_def reshaped_def)
    from way(2) [OF this] show "exact (st_tree st) (pv_previous v) (pv_current v) \<and> wf_tree (st_tree st) \<and> pv_previous v \<noteq> []
      \<and> (\<forall>c. prefix c (pv_previous v) \<longrightarrow> open_way (st_tree st) c)" .
  qed (rule i)
  show "spec q ?P (verify_owned_exact (pv_previous v) (pv_current v)) (\<lambda>_. finalizing t1 tx (insert v V)) ?I" if p: "\<not> present t (pv_candidate v)"
    by (rule spec_pre [OF ver], rule inst) (use or p kept_present [OF f v] in blast)+
  assume p: "\<not> \<not> present t (pv_candidate v)"
  let ?K = "\<lambda>st. finalizing t1 tx V st \<and> kept t1 v (st_tree st)"
  have kept: "kept t1 v t" if "?P st" for st using or [OF that] p by (auto simp: installed_def present_def)
  have 1: "spec q ?P (verify_owned_exact (pv_candidate v) (pv_current v)) (\<lambda>_ st. ?K st \<and> st_tree st = t) ?I"
  proof (rule spec_post [OF spec_verify_exact [where P = ?P]])
    show "exact (st_tree st) (pv_candidate v) (pv_current v) \<and> wf_tree (st_tree st) \<and> pv_candidate v \<noteq> []
      \<and> (\<forall>c. prefix c (pv_candidate v) \<longrightarrow> open_way (st_tree st) c)" if "?P st" for st
      using way(1) [OF r [OF that] kept [OF that]] that by simp
    show "?K st \<and> st_tree st = t" if "?P st" for st using kept [OF that] that by simp
  qed (use i in blast)
  have ne: "pv_previous v \<noteq> []" using sound_view [OF s v] by (simp add: tidy_view_def previous_path_def)
  have 2: "spec q (\<lambda>st. ?K st \<and> st_tree st = t) (if present t (pv_previous v) then remove_owned_tree (pv_previous v) else ret ())
     (\<lambda>_ st. ?K st \<and> lookup (st_tree st) (pv_previous v) = None) ?I"
  proof (rule spec_if)
    have cl: "clearable (pv_previous v) ?K"
      unfolding clearable_def
    proof (intro allI impI)
      fix st c t' assume k: "?K st" and c: "prefix (pv_previous v) c" and l: "lookup t' = (lookup (st_tree st))(c := None)"
        and w: "wf_tree (st_tree st) \<longrightarrow> wf_tree t'"
      have r: "reshaped t1 tx V (st_tree st)" using k by (simp add: finalizing_def)
      then have "wf_tree t'" using w by (simp add: reshaped_def)
      from reshaped_clear_previous [OF s v r _ n c l this] k show "?K (st\<lparr>st_tree := t'\<rparr>)" by (simp add: finalizing_def)
    qed
    have "spec q ?K (remove_owned_tree (pv_previous v)) (\<lambda>_ st. ?K st \<and> lookup (st_tree st) (pv_previous v) = None) ?I"
      by (rule spec_remove_owned_tree [OF ne cl]) (use i v in \<open>auto simp: finalizing_def reshaped_def\<close>)
    then show "spec q (\<lambda>st. ?K st \<and> st_tree st = t) (remove_owned_tree (pv_previous v)) (\<lambda>_ st. ?K st \<and> lookup (st_tree st) (pv_previous v) = None) ?I"
      by (rule spec_pre) blast
    show "spec q (\<lambda>st. ?K st \<and> st_tree st = t) (ret ()) (\<lambda>_ st. ?K st \<and> lookup (st_tree st) (pv_previous v) = None) ?I"
      if "\<not> present t (pv_previous v)" using that by (intro spec_ret) (auto simp: present_def)
  qed
  have 3: "spec q (\<lambda>st. ?K st \<and> lookup (st_tree st) (pv_previous v) = None) (on_tree (replace_dir (pv_candidate v) (pv_previous v)))
     (\<lambda>_. finalizing t1 tx (insert v V)) ?I"
  proof (rule spec_on_tree)
    fix st assume st: "?K st \<and> lookup (st_tree st) (pv_previous v) = None"
    then have r: "reshaped t1 tx V (st_tree st)" and k: "kept t1 v (st_tree st)" by (auto simp: finalizing_def)
    note e = way(1) [OF r k]
    have d: "is_dir (st_tree st) (pv_candidate v)" using e by (simp add: exact_def)
    have b: "butlast (pv_previous v) = butlast (pv_candidate v)" using sound_view [OF s v] by (simp add: tidy_view_def previous_path_def candidate_path_def)
    have "is_dir (st_tree st) (butlast (pv_previous v))" using wf_parent [of "st_tree st" "pv_candidate v"] d e by (simp add: b is_dir_def)
    moreover have "\<not> prefix (pv_candidate v) (pv_previous v)" using area_kinds(5) [OF s v v, of "pv_previous v"] by auto
    ultimately obtain t' where t': "replace_dir (pv_candidate v) (pv_previous v) (st_tree st) = Some t'"
      using st d e by (auto simp: replace_dir_def)
    from reshaped_install [OF s f v r k this] st i show "?I st \<and> (case replace_dir (pv_candidate v) (pv_previous v) (st_tree st) of None \<Rightarrow> \<not> q
        | Some t \<Rightarrow> finalizing t1 tx (insert v V) (st\<lparr>st_tree := t\<rparr>))" by (auto simp: t' finalizing_def)
  qed
  show "spec q ?P (seqIO (verify_owned_exact (pv_candidate v) (pv_current v))
       (seqIO (if present t (pv_previous v) then remove_owned_tree (pv_previous v) else ret ())
       (seqIO (on_tree (replace_dir (pv_candidate v) (pv_previous v))) (verify_owned_exact (pv_previous v) (pv_current v)))))
     (\<lambda>_. finalizing t1 tx (insert v V)) ?I"
    by (rule spec_bind [OF 1], rule spec_bind [OF 2], rule spec_bind [OF 3 ver])
qed

subsection \<open>Finalization\<close>

abbreviation views_of :: "transaction \<Rightarrow> prepared_view set" where
  "views_of tx \<equiv> set (tx_views tx)"

lemma reshaped_clear_owned:
  assumes s: "sound_transaction t0 tx" and r: "reshaped t1 tx (views_of tx) t" and o: "is_owned tx c"
    and l: "lookup t' = (lookup t)(c := None)" and w: "wf_tree t'"
  shows "reshaped t1 tx (views_of tx) t'"
proof -
  have "lookup t' p = lookup t1 p" if "outside tx p" for p using that o l r by (auto simp: outside_def reshaped_def)
  moreover have "open_way t' p" if "open_way t p" for p using that l by (simp add: open_way_def)
  moreover have "installed t1 v t'" if v: "v \<in> views_of tx" for v
  proof -
    have "pv_previous v @ p \<noteq> c" for p using previous_apart(1) [OF s v v, of "pv_previous v @ p"] o by auto
    moreover have "installed t1 v t" using r v by (auto simp: reshaped_def)
    ultimately show ?thesis using l by (simp add: installed_def)
  qed
  ultimately show ?thesis using r w by (simp add: reshaped_def)
qed

lemma finalizing_clearable:
  assumes s: "sound_transaction t0 tx" and p: "\<And>r. prefix p r \<Longrightarrow> is_owned tx r"
  shows "clearable p (finalizing t1 tx (views_of tx))"
  unfolding clearable_def
proof (intro allI impI)
  fix st c t assume f: "finalizing t1 tx (views_of tx) st" and c: "prefix p c" and l: "lookup t = (lookup (st_tree st))(c := None)"
    and w: "wf_tree (st_tree st) \<longrightarrow> wf_tree t"
  have r: "reshaped t1 tx (views_of tx) (st_tree st)" using f by (simp add: finalizing_def)
  then have "wf_tree t" using w by (simp add: reshaped_def)
  from reshaped_clear_owned [OF s r p [OF c] l this] f show "finalizing t1 tx (views_of tx) (st\<lparr>st_tree := t\<rparr>)" by (simp add: finalizing_def)
qed

lemma spec_finish_finalize:
  assumes s: "sound_transaction t0 tx"
  shows "spec q (finalizing t1 tx (views_of tx)) (seqIO (cleanup True tx) set_finished) (\<lambda>_. finalized t1 tx)
     (\<lambda>st. finalizing t1 tx {} st \<or> finalized t1 tx st)"
proof -
  let ?F = "finalizing t1 tx (views_of tx)" and ?I = "\<lambda>st. finalizing t1 tx {} st \<or> finalized t1 tx st"
  let ?J = "\<lambda>(pre :: prepared_view list) st. ?F st \<and> (\<forall>w \<in> set pre. lookup (st_tree st) (pv_stage w) = None)"
  have i: "?I st" if "?F st" for st using that reshaped_none by (auto simp: finalizing_def)
  have 1: "spec q (?J []) (remove_stages True tx) (\<lambda>_. ?J (tx_views tx)) ?I"
    unfolding remove_stages_def
  proof (rule spec_each [where J = ?J])
    fix pre v post assume e: "tx_views tx = pre @ v # post"
    then have v: "v \<in> views_of tx" by simp
    have ne: "pv_stage v \<noteq> []" "pv_candidate v \<noteq> []" using slots_view [OF s v] by (auto simp: slots_def)
    have own: "is_owned tx r" if "prefix (pv_stage v) r \<or> prefix (pv_candidate v) r" for r using v that by (auto simp: is_owned_def)
    have cl: "clearable p (?J ks)" if "\<And>r. prefix p r \<Longrightarrow> is_owned tx r" for p ks
      by (rule clearable_and [OF finalizing_clearable [OF s that]]) (auto simp: clearable_def)
    have st: "wf_tree (st_tree st)" "open_way (st_tree st) (pv_stage v)" "open_way (st_tree st) (pv_candidate v)" if "?F st" for st
      using that v by (auto simp: finalizing_def reshaped_def installed_def open_way_def)
    have a: "spec q (?J pre) (remove_owned_tree (pv_stage v)) (\<lambda>_ st. ?J pre st \<and> lookup (st_tree st) (pv_stage v) = None) ?I"
      by (rule spec_remove_owned_tree [OF ne(1) cl]) (use own st i in auto)
    have b: "spec q (?J (pre @ [v])) (remove_owned_tree (pv_candidate v)) (\<lambda>_. ?J (pre @ [v])) ?I"
      by (rule spec_post [OF spec_remove_owned_tree [OF ne(2) cl]]) (use own st i in auto)
    show "spec q (?J pre) (seqIO (remove_owned_tree (pv_stage v)) (if True then remove_owned_tree (pv_candidate v) else ret ())) (\<lambda>_. ?J (pre @ [v])) ?I"
      by (rule spec_bind [OF a], simp only: if_True, rule spec_pre [OF b]) auto
  qed
  have 2: "spec q (?J (tx_views tx)) durable_unlink (\<lambda>_. finalized t1 tx) ?I"
    by (rule spec_durable_unlink) (use i in \<open>auto simp: finalizing_def finalized_def reshaped_def journal_of_def\<close>)
  have 3: "spec q (finalized t1 tx) set_finished (\<lambda>_. finalized t1 tx) ?I"
    unfolding set_finished_def by (rule spec_memory) (simp add: finalized_def)
  have c: "spec q ?F (cleanup True tx) (\<lambda>_. finalized t1 tx) ?I"
    unfolding cleanup_def by (simp only: if_True) (rule spec_pre [OF spec_bind [OF 1 2]], simp)
  show ?thesis by (rule spec_bind [OF c 3])
qed

lemma spec_finalize:
  assumes s: "sound_transaction t0 tx" and f: "finalizable t1 tx"
  shows "spec q (\<lambda>st. \<not> st_finished st \<and> finalizing t1 tx {} st) (finalize tx) (\<lambda>_. finalized t1 tx)
     (\<lambda>st. finalizing t1 tx {} st \<or> finalized t1 tx st)"
proof -
  let ?I = "\<lambda>st. finalizing t1 tx {} st \<or> finalized t1 tx st"
  have 1: "spec q (finalizing t1 tx {}) (eachIO validate_finalize_snapshot (tx_views tx)) (\<lambda>_. finalizing t1 tx {}) ?I"
    by (rule spec_each_keep, rule spec_conseq [OF spec_validate_snapshot [OF s f]]) auto
  let ?J = "\<lambda>pre :: prepared_view list. finalizing t1 tx (set pre)"
  have "spec q (?J []) (eachIO install_previous (tx_views tx)) (\<lambda>_. ?J (tx_views tx)) ?I"
  proof (rule spec_each [where J = ?J])
    fix pre v post assume e: "tx_views tx = pre @ v # post"
    then have v: "v \<in> views_of tx" and n: "v \<notin> set pre" using distinct_views [OF s] by auto
    show "spec q (?J pre) (install_previous v) (\<lambda>_. ?J (pre @ [v])) ?I"
      by (rule spec_conseq [OF spec_install_previous [OF s f v n]]) auto
  qed
  then have 2: "spec q (finalizing t1 tx {}) (eachIO install_previous (tx_views tx)) (\<lambda>_. finalizing t1 tx (views_of tx)) ?I" by simp
  have b: "spec q (finalizing t1 tx {}) (seqIO (eachIO validate_finalize_snapshot (tx_views tx))
       (seqIO (eachIO install_previous (tx_views tx)) (seqIO (cleanup True tx) set_finished))) (\<lambda>_. finalized t1 tx) ?I"
    by (rule spec_bind [OF 1], rule spec_bind [OF 2 spec_finish_finalize [OF s]])
  show ?thesis unfolding finalize_def by (rule spec_state) (auto intro: spec_pre [OF b])
qed

subsection \<open>Recovery with the receipt\<close>

lemma finalize_resumed [simp]:
  "outside (resumed tx) p = outside tx p" "reshaped t1 (resumed tx) {} t = reshaped t1 tx {} t"
  "finalizing t1 (resumed tx) {} s = finalizing t1 tx {} s" "finalized t1 (resumed tx) s = finalized t1 tx s"
  "finalizable t1 (resumed tx) = finalizable t1 tx"
proof -
  show o [simp]: "outside (resumed tx) p = outside tx p" for p by (simp add: outside_def)
  have k [simp]: "kept t1 (journaled v) t = kept t1 v t" "installed t1 (journaled v) t = installed t1 v t" for v t
    by (simp_all add: kept_def installed_def)
  show r [simp]: "reshaped t1 (resumed tx) {} t = reshaped t1 tx {} t" for t by (simp add: reshaped_def)
  show "finalizing t1 (resumed tx) {} s = finalizing t1 tx {} s" by (simp add: finalizing_def journal_of_def)
  show "finalized t1 (resumed tx) s = finalized t1 tx s" by (simp add: finalized_def)
  show "finalizable t1 (resumed tx) = finalizable t1 tx" by (simp add: finalizable_def)
qed

text \<open>With the receipt, recovery finalizes the promoted transaction.\<close>

lemma spec_recover_receipt:
  assumes s: "sound_transaction t0 tx" and r: "sound_roots t0 tx allowed" and f: "finalizable t1 tx" and c: "confined t0 tx t1"
  shows "spec q (finalizing t1 tx {}) (recover_transaction allowed (Some (tx_id tx))) (\<lambda>b st. b \<and> finalized t1 tx st)
     (\<lambda>st. finalizing t1 tx {} st \<or> finalized t1 tx st)"
proof -
  let ?I = "\<lambda>st. finalizing t1 tx {} st \<or> finalized t1 tx st"
  have read: "spec q (finalizing t1 tx {}) (read_journal allowed) (\<lambda>x st. x = (resumed tx, Promoted) \<and> \<not> st_finished st \<and> finalizing t1 tx {} st) ?I"
  proof (rule spec_read_journal)
    show "tidy_transaction tx" by (rule sound_parts(1) [OF s])
    show "pv_root ` set (tx_views tx) \<subseteq> set allowed" using r by (simp add: sound_roots_def)
    show "st_journal st = journal_of tx Promoted" if "finalizing t1 tx {} st" for st using that by (simp add: finalizing_def)
    show "validated_root (st_tree st) x = Inr x" if st: "finalizing t1 tx {} st" and x: "x \<in> set allowed" for st x
    proof -
      have "open_way (st_tree st) d" if d: "prefix d x" for d
      proof -
        have "outside tx d" using r x d by (auto simp: sound_roots_def outside_def)
        then have "lookup (st_tree st) d = lookup t1 d" using st by (simp add: finalizing_def reshaped_def)
        moreover have "open_way t1 d" using allowed_validated [OF r c x] d by (simp add: validated_root_iff)
        ultimately show ?thesis by (simp add: open_way_def)
      qed
      moreover have "x \<noteq> []" using r x by (auto simp: sound_roots_def)
      ultimately show ?thesis by (simp add: validated_root_iff)
    qed
  qed (auto simp: finalizing_def)
  have fin: "spec q (\<lambda>st. \<not> st_finished st \<and> finalizing t1 tx {} st) (finalize (resumed tx)) (\<lambda>_. finalized t1 tx) ?I"
    using spec_finalize [OF sound_resumed [OF s], of t1 q, unfolded finalize_resumed, OF f] .
  have fin': "spec q (\<lambda>st. \<not> st_finished st \<and> finalizing t1 tx {} st) (seqIO (finalize (resumed tx)) (ret True)) (\<lambda>b st. b \<and> finalized t1 tx st) ?I"
    by (rule spec_bind [OF fin]) (auto intro: spec_ret)
  show ?thesis unfolding recover_transaction_def
  proof (rule spec_state, rule spec_if)
    fix st assume st: "finalizing t1 tx {} st"
    show "spec q (\<lambda>s. s = st) (ret False) (\<lambda>b s. b \<and> finalized t1 tx s) ?I" if "st_journal st = NoJournal"
      using st that by (simp add: finalizing_def journal_of_def)
    show "spec q (\<lambda>s. s = st) (bindIO (read_journal allowed) (\<lambda>(tx', p).
       if p = Promoted \<and> Some (tx_id tx) = Some (tx_id tx') then seqIO (finalize tx') (ret True) else seqIO (rollback tx') (ret True)))
       (\<lambda>b s. b \<and> finalized t1 tx s) ?I"
    proof (rule spec_pre [OF spec_bind [OF read]])
      fix x
      show "spec q (\<lambda>st. x = (resumed tx, Promoted) \<and> \<not> st_finished st \<and> finalizing t1 tx {} st) (case x of (tx', p) \<Rightarrow>
          if p = Promoted \<and> Some (tx_id tx) = Some (tx_id tx') then seqIO (finalize tx') (ret True) else seqIO (rollback tx') (ret True))
         (\<lambda>b st. b \<and> finalized t1 tx st) ?I"
        by (rule spec_fact [where A = "x = (resumed tx, Promoted)"]) (use fin' in \<open>auto intro: spec_pre\<close>)
    qed (use st in auto)
  qed
qed

text \<open>A promoted transaction can be finalized.\<close>

lemma promoted_finalizing:
  assumes s: "sound_transaction t0 tx" and p: "promoted t0 tx st" and prev: "\<forall>v \<in> views_of tx. open_way t0 (pv_previous v)"
  shows "finalizing (st_tree st) tx {} st" and "finalizable (st_tree st) tx" and "confined t0 tx (st_tree st)"
proof -
  let ?t = "st_tree st"
  have h: "holding t0 tx none_of (change tx) (flags (journal_of tx Promoted) True) st" using p by (simp add: promoted_def)
  show c: "confined t0 tx ?t" using h by (simp add: holding_def between_def)
  have bk: "content ?t (backup v r) = content t0 (live v r) \<and> content ?t (backup v r) \<noteq> None"
    if "change tx v r" "map_of (pv_current v) r \<noteq> None" for v r using h that unfolding holding_def backed_up_def by blast
  have ex: "exact ?t (pv_candidate v) (pv_current v)" if v: "v \<in> views_of tx" for v
  proof -
    have own: "is_owned tx q" if "prefix (pv_candidate v) q" for q using v that by (auto simp: is_owned_def)
    have slot: "is_owned tx q \<Longrightarrow> if is_slot tx q then lookup ?t q = None \<or> content ?t q \<noteq> None else open_way ?t q" for q
      using c unfolding confined_def by blast
    have key: "is_canonical r \<and> holds_version ?t (pv_candidate v @ tail_parts r) (Some a)" if r: "(r, a) \<in> set (pv_current v)" for r a
    proof -
      note e = current_entry [OF s v r]
      have "holds_version t0 (live v r) (Some a)" using sound_parts(9) [OF s e(1)] e(2) by simp
      moreover have "content ?t (backup v r) = content t0 (live v r)" using bk [OF e(1)] e(2) by simp
      ultimately have "holds_version ?t (backup v r) (Some a)" by (simp add: holds_Some)
      then show ?thesis using change_canonical [OF s e(1)] by (simp add: backup_def)
    qed
    have only: "open_way ?t q \<or> (\<exists>(r, a) \<in> set (pv_current v). q = pv_candidate v @ tail_parts r)" if q: "strict_prefix (pv_candidate v) q" for q
    proof (cases "is_slot tx q")
      case True
      have cq: "prefix (pv_candidate v) q" using q by (simp add: strict_prefix_def)
      from True obtain w r where w: "change tx w r" and k: "map_of (pv_desired w) r \<noteq> None \<and> q = staged w r \<or> map_of (pv_current w) r \<noteq> None \<and> q = backup w r"
        by (auto simp: is_slot_def)
      have wv: "w \<in> views_of tx" using w by (simp add: change_def)
      have "q \<noteq> staged w r" using area_kinds(3) [OF s wv v, of q] cq by (auto simp: staged_def)
      with k have b: "map_of (pv_current w) r \<noteq> None" "q = backup w r" by auto
      have "w = v" using previous_apart(3) [OF s wv v, of q] cq b(2) by (simp add: backup_def)
      with b show ?thesis by (auto simp: backup_def dest: map_of_SomeD)
    next
      case False
      with slot [OF own] q show ?thesis by (auto simp: strict_prefix_def)
    qed
    have dir: "is_dir ?t (pv_candidate v)" using p v by (simp add: promoted_def candidates_def)
    show ?thesis unfolding exact_def using dir only key by blast
  qed
  show "finalizable ?t tx" using ex holding_above [OF s h] by (simp add: finalizable_def)
  have "open_way ?t (pv_stage v) \<and> open_way ?t (pv_previous v)" if v: "v \<in> views_of tx" for v
  proof
    have "is_owned tx (pv_stage v)" using v by (auto simp: is_owned_def)
    with owned_not_slot(1) [OF s v] c show "open_way ?t (pv_stage v)" unfolding confined_def by metis
    have k: "\<not> is_owned tx (pv_previous v)" by (rule previous_apart(1) [OF s v v]) simp
    have "pv_previous v \<noteq> live w r" if "change tx w r" for w r
    proof -
      have "w \<in> views_of tx" using that by (simp add: change_def)
      from area_kinds(6) [OF s this v, of "live w r"] show ?thesis by auto
    qed
    then have "\<not> is_target tx (pv_previous v)" by (auto simp: is_target_def)
    moreover have "\<not> is_tmp tx (pv_previous v)" using tmp_below_root [OF s] area_kinds(6) [OF s _ v, of _ "pv_previous v"] by auto
    ultimately have "lookup ?t (pv_previous v) = lookup t0 (pv_previous v) \<or> lookup ?t (pv_previous v) = Some Directory"
      using c k unfolding confined_def by metis
    with prev v show "open_way ?t (pv_previous v)" by (auto simp: open_way_def)
  qed
  with holding_wf [OF h] h show "finalizing ?t tx {} st"
    by (simp add: finalizing_def reshaped_def kept_def holding_def flags_def)
qed

end
