(* ===== verification/TransactionProperties.thy ===== *)
theory TransactionProperties
  imports TransactionFinalize
begin

text \<open>
  What a selected transaction promises: an operation that fails or dies is undone by recovery, one that
  is prepared and applied without faults ends with the desired files and the previous version beside them, the
  receipt decides between the two, and recovery never overwrites a file it does not know.
\<close>

subsection \<open>Repeated recovery\<close>

definition after :: "'a outcome \<times> (event list \<times> state) \<Rightarrow> state" where
  "after r = snd (snd r)"

text \<open>One process after the other recovers, each under its own schedule.\<close>

fun recoveries :: "path list \<Rightarrow> string option \<Rightarrow> event list list \<Rightarrow> state \<Rightarrow> state" where
  "recoveries allowed receipt [] s = s"
| "recoveries allowed receipt (es # ess) s = recoveries allowed receipt ess (after (recover_transaction allowed receipt (es, s)))"

lemma spec_after:
  assumes "spec False P m Q I" and "P s"
  shows "case fst (m (es, s)) of Ok x \<Rightarrow> Q x (after (m (es, s))) | _ \<Rightarrow> I (after (m (es, s)))"
proof -
  obtain r es' s' where m: "m (es, s) = (r, (es', s'))" by (metis prod.exhaust)
  with spec_outcome [OF assms m] show ?thesis by (cases r) (auto simp: after_def)
qed

lemma spec_quiet_after:
  assumes "spec True P m Q I" and "P s" and "quiet es"
  shows "\<exists>x. fst (m (es, s)) = Ok x \<and> Q x (after (m (es, s)))"
  using spec_returns [OF assms] by (force simp: after_def)


lemma recoveries_keep:
  assumes "spec False P (recover_transaction allowed receipt) (\<lambda>_. P) P" and "P s"
  shows "P (recoveries allowed receipt ess s)"
  using assms(2)
proof (induction ess arbitrary: s)
  case (Cons es ess)
  have "P (after (recover_transaction allowed receipt (es, s)))"
    using spec_after [OF assms(1) Cons.prems, of es] by (auto split: outcome.splits)
  with Cons.IH show ?case by simp
qed simp

subsection \<open>An operation is undone\<close>

text \<open>The changed paths hold what they held, and nothing else was touched but for new empty directories.\<close>

definition undone :: "tree \<Rightarrow> transaction \<Rightarrow> state \<Rightarrow> bool" where
  "undone t0 tx s \<longleftrightarrow> (\<forall>v r. change tx v r \<longrightarrow> lookup (st_tree s) (live v r) = lookup t0 (live v r))
     \<and> (\<forall>p. \<not> is_target tx p \<longrightarrow> \<not> is_tmp tx p \<longrightarrow> \<not> is_owned tx p \<longrightarrow> lookup (st_tree s) p = lookup t0 p
          \<or> lookup t0 p = None \<and> lookup (st_tree s) p = Some Directory \<and> above_target tx p)
     \<and> (\<forall>v \<in> set (tx_views tx). lookup (st_tree s) (pv_stage v) = None \<and> lookup (st_tree s) (pv_candidate v) = None)
     \<and> (st_journal s = NoJournal \<or> st_journal s = torn)"

definition stopped :: "tree \<Rightarrow> transaction \<Rightarrow> state \<Rightarrow> bool" where
  "stopped t0 tx s \<longleftrightarrow> (\<exists>p. interrupted t0 tx p s) \<or> rolled_back t0 tx s \<or> st_tree s = t0 \<and> (st_journal s = NoJournal \<or> st_journal s = torn)"

text \<open>
  The same without the empty journal of a process that died between creating and writing it; that
  journal stops every recovery, and nothing had been changed.
\<close>

definition halted :: "tree \<Rightarrow> transaction \<Rightarrow> state \<Rightarrow> bool" where
  "halted t0 tx s \<longleftrightarrow> (\<exists>p. interrupted t0 tx p s) \<or> rolled_back t0 tx s \<or> st_tree s = t0 \<and> st_journal s = NoJournal"

lemma stopped_halted: "stopped t0 tx s \<longleftrightarrow> halted t0 tx s \<or> st_tree s = t0 \<and> st_journal s = torn"
  by (auto simp: stopped_def halted_def)

lemma halted_journal: "halted t0 tx s \<Longrightarrow> st_journal s \<noteq> torn"
  by (auto simp: halted_def rolled_back_def torn_def empty_doc_def journal_of_def written_def dest!: interrupted_facts(2))

lemma spec_recover_settled:
  "spec q (\<lambda>s. st_journal s = NoJournal \<and> P s) (recover_transaction allowed receipt) (\<lambda>b s. st_journal s = NoJournal \<and> P s) I"
  unfolding recover_transaction_def by (rule spec_state) (auto intro: spec_ret)

text \<open>A torn journal is refused, and left as it is.\<close>

lemma spec_recover_torn:
  assumes i: "\<And>s. st_journal s = torn \<Longrightarrow> P s \<Longrightarrow> I s"
  shows "spec False (\<lambda>s. st_journal s = torn \<and> P s) (recover_transaction allowed receipt) (\<lambda>_ _. False) I"
proof -
  have "spec False (\<lambda>s. st_journal s = torn \<and> P s) (read_journal allowed) (\<lambda>_ _. False) I"
    unfolding read_journal_def
  proof (rule spec_catch)
    have r: "spec False (\<lambda>s. st_journal s = torn \<and> P s) read_disk (\<lambda>_ s. st_journal s = torn \<and> P s) I" by (rule spec_read) (use i in auto)
    show "spec False (\<lambda>s. st_journal s = torn \<and> P s) (seqIO read_disk (bindIO state_of (\<lambda>s.
       case st_journal s of
         JournalFile d \<Rightarrow>
           (case doc_json d of
              None \<Rightarrow> raise SyncError
            | Some payload \<Rightarrow>
                bindIO (lift (transaction_from (st_tree s) allowed payload)) (\<lambda>(tx, p).
                seqIO (set_memory (\<lambda>s. s\<lparr>st_touched := p \<in> {Applying, Promoted}, st_finished := False\<rparr>))
                  (ret (tx, p))))
       | _ \<Rightarrow> raise SyncError))) (\<lambda>_ _. False) I"
      by (rule spec_bind [OF r], rule spec_state) (use i in \<open>auto simp: torn_def empty_doc_def intro!: spec_raise\<close>)
  qed (auto intro: spec_raise)
  then have b: "spec False (\<lambda>s. st_journal s = torn \<and> P s) (bindIO (read_journal allowed) f) (\<lambda>_ _. False) I" for f :: "transaction \<times> phase \<Rightarrow> bool io"
    by (rule spec_bind) (simp add: spec_def)
  show ?thesis unfolding recover_transaction_def
    by (rule spec_state) (use b in \<open>auto simp: torn_def intro: spec_pre\<close>)
qed

lemma spec_recover_halted:
  assumes s: "sound_transaction t0 tx" and r: "sound_roots t0 tx allowed" and n: "receipt \<noteq> Some (tx_id tx)"
  shows "spec False (halted t0 tx) (recover_transaction allowed receipt) (\<lambda>_. halted t0 tx) (halted t0 tx)"
proof (rule spec_assume)
  fix s0 assume "halted t0 tx s0"
  then consider p where "interrupted t0 tx p s0" | "st_journal s0 = NoJournal" "halted t0 tx s0"
    unfolding halted_def by (auto simp: rolled_back_def)
  then show "spec False (\<lambda>s. s = s0) (recover_transaction allowed receipt) (\<lambda>_. halted t0 tx) (halted t0 tx)"
  proof cases
    case 1
    show ?thesis by (rule spec_conseq [OF spec_recover [OF s r, of p receipt]]) (use 1 n in \<open>auto simp: halted_def\<close>)
  next
    case 2
    show ?thesis by (rule spec_conseq [OF spec_recover_settled [where P = "halted t0 tx" and I = "\<lambda>_. False"]]) (use 2 in auto)
  qed
qed

lemma torn_kept:
  assumes "st_tree s = t0 \<and> st_journal s = torn"
  shows "st_tree (after (recover_transaction allowed receipt (es, s))) = t0
    \<and> st_journal (after (recover_transaction allowed receipt (es, s))) = torn"
  using spec_after [OF spec_recover_torn [where P = "\<lambda>s. st_tree s = t0" and I = "\<lambda>s. st_journal s = torn \<and> st_tree s = t0"],
      of s allowed receipt es] assms
  by (auto split: outcome.splits)

lemma stopped_undone:
  assumes s: "sound_transaction t0 tx" and c: "stopped t0 tx st" and j: "st_journal st = NoJournal \<or> st_journal st = torn"
  shows "undone t0 tx st"
proof -
  have "\<not> interrupted t0 tx p st" for p
  proof
    assume "interrupted t0 tx p st"
    then have "st_journal st = journal_of tx p" by (rule interrupted_facts(2))
    with j show False by (auto simp: journal_of_def torn_def empty_doc_def written_def)
  qed
  with c have "rolled_back t0 tx st \<or> st_tree st = t0" by (auto simp: stopped_def)
  then show ?thesis
  proof
    assume "rolled_back t0 tx st"
    then show ?thesis by (simp add: undone_def rolled_back_def restored_def confined_def)
  next
    assume "st_tree st = t0"
    then show ?thesis using sound_parts(6,7) [OF s] j by (auto simp: undone_def)
  qed
qed

lemma quiet_recovery_undoes:
  assumes s: "sound_transaction t0 tx" and r: "sound_roots t0 tx allowed" and n: "receipt \<noteq> Some (tx_id tx)"
    and c: "halted t0 tx st" and es: "quiet es"
  shows "undone t0 tx (after (recover_transaction allowed receipt (es, st)))
    \<and> st_journal (after (recover_transaction allowed receipt (es, st))) = NoJournal"
proof -
  let ?r = "recover_transaction allowed receipt (es, st)"
  from c consider p where "interrupted t0 tx p st" | "st_journal st = NoJournal"
    unfolding halted_def by (auto simp: rolled_back_def)
  then have "stopped t0 tx (after ?r) \<and> st_journal (after ?r) = NoJournal"
  proof cases
    case 1
    from spec_quiet_after [OF spec_recover [OF s r] this es] n show ?thesis by (auto simp: stopped_def rolled_back_def)
  next
    case 2
    with c have "st_journal st = NoJournal \<and> stopped t0 tx st" by (simp add: stopped_halted)
    from spec_quiet_after [OF spec_recover_settled [where P = "stopped t0 tx" and I = "\<lambda>_. False"] this es] show ?thesis by auto
  qed
  with stopped_undone [OF s] show ?thesis by blast
qed

lemma recoveries_undo:
  fixes ess st
  assumes s: "sound_transaction t0 tx" and r: "sound_roots t0 tx allowed" and n: "receipt \<noteq> Some (tx_id tx)"
    and c: "stopped t0 tx st" and es: "quiet es"
  defines "final \<equiv> after (recover_transaction allowed receipt (es, recoveries allowed receipt ess st))"
  shows "undone t0 tx final \<and> (if st_journal st = torn then st_tree final = t0 else st_journal final = NoJournal)"
proof (cases "st_journal st = torn")
  case True
  with c halted_journal have t: "st_tree st = t0 \<and> st_journal st = torn" by (auto simp: stopped_halted)
  then have "st_tree (recoveries allowed receipt ess st) = t0 \<and> st_journal (recoveries allowed receipt ess st) = torn"
  proof (induction ess arbitrary: st)
    case (Cons es ess)
    from Cons.IH [OF torn_kept [OF Cons.prems]] show ?case by simp
  qed simp
  from torn_kept [OF this] have f: "st_tree final = t0 \<and> st_journal final = torn" by (simp add: final_def)
  then have "undone t0 tx final" by (intro stopped_undone [OF s]) (auto simp: stopped_halted)
  with f True show ?thesis by simp
next
  case False
  with c have "halted t0 tx st" by (auto simp: stopped_halted)
  then have "halted t0 tx (recoveries allowed receipt ess st)" by (rule recoveries_keep [OF spec_recover_halted [OF s r n]])
  from quiet_recovery_undoes [OF s r n this es] False show ?thesis by (simp add: final_def)
qed

text \<open>Preparing and applying: the operation is promoted, or stopped.\<close>

lemma spec_operation:
  assumes s: "sound_transaction t0 (planned op raws)" and src: "q \<Longrightarrow> sources t0 op raws"
    and sel: "q \<Longrightarrow> \<exists>x. foldE (select_step t0 op) raws ([], []) = Inr x" and f: "q \<Longrightarrow> fair_scans t0 (planned op raws) vc vd"
  shows "spec q (\<lambda>st. st_tree st = t0 \<and> st_journal st = NoJournal) (bindIO (prepare_transaction op raws) (apply_transaction vc vd))
     (\<lambda>_. promoted t0 (planned op raws)) (stopped t0 (planned op raws))"
proof (rule spec_bind)
  let ?tx = "planned op raws"
  show "spec q (\<lambda>st. st_tree st = t0 \<and> st_journal st = NoJournal) (prepare_transaction op raws) (\<lambda>tx st. tx = ?tx \<and> prepared t0 tx st) (stopped t0 ?tx)"
    by (rule spec_conseq [OF spec_prepare_transaction [OF s src sel]]) (auto simp: preparation_stopped_def stopped_def)
  fix tx
  show "spec q (\<lambda>st. tx = ?tx \<and> prepared t0 tx st) (apply_transaction vc vd tx) (\<lambda>_. promoted t0 ?tx) (stopped t0 ?tx)"
  proof (rule spec_fact [where A = "tx = ?tx"], blast)
    assume tx: "tx = ?tx"
    show "spec q (\<lambda>st. tx = ?tx \<and> prepared t0 tx st) (apply_transaction vc vd tx) (\<lambda>_. promoted t0 ?tx) (stopped t0 ?tx)"
      unfolding tx by (rule spec_conseq [OF spec_apply_transaction [OF s f]]) (auto simp: stopped_def)
  qed
qed

lemma promoted_halted: "promoted t0 tx s \<Longrightarrow> halted t0 tx s"
  unfolding halted_def interrupted_def promoted_def
  by (intro disjI1 exI [of _ Promoted] disjI2) (auto elim!: holding_mono simp: flags_def journal_is_def)

lemma promoted_stopped: "promoted t0 tx s \<Longrightarrow> stopped t0 tx s"
  by (simp add: stopped_halted promoted_halted)

text \<open>
  C1: Take an operation whose changed paths do not lie below one another (which leaves out deleting
  \<open>a\<close> and creating \<open>a/b\<close>), hold the versions it was planned from and are reached through directories, and
  whose stage, backup and temporary names are free (\<open>sound_transaction\<close>).  However it fails or dies while it is
  prepared and applied, and even when it was promoted but its receipt is missing: after any number of
  recoveries that may fail or die themselves, one undisturbed recovery leaves every changed path with the
  bytes it held (or missing, when it was missing), every other path untouched but for new directories on the
  way to a target, and no stage and no backup directory.  The journal is gone, unless the operation
  itself left the empty journal of a process that died between creating and writing it; then the whole disk is
  as it was.
\<close>

theorem operation_undone:
  fixes s op raws vc vd es ess es'
  assumes "sound_transaction (st_tree s) (planned op raws)" and "sound_roots (st_tree s) (planned op raws) allowed"
    and "st_journal s = NoJournal" and "receipt \<noteq> Some op" and "quiet es'"
  defines "stopped_at \<equiv> after (bindIO (prepare_transaction op raws) (apply_transaction vc vd) (es, s))"
  defines "final \<equiv> after (recover_transaction allowed receipt (es', recoveries allowed receipt ess stopped_at))"
  shows "undone (st_tree s) (planned op raws) final
    \<and> (if st_journal stopped_at = torn then st_tree final = st_tree s else st_journal final = NoJournal)"
proof -
  let ?tx = "planned op raws" and ?t0 = "st_tree s"
  have n: "receipt \<noteq> Some (tx_id ?tx)" using assms(4) by simp
  have "spec False (\<lambda>st. st_tree st = ?t0 \<and> st_journal st = NoJournal) (bindIO (prepare_transaction op raws) (apply_transaction vc vd))
     (\<lambda>_. promoted ?t0 ?tx) (stopped ?t0 ?tx)" by (rule spec_operation [OF assms(1)]) auto
  from spec_after [OF this, of s es] assms(3) have "stopped ?t0 ?tx stopped_at"
    by (auto simp: stopped_at_def split: outcome.splits intro: promoted_stopped)
  from recoveries_undo [OF assms(1,2) n this assms(5)] show ?thesis by (simp add: final_def)
qed

subsection \<open>An operation is completed\<close>

text \<open>
  The changed paths hold the desired versions, what they held is the previous version of their view, and
  nothing else was touched but for new directories.
\<close>

definition completed :: "tree \<Rightarrow> transaction \<Rightarrow> state \<Rightarrow> bool" where
  "completed t0 tx s \<longleftrightarrow> (\<forall>v r. change tx v r \<longrightarrow> holds_version (st_tree s) (live v r) (map_of (pv_desired v) r)
       \<and> (map_of (pv_current v) r \<noteq> None \<longrightarrow> content (st_tree s) (pv_previous v @ tail_parts r) = content t0 (live v r)))
     \<and> (\<forall>p. outside tx p \<longrightarrow> \<not> is_target tx p \<longrightarrow> \<not> is_tmp tx p \<longrightarrow> lookup (st_tree s) p = lookup t0 p
          \<or> lookup t0 p = None \<and> lookup (st_tree s) p = Some Directory \<and> above_target tx p)
     \<and> (\<forall>v \<in> set (tx_views tx). lookup (st_tree s) (pv_stage v) = None \<and> lookup (st_tree s) (pv_candidate v) = None)
     \<and> st_journal s = NoJournal"

lemma finalized_completed:
  assumes s: "sound_transaction t0 tx" and p: "promoted t0 tx st" and f: "finalized (st_tree st) tx st'"
  shows "completed t0 tx st'"
proof -
  let ?t1 = "st_tree st" and ?t = "st_tree st'"
  have h: "holding t0 tx none_of (change tx) (flags (journal_of tx Promoted) True) st" and pr: "promoted_on (changes_of (tx_views tx)) ?t1"
    using p by (auto simp: promoted_def)
  have out: "outside tx (live v r)" if c: "change tx v r" for v r
  proof -
    have v: "v \<in> set (tx_views tx)" using c by (simp add: change_def)
    show ?thesis using owned_not_live [OF s c] area_kinds(6) [OF s v _, of _ "live v r"] by (simp add: outside_def)
  qed
  have 1: "holds_version ?t (live v r) (map_of (pv_desired v) r)" if c: "change tx v r" for v r
  proof -
    have "holds_version ?t1 (live v r) (map_of (pv_desired v) r)" using pr c by (auto simp: promoted_on_def changes_of_views)
    moreover have "lookup ?t (live v r) = lookup ?t1 (live v r)" using f out [OF c] by (simp add: finalized_def)
    ultimately show ?thesis using holds_version_cong by metis
  qed
  have 2: "content ?t (pv_previous v @ tail_parts r) = content t0 (live v r)" if c: "change tx v r" "map_of (pv_current v) r \<noteq> None" for v r
  proof -
    have "installed ?t1 v ?t" using f c(1) by (simp add: finalized_def change_def)
    then have "content ?t (pv_previous v @ tail_parts r) = content ?t1 (backup v r)" by (simp add: installed_def backup_def content_def)
    moreover have "content ?t1 (backup v r) = content t0 (live v r)" using h c unfolding holding_def backed_up_def by blast
    ultimately show ?thesis by simp
  qed
  have 3: "lookup ?t q = lookup t0 q \<or> lookup t0 q = None \<and> lookup ?t q = Some Directory \<and> above_target tx q"
    if "outside tx q" "\<not> is_target tx q" "\<not> is_tmp tx q" for q
  proof -
    have "lookup ?t q = lookup ?t1 q" using f that(1) by (simp add: finalized_def)
    moreover have "\<not> is_owned tx q" using that(1) by (simp add: outside_def)
    ultimately show ?thesis using h that(2,3) unfolding holding_def between_def confined_def by metis
  qed
  show ?thesis using 1 2 3 f by (auto simp: completed_def finalized_def installed_def)
qed

text \<open>
  C2: Prepared, applied and finalized without faults, a selected operation ends with the
  desired version at every changed path and its former bytes in the previous version of the view, provided
  the selection is accepted, the sources of the staged files hold what the manifests say and the scans of
  the caller accept the files before and after.  Nothing else changes, and no journal and no
  owned directory is left.
\<close>

theorem operation_completed:
  assumes "sound_transaction (st_tree s) (planned op raws)" and "st_journal s = NoJournal" and "quiet es"
    and "sources (st_tree s) op raws" and "foldE (select_step (st_tree s) op) raws ([], []) = Inr x"
    and "fair_scans (st_tree s) (planned op raws) vc vd" and "\<forall>v \<in> views_of (planned op raws). open_way (st_tree s) (pv_previous v)"
  shows "fst (bindIO (prepare_transaction op raws) (\<lambda>tx. seqIO (apply_transaction vc vd tx) (finalize tx)) (es, s)) = Ok ()
     \<and> completed (st_tree s) (planned op raws) (after (bindIO (prepare_transaction op raws) (\<lambda>tx. seqIO (apply_transaction vc vd tx) (finalize tx)) (es, s)))"
proof -
  let ?tx = "planned op raws" and ?t0 = "st_tree s"
  let ?P = "\<lambda>st. st_tree st = ?t0 \<and> st_journal st = NoJournal"
  have prep: "spec True ?P (prepare_transaction op raws) (\<lambda>tx st. tx = ?tx \<and> prepared ?t0 tx st) (\<lambda>_. True)"
    by (rule spec_conseq [OF spec_prepare_transaction [OF assms(1) assms(4)]]) (use assms(5) in auto)
  have app: "spec True (prepared ?t0 ?tx) (apply_transaction vc vd ?tx) (\<lambda>_. promoted ?t0 ?tx) (\<lambda>_. True)"
    by (rule spec_conseq [OF spec_apply_transaction [OF assms(1) assms(6)]]) auto
  have fin: "spec True (promoted ?t0 ?tx) (finalize ?tx) (\<lambda>_. completed ?t0 ?tx) (\<lambda>_. True)"
  proof (rule spec_assume)
    fix st assume st: "promoted ?t0 ?tx st"
    note pf = promoted_finalizing [OF assms(1) st assms(7)]
    have "\<not> st_finished st" using st by (simp add: promoted_def holding_def flags_def)
    then show "spec True (\<lambda>s'. s' = st) (finalize ?tx) (\<lambda>_. completed ?t0 ?tx) (\<lambda>_. True)"
      using finalized_completed [OF assms(1) st] by (intro spec_conseq [OF spec_finalize [OF assms(1) pf(2)]]) (use pf(1) in auto)
  qed
  have "spec True ?P (bindIO (prepare_transaction op raws) (\<lambda>tx. seqIO (apply_transaction vc vd tx) (finalize tx))) (\<lambda>_. completed ?t0 ?tx) (\<lambda>_. True)"
  proof (rule spec_bind [OF prep])
    fix tx
    show "spec True (\<lambda>st. tx = ?tx \<and> prepared ?t0 tx st) (seqIO (apply_transaction vc vd tx) (finalize tx)) (\<lambda>_. completed ?t0 ?tx) (\<lambda>_. True)"
    proof (rule spec_fact [where A = "tx = ?tx"], blast)
      assume tx: "tx = ?tx"
      show "spec True (\<lambda>st. tx = ?tx \<and> prepared ?t0 tx st) (seqIO (apply_transaction vc vd tx) (finalize tx)) (\<lambda>_. completed ?t0 ?tx) (\<lambda>_. True)"
        unfolding tx by (rule spec_pre [OF spec_bind [OF app fin]]) simp
    qed
  qed
  from spec_quiet_after [OF this, of s es] assms(2,3) show ?thesis by auto
qed



subsection \<open>A version that is not known\<close>

text \<open>Every changed path that was planned holds a known version.\<close>

definition known_version :: "tree \<Rightarrow> prepared_view \<Rightarrow> string \<Rightarrow> bool" where
  "known_version t v r \<longleftrightarrow> holds_version t (live v r) (map_of (pv_current v) r) \<or> holds_version t (live v r) (map_of (pv_desired v) r)"

lemma spec_plan_known: "spec False (\<lambda>s. s = s0) (plan_path v r) (\<lambda>_ s. s = s0 \<and> known_version (st_tree s0) v r) (\<lambda>s. s = s0)"
proof -
  let ?P = "\<lambda>s. s = s0" and ?c = "map_of (pv_current v) r" and ?d = "map_of (pv_desired v) r"
  let ?h = "\<lambda>p a. holds_version (st_tree s0) p a"
  have t: "spec False ?P (safe_target root r False) (\<lambda>p s. s = s0 \<and> p = root @ tail_parts r) ?P" for root
    by (rule spec_post [OF spec_safe_target_read]) auto
  have m1: "spec False ?P (path_matches p ?c) (\<lambda>b s. s = s0 \<and> (b \<longrightarrow> ?h p ?c)) ?P" for p
    by (rule spec_post [OF spec_path_matches]) auto
  have m2: "spec False (\<lambda>s. s = s0 \<and> (b \<longrightarrow> ?h p ?c)) (path_matches p ?d) (\<lambda>b' s. s = s0 \<and> (b \<longrightarrow> ?h p ?c) \<and> (b' \<longrightarrow> ?h p ?d)) ?P" for p b
    by (rule spec_conseq [OF spec_path_matches [where P = "\<lambda>s. s = s0 \<and> (b \<longrightarrow> ?h p ?c)"]]) auto
  have b: "spec False (\<lambda>s. s = s0) (case ?c of None \<Rightarrow> ret () | Some a \<Rightarrow> bindIO (safe_target (pv_candidate v) r False) (\<lambda>source. verify_one source a)) (\<lambda>_ s. s = s0) ?P"
  proof (cases ?c)
    case (Some a)
    have "spec False (\<lambda>s. s = s0 \<and> p = pv_candidate v @ tail_parts r) (verify_one p a) (\<lambda>_ s. s = s0) ?P" for p
      by (rule spec_conseq [OF spec_verify_one [where P = ?P and I = ?P]]) auto
    from spec_bind [OF t this] show ?thesis by (simp add: Some)
  qed (simp add: spec_ret)
  let ?Q = "\<lambda>_ s. s = s0 \<and> known_version (st_tree s0) v r"
  have live: "p = pv_root v @ tail_parts r \<Longrightarrow> p = live v r" for p by (simp add: live_def)
  have fin: "spec False (\<lambda>s. s = s0 \<and> (x \<longrightarrow> ?h p ?c) \<and> (y \<longrightarrow> ?h p ?d)) (if x then ret [] else if \<not> y then raise SyncError
      else seqIO (case ?c of None \<Rightarrow> ret () | Some a \<Rightarrow> bindIO (safe_target (pv_candidate v) r False) (\<lambda>source. verify_one source a))
        (ret [\<lparr>ra_relative = r, ra_original = ?c\<rparr>])) ?Q ?P" if p: "p = pv_root v @ tail_parts r" for p x y
  proof (intro spec_if)
    show "spec False (\<lambda>s. s = s0 \<and> (x \<longrightarrow> ?h p ?c) \<and> (y \<longrightarrow> ?h p ?d)) (ret []) ?Q ?P" if x
      by (rule spec_ret) (use that live [OF p] in \<open>auto simp: known_version_def\<close>)
    assume "\<not> \<not> y"
    have "spec False (\<lambda>s. s = s0 \<and> known_version (st_tree s0) v r) (seqIO (case ?c of None \<Rightarrow> ret () | Some a \<Rightarrow> bindIO (safe_target (pv_candidate v) r False) (\<lambda>source. verify_one source a))
        (ret [\<lparr>ra_relative = r, ra_original = ?c\<rparr>])) ?Q ?P"
    proof (rule spec_fact [where A = "known_version (st_tree s0) v r"], blast)
      assume k: "known_version (st_tree s0) v r"
      show "spec False (\<lambda>s. s = s0 \<and> known_version (st_tree s0) v r) (seqIO (case ?c of None \<Rightarrow> ret () | Some a \<Rightarrow> bindIO (safe_target (pv_candidate v) r False) (\<lambda>source. verify_one source a))
        (ret [\<lparr>ra_relative = r, ra_original = ?c\<rparr>])) ?Q ?P"
        by (rule spec_pre [OF spec_bind [OF b]]) (auto intro: spec_ret simp: k)
    qed
    then show "spec False (\<lambda>s. s = s0 \<and> (x \<longrightarrow> ?h p ?c) \<and> (y \<longrightarrow> ?h p ?d)) (seqIO (case ?c of None \<Rightarrow> ret () | Some a \<Rightarrow> bindIO (safe_target (pv_candidate v) r False) (\<lambda>source. verify_one source a))
        (ret [\<lparr>ra_relative = r, ra_original = ?c\<rparr>])) ?Q ?P"
      by (rule spec_pre) (use \<open>\<not> \<not> y\<close> live [OF p] in \<open>auto simp: known_version_def\<close>)
  qed (auto intro: spec_raise)
  show ?thesis unfolding plan_path_def Let_def
  proof (rule spec_bind [OF t], rule spec_fact)
    fix p
    show "p = pv_root v @ tail_parts r" if "s = s0 \<and> p = pv_root v @ tail_parts r" for s using that by blast
    assume p: "p = pv_root v @ tail_parts r"
    show "spec False (\<lambda>s. s = s0 \<and> p = pv_root v @ tail_parts r) (bindIO (path_matches p ?c) (\<lambda>x. bindIO (path_matches p ?d) (\<lambda>y.
       if x then ret [] else if \<not> y then raise SyncError
       else seqIO (case ?c of None \<Rightarrow> ret () | Some a \<Rightarrow> bindIO (safe_target (pv_candidate v) r False) (\<lambda>source. verify_one source a))
        (ret [\<lparr>ra_relative = r, ra_original = ?c\<rparr>])))) ?Q ?P"
      by (rule spec_pre [OF spec_bind [OF m1 spec_bind [OF m2 fin [OF p]]]]) simp
  qed
qed

lemma spec_collect_all:
  assumes "\<And>x. x \<in> set xs \<Longrightarrow> spec q P (f x) (\<lambda>_ s. P s \<and> A x) I"
  shows "spec q P (collectIO f xs) (\<lambda>_ s. P s \<and> (\<forall>x \<in> set xs. A x)) I"
proof -
  let ?J = "\<lambda>pre (_ :: 'b list) s. P s \<and> (\<forall>x \<in> set pre. A x)"
  have "spec q (?J [] []) (collectIO f xs) (\<lambda>ys. ?J xs ys) I"
  proof (rule spec_collect [where J = ?J])
    fix pre x post and ys :: "'b list" assume e: "xs = pre @ x # post"
    show "spec q (?J pre ys) (f x) (\<lambda>y. ?J (pre @ [x]) (ys @ [y])) I"
    proof (rule spec_fact [where A = "\<forall>x \<in> set pre. A x"], blast)
      assume "\<forall>x \<in> set pre. A x"
      then show "spec q (?J pre ys) (f x) (\<lambda>y. ?J (pre @ [x]) (ys @ [y])) I"
        by (intro spec_conseq [OF assms [of x]]) (auto simp: e)
    qed
  qed
  then show ?thesis by (rule spec_pre) simp
qed

text \<open>
  C4: Let the journal be that of a transaction in the phase \<open>applying\<close>, or in the phase \<open>promoted\<close> with
  no receipt for it.  When a changed path holds neither the version it had nor the desired one, say because
  the player saved in between, recovery raises, whatever the schedule does, and leaves the disk and the
  journal as they are: no file of any view is overwritten.
\<close>

theorem unknown_version_kept:
  assumes "tidy_transaction tx" and "\<forall>r \<in> set allowed. validated_root (st_tree s) r = Inr r" and "pv_root ` set (tx_views tx) \<subseteq> set allowed"
    and "st_journal s = JournalFile (written (journal_payload tx p))" and "p = Applying \<or> p = Promoted \<and> receipt \<noteq> Some (tx_id tx)"
    and "v \<in> set (tx_views tx)" and "r \<in> set (view_changes v)"
    and "\<not> holds_version (st_tree s) (live v r) (map_of (pv_current v) r)" and "\<not> holds_version (st_tree s) (live v r) (map_of (pv_desired v) r)"
  shows "(\<forall>b. fst (recover_transaction allowed receipt (es, s)) \<noteq> Ok b)
     \<and> st_tree (after (recover_transaction allowed receipt (es, s))) = st_tree s \<and> st_journal (after (recover_transaction allowed receipt (es, s))) = st_journal s"
proof -
  let ?I = "\<lambda>st :: state. st_tree st = st_tree s \<and> st_journal st = st_journal s"
  let ?rtx = "resumed tx"
  have read: "spec False (\<lambda>st. st = s) (read_journal allowed) (\<lambda>x st. x = (?rtx, p) \<and> ?I st \<and> st_touched st \<and> \<not> st_finished st) ?I"
    by (rule spec_read_journal) (use assms in \<open>auto simp: journal_of_def\<close>)
  have plan: "spec False (\<lambda>st. st = s1) (collectIO (\<lambda>v. bindIO (plan_restore v) (\<lambda>plan. ret (v, plan))) (rev (tx_views ?rtx)))
      (\<lambda>_ _. False) (\<lambda>st. st = s1)" if s1: "?I s1" for s1
  proof (rule spec_post [OF spec_collect_all [where A = "\<lambda>v. \<forall>r \<in> set (view_changes v). known_version (st_tree s1) v r"]])
    fix w
    have a: "spec False (\<lambda>st. st = s1) (collectIO (plan_path w) (view_changes w)) (\<lambda>_ st. st = s1 \<and> (\<forall>r \<in> set (view_changes w). known_version (st_tree s1) w r)) (\<lambda>st. st = s1)"
      by (rule spec_collect_all) (rule spec_plan_known)
    have "spec False (\<lambda>st. st = s1) (plan_restore w) (\<lambda>_ st. st = s1 \<and> (\<forall>r \<in> set (view_changes w). known_version (st_tree s1) w r)) (\<lambda>st. st = s1)"
      unfolding plan_restore_def by (rule spec_bind [OF a]) (auto intro: spec_ret)
    then show "spec False (\<lambda>st. st = s1) (bindIO (plan_restore w) (\<lambda>plan. ret (w, plan)))
      (\<lambda>_ st. st = s1 \<and> (\<forall>r \<in> set (view_changes w). known_version (st_tree s1) w r)) (\<lambda>st. st = s1)"
      by (rule spec_bind) (auto intro: spec_ret)
  next
    show False if "st = s1 \<and> (\<forall>v \<in> set (rev (tx_views ?rtx)). \<forall>r \<in> set (view_changes v). known_version (st_tree s1) v r)" for st
      using that assms(6-9) s1 by (auto simp: known_version_def)
  qed
  have roll: "spec False (\<lambda>st. ?I st \<and> st_touched st \<and> \<not> st_finished st) (rollback ?rtx) (\<lambda>_ _. False) ?I"
    unfolding rollback_def
  proof (rule spec_state)
    fix s1 assume s1: "?I s1 \<and> st_touched s1 \<and> \<not> st_finished s1"
    have c: "spec False (\<lambda>st. st = s1) (catchIO (collectIO (\<lambda>v. bindIO (plan_restore v) (\<lambda>plan. ret (v, plan))) (rev (tx_views ?rtx))) (\<lambda>_. raise SyncError))
      (\<lambda>_ _. False) ?I"
      by (rule spec_catch [OF plan]) (use s1 in \<open>auto intro: spec_raise\<close>)
    have k: "spec False (\<lambda>_. False) m Q I" for m :: "unit io" and Q I by (simp add: spec_def)
    show "spec False (\<lambda>st. st = s1) (if st_finished s1 then ret ()
     else if \<not> st_touched s1 then seqIO (cleanup True ?rtx) set_finished
     else bindIO (catchIO (collectIO (\<lambda>v. bindIO (plan_restore v) (\<lambda>plan. ret (v, plan))) (rev (tx_views ?rtx))) (\<lambda>_. raise SyncError)) (\<lambda>plans.
          bindIO (collectIO (restore_step (tx_id ?rtx)) plans) (\<lambda>restored.
          if \<forall>b \<in> set restored. b then seqIO (cleanup True ?rtx) set_finished else raise SyncError))) (\<lambda>_ _. False) ?I"
      using s1 by (simp del: resumed_simps) (rule spec_bind [OF c], rule k)
  qed
  have rec: "spec False (\<lambda>st. st = s) (recover_transaction allowed receipt) (\<lambda>_ _. False) ?I"
    unfolding recover_transaction_def
  proof (rule spec_state, rule spec_if)
    fix s0 assume s0: "s0 = s"
    show "spec False (\<lambda>st. st = s0) (ret False) (\<lambda>_ _. False) ?I" if "st_journal s0 = NoJournal" using that s0 assms(4) by simp
    show "spec False (\<lambda>st. st = s0) (bindIO (read_journal allowed) (\<lambda>(tx, p).
       if p = Promoted \<and> receipt = Some (tx_id tx) then seqIO (finalize tx) (ret True) else seqIO (rollback tx) (ret True))) (\<lambda>_ _. False) ?I"
    proof (rule spec_pre [OF spec_bind [OF read]])
      fix x
      have "spec False (\<lambda>st. ?I st \<and> st_touched st \<and> \<not> st_finished st) (seqIO (rollback ?rtx) (ret True)) (\<lambda>_ _. False) ?I"
        by (rule spec_bind [OF roll]) (simp add: spec_def)
      then show "spec False (\<lambda>st. x = (?rtx, p) \<and> ?I st \<and> st_touched st \<and> \<not> st_finished st) (case x of (tx, p) \<Rightarrow>
       if p = Promoted \<and> receipt = Some (tx_id tx) then seqIO (finalize tx) (ret True) else seqIO (rollback tx) (ret True)) (\<lambda>_ _. False) ?I"
      proof (rule_tac spec_fact [where A = "x = (?rtx, p)"], blast)
        assume x: "x = (?rtx, p)"
        assume r: "spec False (\<lambda>st. ?I st \<and> st_touched st \<and> \<not> st_finished st) (seqIO (rollback ?rtx) (ret True)) (\<lambda>_ _. False) ?I"
        have n: "\<not> (p = Promoted \<and> receipt = Some (tx_id ?rtx))" using assms(5) by auto
        show ?thesis unfolding x prod.case if_not_P [OF n] by (rule spec_pre [OF r]) blast
      qed
    qed (use s0 in auto)
  qed
  from spec_after [OF rec, of s es] show ?thesis by (auto split: outcome.splits)
qed

subsection \<open>A concrete operation\<close>

definition example_id :: string where
  "example_id = ''0123456789abcdef0123456789abcdef''"

definition example_tree :: tree where
  "example_tree = [([''r''], Directory), ([''r'', ''a''], File [1]), ([''s''], Directory), ([''s'', ''a''], File [2, 3])]"

definition example_view :: selected_view where
  "example_view = \<lparr>sv_root = [''r''], sv_current = [(''a'', \<lparr>art_path = ''a'', art_size = 1, art_hash = sha256_hex [1]\<rparr>)],
     sv_desired = [(''a'', \<lparr>art_path = ''a'', art_size = 2, art_hash = sha256_hex [2, 3]\<rparr>)],
     sv_source = (\<lambda>_ _. [''s'', ''a'']), sv_group = None\<rparr>"

definition example_start :: state where
  "example_start = \<lparr>st_tree = example_tree, st_journal = NoJournal, st_created = [], st_journal_created = False,
     st_touched = False, st_finished = False\<rparr>"

lemma example_changed: "changed_paths (sv_current example_view) (sv_desired example_view) = [''a'']"
  by (simp add: example_view_def changed_paths_def all_paths_def same_artifact_def)

lemma example_selected: "selected example_id [example_view] = [(example_view, prepared_view_of example_id example_view)]"
  by (simp add: selected_def example_changed)

lemma example_canonical: "is_canonical ''a''" and example_tail: "tail_parts ''a'' = [''a'']"
  by code_simp+

lemma example_prepared:
  "prepared_view_of example_id example_view =
     \<lparr>pv_root = [''r''], pv_stage = [''.r.savesync-stage-'' @ example_id], pv_previous = [''r.savesync-previous''],
      pv_candidate = [''.r.savesync-previous-'' @ example_id], pv_current = sv_current example_view, pv_desired = sv_desired example_view,
      pv_verify_current = sv_current example_view, pv_verify_desired = sv_desired example_view, pv_groups = []\<rparr>"
  unfolding prepared_view_of_def example_changed
  by (simp add: example_view_def crop_def stage_path_def candidate_path_def previous_path_def path_base_def prepared_groups_def all_paths_def)

lemmas example_fields = arg_cong [OF example_prepared, of pv_root, simplified] arg_cong [OF example_prepared, of pv_stage, simplified]
  arg_cong [OF example_prepared, of pv_candidate, simplified] arg_cong [OF example_prepared, of pv_previous, simplified]
  arg_cong [OF example_prepared, of pv_current, simplified] arg_cong [OF example_prepared, of pv_desired, simplified]

lemma example_change: "change (planned example_id [example_view]) v r \<longleftrightarrow> v = prepared_view_of example_id example_view \<and> r = ''a''"
proof -
  have "view_changes (prepared_view_of example_id example_view) = [''a'']"
    using example_changed by (simp add: view_changes_def example_prepared)
  then show ?thesis by (auto simp: change_def example_selected)
qed

lemma example_live: "live (prepared_view_of example_id example_view) ''a'' = [''r'', ''a'']"
  by (simp add: live_def example_prepared example_tail)

lemma example_above: "above_target (planned example_id [example_view]) p \<longleftrightarrow> p = [] \<or> p = [''r'']"
  by (auto simp: above_target_def example_change example_live strict_prefix_def prefix_Cons)

lemma example_tmp: "is_tmp (planned example_id [example_view]) p \<longleftrightarrow> p = [''r'', ''.a.savesync-restore-'' @ example_id]"
  by (simp add: is_tmp_def example_change example_live restore_tmp_path_def path_base_def)

lemma example_sha: "is_sha256 (sha256_hex b)"
proof -
  have h: "let n = (of_char c :: nat) in 48 \<le> n \<and> n \<le> 57 \<or> 65 \<le> n \<and> n \<le> 70 \<or> 97 \<le> n \<and> n \<le> 102" if "is_hex_char c" for c
    using that by (auto simp: is_hex_char_def)
  have "list_all is_hex_char (sha256_hex b)" by simp
  then show ?thesis unfolding is_sha256_def list_all_iff using h by simp
qed

lemma example_sound: "sound_transaction example_tree (planned example_id [example_view])"
proof -
  let ?v = "prepared_view_of example_id example_view" and ?tx = "planned example_id [example_view]"
  have m: "tidy_manifest (sv_current example_view)" "tidy_manifest (sv_desired example_view)"
    using example_canonical by (auto simp: tidy_manifest_def example_view_def validate_manifest_iff validate_entry_iff example_sha)
  have op: "is_operation_id example_id" by (simp add: is_operation_id_def example_id_def)
  have t: "tidy_view example_id ?v"
    using m by (simp add: tidy_view_def example_prepared stage_path_def candidate_path_def previous_path_def path_base_def clean_def)
  have tt: "tidy_transaction ?tx" using t op by (simp add: tidy_transaction_def example_selected apart_def planned_def Let_def)
  have w: "wf_tree example_tree" by (simp add: wf_tree_def example_tree_def is_dir_def lookup_def)
  have a: "apart (areas (tx_views ?tx))" by (simp add: apart_def areas_def example_selected example_prepared)
  have c: "view_changes ?v = [''a'']" using example_changed by (simp add: view_changes_def example_prepared)
  have h: "holds_version example_tree [''r'', ''a''] (map_of (pv_current ?v) ''a'')"
    unfolding example_fields by (simp add: example_view_def holds_version_def content_def lookup_def example_tree_def matches_def)
  have k: "fst ` set (pv_current ?v) \<union> fst ` set (pv_desired ?v) \<subseteq> {''a''}" unfolding example_fields by (simp add: example_view_def)
  have n: "lookup example_tree (pv_stage ?v) = None" "lookup example_tree (pv_candidate ?v) = None"
    by (simp_all add: example_prepared lookup_def example_tree_def)
  have u: "lookup example_tree [''r'', ''.a.savesync-restore-'' @ example_id] = None" by (simp add: lookup_def example_tree_def)
  show ?thesis unfolding sound_transaction_def example_above example_tmp example_change
    using tt w a c h k n u by (auto simp: example_selected example_live open_way_def lookup_def example_tree_def)
qed

lemma example_roots: "sound_roots example_tree (planned example_id [example_view]) [[''r'']]"
  unfolding sound_roots_def is_target_def example_tmp example_change
  by (auto simp: example_selected example_live example_fields is_owned_def prefix_Cons open_way_def lookup_def example_tree_def)

abbreviation example_operation :: transaction where
  "example_operation \<equiv> planned example_id [example_view]"

abbreviation accept :: "path \<Rightarrow> manifest \<Rightarrow> tree \<Rightarrow> bool" where
  "accept \<equiv> \<lambda>_ _ _. True"

lemma example_facts:
  "st_tree example_start = example_tree" "st_journal example_start = NoJournal"
  by (simp_all add: example_start_def)

lemma example_sources: "sources example_tree example_id [example_view]"
  unfolding sources_def example_selected
  by (simp add: example_fields) (simp add: example_view_def holds_version_def content_def lookup_def example_tree_def matches_def)

lemma example_accepted: "foldE (select_step example_tree example_id) [example_view] ([], []) = Inr ([[''r'']], [(example_view, prepared_view_of example_id example_view)])"
proof -
  have m: "validate_manifest (sv_current example_view) = Inr ()" "validate_manifest (sv_desired example_view) = Inr ()"
    using example_canonical by (auto simp: example_view_def validate_manifest_iff validate_entry_iff example_sha)
  have r: "validated_root example_tree (sv_root example_view) = Inr [''r'']"
    unfolding validated_root_iff by (auto simp: example_view_def prefix_Cons open_way_def lookup_def example_tree_def)
  show ?thesis
    by (simp add: select_step_def example_changed m r distinct_root_def example_fields present_def) (simp add: lookup_def example_tree_def)
qed



lemma example_previous: "\<forall>v \<in> views_of example_operation. open_way example_tree (pv_previous v)"
  by (simp add: example_selected example_fields) (simp add: open_way_def lookup_def example_tree_def)

lemma operation_undone_witness:
  "undone example_tree example_operation (after (recover_transaction [[''r'']] None
     ([], recoveries [[''r'']] None [[Perform, Perform, Crash]] (after (bindIO (prepare_transaction example_id [example_view])
       (apply_transaction accept accept) (replicate 40 Perform @ [Crash], example_start))))))"
  by (rule operation_undone [where s = example_start, unfolded example_facts, THEN conjunct1])
    (simp_all add: example_sound example_roots quiet_def)

lemma operation_completed_witness:
  "completed example_tree example_operation (after (bindIO (prepare_transaction example_id [example_view])
     (\<lambda>tx. seqIO (apply_transaction accept accept tx) (finalize tx)) ([], example_start)))"
  using operation_completed [where s = example_start and es = "[]" and vc = accept and vd = accept, unfolded example_facts,
      OF example_sound _ _ example_sources example_accepted _ example_previous]
  by (simp add: quiet_def fair_scans_def)


definition example_stuck :: state where
  "example_stuck = example_start\<lparr>st_tree := [([''r''], Directory), ([''r'', ''a''], File [7, 7, 7])],
     st_journal := JournalFile (written (journal_payload example_operation Applying))\<rparr>"

lemma example_root: "validated_root (st_tree example_stuck) [''r''] = Inr [''r'']"
  by (auto simp: validated_root_iff example_stuck_def prefix_Cons open_way_def lookup_def)

lemma unknown_version_kept_witness:
  "st_tree (after (recover_transaction [[''r'']] None ([Fault, Perform], example_stuck))) = st_tree example_stuck"
proof -
  let ?v = "prepared_view_of example_id example_view"
  have t: "tidy_transaction example_operation" by (rule sound_parts(1) [OF example_sound])
  have l: "live ?v ''a'' = [''r'', ''a'']" by (rule example_live)
  have c: "change example_operation ?v ''a''" by (simp add: example_change)
  have n: "\<not> holds_version (st_tree example_stuck) (live ?v ''a'') (map_of (pv_current ?v) ''a'')"
    "\<not> holds_version (st_tree example_stuck) (live ?v ''a'') (map_of (pv_desired ?v) ''a'')"
    unfolding l example_fields by (simp_all add: example_view_def example_stuck_def holds_version_def content_def lookup_def matches_def)
  have r: "\<forall>r \<in> set [[''r'']]. validated_root (st_tree example_stuck) r = Inr r"
    using example_root by simp
  have p: "pv_root ` set (tx_views example_operation) \<subseteq> set [[''r'']]" by (simp add: example_selected example_fields)
  have j: "st_journal example_stuck = JournalFile (written (journal_payload example_operation Applying))" by (simp add: example_stuck_def)
  show ?thesis using unknown_version_kept [OF t r p j, of None ?v "''a''" "[Fault, Perform]"] c n by (simp add: change_def)
qed

subsection \<open>The journal\<close>

text \<open>
  C5: The journal a transaction writes reads back, in every phase, as the same
  transaction with its verification scope cut to the journaled changes; a process that reads it
  rolls live files back exactly when the phase is \<open>applying\<close> or \<open>promoted\<close>.
\<close>

theorem transaction_journal_roundtrip:
  assumes "tidy_transaction tx" and "\<forall>r \<in> set allowed. validated_root (st_tree s) r = Inr r"
    and "pv_root ` set (tx_views tx) \<subseteq> set allowed" and "st_journal s = JournalFile (written (journal_payload tx p))"
  shows "read_journal allowed ([], s) =
    (Ok (resumed tx, p), ([], s\<lparr>st_touched := p \<in> {Applying, Promoted}, st_finished := False\<rparr>))"
proof -
  have r: "transaction_from (st_tree s) allowed (sort_json (journal_payload tx p)) = Inr (resumed tx, p)"
    using assms by (intro transaction_from_payload) auto
  have "doc_json (written (journal_payload tx p)) = Some (sort_json (journal_payload tx p))" by simp
  then show ?thesis by (simp add: read_journal_def catchIO_def run_steps assms(4) r del: sort_json.simps)
qed

lemma transaction_journal_roundtrip_witness:
  "read_journal [[''r'']] ([], example_stuck) = (Ok (resumed example_operation, Applying), ([], example_stuck\<lparr>st_touched := True, st_finished := False\<rparr>))"
  using transaction_journal_roundtrip [OF sound_parts(1) [OF example_sound], of "[[''r'']]" example_stuck Applying] example_root
  by (simp add: example_selected example_fields example_stuck_def del: written_def)

end
