(* ===== verification/SaveSelection.thy ===== *)
theory SaveSelection
  imports PosixPaths
begin

text \<open>
  The registry of save layouts (\<open>core/save_selection.py\<close>): which paths below the save root are eligible,
  which group of files each belongs to, and the directories discovery may enter.  The registry of
  Batocera layouts itself is in theory \<open>SaveRegistry\<close>; here a policy is any list of layouts, or the
  older rules.
\<close>

subsection \<open>Patterns\<close>

text \<open>\<open>str.casefold()\<close>; below code point 256 only one letter grows, and the micro sign is kept.\<close>

definition fold_char :: "char \<Rightarrow> string" where
  "fold_char c = (if (of_char c :: nat) = 223 then ''ss'' else [lower_char c])"

definition casefold :: "string \<Rightarrow> string" where
  "casefold s = concat (map fold_char s)"

text \<open>\<open>fnmatch.fnmatch\<close>: a star matches any characters, slashes too; classes hold characters and ranges.\<close>

datatype glob = Any_String | Any_Char | Class bool "(char \<times> char) list" | Literal char

fun class_items :: "string \<Rightarrow> (char \<times> char) list" where
  "class_items (a # b # c # s) = (if b = CHR ''-'' then (a, c) # class_items s else (a, a) # class_items (b # c # s))"
| "class_items s = map (\<lambda>a. (a, a)) s"

text \<open>The body of a class and what follows it: a bracket right after the start does not close it.\<close>

definition class_body :: "string \<Rightarrow> (string \<times> string) option" where
  "class_body s =
     (let first = (case s of c # _ \<Rightarrow> if c = CHR '']'' then [c] else [] | [] \<Rightarrow> []);
          rest = drop (length first) s
      in case dropWhile (\<lambda>c. c \<noteq> CHR '']'') rest of
           [] \<Rightarrow> None
         | _ # after \<Rightarrow> Some (first @ takeWhile (\<lambda>c. c \<noteq> CHR '']'') rest, after))"

lemma class_body_shorter: "class_body s = Some (b, after) \<Longrightarrow> length after < length s"
proof -
  let ?P = "\<lambda>c. c \<noteq> CHR '']''"
  assume a: "class_body s = Some (b, after)"
  define first where "first = (case s of c # _ \<Rightarrow> if c = CHR '']'' then [c] else [] | [] \<Rightarrow> [])"
  obtain c where "dropWhile ?P (drop (length first) s) = c # after"
    using a by (auto simp: class_body_def Let_def first_def split: list.splits)
  then have "length (c # after) \<le> length (drop (length first) s)" by (metis length_dropWhile_le)
  then show ?thesis by simp
qed

function parse_glob :: "string \<Rightarrow> glob list" where
  "parse_glob [] = []"
| "parse_glob (c # s) =
     (if c = CHR ''*'' then Any_String # parse_glob s
      else if c = CHR ''?'' then Any_Char # parse_glob s
      else if c = CHR ''['' then
        (let negated = startswith s ''!''
         in case class_body (if negated then tl s else s) of
              None \<Rightarrow> Literal c # parse_glob s
            | Some (body, after) \<Rightarrow> Class negated (class_items body) # parse_glob after)
      else Literal c # parse_glob s)"
  by pat_completeness auto
termination
proof (relation "measure length")
  fix c s x p body after
  assume "x = startswith s ''!''" and a: "class_body (if x then tl s else s) = Some p" and p: "(body, after) = p"
  have "class_body (if x then tl s else s) = Some (body, after)" using a p by simp
  from class_body_shorter [OF this] show "(after, c # s) \<in> measure length" by (auto split: if_splits)
qed auto

definition in_class :: "(char \<times> char) list \<Rightarrow> char \<Rightarrow> bool" where
  "in_class items c \<longleftrightarrow> (\<exists>(a, b) \<in> set items. a \<le> c \<and> c \<le> b)"

fun glob_match :: "glob list \<Rightarrow> string \<Rightarrow> bool" where
  "glob_match [] s \<longleftrightarrow> s = []"
| "glob_match (Any_String # g) [] \<longleftrightarrow> glob_match g []"
| "glob_match (Any_String # g) (c # s) \<longleftrightarrow> glob_match g (c # s) \<or> glob_match (Any_String # g) s"
| "glob_match (_ # g) [] \<longleftrightarrow> False"
| "glob_match (Any_Char # g) (c # s) \<longleftrightarrow> glob_match g s"
| "glob_match (Class negated items # g) (c # s) \<longleftrightarrow> in_class items c \<noteq> negated \<and> glob_match g s"
| "glob_match (Literal d # g) (c # s) \<longleftrightarrow> c = d \<and> glob_match g s"

text \<open>\<open>pattern.replace("**", "*")\<close>\<close>

fun single_stars :: "string \<Rightarrow> string" where
  "single_stars (a # b # s) = (if a = CHR ''*'' \<and> b = CHR ''*'' then a # single_stars s else a # single_stars (b # s))"
| "single_stars s = s"

definition matches_pattern :: "string \<Rightarrow> string \<Rightarrow> bool" where
  "matches_pattern path pattern \<longleftrightarrow> glob_match (parse_glob (single_stars pattern)) path"

subsection \<open>Layouts and rules\<close>

record save_layout =
  sl_id :: string
  sl_system :: string
  sl_root :: string
  sl_recursive :: bool
  sl_files :: "string list"
  sl_exclusions :: "string list"
  sl_shared :: bool
  sl_group_by :: string
  sl_opt_in :: bool
  sl_default :: bool
  sl_systems :: "string list"
  sl_emulators :: "string list"
  sl_cores :: "string list"
  sl_lifecycle :: bool
  sl_adapter :: string
  sl_policy :: string
  sl_kind :: string
  sl_markers :: "string list"

text \<open>A layout with the defaults of its constructor; the description is left out.\<close>

definition layout_default :: "string \<Rightarrow> string \<Rightarrow> save_layout" where
  "layout_default layout_id system =
     \<lparr>sl_id = layout_id, sl_system = system, sl_root = '''', sl_recursive = False, sl_files = [''*''], sl_exclusions = [],
      sl_shared = False, sl_group_by = ''root_stem'', sl_opt_in = False, sl_default = True, sl_systems = [],
      sl_emulators = [], sl_cores = [], sl_lifecycle = True, sl_adapter = '''', sl_policy = '''', sl_kind = '''',
      sl_markers = []\<rparr>"

record optional_group =
  og_id :: string
  og_include :: "string list"

record system_rule =
  ru_include :: "string list"
  ru_root_include :: "string list"
  ru_exclude :: "string list"
  ru_groups :: "optional_group list"
  ru_optional :: bool
  ru_default :: bool

record selection_decision =
  sd_included :: bool
  sd_group :: "string option"
  sd_reason :: string

record group_descriptor =
  gd_group :: string
  gd_layout :: string
  gd_system :: string
  gd_shared :: bool
  gd_container :: string
  gd_adapter :: string
  gd_policy :: string
  gd_kind :: string

record selection_policy =
  po_layouts :: "save_layout list"
  po_rules :: "(string, system_rule) dict option"

subsection \<open>Matching\<close>

text \<open>\<open>s.strip("/")\<close>\<close>

definition strip_slashes :: "string \<Rightarrow> string" where
  "strip_slashes s = rev (dropWhile (\<lambda>c. c = CHR ''/'') (rev (dropWhile (\<lambda>c. c = CHR ''/'') s)))"

definition segments :: "string \<Rightarrow> string list" where
  "segments value = (let normalized = strip_slashes (forward_slashes value) in if normalized = [] then [] else path_parts normalized)"

definition all_chars :: "nat \<Rightarrow> (char \<Rightarrow> bool) \<Rightarrow> string \<Rightarrow> bool" where
  "all_chars n P s \<longleftrightarrow> length s = n \<and> list_all P s"

definition hex_digit :: "char \<Rightarrow> bool" where
  "hex_digit c \<longleftrightarrow> (let n = (of_char c :: nat) in 48 \<le> n \<and> n \<le> 57 \<or> 65 \<le> n \<and> n \<le> 70 \<or> 97 \<le> n \<and> n \<le> 102)"

definition ascii_letter :: "char \<Rightarrow> bool" where
  "ascii_letter c \<longleftrightarrow> (let n = (of_char c :: nat) in 65 \<le> n \<and> n \<le> 90 \<or> 97 \<le> n \<and> n \<le> 122)"

definition host_directory :: "string \<Rightarrow> bool" where
  "host_directory v \<longleftrightarrow> v \<noteq> [] \<and> v \<notin> {''.'', ''..''} \<and> CHR ''/'' \<notin> set v \<and> CHR 0x5C \<notin> set v \<and> CHR 0x00 \<notin> set v"

definition token_validators :: "(string, string \<Rightarrow> bool) dict" where
  "token_validators =
     [(''{digits8}'', all_chars 8 ascii_digit),
      (''{hex8}'', all_chars 8 hex_digit),
      (''{hex32}'', all_chars 32 hex_digit),
      (''{hex16}'', all_chars 16 hex_digit),
      (''{sony_title_id}'', \<lambda>v. all_chars 4 ascii_letter (take 4 v) \<and> all_chars 5 ascii_digit (drop 4 v)),
      (''{dolphin_gc_region}'', \<lambda>v. v \<in> {''EUR'', ''USA'', ''JAP'', ''JPN''}),
      (''{dolphin_gc_card}'', \<lambda>v. v \<in> {''Card A'', ''Card B''}),
      (''{host_directory}'', host_directory),
      (''{dolphin_wii_save_type}'', \<lambda>v. v \<in> {''00010000'', ''00010001'', ''00010004''})]"

definition token_validator :: "string \<Rightarrow> (string \<Rightarrow> bool) option" where
  "token_validator segment = map_of token_validators segment"

definition segment_matches :: "string \<Rightarrow> string \<Rightarrow> bool" where
  "segment_matches pattern v = (case token_validator pattern of Some valid \<Rightarrow> valid v | None \<Rightarrow> pattern = v)"

definition match_layout :: "save_layout \<Rightarrow> string \<Rightarrow> (string list \<times> string list) option" where
  "match_layout l relative =
     (if relative = [] \<or> CHR 0x5C \<in> set relative \<or> startswith relative ''/'' \<or> endswith relative ''/'' then None
      else let parts = path_parts relative
      in if as_posix relative \<noteq> relative \<or> (\<exists>part \<in> set parts. part \<in> {''.'', ''..''}) then None
      else let roots = segments (sl_root l)
      in if length parts \<le> length roots then None
      else let actual = take (length roots) parts; remainder = drop (length roots) parts
      in if \<not> list_all2 segment_matches roots actual then None
      else if \<not> sl_recursive l \<and> length remainder \<noteq> 1 then None
      else let path = join ''/'' remainder
      in if \<exists>pattern \<in> set (sl_exclusions l). matches_pattern path pattern then None
      else if \<not> (\<exists>pattern \<in> set (sl_files l). matches_pattern path pattern) then None
      else Some (actual, remainder))"

subsection \<open>Groups\<close>

text \<open>\<open>s.find(sub)\<close>\<close>

fun find_from :: "nat \<Rightarrow> string \<Rightarrow> string \<Rightarrow> nat option" where
  "find_from i sub [] = (if sub = [] then Some i else None)"
| "find_from i sub (c # s) = (if startswith (c # s) sub then Some i else find_from (i + 1) sub s)"

definition root_stem :: "string \<Rightarrow> string" where
  "root_stem filename =
     (let folded = casefold filename;
          plain = casefold (stem_of (path_name filename));
          trim = (\<lambda>marker other. case find_from 0 marker folded of
             Some index \<Rightarrow> if 0 < index then casefold (take index filename) else other | None \<Rightarrow> other)
      in trim ''.savestat'' (trim ''.state'' plain))"

text \<open>A regular expression at the end of a text also matches before a final newline.\<close>

definition at_end :: "(string \<Rightarrow> string option) \<Rightarrow> string \<Rightarrow> string" where
  "at_end trim s =
     (case trim s of
        Some s' \<Rightarrow> s'
      | None \<Rightarrow> if s \<noteq> [] \<and> last s = CHR 0x0A then (case trim (butlast s) of Some s' \<Rightarrow> s' @ [CHR 0x0A] | None \<Rightarrow> s) else s)"

text \<open>\<open>re.sub(r"\.\d+$", "", s)\<close>\<close>

definition cut_number :: "string \<Rightarrow> string option" where
  "cut_number s =
     (let digits = takeWhile ascii_digit (rev s); rest = drop (length digits) (rev s)
      in if digits \<noteq> [] \<and> rest \<noteq> [] \<and> hd rest = CHR ''.'' then Some (rev (tl rest)) else None)"

definition without_number :: "string \<Rightarrow> string" where
  "without_number s = at_end cut_number s"

text \<open>\<open>re.sub(r"\.s\d{2}(?:\.dtm)?$", "", s, flags=re.I)\<close>\<close>

definition is_slot_suffix :: "string \<Rightarrow> bool" where
  "is_slot_suffix s \<longleftrightarrow> length s = 4 \<and> s ! 0 = CHR ''.'' \<and> lower_char (s ! 1) = CHR ''s'' \<and> ascii_digit (s ! 2) \<and> ascii_digit (s ! 3)"

definition cut_slot :: "string \<Rightarrow> string option" where
  "cut_slot s =
     (let n = length s
      in if 8 \<le> n \<and> map lower_char (drop (n - 4) s) = ''.dtm'' \<and> is_slot_suffix (take 4 (drop (n - 8) s)) then Some (take (n - 8) s)
      else if 4 \<le> n \<and> is_slot_suffix (drop (n - 4) s) then Some (take (n - 4) s) else None)"

definition without_slot :: "string \<Rightarrow> string" where
  "without_slot s = at_end cut_slot s"

definition group_key :: "save_layout \<Rightarrow> string list \<Rightarrow> string list \<Rightarrow> sync_error + string" where
  "group_key l root remainder =
     (if sl_group_by l = ''layout'' then Inr ''dataset''
      else if sl_group_by l = ''root''
      then (let k = casefold (join ''/'' root) in Inr (if k = [] then ''root'' else k))
      else if sl_group_by l = ''first_descendant''
      then Inr (strip_slashes (casefold (join ''/'' root) @ ''/'' @ casefold (hd remainder)))
      else if sl_group_by l = ''root_stem'' then Inr (root_stem (last remainder))
      else if sl_group_by l = ''root_file''
      then Inr (casefold (join ''/'' (root @ [stem_of (path_name (last remainder))])))
      else if sl_group_by l = ''n64_title'' then Inr (without_number (root_stem (last remainder)))
      else if sl_group_by l = ''dolphin_state'' then Inr (casefold (without_slot (last remainder)))
      else Inl (ValueError (''unknown SaveSync grouping strategy: '' @ sl_group_by l)))"

subsection \<open>Rules and policies\<close>

definition is_literal_root :: "string \<Rightarrow> bool" where
  "is_literal_root dir_name \<longleftrightarrow> dir_name \<noteq> [] \<and> CHR ''*'' \<notin> set dir_name \<and> CHR ''?'' \<notin> set dir_name \<and> CHR ''['' \<notin> set dir_name"

text \<open>The options every layout of a rule shares.\<close>

definition rule_layout :: "system_rule \<Rightarrow> save_layout \<Rightarrow> save_layout" where
  "rule_layout rule l = l\<lparr>sl_exclusions := ru_exclude rule, sl_opt_in := ru_optional rule, sl_default := ru_default rule\<rparr>"

text \<open>One pattern of a rule: a direct file pattern, or the tree under a literal directory.\<close>

definition include_step :: "string \<Rightarrow> system_rule \<Rightarrow> string \<Rightarrow> string list \<times> save_layout list \<Rightarrow> string list \<times> save_layout list" where
  "include_step system rule pattern = (\<lambda>(direct, result).
     (let normalized = forward_slashes pattern
      in if normalized = ''**'' then (direct, result)
         else if CHR ''/'' \<notin> set normalized then (direct @ [normalized], result)
         else if endswith normalized ''/**''
         then (let dir_name = strip_slashes (take (length normalized - 3) normalized)
               in if is_literal_root dir_name
                  then (direct, result @ [rule_layout rule (layout_default
                    (''custom-'' @ system @ ''-'' @ map (\<lambda>c. if c = CHR ''/'' then CHR ''-'' else c) dir_name) system)
                      \<lparr>sl_root := dir_name, sl_recursive := True\<rparr>])
                  else (direct, result))
         else (direct, result)))"

definition rule_layouts :: "string \<times> system_rule \<Rightarrow> save_layout list" where
  "rule_layouts = (\<lambda>(system, rule).
     (let (direct, trees) = fold (include_step system rule) (ru_include rule) (ru_root_include rule, [])
      in trees
         @ (if direct \<noteq> [] then [rule_layout rule (layout_default (''custom-'' @ system @ ''-root'') system)\<lparr>sl_files := dedup direct\<rparr>] else [])
         @ (if ''**'' \<in> set (ru_include rule)
            then [rule_layout rule (layout_default (''custom-'' @ system @ ''-tree'') system)\<lparr>sl_recursive := True\<rparr>] else [])))"

definition legacy_layouts :: "(string, system_rule) dict \<Rightarrow> save_layout list" where
  "legacy_layouts rules = concat (map rule_layouts (sort_key fst rules))"

definition policy_of :: "save_layout list \<Rightarrow> (string, system_rule) dict option \<Rightarrow> save_layout list option \<Rightarrow> sync_error + selection_policy" where
  "policy_of registry rules layouts =
     (if rules \<noteq> None \<and> layouts \<noteq> None then Inl (ValueError ''provide rules or layouts, not both'')
      else let selected = (case (layouts, rules) of (Some ls, _) \<Rightarrow> ls | (None, Some r) \<Rightarrow> legacy_layouts r | _ \<Rightarrow> registry)
      in if distinct (map sl_id selected) then Inr \<lparr>po_layouts = selected, po_rules = rules\<rparr>
         else Inl (ValueError ''SaveSync layout ids must be unique''))"

definition layout_by_id :: "selection_policy \<Rightarrow> string \<Rightarrow> save_layout option" where
  "layout_by_id po i = find (\<lambda>l. sl_id l = i) (po_layouts po)"

text \<open>The layouts whose emulator or core selector names the session, and otherwise those of its system.\<close>

definition names_session :: "string \<Rightarrow> string \<Rightarrow> string \<Rightarrow> save_layout \<Rightarrow> bool" where
  "names_session system emulator core l \<longleftrightarrow>
     (sl_systems l = [] \<or> system \<in> casefold ` set (sl_systems l))
     \<and> (emulator \<noteq> [] \<and> emulator \<in> casefold ` set (sl_emulators l) \<or> core \<noteq> [] \<and> core \<in> casefold ` set (sl_cores l))"

definition layout_ids_for_lifecycle :: "selection_policy \<Rightarrow> string \<Rightarrow> string \<Rightarrow> string \<Rightarrow> string set" where
  "layout_ids_for_lifecycle po system emulator core =
     (let system_key = casefold (strip system); emulator_key = casefold (strip emulator); core_key = casefold (strip core);
          layouts = filter sl_lifecycle (po_layouts po);
          specific = filter (names_session system_key emulator_key core_key) layouts
      in if specific \<noteq> [] then sl_id ` set specific
         else if system_key = [] then {}
         else sl_id ` set (filter (\<lambda>l. sl_emulators l = [] \<and> sl_cores l = []
                \<and> system_key \<in> casefold ` set (if sl_systems l = [] then [sl_system l] else sl_systems l)) layouts))"

definition is_lifecycle_enabled :: "selection_policy \<Rightarrow> string \<Rightarrow> bool" where
  "is_lifecycle_enabled po i = (case layout_by_id po i of None \<Rightarrow> False | Some l \<Rightarrow> sl_lifecycle l)"

definition lifecycle_disabled :: "selection_policy \<Rightarrow> string set" where
  "lifecycle_disabled po = sl_id ` set (filter (\<lambda>l. \<not> sl_lifecycle l) (po_layouts po))"

definition known_systems :: "selection_policy \<Rightarrow> string set" where
  "known_systems po = sl_system ` set (po_layouts po)"

definition is_known_system :: "selection_policy \<Rightarrow> string \<Rightarrow> bool" where
  "is_known_system po system \<longleftrightarrow> (\<exists>l \<in> set (po_layouts po). sl_system l = system)"

definition is_optional :: "selection_policy \<Rightarrow> string \<Rightarrow> bool" where
  "is_optional po system =
     (let ls = filter (\<lambda>l. sl_system l = system) (po_layouts po) in ls \<noteq> [] \<and> list_all sl_opt_in ls)"

definition default_enabled :: "selection_policy \<Rightarrow> string \<Rightarrow> bool" where
  "default_enabled po system =
     (let ls = filter (\<lambda>l. sl_system l = system) (po_layouts po) in ls = [] \<or> list_all sl_default ls)"

definition included :: selection_decision where
  "included = \<lparr>sd_included = True, sd_group = None, sd_reason = []\<rparr>"

definition excluded :: "string \<Rightarrow> selection_decision" where
  "excluded reason = \<lparr>sd_included = False, sd_group = None, sd_reason = reason\<rparr>"

definition matches_any :: "string \<Rightarrow> string list \<Rightarrow> bool" where
  "matches_any path patterns \<longleftrightarrow> (\<exists>pattern \<in> set patterns. matches_pattern path pattern)"

definition classify_rule :: "system_rule \<Rightarrow> string \<Rightarrow> string set \<Rightarrow> selection_decision" where
  "classify_rule rule relative enabled_groups =
     (let normalized = forward_slashes relative
      in if matches_any normalized (ru_exclude rule) then excluded ''generated/cache exclusion''
         else case find (\<lambda>g. matches_any normalized (og_include g)) (ru_groups rule) of
           Some g \<Rightarrow> (let enabled = og_id g \<in> enabled_groups
             in \<lparr>sd_included = enabled, sd_group = Some (og_id g),
                 sd_reason = (if enabled then [] else ''optional large-content group disabled'')\<rparr>)
         | None \<Rightarrow>
             if CHR ''/'' \<notin> set normalized \<and> matches_any normalized (ru_root_include rule) then included
             else if matches_any normalized (ru_include rule) then included
             else excluded ''not selected by policy'')"

definition classify :: "selection_policy \<Rightarrow> string \<Rightarrow> string \<Rightarrow> string set \<Rightarrow> string \<Rightarrow> selection_decision" where
  "classify po system relative enabled_groups trusted =
     (case po_rules po of
        Some rules \<Rightarrow> (case map_of rules system of None \<Rightarrow> excluded ''unsupported system'' | Some rule \<Rightarrow> classify_rule rule relative enabled_groups)
      | None \<Rightarrow>
          if \<exists>l \<in> set (po_layouts po). sl_system l = system \<and> (sl_markers l = [] \<or> sl_id l = trusted) \<and> match_layout l relative \<noteq> None
          then included
          else excluded (if is_known_system po system then ''not selected by registry'' else ''unsupported system''))"

definition is_included :: "selection_policy \<Rightarrow> string \<Rightarrow> string \<Rightarrow> string set \<Rightarrow> bool" where
  "is_included po system relative enabled_groups = sd_included (classify po system relative enabled_groups [])"

text \<open>\<open>path.partition("/")\<close>: the parts around the first slash, \<open>None\<close> without one.\<close>

definition partition_slash :: "string \<Rightarrow> (string \<times> string) option" where
  "partition_slash s = (case dropWhile (\<lambda>c. c \<noteq> CHR ''/'') s of [] \<Rightarrow> None | _ # rest \<Rightarrow> Some (takeWhile (\<lambda>c. c \<noteq> CHR ''/'') s, rest))"

definition dynamic_segments :: "save_layout \<Rightarrow> nat" where
  "dynamic_segments l = length (filter (\<lambda>s. token_validator s \<noteq> None) (segments (sl_root l)))"

text \<open>The first layout that matches; \<open>Inr None\<close> when none does.\<close>

fun descriptor_from :: "string \<Rightarrow> string \<Rightarrow> string \<Rightarrow> save_layout list \<Rightarrow> sync_error + group_descriptor option" where
  "descriptor_from path system relative [] = Inr None"
| "descriptor_from path system relative (l # ls) =
     (if sl_system l \<noteq> system then descriptor_from path system relative ls
      else case match_layout l relative of
        None \<Rightarrow> descriptor_from path system relative ls
      | Some (root, remainder) \<Rightarrow>
          bindE (group_key l root remainder) (\<lambda>key.
          Inr (Some \<lparr>gd_group = sl_id l @ ''/'' @ key, gd_layout = sl_id l, gd_system = system, gd_shared = sl_shared l,
            gd_container = (if sl_kind l = ''file'' then path
              else if sl_kind l = ''directory'' then join ''/'' (system # root) else []),
            gd_adapter = sl_adapter l, gd_policy = sl_policy l, gd_kind = sl_kind l\<rparr>)))"

definition group_for_path :: "selection_policy \<Rightarrow> string \<Rightarrow> sync_error + group_descriptor option" where
  "group_for_path po path =
     (if path = [] \<or> CHR 0x5C \<in> set path \<or> startswith path ''/'' \<or> endswith path ''/'' \<or> as_posix path \<noteq> path then Inr None
      else case partition_slash path of
        None \<Rightarrow> Inr None
      | Some (system, relative) \<Rightarrow>
          if \<exists>part \<in> set (path_parts path). part \<in> {''.'', ''..''} then Inr None
          else descriptor_from path system relative (sort_key dynamic_segments (po_layouts po)))"

definition is_canonical_path_supported :: "selection_policy \<Rightarrow> string \<Rightarrow> sync_error + bool" where
  "is_canonical_path_supported po path = bindE (group_for_path po path) (\<lambda>d. Inr (d \<noteq> None))"

definition group_id_for_rom :: "selection_policy \<Rightarrow> string \<Rightarrow> string \<Rightarrow> string option" where
  "group_id_for_rom po layout_id rom =
     (case layout_by_id po layout_id of
        None \<Rightarrow> None
      | Some l \<Rightarrow>
          if sl_shared l \<or> sl_adapter l \<noteq> [] then None
          else if sl_group_by l \<notin> {''root_stem'', ''n64_title''} then None
          else (let stem = casefold (stem_of (path_name rom))
                in Some (layout_id @ ''/'' @ (if sl_group_by l = ''n64_title'' then without_number stem else stem))))"

definition shared_container_group_id :: "selection_policy \<Rightarrow> string \<Rightarrow> string option" where
  "shared_container_group_id po layout_id =
     (case layout_by_id po layout_id of
        None \<Rightarrow> None
      | Some l \<Rightarrow> if sl_group_by l = ''layout'' then Some (layout_id @ ''/dataset'') else None)"

definition optional_group_ids :: "selection_policy \<Rightarrow> string set" where
  "optional_group_ids po = (case po_rules po of None \<Rightarrow> {} | Some rules \<Rightarrow> \<Union>(_, rule) \<in> set rules. og_id ` set (ru_groups rule))"

end
