(* ===== verification/SaveRegistry.thy ===== *)
theory SaveRegistry
  imports SaveSelection
begin

text \<open>
  The registry of the supported Batocera save layouts (the tables of \<open>core/save_selection.py\<close>), without
  the descriptions, and the policy built from it.
\<close>

definition DOLPHIN_GC_MEMORY_CARD_FILES :: "string list" where
  "DOLPHIN_GC_MEMORY_CARD_FILES =
     concat (map (\<lambda>slot. concat (map (\<lambda>region.
       (let name = ''MemoryCard'' @ slot @ ''.'' @ region
        in (name @ ''.raw'') # map (\<lambda>blocks. name @ ''.'' @ show_nat blocks @ ''.raw'') [59, 123, 251, 507, 1019]))
       [''EUR'', ''USA'', ''JAP'', ''JPN''])) [''A'', ''B''])"

definition RETROARCH_SRM_SYSTEMS :: "string list" where
  "RETROARCH_SRM_SYSTEMS = words (join '' '' [
     ''3do adam advision amiga500 amiga1200 amigacd32 amigacdtv amstradcpc pcw apfm1000 arcadia archimedes'',
     ''arduboy astrocade atari2600 atari5200 atari7800 atari800 atarist atom atomiswave bbcmicro bk bennugd c64'',
     ''camplynx cassettevision cave3rd cavestory cgenie channelf coco colecovision crvision ctvboy dice dos'',
     ''dragon64 mc10 dreamcast electron enterprise fbneo fds fm7 gaelco gamate gameandwatch gamecom gamegear'',
     ''gamepock gb gb2players gba gbc gbc2players gmaster gong gp32 gx4000 intellivision jaguar jaguarcd'',
     ''laser310 lcdgames loopy lowresnx lutro lynx macintosh mame mastersystem megadrive megadrive-msu megaduck'',
     ''mrboom msx1 msx2 msx2+ msxturbor mz2000 mz2500 mz700 mz800 mz80k multivision n64 n64dd namco22 naomi'',
     ''naomi2 nds neogeo neogeocd nes ngp ngpc odyssey2 oricatmos pc60 pc88 pc98 pcengine pcenginecd pcfx pdp1'',
     ''pico pico8 pokemini prboom psx pv1000 pv2000 pc80 quake reminiscence rx78 satellaview saturn scv sega32x'',
     ''megacd sc3000 segaai beena sg1000 sgb sgb-msu1 socrates spectravideo superbroswar sufami supracan snes'',
     ''snes-msu1 supergrafx supervision sv8000 systemsp thomson ti99 tic80 trs80 tutor tvc tvgames uzebox vc4000'',
     ''vectrex vgmplay videopacplus vircon32 virtualboy vis vsmile wasm4 wswan wswanc x1 x68000 xegs xrick zc210'',
     ''zx81 zxspectrum''])"

definition SPECIAL_ROOT_SYSTEMS :: "string list" where
  "SPECIAL_ROOT_SYSTEMS = [''mame'', ''n64'', ''n64dd'', ''nds'']"

definition COMPLETE_RETROARCH_CLASSIC_SYSTEMS :: "string list" where
  "COMPLETE_RETROARCH_CLASSIC_SYSTEMS = words (join '' '' [
     ''atari2600 atari5200 atari7800 colecovision fds gamegear gb gb2players gba gbc gbc2players intellivision'',
     ''jaguar jaguarcd lynx mastersystem megacd megadrive megadrive-msu neogeo neogeocd nes ngp ngpc odyssey2'',
     ''pcengine pcenginecd psx satellaview sega32x sg1000 sgb sgb-msu1 snes snes-msu1 sufami supergrafx'',
     ''supervision vectrex virtualboy wswan wswanc''])"

definition LIFECYCLE_SYSTEM_ALIASES :: "(string, string list) dict" where
  "LIFECYCLE_SYSTEM_ALIASES =
     [(''bbcmicro'', [''bbc'']),
      (''gameandwatch'', [''gw'']),
      (''lynx'', [''atarilynx'']),
      (''megacd'', [''segacd'']),
      (''megadrive'', [''genesis'']),
      (''msx1'', [''msx'']),
      (''wswan'', [''wonderswan'']),
      (''wswanc'', [''wonderswancolor''])]"

definition retroarch_layout :: "string \<Rightarrow> save_layout" where
  "retroarch_layout system =
     (let complete = system \<in> set COMPLETE_RETROARCH_CLASSIC_SYSTEMS
      in (layout_default (''retroarch-root-'' @ system) system)\<lparr>
           sl_recursive := complete,
           sl_files := (if complete then [''*''] else [''*.srm'', ''*.state*'']),
           sl_systems := system # (case map_of LIFECYCLE_SYSTEM_ALIASES system of None \<Rightarrow> [] | Some names \<Rightarrow> names)\<rparr>)"

definition special_layouts :: "save_layout list" where
  "special_layouts =
   [(layout_default ''n64-root'' ''n64'')\<lparr>sl_files := [''*.srm'', ''*.eep'', ''*.sra'', ''*.fla'', ''*.mpk'', ''*.sav'', ''*.state*'', ''*.st?'', ''*.st??''],
        sl_group_by := ''n64_title''\<rparr>,
    (layout_default ''n64dd-root'' ''n64dd'')\<lparr>sl_files := [''*.srm'', ''*.eep'', ''*.sra'', ''*.fla'', ''*.mpk'', ''*.sav'', ''*.ndr'', ''*.d6r'', ''*.ram'', ''*.state*'', ''*.st?'', ''*.st??''],
        sl_group_by := ''n64_title''\<rparr>,
    (layout_default ''nds-root'' ''nds'')\<lparr>sl_files := [''*.srm'', ''*.sav'', ''*.state*'', ''*.mln'']\<rparr>,
    (layout_default ''mame-root'' ''mame'')\<lparr>sl_files := [''*.srm'', ''*.state*'']\<rparr>,
    (layout_default ''mame-nvram'' ''mame'')\<lparr>sl_root := ''nvram'', sl_recursive := True, sl_group_by := ''first_descendant''\<rparr>,
    (layout_default ''mame-state'' ''mame'')\<lparr>sl_root := ''state'', sl_recursive := True, sl_group_by := ''first_descendant''\<rparr>,
    (layout_default ''duckstation-memory-cards'' ''duckstation'')\<lparr>sl_root := ''memcards'', sl_recursive := True, sl_exclusions := [''*_resume.sav''],
        sl_shared := True, sl_group_by := ''root_file'', sl_systems := [''psx''],
        sl_emulators := [''duckstation''], sl_cores := [''duckstation''],
        sl_adapter := ''ps1-raw-memory-card'', sl_policy := ''ps1-commercial-namespace'',
        sl_kind := ''file''\<rparr>,
    (layout_default ''duckstation-root-sav'' ''duckstation'')\<lparr>sl_files := [''*.sav''], sl_exclusions := [''*_resume.sav''], sl_systems := [''psx''],
        sl_emulators := [''duckstation''], sl_cores := [''duckstation'']\<rparr>,
    (layout_default ''pcsx2-legacy-memory-cards'' ''pcsx2'')\<lparr>sl_files := [''Mcd*.ps2''], sl_shared := True, sl_group_by := ''root_file'',
        sl_systems := [''ps2'', ''pcsx2''], sl_adapter := ''pcsx2-monolithic-file-card'',
        sl_policy := ''opaque-only'', sl_kind := ''file''\<rparr>,
    (layout_default ''pcsx2-legacy-states'' ''pcsx2'')\<lparr>sl_root := ''sstates'', sl_recursive := True, sl_shared := True, sl_group_by := ''layout'',
        sl_systems := [''ps2'', ''pcsx2'']\<rparr>,
    (layout_default ''pcsx2-memory-cards'' ''ps2'')\<lparr>sl_root := ''pcsx2'', sl_files := [''Mcd*.ps2''], sl_shared := True, sl_group_by := ''root_file'',
        sl_systems := [''ps2'', ''pcsx2''], sl_adapter := ''pcsx2-monolithic-file-card'',
        sl_policy := ''opaque-only'', sl_kind := ''file''\<rparr>,
    (layout_default ''pcsx2-folder-memory-cards'' ''ps2'')\<lparr>sl_root := ''pcsx2/{host_directory}'', sl_recursive := True, sl_shared := True,
        sl_group_by := ''root'', sl_systems := [''ps2'', ''pcsx2''],
        sl_adapter := ''pcsx2-folder-memory-card'', sl_policy := ''pcsx2-folder-single-entry'',
        sl_kind := ''directory'', sl_markers := [''_pcsx2_superblock'']\<rparr>,
    (layout_default ''pcsx2-states'' ''ps2'')\<lparr>sl_root := ''pcsx2/sstates'', sl_recursive := True, sl_shared := True, sl_group_by := ''layout'',
        sl_systems := [''ps2'', ''pcsx2'']\<rparr>,
    (layout_default ''ppsspp-savedata'' ''ppsspp'')\<lparr>sl_root := ''PSP/SAVEDATA'', sl_recursive := True, sl_group_by := ''first_descendant'',
        sl_systems := [''psp'', ''ppsspp'']\<rparr>,
    (layout_default ''ppsspp-states'' ''ppsspp'')\<lparr>sl_root := ''PPSSPP_STATE'', sl_recursive := True, sl_group_by := ''root_stem'',
        sl_systems := [''psp'', ''ppsspp'']\<rparr>,
    (layout_default ''rpcs3-savedata'' ''ps3'')\<lparr>sl_root := ''rpcs3/dev_hdd0/home/{digits8}/savedata'', sl_recursive := True,
        sl_group_by := ''first_descendant''\<rparr>,
    (layout_default ''rpcs3-trophies'' ''ps3'')\<lparr>sl_root := ''rpcs3/dev_hdd0/home/{digits8}/trophy'', sl_recursive := True,
        sl_group_by := ''first_descendant'', sl_shared := True\<rparr>,
    (layout_default ''rpcs3-virtual-memory-cards'' ''ps3'')\<lparr>sl_root := ''rpcs3/dev_hdd0/savedata/vmc'', sl_recursive := True, sl_shared := True,
        sl_group_by := ''layout''\<rparr>,
    (layout_default ''rpcs3-savestates'' ''ps3'')\<lparr>sl_root := ''{sony_title_id}'', sl_files := [''*.SAVESTAT*''], sl_group_by := ''root''\<rparr>,
    (layout_default ''xenia-content'' ''xbox360'')\<lparr>sl_recursive := True, sl_shared := True, sl_group_by := ''layout''\<rparr>,
    (layout_default ''yuzu-account-title-save'' ''yuzu'')\<lparr>sl_root := ''0000000000000000/{hex32}/{hex16}'', sl_recursive := True, sl_group_by := ''root'',
        sl_systems := [''switch'', ''yuzu''], sl_emulators := [''eden'', ''citron'', ''yuzu''],
        sl_cores := [''eden'', ''citron'', ''yuzu'']\<rparr>,
    (layout_default ''azahar-title-saves'' ''3ds'')\<lparr>sl_root := ''azahar-emu/sdmc/Nintendo 3DS/{hex32}/{hex32}/title/{hex8}/{hex8}'',
        sl_recursive := True, sl_files := [''data/*''], sl_group_by := ''root'', sl_systems := [''3ds''],
        sl_emulators := [''azahar''], sl_cores := [''azahar'']\<rparr>,
    (layout_default ''cemu-title-saves'' ''wiiu'')\<lparr>sl_root := ''usr/save/{hex8}/{hex8}'', sl_recursive := True, sl_group_by := ''root'',
        sl_systems := [''wiiu''], sl_emulators := [''cemu''], sl_cores := [''cemu'']\<rparr>,
    (layout_default ''vita3k-title-saves'' ''psvita'')\<lparr>sl_root := ''ux0/user/00/savedata/{sony_title_id}'', sl_recursive := True,
        sl_group_by := ''root'', sl_systems := [''psvita'', ''vita''], sl_emulators := [''vita3k''],
        sl_cores := [''vita3k'']\<rparr>,
    (layout_default ''flycast-vmu-cards'' ''dreamcast'')\<lparr>sl_root := ''flycast'', sl_files := [''vmu_save_[A-D][1-2].bin'', ''*_vmu_save_[A-D][1-2].bin''],
        sl_shared := True, sl_group_by := ''root_file'', sl_systems := [''dreamcast''],
        sl_emulators := [''flycast''], sl_cores := [''flycast'']\<rparr>,
    (layout_default ''ymir-per-game-backup-memory'' ''ymir'')\<lparr>sl_root := ''backup/games'', sl_files := [''bup-int-*.bin'', ''bup-ext-*M-*.bin''],
        sl_shared := True, sl_group_by := ''root_file'', sl_systems := [''saturn''],
        sl_emulators := [''ymir''], sl_cores := [''ymir'']\<rparr>,
    (layout_default ''ymir-save-states'' ''ymir'')\<lparr>sl_root := ''{hex32}'', sl_files := [''*.savestate'', ''meta.txt''], sl_group_by := ''root'',
        sl_systems := [''saturn''], sl_emulators := [''ymir''], sl_cores := [''ymir'']\<rparr>,
    (layout_default ''ymir-global-backup-memory'' ''ymir'')\<lparr>sl_root := ''state'', sl_files := [''bup-int.bin''], sl_shared := True,
        sl_group_by := ''root_file'', sl_systems := [''saturn''], sl_emulators := [''ymir''],
        sl_cores := [''ymir'']\<rparr>,
    (layout_default ''dolphin-gc-memory-card-images'' ''dolphin-emu'')\<lparr>sl_root := ''GC'', sl_files := DOLPHIN_GC_MEMORY_CARD_FILES, sl_shared := True,
        sl_group_by := ''root_stem'', sl_systems := [''gamecube'']\<rparr>,
    (layout_default ''dolphin-gc-gci-saves'' ''dolphin-emu'')\<lparr>sl_root := ''GC/{dolphin_gc_region}/{dolphin_gc_card}'', sl_files := [''*.gci''],
        sl_group_by := ''root_file'', sl_systems := [''gamecube'']\<rparr>,
    (layout_default ''dolphin-wii-title-saves'' ''dolphin-emu'')\<lparr>sl_root := ''Wii/title/{dolphin_wii_save_type}/{hex8}/data'', sl_recursive := True,
        sl_group_by := ''root'', sl_systems := [''wii'']\<rparr>,
    (layout_default ''dolphin-save-states'' ''dolphin-emu'')\<lparr>sl_root := ''StateSaves'', sl_files := [''*.s[0-9][0-9]'', ''*.s[0-9][0-9].dtm''],
        sl_group_by := ''dolphin_state'', sl_systems := [''gamecube'', ''wii'']\<rparr>,
    (layout_default ''xemu-hdd'' ''xbox'')\<lparr>sl_files := [''xbox_hdd.qcow2''], sl_shared := True, sl_group_by := ''layout'', sl_opt_in := True,
        sl_default := False, sl_lifecycle := False\<rparr>]"

definition LAYOUTS :: "save_layout list" where
  "LAYOUTS =
     map retroarch_layout (sort (remdups (filter (\<lambda>s. s \<notin> set SPECIAL_ROOT_SYSTEMS) RETROARCH_SRM_SYSTEMS)))
     @ special_layouts"

text \<open>\<open>SaveSelectionPolicy()\<close>\<close>

definition DEFAULT_SAVE_SELECTION_POLICY :: selection_policy where
  "DEFAULT_SAVE_SELECTION_POLICY = \<lparr>po_layouts = LAYOUTS, po_rules = None\<rparr>"

end
