(* ===== verification/SaveScan.thy ===== *)
theory SaveScan
  imports SaveRegistry SaveDisk SaveModels
begin

text \<open>
  Discovery of saves (\<open>watch_roots\<close> and \<open>resolve_watch_roots_from_listing\<close> of
  \<open>core/save_selection.py\<close>, and the scans of \<open>infrastructure/save_tree.py\<close>): the directories a layout
  allows to be entered, on a disk and through the listings of a provider, and the manifest of the
  eligible files below them.

  Roots and names are those of a disk without special files; the segments of a root pattern are plain
  names.  The configured root is a directory or nothing: a configured root that is itself a symbolic link to a
  directory, which the code follows, is not modelled (links below it are, and are refused).  A provider that answers is a function from directories to their entries; the memo of its answers
  and of digests is not visible, and neither is the order in which a dictionary was filled.
\<close>

subsection \<open>Approved directories\<close>

record watch_root =
  wr_layout :: string
  wr_path :: path
  wr_canonical :: string
  wr_recursive :: bool

record provider_watch_root =
  pw_layout :: string
  pw_relative :: string
  pw_canonical :: string
  pw_recursive :: bool

definition watch_pattern :: "save_layout \<Rightarrow> string list" where
  "watch_pattern l = sl_system l # segments (sl_root l)"

text \<open>What remains of the pattern of a layout below a canonical prefix.\<close>

definition below_prefix :: "string list \<Rightarrow> string list \<Rightarrow> string list option" where
  "below_prefix start pattern =
     (if start = [] then Some pattern
      else if length start > length pattern
        \<or> (\<exists>(segment, actual) \<in> set (zip pattern start). token_validator segment \<noteq> None \<or> segment \<noteq> actual) then None
      else Some (drop (length start) pattern))"

text \<open>\<open>sorted(path.iterdir())\<close>, as names\<close>

definition child_names :: "tree \<Rightarrow> path \<Rightarrow> string list" where
  "child_names t p = sort (map last (filter (\<lambda>q. q \<noteq> [] \<and> butlast q = p) (map fst t)))"

definition enter_one :: "tree \<Rightarrow> string \<Rightarrow> path \<times> string list \<Rightarrow> (path \<times> string list) list" where
  "enter_one t segment = (\<lambda>(physical, canonical).
     case token_validator segment of
       None \<Rightarrow> if is_dir t (physical @ [segment]) then [(physical @ [segment], canonical @ [segment])] else []
     | Some valid \<Rightarrow>
         if is_dir t physical
         then map (\<lambda>n. (physical @ [n], canonical @ [n])) (filter (\<lambda>n. valid n \<and> is_dir t (physical @ [n])) (child_names t physical))
         else [])"

definition enter_segment :: "tree \<Rightarrow> string \<Rightarrow> (path \<times> string list) list \<Rightarrow> (path \<times> string list) list" where
  "enter_segment t segment candidates = concat (map (enter_one t segment) candidates)"

definition has_markers :: "tree \<Rightarrow> save_layout \<Rightarrow> path \<Rightarrow> bool" where
  "has_markers t l physical \<longleftrightarrow> (\<forall>marker \<in> set (sl_markers l). content t (physical @ tail_parts marker) \<noteq> None)"

definition layout_watch_roots :: "tree \<Rightarrow> path \<Rightarrow> string set \<Rightarrow> string list \<Rightarrow> save_layout \<Rightarrow> watch_root list" where
  "layout_watch_roots t root enabled start l =
     (if sl_opt_in l \<and> sl_system l \<notin> enabled then []
      else case below_prefix start (watch_pattern l) of
        None \<Rightarrow> []
      | Some remaining \<Rightarrow>
          map (\<lambda>(physical, canonical). \<lparr>wr_layout = sl_id l, wr_path = physical, wr_canonical = join ''/'' canonical,
                 wr_recursive = sl_recursive l\<rparr>)
            (filter (\<lambda>(physical, canonical). has_markers t l physical) (fold (enter_segment t) remaining [(root, start)])))"

definition watch_roots :: "selection_policy \<Rightarrow> tree \<Rightarrow> path \<Rightarrow> string set \<Rightarrow> string \<Rightarrow> watch_root list" where
  "watch_roots po t root enabled canonical_prefix =
     (if \<not> is_dir t root then []
      else sort_key wr_canonical (sort_key wr_layout
        (concat (map (layout_watch_roots t root enabled (segments canonical_prefix)) (po_layouts po)))))"

subsection \<open>The same through listings\<close>

definition child_of :: "string \<Rightarrow> string \<Rightarrow> string" where
  "child_of relative name = (if relative = [] then name else relative @ ''/'' @ name)"

definition list_one :: "(string \<Rightarrow> bool) \<Rightarrow> (string \<Rightarrow> string list) \<Rightarrow> string \<Rightarrow> string \<times> string list \<Rightarrow> (string \<times> string list) list" where
  "list_one dir_exists list_subdirs segment = (\<lambda>(relative, canonical).
     case token_validator segment of
       None \<Rightarrow> (let candidate = child_of relative segment in if dir_exists candidate then [(candidate, canonical @ [segment])] else [])
     | Some valid \<Rightarrow>
         if relative \<noteq> [] \<and> \<not> dir_exists relative then []
         else map (\<lambda>n. (child_of relative n, canonical @ [n])) (filter valid (list_subdirs relative)))"

definition list_segment :: "(string \<Rightarrow> bool) \<Rightarrow> (string \<Rightarrow> string list) \<Rightarrow> string \<Rightarrow> (string \<times> string list) list \<Rightarrow> (string \<times> string list) list" where
  "list_segment dir_exists list_subdirs segment candidates = concat (map (list_one dir_exists list_subdirs segment) candidates)"

definition listed_markers :: "(string \<Rightarrow> bool) option \<Rightarrow> save_layout \<Rightarrow> string \<Rightarrow> bool" where
  "listed_markers file_exists l relative \<longleftrightarrow>
     (sl_markers l = [] \<or> (case file_exists of None \<Rightarrow> False
        | Some ex \<Rightarrow> \<forall>marker \<in> set (sl_markers l). ex (child_of relative marker)))"

definition listed_watch_roots :: "(string \<Rightarrow> bool) \<Rightarrow> (string \<Rightarrow> string list) \<Rightarrow> (string \<Rightarrow> bool) option
    \<Rightarrow> string set \<Rightarrow> string list \<Rightarrow> save_layout \<Rightarrow> provider_watch_root list" where
  "listed_watch_roots dir_exists list_subdirs file_exists enabled start l =
     (if sl_opt_in l \<and> sl_system l \<notin> enabled then []
      else case below_prefix start (watch_pattern l) of
        None \<Rightarrow> []
      | Some remaining \<Rightarrow>
          map (\<lambda>(relative, canonical). \<lparr>pw_layout = sl_id l, pw_relative = relative, pw_canonical = join ''/'' canonical,
                 pw_recursive = sl_recursive l\<rparr>)
            (filter (\<lambda>(relative, canonical). listed_markers file_exists l relative)
              (fold (list_segment dir_exists list_subdirs) remaining [([], start)])))"

definition resolve_watch_roots_from_listing :: "selection_policy \<Rightarrow> (string \<Rightarrow> bool) \<Rightarrow> (string \<Rightarrow> string list)
    \<Rightarrow> (string \<Rightarrow> bool) option \<Rightarrow> string set \<Rightarrow> string \<Rightarrow> provider_watch_root list" where
  "resolve_watch_roots_from_listing po dir_exists list_subdirs file_exists enabled canonical_prefix =
     sort_key pw_canonical (sort_key pw_layout
       (concat (map (listed_watch_roots dir_exists list_subdirs file_exists enabled (segments canonical_prefix)) (po_layouts po))))"

subsection \<open>Scanning a disk\<close>

record scan_report =
  sc_artifacts :: manifest
  sc_excluded_files :: int
  sc_excluded_bytes :: int
  sc_optional :: "(string \<times> int \<times> int) list"

text \<open>The regular files below an approved directory, with the components of their relative paths.\<close>

fun approved_files :: "tree \<Rightarrow> path \<Rightarrow> bool \<Rightarrow> (string list \<times> byte list) list" where
  "approved_files [] root recursive = []"
| "approved_files ((p, n) # t) root recursive =
     (case n of
        File b \<Rightarrow> if strict_prefix root p \<and> (recursive \<or> length p = length root + 1)
                  then (drop (length root) p, b) # approved_files t root recursive else approved_files t root recursive
      | _ \<Rightarrow> approved_files t root recursive)"

definition include_set :: "path \<Rightarrow> string set option \<Rightarrow> path set option" where
  "include_set root only = map_option (\<lambda>rs. (\<lambda>r. root @ tail_parts r) ` rs) only"

text \<open>Whether a canonical path found below a directory of a layout is selected.\<close>

definition selects :: "selection_policy \<Rightarrow> string set \<Rightarrow> string \<Rightarrow> string \<Rightarrow> sync_error + bool" where
  "selects po enabled_groups trusted canonical =
     (case partition_slash canonical of
        None \<Rightarrow> Inr False
      | Some (system, relative) \<Rightarrow>
          if \<not> sd_included (classify po system relative enabled_groups trusted) then Inr False
          else is_canonical_path_supported po canonical)"

definition canonical_of :: "string \<Rightarrow> string \<Rightarrow> string" where
  "canonical_of canonical_root relative = strip_slashes (canonical_root @ ''/'' @ relative)"

definition add_artifact :: "string \<Rightarrow> int \<Rightarrow> string \<Rightarrow> manifest \<Rightarrow> sync_error + manifest" where
  "add_artifact canonical n_bytes digest m =
     (if canonical \<in> fst ` set m then fail (''SaveSync found duplicate canonical path: '' @ canonical)
      else Inr (m @ [(canonical, \<lparr>art_path = canonical, art_size = n_bytes, art_hash = digest\<rparr>)]))"

definition scan_file :: "selection_policy \<Rightarrow> string set \<Rightarrow> path set option \<Rightarrow> watch_root \<Rightarrow> string list \<times> byte list \<Rightarrow> manifest \<Rightarrow> sync_error + manifest" where
  "scan_file po enabled_groups only w = (\<lambda>(parts, b) m.
     if (case only of None \<Rightarrow> False | Some ps \<Rightarrow> wr_path w @ parts \<notin> ps) then Inr m
     else let canonical = canonical_of (wr_canonical w) (join ''/'' parts)
       in bindE (selects po enabled_groups (wr_layout w) canonical) (\<lambda>selected.
          if selected then add_artifact canonical (int (length b)) (sha256_hex b) m else Inr m))"

definition scan_root :: "selection_policy \<Rightarrow> tree \<Rightarrow> string set \<Rightarrow> path set option \<Rightarrow> watch_root \<Rightarrow> manifest \<Rightarrow> sync_error + manifest" where
  "scan_root po t enabled_groups only w m =
     foldE (scan_file po enabled_groups only w) (approved_files t (wr_path w) (wr_recursive w)) m"

definition report_of :: "manifest \<Rightarrow> scan_report" where
  "report_of m = \<lparr>sc_artifacts = m, sc_excluded_files = 0, sc_excluded_bytes = 0, sc_optional = []\<rparr>"

definition scan_watch_roots :: "selection_policy \<Rightarrow> tree \<Rightarrow> string set \<Rightarrow> path set option \<Rightarrow> watch_root list \<Rightarrow> sync_error + scan_report" where
  "scan_watch_roots po t enabled_groups only roots =
     bindE (foldE (scan_root po t enabled_groups only) roots []) (\<lambda>m. Inr (report_of m))"

definition scan_tree_report :: "selection_policy \<Rightarrow> tree \<Rightarrow> path \<Rightarrow> string set \<Rightarrow> string set \<Rightarrow> string set option \<Rightarrow> sync_error + scan_report" where
  "scan_tree_report po t root enabled enabled_groups only =
     scan_watch_roots po t enabled_groups (include_set root only) (watch_roots po t root enabled [])"

definition scan_tree :: "selection_policy \<Rightarrow> tree \<Rightarrow> path \<Rightarrow> string set \<Rightarrow> string set \<Rightarrow> sync_error + manifest" where
  "scan_tree po t root enabled enabled_groups =
     bindE (scan_tree_report po t root enabled enabled_groups None) (\<lambda>r. Inr (sc_artifacts r))"

definition scan_mapped_tree_report :: "selection_policy \<Rightarrow> tree \<Rightarrow> path \<Rightarrow> string \<Rightarrow> string \<Rightarrow> string set \<Rightarrow> string set option \<Rightarrow> sync_error + scan_report" where
  "scan_mapped_tree_report po t root system relative_prefix enabled_groups only =
     scan_watch_roots po t enabled_groups (include_set root only)
       (watch_roots po t root {} (system @ ''/'' @ strip_slashes relative_prefix))"

text \<open>\<open>merge_scan_reports\<close>\<close>

definition add_group :: "string \<times> int \<times> int \<Rightarrow> (string, int \<times> int) dict \<Rightarrow> (string, int \<times> int) dict" where
  "add_group = (\<lambda>(g, files, bytes) d. case map_of d g of
     None \<Rightarrow> AList.update g (files, bytes) d | Some (f, b) \<Rightarrow> AList.update g (f + files, b + bytes) d)"

definition merge_step :: "scan_report \<Rightarrow> manifest \<times> (string, int \<times> int) dict \<Rightarrow> sync_error + manifest \<times> (string, int \<times> int) dict" where
  "merge_step r = (\<lambda>(artifacts, optional).
     (let overlap = filter (\<lambda>p. p \<in> fst ` set (sc_artifacts r)) (map fst artifacts)
      in if overlap \<noteq> []
         then fail (''SaveSync found duplicate canonical paths: '' @ join '', '' (take 3 (sort overlap)))
         else Inr (artifacts @ sc_artifacts r, fold add_group (sc_optional r) optional)))"

definition merge_scan_reports :: "scan_report list \<Rightarrow> sync_error + scan_report" where
  "merge_scan_reports reports = bindE (foldE merge_step reports ([], [])) (\<lambda>(artifacts, optional).
     Inr \<lparr>sc_artifacts = artifacts, sc_excluded_files = sum_list (map sc_excluded_files reports),
          sc_excluded_bytes = sum_list (map sc_excluded_bytes reports), sc_optional = sort_key fst optional\<rparr>)"

subsection \<open>Scanning a provider\<close>

record provider_entry =
  en_name :: string
  en_directory :: bool
  en_symlink :: bool
  en_size :: "int option"

text \<open>\<open>ProviderTreeIndex\<close> over the listing function of a provider\<close>

definition index_children :: "(string \<Rightarrow> provider_entry list) \<Rightarrow> string \<Rightarrow> provider_entry list" where
  "index_children list_children relative =
     filter (\<lambda>e. \<not> en_symlink e \<and> en_name e \<notin> {'''', ''.'', ''..''} \<and> CHR ''/'' \<notin> set (en_name e) \<and> CHR 0x5C \<notin> set (en_name e))
       (list_children (strip_slashes relative))"

text \<open>\<open>s.rpartition("/")\<close>, without the separator\<close>

definition rpartition_slash :: "string \<Rightarrow> string \<times> string" where
  "rpartition_slash s =
     (let name = rev (takeWhile (\<lambda>c. c \<noteq> CHR ''/'') (rev s)) in (take (length s - length name - 1) s, name))"

definition index_dir_exists :: "(string \<Rightarrow> provider_entry list) \<Rightarrow> string \<Rightarrow> bool" where
  "index_dir_exists list_children relative =
     (let normalized = strip_slashes relative
      in if normalized = [] then True
         else let (parent, name) = rpartition_slash normalized
           in \<exists>e \<in> set (index_children list_children parent). en_name e = name \<and> en_directory e)"

definition index_list_subdirs :: "(string \<Rightarrow> provider_entry list) \<Rightarrow> string \<Rightarrow> string list" where
  "index_list_subdirs list_children relative = sort (map en_name (filter en_directory (index_children list_children relative)))"

definition index_file_exists :: "(string \<Rightarrow> provider_entry list) \<Rightarrow> string \<Rightarrow> bool" where
  "index_file_exists list_children relative =
     (let (parent, name) = rpartition_slash (strip_slashes relative)
      in \<exists>e \<in> set (index_children list_children parent). en_name e = name \<and> \<not> en_directory e)"

text \<open>
  \<open>files_under\<close>: directories wait on a stack.  Listings that never end are the only way not to return,
  so each directory listed costs one unit of fuel.
\<close>

definition list_entry :: "bool \<Rightarrow> string \<Rightarrow> string \<Rightarrow> provider_entry \<Rightarrow> (string \<times> string) list \<times> (string \<times> int) list
    \<Rightarrow> (string \<times> string) list \<times> (string \<times> int) list" where
  "list_entry recursive directory result_prefix e = (\<lambda>(pending, results).
     (let relative = child_of result_prefix (en_name e)
      in if en_directory e
         then (if recursive then pending @ [(child_of directory (en_name e), relative)] else pending, results)
         else (pending, results @ [(relative, case en_size e of None \<Rightarrow> 0 | Some n \<Rightarrow> n)])))"

fun files_loop :: "nat \<Rightarrow> (string \<Rightarrow> provider_entry list) \<Rightarrow> bool \<Rightarrow> (string \<times> string) list \<Rightarrow> (string \<times> int) list \<Rightarrow> (string \<times> int) list option" where
  "files_loop n children recursive [] results = Some results"
| "files_loop 0 children recursive (d # pending) results = None"
| "files_loop (Suc n) children recursive (d # pending) results =
     (let (directory, result_prefix) = last (d # pending);
          (pending', results') = fold (list_entry recursive directory result_prefix) (children directory) (butlast (d # pending), results)
      in files_loop n children recursive pending' results')"

definition files_under :: "nat \<Rightarrow> (string \<Rightarrow> provider_entry list) \<Rightarrow> string \<Rightarrow> bool \<Rightarrow> (string \<times> int) list option" where
  "files_under n list_children relative_root recursive =
     map_option (sort_key fst) (files_loop n (index_children list_children) recursive [(strip_slashes relative_root, [])] [])"

definition scan_listed :: "selection_policy \<Rightarrow> string set \<Rightarrow> string set option \<Rightarrow> (string \<Rightarrow> byte list) \<Rightarrow> provider_watch_root
    \<Rightarrow> string \<times> int \<Rightarrow> manifest \<Rightarrow> sync_error + manifest" where
  "scan_listed po enabled_groups only read w = (\<lambda>(relative, n_bytes) m.
     (let canonical = canonical_of (pw_canonical w) relative
      in bindE (selects po enabled_groups (pw_layout w) canonical) (\<lambda>selected.
         if \<not> selected \<or> (case only of None \<Rightarrow> False | Some ps \<Rightarrow> canonical \<notin> ps) then Inr m
         else add_artifact canonical n_bytes (sha256_hex (read (child_of (pw_relative w) relative))) m)))"

fun scan_listed_roots :: "nat \<Rightarrow> selection_policy \<Rightarrow> (string \<Rightarrow> provider_entry list) \<Rightarrow> (string \<Rightarrow> byte list) \<Rightarrow> string set \<Rightarrow> string set option
    \<Rightarrow> provider_watch_root list \<Rightarrow> manifest \<Rightarrow> (sync_error + manifest) option" where
  "scan_listed_roots n po list_children read enabled_groups only [] m = Some (Inr m)"
| "scan_listed_roots n po list_children read enabled_groups only (w # ws) m =
     (case files_under n list_children (pw_relative w) (pw_recursive w) of
        None \<Rightarrow> None
      | Some files \<Rightarrow>
          (case foldE (scan_listed po enabled_groups only read w) files m of
             Inl e \<Rightarrow> Some (Inl e)
           | Inr m' \<Rightarrow> scan_listed_roots n po list_children read enabled_groups only ws m'))"

definition scan_provider_tree_report :: "nat \<Rightarrow> selection_policy \<Rightarrow> (string \<Rightarrow> provider_entry list) \<Rightarrow> (string \<Rightarrow> byte list)
    \<Rightarrow> string set \<Rightarrow> string set \<Rightarrow> string set option \<Rightarrow> (sync_error + scan_report) option" where
  "scan_provider_tree_report n po list_children read enabled enabled_groups only =
     map_option (\<lambda>r. bindE r (\<lambda>m. Inr (report_of m)))
       (scan_listed_roots n po list_children read enabled_groups only
         (resolve_watch_roots_from_listing po (index_dir_exists list_children) (index_list_subdirs list_children)
            (Some (index_file_exists list_children)) enabled []) [])"

end
