(* ===== verification/ScanProperties.thy ===== *)
theory ScanProperties
  imports SaveScan TransactionLogic "HOL-Library.Multiset"
begin

text \<open>
  What discovery promises: the scan of a disk finds exactly the eligible files the layouts allow, and the
  scan of a provider that serves the same files finds the same manifest.
\<close>

subsection \<open>Plain names\<close>

definition plain :: "string \<Rightarrow> bool" where
  "plain n \<longleftrightarrow> n \<notin> {'''', ''.'', ''..''} \<and> CHR ''/'' \<notin> set n \<and> CHR 0x5C \<notin> set n"

abbreviation plain_path :: "string list \<Rightarrow> bool" where
  "plain_path q \<equiv> list_all plain q"

abbreviation text_of :: "string list \<Rightarrow> string" where
  "text_of q \<equiv> join ''/'' q"

lemma plain_clean: "plain_path q \<Longrightarrow> clean q"
  by (auto simp: clean_def plain_def list_all_iff)

lemma join_set: "set (text_of q) \<subseteq> insert (CHR ''/'') (\<Union> (set ` set q))"
proof (induction q)
  case (Cons x q)
  then show ?case by (cases "q = []") (auto simp: join_Cons)
qed simp

lemma plain_text:
  assumes "plain_path q" and "q \<noteq> []"
  shows "text_of q \<noteq> []" and "\<not> startswith (text_of q) ''/''" and "tail_parts (text_of q) = q" and "path_parts (text_of q) = q"
    and "as_posix (text_of q) = text_of q" and "CHR 0x5C \<notin> set (text_of q)"
proof -
  note c = plain_clean [OF assms(1)]
  from clean_join_relative [OF c assms(2)] show r: "text_of q \<noteq> []" "\<not> startswith (text_of q) ''/''" by simp_all
  show t: "tail_parts (text_of q) = q" by (rule tail_parts_clean [OF c assms(2)])
  show "path_parts (text_of q) = q" using r t by (simp add: path_parts_def is_absolute_def)
  show "as_posix (text_of q) = text_of q" using r t by (simp add: as_posix_def root_of_def no_leading_slashes)
  show "CHR 0x5C \<notin> set (text_of q)" using join_set [of q] assms(1) by (auto simp: plain_def list_all_iff)
qed

lemma join_append: "p \<noteq> [] \<Longrightarrow> q \<noteq> [] \<Longrightarrow> text_of (p @ q) = text_of p @ ''/'' @ text_of q"
proof (induction p)
  case (Cons x p)
  then show ?case by (cases "p = []") (auto simp: join_Cons)
qed simp

lemma last_text: "plain_path q \<Longrightarrow> q \<noteq> [] \<Longrightarrow> last (text_of q) \<noteq> CHR ''/''"
proof (induction q rule: rev_induct)
  case (snoc n q)
  then have n: "n \<noteq> []" "CHR ''/'' \<notin> set n" by (auto simp: plain_def)
  then have "last n \<noteq> CHR ''/''" by (metis last_in_set)
  with n show ?case by (cases "q = []") (auto simp: join_append)
qed simp

lemma endswith_slash: "endswith s ''/'' \<longleftrightarrow> s \<noteq> [] \<and> last s = CHR ''/''"
proof -
  have "drop (length s - 1) s = [last s]" if "s \<noteq> []" using that by (metis append_butlast_last_id append_eq_conv_conj length_butlast)
  then show ?thesis by (auto simp: endswith_def Suc_le_eq)
qed

lemma strip_slashes_id: "\<not> startswith s ''/'' \<Longrightarrow> \<not> endswith s ''/'' \<Longrightarrow> strip_slashes s = s"
proof (cases "s = []")
  case False
  assume "\<not> startswith s ''/''" and "\<not> endswith s ''/''"
  with False have "hd s \<noteq> CHR ''/''" "hd (rev s) \<noteq> CHR ''/''" by (auto simp: startswith_slash endswith_slash hd_rev)
  then have "dropWhile (\<lambda>c. c = CHR ''/'') s = s" "dropWhile (\<lambda>c. c = CHR ''/'') (rev s) = rev s"
    using False by (auto intro!: dropWhile_hd)
  then show ?thesis by (simp add: strip_slashes_def)
qed (simp add: strip_slashes_def)

lemma not_endswith: "plain_path q \<Longrightarrow> \<not> endswith (text_of q) ''/''"
  using last_text [of q] by (cases "q = []") (auto simp: endswith_slash)

lemma strip_text [simp]: "plain_path q \<Longrightarrow> strip_slashes (text_of q) = text_of q"
  by (cases "q = []") (simp add: strip_slashes_def, rule strip_slashes_id, auto simp: not_endswith plain_text)

lemma tail_text [simp]: "plain_path q \<Longrightarrow> tail_parts (text_of q) = q"
proof (cases "q = []")
  case False
  assume "plain_path q"
  from plain_text(3) [OF this False] show ?thesis .
qed (simp add: tail_parts_def)

lemma text_inj: "plain_path p \<Longrightarrow> plain_path q \<Longrightarrow> text_of p = text_of q \<longleftrightarrow> p = q"
  by (metis tail_text)

lemma child_text: "plain_path q \<Longrightarrow> child_of (text_of q) n = text_of (q @ [n])"
  by (cases "q = []") (auto simp: child_of_def join_append plain_text)

lemma child_path: "plain_path q \<Longrightarrow> plain_path p \<Longrightarrow> p \<noteq> [] \<Longrightarrow> child_of (text_of q) (text_of p) = text_of (q @ p)"
  by (cases "q = []") (auto simp: child_of_def join_append plain_text)

lemma canonical_text: "plain_path (c @ q) \<Longrightarrow> c \<noteq> [] \<Longrightarrow> q \<noteq> [] \<Longrightarrow> canonical_of (text_of c) (text_of q) = text_of (c @ q)"
  using strip_text [of "c @ q"] by (simp add: canonical_of_def join_append)

lemma partition_text: "CHR ''/'' \<notin> set x \<Longrightarrow> q \<noteq> [] \<Longrightarrow> partition_slash (text_of (x # q)) = Some (x, text_of q)"
proof -
  assume x: "CHR ''/'' \<notin> set x" and q: "q \<noteq> []"
  have "takeWhile (\<lambda>c. c \<noteq> CHR ''/'') (x @ CHR ''/'' # s) = x" "dropWhile (\<lambda>c. c \<noteq> CHR ''/'') (x @ CHR ''/'' # s) = CHR ''/'' # s" for s
    using x by (induction x) auto
  then show ?thesis using q by (simp add: partition_slash_def join_Cons)
qed

lemma rpartition_text: "CHR ''/'' \<notin> set n \<Longrightarrow> rpartition_slash (text_of (q @ [n])) = (text_of q, n)"
proof (cases "q = []")
  case True
  assume "CHR ''/'' \<notin> set n"
  then have "takeWhile (\<lambda>c. c \<noteq> CHR ''/'') (rev n) = rev n" by (auto simp: takeWhile_eq_all_conv)
  then have "rev (takeWhile (\<lambda>c. c \<noteq> CHR ''/'') (rev n)) = n" by (simp only: rev_rev_ident)
  then show ?thesis using True by (simp only: rpartition_slash_def Let_def) simp
next
  case False
  assume n: "CHR ''/'' \<notin> set n"
  have "takeWhile (\<lambda>c. c \<noteq> CHR ''/'') (m @ CHR ''/'' # s) = m" if "CHR ''/'' \<notin> set m" for m s :: string
    using that by (induction m) auto
  from this [of "rev n"] n have "takeWhile (\<lambda>c. c \<noteq> CHR ''/'') (rev (text_of q @ CHR ''/'' # n)) = rev n" by simp
  then show ?thesis using False by (simp add: rpartition_slash_def join_append)
qed

subsection \<open>A provider that serves a disk\<close>

definition plain_tree :: "tree \<Rightarrow> bool" where
  "plain_tree t \<longleftrightarrow> (\<forall>p \<in> fst ` set t. plain_path p)"

definition plain_policy :: "selection_policy \<Rightarrow> bool" where
  "plain_policy po \<longleftrightarrow> (\<forall>l \<in> set (po_layouts po). plain_path (watch_pattern l) \<and> plain_path (sl_markers l))"

definition listing_entry :: "tree \<Rightarrow> path \<Rightarrow> string \<Rightarrow> provider_entry" where
  "listing_entry t p n = \<lparr>en_name = n, en_directory = is_dir t (p @ [n]), en_symlink = is_link t (p @ [n]),
     en_size = map_option (\<lambda>b. int (length b)) (content t (p @ [n]))\<rparr>"

text \<open>Every directory below the root is listed, in any order, and every file is read.\<close>

definition serves :: "(string \<Rightarrow> provider_entry list) \<Rightarrow> (string \<Rightarrow> byte list) \<Rightarrow> tree \<Rightarrow> path \<Rightarrow> bool" where
  "serves list_children read t root \<longleftrightarrow>
     (\<forall>q. plain_path q \<longrightarrow> is_dir t (root @ q) \<longrightarrow> mset (list_children (text_of q)) = mset (map (listing_entry t (root @ q)) (child_names t (root @ q))))
     \<and> (\<forall>q b. plain_path q \<longrightarrow> content t (root @ q) = Some b \<longrightarrow> read (text_of q) = b)"

lemma lookup_mem: "p \<noteq> [] \<Longrightarrow> lookup t p \<noteq> None \<longleftrightarrow> p \<in> fst ` set t"
  by (simp add: lookup_def map_of_eq_None_iff)

lemma child_path_iff: "q \<noteq> [] \<and> butlast q = p \<and> last q = n \<longleftrightarrow> q = p @ [n]" for q :: "string list"
  by (metis append_butlast_last_id butlast_snoc last_snoc snoc_eq_iff_butlast)

lemma mem_child_names: "n \<in> set (child_names t p) \<longleftrightarrow> p @ [n] \<in> fst ` set t"
proof -
  have "n \<in> set (child_names t p) \<longleftrightarrow> (\<exists>q \<in> fst ` set t. q \<noteq> [] \<and> butlast q = p \<and> last q = n)"
    by (auto simp: child_names_def)
  then show ?thesis by (simp only: child_path_iff) auto
qed

lemma distinct_child_names: "wf_tree t \<Longrightarrow> distinct (child_names t p)"
proof -
  assume "wf_tree t"
  then have d: "distinct (filter (\<lambda>q. q \<noteq> [] \<and> butlast q = p) (map fst t))" by (simp add: wf_tree_def)
  have "inj_on last (set (filter (\<lambda>q. q \<noteq> [] \<and> butlast q = p) (map fst t)))"
    by (rule inj_onI) (auto, metis append_butlast_last_id)
  with d have "distinct (map last (filter (\<lambda>q. q \<noteq> [] \<and> butlast q = p) (map fst t)))" by (simp add: distinct_map)
  then show ?thesis unfolding child_names_def distinct_sort .
qed

lemma sorted_child_names [simp]: "sorted (child_names t p)"
  by (simp add: child_names_def)

lemma child_plain: "plain_tree t \<Longrightarrow> n \<in> set (child_names t p) \<Longrightarrow> plain n"
  unfolding mem_child_names plain_tree_def by fastforce

lemma child_some: "n \<in> set (child_names t p) \<longleftrightarrow> lookup t (p @ [n]) \<noteq> None"
  using lookup_mem [of "p @ [n]" t] by (simp only: mem_child_names) blast

lemma en_simps [simp]: "en_name (listing_entry t p n) = n" "en_directory (listing_entry t p n) = is_dir t (p @ [n])"
    "en_symlink (listing_entry t p n) = is_link t (p @ [n])" "en_size (listing_entry t p n) = map_option (\<lambda>b. int (length b)) (content t (p @ [n]))"
  by (simp_all add: listing_entry_def)

lemma index_entries:
  assumes "serves list_children read t root" and "plain_tree t" and "plain_path q" and "is_dir t (root @ q)"
  shows "mset (index_children list_children (text_of q)) = mset (map (listing_entry t (root @ q)) (filter (\<lambda>n. \<not> is_link t (root @ q @ [n])) (child_names t (root @ q))))"
proof -
  let ?P = "\<lambda>e. \<not> en_symlink e \<and> en_name e \<notin> {'''', ''.'', ''..''} \<and> CHR ''/'' \<notin> set (en_name e) \<and> CHR 0x5C \<notin> set (en_name e)"
  have "mset (index_children list_children (text_of q)) = filter_mset ?P (mset (map (listing_entry t (root @ q)) (child_names t (root @ q))))"
    using assms by (simp add: index_children_def serves_def)
  also have "\<dots> = mset (filter ?P (map (listing_entry t (root @ q)) (child_names t (root @ q))))" by simp
  also have "filter ?P (map (listing_entry t (root @ q)) (child_names t (root @ q)))
      = map (listing_entry t (root @ q)) (filter (\<lambda>n. \<not> is_link t (root @ q @ [n])) (child_names t (root @ q)))"
    using child_plain [OF assms(2), of _ "root @ q"] by (auto simp: filter_map comp_def plain_def intro!: arg_cong [where f = "map _"] filter_cong)
  finally show ?thesis .
qed

lemma index_mem:
  assumes "serves list_children read t root" and "plain_tree t" and "plain_path q" and "is_dir t (root @ q)"
  shows "(\<exists>e \<in> set (index_children list_children (text_of q)). en_name e = n \<and> Q e)
     \<longleftrightarrow> n \<in> set (child_names t (root @ q)) \<and> \<not> is_link t (root @ q @ [n]) \<and> Q (listing_entry t (root @ q) n)"
proof -
  have "set (index_children list_children (text_of q)) = listing_entry t (root @ q) ` {n \<in> set (child_names t (root @ q)). \<not> is_link t (root @ q @ [n])}"
    using arg_cong [OF index_entries [OF assms], of set_mset] by auto
  then show ?thesis by auto
qed

lemma index_dir:
  assumes "serves list_children read t root" and "plain_tree t" and "plain_path (q @ [n])" and "is_dir t (root @ q)"
  shows "index_dir_exists list_children (text_of (q @ [n])) \<longleftrightarrow> is_dir t (root @ q @ [n])"
proof -
  have n: "CHR ''/'' \<notin> set n" using assms(3) by (simp add: plain_def)
  have "text_of (q @ [n]) \<noteq> []" using plain_text(1) [OF assms(3)] by simp
  then show ?thesis using index_mem [OF assms(1,2) _ assms(4), of n en_directory] assms(3)
    by (auto simp: index_dir_exists_def rpartition_text [OF n] is_dir_def is_link_def child_some)
qed

lemma index_file:
  assumes "serves list_children read t root" and "plain_tree t" and "plain_path (q @ [n])" and "is_dir t (root @ q)"
  shows "index_file_exists list_children (text_of (q @ [n])) \<longleftrightarrow> content t (root @ q @ [n]) \<noteq> None"
proof -
  have n: "CHR ''/'' \<notin> set n" using assms(3) by (simp add: plain_def)
  have "content t (root @ q @ [n]) \<noteq> None \<longleftrightarrow> n \<in> set (child_names t (root @ q)) \<and> \<not> is_link t (root @ q @ [n]) \<and> \<not> is_dir t (root @ q @ [n])"
    by (auto simp: child_some content_def is_link_def is_dir_def split: option.splits node.splits)
  then show ?thesis using index_mem [OF assms(1,2) _ assms(4), of n "\<lambda>e. \<not> en_directory e"] assms(3)
    by (auto simp: index_file_exists_def rpartition_text [OF n])
qed

lemma index_subdirs:
  assumes "serves list_children read t root" and "plain_tree t" and "plain_path q" and "is_dir t (root @ q)"
  shows "index_list_subdirs list_children (text_of q) = filter (\<lambda>n. is_dir t (root @ q @ [n])) (child_names t (root @ q))"
proof -
  let ?c = "child_names t (root @ q)"
  have "mset (map en_name (filter en_directory (index_children list_children (text_of q))))
      = image_mset en_name (filter_mset en_directory (mset (index_children list_children (text_of q))))" by simp
  also have "\<dots> = mset (map en_name (filter en_directory (map (listing_entry t (root @ q)) (filter (\<lambda>n. \<not> is_link t (root @ q @ [n])) ?c))))"
    unfolding index_entries [OF assms] by simp
  also have "map en_name (filter en_directory (map (listing_entry t (root @ q)) (filter (\<lambda>n. \<not> is_link t (root @ q @ [n])) ?c)))
      = filter (\<lambda>n. is_dir t (root @ q @ [n])) ?c"
    by (auto simp: filter_map comp_def is_dir_def is_link_def intro!: filter_cong)
  finally have m: "mset (map en_name (filter en_directory (index_children list_children (text_of q)))) = mset (filter (\<lambda>n. is_dir t (root @ q @ [n])) ?c)" .
  have "sort (map en_name (filter en_directory (index_children list_children (text_of q)))) = filter (\<lambda>n. is_dir t (root @ q @ [n])) ?c"
    by (rule properties_for_sort) (use m in \<open>auto intro: sorted_filter [of "\<lambda>x. x", simplified]\<close>)
  then show ?thesis by (simp add: index_list_subdirs_def)
qed

subsection \<open>Approved directories agree\<close>

text \<open>One segment, over relative directories.\<close>

definition step_one :: "tree \<Rightarrow> path \<Rightarrow> string \<Rightarrow> string list \<times> string list \<Rightarrow> (string list \<times> string list) list" where
  "step_one t root segment = (\<lambda>(q, c).
     map (\<lambda>n. (q @ [n], c @ [n]))
       (case token_validator segment of
          None \<Rightarrow> if is_dir t (root @ q @ [segment]) then [segment] else []
        | Some valid \<Rightarrow> filter (\<lambda>n. valid n \<and> is_dir t (root @ q @ [n])) (child_names t (root @ q))))"

definition dirs_ok :: "tree \<Rightarrow> path \<Rightarrow> (string list \<times> string list) list \<Rightarrow> bool" where
  "dirs_ok t root X \<longleftrightarrow> (\<forall>(q, c) \<in> set X. plain_path q \<and> (\<forall>p. prefix p q \<longrightarrow> is_dir t (root @ p)))"

lemma dirs_ok_here: "dirs_ok t root X \<Longrightarrow> (q, c) \<in> set X \<Longrightarrow> plain_path q \<and> is_dir t (root @ q)"
  by (auto simp: dirs_ok_def)

lemma step_mem: "(q', c') \<in> set (step_one t root segment (q, c)) \<Longrightarrow>
    \<exists>n. q' = q @ [n] \<and> is_dir t (root @ q @ [n]) \<and> (n = segment \<or> n \<in> set (child_names t (root @ q)))"
  by (auto simp: step_one_def split: option.splits if_splits)

lemma step_dirs:
  assumes "plain_tree t" and "plain segment" and "dirs_ok t root X"
  shows "dirs_ok t root (concat (map (step_one t root segment) X))"
  unfolding dirs_ok_def
proof (clarify)
  fix q' c' assume "(q', c') \<in> set (concat (map (step_one t root segment) X))"
  then obtain q c where q: "(q, c) \<in> set X" "(q', c') \<in> set (step_one t root segment (q, c))" by auto
  from step_mem [OF q(2)] obtain n where n: "q' = q @ [n]" "is_dir t (root @ q @ [n])" "n = segment \<or> n \<in> set (child_names t (root @ q))" by blast
  have "plain n" using n(3) assms(1,2) child_plain by blast
  with assms(3) q(1) n show "plain_path q' \<and> (\<forall>p. prefix p q' \<longrightarrow> is_dir t (root @ p))"
    by (auto simp: dirs_ok_def prefix_snoc)
qed

lemma enter_step:
  assumes "dirs_ok t root X"
  shows "enter_segment t segment (map (\<lambda>(q, c). (root @ q, c)) X) = map (\<lambda>(q, c). (root @ q, c)) (concat (map (step_one t root segment) X))"
  using assms
proof (induction X)
  case (Cons x X)
  obtain q c where x: "x = (q, c)" by (cases x)
  have d: "is_dir t (root @ q)" using dirs_ok_here [OF Cons.prems] x by auto
  have "enter_one t segment (root @ q, c) = map (\<lambda>(q, c). (root @ q, c)) (step_one t root segment (q, c))"
    using d by (auto simp: enter_one_def step_one_def comp_def split: option.splits)
  moreover have "dirs_ok t root X" using Cons.prems by (simp add: dirs_ok_def)
  ultimately show ?case using Cons.IH by (simp add: enter_segment_def x)
qed (simp add: enter_segment_def)

lemma listed_step:
  assumes s: "serves list_children read t root" and "plain_tree t" and "plain segment" and "dirs_ok t root X"
  shows "list_segment (index_dir_exists list_children) (index_list_subdirs list_children) segment (map (\<lambda>(q, c). (text_of q, c)) X)
     = map (\<lambda>(q, c). (text_of q, c)) (concat (map (step_one t root segment) X))"
  using assms(4)
proof (induction X)
  case (Cons x X)
  obtain q c where x: "x = (q, c)" by (cases x)
  have d: "plain_path q" "is_dir t (root @ q)" using dirs_ok_here [OF Cons.prems] x by auto
  have e: "index_dir_exists list_children (text_of q)"
  proof (cases q rule: rev_cases)
    case (snoc p n)
    have "prefix p q" by (simp add: snoc)
    then have "is_dir t (root @ p)" using Cons.prems x by (auto simp: dirs_ok_def)
    with index_dir [OF s assms(2), of p n] d show ?thesis by (simp add: snoc)
  qed (simp add: index_dir_exists_def strip_slashes_def)
  have "list_one (index_dir_exists list_children) (index_list_subdirs list_children) segment (text_of q, c) = map (\<lambda>(q, c). (text_of q, c)) (step_one t root segment (q, c))"
  proof (cases "token_validator segment")
    case None
    have "plain_path (q @ [segment])" using d assms(3) by simp
    from index_dir [OF s assms(2) this d(2)] None show ?thesis by (simp add: list_one_def step_one_def child_text [OF d(1)])
  next
    case (Some valid)
    then show ?thesis using e by (simp add: list_one_def step_one_def child_text [OF d(1)] index_subdirs [OF s assms(2) d] comp_def conj_commute)
  qed
  moreover have "dirs_ok t root X" using Cons.prems by (simp add: dirs_ok_def)
  ultimately show ?case using Cons.IH by (simp add: list_segment_def x)
qed (simp add: list_segment_def)

text \<open>All segments of a pattern.\<close>

lemma walk_agrees:
  assumes "serves list_children read t root" and "plain_tree t" and "plain_path segs" and "dirs_ok t root X"
  shows "\<exists>Y. dirs_ok t root Y
     \<and> fold (enter_segment t) segs (map (\<lambda>(q, c). (root @ q, c)) X) = map (\<lambda>(q, c). (root @ q, c)) Y
     \<and> fold (list_segment (index_dir_exists list_children) (index_list_subdirs list_children)) segs (map (\<lambda>(q, c). (text_of q, c)) X) = map (\<lambda>(q, c). (text_of q, c)) Y"
  using assms(3,4)
proof (induction segs arbitrary: X)
  case (Cons g segs)
  then have "plain g" "plain_path segs" by simp_all
  from Cons.IH [OF this(2) step_dirs [OF assms(2) this(1) Cons.prems(2)]]
  show ?case by (simp add: enter_step [OF Cons.prems(2)] listed_step [OF assms(1,2) \<open>plain g\<close> Cons.prems(2)])
qed auto

lemma markers_agree:
  assumes "serves list_children read t root" and "plain_tree t" and "plain_path (sl_markers l)" and "plain_path q" and "is_dir t (root @ q)"
  shows "listed_markers (Some (index_file_exists list_children)) l (text_of q) \<longleftrightarrow> has_markers t l (root @ q)"
proof -
  have "index_file_exists list_children (child_of (text_of q) m) \<longleftrightarrow> content t ((root @ q) @ tail_parts m) \<noteq> None" if "m \<in> set (sl_markers l)" for m
  proof -
    have p: "plain_path [m]" using that assms(3) by (auto simp: list_all_iff)
    have "plain_path (q @ [m])" using p assms(4) by simp
    from index_file [OF assms(1,2) this assms(5)] tail_text [OF p] show ?thesis by (simp add: child_text [OF assms(4)])
  qed
  then show ?thesis by (auto simp: listed_markers_def has_markers_def)
qed

lemma below_plain: "plain_path pattern \<Longrightarrow> below_prefix start pattern = Some rest \<Longrightarrow> plain_path rest"
  by (auto simp: below_prefix_def list_all_iff split: if_splits dest: in_set_dropD)

definition disk_root :: "path \<Rightarrow> string \<times> string list \<times> string list \<times> bool \<Rightarrow> watch_root" where
  "disk_root root = (\<lambda>(i, q, c, rec). \<lparr>wr_layout = i, wr_path = root @ q, wr_canonical = text_of c, wr_recursive = rec\<rparr>)"

definition listed_root :: "string \<times> string list \<times> string list \<times> bool \<Rightarrow> provider_watch_root" where
  "listed_root = (\<lambda>(i, q, c, rec). \<lparr>pw_layout = i, pw_relative = text_of q, pw_canonical = text_of c, pw_recursive = rec\<rparr>)"

definition found_dirs :: "tree \<Rightarrow> path \<Rightarrow> (string \<times> string list \<times> string list \<times> bool) list \<Rightarrow> bool" where
  "found_dirs t root Z \<longleftrightarrow> (\<forall>(i, q, c, rec) \<in> set Z. plain_path q \<and> is_dir t (root @ q))"

lemma layout_roots_agree:
  assumes "serves list_children read t root" and "plain_tree t" and "plain_path (watch_pattern l)" and "plain_path (sl_markers l)" and "is_dir t root"
  shows "\<exists>Z. found_dirs t root Z \<and> layout_watch_roots t root enabled start l = map (disk_root root) Z
     \<and> listed_watch_roots (index_dir_exists list_children) (index_list_subdirs list_children) (Some (index_file_exists list_children)) enabled start l = map listed_root Z"
proof (cases "(sl_opt_in l \<and> sl_system l \<notin> enabled) \<or> below_prefix start (watch_pattern l) = None")
  case True
  then show ?thesis by (intro exI [of _ "[]"]) (auto simp: found_dirs_def layout_watch_roots_def listed_watch_roots_def)
next
  case False
  then obtain rest where rest: "below_prefix start (watch_pattern l) = Some rest" by auto
  have "dirs_ok t root [([], start)]" using assms(5) by (auto simp: dirs_ok_def)
  from walk_agrees [OF assms(1,2) below_plain [OF assms(3) rest] this] obtain Y where Y: "dirs_ok t root Y"
    "fold (enter_segment t) rest [(root, start)] = map (\<lambda>(q, c). (root @ q, c)) Y"
    "fold (list_segment (index_dir_exists list_children) (index_list_subdirs list_children)) rest [([], start)] = map (\<lambda>(q, c). (text_of q, c)) Y" by auto
  let ?ok = "\<lambda>(q, c). has_markers t l (root @ q)"
  let ?Z = "map (\<lambda>(q, c). (sl_id l, q, c, sl_recursive l)) (filter ?ok Y)"
  have m: "listed_markers (Some (index_file_exists list_children)) l (text_of q) \<longleftrightarrow> has_markers t l (root @ q)" if "(q, c) \<in> set Y" for q c
    using markers_agree [OF assms(1,2,4)] dirs_ok_here [OF Y(1) that] by blast
  have f: "filter (\<lambda>(relative, canonical). listed_markers (Some (index_file_exists list_children)) l relative) (map (\<lambda>(q, c). (text_of q, c)) Y)
      = map (\<lambda>(q, c). (text_of q, c)) (filter ?ok Y)"
    using m by (auto simp: filter_map comp_def intro!: arg_cong [where f = "map _"] filter_cong)
  have g: "filter (\<lambda>(physical, canonical). has_markers t l physical) (map (\<lambda>(q, c). (root @ q, c)) Y) = map (\<lambda>(q, c). (root @ q, c)) (filter ?ok Y)"
    by (auto simp: filter_map comp_def intro!: arg_cong [where f = "map _"] filter_cong)
  have "found_dirs t root ?Z" using dirs_ok_here [OF Y(1)] by (auto simp: found_dirs_def)
  moreover have "layout_watch_roots t root enabled start l = map (disk_root root) ?Z"
    using False by (auto simp: layout_watch_roots_def rest Y(2) g disk_root_def comp_def split: prod.splits)
  moreover have "listed_watch_roots (index_dir_exists list_children) (index_list_subdirs list_children) (Some (index_file_exists list_children)) enabled start l = map listed_root ?Z"
    using False by (auto simp: listed_watch_roots_def rest Y(3) f listed_root_def comp_def split: prod.splits)
  ultimately show ?thesis by blast
qed


lemma roots_agree:
  assumes "serves list_children read t root" and "plain_tree t" and "plain_policy po" and "is_dir t root"
  shows "\<exists>Z. found_dirs t root Z \<and> watch_roots po t root enabled [] = map (disk_root root) Z
     \<and> resolve_watch_roots_from_listing po (index_dir_exists list_children) (index_list_subdirs list_children)
         (Some (index_file_exists list_children)) enabled [] = map listed_root Z"
proof -
  have "\<exists>Z. found_dirs t root Z \<and> concat (map (layout_watch_roots t root enabled start) ls) = map (disk_root root) Z
     \<and> concat (map (listed_watch_roots (index_dir_exists list_children) (index_list_subdirs list_children) (Some (index_file_exists list_children)) enabled start) ls) = map listed_root Z"
    if "\<forall>l \<in> set ls. plain_path (watch_pattern l) \<and> plain_path (sl_markers l)" for ls start
    using that
  proof (induction ls)
    case (Cons l ls)
    then obtain Z where Z: "found_dirs t root Z" "concat (map (layout_watch_roots t root enabled start) ls) = map (disk_root root) Z"
      "concat (map (listed_watch_roots (index_dir_exists list_children) (index_list_subdirs list_children) (Some (index_file_exists list_children)) enabled start) ls) = map listed_root Z"
      by auto
    from layout_roots_agree [OF assms(1,2) _ _ assms(4), of l enabled start] Cons.prems obtain Y where Y: "found_dirs t root Y"
      "layout_watch_roots t root enabled start l = map (disk_root root) Y"
      "listed_watch_roots (index_dir_exists list_children) (index_list_subdirs list_children) (Some (index_file_exists list_children)) enabled start l = map listed_root Y"
      by auto
    show ?case by (rule exI [of _ "Y @ Z"]) (use Y Z in \<open>auto simp: found_dirs_def\<close>)
  qed (auto simp: found_dirs_def)
  from this [of "po_layouts po" "segments []"] assms(3) obtain Z where Z: "found_dirs t root Z"
    "concat (map (layout_watch_roots t root enabled (segments [])) (po_layouts po)) = map (disk_root root) Z"
    "concat (map (listed_watch_roots (index_dir_exists list_children) (index_list_subdirs list_children) (Some (index_file_exists list_children)) enabled (segments [])) (po_layouts po)) = map listed_root Z"
    by (auto simp: plain_policy_def)
  let ?S = "sort_key (\<lambda>(i, q, c, rec). text_of c) (sort_key (\<lambda>(i, q, c, rec). i) Z)"
  have "found_dirs t root ?S" using Z(1) by (simp add: found_dirs_def)
  moreover have "(\<lambda>z. wr_canonical (disk_root root z)) = (\<lambda>(i, q, c, rec). text_of c)" "(\<lambda>z. wr_layout (disk_root root z)) = (\<lambda>(i, q, c, rec). i)"
    "(\<lambda>z. pw_canonical (listed_root z)) = (\<lambda>(i, q, c, rec). text_of c)" "(\<lambda>z. pw_layout (listed_root z)) = (\<lambda>(i, q, c, rec). i)"
    by (auto simp: disk_root_def listed_root_def fun_eq_iff)
  ultimately show ?thesis
    by (intro exI [of _ ?S]) (simp add: watch_roots_def resolve_watch_roots_from_listing_def assms(4) Z(2,3) sort_key_map)
qed

subsection \<open>The files below a directory\<close>

definition tree_files :: "tree \<Rightarrow> (path \<times> byte list) list" where
  "tree_files t = concat (map (\<lambda>(p, n). case n of File b \<Rightarrow> [(p, b)] | _ \<Rightarrow> []) t)"

definition tree_dirs :: "tree \<Rightarrow> path list" where
  "tree_dirs t = concat (map (\<lambda>(p, n). case n of Directory \<Rightarrow> [p] | _ \<Rightarrow> []) t)"

lemma approved_files_filter:
  "approved_files t root recursive = map (\<lambda>(p, b). (drop (length root) p, b))
     (filter (\<lambda>(p, b). strict_prefix root p \<and> (recursive \<or> length p = length root + 1)) (tree_files t))"
  by (induction t root recursive rule: approved_files.induct) (auto simp: tree_files_def split: node.splits)

lemma wf_lookup: "wf_tree t \<Longrightarrow> (p, n) \<in> set t \<Longrightarrow> lookup t p = Some n"
  by (force simp: wf_tree_def lookup_def)

lemma tree_lists: "(p, b) \<in> set (tree_files t) \<longleftrightarrow> (p, File b) \<in> set t" "p \<in> set (tree_dirs t) \<longleftrightarrow> (p, Directory) \<in> set t"
  by (force simp: tree_files_def tree_dirs_def split: node.splits)+

lemma wf_lookup_iff:
  assumes "wf_tree t"
  shows "(p, n) \<in> set t \<longleftrightarrow> p \<noteq> [] \<and> lookup t p = Some n"
proof -
  have "(p, n) \<in> set t \<Longrightarrow> p \<noteq> []" using assms by (force simp: wf_tree_def)
  then show ?thesis using assms map_of_eq_Some_iff [of t p n] by (auto simp: wf_tree_def lookup_def)
qed

lemma mem_tree_files: "wf_tree t \<Longrightarrow> (p, b) \<in> set (tree_files t) \<longleftrightarrow> content t p = Some b"
  unfolding tree_lists wf_lookup_iff by (auto simp: content_def lookup_def split: option.splits node.splits)

lemma mem_tree_dirs: "wf_tree t \<Longrightarrow> p \<in> set (tree_dirs t) \<longleftrightarrow> p \<noteq> [] \<and> is_dir t p"
  unfolding tree_lists wf_lookup_iff is_dir_def by (rule refl)

lemma distinct_tree_lists: "wf_tree t \<Longrightarrow> distinct (map fst (tree_files t)) \<and> distinct (tree_dirs t)"
proof -
  have sub: "fst ` set (tree_files t) \<subseteq> fst ` set t" "set (tree_dirs t) \<subseteq> fst ` set t" for t
    by (force simp: tree_lists)+
  have "distinct (map fst t) \<Longrightarrow> distinct (map fst (tree_files t)) \<and> distinct (tree_dirs t)"
  proof (induction t)
    case (Cons x t)
    obtain p n where x: "x = (p, n)" by (cases x)
    have f: "tree_files (x # t) = (case n of File b \<Rightarrow> [(p, b)] | _ \<Rightarrow> []) @ tree_files t"
      and d: "tree_dirs (x # t) = (case n of Directory \<Rightarrow> [p] | _ \<Rightarrow> []) @ tree_dirs t"
      by (simp_all add: tree_files_def tree_dirs_def x)
    have "p \<notin> fst ` set t" using Cons.prems x by auto
    with sub [of t] have "p \<notin> fst ` set (tree_files t)" "p \<notin> set (tree_dirs t)" by blast+
    with Cons show ?case unfolding f d by (auto simp: x split: node.splits)
  qed (simp add: tree_files_def tree_dirs_def)
  then show "wf_tree t \<Longrightarrow> ?thesis" by (simp add: wf_tree_def)
qed

lemma lookup_up:
  assumes "wf_tree t"
  shows "lookup t (p @ n # q) \<noteq> None \<Longrightarrow> q \<noteq> [] \<Longrightarrow> is_dir t (p @ [n])"
proof (induction q rule: rev_induct)
  case (snoc m q)
  then have "p @ n # q @ [m] \<in> fst ` set t" by (subst lookup_mem [symmetric]) auto
  then have d: "is_dir t (p @ n # q)" using assms by (fastforce simp: wf_tree_def butlast_append)
  show ?case
  proof (cases "q = []")
    case False
    with d snoc.IH show ?thesis by (auto simp: is_dir_def)
  qed (use d in simp)
qed simp

text \<open>What lies below a directory lies directly in it or below exactly one of its subdirectories.\<close>

lemma split_below:
  assumes "distinct ns" and "\<And>x. x \<in># M \<Longrightarrow> strict_prefix p (f x) \<Longrightarrow> length (f x) > length p + 1 \<Longrightarrow> f x ! length p \<in> set ns"
  shows "filter_mset (\<lambda>x. strict_prefix p (f x)) M =
     filter_mset (\<lambda>x. strict_prefix p (f x) \<and> length (f x) = length p + 1) M + sum_list (map (\<lambda>n. filter_mset (\<lambda>x. strict_prefix (p @ [n]) (f x)) M) ns)"
  using assms(2)
proof (induction M)
  case (add x M)
  have one: "(if strict_prefix p (f x) then {#x#} else {#}) =
      (if strict_prefix p (f x) \<and> length (f x) = length p + 1 then {#x#} else {#})
      + sum_list (map (\<lambda>n. if strict_prefix (p @ [n]) (f x) then {#x#} else {#}) ns)"
  proof (cases "strict_prefix p (f x) \<and> length (f x) \<noteq> length p + 1")
    case True
    then obtain m rest where x: "f x = p @ m # rest" by (metis strict_prefixE')
    with True have "rest \<noteq> []" by auto
    with x add.prems [of x] have m: "m \<in> set ns" by (auto simp: strict_prefix_def)
    have eq: "strict_prefix (p @ [n]) (f x) \<longleftrightarrow> n = m" for n
      using \<open>rest \<noteq> []\<close> by (auto simp: x strict_prefix_def)
    have "a \<in> set ns \<Longrightarrow> sum_list (map (\<lambda>n. if n = a then {#x#} else {#}) ns) = {#x#}" for a
      using assms(1)
    proof (induction ns)
      case (Cons k ns)
      have "k \<notin> set ns \<Longrightarrow> sum_list (map (\<lambda>n. if n = k then {#x#} else {#}) ns) = {#}" by (induction ns) auto
      with Cons show ?case by (cases "k = a") auto
    qed simp
    from this [OF m] True show ?thesis by (simp add: eq)
  next
    case False
    have "\<not> strict_prefix (p @ [n]) (f x)" for n
    proof
      assume "strict_prefix (p @ [n]) (f x)"
      then obtain m rest where "f x = (p @ [n]) @ m # rest" by (metis strict_prefixE')
      with False show False by (auto simp: strict_prefix_def)
    qed
    then have "sum_list (map (\<lambda>n. if strict_prefix (p @ [n]) (f x) then {#x#} else {#}) ns) = {#}" by (induction ns) simp_all
    with False show ?thesis by auto
  qed
  have s: "sum_list (map (\<lambda>n. filter_mset (\<lambda>x. strict_prefix (p @ [n]) (f x)) (add_mset x M)) ns) =
     sum_list (map (\<lambda>n. if strict_prefix (p @ [n]) (f x) then {#x#} else {#}) ns) + sum_list (map (\<lambda>n. filter_mset (\<lambda>x. strict_prefix (p @ [n]) (f x)) M) ns)"
  proof (induction ns)
    case (Cons n ns)
    then show ?case by (cases "strict_prefix (p @ [n]) (f x)") simp_all
  qed simp
  have IH: "filter_mset (\<lambda>x. strict_prefix p (f x)) M =
     filter_mset (\<lambda>x. strict_prefix p (f x) \<and> length (f x) = length p + 1) M + sum_list (map (\<lambda>n. filter_mset (\<lambda>x. strict_prefix (p @ [n]) (f x)) M) ns)"
    using add.prems by (intro add.IH) auto
  have F: "filter_mset Q (add_mset x M) = (if Q x then {#x#} else {#}) + filter_mset Q M" for Q by simp
  show ?case unfolding s F [of "\<lambda>x. strict_prefix p (f x)"] F [of "\<lambda>x. strict_prefix p (f x) \<and> length (f x) = length p + 1"] one IH
    by (simp only: ac_simps)
qed simp

definition subdirs :: "tree \<Rightarrow> path \<Rightarrow> string list" where
  "subdirs t p = filter (\<lambda>n. is_dir t (p @ [n])) (child_names t p)"

definition subfiles :: "tree \<Rightarrow> path \<Rightarrow> string list" where
  "subfiles t p = filter (\<lambda>n. content t (p @ [n]) \<noteq> None) (child_names t p)"

definition dirs_below :: "tree \<Rightarrow> path \<Rightarrow> path multiset" where
  "dirs_below t p = filter_mset (\<lambda>x. strict_prefix p x) (mset (tree_dirs t))"

definition files_below :: "tree \<Rightarrow> path \<Rightarrow> (path \<times> byte list) multiset" where
  "files_below t p = filter_mset (\<lambda>x. strict_prefix p (fst x)) (mset (tree_files t))"

definition files_in :: "tree \<Rightarrow> path \<Rightarrow> (path \<times> byte list) multiset" where
  "files_in t p = mset (map (\<lambda>n. (p @ [n], the (content t (p @ [n])))) (subfiles t p))"

lemma direct_child: "strict_prefix p x \<and> length x = length p + 1 \<longleftrightarrow> (\<exists>n. x = p @ [n])"
proof
  assume a: "strict_prefix p x \<and> length x = length p + 1"
  then obtain m rest where "x = p @ m # rest" by (metis strict_prefixE')
  with a show "\<exists>n. x = p @ [n]" by auto
qed (auto simp: strict_prefix_def)

lemma below_child:
  assumes "wf_tree t" and "lookup t x \<noteq> None" and "strict_prefix p x" and "length x > length p + 1"
  shows "x ! length p \<in> set (subdirs t p)"
proof -
  from assms(3) obtain m rest where x: "x = p @ m # rest" by (metis strict_prefixE')
  with assms(4) have "rest \<noteq> []" by auto
  then have "is_dir t (p @ [m])" using lookup_up [OF assms(1), of p m rest] assms(2) x by simp
  then show ?thesis by (simp add: x subdirs_def child_some is_dir_def)
qed

lemma files_below_split:
  assumes "wf_tree t"
  shows "files_below t p = files_in t p + sum_list (map (\<lambda>n. files_below t (p @ [n])) (subdirs t p))"
proof -
  have d: "distinct (subdirs t p)" using distinct_child_names [OF assms] by (simp add: subdirs_def)
  have "filter_mset (\<lambda>x. strict_prefix p (fst x) \<and> length (fst x) = length p + 1) (mset (tree_files t)) = files_in t p"
  proof -
    have "distinct (filter (\<lambda>x. strict_prefix p (fst x) \<and> length (fst x) = length p + 1) (tree_files t))"
      using distinct_tree_lists [OF assms] by (simp add: distinct_map)
    moreover have "distinct (map (\<lambda>n. (p @ [n], the (content t (p @ [n])))) (subfiles t p))"
      using distinct_child_names [OF assms, of p] by (auto simp: distinct_map subfiles_def inj_on_def)
    moreover have "set (filter (\<lambda>x. strict_prefix p (fst x) \<and> length (fst x) = length p + 1) (tree_files t))
        = set (map (\<lambda>n. (p @ [n], the (content t (p @ [n])))) (subfiles t p))"
      unfolding direct_child by (auto simp: mem_tree_files [OF assms] subfiles_def child_some content_def image_iff split: option.splits node.splits)
    ultimately show ?thesis by (simp only: files_in_def mset_filter [symmetric] set_eq_iff_mset_eq_distinct)
  qed
  moreover have "fst x ! length p \<in> set (subdirs t p)" if "x \<in># mset (tree_files t)" "strict_prefix p (fst x)" "length (fst x) > length p + 1" for x
  proof (rule below_child [OF assms _ that(2,3)])
    have "content t (fst x) = Some (snd x)" using that(1) mem_tree_files [OF assms, of "fst x" "snd x"] by simp
    then show "lookup t (fst x) \<noteq> None" by (auto simp: content_def split: option.splits)
  qed
  ultimately show ?thesis using split_below [OF d, of "mset (tree_files t)" p fst] by (simp add: files_below_def)
qed

lemma dirs_below_split:
  assumes "wf_tree t"
  shows "size (dirs_below t p) = length (subdirs t p) + sum_list (map (\<lambda>n. size (dirs_below t (p @ [n]))) (subdirs t p))"
proof -
  have d: "distinct (subdirs t p)" using distinct_child_names [OF assms] by (simp add: subdirs_def)
  have "filter_mset (\<lambda>x. strict_prefix p x \<and> length x = length p + 1) (mset (tree_dirs t)) = mset (map (\<lambda>n. p @ [n]) (subdirs t p))"
  proof -
    have "distinct (filter (\<lambda>x. strict_prefix p x \<and> length x = length p + 1) (tree_dirs t))"
      using distinct_tree_lists [OF assms] by simp
    moreover have "distinct (map (\<lambda>n. p @ [n]) (subdirs t p))" using d by (simp add: distinct_map inj_on_def)
    moreover have "set (filter (\<lambda>x. strict_prefix p x \<and> length x = length p + 1) (tree_dirs t)) = set (map (\<lambda>n. p @ [n]) (subdirs t p))"
      unfolding direct_child by (auto simp: mem_tree_dirs [OF assms] subdirs_def child_some is_dir_def)
    ultimately show ?thesis by (simp only: mset_filter [symmetric] set_eq_iff_mset_eq_distinct)
  qed
  moreover have "x ! length p \<in> set (subdirs t p)" if "x \<in># mset (tree_dirs t)" "strict_prefix p x" "length x > length p + 1" for x
    using below_child [OF assms _ that(2,3)] that(1) by (simp add: mem_tree_dirs [OF assms] is_dir_def)
  ultimately have "dirs_below t p = mset (map (\<lambda>n. p @ [n]) (subdirs t p)) + sum_list (map (\<lambda>n. dirs_below t (p @ [n])) (subdirs t p))"
    using split_below [OF d, of "mset (tree_dirs t)" p "\<lambda>x. x"] by (simp add: dirs_below_def)
  moreover have "size (sum_list (map (\<lambda>n. dirs_below t (p @ [n])) ns)) = sum_list (map (\<lambda>n. size (dirs_below t (p @ [n]))) ns)" for ns
    by (induction ns) simp_all
  ultimately show ?thesis by simp
qed

subsection \<open>The listing loop\<close>

lemma list_entries:
  "fold (list_entry recursive directory result_prefix) es (pending, results) =
     (pending @ (if recursive then map (\<lambda>e. (child_of directory (en_name e), child_of result_prefix (en_name e))) (filter en_directory es) else []),
      results @ map (\<lambda>e. (child_of result_prefix (en_name e), case en_size e of None \<Rightarrow> 0 | Some k \<Rightarrow> k)) (filter (\<lambda>e. \<not> en_directory e) es))"
  by (induction es arbitrary: pending results) (auto simp: list_entry_def Let_def)

lemma sum_list_mset: "mset xs = mset ys \<Longrightarrow> sum_list (map f xs) = sum_list (map f ys)" for f :: "'a \<Rightarrow> 'b::comm_monoid_add"
  by (metis mset_map sum_mset_sum_list)

text \<open>A listed directory, by its entries that are directories and those that are files.\<close>

lemma listed_entries:
  assumes "serves list_children read t root" and "plain_tree t" and "plain_path q" and "is_dir t (root @ q)"
  defines "es \<equiv> index_children list_children (text_of q)"
  shows "mset (map en_name (filter en_directory es)) = mset (subdirs t (root @ q))"
    and "mset (map (\<lambda>e. (en_name e, en_size e)) (filter (\<lambda>e. \<not> en_directory e) es))
      = mset (map (\<lambda>n. (n, map_option (\<lambda>b. int (length b)) (content t (root @ q @ [n])))) (subfiles t (root @ q)))"
proof -
  let ?c = "child_names t (root @ q)"
  let ?E = "map (listing_entry t (root @ q)) (filter (\<lambda>n. \<not> is_link t (root @ q @ [n])) ?c)"
  have m: "mset (map f (filter P es)) = mset (map f (filter P ?E))" for f :: "provider_entry \<Rightarrow> 'z" and P
    using index_entries [OF assms(1-4)] by (simp add: es_def)
  have "map en_name (filter en_directory ?E) = subdirs t (root @ q)"
    by (auto simp: subdirs_def filter_map comp_def is_dir_def is_link_def intro!: filter_cong)
  then show "mset (map en_name (filter en_directory es)) = mset (subdirs t (root @ q))" by (simp only: m)
  have "filter (\<lambda>n. \<not> is_dir t (root @ q @ [n]) \<and> \<not> is_link t (root @ q @ [n])) ?c = subfiles t (root @ q)"
    unfolding subfiles_def by (rule filter_cong) (auto simp: child_some is_dir_def is_link_def content_def split: option.splits node.splits)
  then have "map (\<lambda>e. (en_name e, en_size e)) (filter (\<lambda>e. \<not> en_directory e) ?E)
      = map (\<lambda>n. (n, map_option (\<lambda>b. int (length b)) (content t (root @ q @ [n])))) (subfiles t (root @ q))"
    by (simp add: filter_map comp_def conj_commute)
  then show "mset (map (\<lambda>e. (en_name e, en_size e)) (filter (\<lambda>e. \<not> en_directory e) es))
      = mset (map (\<lambda>n. (n, map_option (\<lambda>b. int (length b)) (content t (root @ q @ [n])))) (subfiles t (root @ q)))" by (simp only: m)
qed

definition listed_files :: "path \<Rightarrow> (path \<times> byte list) multiset \<Rightarrow> (string \<times> int) multiset" where
  "listed_files p M = image_mset (\<lambda>(x, b). (text_of (drop (length p) x), int (length b))) M"

lemma listed_direct:
  assumes "serves list_children read t root" and "plain_tree t" and "plain_path (q @ s)" and "plain_path s" and "is_dir t (root @ q @ s)"
  shows "mset (map (\<lambda>e. (child_of (text_of s) (en_name e), case en_size e of None \<Rightarrow> 0 | Some k \<Rightarrow> k))
      (filter (\<lambda>e. \<not> en_directory e) (index_children list_children (text_of (q @ s))))) = listed_files (root @ q) (files_in t (root @ q @ s))"
proof -
  let ?f = "\<lambda>(n, k). (child_of (text_of s) n, case k of None \<Rightarrow> 0 | Some k \<Rightarrow> k)"
  let ?es = "filter (\<lambda>e. \<not> en_directory e) (index_children list_children (text_of (q @ s)))"
  have "map (\<lambda>e. (child_of (text_of s) (en_name e), case en_size e of None \<Rightarrow> 0 | Some k \<Rightarrow> k)) ?es = map ?f (map (\<lambda>e. (en_name e, en_size e)) ?es)"
    by simp
  then have "mset (map (\<lambda>e. (child_of (text_of s) (en_name e), case en_size e of None \<Rightarrow> 0 | Some k \<Rightarrow> k)) ?es)
      = image_mset ?f (mset (map (\<lambda>e. (en_name e, en_size e)) ?es))" by (simp only: mset_map)
  also have "\<dots> = image_mset ?f (mset (map (\<lambda>n. (n, map_option (\<lambda>b. int (length b)) (content t (root @ (q @ s) @ [n])))) (subfiles t (root @ q @ s))))"
    using listed_entries(2) [OF assms(1-3)] assms(5) by simp
  also have "\<dots> = listed_files (root @ q) (files_in t (root @ q @ s))"
    unfolding files_in_def listed_files_def mset_map [symmetric] map_map
    by (rule arg_cong [where f = mset], rule map_cong [OF refl]) (auto simp: child_text [OF assms(4)] subfiles_def)
  finally show ?thesis .
qed

lemma sum_list_one: "sum_list (map (\<lambda>x. Suc (f x)) xs) = length xs + sum_list (map f xs)"
  by (induction xs) auto

lemma sum_listed: "sum_list (map (\<lambda>n. listed_files p (f n)) ns) = listed_files p (sum_list (map f ns))"
  by (induction ns) (simp_all add: listed_files_def)

text \<open>With a unit of fuel for each directory the loop returns every file below the waiting directories, once.\<close>

lemma files_loop_all:
  assumes sv: "serves list_children read t root" and pt: "plain_tree t" and wf: "wf_tree t"
  shows "(\<forall>s \<in> set ps. plain_path (q @ s) \<and> is_dir t (root @ q @ s))
    \<Longrightarrow> sum_list (map (\<lambda>s. Suc (size (dirs_below t (root @ q @ s)))) ps) \<le> n
    \<Longrightarrow> \<exists>res'. files_loop n (index_children list_children) True (map (\<lambda>s. (text_of (q @ s), text_of s)) ps) res = Some res'
        \<and> mset res' = mset res + sum_list (map (\<lambda>s. listed_files (root @ q) (files_below t (root @ q @ s))) ps)"
proof (induction n arbitrary: ps res)
  case 0
  then have "ps = []" by (cases ps) auto
  then show ?case by simp
next
  case (Suc n)
  show ?case
  proof (cases ps rule: rev_cases)
    case (snoc ps0 s)
    let ?d = "\<lambda>s. (text_of (q @ s), text_of s)" and ?P = "root @ q @ s"
    let ?es = "index_children list_children (text_of (q @ s))"
    let ?dirs = "map (\<lambda>e. s @ [en_name e]) (filter en_directory ?es)"
    let ?files = "map (\<lambda>e. (child_of (text_of s) (en_name e), case en_size e of None \<Rightarrow> 0 | Some k \<Rightarrow> k)) (filter (\<lambda>e. \<not> en_directory e) ?es)"
    have s: "plain_path (q @ s)" "is_dir t ?P" "plain_path s" using Suc.prems(1) snoc by auto
    have names: "mset (map en_name (filter en_directory ?es)) = mset (subdirs t ?P)"
      using listed_entries(1) [OF sv pt s(1)] s(2) by simp
    have sums: "sum_list (map (\<lambda>s. f s) ?dirs) = sum_list (map (\<lambda>n. f (s @ [n])) (subdirs t ?P))" for f :: "string list \<Rightarrow> 'z::comm_monoid_add"
      using sum_list_mset [OF names, of "\<lambda>n. f (s @ [n])"] by (simp add: comp_def)
    obtain y ys where ne: "map ?d ps = y # ys" using snoc by (cases "map ?d ps") auto
    have "last (map ?d ps) = ?d s" "butlast (map ?d ps) = map ?d ps0" by (simp_all add: snoc)
    then have l: "last (y # ys) = ?d s" "butlast (y # ys) = map ?d ps0" by (simp_all only: ne)
    have dirs: "map (\<lambda>e. (child_of (text_of (q @ s)) (en_name e), child_of (text_of s) (en_name e))) (filter en_directory ?es) = map ?d ?dirs"
      by (simp add: child_text [OF s(1)] child_text [OF s(3)])
    have step: "files_loop (Suc n) (index_children list_children) True (map ?d ps) res
        = files_loop n (index_children list_children) True (map ?d (ps0 @ ?dirs)) (res @ ?files)"
      unfolding ne using l by (simp add: Let_def list_entries dirs)
    have "plain_path (q @ s') \<and> is_dir t (root @ q @ s')" if "s' \<in> set (ps0 @ ?dirs)" for s'
    proof (cases "s' \<in> set ps0")
      case False
      with that have "s' \<in> set ?dirs" by simp
      then obtain m where m: "m \<in> set (map en_name (filter en_directory ?es))" "s' = s @ [m]" by auto
      from m(1) have "m \<in> set (subdirs t ?P)" using arg_cong [OF names, of set_mset] by simp
      then have "is_dir t (?P @ [m])" "plain m" by (auto simp: subdirs_def child_plain [OF pt])
      with s m(2) show ?thesis by simp
    qed (use Suc.prems(1) snoc in auto)
    moreover have "sum_list (map (\<lambda>s. Suc (size (dirs_below t (root @ q @ s)))) (ps0 @ ?dirs)) \<le> n"
    proof -
      have "sum_list (map (\<lambda>s. Suc (size (dirs_below t (root @ q @ s)))) ?dirs) = size (dirs_below t ?P)"
        using sums [of "\<lambda>s. Suc (size (dirs_below t (root @ q @ s)))"]
        by (simp only: dirs_below_split [OF wf, of ?P] sum_list_one append_assoc)
      with Suc.prems(2) snoc show ?thesis by simp
    qed
    ultimately obtain res' where r: "files_loop n (index_children list_children) True (map ?d (ps0 @ ?dirs)) (res @ ?files) = Some res'"
      "mset res' = mset (res @ ?files) + sum_list (map (\<lambda>s. listed_files (root @ q) (files_below t (root @ q @ s))) (ps0 @ ?dirs))"
      using Suc.IH [of "ps0 @ ?dirs" "res @ ?files"] by blast
    have "mset ?files + sum_list (map (\<lambda>s. listed_files (root @ q) (files_below t (root @ q @ s))) ?dirs) = listed_files (root @ q) (files_below t ?P)"
      unfolding sums files_below_split [OF wf, of ?P] listed_direct [OF sv pt s(1,3,2)]
      by (simp add: sum_listed append_assoc) (simp add: listed_files_def)
    with r(2) have "mset res' = mset res + sum_list (map (\<lambda>s. listed_files (root @ q) (files_below t (root @ q @ s))) ps)"
      by (simp add: snoc ac_simps)
    with trans [OF step r(1)] show ?thesis by (intro exI [of _ res'] conjI)
  qed simp
qed

lemma approved_mset:
  "mset (approved_files t p True) = image_mset (\<lambda>(x, b). (drop (length p) x, b)) (files_below t p)"
  "wf_tree t \<Longrightarrow> mset (approved_files t p False) = image_mset (\<lambda>(x, b). (drop (length p) x, b)) (files_in t p)"
proof -
  show "mset (approved_files t p True) = image_mset (\<lambda>(x, b). (drop (length p) x, b)) (files_below t p)"
    by (simp add: approved_files_filter files_below_def case_prod_unfold)
  assume wf: "wf_tree t"
  have "mset (filter (\<lambda>(x, b). strict_prefix p x \<and> (False \<or> length x = length p + 1)) (tree_files t)) = files_in t p"
  proof -
    have "distinct (filter (\<lambda>(x, b). strict_prefix p x \<and> (False \<or> length x = length p + 1)) (tree_files t))"
      using distinct_tree_lists [OF wf] by (simp add: distinct_map)
    moreover have "distinct (map (\<lambda>n. (p @ [n], the (content t (p @ [n])))) (subfiles t p))"
      using distinct_child_names [OF wf, of p] by (auto simp: distinct_map subfiles_def inj_on_def)
    moreover have "set (filter (\<lambda>(x, b). strict_prefix p x \<and> (False \<or> length x = length p + 1)) (tree_files t))
        = set (map (\<lambda>n. (p @ [n], the (content t (p @ [n])))) (subfiles t p))"
      unfolding simp_thms direct_child by (auto simp: mem_tree_files [OF wf] subfiles_def child_some content_def image_iff split: option.splits node.splits)
    ultimately show ?thesis by (simp only: files_in_def set_eq_iff_mset_eq_distinct)
  qed
  then show "mset (approved_files t p False) = image_mset (\<lambda>(x, b). (drop (length p) x, b)) (files_in t p)"
    by (simp only: approved_files_filter mset_map)
qed

text \<open>The files a provider lists below an approved directory are those of the disk.\<close>

lemma files_under_agree:
  assumes "serves list_children read t root" and "plain_tree t" and "wf_tree t" and "plain_path q" and "is_dir t (root @ q)"
    and "size (mset (tree_dirs t)) < n"
  shows "\<exists>files. files_under n list_children (text_of q) recursive = Some files
     \<and> mset files = image_mset (\<lambda>(s, b). (text_of s, int (length b))) (mset (approved_files t (root @ q) recursive))"
proof (cases recursive)
  case True
  have "size (dirs_below t (root @ q)) \<le> size (mset (tree_dirs t))" unfolding dirs_below_def by (rule size_mset_mono) simp
  with assms(6) have "sum_list (map (\<lambda>s. Suc (size (dirs_below t (root @ q @ s)))) [[]]) \<le> n" by simp
  from files_loop_all [OF assms(1-3), of "[[]]" q n "[]"] this assms(4,5) obtain res where
    "files_loop n (index_children list_children) True [(text_of q, [])] [] = Some res" "mset res = listed_files (root @ q) (files_below t (root @ q))" by auto
  with True strip_text [OF assms(4)] show ?thesis
    by (simp add: files_under_def approved_mset listed_files_def image_mset.compositionality comp_def case_prod_unfold)
next
  case False
  from assms(6) obtain k where n: "n = Suc k" by (cases n) auto
  let ?es = "index_children list_children (text_of q)"
  have "files_loop n (index_children list_children) False [(text_of q, [])] []
      = Some (map (\<lambda>e. (child_of [] (en_name e), case en_size e of None \<Rightarrow> 0 | Some k \<Rightarrow> k)) (filter (\<lambda>e. \<not> en_directory e) ?es))"
    by (simp add: n list_entries)
  moreover have "mset (map (\<lambda>e. (child_of [] (en_name e), case en_size e of None \<Rightarrow> 0 | Some k \<Rightarrow> k)) (filter (\<lambda>e. \<not> en_directory e) ?es))
      = listed_files (root @ q) (files_in t (root @ q))"
    using listed_direct [OF assms(1,2), of q "[]"] assms(4,5) by simp
  ultimately show ?thesis using False strip_text [OF assms(4)]
    by (simp add: files_under_def approved_mset(2) [OF assms(3)] listed_files_def image_mset.compositionality comp_def case_prod_unfold)
qed

subsection \<open>Collecting\<close>

text \<open>A file found below a directory of a layout: the layout, the canonical path, the size and the digest.\<close>

type_synonym found_file = "string \<times> string \<times> int \<times> string"

definition take_file :: "selection_policy \<Rightarrow> string set \<Rightarrow> found_file \<Rightarrow> manifest \<Rightarrow> sync_error + manifest" where
  "take_file po enabled_groups = (\<lambda>(i, canonical, k, digest) m.
     bindE (selects po enabled_groups i canonical) (\<lambda>selected. if selected then add_artifact canonical k digest m else Inr m))"

definition chosen :: "selection_policy \<Rightarrow> string set \<Rightarrow> found_file \<Rightarrow> bool" where
  "chosen po enabled_groups = (\<lambda>(i, canonical, k, digest). selects po enabled_groups i canonical = Inr True)"

definition artifact_for :: "found_file \<Rightarrow> string \<times> save_artifact" where
  "artifact_for = (\<lambda>(i, canonical, k, digest). (canonical, \<lparr>art_path = canonical, art_size = k, art_hash = digest\<rparr>))"

lemma take_files:
  assumes "distinct (map fst m)"
  shows "foldE (take_file po eg) xs m = Inr m' \<longleftrightarrow>
    (\<forall>(i, c, k, h) \<in> set xs. \<not> isl (selects po eg i c)) \<and> m' = m @ map artifact_for (filter (chosen po eg) xs) \<and> distinct (map fst m')"
  using assms
proof (induction xs arbitrary: m)
  case (Cons x xs)
  obtain i c k h where x: "x = (i, c, k, h)" by (cases x)
  show ?case
  proof (cases "selects po eg i c")
    case (Inl e)
    then show ?thesis by (auto simp: take_file_def x)
  next
    case (Inr sel)
    show ?thesis
    proof (cases sel)
      case False
      with Inr Cons.IH [OF Cons.prems] show ?thesis by (simp add: take_file_def x chosen_def)
    next
      case True
      show ?thesis
      proof (cases "c \<in> fst ` set m")
        case dup: True
        with True Inr show ?thesis by (auto simp: take_file_def add_artifact_def x chosen_def artifact_for_def)
      next
        case False
        let ?m = "m @ [(c, \<lparr>art_path = c, art_size = k, art_hash = h\<rparr>)]"
        have "distinct (map fst ?m)" using Cons.prems False by auto
        from Cons.IH [OF this] True Inr False show ?thesis by (simp add: take_file_def add_artifact_def x chosen_def artifact_for_def)
      qed
    qed
  qed
qed auto

lemma foldE_map: "foldE f (map h xs) = foldE (\<lambda>x. f (h x)) xs"
proof (induction xs)
  case (Cons x xs)
  show ?case by (rule ext) (simp add: Cons.IH)
qed (simp add: fun_eq_iff)

lemma foldE_concat: "foldE (\<lambda>w. foldE f (g w)) ws = foldE f (concat (map g ws))"
proof (induction ws)
  case (Cons w ws)
  show ?case by (rule ext) (simp add: foldE_append Cons.IH)
qed (simp add: fun_eq_iff)

definition disk_found :: "tree \<Rightarrow> watch_root \<Rightarrow> found_file list" where
  "disk_found t w = map (\<lambda>(parts, b). (wr_layout w, canonical_of (wr_canonical w) (text_of parts), int (length b), sha256_hex b))
     (approved_files t (wr_path w) (wr_recursive w))"

definition listed_found :: "(string \<Rightarrow> byte list) \<Rightarrow> provider_watch_root \<Rightarrow> (string \<times> int) list \<Rightarrow> found_file list" where
  "listed_found read w files = map (\<lambda>(relative, k). (pw_layout w, canonical_of (pw_canonical w) relative, k,
     sha256_hex (read (child_of (pw_relative w) relative)))) files"

lemma scan_disk_found: "scan_watch_roots po t eg None roots = bindE (foldE (take_file po eg) (concat (map (disk_found t) roots)) []) (\<lambda>m. Inr (report_of m))"
proof -
  have "scan_file po eg None w (parts, b) m = take_file po eg (wr_layout w, canonical_of (wr_canonical w) (text_of parts), int (length b), sha256_hex b) m"
    for w parts b m by (simp add: scan_file_def take_file_def Let_def)
  then have "scan_root po t eg None w = foldE (take_file po eg) (disk_found t w)" for w
    by (simp add: fun_eq_iff scan_root_def disk_found_def foldE_map case_prod_unfold) (auto intro!: foldE_cong simp: prod_eq_iff)
  then have "scan_root po t eg None = (\<lambda>w. foldE (take_file po eg) (disk_found t w))" by (rule ext)
  then show ?thesis by (simp add: scan_watch_roots_def foldE_concat)
qed

lemma scan_listed_found:
  assumes "\<And>w. w \<in> set ws \<Longrightarrow> files_under n list_children (pw_relative w) (pw_recursive w) = Some (files w)"
  shows "scan_listed_roots n po list_children read eg None ws m = Some (foldE (take_file po eg) (concat (map (\<lambda>w. listed_found read w (files w)) ws)) m)"
  using assms
proof (induction ws arbitrary: m)
  case (Cons w ws)
  have "foldE (scan_listed po eg None read w) (files w) m = foldE (take_file po eg) (listed_found read w (files w)) m"
    unfolding listed_found_def foldE_map
    by (rule foldE_cong [OF refl refl]) (auto simp: scan_listed_def take_file_def Let_def intro!: bindE_cong split: prod.splits)
  with Cons.IH Cons.prems show ?case by (auto simp: foldE_append split: sum.splits)
qed simp

text \<open>The order in which files are found does not matter.\<close>

lemma take_files_mset:
  assumes "mset xs = mset ys"
  shows "case foldE (take_file po eg) xs [] of
      Inl _ \<Rightarrow> isl (foldE (take_file po eg) ys [])
    | Inr m \<Rightarrow> \<exists>m'. foldE (take_file po eg) ys [] = Inr m' \<and> map_of m' = map_of m"
proof -
  let ?f = "\<lambda>xs. map artifact_for (filter (chosen po eg) xs)"
  have m: "mset (?f xs) = mset (?f ys)" using assms by simp
  have s: "set xs = set ys" using assms mset_eq_setD by blast
  have d: "distinct (map fst (?f xs)) \<longleftrightarrow> distinct (map fst (?f ys))"
    using m by (metis mset_eq_imp_distinct_iff mset_map)
  note t = take_files [where m = "[]" and po = po and eg = eg, simplified]
  show ?thesis
  proof (cases "foldE (take_file po eg) xs []")
    case (Inl e)
    then have "foldE (take_file po eg) ys [] \<noteq> Inr m'" for m' using t [of xs "?f xs"] t [of ys m'] s d by auto
    then show ?thesis using Inl by (cases "foldE (take_file po eg) ys []") auto
  next
    case (Inr m0)
    then have x: "m0 = ?f xs" "distinct (map fst (?f xs))" using t [of xs m0] by auto
    then have "foldE (take_file po eg) ys [] = Inr (?f ys)" using t [of xs m0] t [of ys "?f ys"] Inr s d by auto
    moreover have "map_of (?f ys) = map_of (?f xs)"
      using x(2) d m by (intro map_of_inject_set [THEN iffD2]) (simp_all add: s)
    ultimately show ?thesis using Inr x(1) by simp
  qed
qed

lemma found_agree:
  assumes "serves list_children read t root" and "plain_tree t" and "wf_tree t" and "plain_path q" and "is_dir t (root @ q)"
    and "mset files = image_mset (\<lambda>(s, b). (text_of s, int (length b))) (mset (approved_files t (root @ q) rec))"
  shows "mset (listed_found read (listed_root (i, q, c, rec)) files) = mset (disk_found t (disk_root root (i, q, c, rec)))"
proof -
  let ?h = "\<lambda>(relative, k). (i, canonical_of (text_of c) relative, k, sha256_hex (read (child_of (text_of q) relative)))"
  let ?A = "approved_files t (root @ q) rec"
  have "mset (listed_found read (listed_root (i, q, c, rec)) files) = image_mset ?h (mset files)"
    by (simp add: listed_found_def listed_root_def)
  also have "\<dots> = mset (map ?h (map (\<lambda>(s, b). (text_of s, int (length b))) ?A))" by (simp only: assms(6) mset_map)
  also have "map ?h (map (\<lambda>(s, b). (text_of s, int (length b))) ?A) = disk_found t (disk_root root (i, q, c, rec))"
  proof -
    have "read (child_of (text_of q) (text_of s)) = b" if "(s, b) \<in> set ?A" for s b
    proof -
      from that obtain x where x: "strict_prefix (root @ q) x" "s = drop (length (root @ q)) x" "content t x = Some b"
        by (auto simp: approved_files_filter mem_tree_files [OF assms(3)])
      then have e: "x = root @ q @ s" "s \<noteq> []" by (auto simp: strict_prefix_def prefix_def)
      have "x \<in> fst ` set t" using x(3) e(2) lookup_mem [of x t] e(1) by (auto simp: content_def split: option.splits)
      then have "plain_path x" using assms(2) unfolding plain_tree_def by blast
      then have "plain_path s" "plain_path (q @ s)" using e(1) by simp_all
      with assms(1) x(3) e show ?thesis by (simp add: child_path [OF assms(4)] serves_def)
    qed
    then show ?thesis by (auto simp: disk_found_def disk_root_def)
  qed
  finally show ?thesis .
qed

text \<open>
  C13: A provider that serves a disk is scanned like the disk itself: the listing loops end, both scans fail or
  both succeed, and then they report the same files with the same sizes and digests, in whatever order the
  provider lists.
\<close>

theorem scans_agree:
  assumes "wf_tree t" and "plain_tree t" and "plain_policy po" and "is_dir t root" and "serves list_children read t root"
    and "length (tree_dirs t) < n"
  shows "\<exists>r. scan_provider_tree_report n po list_children read enabled enabled_groups None = Some r
     \<and> (case scan_tree_report po t root enabled enabled_groups None of
          Inl _ \<Rightarrow> isl r
        | Inr d \<Rightarrow> \<exists>p. r = Inr p \<and> map_of (sc_artifacts p) = map_of (sc_artifacts d))"
proof -
  from roots_agree [OF assms(5,2,3,4), of enabled] obtain Z where Z: "found_dirs t root Z"
    "watch_roots po t root enabled [] = map (disk_root root) Z"
    "resolve_watch_roots_from_listing po (index_dir_exists list_children) (index_list_subdirs list_children)
       (Some (index_file_exists list_children)) enabled [] = map listed_root Z" by blast
  define files :: "provider_watch_root \<Rightarrow> (string \<times> int) list" where "files w = the (files_under n list_children (pw_relative w) (pw_recursive w))" for w
  have under: "files_under n list_children (pw_relative (listed_root z)) (pw_recursive (listed_root z)) = Some (files (listed_root z))
      \<and> mset (listed_found read (listed_root z) (files (listed_root z))) = mset (disk_found t (disk_root root z))" if "z \<in> set Z" for z
  proof -
    obtain i q c rec where z: "z = (i, q, c, rec)" by (cases z)
    with Z(1) that have q: "plain_path q" "is_dir t (root @ q)" by (auto simp: found_dirs_def)
    from files_under_agree [OF assms(5,2,1) q, of n rec] assms(6) obtain fs where
      fs: "files_under n list_children (text_of q) rec = Some fs" "mset fs = image_mset (\<lambda>(s, b). (text_of s, int (length b))) (mset (approved_files t (root @ q) rec))" by auto
    then have "files (listed_root z) = fs" by (simp add: files_def z listed_root_def)
    with fs(1) found_agree [OF assms(5,2,1) q fs(2), of i c] show ?thesis by (simp add: z listed_root_def)
  qed
  let ?P = "concat (map (\<lambda>w. listed_found read w (files w)) (map listed_root Z))" and ?D = "concat (map (disk_found t) (map (disk_root root) Z))"
  have "mset (concat (map (\<lambda>w. listed_found read w (files w)) (map listed_root X))) = mset (concat (map (disk_found t) (map (disk_root root) X)))"
    if "set X \<subseteq> set Z" for X using that under by (induction X) simp_all
  then have m: "mset ?D = mset ?P" by simp
  have "scan_listed_roots n po list_children read enabled_groups None (map listed_root Z) [] = Some (foldE (take_file po enabled_groups) ?P [])"
    using under by (intro scan_listed_found) auto
  then have p: "scan_provider_tree_report n po list_children read enabled enabled_groups None
      = Some (bindE (foldE (take_file po enabled_groups) ?P []) (\<lambda>m. Inr (report_of m)))"
    by (simp add: scan_provider_tree_report_def Z(3))
  have d: "scan_tree_report po t root enabled enabled_groups None = bindE (foldE (take_file po enabled_groups) ?D []) (\<lambda>m. Inr (report_of m))"
    by (simp add: scan_tree_report_def include_set_def Z(2) scan_disk_found)
  show ?thesis using take_files_mset [OF m, of po enabled_groups] unfolding p d
    by (cases "foldE (take_file po enabled_groups) ?D []"; cases "foldE (take_file po enabled_groups) ?P []") (auto simp: report_of_def)
qed

text \<open>
  C14: A scan that succeeds reports exactly the files below the approved directories that the policy
  selects, each with its size and the digest of its bytes.
\<close>

theorem scan_exact:
  assumes "wf_tree t" and "scan_tree_report po t root enabled enabled_groups None = Inr d"
  shows "map_of (sc_artifacts d) path = Some a \<longleftrightarrow>
     (\<exists>w \<in> set (watch_roots po t root enabled []). \<exists>parts b.
        parts \<noteq> [] \<and> (wr_recursive w \<or> length parts = 1) \<and> content t (wr_path w @ parts) = Some b
        \<and> path = canonical_of (wr_canonical w) (text_of parts) \<and> selects po enabled_groups (wr_layout w) path = Inr True
        \<and> a = \<lparr>art_path = path, art_size = int (length b), art_hash = sha256_hex b\<rparr>)"
proof -
  let ?D = "concat (map (disk_found t) (watch_roots po t root enabled []))"
  from assms(2) obtain m where m: "foldE (take_file po enabled_groups) ?D [] = Inr m" "d = report_of m"
    by (auto simp: scan_tree_report_def include_set_def scan_disk_found bindE_eq_Inr)
  with take_files [of "[]" po enabled_groups ?D m] have k: "m = map artifact_for (filter (chosen po enabled_groups) ?D)" "distinct (map fst m)" by auto
  have "map_of (sc_artifacts d) path = Some a \<longleftrightarrow> (path, a) \<in> set m" using k(2) m(2) by (simp add: report_of_def)
  also have "\<dots> \<longleftrightarrow> (\<exists>w \<in> set (watch_roots po t root enabled []). \<exists>x \<in> set (disk_found t w). chosen po enabled_groups x \<and> (path, a) = artifact_for x)"
    by (simp only: k(1) set_map set_filter set_concat image_iff) blast
  also have "\<dots> \<longleftrightarrow> (\<exists>w \<in> set (watch_roots po t root enabled []). \<exists>parts b. (parts, b) \<in> set (approved_files t (wr_path w) (wr_recursive w))
      \<and> selects po enabled_groups (wr_layout w) (canonical_of (wr_canonical w) (text_of parts)) = Inr True
      \<and> path = canonical_of (wr_canonical w) (text_of parts) \<and> a = \<lparr>art_path = path, art_size = int (length b), art_hash = sha256_hex b\<rparr>)"
  proof (rule bex_cong [OF refl])
    fix w :: watch_root
    let ?h = "\<lambda>(parts, b). (wr_layout w, canonical_of (wr_canonical w) (text_of parts), int (length b), sha256_hex b)"
    have "(\<exists>x \<in> set (disk_found t w). chosen po enabled_groups x \<and> (path, a) = artifact_for x)
       \<longleftrightarrow> (\<exists>y \<in> set (approved_files t (wr_path w) (wr_recursive w)). chosen po enabled_groups (?h y) \<and> (path, a) = artifact_for (?h y))"
      unfolding disk_found_def set_map bex_simps(7) ..
    note this [unfolded Bex_def [of "set (approved_files t (wr_path w) (wr_recursive w))"] split_paired_Ex]
    then show "(\<exists>x \<in> set (disk_found t w). chosen po enabled_groups x \<and> (path, a) = artifact_for x)
       \<longleftrightarrow> (\<exists>parts b. (parts, b) \<in> set (approved_files t (wr_path w) (wr_recursive w))
          \<and> selects po enabled_groups (wr_layout w) (canonical_of (wr_canonical w) (text_of parts)) = Inr True
          \<and> path = canonical_of (wr_canonical w) (text_of parts) \<and> a = \<lparr>art_path = path, art_size = int (length b), art_hash = sha256_hex b\<rparr>)"
      by (simp add: chosen_def artifact_for_def conj_ac) (intro iffI; elim exE conjE; intro exI conjI; simp)
  qed
  also have "\<dots> \<longleftrightarrow> (\<exists>w \<in> set (watch_roots po t root enabled []). \<exists>parts b.
        parts \<noteq> [] \<and> (wr_recursive w \<or> length parts = 1) \<and> content t (wr_path w @ parts) = Some b
        \<and> path = canonical_of (wr_canonical w) (text_of parts) \<and> selects po enabled_groups (wr_layout w) path = Inr True
        \<and> a = \<lparr>art_path = path, art_size = int (length b), art_hash = sha256_hex b\<rparr>)"
  proof -
    have "(parts, b) \<in> set (approved_files t p rec) \<longleftrightarrow> parts \<noteq> [] \<and> (rec \<or> length parts = 1) \<and> content t (p @ parts) = Some b" for p rec parts b
    proof -
      have "(parts, b) \<in> set (approved_files t p rec) \<longleftrightarrow> (\<exists>x. content t x = Some b \<and> strict_prefix p x \<and> (rec \<or> length x = length p + 1) \<and> parts = drop (length p) x)"
        by (force simp: approved_files_filter mem_tree_files [OF assms(1)] image_iff)
      also have "\<dots> \<longleftrightarrow> parts \<noteq> [] \<and> (rec \<or> length parts = 1) \<and> content t (p @ parts) = Some b"
        by (auto simp: strict_prefix_def prefix_def)
      finally show ?thesis .
    qed
    then show ?thesis by (auto intro!: bex_cong)
  qed
  finally show ?thesis .
qed

subsection \<open>A sample\<close>

text \<open>The provider that lists a disk.\<close>

definition disk_listing :: "tree \<Rightarrow> path \<Rightarrow> string \<Rightarrow> provider_entry list" where
  "disk_listing t root relative = rev (map (listing_entry t (root @ tail_parts relative)) (child_names t (root @ tail_parts relative)))"

definition disk_bytes :: "tree \<Rightarrow> path \<Rightarrow> string \<Rightarrow> byte list" where
  "disk_bytes t root relative = (case content t (root @ tail_parts relative) of None \<Rightarrow> [] | Some b \<Rightarrow> b)"

lemma disk_serves: "serves (disk_listing t root) (disk_bytes t root) t root"
  by (simp add: serves_def disk_listing_def disk_bytes_def)

definition sample_tree :: tree where
  "sample_tree = [([''s''], Directory), ([''s'', ''gba''], Directory), ([''s'', ''gba'', ''z.srm''], File [1, 2]), ([''s'', ''gba'', ''z.txt''], File [])]"

definition sample_layouts :: selection_policy where
  "sample_layouts = \<lparr>po_layouts = [(layout_default ''gba-root'' ''gba'')\<lparr>sl_files := [''*.srm'']\<rparr>], po_rules = None\<rparr>"

lemma sample_tree_wf: "wf_tree sample_tree" "plain_tree sample_tree" "is_dir sample_tree [''s'']"
  by (simp_all add: sample_tree_def wf_tree_def plain_tree_def plain_def is_dir_def lookup_def)

lemma sample_layouts_plain: "plain_policy sample_layouts"
proof -
  have "list_all (\<lambda>l. plain_path (watch_pattern l) \<and> plain_path (sl_markers l)) (po_layouts sample_layouts)" unfolding plain_def by code_simp
  then show ?thesis by (simp add: plain_policy_def list_all_iff)
qed

lemma sample_roots: "watch_roots sample_layouts sample_tree [''s''] {} []
    = [\<lparr>wr_layout = ''gba-root'', wr_path = [''s'', ''gba''], wr_canonical = ''gba'', wr_recursive = False\<rparr>]"
  by code_simp

lemma sample_selects: "selects sample_layouts {} ''gba-root'' ''gba/z.srm'' = Inr True" "selects sample_layouts {} ''gba-root'' ''gba/z.txt'' = Inr False"
  by code_simp+

lemma sample_scan: "scan_tree_report sample_layouts sample_tree [''s''] {} {} None
    = Inr (report_of [(''gba/z.srm'', \<lparr>art_path = ''gba/z.srm'', art_size = 2, art_hash = sha256_hex [1, 2]\<rparr>)])"
proof -
  have c: "canonical_of ''gba'' ''z.srm'' = ''gba/z.srm''" "canonical_of ''gba'' ''z.txt'' = ''gba/z.txt''" by code_simp+
  have a: "approved_files sample_tree [''s'', ''gba''] False = [([''z.srm''], [1, 2]), ([''z.txt''], [])]"
    by (simp add: sample_tree_def strict_prefix_def)
  show ?thesis
    by (simp add: scan_tree_report_def include_set_def sample_roots scan_watch_roots_def scan_root_def a scan_file_def c sample_selects add_artifact_def Let_def)
qed

theorem scans_agree_witness:
  "\<exists>p. scan_provider_tree_report 3 sample_layouts (disk_listing sample_tree [''s'']) (disk_bytes sample_tree [''s'']) {} {} None = Some (Inr p)
     \<and> map_of (sc_artifacts p) = [''gba/z.srm'' \<mapsto> \<lparr>art_path = ''gba/z.srm'', art_size = 2, art_hash = sha256_hex [1, 2]\<rparr>]"
proof -
  have "length (tree_dirs sample_tree) < 3" by (simp add: tree_dirs_def sample_tree_def)
  from scans_agree [OF sample_tree_wf(1,2) sample_layouts_plain sample_tree_wf(3) disk_serves this, of "{}" "{}"]
  show ?thesis unfolding sample_scan by (auto simp: report_of_def)
qed

theorem scan_exact_witness:
  "\<exists>w \<in> set (watch_roots sample_layouts sample_tree [''s''] {} []). \<exists>parts b.
     content sample_tree (wr_path w @ parts) = Some b \<and> canonical_of (wr_canonical w) (text_of parts) = ''gba/z.srm''"
proof -
  have "map_of (sc_artifacts (report_of [(''gba/z.srm'', \<lparr>art_path = ''gba/z.srm'', art_size = 2, art_hash = sha256_hex [1, 2]\<rparr>)])) ''gba/z.srm''
     = Some \<lparr>art_path = ''gba/z.srm'', art_size = 2, art_hash = sha256_hex [1, 2]\<rparr>" by (simp add: report_of_def)
  from this [unfolded scan_exact [OF sample_tree_wf(1) sample_scan]] show ?thesis by metis
qed

end
