(* ===== verification/SavePlanner.thy ===== *)
theory SavePlanner
  imports SaveScan Journal
begin

text \<open>
  Reconciliation of saves (the planner of \<open>services/saves.py\<close>): the files of both sides and of the last
  shared manifest are compared group by group, a group goes to the side that did not change, and a group
  changed on both sides is left alone.

  A policy is seen through \<open>group_for_path\<close>, the descriptor of the group a path belongs to; it
  does not raise for a registry whose grouping strategies are known (\<open>registry_grouping\<close>).  A manifest is a
  dictionary from paths to artifacts.  Log lines, diagnostics and progress are left out.
\<close>

subsection \<open>Groups\<close>

type_synonym grouping = "string \<Rightarrow> group_descriptor option"

definition grouping_of :: "selection_policy \<Rightarrow> grouping" where
  "grouping_of po path = (case group_for_path po path of Inr d \<Rightarrow> d | Inl _ \<Rightarrow> None)"

definition same_save_artifact :: "save_artifact option \<Rightarrow> save_artifact option \<Rightarrow> bool" where
  "same_save_artifact l r = (case (l, r) of
     (Some a, Some b) \<Rightarrow> art_path a = art_path b \<and> art_size a = art_size b \<and> art_hash a = art_hash b
   | (None, None) \<Rightarrow> True
   | _ \<Rightarrow> False)"

definition group_id :: "grouping \<Rightarrow> string \<Rightarrow> string" where
  "group_id G path = (case G path of None \<Rightarrow> ''unsupported:'' @ path | Some d \<Rightarrow> gd_group d)"

definition group_manifest :: "manifest \<Rightarrow> string list \<Rightarrow> save_artifact list" where
  "group_manifest m paths = map (\<lambda>p. the (map_of m p)) (filter (\<lambda>p. map_of m p \<noteq> None) paths)"

text \<open>\<open>groups.setdefault(key(x), []).append(x)\<close> over a list\<close>

definition add_to_group :: "('a \<Rightarrow> 'k) \<Rightarrow> 'a \<Rightarrow> ('k, 'a list) dict \<Rightarrow> ('k, 'a list) dict" where
  "add_to_group key x d = AList.update (key x) ((case map_of d (key x) of None \<Rightarrow> [] | Some xs \<Rightarrow> xs) @ [x]) d"

definition grouped :: "('a \<Rightarrow> 'k) \<Rightarrow> 'a list \<Rightarrow> ('k, 'a list) dict" where
  "grouped key xs = fold (add_to_group key) xs []"

definition grouped_manifest :: "grouping \<Rightarrow> manifest \<Rightarrow> (string, save_artifact list) dict" where
  "grouped_manifest G m = map (\<lambda>(g, paths). (g, group_manifest m paths)) (grouped (group_id G) (sorted_keys m))"

text \<open>\<open>sorted(set(a) | set(b) | ...)\<close>\<close>

definition all_save_paths :: "manifest list \<Rightarrow> string list" where
  "all_save_paths ms = sort (dedup (concat (map (map fst) ms)))"

definition is_incomplete_local_materialization :: "save_artifact list \<Rightarrow> save_artifact list \<Rightarrow> save_artifact list \<Rightarrow> bool" where
  "is_incomplete_local_materialization local remote baseline =
     (if remote = [] \<or> baseline = [] \<or> length local \<ge> length baseline \<or> remote \<noteq> baseline then False
      else let by_path = dict_of (map (\<lambda>a. (art_path a, a)) baseline)
        in \<forall>a \<in> set local. same_save_artifact (map_of by_path (art_path a)) (Some a))"

definition group_conflict_ids :: "grouping \<Rightarrow> manifest \<Rightarrow> manifest \<Rightarrow> manifest \<Rightarrow> string set" where
  "group_conflict_ids G local remote baseline =
     fst ` set (filter (\<lambda>(g, paths).
         group_manifest local paths \<noteq> group_manifest remote paths
       \<and> group_manifest local paths \<noteq> group_manifest baseline paths
       \<and> group_manifest remote paths \<noteq> group_manifest baseline paths)
       (grouped (group_id G) (all_save_paths [local, remote, baseline])))"

subsection \<open>Previews\<close>

definition is_conflict :: "save_artifact option \<Rightarrow> save_artifact option \<Rightarrow> save_artifact option \<Rightarrow> bool" where
  "is_conflict local remote baseline =
     (if same_save_artifact local remote then False
      else \<not> same_save_artifact local baseline \<and> \<not> same_save_artifact remote baseline)"

definition change_of :: "save_artifact option \<Rightarrow> save_artifact option \<Rightarrow> change_kind" where
  "change_of new old =
     (if new \<noteq> None \<and> old = None then ADDED
      else if new = None \<and> old \<noteq> None then REMOVED
      else if \<not> same_save_artifact new old then CHANGED
      else UNCHANGED_FILE)"

definition diff_entries :: "grouping \<Rightarrow> manifest \<Rightarrow> manifest \<Rightarrow> direction \<Rightarrow> manifest \<Rightarrow> diff_entry list" where
  "diff_entries G new_side old_side direction baseline =
     (let conflicts = group_conflict_ids G new_side old_side baseline
      in map (\<lambda>p.
           let new = map_of new_side p; old = map_of old_side p;
               (local, remote) = (if direction = Upload then (new, old) else (old, new))
           in \<lparr>de_path = p, de_change = change_of new old, de_local = local, de_remote = remote,
               de_conflict = (group_id G p \<in> conflicts \<or> is_conflict local remote (map_of baseline p))\<rparr>)
         (all_save_paths [new_side, old_side]))"

definition merge_optional_groups :: "scan_report list \<Rightarrow> (string \<times> int \<times> int) list" where
  "merge_optional_groups reports = sort_key fst (fold (\<lambda>r. fold add_group (sc_optional r)) reports [])"

definition preview :: "grouping \<Rightarrow> direction \<Rightarrow> scan_report \<Rightarrow> scan_report \<Rightarrow> manifest \<Rightarrow> save_diff" where
  "preview G direction local_report remote_report baseline =
     (let (new_side, old_side) = (if direction = Upload then (sc_artifacts local_report, sc_artifacts remote_report)
                                  else (sc_artifacts remote_report, sc_artifacts local_report))
      in \<lparr>df_direction = direction, df_entries = diff_entries G new_side old_side direction baseline,
          df_excluded_files = sc_excluded_files local_report + sc_excluded_files remote_report,
          df_excluded_bytes = sc_excluded_bytes local_report + sc_excluded_bytes remote_report,
          df_optional = merge_optional_groups [local_report, remote_report]\<rparr>)"

definition manifests_from_diff :: "save_diff \<Rightarrow> manifest \<times> manifest" where
  "manifests_from_diff d = fold (\<lambda>e (local, remote).
      (case de_local e of None \<Rightarrow> local | Some a \<Rightarrow> AList.update (de_path e) a local,
       case de_remote e of None \<Rightarrow> remote | Some a \<Rightarrow> AList.update (de_path e) a remote)) (df_entries d) ([], [])"

subsection \<open>Plans\<close>

definition group_action :: "string set \<Rightarrow> string \<Rightarrow> save_artifact list \<Rightarrow> save_artifact list \<Rightarrow> save_artifact list \<Rightarrow> reconcile_action" where
  "group_action repair g local remote baseline =
     (if local = remote then UNCHANGED
      else if g \<in> repair \<and> is_incomplete_local_materialization local remote baseline then DOWNLOAD
      else if remote = baseline then UPLOAD
      else if local = baseline then DOWNLOAD
      else BOTH_CHANGED)"

definition group_entries :: "string set \<Rightarrow> manifest \<Rightarrow> manifest \<Rightarrow> manifest \<Rightarrow> string \<times> string list \<Rightarrow> reconcile_entry list" where
  "group_entries repair local remote baseline = (\<lambda>(g, paths).
     (let action = group_action repair g (group_manifest local paths) (group_manifest remote paths) (group_manifest baseline paths)
      in map (\<lambda>p. \<lparr>re_path = p, re_action = action, re_local = map_of local p, re_remote = map_of remote p,
                   re_baseline = map_of baseline p\<rparr>) paths))"

definition save_reconcile_plan :: "grouping \<Rightarrow> scan_report \<Rightarrow> scan_report \<Rightarrow> manifest \<Rightarrow> string \<Rightarrow> string set \<Rightarrow> save_plan" where
  "save_reconcile_plan G local_report remote_report baseline scope repair =
     (let local = sc_artifacts local_report; remote = sc_artifacts remote_report;
          groups = grouped (group_id G) (all_save_paths [local, remote, baseline]);
          entries = concat (map (group_entries repair local remote baseline) (sort_key fst groups))
      in \<lparr>sp_entries = sort_key re_path entries,
          sp_excluded_files = sc_excluded_files local_report + sc_excluded_files remote_report,
          sp_excluded_bytes = sc_excluded_bytes local_report + sc_excluded_bytes remote_report,
          sp_optional = merge_optional_groups [local_report, remote_report],
          sp_scope = scope\<rparr>)"

text \<open>\<open>manifest.pop(path, None)\<close> or \<open>manifest[path] = artifact\<close>\<close>

definition assign :: "string \<Rightarrow> save_artifact option \<Rightarrow> manifest \<Rightarrow> manifest" where
  "assign path artifact m = (case artifact of None \<Rightarrow> AList.delete path m | Some a \<Rightarrow> AList.update path a m)"

text \<open>The desired manifests of both sides, from those the containers left.\<close>

definition desired_step :: "bool \<Rightarrow> reconcile_entry \<Rightarrow> manifest \<times> manifest \<Rightarrow> manifest \<times> manifest" where
  "desired_step upload_only e = (\<lambda>(local, remote).
     if re_action e = UPLOAD then (local, assign (re_path e) (re_local e) remote)
     else if re_action e = DOWNLOAD \<and> \<not> upload_only then (assign (re_path e) (re_remote e) local, remote)
     else (local, remote))"

definition desired :: "bool \<Rightarrow> save_plan \<Rightarrow> manifest \<times> manifest \<Rightarrow> manifest \<times> manifest" where
  "desired upload_only plan sides = fold (desired_step upload_only) (sp_entries plan) sides"

definition reconciled_baseline :: "save_plan \<Rightarrow> manifest \<Rightarrow> manifest" where
  "reconciled_baseline plan existing = fold (\<lambda>e. assign (re_path e)
     (if re_action e = BOTH_CHANGED then re_baseline e
      else if re_action e = UPLOAD then re_local e
      else if re_remote e \<noteq> None then re_remote e else re_local e)) (sp_entries plan) existing"

definition upload_only_reconciled_baseline :: "save_plan \<Rightarrow> manifest \<Rightarrow> manifest" where
  "upload_only_reconciled_baseline plan existing = fold (\<lambda>e. assign (re_path e)
     (if re_action e = UPLOAD then re_local e
      else if re_action e = UNCHANGED then (if re_local e \<noteq> None then re_local e else re_remote e)
      else re_baseline e)) (sp_entries plan) existing"

definition selected_baseline :: "bool \<Rightarrow> save_plan \<Rightarrow> manifest \<Rightarrow> manifest" where
  "selected_baseline upload_only plan existing =
     (if upload_only then upload_only_reconciled_baseline plan existing else reconciled_baseline plan existing)"

subsection \<open>The groups afterwards\<close>

definition by_artifact_path :: "save_artifact list \<Rightarrow> manifest" where
  "by_artifact_path values = dict_of (map (\<lambda>a. (art_path a, a)) values)"

definition condition_of :: "save_artifact list \<Rightarrow> save_artifact list \<Rightarrow> save_artifact list \<Rightarrow> condition" where
  "condition_of base local remote =
     (if local = remote then CLEAN
      else if remote = base then LOCAL_DIRTY
      else if local = base then REMOTE_DIRTY
      else CONFLICTED)"

definition group_state_of :: "string \<Rightarrow> string \<Rightarrow> string \<Rightarrow> save_artifact list \<Rightarrow> save_artifact list \<Rightarrow> save_artifact list \<Rightarrow> group_state" where
  "group_state_of g layout observed_at base local remote =
     (let snapshot = (\<lambda>artifacts. \<lparr>gs_group = g, gs_layout = layout, gs_artifacts = artifacts, gs_observed = Some observed_at\<rparr>)
      in \<lparr>gr_group = g, gr_layout = layout, gr_condition = condition_of base local remote,
          gr_baseline = Some (snapshot base), gr_local = Some (snapshot local), gr_remote = Some (snapshot remote),
          gr_hints = [], gr_verified = Some observed_at\<rparr>)"

definition group_states_from_manifests :: "grouping \<Rightarrow> string \<Rightarrow> save_artifact list \<Rightarrow> save_artifact list \<Rightarrow> save_artifact list \<Rightarrow> group_state list" where
  "group_states_from_manifests G observed_at baseline_values local_values remote_values =
     (let baseline = by_artifact_path baseline_values; local = by_artifact_path local_values; remote = by_artifact_path remote_values;
          supported = filter (\<lambda>p. G p \<noteq> None) (all_save_paths [baseline, local, remote])
      in map (\<lambda>(g, paths). group_state_of g (gd_layout (the (G (last paths)))) observed_at
               (group_manifest baseline paths) (group_manifest local paths) (group_manifest remote paths))
           (sort_key fst (grouped (\<lambda>p. gd_group (the (G p))) supported)))"

subsection \<open>Selected groups\<close>

definition manifest_for_groups :: "grouping \<Rightarrow> string set \<Rightarrow> manifest \<Rightarrow> manifest" where
  "manifest_for_groups G ids m = filter (\<lambda>(p, a). group_id G p \<in> ids) m"

definition report_for_groups :: "grouping \<Rightarrow> string set \<Rightarrow> scan_report \<Rightarrow> scan_report" where
  "report_for_groups G ids r = r\<lparr>sc_artifacts := manifest_for_groups G ids (sc_artifacts r)\<rparr>"

definition replace_selected_groups :: "grouping \<Rightarrow> string set option \<Rightarrow> manifest \<Rightarrow> manifest \<Rightarrow> manifest" where
  "replace_selected_groups G ids complete selected = (case ids of
     None \<Rightarrow> selected
   | Some is \<Rightarrow> fold (\<lambda>(p, a). AList.update p a) selected (filter (\<lambda>(p, a). group_id G p \<notin> is) complete))"

subsection \<open>What the other devices are told\<close>

definition changed_remote_groups :: "grouping \<Rightarrow> manifest \<Rightarrow> manifest \<Rightarrow> (string \<times> save_artifact list \<times> save_artifact list) list" where
  "changed_remote_groups G before after =
     (let grouped_before = grouped_manifest G before; grouped_after = grouped_manifest G after;
          get = (\<lambda>d g. case map_of d g of None \<Rightarrow> [] | Some v \<Rightarrow> v)
      in filter (\<lambda>(g, b, a). \<not> startswith g ''unsupported:'' \<and> b \<noteq> a)
           (map (\<lambda>g. (g, get grouped_before g, get grouped_after g))
             (sort (dedup (map fst grouped_before @ map fst grouped_after)))))"

definition mutation_of :: "group_descriptor \<Rightarrow> save_artifact list \<Rightarrow> save_artifact list \<Rightarrow> mutation" where
  "mutation_of d before after =
     [(''system'', JStr (gd_system d)), (''layout_id'', JStr (gd_layout d)), (''group_id'', JStr (gd_group d)),
      (''object_id'', case after of [a] \<Rightarrow> JStr (art_path a) | _ \<Rightarrow> (case before of [b] \<Rightarrow> JStr (art_path b) | _ \<Rightarrow> JNull)),
      (''operation'', JStr (if before = [] \<and> after \<noteq> [] then ''create'' else if before \<noteq> [] \<and> after = [] then ''delete'' else ''update''))]"

definition mutation_for :: "grouping \<Rightarrow> save_artifact list \<Rightarrow> save_artifact list \<Rightarrow> mutation list" where
  "mutation_for G before after =
     (if before = after then []
      else case G (art_path (if after \<noteq> [] then hd after else hd before)) of None \<Rightarrow> [] | Some d \<Rightarrow> [mutation_of d before after])"

definition journal_mutations_for_remote_transition :: "grouping \<Rightarrow> manifest \<Rightarrow> manifest \<Rightarrow> mutation list" where
  "journal_mutations_for_remote_transition G before after =
     (let grouped_before = grouped_manifest G before; grouped_after = grouped_manifest G after;
          get = (\<lambda>d g. case map_of d g of None \<Rightarrow> [] | Some v \<Rightarrow> v)
      in concat (map (\<lambda>g. mutation_for G (get grouped_before g) (get grouped_after g))
           (sort (dedup (map fst grouped_before @ map fst grouped_after)))))"

end
