(* ===== verification/PlannerProperties.thy ===== *)
theory PlannerProperties
  imports SavePlanner
begin

text \<open>
  What reconciliation promises, over the two sides and the shared manifest seen as maps: the plan is the
  three-way comparison of whole groups, nothing that was not shared before is overwritten, planning again
  changes nothing, and previews, group states and the journal agree with the plan.
\<close>

subsection \<open>Grouping a list\<close>

lemma wf_add_to_group: "wf_dict d \<Longrightarrow> wf_dict (add_to_group key x d)"
  by (simp add: add_to_group_def)

lemma map_of_fold_groups:
  "map_of (fold (add_to_group key) xs d) k =
     (case map_of d k of Some ys \<Rightarrow> Some (ys @ filter (\<lambda>x. key x = k) xs)
      | None \<Rightarrow> if k \<in> key ` set xs then Some (filter (\<lambda>x. key x = k) xs) else None)"
  by (induction xs arbitrary: d) (auto simp: add_to_group_def update_conv split: option.splits)

lemma map_of_grouped: "map_of (grouped key xs) k = (if k \<in> key ` set xs then Some (filter (\<lambda>x. key x = k) xs) else None)"
  by (simp add: grouped_def map_of_fold_groups)

lemma wf_grouped [simp]: "wf_dict (grouped key xs)"
proof -
  have "wf_dict d \<Longrightarrow> wf_dict (fold (add_to_group key) xs d)" for d
    by (induction xs arbitrary: d) (auto simp: wf_add_to_group)
  then show ?thesis by (simp add: grouped_def)
qed

lemma mem_grouped: "(k, ys) \<in> set (grouped key xs) \<longleftrightarrow> k \<in> key ` set xs \<and> ys = filter (\<lambda>x. key x = k) xs"
  using map_of_eq_Some_iff [of "grouped key xs" k ys] wf_grouped [of key xs, unfolded wf_dict_def]
  by (auto simp: map_of_grouped split: if_splits)

lemma fst_grouped: "fst ` set (grouped key xs) = key ` set xs"
  unfolding dom_map_of_conv_image_fst [symmetric] by (auto simp: map_of_grouped split: if_splits)

lemma set_all_save_paths [simp]: "set (all_save_paths ms) = (\<Union>m \<in> set ms. dom (map_of m))"
  by (auto simp: all_save_paths_def dom_map_of_conv_image_fst)

lemma sorted_all_save_paths [simp]: "sorted (all_save_paths ms)" "distinct (all_save_paths ms)"
  by (simp_all add: all_save_paths_def)

text \<open>The groups of a list, one after the other, are a permutation of it.\<close>

lemma distinct_groups: "distinct xs \<Longrightarrow> distinct (concat (map snd (sort_key fst (grouped key xs))))"
proof -
  assume xs: "distinct xs"
  have "distinct (map fst ds) \<Longrightarrow> (\<And>k ys. (k, ys) \<in> set ds \<Longrightarrow> ys = filter (\<lambda>x. key x = k) xs) \<Longrightarrow> distinct (concat (map snd ds))" for ds
  proof (induction ds)
    case (Cons d ds)
    obtain k ys where d: "d = (k, ys)" by (cases d)
    have "set ys \<inter> set (concat (map snd ds)) = {}"
    proof (rule ccontr)
      assume "set ys \<inter> set (concat (map snd ds)) \<noteq> {}"
      then obtain x k' zs where x: "x \<in> set ys" "(k', zs) \<in> set ds" "x \<in> set zs" by auto
      with Cons.prems(2) [of k ys] Cons.prems(2) [of k' zs] d have "k = k'" by auto
      with x Cons.prems(1) d show False by force
    qed
    moreover have "distinct (concat (map snd ds))" using Cons.prems by (intro Cons.IH) auto
    ultimately show ?case using d Cons.prems(2) [of k ys] xs by simp
  qed simp
  from this [of "sort_key fst (grouped key xs)"] show ?thesis
    using wf_grouped [of key xs] by (auto simp: wf_dict_def mem_grouped distinct_map)
qed

lemma set_groups: "set (concat (map snd (sort_key fst (grouped key xs)))) = set xs"
proof -
  have "set (concat (map snd (grouped key xs))) = (\<Union>(k, ys) \<in> set (grouped key xs). set ys)" by auto
  also have "\<dots> = (\<Union>k \<in> key ` set xs. {x \<in> set xs. key x = k})"
    by (auto simp: mem_grouped) (metis (mono_tags, lifting) case_prod_conv imageI mem_Collect_eq mem_grouped set_filter)
  also have "\<dots> = set xs" by auto
  finally show ?thesis by simp
qed

subsection \<open>Sides as maps\<close>

definition wf_saves :: "manifest \<Rightarrow> bool" where
  "wf_saves m \<longleftrightarrow> wf_dict m \<and> (\<forall>p a. map_of m p = Some a \<longrightarrow> art_path a = p)"

definition group_view :: "grouping \<Rightarrow> manifest \<Rightarrow> string \<Rightarrow> string \<rightharpoonup> save_artifact" where
  "group_view G m g = map_of m |` {p. group_id G p = g}"

lemma wf_saves_path: "wf_saves m \<Longrightarrow> map_of m p = Some a \<Longrightarrow> art_path a = p"
  by (simp add: wf_saves_def)

lemma group_manifest_paths: "wf_saves m \<Longrightarrow> map art_path (group_manifest m ps) = filter (\<lambda>p. map_of m p \<noteq> None) ps"
proof -
  assume m: "wf_saves m"
  have "art_path (the (map_of m p)) = p" if "map_of m p \<noteq> None" for p
    using wf_saves_path [OF m] that by (metis option.collapse)
  then show ?thesis unfolding group_manifest_def map_map by (intro map_idI) simp
qed

lemma group_manifest_eq:
  assumes "wf_saves m" and "wf_saves n"
  shows "group_manifest m ps = group_manifest n ps \<longleftrightarrow> (\<forall>p \<in> set ps. map_of m p = map_of n p)"
proof
  assume e: "group_manifest m ps = group_manifest n ps"
  from arg_cong [OF this, of "map art_path"] have d: "filter (\<lambda>p. map_of m p \<noteq> None) ps = filter (\<lambda>p. map_of n p \<noteq> None) ps"
    by (simp only: group_manifest_paths [OF assms(1)] group_manifest_paths [OF assms(2)])
  show "\<forall>p \<in> set ps. map_of m p = map_of n p"
  proof
    fix p assume p: "p \<in> set ps"
    have "p \<in> set (filter (\<lambda>p. map_of m p \<noteq> None) ps) \<longleftrightarrow> p \<in> set (filter (\<lambda>p. map_of n p \<noteq> None) ps)" by (simp only: d)
    with p have s: "map_of m p \<noteq> None \<longleftrightarrow> map_of n p \<noteq> None" by simp
    have "the (map_of m p) = the (map_of n p)" if "map_of m p \<noteq> None"
      using e [unfolded group_manifest_def d map_eq_conv] that p s by auto
    with s show "map_of m p = map_of n p" by (metis option.exhaust_sel)
  qed
next
  assume "\<forall>p \<in> set ps. map_of m p = map_of n p"
  then show "group_manifest m ps = group_manifest n ps" by (auto simp: group_manifest_def intro!: map_cong filter_cong)
qed

definition covers :: "manifest \<Rightarrow> string list \<Rightarrow> bool" where
  "covers m ps \<longleftrightarrow> dom (map_of m) \<subseteq> set ps"

abbreviation members :: "grouping \<Rightarrow> string \<Rightarrow> string list \<Rightarrow> string list" where
  "members G g ps \<equiv> filter (\<lambda>p. group_id G p = g) ps"

lemma group_manifest_view:
  assumes "wf_saves m" and "wf_saves n" and "covers m ps" and "covers n ps"
  shows "group_manifest m (members G g ps) = group_manifest n (members G g ps) \<longleftrightarrow> group_view G m g = group_view G n g"
proof -
  have "(\<forall>p \<in> set (members G g ps). map_of m p = map_of n p) \<longleftrightarrow> group_view G m g = group_view G n g"
    using assms(3,4) unfolding covers_def group_view_def restrict_map_def fun_eq_iff
    by (auto simp: domIff) (metis domIff subsetD)+
  then show ?thesis by (simp add: group_manifest_eq [OF assms(1,2)])
qed

lemma length_group_manifest:
  assumes "distinct ps" and "covers m ps"
  shows "length (group_manifest m (members G g ps)) = card (dom (group_view G m g))"
proof -
  have "set (filter (\<lambda>p. map_of m p \<noteq> None) (members G g ps)) = dom (group_view G m g)"
    using assms(2) by (auto simp: covers_def group_view_def)
  moreover have "distinct (filter (\<lambda>p. map_of m p \<noteq> None) (members G g ps))" using assms(1) by simp
  ultimately show ?thesis by (metis (no_types, lifting) distinct_card group_manifest_def length_map)
qed

lemma set_group_manifest: "covers m ps \<Longrightarrow> set (group_manifest m (members G g ps)) = ran (group_view G m g)"
  by (force simp: covers_def group_manifest_def group_view_def ran_def restrict_map_def image_iff split: if_splits)


subsection \<open>The action of a group\<close>

text \<open>The three-way comparison of a group, seen as maps.\<close>

definition side_action :: "bool \<Rightarrow> (string \<rightharpoonup> save_artifact) \<Rightarrow> (string \<rightharpoonup> save_artifact) \<Rightarrow> (string \<rightharpoonup> save_artifact) \<Rightarrow> reconcile_action" where
  "side_action repair L R B =
     (if L = R then UNCHANGED
      else if R = B then (if repair \<and> L \<subseteq>\<^sub>m B then DOWNLOAD else UPLOAD)
      else if L = B then DOWNLOAD
      else BOTH_CHANGED)"

lemma submap_card: "finite (dom B) \<Longrightarrow> L \<subseteq>\<^sub>m B \<Longrightarrow> L \<noteq> B \<Longrightarrow> card (dom L) < card (dom B)"
proof -
  assume f: "finite (dom B)" and s: "L \<subseteq>\<^sub>m B" and "L \<noteq> B"
  then have "dom L \<noteq> dom B" by (metis map_le_antisym map_le_def)
  with s f show ?thesis by (meson map_le_implies_dom_le psubsetI psubset_card_mono)
qed

lemma group_view_path: "wf_saves m \<Longrightarrow> group_view G m g p = Some a \<Longrightarrow> art_path a = p"
  by (auto simp: group_view_def restrict_map_def split: if_splits intro: wf_saves_path)

lemma finite_view [simp]: "finite (dom (group_view G m g))"
  by (simp add: group_view_def finite_dom_map_of)

lemma incomplete_view:
  assumes wf: "wf_saves l" "wf_saves r" "wf_saves b" and c: "covers l ps" "covers r ps" "covers b ps" and d: "distinct ps"
    and ne: "group_view G l g \<noteq> group_view G r g"
  shows "is_incomplete_local_materialization (group_manifest l (members G g ps)) (group_manifest r (members G g ps)) (group_manifest b (members G g ps))
     \<longleftrightarrow> group_view G r g = group_view G b g \<and> group_view G l g \<subseteq>\<^sub>m group_view G b g"
proof (cases "group_view G r g = group_view G b g")
  case False
  then show ?thesis by (simp add: is_incomplete_local_materialization_def group_manifest_view [OF wf(2,3) c(2,3)])
next
  case True
  let ?L = "group_view G l g" and ?B = "group_view G b g"
  let ?gl = "group_manifest l (members G g ps)" and ?gb = "group_manifest b (members G g ps)"
  have e: "group_manifest r (members G g ps) = ?gb" using True group_manifest_view [OF wf(2,3) c(2,3)] by blast
  have paths: "map (\<lambda>a. art_path a) ?gb = filter (\<lambda>p. map_of b p \<noteq> None) (members G g ps)"
    using group_manifest_paths [OF wf(3)] by simp
  have bm: "map_of (dict_of (map (\<lambda>a. (art_path a, a)) ?gb)) p = ?B p" for p
  proof -
    have "distinct (map fst (map (\<lambda>a. (art_path a, a)) ?gb))" using d by (simp add: comp_def paths)
    then have "map_of (dict_of (map (\<lambda>a. (art_path a, a)) ?gb)) = map_of (map (\<lambda>a. (art_path a, a)) ?gb)"
      by (rule map_of_dict_of_distinct)
    moreover have "map (\<lambda>a. (art_path a, a)) ?gb = map (\<lambda>p. (p, the (map_of b p))) (filter (\<lambda>p. map_of b p \<noteq> None) (members G g ps))"
      using wf_saves_path [OF wf(3)] by (auto simp: group_manifest_def)
    moreover have "p \<notin> set ps \<Longrightarrow> map_of b p = None" using c(3) by (auto simp: covers_def)
    ultimately show ?thesis by (auto simp: map_of_map_keys map_of_map_restrict group_view_def restrict_map_def comp_def)
  qed
  have sub: "(\<forall>a \<in> set ?gl. same_save_artifact (?B (art_path a)) (Some a)) \<longleftrightarrow> ?L \<subseteq>\<^sub>m ?B"
  proof -
    have same: "same_save_artifact x (Some a) \<longleftrightarrow> x = Some a" for x a by (auto simp: same_save_artifact_def split: option.splits)
    have "(\<forall>a \<in> ran ?L. ?B (art_path a) = Some a) \<longleftrightarrow> (\<forall>p a. ?L p = Some a \<longrightarrow> ?B p = Some a)"
    proof (intro iffI ballI allI impI)
      fix p a assume h: "\<forall>a \<in> ran ?L. ?B (art_path a) = Some a" and p: "?L p = Some a"
      from h ranI [where m = "?L" and a = p and b = a] p group_view_path [OF wf(1) p] show "?B p = Some a" by auto
    next
      fix a assume h: "\<forall>p a. ?L p = Some a \<longrightarrow> ?B p = Some a" and "a \<in> ran ?L"
      then obtain p where p: "?L p = Some a" by (auto simp: ran_def)
      with h group_view_path [OF wf(1) p] show "?B (art_path a) = Some a" by simp
    qed
    also have "\<dots> \<longleftrightarrow> ?L \<subseteq>\<^sub>m ?B" by (auto simp: map_le_def dom_def)
    finally show ?thesis unfolding set_group_manifest [OF c(1)] same .
  qed
  show ?thesis
  proof (cases "?L \<subseteq>\<^sub>m ?B")
    case sm: True
    with ne True have lt: "card (dom ?L) < card (dom ?B)" by (intro submap_card) auto
    then have "?gb \<noteq> []" using length_group_manifest [OF d c(3), of G g] by auto
    with lt show ?thesis using sm sub True
      by (simp add: is_incomplete_local_materialization_def e bm length_group_manifest [OF d c(1)] length_group_manifest [OF d c(3)] Let_def)
  next
    case sm: False
    then show ?thesis using sub by (simp add: is_incomplete_local_materialization_def e bm Let_def)
  qed
qed

lemma group_action_view:
  assumes "wf_saves l" "wf_saves r" "wf_saves b" and "covers l ps" "covers r ps" "covers b ps" and "distinct ps"
  shows "group_action repair g (group_manifest l (members G g ps)) (group_manifest r (members G g ps)) (group_manifest b (members G g ps))
     = side_action (g \<in> repair) (group_view G l g) (group_view G r g) (group_view G b g)"
proof (cases "group_view G l g = group_view G r g")
  case False
  with incomplete_view [OF assms False] assms show ?thesis
    by (simp add: group_action_def side_action_def group_manifest_view)
next
  case True
  with assms show ?thesis by (simp add: group_action_def side_action_def group_manifest_view)
qed

definition entry_for :: "grouping \<Rightarrow> string set \<Rightarrow> manifest \<Rightarrow> manifest \<Rightarrow> manifest \<Rightarrow> string \<Rightarrow> reconcile_entry" where
  "entry_for G repair l r b p =
     (let g = group_id G p
      in \<lparr>re_path = p, re_action = side_action (g \<in> repair) (group_view G l g) (group_view G r g) (group_view G b g),
          re_local = map_of l p, re_remote = map_of r p, re_baseline = map_of b p\<rparr>)"

lemma plan_entries:
  assumes "wf_saves l" "wf_saves r" "wf_saves b" and "sc_artifacts local_report = l" and "sc_artifacts remote_report = r"
  shows "sp_entries (save_reconcile_plan G local_report remote_report b scope repair) = map (entry_for G repair l r b) (all_save_paths [l, r, b])"
proof -
  let ?ps = "all_save_paths [l, r, b]" and ?E = "entry_for G repair l r b"
  let ?gs = "sort_key fst (grouped (group_id G) ?ps)"
  have c: "covers l ?ps" "covers r ?ps" "covers b ?ps" by (auto simp: covers_def)
  have "group_entries repair l r b d = map ?E (snd d)" if "d \<in> set ?gs" for d
  proof -
    obtain g qs where d: "d = (g, qs)" by (cases d)
    with that have qs: "qs = members G g ?ps" by (simp add: mem_grouped)
    show ?thesis unfolding d qs
      using group_action_view [OF assms(1-3) c, of repair g G] by (auto simp: group_entries_def entry_for_def Let_def)
  qed
  then have "map (group_entries repair l r b) ?gs = map (\<lambda>d. map ?E (snd d)) ?gs" by (rule map_cong [OF refl])
  then have "concat (map (group_entries repair l r b) ?gs) = map ?E (concat (map snd ?gs))" by (simp only: map_concat map_map comp_def)
  then have "sp_entries (save_reconcile_plan G local_report remote_report b scope repair) = map ?E (sort_key (\<lambda>p. re_path (?E p)) (concat (map snd ?gs)))"
    by (simp add: save_reconcile_plan_def assms Let_def sort_key_map)
  also have "(\<lambda>p. re_path (?E p)) = (\<lambda>p. p)" by (simp add: entry_for_def Let_def)
  also have "sort_key (\<lambda>p. p) (concat (map snd ?gs)) = ?ps"
  proof (rule sorted_distinct_set_unique)
    show "set (sort_key (\<lambda>p. p) (concat (map snd ?gs))) = set ?ps" using set_groups [of "group_id G" ?ps] by simp
    show "distinct (sort_key (\<lambda>p. p) (concat (map snd ?gs)))" unfolding distinct_sort by (rule distinct_groups) simp
  qed simp_all
  finally show ?thesis .
qed


subsection \<open>Carrying a plan out\<close>

lemma map_of_assign [simp]: "map_of (assign p a m) = (map_of m)(p := a)"
  by (cases a) (auto simp: assign_def update_conv delete_conv fun_eq_iff)

lemma wf_assign: "wf_saves m \<Longrightarrow> (\<And>x. a = Some x \<Longrightarrow> art_path x = p) \<Longrightarrow> wf_saves (assign p a m)"
  by (cases a) (auto simp: wf_saves_def assign_def update_conv delete_conv)

text \<open>A loop that assigns to the paths of some entries, each once.\<close>

definition assign_where :: "(reconcile_entry \<Rightarrow> bool) \<Rightarrow> (reconcile_entry \<Rightarrow> save_artifact option) \<Rightarrow> reconcile_entry \<Rightarrow> manifest \<Rightarrow> manifest" where
  "assign_where C v e m = (if C e then assign (re_path e) (v e) m else m)"

lemma assign_loop:
  assumes "distinct ps" and "\<And>p. re_path (E p) = p"
  shows "map_of (fold (assign_where C v) (map E ps) m) q = (if q \<in> set ps \<and> C (E q) then v (E q) else map_of m q)"
  using assms by (induction ps arbitrary: m) (auto simp: assign_where_def)

lemma wf_assign_loop:
  assumes "\<And>p x. v (E p) = Some x \<Longrightarrow> art_path x = p" and "\<And>p. re_path (E p) = p" and "wf_saves m"
  shows "wf_saves (fold (assign_where C v) (map E ps) m)"
  using assms(3)
proof (induction ps arbitrary: m)
  case (Cons p ps)
  then show ?case using wf_assign [OF Cons.prems assms(1)] by (simp add: assign_where_def assms(2))
qed simp

lemma desired_loops:
  "desired u plan (l, r) =
     (fold (assign_where (\<lambda>e. re_action e = DOWNLOAD \<and> \<not> u) re_remote) (sp_entries plan) l,
      fold (assign_where (\<lambda>e. re_action e = UPLOAD) re_local) (sp_entries plan) r)"
proof -
  have "fold (desired_step u) es (l, r) =
      (fold (assign_where (\<lambda>e. re_action e = DOWNLOAD \<and> \<not> u) re_remote) es l, fold (assign_where (\<lambda>e. re_action e = UPLOAD) re_local) es r)" for es
    by (induction es arbitrary: l r) (auto simp: desired_step_def assign_where_def)
  then show ?thesis by (simp add: desired_def)
qed

lemma baseline_loops:
  "reconciled_baseline plan b = fold (assign_where (\<lambda>_. True)
     (\<lambda>e. if re_action e = BOTH_CHANGED then re_baseline e else if re_action e = UPLOAD then re_local e
        else if re_remote e \<noteq> None then re_remote e else re_local e)) (sp_entries plan) b"
  "upload_only_reconciled_baseline plan b = fold (assign_where (\<lambda>_. True)
     (\<lambda>e. if re_action e = UPLOAD then re_local e
        else if re_action e = UNCHANGED then (if re_local e \<noteq> None then re_local e else re_remote e) else re_baseline e)) (sp_entries plan) b"
  by (simp_all add: reconciled_baseline_def upload_only_reconciled_baseline_def assign_where_def [abs_def] fun_eq_iff)

lemma entry_for_simps [simp]:
  "re_path (entry_for G repair l r b p) = p"
  "re_action (entry_for G repair l r b p) = side_action (group_id G p \<in> repair) (group_view G l (group_id G p)) (group_view G r (group_id G p)) (group_view G b (group_id G p))"
  "re_local (entry_for G repair l r b p) = map_of l p" "re_remote (entry_for G repair l r b p) = map_of r p"
  "re_baseline (entry_for G repair l r b p) = map_of b p"
  by (simp_all add: entry_for_def Let_def)

text \<open>One run of the planner over three manifests, and what it leaves.\<close>

definition plan_for :: "grouping \<Rightarrow> string set \<Rightarrow> manifest \<Rightarrow> manifest \<Rightarrow> manifest \<Rightarrow> save_plan" where
  "plan_for G repair l r b = save_reconcile_plan G (report_of l) (report_of r) b ''all_eligible'' repair"

definition three_way :: "grouping \<Rightarrow> string set \<Rightarrow> manifest \<Rightarrow> manifest \<Rightarrow> manifest \<Rightarrow> string \<Rightarrow> reconcile_action" where
  "three_way G repair l r b g = side_action (g \<in> repair) (group_view G l g) (group_view G r g) (group_view G b g)"

definition wf_sides :: "manifest \<Rightarrow> manifest \<Rightarrow> manifest \<Rightarrow> bool" where
  "wf_sides l r b \<longleftrightarrow> wf_saves l \<and> wf_saves r \<and> wf_saves b"

lemma sides_wf: "wf_sides l r b \<Longrightarrow> wf_saves l" "wf_sides l r b \<Longrightarrow> wf_saves r" "wf_sides l r b \<Longrightarrow> wf_saves b"
  by (simp_all add: wf_sides_def)

lemma plan_for_entries: "wf_sides l r b \<Longrightarrow> sp_entries (plan_for G repair l r b) = map (entry_for G repair l r b) (all_save_paths [l, r, b])"
  unfolding plan_for_def by (rule plan_entries) (simp_all add: report_of_def wf_sides_def)

lemma off_all: "p \<notin> set (all_save_paths [l, r, b]) \<Longrightarrow> map_of l p = None \<and> map_of r p = None \<and> map_of b p = None"
  by (auto simp: domIff)

lemma desired_maps:
  assumes "wf_sides l r b"
  shows "map_of (fst (desired u (plan_for G repair l r b) (l, r))) p =
      (if three_way G repair l r b (group_id G p) = DOWNLOAD \<and> \<not> u then map_of r p else map_of l p)"
    and "map_of (snd (desired u (plan_for G repair l r b) (l, r))) p =
      (if three_way G repair l r b (group_id G p) = UPLOAD then map_of l p else map_of r p)"
  using off_all [of p l r b]
  by (auto simp: desired_loops plan_for_entries assms assign_loop three_way_def simp del: set_all_save_paths)

lemma baseline_maps:
  assumes "wf_sides l r b"
  shows "map_of (selected_baseline u (plan_for G repair l r b) b) p =
     (case three_way G repair l r b (group_id G p) of
        BOTH_CHANGED \<Rightarrow> map_of b p
      | UPLOAD \<Rightarrow> map_of l p
      | UNCHANGED \<Rightarrow> map_of l p
      | DOWNLOAD \<Rightarrow> if u then map_of b p else if map_of r p \<noteq> None then map_of r p else map_of l p)"
proof -
  let ?a = "three_way G repair l r b (group_id G p)"
  have same: "map_of l p = map_of r p" if "?a = UNCHANGED"
  proof -
    from that have "group_view G l (group_id G p) = group_view G r (group_id G p)" by (auto simp: three_way_def side_action_def split: if_splits)
    from fun_cong [OF this, of p] show ?thesis by (simp add: group_view_def)
  qed
  have "map_of (selected_baseline u (plan_for G repair l r b) b) p =
      (if p \<notin> set (all_save_paths [l, r, b]) then map_of b p
       else if u then (if ?a = UPLOAD then map_of l p else if ?a = UNCHANGED then (if map_of l p \<noteq> None then map_of l p else map_of r p) else map_of b p)
       else (if ?a = BOTH_CHANGED then map_of b p else if ?a = UPLOAD then map_of l p else if map_of r p \<noteq> None then map_of r p else map_of l p))"
    unfolding selected_baseline_def baseline_loops plan_for_entries [OF assms]
    by (cases u) (simp_all add: assign_loop three_way_def del: set_all_save_paths)
  then show ?thesis using same off_all [of p l r b] by (cases ?a) (auto simp del: set_all_save_paths)
qed

lemma group_view_cong: "(\<And>p. group_id G p = g \<Longrightarrow> map_of m p = map_of n p) \<Longrightarrow> group_view G m g = group_view G n g"
  by (auto simp: group_view_def restrict_map_def)

lemma desired_views:
  assumes "wf_sides l r b" and "desired u (plan_for G repair l r b) (l, r) = (l', r')"
  shows "group_view G l' g = (if three_way G repair l r b g = DOWNLOAD \<and> \<not> u then group_view G r g else group_view G l g)"
    and "group_view G r' g = (if three_way G repair l r b g = UPLOAD then group_view G l g else group_view G r g)"
proof -
  have m: "map_of l' p = (if three_way G repair l r b (group_id G p) = DOWNLOAD \<and> \<not> u then map_of r p else map_of l p)"
      "map_of r' p = (if three_way G repair l r b (group_id G p) = UPLOAD then map_of l p else map_of r p)" for p
    using desired_maps [OF assms(1), where u = u and G = G and repair = repair] assms(2) by simp_all
  then show "group_view G l' g = (if three_way G repair l r b g = DOWNLOAD \<and> \<not> u then group_view G r g else group_view G l g)"
    and "group_view G r' g = (if three_way G repair l r b g = UPLOAD then group_view G l g else group_view G r g)"
    by (auto simp: group_view_def restrict_map_def)
qed

lemma desired_wf:
  assumes "wf_sides l r b" and "desired u (plan_for G repair l r b) (l, r) = (l', r')"
  shows "wf_sides l' r' (selected_baseline u (plan_for G repair l r b) b)"
proof -
  note ps = wf_saves_path [OF sides_wf(1) [OF assms(1)]] wf_saves_path [OF sides_wf(2) [OF assms(1)]] wf_saves_path [OF sides_wf(3) [OF assms(1)]]
  note loop = wf_assign_loop [where E = "entry_for G repair l r b", OF _ entry_for_simps(1)]
  have e: "l' = fst (desired u (plan_for G repair l r b) (l, r))" "r' = snd (desired u (plan_for G repair l r b) (l, r))"
    using assms(2) by simp_all
  have "wf_saves l'" unfolding e desired_loops plan_for_entries [OF assms(1)] fst_conv
    by (rule loop) (simp_all add: ps assms(1) sides_wf(1) [OF assms(1)])
  moreover have "wf_saves r'" unfolding e desired_loops plan_for_entries [OF assms(1)] snd_conv
    by (rule loop) (simp_all add: ps assms(1) sides_wf(2) [OF assms(1)])
  moreover have "wf_saves (selected_baseline u (plan_for G repair l r b) b)"
  proof (cases u)
    case True
    then show ?thesis unfolding selected_baseline_def baseline_loops plan_for_entries [OF assms(1)] if_P [OF True]
      by (intro loop) (auto simp: sides_wf(3) [OF assms(1)] dest: ps split: if_splits)
  next
    case False
    then show ?thesis unfolding selected_baseline_def baseline_loops plan_for_entries [OF assms(1)] if_not_P [OF False]
      by (intro loop) (auto simp: sides_wf(3) [OF assms(1)] dest: ps split: if_splits)
  qed
  ultimately show ?thesis by (simp add: wf_sides_def)
qed


subsection \<open>What a run promises\<close>

lemma action_cases:
  "three_way G repair l r b g = UNCHANGED \<longleftrightarrow> group_view G l g = group_view G r g"
  "three_way G repair l r b g = UPLOAD \<longleftrightarrow> group_view G l g \<noteq> group_view G r g \<and> group_view G r g = group_view G b g
     \<and> \<not> (g \<in> repair \<and> group_view G l g \<subseteq>\<^sub>m group_view G b g)"
  "three_way G repair l r b g = BOTH_CHANGED \<longleftrightarrow> group_view G l g \<noteq> group_view G r g \<and> group_view G r g \<noteq> group_view G b g
     \<and> group_view G l g \<noteq> group_view G b g"
  by (auto simp: three_way_def side_action_def)

lemma action_download:
  "three_way G repair l r b g = DOWNLOAD \<Longrightarrow> group_view G l g \<subseteq>\<^sub>m group_view G b g"
  by (auto simp: three_way_def side_action_def split: if_splits)

text \<open>
  C7: A plan holds one entry for each path of either side or of the shared manifest, in the order of the
  paths, and its action is the three-way comparison of the whole group of that path: equal sides are left,
  a side that did not change takes the other's version (also a device that merely lost files of a group it
  is to repair), and two changes are a conflict.
\<close>

theorem reconcile_three_way:
  assumes "wf_sides l r b" and "sc_artifacts local_report = l" and "sc_artifacts remote_report = r"
  shows "sp_entries (save_reconcile_plan G local_report remote_report b scope repair) =
     map (\<lambda>p. \<lparr>re_path = p, re_action = three_way G repair l r b (group_id G p),
                re_local = map_of l p, re_remote = map_of r p, re_baseline = map_of b p\<rparr>)
       (sorted_list_of_set (dom (map_of l) \<union> dom (map_of r) \<union> dom (map_of b)))"
proof -
  have "all_save_paths [l, r, b] = sorted_list_of_set (dom (map_of l) \<union> dom (map_of r) \<union> dom (map_of b))"
    by (rule sorted_distinct_set_unique) (auto simp: finite_dom_map_of)
  moreover have "entry_for G repair l r b p = \<lparr>re_path = p, re_action = three_way G repair l r b (group_id G p),
      re_local = map_of l p, re_remote = map_of r p, re_baseline = map_of b p\<rparr>" for p
    by (simp add: entry_for_def Let_def three_way_def)
  ultimately show ?thesis using plan_entries [OF sides_wf [OF assms(1)] assms(2,3), of G scope repair] by simp
qed

text \<open>
  C6: Nothing unshared is lost: a run changes a side of a group only to the other side's version, the remote only
  when it still held the shared version and the device only when everything it held was shared; a group
  changed on both sides keeps both versions.  Afterwards the sides of every other group agree, except that
  an upload-only run leaves both sides of a group that waits for a download as they were.
\<close>

theorem reconcile_keeps_unshared:
  assumes "wf_sides l r b" and "desired upload_only (plan_for G repair l r b) (l, r) = (l', r')"
  shows "(group_view G r' g \<noteq> group_view G r g \<longrightarrow> group_view G r g = group_view G b g \<and> group_view G r' g = group_view G l g)
    \<and> (group_view G l' g \<noteq> group_view G l g \<longrightarrow>
         \<not> upload_only \<and> group_view G l g \<subseteq>\<^sub>m group_view G b g \<and> group_view G l' g = group_view G r g)
    \<and> (if group_view G l g \<noteq> group_view G r g \<and> group_view G l g \<noteq> group_view G b g \<and> group_view G r g \<noteq> group_view G b g
       then group_view G l' g = group_view G l g \<and> group_view G r' g = group_view G r g
       else group_view G l' g = group_view G r' g
         \<or> upload_only \<and> group_view G l' g = group_view G l g \<and> group_view G r' g = group_view G r g)"
proof -
  note v = desired_views [OF assms, of g] and a = action_cases [of G repair l r b g] and d = action_download [of G repair l r b g]
  show ?thesis
  proof (cases "three_way G repair l r b g")
    case UPLOAD
    with v a(2) show ?thesis by auto
  next
    case DOWNLOAD
    with v d a show ?thesis by auto
  next
    case BOTH_CHANGED
    with v a(3) show ?thesis by auto
  next
    case UNCHANGED
    with v a(1) show ?thesis by auto
  qed
qed

lemma same_action_nothing:
  assumes "wf_sides l r b" and "\<And>g. three_way G repair l r b g \<in> {UNCHANGED, BOTH_CHANGED}" and "desired u (plan_for G repair l r b) (l, r) = (l', r')"
  shows "map_of l' = map_of l \<and> map_of r' = map_of r"
proof -
  have "three_way G repair l r b g \<noteq> DOWNLOAD \<and> three_way G repair l r b g \<noteq> UPLOAD" for g using assms(2) [of g] by auto
  then show ?thesis using desired_maps [OF assms(1), of u G repair] assms(3) by (auto simp: fun_eq_iff)
qed

text \<open>The action of a group in a later run, from the state a run leaves.\<close>

lemma next_action:
  assumes "wf_sides l r b" and "desired u (plan_for G repair l r b) (l, r) = (l', r')"
    and "b' = selected_baseline u (plan_for G repair l r b) b"
  shows "three_way G repair' l' r' b' g =
     (case three_way G repair l r b g of BOTH_CHANGED \<Rightarrow> BOTH_CHANGED
      | DOWNLOAD \<Rightarrow> if u then three_way G repair' l r b g else UNCHANGED
      | _ \<Rightarrow> UNCHANGED)"
proof -
  note v = desired_views [OF assms(1,2), of g] and m = baseline_maps [OF assms(1), of u G repair, folded assms(3)]
  have b: "group_view G b' g = group_view G b g" if "three_way G repair l r b g = BOTH_CHANGED \<or> three_way G repair l r b g = DOWNLOAD \<and> u"
    using that by (intro group_view_cong) (auto simp: m)
  show ?thesis
  proof (cases "three_way G repair l r b g")
    case UPLOAD
    with v action_cases(1) [of G repair' l' r' b' g] show ?thesis by simp
  next
    case DOWNLOAD
    show ?thesis
    proof (cases u)
      case True
      with DOWNLOAD v b have "three_way G repair' l' r' b' g = three_way G repair' l r b g" by (simp add: three_way_def)
      with True DOWNLOAD show ?thesis by simp
    next
      case False
      with DOWNLOAD v action_cases(1) [of G repair' l' r' b' g] show ?thesis by simp
    qed
  next
    case BOTH_CHANGED
    with v b have e: "group_view G l' g = group_view G l g" "group_view G r' g = group_view G r g" "group_view G b' g = group_view G b g" by simp_all
    with BOTH_CHANGED action_cases(3) [of G repair l r b g] action_cases(3) [of G repair' l' r' b' g] show ?thesis by simp
  next
    case UNCHANGED
    with v action_cases(1) [of G repair l r b g] action_cases(1) [of G repair' l' r' b' g] show ?thesis by simp
  qed
qed

text \<open>
  C8: After a full run every group agrees or is in the conflict it was in: planning again, from what the
  run left, changes neither side, whatever is to be repaired.
\<close>

theorem reconcile_converges:
  assumes "wf_sides l r b" and "desired False (plan_for G repair l r b) (l, r) = (l', r')"
    and "b' = selected_baseline False (plan_for G repair l r b) b"
    and "desired u (plan_for G repair' l' r' b') (l', r') = (l'', r'')"
  shows "map_of l'' = map_of l' \<and> map_of r'' = map_of r'
     \<and> (\<forall>e \<in> set (sp_entries (plan_for G repair' l' r' b')).
          re_action e = (if three_way G repair l r b (group_id G (re_path e)) = BOTH_CHANGED then BOTH_CHANGED else UNCHANGED))"
proof -
  have wf: "wf_sides l' r' b'" unfolding assms(3) by (rule desired_wf [OF assms(1,2)])
  have n: "three_way G repair' l' r' b' g = (if three_way G repair l r b g = BOTH_CHANGED then BOTH_CHANGED else UNCHANGED)" for g
    using next_action [OF assms(1-3), of repair' g] by (simp split: reconcile_action.splits)
  have "map_of l'' = map_of l' \<and> map_of r'' = map_of r'"
    by (rule same_action_nothing [OF wf _ assms(4)]) (simp add: n)
  moreover have "\<forall>e \<in> set (sp_entries (plan_for G repair' l' r' b')).
       re_action e = (if three_way G repair l r b (group_id G (re_path e)) = BOTH_CHANGED then BOTH_CHANGED else UNCHANGED)"
    using n by (simp add: plan_for_entries [OF wf] three_way_def)
  ultimately show ?thesis by blast
qed

text \<open>
  C9: An upload-only run leaves downloads for later and loses nothing by it: a full run afterwards ends with
  the sides a full run would have ended with at once.
\<close>

theorem upload_only_postpones:
  assumes "wf_sides l r b" and "desired True (plan_for G repair l r b) (l, r) = (l1, r1)"
    and "b1 = selected_baseline True (plan_for G repair l r b) b"
    and "desired False (plan_for G repair l1 r1 b1) (l1, r1) = (l2, r2)"
    and "desired False (plan_for G repair l r b) (l, r) = (l', r')"
  shows "map_of l1 = map_of l \<and> map_of l2 = map_of l' \<and> map_of r2 = map_of r'"
proof -
  have wf: "wf_sides l1 r1 b1" unfolding assms(3) by (rule desired_wf [OF assms(1,2)])
  note n = next_action [OF assms(1-3), of repair]
  have m1: "map_of l1 p = map_of l p" "map_of r1 p = (if three_way G repair l r b (group_id G p) = UPLOAD then map_of l p else map_of r p)" for p
    using desired_maps [OF assms(1), of True G repair] assms(2) by simp_all
  have "map_of l2 p = map_of l' p \<and> map_of r2 p = map_of r' p" for p
    using desired_maps [OF wf, of False G repair p] desired_maps [OF assms(1), of False G repair p] assms(4,5)
    by (cases "three_way G repair l r b (group_id G p)") (simp_all add: n m1)
  with m1(1) show ?thesis by auto
qed


subsection \<open>Previews\<close>

lemma group_conflicts:
  assumes "wf_sides l r b"
  shows "g \<in> group_conflict_ids G l r b \<longleftrightarrow> three_way G repair l r b g = BOTH_CHANGED"
proof -
  let ?ps = "all_save_paths [l, r, b]"
  note wf = sides_wf [OF assms]
  have c: "covers l ?ps" "covers r ?ps" "covers b ?ps" by (auto simp: covers_def)
  have "g \<in> group_conflict_ids G l r b \<longleftrightarrow> g \<in> group_id G ` set ?ps \<and> three_way G repair l r b g = BOTH_CHANGED"
    unfolding action_cases group_manifest_view [OF wf(1,2) c(1,2), symmetric] group_manifest_view [OF wf(2,3) c(2,3), symmetric]
      group_manifest_view [OF wf(1,3) c(1,3), symmetric] group_conflict_ids_def
    by (auto simp: mem_grouped image_iff simp del: set_all_save_paths)
  moreover have "g \<in> group_id G ` set ?ps" if "group_view G l g \<noteq> group_view G r g"
  proof (rule ccontr)
    assume "g \<notin> group_id G ` set ?ps"
    then have "group_view G l g = Map.empty \<and> group_view G r g = Map.empty"
      by (auto simp: group_view_def restrict_map_def fun_eq_iff domIff)
    with that show False by simp
  qed
  ultimately show ?thesis by (auto simp: action_cases)
qed

lemma same_save_artifact_eq [simp]: "same_save_artifact x y \<longleftrightarrow> x = y"
  by (auto simp: same_save_artifact_def split: option.splits)

lemma group_view_neq: "map_of m p \<noteq> map_of n p \<Longrightarrow> group_view G m (group_id G p) \<noteq> group_view G n (group_id G p)"
  by (metis (mono_tags) group_view_def mem_Collect_eq restrict_in)

lemma path_conflict:
  "is_conflict (map_of l p) (map_of r p) (map_of b p) \<Longrightarrow> three_way G repair l r b (group_id G p) = BOTH_CHANGED"
  by (auto simp: is_conflict_def action_cases split: if_splits dest!: group_view_neq [where G = G])

lemma three_way_swap: "three_way G repair l r b g = BOTH_CHANGED \<longleftrightarrow> three_way G repair r l b g = BOTH_CHANGED"
  by (auto simp: action_cases)

lemma wf_sides_swap: "wf_sides l r b \<Longrightarrow> wf_sides r l b"
  by (auto simp: wf_sides_def)

definition diff_for :: "grouping \<Rightarrow> direction \<Rightarrow> manifest \<Rightarrow> manifest \<Rightarrow> manifest \<Rightarrow> string \<Rightarrow> diff_entry" where
  "diff_for G d l r b p = \<lparr>de_path = p,
     de_change = (if d = Upload then change_of (map_of l p) (map_of r p) else change_of (map_of r p) (map_of l p)),
     de_local = map_of l p, de_remote = map_of r p, de_conflict = (three_way G {} l r b (group_id G p) = BOTH_CHANGED)\<rparr>"

lemma diff_for_simps [simp]:
  "de_path (diff_for G d l r b p) = p" "de_local (diff_for G d l r b p) = map_of l p" "de_remote (diff_for G d l r b p) = map_of r p"
  "de_conflict (diff_for G d l r b p) \<longleftrightarrow> three_way G {} l r b (group_id G p) = BOTH_CHANGED"
  by (simp_all add: diff_for_def)

lemma preview_entries:
  assumes "wf_sides l r b" and "sc_artifacts local_report = l" and "sc_artifacts remote_report = r"
  shows "df_entries (preview G d local_report remote_report b) = map (diff_for G d l r b) (all_save_paths [l, r])"
proof (cases d)
  case Upload
  then show ?thesis
    using group_conflicts [OF assms(1), of _ G "{}"] path_conflict [of l _ r b G "{}"]
    by (auto simp: preview_def assms(2,3) diff_entries_def diff_for_def Let_def)
next
  case Download
  have "all_save_paths [r, l] = all_save_paths [l, r]" by (rule sorted_distinct_set_unique) auto
  with Download show ?thesis
    using group_conflicts [OF wf_sides_swap [OF assms(1)], of _ G "{}"] path_conflict [of l _ r b G "{}"] three_way_swap [of G "{}" l r b]
    by (auto simp: preview_def assms(2,3) diff_entries_def diff_for_def Let_def)
qed

text \<open>A group in conflict holds a file on one side at least.\<close>

lemma conflict_visible:
  assumes "three_way G repair l r b g = BOTH_CHANGED"
  shows "\<exists>p \<in> set (all_save_paths [l, r]). group_id G p = g"
proof (rule ccontr)
  assume none: "\<not> ?thesis"
  have "group_view G m g = Map.empty" if "m \<in> {l, r}" for m
    using that none by (force simp: group_view_def restrict_map_def fun_eq_iff map_of_eq_None_iff dom_map_of_conv_image_fst)
  then show False using assms by (simp add: action_cases)
qed

text \<open>
  C10: A preview, in either direction, lists exactly the files of the two scans, in order, each as it is on both
  sides, and warns of exactly those a reconciliation of the same scans would leave in conflict.  A file that
  only the baseline knows is not listed, but every group the reconciliation leaves in conflict is warned of
  through one of its files.
\<close>

theorem preview_agrees_with_plan:
  fixes l r b local_report remote_report G d scope repair
  assumes "wf_sides l r b" and "sc_artifacts local_report = l" and "sc_artifacts remote_report = r"
  defines "shown \<equiv> df_entries (preview G d local_report remote_report b)"
    and "todo \<equiv> sp_entries (save_reconcile_plan G local_report remote_report b scope repair)"
  shows "map de_path shown = all_save_paths [l, r]
     \<and> (\<forall>e \<in> set shown. de_local e = map_of l (de_path e) \<and> de_remote e = map_of r (de_path e))
     \<and> de_path ` {e \<in> set shown. de_conflict e}
         = {p \<in> fst ` set l \<union> fst ` set r. \<exists>e \<in> set todo. re_path e = p \<and> re_action e = BOTH_CHANGED}
     \<and> (\<forall>e \<in> set todo. re_action e = BOTH_CHANGED \<longrightarrow>
          (\<exists>e' \<in> set shown. de_conflict e' \<and> group_id G (de_path e') = group_id G (re_path e)))"
proof -
  let ?both = "\<lambda>p. three_way G repair l r b (group_id G p) = BOTH_CHANGED"
  have shown: "shown = map (diff_for G d l r b) (all_save_paths [l, r])"
    by (simp only: shown_def preview_entries [OF assms(1-3)])
  have todo: "todo = map (entry_for G repair l r b) (all_save_paths [l, r, b])"
    by (simp only: todo_def plan_entries [OF sides_wf [OF assms(1)] assms(2,3)])
  have warned: "three_way G {} l r b (group_id G p) = BOTH_CHANGED \<longleftrightarrow> ?both p" for p by (simp add: action_cases)
  have planned: "re_action (entry_for G repair l r b p) = BOTH_CHANGED \<longleftrightarrow> ?both p" for p by (simp add: three_way_def)
  have paths: "fst ` set l \<union> fst ` set r = set (all_save_paths [l, r])"
    by (simp add: dom_map_of_conv_image_fst)
  have more: "p \<in> set (all_save_paths [l, r]) \<Longrightarrow> p \<in> set (all_save_paths [l, r, b])" for p by auto
  have "map de_path shown = all_save_paths [l, r]" by (simp add: shown comp_def)
  moreover have "\<forall>e \<in> set shown. de_local e = map_of l (de_path e) \<and> de_remote e = map_of r (de_path e)"
    by (simp add: shown)
  moreover have "de_path ` {e \<in> set shown. de_conflict e} = {p \<in> set (all_save_paths [l, r]). ?both p}"
    by (force simp: shown warned image_iff simp del: set_all_save_paths)
  moreover have "{p \<in> fst ` set l \<union> fst ` set r. \<exists>e \<in> set todo. re_path e = p \<and> re_action e = BOTH_CHANGED}
      = {p \<in> set (all_save_paths [l, r]). ?both p}"
    unfolding paths todo set_map
    by (auto simp: planned entry_for_simps(1) simp del: set_all_save_paths entry_for_simps(2) intro: more)
  moreover have "\<exists>e' \<in> set shown. de_conflict e' \<and> group_id G (de_path e') = group_id G (re_path e)"
    if e: "e \<in> set todo" "re_action e = BOTH_CHANGED" for e
  proof -
    from e obtain p where p: "re_path e = p" "?both p" by (auto simp: todo planned simp del: set_all_save_paths entry_for_simps(2))
    from conflict_visible [OF p(2)] obtain q where "q \<in> set (all_save_paths [l, r])" "group_id G q = group_id G p" by blast
    with p show ?thesis by (intro bexI [of _ "diff_for G d l r b q"]) (auto simp: shown warned simp del: set_all_save_paths)
  qed
  ultimately show ?thesis by blast
qed

lemma diff_manifests:
  "map_of (fst (fold (\<lambda>e (local, remote). (case de_local e of None \<Rightarrow> local | Some a \<Rightarrow> AList.update (de_path e) a local,
       case de_remote e of None \<Rightarrow> remote | Some a \<Rightarrow> AList.update (de_path e) a remote)) (map E ps) (m, n))) q
     = (if q \<in> set ps \<and> f q \<noteq> None then f q else map_of m q)"
  "map_of (snd (fold (\<lambda>e (local, remote). (case de_local e of None \<Rightarrow> local | Some a \<Rightarrow> AList.update (de_path e) a local,
       case de_remote e of None \<Rightarrow> remote | Some a \<Rightarrow> AList.update (de_path e) a remote)) (map E ps) (m, n))) q
     = (if q \<in> set ps \<and> g q \<noteq> None then g q else map_of n q)"
  if "\<And>p. de_path (E p) = p" "\<And>p. de_local (E p) = f p" "\<And>p. de_remote (E p) = g p" "distinct ps"
  using that by (induction ps arbitrary: m n) (auto simp: update_conv split: option.splits)

text \<open>The two manifests a preview was made from are recovered from it.\<close>

theorem preview_roundtrip:
  assumes "wf_sides l r b" and "sc_artifacts local_report = l" and "sc_artifacts remote_report = r"
    and "manifests_from_diff (preview G d local_report remote_report b) = (l', r')"
  shows "map_of l' = map_of l \<and> map_of r' = map_of r"
proof -
  have "map_of l' q = (if q \<in> set (all_save_paths [l, r]) \<and> map_of l q \<noteq> None then map_of l q else None)"
       "map_of r' q = (if q \<in> set (all_save_paths [l, r]) \<and> map_of r q \<noteq> None then map_of r q else None)" for q
    using diff_manifests [of "diff_for G d l r b" "map_of l" "map_of r" "all_save_paths [l, r]" "[]" "[]" q] assms(4)
    by (simp_all add: manifests_from_diff_def preview_entries [OF assms(1-3)] del: set_all_save_paths)
  then show ?thesis by (auto simp: fun_eq_iff domIff)
qed


subsection \<open>Group states\<close>

text \<open>The groups of descriptors are not the names given to unsupported paths.\<close>

definition separated :: "grouping \<Rightarrow> bool" where
  "separated G \<longleftrightarrow> (\<forall>p d. G p = Some d \<longrightarrow> \<not> startswith (gd_group d) ''unsupported:'')"

lemma separated_group:
  assumes "separated G" and "G q = Some d" and "gd_group d = g"
  shows "group_id G p = g \<longleftrightarrow> G p \<noteq> None \<and> gd_group (the (G p)) = g"
proof (cases "G p")
  case None
  have "\<not> startswith g ''unsupported:''" using assms by (auto simp: separated_def)
  moreover have "startswith (''unsupported:'' @ p) ''unsupported:''" by (rule startswith_append)
  ultimately have "''unsupported:'' @ p \<noteq> g" by metis
  with None show ?thesis by (simp add: group_id_def)
qed (simp add: group_id_def)

lemma by_artifact_path_map:
  assumes "wf_saves m"
  shows "map_of (by_artifact_path (sorted_values m)) = map_of m" and "wf_saves (by_artifact_path (sorted_values m))"
proof -
  have d: "distinct (sorted_keys m)" using assms by (simp add: wf_saves_def)
  have p: "art_path (the (map_of m k)) = k" if "k \<in> set (sorted_keys m)" for k
    using wf_saves_path [OF assms] that by auto
  have "map fst (map (\<lambda>a. (art_path a, a)) (sorted_values m)) = sorted_keys m"
    using p by (auto simp: sorted_values_def intro!: map_idI)
  then have "map_of (by_artifact_path (sorted_values m)) = map_of (map (\<lambda>a. (art_path a, a)) (sorted_values m))"
    unfolding by_artifact_path_def using d by (intro map_of_dict_of_distinct) simp
  also have "\<dots> = map_of m" unfolding sorted_values_def
    using map_of_map_key [where f = art_path and g = "\<lambda>k. the (map_of m k)", OF d p] by (auto simp: fun_eq_iff domIff)
  finally show e: "map_of (by_artifact_path (sorted_values m)) = map_of m" .
  show "wf_saves (by_artifact_path (sorted_values m))"
    using wf_saves_path [OF assms] by (simp add: wf_saves_def e) (simp add: by_artifact_path_def)
qed

definition view_condition :: "grouping \<Rightarrow> manifest \<Rightarrow> manifest \<Rightarrow> manifest \<Rightarrow> string \<Rightarrow> condition" where
  "view_condition G l r b g =
     (if group_view G l g = group_view G r g then CLEAN
      else if group_view G r g = group_view G b g then LOCAL_DIRTY
      else if group_view G l g = group_view G b g then REMOTE_DIRTY
      else CONFLICTED)"

lemma group_states:
  assumes "wf_sides l r b" and "separated G"
  shows "gr_group ` set (group_states_from_manifests G t (sorted_values b) (sorted_values l) (sorted_values r))
       = {gd_group d | p d. G p = Some d \<and> p \<in> dom (map_of l) \<union> dom (map_of r) \<union> dom (map_of b)}"
    and "\<forall>s \<in> set (group_states_from_manifests G t (sorted_values b) (sorted_values l) (sorted_values r)).
       gr_condition s = view_condition G l r b (gr_group s)"
proof -
  let ?m = "\<lambda>m. by_artifact_path (sorted_values m)"
  let ?all = "all_save_paths [?m b, ?m l, ?m r]" and ?key = "\<lambda>p. gd_group (the (G p))"
  let ?sup = "filter (\<lambda>p. G p \<noteq> None) ?all"
  note wf = sides_wf [OF assms(1)]
  note m = by_artifact_path_map(1) [OF wf(1)] by_artifact_path_map(1) [OF wf(2)] by_artifact_path_map(1) [OF wf(3)]
  note w = by_artifact_path_map(2) [OF wf(1)] by_artifact_path_map(2) [OF wf(2)] by_artifact_path_map(2) [OF wf(3)]
  have c: "covers (?m l) ?all" "covers (?m r) ?all" "covers (?m b) ?all" by (auto simp: covers_def)
  have set_all: "set ?all = dom (map_of l) \<union> dom (map_of r) \<union> dom (map_of b)" by (auto simp: m)
  let ?state = "\<lambda>(g, paths). group_state_of g (gd_layout (the (G (last paths)))) t
               (group_manifest (?m b) paths) (group_manifest (?m l) paths) (group_manifest (?m r) paths)"
  have e: "group_states_from_manifests G t (sorted_values b) (sorted_values l) (sorted_values r) = map ?state (sort_key fst (grouped ?key ?sup))"
    by (simp add: group_states_from_manifests_def Let_def)
  have g: "gr_group (?state x) = fst x" for x by (cases x) (simp add: group_state_of_def Let_def)
  have "gr_group ` set (map ?state (sort_key fst (grouped ?key ?sup))) = fst ` set (grouped ?key ?sup)"
    by (simp add: image_image g)
  also have "\<dots> = ?key ` set ?sup"
    by (rule fst_grouped)
  finally have "gr_group ` set (group_states_from_manifests G t (sorted_values b) (sorted_values l) (sorted_values r)) = ?key ` set ?sup"
    unfolding e .
  also have "\<dots> = {gd_group d | p d. G p = Some d \<and> p \<in> dom (map_of l) \<union> dom (map_of r) \<union> dom (map_of b)}"
  proof -
    have "?key ` {p \<in> A. G p \<noteq> None} = {gd_group d | p d. G p = Some d \<and> p \<in> A}" for A by (force simp: image_iff)
    then show ?thesis unfolding set_filter set_all .
  qed
  finally show "gr_group ` set (group_states_from_manifests G t (sorted_values b) (sorted_values l) (sorted_values r))
       = {gd_group d | p d. G p = Some d \<and> p \<in> dom (map_of l) \<union> dom (map_of r) \<union> dom (map_of b)}" .
  have "gr_condition (?state x) = view_condition G l r b (gr_group (?state x))" if x: "x \<in> set (grouped ?key ?sup)" for x
  proof -
    obtain k paths where xk: "x = (k, paths)" by (cases x)
    with x have k: "k \<in> ?key ` set ?sup" "paths = filter (\<lambda>p. ?key p = k) ?sup" by (simp_all only: mem_grouped)
    then obtain q d where q: "G q = Some d" "gd_group d = k" by auto
    have "paths = members G k ?all" unfolding k(2) filter_filter by (rule filter_cong [OF refl]) (simp add: separated_group [OF assms(2) q])
    then have "gr_condition (?state x) = (if group_view G (?m l) k = group_view G (?m r) k then CLEAN
        else if group_view G (?m r) k = group_view G (?m b) k then LOCAL_DIRTY
        else if group_view G (?m l) k = group_view G (?m b) k then REMOTE_DIRTY else CONFLICTED)"
      using group_manifest_view [OF w(1,2) c(1,2), of G k] group_manifest_view [OF w(2,3) c(2,3), of G k] group_manifest_view [OF w(1,3) c(1,3), of G k]
      by (simp add: xk group_state_of_def condition_of_def Let_def)
    then show ?thesis unfolding g by (simp add: xk view_condition_def group_view_def m)
  qed
  then show "\<forall>s \<in> set (group_states_from_manifests G t (sorted_values b) (sorted_values l) (sorted_values r)).
       gr_condition s = view_condition G l r b (gr_group s)"
    unfolding e by simp
qed

text \<open>
  C11: The states recorded after a run are those of the groups present on a side or in the shared manifest, and
  agree with the plan: a group is clean unless it was in conflict, and after an upload-only run the postponed
  downloads are dirty on the side they are to come from (on this device for a repair).
\<close>

theorem group_states_agree_with_plan:
  assumes "wf_sides l r b" and "separated G" and "desired u (plan_for G repair l r b) (l, r) = (l', r')"
    and "b' = selected_baseline u (plan_for G repair l r b) b"
  shows "gr_group ` set (group_states_from_manifests G t (sorted_values b') (sorted_values l') (sorted_values r'))
       = {gd_group d | p d. G p = Some d \<and> p \<in> dom (map_of l') \<union> dom (map_of r') \<union> dom (map_of b')}
     \<and> (\<forall>s \<in> set (group_states_from_manifests G t (sorted_values b') (sorted_values l') (sorted_values r')).
          gr_condition s = (case three_way G repair l r b (gr_group s) of
              BOTH_CHANGED \<Rightarrow> CONFLICTED
            | DOWNLOAD \<Rightarrow> if \<not> u then CLEAN else if group_view G r (gr_group s) = group_view G b (gr_group s) then LOCAL_DIRTY else REMOTE_DIRTY
            | _ \<Rightarrow> CLEAN))"
proof -
  have wf: "wf_sides l' r' b'" unfolding assms(4) by (rule desired_wf [OF assms(1,3)])
  have "view_condition G l' r' b' g = (case three_way G repair l r b g of BOTH_CHANGED \<Rightarrow> CONFLICTED
      | DOWNLOAD \<Rightarrow> if \<not> u then CLEAN else if group_view G r g = group_view G b g then LOCAL_DIRTY else REMOTE_DIRTY | _ \<Rightarrow> CLEAN)" for g
  proof -
    note v = desired_views [OF assms(1,3), of g] and m = baseline_maps [OF assms(1), of u G repair, folded assms(4)]
    have b: "group_view G b' g = group_view G b g" if "three_way G repair l r b g = BOTH_CHANGED \<or> three_way G repair l r b g = DOWNLOAD \<and> u"
      using that by (intro group_view_cong) (auto simp: m)
    show ?thesis
    proof (cases "three_way G repair l r b g")
      case DOWNLOAD
      with v b show ?thesis
        by (cases u) (auto simp: view_condition_def three_way_def side_action_def split: if_splits)
    next
      case BOTH_CHANGED
      with v b action_cases(3) [of G repair l r b g] show ?thesis by (simp add: view_condition_def)
    next
      case UNCHANGED
      with v action_cases(1) [of G repair l r b g] show ?thesis by (simp add: view_condition_def)
    qed (use v in \<open>simp add: view_condition_def\<close>)
  qed
  with group_states [OF wf assms(2), of t] show ?thesis by simp
qed


subsection \<open>What the other devices are told\<close>

abbreviation artifacts_of :: "grouping \<Rightarrow> manifest \<Rightarrow> string \<Rightarrow> save_artifact list" where
  "artifacts_of G m g \<equiv> group_manifest m (members G g (sorted_keys m))"

lemma group_manifest_sorted:
  assumes "sorted ps" and "distinct ps" and "covers m ps" and "wf_saves m"
  shows "group_manifest m (members G g ps) = artifacts_of G m g"
proof -
  have "filter (\<lambda>p. map_of m p \<noteq> None) (members G g ps) = filter (\<lambda>p. map_of m p \<noteq> None) (members G g (sorted_keys m))"
    using assms by (intro sorted_distinct_set_unique) (auto simp: covers_def wf_saves_def intro!: sorted_filter [of "\<lambda>x. x", simplified])
  then show ?thesis by (simp add: group_manifest_def)
qed

lemma artifacts_of_eq:
  assumes "wf_saves m" and "wf_saves n"
  shows "artifacts_of G m g = artifacts_of G n g \<longleftrightarrow> group_view G m g = group_view G n g"
proof -
  let ?ps = "all_save_paths [m, n]"
  have c: "covers m ?ps" "covers n ?ps" by (auto simp: covers_def)
  show ?thesis using group_manifest_view [OF assms c, of G g]
    by (simp add: group_manifest_sorted [OF _ _ c(1) assms(1)] group_manifest_sorted [OF _ _ c(2) assms(2)])
qed

lemma set_artifacts_of: "set (artifacts_of G m g) = ran (group_view G m g)"
  by (rule set_group_manifest) (simp add: covers_def)

lemma artifacts_of_empty: "artifacts_of G m g = [] \<longleftrightarrow> group_view G m g = Map.empty"
  unfolding set_empty [symmetric] set_artifacts_of by (auto simp: ran_def fun_eq_iff) (meson not_Some_eq)

lemma get_grouped_manifest:
  "(case map_of (grouped_manifest G m) g of None \<Rightarrow> [] | Some v \<Rightarrow> v) = artifacts_of G m g"
proof -
  have "map_of (grouped_manifest G m) g = map_option (group_manifest m) (map_of (grouped (group_id G) (sorted_keys m)) g)"
    unfolding grouped_manifest_def by (rule map_of_map_snd)
  moreover have "artifacts_of G m g = []" if "g \<notin> group_id G ` set (sorted_keys m)"
  proof -
    from that have "members G g (sorted_keys m) = []" by (auto simp: filter_empty_conv)
    then show ?thesis by (simp add: group_manifest_def)
  qed
  ultimately show ?thesis by (auto simp: map_of_grouped)
qed

lemma fst_grouped_manifest: "fst ` set (grouped_manifest G m) = group_id G ` dom (map_of m)"
  using fst_grouped [of "group_id G" "sorted_keys m"] by (force simp: grouped_manifest_def image_image case_prod_unfold)

definition supported_group :: "grouping \<Rightarrow> string \<Rightarrow> bool" where
  "supported_group G g \<longleftrightarrow> (\<exists>p d. G p = Some d \<and> gd_group d = g)"

lemma concat_if: "concat (map (\<lambda>x. if Q x then [h x] else []) xs) = map h (filter Q xs)"
  by (induction xs) auto

lemma first_path:
  assumes "wf_saves m" and "artifacts_of G m g \<noteq> []"
  shows "group_id G (art_path (hd (artifacts_of G m g))) = g"
proof -
  from assms(2) have "hd (artifacts_of G m g) \<in> ran (group_view G m g)" using set_artifacts_of [where G = G and m = m and g = g] by (metis list.set_sel(1))
  then obtain p where p: "group_view G m g p = Some (hd (artifacts_of G m g))" by (auto simp: ran_def)
  from group_view_path [OF assms(1) p] p show ?thesis by (auto simp: group_view_def restrict_map_def split: if_splits)
qed

lemma mutation_for_group:
  assumes "wf_saves before" and "wf_saves after" and "separated G"
  shows "\<not> supported_group G g \<or> group_view G before g = group_view G after g \<Longrightarrow> mutation_for G (artifacts_of G before g) (artifacts_of G after g) = []"
    and "supported_group G g \<Longrightarrow> group_view G before g \<noteq> group_view G after g \<Longrightarrow>
      \<exists>p d. G p = Some d \<and> gd_group d = g \<and> mutation_for G (artifacts_of G before g) (artifacts_of G after g) = [mutation_of d (artifacts_of G before g) (artifacts_of G after g)]"
proof -
  let ?b = "artifacts_of G before g" and ?a = "artifacts_of G after g"
  let ?p = "art_path (if ?a \<noteq> [] then hd ?a else hd ?b)"
  note eq = artifacts_of_eq [OF assms(1,2), of G g]
  have p: "group_id G ?p = g" if "?b \<noteq> ?a"
    using that first_path [OF assms(1), of G g] first_path [OF assms(2), of G g] by auto
  show "mutation_for G ?b ?a = []" if "\<not> supported_group G g \<or> group_view G before g = group_view G after g"
  proof (cases "?b = ?a")
    case False
    then have "\<not> supported_group G g" using that eq by blast
    then have "G ?p = None" using p [OF False] by (cases "G ?p") (auto simp: supported_group_def group_id_def)
    then show ?thesis by (simp add: mutation_for_def)
  qed (simp add: mutation_for_def)
  show "\<exists>p d. G p = Some d \<and> gd_group d = g \<and> mutation_for G ?b ?a = [mutation_of d ?b ?a]"
    if s: "supported_group G g" and "group_view G before g \<noteq> group_view G after g"
  proof -
    from that(2) eq have ne: "?b \<noteq> ?a" by blast
    from s obtain q e where q: "G q = Some e" "gd_group e = g" by (auto simp: supported_group_def)
    from separated_group [OF assms(3) q, of ?p] p [OF ne] obtain d where d: "G ?p = Some d" "gd_group d = g" by auto
    from d(1) ne have "mutation_for G ?b ?a = [mutation_of d ?b ?a]" by (simp add: mutation_for_def)
    with d show ?thesis by blast
  qed
qed

lemma mutation_fields:
  "jget (mutation_of d before after) ''system'' = JStr (gd_system d)"
  "jget (mutation_of d before after) ''layout_id'' = JStr (gd_layout d)"
  "jget (mutation_of d before after) ''group_id'' = JStr (gd_group d)"
  "jget (mutation_of d before after) ''object_id'' =
     (case after of [a] \<Rightarrow> JStr (art_path a) | _ \<Rightarrow> (case before of [b] \<Rightarrow> JStr (art_path b) | _ \<Rightarrow> JNull))"
  "jget (mutation_of d before after) ''operation'' =
     JStr (if before = [] \<and> after \<noteq> [] then ''create'' else if before \<noteq> [] \<and> after = [] then ''delete'' else ''update'')"
  by (simp_all add: jget_def mutation_of_def)

definition changed_groups :: "grouping \<Rightarrow> manifest \<Rightarrow> manifest \<Rightarrow> string set" where
  "changed_groups G before after = {g. supported_group G g \<and> group_view G before g \<noteq> group_view G after g}"

lemma changed_in_manifests: "changed_groups G before after \<subseteq> group_id G ` (dom (map_of before) \<union> dom (map_of after))"
proof
  fix g assume "g \<in> changed_groups G before after"
  then obtain p where "group_view G before g p \<noteq> group_view G after g p" by (auto simp: changed_groups_def)
  then show "g \<in> group_id G ` (dom (map_of before) \<union> dom (map_of after))"
    by (auto simp: group_view_def restrict_map_def domIff split: if_splits intro!: imageI)
qed

lemma mutations_by_group:
  "journal_mutations_for_remote_transition G before after =
     concat (map (\<lambda>g. mutation_for G (artifacts_of G before g) (artifacts_of G after g))
       (sort (dedup (map fst (grouped_manifest G before) @ map fst (grouped_manifest G after)))))"
  by (simp add: journal_mutations_for_remote_transition_def Let_def get_grouped_manifest)

lemma remote_mutations:
  assumes "wf_saves before" and "wf_saves after" and "separated G"
  shows "map (\<lambda>m. (jget m ''group_id'', jget m ''operation'')) (journal_mutations_for_remote_transition G before after) =
     map (\<lambda>g. (JStr g, JStr (if group_view G before g = Map.empty then ''create'' else if group_view G after g = Map.empty then ''delete'' else ''update'')))
       (sorted_list_of_set (changed_groups G before after))"
proof -
  let ?gs = "sort (dedup (map fst (grouped_manifest G before) @ map fst (grouped_manifest G after)))"
  let ?h = "\<lambda>g. (JStr g, JStr (if group_view G before g = Map.empty then ''create'' else if group_view G after g = Map.empty then ''delete'' else ''update''))"
  let ?q = "\<lambda>m. (jget m ''group_id'', jget m ''operation'')"
  have one: "map ?q (mutation_for G (artifacts_of G before g) (artifacts_of G after g)) = (if g \<in> changed_groups G before after then [?h g] else [])" for g
  proof (cases "g \<in> changed_groups G before after")
    case True
    then have s: "supported_group G g" "group_view G before g \<noteq> group_view G after g" by (auto simp: changed_groups_def)
    from mutation_for_group(2) [OF assms s] obtain d where d: "gd_group d = g"
      "mutation_for G (artifacts_of G before g) (artifacts_of G after g) = [mutation_of d (artifacts_of G before g) (artifacts_of G after g)]" by blast
    have "group_view G before g \<noteq> Map.empty \<or> group_view G after g \<noteq> Map.empty" using s(2) by auto
    then show ?thesis using True by (simp add: d mutation_fields artifacts_of_empty)
  next
    case False
    then show ?thesis using mutation_for_group(1) [OF assms] by (simp add: changed_groups_def)
  qed
  have "set ?gs = group_id G ` (dom (map_of before) \<union> dom (map_of after))" by (simp add: fst_grouped_manifest image_Un)
  then have "filter (\<lambda>g. g \<in> changed_groups G before after) ?gs = sorted_list_of_set (changed_groups G before after)"
    using changed_in_manifests [of G before after] finite_subset [OF changed_in_manifests [of G before after]]
    by (intro sorted_distinct_set_unique) (auto simp: finite_dom_map_of intro!: sorted_filter [of "\<lambda>x. x", simplified])
  then show ?thesis by (simp add: mutations_by_group map_concat comp_def one concat_if)
qed

text \<open>Systems and layouts have names.\<close>

definition named :: "grouping \<Rightarrow> bool" where
  "named G \<longleftrightarrow> (\<forall>p d. G p = Some d \<longrightarrow> wf_text (gd_system d) \<and> wf_text (gd_layout d))"

lemma mutations_valid:
  assumes "wf_saves before" and "wf_saves after" and "separated G" and "named G"
  shows "\<forall>m \<in> set (journal_mutations_for_remote_transition G before after). valid_mutation m"
proof
  fix m assume "m \<in> set (journal_mutations_for_remote_transition G before after)"
  then obtain g where g: "m \<in> set (mutation_for G (artifacts_of G before g) (artifacts_of G after g))"
    by (auto simp: mutations_by_group)
  then have "supported_group G g" "group_view G before g \<noteq> group_view G after g"
    using mutation_for_group(1) [OF assms(1-3)] by (metis empty_iff empty_set)+
  from mutation_for_group(2) [OF assms(1-3) this] g obtain p d where "G p = Some d" "m = mutation_of d (artifacts_of G before g) (artifacts_of G after g)" by auto
  with assms(4) show "valid_mutation m"
    by (auto simp: valid_mutation_def mutation_fields is_text_def is_optional_text_def is_operation_def operations_def named_def split: list.splits)
qed

text \<open>
  C12: A commit tells the other devices exactly the supported groups whose remote files it changes, once each and
  with the right operation, and a journal that can be read and written takes the entries.
\<close>

theorem commit_journal_entries:
  assumes "wf_saves before" and "wf_saves after" and "separated G" and "named G"
    and "load_journal path d = Inr j" and "disk_writable d path" and "wf_text device" and "wf_text revision" and "wf_text timestamp"
    and "changed_groups G before after \<noteq> {}"
  defines "mutations \<equiv> journal_mutations_for_remote_transition G before after"
  shows "map (\<lambda>m. (jget m ''group_id'', jget m ''operation'')) mutations =
      map (\<lambda>g. (JStr g, JStr (if group_view G before g = Map.empty then ''create'' else if group_view G after g = Map.empty then ''delete'' else ''update'')))
        (sorted_list_of_set (changed_groups G before after))
    \<and> (\<exists>d'. append_mutations path device revision timestamp mutations MAX_HISTORY d =
        (Inr (jr_generation j + int (card (changed_groups G before after))), d'))"
proof -
  note m = remote_mutations [OF assms(1-3), folded mutations_def]
  have fin: "finite (changed_groups G before after)" by (rule finite_subset [OF changed_in_manifests]) (simp add: finite_dom_map_of)
  have l: "length mutations = card (changed_groups G before after)" using arg_cong [OF m, of length] by simp
  with fin assms(10) have ne: "mutations \<noteq> []" by (metis card_0_eq list.size(3))
  have v: "\<forall>m \<in> set mutations. valid_mutation m" unfolding mutations_def by (rule mutations_valid [OF assms(1-4)])
  have "\<exists>d'. append_mutations path device revision timestamp mutations MAX_HISTORY d = (Inr (jr_generation j + int (length mutations)), d')"
    using append_loaded [OF assms(5) ne, where device = device and revision = revision and timestamp = timestamp and n = MAX_HISTORY] v assms(6-9)
    by (cases "append_mutations path device revision timestamp mutations MAX_HISTORY d"; cases "fst (append_mutations path device revision timestamp mutations MAX_HISTORY d)")
       (auto simp: MAX_HISTORY_def split: sum.splits)
  with m l show ?thesis by simp
qed


subsection \<open>The groups of the registry\<close>

definition strategies :: "string list" where
  "strategies = [''layout'', ''root'', ''first_descendant'', ''root_stem'', ''root_file'', ''n64_title'', ''dolphin_state'']"

definition first_visible :: "string \<Rightarrow> bool" where
  "first_visible s \<longleftrightarrow> (case s of [] \<Rightarrow> False | c # _ \<Rightarrow> \<not> is_space c)"

definition sound_layout :: "save_layout \<Rightarrow> bool" where
  "sound_layout l \<longleftrightarrow> sl_group_by l \<in> set strategies \<and> first_visible (sl_id l) \<and> take 1 (sl_id l) \<noteq> ''u'' \<and> first_visible (sl_system l)"

lemma first_visible_text: "first_visible s \<Longrightarrow> wf_text s"
proof (cases s)
  case (Cons c t)
  assume "first_visible s"
  with Cons have "\<not> is_space c" by (simp add: first_visible_def)
  then have d: "dropWhile is_space s = s" using Cons by simp
  have "dropWhile is_space (rev s) \<noteq> []" using \<open>\<not> is_space c\<close> Cons by auto
  then show ?thesis by (simp add: wf_text_def strip_def d)
qed (simp add: first_visible_def)

lemma words_visible: "\<forall>c \<in> set w. \<not> is_space c \<Longrightarrow> v \<in> set (words_from w s) \<Longrightarrow> v \<noteq> [] \<and> (\<forall>c \<in> set v. \<not> is_space c)"
proof (induction s arbitrary: w)
  case Nil
  then show ?case by (cases "w = []") simp_all
next
  case (Cons c s)
  show ?case
  proof (cases "is_space c")
    case sp: True
    show ?thesis
    proof (cases "v \<in> set (words_from [] s)")
      case True
      then show ?thesis by (intro Cons.IH [of "[]"]) simp_all
    next
      case False
      with Cons.prems(2) sp have "v = w" "w \<noteq> []" by (simp_all split: if_splits)
      with Cons.prems(1) show ?thesis by simp
    qed
  next
    case False
    with Cons.prems show ?thesis by (intro Cons.IH [of "w @ [c]"]) simp_all
  qed
qed

lemma words_first: "\<forall>v \<in> set (words s). first_visible v"
  using words_visible [of "[]" _ s] by (fastforce simp: words_def first_visible_def split: list.split)

lemma systems_visible: "\<forall>s \<in> set RETROARCH_SRM_SYSTEMS. first_visible s"
  unfolding RETROARCH_SRM_SYSTEMS_def by (rule words_first)

lemma special_sound: "list_all sound_layout special_layouts"
  by code_simp

lemma registry_sound: "\<forall>l \<in> set (po_layouts DEFAULT_SAVE_SELECTION_POLICY). sound_layout l"
proof
  fix l assume "l \<in> set (po_layouts DEFAULT_SAVE_SELECTION_POLICY)"
  then consider s where "s \<in> set RETROARCH_SRM_SYSTEMS" "l = retroarch_layout s" | "l \<in> set special_layouts"
    by (auto simp: DEFAULT_SAVE_SELECTION_POLICY_def LAYOUTS_def)
  then show "sound_layout l"
  proof cases
    case 1
    then have "first_visible s" using systems_visible by blast
    then show ?thesis by (simp add: 1 sound_layout_def retroarch_layout_def layout_default_def Let_def strategies_def first_visible_def is_space_def)
  next
    case 2
    then show ?thesis using special_sound by (auto simp: list_all_iff)
  qed
qed

lemma group_key_known: "sl_group_by l \<in> set strategies \<Longrightarrow> \<exists>k. group_key l root remainder = Inr k"
  by (auto simp: strategies_def group_key_def Let_def)

lemma descriptor_from_sound:
  assumes "\<forall>l \<in> set ls. sound_layout l"
  shows "\<exists>d. descriptor_from path system relative ls = Inr d \<and>
     (\<forall>e. d = Some e \<longrightarrow> wf_text (gd_system e) \<and> wf_text (gd_layout e) \<and> \<not> startswith (gd_group e) ''unsupported:'')"
  using assms
proof (induction ls)
  case (Cons l ls)
  then have l: "sound_layout l" and IH: "\<exists>d. descriptor_from path system relative ls = Inr d \<and>
     (\<forall>e. d = Some e \<longrightarrow> wf_text (gd_system e) \<and> wf_text (gd_layout e) \<and> \<not> startswith (gd_group e) ''unsupported:'')" by auto
  from l have "\<not> startswith (sl_id l @ x) ''unsupported:''" for x
    by (cases "sl_id l") (auto simp: sound_layout_def first_visible_def startswith_def)
  note id = this
  show ?case
  proof (cases "sl_system l = system \<and> match_layout l relative \<noteq> None")
    case True
    then obtain root rest where m: "match_layout l relative = Some (root, rest)" by auto
    from l obtain k where k: "group_key l root rest = Inr k" using group_key_known unfolding sound_layout_def by blast
    have "wf_text (sl_system l)" "wf_text (sl_id l)" using l by (auto simp: sound_layout_def intro: first_visible_text)
    with True m k id show ?thesis by simp
  next
    case False
    with IH show ?thesis by (cases "sl_system l = system") (auto split: option.splits)
  qed
qed simp

text \<open>
  For the registry the reading of a policy as a function is exact, its groups are named and none of them is
  the name of an unsupported path.
\<close>

lemma registry_grouping:
  "group_for_path DEFAULT_SAVE_SELECTION_POLICY path = Inr (grouping_of DEFAULT_SAVE_SELECTION_POLICY path)"
  "separated (grouping_of DEFAULT_SAVE_SELECTION_POLICY)" "named (grouping_of DEFAULT_SAVE_SELECTION_POLICY)"
proof -
  let ?G = "grouping_of DEFAULT_SAVE_SELECTION_POLICY"
  have *: "group_for_path DEFAULT_SAVE_SELECTION_POLICY p = Inr (?G p) \<and>
     (\<forall>e. ?G p = Some e \<longrightarrow> wf_text (gd_system e) \<and> wf_text (gd_layout e) \<and> \<not> startswith (gd_group e) ''unsupported:'')" for p
  proof -
    have "\<exists>d. group_for_path DEFAULT_SAVE_SELECTION_POLICY p = Inr d \<and>
       (\<forall>e. d = Some e \<longrightarrow> wf_text (gd_system e) \<and> wf_text (gd_layout e) \<and> \<not> startswith (gd_group e) ''unsupported:'')"
      using descriptor_from_sound [of "sort_key dynamic_segments (po_layouts DEFAULT_SAVE_SELECTION_POLICY)"] registry_sound
      by (auto simp: group_for_path_def split: option.splits)
    then show ?thesis by (auto simp: grouping_of_def)
  qed
  from * show "group_for_path DEFAULT_SAVE_SELECTION_POLICY path = Inr (?G path)" by blast
  from * show "separated ?G" by (auto simp: separated_def)
  from * show "named ?G" by (auto simp: named_def)
qed



subsection \<open>A sample\<close>

text \<open>Two files of one game and a file of no layout.\<close>

definition sample_grouping :: grouping where
  "sample_grouping p =
     (if p \<in> {''gba/z.srm'', ''gba/z.state''}
      then Some \<lparr>gd_group = ''retroarch-root-gba/z'', gd_layout = ''retroarch-root-gba'', gd_system = ''gba'', gd_shared = False,
        gd_container = [], gd_adapter = [], gd_policy = [], gd_kind = []\<rparr>
      else None)"

definition sample_file :: "string \<Rightarrow> string \<Rightarrow> string \<times> save_artifact" where
  "sample_file p digest = (p, \<lparr>art_path = p, art_size = 1, art_hash = digest\<rparr>)"

definition sample_old :: manifest where "sample_old = [sample_file ''gba/z.srm'' ''a'', sample_file ''gba/z.state'' ''b'']"
definition sample_new :: manifest where "sample_new = [sample_file ''gba/z.srm'' ''c'', sample_file ''gba/z.state'' ''b'']"
definition sample_other :: manifest where "sample_other = [sample_file ''gba/z.srm'' ''d'', sample_file ''gba/z.state'' ''b'']"
definition sample_less :: manifest where "sample_less = [sample_file ''gba/z.state'' ''b'']"

lemmas sample_defs = sample_old_def sample_new_def sample_other_def sample_less_def sample_file_def

lemma sample_wf: "wf_saves sample_old" "wf_saves sample_new" "wf_saves sample_other" "wf_saves sample_less" "wf_saves []"
  by (auto simp: wf_saves_def wf_dict_def sample_defs split: if_splits)

lemma sample_sides: "wf_sides sample_new sample_old sample_old" "wf_sides sample_new sample_other sample_old" "wf_sides sample_old sample_less sample_old"
  by (simp_all add: wf_sides_def sample_wf)

lemma sample_groups: "separated sample_grouping" "named sample_grouping"
  by (auto simp: separated_def named_def sample_grouping_def startswith_def wf_text_def strip_def is_space_def split: if_splits)

text \<open>
  A deletion that was downloaded stays in the shared manifest: when the device then restores the same file,
  the next run takes it for the old version and deletes it again; when a file beside it changes, the
  next run sees a conflict although the other device did nothing.
\<close>

lemma downloaded_deletion_stays:
  "desired False (plan_for sample_grouping {} sample_old sample_less sample_old) (sample_old, sample_less) = (sample_less, sample_less)"
  "map_of (reconciled_baseline (plan_for sample_grouping {} sample_old sample_less sample_old) sample_old) = map_of sample_old"
  "map re_action (sp_entries (plan_for sample_grouping {} sample_old sample_less sample_old)) = [DOWNLOAD, DOWNLOAD]"
  "map re_action (sp_entries (plan_for sample_grouping {} [sample_file ''gba/z.state'' ''new''] sample_less sample_old)) = [BOTH_CHANGED, BOTH_CHANGED]"
proof -
  show "desired False (plan_for sample_grouping {} sample_old sample_less sample_old) (sample_old, sample_less) = (sample_less, sample_less)" by code_simp
  show "map re_action (sp_entries (plan_for sample_grouping {} sample_old sample_less sample_old)) = [DOWNLOAD, DOWNLOAD]" by code_simp
  show "map re_action (sp_entries (plan_for sample_grouping {} [sample_file ''gba/z.state'' ''new''] sample_less sample_old)) = [BOTH_CHANGED, BOTH_CHANGED]" by code_simp
  have "reconciled_baseline (plan_for sample_grouping {} sample_old sample_less sample_old) sample_old = sample_old" by code_simp
  then show "map_of (reconciled_baseline (plan_for sample_grouping {} sample_old sample_less sample_old) sample_old) = map_of sample_old" by simp
qed


lemma sc_report_of: "sc_artifacts (report_of m) = m"
  by (simp add: report_of_def)

lemma reconcile_three_way_witness:
  "sp_entries (save_reconcile_plan sample_grouping (report_of sample_new) (report_of sample_old) sample_old ''all_eligible'' {}) =
     map (\<lambda>p. \<lparr>re_path = p, re_action = three_way sample_grouping {} sample_new sample_old sample_old (group_id sample_grouping p),
                re_local = map_of sample_new p, re_remote = map_of sample_old p, re_baseline = map_of sample_old p\<rparr>)
       (sorted_list_of_set (dom (map_of sample_new) \<union> dom (map_of sample_old) \<union> dom (map_of sample_old)))
   \<and> map re_action (sp_entries (plan_for sample_grouping {} sample_new sample_old sample_old)) = [UPLOAD, UPLOAD]"
proof
  show "map re_action (sp_entries (plan_for sample_grouping {} sample_new sample_old sample_old)) = [UPLOAD, UPLOAD]" by code_simp
qed (rule reconcile_three_way [OF sample_sides(1)], simp_all add: report_of_def)

lemma sample_upload: "desired False (plan_for sample_grouping {} sample_new sample_old sample_old) (sample_new, sample_old) = (sample_new, sample_new)"
  by code_simp

lemma reconcile_keeps_unshared_witness:
  "\<exists>l' r'. desired False (plan_for sample_grouping {} sample_new sample_old sample_old) (sample_new, sample_old) = (l', r')
     \<and> (group_view sample_grouping r' ''retroarch-root-gba/z'' \<noteq> group_view sample_grouping sample_old ''retroarch-root-gba/z''
         \<longrightarrow> group_view sample_grouping r' ''retroarch-root-gba/z'' = group_view sample_grouping sample_new ''retroarch-root-gba/z'')"
  using reconcile_keeps_unshared [OF sample_sides(1) sample_upload, of "''retroarch-root-gba/z''"] sample_upload by blast

lemma sample_baseline: "reconciled_baseline (plan_for sample_grouping {} sample_new sample_old sample_old) sample_old = sample_new"
  by code_simp

lemma reconcile_converges_witness:
  "desired False (plan_for sample_grouping {} sample_new sample_old sample_old) (sample_new, sample_old) = (sample_new, sample_new)
   \<and> (\<exists>l'' r''. desired True (plan_for sample_grouping {} sample_new sample_new sample_new) (sample_new, sample_new) = (l'', r'')
        \<and> map_of l'' = map_of sample_new \<and> map_of r'' = map_of sample_new)"
proof -
  obtain l'' r'' where d: "desired True (plan_for sample_grouping {} sample_new sample_new sample_new) (sample_new, sample_new) = (l'', r'')" by fastforce
  have "sample_new = selected_baseline False (plan_for sample_grouping {} sample_new sample_old sample_old) sample_old"
    by (simp add: selected_baseline_def sample_baseline)
  from reconcile_converges [OF sample_sides(1) sample_upload this d] d sample_upload show ?thesis by blast
qed

lemma upload_only_postpones_witness:
  "\<exists>l1 r1. desired True (plan_for sample_grouping {} sample_new sample_old sample_old) (sample_new, sample_old) = (l1, r1) \<and> map_of l1 = map_of sample_new"
proof -
  obtain l1 r1 where 1: "desired True (plan_for sample_grouping {} sample_new sample_old sample_old) (sample_new, sample_old) = (l1, r1)" by fastforce
  obtain l2 r2 where 2: "desired False (plan_for sample_grouping {} l1 r1 (selected_baseline True (plan_for sample_grouping {} sample_new sample_old sample_old) sample_old)) (l1, r1) = (l2, r2)" by fastforce
  from upload_only_postpones [OF sample_sides(1) 1 refl 2 sample_upload] 1 show ?thesis by blast
qed

lemma preview_agrees_with_plan_witness:
  "\<exists>e. e \<in> set (df_entries (preview sample_grouping Upload (report_of sample_new) (report_of sample_other) sample_old))
     \<and> de_conflict e \<and> de_local e = map_of sample_new (de_path e)
     \<and> BOTH_CHANGED \<in> re_action ` set (sp_entries (save_reconcile_plan sample_grouping (report_of sample_new) (report_of sample_other) sample_old [] {}))"
proof -
  let ?shown = "df_entries (preview sample_grouping Upload (report_of sample_new) (report_of sample_other) sample_old)"
  let ?todo = "sp_entries (save_reconcile_plan sample_grouping (report_of sample_new) (report_of sample_other) sample_old [] {})"
  define e where "e = hd ?shown"
  have n: "?shown \<noteq> []" by code_simp
  have c: "de_conflict e" unfolding e_def by code_simp
  have m: "e \<in> set ?shown" unfolding e_def by (rule hd_in_set [OF n])
  note p = preview_agrees_with_plan [OF sample_sides(2) sc_report_of sc_report_of, of sample_grouping Upload "[]" "{}"]
  from c m have "de_path e \<in> de_path ` {e \<in> set ?shown. de_conflict e}" by blast
  with p have "\<exists>e' \<in> set ?todo. re_path e' = de_path e \<and> re_action e' = BOTH_CHANGED" by blast
  then have "BOTH_CHANGED \<in> re_action ` set ?todo" by force
  moreover have "de_local e = map_of sample_new (de_path e)" using p m by blast
  ultimately show ?thesis using c m by blast
qed

lemma preview_roundtrip_witness:
  "\<exists>l' r'. manifests_from_diff (preview sample_grouping Download (report_of sample_new) (report_of sample_other) sample_old) = (l', r')
     \<and> map_of l' = map_of sample_new \<and> map_of r' = map_of sample_other"
proof -
  obtain l' r' where d: "manifests_from_diff (preview sample_grouping Download (report_of sample_new) (report_of sample_other) sample_old) = (l', r')" by fastforce
  from preview_roundtrip [OF sample_sides(2) _ _ d] d show ?thesis by (auto simp: report_of_def)
qed

lemma group_states_agree_with_plan_witness:
  "\<exists>s. s \<in> set (group_states_from_manifests sample_grouping ''now'' (sorted_values sample_new) (sorted_values sample_new) (sorted_values sample_new))
     \<and> gr_condition s = CLEAN"
proof -
  let ?ss = "group_states_from_manifests sample_grouping ''now'' (sorted_values sample_new) (sorted_values sample_new) (sorted_values sample_new)"
  have n: "?ss \<noteq> []" by code_simp
  have b: "sample_new = selected_baseline False (plan_for sample_grouping {} sample_new sample_old sample_old) sample_old"
    by (simp add: selected_baseline_def sample_baseline)
  have three: "three_way sample_grouping {} sample_new sample_old sample_old g \<in> {UNCHANGED, UPLOAD}" for g
    using action_cases [of sample_grouping "{}" sample_new sample_old sample_old g] by auto
  note t = group_states_agree_with_plan [OF sample_sides(1) sample_groups(1) sample_upload b, of "''now''", THEN conjunct2, rule_format, OF hd_in_set [OF n]]
  from three [of "gr_group (hd ?ss)"] t have "gr_condition (hd ?ss) = CLEAN" by auto
  with hd_in_set [OF n] show ?thesis by blast
qed


lemma sample_change: "changed_groups sample_grouping sample_old sample_new = {''retroarch-root-gba/z''}"
proof -
  have "group_view sample_grouping sample_old ''retroarch-root-gba/z'' ''gba/z.srm'' \<noteq> group_view sample_grouping sample_new ''retroarch-root-gba/z'' ''gba/z.srm''"
    by (simp add: group_view_def group_id_def sample_grouping_def sample_defs)
  then have "group_view sample_grouping sample_old ''retroarch-root-gba/z'' \<noteq> group_view sample_grouping sample_new ''retroarch-root-gba/z''" by metis
  moreover have "supported_group sample_grouping g \<longleftrightarrow> g = ''retroarch-root-gba/z''" for g
    by (auto simp: supported_group_def sample_grouping_def split: if_splits)
  ultimately show ?thesis by (auto simp: changed_groups_def)
qed

lemma commit_journal_entries_witness:
  "\<exists>d'. append_mutations ''j'' ''dev'' ''rev'' ''now'' (journal_mutations_for_remote_transition sample_grouping sample_old sample_new) MAX_HISTORY sample_disk
     = (Inr 4, d')"
proof -
  have t: "wf_text ''dev''" "wf_text ''rev''" "wf_text ''now''" by (simp_all add: wf_text_def strip_def is_space_def)
  have w: "disk_writable sample_disk ''j''" by (simp add: sample_disk_def)
  from commit_journal_entries [OF sample_wf(1,2) sample_groups load_sample w t] show ?thesis by (simp add: sample_change sample_journal_def)
qed

end
