(* ===== verification/SaveState.thy ===== *)
theory SaveState
  imports SaveModels SaveIndex PosixPaths
begin

text \<open>
  The durable local SaveSync state (\<open>infrastructure/savesync_state.py\<close>): the validation of a state,
  its JSON document and the reading of documents of every schema version, the locked file
  operations, and the transitions of groups and conflicts.

  A record's fields have the types the class declares, so the \<open>isinstance\<close> checks of a state in
  memory always pass; those of a document are here.  \<open>uuid4().hex\<close> and the clock are arguments,
  and the text of an \<open>OSError\<close> is left out of the messages.
\<close>

subsection \<open>Fields\<close>

text \<open>\<open>data.get(key, default)\<close>\<close>

definition jget_or :: "(string \<times> json) list \<Rightarrow> string \<Rightarrow> json \<Rightarrow> json" where
  "jget_or d k fallback = (case map_of d k of None \<Rightarrow> fallback | Some v \<Rightarrow> v)"

definition as_mapping :: "json \<Rightarrow> string \<Rightarrow> sync_error + (string \<times> json) list" where
  "as_mapping v label = (case v of JObj d \<Rightarrow> Inr d | _ \<Rightarrow> fail (label @ '' must be a JSON object''))"

definition as_array :: "json \<Rightarrow> string \<Rightarrow> sync_error + json list" where
  "as_array v label = (case v of JArr xs \<Rightarrow> Inr xs | _ \<Rightarrow> fail (label @ '' must be a JSON array''))"

definition any_text :: "json \<Rightarrow> string \<Rightarrow> sync_error + string" where
  "any_text v label = (case v of JStr s \<Rightarrow> Inr s | _ \<Rightarrow> fail (label @ '' must be text''))"

definition filled_text :: "json \<Rightarrow> string \<Rightarrow> sync_error + string" where
  "filled_text v label =
     bindE (any_text v label) (\<lambda>s. if strip s = [] then fail (label @ '' must not be empty'') else Inr s)"

definition optional_filled :: "json \<Rightarrow> string \<Rightarrow> sync_error + string option" where
  "optional_filled v label = (if v = JNull then Inr None else bindE (filled_text v label) (\<lambda>s. Inr (Some s)))"

definition count_value :: "json \<Rightarrow> string \<Rightarrow> sync_error + int" where
  "count_value v label =
     (case v of JInt i \<Rightarrow> (if i < 0 then fail (label @ '' must be a non-negative integer'') else Inr i)
      | _ \<Rightarrow> fail (label @ '' must be a non-negative integer''))"

definition optional_count :: "json \<Rightarrow> string \<Rightarrow> sync_error + int option" where
  "optional_count v label = (if v = JNull then Inr None else bindE (count_value v label) (\<lambda>i. Inr (Some i)))"

definition int_value :: "json \<Rightarrow> string \<Rightarrow> sync_error + int" where
  "int_value v message = (case v of JInt i \<Rightarrow> Inr i | _ \<Rightarrow> fail message)"

definition canonical_rel :: "json \<Rightarrow> string \<Rightarrow> sync_error + string" where
  "canonical_rel v label =
     bindE (filled_text v label) (\<lambda>p.
     if CHR 0x5C \<in> set p \<or> startswith p ''/'' then fail (label @ '' must be a canonical relative POSIX path'')
     else if (\<exists>part \<in> set (path_parts p). part \<in> {'''', ''.'', ''..''}) \<or> as_posix p \<noteq> p
     then fail (label @ '' must be a canonical relative POSIX path'')
     else Inr p)"

text \<open>A check that raises or returns, of a value that may be \<open>None\<close> and of each value of a tuple.\<close>

definition check_opt :: "('a \<Rightarrow> sync_error + 'b) \<Rightarrow> 'a option \<Rightarrow> sync_error + unit" where
  "check_opt f v = (case v of None \<Rightarrow> Inr () | Some x \<Rightarrow> bindE (f x) (\<lambda>_. Inr ()))"

definition check_each :: "('a \<Rightarrow> sync_error + 'b) \<Rightarrow> 'a list \<Rightarrow> sync_error + unit" where
  "check_each f xs = bindE (mapE f xs) (\<lambda>_. Inr ())"

definition indexed :: "string \<Rightarrow> nat \<Rightarrow> string" where
  "indexed label i = label @ ''['' @ show_nat i @ '']''"

text \<open>\<open>f(item, f"{label}[{index}]") for index, item in enumerate(_list(payload, label))\<close>\<close>

definition decode_items :: "(json \<Rightarrow> string \<Rightarrow> sync_error + 'a) \<Rightarrow> json \<Rightarrow> string \<Rightarrow> sync_error + 'a list" where
  "decode_items f v label =
     bindE (as_array v label) (\<lambda>xs. mapE (\<lambda>(i, x). f x (indexed label i)) (enumerate 0 xs))"

definition decode_texts :: "(json \<Rightarrow> string \<Rightarrow> sync_error + 'a) \<Rightarrow> json \<Rightarrow> string \<Rightarrow> sync_error + 'a list" where
  "decode_texts f v label = bindE (as_array v label) (\<lambda>xs. mapE (\<lambda>x. f x label) xs)"

subsection \<open>Validation\<close>

definition is_digest :: "string \<Rightarrow> bool" where
  "is_digest h \<longleftrightarrow> length h = 64 \<and> (\<forall>c \<in> set h. c \<in> set ''0123456789abcdefABCDEF'')"

definition artifact_check :: "string \<Rightarrow> save_artifact \<Rightarrow> string set \<Rightarrow> sync_error + string set" where
  "artifact_check label a seen =
     bindE (canonical_rel (JStr (art_path a)) (label @ '' path'')) (\<lambda>path.
     if path \<in> seen then fail (''Duplicate artifact path in '' @ label @ '': '' @ path)
     else if art_size a < 0 then fail (''Invalid artifact size for '' @ path)
     else if \<not> is_digest (art_hash a) then fail (''Invalid SHA-256 content hash for '' @ path)
     else Inr (insert path seen))"

definition validate_artifacts :: "save_artifact list \<Rightarrow> string \<Rightarrow> sync_error + unit" where
  "validate_artifacts artifacts label = bindE (foldE (artifact_check label) artifacts {}) (\<lambda>_. Inr ())"

definition validate_snapshot ::
  "group_snapshot \<Rightarrow> string \<Rightarrow> string option \<Rightarrow> string option \<Rightarrow> sync_error + unit" where
  "validate_snapshot s label gid layout =
     bindE (filled_text (JStr (gs_group s)) (label @ ''.group_id'')) (\<lambda>_.
     bindE (filled_text (JStr (gs_layout s)) (label @ ''.layout_id'')) (\<lambda>_.
     if gid \<noteq> None \<and> Some (gs_group s) \<noteq> gid
     then fail (label @ '' snapshot belongs to a different SaveSync group'')
     else if layout \<noteq> None \<and> Some (gs_layout s) \<noteq> layout
     then fail (label @ '' snapshot belongs to a different save layout'')
     else
     bindE (validate_artifacts (gs_artifacts s) (label @ ''.artifacts'')) (\<lambda>_.
     check_opt (\<lambda>t. filled_text (JStr t) (label @ ''.observed_at'')) (gs_observed s))))"

definition validate_group :: "group_state \<Rightarrow> sync_error + unit" where
  "validate_group g =
     bindE (filled_text (JStr (gr_group g)) ''group_id'') (\<lambda>_.
     bindE (filled_text (JStr (gr_layout g)) ''layout_id'') (\<lambda>_.
     let snapshot = (\<lambda>label s. validate_snapshot s label (Some (gr_group g)) (Some (gr_layout g))) in
     bindE (check_opt (snapshot ''baseline'') (gr_baseline g)) (\<lambda>_.
     bindE (check_opt (snapshot ''local_observed'') (gr_local g)) (\<lambda>_.
     bindE (check_opt (snapshot ''remote_observed'') (gr_remote g)) (\<lambda>_.
     bindE (check_each (\<lambda>p. canonical_rel (JStr p) (''dirty path for '' @ gr_group g)) (gr_hints g)) (\<lambda>_.
     if \<not> distinct (gr_hints g) then fail (''Duplicate dirty path hint for group '' @ gr_group g)
     else check_opt (\<lambda>t. filled_text (JStr t) ''verified_at'') (gr_verified g)))))))"

definition entry_check :: "logical_entry \<Rightarrow> string set \<times> string set \<Rightarrow> sync_error + string set \<times> string set" where
  "entry_check e = (\<lambda>(local_ids, entry_ids).
     bindE (filled_text (JStr (le_identity e)) ''logical entry identity'') (\<lambda>identity.
     if identity \<in> local_ids \<or> identity \<in> entry_ids then fail (''Duplicate logical entry identity: '' @ identity)
     else if le_size e < 0 then fail (''Invalid logical entry size: '' @ identity)
     else if \<not> is_digest (le_hash e) then fail (''Invalid logical entry hash: '' @ identity)
     else Inr (insert identity local_ids, insert identity entry_ids)))"

definition domain_check :: "logical_domain \<Rightarrow> string set \<times> string set \<Rightarrow> sync_error + string set \<times> string set" where
  "domain_check d = (\<lambda>(domain_ids, entry_ids).
     bindE (filled_text (JStr (ld_id d)) ''merge_domain_id'') (\<lambda>domain_id.
     if domain_id \<in> domain_ids then fail (''Duplicate logical merge domain: '' @ domain_id)
     else bindE (foldE entry_check (ld_entries d) ({}, entry_ids)) (\<lambda>(_, entry_ids).
     Inr (insert domain_id domain_ids, entry_ids))))"

definition validate_container :: "container_baseline \<Rightarrow> sync_error + unit" where
  "validate_container b =
     bindE (canonical_rel (JStr (cb_container_id b)) ''container_baseline.container_id'') (\<lambda>_.
     bindE (filled_text (JStr (cb_adapter_id b)) ''container_baseline.adapter_id'') (\<lambda>_.
     if cb_schema_version b \<le> 0 then fail ''container_baseline.schema_version must be positive''
     else
     bindE (filled_text (JStr (cb_format_variant b)) ''container_baseline.format_variant'') (\<lambda>_.
     bindE (foldE domain_check (cb_domains b) ({}, {})) (\<lambda>(domain_ids, _).
     if \<not> distinct (cb_tombstones b) then fail ''Duplicate logical domain tombstone''
     else bindE (check_each (\<lambda>t. filled_text (JStr t) ''logical domain tombstone'') (cb_tombstones b)) (\<lambda>_.
     if domain_ids \<inter> set (cb_tombstones b) \<noteq> {}
     then fail ''A logical domain cannot be present and tombstoned''
     else Inr ())))))"

definition state_artifact_json :: "save_artifact \<Rightarrow> json" where
  "state_artifact_json a = JObj
     [(''relative_path'', JStr (art_path a)), (''size_bytes'', JInt (art_size a)), (''content_hash'', JStr (art_hash a))]"

definition snapshot_content :: "group_snapshot option \<Rightarrow> json" where
  "snapshot_content s =
     (case s of
        None \<Rightarrow> JNull
      | Some s \<Rightarrow> JObj
          [(''group_id'', JStr (gs_group s)), (''layout_id'', JStr (gs_layout s)),
           (''artifacts'', JArr (map state_artifact_json (sort_key art_path (gs_artifacts s))))])"

text \<open>\<open>json.dumps(value, sort_keys=True, separators=(",", ":"))\<close>\<close>

fun compact_json :: "json \<Rightarrow> string" where
  "compact_json JNull = ''null''"
| "compact_json (JBool b) = (if b then ''true'' else ''false'')"
| "compact_json (JInt i) = show_int i"
| "compact_json (JFloat r i) = r"
| "compact_json (JStr s) = json_str s"
| "compact_json (JArr xs) = ''['' @ join '','' (map compact_json xs) @ '']''"
| "compact_json (JObj d) = ''{'' @ join '',''
     (map (\<lambda>(k, t). json_str k @ '':'' @ t) (sort_key fst (map (\<lambda>(k, v). (k, compact_json v)) d))) @ ''}''"

definition conflict_content ::
  "string \<Rightarrow> string \<Rightarrow> group_snapshot option \<Rightarrow> group_snapshot \<Rightarrow> group_snapshot \<Rightarrow> json" where
  "conflict_content gid layout baseline local remote = JObj
     [(''group_id'', JStr gid), (''layout_id'', JStr layout), (''baseline'', snapshot_content baseline),
      (''local'', snapshot_content (Some local)), (''remote'', snapshot_content (Some remote))]"

definition conflict_id_for ::
  "string \<Rightarrow> string \<Rightarrow> group_snapshot option \<Rightarrow> group_snapshot \<Rightarrow> group_snapshot \<Rightarrow> sync_error + string" where
  "conflict_id_for gid layout baseline local remote =
     bindE (filled_text (JStr gid) ''group_id'') (\<lambda>_.
     bindE (filled_text (JStr layout) ''layout_id'') (\<lambda>_.
     bindE (check_opt (\<lambda>s. validate_snapshot s ''baseline'' (Some gid) (Some layout)) baseline) (\<lambda>_.
     bindE (validate_snapshot local ''local'' (Some gid) (Some layout)) (\<lambda>_.
     bindE (validate_snapshot remote ''remote'' (Some gid) (Some layout)) (\<lambda>_.
     Inr (sha256_hex (utf8 (compact_json (conflict_content gid layout baseline local remote)))))))))"

definition validate_conflict :: "conflict_record \<Rightarrow> sync_error + unit" where
  "validate_conflict c =
     bindE (filled_text (JStr (cr_id c)) ''conflict_id'') (\<lambda>_.
     bindE (filled_text (JStr (cr_group c)) ''conflict group_id'') (\<lambda>_.
     bindE (filled_text (JStr (cr_layout c)) ''conflict layout_id'') (\<lambda>_.
     bindE (filled_text (JStr (cr_detected c)) ''detected_at'') (\<lambda>_.
     bindE (filled_text (JStr (cr_last_seen c)) ''last_seen_at'') (\<lambda>_.
     let snapshot = (\<lambda>label s. validate_snapshot s label (Some (cr_group c)) (Some (cr_layout c))) in
     bindE (check_opt (snapshot ''baseline'') (cr_baseline c)) (\<lambda>_.
     bindE (snapshot ''local'' (cr_local c)) (\<lambda>_.
     bindE (snapshot ''remote'' (cr_remote c)) (\<lambda>_.
     bindE (check_opt (\<lambda>t. filled_text (JStr t) ''acknowledged_at'') (cr_acknowledged c)) (\<lambda>_.
     let fields = [cr_resolved c \<noteq> None, cr_resolution c \<noteq> None, cr_revision c \<noteq> None] in
     if (\<exists>f \<in> set fields. f) \<and> \<not> (\<forall>f \<in> set fields. f)
     then fail (''SaveSync conflict '' @ cr_id c @ '' has incomplete resolution metadata'')
     else
     bindE (conflict_id_for (cr_group c) (cr_layout c) (cr_baseline c) (cr_local c) (cr_remote c)) (\<lambda>expected_id.
     if cr_id c \<noteq> expected_id
     then fail (''SaveSync conflict '' @ cr_id c @ '' does not match its content evidence'')
     else Inr ()))))))))))"

definition validate_record :: "sync_record \<Rightarrow> string \<Rightarrow> sync_error + unit" where
  "validate_record r label =
     bindE (filled_text (JStr (sr_revision r)) (label @ ''.revision'')) (\<lambda>_.
     bindE (filled_text (JStr (sr_timestamp r)) (label @ ''.timestamp'')) (\<lambda>_.
     bindE (filled_text (JStr (sr_device r)) (label @ ''.device_id'')) (\<lambda>_.
     validate_artifacts (sr_manifest r) (label @ ''.manifest''))))"

definition report_counts :: "reconcile_report \<Rightarrow> (string \<times> int) list" where
  "report_counts r =
     [(''uploaded'', rr_uploaded r), (''downloaded'', rr_downloaded r), (''conflicts'', rr_conflicts r),
      (''unchanged'', rr_unchanged r), (''upload_bytes'', rr_upload_bytes r), (''download_bytes'', rr_download_bytes r)]"

definition validate_report :: "reconcile_report \<Rightarrow> sync_error + unit" where
  "validate_report r =
     bindE (filled_text (JStr (rr_revision r)) ''last_reconcile.revision'') (\<lambda>_.
     bindE (filled_text (JStr (rr_timestamp r)) ''last_reconcile.timestamp'') (\<lambda>_.
     bindE (filled_text (JStr (rr_scope r)) ''last_reconcile.scope'') (\<lambda>_.
     bindE (check_each (\<lambda>(name, v). if v < 0
              then fail (''Invalid non-negative integer for last_reconcile.'' @ name) else Inr ()) (report_counts r)) (\<lambda>_.
     check_each (\<lambda>p. canonical_rel (JStr p) ''last_reconcile conflict path'') (rr_conflict_paths r)))))"

definition validate_remote :: "remote_observation \<Rightarrow> sync_error + unit" where
  "validate_remote obs =
     check_opt (\<lambda>t. filled_text (JStr t) ''remote_observation.checked_at'') (ro_checked obs)"

definition validate_operation :: "active_operation \<Rightarrow> sync_error + unit" where
  "validate_operation act =
     bindE (filled_text (JStr (ao_id act)) ''active_operation.operation_id'') (\<lambda>_.
     bindE (filled_text (JStr (ao_direction act)) ''active_operation.direction'') (\<lambda>_.
     bindE (filled_text (JStr (ao_phase act)) ''active_operation.phase'') (\<lambda>_.
     bindE (filled_text (JStr (ao_started act)) ''active_operation.started_at'') (\<lambda>_.
     if \<not> distinct (ao_groups act) then fail ''active_operation has duplicate group IDs''
     else check_each (\<lambda>g. filled_text (JStr g) ''active_operation.group_id'') (ao_groups act)))))"

definition validate_error :: "last_error \<Rightarrow> sync_error + unit" where
  "validate_error e =
     bindE (filled_text (JStr (er_code e)) ''last_error.code'') (\<lambda>_.
     bindE (filled_text (JStr (er_message e)) ''last_error.message'') (\<lambda>_.
     bindE (filled_text (JStr (er_occurred e)) ''last_error.occurred_at'') (\<lambda>_.
     check_opt (\<lambda>t. filled_text (JStr t) ''last_error.operation_id'') (er_operation e))))"

text \<open>The groups seen so far, by identifier, and the identifiers of the conflicts seen so far.\<close>

definition group_step :: "group_state \<Rightarrow> (string, group_state) dict \<Rightarrow> sync_error + (string, group_state) dict" where
  "group_step g groups =
     bindE (validate_group g) (\<lambda>_.
     if gr_group g \<in> fst ` set groups then fail (''Duplicate SaveSync group_id: '' @ gr_group g)
     else Inr (AList.update (gr_group g) g groups))"

definition conflict_step ::
  "(string, group_state) dict \<Rightarrow> conflict_record \<Rightarrow> string set \<Rightarrow> sync_error + string set" where
  "conflict_step groups c seen =
     bindE (validate_conflict c) (\<lambda>_.
     if cr_id c \<in> seen then fail (''Duplicate SaveSync conflict_id: '' @ cr_id c)
     else if resolved c then Inr (insert (cr_id c) seen)
     else (case map_of groups (cr_group c) of
        None \<Rightarrow> fail (''Active SaveSync conflict '' @ cr_id c @ '' references an unknown group'')
      | Some g \<Rightarrow>
          if gr_layout g \<noteq> cr_layout c
          then fail (''Active SaveSync conflict '' @ cr_id c @ '' layout does not match its group'')
          else if gr_condition g \<noteq> CONFLICTED
          then fail (''Active SaveSync conflict '' @ cr_id c @ '' requires conflict group state'')
          else Inr (insert (cr_id c) seen)))"

definition container_step :: "container_baseline \<Rightarrow> string set \<Rightarrow> sync_error + string set" where
  "container_step b seen =
     bindE (validate_container b) (\<lambda>_.
     if cb_container_id b \<in> seen then fail (''Duplicate SaveSync container baseline: '' @ cb_container_id b)
     else Inr (insert (cb_container_id b) seen))"

definition validate_state :: "sync_state \<Rightarrow> sync_error + unit" where
  "validate_state s =
     bindE (filled_text (JStr (sy_device s)) ''device_id'') (\<lambda>_.
     bindE (check_opt (\<lambda>r. validate_record r ''last_upload'') (sy_upload s)) (\<lambda>_.
     bindE (check_opt (\<lambda>r. validate_record r ''last_download'') (sy_download s)) (\<lambda>_.
     bindE (validate_artifacts (sy_shared s) ''shared_manifest'') (\<lambda>_.
     bindE (check_opt validate_report (sy_reconcile s)) (\<lambda>_.
     bindE (foldE group_step (sy_groups s) []) (\<lambda>groups.
     bindE (foldE (conflict_step groups) (sy_conflicts s) {}) (\<lambda>_.
     bindE (foldE container_step (sy_containers s) {}) (\<lambda>_.
     bindE (validate_remote (sy_remote s)) (\<lambda>_.
     bindE (check_opt validate_operation (sy_active s)) (\<lambda>_.
     bindE (check_opt validate_error (sy_error s)) (\<lambda>_.
     bindE (check_opt (\<lambda>t. filled_text (JStr t) ''last_completed_operation_id'') (sy_completed s)) (\<lambda>_.
     bindE (check_opt (\<lambda>n. count_value (JInt n) ''quick_sync_cursor_generation'') (sy_cursor s)) (\<lambda>_.
     if sy_active s \<noteq> None \<and> map_option ao_id (sy_active s) = sy_completed s
     then fail ''A completed SaveSync operation cannot also remain active''
     else Inr ())))))))))))))"

subsection \<open>Documents\<close>

fun condition_value :: "condition \<Rightarrow> string" where
  "condition_value CLEAN = ''clean''"
| "condition_value LOCAL_DIRTY = ''local-dirty''"
| "condition_value REMOTE_DIRTY = ''remote-dirty''"
| "condition_value CONFLICTED = ''conflict''"

fun availability_value :: "availability \<Rightarrow> string" where
  "availability_value NOT_CHECKED = ''unknown''"
| "availability_value AVAILABLE = ''available''"
| "availability_value UNAVAILABLE = ''unavailable''"

fun resolution_value :: "resolution \<Rightarrow> string" where
  "resolution_value KEEP_LOCAL = ''keep-local''"
| "resolution_value KEEP_REMOTE = ''keep-remote''"
| "resolution_value MANUAL = ''manual''"

definition null_or :: "('a \<Rightarrow> json) \<Rightarrow> 'a option \<Rightarrow> json" where
  "null_or f v = (case v of None \<Rightarrow> JNull | Some x \<Rightarrow> f x)"

definition text_list :: "string list \<Rightarrow> json" where
  "text_list xs = JArr (map JStr xs)"

definition snapshot_json :: "group_snapshot option \<Rightarrow> json" where
  "snapshot_json = null_or (\<lambda>s. JObj
     [(''group_id'', JStr (gs_group s)), (''layout_id'', JStr (gs_layout s)),
      (''artifacts'', JArr (map state_artifact_json (gs_artifacts s))), (''observed_at'', opt_json (gs_observed s))])"

definition group_json :: "group_state \<Rightarrow> json" where
  "group_json g = JObj
     [(''group_id'', JStr (gr_group g)), (''layout_id'', JStr (gr_layout g)),
      (''condition'', JStr (condition_value (gr_condition g))), (''baseline'', snapshot_json (gr_baseline g)),
      (''local_observed'', snapshot_json (gr_local g)), (''remote_observed'', snapshot_json (gr_remote g)),
      (''dirty_path_hints'', text_list (gr_hints g)), (''verified_at'', opt_json (gr_verified g))]"

definition conflict_json :: "conflict_record \<Rightarrow> json" where
  "conflict_json c = JObj
     [(''conflict_id'', JStr (cr_id c)), (''group_id'', JStr (cr_group c)), (''layout_id'', JStr (cr_layout c)),
      (''detected_at'', JStr (cr_detected c)), (''last_seen_at'', JStr (cr_last_seen c)),
      (''baseline'', snapshot_json (cr_baseline c)), (''local'', snapshot_json (Some (cr_local c))),
      (''remote'', snapshot_json (Some (cr_remote c))), (''acknowledged_at'', opt_json (cr_acknowledged c)),
      (''resolved_at'', opt_json (cr_resolved c)),
      (''resolution'', null_or (\<lambda>r. JStr (resolution_value r)) (cr_resolution c)),
      (''resolution_revision'', opt_json (cr_revision c))]"

definition logical_entry_json :: "logical_entry \<Rightarrow> json" where
  "logical_entry_json e = JObj
     [(''identity'', JStr (le_identity e)), (''canonical_hash'', JStr (le_hash e)), (''size_bytes'', JInt (le_size e))]"

definition logical_domain_json :: "logical_domain \<Rightarrow> json" where
  "logical_domain_json d = JObj
     [(''merge_domain_id'', JStr (ld_id d)), (''entries'', JArr (map logical_entry_json (ld_entries d)))]"

definition container_json :: "container_baseline \<Rightarrow> json" where
  "container_json b = JObj
     [(''container_id'', JStr (cb_container_id b)), (''adapter_id'', JStr (cb_adapter_id b)),
      (''schema_version'', JInt (cb_schema_version b)), (''format_variant'', JStr (cb_format_variant b)),
      (''domains'', JArr (map logical_domain_json (cb_domains b))), (''tombstones'', text_list (cb_tombstones b))]"

definition record_json :: "sync_record option \<Rightarrow> json" where
  "record_json = null_or (\<lambda>r. JObj
     [(''revision'', JStr (sr_revision r)), (''timestamp'', JStr (sr_timestamp r)),
      (''device_id'', JStr (sr_device r)), (''manifest'', JArr (map state_artifact_json (sr_manifest r)))])"

definition report_dict :: "reconcile_report \<Rightarrow> json" where
  "report_dict r = JObj
     [(''revision'', JStr (rr_revision r)), (''timestamp'', JStr (rr_timestamp r)),
      (''uploaded'', JInt (rr_uploaded r)), (''downloaded'', JInt (rr_downloaded r)),
      (''conflicts'', JInt (rr_conflicts r)), (''unchanged'', JInt (rr_unchanged r)),
      (''upload_bytes'', JInt (rr_upload_bytes r)), (''download_bytes'', JInt (rr_download_bytes r)),
      (''conflict_paths'', text_list (rr_conflict_paths r)), (''scope'', JStr (rr_scope r)),
      (''bootstrap'', JBool (rr_bootstrap r))]"

definition report_json :: "reconcile_report option \<Rightarrow> json" where
  "report_json = null_or report_dict"

definition remote_json :: "remote_observation \<Rightarrow> json" where
  "remote_json obs = JObj
     [(''availability'', JStr (availability_value (ro_availability obs))), (''checked_at'', opt_json (ro_checked obs)),
      (''detail'', JStr (ro_detail obs))]"

definition operation_json :: "active_operation option \<Rightarrow> json" where
  "operation_json = null_or (\<lambda>act. JObj
     [(''operation_id'', JStr (ao_id act)), (''direction'', JStr (ao_direction act)), (''phase'', JStr (ao_phase act)),
      (''started_at'', JStr (ao_started act)), (''group_ids'', text_list (ao_groups act))])"

definition error_json :: "last_error option \<Rightarrow> json" where
  "error_json = null_or (\<lambda>e. JObj
     [(''code'', JStr (er_code e)), (''message'', JStr (er_message e)), (''occurred_at'', JStr (er_occurred e)),
      (''operation_id'', opt_json (er_operation e))])"

definition CURRENT_STATE_VERSION :: int where "CURRENT_STATE_VERSION = 4"
definition MIGRATABLE_VERSIONS :: "int set" where "MIGRATABLE_VERSIONS = {1, 2, 3}"
definition GROUP_STATE_VERSIONS :: "int set" where "GROUP_STATE_VERSIONS = {3, 4}"

definition state_document :: "sync_state \<Rightarrow> json" where
  "state_document s = JObj
     [(''version'', JInt CURRENT_STATE_VERSION), (''device_id'', JStr (sy_device s)),
      (''last_upload'', record_json (sy_upload s)), (''last_download'', record_json (sy_download s)),
      (''shared_manifest'', JArr (map state_artifact_json (sy_shared s))),
      (''last_reconcile'', report_json (sy_reconcile s)), (''groups'', JArr (map group_json (sy_groups s))),
      (''conflicts'', JArr (map conflict_json (sy_conflicts s))),
      (''container_baselines'', JArr (map container_json (sy_containers s))),
      (''remote_observation'', remote_json (sy_remote s)), (''active_operation'', operation_json (sy_active s)),
      (''last_error'', error_json (sy_error s)), (''last_completed_operation_id'', opt_json (sy_completed s)),
      (''quick_sync_cursor_generation'', null_or JInt (sy_cursor s)), (''quick_sync_ready'', JBool (sy_ready s))]"

definition state_to_dict :: "sync_state \<Rightarrow> sync_error + json" where
  "state_to_dict s = bindE (validate_state s) (\<lambda>_. Inr (state_document s))"

subsection \<open>Reading documents\<close>

text \<open>\<open>SaveGroupCondition(value)\<close> and the like: the member with that value, or \<open>ValueError\<close>.\<close>

definition enum_member :: "('a \<Rightarrow> string) \<Rightarrow> 'a list \<Rightarrow> json \<Rightarrow> string \<Rightarrow> sync_error + 'a" where
  "enum_member value members v message =
     (case v of
        JStr s \<Rightarrow> (case find (\<lambda>m. value m = s) members of None \<Rightarrow> fail message | Some m \<Rightarrow> Inr m)
      | _ \<Rightarrow> fail message)"

definition read_artifact :: "json \<Rightarrow> string \<Rightarrow> sync_error + save_artifact" where
  "read_artifact v label =
     bindE (as_mapping v label) (\<lambda>d.
     bindE (int_value (jget d ''size_bytes'') (label @ ''.size_bytes must be an integer'')) (\<lambda>size.
     bindE (canonical_rel (jget d ''relative_path'') (label @ ''.relative_path'')) (\<lambda>path.
     bindE (filled_text (jget d ''content_hash'') (label @ ''.content_hash'')) (\<lambda>digest.
     let a = \<lparr>art_path = path, art_size = size, art_hash = digest\<rparr> in
     bindE (validate_artifacts [a] label) (\<lambda>_. Inr a)))))"

definition read_artifacts :: "json \<Rightarrow> string \<Rightarrow> sync_error + save_artifact list" where
  "read_artifacts v label =
     bindE (decode_items read_artifact v label) (\<lambda>artifacts.
     bindE (validate_artifacts artifacts label) (\<lambda>_. Inr (sort_key art_path artifacts)))"

definition read_snapshot :: "json \<Rightarrow> string \<Rightarrow> sync_error + group_snapshot option" where
  "read_snapshot v label =
     (if v = JNull then Inr None
      else
      bindE (as_mapping v label) (\<lambda>d.
      bindE (filled_text (jget d ''group_id'') (label @ ''.group_id'')) (\<lambda>gid.
      bindE (filled_text (jget d ''layout_id'') (label @ ''.layout_id'')) (\<lambda>layout.
      bindE (read_artifacts (jget_or d ''artifacts'' (JArr [])) (label @ ''.artifacts'')) (\<lambda>artifacts.
      bindE (optional_filled (jget d ''observed_at'') (label @ ''.observed_at'')) (\<lambda>observed.
      let s = \<lparr>gs_group = gid, gs_layout = layout, gs_artifacts = artifacts, gs_observed = observed\<rparr> in
      bindE (validate_snapshot s label None None) (\<lambda>_. Inr (Some s))))))))"

definition read_group :: "json \<Rightarrow> string \<Rightarrow> sync_error + group_state" where
  "read_group v label =
     bindE (as_mapping v label) (\<lambda>d.
     bindE (enum_member condition_value [CLEAN, LOCAL_DIRTY, REMOTE_DIRTY, CONFLICTED]
              (jget_or d ''condition'' (JStr (condition_value CLEAN))) (label @ ''.condition is invalid'')) (\<lambda>condition.
     bindE (filled_text (jget d ''group_id'') (label @ ''.group_id'')) (\<lambda>gid.
     bindE (filled_text (jget d ''layout_id'') (label @ ''.layout_id'')) (\<lambda>layout.
     bindE (read_snapshot (jget d ''baseline'') (label @ ''.baseline'')) (\<lambda>baseline.
     bindE (read_snapshot (jget d ''local_observed'') (label @ ''.local_observed'')) (\<lambda>local.
     bindE (read_snapshot (jget d ''remote_observed'') (label @ ''.remote_observed'')) (\<lambda>remote.
     bindE (decode_texts canonical_rel (jget_or d ''dirty_path_hints'' (JArr [])) (label @ ''.dirty_path_hints'')) (\<lambda>hints.
     bindE (optional_filled (jget d ''verified_at'') (label @ ''.verified_at'')) (\<lambda>verified.
     let g = \<lparr>gr_group = gid, gr_layout = layout, gr_condition = condition, gr_baseline = baseline, gr_local = local,
          gr_remote = remote, gr_hints = hints, gr_verified = verified\<rparr> in
     bindE (validate_group g) (\<lambda>_. Inr g))))))))))"

definition read_groups :: "json \<Rightarrow> sync_error + group_state list" where
  "read_groups v = bindE (decode_items read_group v ''groups'') (\<lambda>groups. Inr (sort_key gr_group groups))"

definition read_conflict :: "json \<Rightarrow> string \<Rightarrow> sync_error + conflict_record" where
  "read_conflict v label =
     bindE (as_mapping v label) (\<lambda>d.
     bindE (let raw = jget d ''resolution'' in
            if raw = JNull then Inr None
            else bindE (enum_member resolution_value [KEEP_LOCAL, KEEP_REMOTE, MANUAL] raw (label @ ''.resolution is invalid''))
                   (\<lambda>r. Inr (Some r))) (\<lambda>resolution.
     bindE (read_snapshot (jget d ''local'') (label @ ''.local'')) (\<lambda>local.
     bindE (read_snapshot (jget d ''remote'') (label @ ''.remote'')) (\<lambda>remote.
     (case (local, remote) of
        (Some local, Some remote) \<Rightarrow>
          bindE (filled_text (jget d ''conflict_id'') (label @ ''.conflict_id'')) (\<lambda>conflict_id.
          bindE (filled_text (jget d ''group_id'') (label @ ''.group_id'')) (\<lambda>gid.
          bindE (filled_text (jget d ''layout_id'') (label @ ''.layout_id'')) (\<lambda>layout.
          bindE (filled_text (jget d ''detected_at'') (label @ ''.detected_at'')) (\<lambda>detected.
          bindE (filled_text (jget d ''last_seen_at'') (label @ ''.last_seen_at'')) (\<lambda>last_seen.
          bindE (read_snapshot (jget d ''baseline'') (label @ ''.baseline'')) (\<lambda>baseline.
          bindE (optional_filled (jget d ''acknowledged_at'') (label @ ''.acknowledged_at'')) (\<lambda>acknowledged.
          bindE (optional_filled (jget d ''resolved_at'') (label @ ''.resolved_at'')) (\<lambda>resolved.
          bindE (optional_filled (jget d ''resolution_revision'') (label @ ''.resolution_revision'')) (\<lambda>revision.
          let c = \<lparr>cr_id = conflict_id, cr_group = gid, cr_layout = layout, cr_detected = detected,
               cr_last_seen = last_seen, cr_baseline = baseline, cr_local = local, cr_remote = remote,
               cr_acknowledged = acknowledged, cr_resolved = resolved, cr_resolution = resolution,
               cr_revision = revision\<rparr> in
          bindE (validate_conflict c) (\<lambda>_. Inr c))))))))))
      | _ \<Rightarrow> fail (label @ '' requires local and remote snapshots''))))))"

definition read_conflicts :: "json \<Rightarrow> sync_error + conflict_record list" where
  "read_conflicts v = bindE (decode_items read_conflict v ''conflicts'') (\<lambda>conflicts. Inr (sort_key cr_id conflicts))"

definition read_logical_entry :: "json \<Rightarrow> string \<Rightarrow> sync_error + logical_entry" where
  "read_logical_entry v label =
     bindE (as_mapping v label) (\<lambda>d.
     bindE (int_value (jget d ''size_bytes'') ''logical entry size_bytes must be an integer'') (\<lambda>size.
     bindE (filled_text (jget d ''identity'') ''logical entry identity'') (\<lambda>identity.
     bindE (filled_text (jget d ''canonical_hash'') ''logical entry hash'') (\<lambda>digest.
     Inr \<lparr>le_identity = identity, le_hash = digest, le_size = size\<rparr>))))"

definition read_logical_domain :: "json \<Rightarrow> string \<Rightarrow> sync_error + logical_domain" where
  "read_logical_domain v label =
     bindE (as_mapping v label) (\<lambda>d.
     bindE (decode_items read_logical_entry (jget_or d ''entries'' (JArr [])) (label @ ''.entries'')) (\<lambda>entries.
     bindE (filled_text (jget d ''merge_domain_id'') ''merge_domain_id'') (\<lambda>domain_id.
     Inr \<lparr>ld_id = domain_id, ld_entries = sort_key le_identity entries\<rparr>)))"

definition read_container :: "json \<Rightarrow> string \<Rightarrow> sync_error + container_baseline" where
  "read_container v label =
     bindE (as_mapping v label) (\<lambda>d.
     bindE (decode_items read_logical_domain (jget_or d ''domains'' (JArr [])) (label @ ''.domains'')) (\<lambda>domains.
     bindE (int_value (jget d ''schema_version'') (label @ ''.schema_version must be an integer'')) (\<lambda>schema.
     bindE (canonical_rel (jget d ''container_id'') (label @ ''.container_id'')) (\<lambda>container_id.
     bindE (filled_text (jget d ''adapter_id'') (label @ ''.adapter_id'')) (\<lambda>adapter_id.
     bindE (filled_text (jget d ''format_variant'') (label @ ''.format_variant'')) (\<lambda>variant.
     bindE (decode_texts filled_text (jget_or d ''tombstones'' (JArr [])) (label @ ''.tombstones'')) (\<lambda>tombstones.
     let b = \<lparr>cb_container_id = container_id, cb_adapter_id = adapter_id, cb_schema_version = schema,
          cb_format_variant = variant, cb_domains = sort_key ld_id domains, cb_tombstones = sort tombstones\<rparr> in
     bindE (validate_container b) (\<lambda>_. Inr b))))))))"

definition read_containers :: "json \<Rightarrow> sync_error + container_baseline list" where
  "read_containers v =
     bindE (decode_items read_container v ''container_baselines'') (\<lambda>bs. Inr (sort_key cb_container_id bs))"

definition read_record :: "json \<Rightarrow> string \<Rightarrow> sync_error + sync_record option" where
  "read_record v label =
     (if v = JNull then Inr None
      else
      bindE (as_mapping v label) (\<lambda>d.
      bindE (filled_text (jget d ''revision'') (label @ ''.revision'')) (\<lambda>revision.
      bindE (filled_text (jget d ''timestamp'') (label @ ''.timestamp'')) (\<lambda>timestamp.
      bindE (filled_text (jget d ''device_id'') (label @ ''.device_id'')) (\<lambda>device.
      bindE (read_artifacts (jget_or d ''manifest'' (JArr [])) (label @ ''.manifest'')) (\<lambda>manifest.
      let r = \<lparr>sr_revision = revision, sr_timestamp = timestamp, sr_device = device, sr_manifest = manifest\<rparr> in
      bindE (validate_record r label) (\<lambda>_. Inr (Some r))))))))"

definition read_report :: "json \<Rightarrow> sync_error + reconcile_report option" where
  "read_report v =
     (if v = JNull then Inr None
      else
      bindE (as_mapping v ''last_reconcile'') (\<lambda>d.
      let count = (\<lambda>name. count_value (jget_or d name (JInt 0)) (''last_reconcile.'' @ name)) in
      bindE (filled_text (jget d ''revision'') ''last_reconcile.revision'') (\<lambda>revision.
      bindE (filled_text (jget d ''timestamp'') ''last_reconcile.timestamp'') (\<lambda>timestamp.
      bindE (count ''uploaded'') (\<lambda>uploaded.
      bindE (count ''downloaded'') (\<lambda>downloaded.
      bindE (count ''conflicts'') (\<lambda>conflicts.
      bindE (count ''unchanged'') (\<lambda>unchanged.
      bindE (count ''upload_bytes'') (\<lambda>up.
      bindE (count ''download_bytes'') (\<lambda>down.
      bindE (decode_texts canonical_rel (jget_or d ''conflict_paths'' (JArr [])) ''last_reconcile.conflict_paths'') (\<lambda>paths.
      bindE (filled_text (jget_or d ''scope'' (JStr ''managed_games'')) ''last_reconcile.scope'') (\<lambda>scope.
      let r = \<lparr>rr_revision = revision, rr_timestamp = timestamp, rr_uploaded = uploaded, rr_downloaded = downloaded,
           rr_conflicts = conflicts, rr_unchanged = unchanged, rr_upload_bytes = up, rr_download_bytes = down,
           rr_conflict_paths = paths, rr_scope = scope, rr_bootstrap = truthy (jget_or d ''bootstrap'' (JBool False))\<rparr> in
      bindE (validate_report r) (\<lambda>_. Inr (Some r))))))))))))))"

definition read_remote :: "json \<Rightarrow> sync_error + remote_observation" where
  "read_remote v =
     bindE (as_mapping v ''remote_observation'') (\<lambda>d.
     bindE (enum_member availability_value [NOT_CHECKED, AVAILABLE, UNAVAILABLE]
              (jget_or d ''availability'' (JStr (availability_value NOT_CHECKED)))
              ''remote_observation.availability is invalid'') (\<lambda>availability.
     bindE (optional_filled (jget d ''checked_at'') ''remote_observation.checked_at'') (\<lambda>checked.
     bindE (any_text (jget_or d ''detail'' (JStr [])) ''remote_observation.detail'') (\<lambda>detail.
     let obs = \<lparr>ro_availability = availability, ro_checked = checked, ro_detail = detail\<rparr> in
     bindE (validate_remote obs) (\<lambda>_. Inr obs)))))"

definition read_operation :: "json \<Rightarrow> sync_error + active_operation option" where
  "read_operation v =
     (if v = JNull then Inr None
      else
      bindE (as_mapping v ''active_operation'') (\<lambda>d.
      bindE (filled_text (jget d ''operation_id'') ''active_operation.operation_id'') (\<lambda>operation_id.
      bindE (filled_text (jget d ''direction'') ''active_operation.direction'') (\<lambda>dir.
      bindE (filled_text (jget d ''phase'') ''active_operation.phase'') (\<lambda>phase.
      bindE (filled_text (jget d ''started_at'') ''active_operation.started_at'') (\<lambda>started.
      bindE (decode_texts filled_text (jget_or d ''group_ids'' (JArr [])) ''active_operation.group_ids'') (\<lambda>group_ids.
      let act = \<lparr>ao_id = operation_id, ao_direction = dir, ao_phase = phase, ao_started = started,
           ao_groups = group_ids\<rparr> in
      bindE (validate_operation act) (\<lambda>_. Inr (Some act)))))))))"

definition read_error :: "json \<Rightarrow> sync_error + last_error option" where
  "read_error v =
     (if v = JNull then Inr None
      else
      bindE (as_mapping v ''last_error'') (\<lambda>d.
      bindE (filled_text (jget d ''code'') ''last_error.code'') (\<lambda>code.
      bindE (filled_text (jget d ''message'') ''last_error.message'') (\<lambda>message.
      bindE (filled_text (jget d ''occurred_at'') ''last_error.occurred_at'') (\<lambda>occurred.
      bindE (optional_filled (jget d ''operation_id'') ''last_error.operation_id'') (\<lambda>operation_id.
      let e = \<lparr>er_code = code, er_message = message, er_occurred = occurred, er_operation = operation_id\<rparr> in
      bindE (validate_error e) (\<lambda>_. Inr (Some e))))))))"

text \<open>A document without a version is taken for version 1 if it has only the fields of that version.\<close>

definition document_version :: "(string \<times> json) list \<Rightarrow> sync_error + int" where
  "document_version d =
     (let raw = jget d ''version'' in
      if raw = JNull then
        (if ''device_id'' \<notin> fst ` set d \<or> \<not> fst ` set d \<subseteq> {''device_id'', ''last_upload'', ''last_download''}
         then fail ''SaveSync state has no recognized schema version'' else Inr 1)
      else (case raw of
              JInt i \<Rightarrow> if i < 1 then fail ''SaveSync state version must be a positive integer'' else Inr i
            | _ \<Rightarrow> fail ''SaveSync state version must be a positive integer''))"

definition no_observation :: remote_observation where
  "no_observation = \<lparr>ro_availability = NOT_CHECKED, ro_checked = None, ro_detail = []\<rparr>"

text \<open>\<open>decode(...) if version in versions else default\<close>\<close>

definition when_version :: "bool \<Rightarrow> sync_error + 'a \<Rightarrow> 'a \<Rightarrow> sync_error + 'a" where
  "when_version known r missing = (if known then r else Inr missing)"

text \<open>The first of the records with the greatest timestamp; version 1 shared what it last copied.\<close>

definition newest_record :: "sync_record list \<Rightarrow> sync_record option" where
  "newest_record rs = fold (\<lambda>r best. case best of
       None \<Rightarrow> Some r
     | Some b \<Rightarrow> if sr_timestamp b < sr_timestamp r then Some r else Some b) rs None"

definition migrate_shared :: "int \<Rightarrow> sync_state \<Rightarrow> sync_state" where
  "migrate_shared version s =
     (if version = 1 \<and> sy_shared s = []
      then (case newest_record (List.map_filter id [sy_upload s, sy_download s]) of
              None \<Rightarrow> s
            | Some r \<Rightarrow> s\<lparr>sy_shared := sr_manifest r\<rparr>)
      else s)"

definition decode_state :: "int \<Rightarrow> (string \<times> json) list \<Rightarrow> sync_error + sync_state" where
  "decode_state version d =
     (let grouped = version \<in> GROUP_STATE_VERSIONS in
     bindE (filled_text (jget d ''device_id'') ''device_id'') (\<lambda>device.
     bindE (read_record (jget d ''last_upload'') ''last_upload'') (\<lambda>last_upload.
     bindE (read_record (jget d ''last_download'') ''last_download'') (\<lambda>last_download.
     bindE (read_artifacts (jget_or d ''shared_manifest'' (JArr [])) ''shared_manifest'') (\<lambda>shared.
     bindE (read_report (jget d ''last_reconcile'')) (\<lambda>report.
     bindE (when_version grouped (read_groups (jget_or d ''groups'' (JArr []))) []) (\<lambda>groups.
     bindE (when_version grouped (read_conflicts (jget_or d ''conflicts'' (JArr []))) []) (\<lambda>conflicts.
     bindE (when_version (version = CURRENT_STATE_VERSION)
              (read_containers (jget_or d ''container_baselines'' (JArr []))) []) (\<lambda>containers.
     bindE (when_version grouped (read_remote (jget_or d ''remote_observation'' (JObj []))) no_observation) (\<lambda>remote.
     bindE (when_version grouped (read_operation (jget d ''active_operation'')) None) (\<lambda>active.
     bindE (when_version grouped (read_error (jget d ''last_error'')) None) (\<lambda>err.
     bindE (when_version grouped (optional_filled (jget d ''last_completed_operation_id'') ''last_completed_operation_id'') None)
       (\<lambda>completed.
     bindE (when_version grouped (optional_count (jget d ''quick_sync_cursor_generation'') ''quick_sync_cursor_generation'') None)
       (\<lambda>cursor.
     Inr \<lparr>sy_device = device, sy_upload = last_upload, sy_download = last_download, sy_shared = shared,
       sy_reconcile = report, sy_groups = groups, sy_conflicts = conflicts, sy_containers = containers,
       sy_remote = remote, sy_active = active, sy_error = err, sy_completed = completed, sy_cursor = cursor,
       sy_ready = (grouped \<and> truthy (jget_or d ''quick_sync_ready'' (JBool False)))\<rparr>))))))))))))))"

definition state_from_dict :: "json \<Rightarrow> sync_error + sync_state" where
  "state_from_dict payload =
     bindE (as_mapping payload ''SaveSync state'') (\<lambda>d.
     bindE (document_version d) (\<lambda>version.
     if version \<notin> MIGRATABLE_VERSIONS \<and> version \<noteq> CURRENT_STATE_VERSION
     then fail (''SaveSync state schema version '' @ show_int version @ '' is ''
       @ (if CURRENT_STATE_VERSION < version then ''newer'' else ''unsupported'')
       @ ''; this ROMCloud build supports up to version '' @ show_int CURRENT_STATE_VERSION
       @ ''. The existing state file was not changed.'')
     else
     bindE (decode_state version d) (\<lambda>decoded.
     let s = migrate_shared version decoded in
     bindE (validate_state s) (\<lambda>_. Inr s))))"

subsection \<open>The state file\<close>

definition new_state :: "string option \<Rightarrow> string \<Rightarrow> sync_state" where
  "new_state device_id fresh =
     \<lparr>sy_device = (case device_id of Some i \<Rightarrow> (if i = [] then fresh else i) | None \<Rightarrow> fresh),
      sy_upload = None, sy_download = None, sy_shared = [], sy_reconcile = None, sy_groups = [], sy_conflicts = [],
      sy_containers = [], sy_remote = no_observation, sy_active = None, sy_error = None, sy_completed = None,
      sy_cursor = None, sy_ready = False\<rparr>"

text \<open>
  \<open>read_text\<close> raises \<open>UnicodeDecodeError\<close>, which is a \<open>ValueError\<close>, inside a handler of \<open>OSError\<close>
  only.
\<close>

definition read_state :: "string \<Rightarrow> string \<Rightarrow> disk \<Rightarrow> sync_error + sync_state" where
  "read_state fresh path d =
     (case disk_docs d path of
        None \<Rightarrow> Inr (new_state None fresh)
      | Some doc \<Rightarrow>
          (case doc_text doc of
             Unreadable \<Rightarrow> fail (''Cannot read SaveSync state '' @ path)
           | Undecodable \<Rightarrow> Inl (ValueError ''UnicodeDecodeError'')
           | Text raw \<Rightarrow>
               (case doc_json doc of
                  None \<Rightarrow> fail (''SaveSync state '' @ path @ '' is corrupt; the existing file was not changed.'')
                | Some payload \<Rightarrow>
                    (case state_from_dict payload of
                       Inl (SaveSyncError m) \<Rightarrow> fail (''Invalid SaveSync state '' @ path @ '': '' @ m)
                     | r \<Rightarrow> r))))"

definition write_state :: "string \<Rightarrow> sync_state \<Rightarrow> disk \<Rightarrow> (sync_error + unit) \<times> disk" where
  "write_state path s d =
     (case state_to_dict s of
        Inl e \<Rightarrow> (Inl e, d)
      | Inr document \<Rightarrow>
          (case atomic_write path document d of
             (None, d') \<Rightarrow> (Inr (), d')
           | (Some OSError, d') \<Rightarrow> (fail (''Cannot persist SaveSync state '' @ path), d')
           | (Some e, d') \<Rightarrow> (Inl e, d')))"

text \<open>
  The lock file beside the state; opening it for appending creates it.  What a process does between
  taking and leaving the lock is one step of the file.
\<close>

definition state_lock_path :: "string \<Rightarrow> string" where
  "state_lock_path path = join ''/'' (butlast (split_on CHR ''/'' path) @ [''.savesync.lock''])"

definition lock_state_file :: "string \<Rightarrow> disk \<Rightarrow> (sync_error + unit) \<times> disk" where
  "lock_state_file path d =
     (let lock = state_lock_path path in
      if \<not> disk_writable d lock then (Inl OSError, d)
      else (Inr (), case disk_docs d lock of
                      None \<Rightarrow> d\<lparr>disk_docs := (disk_docs d)(lock \<mapsto> \<lparr>doc_text = Text [], doc_json = None\<rparr>)\<rparr>
                    | Some _ \<Rightarrow> d))"

definition on_disk_version :: "string \<Rightarrow> doc \<Rightarrow> sync_error + int" where
  "on_disk_version path doc =
     (case (doc_text doc, doc_json doc) of
        (Text raw, Some payload) \<Rightarrow> bindE (as_mapping payload ''SaveSync state'') document_version
      | _ \<Rightarrow> fail (''SaveSync state '' @ path @ '' is corrupt; the existing file was not changed.''))"

definition load_state :: "string \<Rightarrow> string \<Rightarrow> disk \<Rightarrow> (sync_error + sync_state) \<times> disk" where
  "load_state fresh path d =
     bindS (lock_state_file path d) (\<lambda>_ d.
     bindS (case disk_docs d path of
              None \<Rightarrow> Inr None
            | Some doc \<Rightarrow> bindE (on_disk_version path doc) (\<lambda>version. Inr (Some version)), d) (\<lambda>legacy d.
     bindS (read_state fresh path d, d) (\<lambda>s d.
     if legacy = None \<or> legacy \<noteq> Some CURRENT_STATE_VERSION
     then bindS (write_state path s d) (\<lambda>_ d. (Inr s, d))
     else (Inr s, d))))"

definition save_state :: "string \<Rightarrow> string \<Rightarrow> sync_state \<Rightarrow> disk \<Rightarrow> (sync_error + unit) \<times> disk" where
  "save_state fresh path s d =
     bindS (lock_state_file path d) (\<lambda>_ d.
     bindS (case disk_docs d path of
              None \<Rightarrow> (Inr (), d)
            | Some doc \<Rightarrow>
                bindS (read_state fresh path d, d) (\<lambda>current d.
                if sy_device current \<noteq> sy_device s
                then (fail ''SaveSync state save cannot replace the durable device identity'', d)
                else (Inr (), d))) (\<lambda>_ d.
     write_state path s d))"

definition mutate_state ::
  "string \<Rightarrow> string \<Rightarrow> (sync_state \<Rightarrow> sync_error + sync_state) \<Rightarrow> disk \<Rightarrow> (sync_error + sync_state) \<times> disk" where
  "mutate_state fresh path update d =
     bindS (lock_state_file path d) (\<lambda>_ d.
     bindS (read_state fresh path d, d) (\<lambda>current d.
     bindS (update current, d) (\<lambda>updated d.
     if sy_device updated \<noteq> sy_device current
     then (fail ''SaveSync state mutation cannot change device_id'', d)
     else bindS (write_state path updated d) (\<lambda>_ d. (Inr updated, d)))))"

subsection \<open>Transitions\<close>

definition upsert_group :: "group_state list \<Rightarrow> group_state \<Rightarrow> group_state list" where
  "upsert_group groups updated =
     sort_key gr_group (filter (\<lambda>g. gr_group g \<noteq> gr_group updated) groups @ [updated])"

text \<open>\<open>tuple(sorted(set(paths)))\<close>\<close>

definition sorted_set :: "string list \<Rightarrow> string list" where
  "sorted_set xs = sort (remdups xs)"

definition mark_dirty ::
  "sync_state \<Rightarrow> string \<Rightarrow> string \<Rightarrow> string list \<Rightarrow> condition \<Rightarrow> sync_error + sync_state" where
  "mark_dirty s gid layout paths side =
     bindE (filled_text (JStr gid) ''group_id'') (\<lambda>_.
     bindE (filled_text (JStr layout) ''layout_id'') (\<lambda>_.
     bindE (mapE (\<lambda>p. canonical_rel (JStr p) ''dirty path'') paths) (\<lambda>canonical.
     let hints = sorted_set canonical in
     (case find (\<lambda>g. gr_group g = gid) (sy_groups s) of
        None \<Rightarrow>
          Inr (s\<lparr>sy_groups := upsert_group (sy_groups s)
            \<lparr>gr_group = gid, gr_layout = layout, gr_condition = side, gr_baseline = None, gr_local = None,
             gr_remote = None, gr_hints = hints, gr_verified = None\<rparr>\<rparr>)
      | Some existing \<Rightarrow>
          if gr_layout existing \<noteq> layout
          then fail (''SaveSync group '' @ repr_str gid @ '' belongs to layout '' @ repr_str (gr_layout existing)
                 @ '', not '' @ repr_str layout)
          else
            let opposite = (if side = LOCAL_DIRTY then REMOTE_DIRTY else LOCAL_DIRTY);
                condition = (if gr_condition existing \<in> {opposite, CONFLICTED} then CONFLICTED else side)
            in Inr (s\<lparr>sy_groups := upsert_group (sy_groups s)
                 (existing\<lparr>gr_condition := condition, gr_hints := sorted_set (gr_hints existing @ hints),
                           gr_verified := None\<rparr>)\<rparr>)))))"

definition mark_local_dirty :: "sync_state \<Rightarrow> string \<Rightarrow> string \<Rightarrow> string list \<Rightarrow> sync_error + sync_state" where
  "mark_local_dirty s gid layout paths = mark_dirty s gid layout paths LOCAL_DIRTY"

definition mark_remote_dirty :: "sync_state \<Rightarrow> string \<Rightarrow> string \<Rightarrow> string list \<Rightarrow> sync_error + sync_state" where
  "mark_remote_dirty s gid layout paths = mark_dirty s gid layout paths REMOTE_DIRTY"

text \<open>\<open>value or other\<close> of a text that may be \<open>None\<close>\<close>

definition text_or :: "string option \<Rightarrow> string \<Rightarrow> string" where
  "text_or v other = (case v of Some t \<Rightarrow> (if t = [] then other else t) | None \<Rightarrow> other)"

text \<open>
  The loop of the two receipts: the record with the identifier is changed unless it is resolved,
  and one record at least must have the identifier.
\<close>

definition conflict_receipt ::
  "string \<Rightarrow> (conflict_record \<Rightarrow> conflict_record) \<Rightarrow> conflict_record \<Rightarrow> bool \<times> conflict_record list
     \<Rightarrow> sync_error + bool \<times> conflict_record list" where
  "conflict_receipt conflict_id f c = (\<lambda>(found, conflicts).
     if cr_id c \<noteq> conflict_id then Inr (found, conflicts @ [c])
     else if resolved c then fail (''SaveSync conflict '' @ conflict_id @ '' is already resolved'')
     else Inr (True, conflicts @ [f c]))"

definition acknowledge_conflict :: "string \<Rightarrow> sync_state \<Rightarrow> string \<Rightarrow> string option \<Rightarrow> sync_error + sync_state" where
  "acknowledge_conflict now s conflict_id acknowledged_at =
     (let timestamp = text_or acknowledged_at now in
     bindE (filled_text (JStr timestamp) ''acknowledged_at'') (\<lambda>_.
     bindE (foldE (conflict_receipt conflict_id (cr_acknowledged_update (\<lambda>_. Some timestamp))) (sy_conflicts s) (False, []))
       (\<lambda>(found, conflicts).
     if \<not> found then fail (''Unknown SaveSync conflict: '' @ conflict_id)
     else Inr (s\<lparr>sy_conflicts := conflicts\<rparr>))))"

definition resolve_conflict ::
  "string \<Rightarrow> sync_state \<Rightarrow> string \<Rightarrow> resolution \<Rightarrow> string \<Rightarrow> string option \<Rightarrow> sync_error + sync_state" where
  "resolve_conflict now s conflict_id resolution revision resolved_at =
     (let timestamp = text_or resolved_at now in
     bindE (filled_text (JStr revision) ''resolution_revision'') (\<lambda>_.
     bindE (foldE (conflict_receipt conflict_id (\<lambda>c. c\<lparr>cr_resolved := Some timestamp, cr_resolution := Some resolution,
                     cr_revision := Some revision\<rparr>)) (sy_conflicts s) (False, [])) (\<lambda>(found, conflicts).
     if \<not> found then fail (''Unknown SaveSync conflict: '' @ conflict_id)
     else Inr (s\<lparr>sy_conflicts := conflicts\<rparr>))))"

definition observed_conflict ::
  "sync_state \<Rightarrow> string \<Rightarrow> string \<Rightarrow> string \<Rightarrow> group_snapshot option \<Rightarrow> group_snapshot \<Rightarrow> group_snapshot \<Rightarrow> string
     \<Rightarrow> conflict_record" where
  "observed_conflict s conflict_id gid layout baseline local remote timestamp =
     (case find (\<lambda>c. cr_id c = conflict_id \<and> \<not> resolved c) (sy_conflicts s) of
        Some existing \<Rightarrow>
          existing\<lparr>cr_last_seen := timestamp, cr_baseline := baseline, cr_local := local, cr_remote := remote\<rparr>
      | None \<Rightarrow>
          \<lparr>cr_id = conflict_id, cr_group = gid, cr_layout = layout, cr_detected = timestamp, cr_last_seen = timestamp,
           cr_baseline = baseline, cr_local = local, cr_remote = remote, cr_acknowledged = None, cr_resolved = None,
           cr_resolution = None, cr_revision = None\<rparr>)"

definition supersede :: "string \<Rightarrow> string \<Rightarrow> string \<Rightarrow> conflict_record \<Rightarrow> conflict_record" where
  "supersede gid conflict_id timestamp c =
     (if cr_group c = gid \<and> \<not> resolved c \<and> cr_id c \<noteq> conflict_id
      then c\<lparr>cr_resolved := Some (text_or (cr_resolved c) timestamp),
             cr_resolution := Some (case cr_resolution c of Some r \<Rightarrow> r | None \<Rightarrow> MANUAL),
             cr_revision := Some (text_or (cr_revision c) (''superseded:'' @ conflict_id))\<rparr>
      else c)"

definition record_conflict ::
  "string \<Rightarrow> sync_state \<Rightarrow> string \<Rightarrow> string \<Rightarrow> group_snapshot option \<Rightarrow> group_snapshot \<Rightarrow> group_snapshot
     \<Rightarrow> string option \<Rightarrow> sync_error + sync_state" where
  "record_conflict now s gid layout baseline local remote observed_at =
     (let timestamp = text_or observed_at now in
     bindE (conflict_id_for gid layout baseline local remote) (\<lambda>conflict_id.
     let conflict = observed_conflict s conflict_id gid layout baseline local remote timestamp;
         superseded = map (supersede gid conflict_id timestamp)
           (filter (\<lambda>c. cr_id c \<noteq> conflict_id) (sy_conflicts s));
         groups = upsert_group (sy_groups s)
           \<lparr>gr_group = gid, gr_layout = layout, gr_condition = CONFLICTED, gr_baseline = baseline,
            gr_local = Some local, gr_remote = Some remote, gr_hints = [], gr_verified = None\<rparr>
     in Inr (s\<lparr>sy_groups := groups, sy_conflicts := sort_key cr_id (superseded @ [conflict])\<rparr>)))"

subsection \<open>The store\<close>

text \<open>\<open>SaveSyncStateStore\<close> is its path.\<close>

definition store_update ::
  "string \<Rightarrow> string \<Rightarrow> (sync_state \<Rightarrow> sync_error + sync_state) \<Rightarrow> disk \<Rightarrow> (sync_error + sync_state) \<times> disk" where
  "store_update fresh path transition d = mutate_state fresh path transition d"

definition store_mark_local_dirty ::
  "string \<Rightarrow> string \<Rightarrow> string \<Rightarrow> string \<Rightarrow> string list \<Rightarrow> disk \<Rightarrow> (sync_error + sync_state) \<times> disk" where
  "store_mark_local_dirty fresh path gid layout paths d =
     store_update fresh path (\<lambda>s. mark_local_dirty s gid layout paths) d"

definition store_mark_remote_dirty ::
  "string \<Rightarrow> string \<Rightarrow> string \<Rightarrow> string \<Rightarrow> string list \<Rightarrow> disk \<Rightarrow> (sync_error + sync_state) \<times> disk" where
  "store_mark_remote_dirty fresh path gid layout paths d =
     store_update fresh path (\<lambda>s. mark_remote_dirty s gid layout paths) d"

definition store_acknowledge_conflict ::
  "string \<Rightarrow> string \<Rightarrow> string \<Rightarrow> string \<Rightarrow> string option \<Rightarrow> disk \<Rightarrow> (sync_error + sync_state) \<times> disk" where
  "store_acknowledge_conflict now fresh path conflict_id acknowledged_at d =
     store_update fresh path (\<lambda>s. acknowledge_conflict now s conflict_id acknowledged_at) d"

end
