(* ===== verification/StateDocument.thy ===== *)
theory StateDocument
  imports SaveState "HOL-Library.Multiset"
begin

text \<open>
  The document of the local SaveSync state: what its validation accepts, that the document of a valid
  state reads back as that state in order, and that whatever is read is valid and in order.
\<close>

subsection \<open>What the checks accept\<close>

named_theorems accepts "when a check or a reader returns"

lemma any_text_iff [accepts]: "any_text v l = Inr s \<longleftrightarrow> v = JStr s"
  by (auto simp: any_text_def split: json.splits)

lemma filled_text_iff [accepts]: "filled_text v l = Inr s \<longleftrightarrow> v = JStr s \<and> strip s \<noteq> []"
  by (auto simp: filled_text_def bindE_eq_Inr any_text_iff)

lemma optional_filled_iff [accepts]: "optional_filled v l = Inr s \<longleftrightarrow> v = opt_json s \<and> nonblank_opt s"
  by (auto simp: optional_filled_def opt_json_def nonblank_opt_def bindE_eq_Inr filled_text_iff split: option.splits)

lemma count_value_iff [accepts]: "count_value v l = Inr i \<longleftrightarrow> v = JInt i \<and> 0 \<le> i"
  by (auto simp: count_value_def split: json.splits)

lemma optional_count_iff [accepts]:
  "optional_count v l = Inr n \<longleftrightarrow> v = null_or JInt n \<and> (\<forall>i. n = Some i \<longrightarrow> 0 \<le> i)"
  by (auto simp: optional_count_def null_or_def bindE_eq_Inr count_value_iff split: option.splits)

lemma int_value_iff [accepts]: "int_value v m = Inr i \<longleftrightarrow> v = JInt i"
  by (auto simp: int_value_def split: json.splits)

lemma as_mapping_iff [accepts]: "as_mapping v l = Inr d \<longleftrightarrow> v = JObj d"
  by (auto simp: as_mapping_def split: json.splits)

lemma as_array_iff [accepts]: "as_array v l = Inr xs \<longleftrightarrow> v = JArr xs"
  by (auto simp: as_array_def split: json.splits)

definition rel_ok :: "string \<Rightarrow> bool" where
  "rel_ok p \<longleftrightarrow> strip p \<noteq> [] \<and> CHR 0x5C \<notin> set p \<and> \<not> startswith p ''/''
     \<and> ''..'' \<notin> set (path_parts p) \<and> as_posix p = p"

lemma no_dot_parts: "\<not> startswith p ''/'' \<Longrightarrow> '''' \<notin> set (path_parts p) \<and> ''.'' \<notin> set (path_parts p)"
  by (auto simp: path_parts_def is_absolute_def tail_parts_def)

lemma canonical_rel_iff [accepts]: "canonical_rel v l = Inr p \<longleftrightarrow> v = JStr p \<and> rel_ok p"
  by (auto simp: canonical_rel_def rel_ok_def bindE_eq_Inr accepts dest: no_dot_parts)

lemma check_opt_iff [accepts]: "check_opt f v = Inr u \<longleftrightarrow> (\<forall>x. v = Some x \<longrightarrow> (\<exists>y. f x = Inr y))"
  by (auto simp: check_opt_def bindE_eq_Inr split: option.splits)

lemma check_each_iff [accepts]: "check_each f xs = Inr u \<longleftrightarrow> (\<forall>x \<in> set xs. \<exists>y. f x = Inr y)"
proof -
  have "(\<exists>ys. mapE f xs = Inr ys) \<longleftrightarrow> (\<forall>x \<in> set xs. \<exists>y. f x = Inr y)"
    by (induction xs) (auto simp: bindE_eq_Inr)
  then show ?thesis by (simp add: check_each_def bindE_eq_Inr)
qed

lemma nonblank_opt_iff: "nonblank_opt v \<longleftrightarrow> (\<forall>t. v = Some t \<longrightarrow> strip t \<noteq> [])"
  by (auto simp: nonblank_opt_def split: option.splits)

definition artifact_ok :: "save_artifact \<Rightarrow> bool" where
  "artifact_ok a \<longleftrightarrow> rel_ok (art_path a) \<and> 0 \<le> art_size a \<and> is_digest (art_hash a)"

definition artifacts_ok :: "save_artifact list \<Rightarrow> bool" where
  "artifacts_ok as \<longleftrightarrow> distinct (map art_path as) \<and> (\<forall>a \<in> set as. artifact_ok a)"

lemma artifact_check_iff [accepts]:
  "artifact_check l a seen = Inr t \<longleftrightarrow> artifact_ok a \<and> art_path a \<notin> seen \<and> t = insert (art_path a) seen"
  by (auto simp: artifact_check_def artifact_ok_def bindE_eq_Inr accepts)

lemma foldE_artifacts:
  "foldE (artifact_check l) as seen = Inr t \<longleftrightarrow>
     artifacts_ok as \<and> art_path ` set as \<inter> seen = {} \<and> t = seen \<union> art_path ` set as"
  by (induction as arbitrary: seen) (auto simp: artifacts_ok_def bindE_eq_Inr accepts)

lemma validate_artifacts_iff [accepts]: "validate_artifacts as l = Inr u \<longleftrightarrow> artifacts_ok as"
  by (simp add: validate_artifacts_def bindE_eq_Inr foldE_artifacts)

definition snapshot_ok :: "group_snapshot \<Rightarrow> bool" where
  "snapshot_ok s \<longleftrightarrow> strip (gs_group s) \<noteq> [] \<and> strip (gs_layout s) \<noteq> [] \<and> artifacts_ok (gs_artifacts s)
     \<and> nonblank_opt (gs_observed s)"

definition snapshot_of_group :: "string \<Rightarrow> string \<Rightarrow> group_snapshot \<Rightarrow> bool" where
  "snapshot_of_group gid layout s \<longleftrightarrow> snapshot_ok s \<and> gs_group s = gid \<and> gs_layout s = layout"

lemma validate_snapshot_iff [accepts]:
  "validate_snapshot s l gid layout = Inr u \<longleftrightarrow>
     snapshot_ok s \<and> (gid = None \<or> gid = Some (gs_group s)) \<and> (layout = None \<or> layout = Some (gs_layout s))"
  by (auto simp: validate_snapshot_def snapshot_ok_def bindE_eq_Inr accepts nonblank_opt_iff)

lemma validate_snapshot_group:
  "validate_snapshot s l (Some gid) (Some layout) = Inr u \<longleftrightarrow> snapshot_of_group gid layout s"
  by (auto simp: accepts snapshot_of_group_def)

definition opt_all :: "('a \<Rightarrow> bool) \<Rightarrow> 'a option \<Rightarrow> bool" where
  "opt_all P v \<longleftrightarrow> (\<forall>x. v = Some x \<longrightarrow> P x)"

lemma opt_all_simps [simp]: "opt_all P None" "opt_all P (Some x) \<longleftrightarrow> P x"
  by (simp_all add: opt_all_def)

definition group_ok :: "group_state \<Rightarrow> bool" where
  "group_ok g \<longleftrightarrow> strip (gr_group g) \<noteq> [] \<and> strip (gr_layout g) \<noteq> []
     \<and> opt_all (snapshot_of_group (gr_group g) (gr_layout g)) (gr_baseline g)
     \<and> opt_all (snapshot_of_group (gr_group g) (gr_layout g)) (gr_local g)
     \<and> opt_all (snapshot_of_group (gr_group g) (gr_layout g)) (gr_remote g)
     \<and> (\<forall>p \<in> set (gr_hints g). rel_ok p) \<and> distinct (gr_hints g) \<and> nonblank_opt (gr_verified g)"

lemma validate_group_iff [accepts]: "validate_group g = Inr u \<longleftrightarrow> group_ok g"
  by (auto simp: validate_group_def group_ok_def Let_def bindE_eq_Inr check_opt_iff check_each_iff
      filled_text_iff canonical_rel_iff validate_snapshot_group opt_all_def nonblank_opt_iff if_Inl_Inr)

definition entry_ok :: "logical_entry \<Rightarrow> bool" where
  "entry_ok e \<longleftrightarrow> strip (le_identity e) \<noteq> [] \<and> 0 \<le> le_size e \<and> is_digest (le_hash e)"

definition container_ok :: "container_baseline \<Rightarrow> bool" where
  "container_ok b \<longleftrightarrow> rel_ok (cb_container_id b) \<and> strip (cb_adapter_id b) \<noteq> [] \<and> 0 < cb_schema_version b
     \<and> strip (cb_format_variant b) \<noteq> [] \<and> distinct (map ld_id (cb_domains b))
     \<and> (\<forall>d \<in> set (cb_domains b). strip (ld_id d) \<noteq> [])
     \<and> (\<forall>d \<in> set (cb_domains b). \<forall>e \<in> set (ld_entries d). entry_ok e)
     \<and> distinct (concat (map (\<lambda>d. map le_identity (ld_entries d)) (cb_domains b)))
     \<and> distinct (cb_tombstones b) \<and> (\<forall>t \<in> set (cb_tombstones b). strip t \<noteq> [])
     \<and> ld_id ` set (cb_domains b) \<inter> set (cb_tombstones b) = {}"

lemma foldE_entries:
  assumes "locals \<subseteq> seen"
  shows "foldE entry_check es (locals, seen) = Inr t \<longleftrightarrow>
     (\<forall>e \<in> set es. entry_ok e) \<and> distinct (map le_identity es) \<and> le_identity ` set es \<inter> seen = {}
     \<and> t = (locals \<union> le_identity ` set es, seen \<union> le_identity ` set es)"
  using assms
proof (induction es arbitrary: locals seen)
  case (Cons e es)
  have step: "entry_check e (locals, seen) = Inr w \<longleftrightarrow>
      entry_ok e \<and> le_identity e \<notin> seen \<and> w = (insert (le_identity e) locals, insert (le_identity e) seen)" for w
    using Cons.prems by (auto simp: entry_check_def entry_ok_def bindE_eq_Inr accepts)
  have "insert (le_identity e) locals \<subseteq> insert (le_identity e) seen"
    using Cons.prems by auto
  from Cons.IH [OF this] show ?case by (auto simp: bindE_eq_Inr step)
qed auto

definition entry_names :: "logical_domain \<Rightarrow> string set" where
  "entry_names d = le_identity ` set (ld_entries d)"

lemma foldE_domains:
  "foldE domain_check ds (ids, seen) = Inr t \<longleftrightarrow>
     (\<forall>d \<in> set ds. strip (ld_id d) \<noteq> [] \<and> (\<forall>e \<in> set (ld_entries d). entry_ok e))
     \<and> distinct (map ld_id ds) \<and> ld_id ` set ds \<inter> ids = {}
     \<and> distinct (concat (map (\<lambda>d. map le_identity (ld_entries d)) ds))
     \<and> \<Union> (entry_names ` set ds) \<inter> seen = {}
     \<and> t = (ids \<union> ld_id ` set ds, seen \<union> \<Union> (entry_names ` set ds))"
proof (induction ds arbitrary: ids seen)
  case (Cons d ds)
  have step: "domain_check d (ids, seen) = Inr w \<longleftrightarrow>
      strip (ld_id d) \<noteq> [] \<and> ld_id d \<notin> ids \<and> (\<forall>e \<in> set (ld_entries d). entry_ok e)
      \<and> distinct (map le_identity (ld_entries d)) \<and> entry_names d \<inter> seen = {}
      \<and> w = (insert (ld_id d) ids, seen \<union> entry_names d)" for w
    by (auto simp: domain_check_def bindE_eq_Inr filled_text_iff foldE_entries entry_names_def)
  have names: "set (map le_identity (ld_entries d)) = entry_names d" for d
    by (simp add: entry_names_def)
  have all: "set (concat (map (\<lambda>d. map le_identity (ld_entries d)) ds)) = \<Union> (entry_names ` set ds)"
    by (simp add: entry_names_def)
  have one: "foldE domain_check (d # ds) (ids, seen) = Inr t \<longleftrightarrow>
      strip (ld_id d) \<noteq> [] \<and> ld_id d \<notin> ids \<and> (\<forall>e \<in> set (ld_entries d). entry_ok e)
      \<and> distinct (map le_identity (ld_entries d)) \<and> entry_names d \<inter> seen = {}
      \<and> foldE domain_check ds (insert (ld_id d) ids, seen \<union> entry_names d) = Inr t"
    by (auto simp: bindE_eq_Inr step)
  have more: "distinct (concat (map (\<lambda>d. map le_identity (ld_entries d)) (d # ds))) \<longleftrightarrow>
      distinct (map le_identity (ld_entries d))
      \<and> distinct (concat (map (\<lambda>d. map le_identity (ld_entries d)) ds))
      \<and> entry_names d \<inter> \<Union> (entry_names ` set ds) = {}"
    by (simp only: list.map concat.simps distinct_append names all)
  show ?case
    unfolding one Cons.IH more by auto
qed auto

lemma validate_container_iff [accepts]: "validate_container b = Inr u \<longleftrightarrow> container_ok b"
  by (auto simp: validate_container_def container_ok_def bindE_eq_Inr canonical_rel_iff filled_text_iff check_each_iff
      foldE_domains if_Inl_Inr)

definition evidence_id :: "conflict_record \<Rightarrow> string" where
  "evidence_id c = sha256_hex (utf8 (compact_json
     (conflict_content (cr_group c) (cr_layout c) (cr_baseline c) (cr_local c) (cr_remote c))))"

definition sides_ok :: "string \<Rightarrow> string \<Rightarrow> group_snapshot option \<Rightarrow> group_snapshot \<Rightarrow> group_snapshot \<Rightarrow> bool" where
  "sides_ok gid layout baseline local remote \<longleftrightarrow> opt_all (snapshot_of_group gid layout) baseline
     \<and> snapshot_of_group gid layout local \<and> snapshot_of_group gid layout remote"

lemma conflict_id_for_iff [accepts]:
  "conflict_id_for gid layout baseline local remote = Inr i \<longleftrightarrow>
     strip gid \<noteq> [] \<and> strip layout \<noteq> [] \<and> sides_ok gid layout baseline local remote
     \<and> i = sha256_hex (utf8 (compact_json (conflict_content gid layout baseline local remote)))"
  by (auto simp: conflict_id_for_def sides_ok_def bindE_eq_Inr check_opt_iff filled_text_iff validate_snapshot_group opt_all_def)

definition conflict_ok :: "conflict_record \<Rightarrow> bool" where
  "conflict_ok c \<longleftrightarrow> strip (cr_id c) \<noteq> [] \<and> strip (cr_group c) \<noteq> [] \<and> strip (cr_layout c) \<noteq> []
     \<and> strip (cr_detected c) \<noteq> [] \<and> strip (cr_last_seen c) \<noteq> [] \<and> nonblank_opt (cr_acknowledged c)
     \<and> sides_ok (cr_group c) (cr_layout c) (cr_baseline c) (cr_local c) (cr_remote c)
     \<and> (cr_resolved c = None \<longleftrightarrow> cr_resolution c = None) \<and> (cr_resolved c = None \<longleftrightarrow> cr_revision c = None)
     \<and> cr_id c = evidence_id c"

lemma validate_conflict_iff [accepts]: "validate_conflict c = Inr u \<longleftrightarrow> conflict_ok c"
  unfolding validate_conflict_def Let_def bindE_eq_Inr check_opt_iff filled_text_iff validate_snapshot_group
    conflict_id_for_iff if_Inl_Inr conflict_ok_def evidence_id_def sides_ok_def opt_all_def nonblank_opt_iff
  by auto

definition record_ok :: "sync_record \<Rightarrow> bool" where
  "record_ok r \<longleftrightarrow> strip (sr_revision r) \<noteq> [] \<and> strip (sr_timestamp r) \<noteq> [] \<and> strip (sr_device r) \<noteq> []
     \<and> artifacts_ok (sr_manifest r)"

lemma validate_record_iff [accepts]: "validate_record r l = Inr u \<longleftrightarrow> record_ok r"
  by (auto simp: validate_record_def record_ok_def bindE_eq_Inr accepts)

definition report_ok :: "reconcile_report \<Rightarrow> bool" where
  "report_ok r \<longleftrightarrow> strip (rr_revision r) \<noteq> [] \<and> strip (rr_timestamp r) \<noteq> [] \<and> strip (rr_scope r) \<noteq> []
     \<and> 0 \<le> rr_uploaded r \<and> 0 \<le> rr_downloaded r \<and> 0 \<le> rr_conflicts r \<and> 0 \<le> rr_unchanged r
     \<and> 0 \<le> rr_upload_bytes r \<and> 0 \<le> rr_download_bytes r \<and> (\<forall>p \<in> set (rr_conflict_paths r). rel_ok p)"

lemma validate_report_iff [accepts]: "validate_report r = Inr u \<longleftrightarrow> report_ok r"
  by (auto simp: validate_report_def report_ok_def report_counts_def bindE_eq_Inr accepts if_Inl_Inr)

lemma validate_remote_iff [accepts]: "validate_remote obs = Inr u \<longleftrightarrow> nonblank_opt (ro_checked obs)"
  by (auto simp: validate_remote_def accepts nonblank_opt_iff)

definition operation_ok :: "active_operation \<Rightarrow> bool" where
  "operation_ok act \<longleftrightarrow> strip (ao_id act) \<noteq> [] \<and> strip (ao_direction act) \<noteq> [] \<and> strip (ao_phase act) \<noteq> []
     \<and> strip (ao_started act) \<noteq> [] \<and> distinct (ao_groups act) \<and> (\<forall>g \<in> set (ao_groups act). strip g \<noteq> [])"

lemma validate_operation_iff [accepts]: "validate_operation act = Inr u \<longleftrightarrow> operation_ok act"
  by (auto simp: validate_operation_def operation_ok_def bindE_eq_Inr accepts if_Inl_Inr)

definition error_ok :: "last_error \<Rightarrow> bool" where
  "error_ok e \<longleftrightarrow> strip (er_code e) \<noteq> [] \<and> strip (er_message e) \<noteq> [] \<and> strip (er_occurred e) \<noteq> []
     \<and> nonblank_opt (er_operation e)"

lemma validate_error_iff [accepts]: "validate_error e = Inr u \<longleftrightarrow> error_ok e"
  by (auto simp: validate_error_def error_ok_def bindE_eq_Inr accepts nonblank_opt_iff)

text \<open>An unresolved conflict keeps the group it names in the state \<open>CONFLICTED\<close>.\<close>

definition backed_by :: "group_state list \<Rightarrow> conflict_record \<Rightarrow> bool" where
  "backed_by gs c \<longleftrightarrow>
     (\<exists>g \<in> set gs. gr_group g = cr_group c \<and> gr_layout g = cr_layout c \<and> gr_condition g = CONFLICTED)"

definition groups_ok :: "group_state list \<Rightarrow> bool" where
  "groups_ok gs \<longleftrightarrow> (\<forall>g \<in> set gs. group_ok g) \<and> distinct (map gr_group gs)"

definition conflicts_ok :: "group_state list \<Rightarrow> conflict_record list \<Rightarrow> bool" where
  "conflicts_ok gs cs \<longleftrightarrow> (\<forall>c \<in> set cs. conflict_ok c) \<and> distinct (map cr_id cs)
     \<and> (\<forall>c \<in> set cs. \<not> resolved c \<longrightarrow> backed_by gs c)"

definition containers_ok :: "container_baseline list \<Rightarrow> bool" where
  "containers_ok bs \<longleftrightarrow> (\<forall>b \<in> set bs. container_ok b) \<and> distinct (map cb_container_id bs)"

definition keyed_groups :: "group_state list \<Rightarrow> (string, group_state) dict" where
  "keyed_groups gs = map (\<lambda>g. (gr_group g, g)) gs"

lemma foldE_groups:
  assumes "distinct (map gr_group done)"
  shows "foldE group_step gs (keyed_groups done) = Inr t \<longleftrightarrow>
     (\<forall>g \<in> set gs. group_ok g) \<and> distinct (map gr_group (done @ gs)) \<and> t = keyed_groups (done @ gs)"
  using assms
proof (induction gs arbitrary: "done")
  case (Cons g gs)
  have step: "group_step g (keyed_groups done) = Inr w \<longleftrightarrow>
      group_ok g \<and> gr_group g \<notin> gr_group ` set done \<and> w = keyed_groups (done @ [g])" for w
    by (auto simp: group_step_def keyed_groups_def bindE_eq_Inr accepts if_Inl_Inr image_image update_fresh)
  show ?case
  proof (cases "gr_group g \<in> gr_group ` set done")
    case False
    with Cons.prems Cons.IH [of "done @ [g]"] show ?thesis by (auto simp: bindE_eq_Inr step)
  qed (auto simp: bindE_eq_Inr step)
qed auto

lemma map_of_keyed_groups:
  "distinct (map gr_group gs) \<Longrightarrow> map_of (keyed_groups gs) i = Some g \<longleftrightarrow> g \<in> set gs \<and> gr_group g = i"
  by (auto simp: keyed_groups_def comp_def)

lemma conflict_step_iff:
  assumes "distinct (map gr_group gs)"
  shows "conflict_step (keyed_groups gs) c seen = Inr t \<longleftrightarrow>
    conflict_ok c \<and> cr_id c \<notin> seen \<and> (resolved c \<or> backed_by gs c) \<and> t = insert (cr_id c) seen"
proof (cases "map_of (keyed_groups gs) (cr_group c)")
  case None
  then have "\<not> backed_by gs c"
    by (auto simp: backed_by_def keyed_groups_def map_of_eq_None_iff image_image) (metis imageI)
  with None show ?thesis by (auto simp: conflict_step_def bindE_eq_Inr accepts if_Inl_Inr)
next
  case (Some g)
  with assms have g: "g \<in> set gs" "gr_group g = cr_group c" by (auto simp: map_of_keyed_groups)
  with assms have "backed_by gs c \<longleftrightarrow> gr_layout g = cr_layout c \<and> gr_condition g = CONFLICTED"
    by (auto simp: backed_by_def distinct_map dest: inj_onD [where y = g])
  with Some show ?thesis by (auto simp: conflict_step_def bindE_eq_Inr accepts if_Inl_Inr)
qed

lemma foldE_conflicts:
  assumes "distinct (map gr_group gs)"
  shows "foldE (conflict_step (keyed_groups gs)) cs seen = Inr t \<longleftrightarrow>
     conflicts_ok gs cs \<and> cr_id ` set cs \<inter> seen = {} \<and> t = seen \<union> cr_id ` set cs"
proof (induction cs arbitrary: seen)
  case (Cons c cs)
  show ?case by (auto simp: bindE_eq_Inr conflict_step_iff [OF assms] Cons.IH conflicts_ok_def)
qed (auto simp: conflicts_ok_def)

lemma foldE_containers:
  "foldE container_step bs seen = Inr t \<longleftrightarrow>
     containers_ok bs \<and> cb_container_id ` set bs \<inter> seen = {} \<and> t = seen \<union> cb_container_id ` set bs"
proof (induction bs arbitrary: seen)
  case (Cons b bs)
  have step: "container_step b seen = Inr w \<longleftrightarrow>
      container_ok b \<and> cb_container_id b \<notin> seen \<and> w = insert (cb_container_id b) seen" for w
    by (auto simp: container_step_def bindE_eq_Inr accepts if_Inl_Inr)
  show ?case by (auto simp: bindE_eq_Inr step Cons.IH containers_ok_def)
qed (auto simp: containers_ok_def)

definition state_ok :: "sync_state \<Rightarrow> bool" where
  "state_ok s \<longleftrightarrow> strip (sy_device s) \<noteq> [] \<and> opt_all record_ok (sy_upload s) \<and> opt_all record_ok (sy_download s)
     \<and> artifacts_ok (sy_shared s) \<and> opt_all report_ok (sy_reconcile s) \<and> groups_ok (sy_groups s)
     \<and> conflicts_ok (sy_groups s) (sy_conflicts s) \<and> containers_ok (sy_containers s)
     \<and> nonblank_opt (ro_checked (sy_remote s)) \<and> opt_all operation_ok (sy_active s) \<and> opt_all error_ok (sy_error s)
     \<and> nonblank_opt (sy_completed s) \<and> opt_all (\<lambda>i. 0 \<le> i) (sy_cursor s)
     \<and> \<not> (sy_active s \<noteq> None \<and> map_option ao_id (sy_active s) = sy_completed s)"

lemma validate_state_iff: "validate_state s = Inr u \<longleftrightarrow> state_ok s"
proof -
  have groups: "foldE group_step (sy_groups s) [] = Inr t \<longleftrightarrow> groups_ok (sy_groups s) \<and> t = keyed_groups (sy_groups s)" for t
    using foldE_groups [of "[]" "sy_groups s" t] by (simp add: keyed_groups_def groups_ok_def)
  have conflicts: "foldE (conflict_step (keyed_groups (sy_groups s))) (sy_conflicts s) {} = Inr t \<longleftrightarrow>
      conflicts_ok (sy_groups s) (sy_conflicts s) \<and> t = cr_id ` set (sy_conflicts s)" if "groups_ok (sy_groups s)" for t
    using that by (simp add: foldE_conflicts groups_ok_def)
  show ?thesis
    by (auto simp: validate_state_def state_ok_def bindE_eq_Inr accepts groups conflicts foldE_containers if_Inl_Inr opt_all_def
        nonblank_opt_iff)
qed

subsection \<open>The document of a state reads back\<close>

lemma jget_or_sort_key: "distinct (map fst d) \<Longrightarrow> jget_or (sort_key fst d) k v = jget_or d k v"
  by (simp add: jget_or_def map_of_sort_key_fst)

lemma jget_or_Cons [simp]: "jget_or ((k, v) # d) k' w = (if k' = k then v else jget_or d k' w)"
  by (simp add: jget_or_def)

lemma reads [simp]:
  "strip s \<noteq> [] \<Longrightarrow> filled_text (JStr s) l = Inr s"
  "any_text (JStr s) l = Inr s"
  "nonblank_opt v \<Longrightarrow> optional_filled (opt_json v) l = Inr v"
  "0 \<le> i \<Longrightarrow> count_value (JInt i) l = Inr i"
  "opt_all (\<lambda>i. 0 \<le> i) n \<Longrightarrow> optional_count (null_or JInt n) l = Inr n"
  "int_value (JInt i) l = Inr i"
  "as_mapping (JObj d) l = Inr d"
  "as_array (JArr xs) l = Inr xs"
  "rel_ok p \<Longrightarrow> canonical_rel (JStr p) l = Inr p"
  by (simp_all add: accepts opt_all_def)

lemma validates [simp]:
  "artifacts_ok as \<Longrightarrow> validate_artifacts as l = Inr ()"
  "snapshot_ok s \<Longrightarrow> validate_snapshot s l None None = Inr ()"
  "group_ok g \<Longrightarrow> validate_group g = Inr ()"
  "container_ok b \<Longrightarrow> validate_container b = Inr ()"
  "conflict_ok c \<Longrightarrow> validate_conflict c = Inr ()"
  "record_ok r \<Longrightarrow> validate_record r l = Inr ()"
  "report_ok rr \<Longrightarrow> validate_report rr = Inr ()"
  "nonblank_opt (ro_checked obs) \<Longrightarrow> validate_remote obs = Inr ()"
  "operation_ok act \<Longrightarrow> validate_operation act = Inr ()"
  "error_ok e \<Longrightarrow> validate_error e = Inr ()"
  "state_ok st \<Longrightarrow> validate_state st = Inr ()"
  by (simp_all add: accepts validate_state_iff)

lemma rel_ok_filled [simp]: "rel_ok p \<Longrightarrow> strip p \<noteq> []"
  by (simp add: rel_ok_def)

lemma digest_filled [simp]:
  assumes "is_digest h"
  shows "strip h \<noteq> []"
proof (rule strip_hd_ne)
  have "length h = 64" and chars: "\<And>c. c \<in> set h \<Longrightarrow> c \<in> set ''0123456789abcdefABCDEF''"
    using assms unfolding is_digest_def by blast+
  then show "h \<noteq> []" by fastforce
  then have "hd h \<in> set ''0123456789abcdefABCDEF''" by (intro chars hd_in_set)
  moreover have "list_all (\<lambda>c. \<not> is_space c) ''0123456789abcdefABCDEF''" by code_simp
  ultimately show "\<not> is_space (hd h)" unfolding list_all_iff by blast
qed

lemma decode_items_map:
  assumes "\<And>x l. x \<in> set xs \<Longrightarrow> f (g x) l = Inr (h x)"
  shows "decode_items f (JArr (map g xs)) l = Inr (map h xs)"
proof -
  have "mapE (\<lambda>(i, x). f x (indexed l i)) (enumerate n (map g xs)) = Inr (map h xs)" for n
    using assms by (induction xs arbitrary: n) auto
  then show ?thesis by (simp add: decode_items_def)
qed

lemma decode_texts_map:
  assumes "\<And>x l. x \<in> set xs \<Longrightarrow> f (JStr x) l = Inr x"
  shows "decode_texts f (text_list xs) l = Inr xs"
  using assms by (simp add: decode_texts_def text_list_def mapE_map mapE_Inr_all [where g = "\<lambda>x. x"])

lemma sort_text_list [simp]: "sort_json (text_list xs) = text_list xs"
  by (simp add: text_list_def comp_def)

lemma sort_null_or [simp]: "sort_json (null_or f v) = null_or (\<lambda>x. sort_json (f x)) v"
  by (simp add: null_or_def split: option.split)

lemma null_or_simps [simp]: "null_or f None = JNull" "null_or f (Some x) = f x"
  by (simp_all add: null_or_def)

lemma artifacts_ok_single: "artifacts_ok [a] \<longleftrightarrow> artifact_ok a"
  by (simp add: artifacts_ok_def)

lemma artifacts_ok_sort [simp]: "artifacts_ok (sort_key art_path as) \<longleftrightarrow> artifacts_ok as"
  by (simp add: artifacts_ok_def distinct_map)

lemma read_artifact_json: "artifact_ok a \<Longrightarrow> read_artifact (sort_json (state_artifact_json a)) l = Inr a"
  by (simp add: read_artifact_def state_artifact_json_def jget_sort_key artifacts_ok_single accepts Let_def artifact_ok_def
      del: sort_key_simps)

lemma read_artifacts_json:
  "artifacts_ok as \<Longrightarrow>
     read_artifacts (JArr (map (sort_json \<circ> state_artifact_json) as)) l = Inr (sort_key art_path as)"
  by (simp add: read_artifacts_def decode_items_map [where h = "\<lambda>a. a"] read_artifact_json accepts artifacts_ok_def)

definition snapshot_sorted :: "group_snapshot \<Rightarrow> group_snapshot" where
  "snapshot_sorted s = s\<lparr>gs_artifacts := sort_key art_path (gs_artifacts s)\<rparr>"

lemma snapshot_sorted_ok [simp]:
  "snapshot_ok (snapshot_sorted s) \<longleftrightarrow> snapshot_ok s"
  "snapshot_of_group gid layout (snapshot_sorted s) \<longleftrightarrow> snapshot_of_group gid layout s"
  by (simp_all add: snapshot_sorted_def snapshot_ok_def snapshot_of_group_def)

lemma read_snapshot_json:
  "opt_all snapshot_ok s \<Longrightarrow> read_snapshot (sort_json (snapshot_json s)) l = Inr (map_option snapshot_sorted s)"
  by (cases s)
    (simp_all add: read_snapshot_def snapshot_json_def jget_sort_key jget_or_sort_key snapshot_ok_def Let_def accepts
      read_artifacts_json snapshot_sorted_def del: sort_key_simps)

lemma enum_members [simp]:
  "enum_member condition_value [CLEAN, LOCAL_DIRTY, REMOTE_DIRTY, CONFLICTED] (JStr (condition_value k)) m = Inr k"
  "enum_member availability_value [NOT_CHECKED, AVAILABLE, UNAVAILABLE] (JStr (availability_value a)) m = Inr a"
  "enum_member resolution_value [KEEP_LOCAL, KEEP_REMOTE, MANUAL] (JStr (resolution_value r)) m = Inr r"
  by ((cases k; simp add: enum_member_def), (cases a; simp add: enum_member_def), (cases r; simp add: enum_member_def))

lemma of_group_ok: "opt_all (snapshot_of_group gid layout) s \<Longrightarrow> opt_all snapshot_ok s"
  by (auto simp: opt_all_def snapshot_of_group_def)

lemma opt_all_sorted [simp]:
  "opt_all (snapshot_of_group gid layout) (map_option snapshot_sorted s) \<longleftrightarrow> opt_all (snapshot_of_group gid layout) s"
  by (cases s) simp_all

definition group_sorted :: "group_state \<Rightarrow> group_state" where
  "group_sorted g = g\<lparr>gr_baseline := map_option snapshot_sorted (gr_baseline g),
     gr_local := map_option snapshot_sorted (gr_local g), gr_remote := map_option snapshot_sorted (gr_remote g)\<rparr>"

lemma group_sorted_simps [simp]:
  "gr_group (group_sorted g) = gr_group g" "gr_layout (group_sorted g) = gr_layout g"
  "gr_condition (group_sorted g) = gr_condition g" "group_ok (group_sorted g) \<longleftrightarrow> group_ok g"
  by (simp_all add: group_sorted_def group_ok_def)

lemma group_sorted_alt:
  "group_sorted g = \<lparr>gr_group = gr_group g, gr_layout = gr_layout g, gr_condition = gr_condition g,
     gr_baseline = map_option snapshot_sorted (gr_baseline g), gr_local = map_option snapshot_sorted (gr_local g),
     gr_remote = map_option snapshot_sorted (gr_remote g), gr_hints = gr_hints g, gr_verified = gr_verified g\<rparr>"
  by (simp add: group_sorted_def)

lemma read_group_json:
  assumes g: "group_ok g"
  shows "read_group (sort_json (group_json g)) l = Inr (group_sorted g)"
proof -
  have ok: "validate_group (group_sorted g) = Inr ()" using g by simp
  have sides: "opt_all snapshot_ok (gr_baseline g)" "opt_all snapshot_ok (gr_local g)" "opt_all snapshot_ok (gr_remote g)"
    using g by (auto simp: group_ok_def dest: of_group_ok)
  have texts: "strip (gr_group g) \<noteq> []" "strip (gr_layout g) \<noteq> []" "nonblank_opt (gr_verified g)" "\<forall>p \<in> set (gr_hints g). rel_ok p"
    using g by (auto simp: group_ok_def)
  show ?thesis
    by (simp add: read_group_def group_json_def jget_sort_key jget_or_sort_key Let_def read_snapshot_json sides texts
        decode_texts_map ok [unfolded group_sorted_alt] group_sorted_alt del: sort_key_simps)
qed

definition conflict_sorted :: "conflict_record \<Rightarrow> conflict_record" where
  "conflict_sorted c = c\<lparr>cr_baseline := map_option snapshot_sorted (cr_baseline c),
     cr_local := snapshot_sorted (cr_local c), cr_remote := snapshot_sorted (cr_remote c)\<rparr>"

lemma content_sorted [simp]:
  "snapshot_content (map_option snapshot_sorted s) = snapshot_content s"
  "snapshot_content (Some (snapshot_sorted x)) = snapshot_content (Some x)"
  by (cases s) (simp_all add: snapshot_content_def snapshot_sorted_def sort_key_idem)

lemma conflict_sorted_simps [simp]:
  "cr_id (conflict_sorted c) = cr_id c" "cr_group (conflict_sorted c) = cr_group c"
  "cr_layout (conflict_sorted c) = cr_layout c" "resolved (conflict_sorted c) = resolved c"
  "conflict_ok (conflict_sorted c) \<longleftrightarrow> conflict_ok c"
  by (simp_all add: conflict_sorted_def resolved_def conflict_ok_def sides_ok_def evidence_id_def conflict_content_def)

text \<open>
  The check of a conflict record does not look at the texts of a resolution, which reading refuses
  when they are blank.
\<close>

definition receipt_ok :: "conflict_record \<Rightarrow> bool" where
  "receipt_ok c \<longleftrightarrow> nonblank_opt (cr_resolved c) \<and> nonblank_opt (cr_revision c)"

lemma conflict_sorted_alt:
  "conflict_sorted c = \<lparr>cr_id = cr_id c, cr_group = cr_group c, cr_layout = cr_layout c, cr_detected = cr_detected c,
     cr_last_seen = cr_last_seen c, cr_baseline = map_option snapshot_sorted (cr_baseline c),
     cr_local = snapshot_sorted (cr_local c), cr_remote = snapshot_sorted (cr_remote c),
     cr_acknowledged = cr_acknowledged c, cr_resolved = cr_resolved c, cr_resolution = cr_resolution c,
     cr_revision = cr_revision c\<rparr>"
  by (simp add: conflict_sorted_def)

lemma read_conflict_json:
  assumes c: "conflict_ok c" "receipt_ok c"
  shows "read_conflict (sort_json (conflict_json c)) l = Inr (conflict_sorted c)"
proof -
  have ok: "validate_conflict (conflict_sorted c) = Inr ()" using c by simp
  have sides: "opt_all snapshot_ok (cr_baseline c)" "snapshot_ok (cr_local c)" "snapshot_ok (cr_remote c)"
    using c by (auto simp: conflict_ok_def sides_ok_def snapshot_of_group_def opt_all_def)
  have texts: "strip (cr_id c) \<noteq> []" "strip (cr_group c) \<noteq> []" "strip (cr_layout c) \<noteq> []" "strip (cr_detected c) \<noteq> []"
      "strip (cr_last_seen c) \<noteq> []" "nonblank_opt (cr_acknowledged c)" "nonblank_opt (cr_resolved c)"
      "nonblank_opt (cr_revision c)"
    using c by (auto simp: conflict_ok_def receipt_ok_def)
  show ?thesis
    using ok [unfolded conflict_sorted_alt]
    by (cases "cr_resolution c")
      (simp_all add: read_conflict_def conflict_json_def jget_sort_key Let_def read_snapshot_json sides texts
        conflict_sorted_alt del: sort_key_simps)
qed

definition domain_sorted :: "logical_domain \<Rightarrow> logical_domain" where
  "domain_sorted d = d\<lparr>ld_entries := sort_key le_identity (ld_entries d)\<rparr>"

definition container_sorted :: "container_baseline \<Rightarrow> container_baseline" where
  "container_sorted b = b\<lparr>cb_domains := sort_key ld_id (map domain_sorted (cb_domains b)),
     cb_tombstones := sort (cb_tombstones b)\<rparr>"

lemma read_entry_json: "entry_ok e \<Longrightarrow> read_logical_entry (sort_json (logical_entry_json e)) l = Inr e"
  by (simp add: read_logical_entry_def logical_entry_json_def jget_sort_key entry_ok_def del: sort_key_simps)

lemma read_domain_json:
  "strip (ld_id d) \<noteq> [] \<Longrightarrow> \<forall>e \<in> set (ld_entries d). entry_ok e \<Longrightarrow>
     read_logical_domain (sort_json (logical_domain_json d)) l = Inr (domain_sorted d)"
  by (simp add: read_logical_domain_def logical_domain_json_def jget_sort_key jget_or_sort_key domain_sorted_def
      decode_items_map [where h = "\<lambda>e. e"] read_entry_json del: sort_key_simps)

lemma domain_sorted_simps [simp]:
  "ld_id (domain_sorted d) = ld_id d" "set (ld_entries (domain_sorted d)) = set (ld_entries d)"
  by (simp_all add: domain_sorted_def)

lemma sum_list_sort_key:
  fixes f :: "'a \<Rightarrow> 'b multiset"
  shows "sum_list (map f (sort_key k xs)) = sum_list (map f xs)"
proof -
  have "mset (map f (sort_key k xs)) = mset (map f xs)" by simp
  then show ?thesis by (metis sum_mset_sum_list)
qed

lemma names_sorted:
  "mset (concat (map (\<lambda>d. map le_identity (ld_entries d)) (sort_key ld_id (map domain_sorted ds))))
     = mset (concat (map (\<lambda>d. map le_identity (ld_entries d)) ds))"
proof -
  have sorted: "mset (map le_identity (ld_entries (domain_sorted d))) = mset (map le_identity (ld_entries d))" for d
    by (simp add: domain_sorted_def)
  show ?thesis
    by (simp only: mset_concat map_map comp_def sum_list_sort_key sorted)
qed

lemma container_sorted_ok: "container_ok b \<Longrightarrow> container_ok (container_sorted b)"
proof -
  assume b: "container_ok b"
  have names: "mset (concat (map (\<lambda>d. map le_identity (ld_entries d)) (sort_key ld_id (map domain_sorted ds))))
      = mset (concat (map (\<lambda>d. map le_identity (ld_entries d)) ds))" for ds
    by (rule names_sorted)
  from names [of "cb_domains b"] have
    "distinct (concat (map (\<lambda>d. map le_identity (ld_entries d)) (sort_key ld_id (map domain_sorted (cb_domains b)))))
      \<longleftrightarrow> distinct (concat (map (\<lambda>d. map le_identity (ld_entries d)) (cb_domains b)))"
    by (rule mset_eq_imp_distinct_iff)
  moreover have "distinct (map ld_id (sort_key ld_id (map domain_sorted (cb_domains b)))) \<longleftrightarrow> distinct (map ld_id (cb_domains b))"
    by (rule mset_eq_imp_distinct_iff) (simp add: multiset.map_comp comp_def)
  ultimately show ?thesis
    using b by (simp add: container_ok_def container_sorted_def image_image)
qed

lemma container_sorted_alt:
  "container_sorted b = \<lparr>cb_container_id = cb_container_id b, cb_adapter_id = cb_adapter_id b,
     cb_schema_version = cb_schema_version b, cb_format_variant = cb_format_variant b,
     cb_domains = sort_key ld_id (map domain_sorted (cb_domains b)), cb_tombstones = sort (cb_tombstones b)\<rparr>"
  by (simp add: container_sorted_def)

lemma read_container_json:
  assumes b: "container_ok b"
  shows "read_container (sort_json (container_json b)) l = Inr (container_sorted b)"
proof -
  have ok: "validate_container (container_sorted b) = Inr ()" using b by (simp add: container_sorted_ok)
  have domains: "decode_items read_logical_domain (JArr (map (sort_json \<circ> logical_domain_json) (cb_domains b))) k
      = Inr (map domain_sorted (cb_domains b))" for k
    using b by (intro decode_items_map) (auto simp: container_ok_def read_domain_json)
  have texts: "rel_ok (cb_container_id b)" "strip (cb_adapter_id b) \<noteq> []" "strip (cb_format_variant b) \<noteq> []"
      "\<forall>t \<in> set (cb_tombstones b). strip t \<noteq> []"
    using b by (auto simp: container_ok_def)
  show ?thesis
    by (simp add: read_container_def container_json_def jget_sort_key jget_or_sort_key Let_def domains texts decode_texts_map
        ok [unfolded container_sorted_alt] container_sorted_alt del: sort_key_simps)
qed

definition record_sorted :: "sync_record \<Rightarrow> sync_record" where
  "record_sorted r = r\<lparr>sr_manifest := sort_key art_path (sr_manifest r)\<rparr>"

lemma record_sorted_ok [simp]: "record_ok (record_sorted r) \<longleftrightarrow> record_ok r"
  by (simp add: record_sorted_def record_ok_def)

lemma record_sorted_alt:
  "record_sorted r = \<lparr>sr_revision = sr_revision r, sr_timestamp = sr_timestamp r, sr_device = sr_device r,
     sr_manifest = sort_key art_path (sr_manifest r)\<rparr>"
  by (simp add: record_sorted_def)

lemma read_record_json:
  assumes "opt_all record_ok r"
  shows "read_record (sort_json (record_json r)) l = Inr (map_option record_sorted r)"
proof (cases r)
  case (Some x)
  with assms have x: "record_ok x" by simp
  then have ok: "validate_record (record_sorted x) l = Inr ()" by simp
  from x have texts: "strip (sr_revision x) \<noteq> []" "strip (sr_timestamp x) \<noteq> []" "strip (sr_device x) \<noteq> []"
      "artifacts_ok (sr_manifest x)"
    by (auto simp: record_ok_def)
  from Some show ?thesis
    by (simp add: read_record_def record_json_def jget_sort_key jget_or_sort_key Let_def read_artifacts_json texts
        ok [unfolded record_sorted_alt] record_sorted_alt del: sort_key_simps)
qed (simp add: read_record_def record_json_def)

lemma read_report_json:
  assumes "opt_all report_ok r"
  shows "read_report (sort_json (report_json r)) = Inr r"
proof (cases r)
  case (Some x)
  with assms have x: "report_ok x" by simp
  then have ok: "validate_report x = Inr ()" by simp
  from x have fields: "strip (rr_revision x) \<noteq> []" "strip (rr_timestamp x) \<noteq> []" "strip (rr_scope x) \<noteq> []"
      "0 \<le> rr_uploaded x" "0 \<le> rr_downloaded x" "0 \<le> rr_conflicts x" "0 \<le> rr_unchanged x"
      "0 \<le> rr_upload_bytes x" "0 \<le> rr_download_bytes x" "\<forall>p \<in> set (rr_conflict_paths x). rel_ok p"
    by (auto simp: report_ok_def)
  from Some ok fields show ?thesis
    by (cases x) (simp add: read_report_def report_json_def report_dict_def jget_sort_key jget_or_sort_key Let_def
        decode_texts_map del: sort_key_simps)
qed (simp add: read_report_def report_json_def)

lemma read_remote_json:
  "nonblank_opt (ro_checked obs) \<Longrightarrow> read_remote (sort_json (remote_json obs)) = Inr obs"
  by (simp add: read_remote_def remote_json_def jget_sort_key jget_or_sort_key Let_def del: sort_key_simps)

lemma read_operation_json:
  assumes "opt_all operation_ok act"
  shows "read_operation (sort_json (operation_json act)) = Inr act"
proof (cases act)
  case (Some x)
  with assms have "operation_ok x" by simp
  with Some show ?thesis
    by (simp add: read_operation_def operation_json_def jget_sort_key jget_or_sort_key Let_def decode_texts_map
        operation_ok_def accepts del: sort_key_simps)
qed (simp add: read_operation_def operation_json_def)

lemma read_error_json:
  assumes "opt_all error_ok err"
  shows "read_error (sort_json (error_json err)) = Inr err"
proof (cases err)
  case (Some x)
  with assms have x: "error_ok x" by simp
  then have ok: "validate_error x = Inr ()" by simp
  from x have "strip (er_code x) \<noteq> []" "strip (er_message x) \<noteq> []" "strip (er_occurred x) \<noteq> []" "nonblank_opt (er_operation x)"
    by (auto simp: error_ok_def)
  with Some ok show ?thesis
    by (cases x) (simp add: read_error_def error_json_def jget_sort_key Let_def del: sort_key_simps)
qed (simp add: read_error_def error_json_def)

text \<open>The state as it reads back: every tuple in its order.\<close>

definition state_sorted :: "sync_state \<Rightarrow> sync_state" where
  "state_sorted s = s\<lparr>sy_upload := map_option record_sorted (sy_upload s),
     sy_download := map_option record_sorted (sy_download s), sy_shared := sort_key art_path (sy_shared s),
     sy_groups := sort_key gr_group (map group_sorted (sy_groups s)),
     sy_conflicts := sort_key cr_id (map conflict_sorted (sy_conflicts s)),
     sy_containers := sort_key cb_container_id (map container_sorted (sy_containers s))\<rparr>"

definition receipts_ok :: "sync_state \<Rightarrow> bool" where
  "receipts_ok s \<longleftrightarrow> (\<forall>c \<in> set (sy_conflicts s). receipt_ok c)"

lemma opt_all_record_sorted [simp]: "opt_all record_ok (map_option record_sorted r) \<longleftrightarrow> opt_all record_ok r"
  by (cases r) simp_all

lemma distinct_sorted_map:
  assumes "\<And>x. k (f x) = k x"
  shows "distinct (map k (sort_key k (map f xs))) \<longleftrightarrow> distinct (map k xs)"
  by (rule mset_eq_imp_distinct_iff) (simp add: multiset.map_comp comp_def assms)

lemma backed_by_sorted [simp]:
  "backed_by (sort_key gr_group (map group_sorted gs)) (conflict_sorted c) \<longleftrightarrow> backed_by gs c"
  by (auto simp: backed_by_def)

lemma state_sorted_simps [simp]:
  "sy_device (state_sorted s) = sy_device s" "sy_active (state_sorted s) = sy_active s"
  "sy_completed (state_sorted s) = sy_completed s"
  by (simp_all add: state_sorted_def)

lemma container_sorted_id [simp]: "cb_container_id (container_sorted b) = cb_container_id b"
  by (simp add: container_sorted_def)

lemma state_sorted_ok: "state_ok s \<Longrightarrow> state_ok (state_sorted s)"
  by (simp add: state_ok_def state_sorted_def groups_ok_def conflicts_ok_def containers_ok_def distinct_sorted_map
      container_sorted_ok)

lemma decode_state_document:
  assumes s: "state_ok s" "receipts_ok s" and d: "state_document s = JObj d"
  shows "decode_state 4 (sort_key fst (map (\<lambda>(k, v). (k, sort_json v)) d)) = Inr (state_sorted s)"
proof -
  have groups: "decode_items read_group (JArr (map (sort_json \<circ> group_json) (sy_groups s))) l = Inr (map group_sorted (sy_groups s))" for l
    using s by (intro decode_items_map) (simp add: state_ok_def groups_ok_def read_group_json)
  have conflicts: "decode_items read_conflict (JArr (map (sort_json \<circ> conflict_json) (sy_conflicts s))) l
      = Inr (map conflict_sorted (sy_conflicts s))" for l
    using s by (intro decode_items_map) (simp add: state_ok_def conflicts_ok_def receipts_ok_def read_conflict_json)
  have containers: "decode_items read_container (JArr (map (sort_json \<circ> container_json) (sy_containers s))) l
      = Inr (map container_sorted (sy_containers s))" for l
    using s by (intro decode_items_map) (simp add: state_ok_def containers_ok_def read_container_json)
  have parts: "strip (sy_device s) \<noteq> []" "opt_all record_ok (sy_upload s)" "opt_all record_ok (sy_download s)"
      "artifacts_ok (sy_shared s)" "opt_all report_ok (sy_reconcile s)" "nonblank_opt (ro_checked (sy_remote s))"
      "opt_all operation_ok (sy_active s)" "opt_all error_ok (sy_error s)" "nonblank_opt (sy_completed s)"
      "opt_all (\<lambda>i. 0 \<le> i) (sy_cursor s)"
    using s by (auto simp: state_ok_def)
  from d show ?thesis
    by (auto simp: decode_state_def state_document_def jget_sort_key jget_or_sort_key Let_def when_version_def
        GROUP_STATE_VERSIONS_def CURRENT_STATE_VERSION_def parts groups conflicts containers read_record_json read_artifacts_json
        read_report_json read_groups_def read_conflicts_def read_containers_def read_remote_json read_operation_json
        read_error_json state_sorted_def simp del: sort_key_simps)
qed

lemma document_reads_back:
  assumes "state_ok s" "receipts_ok s"
  shows "state_from_dict (sort_json (state_document s)) = Inr (state_sorted s)"
proof -
  obtain d where d: "state_document s = JObj d" by (simp add: state_document_def)
  let ?d = "sort_key fst (map (\<lambda>(k, v). (k, sort_json v)) d)"
  have version: "document_version ?d = Inr 4"
    using d by (auto simp: state_document_def document_version_def jget_sort_key CURRENT_STATE_VERSION_def Let_def
        simp del: sort_key_simps)
  have "state_ok (state_sorted s)" using assms by (simp add: state_sorted_ok)
  with version decode_state_document [OF assms d] show ?thesis
    by (simp add: d state_from_dict_def migrate_shared_def MIGRATABLE_VERSIONS_def CURRENT_STATE_VERSION_def
        del: sort_key_simps)
qed

subsection \<open>What is read is valid and in order\<close>

lemma decode_items_all:
  assumes "decode_items f v l = Inr ys" and "\<And>x k y. f x k = Inr y \<Longrightarrow> P y"
  shows "\<forall>y \<in> set ys. P y"
proof -
  from assms(1) obtain xs where "mapE (\<lambda>(i, x). f x (indexed l i)) (enumerate 0 xs) = Inr ys"
    by (auto simp: decode_items_def bindE_eq_Inr)
  then show ?thesis by (rule mapE_all) (auto intro: assms(2) split: prod.splits)
qed

lemma decode_texts_all:
  assumes "decode_texts f v l = Inr ys" and "\<And>x y. f x l = Inr y \<Longrightarrow> P y"
  shows "\<forall>y \<in> set ys. P y"
proof -
  from assms(1) obtain xs where "mapE (\<lambda>x. f x l) xs = Inr ys"
    by (auto simp: decode_texts_def bindE_eq_Inr)
  then show ?thesis by (rule mapE_all) (rule assms(2))
qed

lemma map_fixed: "\<forall>x \<in> set xs. f x = x \<Longrightarrow> sort_key k (map f (sort_key k xs)) = sort_key k xs"
  by (subst map_idI) (auto simp: sort_key_idem)

lemma read_artifacts_sorted: "read_artifacts v l = Inr as \<Longrightarrow> sort_key art_path as = as"
  by (auto simp: read_artifacts_def bindE_eq_Inr sort_key_idem)

lemma read_snapshot_sorted: "read_snapshot v l = Inr s \<Longrightarrow> map_option snapshot_sorted s = s"
  by (auto simp: read_snapshot_def bindE_eq_Inr snapshot_sorted_def Let_def split: if_splits dest: read_artifacts_sorted)

lemma read_group_sorted: "read_group v l = Inr g \<Longrightarrow> group_sorted g = g"
  by (auto simp: read_group_def bindE_eq_Inr group_sorted_def Let_def dest!: read_snapshot_sorted)

lemma option_case_Inr:
  "(case v of None \<Rightarrow> Inl e | Some x \<Rightarrow> f x) = Inr y \<longleftrightarrow> (\<exists>x. v = Some x \<and> f x = Inr y)"
  by (simp split: option.split)

lemma read_conflict_sorted: "read_conflict v l = Inr c \<Longrightarrow> conflict_sorted c = c \<and> receipt_ok c"
  by (auto simp: read_conflict_def bindE_eq_Inr option_case_Inr conflict_sorted_alt receipt_ok_def optional_filled_iff
      Let_def dest!: read_snapshot_sorted)

lemma read_domain_sorted: "read_logical_domain v l = Inr d \<Longrightarrow> domain_sorted d = d"
  by (auto simp: read_logical_domain_def bindE_eq_Inr domain_sorted_def sort_key_idem)

lemma read_container_sorted:
  assumes "read_container v l = Inr b"
  shows "container_sorted b = b"
proof -
  from assms obtain w k domains where domains: "decode_items read_logical_domain w k = Inr domains"
    and b: "cb_domains b = sort_key ld_id domains" "sort (cb_tombstones b) = cb_tombstones b"
    by (auto simp: read_container_def bindE_eq_Inr Let_def sort_key_idem)
  have "\<forall>d \<in> set domains. domain_sorted d = d"
    using domains by (rule decode_items_all) (rule read_domain_sorted)
  with b show ?thesis by (simp add: container_sorted_def map_fixed)
qed

lemma read_record_sorted: "read_record v l = Inr r \<Longrightarrow> map_option record_sorted r = r"
  by (auto simp: read_record_def bindE_eq_Inr record_sorted_def Let_def split: if_splits dest: read_artifacts_sorted)

lemma read_groups_sorted:
  assumes "read_groups v = Inr gs"
  shows "sort_key gr_group (map group_sorted gs) = gs"
proof -
  from assms obtain hs where hs: "decode_items read_group v ''groups'' = Inr hs" and gs: "gs = sort_key gr_group hs"
    by (auto simp: read_groups_def bindE_eq_Inr)
  have "\<forall>g \<in> set hs. group_sorted g = g"
    using hs by (rule decode_items_all) (rule read_group_sorted)
  then show ?thesis by (simp add: gs map_fixed)
qed

lemma read_conflicts_sorted:
  assumes "read_conflicts v = Inr cs"
  shows "sort_key cr_id (map conflict_sorted cs) = cs \<and> (\<forall>c \<in> set cs. receipt_ok c)"
proof -
  from assms obtain ds where ds: "decode_items read_conflict v ''conflicts'' = Inr ds" and cs: "cs = sort_key cr_id ds"
    by (auto simp: read_conflicts_def bindE_eq_Inr)
  have "\<forall>c \<in> set ds. conflict_sorted c = c \<and> receipt_ok c"
    using ds by (rule decode_items_all) (rule read_conflict_sorted)
  then show ?thesis by (simp add: cs map_fixed)
qed

lemma read_containers_sorted:
  assumes "read_containers v = Inr bs"
  shows "sort_key cb_container_id (map container_sorted bs) = bs"
proof -
  from assms obtain cs where cs: "decode_items read_container v ''container_baselines'' = Inr cs"
    and bs: "bs = sort_key cb_container_id cs"
    by (auto simp: read_containers_def bindE_eq_Inr)
  have "\<forall>b \<in> set cs. container_sorted b = b"
    using cs by (rule decode_items_all) (rule read_container_sorted)
  then show ?thesis by (simp add: bs map_fixed)
qed

lemma when_groups_sorted: "when_version k (read_groups v) [] = Inr gs \<Longrightarrow> sort_key gr_group (map group_sorted gs) = gs"
  by (auto simp: when_version_def read_groups_sorted split: if_splits)

lemma when_conflicts_sorted:
  "when_version k (read_conflicts v) [] = Inr cs \<Longrightarrow>
     sort_key cr_id (map conflict_sorted cs) = cs \<and> (\<forall>c \<in> set cs. receipt_ok c)"
  by (auto simp: when_version_def dest: read_conflicts_sorted split: if_splits)

lemma when_containers_sorted:
  "when_version k (read_containers v) [] = Inr bs \<Longrightarrow> sort_key cb_container_id (map container_sorted bs) = bs"
  by (auto simp: when_version_def read_containers_sorted split: if_splits)

lemma state_sorted_iff:
  "state_sorted s = s \<longleftrightarrow> map_option record_sorted (sy_upload s) = sy_upload s
     \<and> map_option record_sorted (sy_download s) = sy_download s \<and> sort_key art_path (sy_shared s) = sy_shared s
     \<and> sort_key gr_group (map group_sorted (sy_groups s)) = sy_groups s
     \<and> sort_key cr_id (map conflict_sorted (sy_conflicts s)) = sy_conflicts s
     \<and> sort_key cb_container_id (map container_sorted (sy_containers s)) = sy_containers s"
  by (cases s) (auto simp: state_sorted_def)

lemma decode_state_sorted:
  assumes "decode_state version d = Inr s"
  shows "state_sorted s = s \<and> receipts_ok s"
proof -
  have "\<exists>v w l k. read_record v l = Inr (sy_upload s) \<and> read_record w k = Inr (sy_download s)"
    and "\<exists>v l. read_artifacts v l = Inr (sy_shared s)"
    and "\<exists>k v. when_version k (read_groups v) [] = Inr (sy_groups s)"
    and "\<exists>k v. when_version k (read_conflicts v) [] = Inr (sy_conflicts s)"
    and "\<exists>k v. when_version k (read_containers v) [] = Inr (sy_containers s)"
    using assms unfolding decode_state_def Let_def bindE_eq_Inr by - (clarsimp, blast)+
  then show ?thesis
    by (elim exE conjE)
      (simp add: state_sorted_iff read_record_sorted read_artifacts_sorted when_groups_sorted when_containers_sorted
        when_conflicts_sorted receipts_ok_def)
qed

lemma newest_record_mem: "newest_record rs = Some r \<Longrightarrow> r \<in> set rs"
proof -
  have "fold (\<lambda>r best. case best of None \<Rightarrow> Some r | Some b \<Rightarrow> if sr_timestamp b < sr_timestamp r then Some r else Some b) rs b = Some r
      \<Longrightarrow> b = Some r \<or> r \<in> set rs" for b
    by (induction rs arbitrary: b) (auto split: option.splits if_splits)
  from this [of None] show "newest_record rs = Some r \<Longrightarrow> r \<in> set rs" by (simp add: newest_record_def)
qed

lemma migrate_shared_sorted:
  assumes "state_sorted s = s"
  shows "state_sorted (migrate_shared version s) = migrate_shared version s \<and>
    sy_conflicts (migrate_shared version s) = sy_conflicts s"
proof (cases "newest_record (List.map_filter id [sy_upload s, sy_download s])")
  case (Some r)
  then have "sy_upload s = Some r \<or> sy_download s = Some r"
    by (auto dest!: newest_record_mem simp: List.map_filter_def split: if_splits)
  with assms have "record_sorted r = r" by (auto simp: state_sorted_iff)
  from arg_cong [OF this, of sr_manifest] have "sort_key art_path (sr_manifest r) = sr_manifest r"
    by (simp add: record_sorted_def)
  with assms Some show ?thesis by (simp add: migrate_shared_def state_sorted_iff)
qed (use assms in \<open>simp add: migrate_shared_def\<close>)

lemma read_valid:
  assumes "state_from_dict v = Inr s"
  shows "state_ok s \<and> receipts_ok s \<and> state_sorted s = s"
proof -
  from assms obtain version d decoded where "decode_state version d = Inr decoded" and s: "s = migrate_shared version decoded"
    and ok: "state_ok s"
    by (auto simp: state_from_dict_def bindE_eq_Inr Let_def if_Inl_Inr validate_state_iff)
  then have "state_sorted decoded = decoded" "receipts_ok decoded" by (auto dest: decode_state_sorted)
  with ok show ?thesis using migrate_shared_sorted [of decoded version] by (simp add: s receipts_ok_def)
qed

end
