(* ===== verification/StateProperties.thy ===== *)
theory StateProperties
  imports StateDocument
begin

text \<open>
  The transitions of the local SaveSync state and the operations on its file: validity is kept by every
  transition, a recorded conflict is the only open one of its group, dirty marks commute, and the file
  is replaced only by a complete document of a valid state of the same device.
\<close>

subsection \<open>Groups\<close>

lemma set_upsert_group: "set (upsert_group gs u) = insert u {g \<in> set gs. gr_group g \<noteq> gr_group u}"
  by (auto simp: upsert_group_def)

lemma distinct_sort_key: "distinct (map k (sort_key k xs)) \<longleftrightarrow> distinct (map k xs)"
  by (rule mset_eq_imp_distinct_iff) simp

lemma distinct_upsert_group:
  assumes "distinct (map gr_group gs)"
  shows "distinct (map gr_group (upsert_group gs u))"
proof -
  have "distinct (map gr_group (filter (\<lambda>g. gr_group g \<noteq> gr_group u) gs @ [u]))"
    using assms by (auto simp: distinct_map_filter)
  then show ?thesis by (simp only: upsert_group_def distinct_sort_key)
qed

lemma groups_ok_upsert: "groups_ok gs \<Longrightarrow> group_ok u \<Longrightarrow> groups_ok (upsert_group gs u)"
  by (auto simp: groups_ok_def distinct_upsert_group set_upsert_group)

lemma backed_by_upsert:
  "backed_by (upsert_group gs u) c \<longleftrightarrow>
     (if cr_group c = gr_group u then gr_layout u = cr_layout c \<and> gr_condition u = CONFLICTED else backed_by gs c)"
  by (auto simp: backed_by_def set_upsert_group)

lemma find_unique:
  "distinct (map k xs) \<Longrightarrow> find (\<lambda>x. k x = i) xs = Some x \<longleftrightarrow> x \<in> set xs \<and> k x = i"
  by (induction xs) auto

lemma option_eqI: "(\<And>x. a = Some x \<longleftrightarrow> b = Some x) \<Longrightarrow> a = b"
  by (cases a; cases b) auto

lemma find_upsert:
  assumes "distinct (map gr_group gs)"
  shows "find (\<lambda>g. gr_group g = i) (upsert_group gs u) =
    (if gr_group u = i then Some u else find (\<lambda>g. gr_group g = i) gs)"
  by (rule option_eqI) (auto simp: find_unique distinct_upsert_group assms set_upsert_group)

lemma sorted_by_unique:
  assumes "sorted (map k xs)" "sorted (map k ys)" "distinct (map k xs)" "distinct (map k ys)" "set xs = set ys"
  shows "xs = ys"
proof -
  have "map k xs = map k ys"
    using assms by (intro sorted_distinct_set_unique) simp_all
  then show ?thesis
    using assms by (intro map_inj_on [of k xs ys]) (auto simp: distinct_map)
qed

lemma upsert_groups_eqI:
  assumes "distinct (map gr_group gs)" "distinct (map gr_group hs)"
    and "set (upsert_group gs u) = set (upsert_group hs v)"
  shows "upsert_group gs u = upsert_group hs v"
  using assms by (intro sorted_by_unique [where k = gr_group]) (auto simp: distinct_upsert_group, auto simp: upsert_group_def)

subsection \<open>Dirty marks\<close>

definition dirty_group :: "group_state option \<Rightarrow> string \<Rightarrow> string \<Rightarrow> string list \<Rightarrow> condition \<Rightarrow> group_state" where
  "dirty_group existing gid layout paths side =
     (case existing of
        None \<Rightarrow> \<lparr>gr_group = gid, gr_layout = layout, gr_condition = side, gr_baseline = None, gr_local = None,
          gr_remote = None, gr_hints = sorted_set paths, gr_verified = None\<rparr>
      | Some g \<Rightarrow> g\<lparr>gr_condition :=
            (if gr_condition g \<in> {(if side = LOCAL_DIRTY then REMOTE_DIRTY else LOCAL_DIRTY), CONFLICTED}
             then CONFLICTED else side),
          gr_hints := sorted_set (gr_hints g @ sorted_set paths), gr_verified := None\<rparr>)"

lemma mapE_canonical: "mapE (\<lambda>p. canonical_rel (JStr p) l) ps = Inr qs \<longleftrightarrow> qs = ps \<and> (\<forall>p \<in> set ps. rel_ok p)"
  by (induction ps arbitrary: qs) (auto simp: bindE_eq_Inr canonical_rel_iff)

lemma mark_dirty_iff:
  "mark_dirty s gid layout paths side = Inr s' \<longleftrightarrow>
     strip gid \<noteq> [] \<and> strip layout \<noteq> [] \<and> (\<forall>p \<in> set paths. rel_ok p)
     \<and> (\<forall>g. find (\<lambda>g. gr_group g = gid) (sy_groups s) = Some g \<longrightarrow> gr_layout g = layout)
     \<and> s' = s\<lparr>sy_groups := upsert_group (sy_groups s)
         (dirty_group (find (\<lambda>g. gr_group g = gid) (sy_groups s)) gid layout paths side)\<rparr>"
  unfolding mark_dirty_def bindE_eq_Inr filled_text_iff mapE_canonical Let_def
  by (cases "find (\<lambda>g. gr_group g = gid) (sy_groups s)")
    (simp_all add: dirty_group_def if_Inl_Inr eq_commute [of s'] conj_commute cong: conj_cong)

lemma set_sorted_set [simp]: "set (sorted_set xs) = set xs" "distinct (sorted_set xs)"
  by (simp_all add: sorted_set_def)

lemma sorted_set_cong: "set xs = set ys \<Longrightarrow> sorted_set xs = sorted_set ys"
  by (intro sorted_distinct_set_unique) (simp_all add: sorted_set_def)

lemma group_named:
  assumes "groups_ok gs" and "find (\<lambda>g. gr_group g = gid) gs = Some g"
  shows "g \<in> set gs \<and> gr_group g = gid \<and> group_ok g"
  using assms by (auto simp: groups_ok_def find_unique)

lemma dirty_group_Some [simp]:
  "gr_group (dirty_group (Some g) gid layout ps side) = gr_group g"
  "gr_layout (dirty_group (Some g) gid layout ps side) = gr_layout g"
  by (simp_all add: dirty_group_def)

lemma dirty_names:
  assumes gs: "groups_ok gs" and layout: "\<forall>g. find (\<lambda>g. gr_group g = gid) gs = Some g \<longrightarrow> gr_layout g = layout"
  shows "gr_group (dirty_group (find (\<lambda>g. gr_group g = gid) gs) gid layout ps side) = gid"
    and "gr_layout (dirty_group (find (\<lambda>g. gr_group g = gid) gs) gid layout ps side) = layout"
proof -
  show "gr_group (dirty_group (find (\<lambda>g. gr_group g = gid) gs) gid layout ps side) = gid"
    using group_named [OF gs, of gid] by (cases "find (\<lambda>g. gr_group g = gid) gs") (simp_all add: dirty_group_def)
  show "gr_layout (dirty_group (find (\<lambda>g. gr_group g = gid) gs) gid layout ps side) = layout"
    using layout by (cases "find (\<lambda>g. gr_group g = gid) gs") (simp_all add: dirty_group_def)
qed

lemma dirty_group_ok:
  assumes "groups_ok gs" "strip gid \<noteq> []" "strip layout \<noteq> []" "\<forall>p \<in> set paths. rel_ok p"
    and "\<forall>g. find (\<lambda>g. gr_group g = gid) gs = Some g \<longrightarrow> gr_layout g = layout"
  shows "group_ok (dirty_group (find (\<lambda>g. gr_group g = gid) gs) gid layout paths side)"
proof (cases "find (\<lambda>g. gr_group g = gid) gs")
  case (Some g)
  with assms group_named [OF assms(1) Some] show ?thesis
    by (auto simp: dirty_group_def group_ok_def nonblank_opt_def)
qed (use assms in \<open>auto simp: dirty_group_def group_ok_def nonblank_opt_def\<close>)

lemma mark_dirty_keeps:
  assumes s: "state_ok s" and m: "mark_dirty s gid layout paths side = Inr s'"
  shows "state_ok s' \<and> sy_conflicts s' = sy_conflicts s \<and> sy_device s' = sy_device s"
proof -
  let ?e = "find (\<lambda>g. gr_group g = gid) (sy_groups s)"
  let ?u = "dirty_group ?e gid layout paths side"
  have groups: "groups_ok (sy_groups s)" and conflicts: "conflicts_ok (sy_groups s) (sy_conflicts s)"
    using s by (auto simp: state_ok_def)
  have names: "gr_group ?u = gid" "gr_layout ?u = layout"
    using m dirty_names [OF groups] unfolding mark_dirty_iff by blast+
  have "group_ok ?u" using m groups by (intro dirty_group_ok) (auto simp: mark_dirty_iff)
  then have "groups_ok (sy_groups s')" using m groups by (auto simp: mark_dirty_iff intro: groups_ok_upsert)
  moreover have "conflicts_ok (sy_groups s') (sy_conflicts s)"
  proof -
    have "backed_by (sy_groups s') c" if "backed_by (sy_groups s) c" for c
    proof (cases "cr_group c = gid")
      case True
      from that obtain g where g: "g \<in> set (sy_groups s)" "gr_group g = cr_group c" "gr_layout g = cr_layout c"
          "gr_condition g = CONFLICTED" by (auto simp: backed_by_def)
      with True groups have "?e = Some g" by (simp add: groups_ok_def find_unique)
      with g True m show ?thesis by (simp add: mark_dirty_iff backed_by_upsert names) (simp add: dirty_group_def)
    qed (use that m in \<open>simp add: mark_dirty_iff backed_by_upsert names\<close>)
    with conflicts show ?thesis by (auto simp: conflicts_ok_def)
  qed
  ultimately show ?thesis using s m by (auto simp: state_ok_def mark_dirty_iff)
qed

lemma sorted_set_nested [simp]:
  "sorted_set (sorted_set xs @ ys) = sorted_set (xs @ ys)" "sorted_set (xs @ sorted_set ys) = sorted_set (xs @ ys)"
  "sorted_set (xs @ sorted_set ys @ zs) = sorted_set (xs @ ys @ zs)"
  by (rule sorted_set_cong, simp)+

lemma hints_commute: "sorted_set (xs @ ys) = sorted_set (ys @ xs)" "sorted_set (hs @ xs @ ys) = sorted_set (hs @ ys @ xs)"
  by (auto intro: sorted_set_cong)

lemma dirty_group_twice:
  assumes "side \<in> {LOCAL_DIRTY, REMOTE_DIRTY}" "side' \<in> {LOCAL_DIRTY, REMOTE_DIRTY}"
  shows "dirty_group (Some (dirty_group e gid layout ps side)) gid layout qs side' =
    dirty_group (Some (dirty_group e gid layout qs side')) gid layout ps side"
proof (cases e)
  case None
  with assms show ?thesis by (elim insertE emptyE) (simp_all add: dirty_group_def hints_commute [of ps])
next
  case (Some g)
  with assms show ?thesis
    by (cases "gr_condition g"; elim insertE emptyE; simp add: dirty_group_def hints_commute(2) [of _ ps])
qed

lemma mark_dirty_twice:
  assumes groups: "groups_ok (sy_groups s)" and "side \<in> {LOCAL_DIRTY, REMOTE_DIRTY}" "side' \<in> {LOCAL_DIRTY, REMOTE_DIRTY}"
    and "mark_dirty s gid layout ps side = Inr s1" "mark_dirty s1 gid' layout' qs side' = Inr s2"
  shows "\<exists>t. mark_dirty s gid' layout' qs side' = Inr t \<and> mark_dirty t gid layout ps side = Inr s2"
proof -
  let ?gs = "sy_groups s" and ?find = "\<lambda>i. find (\<lambda>g. gr_group g = i)"
  let ?u = "dirty_group (?find gid ?gs) gid layout ps side"
  let ?v = "dirty_group (?find gid' ?gs) gid' layout' qs side'"
  have distinct: "distinct (map gr_group ?gs)" using groups by (simp add: groups_ok_def)
  have m: "strip gid \<noteq> []" "strip layout \<noteq> []" "\<forall>p \<in> set ps. rel_ok p" "\<forall>g. ?find gid ?gs = Some g \<longrightarrow> gr_layout g = layout"
      "strip gid' \<noteq> []" "strip layout' \<noteq> []" "\<forall>p \<in> set qs. rel_ok p"
      "\<forall>g. ?find gid' (upsert_group ?gs ?u) = Some g \<longrightarrow> gr_layout g = layout'"
      "s2 = s\<lparr>sy_groups := upsert_group (upsert_group ?gs ?u)
         (dirty_group (?find gid' (upsert_group ?gs ?u)) gid' layout' qs side')\<rparr>"
    using assms(4,5) by (auto simp: mark_dirty_iff)
  have u: "gr_group ?u = gid" "gr_layout ?u = layout"
    by (rule dirty_names [OF groups m(4)])+
  have first: "\<forall>g. ?find gid' ?gs = Some g \<longrightarrow> gr_layout g = layout'"
  proof (cases "gid' = gid")
    case True
    then have "?find gid' (upsert_group ?gs ?u) = Some ?u" using u by (simp only: find_upsert [OF distinct] simp_thms if_True)
    with m(8) u True have "layout' = layout" by blast
    with m(4) True show ?thesis by blast
  next
    case False
    then have "gid \<noteq> gid'" by simp
    then have "?find gid' (upsert_group ?gs ?u) = ?find gid' ?gs" using u by (simp only: find_upsert [OF distinct] simp_thms if_False)
    with m(8) show ?thesis by simp
  qed
  have v: "gr_group ?v = gid'" "gr_layout ?v = layout'"
    by (rule dirty_names [OF groups first])+
  have second: "\<forall>g. ?find gid (upsert_group ?gs ?v) = Some g \<longrightarrow> gr_layout g = layout"
  proof (cases "gid' = gid")
    case True
    then have "?find gid' (upsert_group ?gs ?u) = Some ?u" "?find gid (upsert_group ?gs ?v) = Some ?v"
      using u v by (simp_all only: find_upsert [OF distinct] simp_thms if_True)
    with m(8) u v show ?thesis by (metis option.inject)
  next
    case False
    then have "?find gid (upsert_group ?gs ?v) = ?find gid ?gs" using v by (simp only: find_upsert [OF distinct] simp_thms if_False)
    with m(4) show ?thesis by simp
  qed
  have "upsert_group (upsert_group ?gs ?u) (dirty_group (?find gid' (upsert_group ?gs ?u)) gid' layout' qs side')
      = upsert_group (upsert_group ?gs ?v) (dirty_group (?find gid (upsert_group ?gs ?v)) gid layout ps side)"
  proof (cases "gid' = gid")
    case True
    with m(8) u have "layout' = layout" by (simp add: find_upsert distinct)
    with True u v show ?thesis
      using dirty_group_twice [OF assms(2,3), of "?find gid ?gs" gid layout ps qs]
      by (intro upsert_groups_eqI) (auto simp: distinct_upsert_group distinct find_upsert set_upsert_group)
  next
    case False
    with u v show ?thesis
      by (intro upsert_groups_eqI) (auto simp: distinct_upsert_group distinct find_upsert set_upsert_group)
  qed
  with m first second show ?thesis by (auto simp: mark_dirty_iff)
qed

subsection \<open>Receipts\<close>

definition with_id :: "string \<Rightarrow> (conflict_record \<Rightarrow> conflict_record) \<Rightarrow> conflict_record list \<Rightarrow> conflict_record list" where
  "with_id i f cs = map (\<lambda>c. if cr_id c = i then f c else c) cs"

lemma receipt_cases:
  "conflict_receipt i f c (b, out) =
     (if cr_id c \<noteq> i then Inr (b, out @ [c])
      else if resolved c then fail (''SaveSync conflict '' @ i @ '' is already resolved'')
      else Inr (True, out @ [f c]))"
  by (simp add: conflict_receipt_def)

lemma foldE_receipt:
  "foldE (conflict_receipt i f) cs (b, out) = Inr r \<longleftrightarrow>
     (\<forall>c \<in> set cs. cr_id c = i \<longrightarrow> \<not> resolved c) \<and> r = (b \<or> (\<exists>c \<in> set cs. cr_id c = i), out @ with_id i f cs)"
proof (induction cs arbitrary: b out)
  case (Cons c cs)
  show ?case
    by (cases "cr_id c = i"; cases "resolved c") (auto simp: receipt_cases Cons.IH with_id_def)
qed (auto simp: with_id_def)

lemma acknowledge_conflict_iff:
  "acknowledge_conflict now s i at = Inr s' \<longleftrightarrow> strip (text_or at now) \<noteq> []
     \<and> (\<exists>c \<in> set (sy_conflicts s). cr_id c = i) \<and> (\<forall>c \<in> set (sy_conflicts s). cr_id c = i \<longrightarrow> \<not> resolved c)
     \<and> s' = s\<lparr>sy_conflicts := with_id i (cr_acknowledged_update (\<lambda>_. Some (text_or at now))) (sy_conflicts s)\<rparr>"
  by (auto simp: acknowledge_conflict_def Let_def bindE_eq_Inr filled_text_iff foldE_receipt if_Inl_Inr)

lemma resolve_conflict_iff:
  "resolve_conflict now s i resolution revision at = Inr s' \<longleftrightarrow> strip revision \<noteq> []
     \<and> (\<exists>c \<in> set (sy_conflicts s). cr_id c = i) \<and> (\<forall>c \<in> set (sy_conflicts s). cr_id c = i \<longrightarrow> \<not> resolved c)
     \<and> s' = s\<lparr>sy_conflicts := with_id i (\<lambda>c. c\<lparr>cr_resolved := Some (text_or at now), cr_resolution := Some resolution,
                  cr_revision := Some revision\<rparr>) (sy_conflicts s)\<rparr>"
  by (auto simp: resolve_conflict_def Let_def bindE_eq_Inr filled_text_iff foldE_receipt if_Inl_Inr)

lemma with_id_ok:
  assumes "conflicts_ok gs cs" and "\<forall>c \<in> set cs. receipt_ok c"
    and "\<And>c. c \<in> set cs \<Longrightarrow> cr_id c = i \<Longrightarrow> conflict_ok c \<Longrightarrow> receipt_ok c \<Longrightarrow>
      conflict_ok (f c) \<and> receipt_ok (f c) \<and> cr_id (f c) = cr_id c \<and> cr_group (f c) = cr_group c \<and> cr_layout (f c) = cr_layout c
      \<and> (\<not> resolved (f c) \<longrightarrow> \<not> resolved c)"
  shows "conflicts_ok gs (with_id i f cs) \<and> (\<forall>c \<in> set (with_id i f cs). receipt_ok c)"
proof -
  have "map cr_id (with_id i f cs) = map cr_id cs"
    using assms by (auto simp: with_id_def conflicts_ok_def)
  then have "distinct (map cr_id (with_id i f cs))" using assms(1) by (simp add: conflicts_ok_def)
  moreover have "conflict_ok c \<and> receipt_ok c \<and> (\<not> resolved c \<longrightarrow> backed_by gs c)" if "c \<in> set (with_id i f cs)" for c
  proof -
    from that obtain d where d: "d \<in> set cs" "c = (if cr_id d = i then f d else d)" by (auto simp: with_id_def)
    with assms show ?thesis by (auto simp: conflicts_ok_def backed_by_def)
  qed
  ultimately show ?thesis by (simp add: conflicts_ok_def)
qed

lemma keeps_conflicts:
  assumes s: "state_ok s" "receipts_ok s" and s': "s' = s\<lparr>sy_conflicts := with_id i f (sy_conflicts s)\<rparr>"
    and f: "\<And>c. conflict_ok c \<Longrightarrow> receipt_ok c \<Longrightarrow> c \<in> set (sy_conflicts s) \<Longrightarrow> cr_id c = i \<Longrightarrow>
      conflict_ok (f c) \<and> receipt_ok (f c) \<and> cr_id (f c) = cr_id c \<and> cr_group (f c) = cr_group c \<and> cr_layout (f c) = cr_layout c
      \<and> (\<not> resolved (f c) \<longrightarrow> \<not> resolved c)"
  shows "state_ok s' \<and> receipts_ok s' \<and> sy_groups s' = sy_groups s \<and> sy_device s' = sy_device s"
proof -
  have "conflicts_ok (sy_groups s) (sy_conflicts s)" "\<forall>c \<in> set (sy_conflicts s). receipt_ok c"
    using s by (auto simp: state_ok_def receipts_ok_def)
  from with_id_ok [OF this, of i f] f
  have "conflicts_ok (sy_groups s) (with_id i f (sy_conflicts s)) \<and> (\<forall>c \<in> set (with_id i f (sy_conflicts s)). receipt_ok c)"
    by blast
  with s show ?thesis by (auto simp: s' state_ok_def receipts_ok_def)
qed

lemma acknowledge_keeps:
  assumes "state_ok s" "receipts_ok s" "acknowledge_conflict now s i at = Inr s'"
  shows "state_ok s' \<and> receipts_ok s' \<and> sy_groups s' = sy_groups s \<and> sy_device s' = sy_device s"
proof (rule keeps_conflicts [OF assms(1,2)])
  show "s' = s\<lparr>sy_conflicts := with_id i (cr_acknowledged_update (\<lambda>_. Some (text_or at now))) (sy_conflicts s)\<rparr>"
    using assms(3) by (simp add: acknowledge_conflict_iff)
qed (use assms(3) in \<open>auto simp: acknowledge_conflict_iff conflict_ok_def receipt_ok_def evidence_id_def resolved_def
    nonblank_opt_def\<close>)

lemma resolve_keeps:
  assumes "state_ok s" "receipts_ok s" "resolve_conflict now s i resolution revision at = Inr s'"
    and "strip (text_or at now) \<noteq> []"
  shows "state_ok s' \<and> receipts_ok s' \<and> sy_groups s' = sy_groups s \<and> sy_device s' = sy_device s"
proof (rule keeps_conflicts [OF assms(1,2)])
  show "s' = s\<lparr>sy_conflicts := with_id i (\<lambda>c. c\<lparr>cr_resolved := Some (text_or at now), cr_resolution := Some resolution,
      cr_revision := Some revision\<rparr>) (sy_conflicts s)\<rparr>"
    using assms(3) by (simp add: resolve_conflict_iff)
qed (use assms(3,4) in \<open>auto simp: resolve_conflict_iff conflict_ok_def receipt_ok_def evidence_id_def resolved_def
    nonblank_opt_def\<close>)

subsection \<open>Recording a conflict\<close>

definition content_id :: "string \<Rightarrow> string \<Rightarrow> group_snapshot option \<Rightarrow> group_snapshot \<Rightarrow> group_snapshot \<Rightarrow> string" where
  "content_id gid layout baseline local remote =
     sha256_hex (utf8 (compact_json (conflict_content gid layout baseline local remote)))"

lemma evidence_content_id:
  "evidence_id c = content_id (cr_group c) (cr_layout c) (cr_baseline c) (cr_local c) (cr_remote c)"
  by (simp add: evidence_id_def content_id_def)

definition conflicted_group ::
  "string \<Rightarrow> string \<Rightarrow> group_snapshot option \<Rightarrow> group_snapshot \<Rightarrow> group_snapshot \<Rightarrow> group_state" where
  "conflicted_group gid layout baseline local remote =
     \<lparr>gr_group = gid, gr_layout = layout, gr_condition = CONFLICTED, gr_baseline = baseline,
      gr_local = Some local, gr_remote = Some remote, gr_hints = [], gr_verified = None\<rparr>"

lemma record_conflict_iff:
  "record_conflict now s gid layout baseline local remote at = Inr s' \<longleftrightarrow>
     strip gid \<noteq> [] \<and> strip layout \<noteq> [] \<and> sides_ok gid layout baseline local remote
     \<and> (let i = content_id gid layout baseline local remote; t = text_or at now in
        s' = s\<lparr>sy_groups := upsert_group (sy_groups s) (conflicted_group gid layout baseline local remote),
               sy_conflicts := sort_key cr_id
                 (map (supersede gid i t) (filter (\<lambda>c. cr_id c \<noteq> i) (sy_conflicts s))
                  @ [observed_conflict s i gid layout baseline local remote t])\<rparr>)"
  by (auto simp: record_conflict_def Let_def bindE_eq_Inr conflict_id_for_iff content_id_def conflicted_group_def)

text \<open>The identifier of the evidence is not that of evidence about another group: no collision.\<close>

definition own_id :: "sync_state \<Rightarrow> string \<Rightarrow> string \<Rightarrow> string \<Rightarrow> bool" where
  "own_id s i gid layout \<longleftrightarrow> (\<forall>c \<in> set (sy_conflicts s). cr_id c = i \<longrightarrow> cr_group c = gid \<and> cr_layout c = layout)"

lemma observed_conflict_simps:
  fixes s i gid layout baseline local remote t
  defines "c \<equiv> observed_conflict s i gid layout baseline local remote t"
  shows "cr_id c = i" "\<not> resolved c" "cr_baseline c = baseline" "cr_local c = local" "cr_remote c = remote" "cr_last_seen c = t"
    and "own_id s i gid layout \<Longrightarrow> cr_group c = gid \<and> cr_layout c = layout"
  unfolding c_def
  by (auto simp: observed_conflict_def resolved_def own_id_def find_Some_iff split: option.split)

lemma is_digest_sha [simp]: "is_digest (sha256_hex b)"
proof -
  have "c \<in> set ''0123456789abcdefABCDEF''" if "is_hex_char c" for c
    using that unfolding is_hex_char_def by auto
  then have "\<forall>c \<in> set (sha256_hex b). c \<in> set ''0123456789abcdefABCDEF''"
    using sha256_hex_chars [of b] unfolding list_all_iff by blast
  then show ?thesis unfolding is_digest_def by (intro conjI length_sha256_hex)
qed

lemma observed_conflict_ok:
  assumes "state_ok s" "receipts_ok s" "own_id s i gid layout" "sides_ok gid layout baseline local remote"
    and "strip gid \<noteq> []" "strip layout \<noteq> []" "strip t \<noteq> []" "i = content_id gid layout baseline local remote"
  shows "conflict_ok (observed_conflict s i gid layout baseline local remote t)
    \<and> receipt_ok (observed_conflict s i gid layout baseline local remote t)"
proof (cases "find (\<lambda>c. cr_id c = i \<and> \<not> resolved c) (sy_conflicts s)")
  case None
  have "strip i \<noteq> []"
    by (intro digest_filled) (simp add: assms(8) content_id_def)
  with None assms show ?thesis
    by (simp add: observed_conflict_def conflict_ok_def receipt_ok_def nonblank_opt_def evidence_content_id)
next
  case (Some c)
  then have c: "c \<in> set (sy_conflicts s)" "cr_id c = i" "\<not> resolved c"
    by (auto simp: find_Some_iff)
  with assms have "conflict_ok c" "receipt_ok c" "cr_group c = gid" "cr_layout c = layout"
    by (auto simp: state_ok_def conflicts_ok_def receipts_ok_def own_id_def)
  with Some c assms show ?thesis
    by (auto simp: observed_conflict_def conflict_ok_def receipt_ok_def evidence_content_id)
qed

lemma supersede_simps [simp]:
  "cr_id (supersede gid i t c) = cr_id c" "cr_group (supersede gid i t c) = cr_group c"
  "cr_layout (supersede gid i t c) = cr_layout c"
  by (simp_all add: supersede_def)

lemma supersede_resolved:
  "resolved (supersede gid i t c) \<longleftrightarrow> resolved c \<or> cr_group c = gid \<and> cr_id c \<noteq> i"
  by (auto simp: supersede_def resolved_def)

lemma supersede_ok:
  assumes "conflict_ok c" "receipt_ok c" "strip t \<noteq> []"
  shows "conflict_ok (supersede gid i t c) \<and> receipt_ok (supersede gid i t c)"
proof -
  have "strip (''superseded:'' @ i) \<noteq> []" by (intro strip_hd_ne) (auto simp: is_space_def)
  with assms show ?thesis
    by (auto simp: supersede_def conflict_ok_def receipt_ok_def resolved_def evidence_id_def text_or_def nonblank_opt_def)
qed

lemma record_keeps:
  assumes s: "state_ok s" "receipts_ok s" and own: "own_id s (content_id gid layout baseline local remote) gid layout"
    and t: "strip (text_or at now) \<noteq> []" and r: "record_conflict now s gid layout baseline local remote at = Inr s'"
  shows "state_ok s' \<and> receipts_ok s' \<and> sy_device s' = sy_device s"
proof -
  let ?i = "content_id gid layout baseline local remote" and ?t = "text_or at now"
  let ?u = "conflicted_group gid layout baseline local remote"
  let ?c = "observed_conflict s ?i gid layout baseline local remote ?t"
  let ?old = "map (supersede gid ?i ?t) (filter (\<lambda>c. cr_id c \<noteq> ?i) (sy_conflicts s))"
  have sides: "strip gid \<noteq> []" "strip layout \<noteq> []" "sides_ok gid layout baseline local remote"
    and s': "s' = s\<lparr>sy_groups := upsert_group (sy_groups s) ?u, sy_conflicts := sort_key cr_id (?old @ [?c])\<rparr>"
    using r by (auto simp: record_conflict_iff Let_def)
  have groups: "groups_ok (upsert_group (sy_groups s) ?u)"
    using s sides by (intro groups_ok_upsert)
      (auto simp: state_ok_def conflicted_group_def group_ok_def sides_ok_def nonblank_opt_def)
  have c: "conflict_ok ?c \<and> receipt_ok ?c"
    using s own sides t by (intro observed_conflict_ok) auto
  have old: "conflict_ok e \<and> receipt_ok e" if "e \<in> set ?old" for e
    using that s t by (auto simp: state_ok_def conflicts_ok_def receipts_ok_def supersede_ok)
  have backed: "backed_by (upsert_group (sy_groups s) ?u) e" if e: "e \<in> set (?old @ [?c])" "\<not> resolved e" for e
  proof (cases "e = ?c")
    case True
    then show ?thesis using observed_conflict_simps(7) [OF own]
      by (simp add: backed_by_upsert conflicted_group_def)
  next
    case False
    with e obtain d where d: "d \<in> set (sy_conflicts s)" "e = supersede gid ?i ?t d" "cr_id d \<noteq> ?i" by auto
    with e have "\<not> resolved d" "cr_group d \<noteq> gid" by (auto simp: supersede_resolved)
    with s d show ?thesis
      by (auto simp: backed_by_upsert conflicted_group_def state_ok_def conflicts_ok_def) (auto simp: backed_by_def)
  qed
  have "distinct (map cr_id (?old @ [?c]))"
    using s by (auto simp: observed_conflict_simps comp_def state_ok_def conflicts_ok_def distinct_map_filter)
  then have distinct: "distinct (map cr_id (sort_key cr_id (?old @ [?c])))" by (simp only: distinct_sort_key)
  have all: "\<forall>e \<in> set (?old @ [?c]). conflict_ok e \<and> receipt_ok e" using c old by auto
  have "conflicts_ok (sy_groups s') (sy_conflicts s')" and "receipts_ok s'"
    using all backed distinct by (auto simp: conflicts_ok_def receipts_ok_def s')
  then show ?thesis using s groups by (auto simp: state_ok_def s')
qed

subsection \<open>Histories\<close>

text \<open>What a caller of \<open>mutate_state\<close> applies, each with the time of the clock.\<close>

datatype transition =
    MarkLocal string string "string list"
  | MarkRemote string string "string list"
  | Acknowledge string "string option"
  | RecordConflict string string "group_snapshot option" group_snapshot group_snapshot "string option"
  | ResolveConflict string resolution string "string option"

fun apply_transition :: "string \<times> transition \<Rightarrow> sync_state \<Rightarrow> sync_error + sync_state" where
  "apply_transition (now, MarkLocal gid layout paths) s = mark_local_dirty s gid layout paths"
| "apply_transition (now, MarkRemote gid layout paths) s = mark_remote_dirty s gid layout paths"
| "apply_transition (now, Acknowledge i at) s = acknowledge_conflict now s i at"
| "apply_transition (now, RecordConflict gid layout baseline local remote at) s =
     record_conflict now s gid layout baseline local remote at"
| "apply_transition (now, ResolveConflict i resolution revision at) s = resolve_conflict now s i resolution revision at"

text \<open>The time a transition records; \<open>record_conflict\<close> and \<open>resolve_conflict\<close> do not check it.\<close>

fun transition_time :: "string \<times> transition \<Rightarrow> string" where
  "transition_time (now, Acknowledge i at) = text_or at now"
| "transition_time (now, RecordConflict gid layout baseline local remote at) = text_or at now"
| "transition_time (now, ResolveConflict i resolution revision at) = text_or at now"
| "transition_time (now, t) = now"

text \<open>The identifiers of conflicts, with the group each belongs to.\<close>

definition conflict_names :: "sync_state \<Rightarrow> (string \<times> string \<times> string) set" where
  "conflict_names s = (\<lambda>c. (cr_id c, cr_group c, cr_layout c)) ` set (sy_conflicts s)"

fun recorded_names :: "string \<times> transition \<Rightarrow> (string \<times> string \<times> string) set" where
  "recorded_names (now, RecordConflict gid layout baseline local remote at) =
     {(content_id gid layout baseline local remote, gid, layout)}"
| "recorded_names _ = {}"

definition no_collision :: "(string \<times> string \<times> string) set \<Rightarrow> bool" where
  "no_collision names \<longleftrightarrow> (\<forall>(i, g) \<in> names. \<forall>(j, h) \<in> names. i = j \<longrightarrow> g = h)"

lemma no_collisionD: "no_collision names \<Longrightarrow> (i, g) \<in> names \<Longrightarrow> (i, h) \<in> names \<Longrightarrow> g = h"
  by (force simp: no_collision_def)

lemma with_id_names:
  assumes "\<And>c. cr_id (f c) = cr_id c \<and> cr_group (f c) = cr_group c \<and> cr_layout (f c) = cr_layout c"
  shows "conflict_names (s\<lparr>sy_conflicts := with_id i f cs\<rparr>) = conflict_names (s\<lparr>sy_conflicts := cs\<rparr>)"
proof -
  have "map (\<lambda>c. (cr_id c, cr_group c, cr_layout c)) (with_id i f cs) = map (\<lambda>c. (cr_id c, cr_group c, cr_layout c)) cs"
    using assms by (simp add: with_id_def)
  from arg_cong [OF this, of set] show ?thesis by (simp add: conflict_names_def)
qed

lemma record_names:
  assumes "record_conflict now s gid layout baseline local remote at = Inr s'"
    and "own_id s (content_id gid layout baseline local remote) gid layout"
  shows "conflict_names s' \<subseteq> insert (content_id gid layout baseline local remote, gid, layout) (conflict_names s)"
  using assms observed_conflict_simps(1,7) [of s "content_id gid layout baseline local remote" gid layout baseline local remote
      "text_or at now"]
  by (auto simp: record_conflict_iff Let_def conflict_names_def image_iff)

lemma transition_keeps:
  assumes s: "state_ok s" "receipts_ok s" and a: "apply_transition t s = Inr s'"
    and time: "strip (transition_time t) \<noteq> []"
    and names: "no_collision names" "conflict_names s \<subseteq> names" "recorded_names t \<subseteq> names"
  shows "state_ok s' \<and> receipts_ok s' \<and> sy_device s' = sy_device s \<and> conflict_names s' \<subseteq> names"
proof -
  obtain now k where t: "t = (now, k)" by fastforce
  show ?thesis
  proof (cases k)
    case (MarkLocal gid layout paths)
    with s a t show ?thesis using mark_dirty_keeps [of s gid layout paths LOCAL_DIRTY s'] names
      by (auto simp: mark_local_dirty_def receipts_ok_def conflict_names_def)
  next
    case (MarkRemote gid layout paths)
    with s a t show ?thesis using mark_dirty_keeps [of s gid layout paths REMOTE_DIRTY s'] names
      by (auto simp: mark_remote_dirty_def receipts_ok_def conflict_names_def)
  next
    case (Acknowledge i at)
    with a t have *: "acknowledge_conflict now s i at = Inr s'" by simp
    then have "conflict_names s' = conflict_names s"
      by (simp add: acknowledge_conflict_iff with_id_names)
    with acknowledge_keeps [OF s *] names show ?thesis by auto
  next
    case (ResolveConflict i resolution revision at)
    with a t have *: "resolve_conflict now s i resolution revision at = Inr s'" by simp
    then have "conflict_names s' = conflict_names s"
      by (simp add: resolve_conflict_iff with_id_names)
    with resolve_keeps [OF s *] time names t ResolveConflict show ?thesis by auto
  next
    case (RecordConflict gid layout baseline local remote at)
    with a t have *: "record_conflict now s gid layout baseline local remote at = Inr s'" by simp
    have own: "own_id s (content_id gid layout baseline local remote) gid layout"
    proof -
      have "(content_id gid layout baseline local remote, gid, layout) \<in> names" using names t RecordConflict by simp
      note same = no_collisionD [OF names(1) _ this]
      have "cr_group c = gid \<and> cr_layout c = layout"
        if c: "c \<in> set (sy_conflicts s)" "cr_id c = content_id gid layout baseline local remote" for c
      proof -
        have "(cr_id c, cr_group c, cr_layout c) \<in> names" using names(2) c(1) by (auto simp: conflict_names_def)
        then have "(cr_group c, cr_layout c) = (gid, layout)" by (intro same) (simp add: c(2))
        then show ?thesis by simp
      qed
      then show ?thesis by (simp add: own_id_def)
    qed
    have "strip (text_or at now) \<noteq> []" using time t RecordConflict by simp
    note kept = record_keeps [OF s own this *]
    have "insert (content_id gid layout baseline local remote, gid, layout) (conflict_names s) \<subseteq> names"
      using names t RecordConflict by simp
    with record_names [OF * own] have "conflict_names s' \<subseteq> names" by (rule subset_trans)
    with kept show ?thesis by simp
  qed
qed

lemma history_keeps:
  assumes "foldE apply_transition ts s = Inr s'" and "state_ok s" "receipts_ok s" and "conflict_names s \<subseteq> names"
    and "no_collision names" and "\<forall>t \<in> set ts. strip (transition_time t) \<noteq> [] \<and> recorded_names t \<subseteq> names"
  shows "state_ok s' \<and> receipts_ok s' \<and> sy_device s' = sy_device s"
  using assms
proof (induction ts arbitrary: s)
  case (Cons t ts)
  from Cons.prems(1) obtain s1 where s1: "apply_transition t s = Inr s1" "foldE apply_transition ts s1 = Inr s'"
    by (auto simp: bindE_eq_Inr)
  from transition_keeps [OF Cons.prems(2,3) s1(1)] Cons.prems
  have "state_ok s1 \<and> receipts_ok s1 \<and> sy_device s1 = sy_device s \<and> conflict_names s1 \<subseteq> names" by simp
  with Cons.IH [OF s1(2)] Cons.prems show ?case by simp
qed auto

text \<open>
  No history of transitions makes a valid state invalid or changes its device, as long as the times
  recorded are not blank and no two groups' evidence collides in its digest.
\<close>

theorem transitions_keep_valid:
  assumes "foldE apply_transition ts s = Inr s'" and "validate_state s = Inr ()" "receipts_ok s"
    and "\<forall>t \<in> set ts. strip (transition_time t) \<noteq> []"
    and "no_collision (conflict_names s \<union> \<Union> (recorded_names ` set ts))"
  shows "validate_state s' = Inr () \<and> receipts_ok s' \<and> sy_device s' = sy_device s"
  using history_keeps [OF assms(1), of "conflict_names s \<union> \<Union> (recorded_names ` set ts)"] assms
  by (auto simp: validate_state_iff)

text \<open>
  Marks of the two sides, in whatever order they arrive, leave the same state; marks of both sides on one
  group leave it in conflict.
\<close>

theorem dirty_marks_commute:
  assumes "validate_state s = Inr ()" and "side \<in> {LOCAL_DIRTY, REMOTE_DIRTY}" "side' \<in> {LOCAL_DIRTY, REMOTE_DIRTY}"
  shows "bindE (mark_dirty s gid layout ps side) (\<lambda>t. mark_dirty t gid' layout' qs side') = Inr s' \<longleftrightarrow>
      bindE (mark_dirty s gid' layout' qs side') (\<lambda>t. mark_dirty t gid layout ps side) = Inr s'"
    and "bindE (mark_dirty s gid layout ps side) (\<lambda>t. mark_dirty t gid layout qs side') = Inr s' \<Longrightarrow> side \<noteq> side' \<Longrightarrow>
      \<exists>g \<in> set (sy_groups s'). gr_group g = gid \<and> gr_condition g = CONFLICTED \<and> set ps \<union> set qs \<subseteq> set (gr_hints g)"
proof -
  have groups: "groups_ok (sy_groups s)" using assms(1) by (simp add: validate_state_iff state_ok_def)
  show "bindE (mark_dirty s gid layout ps side) (\<lambda>t. mark_dirty t gid' layout' qs side') = Inr s' \<longleftrightarrow>
      bindE (mark_dirty s gid' layout' qs side') (\<lambda>t. mark_dirty t gid layout ps side) = Inr s'"
    using mark_dirty_twice [OF groups] assms(2,3) unfolding bindE_eq_Inr by blast
  show "\<exists>g \<in> set (sy_groups s'). gr_group g = gid \<and> gr_condition g = CONFLICTED \<and> set ps \<union> set qs \<subseteq> set (gr_hints g)"
    if two: "bindE (mark_dirty s gid layout ps side) (\<lambda>t. mark_dirty t gid layout qs side') = Inr s'" and ne: "side \<noteq> side'"
  proof -
    let ?e = "find (\<lambda>g. gr_group g = gid) (sy_groups s)" and ?find = "\<lambda>i. find (\<lambda>g. gr_group g = i)"
    let ?u = "dirty_group ?e gid layout ps side"
    obtain t where t: "mark_dirty s gid layout ps side = Inr t" "mark_dirty t gid layout qs side' = Inr s'"
      using two by (auto simp: bindE_eq_Inr)
    have layout: "\<forall>g. ?e = Some g \<longrightarrow> gr_layout g = layout" and gt: "sy_groups t = upsert_group (sy_groups s) ?u"
      using t(1) by (auto simp: mark_dirty_iff)
    note u = dirty_names [OF groups layout, of ps side]
    have distinct: "distinct (map gr_group (sy_groups s))" using groups by (simp add: groups_ok_def)
    have "?find gid (sy_groups t) = Some ?u" unfolding gt find_upsert [OF distinct] u by simp
    with t(2) have "dirty_group (Some ?u) gid layout qs side' \<in> set (sy_groups s')"
      by (auto simp: mark_dirty_iff set_upsert_group)
    moreover have "gr_condition (dirty_group (Some ?u) gid layout qs side') = CONFLICTED"
      using assms(2,3) ne by (cases ?e) (auto simp: dirty_group_def)
    moreover have "set ps \<union> set qs \<subseteq> set (gr_hints (dirty_group (Some ?u) gid layout qs side'))"
      by (cases ?e) (auto simp: dirty_group_def)
    ultimately show ?thesis using u by (intro bexI [of _ "dirty_group (Some ?u) gid layout qs side'"]) simp_all
  qed
qed

subsection \<open>Conflicts\<close>

text \<open>
  After a conflict of a group is recorded it is the only unresolved one of the group, with the evidence
  given; seen again, it keeps the time of its detection and its acknowledgement.  The earlier conflicts of the group are
  resolved as superseded, those of other groups are as they were, and the group is in conflict.
\<close>

theorem record_conflict_effect:
  assumes s: "validate_state s = Inr ()" and own: "own_id s (content_id gid layout baseline local remote) gid layout"
    and r: "record_conflict now s gid layout baseline local remote at = Inr s'"
  shows "\<exists>c. {e \<in> set (sy_conflicts s'). cr_group e = gid \<and> \<not> resolved e} = {c}
    \<and> cr_id c = content_id gid layout baseline local remote \<and> cr_baseline c = baseline \<and> cr_local c = local \<and> cr_remote c = remote
    \<and> cr_last_seen c = text_or at now
    \<and> (case find (\<lambda>e. cr_id e = cr_id c \<and> \<not> resolved e) (sy_conflicts s) of
         Some old \<Rightarrow> cr_detected c = cr_detected old \<and> cr_acknowledged c = cr_acknowledged old
       | None \<Rightarrow> cr_detected c = text_or at now \<and> cr_acknowledged c = None)"
    and "{e \<in> set (sy_conflicts s'). cr_group e \<noteq> gid} = {e \<in> set (sy_conflicts s). cr_group e \<noteq> gid}"
    and "backed_by (sy_groups s') c \<longleftrightarrow> (if cr_group c = gid then cr_layout c = layout else backed_by (sy_groups s) c)"
proof -
  let ?i = "content_id gid layout baseline local remote" and ?t = "text_or at now"
  let ?c = "observed_conflict s ?i gid layout baseline local remote ?t"
  let ?old = "map (supersede gid ?i ?t) (filter (\<lambda>c. cr_id c \<noteq> ?i) (sy_conflicts s))"
  have s': "s' = s\<lparr>sy_groups := upsert_group (sy_groups s) (conflicted_group gid layout baseline local remote),
      sy_conflicts := sort_key cr_id (?old @ [?c])\<rparr>"
    using r by (auto simp: record_conflict_iff Let_def)
  note c = observed_conflict_simps [of s ?i gid layout baseline local remote ?t]
  have one: "{e \<in> set (sy_conflicts s'). cr_group e = gid \<and> \<not> resolved e} = {?c}"
  proof -
    have "resolved e" if e: "e \<in> set ?old" "cr_group e = gid" for e
    proof -
      obtain x where x: "e = supersede gid ?i ?t x" "cr_id x \<noteq> ?i" using e(1) by auto
      with e(2) show ?thesis by (simp only: x(1) supersede_resolved supersede_simps) simp
    qed
    then have "{e \<in> set (?old @ [?c]). cr_group e = gid \<and> \<not> resolved e} = {?c}"
      using c(2) c(7) [OF own] by auto
    then show ?thesis by (simp add: s')
  qed
  have seen: "case find (\<lambda>e. cr_id e = cr_id ?c \<and> \<not> resolved e) (sy_conflicts s) of
      Some old \<Rightarrow> cr_detected ?c = cr_detected old \<and> cr_acknowledged ?c = cr_acknowledged old
    | None \<Rightarrow> cr_detected ?c = ?t \<and> cr_acknowledged ?c = None"
    unfolding c(1) by (auto simp: observed_conflict_def split: option.split)
  with one c show "\<exists>c. {e \<in> set (sy_conflicts s'). cr_group e = gid \<and> \<not> resolved e} = {c}
    \<and> cr_id c = ?i \<and> cr_baseline c = baseline \<and> cr_local c = local \<and> cr_remote c = remote \<and> cr_last_seen c = ?t
    \<and> (case find (\<lambda>e. cr_id e = cr_id c \<and> \<not> resolved e) (sy_conflicts s) of
         Some old \<Rightarrow> cr_detected c = cr_detected old \<and> cr_acknowledged c = cr_acknowledged old
       | None \<Rightarrow> cr_detected c = ?t \<and> cr_acknowledged c = None)"
    by (intro exI [of _ ?c] conjI) simp_all
  have same: "supersede gid ?i ?t e = e" if "cr_group e \<noteq> gid" for e using that by (simp add: supersede_def)
  show "{e \<in> set (sy_conflicts s'). cr_group e \<noteq> gid} = {e \<in> set (sy_conflicts s). cr_group e \<noteq> gid}"
    using c(1) c(7) [OF own] own same by (auto simp: s' own_id_def image_iff)
  show "backed_by (sy_groups s') c \<longleftrightarrow> (if cr_group c = gid then cr_layout c = layout else backed_by (sy_groups s) c)" for c
    by (auto simp: s' backed_by_upsert conflicted_group_def)
qed

subsection \<open>The state file\<close>

lemma lock_keeps:
  assumes "lock_state_file path d = (r, d')"
  shows "disk_writable d' = disk_writable d" and "p \<noteq> state_lock_path path \<Longrightarrow> disk_docs d' p = disk_docs d p"
  using assms by (auto simp: lock_state_file_def Let_def split: if_splits option.splits)

lemma read_state_docs: "disk_docs d' path = disk_docs d path \<Longrightarrow> read_state fresh path d' = read_state fresh path d"
  by (simp add: read_state_def)

lemma write_state_cases:
  assumes "write_state path s d = (r, d')"
  obtains (refused) e where "r = Inl e" "d' = d"
  | (stored) "r = Inr ()" "state_ok s" "disk_writable d path" "d' = d\<lparr>disk_docs := (disk_docs d)(path \<mapsto> written (state_document s))\<rparr>"
proof (cases "validate_state s")
  case (Inl e)
  with assms show ?thesis by (intro refused [of e]) (simp_all add: write_state_def state_to_dict_def)
next
  case (Inr u)
  show ?thesis
  proof (cases "disk_writable d path")
    case True
    with assms Inr show ?thesis
      using validate_state_iff [of s u]
      by (intro stored) (auto simp: write_state_def state_to_dict_def atomic_write_def)
  next
    case False
    with assms Inr show ?thesis
      by (intro refused) (auto simp: write_state_def state_to_dict_def atomic_write_def)
  qed
qed

text \<open>A valid state written to its file is read back, its lists in the order of their identifiers.\<close>

theorem state_roundtrip:
  assumes "validate_state s = Inr ()" "receipts_ok s" "disk_writable d path"
  shows "\<exists>d'. write_state path s d = (Inr (), d') \<and> read_state fresh path d' = Inr (state_sorted s)
    \<and> (\<forall>p. p \<noteq> path \<longrightarrow> disk_docs d' p = disk_docs d p)"
proof -
  have ok: "state_ok s" using assms(1) by (simp add: validate_state_iff)
  have "write_state path s d = (Inr (), d\<lparr>disk_docs := (disk_docs d)(path \<mapsto> written (state_document s))\<rparr>)"
    using assms by (simp add: write_state_def state_to_dict_def atomic_write_def)
  moreover have "read_state fresh path (d\<lparr>disk_docs := (disk_docs d)(path \<mapsto> written (state_document s))\<rparr>) = Inr (state_sorted s)"
    using document_reads_back [OF ok assms(2)] by (simp add: read_state_def written_def)
  ultimately show ?thesis by auto
qed

text \<open>What a state file yields is valid, complete and in order.\<close>

theorem state_file_valid:
  assumes "read_state fresh path d = Inr s" and "disk_docs d path \<noteq> None"
  shows "validate_state s = Inr () \<and> receipts_ok s \<and> state_sorted s = s"
proof -
  obtain v where "state_from_dict v = Inr s"
    using assms by (auto simp: read_state_def split: option.splits text_read.splits sum.splits sync_error.splits)
  from read_valid [OF this] show ?thesis by (simp add: validate_state_iff)
qed

text \<open>
  A mutation changes the state file only to the complete document of what the update returned for the
  state it held: valid, and of the same device.  When anything raises, the file is as it was.
\<close>

theorem mutation_safe:
  assumes "state_lock_path path \<noteq> path" and "mutate_state fresh path update d = (r, d')"
  shows "(\<forall>p. p \<notin> {path, state_lock_path path} \<longrightarrow> disk_docs d' p = disk_docs d p)
    \<and> (case r of
         Inl e \<Rightarrow> disk_docs d' path = disk_docs d path
       | Inr s \<Rightarrow> (\<exists>current. read_state fresh path d = Inr current \<and> update current = Inr s
           \<and> validate_state s = Inr () \<and> sy_device s = sy_device current
           \<and> disk_docs d' path = Some (written (state_document s))
           \<and> (receipts_ok s \<longrightarrow> read_state fresh path d' = Inr (state_sorted s))))"
proof -
  obtain l d1 where l: "lock_state_file path d = (l, d1)" by fastforce
  note lock = lock_keeps [OF l]
  have d1: "read_state fresh path d1 = read_state fresh path d" using lock(2) assms(1) by (intro read_state_docs) simp
  have idle: ?thesis if "r = Inl e" "d' = d1" for e using that lock(2) assms(1) by auto
  show ?thesis
  proof (cases "l = Inr ()")
    case False
    then obtain e where "l = Inl e" by (cases l) auto
    with assms(2) l have "r = Inl e" "d' = d1" by (simp_all add: mutate_state_def)
    then show ?thesis by (rule idle)
  next
    case True
    show ?thesis
    proof (cases "bindE (read_state fresh path d) (\<lambda>c. bindE (update c) (\<lambda>u. if sy_device u \<noteq> sy_device c
        then fail ''SaveSync state mutation cannot change device_id'' else Inr u))")
      case (Inl e)
      with assms(2) l True d1 have "r = Inl e" "d' = d1"
        by (auto simp: mutate_state_def bindS_eq_Inr bindE_eq_Inl split: sum.splits if_splits)
      then show ?thesis by (rule idle)
    next
      case (Inr u)
      then obtain current where c: "read_state fresh path d = Inr current" "update current = Inr u" "sy_device u = sy_device current"
        by (auto simp: bindE_eq_Inr split: if_splits)
      obtain w d2 where w: "write_state path u d1 = (w, d2)" by fastforce
      then have r: "r = (case w of Inl e \<Rightarrow> Inl e | Inr _ \<Rightarrow> Inr u) \<and> d' = d2"
        using assms(2) l True d1 c by (auto simp: mutate_state_def split: sum.splits)
      from w show ?thesis
      proof (cases rule: write_state_cases)
        case (refused e)
        with r show ?thesis by (intro idle) auto
      next
        case stored
        with r have "r = Inr u" "d' = d1\<lparr>disk_docs := (disk_docs d1)(path \<mapsto> written (state_document u))\<rparr>" by auto
        moreover have "read_state fresh path d' = Inr (state_sorted u)" if "receipts_ok u"
          using document_reads_back [OF stored(2) that] calculation by (simp add: read_state_def written_def)
        ultimately show ?thesis using c stored(2) lock(2) by (auto simp: validate_state_iff)
      qed
    qed
  qed
qed

end
