(* ===== verification/Spec2Isabelle.thy ===== *)
theory Spec2Isabelle
  imports Prelude SaveContainers ContainerAdapter Sha256 Ps1Card Ps1Layout Ps1Rebuild Ps1Properties
    PyJson Journal SaveIndex IndexStore IndexPublish IndexProofs IndexCommit IndexProperties CommitIntent CommitLock
    PosixPaths CueParser CatalogDatabase DownloadQueue DownloadManager
    CachePaths AssetLocks CacheStorage StagingStore
    SaveDisk SaveTransaction TransactionLogic TransactionJournal TransactionState TransactionRollback TransactionRecovery
    TransactionApply TransactionPrepare TransactionFinalize TransactionProperties
    SaveModels SaveSelection SaveRegistry SaveScan ScanProperties SavePlanner PlannerProperties SaveState StateDocument StateProperties
begin

text \<open>
  ROMCloud: a verification development.

  ROMCloud keeps a game library on a server and brings games and saves to Batocera devices.  This development
  models the parts that decide whether save data survive and whether the cache stays consistent: the
  synchronization of saves (\<open>SaveSync\<close>), the download queue with the cache it fills, and the
  parsers and path rules both rest on.  Paths below are relative to \<open>src/romcloud/\<close>.

  \<^bold>\<open>How saves travel.\<close>  A scan of each side (\<open>infrastructure/save_tree.py\<close>) asks the registry of layouts
  (\<open>core/save_selection.py\<close>) which directories may be entered and which files are saves, and returns a manifest.
  The planner (\<open>services/saves.py\<close>) compares the manifests of the device and of the server with the last
  shared one, group by group; shared containers (memory cards) are compared entry by entry through an adapter
  (\<open>core/save_containers.py\<close>, \<open>infrastructure/ps1_memory_card.py\<close>).  The desired files are put in place by a
  transaction (\<open>infrastructure/save_transaction.py\<close>) under a commit lock with an intent that says what is being
  written (\<open>infrastructure/savesync_commit.py\<close>), and are announced in an index with one shard for each layout
  (\<open>infrastructure/savesync_index.py\<close>) and in a journal (\<open>infrastructure/savesync_journal.py\<close>).

  \<^bold>\<open>The theories, and the code they model.\<close>
    \<^item> \<open>Prelude\<close>: results of fallible operations (\<open>error + 'a\<close>) and their loops, Python dictionaries as
      association lists, slices, strings, sorting by a key; the collections the proofs rewrite with.
      \<open>Sha256\<close>, \<open>PyJson\<close>, \<open>PosixPaths\<close>: what the code uses of \<open>hashlib\<close>, \<open>json\<close> and \<open>pathlib\<close>, a disk of JSON
      documents whose writes may fail, and the logical keys of \<open>core/remote_data.py\<close>.
    \<^item> \<open>SaveModels\<close>: \<open>core/models/savesync.py\<close>.  \<open>SaveSelection\<close>, \<open>SaveRegistry\<close>: the matching of layouts
      and the table of all layouts of \<open>core/save_selection.py\<close>.  \<open>SaveScan\<close>, \<open>ScanProperties\<close>: discovery on a disk and
      through the listings of a provider.
    \<^item> \<open>SavePlanner\<close>, \<open>PlannerProperties\<close>: the reconciliation functions of \<open>services/saves.py\<close>: previews,
      plans, desired manifests, shared manifests, group states and journal entries.
    \<^item> \<open>SaveState\<close>: \<open>infrastructure/savesync_state.py\<close>, the durable state of a device: its validation, its
      document and those of earlier versions, the operations on its file, the transitions of groups and conflicts.
      \<open>StateDocument\<close> says what validation and reading accept, \<open>StateProperties\<close> what the operations keep.
    \<^item> \<open>SaveContainers\<close>, \<open>ContainerAdapter\<close>: the three-way planner for logical containers and the contract of an
      adapter (the locale \<open>container_adapter\<close>).  \<open>Ps1Card\<close>, \<open>Ps1Layout\<close>, \<open>Ps1Rebuild\<close>, \<open>Ps1Properties\<close>: the adapter
      for raw PlayStation cards, byte for byte, and its interpretation as such an adapter.
    \<^item> \<open>SaveDisk\<close>, \<open>SaveTransaction\<close>: a disk as a tree, operations that may raise or die at every step,
      and \<open>infrastructure/save_transaction.py\<close> written with them.  \<open>TransactionLogic\<close> is a program logic for these
      operations, \<open>TransactionState\<close> the invariants, \<open>TransactionPrepare\<close>, \<open>TransactionApply\<close>,
      \<open>TransactionRollback\<close>, \<open>TransactionFinalize\<close>, \<open>TransactionJournal\<close> and \<open>TransactionRecovery\<close> the proofs of each
      phase, \<open>TransactionProperties\<close> the results.
    \<^item> \<open>Journal\<close>: \<open>infrastructure/savesync_journal.py\<close>.  \<open>SaveIndex\<close>, \<open>IndexStore\<close>, \<open>IndexPublish\<close>:
      documents, storage and publication of \<open>infrastructure/savesync_index.py\<close>; \<open>IndexProofs\<close>, \<open>IndexCommit\<close> and
      \<open>IndexProperties\<close> relate a commit to a map from groups to versions.
      \<open>CommitIntent\<close>, \<open>CommitLock\<close>: \<open>infrastructure/savesync_commit.py\<close>, the lock as a step relation.
    \<^item> \<open>CatalogDatabase\<close>, \<open>DownloadQueue\<close>, \<open>StagingStore\<close>: the tables of \<open>infrastructure/database.py\<close> and
      the queries of \<open>infrastructure/repositories/download.py\<close>.  \<open>DownloadManager\<close>: \<open>services/download_manager.py\<close>
      as a step relation between the worker and the callers, under \<open>core/capabilities.py\<close>.
      \<open>AssetLocks\<close>, \<open>CacheStorage\<close>: \<open>infrastructure/cache_coordination.py\<close>; the first rests on the locale
      \<open>ordered_locks\<close>, interpreted on the model of the locks, the second covers admission and leases, not the transfers that write under
      them.  \<open>CachePaths\<close>: \<open>core/cache_paths.py\<close>.
      \<open>CueParser\<close>: \<open>core/cue_parser.py\<close> and \<open>core/dependency_resolvers.py\<close>.

  \<^bold>\<open>What is shown.\<close>
    \<^item> Transactions: whatever fails, and wherever the process dies, recovery brings back the files as they were
      until the completion receipt exists, and finishes the operation afterwards; a file that is neither the old nor the new
      version is never overwritten.
    \<^item> Planner: the plan is the three-way comparison of whole groups; only shared versions are replaced; a second
      run changes nothing; previews, group states and journal entries agree with the plan.
    \<^item> Scans: a provider that serves a disk is scanned as the disk is, and a scan finds exactly the eligible files.
    \<^item> Containers and cards: the merge of entries, and that a rebuilt card holds the planned entries or is refused,
      also when a system call of the rebuild fails (\<open>rebuild_on\<close>; the other card operations are runs without such failures).
    \<^item> Index, journal, intent, lock: a commit overlays exactly its groups, expectations conflict exactly when
      a group was replaced, documents read back, failures leave the old documents, the lock excludes and makes progress.
    \<^item> Local state: a valid state written is read back, whatever is read is valid, every history of transitions keeps it
      valid, marks of the two sides commute, a recorded conflict is the only open one of its group, and a mutation that
      raises leaves the file as it was.
    \<^item> Downloads and cache: one active download for each game, nothing fetched while offline, first come first served,
      durable reservations cover the growth promised to live transfers in every interleaving, the locks of assets never deadlock, paths stay below their roots.

  \<^bold>\<open>Failures, bounds and fuel.\<close>  Errors are values.  A transaction runs over a schedule of events, one for each
  file operation (perform, raise, die), quantified over in the properties; a schedule that has ended performs, and recovery may be
  interrupted any number of times.  The listing loop of a provider takes a unit of fuel for each directory it lists,
  because a provider might nest directories for ever; \<open>scans_agree\<close> shows that one unit more than the directories of the
  disk is enough.  All other loops are structural or have a termination proof.  The numbers of the code (512 journal entries,
  the sizes of a card, chunks and batches, history limits) are definitions of their theories.

  \<^bold>\<open>Assumptions on code that is not here.\<close>  SHA-256 is computed; where a proof needs that different contents have
  different digests this is a hypothesis on the contents at hand.  A provider is the function that answers its listings and
  reads (\<open>serves\<close>).  An atomic write is one step that may raise.  Text is ASCII-folded where the code folds case, and characters
  are code points below 256.

  \<^bold>\<open>Not modelled.\<close>  In \<open>services/saves.py\<close> the service object around the planner: access to the provider, staging of
  containers, the order of the steps of a run and the choice of a scope by Quick Sync.  The services that move bytes
  (\<open>services/cache.py\<close>, \<open>services/transfer.py\<close>, \<open>services/library_sync.py\<close>), the providers, mounts, credentials,
  configuration files, installation and update, the command line, the web server, the graphical front end and the integration
  into the host system: network, system calls, third-party libraries, formatting and drawing, with little logic of their own.
  Log lines, diagnostics and progress events are left out everywhere.
\<close>

end
